(* ===== verification/Prelude.thy ===== *)
theory Prelude
  imports Main "HOL-Library.Word" "HOL-Library.Monad_Syntax"
begin

text \<open>
  Shared vocabulary of the development: the C integer types as words, checked array
  accesses, the generic ring of cells used by every circular buffer of the program, and
  the lemma collections the component theories rely on.

  A C operation that would have undefined behaviour (an array access out of bounds, a
  division by zero, a dereference of NULL, a shift by at least the width) has the value
  \<open>None\<close> in the model; \<open>Some\<close> is a normal return.
\<close>

unbundle bit_operations_syntax

type_synonym u8 = "8 word"
type_synonym u32 = "32 word"
type_synonym u64 = "64 word"

named_theorems mem_simps \<open>evaluation of checked memory accesses\<close>

section \<open>Checked array accesses\<close>

definition rd :: "'a list \<Rightarrow> nat \<Rightarrow> 'a option" where
  "rd xs i = (if i < length xs then Some (xs ! i) else None)"

definition wr :: "'a list \<Rightarrow> nat \<Rightarrow> 'a \<Rightarrow> 'a list option" where
  "wr xs i x = (if i < length xs then Some (xs[i := x]) else None)"

text \<open>The same with a signed index.\<close>

definition rd_int :: "'a list \<Rightarrow> int \<Rightarrow> 'a option" where
  "rd_int xs i = (if i < 0 then None else rd xs (nat i))"

definition wr_int :: "'a list \<Rightarrow> int \<Rightarrow> 'a \<Rightarrow> 'a list option" where
  "wr_int xs i x = (if i < 0 then None else wr xs (nat i) x)"

text \<open>A result that must fit in an \<open>int\<close>: overflow is undefined.\<close>

definition INT_MAX :: int where "INT_MAX = 0x7FFFFFFF"

definition c_int :: "int \<Rightarrow> int option" where
  "c_int x = (if - INT_MAX - 1 \<le> x \<and> x \<le> INT_MAX then Some x else None)"

text \<open>\<open>slice xs i n\<close> reads \<open>n\<close> cells from \<open>i\<close>; \<open>blit xs i ys\<close> is
  \<open>memcpy(&xs[i], ys, length ys)\<close>.\<close>

definition slice :: "'a list \<Rightarrow> nat \<Rightarrow> nat \<Rightarrow> 'a list option" where
  "slice xs i n = (if i + n \<le> length xs then Some (take n (drop i xs)) else None)"

definition blit :: "'a list \<Rightarrow> nat \<Rightarrow> 'a list \<Rightarrow> 'a list option" where
  "blit xs i ys =
     (if i + length ys \<le> length xs
      then Some (take i xs @ ys @ drop (i + length ys) xs) else None)"

text \<open>C division of signed integers truncates towards zero.\<close>

definition cdiv :: "int \<Rightarrow> int \<Rightarrow> int" where
  "cdiv a b = sgn a * sgn b * (\<bar>a\<bar> div \<bar>b\<bar>)"

definition cmod :: "int \<Rightarrow> int \<Rightarrow> int" where
  "cmod a b = a - b * cdiv a b"

lemma rd_Some [mem_simps]: "i < length xs \<Longrightarrow> rd xs i = Some (xs ! i)"
  by (simp add: rd_def)

lemma rd_None [mem_simps]: "length xs \<le> i \<Longrightarrow> rd xs i = None"
  by (simp add: rd_def)

lemma wr_Some [mem_simps]: "i < length xs \<Longrightarrow> wr xs i x = Some (xs[i := x])"
  by (simp add: wr_def)

lemma wr_None [mem_simps]: "length xs \<le> i \<Longrightarrow> wr xs i x = None"
  by (simp add: wr_def)

lemma rd_int_Some [mem_simps]: "0 \<le> i \<Longrightarrow> nat i < length xs \<Longrightarrow> rd_int xs i = Some (xs ! nat i)"
  by (simp add: rd_int_def rd_def)

lemma wr_int_Some [mem_simps]: "0 \<le> i \<Longrightarrow> nat i < length xs \<Longrightarrow> wr_int xs i x = Some (xs[nat i := x])"
  by (simp add: wr_int_def wr_def)

lemma c_int_Some [mem_simps]: "- INT_MAX - 1 \<le> x \<Longrightarrow> x \<le> INT_MAX \<Longrightarrow> c_int x = Some x"
  by (simp add: c_int_def)

lemma slice_Some [mem_simps]: "i + n \<le> length xs \<Longrightarrow> slice xs i n = Some (take n (drop i xs))"
  by (simp add: slice_def)

lemma blit_Some [mem_simps]:
  "i + length ys \<le> length xs \<Longrightarrow>
   blit xs i ys = Some (take i xs @ ys @ drop (i + length ys) xs)"
  by (simp add: blit_def)

lemma cdiv_nonneg: "0 \<le> a \<Longrightarrow> 0 \<le> b \<Longrightarrow> cdiv a b = a div b"
  by (cases "a = 0"; cases "b = 0") (simp_all add: cdiv_def)

lemma cmod_nonneg: "0 \<le> a \<Longrightarrow> 0 \<le> b \<Longrightarrow> cmod a b = a mod b"
  by (simp add: cmod_def cdiv_nonneg minus_mult_div_eq_mod)

section \<open>Loops with failing bodies\<close>

fun foldM :: "('a \<Rightarrow> 's \<Rightarrow> 's option) \<Rightarrow> 'a list \<Rightarrow> 's \<Rightarrow> 's option" where
  "foldM f [] s = Some s"
| "foldM f (x # xs) s = do { s \<leftarrow> f x s; foldM f xs s }"

lemma foldM_append: "foldM f (xs @ ys) s = do { s \<leftarrow> foldM f xs s; foldM f ys s }"
  by (induction xs arbitrary: s) (simp_all split: Option.bind_split)

lemma foldM_invariant:
  assumes "I [] s"
    and "\<And>d x r s. xs = d @ x # r \<Longrightarrow> I d s \<Longrightarrow> \<exists>s'. f x s = Some s' \<and> I (d @ [x]) s'"
  shows "\<exists>s'. foldM f xs s = Some s' \<and> I xs s'"
  using assms(2)
proof (induction xs rule: rev_induct)
  case Nil
  then show ?case using assms(1) by simp
next
  case (snoc x xs)
  have "\<exists>s'. f y s = Some s' \<and> I (d @ [y]) s'" if "xs = d @ y # r" "I d s" for d y r s
    using snoc.prems [of d y "r @ [x]" s] that by simp
  then have "\<exists>s'. foldM f xs s = Some s' \<and> I xs s'" by (rule snoc.IH)
  then obtain s1 where s1: "foldM f xs s = Some s1" "I xs s1" by blast
  then obtain s2 where "f x s1 = Some s2" "I (xs @ [x]) s2" using snoc.prems [of xs x "[]"] by auto
  with s1 show ?case by (simp add: foldM_append)
qed

lemma foldM_upt:
  assumes "I 0 s"
    and "\<And>i s. i < n \<Longrightarrow> I i s \<Longrightarrow> \<exists>s'. f i s = Some s' \<and> I (Suc i) s'"
  shows "\<exists>s'. foldM f [0..<n] s = Some s' \<and> I n s'"
  using assms(2)
proof (induction n)
  case 0
  then show ?case using assms(1) by simp
next
  case (Suc n)
  then obtain s1 where s1: "foldM f [0..<n] s = Some s1" "I n s1" by (meson less_SucI)
  then obtain s2 where "f n s1 = Some s2" "I (Suc n) s2" using Suc.prems by blast
  with s1 show ?case by (simp add: foldM_append)
qed

lemma foldM_upt_from:
  assumes "m \<le> n" and "I m s"
    and "\<And>i s. m \<le> i \<Longrightarrow> i < n \<Longrightarrow> I i s \<Longrightarrow> \<exists>s'. f i s = Some s' \<and> I (Suc i) s'"
  shows "\<exists>s'. foldM f [m..<n] s = Some s' \<and> I n s'"
  using assms(1,3)
proof (induction n rule: dec_induct)
  case base
  then show ?case using assms(2) by simp
next
  case (step n)
  then obtain s1 where s1: "foldM f [m..<n] s = Some s1" "I n s1" by (meson less_SucI)
  then obtain s2 where "f n s1 = Some s2" "I (Suc n) s2" using step by blast
  with s1 step(1) show ?case by (simp add: foldM_append)
qed

section \<open>The last cells of a list\<close>

definition lastn :: "nat \<Rightarrow> 'a list \<Rightarrow> 'a list" where
  "lastn k xs = drop (length xs - k) xs"

lemma length_lastn [simp]: "length (lastn k xs) = min k (length xs)"
  by (simp add: lastn_def min_def)

lemma lastn_all: "length xs \<le> k \<Longrightarrow> lastn k xs = xs"
  by (simp add: lastn_def)

lemma lastn_snoc_lastn: "lastn k (lastn k xs @ ys) = lastn k (xs @ ys)"
proof (cases "length xs \<le> k")
  case True
  then show ?thesis by (simp add: lastn_def)
next
  case False
  then have "length xs + length ys - k = (length xs - k) + length ys" by simp
  with False show ?thesis by (simp add: lastn_def add.commute)
qed

section \<open>A ring of cells\<close>

text \<open>\<open>s\<close> cells of the array \<open>d\<close>, starting at \<open>h\<close> and wrapping at its end.\<close>

definition ring_items :: "'a list \<Rightarrow> nat \<Rightarrow> nat \<Rightarrow> 'a list" where
  "ring_items d h s = map (\<lambda>i. d ! ((h + i) mod length d)) [0..<s]"

fun ring_write :: "'a list \<Rightarrow> nat \<Rightarrow> 'a list \<Rightarrow> 'a list" where
  "ring_write d p [] = d"
| "ring_write d p (x # xs) = ring_write (d[p mod length d := x]) (Suc p) xs"

lemma length_ring_items [simp]: "length (ring_items d h s) = s"
  by (simp add: ring_items_def)

lemma length_ring_write [simp]: "length (ring_write d p xs) = length d"
  by (induction xs arbitrary: d p) auto

lemma ring_write_append:
  "ring_write d p (xs @ ys) = ring_write (ring_write d p xs) (p + length xs) ys"
  by (induction xs arbitrary: d p) auto

lemma ring_write_mod: "ring_write d (p mod length d) xs = ring_write d p xs"
proof (induction xs arbitrary: d p)
  case Nil
  show ?case by simp
next
  case (Cons x xs)
  let ?d = "d[p mod length d := x]"
  have "ring_write ?d (Suc (p mod length d)) xs = ring_write ?d (Suc p) xs"
    using Cons [of ?d "Suc (p mod length d)"] Cons [of ?d "Suc p"] by (simp add: mod_Suc_eq)
  then show ?case by simp
qed

lemma ring_write_blit:
  "p + length xs \<le> length d \<Longrightarrow>
   ring_write d p xs = take p d @ xs @ drop (p + length xs) d"
proof (induction xs arbitrary: d p)
  case Nil
  then show ?case by simp
next
  case (Cons x xs)
  then show ?case
    by (simp add: take_Suc_conv_app_nth)
qed

lemma ring_write_cong:
  "p mod length d = q mod length d \<Longrightarrow> ring_write d p xs = ring_write d q xs"
  by (metis ring_write_mod)

lemma ring_items_mod: "ring_items d (h mod length d) s = ring_items d h s"
  by (simp add: ring_items_def mod_add_left_eq)

lemma mod_add_inj:
  "i < n \<Longrightarrow> j < n \<Longrightarrow> (h + i) mod n = (h + j) mod n \<Longrightarrow> i = (j::nat)"
proof (induction i j rule: linorder_wlog)
  case (le i j)
  then have "(h + j) mod n = (h + i) mod n" by simp
  with le(1) have "n dvd (h + j) - (h + i)" by (subst (asm) mod_eq_dvd_iff_nat) simp_all
  then have "n dvd j - i" by simp
  moreover have "j - i < n" using le by simp
  ultimately have "j - i = 0" using dvd_imp_le by fastforce
  with le show ?case by simp
next
  case (sym i j)
  then show ?case by simp
qed

lemma ring_items_update_other:
  assumes "s < length d" and "p = (h + s) mod length d"
  shows "ring_items (d[p := x]) h s = ring_items d h s"
proof -
  have "(h + i) mod length d \<noteq> p" if "i < s" for i
    using assms that by (metis less_imp_neq mod_add_inj order.strict_trans)
  then show ?thesis by (auto simp: ring_items_def) (metis nth_list_update_neq)
qed

text \<open>One insertion of an overwriting ring: append while there is room, otherwise replace
  the oldest cell and advance the head. Both write the cell after the last one.\<close>

fun ring_step :: "'a list \<times> nat \<times> nat \<Rightarrow> 'a \<Rightarrow> 'a list \<times> nat \<times> nat" where
  "ring_step (d, h, s) x =
     (d[(h + s) mod length d := x],
      (if s = length d then (h + 1) mod length d else h),
      (if s = length d then s else s + 1))"

fun ring_view :: "'a list \<times> nat \<times> nat \<Rightarrow> 'a list" where
  "ring_view (d, h, s) = ring_items d h s"

lemma ring_items_Suc: "ring_items d h (Suc s) = ring_items d h s @ [d ! ((h + s) mod length d)]"
  by (simp add: ring_items_def)

lemma ring_items_tail:
  "ring_items d h (Suc s) = d ! (h mod length d) # ring_items d (Suc h) s"
  by (simp add: ring_items_def map_upt_Suc del: upt_Suc)

lemma ring_step_room:
  assumes "s < length d"
  shows "ring_view (ring_step (d, h, s) x) = ring_items d h s @ [x]"
proof -
  have "(h + s) mod length d < length d" using assms by (intro mod_less_divisor) linarith
  then show ?thesis using assms by (simp add: ring_items_Suc ring_items_update_other)
qed

lemma ring_step_full:
  assumes "0 < length d"
  shows "ring_view (ring_step (d, h, length d) x) = tl (ring_items d h (length d)) @ [x]"
proof -
  obtain n where n: "length d = Suc n" using assms by (cases "length d") auto
  let ?d = "d[h mod length d := x]"
  have p: "(Suc h + n) mod length d = h mod length d" using n mod_add_self2 [of h "length d"] by simp
  have "ring_items ?d (Suc h) n = ring_items d (Suc h) n"
    by (rule ring_items_update_other) (use n p in simp_all)
  then have "ring_items ?d (Suc h) (Suc n) = ring_items d (Suc h) n @ [x]"
    using p n assms by (simp add: ring_items_Suc del: add_Suc)
  moreover have "ring_items ?d (Suc h mod length d) (Suc n) = ring_items ?d (Suc h) (Suc n)"
    using ring_items_mod [of ?d "Suc h" "Suc n"] by simp
  moreover have "(h + length d) mod length d = h mod length d" by simp
  ultimately have "ring_items (d[(h + length d) mod length d := x]) ((h + 1) mod length d) (length d)
      = ring_items d (Suc h) n @ [x]"
    using n by (simp only: Suc_eq_plus1 length_list_update)
  then show ?thesis using ring_items_tail [of d h n] n by simp
qed

lemma ring_step_view:
  assumes "s \<le> length d" and "0 < length d"
  shows "ring_view (ring_step (d, h, s) x) = lastn (length d) (ring_items d h s @ [x])"
proof (cases "s = length d")
  case True
  then show ?thesis using ring_step_full [OF assms(2), of h x] assms(2)
    by (cases "length d") (simp_all add: lastn_def drop_Suc)
next
  case False
  with assms(1) have "s < length d" by simp
  then show ?thesis using ring_step_room [of s d h x] by (simp add: lastn_all del: ring_step.simps)
qed

text \<open>A run of insertions: its effect in closed form, and what the ring then holds.\<close>

lemma foldl_ring_step:
  assumes "s \<le> length d" and "0 < length d" and "h < length d"
  shows "foldl ring_step (d, h, s) xs =
    (ring_write d (h + s) xs,
     (if s + length xs \<le> length d then h else (h + (s + length xs - length d)) mod length d),
     min (length d) (s + length xs))"
  using assms
proof (induction xs arbitrary: d h s)
  case Nil
  then show ?case by simp
next
  case (Cons x xs)
  let ?d = "d[(h + s) mod length d := x]"
  show ?case
  proof (cases "s = length d")
    case True
    have w: "ring_write ?d (Suc h mod length d + length d) xs = ring_write ?d (Suc (h + s)) xs"
      by (rule ring_write_cong) (use True in \<open>simp add: mod_simps flip: add_Suc\<close>)
    show ?thesis using Cons.prems True w Cons.IH [of "length d" ?d "Suc h mod length d"]
      by (auto simp: mod_simps min_def)
  next
    case False
    then show ?thesis using Cons.prems Cons.IH [of "Suc s" ?d h] by (auto simp: min_def)
  qed
qed

lemma foldl_ring_view:
  assumes "s \<le> length d" and "0 < length d"
  shows "ring_view (foldl ring_step (d, h, s) xs) = lastn (length d) (ring_items d h s @ xs)"
  using assms
proof (induction xs arbitrary: d h s)
  case Nil
  then show ?case by (simp add: lastn_all)
next
  case (Cons x xs)
  obtain d' h' s' where st: "ring_step (d, h, s) x = (d', h', s')" by (cases "ring_step (d, h, s) x")
  then have len: "length d' = length d" and s': "s' \<le> length d" using Cons.prems by auto
  have "ring_view (foldl ring_step (d, h, s) (x # xs)) = lastn (length d) (ring_items d' h' s' @ xs)"
    using Cons.IH [of s' d' h'] Cons.prems s' len st by simp
  also have "ring_items d' h' s' = lastn (length d) (ring_items d h s @ [x])"
    using ring_step_view [OF Cons.prems, of h x] st by simp
  also have "lastn (length d) (\<dots> @ xs) = lastn (length d) (ring_items d h s @ x # xs)"
    by (simp add: lastn_snoc_lastn)
  finally show ?case .
qed

text \<open>Reading \<open>n\<close> cells from the front, as one block or as two around the end.\<close>

lemma ring_items_take: "n \<le> s \<Longrightarrow> take n (ring_items d h s) = ring_items d h n"
  by (simp add: ring_items_def take_map)

lemma ring_items_drop: "n \<le> s \<Longrightarrow> drop n (ring_items d h s) = ring_items d (h + n) (s - n)"
proof (rule nth_equalityI)
  assume n: "n \<le> s"
  show "length (drop n (ring_items d h s)) = length (ring_items d (h + n) (s - n))" by simp
  fix i assume "i < length (drop n (ring_items d h s))"
  then have "n + i < s" using n by simp
  then have "[0..<s] ! (n + i) = n + i" by (subst nth_upt) simp_all
  with \<open>n + i < s\<close> n show "drop n (ring_items d h s) ! i = ring_items d (h + n) (s - n) ! i"
    by (simp add: ring_items_def add.assoc)
qed

lemma ring_items_append: "ring_items d h (m + n) = ring_items d h m @ ring_items d (h + m) n"
  using ring_items_take [of m "m + n" d h] ring_items_drop [of m "m + n" d h]
  by (metis append_take_drop_id add_diff_cancel_left' le_add1)

lemma ring_items_block: "h + n \<le> length d \<Longrightarrow> ring_items d h n = take n (drop h d)"
  by (rule nth_equalityI) (auto simp: ring_items_def)

section \<open>Word facts\<close>

lemma sint_u32_small: "unat (w :: u32) < 2147483648 \<Longrightarrow> sint w = int (unat w)"
proof -
  assume "unat w < 2147483648"
  then have "- 2147483648 \<le> uint w \<and> uint w < 2147483648" using uint_nat [of w] by linarith
  then have "sint w = uint w"
    unfolding sint_uint by (intro signed_take_bit_int_eq_self) simp_all
  then show ?thesis by simp
qed

lemma unat_word_of_int_u32: "n < 4294967296 \<Longrightarrow> unat (word_of_int (int n) :: u32) = n"
  by (simp add: unat_of_nat take_bit_nat_eq_self)

lemma unat_add_u32: "unat (a :: u32) + unat b < 4294967296 \<Longrightarrow> unat (a + b) = unat a + unat b"
  by (simp add: unat_word_ariths)

lemma unat_sub_u32: "unat b \<le> unat (a :: u32) \<Longrightarrow> unat (a - b) = unat a - unat b"
  by (simp add: unat_sub word_le_nat_alt)

lemma unat_Suc_u32: "unat (a :: u32) < 4294967295 \<Longrightarrow> unat (a + 1) = Suc (unat a)"
  by (simp add: unat_word_ariths)

lemmas u32_simps = sint_u32_small unat_word_of_int_u32 unat_add_u32 unat_sub_u32 unat_Suc_u32
  unat_mod word_less_nat_alt word_le_nat_alt

end
