(* ===== verification/CBuffer.thy ===== *)
theory CBuffer
  imports Prelude
begin

text \<open>
  The byte ring buffer of \<^verbatim>\<open>cbuffer.c\<close> (samples travel through it from the kernel to
  the monitor process) and the fixed-size ring of \<^verbatim>\<open>mc_cbuffer.h\<close> (the window of a metric
  smoother). Unsigned fields are 32-bit words, the C \<open>int\<close> arguments and locals are integers
  that are converted to words exactly where the C expressions mix the two. Both rings are
  interpretations of one interface, an overwriting FIFO.
\<close>

section \<open>The interface: an overwriting FIFO\<close>

fun push_all :: "('q \<Rightarrow> 'a \<Rightarrow> 'q option) \<Rightarrow> 'q \<Rightarrow> 'a list \<Rightarrow> 'q option" where
  "push_all push q [] = Some q"
| "push_all push q (x # xs) = do { q' \<leftarrow> push q x; push_all push q' xs }"

locale overwriting_fifo =
  fixes inv :: "'q \<Rightarrow> bool"
    and items :: "'q \<Rightarrow> 'a list"
    and cap :: "'q \<Rightarrow> nat"
    and push :: "'q \<Rightarrow> 'a \<Rightarrow> 'q option"
  assumes push_ok: "inv q \<Longrightarrow> \<exists>q'. push q x = Some q' \<and> inv q' \<and> cap q' = cap q \<and>
      items q' = lastn (cap q) (items q @ [x])"
    and items_le: "inv q \<Longrightarrow> length (items q) \<le> cap q"
begin

lemma push_all_ok:
  assumes "inv q"
  shows "\<exists>q'. push_all push q xs = Some q' \<and> inv q' \<and> cap q' = cap q \<and>
    items q' = lastn (cap q) (items q @ xs)"
  using assms
proof (induction xs arbitrary: q)
  case Nil
  then show ?case using items_le by (simp add: lastn_all)
next
  case (Cons x xs)
  obtain q1 where q1: "push q x = Some q1" "inv q1" "cap q1 = cap q"
    "items q1 = lastn (cap q) (items q @ [x])"
    using push_ok [OF Cons.prems] by blast
  from Cons.IH [OF q1(2)] obtain q2 where "push_all push q1 xs = Some q2" "inv q2"
    "cap q2 = cap q" "items q2 = lastn (cap q) (items q1 @ xs)"
    using q1(3) by auto
  then show ?case using q1 by (simp add: lastn_snoc_lastn)
qed

lemma push_all_forgets:
  assumes "inv q" and "cap q \<le> length xs"
  shows "\<exists>q'. push_all push q xs = Some q' \<and> items q' = lastn (cap q) xs"
  using push_all_ok [OF assms(1), of xs] assms(2) by (auto simp: lastn_def)

end

section \<open>The byte ring: state and operations\<close>

record cbuffer_t =
  cb_data :: "u8 list"
  cb_head :: u32
  cb_size :: u32
  cb_max_size :: u32

text \<open>The allocator is the kernel's: \<open>alloc n\<close> is a block of \<open>n\<close> bytes or a failure. The
  second component of the result counts the headers that stay allocated.\<close>

definition create_cbuffer_t ::
  "bool \<Rightarrow> (nat \<Rightarrow> u8 list option) \<Rightarrow> u32 \<Rightarrow> cbuffer_t option \<times> nat" where
  "create_cbuffer_t header_ok alloc max_size =
     (if \<not> header_ok then (None, 0)
      else case alloc (unat max_size) of
        None \<Rightarrow> (None, 1)
      | Some bytes \<Rightarrow>
          (Some \<lparr>cb_data = bytes, cb_head = 0, cb_size = 0, cb_max_size = max_size\<rparr>, 1))"

definition size_cbuffer_t :: "cbuffer_t \<Rightarrow> int" where
  "size_cbuffer_t cb = sint (cb_size cb)"

definition nr_gaps_cbuffer_t :: "cbuffer_t \<Rightarrow> int" where
  "nr_gaps_cbuffer_t cb = sint (cb_max_size cb - cb_size cb)"

definition is_full_cbuffer_t :: "cbuffer_t \<Rightarrow> bool" where
  "is_full_cbuffer_t cb \<longleftrightarrow> cb_size cb = cb_max_size cb"

definition is_empty_cbuffer_t :: "cbuffer_t \<Rightarrow> bool" where
  "is_empty_cbuffer_t cb \<longleftrightarrow> cb_size cb = 0"

definition insert_cbuffer_t :: "cbuffer_t \<Rightarrow> u8 \<Rightarrow> cbuffer_t option" where
  "insert_cbuffer_t cb new_item =
     (if cb_size cb = cb_max_size cb then do {
        d \<leftarrow> wr (cb_data cb) (unat (cb_head cb)) new_item;
        Some (cb\<lparr>cb_data := d,
                cb_head := (if cb_size cb \<noteq> 0 then (cb_head cb + 1) mod cb_max_size cb
                            else cb_head cb)\<rparr>)
      } else do {
        let pos = (if cb_max_size cb \<noteq> 0
                   then (cb_head cb + cb_size cb) mod cb_max_size cb else 0);
        d \<leftarrow> wr (cb_data cb) (unat pos) new_item;
        Some (cb\<lparr>cb_data := d, cb_size := cb_size cb + 1\<rparr>)
      })"

text \<open>\<open>memcpy(&d[off], &src[soff], n)\<close> and the bytes \<open>memcpy(dst, &d[off], n)\<close> copies out; a
  negative \<open>n\<close> becomes a huge \<open>size_t\<close>, so both copies then run out of bounds.\<close>

definition memcpy_in :: "u8 list \<Rightarrow> int \<Rightarrow> u8 list \<Rightarrow> int \<Rightarrow> int \<Rightarrow> u8 list option" where
  "memcpy_in d off src soff n =
     (if 0 \<le> off \<and> 0 \<le> soff \<and> 0 \<le> n then do {
        bs \<leftarrow> slice src (nat soff) (nat n);
        blit d (nat off) bs
      } else None)"

definition memcpy_out :: "u8 list \<Rightarrow> u32 \<Rightarrow> int \<Rightarrow> u8 list option" where
  "memcpy_out d off n = (if 0 \<le> n then slice d (unat off) (nat n) else None)"

definition insert_items_cbuffer_t :: "cbuffer_t \<Rightarrow> u8 list \<Rightarrow> int \<Rightarrow> cbuffer_t option" where
  "insert_items_cbuffer_t cb vitems nr_items =
     (if cb_max_size cb = 0 then None
      else let
        nr_gaps = sint (cb_max_size cb - cb_size cb);
        whead = sint ((cb_head cb + cb_size cb) mod cb_max_size cb)
      in if word_of_int nr_items > cb_max_size cb then Some cb
      else do {
        (d, items, nr_items_left, whead) \<leftarrow>
          (if word_of_int (whead + nr_items) > cb_max_size cb then do {
             let items_copied = sint (cb_max_size cb - word_of_int whead);
             d \<leftarrow> memcpy_in (cb_data cb) whead vitems 0 items_copied;
             Some (d, items_copied, nr_items - items_copied, 0)
           } else Some (cb_data cb, 0, nr_items, whead));
        d \<leftarrow> (if nr_items_left \<noteq> 0 then memcpy_in d whead vitems items nr_items_left else Some d);
        Some (if nr_gaps \<ge> nr_items
              then cb\<lparr>cb_data := d, cb_size := cb_size cb + word_of_int nr_items\<rparr>
              else cb\<lparr>cb_data := d, cb_size := cb_max_size cb,
                      cb_head := (cb_head cb + word_of_int (nr_items - nr_gaps)) mod cb_max_size cb\<rparr>)
      })"

text \<open>The second component is what is stored through \<open>vitems\<close>.\<close>

definition remove_items_cbuffer_t :: "cbuffer_t \<Rightarrow> int \<Rightarrow> (cbuffer_t \<times> u8 list) option" where
  "remove_items_cbuffer_t cb nr_items =
     (if word_of_int nr_items > cb_size cb then Some (cb, [])
      else do {
        (out, nr_items_left, head) \<leftarrow>
          (if cb_head cb + word_of_int nr_items > cb_max_size cb then do {
             let items_copied = sint (cb_max_size cb - cb_head cb);
             out \<leftarrow> memcpy_out (cb_data cb) (cb_head cb) items_copied;
             Some (out, nr_items - items_copied, 0)
           } else Some ([], nr_items, cb_head cb));
        (out, head) \<leftarrow>
          (if nr_items_left \<noteq> 0 then do {
             out2 \<leftarrow> memcpy_out (cb_data cb) head nr_items_left;
             Some (out @ out2, head + word_of_int nr_items_left)
           } else Some (out, head));
        Some (cb\<lparr>cb_head := head, cb_size := cb_size cb - word_of_int nr_items\<rparr>, out)
      })"

definition remove_cbuffer_t_batch :: "cbuffer_t \<Rightarrow> int \<Rightarrow> (cbuffer_t \<times> u8 list \<times> int) option" where
  "remove_cbuffer_t_batch cb max_nr_items =
     (let nr_items = (if word_of_int max_nr_items > cb_size cb then sint (cb_size cb)
                      else max_nr_items)
      in if nr_items \<noteq> 0 then do {
           (cb', out) \<leftarrow> remove_items_cbuffer_t cb nr_items;
           Some (cb', out, nr_items)
         } else Some (cb, [], nr_items))"

definition remove_cbuffer_t :: "cbuffer_t \<Rightarrow> (cbuffer_t \<times> u8) option" where
  "remove_cbuffer_t cb =
     (if cb_size cb \<noteq> 0 then do {
        ret \<leftarrow> rd (cb_data cb) (unat (cb_head cb));
        if cb_max_size cb = 0 then None
        else Some (cb\<lparr>cb_head := (cb_head cb + 1) mod cb_max_size cb,
                      cb_size := cb_size cb - 1\<rparr>, ret)
      } else Some (cb, 0))"

definition clear_cbuffer_t :: "cbuffer_t \<Rightarrow> cbuffer_t" where
  "clear_cbuffer_t cb = cb\<lparr>cb_size := 0, cb_head := 0\<rparr>"

text \<open>The address of the first element: its index in \<open>data\<close>, \<open>None\<close> for NULL.\<close>

definition head_cbuffer_t :: "cbuffer_t \<Rightarrow> nat option" where
  "head_cbuffer_t cb = (if cb_size cb \<noteq> 0 then Some (unat (cb_head cb)) else None)"

record iterator_cbuffer_t =
  it_chunk_size :: int
  it_cur_item :: int
  it_cur_pos :: int

definition get_iterator_cbuffer_t :: "cbuffer_t \<Rightarrow> int \<Rightarrow> iterator_cbuffer_t" where
  "get_iterator_cbuffer_t cb chunk_size =
     \<lparr>it_chunk_size = chunk_size, it_cur_item = 0, it_cur_pos = sint (cb_head cb)\<rparr>"

definition iterator_next_cbuffer_t ::
  "cbuffer_t \<Rightarrow> iterator_cbuffer_t \<Rightarrow> iterator_cbuffer_t \<times> int option" where
  "iterator_next_cbuffer_t cb it =
     (if word_of_int (it_cur_item it) \<ge> cb_size cb then (it, None)
      else let
        ptr = it_cur_pos it;
        pos = it_cur_pos it + it_chunk_size it;
        pos' = (if word_of_int pos \<ge> cb_max_size cb
                then sint (word_of_int pos - cb_max_size cb :: u32) else pos)
      in (it\<lparr>it_cur_item := it_cur_item it + it_chunk_size it, it_cur_pos := pos'\<rparr>, Some ptr))"

section \<open>Invariant and contents\<close>

text \<open>\<open>cb_strict\<close> is the invariant the header file states (\<open>head\<close> in \<open>[0 .. max_size-1]\<close>);
  \<open>cb_wf\<close> is what the block operations really keep: a block removal that ends at the end of
  the array leaves \<open>head = max_size\<close>.\<close>

definition cb_wf :: "cbuffer_t \<Rightarrow> bool" where
  "cb_wf cb \<longleftrightarrow> length (cb_data cb) = unat (cb_max_size cb) \<and> 0 < unat (cb_max_size cb) \<and>
     unat (cb_max_size cb) < 2 ^ 31 \<and> cb_size cb \<le> cb_max_size cb \<and> cb_head cb \<le> cb_max_size cb"

definition cb_strict :: "cbuffer_t \<Rightarrow> bool" where
  "cb_strict cb \<longleftrightarrow> cb_wf cb \<and> cb_head cb < cb_max_size cb"

definition cb_contents :: "cbuffer_t \<Rightarrow> u8 list" where
  "cb_contents cb = ring_items (cb_data cb) (unat (cb_head cb)) (unat (cb_size cb))"

lemma cb_wfD:
  assumes "cb_wf cb"
  shows "length (cb_data cb) = unat (cb_max_size cb)" "0 < unat (cb_max_size cb)"
    "unat (cb_max_size cb) < 2147483648" "unat (cb_size cb) \<le> unat (cb_max_size cb)"
    "unat (cb_head cb) \<le> unat (cb_max_size cb)" "cb_max_size cb \<noteq> 0"
  using assms by (auto simp: cb_wf_def word_le_nat_alt)

lemma cb_strict_wf [simp, intro]: "cb_strict cb \<Longrightarrow> cb_wf cb"
  by (simp add: cb_strict_def)

lemma cb_strictD: "cb_strict cb \<Longrightarrow> unat (cb_head cb) < unat (cb_max_size cb)"
  by (simp add: cb_strict_def word_less_nat_alt)

lemma length_cb_contents [simp]: "length (cb_contents cb) = unat (cb_size cb)"
  by (simp add: cb_contents_def)

section \<open>Single-byte operations\<close>

lemma insert_cbuffer_t_step:
  assumes "cb_strict cb"
  obtains cb' where "insert_cbuffer_t cb x = Some cb'" "cb_strict cb'"
    "cb_max_size cb' = cb_max_size cb"
    "(cb_data cb', unat (cb_head cb'), unat (cb_size cb'))
       = ring_step (cb_data cb, unat (cb_head cb), unat (cb_size cb)) x"
proof -
  note wf = cb_wfD [OF cb_strict_wf [OF assms]] and h = cb_strictD [OF assms]
  show ?thesis
  proof (cases "cb_size cb = cb_max_size cb")
    case True
    let ?cb = "cb\<lparr>cb_data := (cb_data cb)[unat (cb_head cb) := x],
                cb_head := (cb_head cb + 1) mod cb_max_size cb\<rparr>"
    have "insert_cbuffer_t cb x = Some ?cb"
      using True wf h by (simp add: insert_cbuffer_t_def mem_simps)
    moreover have "cb_strict ?cb"
      using wf h True by (auto simp: cb_strict_def cb_wf_def u32_simps)
    ultimately show ?thesis using that [of ?cb] True wf h by (simp add: u32_simps)
  next
    case False
    then have lt: "unat (cb_size cb) < unat (cb_max_size cb)"
      using wf by (metis le_neq_implies_less word_unat_eq_iff)
    have pos: "unat ((cb_head cb + cb_size cb) mod cb_max_size cb)
        = (unat (cb_head cb) + unat (cb_size cb)) mod unat (cb_max_size cb)"
      using wf h lt by (simp add: u32_simps)
    let ?p = "(unat (cb_head cb) + unat (cb_size cb)) mod unat (cb_max_size cb)"
    let ?cb = "cb\<lparr>cb_data := (cb_data cb)[?p := x], cb_size := cb_size cb + 1\<rparr>"
    have "insert_cbuffer_t cb x = Some ?cb"
      using False wf pos by (simp add: insert_cbuffer_t_def mem_simps Let_def)
    moreover have "cb_strict ?cb"
      using wf h lt by (auto simp: cb_strict_def cb_wf_def u32_simps)
    ultimately show ?thesis using that [of ?cb] wf h lt by (simp add: u32_simps)
  qed
qed

lemma insert_cbuffer_t_contents:
  assumes "cb_strict cb"
  shows "\<exists>cb'. insert_cbuffer_t cb x = Some cb' \<and> cb_strict cb' \<and>
    cb_max_size cb' = cb_max_size cb \<and>
    cb_contents cb' = lastn (unat (cb_max_size cb)) (cb_contents cb @ [x])"
proof -
  obtain cb' where *: "insert_cbuffer_t cb x = Some cb'" "cb_strict cb'"
    "cb_max_size cb' = cb_max_size cb"
    "(cb_data cb', unat (cb_head cb'), unat (cb_size cb'))
       = ring_step (cb_data cb, unat (cb_head cb), unat (cb_size cb)) x"
    by (rule insert_cbuffer_t_step [OF assms])
  have "cb_contents cb' = ring_view (ring_step (cb_data cb, unat (cb_head cb), unat (cb_size cb)) x)"
    by (simp only: cb_contents_def ring_view.simps flip: *(4))
  also have "\<dots> = lastn (unat (cb_max_size cb)) (cb_contents cb @ [x])"
    using ring_step_view [of "unat (cb_size cb)" "cb_data cb" "unat (cb_head cb)" x]
      cb_wfD [OF cb_strict_wf [OF assms]] by (simp add: cb_contents_def)
  finally show ?thesis using * by blast
qed

lemma remove_cbuffer_t_contents:
  assumes "cb_strict cb" and "cb_contents cb = x # xs"
  shows "\<exists>cb'. remove_cbuffer_t cb = Some (cb', x) \<and> cb_strict cb' \<and>
    cb_max_size cb' = cb_max_size cb \<and> cb_contents cb' = xs"
proof -
  note wf = cb_wfD [OF cb_strict_wf [OF assms(1)]] and h = cb_strictD [OF assms(1)]
  obtain n where n: "unat (cb_size cb) = Suc n"
    using assms(2) length_cb_contents [of cb] by (metis length_Cons)
  then have nz: "cb_size cb \<noteq> 0" by auto
  let ?cb = "cb\<lparr>cb_head := (cb_head cb + 1) mod cb_max_size cb, cb_size := cb_size cb - 1\<rparr>"
  have sz: "unat (cb_size cb - 1) = n" using n by (simp add: u32_simps)
  have hd: "unat ((cb_head cb + 1) mod cb_max_size cb)
      = Suc (unat (cb_head cb)) mod unat (cb_max_size cb)"
    using wf h by (simp add: u32_simps)
  have items: "x = cb_data cb ! unat (cb_head cb)"
    "xs = ring_items (cb_data cb) (Suc (unat (cb_head cb))) n"
    using assms(2) ring_items_tail [of "cb_data cb" "unat (cb_head cb)" n] wf h n
    by (simp_all add: cb_contents_def)
  have "remove_cbuffer_t cb = Some (?cb, x)"
    using nz wf h items by (simp add: remove_cbuffer_t_def mem_simps)
  moreover have "cb_strict ?cb"
    using wf h n sz hd by (auto simp: cb_strict_def cb_wf_def word_le_nat_alt word_less_nat_alt)
  moreover have "cb_contents ?cb = xs"
    using ring_items_mod [of "cb_data cb" "Suc (unat (cb_head cb))" n] wf sz hd items
    by (simp add: cb_contents_def)
  ultimately show ?thesis by simp
qed

section \<open>Block operations\<close>

lemma memcpy_in_Some:
  "i + n \<le> length d \<Longrightarrow> j + n \<le> length src \<Longrightarrow>
   memcpy_in d (int i) src (int j) (int n)
     = Some (ring_write d i (take n (drop j src)))"
  by (simp add: memcpy_in_def mem_simps ring_write_blit)

lemma memcpy_out_Some:
  "unat off + n \<le> length d \<Longrightarrow>
   memcpy_out d off (int n) = Some (ring_items d (unat off) n)"
  by (simp add: memcpy_out_def mem_simps ring_items_block)

lemma insert_items_eval:
  assumes wf: "cb_wf cb" and n: "length xs \<le> unat (cb_max_size cb)"
  defines "h \<equiv> unat (cb_head cb)" and "s \<equiv> unat (cb_size cb)" and "m \<equiv> unat (cb_max_size cb)"
  obtains cb' where "insert_items_cbuffer_t cb xs (int (length xs)) = Some cb'"
    "cb_max_size cb' = cb_max_size cb" "cb_data cb' = ring_write (cb_data cb) (h + s) xs"
    "unat (cb_size cb') = min m (s + length xs)"
    "unat (cb_head cb') = (if s + length xs \<le> m then h else (h + (s + length xs - m)) mod m)"
proof -
  note w = cb_wfD [OF wf, folded h_def s_def m_def]
  let ?n = "length xs" and ?p = "(h + s) mod m"
  have p: "?p < m" using w by simp
  have whead: "sint ((cb_head cb + cb_size cb) mod cb_max_size cb) = int ?p"
    using w p by (subst sint_u32_small) (simp_all add: u32_simps flip: h_def s_def m_def)
  have gaps: "sint (cb_max_size cb - cb_size cb) = int (m - s)"
    using w by (subst sint_u32_small) (simp_all add: u32_simps flip: h_def s_def m_def)
  have small: "unat (word_of_nat ?n :: u32) = ?n" "unat (word_of_nat ?p :: u32) = ?p"
  proof -
    have "?n < 4294967296" "?p < 4294967296" using w p n unfolding m_def by linarith+
    then show "unat (word_of_nat ?n :: u32) = ?n" "unat (word_of_nat ?p :: u32) = ?p"
      using unat_word_of_int_u32 [of ?n] unat_word_of_int_u32 [of ?p] by simp_all
  qed
  have refuse: "\<not> cb_max_size cb < word_of_nat ?n"
    using n small by (simp add: word_less_nat_alt m_def)
  have "?p + ?n < 4294967296" using w p n unfolding m_def by linarith
  then have sum: "unat (word_of_nat ?p + word_of_nat ?n :: u32) = ?p + ?n"
    using small by (subst unat_add_u32) simp_all
  have wrap: "cb_max_size cb < word_of_nat ?p + word_of_nat ?n \<longleftrightarrow> m < ?p + ?n"
    using sum by (simp add: word_less_nat_alt m_def)
  have copied: "sint (cb_max_size cb - word_of_nat ?p) = int (m - ?p)"
    using w p small by (subst sint_u32_small) (simp_all add: unat_sub_u32 flip: m_def)
  define d where "d = ring_write (cb_data cb) (h + s) xs"
  have d_p: "ring_write (cb_data cb) ?p xs = d"
    using ring_write_mod [of "cb_data cb" "h + s" xs] w by (simp add: d_def)
  define cb' where "cb' = (if int ?n \<le> int (m - s)
    then cb\<lparr>cb_data := d, cb_size := cb_size cb + word_of_nat ?n\<rparr>
    else cb\<lparr>cb_data := d, cb_size := cb_max_size cb,
            cb_head := (cb_head cb + word_of_int (int ?n - int (m - s))) mod cb_max_size cb\<rparr>)"
  have "insert_items_cbuffer_t cb xs (int ?n) = Some cb'"
  proof (cases "m < ?p + ?n")
    case True
    define k where "k = m - ?p"
    define q where "q = ?n - k"
    have k: "k \<le> ?n" "?p + k = m" "q \<le> m" "int ?n - int k = int q" "k + q = ?n"
      using True p n [folded m_def] by (simp_all add: k_def q_def)
    let ?d1 = "ring_write (cb_data cb) ?p (take k xs)"
    have "ring_write (cb_data cb) ?p xs = ring_write ?d1 (?p + k) (drop k xs)"
      using ring_write_append [of "cb_data cb" ?p "take k xs" "drop k xs"] k(1) by simp
    also have "\<dots> = ring_write ?d1 0 (drop k xs)"
      by (rule ring_write_cong) (use w k(2) in simp)
    finally have two: "ring_write ?d1 0 (drop k xs) = d" using d_p by simp
    have m1: "memcpy_in (cb_data cb) (int ?p) xs 0 (int k) = Some ?d1"
      using memcpy_in_Some [of ?p k "cb_data cb" 0 xs] w k by simp
    have m2: "memcpy_in ?d1 0 xs (int k) (int q) = Some d"
      using memcpy_in_Some [of 0 q ?d1 k xs] w k two by simp
    have zero: "q = 0 \<Longrightarrow> ?d1 = d" using two k by simp
    show ?thesis
      using True w refuse wrap copied [folded k_def] m1 m2 k(4) zero
      by (cases "q = 0") (simp_all add: insert_items_cbuffer_t_def Let_def whead gaps cb'_def
          del: of_nat_diff)
  next
    case False
    have "memcpy_in (cb_data cb) (int ?p) xs (int 0) (int ?n) = Some d"
      using memcpy_in_Some [of ?p ?n "cb_data cb" 0 xs] w False d_p by simp
    then show ?thesis
      using False w refuse wrap d_p
      by (cases "xs = []") (simp_all add: insert_items_cbuffer_t_def Let_def whead gaps cb'_def)
  qed
  moreover have "cb_max_size cb' = cb_max_size cb" "cb_data cb' = ring_write (cb_data cb) (h + s) xs"
    by (simp_all add: cb'_def d_def)
  moreover have "unat (cb_size cb') = min m (s + ?n)"
  proof -
    have "int ?n \<le> int (m - s) \<longleftrightarrow> s + ?n \<le> m" using w by linarith
    then show ?thesis using w small
      by (simp add: cb'_def unat_add_u32 min_def flip: s_def m_def del: of_nat_diff)
  qed
  moreover have "unat (cb_head cb')
      = (if s + ?n \<le> m then h else (h + (s + ?n - m)) mod m)"
  proof (cases "s + ?n \<le> m")
    case True
    then show ?thesis by (simp add: cb'_def h_def)
  next
    case False
    define t where "t = s + ?n - m"
    have e: "int ?n - int (m - s) = int t" and c: "\<not> int ?n \<le> int (m - s)" and t: "t \<le> m"
      using w False n [folded m_def] by (simp_all add: t_def)
    have "unat (word_of_int (int t) :: u32) = t"
      using w t by (intro unat_word_of_int_u32) linarith
    then have "unat (cb_head cb') = (h + t) mod m"
      using w t unfolding cb'_def if_not_P [OF c] e
      by (simp add: unat_mod unat_add_u32 flip: h_def m_def)
    with False show ?thesis by (simp add: t_def)
  qed
  ultimately show ?thesis using that by blast
qed

lemma insert_items_contents:
  assumes wf: "cb_wf cb" and n: "length xs \<le> unat (cb_max_size cb)"
  shows "\<exists>cb'. insert_items_cbuffer_t cb xs (int (length xs)) = Some cb' \<and> cb_wf cb' \<and>
    (cb_strict cb \<longrightarrow> cb_strict cb') \<and> cb_max_size cb' = cb_max_size cb \<and>
    cb_contents cb' = lastn (unat (cb_max_size cb)) (cb_contents cb @ xs)"
proof -
  let ?d = "cb_data cb" and ?h = "unat (cb_head cb)" and ?s = "unat (cb_size cb)"
    and ?m = "unat (cb_max_size cb)"
  note w = cb_wfD [OF wf]
  obtain cb' where cb': "insert_items_cbuffer_t cb xs (int (length xs)) = Some cb'"
    "cb_max_size cb' = cb_max_size cb" "cb_data cb' = ring_write ?d (?h + ?s) xs"
    "unat (cb_size cb') = min ?m (?s + length xs)"
    "unat (cb_head cb') = (if ?s + length xs \<le> ?m then ?h else (?h + (?s + length xs - ?m)) mod ?m)"
    by (rule insert_items_eval [OF wf n])
  have wr: "ring_write ?d (?h mod ?m + ?s) xs = ring_write ?d (?h + ?s) xs"
    by (rule ring_write_cong) (use w in \<open>simp add: mod_simps\<close>)
  have "cb_contents cb' = ring_view (foldl ring_step (?d, ?h mod ?m, ?s) xs)"
    using foldl_ring_step [of ?s ?d "?h mod ?m" xs] w wr
      ring_items_mod [of "ring_write ?d (?h + ?s) xs" ?h "?s + length xs"]
      mod_add_left_eq [of ?h ?m "?s + length xs - ?m"]
    by (simp add: cb_contents_def cb'(3-5) del: Nat.add_diff_assoc Nat.add_diff_assoc2)
  also have "\<dots> = lastn ?m (ring_items ?d (?h mod ?m) ?s @ xs)"
    using foldl_ring_view [of ?s ?d "?h mod ?m" xs] w by simp
  also have "ring_items ?d (?h mod ?m) ?s = cb_contents cb"
    using ring_items_mod [of ?d ?h ?s] w by (simp add: cb_contents_def)
  finally have c: "cb_contents cb' = lastn ?m (cb_contents cb @ xs)" .
  have hd: "unat (cb_head cb') \<le> ?m" "?h < ?m \<Longrightarrow> unat (cb_head cb') < ?m"
    using w by (auto simp: cb'(5) intro: less_imp_le)
  have wf': "cb_wf cb'"
    using w hd by (simp add: cb_wf_def cb'(2-4) word_le_nat_alt)
  moreover have "cb_strict cb'" if "cb_strict cb"
    using wf' hd cb_strictD [OF that] by (simp add: cb_strict_def cb'(2) word_less_nat_alt)
  ultimately show ?thesis using cb'(1,2) c by blast
qed

lemma insert_items_refused:
  assumes "cb_max_size cb \<noteq> 0" and "word_of_int n > cb_max_size cb"
  shows "insert_items_cbuffer_t cb xs n = Some cb"
  using assms by (simp add: insert_items_cbuffer_t_def Let_def)

lemma remove_items_contents:
  assumes wf: "cb_wf cb" and n: "n \<le> length (cb_contents cb)"
  shows "\<exists>cb'. remove_items_cbuffer_t cb (int n) = Some (cb', take n (cb_contents cb)) \<and>
    cb_wf cb' \<and> cb_max_size cb' = cb_max_size cb \<and> cb_contents cb' = drop n (cb_contents cb)"
proof -
  define h s m where "h = unat (cb_head cb)" and "s = unat (cb_size cb)"
    and "m = unat (cb_max_size cb)"
  note defs = h_def s_def m_def
  let ?d = "cb_data cb"
  note w = cb_wfD [OF wf, folded defs]
  have n': "n \<le> s" using n by (simp add: defs)
  have small: "unat (word_of_nat n :: u32) = n"
    using n' w unat_word_of_int_u32 [of n] by simp
  have accept: "\<not> cb_size cb < word_of_nat n" using n' small by (simp add: word_less_nat_alt defs)
  have sum: "unat (cb_head cb + word_of_nat n) = h + n"
    using w n' small by (simp add: unat_add_u32 flip: defs)
  have wrap: "cb_max_size cb < cb_head cb + word_of_nat n \<longleftrightarrow> m < h + n"
    using sum by (simp add: word_less_nat_alt defs)
  have sz: "unat (cb_size cb - word_of_nat n) = s - n" using n' small by (simp add: unat_sub_u32 defs)
  have tk: "take n (cb_contents cb) = ring_items ?d h n"
    and dr: "drop n (cb_contents cb) = ring_items ?d (h + n) (s - n)"
    using n' by (simp_all add: cb_contents_def ring_items_take ring_items_drop flip: defs)
  show ?thesis
  proof (cases "m < h + n")
    case False
    let ?cb = "cb\<lparr>cb_head := cb_head cb + word_of_nat n, cb_size := cb_size cb - word_of_nat n\<rparr>"
    have "memcpy_out ?d (cb_head cb) (int n) = Some (ring_items ?d h n)"
      using False w memcpy_out_Some [of "cb_head cb" n ?d] by (simp flip: defs)
    then have "remove_items_cbuffer_t cb (int n) = Some (?cb, take n (cb_contents cb))"
      using False accept wrap tk
      by (cases "n = 0") (simp_all add: remove_items_cbuffer_t_def ring_items_def)
    moreover have "cb_wf ?cb" using w False sum sz by (simp add: cb_wf_def word_le_nat_alt flip: defs)
    moreover have "cb_contents ?cb = drop n (cb_contents cb)" using sum sz dr by (simp add: cb_contents_def flip: defs)
    ultimately show ?thesis by force
  next
    case True
    define k where "k = m - h"
    define q where "q = n - k"
    define r where "r = (word_of_int (int q) :: u32)"
    let ?cb = "cb\<lparr>cb_head := r, cb_size := cb_size cb - word_of_nat n\<rparr>"
    have k: "int n - int k = int q" "0 < q" "q \<le> m" "h + k = m" "k + q = n" "h + n = q + m"
      using True w n' by (simp_all add: k_def q_def)
    have r: "unat r = q" unfolding r_def using w k by (intro unat_word_of_int_u32) linarith
    have copied: "sint (cb_max_size cb - cb_head cb) = int k"
      using w by (subst sint_u32_small) (simp_all add: unat_sub_u32 k_def flip: defs)
    have m1: "memcpy_out ?d (cb_head cb) (int k) = Some (ring_items ?d h k)"
      using w k memcpy_out_Some [of "cb_head cb" k ?d] by (simp flip: defs)
    have m2: "memcpy_out ?d 0 (int q) = Some (ring_items ?d 0 q)"
      using w k memcpy_out_Some [of 0 q ?d] by simp
    have "ring_items ?d (h + k) q = ring_items ?d 0 q"
      using ring_items_mod [of ?d m q] w(1) by (simp add: k(4))
    then have tk': "ring_items ?d h k @ ring_items ?d 0 q = ring_items ?d h n"
      using ring_items_append [of ?d h k q] k by simp
    have "remove_items_cbuffer_t cb (int n) = Some (?cb, take n (cb_contents cb))"
      using True accept wrap copied m1 m2 tk tk' k(1,2)
      by (simp add: remove_items_cbuffer_t_def Let_def r_def)
    moreover have "cb_wf ?cb" using w n' r sz k by (simp add: cb_wf_def word_le_nat_alt flip: defs)
    moreover have "cb_contents ?cb = drop n (cb_contents cb)"
    proof -
      have "(h + n) mod m = q mod m" unfolding k(6) by (rule mod_add_self2)
      then have "ring_items ?d (h + n) (s - n) = ring_items ?d q (s - n)"
        using ring_items_mod [of ?d "h + n" "s - n"] ring_items_mod [of ?d q "s - n"] w by simp
      then show ?thesis using r sz dr by (simp add: cb_contents_def flip: defs)
    qed
    ultimately show ?thesis by force
  qed
qed

lemma push_all_foldl:
  assumes "cb_strict cb"
  shows "\<exists>cb'. push_all insert_cbuffer_t cb xs = Some cb' \<and> cb_strict cb' \<and> cb_max_size cb' = cb_max_size cb \<and>
    (cb_data cb', unat (cb_head cb'), unat (cb_size cb'))
      = foldl ring_step (cb_data cb, unat (cb_head cb), unat (cb_size cb)) xs"
  using assms
proof (induction xs arbitrary: cb)
  case Nil
  then show ?case by simp
next
  case (Cons x xs)
  obtain cb1 where 1: "insert_cbuffer_t cb x = Some cb1" "cb_strict cb1"
    "cb_max_size cb1 = cb_max_size cb"
    "(cb_data cb1, unat (cb_head cb1), unat (cb_size cb1))
       = ring_step (cb_data cb, unat (cb_head cb), unat (cb_size cb)) x"
    by (rule insert_cbuffer_t_step [OF Cons.prems])
  from Cons.IH [OF 1(2)] show ?case by (simp add: 1(1,3) flip: 1(4) del: ring_step.simps)
qed

lemma insert_items_eq_push_all:
  assumes "cb_strict cb" and "length xs \<le> unat (cb_max_size cb)"
  shows "insert_items_cbuffer_t cb xs (int (length xs)) = push_all insert_cbuffer_t cb xs"
proof -
  note wf = cb_strict_wf [OF assms(1)] and h = cb_strictD [OF assms(1)]
  note w = cb_wfD [OF wf]
  obtain cb1 where 1: "push_all insert_cbuffer_t cb xs = Some cb1" "cb_max_size cb1 = cb_max_size cb"
    "(cb_data cb1, unat (cb_head cb1), unat (cb_size cb1))
      = foldl ring_step (cb_data cb, unat (cb_head cb), unat (cb_size cb)) xs"
    using push_all_foldl [OF assms(1)] by blast
  obtain cb2 where 2: "insert_items_cbuffer_t cb xs (int (length xs)) = Some cb2"
    "cb_max_size cb2 = cb_max_size cb"
    "cb_data cb2 = ring_write (cb_data cb) (unat (cb_head cb) + unat (cb_size cb)) xs"
    "unat (cb_size cb2) = min (unat (cb_max_size cb)) (unat (cb_size cb) + length xs)"
    "unat (cb_head cb2) = (if unat (cb_size cb) + length xs \<le> unat (cb_max_size cb)
       then unat (cb_head cb)
       else (unat (cb_head cb) + (unat (cb_size cb) + length xs - unat (cb_max_size cb)))
            mod unat (cb_max_size cb))"
    by (rule insert_items_eval [OF wf assms(2)])
  have "(cb_data cb1, unat (cb_head cb1), unat (cb_size cb1))
      = (cb_data cb2, unat (cb_head cb2), unat (cb_size cb2))"
    unfolding 1(3) using foldl_ring_step [of "unat (cb_size cb)" "cb_data cb" "unat (cb_head cb)" xs] w h
    by (simp only: 2(3-5))
  then have "cb1 = cb2" using 1(2) 2(2) by (cases cb1; cases cb2) (simp add: word_unat_eq_iff)
  then show ?thesis using 1(1) 2(1) by simp
qed

section \<open>The batch removal, and the single-byte operations after it\<close>

lemma remove_batch_contents:
  assumes wf: "cb_wf cb" and n: "n < 2147483648"
  defines "k \<equiv> min n (length (cb_contents cb))"
  shows "\<exists>cb'. remove_cbuffer_t_batch cb (int n) = Some (cb', take k (cb_contents cb), int k) \<and>
    cb_wf cb' \<and> cb_max_size cb' = cb_max_size cb \<and> cb_contents cb' = drop k (cb_contents cb)"
proof -
  note w = cb_wfD [OF wf]
  have small: "unat (word_of_nat n :: u32) = n" using n unat_word_of_int_u32 [of n] by simp
  have sz: "sint (cb_size cb) = int (unat (cb_size cb))" using w by (intro sint_u32_small) linarith
  have nr: "(if cb_size cb < word_of_int (int n) then sint (cb_size cb) else int n) = int k"
    using small sz by (simp add: k_def word_less_nat_alt min_def)
  show ?thesis
  proof (cases "k = 0")
    case True
    then show ?thesis using wf nr by (simp add: remove_cbuffer_t_batch_def)
  next
    case False
    then show ?thesis
      using remove_items_contents [OF wf, of k] nr
      by (auto simp: remove_cbuffer_t_batch_def k_def Let_def)
  qed
qed

lemma remove_items_head:
  assumes wf: "cb_wf cb" and n: "n \<le> length (cb_contents cb)"
    and e: "unat (cb_head cb) + n = unat (cb_max_size cb)"
  shows "\<exists>out. remove_items_cbuffer_t cb (int n) =
    Some (cb\<lparr>cb_head := cb_max_size cb, cb_size := cb_size cb - word_of_nat n\<rparr>, out)"
proof -
  note w = cb_wfD [OF wf]
  have small: "unat (word_of_nat n :: u32) = n" using n w unat_word_of_int_u32 [of n] by simp
  have accept: "\<not> cb_size cb < word_of_nat n" using n small by (simp add: word_less_nat_alt)
  have "unat (cb_head cb + word_of_nat n) = unat (cb_max_size cb)"
    using w e n small by (simp add: unat_add_u32)
  then have sum: "cb_head cb + word_of_nat n = cb_max_size cb" by (simp add: word_unat_eq_iff)
  have "memcpy_out (cb_data cb) (cb_head cb) (int n)
      = Some (ring_items (cb_data cb) (unat (cb_head cb)) n)"
    using w e by (intro memcpy_out_Some) simp
  then show ?thesis using accept sum
    by (cases "n = 0") (simp_all add: remove_items_cbuffer_t_def)
qed

lemma remove_cbuffer_t_past_end:
  assumes "cb_wf cb" and "cb_head cb = cb_max_size cb" and "cb_size cb \<noteq> 0"
  shows "remove_cbuffer_t cb = None"
  using cb_wfD [OF assms(1)] assms(2,3) by (simp add: remove_cbuffer_t_def mem_simps)

lemma get_iterator_past_end:
  assumes "cb_wf cb" and "cb_head cb = cb_max_size cb" and "cb_size cb \<noteq> 0"
  shows "snd (iterator_next_cbuffer_t cb (get_iterator_cbuffer_t cb chunk))
    = Some (int (length (cb_data cb)))"
proof -
  note w = cb_wfD [OF assms(1)]
  have "sint (cb_max_size cb) = int (unat (cb_max_size cb))"
    using w by (intro sint_u32_small) linarith
  moreover have "\<not> cb_size cb \<le> 0" using assms(3) by simp
  ultimately show ?thesis
    using w assms(2) by (simp add: iterator_next_cbuffer_t_def get_iterator_cbuffer_t_def Let_def)
qed

section \<open>Walking the ring in chunks\<close>

fun iterator_run :: "cbuffer_t \<Rightarrow> nat \<Rightarrow> iterator_cbuffer_t \<Rightarrow> int option list" where
  "iterator_run cb 0 it = []"
| "iterator_run cb (Suc n) it =
     (let (it', p) = iterator_next_cbuffer_t cb it in p # iterator_run cb n it')"

lemma iterator_next_step:
  assumes cb: "cb_strict cb" and k: "k \<le> unat (cb_max_size cb)"
    and p: "p < unat (cb_max_size cb)" and j: "j < 4294967296"
  shows "iterator_next_cbuffer_t cb \<lparr>it_chunk_size = int k, it_cur_item = int j, it_cur_pos = int p\<rparr> =
    (if unat (cb_size cb) \<le> j
     then (\<lparr>it_chunk_size = int k, it_cur_item = int j, it_cur_pos = int p\<rparr>, None)
     else (\<lparr>it_chunk_size = int k, it_cur_item = int (j + k),
             it_cur_pos = int ((p + k) mod unat (cb_max_size cb))\<rparr>, Some (int p)))"
proof -
  define m where "m = unat (cb_max_size cb)"
  note w = cb_wfD [OF cb_strict_wf [OF cb], folded m_def]
  have jw: "unat (word_of_int (int j) :: u32) = j" using j by (rule unat_word_of_int_u32)
  have pkw: "unat (word_of_int (int (p + k)) :: u32) = p + k"
    using p k w by (intro unat_word_of_int_u32) (simp flip: m_def)
  have c1: "cb_size cb \<le> word_of_int (int j) \<longleftrightarrow> unat (cb_size cb) \<le> j"
    and c2: "cb_max_size cb \<le> word_of_int (int (p + k)) \<longleftrightarrow> m \<le> p + k"
    by (simp_all only: word_le_nat_alt jw pkw m_def)
  have sub: "sint (word_of_int (int (p + k)) - cb_max_size cb) = int (p + k - m)" if "m \<le> p + k"
  proof -
    have "unat (word_of_int (int (p + k)) - cb_max_size cb) = p + k - m"
      using that pkw by (subst unat_sub_u32) (simp_all only: m_def)
    moreover have "p + k - m < 2147483648" using w p k by (simp flip: m_def)
    ultimately show ?thesis by (subst sint_u32_small) (simp_all only:)
  qed
  have md: "(p + k) mod m = (if m \<le> p + k then p + k - m else p + k)"
    using p k w by (simp add: mod_if le_mod_geq flip: m_def)
  show ?thesis
    unfolding iterator_next_cbuffer_t_def iterator_cbuffer_t.simps Let_def c1
      of_nat_add [symmetric] c2 m_def [symmetric] md
    using sub by simp
qed

lemma iterator_run_from:
  assumes cb: "cb_strict cb" and k: "0 < k" "k \<le> unat (cb_max_size cb)"
    and size: "unat (cb_size cb) = (i + c) * k"
  shows "iterator_run cb (Suc c) \<lparr>it_chunk_size = int k, it_cur_item = int (i * k),
      it_cur_pos = int ((unat (cb_head cb) + i * k) mod unat (cb_max_size cb))\<rparr> =
    map (\<lambda>j. Some (int ((unat (cb_head cb) + j * k) mod unat (cb_max_size cb)))) [i..<i + c] @ [None]"
  using size
proof (induction c arbitrary: i)
  case 0
  let ?m = "unat (cb_max_size cb)"
  note w = cb_wfD [OF cb_strict_wf [OF cb]]
  show ?case using 0 w iterator_next_step [OF cb k(2), of "(unat (cb_head cb) + i * k) mod ?m" "i * k"]
    by simp
next
  case (Suc c)
  define m where "m = unat (cb_max_size cb)"
  note w = cb_wfD [OF cb_strict_wf [OF cb], folded m_def]
  have lt: "i * k < unat (cb_size cb)" using Suc.prems k(1) by (simp add: algebra_simps)
  have nx: "((unat (cb_head cb) + i * k) mod m + k) mod m = (unat (cb_head cb) + Suc i * k) mod m"
    using mod_add_left_eq [of "unat (cb_head cb) + i * k" m k] by (simp add: ac_simps)
  have step: "iterator_next_cbuffer_t cb \<lparr>it_chunk_size = int k, it_cur_item = int (i * k),
      it_cur_pos = int ((unat (cb_head cb) + i * k) mod m)\<rparr> =
    (\<lparr>it_chunk_size = int k, it_cur_item = int (Suc i * k),
      it_cur_pos = int ((unat (cb_head cb) + Suc i * k) mod m)\<rparr>,
     Some (int ((unat (cb_head cb) + i * k) mod m)))"
    using iterator_next_step [OF cb k(2), of "(unat (cb_head cb) + i * k) mod m" "i * k", folded m_def]
      w lt nx by (simp add: ac_simps)
  have "unat (cb_size cb) = (Suc i + c) * k" using Suc.prems by simp
  from Suc.IH [OF this, folded m_def]
  show ?case unfolding m_def [symmetric] iterator_run.simps(2) [of cb "Suc c"] step
    by (simp add: upt_conv_Cons del: iterator_run.simps upt_Suc)
qed

section \<open>The integer ring of a metric smoother\<close>

definition MC_MAX_CBUFFER_SIZE :: nat where
  "MC_MAX_CBUFFER_SIZE = 20"

record mc_cbuffer =
  mc_data :: "u64 list"
  mc_head :: u32
  mc_size :: u32
  mc_max_size :: u32

definition init_mc_cbuffer :: "mc_cbuffer \<Rightarrow> u32 \<Rightarrow> mc_cbuffer" where
  "init_mc_cbuffer cb max_size =
     cb\<lparr>mc_size := 0, mc_head := 0,
        mc_max_size := (if max_size \<le> word_of_nat MC_MAX_CBUFFER_SIZE then max_size
                        else word_of_nat MC_MAX_CBUFFER_SIZE)\<rparr>"

definition is_full_mc_cbuffer :: "mc_cbuffer \<Rightarrow> bool" where
  "is_full_mc_cbuffer cb \<longleftrightarrow> mc_size cb = mc_max_size cb"

definition is_empty_mc_cbuffer :: "mc_cbuffer \<Rightarrow> bool" where
  "is_empty_mc_cbuffer cb \<longleftrightarrow> mc_size cb = 0"

definition clear_mc_cbuffer :: "mc_cbuffer \<Rightarrow> mc_cbuffer" where
  "clear_mc_cbuffer cb = cb\<lparr>mc_size := 0, mc_head := 0\<rparr>"

definition push_mc_cbuffer :: "mc_cbuffer \<Rightarrow> u64 \<Rightarrow> mc_cbuffer option" where
  "push_mc_cbuffer cb new_value =
     (if mc_size cb = mc_max_size cb then do {
        d \<leftarrow> wr (mc_data cb) (unat (mc_head cb)) new_value;
        Some (cb\<lparr>mc_data := d,
                mc_head := (if mc_size cb \<noteq> 0 then (mc_head cb + 1) mod mc_max_size cb
                            else mc_head cb)\<rparr>)
      } else do {
        let pos = (if mc_max_size cb \<noteq> 0
                   then (mc_head cb + mc_size cb) mod mc_max_size cb else 0);
        d \<leftarrow> wr (mc_data cb) (unat pos) new_value;
        Some (cb\<lparr>mc_data := d, mc_size := mc_size cb + 1\<rparr>)
      })"

definition pop_mc_cbuffer :: "mc_cbuffer \<Rightarrow> mc_cbuffer option" where
  "pop_mc_cbuffer cb =
     (if mc_size cb \<noteq> 0
      then (if mc_max_size cb = 0 then None
            else Some (cb\<lparr>mc_head := (mc_head cb + 1) mod mc_max_size cb,
                          mc_size := mc_size cb - 1\<rparr>))
      else Some cb)"

text \<open>The value \<open>*head_mc_cbuffer(cb)\<close>; dereferencing the NULL of an empty ring is a fault.\<close>

definition head_mc_cbuffer :: "mc_cbuffer \<Rightarrow> nat option" where
  "head_mc_cbuffer cb = (if mc_size cb \<noteq> 0 then Some (unat (mc_head cb)) else None)"

definition mc_wf :: "mc_cbuffer \<Rightarrow> bool" where
  "mc_wf cb \<longleftrightarrow> length (mc_data cb) = MC_MAX_CBUFFER_SIZE \<and> 0 < unat (mc_max_size cb) \<and>
     unat (mc_max_size cb) \<le> MC_MAX_CBUFFER_SIZE \<and> mc_size cb \<le> mc_max_size cb \<and>
     mc_head cb < mc_max_size cb"

definition mc_items :: "mc_cbuffer \<Rightarrow> u64 list" where
  "mc_items cb = ring_items (take (unat (mc_max_size cb)) (mc_data cb))
     (unat (mc_head cb)) (unat (mc_size cb))"

lemma mc_wfD:
  assumes "mc_wf cb"
  shows "length (mc_data cb) = 20" "0 < unat (mc_max_size cb)" "unat (mc_max_size cb) \<le> 20"
    "unat (mc_size cb) \<le> unat (mc_max_size cb)" "unat (mc_head cb) < unat (mc_max_size cb)"
    "mc_max_size cb \<noteq> 0"
  using assms by (auto simp: mc_wf_def MC_MAX_CBUFFER_SIZE_def word_le_nat_alt word_less_nat_alt)

lemma length_mc_items [simp]: "length (mc_items cb) = unat (mc_size cb)"
  by (simp add: mc_items_def)

lemma push_mc_cbuffer_ok:
  assumes "mc_wf cb"
  shows "\<exists>cb'. push_mc_cbuffer cb x = Some cb' \<and> mc_wf cb' \<and> mc_max_size cb' = mc_max_size cb \<and>
    mc_items cb' = lastn (unat (mc_max_size cb)) (mc_items cb @ [x])"
proof -
  define h s m d where "h = unat (mc_head cb)" and "s = unat (mc_size cb)"
    and "m = unat (mc_max_size cb)" and "d = take m (mc_data cb)"
  note defs = h_def s_def m_def
  note w = mc_wfD [OF assms, folded defs]
  have ld: "length d = m" using w by (simp add: d_def)
  have v: "ring_view (ring_step (d, h, s) x) = lastn m (mc_items cb @ [x])"
    using ring_step_view [of s d h x] w ld
    by (simp add: mc_items_def flip: defs d_def del: ring_step.simps)
  have tk: "take m ((mc_data cb)[i := x]) = d[i := x]" for i by (simp add: d_def take_update_swap)
  show ?thesis
  proof (cases "mc_size cb = mc_max_size cb")
    case True
    let ?cb = "cb\<lparr>mc_data := (mc_data cb)[h := x], mc_head := (mc_head cb + 1) mod mc_max_size cb\<rparr>"
    have sm: "s = m" using True by (simp add: defs)
    have hd: "unat ((mc_head cb + 1) mod mc_max_size cb) = Suc h mod m"
      using w by (simp add: unat_mod unat_Suc_u32 flip: defs)
    have "push_mc_cbuffer cb x = Some ?cb"
      using True w by (simp add: push_mc_cbuffer_def mem_simps flip: defs)
    moreover have "mc_wf ?cb"
      using assms w hd by (simp add: mc_wf_def word_less_nat_alt flip: defs)
    moreover have "mc_items ?cb = ring_view (ring_step (d, h, s) x)"
      using sm hd w ld by (simp add: mc_items_def tk flip: defs)
    ultimately show ?thesis using v by (intro exI [of _ ?cb]) (simp flip: defs)
  next
    case False
    then have lt: "s < m" using w(4) by (simp add: defs word_unat_eq_iff)
    have pos: "unat ((mc_head cb + mc_size cb) mod mc_max_size cb) = (h + s) mod m"
      using w by (simp add: unat_mod unat_add_u32 flip: defs)
    have sz: "unat (mc_size cb + 1) = Suc s" using w lt by (simp add: unat_Suc_u32 flip: defs)
    have "(h + s) mod m < 20" using w(2,3) by (meson mod_less_divisor order_less_le_trans)
    let ?cb = "cb\<lparr>mc_data := (mc_data cb)[(h + s) mod m := x], mc_size := mc_size cb + 1\<rparr>"
    have "push_mc_cbuffer cb x = Some ?cb"
      using False w pos \<open>(h + s) mod m < 20\<close> by (simp add: push_mc_cbuffer_def mem_simps Let_def)
    moreover have "mc_wf ?cb"
      using assms lt sz by (simp add: mc_wf_def word_le_nat_alt flip: defs)
    moreover have "mc_items ?cb = ring_view (ring_step (d, h, s) x)"
      using lt sz ld by (simp add: mc_items_def tk flip: defs)
    ultimately show ?thesis using v by (intro exI [of _ ?cb]) (simp flip: defs)
  qed
qed

section \<open>Both rings are overwriting FIFOs\<close>

interpretation bytes: overwriting_fifo cb_strict cb_contents "\<lambda>cb. unat (cb_max_size cb)" insert_cbuffer_t
  by unfold_locales (use insert_cbuffer_t_contents cb_wfD(4) in \<open>force+\<close>)

interpretation window: overwriting_fifo mc_wf mc_items "\<lambda>cb. unat (mc_max_size cb)" push_mc_cbuffer
  by unfold_locales (use push_mc_cbuffer_ok mc_wfD(4) in \<open>force+\<close>)

section \<open>Properties\<close>

definition cb_sample :: cbuffer_t where
  "cb_sample = \<lparr>cb_data = [3, 4, 1, 2], cb_head = 2, cb_size = 2, cb_max_size = 4\<rparr>"

lemma cb_sample_strict: "cb_strict cb_sample"
  by (simp add: cb_strict_def cb_wf_def cb_sample_def)

lemma cb_sample_simps: "unat (cb_max_size cb_sample) = 4" "cb_contents cb_sample = [1, 2]"
  "unat (cb_head cb_sample) = 2" "unat (cb_size cb_sample) = 2"
  by (simp_all add: cb_sample_def cb_contents_def ring_items_def upt_conv_Cons)

text \<open>C22. Transfer of samples: a block inserted by \<open>insert_items_cbuffer_t\<close> and then drained by
  \<open>remove_cbuffer_t_batch\<close> comes out in order, after what was already buffered; when the
  capacity is exceeded exactly the oldest bytes are lost. Neither call faults, wherever the
  head stands and however the block wraps around the end of the array.\<close>

theorem cbuffer_transfer:
  assumes "cb_wf cb" and "length xs \<le> unat (cb_max_size cb)" and "n < 2147483648"
  defines "buffered \<equiv> lastn (unat (cb_max_size cb)) (cb_contents cb @ xs)"
  shows "\<exists>cb1 cb2. insert_items_cbuffer_t cb xs (int (length xs)) = Some cb1 \<and>
    remove_cbuffer_t_batch cb1 (int n) = Some (cb2, take n buffered, int (min n (length buffered))) \<and>
    cb_wf cb2 \<and> cb_contents cb2 = drop n buffered"
proof -
  obtain cb1 where 1: "insert_items_cbuffer_t cb xs (int (length xs)) = Some cb1" "cb_wf cb1"
    "cb_contents cb1 = buffered"
    using insert_items_contents [OF assms(1,2)] unfolding buffered_def by blast
  show ?thesis using remove_batch_contents [OF 1(2) assms(3)] 1(1,3) by (auto simp: min_def)
qed

theorem cbuffer_transfer_witness:
  "\<exists>cb1 cb2. insert_items_cbuffer_t cb_sample [7, 8, 9] 3 = Some cb1 \<and>
    remove_cbuffer_t_batch cb1 3 = Some (cb2, [2, 7, 8], 3) \<and> cb_contents cb2 = [9]"
  using cbuffer_transfer [OF cb_strict_wf [OF cb_sample_strict], of "[7, 8, 9]" 3]
  by (auto simp: cb_sample_simps lastn_def numeral_3_eq_3)

text \<open>C23. The optimised block insertion (at most two \<open>memcpy\<close> calls) leaves exactly the state
  of inserting its bytes one at a time with \<open>insert_cbuffer_t\<close>.\<close>

theorem cbuffer_block_is_bytes:
  assumes "cb_strict cb" and "length xs \<le> unat (cb_max_size cb)"
  shows "insert_items_cbuffer_t cb xs (int (length xs)) = push_all insert_cbuffer_t cb xs \<and>
    push_all insert_cbuffer_t cb xs \<noteq> None"
  using insert_items_eq_push_all [OF assms] bytes.push_all_ok [OF assms(1), of xs] by auto

theorem cbuffer_block_is_bytes_witness:
  "insert_items_cbuffer_t cb_sample [7, 8, 9] 3 = push_all insert_cbuffer_t cb_sample [7, 8, 9]"
  using cbuffer_block_is_bytes [OF cb_sample_strict, of "[7, 8, 9]"] by (simp add: cb_sample_simps)

text \<open>C24. The block removal does not keep \<open>head\<close> below \<open>max_size\<close>, which the header states and
  the other operations need: when it ends exactly at the end of the array, the next
  single-byte insertion succeeds, and then \<open>remove_cbuffer_t\<close> reads past the array and an
  iterator starts one past its end.\<close>

theorem cbuffer_block_removal_breaks_head:
  assumes "cb_strict cb" and "0 < n" and "n \<le> length (cb_contents cb)"
    and "unat (cb_head cb) + n = unat (cb_max_size cb)"
  shows "\<exists>cb1 out cb2. remove_items_cbuffer_t cb (int n) = Some (cb1, out) \<and>
    insert_cbuffer_t cb1 x = Some cb2 \<and> remove_cbuffer_t cb2 = None \<and>
    snd (iterator_next_cbuffer_t cb2 (get_iterator_cbuffer_t cb2 chunk))
      = Some (int (length (cb_data cb2)))"
proof -
  note wf = cb_strict_wf [OF assms(1)]
  note w = cb_wfD [OF wf]
  let ?cb1 = "cb\<lparr>cb_head := cb_max_size cb, cb_size := cb_size cb - word_of_nat n\<rparr>"
  obtain out where 1: "remove_items_cbuffer_t cb (int n) = Some (?cb1, out)"
    using remove_items_head [OF wf assms(3,4)] by blast
  have "unat (word_of_nat n :: u32) = n" using assms(3) w unat_word_of_int_u32 [of n] by simp
  then have sz: "unat (cb_size cb - word_of_nat n) = unat (cb_size cb) - n"
    using assms(3) by (simp add: unat_sub_u32)
  then have lt: "unat (cb_size cb - word_of_nat n) < unat (cb_max_size cb)"
    using w assms(2,3) by simp
  let ?p = "unat ((cb_max_size cb + (cb_size cb - word_of_nat n)) mod cb_max_size cb)"
  let ?cb2 = "?cb1\<lparr>cb_data := (cb_data cb)[?p := x], cb_size := cb_size cb - word_of_nat n + 1\<rparr>"
  have "?p < unat (cb_max_size cb)" using w by (simp add: unat_mod)
  then have 2: "insert_cbuffer_t ?cb1 x = Some ?cb2"
    using lt w by (auto simp: insert_cbuffer_t_def mem_simps Let_def)
  have sz2: "unat (cb_size cb - word_of_nat n + 1) = Suc (unat (cb_size cb) - n)"
    using sz lt w by (simp add: unat_Suc_u32)
  then have nz: "cb_size ?cb2 \<noteq> 0" by auto
  have wf2: "cb_wf ?cb2" using w sz lt sz2 by (simp add: cb_wf_def word_le_nat_alt)
  show ?thesis
    using 1 2 remove_cbuffer_t_past_end [OF wf2 _ nz] get_iterator_past_end [OF wf2 _ nz, of chunk]
    by (intro exI [of _ ?cb1] exI [of _ out] exI [of _ ?cb2]) simp
qed

theorem cbuffer_block_removal_breaks_head_witness:
  "\<exists>cb1 out cb2. remove_items_cbuffer_t cb_sample 2 = Some (cb1, out) \<and>
    insert_cbuffer_t cb1 5 = Some cb2 \<and> remove_cbuffer_t cb2 = None"
proof -
  have "(0::nat) < 2" "2 \<le> length (cb_contents cb_sample)"
    "unat (cb_head cb_sample) + 2 = unat (cb_max_size cb_sample)"
    by (simp_all add: cb_sample_simps)
  from cbuffer_block_removal_breaks_head [OF cb_sample_strict this, of 5 1]
  show ?thesis by (metis of_nat_numeral)
qed

text \<open>Under the documented invariant the iterator visits a ring of \<open>c\<close> records of \<open>k\<close> bytes in
  insertion order, each at its offset modulo the capacity, and then returns NULL.\<close>

theorem cbuffer_iterator_order:
  assumes "cb_strict cb" and "0 < k" and "k \<le> unat (cb_max_size cb)"
    and "unat (cb_size cb) = c * k"
  shows "iterator_run cb (Suc c) (get_iterator_cbuffer_t cb (int k)) =
    map (\<lambda>i. Some (int ((unat (cb_head cb) + i * k) mod unat (cb_max_size cb)))) [0..<c] @ [None]"
proof -
  note w = cb_wfD [OF cb_strict_wf [OF assms(1)]]
  have "sint (cb_head cb) = int (unat (cb_head cb) mod unat (cb_max_size cb))"
    using w cb_strictD [OF assms(1)] by (subst sint_u32_small) simp_all
  then show ?thesis using iterator_run_from [OF assms(1-3), of 0 c] assms(4)
    by (simp add: get_iterator_cbuffer_t_def del: iterator_run.simps)
qed

theorem cbuffer_iterator_order_witness:
  "iterator_run cb_sample (Suc 2) (get_iterator_cbuffer_t cb_sample 1) = [Some 2, Some 3, None]"
proof -
  have "(0::nat) < 1" "1 \<le> unat (cb_max_size cb_sample)" "unat (cb_size cb_sample) = 2 * 1"
    by (simp_all add: cb_sample_simps)
  from cbuffer_iterator_order [OF cb_sample_strict this] show ?thesis
    by (simp add: cb_sample_simps upt_conv_Cons del: iterator_run.simps)
qed

end
