(* ===== verification/BitField.thy ===== *)
theory BitField
  imports Prelude
begin

text \<open>
  The register fields of \<^verbatim>\<open>bit_field.h\<close>: a field is the address of a register, the position
  of its first bit, its width and a mask computed bit by bit. Several fields share one
  register, so the operations work on a store that maps addresses to register values.
  A shift by at least the width of the shifted type is undefined in C and gives \<open>None\<close>.
\<close>

section \<open>Shifting in two steps\<close>

text \<open>The code shifts by at most 20 at a time so that 32-bit builds never shift a 32-bit value
  by its width.\<close>

definition shl :: "'a::len word \<Rightarrow> nat \<Rightarrow> 'a word option" where
  "shl x n = (if n < LENGTH('a) then Some (push_bit n x) else None)"

definition shr :: "'a::len word \<Rightarrow> nat \<Rightarrow> 'a word option" where
  "shr x n = (if n < LENGTH('a) then Some (drop_bit n x) else None)"

definition shl_split :: "'a::len word \<Rightarrow> nat \<Rightarrow> 'a word option" where
  "shl_split x starting_bit =
     (if starting_bit > 20
      then do { y \<leftarrow> shl x 20; shl y (starting_bit - 20) }
      else shl x starting_bit)"

definition shr_split :: "'a::len word \<Rightarrow> nat \<Rightarrow> 'a word option" where
  "shr_split x starting_bit =
     (if starting_bit > 20
      then do { y \<leftarrow> shr x 20; shr y (starting_bit - 20) }
      else shr x starting_bit)"

lemma shl_split_eq: "20 < LENGTH('a) \<Longrightarrow> s < LENGTH('a) \<Longrightarrow>
  shl_split (x :: 'a::len word) s = Some (push_bit s x)"
  by (auto simp: shl_split_def shl_def push_bit_push_bit)

lemma shr_split_eq: "20 < LENGTH('a) \<Longrightarrow> s < LENGTH('a) \<Longrightarrow>
  shr_split (x :: 'a::len word) s = Some (drop_bit s x)"
  by (auto simp: shr_split_def shr_def drop_bit_drop_bit)

section \<open>Fields and their initialisation\<close>

record bit_field_64 =
  bf_data :: nat
  bf_starting_bit :: nat
  bf_n_bits :: nat
  bf_mask :: u64

record bit_field_32 =
  bf32_data :: nat
  bf32_starting_bit :: nat
  bf32_n_bits :: nat
  bf32_mask :: u32

record bit_field_8 =
  bf8_data :: nat
  bf8_starting_bit :: nat
  bf8_n_bits :: nat
  bf8_mask :: u8

text \<open>The loop that builds a mask of \<open>n_bits\<close> ones.\<close>

function mask_loop :: "nat \<Rightarrow> nat \<Rightarrow> 'a::len word \<Rightarrow> 'a word" where
  "mask_loop i n_bits msk =
     (if i < n_bits
      then let msk = msk OR 1;
               msk = (if i < n_bits - 1 then push_bit 1 msk else msk)
           in mask_loop (Suc i) n_bits msk
      else msk)"
  by pat_completeness auto
termination
  by (relation "measure (\<lambda>(i, n, _). n - i)") auto

declare mask_loop.simps [simp del]

definition init_bit_field :: "nat \<Rightarrow> nat \<Rightarrow> nat \<Rightarrow> bit_field_64 option" where
  "init_bit_field data starting_bit n_bits = do {
     m \<leftarrow> shl_split (mask_loop 0 n_bits 0) starting_bit;
     Some \<lparr>bf_data = data, bf_starting_bit = starting_bit, bf_n_bits = n_bits, bf_mask = m\<rparr>
   }"

definition init_bit_field32 :: "nat \<Rightarrow> nat \<Rightarrow> nat \<Rightarrow> bit_field_32 option" where
  "init_bit_field32 data starting_bit n_bits = do {
     m \<leftarrow> shl_split (mask_loop 0 n_bits 0) starting_bit;
     Some \<lparr>bf32_data = data, bf32_starting_bit = starting_bit, bf32_n_bits = n_bits,
           bf32_mask = m\<rparr>
   }"

text \<open>The 8-bit mask is promoted to \<open>int\<close> for the shift and truncated when it is stored.\<close>

definition init_bit_field8 :: "nat \<Rightarrow> nat \<Rightarrow> nat \<Rightarrow> bit_field_8 option" where
  "init_bit_field8 data starting_bit n_bits = do {
     m \<leftarrow> shl (ucast (mask_loop 0 n_bits 0 :: u8) :: u32) starting_bit;
     Some \<lparr>bf8_data = data, bf8_starting_bit = starting_bit, bf8_n_bits = n_bits,
           bf8_mask = ucast m\<rparr>
   }"

section \<open>Reading and writing a field\<close>

definition clear_bit_field :: "(nat \<rightharpoonup> u64) \<Rightarrow> bit_field_64 \<Rightarrow> (nat \<rightharpoonup> u64) option" where
  "clear_bit_field st pbitf = do {
     r \<leftarrow> st (bf_data pbitf);
     Some (st(bf_data pbitf \<mapsto> r AND NOT (bf_mask pbitf)))
   }"

definition set_bit_field ::
  "(nat \<rightharpoonup> u64) \<Rightarrow> bit_field_64 \<Rightarrow> u64 \<Rightarrow> (nat \<rightharpoonup> u64) option" where
  "set_bit_field st pbitf value = do {
     val_mask \<leftarrow> shl_split value (bf_starting_bit pbitf);
     st \<leftarrow> clear_bit_field st pbitf;
     r \<leftarrow> st (bf_data pbitf);
     Some (st(bf_data pbitf \<mapsto> r OR (bf_mask pbitf AND val_mask)))
   }"

definition get_bit_field :: "(nat \<rightharpoonup> u64) \<Rightarrow> bit_field_64 \<Rightarrow> u64 option" where
  "get_bit_field st pbitf = do {
     r \<leftarrow> st (bf_data pbitf);
     shr_split (r AND bf_mask pbitf) (bf_starting_bit pbitf)
   }"

text \<open>The 32-bit setter shifts the 32-bit value by up to 20 and the rest in a 64-bit local.\<close>

definition set_bit_field32 ::
  "(nat \<rightharpoonup> u32) \<Rightarrow> bit_field_32 \<Rightarrow> u32 \<Rightarrow> (nat \<rightharpoonup> u32) option" where
  "set_bit_field32 st pbitf value = do {
     val_mask \<leftarrow> (if bf32_starting_bit pbitf > 20
        then do { y \<leftarrow> shl value 20; shl (ucast y :: u64) (bf32_starting_bit pbitf - 20) }
        else map_option ucast (shl value (bf32_starting_bit pbitf)));
     r \<leftarrow> st (bf32_data pbitf);
     let r = r AND NOT (bf32_mask pbitf);
     Some (st(bf32_data pbitf \<mapsto> ucast (ucast r OR (ucast (bf32_mask pbitf) AND val_mask) :: u64)))
   }"

definition get_bit_field32 :: "(nat \<rightharpoonup> u32) \<Rightarrow> bit_field_32 \<Rightarrow> u32 option" where
  "get_bit_field32 st pbitf = do {
     r \<leftarrow> st (bf32_data pbitf);
     shr_split (r AND bf32_mask pbitf) (bf32_starting_bit pbitf)
   }"

section \<open>The mask\<close>

lemma mask_step:
  "push_bit d (push_bit 1 (m OR 1)) OR mask (Suc d)
     = (push_bit (Suc d) m OR mask (Suc (Suc d)) :: 'a::len word)"
proof -
  have "push_bit d (push_bit 1 (m OR 1)) = push_bit (Suc d) (m OR 1)"
    by (simp only: push_bit_push_bit) simp
  then show ?thesis by (simp only:) (rule bit_word_eqI, auto simp: bit_simps)
qed

lemma mask_loop_from:
  "i < n \<Longrightarrow> mask_loop i n (msk :: 'a::len word) = push_bit (n - i - 1) msk OR mask (n - i)"
proof (induction i n msk rule: mask_loop.induct)
  case (1 i n msk)
  show ?case
  proof (cases "i < n - 1")
    case True
    have "mask_loop i n msk = mask_loop (Suc i) n (push_bit 1 (msk OR 1))"
      using True "1.prems" by (simp only: mask_loop.simps [of i] Let_def if_True)
    also have "\<dots> = push_bit (n - Suc i - 1) (push_bit 1 (msk OR 1)) OR mask (n - Suc i)"
      using "1.IH" [OF "1.prems" refl refl] True by simp
    also have "\<dots> = push_bit (n - i - 1) msk OR mask (n - i)"
    proof -
      obtain d where "n = Suc (Suc (i + d))" using True by (intro that [of "n - i - 2"]) simp
      then show ?thesis using mask_step [of d msk] by simp
    qed
    finally show ?thesis .
  next
    case False
    with "1.prems" have i: "n = Suc i" by simp
    then show ?thesis by (simp add: mask_loop.simps [of i] mask_loop.simps [of "Suc i"])
  qed
qed

lemma mask_loop_0: "mask_loop 0 n 0 = (mask n :: 'a::len word)"
  by (cases n) (simp_all add: mask_loop.simps [of 0 0] mask_loop_from)

lemma init_bit_field_eq:
  assumes "starting_bit < 64"
  shows "init_bit_field data starting_bit n_bits =
    Some \<lparr>bf_data = data, bf_starting_bit = starting_bit, bf_n_bits = n_bits,
          bf_mask = push_bit starting_bit (mask n_bits)\<rparr>"
  using assms by (simp add: init_bit_field_def mask_loop_0 shl_split_eq)

section \<open>Fields of a register value\<close>

definition field :: "nat \<Rightarrow> nat \<Rightarrow> 'a::len word \<Rightarrow> 'a word" where
  "field s n r = take_bit n (drop_bit s r)"

definition put_field :: "nat \<Rightarrow> nat \<Rightarrow> 'a::len word \<Rightarrow> 'a word \<Rightarrow> 'a word" where
  "put_field s n v r =
     (r AND NOT (push_bit s (mask n))) OR (push_bit s (mask n) AND push_bit s v)"

lemma bit_put_field:
  "bit (put_field s n v (r :: 'a::len word)) j \<longleftrightarrow>
   (if s \<le> j \<and> j < s + n \<and> j < LENGTH('a) then bit v (j - s) else bit r j)"
  by (auto simp: put_field_def bit_simps dest: bit_imp_le_length)

lemma bit_field:
  "bit (field s n (r :: 'a::len word)) j \<longleftrightarrow> j < n \<and> bit r (s + j)"
  by (simp add: field_def bit_simps)

lemma field_put_same:
  "s + n \<le> LENGTH('a) \<Longrightarrow> field s n (put_field s n v (r :: 'a::len word)) = take_bit n v"
  by (rule bit_word_eqI) (auto simp: bit_field bit_put_field bit_simps)

lemma field_put_other:
  "s' + n' \<le> s \<or> s + n \<le> s' \<Longrightarrow> field s' n' (put_field s n v (r :: 'a::len word)) = field s' n' r"
  by (rule bit_word_eqI) (auto simp: bit_field bit_put_field)

lemma field_zero [simp]: "field s n 0 = 0"
  by (simp add: field_def)

section \<open>The code's getters and setters work on fields\<close>

definition bf_wf :: "bit_field_64 \<Rightarrow> bool" where
  "bf_wf bf \<longleftrightarrow> bf_starting_bit bf < 64 \<and> bf_starting_bit bf + bf_n_bits bf \<le> 64 \<and>
     bf_mask bf = push_bit (bf_starting_bit bf) (mask (bf_n_bits bf))"

lemma init_bit_field_wf:
  assumes "s < 64" and "s + n \<le> 64"
  shows "\<exists>bf. init_bit_field data s n = Some bf \<and> bf_wf bf \<and> bf_data bf = data \<and>
    bf_starting_bit bf = s \<and> bf_n_bits bf = n"
  using assms by (simp add: init_bit_field_eq bf_wf_def)

lemma set_bit_field_eq:
  assumes "bf_wf bf" and "st (bf_data bf) = Some r"
  shows "set_bit_field st bf v =
    Some (st(bf_data bf \<mapsto> put_field (bf_starting_bit bf) (bf_n_bits bf) v r))"
  using assms by (simp add: set_bit_field_def clear_bit_field_def shl_split_eq bf_wf_def put_field_def)

lemma get_bit_field_eq:
  assumes "bf_wf bf" and "st (bf_data bf) = Some r"
  shows "get_bit_field st bf = Some (field (bf_starting_bit bf) (bf_n_bits bf) r)"
proof -
  let ?s = "bf_starting_bit bf" and ?n = "bf_n_bits bf"
  have "drop_bit ?s (r AND push_bit ?s (mask ?n)) = field ?s ?n r"
    by (rule bit_word_eqI) (auto simp: bit_field bit_simps dest: bit_imp_le_length)
  then show ?thesis using assms by (simp add: get_bit_field_def shr_split_eq bf_wf_def)
qed

lemma set_bit_field32_eq:
  assumes s: "bf32_starting_bit bf < 32" "bf32_starting_bit bf + bf32_n_bits bf \<le> 32"
    and m: "bf32_mask bf = push_bit (bf32_starting_bit bf) (mask (bf32_n_bits bf))"
    and r: "st (bf32_data bf) = Some r"
  shows "set_bit_field32 st bf v =
    Some (st(bf32_data bf \<mapsto> put_field (bf32_starting_bit bf) (bf32_n_bits bf) v r))"
proof -
  let ?s = "bf32_starting_bit bf" and ?n = "bf32_n_bits bf"
  define val_mask :: u64 where "val_mask =
    (if ?s > 20 then push_bit (?s - 20) (ucast (push_bit 20 v)) else ucast (push_bit ?s v))"
  have *: "set_bit_field32 st bf v = Some (st(bf32_data bf \<mapsto>
      ucast (ucast (r AND NOT (bf32_mask bf)) OR (ucast (bf32_mask bf) AND val_mask) :: u64)))"
  proof -
    have "?s - 20 < 64" using s(1) by simp
    then show ?thesis using s r by (simp add: set_bit_field32_def shl_def val_mask_def Let_def)
  qed
  have "ucast (ucast (r AND NOT (bf32_mask bf)) OR (ucast (bf32_mask bf) AND val_mask) :: u64)
      = put_field ?s ?n v r"
    using s(1) by (intro bit_word_eqI)
      (auto simp: put_field_def m val_mask_def bit_simps dest: bit_imp_le_length)
  with * show ?thesis by simp
qed

lemma get_bit_field32_eq:
  assumes s: "bf32_starting_bit bf < 32"
    and m: "bf32_mask bf = push_bit (bf32_starting_bit bf) (mask (bf32_n_bits bf))"
    and r: "st (bf32_data bf) = Some r"
  shows "get_bit_field32 st bf = Some (field (bf32_starting_bit bf) (bf32_n_bits bf) r)"
proof -
  let ?s = "bf32_starting_bit bf" and ?n = "bf32_n_bits bf"
  have "drop_bit ?s (r AND push_bit ?s (mask ?n)) = field ?s ?n r"
    by (rule bit_word_eqI) (auto simp: bit_field bit_simps dest: bit_imp_le_length)
  then show ?thesis using s r by (simp add: get_bit_field32_def shr_split_eq m)
qed

section \<open>Properties\<close>

text \<open>Two fields initialised over the same register, with disjoint bit ranges, behave as
  independent variables: reading a field after writing it gives the value truncated to the
  width of the field, and reading the other one gives what it held before. No shift is
  undefined, whatever the positions are.\<close>

theorem bit_fields_independent:
  assumes "s1 < 64" and "s1 + n1 \<le> 64" and "s2 < 64" and "s2 + n2 \<le> 64"
    and "s1 + n1 \<le> s2 \<or> s2 + n2 \<le> s1" and "st addr = Some r"
  shows "\<exists>f1 f2 st'. init_bit_field addr s1 n1 = Some f1 \<and> init_bit_field addr s2 n2 = Some f2 \<and>
    set_bit_field st f1 v = Some st' \<and> get_bit_field st' f1 = Some (take_bit n1 v) \<and>
    get_bit_field st' f2 = get_bit_field st f2 \<and> (\<forall>a. a \<noteq> addr \<longrightarrow> st' a = st a)"
proof -
  obtain f1 where f1: "init_bit_field addr s1 n1 = Some f1" "bf_wf f1" "bf_data f1 = addr"
    "bf_starting_bit f1 = s1" "bf_n_bits f1 = n1" using init_bit_field_wf [OF assms(1,2)] by blast
  obtain f2 where f2: "init_bit_field addr s2 n2 = Some f2" "bf_wf f2" "bf_data f2 = addr"
    "bf_starting_bit f2 = s2" "bf_n_bits f2 = n2" using init_bit_field_wf [OF assms(3,4)] by blast
  have set: "set_bit_field st f1 v = Some (st(addr \<mapsto> put_field s1 n1 v r))"
    using set_bit_field_eq [OF f1(2), of st r v] f1 assms(6) by simp
  let ?st = "st(addr \<mapsto> put_field s1 n1 v r)"
  have "get_bit_field ?st f1 = Some (take_bit n1 v)"
    using get_bit_field_eq [OF f1(2), of ?st] f1 assms(2) by (simp add: field_put_same)
  moreover have "get_bit_field ?st f2 = get_bit_field st f2"
    using get_bit_field_eq [OF f2(2), of ?st] get_bit_field_eq [OF f2(2), of st r] f2 assms(5,6)
    by (simp add: field_put_other disj_commute)
  ultimately show ?thesis using f1(1) f2(1) set by (intro exI [of _ f1] exI [of _ f2] exI [of _ ?st]) simp
qed

theorem bit_fields_independent_witness:
  "\<exists>f1 f2 st'. init_bit_field 0 24 8 = Some f1 \<and> init_bit_field 0 8 8 = Some f2 \<and>
    set_bit_field [0 \<mapsto> 0xabcdef] f1 0x1ff = Some st' \<and> get_bit_field st' f1 = Some 0xff \<and>
    get_bit_field st' f2 = get_bit_field [0 \<mapsto> 0xabcdef] f2"
  using bit_fields_independent [of 24 8 8 8 "[0 \<mapsto> 0xabcdef]" 0 "0xabcdef" "0x1ff"]
  by (auto simp: take_bit_eq_mask mask_eq_exp_minus_1)

end
