(* ===== verification/HwEvents.thy ===== *)
theory HwEvents
  imports BitField
begin

text \<open>
  The counters of an Intel core (\<^verbatim>\<open>corei7/hw_events_inline.h\<close>, \<^verbatim>\<open>msr_inline.h\<close>) and the
  operations on all counters of an event set (\<^verbatim>\<open>mc_experiments.c\<close>). The state of the machine
  is the file of model-specific registers of the current CPU, a function from addresses to
  64-bit values; \<open>wrmsr\<close> and \<open>rdmsr\<close> update and read it. The \<open>rdpmc\<close> instruction, which names a
  counter by its index, is a parameter.
\<close>

section \<open>Model-specific registers\<close>

type_synonym msr_file = "u32 \<Rightarrow> u64"
type_synonym rdpmc = "msr_file \<Rightarrow> u32 \<Rightarrow> u64"

record msr_t =
  ms_address :: u32
  ms_reset_value :: u64
  ms_new_value :: u64

record pmc_t =
  pm_address :: u32
  pm_msr :: msr_t

definition resetMSR :: "msr_file \<Rightarrow> msr_t \<Rightarrow> msr_file" where
  "resetMSR m h = m(ms_address h := ms_reset_value h)"

definition writeMSR :: "msr_file \<Rightarrow> msr_t \<Rightarrow> msr_file" where
  "writeMSR m h = m(ms_address h := ms_new_value h)"

definition readMSR :: "msr_file \<Rightarrow> msr_t \<Rightarrow> msr_t" where
  "readMSR m h = h\<lparr>ms_new_value := m (ms_address h)\<rparr>"

definition resetPMC :: "msr_file \<Rightarrow> pmc_t \<Rightarrow> msr_file" where
  "resetPMC m h = m(ms_address (pm_msr h) := ms_reset_value (pm_msr h))"

definition readPMC :: "rdpmc \<Rightarrow> msr_file \<Rightarrow> pmc_t \<Rightarrow> pmc_t" where
  "readPMC rdpmc m h = h\<lparr>pm_msr := (pm_msr h)\<lparr>ms_new_value := rdpmc m (pm_address h)\<rparr>\<rparr>"

section \<open>Hardware events\<close>

record simple_exp =
  se_pmc :: pmc_t
  se_evtsel :: msr_t

record fixed_count_exp =
  fe_pmc :: msr_t
  fe_evtsel :: msr_t

datatype hw_event = SIMPLE simple_exp | FIXED fixed_count_exp

definition PMC_MSR_INITIAL_ADDRESS :: u32 where "PMC_MSR_INITIAL_ADDRESS = 0x0C1"
definition EVTSEL_MSR_INITIAL_ADDRESS :: u32 where "EVTSEL_MSR_INITIAL_ADDRESS = 0x186"
definition MSR_PERF_FIXED_CTR0 :: u32 where "MSR_PERF_FIXED_CTR0 = 0x309"
definition MSR_PERF_FIXED_CTR_CTRL :: u32 where "MSR_PERF_FIXED_CTR_CTRL = 0x38D"
definition MSR_PERF_GLOBAL_STATUS :: u32 where "MSR_PERF_GLOBAL_STATUS = 0x38E"
definition MSR_PERF_GLOBAL_OVF_CTRL :: u32 where "MSR_PERF_GLOBAL_OVF_CTRL = 0x390"
definition NUM_FIXED_COUNTERS :: nat where "NUM_FIXED_COUNTERS = 3"
definition MAX_LL_EXPS :: nat where "MAX_LL_EXPS = 11"

definition init_simple_exp :: "u32 \<Rightarrow> u32 \<Rightarrow> u32 \<Rightarrow> u64 \<Rightarrow> u64 \<Rightarrow> simple_exp" where
  "init_simple_exp pmc_msr_adress pmc_adress evtsel_adress evtsel_value reset_value_pmc =
     \<lparr>se_pmc = \<lparr>pm_address = pmc_adress,
               pm_msr = \<lparr>ms_address = pmc_msr_adress, ms_reset_value = reset_value_pmc,
                         ms_new_value = reset_value_pmc\<rparr>\<rparr>,
      se_evtsel = \<lparr>ms_address = evtsel_adress, ms_reset_value = 0,
                  ms_new_value = evtsel_value\<rparr>\<rparr>"

definition init_fixed_count_exp :: "u32 \<Rightarrow> u64 \<Rightarrow> u64 \<Rightarrow> fixed_count_exp" where
  "init_fixed_count_exp pmc_msr_adress evtsel_value reset_value_pmc =
     \<lparr>fe_pmc = \<lparr>ms_address = pmc_msr_adress, ms_reset_value = reset_value_pmc,
               ms_new_value = reset_value_pmc\<rparr>,
      fe_evtsel = \<lparr>ms_address = MSR_PERF_FIXED_CTR_CTRL, ms_reset_value = 0,
                  ms_new_value = evtsel_value\<rparr>\<rparr>"

definition startCount_exp :: "msr_file \<Rightarrow> simple_exp \<Rightarrow> msr_file" where
  "startCount_exp m e = writeMSR (writeMSR m (pm_msr (se_pmc e))) (se_evtsel e)"

definition restartCount_exp :: "msr_file \<Rightarrow> simple_exp \<Rightarrow> msr_file" where
  "restartCount_exp m e = writeMSR (resetPMC m (se_pmc e)) (se_evtsel e)"

definition stopCount_exp :: "msr_file \<Rightarrow> simple_exp \<Rightarrow> msr_file" where
  "stopCount_exp m e = resetMSR m (se_evtsel e)"

definition clear_exp :: "msr_file \<Rightarrow> simple_exp \<Rightarrow> msr_file" where
  "clear_exp m e = resetPMC m (se_pmc e)"

definition readCounter_exp :: "rdpmc \<Rightarrow> msr_file \<Rightarrow> simple_exp \<Rightarrow> simple_exp" where
  "readCounter_exp rdpmc m e = e\<lparr>se_pmc := readPMC rdpmc m (se_pmc e)\<rparr>"

definition restoreContext_exp :: "msr_file \<Rightarrow> simple_exp \<Rightarrow> msr_file" where
  "restoreContext_exp m e = writeMSR m (pm_msr (se_pmc e))"

definition startCount_fixed_exp :: "msr_file \<Rightarrow> fixed_count_exp \<Rightarrow> msr_file" where
  "startCount_fixed_exp m e = writeMSR (writeMSR m (fe_pmc e)) (fe_evtsel e)"

definition restartCount_fixed_exp :: "msr_file \<Rightarrow> fixed_count_exp \<Rightarrow> msr_file" where
  "restartCount_fixed_exp m e = resetMSR (writeMSR m (fe_evtsel e)) (fe_pmc e)"

definition stopCount_fixed_exp :: "msr_file \<Rightarrow> fixed_count_exp \<Rightarrow> msr_file" where
  "stopCount_fixed_exp m e = resetMSR m (fe_evtsel e)"

definition clear_fixed_exp :: "msr_file \<Rightarrow> fixed_count_exp \<Rightarrow> msr_file" where
  "clear_fixed_exp m e = resetMSR m (fe_pmc e)"

definition readCounter_fixed_exp :: "msr_file \<Rightarrow> fixed_count_exp \<Rightarrow> fixed_count_exp" where
  "readCounter_fixed_exp m e = e\<lparr>fe_pmc := readMSR m (fe_pmc e)\<rparr>"

definition restoreContext_fixed_exp :: "msr_file \<Rightarrow> fixed_count_exp \<Rightarrow> msr_file" where
  "restoreContext_fixed_exp m e = writeMSR m (fe_pmc e)"

section \<open>Operations of a hardware event, by type\<close>

fun start_count_hw_event :: "msr_file \<Rightarrow> hw_event \<Rightarrow> msr_file" where
  "start_count_hw_event m (SIMPLE e) = startCount_exp m e"
| "start_count_hw_event m (FIXED e) = startCount_fixed_exp m e"

fun restart_count_hw_event :: "msr_file \<Rightarrow> hw_event \<Rightarrow> msr_file" where
  "restart_count_hw_event m (SIMPLE e) = restartCount_exp m e"
| "restart_count_hw_event m (FIXED e) = restartCount_fixed_exp m e"

fun stop_count_hw_event :: "msr_file \<Rightarrow> hw_event \<Rightarrow> msr_file" where
  "stop_count_hw_event m (SIMPLE e) = stopCount_exp m e"
| "stop_count_hw_event m (FIXED e) = stopCount_fixed_exp m e"

fun clear_count_hw_event :: "msr_file \<Rightarrow> hw_event \<Rightarrow> msr_file" where
  "clear_count_hw_event m (SIMPLE e) = clear_exp m e"
| "clear_count_hw_event m (FIXED e) = clear_fixed_exp m e"

fun save_context_hw_event :: "rdpmc \<Rightarrow> msr_file \<Rightarrow> hw_event \<Rightarrow> hw_event" where
  "save_context_hw_event rdpmc m (SIMPLE e) = SIMPLE (readCounter_exp rdpmc m e)"
| "save_context_hw_event rdpmc m (FIXED e) = FIXED (readCounter_fixed_exp m e)"

fun restore_context_hw_event :: "msr_file \<Rightarrow> hw_event \<Rightarrow> msr_file" where
  "restore_context_hw_event m (SIMPLE e) = restoreContext_exp m e"
| "restore_context_hw_event m (FIXED e) = restoreContext_fixed_exp m e"

fun read_count_hw_event :: "rdpmc \<Rightarrow> msr_file \<Rightarrow> hw_event \<Rightarrow> hw_event" where
  "read_count_hw_event rdpmc m (SIMPLE e) = SIMPLE (readCounter_exp rdpmc m e)"
| "read_count_hw_event rdpmc m (FIXED e) = FIXED (readCounter_fixed_exp m e)"

fun get_last_value_hw_event :: "hw_event \<Rightarrow> u64" where
  "get_last_value_hw_event (SIMPLE e) = ms_new_value (pm_msr (se_pmc e))"
| "get_last_value_hw_event (FIXED e) = ms_new_value (fe_pmc e)"

fun get_reset_value_hw_event :: "hw_event \<Rightarrow> u64" where
  "get_reset_value_hw_event (SIMPLE e) = ms_reset_value (pm_msr (se_pmc e))"
| "get_reset_value_hw_event (FIXED e) = ms_reset_value (fe_pmc e)"

fun set_reset_value_hw_event :: "hw_event \<Rightarrow> u64 \<Rightarrow> hw_event" where
  "set_reset_value_hw_event (SIMPLE e) v =
     SIMPLE (e\<lparr>se_pmc := (se_pmc e)\<lparr>pm_msr := (pm_msr (se_pmc e))\<lparr>ms_reset_value := v\<rparr>\<rparr>\<rparr>)"
| "set_reset_value_hw_event (FIXED e) v = FIXED (e\<lparr>fe_pmc := (fe_pmc e)\<lparr>ms_reset_value := v\<rparr>\<rparr>)"

section \<open>Event sets\<close>

record low_level_exp =
  ll_id :: string
  ll_event :: hw_event
  ll_pmc_id :: u32

text \<open>\<open>ce_array\<close> holds the initialised prefix of \<open>array\<close>: its length is the field \<open>size\<close>.\<close>

record core_experiment_t =
  ce_array :: "low_level_exp list"
  ce_used_pmcs :: u32
  ce_ebs_idx :: int
  ce_need_setup :: bool
  ce_exp_idx :: int
  ce_log_to_phys :: "u32 list"
  ce_phys_to_log :: "u32 list"
  ce_nr_overflows :: "u32 list"

definition init_core_experiment_t :: "int \<Rightarrow> core_experiment_t" where
  "init_core_experiment_t exp_idx =
     \<lparr>ce_array = [], ce_used_pmcs = 0, ce_ebs_idx = -1, ce_need_setup = True,
      ce_exp_idx = exp_idx, ce_log_to_phys = replicate MAX_LL_EXPS (-1),
      ce_phys_to_log = replicate MAX_LL_EXPS (-1), ce_nr_overflows = replicate MAX_LL_EXPS 0\<rparr>"

definition reset_overflow_status :: "msr_file \<Rightarrow> msr_file" where
  "reset_overflow_status m =
     m(MSR_PERF_GLOBAL_OVF_CTRL := m MSR_PERF_GLOBAL_STATUS)"

definition restore_context_perfregs :: "msr_file \<Rightarrow> core_experiment_t \<Rightarrow> msr_file" where
  "restore_context_perfregs m ce =
     fold (\<lambda>lle m. clear_count_hw_event (stop_count_hw_event m (ll_event lle)) (ll_event lle))
       (ce_array ce) m"

text \<open>\<open>mc_restart_all_counters\<close> returns at once on NULL.\<close>

definition mc_restart_all_counters ::
  "msr_file \<Rightarrow> core_experiment_t option \<Rightarrow> msr_file \<times> core_experiment_t option" where
  "mc_restart_all_counters m core_experiment =
     (case core_experiment of
        None \<Rightarrow> (m, None)
      | Some ce \<Rightarrow>
          (reset_overflow_status
             (fold (\<lambda>lle m. restart_count_hw_event m (ll_event lle)) (ce_array ce) m),
           Some (ce\<lparr>ce_need_setup := False\<rparr>)))"

definition mc_stop_all_counters :: "msr_file \<Rightarrow> core_experiment_t \<Rightarrow> msr_file" where
  "mc_stop_all_counters m ce =
     reset_overflow_status
       (fold (\<lambda>lle m. stop_count_hw_event m (ll_event lle)) (ce_array ce) m)"

definition mc_clear_all_counters :: "msr_file \<Rightarrow> core_experiment_t \<Rightarrow> msr_file" where
  "mc_clear_all_counters m ce =
     reset_overflow_status
       (fold (\<lambda>lle m. clear_count_hw_event m (ll_event lle)) (ce_array ce) m)"

definition mc_save_all_counters :: "rdpmc \<Rightarrow> msr_file \<Rightarrow> core_experiment_t \<Rightarrow> core_experiment_t" where
  "mc_save_all_counters rdpmc m ce =
     ce\<lparr>ce_array := map (\<lambda>lle. lle\<lparr>ll_event := save_context_hw_event rdpmc m (ll_event lle)\<rparr>)
                      (ce_array ce),
        ce_need_setup := False\<rparr>"

definition mc_restore_all_counters ::
  "msr_file \<Rightarrow> core_experiment_t \<Rightarrow> msr_file \<times> core_experiment_t" where
  "mc_restore_all_counters m ce =
     (reset_overflow_status
        (fold (\<lambda>lle m. start_count_hw_event m (ll_event lle)) (ce_array ce) m),
      ce\<lparr>ce_need_setup := False\<rparr>)"

text \<open>The overflow mask in the order of the counter ids: fixed counters first.\<close>

definition read_overflow_mask :: "msr_file \<Rightarrow> nat \<Rightarrow> nat \<Rightarrow> u32" where
  "read_overflow_mask m nr_fixed nr_gp =
     (let status = m MSR_PERF_GLOBAL_STATUS;
          mask1 = fold (\<lambda>i msk. msk OR ucast (push_bit i (drop_bit (32 + i) status AND 1)))
                    [0..<nr_fixed] 0
      in fold (\<lambda>i msk. msk OR ucast (push_bit (nr_fixed + i) (drop_bit i status AND 1)))
           [0..<nr_gp] mask1)"

section \<open>Saving and restoring the context\<close>

text \<open>The counter of an event, the register that controls it and the value it is given.\<close>

fun pmc_addr :: "hw_event \<Rightarrow> u32" where
  "pmc_addr (SIMPLE e) = ms_address (pm_msr (se_pmc e))"
| "pmc_addr (FIXED e) = ms_address (fe_pmc e)"

fun ctl_addr :: "hw_event \<Rightarrow> u32" where
  "ctl_addr (SIMPLE e) = ms_address (se_evtsel e)"
| "ctl_addr (FIXED e) = ms_address (fe_evtsel e)"

fun ctl_value :: "hw_event \<Rightarrow> u64" where
  "ctl_value (SIMPLE e) = ms_new_value (se_evtsel e)"
| "ctl_value (FIXED e) = ms_new_value (fe_evtsel e)"

lemma start_count_hw_event_eq:
  "start_count_hw_event m ev = m(pmc_addr ev := get_last_value_hw_event ev, ctl_addr ev := ctl_value ev)"
  by (cases ev) (simp_all add: startCount_exp_def startCount_fixed_exp_def writeMSR_def)

lemma stop_count_hw_event_eq:
  "pmc_addr ev \<noteq> ctl_addr ev \<Longrightarrow> stop_count_hw_event m ev (pmc_addr ev) = m (pmc_addr ev)"
  by (cases ev) (simp_all add: stopCount_exp_def stopCount_fixed_exp_def resetMSR_def)

text \<open>Starting all the events of a consistent set gives every counter and every control register
  its value: no event of the set overwrites the registers of another.\<close>

definition consistent :: "hw_event list \<Rightarrow> bool" where
  "consistent evs \<longleftrightarrow>
     (\<forall>e \<in> set evs. \<forall>e' \<in> set evs. pmc_addr e \<noteq> ctl_addr e' \<and>
        (pmc_addr e = pmc_addr e' \<longrightarrow> get_last_value_hw_event e = get_last_value_hw_event e') \<and>
        (ctl_addr e = ctl_addr e' \<longrightarrow> ctl_value e = ctl_value e'))"

lemma start_all:
  fixes m :: msr_file
  assumes "consistent evs"
  defines "m' \<equiv> fold (\<lambda>e m. start_count_hw_event m e) evs m"
  shows "(\<forall>e \<in> set evs. m' (pmc_addr e) = get_last_value_hw_event e \<and> m' (ctl_addr e) = ctl_value e) \<and>
    (\<forall>a. a \<notin> pmc_addr ` set evs \<longrightarrow> a \<notin> ctl_addr ` set evs \<longrightarrow> m' a = m a)"
  using assms(1) unfolding m'_def
proof (induction evs rule: rev_induct)
  case Nil
  then show ?case by simp
next
  case (snoc e evs)
  let ?m = "fold (\<lambda>e m. start_count_hw_event m e) evs m"
  have "consistent evs" using snoc.prems unfolding consistent_def set_append by blast
  note IH = snoc.IH [OF this]
  have c: "pmc_addr e' \<noteq> ctl_addr e" "ctl_addr e' \<noteq> pmc_addr e"
    "pmc_addr e' = pmc_addr e \<longrightarrow> get_last_value_hw_event e' = get_last_value_hw_event e"
    "ctl_addr e' = ctl_addr e \<longrightarrow> ctl_value e' = ctl_value e" if "e' \<in> set (evs @ [e])" for e'
  proof -
    have ee: "e \<in> set (evs @ [e])" by simp
    note p = snoc.prems [unfolded consistent_def, rule_format]
    show "pmc_addr e' \<noteq> ctl_addr e" "ctl_addr e' \<noteq> pmc_addr e" using p that ee by metis+
    show "pmc_addr e' = pmc_addr e \<longrightarrow> get_last_value_hw_event e' = get_last_value_hw_event e"
      "ctl_addr e' = ctl_addr e \<longrightarrow> ctl_value e' = ctl_value e" using p [OF that ee] by blast+
  qed
  let ?m' = "?m(pmc_addr e := get_last_value_hw_event e, ctl_addr e := ctl_value e)"
  have step: "fold (\<lambda>e m. start_count_hw_event m e) (evs @ [e]) m = ?m'"
    by (simp add: start_count_hw_event_eq)
  have own: "?m' (pmc_addr e) = get_last_value_hw_event e" "?m' (ctl_addr e) = ctl_value e"
    using c(1) [of e] by simp_all
  have old: "?m' (pmc_addr e') = get_last_value_hw_event e' \<and> ?m' (ctl_addr e') = ctl_value e'"
    if e': "e' \<in> set evs" for e'
  proof -
    have m: "e' \<in> set (evs @ [e])" using e' by simp
    show ?thesis using IH e' c [OF m] by (simp add: fun_upd_def)
  qed
  show ?case unfolding step using own old IH by auto
qed

definition rdpmc_reads_counter :: "rdpmc \<Rightarrow> bool" where
  "rdpmc_reads_counter rdpmc \<longleftrightarrow> (\<forall>m i. rdpmc m i = m (PMC_MSR_INITIAL_ADDRESS + i))"

lemma save_context_eq:
  assumes "rdpmc_reads_counter rdpmc"
    and "\<And>s. ev = SIMPLE s \<Longrightarrow> pmc_addr ev = PMC_MSR_INITIAL_ADDRESS + pm_address (se_pmc s)"
  shows "get_last_value_hw_event (save_context_hw_event rdpmc m ev) = m (pmc_addr ev)"
    and "pmc_addr (save_context_hw_event rdpmc m ev) = pmc_addr ev"
    and "ctl_addr (save_context_hw_event rdpmc m ev) = ctl_addr ev"
    and "ctl_value (save_context_hw_event rdpmc m ev) = ctl_value ev"
  using assms by (cases ev; simp add: readCounter_exp_def readCounter_fixed_exp_def readPMC_def
      readMSR_def rdpmc_reads_counter_def)+

end
