(* ===== verification/PmuX86.thy ===== *)
theory PmuX86
  imports HwEvents
begin

text \<open>
  Configuration of the performance-monitoring unit of a general-purpose Intel processor
  (\<^verbatim>\<open>pmu_config_x86.c\<close> built for the Core i7 family, \<^verbatim>\<open>corei7/pmc_bit_layout.h\<close>): the layouts of
  the control registers, the translation of the user's counter configurations into an event
  set (\<open>do_setup_pmcs\<close>), the reset of all counters and the detection of the core types.
  \<open>cpuid\<close> is a parameter.
\<close>

section \<open>Register layouts\<close>

text \<open>The fields of a layout point to its own \<open>m_value\<close>: the store of a layout has that one cell,
  at address 0.\<close>

record evtsel_msr =
  m_evtsel :: bit_field_64
  m_umask :: bit_field_64
  m_usr :: bit_field_64
  m_os :: bit_field_64
  m_e :: bit_field_64
  m_pc :: bit_field_64
  m_int :: bit_field_64
  m_any :: bit_field_64
  m_en :: bit_field_64
  m_inv :: bit_field_64
  m_cmask :: bit_field_64
  m_nu2 :: bit_field_64
  m_store :: "nat \<rightharpoonup> u64"

definition init_evtsel_msr :: "evtsel_msr option" where
  "init_evtsel_msr = do {
     f_evtsel \<leftarrow> init_bit_field 0 0 8;
     f_umask \<leftarrow> init_bit_field 0 8 8;
     f_usr \<leftarrow> init_bit_field 0 16 1;
     f_os \<leftarrow> init_bit_field 0 17 1;
     f_e \<leftarrow> init_bit_field 0 18 1;
     f_pc \<leftarrow> init_bit_field 0 19 1;
     f_int \<leftarrow> init_bit_field 0 20 1;
     f_any \<leftarrow> init_bit_field 0 21 1;
     f_en \<leftarrow> init_bit_field 0 22 1;
     f_inv \<leftarrow> init_bit_field 0 23 1;
     f_cmask \<leftarrow> init_bit_field 0 24 8;
     f_nu2 \<leftarrow> init_bit_field 0 32 32;
     Some \<lparr>m_evtsel = f_evtsel, m_umask = f_umask, m_usr = f_usr, m_os = f_os, m_e = f_e,
           m_pc = f_pc, m_int = f_int, m_any = f_any, m_en = f_en, m_inv = f_inv,
           m_cmask = f_cmask, m_nu2 = f_nu2, m_store = [0 \<mapsto> 0]\<rparr>
   }"

definition evtsel_set :: "(evtsel_msr \<Rightarrow> bit_field_64) \<Rightarrow> u64 \<Rightarrow> evtsel_msr \<Rightarrow> evtsel_msr option" where
  "evtsel_set sel v e = do {
     st \<leftarrow> set_bit_field (m_store e) (sel e) v;
     Some (e\<lparr>m_store := st\<rparr>)
   }"

record fixed_ctr_ctrl =
  fc_enable :: "bit_field_64 list"
  fc_pmi :: "bit_field_64 list"
  fc_any :: "bit_field_64 list"
  fc_store :: "nat \<rightharpoonup> u64"

definition init_msr_perf_fixed_ctr_ctrl :: "fixed_ctr_ctrl option" where
  "init_msr_perf_fixed_ctr_ctrl = do {
     c \<leftarrow> foldM (\<lambda>i c. do {
            let offset = 4 * i;
            e \<leftarrow> init_bit_field 0 offset 2;
            p \<leftarrow> init_bit_field 0 (offset + 3) 1;
            a \<leftarrow> init_bit_field 0 (offset + 2) 1;
            Some (c\<lparr>fc_enable := fc_enable c @ [e], fc_pmi := fc_pmi c @ [p],
                    fc_any := fc_any c @ [a]\<rparr>)
          }) [0..<NUM_FIXED_COUNTERS]
          \<lparr>fc_enable = [], fc_pmi = [], fc_any = [], fc_store = Map.empty\<rparr>;
     Some (c\<lparr>fc_store := [0 \<mapsto> 0]\<rparr>)
   }"

definition fixed_set ::
  "(fixed_ctr_ctrl \<Rightarrow> bit_field_64 list) \<Rightarrow> nat \<Rightarrow> u64 \<Rightarrow> fixed_ctr_ctrl \<Rightarrow> fixed_ctr_ctrl option" where
  "fixed_set sel k v c = do {
     f \<leftarrow> rd (sel c) k;
     st \<leftarrow> set_bit_field (fc_store c) f v;
     Some (c\<lparr>fc_store := st\<rparr>)
   }"

record umask_subfield =
  um_core :: bit_field_8
  um_hw_prefetch :: bit_field_8
  um_mesi :: bit_field_8
  um_value :: u8

definition init_umask_subfield :: "umask_subfield option" where
  "init_umask_subfield = do {
     c \<leftarrow> init_bit_field8 0 6 2;
     h \<leftarrow> init_bit_field8 0 4 2;
     m \<leftarrow> init_bit_field8 0 0 4;
     Some \<lparr>um_core = c, um_hw_prefetch = h, um_mesi = m, um_value = 0\<rparr>
   }"

section \<open>Properties of a PMU and user configurations\<close>

record pmu_props_t =
  nr_fixed_pmcs :: int
  nr_gp_pmcs :: int
  pmc_width :: int
  pmc_width_mask :: u64
  processor_model :: u64
  pmu_model :: u32
  pp_coretype :: u32
  pp_initialized :: bool

record pmc_usrcfg_t =
  cfg_evtsel :: u32
  cfg_usr :: u8
  cfg_os :: u8
  cfg_reset_value :: u64
  cfg_ebs_mode :: u8
  cfg_umask :: u8
  cfg_edge :: u8
  cfg_inv :: u8
  cfg_any :: u8
  cfg_cmask :: u8

record pmc_config_set_t =
  pmc_cfg :: "pmc_usrcfg_t list"
  cs_used_pmcs :: u32
  cs_nr_pmcs :: u32
  cs_ebs_index :: int
  cs_coretype :: int

definition is_intel_hybrid_processor :: "u64 \<Rightarrow> bool" where
  "is_intel_hybrid_processor model \<longleftrightarrow> model = 151 \<or> model = 152 \<or> model = 183"

section \<open>Building an event set\<close>

text \<open>\<open>lle = &exp->array[exp->size++]\<close>, filled in.\<close>

definition append_lle :: "core_experiment_t \<Rightarrow> low_level_exp \<Rightarrow> core_experiment_t option" where
  "append_lle ce lle =
     (if length (ce_array ce) < MAX_LL_EXPS then Some (ce\<lparr>ce_array := ce_array ce @ [lle]\<rparr>) else None)"

definition init_low_level_exp_id :: "hw_event \<Rightarrow> string \<Rightarrow> u32 \<Rightarrow> low_level_exp" where
  "init_low_level_exp_id ev name pmc_id = \<lparr>ll_id = name, ll_event = ev, ll_pmc_id = pmc_id\<rparr>"

text \<open>The branch of a fixed-function counter. The control value stored here misses the counters
  configured later; the last loop of \<open>do_setup_pmcs\<close> replaces it.\<close>

definition setup_fixed_pmc ::
  "pmu_props_t \<Rightarrow> nat \<Rightarrow> pmc_usrcfg_t \<Rightarrow> core_experiment_t \<Rightarrow> fixed_ctr_ctrl
     \<Rightarrow> (core_experiment_t \<times> fixed_ctr_ctrl) option" where
  "setup_fixed_pmc props i c ce ctrl = do {
     ctrl \<leftarrow> fixed_set fc_enable i (push_bit 1 (ucast (cfg_usr c)) OR ucast (cfg_os c)) ctrl;
     (ctrl, reset_value, ce) \<leftarrow>
       (if cfg_ebs_mode c \<noteq> 0 then do {
          ctrl \<leftarrow> fixed_set fc_enable i (push_bit 1 (ucast (cfg_usr c))) ctrl;
          ctrl \<leftarrow> fixed_set fc_pmi i 1 ctrl;
          Some (ctrl, (- cfg_reset_value c) AND pmc_width_mask props,
                ce\<lparr>ce_ebs_idx := int (length (ce_array ce))\<rparr>)
        } else Some (ctrl, 0, ce));
     v \<leftarrow> fc_store ctrl 0;
     ce \<leftarrow> append_lle ce (init_low_level_exp_id
             (FIXED (init_fixed_count_exp (MSR_PERF_FIXED_CTR0 + of_nat i) v reset_value))
             ''fixed-count'' (of_nat i));
     Some (ce, ctrl)
   }"

text \<open>The branch of a general-purpose counter: the fields of its event-select register.\<close>

definition gp_evtsel :: "pmu_props_t \<Rightarrow> pmc_usrcfg_t \<Rightarrow> (u64 \<times> u64) option" where
  "gp_evtsel props c = do {
     e \<leftarrow> init_evtsel_msr;
     e \<leftarrow> evtsel_set m_evtsel (ucast (cfg_evtsel c)) e;
     e \<leftarrow> evtsel_set m_umask (ucast (cfg_umask c)) e;
     e \<leftarrow> evtsel_set m_usr (ucast (cfg_usr c)) e;
     e \<leftarrow> evtsel_set m_os (ucast (cfg_os c)) e;
     e \<leftarrow> evtsel_set m_e (ucast (cfg_edge c)) e;
     e \<leftarrow> evtsel_set m_en 1 e;
     e \<leftarrow> evtsel_set m_inv (ucast (cfg_inv c)) e;
     e \<leftarrow> evtsel_set m_cmask (ucast (cfg_cmask c)) e;
     e \<leftarrow> evtsel_set m_int 1 e;
     e \<leftarrow> evtsel_set m_any (ucast (cfg_any c)) e;
     (e, reset_value) \<leftarrow>
       (if cfg_ebs_mode c \<noteq> 0 then do {
          e \<leftarrow> evtsel_set m_os 0 e;
          Some (e, (- cfg_reset_value c) AND pmc_width_mask props)
        } else Some (e, 0));
     v \<leftarrow> m_store e 0;
     Some (v, reset_value)
   }"

definition force_os :: "int \<Rightarrow> pmc_usrcfg_t \<Rightarrow> pmc_usrcfg_t" where
  "force_os gppmc_id c = (if gppmc_id \<ge> 4 \<and> gppmc_id \<le> 7 then c\<lparr>cfg_os := 1\<rparr> else c)"

definition setup_gp_pmc ::
  "pmu_props_t \<Rightarrow> int \<Rightarrow> nat \<Rightarrow> pmc_usrcfg_t \<Rightarrow> core_experiment_t \<Rightarrow> core_experiment_t option" where
  "setup_gp_pmc props gppmc_id i c ce = do {
     (v, reset_value) \<leftarrow> gp_evtsel props c;
     let ce = (if cfg_ebs_mode c \<noteq> 0 then ce\<lparr>ce_ebs_idx := int (length (ce_array ce))\<rparr> else ce);
     append_lle ce (init_low_level_exp_id
       (SIMPLE (init_simple_exp (PMC_MSR_INITIAL_ADDRESS + word_of_int gppmc_id)
          (word_of_int gppmc_id) (EVTSEL_MSR_INITIAL_ADDRESS + word_of_int gppmc_id) v reset_value))
       ''gp-pmc'' (of_nat i))
   }"

type_synonym setup_state = "core_experiment_t \<times> fixed_ctr_ctrl \<times> pmc_usrcfg_t list \<times> nat"

definition setup_pmc :: "pmu_props_t \<Rightarrow> u32 \<Rightarrow> nat \<Rightarrow> setup_state \<Rightarrow> setup_state option" where
  "setup_pmc props used_pmcs_msk i = (\<lambda>(ce, ctrl, cfgs, nr_fixed_used).
     if bit used_pmcs_msk i then do {
       (ce, ctrl, cfgs, nr_fixed_used) \<leftarrow>
         (if nr_fixed_pmcs props > 0 \<and> int i < nr_fixed_pmcs props then do {
            c \<leftarrow> rd cfgs i;
            (ce, ctrl) \<leftarrow> setup_fixed_pmc props i c ce ctrl;
            Some (ce, ctrl, cfgs, Suc nr_fixed_used)
          } else do {
            let gppmc_id = int i - nr_fixed_pmcs props;
            c \<leftarrow> rd cfgs i;
            cfgs \<leftarrow> wr cfgs i (force_os gppmc_id c);
            ce \<leftarrow> setup_gp_pmc props gppmc_id i (force_os gppmc_id c) ce;
            Some (ce, ctrl, cfgs, nr_fixed_used)
          });
       let n = length (ce_array ce);
       l2p \<leftarrow> wr (ce_log_to_phys ce) (n - 1) (of_nat i);
       p2l \<leftarrow> wr (ce_phys_to_log ce) i (of_nat (n - 1));
       Some (ce\<lparr>ce_log_to_phys := l2p, ce_phys_to_log := p2l\<rparr>, ctrl, cfgs, nr_fixed_used)
     } else Some (ce, ctrl, cfgs, nr_fixed_used))"

definition set_fixed_ctrl :: "u64 \<Rightarrow> low_level_exp \<Rightarrow> low_level_exp" where
  "set_fixed_ctrl v lle =
     (case ll_event lle of
        SIMPLE _ \<Rightarrow> lle
      | FIXED f \<Rightarrow> lle\<lparr>ll_event := FIXED (f\<lparr>fe_evtsel := (fe_evtsel f)\<lparr>ms_new_value := v\<rparr>\<rparr>)\<rparr>)"

definition do_setup_pmcs ::
  "pmu_props_t \<Rightarrow> pmc_config_set_t \<Rightarrow> u32 \<Rightarrow> int \<Rightarrow> (core_experiment_t \<times> pmc_config_set_t) option" where
  "do_setup_pmcs props cconfig used_pmcs_msk exp_idx = do {
     ctrl \<leftarrow> init_msr_perf_fixed_ctr_ctrl;
     let ce = (init_core_experiment_t exp_idx)\<lparr>ce_used_pmcs := used_pmcs_msk\<rparr>;
     (ce, ctrl, cfgs, nr_fixed_used) \<leftarrow>
       foldM (setup_pmc props used_pmcs_msk) [0..<MAX_LL_EXPS] (ce, ctrl, pmc_cfg cconfig, 0);
     v \<leftarrow> fc_store ctrl 0;
     let v = (if is_intel_hybrid_processor (processor_model props) \<and> cs_coretype cconfig = 1
              then v OR push_bit 12 2 else v);
     arr \<leftarrow> foldM (\<lambda>i arr. do { lle \<leftarrow> rd arr i; wr arr i (set_fixed_ctrl v lle) })
             [0..<nr_fixed_used] (ce_array ce);
     Some (ce\<lparr>ce_array := arr\<rparr>, cconfig\<lparr>pmc_cfg := cfgs\<rparr>)
   }"

end
