(* ===== verification/PmuSetup.thy ===== *)
theory PmuSetup
  imports PmuX86
begin

text \<open>
  What \<open>do_setup_pmcs\<close> builds: a closed form of the event set (\<open>setup_result\<close>), the fields of
  the control registers it computes, and the behaviour of the event set over a context switch.
\<close>

section \<open>The layouts as field updates\<close>

definition bf_at :: "nat \<Rightarrow> nat \<Rightarrow> bit_field_64" where
  "bf_at s n = \<lparr>bf_data = 0, bf_starting_bit = s, bf_n_bits = n, bf_mask = push_bit s (mask n)\<rparr>"

lemma init_bf_at: "s < 64 \<Longrightarrow> init_bit_field 0 s n = Some (bf_at s n)"
  by (simp add: init_bit_field_eq bf_at_def)

lemma set_bf_at:
  "s < 64 \<Longrightarrow> s + n \<le> 64 \<Longrightarrow>
   set_bit_field [0 \<mapsto> r] (bf_at s n) v = Some [0 \<mapsto> put_field s n v r]"
  using set_bit_field_eq [of "bf_at s n" "[0 \<mapsto> r]" r v] by (simp add: bf_at_def bf_wf_def)

definition evtsel_with :: "u64 \<Rightarrow> evtsel_msr" where
  "evtsel_with r = \<lparr>m_evtsel = bf_at 0 8, m_umask = bf_at 8 8, m_usr = bf_at 16 1,
     m_os = bf_at 17 1, m_e = bf_at 18 1, m_pc = bf_at 19 1, m_int = bf_at 20 1,
     m_any = bf_at 21 1, m_en = bf_at 22 1, m_inv = bf_at 23 1, m_cmask = bf_at 24 8,
     m_nu2 = bf_at 32 32, m_store = [0 \<mapsto> r]\<rparr>"

lemma init_evtsel_msr_eq: "init_evtsel_msr = Some (evtsel_with 0)"
  by (simp add: init_evtsel_msr_def init_bf_at evtsel_with_def)

lemma evtsel_set_with:
  "sel (evtsel_with r) = bf_at s n \<Longrightarrow> s < 64 \<Longrightarrow> s + n \<le> 64 \<Longrightarrow>
   evtsel_set sel v (evtsel_with r) = Some (evtsel_with (put_field s n v r))"
  by (simp add: evtsel_set_def evtsel_with_def set_bf_at)

lemma evtsel_sels [simp]:
  "m_evtsel (evtsel_with r) = bf_at 0 8" "m_umask (evtsel_with r) = bf_at 8 8"
  "m_usr (evtsel_with r) = bf_at 16 1" "m_os (evtsel_with r) = bf_at 17 1"
  "m_e (evtsel_with r) = bf_at 18 1" "m_int (evtsel_with r) = bf_at 20 1"
  "m_any (evtsel_with r) = bf_at 21 1" "m_en (evtsel_with r) = bf_at 22 1"
  "m_inv (evtsel_with r) = bf_at 23 1" "m_cmask (evtsel_with r) = bf_at 24 8"
  "m_store (evtsel_with r) = [0 \<mapsto> r]"
  by (simp_all add: evtsel_with_def)

lemmas evtsel_set_fields =
  evtsel_set_with [where sel = m_evtsel, OF evtsel_sels(1)]
  evtsel_set_with [where sel = m_umask, OF evtsel_sels(2)]
  evtsel_set_with [where sel = m_usr, OF evtsel_sels(3)]
  evtsel_set_with [where sel = m_os, OF evtsel_sels(4)]
  evtsel_set_with [where sel = m_e, OF evtsel_sels(5)]
  evtsel_set_with [where sel = m_int, OF evtsel_sels(6)]
  evtsel_set_with [where sel = m_any, OF evtsel_sels(7)]
  evtsel_set_with [where sel = m_en, OF evtsel_sels(8)]
  evtsel_set_with [where sel = m_inv, OF evtsel_sels(9)]
  evtsel_set_with [where sel = m_cmask, OF evtsel_sels(10)]

definition evtsel_word :: "pmc_usrcfg_t \<Rightarrow> u64" where
  "evtsel_word c =
     (let w = put_field 21 1 (ucast (cfg_any c)) (put_field 20 1 1
                (put_field 24 8 (ucast (cfg_cmask c)) (put_field 23 1 (ucast (cfg_inv c))
                (put_field 22 1 1 (put_field 18 1 (ucast (cfg_edge c))
                (put_field 17 1 (ucast (cfg_os c)) (put_field 16 1 (ucast (cfg_usr c))
                (put_field 8 8 (ucast (cfg_umask c)) (put_field 0 8 (ucast (cfg_evtsel c)) 0)))))))))
      in if cfg_ebs_mode c \<noteq> 0 then put_field 17 1 0 w else w)"

definition reset_of :: "pmu_props_t \<Rightarrow> pmc_usrcfg_t \<Rightarrow> u64" where
  "reset_of props c =
     (if cfg_ebs_mode c \<noteq> 0 then (- cfg_reset_value c) AND pmc_width_mask props else 0)"

lemma gp_evtsel_eq: "gp_evtsel props c = Some (evtsel_word c, reset_of props c)"
  by (simp add: gp_evtsel_def init_evtsel_msr_eq evtsel_set_fields evtsel_word_def reset_of_def Let_def)

lemma take_bit_8_u8: "take_bit 8 (ucast (x :: u8) :: u64) = ucast x"
  by (rule bit_word_eqI) (auto simp: bit_simps dest: bit_imp_le_length)

lemma evtsel_word_fields:
  "field 0 8 (evtsel_word c) = take_bit 8 (ucast (cfg_evtsel c))"
  "field 8 8 (evtsel_word c) = ucast (cfg_umask c)"
  "field 16 1 (evtsel_word c) = take_bit 1 (ucast (cfg_usr c))"
  "field 17 1 (evtsel_word c) = (if cfg_ebs_mode c \<noteq> 0 then 0 else take_bit 1 (ucast (cfg_os c)))"
  "field 18 1 (evtsel_word c) = take_bit 1 (ucast (cfg_edge c))"
  "field 20 1 (evtsel_word c) = 1"
  "field 21 1 (evtsel_word c) = take_bit 1 (ucast (cfg_any c))"
  "field 22 1 (evtsel_word c) = 1"
  "field 23 1 (evtsel_word c) = take_bit 1 (ucast (cfg_inv c))"
  "field 24 8 (evtsel_word c) = ucast (cfg_cmask c)"
  "field 32 32 (evtsel_word c) = 0"
  by (simp_all add: evtsel_word_def Let_def field_put_same field_put_other take_bit_8_u8)


definition fixed_with :: "u64 \<Rightarrow> fixed_ctr_ctrl" where
  "fixed_with r = \<lparr>fc_enable = [bf_at 0 2, bf_at 4 2, bf_at 8 2],
     fc_pmi = [bf_at 3 1, bf_at 7 1, bf_at 11 1], fc_any = [bf_at 2 1, bf_at 6 1, bf_at 10 1],
     fc_store = [0 \<mapsto> r]\<rparr>"

lemma init_fixed_eq: "init_msr_perf_fixed_ctr_ctrl = Some (fixed_with 0)"
  by (simp add: init_msr_perf_fixed_ctr_ctrl_def NUM_FIXED_COUNTERS_def upt_conv_Cons init_bf_at
      fixed_with_def numeral_2_eq_2 del: upt_Suc)

lemma less_3_cases: "k < 3 \<Longrightarrow> k = 0 \<or> k = 1 \<or> k = (2::nat)"
  by auto

lemma fixed_set_with:
  "k < 3 \<Longrightarrow> fixed_set fc_enable k v (fixed_with r) = Some (fixed_with (put_field (4 * k) 2 v r))"
  "k < 3 \<Longrightarrow> fixed_set fc_pmi k v (fixed_with r) = Some (fixed_with (put_field (4 * k + 3) 1 v r))"
  by (auto dest!: less_3_cases simp: fixed_set_def fixed_with_def rd_def set_bf_at numeral_2_eq_2)

definition fixed_step :: "pmc_usrcfg_t \<Rightarrow> nat \<Rightarrow> u64 \<Rightarrow> u64" where
  "fixed_step c k r =
     (let r = put_field (4 * k) 2 (push_bit 1 (ucast (cfg_usr c)) OR ucast (cfg_os c)) r
      in if cfg_ebs_mode c \<noteq> 0
         then put_field (4 * k + 3) 1 1 (put_field (4 * k) 2 (push_bit 1 (ucast (cfg_usr c))) r)
         else r)"

definition fixed_lle :: "pmu_props_t \<Rightarrow> pmc_usrcfg_t \<Rightarrow> u64 \<Rightarrow> nat \<Rightarrow> low_level_exp" where
  "fixed_lle props c v k = init_low_level_exp_id
     (FIXED (init_fixed_count_exp (MSR_PERF_FIXED_CTR0 + of_nat k) v (reset_of props c)))
     ''fixed-count'' (of_nat k)"

definition gp_lle :: "pmu_props_t \<Rightarrow> pmc_usrcfg_t \<Rightarrow> int \<Rightarrow> nat \<Rightarrow> low_level_exp" where
  "gp_lle props c g k = init_low_level_exp_id
     (SIMPLE (init_simple_exp (PMC_MSR_INITIAL_ADDRESS + word_of_int g) (word_of_int g)
        (EVTSEL_MSR_INITIAL_ADDRESS + word_of_int g) (evtsel_word c) (reset_of props c)))
     ''gp-pmc'' (of_nat k)"

definition mark_ebs :: "pmc_usrcfg_t \<Rightarrow> core_experiment_t \<Rightarrow> core_experiment_t" where
  "mark_ebs c ce = (if cfg_ebs_mode c \<noteq> 0 then ce\<lparr>ce_ebs_idx := int (length (ce_array ce))\<rparr> else ce)"

lemma setup_fixed_pmc_eq:
  assumes "k < 3" and "length (ce_array ce) < MAX_LL_EXPS"
  shows "\<exists>v. setup_fixed_pmc props k c ce (fixed_with r) =
    Some ((mark_ebs c ce)\<lparr>ce_array := ce_array ce @ [fixed_lle props c v k]\<rparr>,
          fixed_with (fixed_step c k r))"
  using assms
  by (auto simp: setup_fixed_pmc_def fixed_set_with mark_ebs_def fixed_step_def Let_def append_lle_def
      fixed_lle_def reset_of_def) (auto simp: fixed_with_def)

lemma setup_gp_pmc_eq:
  assumes "length (ce_array ce) < MAX_LL_EXPS"
  shows "setup_gp_pmc props g k c ce =
    Some ((mark_ebs c ce)\<lparr>ce_array := ce_array ce @ [gp_lle props c g k]\<rparr>)"
  using assms by (simp add: setup_gp_pmc_def gp_evtsel_eq mark_ebs_def append_lle_def gp_lle_def Let_def)


section \<open>The loop over the counters\<close>

abbreviation used :: "u32 \<Rightarrow> nat \<Rightarrow> nat list" where
  "used msk n \<equiv> filter (bit msk) [0..<n]"

definition lle_for :: "pmu_props_t \<Rightarrow> pmc_usrcfg_t list \<Rightarrow> u64 \<Rightarrow> nat \<Rightarrow> low_level_exp" where
  "lle_for props cfgs v k =
     (if int k < nr_fixed_pmcs props then fixed_lle props (cfgs ! k) v k
      else gp_lle props (force_os (int k - nr_fixed_pmcs props) (cfgs ! k))
             (int k - nr_fixed_pmcs props) k)"

definition fixed_word :: "pmu_props_t \<Rightarrow> pmc_usrcfg_t list \<Rightarrow> u32 \<Rightarrow> nat \<Rightarrow> u64" where
  "fixed_word props cfgs msk n =
     fold (\<lambda>k r. if bit msk k \<and> int k < nr_fixed_pmcs props then fixed_step (cfgs ! k) k r else r)
       [0..<n] 0"

definition cfgs_after :: "pmu_props_t \<Rightarrow> pmc_usrcfg_t list \<Rightarrow> u32 \<Rightarrow> nat \<Rightarrow> pmc_usrcfg_t list" where
  "cfgs_after props cfgs msk n =
     map (\<lambda>k. if k < n \<and> bit msk k \<and> nr_fixed_pmcs props \<le> int k
              then force_os (int k - nr_fixed_pmcs props) (cfgs ! k) else cfgs ! k)
       [0..<length cfgs]"

definition rank_of :: "u32 \<Rightarrow> nat \<Rightarrow> nat" where
  "rank_of msk k = length (used msk k)"

definition setup_inv ::
  "pmu_props_t \<Rightarrow> pmc_usrcfg_t list \<Rightarrow> u32 \<Rightarrow> int \<Rightarrow> nat \<Rightarrow> setup_state \<Rightarrow> bool" where
  "setup_inv props cfgs msk idx i = (\<lambda>(ce, ctrl, cfgs', nf).
     ctrl = fixed_with (fixed_word props cfgs msk i) \<and> cfgs' = cfgs_after props cfgs msk i \<and>
     nf = length (filter (\<lambda>k. int k < nr_fixed_pmcs props) (used msk i)) \<and>
     length (ce_array ce) = rank_of msk i \<and>
     (\<forall>v. map (set_fixed_ctrl v) (ce_array ce) = map (lle_for props cfgs v) (used msk i)) \<and>
     ce_used_pmcs ce = msk \<and> ce_need_setup ce \<and> ce_exp_idx ce = idx \<and>
     ce_nr_overflows ce = replicate MAX_LL_EXPS 0 \<and>
     ce_ebs_idx ce = fold (\<lambda>k e. if cfg_ebs_mode (cfgs ! k) \<noteq> 0 then int (rank_of msk k) else e)
                       (used msk i) (-1) \<and>
     ce_log_to_phys ce = map of_nat (used msk i) @ replicate (MAX_LL_EXPS - rank_of msk i) (-1) \<and>
     ce_phys_to_log ce = map (\<lambda>k. if k < i \<and> bit msk k then of_nat (rank_of msk k) else -1)
                           [0..<MAX_LL_EXPS])"

lemma rank_le: "rank_of msk k \<le> k"
  unfolding rank_of_def by (metis diff_zero length_filter_le length_upt)

lemma set_fixed_lle: "set_fixed_ctrl v (fixed_lle props c w k) = fixed_lle props c v k"
  by (simp add: set_fixed_ctrl_def fixed_lle_def init_low_level_exp_id_def init_fixed_count_exp_def)

lemma set_gp_lle: "set_fixed_ctrl v (gp_lle props c g k) = gp_lle props c g k"
  by (simp add: set_fixed_ctrl_def gp_lle_def init_low_level_exp_id_def)

lemma cfg_ebs_force_os [simp]: "cfg_ebs_mode (force_os g c) = cfg_ebs_mode c"
  by (simp add: force_os_def)

lemma mark_ebs_sels [simp]:
  "ce_array (mark_ebs c ce) = ce_array ce" "ce_used_pmcs (mark_ebs c ce) = ce_used_pmcs ce"
  "ce_need_setup (mark_ebs c ce) = ce_need_setup ce" "ce_exp_idx (mark_ebs c ce) = ce_exp_idx ce"
  "ce_nr_overflows (mark_ebs c ce) = ce_nr_overflows ce"
  "ce_log_to_phys (mark_ebs c ce) = ce_log_to_phys ce"
  "ce_phys_to_log (mark_ebs c ce) = ce_phys_to_log ce"
  "ce_ebs_idx (mark_ebs c ce) =
     (if cfg_ebs_mode c \<noteq> 0 then int (length (ce_array ce)) else ce_ebs_idx ce)"
  by (simp_all add: mark_ebs_def)

lemma upd_replicate: "n < m \<Longrightarrow> length xs = n \<Longrightarrow>
  (xs @ replicate (m - n) y)[n := x] = xs @ x # replicate (m - Suc n) y"
  by (cases "m - n") (auto simp: list_update_append)

lemma setup_pmc_step:
  assumes F: "0 \<le> nr_fixed_pmcs props" "nr_fixed_pmcs props \<le> 3" and len: "length cfgs = MAX_LL_EXPS"
    and i: "i < MAX_LL_EXPS" and inv: "setup_inv props cfgs msk idx i s"
  shows "\<exists>s'. setup_pmc props msk i s = Some s' \<and> setup_inv props cfgs msk idx (Suc i) s'"
proof -
  obtain ce ctrl cfgs' nf where s: "s = (ce, ctrl, cfgs', nf)" by (cases s)
  note I = inv [unfolded setup_inv_def s prod.case]
  have len': "length cfgs' = MAX_LL_EXPS" using I len by (simp add: cfgs_after_def)
  have ci: "cfgs' ! i = cfgs ! i" using I i len by (simp add: cfgs_after_def)
  have n: "length (ce_array ce) < MAX_LL_EXPS" using I rank_le [of msk i] i by linarith
  have c0: "cfgs_after props cfgs msk (Suc i) = cfgs_after props cfgs msk i"
    if "\<not> bit msk i \<or> int i < nr_fixed_pmcs props"
    using that by (auto simp: cfgs_after_def less_Suc_eq intro!: map_cong)
  show ?thesis
  proof (cases "bit msk i")
    case False
    then show ?thesis using I c0
      by (simp add: s setup_pmc_def setup_inv_def fixed_word_def rank_of_def less_Suc_eq cong: conj_cong)
  next
    case True
    let ?c = "cfgs ! i"
    have p2l: "(ce_phys_to_log ce)[i := of_nat (length (ce_array ce))] =
      map (\<lambda>k. if k < Suc i \<and> bit msk k then of_nat (rank_of msk k) else -1) [0..<MAX_LL_EXPS]"
      using I i True by (intro nth_equalityI) (auto simp: nth_list_update less_Suc_eq)
    have l2p: "(ce_log_to_phys ce)[length (ce_array ce) := of_nat i] =
      map of_nat (used msk (Suc i)) @ replicate (MAX_LL_EXPS - rank_of msk (Suc i)) (-1)"
      using I n True by (simp add: rank_of_def upd_replicate)
    have ll: "length (ce_log_to_phys ce) = MAX_LL_EXPS"
      using I rank_le [of msk i] i by (simp add: rank_of_def)
    have lp: "length (ce_phys_to_log ce) = MAX_LL_EXPS" using I by simp
    show ?thesis
    proof (cases "int i < nr_fixed_pmcs props")
      case fixed: True
      with F have "i < 3" by simp
      from setup_fixed_pmc_eq [OF this n, of props ?c "fixed_word props cfgs msk i"] obtain v where
        v: "setup_fixed_pmc props i ?c ce ctrl =
          Some ((mark_ebs ?c ce)\<lparr>ce_array := ce_array ce @ [fixed_lle props ?c v i]\<rparr>,
            fixed_with (fixed_step ?c i (fixed_word props cfgs msk i)))"
        using I by auto
      let ?ce = "(mark_ebs ?c ce)\<lparr>ce_array := ce_array ce @ [fixed_lle props ?c v i],
        ce_log_to_phys := (ce_log_to_phys ce)[length (ce_array ce) := of_nat i],
        ce_phys_to_log := (ce_phys_to_log ce)[i := of_nat (length (ce_array ce))]\<rparr>"
      let ?s' = "(?ce, fixed_with (fixed_step ?c i (fixed_word props cfgs msk i)), cfgs', Suc nf)"
      have "setup_pmc props msk i s = Some ?s'"
        using True fixed i len' ll lp n v by (simp add: s setup_pmc_def ci mem_simps)
      moreover have "setup_inv props cfgs msk idx (Suc i) ?s'"
        using I True fixed c0 unfolding setup_inv_def p2l l2p
        by (simp add: set_fixed_lle) (simp add: fixed_word_def rank_of_def lle_for_def)
      ultimately show ?thesis by blast
    next
      case gp: False
      let ?g = "int i - nr_fixed_pmcs props"
      note g = setup_gp_pmc_eq [OF n, of props ?g i "force_os ?g ?c"]
      have cf: "cfgs'[i := force_os ?g ?c] = cfgs_after props cfgs msk (Suc i)"
        using I i len True gp by (intro nth_equalityI) (auto simp: cfgs_after_def nth_list_update less_Suc_eq)
      let ?ce = "(mark_ebs (force_os ?g ?c) ce)\<lparr>
        ce_array := ce_array ce @ [gp_lle props (force_os ?g ?c) ?g i],
        ce_log_to_phys := (ce_log_to_phys ce)[length (ce_array ce) := of_nat i],
        ce_phys_to_log := (ce_phys_to_log ce)[i := of_nat (length (ce_array ce))]\<rparr>"
      let ?s' = "(?ce, ctrl, cfgs'[i := force_os ?g ?c], nf)"
      have "setup_pmc props msk i s = Some ?s'"
        using True gp i len' ll lp n g by (simp add: s setup_pmc_def ci mem_simps Let_def)
      moreover have "setup_inv props cfgs msk idx (Suc i) ?s'"
        using I True gp unfolding setup_inv_def p2l l2p cf
        by (simp add: set_gp_lle) (simp add: fixed_word_def rank_of_def lle_for_def)
      ultimately show ?thesis by blast
    qed
  qed
qed


lemma patch_loop:
  assumes "n \<le> length arr"
  shows "foldM (\<lambda>i arr. do { lle \<leftarrow> rd arr i; wr arr i (f lle) }) [0..<n] arr
    = Some (map f (take n arr) @ drop n arr)"
proof -
  have "\<exists>arr'. foldM (\<lambda>i arr. do { lle \<leftarrow> rd arr i; wr arr i (f lle) }) [0..<n] arr = Some arr' \<and>
      arr' = map f (take n arr) @ drop n arr"
  proof (rule foldM_upt)
    fix i arr' assume "i < n" and "arr' = map f (take i arr) @ drop i arr"
    with assms show "\<exists>s'. (rd arr' i \<bind> (\<lambda>lle. wr arr' i (f lle))) = Some s' \<and>
        s' = map f (take (Suc i) arr) @ drop (Suc i) arr"
      by (simp add: mem_simps nth_append list_update_append take_Suc_conv_app_nth
          flip: Cons_nth_drop_Suc)
  qed simp
  then show ?thesis by simp
qed

definition fixed_ctrl_word :: "pmu_props_t \<Rightarrow> pmc_config_set_t \<Rightarrow> u32 \<Rightarrow> u64" where
  "fixed_ctrl_word props cc msk =
     (let v = fixed_word props (pmc_cfg cc) msk MAX_LL_EXPS
      in if is_intel_hybrid_processor (processor_model props) \<and> cs_coretype cc = 1
         then v OR push_bit 12 2 else v)"

definition setup_result :: "pmu_props_t \<Rightarrow> pmc_config_set_t \<Rightarrow> u32 \<Rightarrow> int \<Rightarrow> core_experiment_t" where
  "setup_result props cc msk idx =
     (let us = used msk MAX_LL_EXPS; cfgs = pmc_cfg cc
      in \<lparr>ce_array = map (lle_for props cfgs (fixed_ctrl_word props cc msk)) us,
          ce_used_pmcs = msk,
          ce_ebs_idx = fold (\<lambda>k e. if cfg_ebs_mode (cfgs ! k) \<noteq> 0 then int (rank_of msk k) else e) us (-1),
          ce_need_setup = True, ce_exp_idx = idx,
          ce_log_to_phys = map of_nat us @ replicate (MAX_LL_EXPS - length us) (-1),
          ce_phys_to_log = map (\<lambda>k. if bit msk k then of_nat (rank_of msk k) else -1) [0..<MAX_LL_EXPS],
          ce_nr_overflows = replicate MAX_LL_EXPS 0\<rparr>)"

lemma filter_less_prefix:
  "j < length (filter (\<lambda>k. int k < F) (filter P [0..<n])) \<longleftrightarrow>
   j < length (filter P [0..<n]) \<and> int (filter P [0..<n] ! j) < F"
proof (induction n)
  case 0
  then show ?case by simp
next
  case (Suc n)
  have le: "filter P [0..<n] ! i < n" if "i < length (filter P [0..<n])" for i
    using nth_mem [OF that] by simp
  have all: "length (filter (\<lambda>k. int k < F) (filter P [0..<n])) = length (filter P [0..<n])"
    if "int n < F" using that by (intro arg_cong [where f = length] filter_True) auto
  show ?case using Suc all le by (auto simp: nth_append less_Suc_eq not_less)
qed

lemma do_setup_pmcs_eq:
  assumes F: "0 \<le> nr_fixed_pmcs props" "nr_fixed_pmcs props \<le> 3"
    and len: "length (pmc_cfg cc) = MAX_LL_EXPS"
  shows "do_setup_pmcs props cc msk idx =
    Some (setup_result props cc msk idx, cc\<lparr>pmc_cfg := cfgs_after props (pmc_cfg cc) msk MAX_LL_EXPS\<rparr>)"
proof -
  let ?cfgs = "pmc_cfg cc"
  let ?s0 = "((init_core_experiment_t idx)\<lparr>ce_used_pmcs := msk\<rparr>, fixed_with 0, ?cfgs, 0)"
  have 0: "setup_inv props ?cfgs msk idx 0 ?s0"
    by (simp add: setup_inv_def init_core_experiment_t_def fixed_word_def cfgs_after_def rank_of_def
        map_nth map_replicate_const)
  have "\<exists>s'. foldM (setup_pmc props msk) [0..<MAX_LL_EXPS] ?s0 = Some s' \<and>
      setup_inv props ?cfgs msk idx MAX_LL_EXPS s'"
    by (rule foldM_upt [where I = "setup_inv props ?cfgs msk idx", OF 0])
      (rule setup_pmc_step [OF F len])
  then obtain ce ctrl cfgs' nf where s': "foldM (setup_pmc props msk) [0..<MAX_LL_EXPS] ?s0 = Some (ce, ctrl, cfgs', nf)"
    and inv: "setup_inv props ?cfgs msk idx MAX_LL_EXPS (ce, ctrl, cfgs', nf)" by (auto simp: split_paired_Ex)
  let ?us = "used msk MAX_LL_EXPS" and ?v = "fixed_ctrl_word props cc msk"
  let ?arr = "ce_array ce"
  have la: "length ?arr = length ?us" and mapf: "map (set_fixed_ctrl v) ?arr = map (lle_for props ?cfgs v) ?us"
    and nf_eq: "nf = length (filter (\<lambda>k. int k < nr_fixed_pmcs props) ?us)"
    and c': "cfgs' = cfgs_after props ?cfgs msk MAX_LL_EXPS"
    and v0: "fc_store ctrl 0 = Some (fixed_word props ?cfgs msk MAX_LL_EXPS)" for v
    using inv by (simp_all add: setup_inv_def rank_of_def fixed_with_def)
  have nf: "nf \<le> length ?arr" by (simp only: la nf_eq length_filter_le)
  have lle: "set_fixed_ctrl v (?arr ! j) = lle_for props ?cfgs v (?us ! j)" if "j < length ?arr" for j v
  proof -
    have "map (set_fixed_ctrl v) ?arr ! j = map (lle_for props ?cfgs v) ?us ! j" by (simp only: mapf)
    then show ?thesis using that la by simp
  qed
  have gp: "?arr ! j = lle_for props ?cfgs v (?us ! j)" if "nf \<le> j" "j < length ?arr" for j v
  proof -
    have "\<not> int (?us ! j) < nr_fixed_pmcs props"
      using filter_less_prefix [of j "nr_fixed_pmcs props" "bit msk" MAX_LL_EXPS] that
      by (simp only: la nf_eq) simp
    then obtain e where e: "lle_for props ?cfgs v (?us ! j) = init_low_level_exp_id (SIMPLE e) ''gp-pmc'' (of_nat (?us ! j))"
      by (simp add: lle_for_def gp_lle_def)
    then show ?thesis using lle [OF that(2), of v]
      by (cases "?arr ! j") (auto simp: init_low_level_exp_id_def set_fixed_ctrl_def split: hw_event.splits)
  qed
  have arr: "map (set_fixed_ctrl ?v) (take nf ?arr) @ drop nf ?arr = map (lle_for props ?cfgs ?v) ?us"
    using nf la gp lle by (intro nth_equalityI) (auto simp: nth_append)
  have "do_setup_pmcs props cc msk idx = Some (ce\<lparr>ce_array := map (lle_for props ?cfgs ?v) ?us\<rparr>, cc\<lparr>pmc_cfg := cfgs'\<rparr>)"
    using s' v0 patch_loop [OF nf] arr
    by (simp add: do_setup_pmcs_def init_fixed_eq Let_def fixed_ctrl_word_def)
  moreover have "ce\<lparr>ce_array := map (lle_for props ?cfgs ?v) ?us\<rparr> = setup_result props cc msk idx"
    using inv by (cases ce) (auto simp: setup_inv_def setup_result_def Let_def rank_of_def)
  ultimately show ?thesis using c' by simp
qed

lemma fixed_step_fields:
  assumes "k < 3"
  shows "field (4 * j) 2 (fixed_step c k r) =
      (if j = k then take_bit 2 (if cfg_ebs_mode c \<noteq> 0 then push_bit 1 (ucast (cfg_usr c))
         else push_bit 1 (ucast (cfg_usr c)) OR ucast (cfg_os c))
       else field (4 * j) 2 r)"
    and "field (4 * j + 3) 1 (fixed_step c k r) =
      (if j = k \<and> cfg_ebs_mode c \<noteq> 0 then 1 else field (4 * j + 3) 1 r)"
    and "field (4 * j + 2) 1 (fixed_step c k r) = field (4 * j + 2) 1 r"
proof -
  consider "j = k" | "j < k" | "k < j" by arith
  then show "field (4 * j) 2 (fixed_step c k r) =
      (if j = k then take_bit 2 (if cfg_ebs_mode c \<noteq> 0 then push_bit 1 (ucast (cfg_usr c))
         else push_bit 1 (ucast (cfg_usr c)) OR ucast (cfg_os c))
       else field (4 * j) 2 r)"
    and "field (4 * j + 3) 1 (fixed_step c k r) =
      (if j = k \<and> cfg_ebs_mode c \<noteq> 0 then 1 else field (4 * j + 3) 1 r)"
    and "field (4 * j + 2) 1 (fixed_step c k r) = field (4 * j + 2) 1 r"
    using assms by (cases; simp add: fixed_step_def Let_def field_put_same field_put_other)+
qed

lemma fixed_word_fields:
  assumes "nr_fixed_pmcs props \<le> 3"
  shows "field (4 * j) 2 (fixed_word props cfgs msk n) =
      (if j < n \<and> bit msk j \<and> int j < nr_fixed_pmcs props
       then take_bit 2 (if cfg_ebs_mode (cfgs ! j) \<noteq> 0 then push_bit 1 (ucast (cfg_usr (cfgs ! j)))
         else push_bit 1 (ucast (cfg_usr (cfgs ! j))) OR ucast (cfg_os (cfgs ! j)))
       else 0)"
    and "field (4 * j + 3) 1 (fixed_word props cfgs msk n) =
      (if j < n \<and> bit msk j \<and> int j < nr_fixed_pmcs props \<and> cfg_ebs_mode (cfgs ! j) \<noteq> 0
       then 1 else 0)"
    and "field (4 * j + 2) 1 (fixed_word props cfgs msk n) = 0"
proof (induction n)
  case (Suc n)
  have "int n < nr_fixed_pmcs props \<Longrightarrow> n < 3" using assms by linarith
  note f = fixed_step_fields [OF this]
  { case 1 show ?case using Suc(1) by (auto simp: fixed_word_def f less_Suc_eq simp del: One_nat_def add_2_eq_Suc') }
  { case 2 show ?case using Suc(2) by (auto simp: fixed_word_def f less_Suc_eq simp del: One_nat_def add_2_eq_Suc') }
  { case 3 show ?case using Suc(3) by (auto simp: fixed_word_def f less_Suc_eq simp del: One_nat_def add_2_eq_Suc') }
qed (simp_all add: fixed_word_def)

lemma field_hybrid:
  assumes "s + n \<le> 12"
  shows "field s n (r OR 8192 :: u64) = field s n r"
proof -
  have e: "(8192 :: u64) = 2 ^ 13" by simp
  have "bit (8192 :: u64) i \<Longrightarrow> i = 13" for i unfolding e bit_exp_iff by simp
  with assms show ?thesis by (intro bit_word_eqI) (fastforce simp only: bit_field bit_or_iff)
qed

lemma fixed_ctrl_word_fields:
  assumes "nr_fixed_pmcs props \<le> 3" and "j < 3"
  shows "field (4 * j) 2 (fixed_ctrl_word props cc msk) = field (4 * j) 2 (fixed_word props (pmc_cfg cc) msk MAX_LL_EXPS)"
    and "field (4 * j + 3) 1 (fixed_ctrl_word props cc msk) = field (4 * j + 3) 1 (fixed_word props (pmc_cfg cc) msk MAX_LL_EXPS)"
    and "field (4 * j + 2) 1 (fixed_ctrl_word props cc msk) = field (4 * j + 2) 1 (fixed_word props (pmc_cfg cc) msk MAX_LL_EXPS)"
  using assms(2) by (simp_all add: fixed_ctrl_word_def Let_def field_hybrid)

lemma used_nth_rank:
  "k < n \<Longrightarrow> bit msk k \<Longrightarrow> rank_of msk k < length (used msk n) \<and> used msk n ! rank_of msk k = k"
  unfolding rank_of_def
proof (induction n)
  case (Suc n)
  then show ?case by (auto simp: nth_append less_Suc_eq)
qed simp

lemma rank_used_nth:
  "j < length (used msk n) \<Longrightarrow> rank_of msk (used msk n ! j) = j"
proof (induction n)
  case (Suc n)
  then show ?case by (auto simp: nth_append less_Suc_eq rank_of_def)
qed simp

section \<open>The registers of an event set\<close>

lemma pmc_addr_vals:
  "0 \<le> g \<Longrightarrow> g \<le> 10 \<Longrightarrow> unat (PMC_MSR_INITIAL_ADDRESS + word_of_int g) = 193 + nat g"
  "0 \<le> g \<Longrightarrow> g \<le> 10 \<Longrightarrow> unat (EVTSEL_MSR_INITIAL_ADDRESS + word_of_int g) = 390 + nat g"
  "k < 3 \<Longrightarrow> unat (MSR_PERF_FIXED_CTR0 + of_nat k) = 777 + k"
  "unat MSR_PERF_FIXED_CTR_CTRL = 909"
proof -
  have w: "unat (word_of_int g :: u32) = nat g" if "0 \<le> g" "g \<le> 10"
    using that unat_word_of_int_u32 [of "nat g"] by simp
  show "0 \<le> g \<Longrightarrow> g \<le> 10 \<Longrightarrow> unat (PMC_MSR_INITIAL_ADDRESS + word_of_int g) = 193 + nat g"
    "0 \<le> g \<Longrightarrow> g \<le> 10 \<Longrightarrow> unat (EVTSEL_MSR_INITIAL_ADDRESS + word_of_int g) = 390 + nat g"
    using w by (simp_all add: PMC_MSR_INITIAL_ADDRESS_def EVTSEL_MSR_INITIAL_ADDRESS_def unat_add_u32)
  show "k < 3 \<Longrightarrow> unat (MSR_PERF_FIXED_CTR0 + of_nat k) = 777 + k"
    by (auto dest!: less_3_cases simp: MSR_PERF_FIXED_CTR0_def)
  show "unat MSR_PERF_FIXED_CTR_CTRL = 909" by (simp add: MSR_PERF_FIXED_CTR_CTRL_def)
qed

lemma setup_events:
  assumes F: "0 \<le> nr_fixed_pmcs props" "nr_fixed_pmcs props \<le> 3"
    and e: "e \<in> ll_event ` set (ce_array (setup_result props cc msk idx))"
  obtains k where "k < 3" "unat (pmc_addr e) = 777 + k" "unat (ctl_addr e) = 909"
      "ctl_value e = fixed_ctrl_word props cc msk" "\<exists>f. e = FIXED f"
      "k < nat (nr_fixed_pmcs props)" "e = ll_event (lle_for props (pmc_cfg cc) (fixed_ctrl_word props cc msk) k)"
  | k s where "k \<le> 10" "unat (pmc_addr e) = 193 + k" "unat (ctl_addr e) = 390 + k"
      "e = SIMPLE s" "pmc_addr e = PMC_MSR_INITIAL_ADDRESS + pm_address (se_pmc s)"
      "e = ll_event (lle_for props (pmc_cfg cc) (fixed_ctrl_word props cc msk) (k + nat (nr_fixed_pmcs props)))"
proof -
  obtain k where k: "k < MAX_LL_EXPS" and
    ek: "e = ll_event (lle_for props (pmc_cfg cc) (fixed_ctrl_word props cc msk) k)"
    using e by (auto simp: setup_result_def Let_def)
  show thesis
  proof (cases "int k < nr_fixed_pmcs props")
    case True
    with F have k3: "k < 3" "k < nat (nr_fixed_pmcs props)" by auto
    show thesis
      by (rule that(1) [OF k3(1) _ _ _ _ k3(2) ek])
        (use True k3 in \<open>simp_all add: ek lle_for_def fixed_lle_def init_low_level_exp_id_def
          init_fixed_count_exp_def pmc_addr_vals\<close>)
  next
    case False
    define g where "g = int k - nr_fixed_pmcs props"
    have g: "0 \<le> g" "g \<le> 10" using False F k by (auto simp: g_def MAX_LL_EXPS_def)
    have kk: "nat g + nat (nr_fixed_pmcs props) = k" using g F by (simp add: g_def)
    have e2: "e = ll_event (gp_lle props (force_os g (pmc_cfg cc ! k)) g k)"
      using False by (simp add: ek lle_for_def g_def)
    show thesis
    proof (rule that(2))
      show "nat g \<le> 10" using g by simp
      show "e = ll_event (lle_for props (pmc_cfg cc) (fixed_ctrl_word props cc msk)
          (nat g + nat (nr_fixed_pmcs props)))" by (simp only: ek kk)
      show "e = SIMPLE (init_simple_exp (PMC_MSR_INITIAL_ADDRESS + word_of_int g) (word_of_int g)
          (EVTSEL_MSR_INITIAL_ADDRESS + word_of_int g) (evtsel_word (force_os g (pmc_cfg cc ! k)))
          (reset_of props (force_os g (pmc_cfg cc ! k))))"
        by (simp add: e2 gp_lle_def init_low_level_exp_id_def)
    qed (simp_all add: e2 gp_lle_def init_low_level_exp_id_def init_simple_exp_def pmc_addr_vals g)
  qed
qed


lemma saved_last_value:
  assumes r: "rdpmc_reads_counter rdpmc" and F: "0 \<le> nr_fixed_pmcs props" "nr_fixed_pmcs props \<le> 3"
    and e: "e \<in> ll_event ` set (ce_array (setup_result props cc msk idx))"
  shows "get_last_value_hw_event (save_context_hw_event rdpmc m e) = m (pmc_addr e)"
    and "pmc_addr (save_context_hw_event rdpmc m e) = pmc_addr e"
    and "ctl_addr (save_context_hw_event rdpmc m e) = ctl_addr e"
    and "ctl_value (save_context_hw_event rdpmc m e) = ctl_value e"
proof -
  have "pmc_addr e = PMC_MSR_INITIAL_ADDRESS + pm_address (se_pmc s)" if "e = SIMPLE s" for s
    using that by (cases rule: setup_events [OF F e]) auto
  note s = save_context_eq [OF r this]
  show "get_last_value_hw_event (save_context_hw_event rdpmc m e) = m (pmc_addr e)"
    "pmc_addr (save_context_hw_event rdpmc m e) = pmc_addr e"
    "ctl_addr (save_context_hw_event rdpmc m e) = ctl_addr e"
    "ctl_value (save_context_hw_event rdpmc m e) = ctl_value e" by (rule s, assumption)+
qed

lemma saved_consistent:
  assumes r: "rdpmc_reads_counter rdpmc" and F: "0 \<le> nr_fixed_pmcs props" "nr_fixed_pmcs props \<le> 3"
  shows "consistent (map (\<lambda>lle. save_context_hw_event rdpmc m (ll_event lle))
           (ce_array (setup_result props cc msk idx)))"
proof -
  let ?E = "ll_event ` set (ce_array (setup_result props cc msk idx))"
  note s = saved_last_value [OF r F]
  have "pmc_addr e \<noteq> ctl_addr e' \<and> (ctl_addr e = ctl_addr e' \<longrightarrow> ctl_value e = ctl_value e')"
    if e: "e \<in> ?E" "e' \<in> ?E" for e e'
  proof (rule setup_events [OF F e(1)]; rule setup_events [OF F e(2)])
    fix k s k' s' assume a: "unat (ctl_addr e) = 390 + k" "unat (ctl_addr e') = 390 + k'"
      "unat (pmc_addr e) = 193 + k" "k \<le> 10"
      "e = ll_event (lle_for props (pmc_cfg cc) (fixed_ctrl_word props cc msk) (k + nat (nr_fixed_pmcs props)))"
      "e' = ll_event (lle_for props (pmc_cfg cc) (fixed_ctrl_word props cc msk) (k' + nat (nr_fixed_pmcs props)))"
    have "ctl_addr e = ctl_addr e' \<Longrightarrow> k = k'" using a(1,2) by auto
    moreover have "pmc_addr e \<noteq> ctl_addr e'" using a(2,3,4) by auto
    ultimately show ?thesis using a(5,6) by blast
  qed auto
  note c = this
  show ?thesis unfolding consistent_def
  proof (intro ballI)
    fix e e' assume "e \<in> set (map (\<lambda>lle. save_context_hw_event rdpmc m (ll_event lle))
        (ce_array (setup_result props cc msk idx)))"
      and "e' \<in> set (map (\<lambda>lle. save_context_hw_event rdpmc m (ll_event lle))
        (ce_array (setup_result props cc msk idx)))"
    then obtain f f' where f: "f \<in> ?E" "e = save_context_hw_event rdpmc m f"
      and f': "f' \<in> ?E" "e' = save_context_hw_event rdpmc m f'" by auto
    show "pmc_addr e \<noteq> ctl_addr e' \<and>
        (pmc_addr e = pmc_addr e' \<longrightarrow> get_last_value_hw_event e = get_last_value_hw_event e') \<and>
        (ctl_addr e = ctl_addr e' \<longrightarrow> ctl_value e = ctl_value e')"
      unfolding f(2) f'(2) s [OF f(1)] s [OF f'(1)] using c [OF f(1) f'(1)] by simp
  qed
qed

lemma ovf_ctrl_not_used:
  assumes F: "0 \<le> nr_fixed_pmcs props" "nr_fixed_pmcs props \<le> 3"
    and e: "e \<in> ll_event ` set (ce_array (setup_result props cc msk idx))"
  shows "pmc_addr e \<noteq> MSR_PERF_GLOBAL_OVF_CTRL" "ctl_addr e \<noteq> MSR_PERF_GLOBAL_OVF_CTRL"
proof -
  have "unat MSR_PERF_GLOBAL_OVF_CTRL = 912" by (simp add: MSR_PERF_GLOBAL_OVF_CTRL_def)
  then show "pmc_addr e \<noteq> MSR_PERF_GLOBAL_OVF_CTRL" "ctl_addr e \<noteq> MSR_PERF_GLOBAL_OVF_CTRL"
    using setup_events [OF F e] by force+
qed

section \<open>The entry of a counter\<close>

definition entry_of :: "core_experiment_t \<Rightarrow> nat \<Rightarrow> hw_event" where
  "entry_of ce i = ll_event (ce_array ce ! unat (ce_phys_to_log ce ! i))"

lemma entry_of_setup:
  assumes "i < MAX_LL_EXPS" and "bit msk i"
  shows "entry_of (setup_result props cc msk idx) i =
    ll_event (lle_for props (pmc_cfg cc) (fixed_ctrl_word props cc msk) i)"
proof -
  have "unat (of_nat (rank_of msk i) :: u32) = rank_of msk i"
    using rank_le [of msk i] assms(1) by (simp add: MAX_LL_EXPS_def unat_of_nat take_bit_nat_eq_self)
  then show ?thesis using used_nth_rank [OF assms] assms
    by (simp add: entry_of_def setup_result_def Let_def)
qed

lemma of_nat_u32_small: "n < MAX_LL_EXPS \<Longrightarrow> unat (of_nat n :: u32) = n"
  by (simp add: MAX_LL_EXPS_def unat_of_nat take_bit_nat_eq_self)

lemma sampling_reset_value:
  assumes w: "w \<le> 64" and n: "0 < unat n" "unat n < 2 ^ w"
  shows "unat ((- n :: u64) AND mask w) + unat n = 2 ^ w"
proof -
  have un: "uint n = int (unat n)" by simp
  have "int (unat n) < int (2 ^ w)" using n(2) by (simp only: of_nat_less_iff)
  then have ni: "0 < uint n" "uint n < 2 ^ w" using n(1) by (simp_all only: un of_nat_power of_nat_numeral of_nat_0_less_iff)
  have "take_bit w (uint (- n)) = take_bit w (take_bit 64 (- uint n))"
    by (simp only: uint_word_ariths take_bit_eq_mod) simp
  also have "\<dots> = take_bit w (- uint n)" using w by (simp only: take_bit_take_bit min_absorb1)
  also have "\<dots> = 2 ^ w - uint n"
    using ni by (simp add: take_bit_eq_mod zmod_zminus1_eq_if)
  finally have *: "take_bit w (uint (- n)) = 2 ^ w - uint n" .
  have "uint ((- n) AND mask w) = take_bit w (uint (- n))"
    by (simp only: take_bit_eq_mask [symmetric] unsigned_take_bit_eq)
  with * have "int (unat ((- n) AND mask w) + unat n) = int (2 ^ w)" by simp
  then show ?thesis by (simp only: of_nat_eq_iff)
qed

lemma ebs_fold:
  assumes "i < n" "bit msk i" and "\<And>k. k < n \<Longrightarrow> bit msk k \<Longrightarrow> cfg_ebs_mode (cfgs ! k) \<noteq> 0 \<longleftrightarrow> k = i"
  shows "fold (\<lambda>k e. if cfg_ebs_mode (cfgs ! k) \<noteq> 0 then f k else e) (used msk n) e = f i"
proof -
  have "fold (\<lambda>k e. if cfg_ebs_mode (cfgs ! k) \<noteq> 0 then f k else e) (used msk m) e = (if i < m then f i else e)"
    if "m \<le> n" for m
    using that
  proof (induction m)
    case (Suc m)
    then show ?case using assms by (cases "m = i") auto
  qed simp
  then show ?thesis using assms(1) by simp
qed

section \<open>A sample configuration\<close>

definition plain_cfg :: pmc_usrcfg_t where
  "plain_cfg = \<lparr>cfg_evtsel = 0, cfg_usr = 1, cfg_os = 0, cfg_reset_value = 0, cfg_ebs_mode = 0,
     cfg_umask = 0, cfg_edge = 0, cfg_inv = 0, cfg_any = 0, cfg_cmask = 0\<rparr>"

definition sample_props :: pmu_props_t where
  "sample_props = \<lparr>nr_fixed_pmcs = 3, nr_gp_pmcs = 8, pmc_width = 48, pmc_width_mask = mask 48,
     processor_model = 85, pmu_model = 4, pp_coretype = 0, pp_initialized = True\<rparr>"

definition sample_config :: pmc_config_set_t where
  "sample_config = \<lparr>pmc_cfg = (replicate 11 plain_cfg)
       [3 := plain_cfg\<lparr>cfg_evtsel := 0x2e, cfg_umask := 0x41, cfg_ebs_mode := 1, cfg_reset_value := 500000000\<rparr>,
        7 := plain_cfg\<lparr>cfg_evtsel := 0xc4\<rparr>],
     cs_used_pmcs = 0x89, cs_nr_pmcs = 3, cs_ebs_index = 3, cs_coretype = 0\<rparr>"

lemma sample_ok:
  "0 \<le> nr_fixed_pmcs sample_props" "nr_fixed_pmcs sample_props \<le> 3"
  "length (pmc_cfg sample_config) = MAX_LL_EXPS" "pmc_width_mask sample_props = mask 48"
  by (simp_all add: sample_props_def sample_config_def MAX_LL_EXPS_def)

lemma sample_setup:
  "do_setup_pmcs sample_props sample_config 0x89 0 = Some (setup_result sample_props sample_config 0x89 0,
     sample_config\<lparr>pmc_cfg := cfgs_after sample_props (pmc_cfg sample_config) 0x89 MAX_LL_EXPS\<rparr>)"
  by (rule do_setup_pmcs_eq [OF sample_ok(1-3)])

section \<open>Properties\<close>

text \<open>Configuring an event set succeeds for every mask of counters and every configuration.
  The event set has one entry per counter of the mask, and its tables \<open>log_to_phys\<close> and
  \<open>phys_to_log\<close> are inverse to each other: an entry's slot leads to its counter and the
  counter leads back to the slot.\<close>

theorem setup_tables_inverse:
  assumes "0 \<le> nr_fixed_pmcs props" and "nr_fixed_pmcs props \<le> 3"
    and "length (pmc_cfg cc) = MAX_LL_EXPS"
  shows "\<exists>ce cc'. do_setup_pmcs props cc msk idx = Some (ce, cc') \<and>
    length (ce_array ce) = card {i. i < MAX_LL_EXPS \<and> bit msk i} \<and>
    (\<forall>j < length (ce_array ce). \<exists>i < MAX_LL_EXPS. bit msk i \<and> ll_pmc_id (ce_array ce ! j) = of_nat i \<and>
       ce_log_to_phys ce ! j = of_nat i \<and> ce_phys_to_log ce ! i = of_nat j) \<and>
    (\<forall>i < MAX_LL_EXPS. bit msk i \<longrightarrow> (\<exists>j < length (ce_array ce).
       ce_phys_to_log ce ! i = of_nat j \<and> ce_log_to_phys ce ! j = of_nat i)) \<and>
    (\<forall>i < MAX_LL_EXPS. \<not> bit msk i \<longrightarrow> ce_phys_to_log ce ! i = -1)"
proof -
  let ?ce = "setup_result props cc msk idx" and ?us = "used msk MAX_LL_EXPS"
  have s: "length (ce_array ?ce) = length ?us"
    "\<And>j. j < length ?us \<Longrightarrow> ce_log_to_phys ?ce ! j = of_nat (?us ! j)"
    "\<And>j. j < length ?us \<Longrightarrow> ll_pmc_id (ce_array ?ce ! j) = of_nat (?us ! j)"
    "\<And>i. i < MAX_LL_EXPS \<Longrightarrow> ce_phys_to_log ?ce ! i = (if bit msk i then of_nat (rank_of msk i) else -1)"
    by (simp_all add: setup_result_def Let_def nth_append lle_for_def fixed_lle_def gp_lle_def
        init_low_level_exp_id_def)
  have c: "length ?us = card {i. i < MAX_LL_EXPS \<and> bit msk i}"
    using distinct_card [of ?us] by (simp add: conj_commute Collect_conj_eq)
  have u: "?us ! j < MAX_LL_EXPS \<and> bit msk (?us ! j)" if "j < length ?us" for j
    using nth_mem [OF that] by simp
  note r = used_nth_rank [of _ MAX_LL_EXPS msk] and n = rank_used_nth [of _ msk MAX_LL_EXPS]
  have 1: "\<exists>i < MAX_LL_EXPS. bit msk i \<and> ll_pmc_id (ce_array ?ce ! j) = of_nat i \<and>
      ce_log_to_phys ?ce ! j = of_nat i \<and> ce_phys_to_log ?ce ! i = of_nat j"
    if "j < length (ce_array ?ce)" for j
    using that u [of j] s n [of j] by (intro exI [of _ "?us ! j"]) simp
  have 2: "\<exists>j < length (ce_array ?ce). ce_phys_to_log ?ce ! i = of_nat j \<and> ce_log_to_phys ?ce ! j = of_nat i"
    if "i < MAX_LL_EXPS" "bit msk i" for i
    using r [OF that] that s by (intro exI [of _ "rank_of msk i"]) simp
  show ?thesis using do_setup_pmcs_eq [OF assms] s(1,4) c 1 2 by (intro exI conjI) (assumption | simp)+
qed

theorem setup_tables_inverse_witness:
  "\<exists>ce cc'. do_setup_pmcs sample_props sample_config 0x89 0 = Some (ce, cc') \<and>
    length (ce_array ce) = card {i. i < MAX_LL_EXPS \<and> bit (0x89 :: u32) i}"
  using setup_tables_inverse [OF sample_ok(1-3), of "0x89" 0] by blast

text \<open>C19. The counters of a thread survive a context switch. For an event set built by
  \<open>do_setup_pmcs\<close>: if its counters are saved in one state of the registers and the set is later
  restored over any other state, every counter has the value it had when it was saved, every control
  register has its configured value (no event overwrites the setting of another), and the
  registers outside the set keep theirs, except the overflow control register that is reset. \<open>rdpmc\<close>
  is assumed to read the counter its index names.\<close>

theorem counters_survive_context_switch:
  assumes F: "0 \<le> nr_fixed_pmcs props" "nr_fixed_pmcs props \<le> 3"
    and len: "length (pmc_cfg cc) = MAX_LL_EXPS" and r: "rdpmc_reads_counter rdpmc"
    and su: "do_setup_pmcs props cc msk idx = Some (ce, cc')"
    and restore: "mc_restore_all_counters m' (mc_save_all_counters rdpmc m ce) = (m'', ce'')"
  shows "(\<forall>lle \<in> set (ce_array ce). m'' (pmc_addr (ll_event lle)) = m (pmc_addr (ll_event lle)) \<and>
      m'' (ctl_addr (ll_event lle)) = ctl_value (ll_event lle)) \<and>
    (\<forall>a. (\<forall>lle \<in> set (ce_array ce). a \<noteq> pmc_addr (ll_event lle) \<and> a \<noteq> ctl_addr (ll_event lle)) \<longrightarrow>
      a \<noteq> MSR_PERF_GLOBAL_OVF_CTRL \<longrightarrow> m'' a = m' a) \<and>
    \<not> ce_need_setup ce'' \<and> map ll_pmc_id (ce_array ce'') = map ll_pmc_id (ce_array ce)"
proof -
  have ce: "ce = setup_result props cc msk idx" using su do_setup_pmcs_eq [OF F len] by simp
  let ?save = "\<lambda>lle. save_context_hw_event rdpmc m (ll_event lle)"
  let ?evs = "map ?save (ce_array ce)"
  have f: "fold (\<lambda>lle. \<lambda>m. start_count_hw_event m (ll_event lle)) (map (\<lambda>lle. lle\<lparr>ll_event := ?save lle\<rparr>) L) m' =
      fold (\<lambda>e m. start_count_hw_event m e) (map ?save L) m'" for L
    by (simp add: fold_map comp_def)
  have m'': "m'' = reset_overflow_status (fold (\<lambda>e m. start_count_hw_event m e) ?evs m')"
    using restore f [of "ce_array ce"] by (simp add: mc_restore_all_counters_def mc_save_all_counters_def)
  note all = start_all [OF saved_consistent [OF r F, of m cc msk idx, folded ce], of m']
  have s: "get_last_value_hw_event (?save lle) = m (pmc_addr (ll_event lle)) \<and>
      pmc_addr (?save lle) = pmc_addr (ll_event lle) \<and> ctl_addr (?save lle) = ctl_addr (ll_event lle) \<and>
      ctl_value (?save lle) = ctl_value (ll_event lle) \<and>
      pmc_addr (ll_event lle) \<noteq> MSR_PERF_GLOBAL_OVF_CTRL \<and> ctl_addr (ll_event lle) \<noteq> MSR_PERF_GLOBAL_OVF_CTRL"
    if "lle \<in> set (ce_array ce)" for lle
    using saved_last_value [OF r F, of "ll_event lle" cc msk idx m]
      ovf_ctrl_not_used [OF F, of "ll_event lle" cc msk idx] that by (simp add: ce)
  have "m'' (pmc_addr (ll_event lle)) = m (pmc_addr (ll_event lle)) \<and>
      m'' (ctl_addr (ll_event lle)) = ctl_value (ll_event lle)" if l: "lle \<in> set (ce_array ce)" for lle
    using s [OF l] bspec [OF all [THEN conjunct1], of "?save lle"] l
    by (simp add: m'' reset_overflow_status_def)
  moreover have "m'' a = m' a" if "\<forall>lle \<in> set (ce_array ce). a \<noteq> pmc_addr (ll_event lle) \<and> a \<noteq> ctl_addr (ll_event lle)"
    "a \<noteq> MSR_PERF_GLOBAL_OVF_CTRL" for a
  proof -
    have "a \<notin> pmc_addr ` set ?evs" "a \<notin> ctl_addr ` set ?evs" using that(1) s by auto
    then show ?thesis using all that(2) by (simp add: m'' reset_overflow_status_def)
  qed
  moreover have "\<not> ce_need_setup ce'' \<and> map ll_pmc_id (ce_array ce'') = map ll_pmc_id (ce_array ce)"
    using restore by (auto simp: mc_restore_all_counters_def mc_save_all_counters_def)
  ultimately show ?thesis by blast
qed

theorem counters_survive_context_switch_witness:
  "list_all (\<lambda>lle.
     fst (mc_restore_all_counters (\<lambda>_. 0) (mc_save_all_counters (\<lambda>m i. m (PMC_MSR_INITIAL_ADDRESS + i))
       (\<lambda>a. ucast a) (setup_result sample_props sample_config 0x89 0))) (pmc_addr (ll_event lle))
     = ucast (pmc_addr (ll_event lle))) (ce_array (setup_result sample_props sample_config 0x89 0)) \<and>
   length (ce_array (setup_result sample_props sample_config 0x89 0)) = 3"
proof
  show "list_all (\<lambda>lle.
     fst (mc_restore_all_counters (\<lambda>_. 0) (mc_save_all_counters (\<lambda>m i. m (PMC_MSR_INITIAL_ADDRESS + i))
       (\<lambda>a. ucast a) (setup_result sample_props sample_config 0x89 0))) (pmc_addr (ll_event lle))
     = ucast (pmc_addr (ll_event lle))) (ce_array (setup_result sample_props sample_config 0x89 0))"
    using counters_survive_context_switch [OF sample_ok(1-3) _ sample_setup,
        where rdpmc = "\<lambda>m i. m (PMC_MSR_INITIAL_ADDRESS + i)" and m = "\<lambda>a. ucast a" and m' = "\<lambda>_. 0"]
    by (simp add: rdpmc_reads_counter_def list_all_iff) (metis prod.collapse)
  show "length (ce_array (setup_result sample_props sample_config 0x89 0)) = 3"
    by (simp add: setup_result_def Let_def MAX_LL_EXPS_def upt_rec)
qed

text \<open>C20. A general-purpose counter is programmed as the user asked. Its event-select register has
  the event code, the unit mask, the counter mask and the flags of the configuration, the
  enable and interrupt bits set, kernel mode off in sampling mode and forced on for counters 4 to 7
  otherwise; its reserved half is zero. It uses the counter and select registers of its number.\<close>

theorem gp_counter_programmed:
  assumes F: "0 \<le> nr_fixed_pmcs props" "nr_fixed_pmcs props \<le> 3"
    and len: "length (pmc_cfg cc) = MAX_LL_EXPS"
    and i: "i < MAX_LL_EXPS" "bit msk i" "nr_fixed_pmcs props \<le> int i"
    and su: "do_setup_pmcs props cc msk idx = Some (ce, cc')"
  shows "\<exists>e. entry_of ce i = SIMPLE e \<and>
    (let g = int i - nr_fixed_pmcs props; c = pmc_cfg cc ! i; w = ms_new_value (se_evtsel e) in
     ms_address (pm_msr (se_pmc e)) = PMC_MSR_INITIAL_ADDRESS + word_of_int g \<and>
     ms_address (se_evtsel e) = EVTSEL_MSR_INITIAL_ADDRESS + word_of_int g \<and>
     field 0 8 w = take_bit 8 (ucast (cfg_evtsel c)) \<and> field 8 8 w = ucast (cfg_umask c) \<and>
     field 24 8 w = ucast (cfg_cmask c) \<and> field 16 1 w = take_bit 1 (ucast (cfg_usr c)) \<and>
     field 17 1 w = (if cfg_ebs_mode c \<noteq> 0 then 0 else if 4 \<le> g \<and> g \<le> 7 then 1
                     else take_bit 1 (ucast (cfg_os c))) \<and>
     field 18 1 w = take_bit 1 (ucast (cfg_edge c)) \<and> field 21 1 w = take_bit 1 (ucast (cfg_any c)) \<and>
     field 23 1 w = take_bit 1 (ucast (cfg_inv c)) \<and> field 20 1 w = 1 \<and> field 22 1 w = 1 \<and>
     field 32 32 w = 0)"
proof -
  let ?c = "force_os (int i - nr_fixed_pmcs props) (pmc_cfg cc ! i)"
  have ce: "ce = setup_result props cc msk idx" using su do_setup_pmcs_eq [OF F len] by simp
  have "entry_of ce i = SIMPLE (init_simple_exp
      (PMC_MSR_INITIAL_ADDRESS + word_of_int (int i - nr_fixed_pmcs props))
      (word_of_int (int i - nr_fixed_pmcs props))
      (EVTSEL_MSR_INITIAL_ADDRESS + word_of_int (int i - nr_fixed_pmcs props)) (evtsel_word ?c)
      (reset_of props ?c))"
    using i by (simp only: ce entry_of_setup [OF i(1,2)]) (simp add: lle_for_def gp_lle_def init_low_level_exp_id_def)
  then show ?thesis using i(3)
    by (simp add: init_simple_exp_def Let_def evtsel_word_fields del: One_nat_def)
      (simp add: force_os_def)
qed

theorem gp_counter_programmed_witness:
  "\<exists>e. entry_of (setup_result sample_props sample_config 0x89 0) 7 = SIMPLE e \<and>
     field 0 8 (ms_new_value (se_evtsel e)) = 0xc4 \<and> field 17 1 (ms_new_value (se_evtsel e)) = 1"
proof -
  have "(7::nat) < MAX_LL_EXPS" "bit (0x89 :: u32) 7" "nr_fixed_pmcs sample_props \<le> int 7"
    by (simp_all add: MAX_LL_EXPS_def sample_props_def)
  from gp_counter_programmed [OF sample_ok(1-3) this sample_setup] show ?thesis
    by (auto simp: Let_def sample_props_def sample_config_def plain_cfg_def take_bit_eq_mask mask_eq_exp_minus_1)
qed

text \<open>The fixed-function counters share one control register, and all their entries hold
  the same final value of it: for each of the three counters, the two enable bits are the user
  and kernel flags when the counter is used (user only in sampling mode) and zero when it is not, the
  interrupt bit is set exactly in sampling mode and the any-thread bit is clear.\<close>

theorem fixed_counters_programmed:
  assumes F: "0 \<le> nr_fixed_pmcs props" "nr_fixed_pmcs props \<le> 3"
    and len: "length (pmc_cfg cc) = MAX_LL_EXPS"
    and i: "bit msk i" "int i < nr_fixed_pmcs props"
    and su: "do_setup_pmcs props cc msk idx = Some (ce, cc')"
  shows "\<exists>e. entry_of ce i = FIXED e \<and> ms_address (fe_pmc e) = MSR_PERF_FIXED_CTR0 + of_nat i \<and>
    ms_address (fe_evtsel e) = MSR_PERF_FIXED_CTR_CTRL \<and>
    (\<forall>k < 3. let c = pmc_cfg cc ! k; w = ms_new_value (fe_evtsel e);
               on = bit msk k \<and> int k < nr_fixed_pmcs props in
       field (4 * k) 2 w = (if \<not> on then 0
         else take_bit 2 (push_bit 1 (ucast (cfg_usr c)) OR
                          (if cfg_ebs_mode c \<noteq> 0 then 0 else ucast (cfg_os c)))) \<and>
       field (4 * k + 3) 1 w = (if on \<and> cfg_ebs_mode c \<noteq> 0 then 1 else 0) \<and>
       field (4 * k + 2) 1 w = 0)"
proof -
  have ce: "ce = setup_result props cc msk idx" using su do_setup_pmcs_eq [OF F len] by simp
  have "i < MAX_LL_EXPS" using F i(2) by (simp add: MAX_LL_EXPS_def)
  then have "entry_of ce i = FIXED (init_fixed_count_exp (MSR_PERF_FIXED_CTR0 + of_nat i)
      (fixed_ctrl_word props cc msk) (reset_of props (pmc_cfg cc ! i)))"
    using i by (simp add: ce entry_of_setup lle_for_def fixed_lle_def init_low_level_exp_id_def)
  moreover have "k < MAX_LL_EXPS" if "k < 3" for k using that by (simp add: MAX_LL_EXPS_def)
  ultimately show ?thesis
    by (simp add: init_fixed_count_exp_def Let_def fixed_ctrl_word_fields [OF F(2)]
        fixed_word_fields [OF F(2)] del: One_nat_def add_2_eq_Suc')
qed

theorem fixed_counters_programmed_witness:
  "\<exists>e. entry_of (setup_result sample_props sample_config 0x89 0) 0 = FIXED e \<and>
     field 0 2 (ms_new_value (fe_evtsel e)) = 2 \<and> field 4 2 (ms_new_value (fe_evtsel e)) = 0"
proof -
  have "bit (0x89 :: u32) 0" "int 0 < nr_fixed_pmcs sample_props" by (simp_all add: sample_props_def)
  from fixed_counters_programmed [OF sample_ok(1-3) this sample_setup] obtain e where
    e: "entry_of (setup_result sample_props sample_config 0x89 0) 0 = FIXED e" and
    all: "\<forall>k < 3. let c = pmc_cfg sample_config ! k; w = ms_new_value (fe_evtsel e);
               on = bit (0x89 :: u32) k \<and> int k < nr_fixed_pmcs sample_props in
       field (4 * k) 2 w = (if \<not> on then 0
         else take_bit 2 (push_bit 1 (ucast (cfg_usr c)) OR
                          (if cfg_ebs_mode c \<noteq> 0 then 0 else ucast (cfg_os c))))"
    unfolding Let_def by blast
  show ?thesis using e all [rule_format, of 0] all [rule_format, of 1]
    by (auto simp: Let_def sample_props_def sample_config_def plain_cfg_def)
qed

text \<open>C21. Event-based sampling: when counter \<open>i\<close> is the one configured for sampling with
  a period of \<open>n\<close> events, its reset value is \<open>2^w - n\<close> for counters of \<open>w\<close> bits, so a counter started
  from it overflows after exactly \<open>n\<close> events; the initial value of the counter is the reset
  value, and \<open>ebs_idx\<close> is the slot of counter \<open>i\<close> in the event set.\<close>

theorem sampling_period_exact:
  assumes F: "0 \<le> nr_fixed_pmcs props" "nr_fixed_pmcs props \<le> 3"
    and len: "length (pmc_cfg cc) = MAX_LL_EXPS"
    and w: "w \<le> 64" "pmc_width_mask props = mask w"
    and i: "i < MAX_LL_EXPS" "bit msk i"
    and ebs: "\<And>k. k < MAX_LL_EXPS \<Longrightarrow> bit msk k \<Longrightarrow> cfg_ebs_mode (pmc_cfg cc ! k) \<noteq> 0 \<longleftrightarrow> k = i"
    and n: "0 < unat (cfg_reset_value (pmc_cfg cc ! i))" "unat (cfg_reset_value (pmc_cfg cc ! i)) < 2 ^ w"
    and su: "do_setup_pmcs props cc msk idx = Some (ce, cc')"
  shows "unat (get_reset_value_hw_event (entry_of ce i)) + unat (cfg_reset_value (pmc_cfg cc ! i)) = 2 ^ w
    \<and> get_last_value_hw_event (entry_of ce i) = get_reset_value_hw_event (entry_of ce i)
    \<and> ce_ebs_idx ce = uint (ce_phys_to_log ce ! i)"
proof -
  have ce: "ce = setup_result props cc msk idx" using su do_setup_pmcs_eq [OF F len] by simp
  have m: "cfg_ebs_mode (pmc_cfg cc ! i) \<noteq> 0" using ebs i by blast
  have f: "cfg_reset_value (force_os g c) = cfg_reset_value c" for g c by (simp add: force_os_def)
  have r: "unat (of_nat (rank_of msk i) :: u32) = rank_of msk i"
    using rank_le [of msk i] i(1) by (intro of_nat_u32_small) simp
  have idx: "ce_ebs_idx ce = int (rank_of msk i)"
    using ebs_fold [OF i ebs, of "\<lambda>k. int (rank_of msk k)" "-1"] by (simp add: ce setup_result_def Let_def)
  have p2l: "ce_phys_to_log ce ! i = of_nat (rank_of msk i)"
    using i by (simp add: ce setup_result_def Let_def)
  have "uint (ce_phys_to_log ce ! i) = int (rank_of msk i)"
    unfolding p2l uint_nat r ..
  moreover have "get_reset_value_hw_event (entry_of ce i) = (- cfg_reset_value (pmc_cfg cc ! i)) AND mask w"
    "get_last_value_hw_event (entry_of ce i) = get_reset_value_hw_event (entry_of ce i)"
    using m w by (simp_all add: ce entry_of_setup [OF i] lle_for_def gp_lle_def fixed_lle_def
        init_low_level_exp_id_def init_simple_exp_def init_fixed_count_exp_def reset_of_def f)
  ultimately show ?thesis using sampling_reset_value [OF w(1) n] idx by simp
qed

theorem sampling_period_exact_witness:
  "unat (get_reset_value_hw_event (entry_of (setup_result sample_props sample_config 0x89 0) 3))
     + 500000000 = 2 ^ 48"
proof -
  have i: "(3::nat) < MAX_LL_EXPS" "bit (0x89 :: u32) 3" by (simp_all add: MAX_LL_EXPS_def)
  have c: "cfg_reset_value (pmc_cfg sample_config ! 3) = 500000000"
    by (simp add: sample_config_def)
  have "cfg_ebs_mode (pmc_cfg sample_config ! k) \<noteq> 0 \<longleftrightarrow> k = 3" if "k < MAX_LL_EXPS" "bit (0x89 :: u32) k" for k
    using that by (simp add: sample_config_def MAX_LL_EXPS_def plain_cfg_def nth_list_update)
  from sampling_period_exact [OF sample_ok(1-3) _ sample_ok(4) i this _ _ sample_setup] show ?thesis
    by (simp add: c)
qed

end
