(* ===== verification/SizedList.thy ===== *)
theory SizedList
  imports Prelude "HOL-Library.Multiset"
begin

text \<open>
  The sized lists of \<^verbatim>\<open>sized_list.h\<close>: a kernel doubly-linked list with a length. The kernel's
  list is represented by the sequence of its elements, from the one after the list head to the one
  before it; an element is named by its address. Following a link of, or deleting, an element that
  is not linked in the list is undefined and gives \<open>None\<close>. A list of \<open>NULL\<close> or an element is \<open>'a option\<close>,
  so \<open>Some None\<close> is a normal return of \<open>NULL\<close>.
\<close>

section \<open>Operations\<close>

record 'a sized_list =
  sl_nodes :: "'a list"
  sl_size :: nat

definition sized_list_length :: "'a sized_list \<Rightarrow> nat" where
  "sized_list_length slist = sl_size slist"

definition init_sized_list :: "'a sized_list" where
  "init_sized_list = \<lparr>sl_nodes = [], sl_size = 0\<rparr>"

definition insert_sized_list_tail :: "'a sized_list \<Rightarrow> 'a \<Rightarrow> 'a sized_list option" where
  "insert_sized_list_tail slist elem =
     (if elem \<in> set (sl_nodes slist) then None
      else Some (slist\<lparr>sl_nodes := sl_nodes slist @ [elem], sl_size := sl_size slist + 1\<rparr>))"

definition insert_sized_list_head :: "'a sized_list \<Rightarrow> 'a \<Rightarrow> 'a sized_list option" where
  "insert_sized_list_head slist elem =
     (if elem \<in> set (sl_nodes slist) then None
      else Some (slist\<lparr>sl_nodes := elem # sl_nodes slist, sl_size := sl_size slist + 1\<rparr>))"

definition remove_sized_list :: "'a sized_list \<Rightarrow> 'a \<Rightarrow> 'a sized_list option" where
  "remove_sized_list slist elem =
     (if elem \<in> set (sl_nodes slist)
      then Some (slist\<lparr>sl_nodes := remove1 elem (sl_nodes slist), sl_size := sl_size slist - 1\<rparr>)
      else None)"

definition head_sized_list :: "'a sized_list \<Rightarrow> 'a option" where
  "head_sized_list slist = (case sl_nodes slist of [] \<Rightarrow> None | x # _ \<Rightarrow> Some x)"

definition tail_sized_list :: "'a sized_list \<Rightarrow> 'a option" where
  "tail_sized_list slist = (if sl_nodes slist = [] then None else Some (last (sl_nodes slist)))"

text \<open>The elements after an element of a sequence.\<close>

fun after :: "'a list \<Rightarrow> 'a \<Rightarrow> 'a list" where
  "after [] x = []"
| "after (y # ys) x = (if y = x then ys else after ys x)"

definition next_sized_list :: "'a sized_list \<Rightarrow> 'a option \<Rightarrow> 'a option option" where
  "next_sized_list slist elem =
     (case elem of
        None \<Rightarrow> Some None
      | Some x \<Rightarrow>
          if x \<in> set (sl_nodes slist)
          then Some (case after (sl_nodes slist) x of [] \<Rightarrow> None | y # _ \<Rightarrow> Some y) else None)"

definition prev_sized_list :: "'a sized_list \<Rightarrow> 'a option \<Rightarrow> 'a option option" where
  "prev_sized_list slist elem =
     (case elem of
        None \<Rightarrow> Some None
      | Some x \<Rightarrow>
          if x \<in> set (sl_nodes slist)
          then Some (case after (rev (sl_nodes slist)) x of [] \<Rightarrow> None | y # _ \<Rightarrow> Some y) else None)"

text \<open>\<open>list_add\<close> and \<open>list_add_tail\<close> link a node after and before a linked node.\<close>

fun link_after :: "'a list \<Rightarrow> 'a \<Rightarrow> 'a \<Rightarrow> 'a list" where
  "link_after [] p x = []"
| "link_after (y # ys) p x = (if y = p then y # x # ys else y # link_after ys p x)"

fun link_before :: "'a list \<Rightarrow> 'a \<Rightarrow> 'a \<Rightarrow> 'a list" where
  "link_before [] p x = []"
| "link_before (y # ys) p x = (if y = p then x # y # ys else y # link_before ys p x)"

definition insert_after_sized_list :: "'a sized_list \<Rightarrow> 'a option \<Rightarrow> 'a \<Rightarrow> 'a sized_list option" where
  "insert_after_sized_list slist object nobject =
     (case object of
        None \<Rightarrow> insert_sized_list_head slist nobject
      | Some p \<Rightarrow>
          if p \<in> set (sl_nodes slist) \<and> nobject \<notin> set (sl_nodes slist)
          then Some (slist\<lparr>sl_nodes := link_after (sl_nodes slist) p nobject, sl_size := sl_size slist + 1\<rparr>)
          else None)"

definition insert_before_sized_list :: "'a sized_list \<Rightarrow> 'a option \<Rightarrow> 'a \<Rightarrow> 'a sized_list option" where
  "insert_before_sized_list slist object nobject =
     (case object of
        None \<Rightarrow> insert_sized_list_tail slist nobject
      | Some p \<Rightarrow>
          if p \<in> set (sl_nodes slist) \<and> nobject \<notin> set (sl_nodes slist)
          then Some (slist\<lparr>sl_nodes := link_before (sl_nodes slist) p nobject, sl_size := sl_size slist + 1\<rparr>)
          else None)"

definition is_empty_sized_list :: "'a sized_list \<Rightarrow> bool" where
  "is_empty_sized_list slist \<longleftrightarrow> sl_size slist = 0"

text \<open>A \<open>while\<close> loop that would not end has the value \<open>None\<close>.\<close>

partial_function (option) remove_sized_list_all :: "'a sized_list \<Rightarrow> 'a sized_list option" where
  "remove_sized_list_all slist =
     (if is_empty_sized_list slist then Some slist
      else case head_sized_list slist of
          None \<Rightarrow> None
        | Some x \<Rightarrow> Option.bind (remove_sized_list slist x) remove_sized_list_all)"

text \<open>The search loop of the sorted insertions: the first element that fails the test.\<close>

partial_function (option) find_place ::
  "('a \<Rightarrow> bool) \<Rightarrow> 'a sized_list \<Rightarrow> 'a option \<Rightarrow> 'a option option" where
  "find_place skip slist cur =
     (case cur of
        None \<Rightarrow> Some None
      | Some x \<Rightarrow>
          if skip x then Option.bind (next_sized_list slist cur) (find_place skip slist)
          else Some cur)"

definition sorted_insert_sized_list ::
  "'a sized_list \<Rightarrow> 'a \<Rightarrow> bool \<Rightarrow> ('a \<Rightarrow> 'a \<Rightarrow> int) \<Rightarrow> 'a sized_list option" where
  "sorted_insert_sized_list slist object ascending compare = do {
     cur \<leftarrow> (if ascending
             then find_place (\<lambda>cur. compare cur object \<le> 0) slist (head_sized_list slist)
             else find_place (\<lambda>cur. compare cur object \<ge> 0) slist (head_sized_list slist));
     insert_before_sized_list slist cur object
   }"

definition sorted_insert_front_sized_list ::
  "'a sized_list \<Rightarrow> 'a \<Rightarrow> bool \<Rightarrow> ('a \<Rightarrow> 'a \<Rightarrow> int) \<Rightarrow> 'a sized_list option" where
  "sorted_insert_front_sized_list slist object ascending compare = do {
     cur \<leftarrow> (if ascending
             then find_place (\<lambda>cur. compare cur object < 0) slist (head_sized_list slist)
             else find_place (\<lambda>cur. compare cur object > 0) slist (head_sized_list slist));
     insert_before_sized_list slist cur object
   }"

text \<open>The search for the minimum (or maximum) from \<open>cur\<close> to the end of the list.\<close>

partial_function (option) select_node ::
  "('a \<Rightarrow> 'a \<Rightarrow> bool) \<Rightarrow> 'a sized_list \<Rightarrow> 'a option \<Rightarrow> 'a \<Rightarrow> 'a option" where
  "select_node better slist cur selected =
     (case cur of
        None \<Rightarrow> Some selected
      | Some x \<Rightarrow>
          Option.bind (next_sized_list slist cur)
            (\<lambda>nxt. select_node better slist nxt (if better x selected then x else selected)))"

fun sort_loop ::
  "nat \<Rightarrow> ('a \<Rightarrow> 'a \<Rightarrow> bool) \<Rightarrow> 'a sized_list \<Rightarrow> 'a option \<Rightarrow> 'a option \<Rightarrow> 'a sized_list option" where
  "sort_loop 0 better slist cur prev_selected = Some slist"
| "sort_loop (Suc n) better slist cur prev_selected =
     (case cur of
        None \<Rightarrow> Some slist
      | Some c \<Rightarrow> do {
          selected_node \<leftarrow> select_node better slist cur c;
          slist \<leftarrow> remove_sized_list slist selected_node;
          slist \<leftarrow> insert_after_sized_list slist prev_selected selected_node;
          cur \<leftarrow> next_sized_list slist (Some selected_node);
          sort_loop n better slist cur (Some selected_node)
        })"

text \<open>The bound \<open>size - 1\<close> of the outer loop does not change: every iteration removes a node and
  inserts it again.\<close>

definition sort_sized_list :: "'a sized_list \<Rightarrow> bool \<Rightarrow> ('a \<Rightarrow> 'a \<Rightarrow> int) \<Rightarrow> 'a sized_list option" where
  "sort_sized_list slist ascending compare =
     (if sl_size slist \<le> 1 then Some slist
      else sort_loop (sl_size slist - 1)
             (\<lambda>cur sel. if ascending then compare cur sel < 0 else compare cur sel > 0)
             slist (head_sized_list slist) None)"

section \<open>Well-formed lists\<close>

definition sl_wf :: "'a sized_list \<Rightarrow> bool" where
  "sl_wf slist \<longleftrightarrow> sl_size slist = length (sl_nodes slist) \<and> distinct (sl_nodes slist)"

definition slist_of :: "'a list \<Rightarrow> 'a sized_list" where
  "slist_of xs = \<lparr>sl_nodes = xs, sl_size = length xs\<rparr>"

lemma sl_wf_slist_of [simp]: "sl_wf (slist_of xs) = distinct xs"
  by (simp add: sl_wf_def slist_of_def)

lemma slist_of_sels [simp]: "sl_nodes (slist_of xs) = xs" "sl_size (slist_of xs) = length xs"
  by (simp_all add: slist_of_def)

lemma sl_wf_eq: "sl_wf slist \<Longrightarrow> slist = slist_of (sl_nodes slist)"
  by (cases slist) (simp add: sl_wf_def slist_of_def)

lemma sized_list_simps [simp]:
  "sized_list_length (slist_of xs) = length xs"
  "x \<notin> set xs \<Longrightarrow> insert_sized_list_tail (slist_of xs) x = Some (slist_of (xs @ [x]))"
  "x \<notin> set xs \<Longrightarrow> insert_sized_list_head (slist_of xs) x = Some (slist_of (x # xs))"
  "head_sized_list (slist_of (x # xs)) = Some x"
  "head_sized_list (slist_of []) = None"
  "tail_sized_list (slist_of (xs @ [x])) = Some x"
  "tail_sized_list (slist_of []) = None"
  "is_empty_sized_list (slist_of xs) = (xs = [])"
  "init_sized_list = slist_of []"
  by (simp_all add: sized_list_length_def insert_sized_list_tail_def insert_sized_list_head_def
      head_sized_list_def tail_sized_list_def is_empty_sized_list_def init_sized_list_def slist_of_def)

lemma after_split: "x \<notin> set ps \<Longrightarrow> after (ps @ x # qs) x = qs"
  by (induction ps) auto

lemma link_after_split: "p \<notin> set ps \<Longrightarrow> link_after (ps @ p # qs) p x = ps @ p # x # qs"
  by (induction ps) auto

lemma link_before_split: "p \<notin> set ps \<Longrightarrow> link_before (ps @ p # qs) p x = ps @ x # p # qs"
  by (induction ps) auto

lemma remove_sized_list_split [simp]:
  "x \<notin> set ps \<Longrightarrow> remove_sized_list (slist_of (ps @ x # qs)) x = Some (slist_of (ps @ qs))"
  by (simp add: remove_sized_list_def slist_of_def remove1_append)

lemma next_sized_list_split:
  "x \<notin> set ps \<Longrightarrow> next_sized_list (slist_of (ps @ x # qs)) (Some x) = Some (head_sized_list (slist_of qs))"
  by (simp add: next_sized_list_def after_split head_sized_list_def slist_of_def)

lemma prev_sized_list_split:
  "x \<notin> set qs \<Longrightarrow> prev_sized_list (slist_of (ps @ x # qs)) (Some x) = Some (tail_sized_list (slist_of ps))"
  by (cases ps rule: rev_cases) (simp_all add: prev_sized_list_def after_split tail_sized_list_def slist_of_def)

lemma insert_before_split:
  "y \<notin> set ps \<Longrightarrow> x \<notin> set (ps @ y # qs) \<Longrightarrow>
   insert_before_sized_list (slist_of (ps @ y # qs)) (Some y) x = Some (slist_of (ps @ x # y # qs))"
  by (simp add: insert_before_sized_list_def link_before_split slist_of_def)

lemma insert_before_end: "x \<notin> set ps \<Longrightarrow> insert_before_sized_list (slist_of ps) None x = Some (slist_of (ps @ [x]))"
  by (simp add: insert_before_sized_list_def)

lemma insert_after_split:
  "y \<notin> set ps \<Longrightarrow> x \<notin> set (ps @ y # qs) \<Longrightarrow>
   insert_after_sized_list (slist_of (ps @ y # qs)) (Some y) x = Some (slist_of (ps @ y # x # qs))"
  by (simp add: insert_after_sized_list_def link_after_split slist_of_def)

lemma remove_sized_list_all_empty:
  "distinct xs \<Longrightarrow> remove_sized_list_all (slist_of xs) = Some (slist_of [])"
proof (induction xs)
  case Nil
  then show ?case by (subst remove_sized_list_all.simps) simp
next
  case (Cons x xs)
  have "remove_sized_list (slist_of (x # xs)) x = Some (slist_of xs)"
    using remove_sized_list_split [of x "[]" xs] by simp
  with Cons show ?case by (subst remove_sized_list_all.simps) simp
qed

section \<open>Sorted insertion\<close>

lemma find_place_eq:
  "distinct (ps @ xs) \<Longrightarrow>
   find_place skip (slist_of (ps @ xs)) (head_sized_list (slist_of xs))
     = Some (head_sized_list (slist_of (dropWhile skip xs)))"
proof (induction xs arbitrary: ps)
  case Nil
  then show ?case by (subst find_place.simps) simp
next
  case (Cons x xs)
  have n: "next_sized_list (slist_of (ps @ x # xs)) (Some x) = Some (head_sized_list (slist_of xs))"
    using Cons.prems by (intro next_sized_list_split) simp
  have "find_place skip (slist_of (ps @ x # xs)) (head_sized_list (slist_of xs)) =
      Some (head_sized_list (slist_of (dropWhile skip xs)))"
    using Cons.IH [of "ps @ [x]"] Cons.prems by simp
  then show ?case by (subst find_place.simps) (simp add: n)
qed

lemma insert_at_place:
  assumes "distinct xs" and "x \<notin> set xs"
  shows "do { cur \<leftarrow> find_place skip (slist_of xs) (head_sized_list (slist_of xs));
              insert_before_sized_list (slist_of xs) cur x }
    = Some (slist_of (takeWhile skip xs @ x # dropWhile skip xs))"
proof (cases "dropWhile skip xs")
  case Nil
  then have "takeWhile skip xs @ x # dropWhile skip xs = xs @ [x]"
    by (metis append_Nil2 takeWhile_dropWhile_id)
  then show ?thesis using find_place_eq [of "[]" xs skip] assms Nil
    by (simp only:) (simp add: insert_before_end)
next
  case (Cons y ys)
  then have xs: "xs = takeWhile skip xs @ y # ys" by (metis takeWhile_dropWhile_id)
  then have "y \<notin> set (takeWhile skip xs)" using assms by (metis disjoint_iff distinct_append list.set_intros(1))
  then have "insert_before_sized_list (slist_of xs) (Some y) x = Some (slist_of (takeWhile skip xs @ x # y # ys))"
    using insert_before_split [of y "takeWhile skip xs" x ys] xs assms(2) by simp
  then show ?thesis using find_place_eq [of "[]" xs skip] assms Cons by simp
qed

lemma sorted_insert_eq:
  "distinct xs \<Longrightarrow> x \<notin> set xs \<Longrightarrow> sorted_insert_sized_list (slist_of xs) x True cmp =
     Some (slist_of (takeWhile (\<lambda>c. cmp c x \<le> 0) xs @ x # dropWhile (\<lambda>c. cmp c x \<le> 0) xs))"
  "distinct xs \<Longrightarrow> x \<notin> set xs \<Longrightarrow> sorted_insert_sized_list (slist_of xs) x False cmp =
     Some (slist_of (takeWhile (\<lambda>c. cmp c x \<ge> 0) xs @ x # dropWhile (\<lambda>c. cmp c x \<ge> 0) xs))"
  by (simp_all add: sorted_insert_sized_list_def insert_at_place)

lemma sorted_insert_front_eq:
  "distinct xs \<Longrightarrow> x \<notin> set xs \<Longrightarrow> sorted_insert_front_sized_list (slist_of xs) x True cmp =
     Some (slist_of (takeWhile (\<lambda>c. cmp c x < 0) xs @ x # dropWhile (\<lambda>c. cmp c x < 0) xs))"
  "distinct xs \<Longrightarrow> x \<notin> set xs \<Longrightarrow> sorted_insert_front_sized_list (slist_of xs) x False cmp =
     Some (slist_of (takeWhile (\<lambda>c. cmp c x > 0) xs @ x # dropWhile (\<lambda>c. cmp c x > 0) xs))"
  by (simp_all add: sorted_insert_front_sized_list_def insert_at_place)

section \<open>Sorting\<close>

lemma select_node_eq:
  "distinct (ps @ xs) \<Longrightarrow>
   select_node better (slist_of (ps @ xs)) (head_sized_list (slist_of xs)) s
     = Some (foldl (\<lambda>s c. if better c s then c else s) s xs)"
proof (induction xs arbitrary: ps s)
  case Nil
  then show ?case by (subst select_node.simps) simp
next
  case (Cons x xs)
  have n: "next_sized_list (slist_of (ps @ x # xs)) (Some x) = Some (head_sized_list (slist_of xs))"
    using Cons.prems by (intro next_sized_list_split) simp
  have "select_node better (slist_of (ps @ x # xs)) (head_sized_list (slist_of xs)) s' =
      Some (foldl (\<lambda>s c. if better c s then c else s) s' xs)" for s'
    using Cons.IH [of "ps @ [x]"] Cons.prems by simp
  then show ?case by (subst select_node.simps) (simp add: n)
qed

text \<open>The selected element is the first of the least ones.\<close>

definition first_least :: "('a \<Rightarrow> 'k::linorder) \<Rightarrow> 'a list \<Rightarrow> 'a \<Rightarrow> bool" where
  "first_least k xs m \<longleftrightarrow>
     (\<exists>as bs. xs = as @ m # bs \<and> (\<forall>a \<in> set as. k m < k a) \<and> (\<forall>b \<in> set bs. k m \<le> k b))"

lemma first_least_snoc:
  assumes "first_least k xs m"
  shows "first_least k (xs @ [y]) (if k y < k m then y else m)"
proof -
  obtain as bs where *: "xs = as @ m # bs" "\<forall>a \<in> set as. k m < k a" "\<forall>b \<in> set bs. k m \<le> k b"
    using assms by (auto simp: first_least_def)
  show ?thesis
  proof (cases "k y < k m")
    case True
    then have "\<forall>a \<in> set xs. k y < k a" using * by auto
    with True show ?thesis unfolding first_least_def by (intro exI [of _ xs] exI [of _ "[]"]) simp
  next
    case False
    with * show ?thesis unfolding first_least_def
      by (intro exI [of _ as] exI [of _ "bs @ [y]"]) auto
  qed
qed

lemma first_least_foldl:
  "first_least k (x # xs) (foldl (\<lambda>s c. if k c < k s then c else s) x xs)"
proof (induction xs rule: rev_induct)
  case Nil
  then show ?case unfolding first_least_def by (intro exI [of _ "[]"]) simp
next
  case (snoc y xs)
  then show ?case using first_least_snoc [OF snoc.IH, of y] by simp
qed

lemma filter_key_sort:
  "filter (\<lambda>y. c = k y) (sort_key k xs) = filter (\<lambda>y. c = k y) xs"
proof -
  have "(\<lambda>y. c = k y) = (\<lambda>y. k y = c)" by auto
  then show ?thesis by (simp only: sort_key_stable)
qed

lemma sort_key_first_least:
  assumes "\<forall>a \<in> set as. k m < k a" and "\<forall>b \<in> set bs. k m \<le> k b"
  shows "sort_key k (as @ m # bs) = m # sort_key k (as @ bs)"
proof (rule properties_for_sort_key)
  show "mset (m # sort_key k (as @ bs)) = mset (as @ m # bs)" by simp
  show "sorted (map k (m # sort_key k (as @ bs)))" using assms by (auto intro: less_imp_le)
  fix x assume "x \<in> set (m # sort_key k (as @ bs))"
  have e: "k m = k x \<Longrightarrow> filter (\<lambda>y. k x = k y) as = []" using assms(1) by (auto simp: filter_empty_conv)
  show "filter (\<lambda>y. k x = k y) (m # sort_key k (as @ bs)) = filter (\<lambda>y. k x = k y) (as @ m # bs)"
    using e by (auto simp: filter_key_sort)
qed

lemma sort_loop_eq:
  assumes "\<And>x y. better x y \<longleftrightarrow> k x < k (y :: 'a)"
  shows "distinct (ds @ xs) \<Longrightarrow> length xs = Suc n \<Longrightarrow>
    sort_loop n better (slist_of (ds @ xs)) (head_sized_list (slist_of xs))
      (tail_sized_list (slist_of ds)) = Some (slist_of (ds @ sort_key k xs))"
proof (induction n arbitrary: ds xs)
  case 0
  then obtain x where "xs = [x]" by (auto simp: length_Suc_conv)
  then show ?case by simp
next
  case (Suc n)
  then obtain x xs' where xs: "xs = x # xs'" by (cases xs) auto
  define m where "m = foldl (\<lambda>s c. if better c s then c else s) x xs"
  have "m = foldl (\<lambda>s c. if k c < k s then c else s) x xs'"
    unfolding m_def xs by (simp add: assms)
  then have "first_least k xs m" using first_least_foldl [of k x xs'] by (simp add: xs)
  then obtain as bs where s: "xs = as @ m # bs" "\<forall>a \<in> set as. k m < k a" "\<forall>b \<in> set bs. k m \<le> k b"
    by (auto simp: first_least_def)
  have sel: "select_node better (slist_of (ds @ xs)) (head_sized_list (slist_of xs)) x = Some m"
    using select_node_eq [OF Suc.prems(1), of better x] by (simp add: m_def)
  have rem: "remove_sized_list (slist_of (ds @ xs)) m = Some (slist_of (ds @ as @ bs))"
    using remove_sized_list_split [of m "ds @ as" bs] Suc.prems(1) s(1) by auto
  have ins: "insert_after_sized_list (slist_of (ds @ as @ bs)) (tail_sized_list (slist_of ds)) m =
      Some (slist_of (ds @ m # as @ bs))"
  proof (cases ds rule: rev_cases)
    case Nil
    then show ?thesis using Suc.prems(1) s(1) by (simp add: insert_after_sized_list_def)
  next
    case (snoc ds' d)
    then have "d \<notin> set ds'" using Suc.prems(1) by auto
    then show ?thesis using insert_after_split [of d ds' m "as @ bs"] snoc Suc.prems(1) s(1) by auto
  qed
  have nxt: "next_sized_list (slist_of (ds @ m # as @ bs)) (Some m) = Some (head_sized_list (slist_of (as @ bs)))"
    using Suc.prems(1) s(1) by (intro next_sized_list_split) auto
  have IH: "sort_loop n better (slist_of ((ds @ [m]) @ as @ bs)) (head_sized_list (slist_of (as @ bs)))
      (tail_sized_list (slist_of (ds @ [m]))) = Some (slist_of ((ds @ [m]) @ sort_key k (as @ bs)))"
    using Suc.prems s(1) by (intro Suc.IH) auto
  have "head_sized_list (slist_of xs) = Some x" by (simp add: xs)
  then show ?case using sel rem ins nxt IH
    by (simp add: s(1) sort_key_first_least [OF s(2,3)])
qed

lemma sort_sized_list_asc:
  assumes "\<And>x y. cmp x y < 0 \<longleftrightarrow> k x < k (y :: 'a)" and "distinct xs"
  shows "sort_sized_list (slist_of xs) True cmp = Some (slist_of (sort_key k xs))"
proof (cases "length xs \<le> 1")
  case True
  then have "sort_key k xs = xs" by (cases xs) auto
  with True show ?thesis by (simp add: sort_sized_list_def)
next
  case False
  then show ?thesis
    using sort_loop_eq [of "\<lambda>cur sel. cmp cur sel < 0" k "[]" xs "length xs - 1"] assms
    by (simp add: sort_sized_list_def)
qed

lemma sort_sized_list_desc:
  assumes "\<And>x y. cmp x y > 0 \<longleftrightarrow> k x < k (y :: 'a)" and "distinct xs"
  shows "sort_sized_list (slist_of xs) False cmp = Some (slist_of (sort_key k xs))"
proof (cases "length xs \<le> 1")
  case True
  then have "sort_key k xs = xs" by (cases xs) auto
  with True show ?thesis by (simp add: sort_sized_list_def)
next
  case False
  then show ?thesis
    using sort_loop_eq [of "\<lambda>cur sel. cmp cur sel > 0" k "[]" xs "length xs - 1"] assms
    by (simp add: sort_sized_list_def)
qed

section \<open>Lists kept sorted\<close>

lemma sort_key_insert_last:
  assumes "sorted (map k xs)"
  shows "takeWhile (\<lambda>c. k c \<le> k x) xs @ x # dropWhile (\<lambda>c. k c \<le> k x) xs = sort_key k (xs @ [x])"
proof -
  define l where "l = takeWhile (\<lambda>c. k c \<le> k x) xs"
  define r where "r = dropWhile (\<lambda>c. k c \<le> k x) xs"
  have xs: "xs = l @ r" by (simp add: l_def r_def)
  have so: "sorted (map k (l @ r))" using assms xs by simp
  have l: "\<And>y. y \<in> set l \<Longrightarrow> k y \<le> k x" by (auto simp: l_def dest: set_takeWhileD)
  have r: "k x < k y" if y: "y \<in> set r" for y
  proof -
    obtain h t where ht: "r = h # t" using y by (cases r) auto
    then have "\<not> k h \<le> k x" using hd_dropWhile [of "\<lambda>c. k c \<le> k x" xs] by (simp add: r_def)
    then show "k x < k y" using ht y so by (auto simp: sorted_append)
  qed
  have "sort_key k (xs @ [x]) = l @ x # r"
  proof (rule properties_for_sort_key)
    show "mset (l @ x # r) = mset (xs @ [x])" by (simp add: xs)
    show "sorted (map k (l @ x # r))" using so l r by (auto simp: sorted_append intro: less_imp_le)
    fix z assume "z \<in> set (l @ x # r)"
    have "k z = k x \<Longrightarrow> filter (\<lambda>y. k z = k y) r = []" using r by (fastforce simp: filter_empty_conv)
    then show "filter (\<lambda>y. k z = k y) (l @ x # r) = filter (\<lambda>y. k z = k y) (xs @ [x])"
      by (auto simp: xs)
  qed
  then show ?thesis by (simp add: l_def r_def)
qed

lemma sort_key_sort_append: "sort_key k (sort_key k xs @ ys) = sort_key k (xs @ ys)"
  by (rule properties_for_sort_key [symmetric]) (simp_all add: filter_key_sort)

text \<open>What a client of a list kept sorted relies on: an insertion puts the element after those that
  do not have a greater key.\<close>

locale sorted_list =
  fixes add :: "'q \<Rightarrow> 'a \<Rightarrow> 'q option" and elems :: "'q \<Rightarrow> 'a list" and ok :: "'q \<Rightarrow> bool"
    and key :: "'a \<Rightarrow> 'k::linorder"
  assumes add_ok: "ok q \<Longrightarrow> x \<notin> set (elems q) \<Longrightarrow> \<exists>q'. add q x = Some q' \<and> ok q' \<and>
    elems q' = takeWhile (\<lambda>c. key c \<le> key x) (elems q) @ x # dropWhile (\<lambda>c. key c \<le> key x) (elems q)"
begin

lemma add_all_sorts:
  assumes "ok q" and "sorted (map key (elems q))" and "distinct (elems q @ xs)"
  shows "\<exists>q'. foldM (\<lambda>x q. add q x) xs q = Some q' \<and> ok q' \<and> elems q' = sort_key key (elems q @ xs)"
  using assms
proof (induction xs arbitrary: q)
  case Nil
  then show ?case by (simp add: sort_key_id_if_sorted)
next
  case (Cons x xs)
  then obtain q1 where q1: "add q x = Some q1" "ok q1" "elems q1 = sort_key key (elems q @ [x])"
    using add_ok [of q x] sort_key_insert_last [of key "elems q" x] by auto
  have "distinct (elems q1 @ xs)" using Cons.prems(3) by (auto simp: q1(3))
  moreover have "sorted (map key (elems q1))" by (simp add: q1(3))
  ultimately obtain q2 where "foldM (\<lambda>x q. add q x) xs q1 = Some q2" "ok q2"
    "elems q2 = sort_key key (elems q1 @ xs)" using Cons.IH [OF q1(2)] by blast
  then show ?case using q1 sort_key_sort_append [of key "elems q @ [x]" xs] by auto
qed

end

definition int_cmp :: "('a \<Rightarrow> int) \<Rightarrow> 'a \<Rightarrow> 'a \<Rightarrow> int" where
  "int_cmp k x y = k x - k y"

lemma distinct_insert_mid: "distinct (l @ r) \<Longrightarrow> x \<notin> set (l @ r) \<Longrightarrow> distinct (l @ x # r)"
  by auto

interpretation ascending: sorted_list
  "\<lambda>q x. sorted_insert_sized_list q x True (int_cmp k)" sl_nodes sl_wf k for k
proof
  fix q :: "'a sized_list" and x assume q: "sl_wf q" "x \<notin> set (sl_nodes q)"
  let ?l = "takeWhile (\<lambda>c. k c \<le> k x) (sl_nodes q)" and ?r = "dropWhile (\<lambda>c. k c \<le> k x) (sl_nodes q)"
  have d: "distinct (sl_nodes q)" using q(1) by (simp add: sl_wf_def)
  have "(\<lambda>c. int_cmp k c x \<le> 0) = (\<lambda>c. k c \<le> k x)" by (auto simp: int_cmp_def)
  then have "sorted_insert_sized_list q x True (int_cmp k) = Some (slist_of (?l @ x # ?r))"
    using sorted_insert_eq(1) [OF d q(2), of "int_cmp k"] sl_wf_eq [OF q(1)] by simp
  moreover have "distinct (?l @ x # ?r)"
    using d q(2) by (intro distinct_insert_mid) simp_all
  ultimately show "\<exists>q'. sorted_insert_sized_list q x True (int_cmp k) = Some q' \<and> sl_wf q' \<and>
    sl_nodes q' = ?l @ x # ?r" by auto
qed

section \<open>Properties\<close>

text \<open>C34. \<open>sort_sized_list\<close> sorts every list of distinct nodes, in ascending or descending order
  of a key, and it is stable: nodes with equal keys keep their order. It never follows a link of a
  node that is not in the list, and both its loops end.\<close>

theorem sort_sized_list_sorts:
  assumes "sl_wf slist"
  shows "sort_sized_list slist ascending (int_cmp key) =
    Some (slist_of (sort_key (if ascending then key else (\<lambda>x. - key x)) (sl_nodes slist)))"
proof -
  have "distinct (sl_nodes slist)" using assms by (simp add: sl_wf_def)
  then show ?thesis
    using sort_sized_list_asc [of "int_cmp key" key] sort_sized_list_desc [of "int_cmp key" "\<lambda>x. - key x"] by (subst sl_wf_eq [OF assms]) (simp add: int_cmp_def)
qed

theorem sort_sized_list_sorts_witness:
  "sort_sized_list (slist_of [3, 14, 23, 11 :: nat]) True (int_cmp (\<lambda>x. int (x mod 10))) =
     Some (slist_of [11, 3, 23, 14])"
proof -
  have "sl_wf (slist_of [3, 14, 23, 11 :: nat])" by simp
  from sort_sized_list_sorts [OF this, of True "\<lambda>x. int (x mod 10)"] show ?thesis by simp
qed

text \<open>Building a list with \<open>sorted_insert_sized_list\<close> is sorting: from an empty list, inserting
  the nodes of \<open>xs\<close> one by one gives the same list as appending them all and sorting once.\<close>

theorem sorted_insert_is_sort:
  assumes "distinct xs"
  shows "foldM (\<lambda>x q. sorted_insert_sized_list q x True (int_cmp key)) xs init_sized_list
    = do { q \<leftarrow> foldM (\<lambda>x q. insert_sized_list_tail q x) xs init_sized_list;
           sort_sized_list q True (int_cmp key) }"
proof -
  obtain q where q: "foldM (\<lambda>x q. sorted_insert_sized_list q x True (int_cmp key)) xs init_sized_list = Some q"
    "sl_wf q" "sl_nodes q = sort_key key xs"
    using ascending.add_all_sorts [of init_sized_list key xs] assms by auto
  have f: "distinct (ys @ xs) \<Longrightarrow>
      foldM (\<lambda>x q. insert_sized_list_tail q x) xs (slist_of ys) = Some (slist_of (ys @ xs))" for ys
    by (induction xs arbitrary: ys) simp_all
  have "sort_sized_list (slist_of xs) True (int_cmp key) = Some (slist_of (sort_key key xs))"
    using assms by (intro sort_sized_list_asc) (simp_all add: int_cmp_def)
  then show ?thesis using q(1) sl_wf_eq [OF q(2)] q(3) f [of "[]"] assms by simp
qed

theorem sorted_insert_is_sort_witness:
  "foldM (\<lambda>x q. sorted_insert_sized_list q x True (int_cmp int)) [2, 0, 1 :: nat] init_sized_list
    = sort_sized_list (slist_of [2, 0, 1]) True (int_cmp int)"
  using sorted_insert_is_sort [of "[2, 0, 1]" int] by simp

end
