(* ===== verification/Allocator.thy ===== *)
theory Allocator
  imports Prelude
begin

text \<open>
  The stack-based block allocator of \<^verbatim>\<open>mc_allocator.h\<close>: a stack of free ranges of block numbers over
  an array given by the caller. \<open>free_list\<close> is its abstraction: the free blocks in the order in which
  \<open>mc_malloc\<close> hands them out.
\<close>

section \<open>Interface\<close>

text \<open>A pool of numbered blocks: \<open>alloc\<close> gives the first free block, \<open>release\<close> puts a block that is
  not free back in front.\<close>

locale block_pool =
  fixes alloc :: "'p \<Rightarrow> ('p \<times> int) option" and release :: "'p \<Rightarrow> nat \<Rightarrow> 'p option"
    and free :: "'p \<Rightarrow> nat list" and ok :: "nat \<Rightarrow> 'p \<Rightarrow> bool"
  assumes ok_free: "ok n p \<Longrightarrow> distinct (free p) \<and> set (free p) \<subseteq> {..<n}"
    and alloc_first: "ok n p \<Longrightarrow> free p = b # bs \<Longrightarrow> \<exists>p'. alloc p = Some (p', int b) \<and> ok n p' \<and> free p' = bs"
    and alloc_none: "ok n p \<Longrightarrow> free p = [] \<Longrightarrow> alloc p = Some (p, -1)"
    and release_ok: "ok n p \<Longrightarrow> b < n \<Longrightarrow> b \<notin> set (free p) \<Longrightarrow>
      \<exists>p'. release p b = Some p' \<and> ok n p' \<and> free p' = b # free p"

text \<open>A client that holds blocks: it asks for a block, or gives back the \<open>i\<close>-th one it holds.\<close>

datatype pool_op = Get | Put nat

fun pool_run ::
  "('p \<Rightarrow> ('p \<times> int) option) \<Rightarrow> ('p \<Rightarrow> nat \<Rightarrow> 'p option) \<Rightarrow> pool_op list \<Rightarrow> 'p \<times> nat list
     \<Rightarrow> ('p \<times> nat list) option" where
  "pool_run alloc release [] s = Some s"
| "pool_run alloc release (Get # ops) (p, held) = do {
     (p, b) \<leftarrow> alloc p;
     pool_run alloc release ops (p, if b = -1 then held else nat b # held)
   }"
| "pool_run alloc release (Put i # ops) (p, held) =
     (if i < length held then do {
        p \<leftarrow> release p (held ! i);
        pool_run alloc release ops (p, take i held @ drop (Suc i) held)
      } else pool_run alloc release ops (p, held))"

context block_pool begin

text \<open>The blocks the client holds and the free ones are always the blocks of the pool, each once.\<close>

lemma run_partitions:
  assumes "ok n p" and "distinct (held @ free p)" and "set (held @ free p) = {..<n}"
  shows "\<exists>p' held'. pool_run alloc release ops (p, held) = Some (p', held') \<and> ok n p' \<and>
    distinct (held' @ free p') \<and> set (held' @ free p') = {..<n}"
  using assms
proof (induction ops arbitrary: p held)
  case Nil
  then show ?case by simp
next
  case (Cons op ops)
  show ?case
  proof (cases op)
    case Get
    show ?thesis
    proof (cases "free p")
      case Nil
      then show ?thesis using Cons alloc_none [of n p] Get by auto
    next
      case (Cons b bs)
      obtain p' where p': "alloc p = Some (p', int b)" "ok n p'" "free p' = bs"
        using alloc_first [OF Cons.prems(1) Cons] by blast
      have "distinct ((b # held) @ free p')" "set ((b # held) @ free p') = {..<n}"
        using Cons.prems(2,3) Cons p'(3) by auto
      from Cons.IH [OF p'(2) this] show ?thesis using p'(1) Get by simp
    qed
  next
    case (Put i)
    show ?thesis
    proof (cases "i < length held")
      case True
      define l r where "l = take i held" and "r = drop (Suc i) held"
      have h: "held = l @ held ! i # r" using True by (simp add: l_def r_def id_take_nth_drop)
      define b where "b = held ! i"
      have hb: "held = l @ b # r" using h b_def by simp
      have "b < n" "b \<notin> set (free p)" using Cons.prems(2,3) unfolding hb by auto
      from release_ok [OF Cons.prems(1) this] obtain p' where
        p': "release p b = Some p'" "ok n p'" "free p' = b # free p" by blast
      have "distinct ((l @ r) @ free p')" "set ((l @ r) @ free p') = {..<n}"
        using Cons.prems(2,3) unfolding hb p'(3) by auto
      from Cons.IH [OF p'(2) this] show ?thesis using p'(1) Put True by (simp add: b_def l_def r_def)
    next
      case False
      then show ?thesis using Cons Put by simp
    qed
  qed
qed

end

section \<open>The stack of free ranges\<close>

record mc_freeblock =
  fb_start_idx :: u32
  fb_size :: u32

record mc_freeblock_stack =
  st_freeblocks :: "mc_freeblock list"
  st_stack_size :: u32
  st_max_stack_size :: u32

definition init_mc_freeblock_stack :: "mc_freeblock list \<Rightarrow> u32 \<Rightarrow> mc_freeblock_stack" where
  "init_mc_freeblock_stack freeblocks max_stack_size =
     \<lparr>st_freeblocks = freeblocks, st_stack_size = 0, st_max_stack_size = max_stack_size\<rparr>"

definition empty_mc_freeblock_stack :: "mc_freeblock_stack \<Rightarrow> bool" where
  "empty_mc_freeblock_stack st \<longleftrightarrow> st_stack_size st = 0"

definition full_mc_freeblock_stack :: "mc_freeblock_stack \<Rightarrow> bool" where
  "full_mc_freeblock_stack st \<longleftrightarrow> st_stack_size st = st_max_stack_size st"

definition size_mc_freeblock_stack :: "mc_freeblock_stack \<Rightarrow> u32" where
  "size_mc_freeblock_stack st = st_stack_size st"

definition pop_mc_freeblock_stack :: "mc_freeblock_stack \<Rightarrow> mc_freeblock_stack \<times> bool" where
  "pop_mc_freeblock_stack st =
     (if st_stack_size st \<noteq> 0 then (st\<lparr>st_stack_size := st_stack_size st - 1\<rparr>, True) else (st, False))"

definition push_mc_freeblock_stack ::
  "mc_freeblock_stack \<Rightarrow> mc_freeblock \<Rightarrow> (mc_freeblock_stack \<times> bool) option" where
  "push_mc_freeblock_stack st item =
     (if st_stack_size st < st_max_stack_size st then do {
        fbs \<leftarrow> wr (st_freeblocks st) (unat (st_stack_size st)) item;
        Some (st\<lparr>st_freeblocks := fbs, st_stack_size := st_stack_size st + 1\<rparr>, True)
      } else Some (st, False))"

text \<open>The address of the top block: its index, \<open>None\<close> for NULL.\<close>

definition top_mc_freeblock_stack :: "mc_freeblock_stack \<Rightarrow> nat option" where
  "top_mc_freeblock_stack st =
     (if st_stack_size st \<noteq> 0 then Some (unat (st_stack_size st - 1)) else None)"

section \<open>The allocator\<close>

record mc_allocator =
  al_stack :: mc_freeblock_stack
  al_free_count :: u32

definition init_mc_allocator :: "mc_freeblock list \<Rightarrow> u32 \<Rightarrow> mc_allocator option" where
  "init_mc_allocator blocks available_blocks = do {
     (st, _) \<leftarrow> push_mc_freeblock_stack (init_mc_freeblock_stack blocks available_blocks)
       \<lparr>fb_start_idx = 0, fb_size = available_blocks\<rparr>;
     Some \<lparr>al_stack = st, al_free_count = available_blocks\<rparr>
   }"

definition mc_malloc :: "mc_allocator \<Rightarrow> (mc_allocator \<times> int) option" where
  "mc_malloc allocator =
     (if al_free_count allocator > 0 then do {
        let st = al_stack allocator;
        i \<leftarrow> top_mc_freeblock_stack st;
        fb \<leftarrow> rd (st_freeblocks st) i;
        let free_idx = fb_start_idx fb;
        let fb = fb\<lparr>fb_start_idx := fb_start_idx fb + 1, fb_size := fb_size fb - 1\<rparr>;
        fbs \<leftarrow> wr (st_freeblocks st) i fb;
        let st = st\<lparr>st_freeblocks := fbs\<rparr>;
        let st = (if fb_size fb = 0 then fst (pop_mc_freeblock_stack st) else st);
        Some (\<lparr>al_stack = st, al_free_count = al_free_count allocator - 1\<rparr>, sint free_idx)
      } else Some (allocator, -1))"

text \<open>The result of the push is not looked at.\<close>

definition mc_free :: "mc_allocator \<Rightarrow> u32 \<Rightarrow> mc_allocator option" where
  "mc_free allocator blockidx = do {
     (st, _) \<leftarrow> push_mc_freeblock_stack (al_stack allocator) \<lparr>fb_start_idx = blockidx, fb_size = 1\<rparr>;
     Some \<lparr>al_stack = st, al_free_count = al_free_count allocator + 1\<rparr>
   }"

section \<open>Abstraction and invariant\<close>

definition range_of :: "mc_freeblock \<Rightarrow> nat list" where
  "range_of fb = [unat (fb_start_idx fb) ..< unat (fb_start_idx fb) + unat (fb_size fb)]"

definition live_blocks :: "mc_allocator \<Rightarrow> mc_freeblock list" where
  "live_blocks a = take (unat (st_stack_size (al_stack a))) (st_freeblocks (al_stack a))"

definition free_list :: "mc_allocator \<Rightarrow> nat list" where
  "free_list a = concat (map range_of (rev (live_blocks a)))"

definition al_ok :: "nat \<Rightarrow> mc_allocator \<Rightarrow> bool" where
  "al_ok n a \<longleftrightarrow> n < 2 ^ 31 \<and> length (st_freeblocks (al_stack a)) = n \<and>
     unat (st_max_stack_size (al_stack a)) = n \<and> unat (st_stack_size (al_stack a)) \<le> n \<and>
     unat (al_free_count a) = length (free_list a) \<and> distinct (free_list a) \<and>
     set (free_list a) \<subseteq> {..<n} \<and> (\<forall>fb \<in> set (live_blocks a). 0 < unat (fb_size fb))"

lemma ranges_bound:
  "(\<forall>fb \<in> set fbs. 0 < unat (fb_size fb)) \<Longrightarrow> length fbs \<le> length (concat (map range_of fbs))"
  by (induction fbs) (auto simp: range_of_def)

lemma al_ok_room:
  assumes "al_ok n a" and "b < n" "b \<notin> set (free_list a)"
  shows "unat (st_stack_size (al_stack a)) < n"
proof -
  have "length (live_blocks a) \<le> length (free_list a)"
    using ranges_bound [of "rev (live_blocks a)"] assms(1) by (auto simp: free_list_def al_ok_def)
  also have "\<dots> = card (set (free_list a))" using assms(1) by (simp add: al_ok_def distinct_card)
  also have "\<dots> < card {..<n}"
    using assms by (intro psubset_card_mono) (auto simp: al_ok_def)
  finally show ?thesis using assms(1) by (simp add: live_blocks_def al_ok_def)
qed

lemma mc_free_ok:
  assumes ok: "al_ok n a" and b: "b < n" "b \<notin> set (free_list a)"
  shows "\<exists>a'. mc_free a (word_of_nat b) = Some a' \<and> al_ok n a' \<and> free_list a' = b # free_list a"
proof -
  let ?st = "al_stack a"
  define s where "s = unat (st_stack_size ?st)"
  have s: "s < n" using al_ok_room [OF assms] by (simp add: s_def)
  have n: "n < 2 ^ 31" "length (st_freeblocks ?st) = n" "unat (st_max_stack_size ?st) = n"
    using ok by (simp_all add: al_ok_def)
  have s1: "unat (st_stack_size ?st + 1) = Suc s" using s n(1) by (simp add: unat_Suc_u32 s_def)
  have bb: "unat (word_of_nat b :: u32) = b" using b(1) n(1) by (simp add: unat_of_nat take_bit_nat_eq_self)
  let ?fb = "\<lparr>fb_start_idx = word_of_nat b, fb_size = 1\<rparr>"
  let ?a' = "\<lparr>al_stack = ?st\<lparr>st_freeblocks := (st_freeblocks ?st)[s := ?fb], st_stack_size := st_stack_size ?st + 1\<rparr>,
               al_free_count = al_free_count a + 1\<rparr>"
  have e: "mc_free a (word_of_nat b) = Some ?a'"
    using s n by (simp add: mc_free_def push_mc_freeblock_stack_def word_less_nat_alt s_def mem_simps)
  have live: "live_blocks ?a' = live_blocks a @ [?fb]"
    using s n by (simp add: live_blocks_def s1 take_Suc_conv_app_nth s_def [symmetric])
  have r: "range_of ?fb = [b]" using bb by (simp add: range_of_def)
  have fl: "free_list ?a' = b # free_list a" by (simp add: free_list_def live r)
  have "length (free_list a) \<le> n"
    using ok distinct_card [of "free_list a"] card_mono [of "{..<n}" "set (free_list a)"] by (simp add: al_ok_def)
  then have "unat (al_free_count a + 1) = Suc (length (free_list a))"
    using ok n(1) by (subst unat_Suc_u32) (simp_all add: al_ok_def)
  then have "al_ok n ?a'" using ok s s1 b n live fl by (auto simp: al_ok_def)
  then show ?thesis using e fl by blast
qed

lemma mc_malloc_empty:
  assumes ok: "al_ok n a" and "free_list a = []"
  shows "mc_malloc a = Some (a, -1)"
proof -
  have "unat (al_free_count a) = 0" using assms by (simp add: al_ok_def)
  then have "al_free_count a = 0" by (simp add: unat_eq_zero)
  then show ?thesis by (simp add: mc_malloc_def)
qed

lemma mc_malloc_first:
  assumes ok: "al_ok n a" and fl: "free_list a = b # bs"
  shows "\<exists>a'. mc_malloc a = Some (a', int b) \<and> al_ok n a' \<and> free_list a' = bs"
proof -
  let ?st = "al_stack a"
  obtain lb fb where lb: "live_blocks a = lb @ [fb]"
    using fl by (cases "live_blocks a" rule: rev_cases) (auto simp: free_list_def)
  define s where "s = unat (st_stack_size ?st)"
  have n: "n < 2 ^ 31" "length (st_freeblocks ?st) = n" "s \<le> n"
    using ok by (simp_all add: al_ok_def s_def)
  have len: "s = Suc (length lb)" using arg_cong [OF lb, of length] n by (simp add: live_blocks_def s_def)
  have fb: "st_freeblocks ?st ! length lb = fb"
  proof -
    have "live_blocks a ! length lb = st_freeblocks ?st ! length lb"
      using len by (simp add: live_blocks_def s_def)
    then show ?thesis by (simp add: lb)
  qed
  have sz: "0 < unat (fb_size fb)" using ok lb by (simp add: al_ok_def)
  then have r: "range_of fb = unat (fb_start_idx fb) # [Suc (unat (fb_start_idx fb)) ..< unat (fb_start_idx fb) + unat (fb_size fb)]"
    by (simp add: range_of_def upt_conv_Cons)
  have b: "unat (fb_start_idx fb) = b"
    and bs: "bs = [Suc b ..< b + unat (fb_size fb)] @ concat (map range_of (rev lb))"
    using fl by (auto simp: free_list_def lb r)
  have bn: "b < n" using ok fl by (simp add: al_ok_def)
  have sb: "sint (fb_start_idx fb) = int b" using bn n(1) b by (simp add: sint_u32_small)
  have b1: "unat (fb_start_idx fb + 1) = Suc b" using bn n(1) b by (simp add: unat_Suc_u32)
  have z1: "unat (fb_size fb - 1) = unat (fb_size fb) - 1" using sz by (simp add: unat_sub_u32)
  have c: "unat (al_free_count a) = Suc (length bs)" using ok fl by (simp add: al_ok_def)
  then have c1: "unat (al_free_count a - 1) = length bs" by (simp add: unat_sub_u32)
  have s1: "unat (st_stack_size ?st - 1) = length lb" using len by (simp add: unat_sub_u32 s_def)
  have pos: "al_free_count a > 0" using c by (simp add: word_less_nat_alt)
  have nz: "st_stack_size ?st \<noteq> 0" using len s_def by auto
  let ?fb = "fb\<lparr>fb_start_idx := fb_start_idx fb + 1, fb_size := fb_size fb - 1\<rparr>"
  let ?st1 = "?st\<lparr>st_freeblocks := (st_freeblocks ?st)[length lb := ?fb]\<rparr>"
  let ?st2 = "if fb_size fb - 1 = 0 then ?st1\<lparr>st_stack_size := st_stack_size ?st - 1\<rparr> else ?st1"
  let ?a' = "\<lparr>al_stack = ?st2, al_free_count = al_free_count a - 1\<rparr>"
  have e: "mc_malloc a = Some (?a', int b)"
    using pos nz len n fb by (simp add: mc_malloc_def top_mc_freeblock_stack_def Let_def s1 mem_simps sb
        pop_mc_freeblock_stack_def)
  have tk: "take (length lb) (st_freeblocks ?st) = lb"
    using arg_cong [OF lb, of "take (length lb)"] len by (simp add: live_blocks_def s_def)
  have live: "live_blocks ?a' = (if fb_size fb - 1 = 0 then lb else lb @ [?fb])"
    using len n tk by (simp add: live_blocks_def s1 s_def [symmetric] take_Suc_conv_app_nth)
  have z: "fb_size fb - 1 = 0 \<longleftrightarrow> unat (fb_size fb) = 1" 
  proof -
    have "fb_size fb - 1 = 0 \<longleftrightarrow> unat (fb_size fb - 1) = 0" by (simp only: unat_eq_zero)
    with z1 sz show ?thesis by linarith
  qed
  have fl': "free_list ?a' = bs"
    using z1 b1 sz unfolding free_list_def live bs by (auto simp: range_of_def)
  have "\<forall>f \<in> set (live_blocks ?a'). 0 < unat (fb_size f)"
    using ok z z1 sz unfolding live by (auto simp: al_ok_def lb)
  then have "al_ok n ?a'"
    using ok fl fl' c1 n s1 len s_def by (auto simp: al_ok_def)
  then show ?thesis using e fl' by blast
qed

interpretation mc: block_pool mc_malloc "\<lambda>a b. mc_free a (word_of_nat b)" free_list al_ok
proof
  show "al_ok n p \<Longrightarrow> distinct (free_list p) \<and> set (free_list p) \<subseteq> {..<n}" for n p
    by (simp add: al_ok_def)
qed (rule mc_malloc_first mc_malloc_empty mc_free_ok; assumption)+

lemma init_mc_allocator_ok:
  assumes "0 < n" and "n < 2 ^ 31" and "length blocks = n"
  shows "\<exists>a. init_mc_allocator blocks (word_of_nat n) = Some a \<and> al_ok n a \<and> free_list a = [0..<n]"
proof -
  have u: "unat (word_of_nat n :: u32) = n" using assms(2) by (simp add: unat_of_nat take_bit_nat_eq_self)
  let ?a = "\<lparr>al_stack = \<lparr>st_freeblocks = blocks[0 := \<lparr>fb_start_idx = 0, fb_size = word_of_nat n\<rparr>],
      st_stack_size = 1, st_max_stack_size = word_of_nat n\<rparr>, al_free_count = word_of_nat n\<rparr>"
  have "init_mc_allocator blocks (word_of_nat n) = Some ?a"
    using assms u by (simp add: init_mc_allocator_def push_mc_freeblock_stack_def init_mc_freeblock_stack_def
        word_less_nat_alt mem_simps)
  moreover have "live_blocks ?a = [\<lparr>fb_start_idx = 0, fb_size = word_of_nat n\<rparr>]"
    using assms by (cases blocks) (auto simp: live_blocks_def)
  ultimately show ?thesis using assms u by (auto simp: al_ok_def free_list_def range_of_def)
qed

section \<open>Properties\<close>

text \<open>C33. The allocator never gives out a block twice. Starting from an allocator of \<open>n\<close> blocks,
  whatever blocks a client asks for and gives back (each one it holds, once), no access is out of
  bounds, the stack of free ranges never overflows, the blocks held are distinct blocks of the pool
  and \<open>free_count\<close> is the number of the others.\<close>

theorem allocator_partitions_blocks:
  assumes "0 < n" and "n < 2 ^ 31" and "length blocks = n"
  shows "\<exists>a a' held. init_mc_allocator blocks (word_of_nat n) = Some a \<and>
    pool_run mc_malloc (\<lambda>a b. mc_free a (word_of_nat b)) ops (a, []) = Some (a', held) \<and>
    distinct held \<and> set held \<subseteq> {..<n} \<and> unat (al_free_count a') + length held = n"
proof -
  obtain a where a: "init_mc_allocator blocks (word_of_nat n) = Some a" "al_ok n a" "free_list a = [0..<n]"
    using init_mc_allocator_ok [OF assms] by blast
  obtain a' held where r: "pool_run mc_malloc (\<lambda>a b. mc_free a (word_of_nat b)) ops (a, []) = Some (a', held)"
    "al_ok n a'" "distinct (held @ free_list a')" "set (held @ free_list a') = {..<n}"
    using mc.run_partitions [OF a(2), of "[]" ops] a(3) by (auto simp: atLeast0LessThan)
  have "length (held @ free_list a') = n" using distinct_card [OF r(3)] r(4) by simp
  then show ?thesis using a(1) r by (auto simp: al_ok_def)
qed

definition no_block :: mc_freeblock where
  "no_block = \<lparr>fb_start_idx = 0, fb_size = 0\<rparr>"

theorem allocator_partitions_blocks_witness:
  "\<exists>a a' held. init_mc_allocator (replicate 3 no_block) (word_of_nat 3) = Some a \<and>
    pool_run mc_malloc (\<lambda>a b. mc_free a (word_of_nat b)) [Get, Get, Put 1, Get, Get, Get] (a, []) = Some (a', held) \<and>
    distinct held \<and> unat (al_free_count a') + length held = 3"
  using allocator_partitions_blocks [of 3 "replicate 3 no_block" "[Get, Get, Put 1, Get, Get, Get]"]
  by (simp del: pool_run.simps) blast

end
