(* ===== verification/PhaseTable.thy ===== *)
theory PhaseTable
  imports SizedList
begin

text \<open>
  The phase table of \<^verbatim>\<open>mc_experiments.c\<close>: up to 64 entries of a fixed pool, a bitmap of the free
  entries and a linked list of the used ones, the most recent first. The list is represented by the
  indices of its nodes. \<open>1 << i\<close> is a shift of an \<open>int\<close>, undefined for \<open>i \<ge> 31\<close>.
\<close>

section \<open>State and operations\<close>

record 'a phase_table =
  pt_phases :: "nat list"
  pt_nr_phases :: int
  pt_max_phases :: nat
  pt_phase_pool :: "'a list"
  pt_bitmap :: u64

definition int_bit :: "nat \<Rightarrow> u64 option" where
  "int_bit i = (if i < 31 then Some (push_bit i 1) else None)"

text \<open>\<open>alloc\<close> gives the pool its initial (uninitialised) contents or fails; the two flags say
  whether the other allocations succeed. The inner \<open>None\<close> is NULL.\<close>

definition create_phase_table ::
  "(nat \<Rightarrow> 'a list option) \<Rightarrow> bool \<Rightarrow> bool \<Rightarrow> u32 \<Rightarrow> 'a phase_table option option" where
  "create_phase_table alloc node_ok table_ok max_phases =
     (if unat max_phases > 64 then Some None
      else case alloc (unat max_phases) of
          None \<Rightarrow> Some None
        | Some pool \<Rightarrow>
            if \<not> node_ok \<or> \<not> table_ok then Some None
            else do {
              bitmap \<leftarrow> (if unat max_phases = 64 then Some (NOT 0)
                         else do { b \<leftarrow> int_bit (unat max_phases); Some (b - 1) });
              Some (Some \<lparr>pt_phases = [], pt_nr_phases = 0, pt_max_phases = unat max_phases,
                          pt_phase_pool = pool, pt_bitmap = bitmap\<rparr>)
            })"

text \<open>The search loop: the least similarity so far and its node, with the exit on 0.\<close>

fun closest :: "('a \<Rightarrow> int) \<Rightarrow> 'a list \<Rightarrow> nat list \<Rightarrow> int \<Rightarrow> nat option \<Rightarrow> (int \<times> nat option) option" where
  "closest sim pool [] sim_min selected = Some (sim_min, selected)"
| "closest sim pool (p # ps) sim_min selected = do {
     d \<leftarrow> rd pool p;
     let sim_test = sim d;
     if sim_test < sim_min
     then (if sim_test = 0 then Some (sim_test, Some p) else closest sim pool ps sim_test (Some p))
     else closest sim pool ps sim_min selected
   }"

text \<open>The result is the data, the similarity and the index; the inner \<open>None\<close> is NULL.\<close>

definition get_phase_from_table ::
  "('a \<Rightarrow> 'a \<Rightarrow> 'p \<Rightarrow> int) \<Rightarrow> 'a phase_table \<Rightarrow> 'a \<Rightarrow> 'p \<Rightarrow> ('a \<times> int \<times> nat) option option" where
  "get_phase_from_table compare table key_phase priv_data = do {
     (sim_min, selected) \<leftarrow> closest (\<lambda>d. compare d key_phase priv_data) (pt_phase_pool table)
        (pt_phases table) 2147483647 None;
     case selected of
       None \<Rightarrow> Some None
     | Some i \<Rightarrow> do { d \<leftarrow> rd (pt_phase_pool table) i; Some (Some (d, sim_min, i)) }
   }"

definition ENOENT :: int where "ENOENT = 2"

definition promote_table_entry :: "'a phase_table \<Rightarrow> int \<Rightarrow> ('a phase_table \<times> int) option" where
  "promote_table_entry table index =
     (if index < 0 \<or> index \<ge> int (pt_max_phases table) then Some (table, - ENOENT)
      else do {
        b \<leftarrow> int_bit (nat index);
        if b AND pt_bitmap table \<noteq> 0 then Some (table, - ENOENT)
        else if pt_phases table \<noteq> [] \<and> hd (pt_phases table) = nat index then Some (table, 0)
        else if nat index \<in> set (pt_phases table)
        then Some (table\<lparr>pt_phases := nat index # remove1 (nat index) (pt_phases table)\<rparr>, 0)
        else None
      })"

text \<open>The loop of \<open>get_free_phase_loc\<close>; it counts up to \<open>max_phases\<close>.\<close>

function free_loop :: "nat \<Rightarrow> u64 \<Rightarrow> nat \<Rightarrow> nat option" where
  "free_loop max_phases bitmap i =
     (if i < max_phases
      then do { b \<leftarrow> int_bit i;
                if b AND bitmap = 0 then free_loop max_phases bitmap (Suc i) else Some i }
      else Some i)"
  by pat_completeness auto
termination by (relation "measure (\<lambda>(m, _, i). m - i)") auto

declare free_loop.simps [simp del]

definition get_free_phase_loc :: "'a phase_table \<Rightarrow> nat option option" where
  "get_free_phase_loc table =
     (if pt_bitmap table = 0 then Some None
      else do {
        i \<leftarrow> free_loop (pt_max_phases table) (pt_bitmap table) 0;
        Some (if i = pt_max_phases table then None else Some i)
      })"

text \<open>The result names the entry whose data is returned. Copying the phase of an empty full table
  (\<open>max_phases = 0\<close>) goes through the list head and is undefined.\<close>

definition insert_phase_in_table :: "'a phase_table \<Rightarrow> 'a \<Rightarrow> ('a phase_table \<times> nat) option" where
  "insert_phase_in_table table phase = do {
     loc \<leftarrow> get_free_phase_loc table;
     (table, i) \<leftarrow> (case loc of
         None \<Rightarrow> (if pt_phases table = [] then None else Some (table, last (pt_phases table)))
       | Some i \<Rightarrow> do {
           b \<leftarrow> int_bit i;
           Some (table\<lparr>pt_bitmap := pt_bitmap table AND NOT b, pt_nr_phases := pt_nr_phases table + 1,
                       pt_phases := i # pt_phases table\<rparr>, i)
         });
     pool \<leftarrow> wr (pt_phase_pool table) i phase;
     Some (table\<lparr>pt_phase_pool := pool\<rparr>, i)
   }"

section \<open>Invariant\<close>

definition pt_ok :: "'a phase_table \<Rightarrow> bool" where
  "pt_ok t \<longleftrightarrow> 0 < pt_max_phases t \<and> pt_max_phases t < 31 \<and> length (pt_phase_pool t) = pt_max_phases t \<and>
     distinct (pt_phases t) \<and> (\<forall>i. i \<in> set (pt_phases t) \<longleftrightarrow> i < pt_max_phases t \<and> \<not> bit (pt_bitmap t) i) \<and>
     (\<forall>i. bit (pt_bitmap t) i \<longrightarrow> i < pt_max_phases t) \<and> pt_nr_phases t = int (length (pt_phases t))"

text \<open>What a client sees: the used entries, the most recent first.\<close>

definition entries :: "'a phase_table \<Rightarrow> (nat \<times> 'a) list" where
  "entries t = map (\<lambda>i. (i, pt_phase_pool t ! i)) (pt_phases t)"

lemma int_bit_and: "i < 31 \<Longrightarrow> int_bit i = Some (push_bit i 1) \<and> (push_bit i 1 AND b = 0 \<longleftrightarrow> \<not> bit (b :: u64) i)"
  by (simp add: int_bit_def bit_iff_and_push_bit_not_eq_0 and.commute)

lemma free_loop_eq:
  assumes "m < 31"
  shows "i \<le> m \<Longrightarrow> \<exists>j. free_loop m b i = Some j \<and> i \<le> j \<and> j \<le> m \<and>
    (\<forall>k. i \<le> k \<and> k < j \<longrightarrow> \<not> bit b k) \<and> (j < m \<longrightarrow> bit b j)"
proof (induction "m - i" arbitrary: i)
  case 0
  then show ?case by (subst free_loop.simps) auto
next
  case (Suc d)
  then have im: "i < m" by simp
  with assms have ib: "int_bit i = Some (push_bit i 1)" "push_bit i 1 AND b = 0 \<longleftrightarrow> \<not> bit b i"
    using int_bit_and [of i b] by simp_all
  show ?case
  proof (cases "bit b i")
    case True
    then show ?thesis using im ib by (subst free_loop.simps) auto
  next
    case False
    from Suc have "\<exists>j. free_loop m b (Suc i) = Some j \<and> Suc i \<le> j \<and> j \<le> m \<and>
      (\<forall>k. Suc i \<le> k \<and> k < j \<longrightarrow> \<not> bit b k) \<and> (j < m \<longrightarrow> bit b j)" by (intro Suc.hyps) simp_all
    then obtain j where j: "free_loop m b (Suc i) = Some j" "Suc i \<le> j" "j \<le> m"
      "\<forall>k. Suc i \<le> k \<and> k < j \<longrightarrow> \<not> bit b k" "j < m \<longrightarrow> bit b j" by blast
    have "\<forall>k. i \<le> k \<and> k < j \<longrightarrow> \<not> bit b k" using j(4) False by (metis Suc_leI le_neq_implies_less)
    then show ?thesis using j im ib False by (subst free_loop.simps) auto
  qed
qed

lemma get_free_eq:
  assumes ok: "pt_ok t"
  shows "get_free_phase_loc t = Some (if length (pt_phases t) = pt_max_phases t then None
           else Some (LEAST i. i < pt_max_phases t \<and> i \<notin> set (pt_phases t)))"
proof -
  let ?m = "pt_max_phases t" and ?b = "pt_bitmap t" and ?P = "\<lambda>i. i < pt_max_phases t \<and> i \<notin> set (pt_phases t)"
  have P: "?P i \<longleftrightarrow> bit ?b i" for i using ok by (auto simp: pt_ok_def)
  have sub: "set (pt_phases t) \<subseteq> {..<?m}" using ok by (auto simp: pt_ok_def)
  have card: "length (pt_phases t) = card (set (pt_phases t))" using ok by (simp add: pt_ok_def distinct_card)
  have full: "length (pt_phases t) = ?m \<longleftrightarrow> (\<forall>i. \<not> bit ?b i)"
  proof
    assume "length (pt_phases t) = ?m"
    then have "set (pt_phases t) = {..<?m}" using card sub by (metis card_lessThan card_subset_eq finite_lessThan)
    then show "\<forall>i. \<not> bit ?b i" using P by blast
  next
    assume "\<forall>i. \<not> bit ?b i"
    then have "set (pt_phases t) = {..<?m}" using P sub by blast
    then show "length (pt_phases t) = ?m" using card by simp
  qed
  obtain j where j: "free_loop ?m ?b 0 = Some j" "j \<le> ?m" "\<forall>k < j. \<not> bit ?b k" "j < ?m \<longrightarrow> bit ?b j"
    using free_loop_eq [of ?m 0 ?b] ok by (auto simp: pt_ok_def)
  show ?thesis
  proof (cases "\<forall>i. \<not> bit ?b i")
    case True
    then have "?b = 0" by (intro bit_word_eqI) simp
    then show ?thesis using full True by (simp add: get_free_phase_loc_def)
  next
    case False
    then have nz: "?b \<noteq> 0" by auto
    have jm: "j < ?m" using False j(2,3) P by (metis le_neq_implies_less)
    have "(LEAST i. ?P i) = j"
      using jm j(3,4) P by (intro Least_equality) (auto simp: not_less [symmetric])
    then show ?thesis using nz jm j(1) full False by (simp add: get_free_phase_loc_def)
  qed
qed

lemma butlast_map_upd:
  assumes "distinct xs" and "xs \<noteq> []" and "last xs < length pool"
  shows "map (\<lambda>i. (i, pool[last xs := y] ! i)) xs = butlast (map (\<lambda>i. (i, pool ! i)) xs) @ [(last xs, y)]"
proof -
  obtain ys z where "xs = ys @ [z]" using assms(2) by (cases xs rule: rev_cases) auto
  moreover have "pool[z := y] ! x = pool ! x" if "x \<in> set ys" for x
    using that assms(1) calculation by (cases "x = z") auto
  ultimately show ?thesis using assms by (auto intro!: map_cong)
qed

section \<open>Properties\<close>

text \<open>C32. Inserting a phase in a well-formed table of fewer than 31 entries always succeeds. A table with
  room puts it at the front of the list, in the free entry with the least index, and keeps the other
  entries; a full table overwrites the last entry of the list in place. (The code's comments say that
  newer phases go to the beginning; in a full table the new phase keeps the place of the evicted one,
  so it is the first to be evicted next unless it is promoted.)\<close>

theorem phase_insertion:
  assumes ok: "pt_ok t"
  shows "\<exists>t' i. insert_phase_in_table t phase = Some (t', i) \<and> pt_ok t' \<and>
    (if length (entries t) < pt_max_phases t
     then i = (LEAST i. i < pt_max_phases t \<and> i \<notin> set (pt_phases t)) \<and>
          entries t' = (i, phase) # entries t
     else i = last (pt_phases t) \<and> entries t' = butlast (entries t) @ [(i, phase)])"
proof -
  note k = ok [unfolded pt_ok_def]
  have sub: "set (pt_phases t) \<subseteq> {..<pt_max_phases t}" using k by auto
  have le: "length (pt_phases t) \<le> pt_max_phases t"
    using card_mono [OF _ sub] distinct_card [of "pt_phases t"] k by simp
  show ?thesis
  proof (cases "length (pt_phases t) = pt_max_phases t")
    case True
    then have ne: "pt_phases t \<noteq> []" using k by auto
    then have l: "last (pt_phases t) < pt_max_phases t" using sub last_in_set by blast
    let ?t' = "t\<lparr>pt_phase_pool := (pt_phase_pool t)[last (pt_phases t) := phase]\<rparr>"
    have "insert_phase_in_table t phase = Some (?t', last (pt_phases t))"
      using get_free_eq [OF ok] True ne l k by (simp add: insert_phase_in_table_def mem_simps)
    moreover have "pt_ok ?t'" using k by (simp add: pt_ok_def)
    moreover have "entries ?t' = butlast (entries t) @ [(last (pt_phases t), phase)]"
      using butlast_map_upd [of "pt_phases t" "pt_phase_pool t" phase] ne l k by (simp add: entries_def)
    ultimately show ?thesis using True by (simp add: entries_def)
  next
    case False
    define i where "i = (LEAST i. i < pt_max_phases t \<and> i \<notin> set (pt_phases t))"
    have "\<exists>i. i < pt_max_phases t \<and> i \<notin> set (pt_phases t)"
    proof (rule ccontr)
      assume "\<nexists>i. i < pt_max_phases t \<and> i \<notin> set (pt_phases t)"
      then have "set (pt_phases t) = {..<pt_max_phases t}" using sub by auto
      then show False using False distinct_card [of "pt_phases t"] k by simp
    qed
    then have i: "i < pt_max_phases t" "i \<notin> set (pt_phases t)" unfolding i_def by (metis (mono_tags, lifting) LeastI_ex)+
    have bi: "int_bit i = Some (push_bit i 1)" using int_bit_and [of i 0] i(1) k by simp
    let ?t' = "t\<lparr>pt_bitmap := pt_bitmap t AND NOT (push_bit i 1), pt_nr_phases := pt_nr_phases t + 1,
                 pt_phases := i # pt_phases t, pt_phase_pool := (pt_phase_pool t)[i := phase]\<rparr>"
    have e: "insert_phase_in_table t phase = Some (?t', i)"
    proof -
      have "get_free_phase_loc t = Some (Some i)" using get_free_eq [OF ok] False by (simp only: i_def) simp
      then show ?thesis using i k bi by (simp add: insert_phase_in_table_def mem_simps)
    qed
    have b: "bit (pt_bitmap t AND NOT (push_bit i 1)) j \<longleftrightarrow> bit (pt_bitmap t) j \<and> j \<noteq> i" for j
      by (auto simp: bit_simps dest: bit_imp_le_length)
    have "pt_ok ?t'" using k i b by (auto simp: pt_ok_def)
    moreover have "entries ?t' = (i, phase) # entries t"
    proof -
      have "(pt_phase_pool t)[i := phase] ! x = pt_phase_pool t ! x" if "x \<in> set (pt_phases t)" for x
        using that i(2) by (metis nth_list_update_neq)
      then show ?thesis using i(1) k by (simp add: entries_def)
    qed
    ultimately show ?thesis using e False le by (simp add: entries_def i_def)
  qed
qed

definition sample_table :: "int phase_table" where
  "sample_table = \<lparr>pt_phases = [0, 1], pt_nr_phases = 2, pt_max_phases = 2, pt_phase_pool = [10, 20],
     pt_bitmap = 0\<rparr>"

lemma sample_table_ok: "pt_ok sample_table"
  by (auto simp: pt_ok_def sample_table_def)

theorem phase_insertion_witness:
  "\<exists>t'. insert_phase_in_table sample_table 30 = Some (t', 1) \<and> entries t' = [(0, 10), (1, 30)]"
  using phase_insertion [OF sample_table_ok, of 30] by (auto simp: entries_def sample_table_def)

lemma first_least_Cons:
  "first_least f ps q \<Longrightarrow> f q < f p \<Longrightarrow> first_least f (p # ps) q"
  "\<forall>q \<in> set ps. f p \<le> f q \<Longrightarrow> first_least f (p # ps) p"
proof -
  assume "first_least f ps q" "f q < f p"
  then obtain as bs where "ps = as @ q # bs" "\<forall>a \<in> set as. f q < f a" "\<forall>b \<in> set bs. f q \<le> f b"
    by (auto simp: first_least_def)
  with \<open>f q < f p\<close> have "p # ps = (p # as) @ q # bs" "\<forall>a \<in> set (p # as). f q < f a" "\<forall>b \<in> set bs. f q \<le> f b"
    by simp_all
  then show "first_least f (p # ps) q" unfolding first_least_def by blast
next
  assume "\<forall>q \<in> set ps. f p \<le> f q"
  then show "first_least f (p # ps) p" unfolding first_least_def
    by (intro exI [of _ "[]"] exI [of _ ps]) simp
qed

lemma closest_eq:
  fixes sim pool
  defines "f \<equiv> \<lambda>p. sim (pool ! p)"
  assumes "\<forall>p \<in> set ps. p < length pool \<and> 0 \<le> f p"
  shows "\<exists>m s. closest sim pool ps b sel = Some (m, s) \<and>
    (if \<exists>p \<in> set ps. f p < b then \<exists>p. s = Some p \<and> m = f p \<and> m < b \<and> first_least f ps p
     else m = b \<and> s = sel)"
  using assms(2)
proof (induction ps arbitrary: b sel)
  case Nil
  then show ?case by simp
next
  case (Cons p ps)
  have p: "rd pool p = Some (pool ! p)" "0 \<le> f p" using Cons.prems by (simp_all add: mem_simps)
  have ps: "\<forall>q \<in> set ps. q < length pool \<and> 0 \<le> f q" using Cons.prems by simp
  note IH = Cons.IH [OF ps]
  show ?case
  proof (cases "f p < b")
    case False
    obtain m s where ms: "closest sim pool ps b sel = Some (m, s)"
      "if \<exists>p \<in> set ps. f p < b then \<exists>p. s = Some p \<and> m = f p \<and> m < b \<and> first_least f ps p
       else m = b \<and> s = sel" using IH [of b sel] by blast
    have "closest sim pool (p # ps) b sel = Some (m, s)" using p False ms(1) by (simp add: f_def)
    moreover have "if \<exists>p \<in> set (p # ps). f p < b
        then \<exists>q. s = Some q \<and> m = f q \<and> m < b \<and> first_least f (p # ps) q else m = b \<and> s = sel"
    proof (cases "\<exists>p \<in> set ps. f p < b")
      case True
      then obtain q where q: "s = Some q" "m = f q" "m < b" "first_least f ps q" using ms(2) by auto
      then have "first_least f (p # ps) q" using False by (intro first_least_Cons(1)) simp_all
      then show ?thesis using q True by auto
    next
      case no: False
      then show ?thesis using ms(2) False by auto
    qed
    ultimately show ?thesis by blast
  next
    case True
    show ?thesis
    proof (cases "f p = 0")
      case z: True
      have "\<forall>q \<in> set ps. f p \<le> f q" using ps z by auto
      then have "first_least f (p # ps) p" by (rule first_least_Cons(2))
      then show ?thesis using p True z by (auto simp: f_def)
    next
      case nz: False
      obtain m s where ms: "closest sim pool ps (f p) (Some p) = Some (m, s)"
        "if \<exists>q \<in> set ps. f q < f p then \<exists>q. s = Some q \<and> m = f q \<and> m < f p \<and> first_least f ps q
         else m = f p \<and> s = Some p" using IH [of "f p" "Some p"] by blast
      have c: "closest sim pool (p # ps) b sel = Some (m, s)" using p True nz ms(1) by (simp add: f_def)
      have "\<exists>q. s = Some q \<and> m = f q \<and> m < b \<and> first_least f (p # ps) q"
      proof (cases "\<exists>q \<in> set ps. f q < f p")
        case lt: True
        then obtain q where "s = Some q" "m = f q" "m < f p" "first_least f ps q" using ms(2) by auto
        then show ?thesis using True by (auto intro: first_least_Cons(1))
      next
        case ge: False
        then have "m = f p" "s = Some p" "\<forall>q \<in> set ps. f p \<le> f q" using ms(2) by auto
        then show ?thesis using True first_least_Cons(2) [of ps f p] by auto
      qed
      then show ?thesis using c True by auto
    qed
  qed
qed

text \<open>Looking a phase up in a non-empty table, with a comparison that gives distances from 0 to below
  \<open>INT_MAX\<close>, returns an entry of the table with its data and distance. No entry is nearer to the key, and
  the entries before it in the list (the more recent ones) are all farther; the early exit on an exact
  match does not change the answer.\<close>

theorem phase_lookup_nearest:
  assumes ok: "pt_ok t" and ne: "entries t \<noteq> []"
    and d: "\<And>x. 0 \<le> compare x key priv \<and> compare x key priv < 2147483647"
  shows "\<exists>as x i bs. get_phase_from_table compare t key priv = Some (Some (x, compare x key priv, i)) \<and>
    entries t = as @ (i, x) # bs \<and> (\<forall>(_, y) \<in> set as. compare x key priv < compare y key priv) \<and>
    (\<forall>(_, y) \<in> set bs. compare x key priv \<le> compare y key priv)"
proof -
  let ?pool = "pt_phase_pool t" and ?ps = "pt_phases t"
  let ?f = "\<lambda>p. compare (?pool ! p) key priv"
  have len: "\<forall>p \<in> set ?ps. p < length ?pool" using ok by (auto simp: pt_ok_def)
  have "\<exists>p \<in> set ?ps. ?f p < 2147483647" using ne d by (cases ?ps) (auto simp: entries_def)
  then obtain p where c: "closest (\<lambda>d. compare d key priv) ?pool ?ps 2147483647 None = Some (?f p, Some p)"
    and fl: "first_least ?f ?ps p"
    using closest_eq [of ?ps ?pool "\<lambda>d. compare d key priv" 2147483647 None] len d by auto
  obtain as bs where s: "?ps = as @ p # bs" "\<forall>a \<in> set as. ?f p < ?f a" "\<forall>b \<in> set bs. ?f p \<le> ?f b"
    using fl by (auto simp: first_least_def)
  have "rd ?pool p = Some (?pool ! p)" using len s(1) by (simp add: mem_simps)
  then have g: "get_phase_from_table compare t key priv = Some (Some (?pool ! p, ?f p, p))"
    using c by (simp add: get_phase_from_table_def)
  let ?e = "map (\<lambda>i. (i, ?pool ! i))"
  have "entries t = ?e as @ (p, ?pool ! p) # ?e bs" by (simp add: entries_def s(1))
  moreover have "\<forall>(_, y) \<in> set (?e as). ?f p < compare y key priv"
    "\<forall>(_, y) \<in> set (?e bs). ?f p \<le> compare y key priv" using s(2,3) by auto
  ultimately show ?thesis using g by blast
qed

theorem phase_lookup_nearest_witness:
  "\<exists>x i. get_phase_from_table (\<lambda>a b _. min 100 \<bar>a - b\<bar>) sample_table 18 () =
     Some (Some (x, min 100 \<bar>x - 18\<bar>, i)) \<and> (i, x) \<in> set (entries sample_table)"
proof -
  have "entries sample_table \<noteq> []" by (simp add: entries_def sample_table_def)
  from phase_lookup_nearest [OF sample_table_ok this, of "\<lambda>a b _. min 100 \<bar>a - b\<bar>" 18 "()"]
  show ?thesis by fastforce
qed

text \<open>Promoting an entry moves it to the front of the list and keeps the others in order; an index out
  of range or of a free entry is refused with \<open>ENOENT\<close> and changes nothing.\<close>

theorem phase_promotion:
  assumes ok: "pt_ok t"
  shows "\<exists>t' r. promote_table_entry t index = Some (t', r) \<and> pt_ok t' \<and>
    (if 0 \<le> index \<and> nat index \<in> set (pt_phases t)
     then r = 0 \<and> entries t' = (nat index, pt_phase_pool t ! nat index) #
            filter (\<lambda>(i, _). i \<noteq> nat index) (entries t)
     else r = - ENOENT \<and> t' = t)"
proof -
  note k = ok [unfolded pt_ok_def]
  let ?i = "nat index"
  show ?thesis
  proof (cases "0 \<le> index \<and> ?i \<in> set (pt_phases t)")
    case False
    have "promote_table_entry t index = Some (t, - ENOENT)"
    proof (cases "index < 0 \<or> index \<ge> int (pt_max_phases t)")
      case in_range: False
      then have i: "?i < pt_max_phases t" by auto
      with False in_range k have "bit (pt_bitmap t) ?i" by auto
      then show ?thesis using in_range i k int_bit_and [of ?i "pt_bitmap t"]
        by (auto simp: promote_table_entry_def)
    qed (simp add: promote_table_entry_def)
    then show ?thesis using False ok by auto
  next
    case True
    let ?t' = "t\<lparr>pt_phases := ?i # remove1 ?i (pt_phases t)\<rparr>"
    have i: "?i < pt_max_phases t" "\<not> bit (pt_bitmap t) ?i" "\<not> index < 0" "\<not> index \<ge> int (pt_max_phases t)"
      using True k by auto
    have b: "int_bit ?i = Some (push_bit ?i 1)" "push_bit ?i 1 AND pt_bitmap t = 0"
      using int_bit_and [of ?i "pt_bitmap t"] i k by simp_all
    have e: "promote_table_entry t index = Some (?t', 0)"
    proof (cases "hd (pt_phases t) = ?i")
      case h: True
      then have "?i # remove1 ?i (pt_phases t) = pt_phases t" using True by (cases "pt_phases t") auto
      then show ?thesis using i(3,4) b h True by (cases t) (auto simp: promote_table_entry_def)
    next
      case h: False
      then show ?thesis using i(3,4) b True by (simp add: promote_table_entry_def)
    qed
    have r: "remove1 ?i (pt_phases t) = filter (\<lambda>j. j \<noteq> ?i) (pt_phases t)"
    proof -
      have "remove1 ?i (pt_phases t) = removeAll ?i (pt_phases t)"
        using k by (simp add: distinct_remove1_removeAll)
      then show ?thesis by (auto simp: removeAll_filter_not_eq intro!: filter_cong)
    qed
    have "length (pt_phases t) > 0" using True by auto
    then have "pt_ok ?t'" using k True by (auto simp: pt_ok_def length_remove1 distinct_remove1)
    moreover have "entries ?t' = (?i, pt_phase_pool t ! ?i) # filter (\<lambda>(j, _). j \<noteq> ?i) (entries t)"
      by (simp add: entries_def r filter_map comp_def)
    ultimately show ?thesis using e True by auto
  qed
qed

theorem phase_promotion_witness:
  "\<exists>t'. promote_table_entry sample_table 1 = Some (t', 0) \<and> entries t' = [(1, 20), (0, 10)]"
  using phase_promotion [OF sample_table_ok, of 1] by (auto simp: entries_def sample_table_def)

end
