(* ===== verification/CachePartSet.thy ===== *)
theory CachePartSet
  imports SizedList HwEvents
begin

text \<open>
  Sets of last-level-cache partitions (\<^verbatim>\<open>cache_part_set.c\<close>, \<^verbatim>\<open>cache_part.h\<close>). A partition is an interval
  of cache ways with a class of service (CLOS); the partitions in use are kept in a list in the
  order of their ways. Partitions are named by their index in the pool and applications by their
  index in the heap of applications, which the model keeps in the same record as the set, together
  with the machine registers the bitmasks are written to.
\<close>

section \<open>State\<close>

record cat_cache_part_t =
  cp_low_way :: u32
  cp_high_way :: u32
  cp_nr_ways :: u32
  cp_clos_id :: int
  cp_part_id :: int
  cp_part_index :: int
  cp_part_mask :: u32
  cp_part_old_mask :: u32
  cp_nr_apps :: u32
  cp_has_extra_way :: bool
  cp_bias :: int
  cp_assigned_applications :: "nat sized_list"
  cp_nr_light_sharing :: int

record intel_cat_support_t =
  cat_nr_cos_available :: u32
  cat_cbm_length :: u32
  cat_cbm_mask :: u32

record app_t =
  app_cat_partition :: "nat option"
  app_last_partition :: int
  app_externally_managed_cos_id :: bool
  app_cos_id :: u32
  app_last_llc_cbm :: u64

record cache_part_set_t =
  ps_assigned_partitions :: "nat sized_list"
  ps_free_partitions :: "nat sized_list"
  ps_defered_cos_assignment :: "nat sized_list"
  ps_partition_pool :: "cat_cache_part_t list"
  ps_default_partition :: "nat option"
  ps_nr_bouncing_ways :: u32
  ps_cat_support :: intel_cat_support_t
  ps_apps :: "app_t list"
  ps_msr :: msr_file

definition IA32_LLC_MASK_0 :: u32 where "IA32_LLC_MASK_0 = 0xc90"

text \<open>The capacity bitmask register of a CLOS; the result code is not looked at by the callers
  modelled here.\<close>

definition intel_cat_set_capacity_bitmask ::
  "msr_file \<Rightarrow> intel_cat_support_t \<Rightarrow> u32 \<Rightarrow> u32 \<Rightarrow> msr_file \<times> int" where
  "intel_cat_set_capacity_bitmask m cat_support idx msk =
     (if idx \<ge> cat_nr_cos_available cat_support then (m, -22)
      else (m(IA32_LLC_MASK_0 + idx := ucast (msk AND cat_cbm_mask cat_support)), 0))"

definition set_cbm :: "int \<Rightarrow> u32 \<Rightarrow> cache_part_set_t \<Rightarrow> cache_part_set_t" where
  "set_cbm clos msk s = s\<lparr>ps_msr :=
     fst (intel_cat_set_capacity_bitmask (ps_msr s) (ps_cat_support s) (word_of_int clos) msk)\<rparr>"

text \<open>\<open>((1 << nr_ways) - 1) << low_way\<close>, of type \<open>int\<close>.\<close>

definition determine_part_mask :: "cat_cache_part_t \<Rightarrow> u32 option" where
  "determine_part_mask part =
     (let n = unat (cp_nr_ways part); l = unat (cp_low_way part)
      in if n < 31 \<and> l < 32 \<and> (2 ^ n - 1) * 2 ^ l < (2 ^ 31 :: nat)
         then Some (push_bit l (push_bit n 1 - 1)) else None)"

definition part_at :: "cache_part_set_t \<Rightarrow> nat \<Rightarrow> cat_cache_part_t option" where
  "part_at s i = rd (ps_partition_pool s) i"

definition put_part :: "nat \<Rightarrow> cat_cache_part_t \<Rightarrow> cache_part_set_t \<Rightarrow> cache_part_set_t option" where
  "put_part i part s = do {
     pool \<leftarrow> wr (ps_partition_pool s) i part;
     Some (s\<lparr>ps_partition_pool := pool\<rparr>)
   }"

section \<open>Initialisation\<close>

definition init_part :: "intel_cat_support_t \<Rightarrow> nat \<Rightarrow> cat_cache_part_t option" where
  "init_part cat_support i = do {
     let part = \<lparr>cp_low_way = 0, cp_high_way = cat_cbm_length cat_support - 1,
                 cp_nr_ways = cat_cbm_length cat_support, cp_clos_id = int i + 1, cp_part_id = -1,
                 cp_part_index = int i, cp_part_mask = 0, cp_part_old_mask = 0, cp_nr_apps = 0,
                 cp_has_extra_way = False, cp_bias = 0, cp_assigned_applications = init_sized_list,
                 cp_nr_light_sharing = 0\<rparr>;
     msk \<leftarrow> determine_part_mask part;
     Some (part\<lparr>cp_part_mask := msk, cp_part_old_mask := msk\<rparr>)
   }"

text \<open>\<open>pool_ok\<close>: the allocation of the pool succeeds. The loop bound is \<open>int\<close> against
  \<open>unsigned\<close>, so a processor without classes of service would make it run past the pool.\<close>

definition init_cache_part_set ::
  "bool \<Rightarrow> cache_part_set_t \<Rightarrow> intel_cat_support_t \<Rightarrow> (cache_part_set_t \<times> int) option" where
  "init_cache_part_set pool_ok s cat_support =
     (if \<not> pool_ok then Some (s, -12)
      else if cat_nr_cos_available cat_support = 0 then None
      else do {
        (pool, free) \<leftarrow> foldM (\<lambda>i (pool, free). do {
            part \<leftarrow> init_part cat_support i;
            free \<leftarrow> insert_sized_list_tail free i;
            Some (pool @ [part], free)
          }) [0..<unat (cat_nr_cos_available cat_support - 1)] ([], init_sized_list);
        Some (s\<lparr>ps_partition_pool := pool, ps_assigned_partitions := init_sized_list,
                ps_free_partitions := free, ps_defered_cos_assignment := init_sized_list,
                ps_nr_bouncing_ways := 0, ps_default_partition := None,
                ps_cat_support := cat_support\<rparr>, 0)
      })"

section \<open>Resizing\<close>

text \<open>\<open>get_random_long()\<close> is an argument. The distance of two neighbours from the fair size is computed
  in \<open>unsigned\<close> arithmetic and stored in an \<open>int\<close>.\<close>

fun gap_loop ::
  "cache_part_set_t \<Rightarrow> u32 \<Rightarrow> nat list \<Rightarrow> int \<Rightarrow> int \<Rightarrow> int \<Rightarrow> int option" where
  "gap_loop s nr_fair_ways (a # b # ns) i hint_id max_val = do {
     part \<leftarrow> part_at s a;
     nxt \<leftarrow> part_at s b;
     let bias = sint (cp_nr_ways part + cp_nr_ways nxt - 2 * nr_fair_ways);
     if bias > max_val then gap_loop s nr_fair_ways (b # ns) (i + 1) i bias
     else gap_loop s nr_fair_ways (b # ns) (i + 1) hint_id max_val
   }"
| "gap_loop s nr_fair_ways _ i hint_id max_val = Some hint_id"

definition suitable_place_for_insertion :: "u64 \<Rightarrow> cache_part_set_t \<Rightarrow> u32 \<Rightarrow> u32 \<Rightarrow> int option" where
  "suitable_place_for_insertion rnd s nr_ways nr_old_partitions =
     (if nr_old_partitions = 0 then None
      else if nr_ways mod nr_old_partitions = 0
      then (if nr_old_partitions = 1 then None
            else Some (uint (rnd mod ucast (nr_old_partitions - 1)) + 1))
      else gap_loop s (nr_ways div nr_old_partitions) (sl_nodes (ps_assigned_partitions s)) 1 (-1) (-1))"

definition reconfigure_partition_gen ::
  "cache_part_set_t \<Rightarrow> nat \<Rightarrow> u32 \<Rightarrow> u32 \<Rightarrow> bool \<Rightarrow> cache_part_set_t option" where
  "reconfigure_partition_gen s i ways_assigned low_way update_hw = do {
     part \<leftarrow> part_at s i;
     let part = part\<lparr>cp_low_way := low_way, cp_high_way := low_way + ways_assigned - 1,
                     cp_nr_ways := ways_assigned\<rparr>;
     msk \<leftarrow> determine_part_mask part;
     s \<leftarrow> put_part i (part\<lparr>cp_part_mask := msk, cp_part_old_mask := msk\<rparr>) s;
     Some (if update_hw then set_cbm (cp_clos_id part) msk s else s)
   }"

definition reconfigure_partition :: "cache_part_set_t \<Rightarrow> nat \<Rightarrow> u32 \<Rightarrow> u32 \<Rightarrow> cache_part_set_t option" where
  "reconfigure_partition s i ways_assigned low_way = reconfigure_partition_gen s i ways_assigned low_way True"

text \<open>The part of the loop bodies that stores the new bounds of a partition.\<close>

definition assign_ways ::
  "bool \<Rightarrow> nat \<Rightarrow> u32 \<Rightarrow> u32 \<Rightarrow> int \<Rightarrow> bool \<Rightarrow> cache_part_set_t \<Rightarrow> cache_part_set_t option" where
  "assign_ways update_hw cur low high i extra_way s = do {
     part \<leftarrow> part_at s cur;
     let part = part\<lparr>cp_low_way := low, cp_high_way := high, cp_nr_ways := high - low + 1,
                     cp_part_id := i, cp_has_extra_way := extra_way, cp_bias := 0\<rparr>;
     msk \<leftarrow> determine_part_mask part;
     s \<leftarrow> put_part cur (part\<lparr>cp_part_mask := msk, cp_part_old_mask := msk\<rparr>) s;
     Some (if update_hw then set_cbm (cp_clos_id part) msk s else s)
   }"

text \<open>Whether the partition at position \<open>i\<close> gets an extra way: first those for the neighbours of the
  change, then the others. The result has the counters that are left.\<close>

definition extra_way ::
  "(int \<Rightarrow> bool) \<Rightarrow> (int \<Rightarrow> bool) \<Rightarrow> int \<Rightarrow> u32 \<Rightarrow> u32 \<Rightarrow> bool \<times> u32 \<times> u32" where
  "extra_way neighbour eligible i nr_extra nr_remaining =
     (if nr_extra > 0 \<and> neighbour i then (True, nr_extra - 1, nr_remaining)
      else if nr_remaining > 0 \<and> eligible i then (True, nr_extra, nr_remaining - 1)
      else (False, nr_extra, nr_remaining))"

fun resize_up ::
  "bool \<Rightarrow> (int \<Rightarrow> bool) \<Rightarrow> (int \<Rightarrow> bool) \<Rightarrow> u32 \<Rightarrow> nat list \<Rightarrow> int \<Rightarrow> u32 \<Rightarrow> u32 \<Rightarrow> u32
     \<Rightarrow> cache_part_set_t \<Rightarrow> cache_part_set_t option" where
  "resize_up hw nb el nr_fair_ways [] i next_available_way nr_extra nr_remaining s = Some s"
| "resize_up hw nb el nr_fair_ways (cur # ns) i next_available_way nr_extra nr_remaining s =
     (let low = next_available_way;
          high = next_available_way + nr_fair_ways - 1;
          (extra, nr_extra, nr_remaining) = extra_way nb el i nr_extra nr_remaining;
          high = (if extra then high + 1 else high)
      in do {
        s \<leftarrow> assign_ways hw cur low high i extra s;
        resize_up hw nb el nr_fair_ways ns (i + 1) (high + 1) nr_extra nr_remaining s
      })"

fun resize_down ::
  "bool \<Rightarrow> (int \<Rightarrow> bool) \<Rightarrow> (int \<Rightarrow> bool) \<Rightarrow> u32 \<Rightarrow> nat list \<Rightarrow> int \<Rightarrow> u32 \<Rightarrow> u32 \<Rightarrow> u32
     \<Rightarrow> cache_part_set_t \<Rightarrow> cache_part_set_t option" where
  "resize_down hw nb el nr_fair_ways [] i next_available_way nr_extra nr_remaining s = Some s"
| "resize_down hw nb el nr_fair_ways (cur # ns) i next_available_way nr_extra nr_remaining s =
     (let high = next_available_way;
          low = next_available_way - nr_fair_ways + 1;
          (extra, nr_extra, nr_remaining) = extra_way nb el i nr_extra nr_remaining;
          low = (if extra then low - 1 else low)
      in do {
        s \<leftarrow> assign_ways hw cur low high i extra s;
        resize_down hw nb el nr_fair_ways ns (i - 1) (low - 1) nr_extra nr_remaining s
      })"

text \<open>How many extra ways go to the neighbours and how many are left.\<close>

definition split_extra :: "bool \<Rightarrow> u32 \<Rightarrow> u32 \<times> u32" where
  "split_extra at_end nr_remaining =
     (if at_end then (0, nr_remaining)
      else let give_away = (if nr_remaining < 2 then nr_remaining else 2)
           in (give_away, nr_remaining - give_away))"

definition deallocate_partition ::
  "cache_part_set_t \<Rightarrow> nat \<Rightarrow> u32 \<Rightarrow> bool \<Rightarrow> cache_part_set_t option" where
  "deallocate_partition s old_part nr_ways update_hw = do {
     part \<leftarrow> part_at s old_part;
     let idx = cp_part_id part;
     let nr_old_partitions = sized_list_length (ps_assigned_partitions s);
     let nr_target_partitions = word_of_nat nr_old_partitions - 1;
     let center = drop_bit 1 nr_ways;
     let val = drop_bit 1 (cp_nr_ways part) + cp_low_way part;
     let ascending = val \<le> center;
     if nr_target_partitions = 0 then do {
       l \<leftarrow> remove_sized_list (ps_assigned_partitions s) old_part;
       Some (s\<lparr>ps_assigned_partitions := l, ps_nr_bouncing_ways := 0\<rparr>)
     } else do {
       let nr_fair_ways = nr_ways div nr_target_partitions;
       let nr_remaining_ways = nr_ways mod nr_target_partitions;
       let s = s\<lparr>ps_nr_bouncing_ways := nr_remaining_ways\<rparr>;
       let (nr_extra, nr_remaining) =
         split_extra (idx = 0 \<or> (word_of_int idx :: u32) = word_of_nat nr_old_partitions - 1) nr_remaining_ways;
       l \<leftarrow> remove_sized_list (ps_assigned_partitions s) old_part;
       let s = s\<lparr>ps_assigned_partitions := l\<rparr>;
       let nb = (\<lambda>i. i = idx \<or> i = idx - 1);
       if ascending
       then resize_up update_hw nb (\<lambda>_. True) nr_fair_ways (sl_nodes l) 0 0 nr_extra nr_remaining s
       else resize_down update_hw nb (\<lambda>_. True) nr_fair_ways (rev (sl_nodes l)) (int nr_old_partitions - 2)
              (nr_ways - 1) nr_extra nr_remaining s
     }
   }"

text \<open>The node the new partition is linked before; past the end of the list it goes to the tail.\<close>

definition link_at_gap :: "nat sized_list \<Rightarrow> nat \<Rightarrow> int \<Rightarrow> int \<Rightarrow> nat sized_list option" where
  "link_at_gap l new_partition gap_id nr_target_partitions =
     (if gap_id = 0 then insert_sized_list_head l new_partition
      else if gap_id \<ge> nr_target_partitions - 1 then insert_sized_list_tail l new_partition
      else insert_before_sized_list l
             (if 0 \<le> gap_id \<and> nat gap_id < length (sl_nodes l) then Some (sl_nodes l ! nat gap_id) else None)
             new_partition)"

text \<open>\<open>gap_id <= (nr_old_partitions > 0x1)\<close>: the comparison (the comment beside it says a division by 2)
  gives 0 or 1.\<close>

definition do_insert_partition ::
  "cache_part_set_t \<Rightarrow> nat \<Rightarrow> u32 \<Rightarrow> u32 \<Rightarrow> int \<Rightarrow> bool \<Rightarrow> cache_part_set_t option" where
  "do_insert_partition s new_partition nr_old_partitions nr_ways gap_id update_hw =
     (let nr_target_partitions = nr_old_partitions + 1 in
      if nr_target_partitions = 0 then None else do {
     let nr_fair_ways = nr_ways div nr_target_partitions;
     let nr_remaining_ways = nr_ways mod nr_target_partitions;
     let s = s\<lparr>ps_nr_bouncing_ways := nr_remaining_ways\<rparr>;
     let l = ps_assigned_partitions s;
     if nr_target_partitions = 1 then do {
       s \<leftarrow> assign_ways update_hw new_partition 0 (nr_fair_ways - 1) 0 False s;
       l \<leftarrow> insert_sized_list_tail l new_partition;
       Some (s\<lparr>ps_assigned_partitions := l\<rparr>)
     } else do {
       let ascending = gap_id \<le> (if nr_old_partitions > 1 then 1 else 0);
       let (nr_extra, nr_remaining) =
         split_extra (gap_id = 0 \<or> (word_of_int gap_id :: u32) = nr_old_partitions) nr_remaining_ways;
       l \<leftarrow> link_at_gap l new_partition gap_id (uint nr_target_partitions);
       let s = s\<lparr>ps_assigned_partitions := l\<rparr>;
       let nb = (\<lambda>i. i = gap_id + 1 \<or> i = gap_id - 1);
       if ascending
       then resize_up update_hw nb (\<lambda>i. i \<noteq> gap_id) nr_fair_ways (sl_nodes l) 0 0 nr_extra nr_remaining s
       else resize_down update_hw nb (\<lambda>i. i \<noteq> gap_id) nr_fair_ways (rev (sl_nodes l))
              (uint nr_target_partitions - 1) (nr_ways - 1) nr_extra nr_remaining s
     }
   })"

definition allocate_new_partition_gen ::
  "u64 \<Rightarrow> cache_part_set_t \<Rightarrow> u32 \<Rightarrow> int \<Rightarrow> bool \<Rightarrow> (cache_part_set_t \<times> nat) option" where
  "allocate_new_partition_gen rnd s nr_ways hint_id update_hw = do {
     let nr_old_partitions = word_of_nat (sized_list_length (ps_assigned_partitions s));
     new_partition \<leftarrow> head_sized_list (ps_free_partitions s);
     fr \<leftarrow> remove_sized_list (ps_free_partitions s) new_partition;
     let s = s\<lparr>ps_free_partitions := fr\<rparr>;
     hint_id \<leftarrow> (if nr_old_partitions < 2 then Some 0
                 else if hint_id = -1 \<or> word_of_int hint_id > nr_old_partitions
                 then suitable_place_for_insertion rnd s nr_ways nr_old_partitions
                 else Some hint_id);
     s \<leftarrow> do_insert_partition s new_partition nr_old_partitions nr_ways hint_id update_hw;
     Some (s, new_partition)
   }"

definition allocate_new_partition ::
  "u64 \<Rightarrow> cache_part_set_t \<Rightarrow> u32 \<Rightarrow> int \<Rightarrow> (cache_part_set_t \<times> nat) option" where
  "allocate_new_partition rnd s nr_ways hint_id = allocate_new_partition_gen rnd s nr_ways hint_id True"

definition allocate_empty_partition :: "cache_part_set_t \<Rightarrow> (cache_part_set_t \<times> nat) option" where
  "allocate_empty_partition s = do {
     new_partition \<leftarrow> head_sized_list (ps_free_partitions s);
     fr \<leftarrow> remove_sized_list (ps_free_partitions s) new_partition;
     part \<leftarrow> part_at s new_partition;
     l \<leftarrow> insert_sized_list_tail (ps_assigned_partitions s) new_partition;
     s \<leftarrow> put_part new_partition (part\<lparr>cp_low_way := 0, cp_high_way := 1, cp_nr_ways := 1, cp_part_mask := 1,
            cp_part_old_mask := 1, cp_part_id := int (sized_list_length l) - 1\<rparr>) s;
     Some (s\<lparr>ps_free_partitions := fr, ps_assigned_partitions := l\<rparr>, new_partition)
   }"

definition deallocate_partition_no_resize :: "cache_part_set_t \<Rightarrow> nat \<Rightarrow> cache_part_set_t option" where
  "deallocate_partition_no_resize s old_part = do {
     l \<leftarrow> remove_sized_list (ps_assigned_partitions s) old_part;
     fr \<leftarrow> insert_sized_list_head (ps_free_partitions s) old_part;
     Some (s\<lparr>ps_assigned_partitions := l, ps_free_partitions := fr\<rparr>)
   }"

definition get_load_partition :: "cat_cache_part_t \<Rightarrow> int" where
  "get_load_partition part = sint (cp_nr_apps part)"

text \<open>The loop keeps the next node before it removes the current one.\<close>

partial_function (option) remove_empty_loop ::
  "bool \<Rightarrow> nat option \<Rightarrow> cache_part_set_t \<Rightarrow> cache_part_set_t option" where
  "remove_empty_loop auto_resize cur s =
     (case cur of
        None \<Rightarrow> Some s
      | Some c \<Rightarrow>
          Option.bind (next_sized_list (ps_assigned_partitions s) cur) (\<lambda>aux.
          Option.bind (part_at s c) (\<lambda>part.
          Option.bind
            (if get_load_partition part = 0
             then (if auto_resize
                   then do {
                     s \<leftarrow> deallocate_partition s c (cat_cbm_length (ps_cat_support s)) True;
                     fr \<leftarrow> insert_sized_list_head (ps_free_partitions s) c;
                     Some (s\<lparr>ps_free_partitions := fr\<rparr>)
                   }
                   else deallocate_partition_no_resize s c)
             else Some s)
            (\<lambda>s. remove_empty_loop auto_resize aux s))))"

definition remove_empty_partitions :: "cache_part_set_t \<Rightarrow> bool \<Rightarrow> cache_part_set_t option" where
  "remove_empty_partitions s auto_resize =
     remove_empty_loop auto_resize (head_sized_list (ps_assigned_partitions s)) s"

section \<open>Applications\<close>

definition app_at :: "cache_part_set_t \<Rightarrow> nat \<Rightarrow> app_t option" where
  "app_at s a = rd (ps_apps s) a"

definition put_app :: "nat \<Rightarrow> app_t \<Rightarrow> cache_part_set_t \<Rightarrow> cache_part_set_t option" where
  "put_app a app s = do {
     apps \<leftarrow> wr (ps_apps s) a app;
     Some (s\<lparr>ps_apps := apps\<rparr>)
   }"

definition refresh_hw_partition_app :: "nat \<Rightarrow> cache_part_set_t \<Rightarrow> cache_part_set_t option" where
  "refresh_hw_partition_app a s = do {
     app \<leftarrow> app_at s a;
     case app_cat_partition app of
       None \<Rightarrow> Some s
     | Some p \<Rightarrow> do {
         part \<leftarrow> part_at s p;
         if ucast (cp_part_mask part) = app_last_llc_cbm app then Some s
         else do {
           let s = s\<lparr>ps_msr := fst (intel_cat_set_capacity_bitmask (ps_msr s) (ps_cat_support s)
                                     (app_cos_id app) (cp_part_mask part))\<rparr>;
           put_app a (app\<lparr>app_last_llc_cbm := ucast (cp_part_mask part)\<rparr>) s
         }
       }
   }"

definition add_app_to_partition :: "nat \<Rightarrow> nat \<Rightarrow> cache_part_set_t \<Rightarrow> cache_part_set_t option" where
  "add_app_to_partition a p s = do {
     app \<leftarrow> app_at s a;
     part \<leftarrow> part_at s p;
     let app = app\<lparr>app_cat_partition := Some p, app_last_partition := cp_part_index part\<rparr>;
     s \<leftarrow> put_app a app s;
     l \<leftarrow> insert_sized_list_tail (cp_assigned_applications part) a;
     s \<leftarrow> put_part p (part\<lparr>cp_nr_apps := cp_nr_apps part + 1, cp_assigned_applications := l\<rparr>) s;
     if \<not> app_externally_managed_cos_id app
     then put_app a (app\<lparr>app_cos_id := word_of_int (cp_clos_id part)\<rparr>) s
     else refresh_hw_partition_app a s
   }"

text \<open>Called only for an application with a partition.\<close>

definition remove_app_from_partition :: "nat \<Rightarrow> cache_part_set_t \<Rightarrow> cache_part_set_t option" where
  "remove_app_from_partition a s = do {
     app \<leftarrow> app_at s a;
     p \<leftarrow> app_cat_partition app;
     part \<leftarrow> part_at s p;
     l \<leftarrow> remove_sized_list (cp_assigned_applications part) a;
     s \<leftarrow> put_app a (app\<lparr>app_last_partition := cp_part_index part, app_cat_partition := None\<rparr>) s;
     put_part p (part\<lparr>cp_nr_apps := cp_nr_apps part - 1, cp_assigned_applications := l\<rparr>) s
   }"

definition move_app_between :: "nat \<Rightarrow> nat \<Rightarrow> cache_part_set_t \<Rightarrow> cache_part_set_t option" where
  "move_app_between a new_partition s = do {
     app \<leftarrow> app_at s a;
     if app_cat_partition app = Some new_partition then Some s
     else do {
       s \<leftarrow> remove_app_from_partition a s;
       add_app_to_partition a new_partition s
     }
   }"

definition move_app_to_partition :: "nat \<Rightarrow> nat \<Rightarrow> cache_part_set_t \<Rightarrow> cache_part_set_t option" where
  "move_app_to_partition a new_partition s = do {
     s \<leftarrow> move_app_between a new_partition s;
     app \<leftarrow> app_at s a;
     if app_externally_managed_cos_id app then Some s
     else do {
       l \<leftarrow> insert_sized_list_tail (ps_defered_cos_assignment s) a;
       Some (s\<lparr>ps_defered_cos_assignment := l\<rparr>)
     }
   }"

fun least_loaded_loop :: "cache_part_set_t \<Rightarrow> int \<Rightarrow> nat list \<Rightarrow> int \<Rightarrow> nat option \<Rightarrow> nat option option" where
  "least_loaded_loop s hint [] load_min candidate = Some candidate"
| "least_loaded_loop s hint (cur # ns) load_min candidate = do {
     part \<leftarrow> part_at s cur;
     if cp_part_index part = hint then Some (Some cur)
     else if get_load_partition part < load_min
     then least_loaded_loop s hint ns (get_load_partition part) (Some cur)
     else least_loaded_loop s hint ns load_min candidate
   }"

definition get_least_loaded_partition :: "cache_part_set_t \<Rightarrow> int \<Rightarrow> nat option option" where
  "get_least_loaded_partition s hint =
     (if is_empty_sized_list (ps_assigned_partitions s) then Some None
      else if hint = -1 \<and> ps_default_partition s \<noteq> None then Some (ps_default_partition s)
      else least_loaded_loop s hint (sl_nodes (ps_assigned_partitions s)) 9999 None)"

definition assign_partition_to_application ::
  "u64 \<Rightarrow> cache_part_set_t \<Rightarrow> nat \<Rightarrow> nat option \<Rightarrow> cache_part_set_t option" where
  "assign_partition_to_application rnd s a forced = do {
     app \<leftarrow> app_at s a;
     case forced of
       Some p \<Rightarrow> add_app_to_partition a p s
     | None \<Rightarrow>
         if is_empty_sized_list (ps_free_partitions s)
         then put_app a (app\<lparr>app_last_partition := -1, app_cat_partition := None,
                app_cos_id := (if app_externally_managed_cos_id app then app_cos_id app else 0)\<rparr>) s
         else do {
           partition \<leftarrow> get_least_loaded_partition s (app_last_partition app);
           (s, p) \<leftarrow> (case partition of
               Some p \<Rightarrow> Some (s, p)
             | None \<Rightarrow> allocate_new_partition rnd s (cat_cbm_length (ps_cat_support s)) (app_last_partition app));
           add_app_to_partition a p s
         }
   }"

definition remove_application_from_partition :: "nat \<Rightarrow> cache_part_set_t \<Rightarrow> cache_part_set_t option" where
  "remove_application_from_partition a s = do {
     app \<leftarrow> app_at s a;
     case app_cat_partition app of
       None \<Rightarrow> put_app a (app\<lparr>app_last_partition := -1\<rparr>) s
     | Some _ \<Rightarrow> remove_app_from_partition a s
   }"

end
