(* ===== verification/CachePartTiling.thy ===== *)
theory CachePartTiling
  imports CachePartSet
begin

text \<open>
  The partitions in use always tile the cache: what the resizing loops of \<open>do_insert_partition\<close> and
  \<open>deallocate_partition\<close> leave in the pool and in the bitmask registers.
\<close>

section \<open>Partitions that tile the ways\<close>

definition cbm_addr :: "nat \<Rightarrow> u32" where
  "cbm_addr n = IA32_LLC_MASK_0 + word_of_int (int n + 1)"

text \<open>The pool as \<open>init_cache_part_set\<close> leaves it: partition \<open>n\<close> has CLOS \<open>n + 1\<close>.\<close>

definition pool_ok :: "cache_part_set_t \<Rightarrow> bool" where
  "pool_ok s \<longleftrightarrow> Suc (length (ps_partition_pool s)) = unat (cat_nr_cos_available (ps_cat_support s)) \<and>
     (\<forall>n < length (ps_partition_pool s). cp_clos_id (ps_partition_pool s ! n) = int n + 1 \<and>
        cp_part_index (ps_partition_pool s ! n) = int n)"

definition part_ok :: "cache_part_set_t \<Rightarrow> bool \<Rightarrow> nat \<Rightarrow> int \<Rightarrow> nat \<Rightarrow> nat \<Rightarrow> bool" where
  "part_ok s hw n i w k \<longleftrightarrow> n < length (ps_partition_pool s) \<and>
     (let p = ps_partition_pool s ! n in
      cp_low_way p = of_nat w \<and> cp_high_way p = of_nat (w + k) - 1 \<and> cp_nr_ways p = of_nat k \<and>
      cp_part_id p = i \<and> cp_part_mask p = push_bit w (mask k) \<and>
      (hw \<longrightarrow> ps_msr s (cbm_addr n) = ucast (cp_part_mask p AND cat_cbm_mask (ps_cat_support s))))"

text \<open>The nodes \<open>ns\<close>, at positions from \<open>i\<close>, take the ways from \<open>w\<close> on, as many as \<open>ks\<close> says.\<close>

fun tiled :: "cache_part_set_t \<Rightarrow> bool \<Rightarrow> nat list \<Rightarrow> int \<Rightarrow> nat \<Rightarrow> nat list \<Rightarrow> bool" where
  "tiled s hw [] i w ks \<longleftrightarrow> ks = []"
| "tiled s hw (n # ns) i w ks \<longleftrightarrow>
     (case ks of [] \<Rightarrow> False | k # ks \<Rightarrow> part_ok s hw n i w k \<and> tiled s hw ns (i + 1) (w + k) ks)"

lemma tiled_append:
  "tiled s hw ns i w ks \<Longrightarrow> tiled s hw ms (i + int (length ns)) (w + sum_list ks) ls \<Longrightarrow>
   tiled s hw (ns @ ms) i w (ks @ ls)"
  by (induction ns arbitrary: i w ks) (auto split: list.splits simp: algebra_simps)

lemma tiled_length: "tiled s hw ns i w ks \<Longrightarrow> length ks = length ns"
  by (induction ns arbitrary: i w ks) (auto split: list.splits)

text \<open>A change of the bounds of the partitions \<open>ns\<close> only.\<close>

definition part_rest :: "cat_cache_part_t \<Rightarrow> int \<times> int \<times> u32 \<times> nat sized_list \<times> int" where
  "part_rest p = (cp_clos_id p, cp_part_index p, cp_nr_apps p, cp_assigned_applications p, cp_nr_light_sharing p)"

definition ways_only :: "nat list \<Rightarrow> cache_part_set_t \<Rightarrow> cache_part_set_t \<Rightarrow> bool" where
  "ways_only ns s s' \<longleftrightarrow>
     (\<exists>pool m. s' = s\<lparr>ps_partition_pool := pool, ps_msr := m\<rparr> \<and> length pool = length (ps_partition_pool s) \<and>
        (\<forall>n < length pool. part_rest (pool ! n) = part_rest (ps_partition_pool s ! n)) \<and>
        (\<forall>n < length pool. n \<notin> set ns \<longrightarrow> pool ! n = ps_partition_pool s ! n \<and>
           m (cbm_addr n) = ps_msr s (cbm_addr n)))"

lemma ways_only_refl: "ways_only [] s s"
  unfolding ways_only_def by (intro exI [of _ "ps_partition_pool s"] exI [of _ "ps_msr s"]) simp

lemma ways_only_trans:
  "ways_only ns s s' \<Longrightarrow> ways_only ms s' s'' \<Longrightarrow> ways_only (ns @ ms) s s''"
proof -
  assume "ways_only ns s s'" "ways_only ms s' s''"
  then obtain pool m pool' m' where
    1: "s' = s\<lparr>ps_partition_pool := pool, ps_msr := m\<rparr>" "length pool = length (ps_partition_pool s)"
      "\<forall>n < length pool. part_rest (pool ! n) = part_rest (ps_partition_pool s ! n)"
      "\<forall>n < length pool. n \<notin> set ns \<longrightarrow> pool ! n = ps_partition_pool s ! n \<and>
         m (cbm_addr n) = ps_msr s (cbm_addr n)" and
    2: "s'' = s'\<lparr>ps_partition_pool := pool', ps_msr := m'\<rparr>" "length pool' = length (ps_partition_pool s')"
      "\<forall>n < length pool'. part_rest (pool' ! n) = part_rest (ps_partition_pool s' ! n)"
      "\<forall>n < length pool'. n \<notin> set ms \<longrightarrow> pool' ! n = ps_partition_pool s' ! n \<and>
         m' (cbm_addr n) = ps_msr s' (cbm_addr n)"
    unfolding ways_only_def by blast
  then show "ways_only (ns @ ms) s s''"
    unfolding ways_only_def by (intro exI [of _ pool'] exI [of _ m']) simp
qed

lemma ways_only_pool_ok: "ways_only ns s s' \<Longrightarrow> pool_ok s \<Longrightarrow> pool_ok s'"
  unfolding ways_only_def pool_ok_def by (fastforce simp: part_rest_def)

lemma ways_only_part_ok:
  "ways_only ns s s' \<Longrightarrow> n \<notin> set ns \<Longrightarrow> part_ok s hw n i w k \<Longrightarrow> part_ok s' hw n i w k"
  unfolding ways_only_def part_ok_def by (elim exE conjE) (auto simp: Let_def)

lemma ways_only_tiled:
  "ways_only ns s s' \<Longrightarrow> set ns \<inter> set ms = {} \<Longrightarrow> tiled s hw ms i w ks \<Longrightarrow> tiled s' hw ms i w ks"
  by (induction ms arbitrary: i w ks) (auto split: list.splits intro: ways_only_part_ok)

section \<open>One partition\<close>

lemma part_mask_eq:
  assumes "cp_nr_ways p = of_nat k" and "cp_low_way p = of_nat w" and "w + k \<le> 30"
  shows "determine_part_mask p = Some (push_bit w (mask k))"
proof -
  have u: "unat (of_nat k :: u32) = k" "unat (of_nat w :: u32) = w"
    using assms(3) by (simp_all add: unat_of_nat take_bit_nat_eq_self)
  have "(2 ^ k - 1) * 2 ^ w < (2 ^ k * 2 ^ w :: nat)" by simp
  also have "\<dots> = 2 ^ (k + w)" by (simp add: power_add)
  also have "\<dots> \<le> 2 ^ 31" using assms(3) by (intro power_increasing) auto
  finally have "(2 ^ k - 1) * 2 ^ w < (2 ^ 31 :: nat)" .
  then show ?thesis using assms u by (simp add: determine_part_mask_def Let_def mask_eq_exp_minus_1)
qed

lemma cbm_addr_inj:
  assumes "cbm_addr a = cbm_addr b" and "Suc a < 2 ^ 32" and "Suc b < 2 ^ 32"
  shows "a = b"
proof -
  have e: "word_of_int (int a + 1) = (word_of_int (int b + 1) :: u32)" using assms(1) by (simp add: cbm_addr_def)
  have "unat (word_of_int (int n + 1) :: u32) = Suc n" if "Suc n < 2 ^ 32" for n
    using unat_word_of_int_u32 [of "Suc n"] that by (simp add: add.commute)
  with assms(2,3) e show ?thesis by (metis nat.inject)
qed

lemma assign_ways_ok:
  assumes po: "pool_ok s" and n: "n < length (ps_partition_pool s)" and wk: "w + k \<le> 30"
  shows "\<exists>s'. assign_ways hw n (of_nat w) (of_nat (w + k) - 1) i x s = Some s' \<and>
    ways_only [n] s s' \<and> part_ok s' hw n i w k"
proof -
  let ?p = "ps_partition_pool s ! n"
  let ?m = "push_bit w (mask k) :: u32"
  define p where "p = ?p\<lparr>cp_low_way := of_nat w, cp_high_way := of_nat (w + k) - 1,
    cp_nr_ways := of_nat k, cp_part_id := i, cp_has_extra_way := x, cp_bias := 0, cp_part_mask := ?m,
    cp_part_old_mask := ?m\<rparr>"
  define s1 where "s1 = s\<lparr>ps_partition_pool := (ps_partition_pool s)[n := p]\<rparr>"
  have nr: "of_nat (w + k) - 1 - of_nat w + 1 = (of_nat k :: u32)" by simp
  have clos: "cp_clos_id ?p = int n + 1" using po n by (simp add: pool_ok_def)
  have dm: "determine_part_mask (?p\<lparr>cp_low_way := of_nat w, cp_high_way := of_nat (w + k) - 1,
      cp_nr_ways := of_nat k, cp_part_id := i, cp_has_extra_way := x, cp_bias := 0\<rparr>) = Some ?m"
    by (rule part_mask_eq [OF _ _ wk]) simp_all
  have e: "assign_ways hw n (of_nat w) (of_nat (w + k) - 1) i x s =
      Some (if hw then set_cbm (int n + 1) ?m s1 else s1)"
    using n dm clos unfolding assign_ways_def nr
    by (simp add: part_at_def put_part_def mem_simps p_def s1_def Let_def)
  have cos: "unat (cat_nr_cos_available (ps_cat_support s)) = Suc (length (ps_partition_pool s))"
    using po by (simp add: pool_ok_def)
  have lt: "Suc (length (ps_partition_pool s)) < 2 ^ 32"
    unfolding cos [symmetric] by (rule unsigned_less [THEN less_le_trans]) simp
  have "unat (word_of_int (int n + 1) :: u32) = Suc n"
    using unat_word_of_int_u32 [of "Suc n"] lt n by (simp add: add.commute)
  then have "\<not> word_of_int (int n + 1) \<ge> cat_nr_cos_available (ps_cat_support s)"
    using cos n by (simp add: word_le_nat_alt)
  then have msr: "ps_msr (set_cbm (int n + 1) ?m s1) =
      (ps_msr s)(cbm_addr n := ucast (?m AND cat_cbm_mask (ps_cat_support s)))"
    by (simp add: set_cbm_def intel_cat_set_capacity_bitmask_def s1_def cbm_addr_def)
  define m where "m = (if hw then (ps_msr s)(cbm_addr n := ucast (?m AND cat_cbm_mask (ps_cat_support s)))
    else ps_msr s)"
  have s': "(if hw then set_cbm (int n + 1) ?m s1 else s1) =
      s\<lparr>ps_partition_pool := (ps_partition_pool s)[n := p], ps_msr := m\<rparr>"
    using msr by (auto simp: m_def s1_def set_cbm_def)
  have other: "cbm_addr j \<noteq> cbm_addr n" if "j < length (ps_partition_pool s)" "j \<noteq> n" for j
    using cbm_addr_inj [of j n] that n lt by auto
  have "ways_only [n] s (s\<lparr>ps_partition_pool := (ps_partition_pool s)[n := p], ps_msr := m\<rparr>)"
    unfolding ways_only_def
  proof (intro exI conjI allI impI)
    fix j assume j: "j < length ((ps_partition_pool s)[n := p])"
    show "part_rest ((ps_partition_pool s)[n := p] ! j) = part_rest (ps_partition_pool s ! j)"
      using n by (cases "j = n") (simp_all add: p_def part_rest_def)
    assume "j \<notin> set [n]"
    then show "(ps_partition_pool s)[n := p] ! j = ps_partition_pool s ! j"
      and "m (cbm_addr j) = ps_msr s (cbm_addr j)" using other [of j] j by (simp_all add: m_def)
  qed simp_all
  moreover have "part_ok (s\<lparr>ps_partition_pool := (ps_partition_pool s)[n := p], ps_msr := m\<rparr>) hw n i w k"
    using n by (simp add: part_ok_def p_def m_def)
  ultimately show ?thesis using e s' by auto
qed

section \<open>The resizing loops\<close>

definition extra_nat :: "(int \<Rightarrow> bool) \<Rightarrow> (int \<Rightarrow> bool) \<Rightarrow> int \<Rightarrow> nat \<Rightarrow> nat \<Rightarrow> bool \<times> nat \<times> nat" where
  "extra_nat nb el i e r =
     (if 0 < e \<and> nb i then (True, e - 1, r) else if 0 < r \<and> el i then (True, e, r - 1) else (False, e, r))"

lemma of_nat_pos_u32: "n \<le> 30 \<Longrightarrow> (0 :: u32) < of_nat n \<longleftrightarrow> 0 < n"
  by (simp add: word_less_nat_alt unat_of_nat take_bit_nat_eq_self)

lemma extra_way_nat:
  "e \<le> 30 \<Longrightarrow> r \<le> 30 \<Longrightarrow> extra_way nb el i (of_nat e) (of_nat r) =
     (case extra_nat nb el i e r of (x, e', r') \<Rightarrow> (x, of_nat e', of_nat r'))"
  by (simp add: extra_way_def extra_nat_def of_nat_pos_u32 of_nat_diff)

lemma extra_nat_counts:
  assumes "extra_nat nb el i e r = (x, e', r')"
    and "e \<le> (if nb i then 1 else 0) + cn" and "e + r \<le> (if el i then 1 else 0) + ce"
    and "cn \<le> ce" and "nb i \<Longrightarrow> el i"
  shows "e' \<le> cn \<and> e' + r' \<le> ce \<and> e + r = e' + r' + (if x then 1 else 0)"
  using assms by (auto simp: extra_nat_def split: if_splits)

abbreviation cnt :: "(int \<Rightarrow> bool) \<Rightarrow> int list \<Rightarrow> nat" where
  "cnt P is \<equiv> length (filter P is)"

lemma cnt_Cons: "cnt P (j # js) = (if P j then 1 else 0) + cnt P js"
  by simp

lemma cnt_snoc: "cnt P (js @ [j]) = (if P j then 1 else 0) + cnt P js"
  by simp

lemma cnt_mono: "(\<And>i. P i \<Longrightarrow> Q i) \<Longrightarrow> cnt P is \<le> cnt Q is"
  by (induction "is") auto

lemma resize_up_ok:
  assumes "\<And>i. nb i \<Longrightarrow> el i" and "0 < f"
  shows "pool_ok s \<Longrightarrow> distinct ns \<Longrightarrow> set ns \<subseteq> {..<length (ps_partition_pool s)} \<Longrightarrow>
    w + length ns * f + e + r \<le> 30 \<Longrightarrow> e \<le> cnt nb [i..i + int (length ns) - 1] \<Longrightarrow>
    e + r \<le> cnt el [i..i + int (length ns) - 1] \<Longrightarrow>
    \<exists>s' ks. resize_up hw nb el (of_nat f) ns i (of_nat w) (of_nat e) (of_nat r) s = Some s' \<and>
      ways_only ns s s' \<and> tiled s' hw ns i w ks \<and> sum_list ks = length ns * f + e + r \<and> set ks \<subseteq> {f, f + 1}"
proof (induction ns arbitrary: i w e r s)
  case Nil
  then show ?case using ways_only_refl by (intro exI [of _ s] exI [of _ "[]"]) simp
next
  case (Cons n ns)
  obtain x e' r' where x: "extra_nat nb el i e r = (x, e', r')" by (metis prod_cases3)
  define k where "k = f + (if x then 1 else 0)"
  have L: "[i..i + int (length (n # ns)) - 1] = i # [i + 1..i + int (length ns)]"
    by (simp add: upto_rec1)
  have c: "e' \<le> cnt nb [i + 1..i + int (length ns)]" "e' + r' \<le> cnt el [i + 1..i + int (length ns)]"
    "e + r = e' + r' + (if x then 1 else 0)"
    using extra_nat_counts [OF x, of "cnt nb [i + 1..i + int (length ns)]" "cnt el [i + 1..i + int (length ns)]"]
      Cons.prems(5,6) cnt_mono [of nb el, OF assms(1)] assms(1) unfolding L cnt_Cons by blast+
  have wk: "w + k \<le> 30" using Cons.prems(4) c(3) by (auto simp: k_def split: if_splits)
  have hi: "(if x then of_nat w + of_nat f - 1 + 1 else of_nat w + of_nat f - 1 :: u32) = of_nat (w + k) - 1"
    by (simp add: k_def)
  obtain s1 where s1: "assign_ways hw n (of_nat w) (of_nat (w + k) - 1) i x s = Some s1"
    "ways_only [n] s s1" "part_ok s1 hw n i w k"
    using assign_ways_ok [OF Cons.prems(1) _ wk, of n hw i x] Cons.prems(3) by (auto simp del: of_nat_add)
  have len: "length (ps_partition_pool s1) = length (ps_partition_pool s)" using s1(2) by (auto simp: ways_only_def)
  have "\<exists>s' ks. resize_up hw nb el (of_nat f) ns (i + 1) (of_nat (w + k)) (of_nat e') (of_nat r') s1 = Some s' \<and>
      ways_only ns s1 s' \<and> tiled s' hw ns (i + 1) (w + k) ks \<and> sum_list ks = length ns * f + e' + r' \<and>
      set ks \<subseteq> {f, f + 1}"
  proof (rule Cons.IH)
    show "pool_ok s1" by (rule ways_only_pool_ok [OF s1(2) Cons.prems(1)])
    show "distinct ns" "set ns \<subseteq> {..<length (ps_partition_pool s1)}" using Cons.prems(2,3) len by auto
    show "w + k + length ns * f + e' + r' \<le> 30" using Cons.prems(4) c(3) by (simp add: k_def split: if_splits)
    show "e' \<le> cnt nb [i + 1..i + 1 + int (length ns) - 1]" "e' + r' \<le> cnt el [i + 1..i + 1 + int (length ns) - 1]"
      using c(1,2) by simp_all
  qed
  then obtain s' ks where s': "resize_up hw nb el (of_nat f) ns (i + 1) (of_nat (w + k)) (of_nat e') (of_nat r') s1 = Some s'"
    "ways_only ns s1 s'" "tiled s' hw ns (i + 1) (w + k) ks" "sum_list ks = length ns * f + e' + r'"
    "set ks \<subseteq> {f, f + 1}" by blast
  have er: "e \<le> 30" "r \<le> 30" using Cons.prems(4) by auto
  have nx: "(of_nat (w + k) - 1 :: u32) + 1 = of_nat (w + k)" by simp
  have "resize_up hw nb el (of_nat f) (n # ns) i (of_nat w) (of_nat e) (of_nat r) s = Some s'"
    unfolding resize_up.simps extra_way_nat [OF er] x prod.case Let_def hi nx s1(1) using s'(1) by simp
  moreover have "ways_only (n # ns) s s'" using ways_only_trans [OF s1(2) s'(2)] by simp
  moreover have "part_ok s' hw n i w k" using ways_only_part_ok [OF s'(2) _ s1(3)] Cons.prems(2) by simp
  ultimately show ?case using s'(3-5) c(3)
    by (intro exI [of _ s'] exI [of _ "k # ks"]) (auto simp: k_def split: if_splits)
qed

lemma resize_down_ok:
  assumes "\<And>i. nb i \<Longrightarrow> el i" and "0 < f"
  shows "pool_ok s \<Longrightarrow> distinct vs \<Longrightarrow> set vs \<subseteq> {..<length (ps_partition_pool s)} \<Longrightarrow> E \<le> 30 \<Longrightarrow>
    length vs * f + e + r \<le> E \<Longrightarrow> e \<le> cnt nb [i - int (length vs) + 1..i] \<Longrightarrow>
    e + r \<le> cnt el [i - int (length vs) + 1..i] \<Longrightarrow>
    \<exists>s' ks. resize_down hw nb el (of_nat f) vs i (of_nat E - 1) (of_nat e) (of_nat r) s = Some s' \<and>
      ways_only vs s s' \<and> tiled s' hw (rev vs) (i - int (length vs) + 1) (E - (length vs * f + e + r)) ks \<and>
      sum_list ks = length vs * f + e + r \<and> set ks \<subseteq> {f, f + 1}"
proof (induction vs arbitrary: i E e r s)
  case Nil
  then show ?case using ways_only_refl by (intro exI [of _ s] exI [of _ "[]"]) simp
next
  case (Cons n vs)
  obtain x e' r' where x: "extra_nat nb el i e r = (x, e', r')" by (metis prod_cases3)
  define k where "k = f + (if x then 1 else 0)"
  let ?L = "[i - int (length vs)..i - 1]"
  have L: "[i - int (length (n # vs)) + 1..i] = ?L @ [i]"
    by (simp add: upto_rec2)
  have c: "e' \<le> cnt nb ?L" "e' + r' \<le> cnt el ?L" "e + r = e' + r' + (if x then 1 else 0)"
    using extra_nat_counts [OF x, of "cnt nb ?L" "cnt el ?L"]
      Cons.prems(6,7) cnt_mono [of nb el, OF assms(1)] assms(1) unfolding L cnt_snoc by blast+
  have kE: "k \<le> E" using Cons.prems(5) c(3) by (auto simp: k_def split: if_splits)
  have lo: "(if x then of_nat E - 1 - of_nat f + 1 - 1 else of_nat E - 1 - of_nat f + 1 :: u32) = of_nat (E - k)"
    using kE by (simp add: k_def of_nat_diff)
  have n: "n < length (ps_partition_pool s)" using Cons.prems(3) by simp
  have hi: "(of_nat E - 1 :: u32) = of_nat (E - k + k) - 1" using kE by simp
  obtain s1 where s1: "assign_ways hw n (of_nat (E - k)) (of_nat (E - k + k) - 1) i x s = Some s1"
    "ways_only [n] s s1" "part_ok s1 hw n i (E - k) k"
    using assign_ways_ok [OF Cons.prems(1) n, of "E - k" k hw i x] kE Cons.prems(4) by auto
  have len: "length (ps_partition_pool s1) = length (ps_partition_pool s)" using s1(2) by (auto simp: ways_only_def)
  have ek: "E - k - (length vs * f + e' + r') = E - (length (n # vs) * f + e + r)"
    "length vs * f + e' + r' + k = length (n # vs) * f + e + r"
    using c(3) Cons.prems(5) by (auto simp: k_def split: if_splits)
  have "\<exists>s' ks. resize_down hw nb el (of_nat f) vs (i - 1) (of_nat (E - k) - 1) (of_nat e') (of_nat r') s1 = Some s' \<and>
      ways_only vs s1 s' \<and> tiled s' hw (rev vs) (i - 1 - int (length vs) + 1) (E - k - (length vs * f + e' + r')) ks \<and>
      sum_list ks = length vs * f + e' + r' \<and> set ks \<subseteq> {f, f + 1}"
  proof (rule Cons.IH)
    show "pool_ok s1" by (rule ways_only_pool_ok [OF s1(2) Cons.prems(1)])
    show "distinct vs" "set vs \<subseteq> {..<length (ps_partition_pool s1)}" using Cons.prems(2,3) len by auto
    show "E - k \<le> 30" using Cons.prems(4) by simp
    show "length vs * f + e' + r' \<le> E - k" using ek(2) Cons.prems(5) by linarith
    show "e' \<le> cnt nb [i - 1 - int (length vs) + 1..i - 1]" "e' + r' \<le> cnt el [i - 1 - int (length vs) + 1..i - 1]"
      using c(1,2) by simp_all
  qed
  then obtain s' ks where s': "resize_down hw nb el (of_nat f) vs (i - 1) (of_nat (E - k) - 1) (of_nat e') (of_nat r') s1 = Some s'"
    "ways_only vs s1 s'" "tiled s' hw (rev vs) (i - int (length vs)) (E - (length (n # vs) * f + e + r)) ks"
    "sum_list ks = length vs * f + e' + r'" "set ks \<subseteq> {f, f + 1}" unfolding ek(1) by auto
  have er: "e \<le> 30" "r \<le> 30" using Cons.prems(4,5) by auto
  have "resize_down hw nb el (of_nat f) (n # vs) i (of_nat E - 1) (of_nat e) (of_nat r) s = Some s'"
    unfolding resize_down.simps extra_way_nat [OF er] x prod.case Let_def lo unfolding hi s1(1) using s'(1) by simp
  moreover have "ways_only (n # vs) s s'" using ways_only_trans [OF s1(2) s'(2)] by simp
  moreover have p: "part_ok s' hw n i (E - k) k" using ways_only_part_ok [OF s'(2) _ s1(3)] Cons.prems(2) by simp
  have "tiled s' hw (rev vs @ [n]) (i - int (length vs)) (E - (length (n # vs) * f + e + r)) (ks @ [k])"
  proof -
    define T U where "T = length (n # vs) * f + e + r" and "U = length vs * f + e' + r'"
    have "T \<le> E" "U + k = T" using Cons.prems(5) ek(2) by (simp_all only: T_def U_def)
    then have "E - T + sum_list ks = E - k" unfolding s'(4) U_def [symmetric] by linarith
    moreover have "i - int (length vs) + int (length (rev vs)) = i" by simp
    ultimately show ?thesis
      using p s'(3) unfolding T_def [symmetric] by (intro tiled_append) simp_all
  qed
  ultimately show ?case using s'(4,5) ek(2)
    by (intro exI [of _ s'] exI [of _ "ks @ [k]"]) (auto simp: k_def split: if_splits)
qed

section \<open>Insertion and removal\<close>

definition pset_inv :: "cache_part_set_t \<Rightarrow> bool" where
  "pset_inv s \<longleftrightarrow> pool_ok s \<and> sl_wf (ps_assigned_partitions s) \<and> sl_wf (ps_free_partitions s) \<and>
     set (sl_nodes (ps_assigned_partitions s)) \<inter> set (sl_nodes (ps_free_partitions s)) = {} \<and>
     set (sl_nodes (ps_assigned_partitions s)) \<union> set (sl_nodes (ps_free_partitions s))
       \<subseteq> {..<length (ps_partition_pool s)}"

text \<open>The partitions in use tile \<open>W\<close> ways and their sizes differ by at most one.\<close>

definition balanced :: "cache_part_set_t \<Rightarrow> bool \<Rightarrow> nat \<Rightarrow> bool" where
  "balanced s hw W \<longleftrightarrow>
     (let ns = sl_nodes (ps_assigned_partitions s) in ns \<noteq> [] \<longrightarrow>
      (\<exists>ks. tiled s hw ns 0 0 ks \<and> sum_list ks = W \<and>
            set ks \<subseteq> {W div length ns, W div length ns + 1}))"

lemma cnt_other:
  "0 \<le> g \<Longrightarrow> g \<le> m \<Longrightarrow> cnt (\<lambda>i. i \<noteq> g) [0..m] = nat m"
proof -
  assume g: "0 \<le> g" "g \<le> m"
  have "cnt (\<lambda>i. i \<noteq> g) [0..m] = card ({0..m} - {g})"
    using distinct_card [of "filter (\<lambda>i. i \<noteq> g) [0..m]"] by (simp add: set_diff_eq)
  then show ?thesis using g by simp
qed

lemma cnt_two:
  "0 \<le> a \<Longrightarrow> a < b \<Longrightarrow> b \<le> m \<Longrightarrow> cnt (\<lambda>i. i = b \<or> i = a) [0..m] = 2"
proof -
  assume g: "0 \<le> a" "a < b" "b \<le> m"
  have "set (filter (\<lambda>i. i = b \<or> i = a) [0..m]) = {a, b}" using g by auto
  then have "cnt (\<lambda>i. i = b \<or> i = a) [0..m] = card {a, b}"
    using distinct_card [of "filter (\<lambda>i. i = b \<or> i = a) [0..m]"] by simp
  then show ?thesis using g by simp
qed

lemma unat_of_nat_small: "n \<le> 30 \<Longrightarrow> unat (of_nat n :: u32) = n"
  by (simp add: unat_of_nat take_bit_nat_eq_self)

lemma of_nat_div_mod_u32:
  assumes "a \<le> 30" and "b \<le> 30"
  shows "of_nat a div of_nat b = (of_nat (a div b) :: u32)" and "of_nat a mod of_nat b = (of_nat (a mod b) :: u32)"
proof -
  have "a div b \<le> 30" "a mod b \<le> 30"
    using assms div_le_dividend [of a b] mod_less_eq_dividend [of a b] by linarith+
  then show "of_nat a div of_nat b = (of_nat (a div b) :: u32)" "of_nat a mod of_nat b = (of_nat (a mod b) :: u32)"
    using assms by (simp_all add: word_unat_eq_iff unat_div unat_mod unat_of_nat_small)
qed

lemma split_extra_nat:
  assumes "r \<le> 30"
  shows "split_extra b (of_nat r) =
    (if b then (0, of_nat r) else (of_nat (min r 2), of_nat (r - min r 2)))"
proof -
  have "(of_nat r :: u32) < 2 \<longleftrightarrow> r < 2" using assms by (simp add: word_less_nat_alt unat_of_nat_small)
  then show ?thesis by (auto simp: split_extra_def Let_def min_def of_nat_diff)
qed

lemma link_at_gap_eq:
  assumes "distinct ns" and "x \<notin> set ns" and "0 \<le> g" and "g \<le> int (length ns)"
  shows "link_at_gap (slist_of ns) x g (int (length ns) + 1) =
    Some (slist_of (take (nat g) ns @ x # drop (nat g) ns))"
proof -
  consider "g = 0" | "0 < g" "g = int (length ns)" | "0 < g" "g < int (length ns)" using assms by linarith
  then show ?thesis
  proof cases
    case 3
    then have g: "nat g < length ns" by simp
    have ns: "ns = take (nat g) ns @ ns ! nat g # drop (Suc (nat g)) ns" using g by (simp add: id_take_nth_drop)
    have d: "ns ! nat g \<notin> set (take (nat g) ns)" using assms(1) g by (metis distinct_take nth_take not_distinct_conv_prefix distinct_append ns disjoint_insert(2) list.simps(15) Int_iff)
    have "insert_before_sized_list (slist_of (take (nat g) ns @ ns ! nat g # drop (Suc (nat g)) ns)) (Some (ns ! nat g)) x =
        Some (slist_of (take (nat g) ns @ x # ns ! nat g # drop (Suc (nat g)) ns))"
      using d assms(2) ns by (intro insert_before_split) simp_all
    then show ?thesis using 3 g ns by (simp add: link_at_gap_def Cons_nth_drop_Suc)
  qed (use assms in \<open>simp_all add: link_at_gap_def\<close>)
qed

text \<open>The common end of both operations: after the lists are updated, one of the loops resizes all the
  partitions.\<close>

lemma resize_all:
  assumes po: "pool_ok s" and ns: "distinct ns" "set ns \<subseteq> {..<length (ps_partition_pool s)}" "ns \<noteq> []"
    and W: "W \<le> 30" "length ns \<le> W" and el: "\<And>i. nb i \<Longrightarrow> el i"
    and er: "e + r = W mod length ns" "e \<le> cnt nb [0..int (length ns) - 1]"
      "W mod length ns \<le> cnt el [0..int (length ns) - 1]"
  shows "\<exists>s' ks. (if up then resize_up hw nb el (of_nat (W div length ns)) ns 0 0 (of_nat e) (of_nat r) s
            else resize_down hw nb el (of_nat (W div length ns)) (rev ns) (int (length ns) - 1)
                   (of_nat W - 1) (of_nat e) (of_nat r) s) = Some s' \<and>
    ways_only ns s s' \<and> tiled s' hw ns 0 0 ks \<and> sum_list ks = W \<and>
    set ks \<subseteq> {W div length ns, W div length ns + 1}"
proof -
  define f where "f = W div length ns"
  have f: "0 < f" using W(2) ns(3) by (simp add: f_def div_greater_zero_iff)
  have tot: "length ns * f + e + r = W"
    using er(1) mult_div_mod_eq [of "length ns" W] by (simp add: f_def add.assoc)
  show ?thesis
  proof (cases up)
    case True
    have "\<exists>s' ks. resize_up hw nb el (of_nat f) ns 0 (of_nat 0) (of_nat e) (of_nat r) s = Some s' \<and>
      ways_only ns s s' \<and> tiled s' hw ns 0 0 ks \<and> sum_list ks = length ns * f + e + r \<and> set ks \<subseteq> {f, f + 1}"
      by (rule resize_up_ok [OF el f]) (use po ns W er tot in simp_all)
    then show ?thesis using True tot by (auto simp: f_def)
  next
    case False
    have "\<exists>s' ks. resize_down hw nb el (of_nat f) (rev ns) (int (length ns) - 1) (of_nat W - 1) (of_nat e) (of_nat r) s = Some s' \<and>
      ways_only (rev ns) s s' \<and> tiled s' hw (rev (rev ns)) (int (length ns) - 1 - int (length (rev ns)) + 1)
        (W - (length (rev ns) * f + e + r)) ks \<and>
      sum_list ks = length (rev ns) * f + e + r \<and> set ks \<subseteq> {f, f + 1}"
      by (rule resize_down_ok [OF el f]) (use po ns W er tot in simp_all)
    moreover have "ways_only (rev ns) s s' \<longleftrightarrow> ways_only ns s s'" for s' by (simp add: ways_only_def)
    ultimately show ?thesis using False tot by (auto simp: f_def)
  qed
qed

lemma do_insert_partition_ok:
  assumes po: "pool_ok s" and wf: "sl_wf (ps_assigned_partitions s)"
    and new: "p \<notin> set (sl_nodes (ps_assigned_partitions s))"
      "set (p # sl_nodes (ps_assigned_partitions s)) \<subseteq> {..<length (ps_partition_pool s)}"
    and W: "W \<le> 30" "length (sl_nodes (ps_assigned_partitions s)) < W"
    and g: "0 \<le> g" "g \<le> int (length (sl_nodes (ps_assigned_partitions s)))"
  defines "ns \<equiv> sl_nodes (ps_assigned_partitions s)"
  shows "\<exists>s' s1. do_insert_partition s p (of_nat (length ns)) (of_nat W) g hw = Some s' \<and>
    balanced s' hw W \<and> ways_only (p # ns) s1 s' \<and>
    s1 = s\<lparr>ps_nr_bouncing_ways := of_nat (W mod Suc (length ns)),
           ps_assigned_partitions := slist_of (take (nat g) ns @ p # drop (nat g) ns)\<rparr>"
proof -
  let ?n = "length ns" and ?ns = "take (nat g) ns @ p # drop (nat g) ns"
  let ?s1 = "s\<lparr>ps_nr_bouncing_ways := of_nat (W mod Suc ?n), ps_assigned_partitions := slist_of ?ns\<rparr>"
  have l: "ps_assigned_partitions s = slist_of ns" using sl_wf_eq [OF wf] by (simp add: ns_def)
  have d: "distinct ns" using wf by (simp add: sl_wf_def ns_def)
  have nW: "Suc ?n \<le> W" using W(2) by (simp add: ns_def)
  have nt: "(of_nat ?n + 1 :: u32) = of_nat (Suc ?n)" by simp
  have nz: "(of_nat (Suc ?n) :: u32) \<noteq> 0" "(of_nat (Suc ?n) :: u32) = 1 \<longleftrightarrow> ?n = 0"
    "uint (of_nat (Suc ?n) :: u32) = int (Suc ?n)"
    using unat_of_nat_small [of "Suc ?n"] nW W(1)
    by (simp_all only: word_unat_eq_iff uint_nat) simp_all
  have dm: "of_nat W div (of_nat (Suc ?n) :: u32) = of_nat (W div Suc ?n)"
    "of_nat W mod (of_nat (Suc ?n) :: u32) = of_nat (W mod Suc ?n)"
    using of_nat_div_mod_u32 [of W "Suc ?n"] W(1) nW by simp_all
  have len: "length ?ns = Suc ?n" by simp
  have set: "set ?ns = set (p # ns)" by (metis append_take_drop_id set_append set_simps(2) Un_insert_right)
  have dist: "distinct ?ns" using d new(1) by (intro distinct_insert_mid) (simp_all add: ns_def)
  have sub: "set ?ns \<subseteq> {..<length (ps_partition_pool s)}" using new(2) unfolding set by (simp add: ns_def)
  have po1: "pool_ok ?s1" using po by (simp add: pool_ok_def)
  have wo: "ways_only ?ns s1 s' \<longleftrightarrow> ways_only (p # ns) s1 s'" for s1 s' by (simp only: ways_only_def set)
  have bal: "balanced s' hw W" if "ways_only ?ns ?s1 s'" "tiled s' hw ?ns 0 0 ks" "sum_list ks = W"
    "set ks \<subseteq> {W div length ?ns, W div length ?ns + 1}" for s' ks
  proof -
    have "ps_assigned_partitions s' = slist_of ?ns" using that(1) by (auto simp: ways_only_def)
    then show ?thesis using that(2-4) unfolding balanced_def Let_def by (metis slist_of_sels(1))
  qed
  show ?thesis
  proof (cases "?n = 0")
    case True
    then have ns0: "ns = []" by simp
    have g0: "g = 0" using g by (simp add: ns_def [symmetric] ns0)
    let ?s0 = "s\<lparr>ps_nr_bouncing_ways := 0\<rparr>"
    have "pool_ok ?s0" using po by (simp add: pool_ok_def)
    from assign_ways_ok [OF this, of p 0 W hw 0 False] new(2) W(1) obtain s' where
      s': "assign_ways hw p 0 (of_nat W - 1) 0 False ?s0 = Some s'" "ways_only [p] ?s0 s'" "part_ok s' hw p 0 0 W"
      by auto
    let ?s' = "s'\<lparr>ps_assigned_partitions := slist_of [p]\<rparr>"
    obtain pool m where pm: "s' = ?s0\<lparr>ps_partition_pool := pool, ps_msr := m\<rparr>"
      "length pool = length (ps_partition_pool s)"
      "\<forall>n < length pool. part_rest (pool ! n) = part_rest (ps_partition_pool s ! n)"
      "\<forall>n < length pool. n \<notin> set [p] \<longrightarrow> pool ! n = ps_partition_pool s ! n \<and> m (cbm_addr n) = ps_msr s (cbm_addr n)"
      using s'(2) by (auto simp: ways_only_def)
    have b0: "W mod Suc ?n = 0" using True by simp
    have ins: "insert_sized_list_tail (slist_of []) p = Some (slist_of [p])" by simp
    have e: "do_insert_partition s p (of_nat ?n) (of_nat W) g hw = Some ?s'"
      using s'(1) True ins unfolding do_insert_partition_def Let_def nt
      by (simp add: l ns0)
    have "ways_only (p # ns) ?s1 ?s'" using pm b0 unfolding ways_only_def ns0
      by (intro exI [of _ pool] exI [of _ m]) (simp add: g0)
    moreover have "balanced ?s' hw W"
      using s'(3) by (auto simp: balanced_def part_ok_def Let_def intro!: exI [of _ "[W]"])
    ultimately show ?thesis using e by blast
  next
    case False
    define e where "e = (if g = 0 \<or> g = int ?n then 0 else min (W mod Suc ?n) 2)"
    define r where "r = W mod Suc ?n - e"
    have er: "e + r = W mod length ?ns" unfolding len by (auto simp: e_def r_def)
    have ll: "int (length ?ns) - 1 = int ?n" by simp
    have "W mod Suc ?n \<le> ?n" using mod_less_divisor [of "Suc ?n" W] by linarith
    then have el: "W mod length ?ns \<le> cnt (\<lambda>i. i \<noteq> g) [0..int (length ?ns) - 1]"
      unfolding ll len using cnt_other [of g "int ?n"] g by (simp add: ns_def)
    have nb: "e \<le> cnt (\<lambda>i. i = g + 1 \<or> i = g - 1) [0..int (length ?ns) - 1]"
    proof (cases "g = 0 \<or> g = int ?n")
      case True
      then show ?thesis by (simp add: e_def)
    next
      case False
      then show ?thesis unfolding ll using g cnt_two [of "g - 1" "g + 1" "int ?n"] by (simp add: e_def ns_def)
    qed
    have gn: "(word_of_int g :: u32) = of_nat ?n \<longleftrightarrow> g = int ?n"
    proof -
      have "unat (word_of_int g :: u32) = nat g"
        using unat_word_of_int_u32 [of "nat g"] g nW W(1) by (simp add: ns_def)
      then show ?thesis using unat_of_nat_small [of ?n] g nW W(1) by (auto simp: word_unat_eq_iff)
    qed
    have sp: "split_extra (g = 0 \<or> (word_of_int g :: u32) = of_nat ?n) (of_nat (W mod Suc ?n)) = (of_nat e, of_nat r)"
    proof -
      have "W mod Suc ?n \<le> 30" using mod_less_eq_dividend [of W "Suc ?n"] W(1) by linarith
      then show ?thesis unfolding split_extra_nat [OF \<open>W mod Suc ?n \<le> 30\<close>] gn by (simp add: e_def r_def)
    qed
    have lk: "link_at_gap (slist_of ns) p g (int (Suc ?n)) = Some (slist_of ?ns)"
      using link_at_gap_eq [OF d _ g(1)] new(1) g(2) by (simp add: ns_def [symmetric] add.commute)
    have lk2: "link_at_gap (ps_assigned_partitions s) p g (1 + int ?n) = Some (slist_of ?ns)"
      using lk by (simp add: l)
    define up where "up = (g \<le> (if (of_nat ?n :: u32) > 1 then 1 else 0))"
    have sn: "sl_nodes (slist_of ?ns) = ?ns" by simp
    have eq: "do_insert_partition s p (of_nat ?n) (of_nat W) g hw =
        (if up then resize_up hw (\<lambda>i. i = g + 1 \<or> i = g - 1) (\<lambda>i. i \<noteq> g) (of_nat (W div length ?ns)) ?ns 0 0
                 (of_nat e) (of_nat r) ?s1
         else resize_down hw (\<lambda>i. i = g + 1 \<or> i = g - 1) (\<lambda>i. i \<noteq> g) (of_nat (W div length ?ns)) (rev ?ns)
                (int (length ?ns) - 1) (of_nat W - 1) (of_nat e) (of_nat r) ?s1)"
      using False
      unfolding do_insert_partition_def Let_def nt dm nz(2,3) sp prod.case l
      by (simp only: nz(1) nz(2) if_False lk len up_def [symmetric] cache_part_set_t.simps l
          Option.bind.bind_lunit sn) (simp add: lk2)
    have "\<exists>s' ks. do_insert_partition s p (of_nat ?n) (of_nat W) g hw = Some s' \<and> ways_only ?ns ?s1 s' \<and>
        tiled s' hw ?ns 0 0 ks \<and> sum_list ks = W \<and> set ks \<subseteq> {W div length ?ns, W div length ?ns + 1}"
      unfolding eq by (rule resize_all [OF po1 dist _ _ W(1) _ _ er nb el]) (use sub nW in auto)
    then show ?thesis using bal wo by blast
  qed
qed

lemma balanced_ways:
  assumes "tiled s hw ns i w ks" and "j < length ns"
  shows "ns ! j < length (ps_partition_pool s) \<and> cp_nr_ways (ps_partition_pool s ! (ns ! j)) = of_nat (ks ! j) \<and>
    cp_part_id (ps_partition_pool s ! (ns ! j)) = i + int j"
  using assms
proof (induction ns arbitrary: i w ks j)
  case (Cons n ns)
  then show ?case by (cases j) (force simp: part_ok_def Let_def split: list.splits)+
qed simp

lemma tiled_frame:
  "tiled (s\<lparr>ps_free_partitions := f\<rparr>) hw ns i w ks = tiled s hw ns i w ks"
  by (induction ns arbitrary: i w ks) (auto simp: part_ok_def Let_def split: list.splits)

lemma tiled_msr:
  assumes "tiled s True ns i w ks" and "j < length ns"
  shows "ps_msr s (cbm_addr (ns ! j)) = ucast (cp_part_mask (ps_partition_pool s ! (ns ! j)) AND cat_cbm_mask (ps_cat_support s))"
  using assms
proof (induction ns arbitrary: i w ks j)
  case (Cons n ns)
  then show ?case by (cases j) (force simp: part_ok_def Let_def split: list.splits)+
qed simp

lemma gap_loop_range:
  assumes "tiled s hw ns i0 w ks" and "set ks \<subseteq> {f, f + 1}" and "f \<le> 30"
  shows "\<exists>h. gap_loop s (of_nat f) ns i hint mx = Some h \<and> (h = hint \<or> i \<le> h \<and> h < i + int (length ns) - 1) \<and>
    (mx = -1 \<longrightarrow> 2 \<le> length ns \<longrightarrow> i \<le> h)"
  using assms(1,2)
proof (induction ns arbitrary: i0 w ks i hint mx)
  case Nil
  then show ?case by simp
next
  case (Cons a ns)
  show ?case
  proof (cases ns)
    case Nil
    then show ?thesis by simp
  next
    case (Cons b ms)
    obtain ka kb ks' where ks: "ks = ka # kb # ks'" using Cons.prems(1) Cons by (auto split: list.splits)
    have pa: "part_at s a = Some (ps_partition_pool s ! a)" "cp_nr_ways (ps_partition_pool s ! a) = of_nat ka"
      and pb: "part_at s b = Some (ps_partition_pool s ! b)" "cp_nr_ways (ps_partition_pool s ! b) = of_nat kb"
      using Cons.prems(1) Cons ks by (auto simp: part_ok_def Let_def part_at_def mem_simps)
    have k: "f \<le> ka" "ka \<le> f + 1" "f \<le> kb" "kb \<le> f + 1" using Cons.prems(2) ks by auto
    define d where "d = ka + kb - 2 * f"
    have "of_nat ka + of_nat kb - 2 * of_nat f = (of_nat d :: u32)"
      using k by (simp add: d_def of_nat_diff)
    moreover have "sint (of_nat d :: u32) = int d"
    proof -
      have "d \<le> 30" using k assms(3) by (simp add: d_def)
      then show ?thesis using unat_of_nat_small [of d] sint_u32_small [of "of_nat d"] by simp
    qed
    ultimately have bias: "sint (cp_nr_ways (ps_partition_pool s ! a) + cp_nr_ways (ps_partition_pool s ! b) - 2 * of_nat f) = int d"
      using pa(2) pb(2) by simp
    have t: "tiled s hw ns (i0 + 1) (w + ka) (kb # ks')" "set (kb # ks') \<subseteq> {f, f + 1}"
      using Cons.prems ks by auto
    show ?thesis
    proof (cases "int d > mx")
      case True
      obtain h where h: "gap_loop s (of_nat f) ns (i + 1) i (int d) = Some h"
        "h = i \<or> i + 1 \<le> h \<and> h < i + 1 + int (length ns) - 1" using Cons.IH [OF t] by blast
      then show ?thesis using True pa(1) pb(1) bias Cons
        by (intro exI [of _ h]) (auto simp: Let_def)
    next
      case False
      obtain h where h: "gap_loop s (of_nat f) ns (i + 1) hint mx = Some h"
        "h = hint \<or> i + 1 \<le> h \<and> h < i + 1 + int (length ns) - 1" using Cons.IH [OF t] by blast
      then show ?thesis using False pa(1) pb(1) bias Cons
        by (intro exI [of _ h]) (auto simp: Let_def)
    qed
  qed
qed

lemma suitable_place_ok:
  assumes b: "balanced s hw W" and wf: "sl_wf (ps_assigned_partitions s)" and W: "W \<le> 30"
  defines "n \<equiv> length (sl_nodes (ps_assigned_partitions s))"
  assumes n: "2 \<le> n" "n \<le> W"
  shows "\<exists>h. suitable_place_for_insertion rnd s (of_nat W) (of_nat n) = Some h \<and> 1 \<le> h \<and> h < int n"
proof -
  have n30: "n \<le> 30" using n W by simp
  have nz: "(of_nat n :: u32) \<noteq> 0" "(of_nat n :: u32) \<noteq> 1" "unat (of_nat n - 1 :: u32) = n - 1"
    using unat_of_nat_small [OF n30] n by (simp_all add: word_unat_eq_iff unat_sub_u32)
  note dm = of_nat_div_mod_u32 [OF W n30]
  show ?thesis
  proof (cases "W mod n = 0")
    case True
    let ?r = "rnd mod ucast (of_nat n - 1 :: u32)"
    have "unat (ucast (of_nat n - 1 :: u32) :: u64) = n - 1"
      using nz(3) n30 by (simp add: unsigned_ucast_eq take_bit_nat_eq_self)
    then have r: "unat ?r < n - 1" using n(1) by (simp add: unat_mod)
    have "int (unat ?r) < int (n - 1)" using r by (simp only: of_nat_less_iff)
    then have "uint ?r + 1 < int n" using n(1) by simp
    moreover have "0 \<le> uint ?r" by simp
    ultimately show ?thesis using True nz dm unfolding suitable_place_for_insertion_def by simp
  next
    case False
    obtain ks where ks: "tiled s hw (sl_nodes (ps_assigned_partitions s)) 0 0 ks"
      "set ks \<subseteq> {W div n, W div n + 1}"
      using b n(1) by (auto simp: balanced_def Let_def n_def)
    have "W div n \<le> 30" using W div_le_dividend [of W n] by linarith
    then obtain h where "gap_loop s (of_nat (W div n)) (sl_nodes (ps_assigned_partitions s)) 1 (-1) (-1) = Some h"
      "h = -1 \<or> 1 \<le> h \<and> h < 1 + int n - 1" "1 \<le> h"
      using gap_loop_range [OF ks, of 1 "-1" "-1"] n(1) unfolding n_def by auto
    moreover have "(of_nat (W mod n) :: u32) \<noteq> 0"
      using unat_of_nat_small [of "W mod n"] False mod_less_eq_dividend [of W n] W by (auto simp: word_unat_eq_iff)
    ultimately show ?thesis using nz dm unfolding suitable_place_for_insertion_def by auto
  qed
qed

lemma allocation_keeps_tiling_lemma:
  assumes inv: "pset_inv s" and bal: "balanced s hw W" and W: "W \<le> 30"
    and room: "length (sl_nodes (ps_assigned_partitions s)) < W" and fr: "sl_nodes (ps_free_partitions s) = p # fs"
    and hint: "- (2 ^ 31) \<le> hint" "hint < 2 ^ 31"
  shows "\<exists>s' g. allocate_new_partition rnd s (of_nat W) hint = Some (s', p) \<and> pset_inv s' \<and>
    balanced s' True W \<and> sl_nodes (ps_free_partitions s') = fs \<and>
    sl_nodes (ps_assigned_partitions s') =
      take g (sl_nodes (ps_assigned_partitions s)) @ p # drop g (sl_nodes (ps_assigned_partitions s))"
proof -
  let ?ns = "sl_nodes (ps_assigned_partitions s)" and ?n = "length (sl_nodes (ps_assigned_partitions s))"
  note k = inv [unfolded pset_inv_def]
  have la: "ps_assigned_partitions s = slist_of ?ns" using k sl_wf_eq by blast
  have lf: "ps_free_partitions s = slist_of (p # fs)" using k sl_wf_eq fr by metis
  have dfs: "distinct (p # fs)" using k lf by (metis sl_wf_slist_of)
  have pn: "p \<notin> set ?ns" using k fr by auto
  let ?s1 = "s\<lparr>ps_free_partitions := slist_of fs\<rparr>"
  have rem: "remove_sized_list (ps_free_partitions s) p = Some (slist_of fs)"
    using remove_sized_list_split [of p "[]" fs] lf by simp
  have hd: "head_sized_list (ps_free_partitions s) = Some p" using lf by simp
  have n30: "?n \<le> 30" using room W by simp
  have lt2: "(of_nat ?n :: u32) < 2 \<longleftrightarrow> ?n < 2" using unat_of_nat_small [OF n30] by (simp add: word_less_nat_alt)
  have un: "uint (of_nat ?n :: u32) = int ?n"
    using arg_cong [OF unat_of_nat_small [OF n30], of int] by (simp only: uint_nat)
  have b1: "balanced ?s1 hw W" and wf1: "sl_wf (ps_assigned_partitions ?s1)"
    using bal k by (simp_all add: balanced_def Let_def tiled_frame)
  have "\<exists>g. (if (of_nat ?n :: u32) < 2 then Some 0
      else if hint = -1 \<or> word_of_int hint > (of_nat ?n :: u32)
      then suitable_place_for_insertion rnd ?s1 (of_nat W) (of_nat ?n) else Some hint) = Some g \<and>
      0 \<le> g \<and> g \<le> int ?n"
  proof (cases "?n < 2")
    case True
    then show ?thesis using lt2 by simp
  next
    case False
    have "\<exists>h. suitable_place_for_insertion rnd ?s1 (of_nat W) (of_nat ?n) = Some h \<and> 1 \<le> h \<and> h < int ?n"
      using suitable_place_ok [OF b1 wf1 W, of rnd] False room by simp
    moreover have "0 \<le> hint \<and> hint \<le> int ?n" if "\<not> word_of_int hint > (of_nat ?n :: u32)"
    proof -
      have u: "uint (word_of_int hint :: u32) = hint mod 2 ^ 32" by (simp add: uint_word_of_int)
      have "uint (word_of_int hint :: u32) \<le> int ?n"
        using that un by (simp add: not_less word_le_def)
      then have m: "hint mod 2 ^ 32 \<le> int ?n" by (simp only: u)
      have "0 \<le> hint"
      proof (rule ccontr)
        assume "\<not> 0 \<le> hint"
        then have "(hint + 2 ^ 32) mod 2 ^ 32 = hint + 2 ^ 32" using hint by (intro mod_pos_pos_trivial) simp_all
        moreover have "(hint + 2 ^ 32) mod 2 ^ 32 = hint mod 2 ^ 32" by (simp only: mod_add_self2)
        ultimately have "hint mod 2 ^ 32 = hint + 2 ^ 32" by simp
        then show False using m n30 hint by simp
      qed
      moreover have "hint mod 2 ^ 32 = hint" using calculation hint(2) by simp
      ultimately show ?thesis using m by simp
    qed
    ultimately show ?thesis using False lt2 by auto
  qed
  then obtain g where g: "(if (of_nat ?n :: u32) < 2 then Some 0
      else if hint = -1 \<or> word_of_int hint > (of_nat ?n :: u32)
      then suitable_place_for_insertion rnd ?s1 (of_nat W) (of_nat ?n) else Some hint) = Some g"
    "0 \<le> g" "g \<le> int ?n" by blast
  have po: "pool_ok ?s1" using k by (simp add: pool_ok_def)
  have "\<exists>s' s2. do_insert_partition ?s1 p (of_nat ?n) (of_nat W) g True = Some s' \<and>
    balanced s' True W \<and> ways_only (p # ?ns) s2 s' \<and>
    s2 = ?s1\<lparr>ps_nr_bouncing_ways := of_nat (W mod Suc ?n),
           ps_assigned_partitions := slist_of (take (nat g) ?ns @ p # drop (nat g) ?ns)\<rparr>"
    using do_insert_partition_ok [OF po wf1, of p W g True] pn k fr W room g(2,3) by simp
  then obtain s' where s': "do_insert_partition ?s1 p (of_nat ?n) (of_nat W) g True = Some s'"
    "balanced s' True W"
    "ways_only (p # ?ns) (?s1\<lparr>ps_nr_bouncing_ways := of_nat (W mod Suc ?n),
           ps_assigned_partitions := slist_of (take (nat g) ?ns @ p # drop (nat g) ?ns)\<rparr>) s'" by blast
  have "allocate_new_partition rnd s (of_nat W) hint = Some (s', p)"
    using hd rem g(1) s'(1) k
    by (simp add: allocate_new_partition_def allocate_new_partition_gen_def Let_def sized_list_length_def sl_wf_def)
  moreover have f: "ps_assigned_partitions s' = slist_of (take (nat g) ?ns @ p # drop (nat g) ?ns)"
    "ps_free_partitions s' = slist_of fs" "length (ps_partition_pool s') = length (ps_partition_pool s)"
    using s'(3) by (auto simp: ways_only_def)
  moreover have "pool_ok s'" by (rule ways_only_pool_ok [OF s'(3)]) (use k in \<open>simp add: pool_ok_def\<close>)
  moreover have "distinct (take (nat g) ?ns @ p # drop (nat g) ?ns)"
    using k pn by (intro distinct_insert_mid) (simp_all add: sl_wf_def)
  moreover have "set (take (nat g) ?ns @ p # drop (nat g) ?ns) = insert p (set ?ns)"
    by (metis append_take_drop_id set_append set_simps(2) Un_insert_right)
  ultimately have "pset_inv s'" using k dfs fr unfolding pset_inv_def by simp
  then show ?thesis using \<open>allocate_new_partition rnd s (of_nat W) hint = Some (s', p)\<close> f s'(2) by auto
qed

lemma deallocate_ok:
  assumes inv: "pset_inv s" and bal: "balanced s hw W" and W: "W \<le> 30"
    and ns: "sl_nodes (ps_assigned_partitions s) = as @ p # bs" and nW: "length (as @ p # bs) \<le> W"
  shows "\<exists>s'. deallocate_partition s p (of_nat W) hw' = Some s' \<and> balanced s' hw' W \<and> pool_ok s' \<and>
    ps_assigned_partitions s' = slist_of (as @ bs) \<and> ps_free_partitions s' = ps_free_partitions s \<and>
    length (ps_partition_pool s') = length (ps_partition_pool s) \<and> ps_apps s' = ps_apps s"
proof -
  note k = inv [unfolded pset_inv_def]
  let ?ns = "as @ bs" and ?n = "length (as @ bs)" and ?i = "int (length as)"
  have la: "ps_assigned_partitions s = slist_of (as @ p # bs)" using k sl_wf_eq ns by metis
  have d: "distinct (as @ p # bs)" using k ns by (simp add: sl_wf_def)
  have pa: "p \<notin> set as" using d by simp
  have rem: "remove_sized_list (ps_assigned_partitions s) p = Some (slist_of ?ns)"
    unfolding la by (rule remove_sized_list_split [OF pa])
  obtain ks where ks: "tiled s hw (as @ p # bs) 0 0 ks" using bal ns by (auto simp: balanced_def Let_def)
  have pt: "part_at s p = Some (ps_partition_pool s ! p)" "cp_part_id (ps_partition_pool s ! p) = ?i"
    using balanced_ways [OF ks, of "length as"] by (simp_all add: part_at_def mem_simps)
  have len: "sized_list_length (ps_assigned_partitions s) = Suc ?n" by (simp add: la)
  have nt: "(of_nat (Suc ?n) - 1 :: u32) = of_nat ?n" by simp
  have n30: "?n \<le> 30" using nW W by simp
  have nz: "(of_nat ?n :: u32) = 0 \<longleftrightarrow> ?n = 0" using unat_of_nat_small [OF n30] by (simp add: word_unat_eq_iff)
  show ?thesis
  proof (cases "?n = 0")
    case True
    then have "deallocate_partition s p (of_nat W) hw' =
        Some (s\<lparr>ps_assigned_partitions := slist_of ?ns, ps_nr_bouncing_ways := 0\<rparr>)"
      using pt(1) rem nz unfolding deallocate_partition_def Let_def len nt by simp
    then show ?thesis using True k by (simp add: balanced_def pool_ok_def)
  next
    case False
    define m where "m = W mod ?n"
    have m30: "m \<le> 30" unfolding m_def using W mod_less_eq_dividend [of W ?n] by (rule order_trans [rotated])
    define e where "e = (if ?i = 0 \<or> ?i = int ?n then 0 else min m 2)"
    define r where "r = m - e"
    have er: "e + r = W mod ?n" by (auto simp: e_def r_def m_def)
    have dm: "of_nat W div (of_nat ?n :: u32) = of_nat (W div ?n)" "of_nat W mod (of_nat ?n :: u32) = of_nat m"
      using of_nat_div_mod_u32 [OF W n30] by (simp_all add: m_def)
    have iw: "(word_of_int ?i :: u32) = of_nat ?n \<longleftrightarrow> ?i = int ?n"
    proof -
      have "length as \<le> 30" using n30 by simp
      then show ?thesis using unat_of_nat_small [OF n30] unat_of_nat_small [of "length as"]
        by (auto simp: word_unat_eq_iff)
    qed
    have sp: "split_extra (?i = 0 \<or> (word_of_int ?i :: u32) = of_nat ?n) (of_nat m) = (of_nat e, of_nat r)"
      unfolding split_extra_nat [OF m30] iw by (auto simp: e_def r_def)
    let ?nb = "\<lambda>i. i = ?i \<or> i = ?i - 1"
    let ?s1 = "s\<lparr>ps_nr_bouncing_ways := of_nat m, ps_assigned_partitions := slist_of ?ns\<rparr>"
    define up where "up = (drop_bit 1 (cp_nr_ways (ps_partition_pool s ! p)) + cp_low_way (ps_partition_pool s ! p)
      \<le> drop_bit 1 (of_nat W))"
    have eq: "deallocate_partition s p (of_nat W) hw' =
        (if up then resize_up hw' ?nb (\<lambda>_. True) (of_nat (W div ?n)) ?ns 0 0 (of_nat e) (of_nat r) ?s1
         else resize_down hw' ?nb (\<lambda>_. True) (of_nat (W div ?n)) (rev ?ns) (int ?n - 1)
                (of_nat W - 1) (of_nat e) (of_nat r) ?s1)"
    proof -
      have i2: "int (Suc ?n) - 2 = int ?n - 1" by simp
      show ?thesis using False
        unfolding deallocate_partition_def Let_def len nt pt(1) rem Option.bind.bind_lunit pt(2) sp dm prod.case
          cache_part_set_t.simps up_def [symmetric] i2 slist_of_sels
        by (simp only: nz if_False) (simp add: rem)
    qed
    have "\<exists>s' ks. deallocate_partition s p (of_nat W) hw' = Some s' \<and> ways_only ?ns ?s1 s' \<and>
        tiled s' hw' ?ns 0 0 ks \<and> sum_list ks = W \<and> set ks \<subseteq> {W div ?n, W div ?n + 1}"
      unfolding eq
    proof (rule resize_all)
      show "pool_ok ?s1" using k by (simp add: pool_ok_def)
      show "distinct ?ns" using d by simp
      show "set ?ns \<subseteq> {..<length (ps_partition_pool ?s1)}" using k ns by auto
      show "?ns \<noteq> []" "?n \<le> W" "W \<le> 30" using False nW W by auto
      show "e + r = W mod ?n" by (rule er)
      show "W mod ?n \<le> cnt (\<lambda>_. True) [0..int ?n - 1]"
        using mod_less_divisor [of ?n W] False by (simp del: length_append)
      show "e \<le> cnt ?nb [0..int ?n - 1]"
      proof (cases "?i = 0 \<or> ?i = int ?n")
        case no: False
        then have "0 \<le> ?i - 1" "?i - 1 < ?i" "?i \<le> int ?n - 1" by auto
        then show ?thesis using cnt_two [of "?i - 1" ?i "int ?n - 1"] by (simp add: e_def del: length_append)
      qed (simp add: e_def)
    qed simp
    then obtain s' ks' where s': "deallocate_partition s p (of_nat W) hw' = Some s'" "ways_only ?ns ?s1 s'"
      "tiled s' hw' ?ns 0 0 ks'" "sum_list ks' = W" "set ks' \<subseteq> {W div ?n, W div ?n + 1}" by blast
    have f: "ps_assigned_partitions s' = slist_of ?ns" "ps_free_partitions s' = ps_free_partitions s"
      "length (ps_partition_pool s') = length (ps_partition_pool s)" "ps_apps s' = ps_apps s"
      using s'(2) by (auto simp: ways_only_def)
    have "balanced s' hw' W" using s'(3-5) f(1) by (auto simp: balanced_def Let_def)
    moreover have "pool_ok s'" by (rule ways_only_pool_ok [OF s'(2)]) (use k in \<open>simp add: pool_ok_def\<close>)
    ultimately show ?thesis using s'(1) f by blast
  qed
qed

lemma tiled_masks:
  assumes "tiled s hw ns i w ks" and "w + sum_list ks \<le> 30"
  shows "(\<forall>a b. a < b \<longrightarrow> b < length ns \<longrightarrow>
      cp_part_mask (ps_partition_pool s ! (ns ! a)) AND cp_part_mask (ps_partition_pool s ! (ns ! b)) = 0) \<and>
    foldr (\<lambda>n m. cp_part_mask (ps_partition_pool s ! n) OR m) ns 0 = push_bit w (mask (sum_list ks)) \<and>
    (\<forall>a < length ns. \<forall>j. bit (cp_part_mask (ps_partition_pool s ! (ns ! a))) j \<longrightarrow> w \<le> j)"
  using assms
proof (induction ns arbitrary: i w ks)
  case Nil
  then show ?case by simp
next
  case (Cons n ns)
  obtain k ks' where ks: "ks = k # ks'" using Cons.prems(1) by (auto split: list.splits)
  let ?m = "\<lambda>n. cp_part_mask (ps_partition_pool s ! n)"
  have n: "?m n = push_bit w (mask k)" and t: "tiled s hw ns (i + 1) (w + k) ks'"
    using Cons.prems(1) ks by (simp_all add: part_ok_def Let_def)
  have "w + k + sum_list ks' \<le> 30" using Cons.prems(2) ks by simp
  note IH = Cons.IH [OF t this]
  have dis: "?m n AND ?m (ns ! b) = 0" if "b < length ns" for b
  proof (rule bit_word_eqI)
    fix j show "bit (?m n AND ?m (ns ! b)) j \<longleftrightarrow> bit (0 :: u32) j"
    proof -
      have "w + k \<le> j" if "bit (?m (ns ! b)) j" using IH \<open>b < length ns\<close> that by blast
      then show ?thesis by (auto simp: n bit_simps)
    qed
  qed
  have "push_bit w (mask k) OR push_bit (w + k) (mask (sum_list ks')) = (push_bit w (mask (k + sum_list ks')) :: u32)"
    by (rule bit_word_eqI) (auto simp: bit_simps)
  moreover have "?m ((n # ns) ! a) AND ?m ((n # ns) ! b) = 0" if "a < b" "b < length (n # ns)" for a b
    using that dis IH by (cases a; cases b) auto
  moreover have "w \<le> j" if "a < length (n # ns)" "bit (?m ((n # ns) ! a)) j" for a j
  proof (cases a)
    case 0
    then show ?thesis using that(2) by (simp add: n bit_simps)
  next
    case (Suc b)
    then have "w + k \<le> j" using IH that by auto
    then show ?thesis by simp
  qed
  ultimately show ?case using IH by (auto simp: ks n)
qed

text \<open>A client of a partition set: it allocates a partition when there is a free one and a way for it,
  and gives back the partition at a position of the list (as \<open>remove_empty_partitions\<close> does).\<close>

datatype part_op = Allocate u64 int | Release nat

fun part_step :: "nat \<Rightarrow> part_op \<Rightarrow> cache_part_set_t \<Rightarrow> cache_part_set_t option" where
  "part_step W (Allocate rnd hint) s =
     (if is_empty_sized_list (ps_free_partitions s) \<or> W \<le> sized_list_length (ps_assigned_partitions s)
      then Some s else map_option fst (allocate_new_partition rnd s (of_nat W) (signed_take_bit 31 hint)))"
| "part_step W (Release j) s =
     (if j < length (sl_nodes (ps_assigned_partitions s)) then do {
        let p = sl_nodes (ps_assigned_partitions s) ! j;
        s \<leftarrow> deallocate_partition s p (of_nat W) True;
        fr \<leftarrow> insert_sized_list_head (ps_free_partitions s) p;
        Some (s\<lparr>ps_free_partitions := fr\<rparr>)
      } else Some s)"

definition tiling_inv :: "nat \<Rightarrow> cache_part_set_t \<Rightarrow> bool" where
  "tiling_inv W s \<longleftrightarrow> pset_inv s \<and> balanced s True W \<and> length (sl_nodes (ps_assigned_partitions s)) \<le> W"

lemma pset_length:
  assumes "pset_inv s"
  shows "distinct (sl_nodes (ps_assigned_partitions s))" "distinct (sl_nodes (ps_free_partitions s))"
    "sl_size (ps_assigned_partitions s) = length (sl_nodes (ps_assigned_partitions s))"
    "sl_size (ps_free_partitions s) = length (sl_nodes (ps_free_partitions s))"
  using assms by (simp_all add: pset_inv_def sl_wf_def)

lemma part_step_inv:
  assumes I: "tiling_inv W s" and W: "W \<le> 30"
  shows "\<exists>s'. part_step W op s = Some s' \<and> tiling_inv W s'"
proof (cases op)
  case (Allocate rnd hint)
  show ?thesis
  proof (cases "is_empty_sized_list (ps_free_partitions s) \<or> W \<le> sized_list_length (ps_assigned_partitions s)")
    case True
    then show ?thesis using Allocate I by simp
  next
    case False
    have inv: "pset_inv s" and bal: "balanced s True W" using I by (simp_all add: tiling_inv_def)
    obtain p fs where fr: "sl_nodes (ps_free_partitions s) = p # fs"
      using False pset_length(4) [OF inv] by (cases "sl_nodes (ps_free_partitions s)") (auto simp: is_empty_sized_list_def)
    have room: "length (sl_nodes (ps_assigned_partitions s)) < W"
      using False pset_length(3) [OF inv] by (simp add: sized_list_length_def)
    have h: "- (2 ^ 31) \<le> signed_take_bit 31 hint" "signed_take_bit 31 hint < 2 ^ 31"
      using signed_take_bit_int_greater_eq_minus_exp [of 31 hint] signed_take_bit_int_less_exp [of 31 hint] by simp_all
    obtain s' g where s': "allocate_new_partition rnd s (of_nat W) (signed_take_bit 31 hint) = Some (s', p)"
      "pset_inv s'" "balanced s' True W"
      "sl_nodes (ps_assigned_partitions s') = take g (sl_nodes (ps_assigned_partitions s)) @ p # drop g (sl_nodes (ps_assigned_partitions s))"
      using allocation_keeps_tiling_lemma [OF inv bal W room fr h] by blast
    then have "tiling_inv W s'" using room by (simp add: tiling_inv_def)
    then show ?thesis using Allocate False s'(1) by auto
  qed
next
  case (Release j)
  show ?thesis
  proof (cases "j < length (sl_nodes (ps_assigned_partitions s))")
    case False
    then show ?thesis using Release I by simp
  next
    case True
    have inv: "pset_inv s" and bal: "balanced s True W" using I by (simp_all add: tiling_inv_def)
    note k = inv [unfolded pset_inv_def]
    define as p bs where "as = take j (sl_nodes (ps_assigned_partitions s))"
      and "p = sl_nodes (ps_assigned_partitions s) ! j" and "bs = drop (Suc j) (sl_nodes (ps_assigned_partitions s))"
    have ns: "sl_nodes (ps_assigned_partitions s) = as @ p # bs"
      using True by (simp add: as_def p_def bs_def id_take_nth_drop)
    have "length (as @ p # bs) \<le> W" using I ns by (simp add: tiling_inv_def)
    then obtain s' where s': "deallocate_partition s p (of_nat W) True = Some s'" "balanced s' True W" "pool_ok s'"
      "ps_assigned_partitions s' = slist_of (as @ bs)" "ps_free_partitions s' = ps_free_partitions s"
      "length (ps_partition_pool s') = length (ps_partition_pool s)"
      using deallocate_ok [OF inv bal W ns, of True] by blast
    have lf: "ps_free_partitions s = slist_of (sl_nodes (ps_free_partitions s))" using k sl_wf_eq by blast
    have pf: "p \<notin> set (sl_nodes (ps_free_partitions s))" using k ns by auto
    then have fr: "insert_sized_list_head (ps_free_partitions s') p = Some (slist_of (p # sl_nodes (ps_free_partitions s)))"
      using s'(5) lf by (metis sized_list_simps(3))
    let ?s2 = "s'\<lparr>ps_free_partitions := slist_of (p # sl_nodes (ps_free_partitions s))\<rparr>"
    have "balanced ?s2 True W" using s'(2) by (simp add: balanced_def Let_def tiled_frame)
    moreover have "distinct (as @ p # bs)" using k ns by (simp add: sl_wf_def)
    then have "pset_inv ?s2" using k s' pf pset_length(2) [OF inv] ns unfolding pset_inv_def
      by (auto simp: pool_ok_def)
    ultimately have "tiling_inv W ?s2" using I ns s'(4) by (simp add: tiling_inv_def)
    then show ?thesis using Release True s'(1) fr by (simp add: p_def)
  qed
qed

lemma init_cache_part_set_ok:
  assumes W: "cat_cbm_length cat = of_nat W" "W \<le> 30" and c: "0 < cat_nr_cos_available cat"
  shows "\<exists>s'. init_cache_part_set True s cat = Some (s', 0) \<and> tiling_inv W s' \<and> ps_cat_support s' = cat \<and>
    sl_nodes (ps_assigned_partitions s') = []"
proof -
  define n where "n = unat (cat_nr_cos_available cat - 1)"
  have n: "Suc n = unat (cat_nr_cos_available cat)"
  proof -
    have "0 < unat (cat_nr_cos_available cat)" using c by (simp add: word_less_nat_alt)
    then show ?thesis by (simp add: n_def unat_sub_u32)
  qed
  have part: "\<exists>p. init_part cat i = Some p \<and> cp_clos_id p = int i + 1 \<and> cp_part_index p = int i" for i
    by (simp add: init_part_def Let_def W(1) part_mask_eq [where w = 0 and k = W] W(2))
  let ?f = "\<lambda>i ((pool :: cat_cache_part_t list), (free :: nat sized_list)). do {
            part \<leftarrow> init_part cat i;
            free \<leftarrow> insert_sized_list_tail free i;
            Some (pool @ [part], free) }"
  let ?I = "\<lambda>i ((pool :: cat_cache_part_t list), (free :: nat sized_list)). free = slist_of [0..<i] \<and> length pool = i \<and>
      (\<forall>j < i. cp_clos_id (pool ! j) = int j + 1 \<and> cp_part_index (pool ! j) = int j)"
  have "\<exists>q. foldM ?f [0..<n] ([], init_sized_list) = Some q \<and> ?I n q"
  proof (rule foldM_upt)
    fix i q assume "i < n" "?I i q"
    then show "\<exists>q'. ?f i q = Some q' \<and> ?I (Suc i) q'"
      using part [of i] by (cases q) (auto simp: nth_append less_Suc_eq)
  qed simp
  then obtain pool where p: "foldM ?f [0..<n] ([], init_sized_list) = Some (pool, slist_of [0..<n])"
    "length pool = n" "\<forall>j < n. cp_clos_id (pool ! j) = int j + 1 \<and> cp_part_index (pool ! j) = int j" by auto
  have "cat_nr_cos_available cat \<noteq> 0" using c by auto
  then show ?thesis using p n
    by (simp add: init_cache_part_set_def n_def [symmetric] tiling_inv_def pset_inv_def pool_ok_def balanced_def atLeast0LessThan)
qed

text \<open>C18. Whatever sequence of allocations (with any hints and random numbers) and releases a client does on
  a set just initialised, no step is undefined, and the partitions in use always tile the cache: their
  bitmasks are pairwise disjoint, together they are all the \<open>W\<close> ways, their sizes differ by at most one, and
  the bitmask register of each CLOS in use holds its partition's mask.\<close>

theorem partition_sets_always_tile:
  assumes W: "cat_cbm_length cat = of_nat W" "W \<le> 30" and c: "0 < cat_nr_cos_available cat"
  shows "\<exists>s1 s2. init_cache_part_set True s cat = Some (s1, 0) \<and> foldM (part_step W) ops s1 = Some s2 \<and>
    (let ns = sl_nodes (ps_assigned_partitions s2); msk = (\<lambda>n. cp_part_mask (ps_partition_pool s2 ! n)) in
     (\<forall>a b. a < b \<longrightarrow> b < length ns \<longrightarrow> msk (ns ! a) AND msk (ns ! b) = 0) \<and>
     (ns \<noteq> [] \<longrightarrow> foldr (\<lambda>n m. msk n OR m) ns 0 = mask W \<and>
       (\<forall>n \<in> set ns. \<exists>k. cp_nr_ways (ps_partition_pool s2 ! n) = of_nat k \<and>
          (k = W div length ns \<or> k = W div length ns + 1) \<and>
          ps_msr s2 (IA32_LLC_MASK_0 + word_of_int (int n + 1))
            = ucast (msk n AND cat_cbm_mask (ps_cat_support s2)))))"
proof -
  obtain s1 where s1: "init_cache_part_set True s cat = Some (s1, 0)" "tiling_inv W s1"
    using init_cache_part_set_ok [OF W c] by blast
  have "\<exists>s2. foldM (part_step W) ops s1 = Some s2 \<and> tiling_inv W s2"
    by (rule foldM_invariant [where I = "\<lambda>_. tiling_inv W", OF s1(2)]) (rule part_step_inv [OF _ W(2)])
  then obtain s2 where s2: "foldM (part_step W) ops s1 = Some s2" "tiling_inv W s2" by blast
  let ?ns = "sl_nodes (ps_assigned_partitions s2)"
  show ?thesis
  proof (cases "?ns = []")
    case True
    then show ?thesis using s1(1) s2(1) by simp
  next
    case False
    then obtain ks where ks: "tiled s2 True ?ns 0 0 ks" "sum_list ks = W"
      "set ks \<subseteq> {W div length ?ns, W div length ?ns + 1}"
      using s2(2) by (auto simp: tiling_inv_def balanced_def Let_def)
    note m = tiled_masks [OF ks(1), unfolded ks(2)]
    have "\<exists>k. cp_nr_ways (ps_partition_pool s2 ! n) = of_nat k \<and>
        (k = W div length ?ns \<or> k = W div length ?ns + 1) \<and>
        ps_msr s2 (IA32_LLC_MASK_0 + word_of_int (int n + 1))
          = ucast (cp_part_mask (ps_partition_pool s2 ! n) AND cat_cbm_mask (ps_cat_support s2))"
      if n: "n \<in> set ?ns" for n
    proof -
      obtain j where j: "j < length ?ns" "?ns ! j = n" using n by (auto simp: in_set_conv_nth)
      have "ks ! j \<in> set ks" using j(1) tiled_length [OF ks(1)] by simp
      then have "ks ! j = W div length ?ns \<or> ks ! j = W div length ?ns + 1" using ks(3) by blast
      then show ?thesis using balanced_ways [OF ks(1) j(1)] tiled_msr [OF ks(1) j(1)] j(2)
        by (auto simp: cbm_addr_def)
    qed
    then show ?thesis using s1(1) s2(1) m W(2) False by (simp add: Let_def)
  qed
qed

lemma partition_sets_always_tile_witness:
  "\<exists>s1 s2. init_cache_part_set True
      \<lparr>ps_assigned_partitions = init_sized_list, ps_free_partitions = init_sized_list,
       ps_defered_cos_assignment = init_sized_list, ps_partition_pool = [], ps_default_partition = None,
       ps_nr_bouncing_ways = 0, ps_cat_support = \<lparr>cat_nr_cos_available = 4, cat_cbm_length = 11, cat_cbm_mask = 0x7ff\<rparr>,
       ps_apps = [], ps_msr = (\<lambda>_. 0)\<rparr>
      \<lparr>cat_nr_cos_available = 4, cat_cbm_length = 11, cat_cbm_mask = 0x7ff\<rparr> = Some (s1, 0) \<and>
    foldM (part_step 11) [Allocate 5 (-1), Allocate 7 (-1), Release 1] s1 = Some s2 \<and>
    sl_nodes (ps_assigned_partitions s2) = [1] \<and>
    foldr (\<lambda>n m. cp_part_mask (ps_partition_pool s2 ! n) OR m) (sl_nodes (ps_assigned_partitions s2)) 0 = mask 11"
  (is "\<exists>s1 s2. init_cache_part_set True ?s ?cat = _ \<and> _")
proof -
  have h: "cat_cbm_length ?cat = of_nat 11" "(11 :: nat) \<le> 30" "0 < cat_nr_cos_available ?cat" by simp_all
  obtain s1 s2 where s: "init_cache_part_set True ?s ?cat = Some (s1, 0)" "foldM (part_step 11) [Allocate 5 (-1), Allocate 7 (-1), Release 1] s1 = Some s2"
    and m: "sl_nodes (ps_assigned_partitions s2) \<noteq> [] \<longrightarrow>
      foldr (\<lambda>n m. cp_part_mask (ps_partition_pool s2 ! n) OR m) (sl_nodes (ps_assigned_partitions s2)) 0 = mask 11"
    using partition_sets_always_tile [OF h, of ?s "[Allocate 5 (-1), Allocate 7 (-1), Release 1]"]
    unfolding Let_def by blast
  have "map_option (\<lambda>s. sl_nodes (ps_assigned_partitions s))
      (Option.bind (init_cache_part_set True ?s ?cat)
        (\<lambda>p. foldM (part_step 11) [Allocate 5 (-1), Allocate 7 (-1), Release 1] (fst p))) = Some [1]"
    by (simp add: remove_sized_list_def slist_of_def insert_sized_list_head_def insert_sized_list_tail_def
        insert_before_sized_list_def head_sized_list_def sized_list_length_def
        intel_cat_set_capacity_bitmask_def IA32_LLC_MASK_0_def init_cache_part_set_def init_part_def
        Let_def determine_part_mask_def allocate_new_partition_def allocate_new_partition_gen_def
        do_insert_partition_def is_empty_sized_list_def split_extra_def extra_way_def assign_ways_def
        part_at_def put_part_def mem_simps set_cbm_def link_at_gap_def deallocate_partition_def upt_rec
        signed_take_bit_int_eq_self_iff init_sized_list_def suitable_place_for_insertion_def)
  then have n: "sl_nodes (ps_assigned_partitions s2) = [1]" 
    unfolding s(1) Option.bind.bind_lunit fst_conv s(2) option.map by (rule option.inject [THEN iffD1])
  have "foldr (\<lambda>n m. cp_part_mask (ps_partition_pool s2 ! n) OR m) (sl_nodes (ps_assigned_partitions s2)) 0 = mask 11"
    by (rule m [THEN mp]) (simp only: n list.distinct not_False_eq_True)
  with s n show ?thesis by blast
qed

end
