(* ===== verification/ThreadStats.thy ===== *)
theory ThreadStats
  imports Prelude
begin

text \<open>
  The histogram of thread counts of an application (\<^verbatim>\<open>cache_part.h\<close>): how long each number of active
  threads was observed since the last reset. Times (\<open>ktime_t\<close>) are 64-bit words read as signed, and
  \<open>ktime_get()\<close> is the argument \<open>now\<close>. A shift by 64 or more and an index past the array are \<open>None\<close>.
\<close>

section \<open>State and operations\<close>

type_synonym ktime_t = u64

definition TMON_MAX_THREADS :: nat where "TMON_MAX_THREADS = 64"

record thread_count_stats_t =
  ts_stats :: "ktime_t list"
  ts_last_threadcount_update :: ktime_t
  ts_nr_changes :: u64
  ts_count_mask :: u64
  ts_nr_max_threads :: u32
  ts_aggregate_cpu_usage :: ktime_t
  ts_track_cpu_usage :: bool
  ts_last_cpu_usage_reset :: ktime_t

definition init_thread_count_stats :: "ktime_t \<Rightarrow> thread_count_stats_t" where
  "init_thread_count_stats now =
     \<lparr>ts_stats = replicate (Suc TMON_MAX_THREADS) 0, ts_last_threadcount_update = now, ts_nr_changes = 0,
      ts_count_mask = 0, ts_nr_max_threads = 0, ts_aggregate_cpu_usage = 0, ts_track_cpu_usage = False,
      ts_last_cpu_usage_reset = now\<rparr>"

definition saturate_count :: "int \<Rightarrow> int" where
  "saturate_count c = (if c > int TMON_MAX_THREADS then int TMON_MAX_THREADS else c)"

text \<open>\<open>new_count > nr_max_threads\<close> compares an \<open>int\<close> with an \<open>unsigned\<close>.\<close>

definition update_thread_count_stats_time ::
  "thread_count_stats_t \<Rightarrow> int \<Rightarrow> int \<Rightarrow> ktime_t \<Rightarrow> thread_count_stats_t option" where
  "update_thread_count_stats_time tstats old_count new_count now =
     (if old_count < 0 then Some tstats
      else do {
        let delta = now - ts_last_threadcount_update tstats;
        let agg = (if ts_track_cpu_usage tstats then ts_aggregate_cpu_usage tstats + word_of_int old_count * delta
                   else ts_aggregate_cpu_usage tstats);
        let old = nat (saturate_count old_count);
        let new_count = saturate_count new_count;
        let msk = ts_count_mask tstats;
        cur \<leftarrow> rd (ts_stats tstats) old;
        stats \<leftarrow> wr (ts_stats tstats) old (if old = 0 \<or> \<not> bit msk (old - 1) then delta else cur + delta);
        Some (tstats\<lparr>ts_stats := stats, ts_last_threadcount_update := now, ts_aggregate_cpu_usage := agg,
          ts_count_mask := (if old > 0 then msk OR push_bit (old - 1) 1 else msk),
          ts_nr_changes := (if int old \<noteq> new_count then ts_nr_changes tstats + 1 else ts_nr_changes tstats),
          ts_nr_max_threads := (if word_of_int new_count > ts_nr_max_threads tstats then word_of_int new_count
                                else ts_nr_max_threads tstats)\<rparr>)
      })"

definition reset_thread_count_stats_time ::
  "thread_count_stats_t \<Rightarrow> int \<Rightarrow> ktime_t \<Rightarrow> thread_count_stats_t option" where
  "reset_thread_count_stats_time tstats current_thread_count now = do {
     stats \<leftarrow> wr (ts_stats tstats) 0 0;
     Some (tstats\<lparr>ts_stats := stats, ts_nr_changes := 0,
       ts_nr_max_threads := word_of_int (saturate_count current_thread_count),
       ts_last_threadcount_update := now, ts_last_cpu_usage_reset := now, ts_aggregate_cpu_usage := 0,
       ts_count_mask := 0\<rparr>)
   }"

text \<open>The loops from the maximum count down to 1; the argument is the current \<open>i\<close>.\<close>

fun typical_loop :: "thread_count_stats_t \<Rightarrow> ktime_t \<Rightarrow> nat \<Rightarrow> ktime_t \<Rightarrow> nat option" where
  "typical_loop tstats threshold 0 acum = Some 0"
| "typical_loop tstats threshold (Suc i) acum =
     (if i \<ge> 64 then None
      else if bit (ts_count_mask tstats) i then do {
        t \<leftarrow> rd (ts_stats tstats) (Suc i);
        let acum = t + acum;
        if threshold <s t \<or> threshold <s acum then Some (Suc i)
        else typical_loop tstats threshold i acum
      }
      else typical_loop tstats threshold i acum)"

text \<open>\<open>int i = nr_max_threads\<close>; a negative \<open>i\<close> is set to 0.\<close>

definition start_count :: "thread_count_stats_t \<Rightarrow> nat" where
  "start_count tstats = nat (sint (ts_nr_max_threads tstats))"

definition get_typical_thread_count :: "thread_count_stats_t \<Rightarrow> ktime_t \<Rightarrow> nat option" where
  "get_typical_thread_count tstats threshold = typical_loop tstats threshold (start_count tstats) 0"

definition round_up_div :: "ktime_t \<Rightarrow> ktime_t \<Rightarrow> u32" where
  "round_up_div amount delta = word_of_int (cdiv (sint (amount + delta - 1)) (sint delta))"

definition get_cpu_usage_thread_count_stats :: "thread_count_stats_t \<Rightarrow> ktime_t \<Rightarrow> u32" where
  "get_cpu_usage_thread_count_stats tstats now =
     (let delta = now - ts_last_cpu_usage_reset tstats
      in if delta = 0 then 1 else round_up_div (ts_aggregate_cpu_usage tstats) delta)"

fun percentile_loop ::
  "thread_count_stats_t \<Rightarrow> ktime_t list \<Rightarrow> nat \<Rightarrow> nat \<Rightarrow> ktime_t \<Rightarrow> nat \<Rightarrow> u32 list \<Rightarrow> u32 list option" where
  "percentile_loop tstats threshold_vector thres_count 0 acum idx thread_count = Some thread_count"
| "percentile_loop tstats threshold_vector thres_count (Suc i) acum idx thread_count =
     (if i \<ge> 64 then None
      else if bit (ts_count_mask tstats) i then do {
        t \<leftarrow> rd (ts_stats tstats) (Suc i);
        let acum = t + acum;
        threshold \<leftarrow> rd threshold_vector idx;
        if threshold <s t \<or> threshold <s acum then do {
          thread_count \<leftarrow> wr thread_count idx (word_of_nat (Suc i));
          if Suc idx = thres_count then Some thread_count
          else percentile_loop tstats threshold_vector thres_count i acum (Suc idx) thread_count
        }
        else percentile_loop tstats threshold_vector thres_count i acum idx thread_count
      }
      else percentile_loop tstats threshold_vector thres_count i acum idx thread_count)"

text \<open>The result is the CPU usage and the array \<open>thread_count\<close>, all of which the first loop clears.\<close>

definition get_typical_thread_count_percentile ::
  "thread_count_stats_t \<Rightarrow> ktime_t \<Rightarrow> ktime_t list \<Rightarrow> nat \<Rightarrow> (u32 \<times> u32 list) option" where
  "get_typical_thread_count_percentile tstats now threshold_vector thres_count = do {
     thread_count \<leftarrow> percentile_loop tstats threshold_vector thres_count (start_count tstats) 0 0
                      (replicate thres_count 0);
     Some (get_cpu_usage_thread_count_stats tstats now, thread_count)
   }"

fun weighted_loop :: "thread_count_stats_t \<Rightarrow> nat \<Rightarrow> ktime_t \<Rightarrow> ktime_t option" where
  "weighted_loop tstats 0 acum = Some acum"
| "weighted_loop tstats (Suc i) acum =
     (if i \<ge> 64 then None
      else if bit (ts_count_mask tstats) i then do {
        t \<leftarrow> rd (ts_stats tstats) (Suc i);
        weighted_loop tstats i (t * word_of_nat (Suc i) + acum)
      }
      else weighted_loop tstats i acum)"

text \<open>The two estimates that are traced; the first one is returned.\<close>

definition get_cpu_usage_thread_count_stats_debug ::
  "thread_count_stats_t \<Rightarrow> ktime_t \<Rightarrow> (u32 \<times> u32) option" where
  "get_cpu_usage_thread_count_stats_debug tstats now =
     (let delta = now - ts_last_cpu_usage_reset tstats in
      if delta = 0 then Some (1, 1)
      else do {
        acum \<leftarrow> weighted_loop tstats (start_count tstats) 0;
        Some (round_up_div (ts_aggregate_cpu_usage tstats) delta, round_up_div acum delta)
      })"

section \<open>The histogram as a function of the count\<close>

definition time_at :: "thread_count_stats_t \<Rightarrow> nat \<Rightarrow> ktime_t" where
  "time_at s i = (if 0 < i \<and> bit (ts_count_mask s) (i - 1) then ts_stats s ! i else 0)"

definition ts_ok :: "thread_count_stats_t \<Rightarrow> bool" where
  "ts_ok s \<longleftrightarrow> length (ts_stats s) = Suc TMON_MAX_THREADS \<and> unat (ts_nr_max_threads s) \<le> TMON_MAX_THREADS \<and>
     (\<forall>i. bit (ts_count_mask s) i \<longrightarrow> i < unat (ts_nr_max_threads s))"

lemma start_count_eq: "ts_ok s \<Longrightarrow> start_count s = unat (ts_nr_max_threads s)"
  by (simp add: ts_ok_def start_count_def TMON_MAX_THREADS_def sint_u32_small)

lemma weighted_loop_eq:
  assumes "length (ts_stats s) = Suc TMON_MAX_THREADS"
  shows "n \<le> 64 \<Longrightarrow> weighted_loop s n acum = Some (acum + (\<Sum>i = 1..n. word_of_nat i * time_at s i))"
proof (induction n arbitrary: acum)
  case (Suc n)
  then show ?case using assms
    by (simp add: TMON_MAX_THREADS_def mem_simps time_at_def mult.commute)
qed simp

lemma typical_loop_eq:
  assumes len: "length (ts_stats s) = Suc TMON_MAX_THREADS"
    and nn: "\<forall>i \<le> 64. 0 \<le> sint (time_at s i)" and tot: "(\<Sum>i = 1..64. sint (time_at s i)) < 2 ^ 63"
  shows "n \<le> 64 \<Longrightarrow> sint acum = (\<Sum>i = Suc n..64. sint (time_at s i)) \<Longrightarrow> sint acum \<le> sint threshold \<Longrightarrow>
    \<exists>k. typical_loop s threshold n acum = Some k \<and> k \<le> n \<and>
      (0 < k \<longrightarrow> bit (ts_count_mask s) (k - 1) \<and> sint threshold < (\<Sum>i = k..64. sint (time_at s i))) \<and>
      (\<forall>j. k < j \<longrightarrow> j \<le> n \<longrightarrow> (\<Sum>i = j..64. sint (time_at s i)) \<le> sint threshold)"
proof (induction n arbitrary: acum)
  case (Suc n)
  have n: "n < 64" using Suc.prems(1) by simp
  have S: "(\<Sum>i = Suc n..64. sint (time_at s i)) = sint (time_at s (Suc n)) + (\<Sum>i = Suc (Suc n)..64. sint (time_at s i))"
    using n by (simp add: sum.atLeast_Suc_atMost)
  show ?case
  proof (cases "bit (ts_count_mask s) n")
    case False
    then have "time_at s (Suc n) = 0" by (simp add: time_at_def)
    then have a: "sint acum = (\<Sum>i = Suc n..64. sint (time_at s i))" using Suc.prems(2) S by simp
    then obtain k where k: "typical_loop s threshold n acum = Some k" "k \<le> n"
      "0 < k \<longrightarrow> bit (ts_count_mask s) (k - 1) \<and> sint threshold < (\<Sum>i = k..64. sint (time_at s i))"
      "\<forall>j. k < j \<longrightarrow> j \<le> n \<longrightarrow> (\<Sum>i = j..64. sint (time_at s i)) \<le> sint threshold"
      using Suc.IH [of acum] Suc.prems n by auto
    have "(\<Sum>i = j..64. sint (time_at s i)) \<le> sint threshold" if "k < j" "j \<le> Suc n" for j
      using that k(4) a Suc.prems(3) by (cases "j = Suc n") auto
    then show ?thesis using k(1-3) False n by auto
  next
    case True
    have t: "ts_stats s ! Suc n = time_at s (Suc n)" using True by (simp add: time_at_def)
    let ?t = "time_at s (Suc n)"
    have le: "(\<Sum>i = Suc n..64. sint (time_at s i)) \<le> (\<Sum>i = 1..64. sint (time_at s i))"
      using nn by (intro sum_mono2) auto
    have nn2: "0 \<le> (\<Sum>i = Suc (Suc n)..64. sint (time_at s i))" using nn by (intro sum_nonneg) auto
    have t0: "0 \<le> sint ?t" using nn n by simp
    have a: "sint (?t + acum) = (\<Sum>i = Suc n..64. sint (time_at s i))"
    proof -
      have "sint ?t + sint acum = (\<Sum>i = Suc n..64. sint (time_at s i))" using S Suc.prems(2) by simp
      moreover have "0 \<le> sint ?t + sint acum" "sint ?t + sint acum < 2 ^ 63"
        using t0 nn2 Suc.prems(2) le tot S by linarith+
      ultimately show ?thesis by (simp add: sint_word_ariths signed_take_bit_int_eq_self)
    qed
    have a1: "sint acum \<le> sint (?t + acum)" "sint ?t \<le> sint (?t + acum)"
      using a S Suc.prems(2) t0 nn2 by simp_all
    show ?thesis
    proof (cases "threshold <s ?t + acum")
      case hit: True
      then have "typical_loop s threshold (Suc n) acum = Some (Suc n)"
        using True n len t by (simp add: TMON_MAX_THREADS_def mem_simps)
      moreover have "sint threshold < (\<Sum>i = Suc n..64. sint (time_at s i))" using hit a by (simp add: word_sless_alt)
      ultimately show ?thesis using True by auto
    next
      case miss: False
      then have m: "sint (?t + acum) \<le> sint threshold" by (simp add: word_sless_alt)
      then have "\<not> threshold <s ?t" using a1 by (simp add: word_sless_alt)
      then have e: "typical_loop s threshold (Suc n) acum = typical_loop s threshold n (?t + acum)"
        using True n len t miss by (simp add: TMON_MAX_THREADS_def mem_simps)
      obtain k where k: "typical_loop s threshold n (?t + acum) = Some k" "k \<le> n"
        "0 < k \<longrightarrow> bit (ts_count_mask s) (k - 1) \<and> sint threshold < (\<Sum>i = k..64. sint (time_at s i))"
        "\<forall>j. k < j \<longrightarrow> j \<le> n \<longrightarrow> (\<Sum>i = j..64. sint (time_at s i)) \<le> sint threshold"
        using Suc.IH [OF _ a m] n by auto
      have "(\<Sum>i = j..64. sint (time_at s i)) \<le> sint threshold" if "k < j" "j \<le> Suc n" for j
        using that k(4) a m by (cases "j = Suc n") auto
      then show ?thesis using k(1-3) e by auto
    qed
  qed
qed simp

section \<open>What a sequence of updates records\<close>

text \<open>The client (the scheduler) reports each change of the number of active threads: \<open>cur\<close> is the count
  before the first change and each item has the new count and the time.\<close>

fun run_updates :: "nat \<Rightarrow> (nat \<times> ktime_t) list \<Rightarrow> thread_count_stats_t \<Rightarrow> thread_count_stats_t option" where
  "run_updates cur [] s = Some s"
| "run_updates cur ((c, t) # ops) s = do {
     s \<leftarrow> update_thread_count_stats_time s (int cur) (int c) t;
     run_updates c ops s
   }"

text \<open>The intervals the history \<open>ops\<close> is made of: the count and how long it lasted.\<close>

fun intervals :: "nat \<Rightarrow> 't::minus \<Rightarrow> (nat \<times> 't) list \<Rightarrow> (nat \<times> 't) list" where
  "intervals cur t0 [] = []"
| "intervals cur t0 ((c, t) # ops) = (cur, t - t0) # intervals c t ops"

definition spent :: "(nat \<times> 't::comm_monoid_add) list \<Rightarrow> nat \<Rightarrow> 't" where
  "spent ivs i = sum_list (map snd (filter (\<lambda>(c, d). min c TMON_MAX_THREADS = i) ivs))"

lemma spent_Cons: "spent ((c, d) # ivs) i = (if min c TMON_MAX_THREADS = i then d else 0) + spent ivs i"
  by (simp add: spent_def)

lemma saturate_count_nat: "saturate_count (int c) = int (min c TMON_MAX_THREADS)"
  by (simp add: saturate_count_def)

lemma u32_of_count: "unat (of_nat (min c TMON_MAX_THREADS) :: u32) = min c TMON_MAX_THREADS"
  by (simp add: unat_of_nat TMON_MAX_THREADS_def take_bit_nat_eq_self)

lemma update_step:
  assumes ok: "ts_ok s" and cur: "min cur TMON_MAX_THREADS \<le> unat (ts_nr_max_threads s)"
  shows "\<exists>s'. update_thread_count_stats_time s (int cur) (int c) t = Some s' \<and> ts_ok s' \<and>
    min c TMON_MAX_THREADS \<le> unat (ts_nr_max_threads s') \<and> ts_last_threadcount_update s' = t \<and>
    unat (ts_nr_max_threads s') = max (unat (ts_nr_max_threads s)) (min c TMON_MAX_THREADS) \<and>
    ts_track_cpu_usage s' = ts_track_cpu_usage s \<and> ts_last_cpu_usage_reset s' = ts_last_cpu_usage_reset s \<and>
    ts_aggregate_cpu_usage s' = ts_aggregate_cpu_usage s +
      (if ts_track_cpu_usage s then of_nat cur * (t - ts_last_threadcount_update s) else 0) \<and>
    (\<forall>i. 0 < i \<longrightarrow> time_at s' i = time_at s i +
      (if min cur TMON_MAX_THREADS = i then t - ts_last_threadcount_update s else 0)) \<and>
    ts_stats s' ! 0 = (if cur = 0 then t - ts_last_threadcount_update s else ts_stats s ! 0)"
proof -
  let ?o = "min cur TMON_MAX_THREADS" and ?n = "min c TMON_MAX_THREADS"
  let ?d = "t - ts_last_threadcount_update s" and ?m = "ts_count_mask s"
  have len: "length (ts_stats s) = Suc TMON_MAX_THREADS" and mx: "unat (ts_nr_max_threads s) \<le> TMON_MAX_THREADS"
    and bits: "\<And>i. bit ?m i \<Longrightarrow> i < unat (ts_nr_max_threads s)" using ok by (simp_all add: ts_ok_def)
  define x where "x = (if ?o = 0 \<or> \<not> bit ?m (?o - 1) then ?d else ts_stats s ! ?o + ?d)"
  define mx' where "mx' = (if ts_nr_max_threads s < of_nat ?n then of_nat ?n else ts_nr_max_threads s)"
  define m' where "m' = (if 0 < ?o then ?m OR push_bit (?o - 1) 1 else ?m)"
  define s' where "s' = s\<lparr>ts_stats := (ts_stats s)[?o := x], ts_last_threadcount_update := t,
    ts_aggregate_cpu_usage := (if ts_track_cpu_usage s then ts_aggregate_cpu_usage s + of_nat cur * ?d
      else ts_aggregate_cpu_usage s), ts_count_mask := m',
    ts_nr_changes := (if int ?o \<noteq> int ?n then ts_nr_changes s + 1 else ts_nr_changes s), ts_nr_max_threads := mx'\<rparr>"
  have o: "?o < length (ts_stats s)" by (simp add: len)
  have e: "update_thread_count_stats_time s (int cur) (int c) t = Some s'"
    using o unfolding update_thread_count_stats_time_def Let_def saturate_count_nat nat_int
    by (simp add: rd_Some wr_Some s'_def x_def mx'_def m'_def)
  have mxu: "unat mx' = max (unat (ts_nr_max_threads s)) ?n"
    unfolding mx'_def word_less_nat_alt u32_of_count by (simp add: u32_of_count max_def del: of_nat_min) (auto simp: min_def)
  have b: "bit m' i \<longleftrightarrow> bit ?m i \<or> (0 < ?o \<and> i = ?o - 1)" for i
  proof -
    have "?o - 1 < 64" by (simp add: TMON_MAX_THREADS_def)
    then have "bit (push_bit (?o - 1) 1 :: u64) i \<longleftrightarrow> i = ?o - 1"
      by (auto simp: push_bit_eq_mult bit_exp_iff)
    then show ?thesis by (auto simp only: m'_def bit_or_iff split: if_splits)
  qed
  have "ts_ok s'"
    unfolding ts_ok_def using len mx mxu b bits cur by (auto simp: s'_def) fastforce
  moreover have "time_at s' i = time_at s i + (if ?o = i then ?d else 0)" if i: "0 < i" for i
  proof (cases "?o = i")
    case True
    then show ?thesis using i o b [of "i - 1"] by (auto simp: time_at_def s'_def x_def)
  next
    case False
    then have "bit m' (i - 1) = bit ?m (i - 1)" using i b [of "i - 1"] by auto
    then show ?thesis using False by (simp add: time_at_def s'_def)
  qed
  moreover have "ts_stats s' ! 0 = (if cur = 0 then ?d else ts_stats s ! 0)"
    using o by (auto simp: s'_def x_def TMON_MAX_THREADS_def nth_list_update)
  ultimately show ?thesis using e mxu by (auto simp: s'_def)
qed

lemma run_updates_ok:
  assumes "ts_ok s" and "min cur TMON_MAX_THREADS \<le> unat (ts_nr_max_threads s)"
  shows "\<exists>s'. run_updates cur ops s = Some s' \<and> ts_ok s' \<and>
    ts_track_cpu_usage s' = ts_track_cpu_usage s \<and> ts_last_cpu_usage_reset s' = ts_last_cpu_usage_reset s \<and>
    ts_aggregate_cpu_usage s' = ts_aggregate_cpu_usage s + (if ts_track_cpu_usage s
      then sum_list (map (\<lambda>(c, d). of_nat c * d) (intervals cur (ts_last_threadcount_update s) ops)) else 0) \<and>
    (\<forall>i. 0 < i \<longrightarrow> time_at s' i = time_at s i + spent (intervals cur (ts_last_threadcount_update s) ops) i)"
  using assms
proof (induction ops arbitrary: cur s)
  case Nil
  then show ?case by (simp add: spent_def)
next
  case (Cons op ops)
  obtain c t where op: "op = (c, t)" by (cases op)
  obtain s1 where s1: "update_thread_count_stats_time s (int cur) (int c) t = Some s1" "ts_ok s1"
    "min c TMON_MAX_THREADS \<le> unat (ts_nr_max_threads s1)" "ts_last_threadcount_update s1 = t"
    "ts_track_cpu_usage s1 = ts_track_cpu_usage s" "ts_last_cpu_usage_reset s1 = ts_last_cpu_usage_reset s"
    "ts_aggregate_cpu_usage s1 = ts_aggregate_cpu_usage s +
      (if ts_track_cpu_usage s then of_nat cur * (t - ts_last_threadcount_update s) else 0)"
    "\<forall>i. 0 < i \<longrightarrow> time_at s1 i = time_at s i +
      (if min cur TMON_MAX_THREADS = i then t - ts_last_threadcount_update s else 0)"
    using update_step [OF Cons.prems, of c t] by blast
  from Cons.IH [OF s1(2,3)] s1 show ?case by (auto simp: op spent_Cons)
qed

lemma reset_ok:
  assumes "length (ts_stats s) = Suc TMON_MAX_THREADS"
  shows "\<exists>s'. reset_thread_count_stats_time s (int c) t = Some s' \<and> ts_ok s' \<and>
    unat (ts_nr_max_threads s') = min c TMON_MAX_THREADS \<and> ts_last_threadcount_update s' = t \<and>
    ts_last_cpu_usage_reset s' = t \<and> ts_aggregate_cpu_usage s' = 0 \<and>
    ts_track_cpu_usage s' = ts_track_cpu_usage s \<and> (\<forall>i. time_at s' i = 0)"
  using assms u32_of_count [of c]
  by (simp add: reset_thread_count_stats_time_def saturate_count_nat mem_simps ts_ok_def time_at_def
      del: of_nat_min)


lemma sum_spent:
  fixes ivs :: "(nat \<times> 't::comm_semiring_1) list"
  assumes "\<forall>(c, d) \<in> set ivs. c \<le> TMON_MAX_THREADS"
  shows "(\<Sum>i = 1..64. of_nat i * spent ivs i) = sum_list (map (\<lambda>(c, d). of_nat c * d) ivs)"
  using assms
proof (induction ivs)
  case Nil
  then show ?case by (simp add: spent_def)
next
  case (Cons iv ivs)
  obtain c d where iv: "iv = (c, d)" by (cases iv)
  have c: "min c TMON_MAX_THREADS = c" "c \<le> 64" using Cons.prems by (auto simp: iv TMON_MAX_THREADS_def)
  have "(\<Sum>i = 1..64. of_nat i * spent (iv # ivs) i) =
      (\<Sum>i = 1..64. if c = i then of_nat c * d else 0) + (\<Sum>i = 1..64. of_nat i * spent ivs i)"
    unfolding sum.distrib [symmetric] by (rule sum.cong) (simp_all add: iv spent_Cons c algebra_simps)
  also have "(\<Sum>i = 1..64. if c = i then of_nat c * d else 0) = of_nat c * d"
    using c(2) by (cases "c = 0") simp_all
  finally show ?case using Cons by (simp add: iv)
qed

text \<open>The time spent with \<open>k\<close> threads or more.\<close>

definition at_least :: "(nat \<times> nat) list \<Rightarrow> nat \<Rightarrow> nat" where
  "at_least ivs k = sum_list (map snd (filter (\<lambda>(c, d). k \<le> c) ivs))"

lemma at_least_spent: "k \<le> 64 \<Longrightarrow> (\<Sum>i = k..64. spent ivs i) = at_least ivs k"
proof (induction ivs)
  case (Cons iv ivs)
  obtain c d where iv: "iv = (c, d)" by (cases iv)
  have "(\<Sum>i = k..64. spent (iv # ivs) i) =
      (\<Sum>i = k..64. if min c TMON_MAX_THREADS = i then d else 0) + (\<Sum>i = k..64. spent ivs i)"
    by (simp add: iv spent_Cons sum.distrib)
  then show ?case using Cons by (simp add: iv at_least_def TMON_MAX_THREADS_def)
qed (simp add: spent_def at_least_def)

lemma at_least_le: "sorted (t0 # map snd ops) \<Longrightarrow> at_least (intervals c0 t0 ops) k \<le> last (t0 # map snd ops) - t0"
proof (induction c0 t0 ops rule: intervals.induct)
  case (2 cur t0 c t ops)
  then have "at_least (intervals c t ops) k \<le> last (t # map snd ops) - t" by simp
  moreover have "t \<le> last (t # map snd ops)" using 2(2) by (cases ops rule: rev_cases) auto
  ultimately show ?case using 2(2) by (auto simp: at_least_def)
qed (simp add: at_least_def)

abbreviation to_words :: "(nat \<times> nat) list \<Rightarrow> (nat \<times> ktime_t) list" where
  "to_words \<equiv> map (\<lambda>(c, t). (c, of_nat t))"

lemma spent_to_words:
  "sorted (t0 # map snd ops) \<Longrightarrow> spent (intervals c0 (of_nat t0) (to_words ops)) i = of_nat (spent (intervals c0 t0 ops) i)"
proof (induction c0 t0 ops rule: intervals.induct)
  case (2 cur t0 c t ops)
  then show ?case by (auto simp: spent_Cons of_nat_diff)
qed (simp add: spent_def)

lemma spent_le: "1 \<le> i \<Longrightarrow> i \<le> 64 \<Longrightarrow> spent ivs i \<le> at_least ivs 1"
  using at_least_spent [of 1 ivs] member_le_sum [of i "{1..64}" "spent ivs"] by simp

section \<open>Properties\<close>

text \<open>C28. The CPU usage of an application is the one its histogram gives. After a reset, whatever changes
  of the thread count (to at most 64 threads) are reported at whatever times, no access of the updates
  and of the debugging routine is out of bounds, the time recorded for each count is the time spent
  with it, and the aggregate that \<open>get_cpu_usage_thread_count_stats\<close> divides is the histogram's
  weighted sum: the two estimates of the debugging routine agree, also when the clock wraps around.\<close>

theorem cpu_usage_estimates_agree:
  assumes "length (ts_stats s) = Suc TMON_MAX_THREADS" and "ts_track_cpu_usage s"
    and "c0 \<le> TMON_MAX_THREADS" and "\<forall>(c, t) \<in> set ops. c \<le> TMON_MAX_THREADS"
  shows "\<exists>s0 s'. reset_thread_count_stats_time s (int c0) t0 = Some s0 \<and> run_updates c0 ops s0 = Some s' \<and>
    (\<forall>i \<in> {1..64}. time_at s' i = spent (intervals c0 t0 ops) i) \<and>
    get_cpu_usage_thread_count_stats_debug s' now =
      Some (get_cpu_usage_thread_count_stats s' now, get_cpu_usage_thread_count_stats s' now)"
proof -
  obtain s0 where s0: "reset_thread_count_stats_time s (int c0) t0 = Some s0" "ts_ok s0"
    "unat (ts_nr_max_threads s0) = min c0 TMON_MAX_THREADS" "ts_last_threadcount_update s0 = t0"
    "ts_aggregate_cpu_usage s0 = 0" "ts_track_cpu_usage s0" "\<forall>i. time_at s0 i = 0"
    using reset_ok [OF assms(1), of c0 t0] assms(2) by auto
  obtain s' where s': "run_updates c0 ops s0 = Some s'" "ts_ok s'"
    "ts_aggregate_cpu_usage s' = sum_list (map (\<lambda>(c, d). of_nat c * d) (intervals c0 t0 ops))"
    "\<forall>i. 0 < i \<longrightarrow> time_at s' i = spent (intervals c0 t0 ops) i"
    using run_updates_ok [OF s0(2), of c0 ops] s0(3-7) by auto
  have l: "length (ts_stats s') = Suc TMON_MAX_THREADS" "unat (ts_nr_max_threads s') \<le> 64"
    using s'(2) by (simp_all add: ts_ok_def TMON_MAX_THREADS_def)
  have "\<forall>(c, d) \<in> set (intervals c0 t0 ops). c \<le> TMON_MAX_THREADS"
    using assms(3,4) by (induction c0 t0 ops rule: intervals.induct) auto
  note agg = sum_spent [OF this]
  have z: "time_at s' i = 0" if "unat (ts_nr_max_threads s') < i" for i
    using s'(2) that by (auto simp: ts_ok_def time_at_def)
  have "(\<Sum>i = 1..unat (ts_nr_max_threads s'). of_nat i * time_at s' i) = (\<Sum>i = 1..64. of_nat i * time_at s' i)"
    using l(2) z by (intro sum.mono_neutral_left) auto
  also have "\<dots> = ts_aggregate_cpu_usage s'" unfolding s'(3) agg [symmetric] using s'(4) by (intro sum.cong) auto
  finally have "get_cpu_usage_thread_count_stats_debug s' now =
      Some (get_cpu_usage_thread_count_stats s' now, get_cpu_usage_thread_count_stats s' now)"
    using weighted_loop_eq [OF l(1,2), of 0] start_count_eq [OF s'(2)]
    by (simp add: get_cpu_usage_thread_count_stats_debug_def get_cpu_usage_thread_count_stats_def Let_def)
  then show ?thesis using s0(1) s' by auto
qed

text \<open>C29. The typical thread count is the one its name promises. If the clock does not go back (and stays
  below \<open>2 ^ 63\<close>), the count returned for a threshold is the greatest number of threads such that the
  application spent more than the threshold with that many threads or more, and 0 when there is none.
  (Counts above 64 are recorded as 64.)\<close>

theorem typical_thread_count_is_greatest:
  assumes len: "length (ts_stats s) = Suc TMON_MAX_THREADS" and srt: "sorted (t0 # map snd ops)"
    and lst: "last (t0 # map snd ops) < 2 ^ 63" and thr: "threshold < 2 ^ 63"
  shows "\<exists>s0 s' k. reset_thread_count_stats_time s (int c0) (of_nat t0) = Some s0 \<and>
    run_updates c0 (to_words ops) s0 = Some s' \<and>
    get_typical_thread_count s' (of_nat threshold) = Some k \<and> k \<le> 64 \<and>
    (k > 0 \<longrightarrow> threshold < at_least (intervals c0 t0 ops) k) \<and>
    (\<forall>j. k < j \<and> j \<le> 64 \<longrightarrow> at_least (intervals c0 t0 ops) j \<le> threshold)"
proof -
  let ?ivs = "intervals c0 t0 ops"
  obtain s0 where s0: "reset_thread_count_stats_time s (int c0) (of_nat t0) = Some s0" "ts_ok s0"
    "unat (ts_nr_max_threads s0) = min c0 TMON_MAX_THREADS" "ts_last_threadcount_update s0 = of_nat t0"
    "\<forall>i. time_at s0 i = 0"
    using reset_ok [OF len, of c0 "of_nat t0"] by auto
  obtain s' where s': "run_updates c0 (to_words ops) s0 = Some s'" "ts_ok s'"
    "\<forall>i. 0 < i \<longrightarrow> time_at s' i = of_nat (spent ?ivs i)"
    using run_updates_ok [OF s0(2), of c0 "to_words ops"] s0(3-5) spent_to_words [OF srt, of c0] by auto
  have l: "length (ts_stats s') = Suc TMON_MAX_THREADS" "unat (ts_nr_max_threads s') \<le> 64"
    using s'(2) by (simp_all add: ts_ok_def TMON_MAX_THREADS_def)
  have small: "at_least ?ivs k < 2 ^ 63" for k using at_least_le [OF srt, of c0 k] lst by linarith
  have si: "sint (of_nat n :: u64) = int n" if "n < 2 ^ 63" for n
    using that by (simp add: signed_of_nat signed_take_bit_int_eq_self)
  have t: "sint (time_at s' i) = int (spent ?ivs i)" if "1 \<le> i" "i \<le> 64" for i
    using s'(3) that spent_le [OF that, of ?ivs] small [of 1] by (simp add: si del: One_nat_def)
  have t0: "sint (time_at s' 0) = 0" by (simp add: time_at_def)
  have nn: "\<forall>i \<le> 64. 0 \<le> sint (time_at s' i)" using t t0 by (metis not_less_eq_eq of_nat_0_le_iff le0 One_nat_def le_zero_eq order_refl)
  have sm: "(\<Sum>i = k..64. sint (time_at s' i)) = int (at_least ?ivs k)" if "1 \<le> k" "k \<le> 64" for k
    using that t by (simp add: at_least_spent [symmetric])
  have tot: "(\<Sum>i = 1..64. sint (time_at s' i)) < 2 ^ 63" using sm [of 1] small [of 1] by simp
  let ?n = "unat (ts_nr_max_threads s')"
  have z: "time_at s' i = 0" if "?n < i" for i
    using s'(2) that by (auto simp: ts_ok_def time_at_def)
  have z0: "sint (0 :: u64) = (\<Sum>i = Suc ?n..64. sint (time_at s' i))" using z by simp
  have th: "sint (of_nat threshold :: u64) = int threshold" using si thr by simp
  obtain k where k: "typical_loop s' (of_nat threshold) ?n 0 = Some k" "k \<le> ?n"
    "0 < k \<longrightarrow> bit (ts_count_mask s') (k - 1) \<and> int threshold < (\<Sum>i = k..64. sint (time_at s' i))"
    "\<forall>j. k < j \<longrightarrow> j \<le> ?n \<longrightarrow> (\<Sum>i = j..64. sint (time_at s' i)) \<le> int threshold"
    using typical_loop_eq [OF l(1) nn tot l(2) z0, of "of_nat threshold"] th by auto
  have "at_least ?ivs j \<le> threshold" if "k < j" "j \<le> 64" for j
  proof (cases "j \<le> ?n")
    case True
    then have "(\<Sum>i = j..64. sint (time_at s' i)) \<le> int threshold" using k(4) that(1) by blast
    then show ?thesis using sm [of j] that by (metis (no_types, lifting) One_nat_def Suc_leI le0 le_less_trans of_nat_le_iff)
  next
    case False
    then have "(\<Sum>i = j..64. sint (time_at s' i)) = 0" using z by simp
    then show ?thesis using sm [of j] that by simp
  qed
  moreover have "0 < k \<longrightarrow> threshold < at_least ?ivs k" using k(2,3) l(2) sm [of k] by simp
  ultimately show ?thesis using s0(1) s'(1) k(1,2) l(2) start_count_eq [OF s'(2)]
    by (auto simp: get_typical_thread_count_def)
qed

text \<open>A history: one thread up to time 10, two up to 40, five up to 45, then one up to 100.\<close>

definition sample_ops :: "(nat \<times> nat) list" where
  "sample_ops = [(2, 10), (5, 40), (1, 45), (0, 100)]"

theorem cpu_usage_estimates_agree_witness:
  "\<exists>s0 s'. reset_thread_count_stats_time ((init_thread_count_stats 7)\<lparr>ts_track_cpu_usage := True\<rparr>) 1 0 = Some s0 \<and>
    run_updates 1 (to_words sample_ops) s0 = Some s' \<and> time_at s' 1 = 65 \<and> time_at s' 5 = 5 \<and>
    get_cpu_usage_thread_count_stats_debug s' 100 =
      Some (get_cpu_usage_thread_count_stats s' 100, get_cpu_usage_thread_count_stats s' 100)"
proof -
  let ?s = "(init_thread_count_stats 7)\<lparr>ts_track_cpu_usage := True\<rparr>"
  have "length (ts_stats ?s) = Suc TMON_MAX_THREADS" "ts_track_cpu_usage ?s" "1 \<le> TMON_MAX_THREADS"
    "\<forall>(c, t) \<in> set (to_words sample_ops). c \<le> TMON_MAX_THREADS"
    by (simp_all add: init_thread_count_stats_def TMON_MAX_THREADS_def sample_ops_def)
  from cpu_usage_estimates_agree [OF this, of 0 100] obtain s0 s' where
    s: "reset_thread_count_stats_time ?s 1 0 = Some s0" "run_updates 1 (to_words sample_ops) s0 = Some s'"
    "\<And>i. i \<in> {1..64} \<Longrightarrow> time_at s' i = spent (intervals 1 0 (to_words sample_ops)) i"
    "get_cpu_usage_thread_count_stats_debug s' 100 =
      Some (get_cpu_usage_thread_count_stats s' 100, get_cpu_usage_thread_count_stats s' 100)" by auto
  have "time_at s' 1 = 65" "time_at s' 5 = 5"
    using s(3) [of 1] s(3) [of 5] by (simp_all add: sample_ops_def spent_def TMON_MAX_THREADS_def)
  with s show ?thesis by blast
qed

theorem typical_thread_count_is_greatest_witness:
  "\<exists>s0 s'. reset_thread_count_stats_time (init_thread_count_stats 7) 1 0 = Some s0 \<and>
    run_updates 1 (to_words sample_ops) s0 = Some s' \<and> get_typical_thread_count s' 20 = Some 2"
proof -
  let ?s = "init_thread_count_stats 7"
  have "length (ts_stats ?s) = Suc TMON_MAX_THREADS" "sorted (0 # map snd sample_ops)"
    "last (0 # map snd sample_ops) < 2 ^ 63" "20 < (2 ^ 63 :: nat)"
    by (simp_all add: init_thread_count_stats_def sample_ops_def)
  from typical_thread_count_is_greatest [OF this, of 1] obtain s0 s' k where
    s: "reset_thread_count_stats_time ?s 1 0 = Some s0" "run_updates 1 (to_words sample_ops) s0 = Some s'"
    "get_typical_thread_count s' 20 = Some k" and
    k: "k \<le> 64" "k > 0 \<longrightarrow> 20 < at_least (intervals 1 0 sample_ops) k"
    "\<And>j. k < j \<Longrightarrow> j \<le> 64 \<Longrightarrow> at_least (intervals 1 0 sample_ops) j \<le> 20" by auto
  have "\<not> k < 2" using k(3) [of 2] by (auto simp: sample_ops_def at_least_def)
  moreover have "\<not> 2 < k" using k(2) by (auto simp: sample_ops_def at_least_def split: if_splits)
  ultimately have "k = 2" by simp
  with s show ?thesis by blast
qed

end
