(* ===== verification/RdtCore.thy ===== *)
theory RdtCore
  imports CachePartSet
begin

text \<open>
  Resource Director Technology (\<^verbatim>\<open>intel_rdt_core.c\<close>, \<^verbatim>\<open>intel_rdt.h\<close>): the pool of monitoring identifiers
  (RMIDs) with its reference counters, the bandwidth and occupancy counters, the detection of the
  capabilities and the registers of cache and bandwidth allocation. \<open>cpuid\<close> (what the instruction gives
  for a leaf and a subleaf), \<open>qm_ctr\<close> (what the counter register reads once an event and an RMID are
  selected), the random number and the memory \<open>kmalloc\<close> returns (\<open>None\<close> when it fails) are arguments.
\<close>

section \<open>RMID counters\<close>

definition RMID_VAL_ERROR :: u64 where "RMID_VAL_ERROR = push_bit 63 1"
definition RMID_VAL_UNAVAIL :: u64 where "RMID_VAL_UNAVAIL = push_bit 62 1"
definition RMID_MAX_LLCS :: nat where "RMID_MAX_LLCS = 32"
definition L3_OCCUPANCY_EVENT_ID :: u32 where "L3_OCCUPANCY_EVENT_ID = 1"
definition L3_TOTAL_BW_EVENT_ID :: u32 where "L3_TOTAL_BW_EVENT_ID = 2"
definition L3_LOCAL_BW_EVENT_ID :: u32 where "L3_LOCAL_BW_EVENT_ID = 3"
definition MAX_CMT_COUNT :: u64 where "MAX_CMT_COUNT = push_bit 24 1 - 1"
definition MAX_CMT_COUNT_AMD :: u64 where "MAX_CMT_COUNT_AMD = push_bit 44 1 - 1"

record intel_cmt_support_t =
  cmt_total_rmids :: u32
  cmt_upscaling_factor :: u32
  cmt_event_l3_occupancy :: u32
  cmt_event_l3_total_bw :: u32
  cmt_event_l3_local_bw :: u32
  cmt_mbm_max_count :: u64

record rmid_node_t =
  rn_rmid :: u32
  rn_ref_counter :: u32
  rn_free_rmid :: bool
  rn_raw_bandwidth_value :: "u64 list"
  rn_bandwidth_value :: "u64 list"

text \<open>\<open>__rmid_read\<close>: selecting the event overwrites the selection register, which nothing else reads.\<close>

type_synonym qm_ctr = "u32 \<Rightarrow> u32 \<Rightarrow> u64"

definition counter_delta :: "u64 \<Rightarrow> u64 \<Rightarrow> u64 \<Rightarrow> u64" where
  "counter_delta max_count prev val = (if prev > val then (max_count - prev) + val + 1 else val - prev)"

definition update_local_bandwidth ::
  "qm_ctr \<Rightarrow> intel_cmt_support_t \<Rightarrow> rmid_node_t \<Rightarrow> nat \<Rightarrow> rmid_node_t option" where
  "update_local_bandwidth qm_ctr cmt node llc_id =
     (let val = qm_ctr (rn_rmid node) L3_LOCAL_BW_EVENT_ID in
      if val AND (RMID_VAL_ERROR OR RMID_VAL_UNAVAIL) \<noteq> 0 then Some node
      else do {
        let val = val AND cmt_mbm_max_count cmt;
        raw \<leftarrow> rd (rn_raw_bandwidth_value node) llc_id;
        bw \<leftarrow> wr (rn_bandwidth_value node) llc_id
               (counter_delta (cmt_mbm_max_count cmt) raw val * ucast (cmt_upscaling_factor cmt));
        raw \<leftarrow> wr (rn_raw_bandwidth_value node) llc_id val;
        Some (node\<lparr>rn_bandwidth_value := bw, rn_raw_bandwidth_value := raw\<rparr>)
      })"

record intel_cmt_thread_struct_t =
  td_rmid :: u32
  td_last_llc_utilization :: "u64 list"
  td_last_cmt_value :: "u64 list"
  td_cos_id :: u32

definition CMT_MAX_EVENTS :: nat where "CMT_MAX_EVENTS = 3"

definition initialize_cmt_thread_struct :: "intel_cmt_thread_struct_t \<Rightarrow> intel_cmt_thread_struct_t" where
  "initialize_cmt_thread_struct data = data\<lparr>td_cos_id := 0, td_last_llc_utilization := replicate CMT_MAX_EVENTS 0,
     td_last_cmt_value := replicate CMT_MAX_EVENTS 0\<rparr>"

text \<open>The two bandwidth events have the same code.\<close>

definition update_bw_event ::
  "qm_ctr \<Rightarrow> intel_cmt_support_t \<Rightarrow> u32 \<Rightarrow> u32 \<Rightarrow> intel_cmt_thread_struct_t \<Rightarrow> intel_cmt_thread_struct_t option" where
  "update_bw_event qm_ctr cmt supported event tdata =
     (if supported = 0 then Some tdata
      else let val = qm_ctr (td_rmid tdata) event in
      if val AND (RMID_VAL_ERROR OR RMID_VAL_UNAVAIL) \<noteq> 0 then Some tdata
      else do {
        let i = unat event - 1;
        let val = val AND cmt_mbm_max_count cmt;
        prev \<leftarrow> rd (td_last_cmt_value tdata) i;
        u \<leftarrow> wr (td_last_llc_utilization tdata) i
              (counter_delta (cmt_mbm_max_count cmt) prev val * ucast (cmt_upscaling_factor cmt));
        c \<leftarrow> wr (td_last_cmt_value tdata) i val;
        Some (tdata\<lparr>td_last_llc_utilization := u, td_last_cmt_value := c\<rparr>)
      })"

definition intel_cmt_update_supported_events ::
  "qm_ctr \<Rightarrow> intel_cmt_support_t \<Rightarrow> intel_cmt_thread_struct_t \<Rightarrow> intel_cmt_thread_struct_t option" where
  "intel_cmt_update_supported_events qm_ctr cmt tdata = do {
     tdata \<leftarrow> (if cmt_event_l3_occupancy cmt = 0 then Some tdata
       else let val = qm_ctr (td_rmid tdata) L3_OCCUPANCY_EVENT_ID in
         if val AND (RMID_VAL_ERROR OR RMID_VAL_UNAVAIL) \<noteq> 0 then Some tdata
         else do {
           u \<leftarrow> wr (td_last_llc_utilization tdata) (unat L3_OCCUPANCY_EVENT_ID - 1)
                 ((val AND (push_bit 62 1 - 1)) * ucast (cmt_upscaling_factor cmt));
           Some (tdata\<lparr>td_last_llc_utilization := u\<rparr>)
         });
     tdata \<leftarrow> update_bw_event qm_ctr cmt (cmt_event_l3_total_bw cmt) L3_TOTAL_BW_EVENT_ID tdata;
     update_bw_event qm_ctr cmt (cmt_event_l3_local_bw cmt) L3_LOCAL_BW_EVENT_ID tdata
   }"

section \<open>The RMID pool\<close>

datatype rmid_allocation_policy_t = RMID_FIFO | RMID_LIFO | RMID_RANDOM | NR_RMID_ALLOC_POLICIES

text \<open>The free RMIDs are a list of positions of \<open>node_pool\<close>. \<open>rp_irqs\<close> says whether interrupts are enabled
  on the processor that runs the code; \<open>spin_lock_irqsave\<close> disables them and keeps the old state in the
  caller's \<open>flags\<close>.\<close>

record rmid_pool =
  rp_node_pool :: "rmid_node_t list"
  rp_available_rmids :: "nat list"
  rp_nr_available_rmids :: int
  rp_policy :: rmid_allocation_policy_t
  rp_assigned_rmids :: "u32 list"
  rp_nr_assigned_rmids :: int
  rp_local_bandwidth_counts :: "(u32 \<times> u64) list"
  rp_cmt_support :: "intel_cmt_support_t option"
  rp_irqs :: bool

definition init_node :: "nat \<Rightarrow> rmid_pool \<Rightarrow> rmid_pool option" where
  "init_node i s = do {
     node \<leftarrow> rd (rp_node_pool s) i;
     pool \<leftarrow> wr (rp_node_pool s) i (node\<lparr>rn_rmid := word_of_nat i + 1, rn_free_rmid := True, rn_ref_counter := 0\<rparr>);
     Some (s\<lparr>rp_node_pool := pool, rp_available_rmids := rp_available_rmids s @ [i]\<rparr>)
   }"

text \<open>The arguments \<open>nodes\<close>, \<open>assigned\<close> and \<open>counts\<close> are the three allocations, for
  \<open>nr_available_rmids - 1\<close> items each.\<close>

definition initialize_rmid_pool ::
  "u64 \<Rightarrow> rmid_node_t list option \<Rightarrow> u32 list option \<Rightarrow> (u32 \<times> u64) list option \<Rightarrow> rmid_pool
     \<Rightarrow> (rmid_pool \<times> int) option" where
  "initialize_rmid_pool rnd nodes assigned counts s =
     (case nodes of None \<Rightarrow> Some (s\<lparr>rp_node_pool := []\<rparr>, -12) | Some nodes \<Rightarrow>
     (let s = s\<lparr>rp_node_pool := nodes, rp_nr_assigned_rmids := 0\<rparr> in
      case assigned of None \<Rightarrow> Some (s\<lparr>rp_assigned_rmids := []\<rparr>, -12) | Some assigned \<Rightarrow>
     (let s = s\<lparr>rp_assigned_rmids := assigned\<rparr> in
      case counts of None \<Rightarrow> Some (s\<lparr>rp_local_bandwidth_counts := []\<rparr>, -12) | Some counts \<Rightarrow>
      (let n = nat (rp_nr_available_rmids s);
           s = s\<lparr>rp_local_bandwidth_counts := counts, rp_available_rmids := []\<rparr> in
       if n = 0 then None
       else let start = unat rnd mod n in
         map_option (\<lambda>s. (s, 0)) (foldM init_node ([start..<n] @ [0..<start]) s)))))"

definition select_rmid :: "u64 \<Rightarrow> rmid_pool \<Rightarrow> nat option option" where
  "select_rmid rnd s = (case rp_policy s of
       RMID_FIFO \<Rightarrow> Some (Some (hd (rp_available_rmids s)))
     | RMID_LIFO \<Rightarrow> Some (Some (last (rp_available_rmids s)))
     | RMID_RANDOM \<Rightarrow>
         (let k = unat rnd mod nat (rp_nr_available_rmids s)
          in if k < length (rp_available_rmids s) then Some (Some (rp_available_rmids s ! k)) else None)
     | NR_RMID_ALLOC_POLICIES \<Rightarrow> Some None)"

text \<open>On an empty pool the lock is released with \<open>spin_unlock\<close>, which does not restore the interrupts.\<close>

definition get_rmid :: "qm_ctr \<Rightarrow> u64 \<Rightarrow> rmid_pool \<Rightarrow> (rmid_pool \<times> u32) option" where
  "get_rmid qm_ctr rnd s =
     (let flags = rp_irqs s; s = s\<lparr>rp_irqs := False\<rparr> in
      if rp_available_rmids s = [] then Some (s, 0)
      else do {
        sel \<leftarrow> select_rmid rnd s;
        case sel of
          None \<Rightarrow> Some (s\<lparr>rp_irqs := flags\<rparr>, 0)
        | Some i \<Rightarrow> do {
            node \<leftarrow> rd (rp_node_pool s) i;
            assigned \<leftarrow> (if rp_nr_assigned_rmids s < 0 then None
                         else wr (rp_assigned_rmids s) (nat (rp_nr_assigned_rmids s)) (rn_rmid node));
            cmt \<leftarrow> rp_cmt_support s;
            node' \<leftarrow> update_local_bandwidth qm_ctr cmt
                       (node\<lparr>rn_free_rmid := False, rn_ref_counter := rn_ref_counter node + 1\<rparr>) 0;
            pool \<leftarrow> wr (rp_node_pool s) i node';
            Some (s\<lparr>rp_available_rmids := remove1 i (rp_available_rmids s), rp_node_pool := pool,
                    rp_nr_available_rmids := rp_nr_available_rmids s - 1, rp_assigned_rmids := assigned,
                    rp_nr_assigned_rmids := rp_nr_assigned_rmids s + 1, rp_irqs := flags\<rparr>, rn_rmid node)
          }
      })"

definition set_cmt_policy :: "rmid_allocation_policy_t \<Rightarrow> rmid_pool \<Rightarrow> rmid_pool" where
  "set_cmt_policy new_policy s = s\<lparr>rp_policy := new_policy\<rparr>"

definition compact :: "u32 list \<Rightarrow> nat \<Rightarrow> nat \<Rightarrow> u32 list option" where
  "compact a i n = foldM (\<lambda>j a. do { x \<leftarrow> rd a (j + 1); wr a j x }) [i..<n - 1] a"

definition put_rmid :: "u32 \<Rightarrow> rmid_pool \<Rightarrow> rmid_pool option" where
  "put_rmid rmid s =
     (if rmid = 0 then Some s
      else do {
        let i = unat (rmid - 1);
        node \<leftarrow> rd (rp_node_pool s) i;
        if rn_free_rmid node then Some s
        else do {
          let node = node\<lparr>rn_ref_counter := rn_ref_counter node - 1\<rparr>;
          if rn_ref_counter node \<noteq> 0 then do {
            pool \<leftarrow> wr (rp_node_pool s) i node;
            Some (s\<lparr>rp_node_pool := pool\<rparr>)
          } else do {
            pool \<leftarrow> wr (rp_node_pool s) i (node\<lparr>rn_free_rmid := True\<rparr>);
            let n = nat (rp_nr_assigned_rmids s);
            if n > length (rp_assigned_rmids s) then None else do {
              let k = length (takeWhile (\<lambda>r. r \<noteq> rn_rmid node) (take n (rp_assigned_rmids s)));
              assigned \<leftarrow> compact (rp_assigned_rmids s) k n;
              Some (s\<lparr>rp_node_pool := pool, rp_available_rmids := rp_available_rmids s @ [i],
                      rp_nr_available_rmids := rp_nr_available_rmids s + 1, rp_assigned_rmids := assigned,
                      rp_nr_assigned_rmids := rp_nr_assigned_rmids s - 1\<rparr>)
            }
          }
        }
      })"

definition use_rmid :: "u32 \<Rightarrow> rmid_pool \<Rightarrow> rmid_pool option" where
  "use_rmid rmid s =
     (if rmid = 0 then Some s
      else do {
        let i = unat (rmid - 1);
        node \<leftarrow> rd (rp_node_pool s) i;
        if rn_free_rmid node then Some s
        else do {
          pool \<leftarrow> wr (rp_node_pool s) i (node\<lparr>rn_ref_counter := rn_ref_counter node + 1\<rparr>);
          Some (s\<lparr>rp_node_pool := pool\<rparr>)
        }
      })"

text \<open>The result has the number of RMIDs and the aggregate of their bandwidths.\<close>

definition intel_rdt_syswide_read_localbw ::
  "qm_ctr \<Rightarrow> nat \<Rightarrow> rmid_pool \<Rightarrow> (rmid_pool \<times> u32 \<times> u64) option" where
  "intel_rdt_syswide_read_localbw qm_ctr llc_id s = do {
     cmt \<leftarrow> rp_cmt_support s;
     (s, aggregate) \<leftarrow> foldM (\<lambda>i (s, aggregate). do {
         r \<leftarrow> rd (rp_assigned_rmids s) i;
         let k = unat (r - 1);
         node \<leftarrow> rd (rp_node_pool s) k;
         node \<leftarrow> update_local_bandwidth qm_ctr cmt node llc_id;
         pool \<leftarrow> wr (rp_node_pool s) k node;
         v \<leftarrow> rd (rn_bandwidth_value node) llc_id;
         counts \<leftarrow> wr (rp_local_bandwidth_counts s) k (rn_rmid node, v);
         Some (s\<lparr>rp_node_pool := pool, rp_local_bandwidth_counts := counts\<rparr>, aggregate + v)
       }) [0..<nat (rp_nr_assigned_rmids s)] (s, 0);
     Some (s, word_of_int (rp_nr_assigned_rmids s), aggregate)
   }"

section \<open>Capabilities\<close>

datatype x86_vendor = X86_VENDOR_INTEL | X86_VENDOR_AMD | X86_VENDOR_OTHER

record cpuid_regs_t =
  r_eax :: u32
  r_ebx :: u32
  r_ecx :: u32
  r_edx :: u32

type_synonym cpuid = "u32 \<Rightarrow> u32 \<Rightarrow> cpuid_regs_t"

definition ENOTSUPP :: int where "ENOTSUPP = 524"

definition qos_extensions_probe :: "cpuid \<Rightarrow> x86_vendor \<Rightarrow> int" where
  "qos_extensions_probe cpuid vendor =
     (if \<not> (vendor = X86_VENDOR_INTEL \<or> vendor = X86_VENDOR_AMD) then - ENOTSUPP
      else if r_eax (cpuid 0 0) < 7 then - ENOTSUPP
      else if \<not> bit (r_ebx (cpuid 7 0)) 12 then - ENOTSUPP
      else if \<not> bit (r_ebx (cpuid 0x0F 0)) 1 then - ENOTSUPP
      else 0)"

definition intel_cmt_probe :: "cpuid \<Rightarrow> x86_vendor \<Rightarrow> int" where
  "intel_cmt_probe cpuid vendor =
     (if vendor \<noteq> X86_VENDOR_INTEL then - ENOTSUPP else qos_extensions_probe cpuid vendor)"

definition amd_qos_probe :: "cpuid \<Rightarrow> x86_vendor \<Rightarrow> int" where
  "amd_qos_probe cpuid vendor =
     (if vendor \<noteq> X86_VENDOR_AMD then - ENOTSUPP else qos_extensions_probe cpuid vendor)"

definition l2_cat_probe :: "cpuid \<Rightarrow> x86_vendor \<Rightarrow> int \<Rightarrow> int" where
  "l2_cat_probe cpuid vendor processor_model =
     (if vendor \<noteq> X86_VENDOR_INTEL then - ENOTSUPP
      else if processor_model = 183 then 0
      else if \<not> bit (r_ebx (cpuid 0x10 0)) 2 then - ENOTSUPP
      else 0)"

definition intel_cmt_initialize ::
  "cpuid \<Rightarrow> x86_vendor \<Rightarrow> u64 \<Rightarrow> rmid_node_t list option \<Rightarrow> u32 list option \<Rightarrow> (u32 \<times> u64) list option
     \<Rightarrow> rmid_pool \<Rightarrow> (rmid_pool \<times> int) option" where
  "intel_cmt_initialize cpuid vendor rnd nodes assigned counts s =
     (let r = cpuid 0x0F 1;
          supported_events = r_edx r AND 7;
          cmt_support = \<lparr>cmt_total_rmids = r_ecx r, cmt_upscaling_factor = r_ebx r,
            cmt_event_l3_occupancy = (if bit supported_events 0 then L3_OCCUPANCY_EVENT_ID else 0),
            cmt_event_l3_total_bw = (if bit supported_events 1 then L3_TOTAL_BW_EVENT_ID else 0),
            cmt_event_l3_local_bw = (if bit supported_events 2 then L3_LOCAL_BW_EVENT_ID else 0),
            cmt_mbm_max_count = (if vendor = X86_VENDOR_AMD then MAX_CMT_COUNT_AMD else MAX_CMT_COUNT)\<rparr>
      in do {
        (s, err) \<leftarrow> initialize_rmid_pool rnd nodes assigned counts (s\<lparr>rp_nr_available_rmids := sint (r_ecx r)\<rparr>);
        if err \<noteq> 0 then Some (s, -12) else Some (s\<lparr>rp_cmt_support := Some cmt_support\<rparr>, 0)
      })"

text \<open>\<open>(1 << cat_cbm_length) - 1\<close> shifts an \<open>int\<close>: undefined from 31 ways on.\<close>

definition cbm_mask_of :: "u32 \<Rightarrow> u32 option" where
  "cbm_mask_of len = (if unat len < 31 then Some (push_bit (unat len) 1 - 1) else None)"

definition intel_cat_initialize :: "cpuid \<Rightarrow> msr_file \<Rightarrow> (msr_file \<times> intel_cat_support_t) option" where
  "intel_cat_initialize cpuid m = do {
     let r = cpuid 0x10 1;
     let len = (r_eax r AND 0x1f) + 1;
     msk \<leftarrow> cbm_mask_of len;
     let cat_support = \<lparr>cat_nr_cos_available = (r_edx r AND 0xff) + 1, cat_cbm_length = len, cat_cbm_mask = msk\<rparr>;
     Some (fold (\<lambda>i m. m(IA32_LLC_MASK_0 + word_of_nat i := ucast msk))
             [0..<unat (cat_nr_cos_available cat_support)] m, cat_support)
   }"

record intel_mba_support_t =
  mba_is_supported :: u32
  mba_nr_cos_available :: u32
  mba_is_linear :: u32
  mba_max_throtling :: u32
  mba_start_msr :: u32

definition IA32_L2_QOS_EXT_BW_THRTL_0 :: u32 where "IA32_L2_QOS_EXT_BW_THRTL_0 = 0xd50"
definition L3QOS_BW_CONTROL_0 :: u32 where "L3QOS_BW_CONTROL_0 = 0xC0000200"
definition IA32_L2_MASK_0 :: u32 where "IA32_L2_MASK_0 = 0xd10"

definition amd_mba_initialize :: "cpuid \<Rightarrow> (intel_mba_support_t \<times> bool) option" where
  "amd_mba_initialize cpuid = do {
     let supported = r_ebx (cpuid 0x80000020 0) AND 2;
     let r = cpuid 0x80000020 1;
     mx \<leftarrow> cbm_mask_of (r_eax r);
     Some (\<lparr>mba_is_supported = supported, mba_nr_cos_available = r_edx r + 1, mba_is_linear = 0,
            mba_max_throtling = mx, mba_start_msr = L3QOS_BW_CONTROL_0\<rparr>, supported = 0)
   }"

definition intel_mba_initialize :: "cpuid \<Rightarrow> x86_vendor \<Rightarrow> (intel_mba_support_t \<times> bool) option" where
  "intel_mba_initialize cpuid vendor =
     (if vendor = X86_VENDOR_AMD then amd_mba_initialize cpuid
      else let supported = r_ebx (cpuid 0x10 0) AND 8; r = cpuid 0x10 3 in
        Some (\<lparr>mba_is_supported = supported, mba_nr_cos_available = (r_edx r AND 31) + 1,
               mba_is_linear = drop_bit 2 (r_ecx r AND 4), mba_max_throtling = (r_eax r AND 23) + 1,
               mba_start_msr = IA32_L2_QOS_EXT_BW_THRTL_0\<rparr>, supported = 0))"

section \<open>Allocation registers\<close>

definition EINVAL :: int where "EINVAL = 22"

text \<open>A result code, and the value read when it is 0.\<close>

definition get_cat_cbm :: "msr_file \<Rightarrow> intel_cat_support_t \<Rightarrow> u32 \<Rightarrow> u64 option" where
  "get_cat_cbm m cat_support clos =
     (if clos \<ge> cat_nr_cos_available cat_support then None
      else Some (m (IA32_LLC_MASK_0 + clos) AND ucast (cat_cbm_mask cat_support)))"

definition get_mba_setting :: "msr_file \<Rightarrow> intel_mba_support_t \<Rightarrow> u32 \<Rightarrow> u64 option" where
  "get_mba_setting m mba_support clos =
     (if mba_is_supported mba_support = 0 then None
      else if clos \<ge> mba_nr_cos_available mba_support then None
      else Some (m (mba_start_msr mba_support + clos)))"

definition intel_mba_set_delay_values ::
  "msr_file \<Rightarrow> intel_mba_support_t \<Rightarrow> u32 \<Rightarrow> u32 \<Rightarrow> msr_file \<times> int" where
  "intel_mba_set_delay_values m mba_support idx val =
     (if mba_is_supported mba_support = 0 \<or> idx \<ge> mba_nr_cos_available mba_support then (m, - EINVAL)
      else (m(mba_start_msr mba_support + idx := ucast val), 0))"

text \<open>The L2 structure has the fields of the L3 one and two more.\<close>

record intel_l2cat_support_t = intel_cat_support_t +
  cat_shareable_mask :: u32
  core_type :: u8

definition l2_cat_populate_capabilities :: "cpuid \<Rightarrow> u8 \<Rightarrow> intel_l2cat_support_t option" where
  "l2_cat_populate_capabilities cpuid coretype = do {
     let r = cpuid 0x10 2;
     let len = (r_eax r AND 0x1f) + 1;
     msk \<leftarrow> cbm_mask_of len;
     Some \<lparr>cat_nr_cos_available = (r_edx r AND 0xffff) + 1, cat_cbm_length = len, cat_cbm_mask = msk,
           cat_shareable_mask = r_ebx r, core_type = coretype\<rparr>
   }"

definition intel_l2_cat_set_capacity_bitmask ::
  "msr_file \<Rightarrow> intel_l2cat_support_t \<Rightarrow> u32 \<Rightarrow> u32 \<Rightarrow> msr_file \<times> int" where
  "intel_l2_cat_set_capacity_bitmask m cat_support cosid msk =
     (if cosid \<ge> cat_nr_cos_available cat_support then (m, - EINVAL)
      else (m(IA32_L2_MASK_0 + cosid := ucast (msk AND cat_cbm_mask cat_support)), 0))"

text \<open>The error code is returned as an \<open>unsigned\<close>.\<close>

definition intel_l2_cat_get_capacity_bitmask :: "msr_file \<Rightarrow> intel_l2cat_support_t \<Rightarrow> u32 \<Rightarrow> u32" where
  "intel_l2_cat_get_capacity_bitmask m cat_support cosid =
     (if cosid \<ge> cat_nr_cos_available cat_support then word_of_int (- EINVAL)
      else ucast (m (IA32_L2_MASK_0 + cosid) AND ucast (cat_cbm_mask cat_support)))"

end
