(* ===== verification/RdtPool.thy ===== *)
theory RdtPool
  imports RdtCore "HOL-Library.Multiset"
begin

text \<open>
  Properties of the RDT code: the counters are differences modulo their width, the RMID pool counts
  references and never gives an RMID twice, and what is wrong with its initialisation and with an
  empty pool.
\<close>

section \<open>Counters that wrap around\<close>

lemma mod_increment:
  assumes "t0 \<le> t1" and "t1 < t0 + m"
  shows "if t1 mod m < t0 mod m then t1 - t0 + t0 mod m = m + t1 mod m else t1 - t0 + t0 mod m = (t1 mod m :: nat)"
proof -
  define d where "d = t1 - t0"
  have d: "t1 = t0 + d" "d < m" using assms by (simp_all add: d_def)
  have e: "t1 mod m = (t0 mod m + d) mod m" unfolding d by (simp add: mod_add_left_eq)
  define a b where "a = t0 mod m" and "b = t1 mod m"
  have r: "a < m" using d by (simp add: a_def)
  have dd: "t1 - t0 = d" by (simp add: d_def)
  have ab: "b = (if a + d < m then a + d else a + d - m)"
  proof -
    have e': "b = (a + d) mod m" using e by (simp only: a_def b_def)
    show ?thesis
    proof (cases "a + d < m")
      case True
      then show ?thesis using e' by simp
    next
      case False
      then have "(a + d) mod m = (a + d - m) mod m" by (simp add: le_mod_geq)
      then show ?thesis using e' False d(2) r by simp
    qed
  qed
  show ?thesis unfolding a_def [symmetric] b_def [symmetric] dd
    using ab d(2) r by (cases "a + d < m") simp_all
qed

lemma counter_delta_mod:
  assumes k: "k < 64" and t: "t0 \<le> t1" "t1 < t0 + 2 ^ k"
  shows "counter_delta (2 ^ k - 1) (of_nat (t0 mod 2 ^ k)) (of_nat (t1 mod 2 ^ k)) = of_nat (t1 - t0)"
proof -
  let ?a = "t0 mod 2 ^ k" and ?b = "t1 mod 2 ^ k"
  have p: "(2::nat) ^ k \<le> 2 ^ 63" using k by (intro power_increasing) auto
  have ab: "?a < 2 ^ 64" "?b < 2 ^ 64"
    using p less_le_trans [OF mod_less_divisor [of "2 ^ k" t0], of "2 ^ 64"]
      less_le_trans [OF mod_less_divisor [of "2 ^ k" t1], of "2 ^ 64"] by simp_all
  have lt: "(of_nat ?b < (of_nat ?a :: u64)) \<longleftrightarrow> ?b < ?a"
    using ab by (simp add: word_less_nat_alt unat_of_nat take_bit_nat_eq_self)
  note m = mod_increment [OF t]
  show ?thesis
  proof (cases "?b < ?a")
    case True
    then have "of_nat (t1 - t0) + of_nat ?a = (of_nat (2 ^ k + ?b) :: u64)"
      using m unfolding of_nat_add [symmetric] by simp
    then have "of_nat (t1 - t0) = (2 ^ k + of_nat ?b - of_nat ?a :: u64)" by (simp add: algebra_simps)
    then show ?thesis using True lt by (simp add: counter_delta_def)
  next
    case False
    then have "of_nat (t1 - t0) + of_nat ?a = (of_nat ?b :: u64)"
      using m unfolding of_nat_add [symmetric] by simp
    then show ?thesis using False lt by (simp add: counter_delta_def algebra_simps)
  qed
qed

text \<open>A reading without the two status bits.\<close>

lemma reading_ok:
  assumes "k \<le> 62"
  shows "of_nat (t mod 2 ^ k) AND (RMID_VAL_ERROR OR RMID_VAL_UNAVAIL) = (0 :: u64)"
    and "of_nat (t mod 2 ^ k) AND (2 ^ k - 1) = (of_nat (t mod 2 ^ k) :: u64)"
proof -
  have b: "\<not> bit (of_nat (t mod 2 ^ k) :: u64) j" if "k \<le> j" for j
    using that by (simp add: take_bit_eq_mod [symmetric] of_nat_take_bit bit_take_bit_iff)
  show "of_nat (t mod 2 ^ k) AND (RMID_VAL_ERROR OR RMID_VAL_UNAVAIL) = (0 :: u64)"
  proof (rule bit_word_eqI)
    fix j assume "j < LENGTH(64)"
    show "bit (of_nat (t mod 2 ^ k) AND (RMID_VAL_ERROR OR RMID_VAL_UNAVAIL)) j \<longleftrightarrow> bit (0 :: u64) j"
      using b [of j] assms
      by (auto simp: bit_simps RMID_VAL_ERROR_def RMID_VAL_UNAVAIL_def simp del: push_bit_of_1)
  qed
  show "of_nat (t mod 2 ^ k) AND (2 ^ k - 1) = (of_nat (t mod 2 ^ k) :: u64)"
    by (simp add: mask_eq_exp_minus_1 [symmetric] take_bit_eq_mask [symmetric] take_bit_eq_mod [symmetric]
        of_nat_take_bit)
qed

lemma update_bw_event_ok:
  assumes k: "k \<le> 62" "cmt_mbm_max_count cmt = 2 ^ k - 1" and t: "t0 \<le> t1" "t1 < t0 + 2 ^ k" "supported \<noteq> 0"
    and q: "qm_ctr (td_rmid d) ev = of_nat (t1 mod 2 ^ k)"
    and l: "unat ev - 1 < length (td_last_cmt_value d)" "unat ev - 1 < length (td_last_llc_utilization d)"
      "td_last_cmt_value d ! (unat ev - 1) = of_nat (t0 mod 2 ^ k)"
  shows "update_bw_event qm_ctr cmt supported ev d = Some (d\<lparr>
    td_last_llc_utilization := (td_last_llc_utilization d)
      [unat ev - 1 := of_nat (t1 - t0) * ucast (cmt_upscaling_factor cmt)],
    td_last_cmt_value := (td_last_cmt_value d)[unat ev - 1 := of_nat (t1 mod 2 ^ k)]\<rparr>)"
  using t(3) l k reading_ok [OF k(1), of t1] counter_delta_mod [OF _ t(1,2)]
  by (simp add: update_bw_event_def q rd_Some wr_Some Let_def)

text \<open>C27. What a thread is charged is its own traffic, also when a counter wraps around. If the total and
  local bandwidth counters of the thread's RMID count \<open>t\<close> and \<open>l\<close> units since they were reset (modulo their
  width of \<open>k\<close> bits), and they were \<open>t0\<close> and \<open>l0\<close> at the last reading with less than a full turn since,
  the update stores the increments and the occupancy in bytes, remembers the readings for the
  next time and stays in the bounds of its arrays.\<close>

theorem thread_charged_its_traffic:
  assumes "k \<le> 62" and "cmt_mbm_max_count cmt = 2 ^ k - 1"
    and "cmt_event_l3_occupancy cmt \<noteq> 0" and "cmt_event_l3_total_bw cmt \<noteq> 0" and "cmt_event_l3_local_bw cmt \<noteq> 0"
    and "length (td_last_llc_utilization d) = CMT_MAX_EVENTS" and "length (td_last_cmt_value d) = CMT_MAX_EVENTS"
    and "qm_ctr (td_rmid d) L3_OCCUPANCY_EVENT_ID = of_nat occ" and "occ < 2 ^ 62"
    and "qm_ctr (td_rmid d) L3_TOTAL_BW_EVENT_ID = of_nat (t mod 2 ^ k)" and "t0 \<le> t" and "t < t0 + 2 ^ k"
    and "qm_ctr (td_rmid d) L3_LOCAL_BW_EVENT_ID = of_nat (l mod 2 ^ k)" and "l0 \<le> l" and "l < l0 + 2 ^ k"
    and "td_last_cmt_value d ! 1 = of_nat (t0 mod 2 ^ k)" and "td_last_cmt_value d ! 2 = of_nat (l0 mod 2 ^ k)"
  shows "intel_cmt_update_supported_events qm_ctr cmt d = Some (d\<lparr>
    td_last_llc_utilization := [of_nat occ * ucast (cmt_upscaling_factor cmt),
      of_nat (t - t0) * ucast (cmt_upscaling_factor cmt), of_nat (l - l0) * ucast (cmt_upscaling_factor cmt)],
    td_last_cmt_value := [td_last_cmt_value d ! 0, of_nat (t mod 2 ^ k), of_nat (l mod 2 ^ k)]\<rparr>)"
proof -
  obtain u0 u1 u2 where u: "td_last_llc_utilization d = [u0, u1, u2]"
    using assms(6) by (auto simp: CMT_MAX_EVENTS_def length_Suc_conv numeral_3_eq_3)
  obtain c0 c1 c2 where c: "td_last_cmt_value d = [c0, c1, c2]"
    using assms(7) by (auto simp: CMT_MAX_EVENTS_def length_Suc_conv numeral_3_eq_3)
  have ids: "unat L3_OCCUPANCY_EVENT_ID = 1" "unat L3_TOTAL_BW_EVENT_ID = 2" "unat L3_LOCAL_BW_EVENT_ID = 3"
    by (simp_all add: L3_OCCUPANCY_EVENT_ID_def L3_TOTAL_BW_EVENT_ID_def L3_LOCAL_BW_EVENT_ID_def)
  have o: "of_nat occ AND (RMID_VAL_ERROR OR RMID_VAL_UNAVAIL) = (0 :: u64)"
    "of_nat occ AND (2 ^ 62 - 1) = (of_nat occ :: u64)"
    using reading_ok [of 62 occ] assms(9) by simp_all
  let ?f = "ucast (cmt_upscaling_factor cmt) :: u64"
  define d1 where "d1 = d\<lparr>td_last_llc_utilization := [of_nat occ * ?f, u1, u2]\<rparr>"
  have 1: "(if cmt_event_l3_occupancy cmt = 0 then Some d
       else let val = qm_ctr (td_rmid d) L3_OCCUPANCY_EVENT_ID in
         if val AND (RMID_VAL_ERROR OR RMID_VAL_UNAVAIL) \<noteq> 0 then Some d
         else do {
           u \<leftarrow> wr (td_last_llc_utilization d) (unat L3_OCCUPANCY_EVENT_ID - 1)
                 ((val AND (push_bit 62 1 - 1)) * ucast (cmt_upscaling_factor cmt));
           Some (d\<lparr>td_last_llc_utilization := u\<rparr>)
         }) = Some d1"
    using assms(3,8) o ids by (simp add: u wr_Some Let_def d1_def)
  define d2 where "d2 = d1\<lparr>td_last_llc_utilization := [of_nat occ * ?f, of_nat (t - t0) * ?f, u2],
    td_last_cmt_value := [c0, of_nat (t mod 2 ^ k), c2]\<rparr>"
  have 2: "update_bw_event qm_ctr cmt (cmt_event_l3_total_bw cmt) L3_TOTAL_BW_EVENT_ID d1 = Some d2"
    using update_bw_event_ok [OF assms(1,2,11,12,4), of qm_ctr d1 L3_TOTAL_BW_EVENT_ID] assms(10,16)
    by (simp add: ids d1_def d2_def u c)
  have 3: "update_bw_event qm_ctr cmt (cmt_event_l3_local_bw cmt) L3_LOCAL_BW_EVENT_ID d2 = Some (d2\<lparr>
      td_last_llc_utilization := [of_nat occ * ?f, of_nat (t - t0) * ?f, of_nat (l - l0) * ?f],
      td_last_cmt_value := [c0, of_nat (t mod 2 ^ k), of_nat (l mod 2 ^ k)]\<rparr>)"
    using update_bw_event_ok [OF assms(1,2,14,15,5), of qm_ctr d2 L3_LOCAL_BW_EVENT_ID] assms(13,17)
    by (simp add: ids d1_def d2_def c)
  show ?thesis unfolding intel_cmt_update_supported_events_def 1 Option.bind.bind_lunit 2 3
    by (simp add: d1_def d2_def c)
qed

section \<open>The initial pool\<close>

lemma foldM_fails: "x \<in> set xs \<Longrightarrow> I s \<Longrightarrow> (\<And>y s s'. I s \<Longrightarrow> f y s = Some s' \<Longrightarrow> I s') \<Longrightarrow>
  (\<And>s. I s \<Longrightarrow> f x s = None) \<Longrightarrow> foldM f xs s = None"
proof (induction xs arbitrary: s)
  case (Cons y ys)
  show ?case
  proof (cases "f y s")
    case (Some s')
    then have "I s'" using Cons.prems by blast
    then show ?thesis using Cons Some by (cases "y = x") auto
  qed simp
qed simp

text \<open>The initialisation of the RMID pool writes past the end of its array when the array has fewer nodes than
  the RMIDs it initialises, whatever the processor reports (a positive number) and whatever position the random number
  starts from. The code asks for memory for one node less.\<close>

theorem rmid_pool_initialisation_overflows:
  assumes "0 < rp_nr_available_rmids s" and "length nodes < nat (rp_nr_available_rmids s)"
  shows "initialize_rmid_pool rnd (Some nodes) (Some assigned) (Some counts) s = None"
proof -
  let ?n = "nat (rp_nr_available_rmids s)" and ?s = "s\<lparr>rp_node_pool := nodes, rp_nr_assigned_rmids := 0,
    rp_assigned_rmids := assigned, rp_local_bandwidth_counts := counts, rp_available_rmids := []\<rparr>"
  let ?xs = "[unat rnd mod ?n..<?n] @ [0..<unat rnd mod ?n]"
  have "foldM init_node ?xs ?s = None"
  proof (rule foldM_fails [where x = "?n - 1" and I = "\<lambda>t. length (rp_node_pool t) \<le> ?n - 1"])
    have "unat rnd mod ?n < ?n" using assms(1) by simp
    then show "?n - 1 \<in> set ?xs" by auto
    show "length (rp_node_pool ?s) \<le> ?n - 1" using assms(2) by simp
    show "init_node (?n - 1) t = None" if "length (rp_node_pool t) \<le> ?n - 1" for t
      using that by (simp add: init_node_def rd_None)
    show "length (rp_node_pool t') \<le> ?n - 1"
      if "length (rp_node_pool t) \<le> ?n - 1" "init_node y t = Some t'" for y t t'
      using that by (auto simp: init_node_def wr_def split: Option.bind_splits if_splits)
  qed
  then show ?thesis using assms(1) by (simp add: initialize_rmid_pool_def Let_def)
qed

section \<open>The pool counts references\<close>

text \<open>\<open>held\<close> has one item for each reference a client has to an RMID.\<close>

definition node_ok :: "rmid_pool \<Rightarrow> u32 list \<Rightarrow> nat \<Rightarrow> bool" where
  "node_ok s held i \<longleftrightarrow> (let nd = rp_node_pool s ! i in
     rn_rmid nd = of_nat (Suc i) \<and> rn_ref_counter nd = of_nat (count (mset held) (of_nat (Suc i))) \<and>
     rn_free_rmid nd = (of_nat (Suc i) \<notin> set held) \<and>
     length (rn_raw_bandwidth_value nd) = RMID_MAX_LLCS \<and> length (rn_bandwidth_value nd) = RMID_MAX_LLCS)"

definition rmid_ok :: "nat \<Rightarrow> u32 list \<Rightarrow> rmid_pool \<Rightarrow> bool" where
  "rmid_ok n held s \<longleftrightarrow> n < 2 ^ 31 \<and> n \<le> length (rp_node_pool s) \<and> n \<le> length (rp_assigned_rmids s) \<and>
     rp_cmt_support s \<noteq> None \<and> rp_policy s \<noteq> NR_RMID_ALLOC_POLICIES \<and>
     set held \<subseteq> of_nat ` {1..n} \<and> (\<forall>i < n. node_ok s held i) \<and>
     distinct (rp_available_rmids s) \<and> set (rp_available_rmids s) = {i. i < n \<and> of_nat (Suc i) \<notin> set held} \<and>
     rp_nr_available_rmids s = int (length (rp_available_rmids s)) \<and>
     rp_nr_assigned_rmids s = int (card (set held)) \<and>
     distinct (take (card (set held)) (rp_assigned_rmids s)) \<and>
     set (take (card (set held)) (rp_assigned_rmids s)) = set held"

lemma rmid_inj: "i < 2 ^ 31 \<Longrightarrow> j < 2 ^ 31 \<Longrightarrow> (of_nat (Suc i) :: u32) = of_nat (Suc j) \<longleftrightarrow> i = j"
proof -
  assume "i < 2 ^ 31" "j < 2 ^ 31"
  moreover have "unat (of_nat (Suc k) :: u32) = Suc k" if "k < 2 ^ 31" for k
    using that by (simp only: unat_of_nat) (simp add: take_bit_nat_eq_self)
  ultimately show ?thesis by (metis nat.inject)
qed

lemma update_local_bandwidth_frame:
  assumes "length (rn_raw_bandwidth_value nd) = RMID_MAX_LLCS" and "length (rn_bandwidth_value nd) = RMID_MAX_LLCS"
    and "llc < RMID_MAX_LLCS"
  shows "\<exists>raw bw. update_local_bandwidth qm_ctr cmt nd llc =
      Some (nd\<lparr>rn_bandwidth_value := bw, rn_raw_bandwidth_value := raw\<rparr>) \<and>
    length raw = RMID_MAX_LLCS \<and> length bw = RMID_MAX_LLCS"
proof -
  show ?thesis
  proof (cases "qm_ctr (rn_rmid nd) L3_LOCAL_BW_EVENT_ID AND (RMID_VAL_ERROR OR RMID_VAL_UNAVAIL) = 0")
    case True
    then show ?thesis using assms by (simp add: update_local_bandwidth_def Let_def rd_Some wr_Some) (metis length_list_update)
  next
    case False
    then show ?thesis using assms by (intro exI [of _ "rn_raw_bandwidth_value nd"] exI [of _ "rn_bandwidth_value nd"])
      (simp add: update_local_bandwidth_def Let_def)
  qed
qed

lemma card_avail:
  assumes "rmid_ok n held s"
  shows "length (rp_available_rmids s) + card (set held) = n"
proof -
  have k: "n < 2 ^ 31" "set held \<subseteq> of_nat ` {1..n}" "distinct (rp_available_rmids s)"
    "set (rp_available_rmids s) = {i. i < n \<and> (of_nat (Suc i) :: u32) \<notin> set held}"
    using assms by (simp_all add: rmid_ok_def)
  let ?H = "{i. i < n \<and> (of_nat (Suc i) :: u32) \<in> set held}"
  have "bij_betw (\<lambda>i. of_nat (Suc i) :: u32) ?H (set held)"
  proof (rule bij_betw_imageI)
    show "inj_on (\<lambda>i. of_nat (Suc i) :: u32) ?H" 
    proof (rule inj_onI)
      fix i j assume "i \<in> ?H" "j \<in> ?H" "(of_nat (Suc i) :: u32) = of_nat (Suc j)"
      then show "i = j" using rmid_inj [of i j] k(1) by simp
    qed
    show "(\<lambda>i. of_nat (Suc i)) ` ?H = set held"
    proof
      show "set held \<subseteq> (\<lambda>i. of_nat (Suc i)) ` ?H"
      proof
        fix r assume r: "r \<in> set held"
        then obtain j where j: "r = of_nat j" "1 \<le> j" "j \<le> n" using k(2) by auto
        then show "r \<in> (\<lambda>i. of_nat (Suc i)) ` ?H" using r by (intro image_eqI [of _ _ "j - 1"]) auto
      qed
    qed auto
  qed
  then have "card ?H = card (set held)" by (rule bij_betw_same_card)
  moreover have "length (rp_available_rmids s) = card {i. i < n \<and> (of_nat (Suc i) :: u32) \<notin> set held}"
    using distinct_card [OF k(3)] k(4) by simp
  moreover have "card ?H + card {i. i < n \<and> (of_nat (Suc i) :: u32) \<notin> set held} = n"
  proof -
    let ?F = "{i. i < n \<and> (of_nat (Suc i) :: u32) \<notin> set held}"
    have "?H \<union> ?F = {..<n}" by blast
    moreover have "card (?H \<union> ?F) = card ?H + card ?F" by (rule card_Un_disjoint) auto
    ultimately show ?thesis by simp
  qed
  ultimately show ?thesis by linarith
qed

lemma select_rmid_ok:
  assumes "rmid_ok n held s" and "rp_available_rmids s \<noteq> []"
  shows "\<exists>i. select_rmid rnd s = Some (Some i) \<and> i \<in> set (rp_available_rmids s)"
proof -
  have "unat rnd mod length (rp_available_rmids s) < length (rp_available_rmids s)" using assms(2) by simp
  then show ?thesis using assms
    by (cases "rp_policy s") (auto simp: select_rmid_def rmid_ok_def Let_def)
qed

lemma count_small: "length held < 2 ^ 32 \<Longrightarrow> unat (of_nat (count (mset held) r) :: u32) = count (mset held) r"
proof -
  assume "length held < 2 ^ 32"
  moreover have "count (mset held) r \<le> length held" by (induction held) auto
  ultimately show ?thesis by (simp add: unat_of_nat take_bit_nat_eq_self)
qed



text \<open>Changing one node.\<close>

lemma nodes_upd:
  assumes "\<forall>i < n. node_ok s held i" and "n \<le> length (rp_node_pool s)" and "n < 2 ^ 31" and "j < n"
    and "rn_rmid nd = of_nat (Suc j)" and "rn_ref_counter nd = of_nat (count (mset held') (of_nat (Suc j)))"
    and "rn_free_rmid nd = (of_nat (Suc j) \<notin> set held')"
    and "length (rn_raw_bandwidth_value nd) = RMID_MAX_LLCS" and "length (rn_bandwidth_value nd) = RMID_MAX_LLCS"
    and "\<And>r. r \<noteq> of_nat (Suc j) \<Longrightarrow> count (mset held') r = count (mset held) r"
    and "rp_node_pool s' = (rp_node_pool s)[j := nd]"
  shows "\<forall>i < n. node_ok s' held' i"
proof (intro allI impI)
  fix i assume i: "i < n"
  show "node_ok s' held' i"
  proof (cases "i = j")
    case True
    then show ?thesis using assms by (simp add: node_ok_def)
  next
    case False
    then have "(of_nat (Suc i) :: u32) \<noteq> of_nat (Suc j)" using rmid_inj [of i j] i assms(3,4) by simp
    from assms(10) [OF this] have c: "count (mset held') (of_nat (Suc i)) = count (mset held) (of_nat (Suc i))" .
    then have "(of_nat (Suc i) \<in> set held') = (of_nat (Suc i) \<in> set held)"
      by (metis count_greater_zero_iff set_mset_mset)
    moreover have "rp_node_pool s' ! i = rp_node_pool s ! i" using False assms(11) by simp
    ultimately show ?thesis using assms(1) i c by (simp only: node_ok_def Let_def)
  qed
qed

lemma unat_rmid: "j < 2 ^ 31 \<Longrightarrow> unat (of_nat (Suc j) :: u32) = Suc j"
  by (simp only: unat_of_nat) (simp add: take_bit_nat_eq_self)

lemma held_index:
  assumes "rmid_ok n held s" and "r \<in> set held"
  shows "\<exists>j. r = of_nat (Suc j) \<and> j < n \<and> unat r = Suc j"
proof -
  have "r \<in> of_nat ` {1..n}" and n: "n < 2 ^ 31" using assms by (auto simp: rmid_ok_def)
  then obtain i where i: "r = of_nat i" "1 \<le> i" "i \<le> n" by auto
  then have "r = of_nat (Suc (i - 1))" "i - 1 < n" by auto
  then show ?thesis using unat_rmid [of "i - 1"] n by (intro exI [of _ "i - 1"]) auto
qed


lemma get_rmid_ok:
  assumes I: "rmid_ok n held s"
  shows "\<exists>s' r. get_rmid qm_ctr rnd s = Some (s', r) \<and> rmid_ok n (if r = 0 then held else r # held) s' \<and>
    (r = 0 \<longleftrightarrow> rp_available_rmids s = []) \<and> r \<notin> set held \<and>
    rp_irqs s' = (rp_irqs s \<and> rp_available_rmids s \<noteq> [])"
proof -
  note k = I [unfolded rmid_ok_def]
  have z: "(0 :: u32) \<notin> set held" using held_index [OF I, of 0] by auto
  show ?thesis
  proof (cases "rp_available_rmids s = []")
    case True
    have "rmid_ok n held (s\<lparr>rp_irqs := False\<rparr>)" using k unfolding rmid_ok_def by (simp add: node_ok_def)
    then show ?thesis using True z by (simp add: get_rmid_def)
  next
    case False
    let ?s0 = "s\<lparr>rp_irqs := False\<rparr>"
    have "rmid_ok n held ?s0" using k unfolding rmid_ok_def by (simp add: node_ok_def)
    from select_rmid_ok [OF this, of rnd] False obtain j where
      sel: "select_rmid rnd ?s0 = Some (Some j)" "j \<in> set (rp_available_rmids s)" by auto
    define r where "r = (of_nat (Suc j) :: u32)"
    have j: "j < n" "r \<notin> set held" using sel(2) k by (auto simp: r_def)
    have nd: "node_ok s held j" using k j(1) by blast
    have u: "unat r = Suc j" using unat_rmid [of j] j(1) k by (simp add: r_def)
    then have r0: "r \<noteq> 0" by auto
    let ?c = "card (set held)"
    have c: "?c < n" using card_avail [OF I] False by (cases "rp_available_rmids s") auto
    obtain cmt where cmt: "rp_cmt_support s = Some cmt" using k by auto
    let ?n0 = "(rp_node_pool s ! j)\<lparr>rn_free_rmid := False, rn_ref_counter := rn_ref_counter (rp_node_pool s ! j) + 1\<rparr>"
    obtain raw bw where ub: "update_local_bandwidth qm_ctr cmt ?n0 0 =
        Some (?n0\<lparr>rn_bandwidth_value := bw, rn_raw_bandwidth_value := raw\<rparr>)"
      "length raw = RMID_MAX_LLCS" "length bw = RMID_MAX_LLCS"
      using update_local_bandwidth_frame [of ?n0 0 qm_ctr cmt] nd by (auto simp: node_ok_def Let_def RMID_MAX_LLCS_def)
    define nd' where "nd' = ?n0\<lparr>rn_bandwidth_value := bw, rn_raw_bandwidth_value := raw\<rparr>"
    define s' where "s' = s\<lparr>rp_available_rmids := remove1 j (rp_available_rmids s),
      rp_node_pool := (rp_node_pool s)[j := nd'], rp_nr_available_rmids := rp_nr_available_rmids s - 1,
      rp_assigned_rmids := (rp_assigned_rmids s)[?c := r], rp_nr_assigned_rmids := rp_nr_assigned_rmids s + 1\<rparr>"
    have rm: "rn_rmid (rp_node_pool s ! j) = r" using nd by (simp add: node_ok_def Let_def r_def)
    have la: "?c < length (rp_assigned_rmids s)" using c k by linarith
    have g: "get_rmid qm_ctr rnd s = Some (s', r)"
      using False sel(1) k j(1) cmt ub(1) la rm
      by (simp add: get_rmid_def rd_Some wr_Some s'_def nd'_def)
    have nodes: "\<forall>i < n. node_ok s' (r # held) i"
    proof (rule nodes_upd [where s = s and held = held and j = j and nd = nd'])
      show "\<forall>i < n. node_ok s held i" "n \<le> length (rp_node_pool s)" "n < 2 ^ 31" "j < n" using k j by auto
      show "rn_rmid nd' = of_nat (Suc j)" using rm by (simp add: nd'_def r_def)
      have "count (mset held) r = 0" using j(2) by (simp add: count_eq_zero_iff)
      then show "rn_ref_counter nd' = of_nat (count (mset (r # held)) (of_nat (Suc j)))"
        using nd by (simp add: nd'_def node_ok_def Let_def r_def)
      show "rn_free_rmid nd' = (of_nat (Suc j) \<notin> set (r # held))" by (simp add: nd'_def r_def)
      show "length (rn_raw_bandwidth_value nd') = RMID_MAX_LLCS" "length (rn_bandwidth_value nd') = RMID_MAX_LLCS"
        using ub by (simp_all add: nd'_def)
      show "count (mset (r # held)) q = count (mset held) q" if "q \<noteq> of_nat (Suc j)" for q
        using that by (auto simp: r_def)
      show "rp_node_pool s' = (rp_node_pool s)[j := nd']" by (simp add: s'_def)
    qed
    have cs: "card (set (r # held)) = Suc ?c" using j(2) by simp
    have ta: "take (Suc ?c) ((rp_assigned_rmids s)[?c := r]) = take ?c (rp_assigned_rmids s) @ [r]"
      using la by (simp add: take_Suc_conv_app_nth)
    have av: "set (remove1 j (rp_available_rmids s)) = {i. i < n \<and> of_nat (Suc i) \<notin> set (r # held)}"
    proof -
      have "(of_nat (Suc i) :: u32) = r \<longleftrightarrow> i = j" if "i < n" for i
        unfolding r_def using rmid_inj [of i j] that j(1) k by simp
      moreover have "set (remove1 j (rp_available_rmids s)) = set (rp_available_rmids s) - {j}"
        using k by (simp add: set_remove1_eq)
      ultimately show ?thesis using k by auto
    qed
    have "r \<in> of_nat ` {1..n}" unfolding r_def using j(1) by (intro imageI) simp
    moreover have "int (length (rp_available_rmids s) - Suc 0) = int (length (rp_available_rmids s)) - 1"
      using False by (cases "rp_available_rmids s") simp_all
    ultimately have "rmid_ok n (r # held) s'"
      unfolding rmid_ok_def cs
      using k nodes av ta j(2) sel(2) by (simp add: s'_def length_remove1 distinct_remove1)
    then show ?thesis using g r0 j(2) False by (simp add: s'_def)
  qed
qed















text \<open>C26. A request for an RMID on an empty pool returns 0 but leaves the interrupts of the processor disabled:
  that path releases the lock with \<open>spin_unlock\<close> although it was taken with \<open>spin_lock_irqsave\<close>. On
  every other path they are as before.\<close>

theorem exhausted_pool_leaves_irqs_disabled:
  assumes "rmid_ok n held s"
  shows "\<exists>s' r. get_rmid qm_ctr rnd s = Some (s', r) \<and>
    (if rp_available_rmids s = [] then r = 0 \<and> \<not> rp_irqs s' else r \<noteq> 0 \<and> rp_irqs s' = rp_irqs s)"
  using get_rmid_ok [OF assms, of qm_ctr rnd] by (auto split: if_splits)

section \<open>Allocation registers\<close>

lemma fold_masks:
  "fold (\<lambda>i m. m(b + of_nat i := v)) [0..<n] m (b + c) = (if unat (c :: u32) < n then v else m (b + c))"
  if "n \<le> 2 ^ 32" for m :: msr_file
  using that
proof (induction n)
  case (Suc n)
  have "b + c = b + of_nat n \<longleftrightarrow> c = of_nat n" by simp
  moreover have "c = of_nat n \<longleftrightarrow> unat c = n"
    using Suc.prems by (auto simp: unat_of_nat take_bit_nat_eq_self)
  ultimately show ?case using Suc by (auto simp: less_Suc_eq)
qed simp

text \<open>The capacity bitmasks read back. Once cache allocation is initialised on a processor with up to 30
  ways, setting the mask of a class of service makes it read as that mask (cut to the ways there are),
  every other class keeps all the ways, and a class the processor does not have is refused
  without a write.\<close>

theorem llc_masks_read_back:
  assumes "intel_cat_initialize cpuid m = Some (m1, cat)"
    and "intel_cat_set_capacity_bitmask m1 cat clos msk = (m2, err)"
  shows "if clos < cat_nr_cos_available cat
    then err = 0 \<and> get_cat_cbm m2 cat clos = Some (ucast (msk AND cat_cbm_mask cat)) \<and>
      (\<forall>c. c < cat_nr_cos_available cat \<longrightarrow> c \<noteq> clos \<longrightarrow> get_cat_cbm m2 cat c = Some (ucast (cat_cbm_mask cat)))
    else err = - EINVAL \<and> m2 = m1 \<and> get_cat_cbm m2 cat clos = None"
proof -
  define n where "n = unat (cat_nr_cos_available cat)"
  have n: "n \<le> 2 ^ 32" unfolding n_def by (rule less_imp_le) (rule unsigned_less [THEN less_le_trans], simp)
  have m1: "m1 = fold (\<lambda>i m. m(IA32_LLC_MASK_0 + of_nat i := ucast (cat_cbm_mask cat))) [0..<n] m"
    using assms(1) unfolding intel_cat_initialize_def Let_def n_def by (auto split: Option.bind_splits)
  have init: "m1 (IA32_LLC_MASK_0 + c) = ucast (cat_cbm_mask cat)" if "c < cat_nr_cos_available cat" for c
    using fold_masks [OF n, of IA32_LLC_MASK_0 "ucast (cat_cbm_mask cat)" m c] that
    by (simp add: m1 n_def word_less_nat_alt)
  have u: "ucast a AND ucast b = (ucast (a AND b) :: u64)" for a b :: u32
    by (simp add: unsigned_and_eq)
  show ?thesis
  proof (cases "clos < cat_nr_cos_available cat")
    case True
    then have m2: "m2 = m1(IA32_LLC_MASK_0 + clos := ucast (msk AND cat_cbm_mask cat))" and e: "err = 0"
      using assms(2) by (auto simp: intel_cat_set_capacity_bitmask_def not_le [symmetric])
    have "get_cat_cbm m2 cat clos = Some (ucast (msk AND cat_cbm_mask cat))"
      using True by (simp add: get_cat_cbm_def m2 u and.assoc)
    moreover have "get_cat_cbm m2 cat c = Some (ucast (cat_cbm_mask cat))"
      if "c < cat_nr_cos_available cat" "c \<noteq> clos" for c
      using that init [of c] by (simp add: get_cat_cbm_def m2 not_le)
    ultimately show ?thesis using True e by simp
  next
    case False
    then show ?thesis using assms(2) by (auto simp: intel_cat_set_capacity_bitmask_def get_cat_cbm_def EINVAL_def)
  qed
qed

section \<open>Witnesses\<close>

definition sample_cmt :: intel_cmt_support_t where
  "sample_cmt = \<lparr>cmt_total_rmids = 3, cmt_upscaling_factor = 64, cmt_event_l3_occupancy = 1,
     cmt_event_l3_total_bw = 2, cmt_event_l3_local_bw = 3, cmt_mbm_max_count = MAX_CMT_COUNT\<rparr>"

definition sample_pool :: "nat \<Rightarrow> u32 \<Rightarrow> bool \<Rightarrow> rmid_pool" where
  "sample_pool n refs fr = \<lparr>rp_node_pool = map (\<lambda>i. \<lparr>rn_rmid = of_nat (Suc i), rn_ref_counter = refs, rn_free_rmid = fr,
       rn_raw_bandwidth_value = replicate RMID_MAX_LLCS 0, rn_bandwidth_value = replicate RMID_MAX_LLCS 0\<rparr>) [0..<n],
     rp_available_rmids = (if fr then [0..<n] else []), rp_nr_available_rmids = (if fr then int n else 0), rp_policy = RMID_FIFO,
     rp_assigned_rmids = (if fr then replicate n 0 else map (\<lambda>i. of_nat (Suc i)) [0..<n]),
     rp_nr_assigned_rmids = (if fr then 0 else int n), rp_local_bandwidth_counts = replicate n (0, 0),
     rp_cmt_support = Some sample_cmt, rp_irqs = True\<rparr>"

theorem thread_charged_its_traffic_witness:
  "intel_cmt_update_supported_events (\<lambda>rmid ev. if ev = 1 then 5 else if ev = 2 then 10 else 7) sample_cmt
     \<lparr>td_rmid = 2, td_last_llc_utilization = [0, 0, 0], td_last_cmt_value = [0, 16777210, 3], td_cos_id = 0\<rparr> =
   Some \<lparr>td_rmid = 2, td_last_llc_utilization = [320, 1024, 256], td_last_cmt_value = [0, 10, 7], td_cos_id = 0\<rparr>"
  using thread_charged_its_traffic [of 24 sample_cmt
      "\<lparr>td_rmid = 2, td_last_llc_utilization = [0, 0, 0], td_last_cmt_value = [0, 16777210, 3], td_cos_id = 0\<rparr>"
      "\<lambda>rmid ev. if ev = 1 then 5 else if ev = 2 then 10 else 7" 5 16777226 16777210 7 3]
  by (simp add: sample_cmt_def MAX_CMT_COUNT_def CMT_MAX_EVENTS_def L3_OCCUPANCY_EVENT_ID_def
      L3_TOTAL_BW_EVENT_ID_def L3_LOCAL_BW_EVENT_ID_def)

theorem rmid_pool_initialisation_overflows_witness:
  "initialize_rmid_pool 5 (Some (rp_node_pool (sample_pool 2 0 True))) (Some [0, 0]) (Some [(0, 0), (0, 0)])
     ((sample_pool 0 0 True)\<lparr>rp_nr_available_rmids := 3\<rparr>) = None"
  by (rule rmid_pool_initialisation_overflows) (simp_all add: sample_pool_def)


theorem exhausted_pool_leaves_irqs_disabled_witness:
  "\<exists>s' r. get_rmid (\<lambda>_ _. 0) 0 (sample_pool 1 1 False) = Some (s', r) \<and> r = 0 \<and> \<not> rp_irqs s'"
proof -
  have z: "0 < x \<or> (of_nat x :: u32) = 0" for x :: nat by (cases x) auto
  have "rmid_ok 1 [1] (sample_pool 1 1 False)"
    by (simp add: rmid_ok_def sample_pool_def node_ok_def Let_def z)
  from exhausted_pool_leaves_irqs_disabled [OF this, of "\<lambda>_ _. 0" 0] show ?thesis
    by (simp add: sample_pool_def)
qed

theorem llc_masks_read_back_witness:
  "\<exists>m1 cat m2. intel_cat_initialize (\<lambda>_ _. \<lparr>r_eax = 10, r_ebx = 0, r_ecx = 0, r_edx = 3\<rparr>) (\<lambda>_. 0) = Some (m1, cat) \<and>
     intel_cat_set_capacity_bitmask m1 cat 2 0xf03 = (m2, 0) \<and>
     get_cat_cbm m2 cat 2 = Some 0x703 \<and> get_cat_cbm m2 cat 1 = Some 0x7ff"
proof -
  let ?c = "\<lambda>_ _. \<lparr>r_eax = 10, r_ebx = 0, r_ecx = 0, r_edx = 3\<rparr> :: cpuid_regs_t"
  obtain m1 cat where i: "intel_cat_initialize ?c (\<lambda>_. 0) = Some (m1, cat)"
    and cat: "cat = \<lparr>cat_nr_cos_available = 4, cat_cbm_length = 11, cat_cbm_mask = 0x7ff\<rparr>"
    by (simp add: intel_cat_initialize_def cbm_mask_of_def Let_def)
  obtain m2 err where s: "intel_cat_set_capacity_bitmask m1 cat 2 0xf03 = (m2, err)" by fastforce
  from llc_masks_read_back [OF i s] show ?thesis using i s by (auto simp: cat)
qed

end
