(* ===== verification/Metrics.thy ===== *)
theory Metrics
  imports CBuffer
begin

text \<open>
  Performance metrics (\<^verbatim>\<open>hl_events.h\<close> and the second half of \<^verbatim>\<open>mc_experiments.c\<close>): the values computed
  from event counts, the sliding average of a metric, the history of phase changes and the speedup
  factor models. C's \<open>int\<close> is \<open>int\<close> with a check: a result out of range, which C leaves undefined, is
  \<open>None\<close>, as is a read out of bounds or of a variable that was not set.
\<close>

section \<open>Values of metrics\<close>

definition chk :: "int \<Rightarrow> int option" where
  "chk x = (if - (2 ^ 31) \<le> x \<and> x < 2 ^ 31 then Some x else None)"

datatype pmc_relation_mode_t = op_division | op_multiplication | op_sum | op_substract | op_rate | op_rate2
  | op_none | op_virtual

datatype arg_type_t = hw_event_arg | metric_arg

record pmc_arg_t =
  arg_type :: arg_type_t
  arg_index :: nat

record pmc_metric_t =
  mt_id :: string
  mt_mode :: pmc_relation_mode_t
  mt_arg1 :: pmc_arg_t
  mt_arg2 :: pmc_arg_t
  mt_scale_factor :: u64
  mt_count :: u64

definition init_pmc_metric ::
  "string \<Rightarrow> pmc_relation_mode_t \<Rightarrow> pmc_arg_t \<Rightarrow> pmc_arg_t \<Rightarrow> u64 \<Rightarrow> pmc_metric_t" where
  "init_pmc_metric name mode a1 a2 scale_factor =
     \<lparr>mt_id = name, mt_mode = mode, mt_arg1 = a1, mt_arg2 = a2, mt_scale_factor = scale_factor, mt_count = 0\<rparr>"

definition get_operand :: "pmc_arg_t \<Rightarrow> u64 list \<Rightarrow> pmc_metric_t list \<Rightarrow> u64 option" where
  "get_operand a hw_events metric_vector =
     (case arg_type a of
        hw_event_arg \<Rightarrow> rd hw_events (arg_index a)
      | metric_arg \<Rightarrow> map_option mt_count (rd metric_vector (arg_index a)))"

text \<open>The operands that are set: the others keep what was in the array.\<close>

definition get_operands :: "pmc_metric_t \<Rightarrow> u64 list \<Rightarrow> pmc_metric_t list \<Rightarrow> nat \<Rightarrow> u64 list option" where
  "get_operands metric hw_events metric_vector num_ops =
     foldM (\<lambda>i ops. do {
         v \<leftarrow> get_operand (if i = 0 then mt_arg1 metric else mt_arg2 metric) hw_events metric_vector;
         Some (ops @ [v])
       }) [0..<num_ops] []"

definition compute_value :: "pmc_metric_t \<Rightarrow> u64 list \<Rightarrow> pmc_metric_t list \<Rightarrow> pmc_metric_t option" where
  "compute_value metric hw_events metric_vector =
     (let scale = mt_scale_factor metric; result = (\<lambda>c. Some (metric\<lparr>mt_count := c\<rparr>));
          ops = (\<lambda>n. get_operands metric hw_events metric_vector n) in
      case mt_mode metric of
        op_division \<Rightarrow> do {
          os \<leftarrow> ops 2; a \<leftarrow> rd os 0; b \<leftarrow> rd os 1;
          result (if b \<noteq> 0 then a div b else 0) }
      | op_multiplication \<Rightarrow> do { os \<leftarrow> ops 2; a \<leftarrow> rd os 0; b \<leftarrow> rd os 1; result (a * b) }
      | op_sum \<Rightarrow> do { os \<leftarrow> ops 2; a \<leftarrow> rd os 0; b \<leftarrow> rd os 1; result (a + b) }
      | op_substract \<Rightarrow> do {
          os \<leftarrow> ops 2; a \<leftarrow> rd os 0; b \<leftarrow> rd os 1;
          let metric = (if a \<ge> b then metric\<lparr>mt_count := a - b\<rparr> else metric);
          Some (metric\<lparr>mt_count := 0\<rparr>) }
      | op_rate \<Rightarrow> do {
          os \<leftarrow> ops 2; a \<leftarrow> rd os 0; b \<leftarrow> rd os 1;
          result (if b \<noteq> 0 then (a * scale) div b else 0) }
      | op_rate2 \<Rightarrow> do {
          os \<leftarrow> ops 2; a \<leftarrow> rd os 0; b \<leftarrow> rd os 1;
          if b \<noteq> 0
          then (if scale = 0 then None
                else let aux = b div scale in result (if aux = 0 then 0 else a div aux))
          else result 0 }
      | op_none \<Rightarrow> do {
          os \<leftarrow> ops 1; b \<leftarrow> rd os 1; a \<leftarrow> rd os 0;
          result (if b \<noteq> 0 then a * scale else 0) }
      | op_virtual \<Rightarrow> result 0)"

record metric_experiment_t =
  me_metrics :: "pmc_metric_t list"
  me_size :: u32
  me_exp_idx :: int

definition MAX_METRICS_PER_SET :: nat where "MAX_METRICS_PER_SET = 8"
definition MAX_MULTIPLEX_EXP_PER_CORETYPE :: nat where "MAX_MULTIPLEX_EXP_PER_CORETYPE = 4"

definition compute_performance_metrics :: "u64 list \<Rightarrow> metric_experiment_t \<Rightarrow> metric_experiment_t option" where
  "compute_performance_metrics hw_events metric_exp =
     foldM (\<lambda>i me. do {
         metric \<leftarrow> rd (me_metrics me) i;
         metric \<leftarrow> compute_value metric hw_events (me_metrics me);
         ms \<leftarrow> wr (me_metrics me) i metric;
         Some (me\<lparr>me_metrics := ms\<rparr>)
       }) [0..<unat (me_size metric_exp)] metric_exp"

record metric_experiment_set_t =
  mes_exps :: "metric_experiment_t list"
  mes_nr_exps :: int

definition init_metric_experiment_t :: "metric_experiment_t \<Rightarrow> int \<Rightarrow> metric_experiment_t" where
  "init_metric_experiment_t m_exp exp_idx = m_exp\<lparr>me_size := 0, me_exp_idx := exp_idx\<rparr>"

definition clone_metric_experiment_t ::
  "metric_experiment_t \<Rightarrow> metric_experiment_t \<Rightarrow> metric_experiment_t option" where
  "clone_metric_experiment_t dst orig =
     foldM (\<lambda>i dst. do {
         m \<leftarrow> rd (me_metrics orig) i;
         ms \<leftarrow> wr (me_metrics dst) i m;
         Some (dst\<lparr>me_metrics := ms\<rparr>)
       }) [0..<unat (me_size orig)] (dst\<lparr>me_size := me_size orig, me_exp_idx := me_exp_idx orig\<rparr>)"

definition init_metric_experiment_set_t :: "metric_experiment_set_t \<Rightarrow> metric_experiment_set_t option" where
  "init_metric_experiment_set_t m_set =
     foldM (\<lambda>i s. do {
         e \<leftarrow> rd (mes_exps s) i;
         es \<leftarrow> wr (mes_exps s) i (init_metric_experiment_t e (int i));
         Some (s\<lparr>mes_exps := es\<rparr>)
       }) [0..<MAX_MULTIPLEX_EXP_PER_CORETYPE] (m_set\<lparr>mes_nr_exps := 0\<rparr>)"

definition clone_metric_experiment_set_t ::
  "metric_experiment_set_t \<Rightarrow> metric_experiment_set_t \<Rightarrow> metric_experiment_set_t option" where
  "clone_metric_experiment_set_t dst orig =
     foldM (\<lambda>i s. do {
         e \<leftarrow> rd (mes_exps orig) i;
         d \<leftarrow> rd (mes_exps s) i;
         d \<leftarrow> clone_metric_experiment_t d e;
         es \<leftarrow> wr (mes_exps s) i d;
         Some (s\<lparr>mes_exps := es\<rparr>)
       }) [0..<nat (mes_nr_exps orig)] (dst\<lparr>mes_nr_exps := mes_nr_exps orig\<rparr>)"

section \<open>Sliding average\<close>

record metric_smoother_t =
  sm_cbuf :: mc_cbuffer
  sm_acum :: u64
  sm_average :: u64

definition init_metric_smoother :: "metric_smoother_t \<Rightarrow> u32 \<Rightarrow> u64 \<Rightarrow> metric_smoother_t option" where
  "init_metric_smoother mt sample_window_length initial_value = do {
     cb \<leftarrow> push_mc_cbuffer (init_mc_cbuffer (sm_cbuf mt) sample_window_length) initial_value;
     Some (mt\<lparr>sm_cbuf := cb, sm_acum := initial_value, sm_average := initial_value\<rparr>)
   }"

definition add_new_metric_sample_mst :: "metric_smoother_t \<Rightarrow> u64 \<Rightarrow> metric_smoother_t option" where
  "add_new_metric_sample_mst mt cur_value = do {
     acum \<leftarrow> (if is_full_mc_cbuffer (sm_cbuf mt) then do {
         i \<leftarrow> head_mc_cbuffer (sm_cbuf mt);
         prev \<leftarrow> rd (mc_data (sm_cbuf mt)) i;
         Some (sm_acum mt - prev)
       } else Some (sm_acum mt));
     cb \<leftarrow> push_mc_cbuffer (sm_cbuf mt) cur_value;
     let acum = acum + cur_value;
     if mc_size cb = 0 then None
     else Some (mt\<lparr>sm_cbuf := cb, sm_acum := acum, sm_average := acum div ucast (mc_size cb)\<rparr>)
   }"

section \<open>History of changes\<close>

definition AMP_HISTORY_BIT_VECTOR_SIZE :: nat where "AMP_HISTORY_BIT_VECTOR_SIZE = 10"
definition AMP_HISTORY_BIT_VECTOR_MASK :: u32 where "AMP_HISTORY_BIT_VECTOR_MASK = 0x3ff"
definition AMP_HISTORY_LAST_BIT :: u32 where "AMP_HISTORY_LAST_BIT = 0x200"

record pmon_change_history_t =
  ch_change_vector :: u32
  ch_local_changes :: u32
  ch_local_stable_values :: u32
  ch_cnt_changes :: u32
  ch_cnt_stable_values :: u32
  ch_running_average :: u32

definition init_pmon_change_history :: pmon_change_history_t where
  "init_pmon_change_history =
     \<lparr>ch_change_vector = AMP_HISTORY_BIT_VECTOR_MASK, ch_local_changes = 0,
      ch_local_stable_values = word_of_nat AMP_HISTORY_BIT_VECTOR_SIZE, ch_cnt_changes = 0,
      ch_cnt_stable_values = 0, ch_running_average = 0\<rparr>"

definition pmon_register_metric_change :: "pmon_change_history_t \<Rightarrow> pmon_change_history_t" where
  "pmon_register_metric_change h =
     (let false_increment = ch_change_vector h AND 1 in
      h\<lparr>ch_cnt_changes := ch_cnt_changes h + 1,
        ch_local_stable_values := ch_local_stable_values h - false_increment,
        ch_local_changes := ch_local_changes h + false_increment,
        ch_change_vector := drop_bit 1 (ch_change_vector h)\<rparr>)"

definition pmon_register_metric_stable_value :: "pmon_change_history_t \<Rightarrow> pmon_change_history_t" where
  "pmon_register_metric_stable_value h =
     (let true_increment = (ch_change_vector h AND 1) XOR 1 in
      h\<lparr>ch_cnt_stable_values := ch_cnt_stable_values h + 1,
        ch_local_stable_values := ch_local_stable_values h + true_increment,
        ch_local_changes := ch_local_changes h - true_increment,
        ch_change_vector := drop_bit 1 (ch_change_vector h) OR AMP_HISTORY_LAST_BIT\<rparr>)"

text \<open>\<open>>> 1\<close> of a negative \<open>int\<close> is arithmetic, as the compiler defines it.\<close>

definition pmon_update_running_average ::
  "pmon_change_history_t \<Rightarrow> u32 \<Rightarrow> int \<Rightarrow> int \<Rightarrow> bool \<Rightarrow> (pmon_change_history_t \<times> bool) option" where
  "pmon_update_running_average h last_value ra_factor ra_threshold percentage = do {
     let old = sint (ch_running_average h);
     let cur_value = sint last_value;
     d \<leftarrow> chk (old - cur_value);
     p \<leftarrow> chk (ra_factor * d);
     cur \<leftarrow> chk (cdiv p 100 + cur_value);
     let h = h\<lparr>ch_running_average := word_of_int cur\<rparr>;
     cur \<leftarrow> chk (cur + 10);
     old \<leftarrow> chk (old + 10);
     let vmax = max cur old;
     let vmin = min cur old;
     sm \<leftarrow> chk (vmax + vmin);
     let axis = sm div 2;
     epsilon \<leftarrow> (if percentage then do { q \<leftarrow> chk (ra_threshold * axis); Some (cdiv q 100) } else Some ra_threshold);
     if epsilon = 0 then Some (h, False)
     else do {
       lim \<leftarrow> chk (axis + epsilon);
       Some (h, \<not> vmax \<le> lim)
     }
   }"

section \<open>Speedup factors\<close>

definition normalize_speedup_factor :: "int \<Rightarrow> int" where
  "normalize_speedup_factor sf = (if sf > 1000 then cdiv (sf - 1000) 10 else 0)"

definition denormalize_speedup_factor :: "int \<Rightarrow> int option" where
  "denormalize_speedup_factor sf =
     (if sf > 0 then do { x \<leftarrow> chk (sf * 10); chk (x + 1000) } else Some 1000)"

definition clamp :: "int \<Rightarrow> int \<Rightarrow> int \<Rightarrow> int" where
  "clamp sfmin sfmax sf = (if sf < sfmin then sfmin else if sf > sfmax then sfmax else sf)"

definition metric_at :: "u64 list \<Rightarrow> int \<Rightarrow> u64 option" where
  "metric_at metrics i = (if i < 0 then None else rd metrics (nat i))"

text \<open>The specification is an array of entries that \<open>-1\<close> ends.\<close>

function additive_loop :: "u64 list \<Rightarrow> int list \<Rightarrow> nat \<Rightarrow> int \<Rightarrow> int option" where
  "additive_loop metrics spec idx sf =
     Option.bind (rd spec idx) (\<lambda>metric_id.
       if metric_id = -1 then Some sf
       else Option.bind (metric_at metrics metric_id) (\<lambda>v.
         Option.bind (rd spec (idx + 1)) (\<lambda>lim.
           Option.bind (rd spec (if v \<le> word_of_int lim then idx + 2 else idx + 3)) (\<lambda>d.
             Option.bind (chk (sf + d)) (\<lambda>sf.
               additive_loop metrics spec (idx + 4) sf)))))"
  by pat_completeness auto
termination
  by (relation "measure (\<lambda>(_, spec, idx, _). length spec - idx)") (auto simp: rd_def split: if_splits)

declare additive_loop.simps [simp del]

definition estimate_sf_additive :: "u64 list \<Rightarrow> int list \<Rightarrow> int \<Rightarrow> int option" where
  "estimate_sf_additive metrics spec correction_factor = do {
     s0 \<leftarrow> rd spec 0;
     sf \<leftarrow> chk (s0 + correction_factor);
     sfmin \<leftarrow> rd spec 1;
     sfmax \<leftarrow> rd spec 2;
     sf \<leftarrow> additive_loop metrics spec 4 sf;
     Some (clamp sfmin sfmax sf)
   }"

function regression_loop :: "u64 list \<Rightarrow> int list \<Rightarrow> nat \<Rightarrow> int \<Rightarrow> int option" where
  "regression_loop metrics spec idx sf =
     Option.bind (rd spec idx) (\<lambda>metric_id.
       if metric_id = -1 then Some sf
       else Option.bind (metric_at metrics metric_id) (\<lambda>v.
         Option.bind (rd spec (idx + 1)) (\<lambda>num.
           Option.bind (rd spec (idx + 2)) (\<lambda>den.
             Option.bind (chk (sint (ucast v :: u32) * num)) (\<lambda>p.
               if den = 0 then None
               else Option.bind (chk (cdiv p den)) (\<lambda>factor.
                 Option.bind (chk (sf + factor)) (\<lambda>sf.
                   regression_loop metrics spec (idx + 3) sf)))))))"
  by pat_completeness auto
termination
  by (relation "measure (\<lambda>(_, spec, idx, _). length spec - idx)") (auto simp: rd_def split: if_splits)

declare regression_loop.simps [simp del]

definition estimate_sf_regression :: "u64 list \<Rightarrow> int list \<Rightarrow> int option" where
  "estimate_sf_regression metrics spec = do {
     sf \<leftarrow> rd spec 0;
     sfmin \<leftarrow> rd spec 1;
     sfmax \<leftarrow> rd spec 2;
     sf \<leftarrow> regression_loop metrics spec 3 sf;
     Some (clamp sfmin sfmax sf)
   }"

text \<open>The vector has the metrics after the first of every experiment, and in position 0 the mean of the first
  ones. The result has the vector and the number of items.\<close>

definition fill_in_sf_metric_vector ::
  "metric_experiment_set_t \<Rightarrow> u64 list \<Rightarrow> (u64 list \<times> u32) option" where
  "fill_in_sf_metric_vector metric_set vec = do {
     (vec, acum_ipc, dst_idx) \<leftarrow> foldM (\<lambda>i (vec, acum_ipc, dst_idx). do {
         mex \<leftarrow> rd (mes_exps metric_set) i;
         m0 \<leftarrow> rd (me_metrics mex) 0;
         (vec, dst_idx) \<leftarrow> foldM (\<lambda>j (vec, dst_idx :: nat). do {
             m \<leftarrow> rd (me_metrics mex) j;
             vec \<leftarrow> wr vec dst_idx (mt_count m);
             Some (vec, dst_idx + 1)
           }) [1..<unat (me_size mex)] (vec, dst_idx);
         Some (vec, acum_ipc + ucast (mt_count m0), dst_idx)
       }) [0..<nat (mes_nr_exps metric_set)] (vec, 0 :: u32, 1);
     let n = (word_of_int (mes_nr_exps metric_set) :: u32);
     if n = 0 then None
     else do {
       vec \<leftarrow> wr vec 0 (ucast (acum_ipc div n));
       Some (vec, word_of_nat dst_idx)
     }
   }"

end
