(* ===== verification/MetricProps.thy ===== *)
theory MetricProps
  imports Metrics
begin

text \<open>
  Properties of the metrics: the smoother and the change history are windows over the last samples
  (instances of the overwriting queue of \<^verbatim>\<open>CBuffer\<close>), the running average stays between the old value
  and the new sample, the speedup-factor model is the clamped sum it describes.
\<close>

section \<open>The smoother\<close>

definition sm_ok :: "metric_smoother_t \<Rightarrow> bool" where
  "sm_ok mt \<longleftrightarrow> mc_wf (sm_cbuf mt) \<and> mc_items (sm_cbuf mt) \<noteq> [] \<and> sm_acum mt = sum_list (mc_items (sm_cbuf mt)) \<and>
     sm_average mt = sm_acum mt div of_nat (length (mc_items (sm_cbuf mt)))"

lemma lastn_full_snoc: "length xs = n \<Longrightarrow> 0 < n \<Longrightarrow> lastn n (xs @ [x]) = tl xs @ [x]"
  by (cases xs) (simp_all add: lastn_def)

lemma add_sample_ok:
  assumes "sm_ok mt"
  shows "\<exists>mt'. add_new_metric_sample_mst mt x = Some mt' \<and> sm_ok mt' \<and>
    mc_max_size (sm_cbuf mt') = mc_max_size (sm_cbuf mt) \<and>
    mc_items (sm_cbuf mt') = lastn (unat (mc_max_size (sm_cbuf mt))) (mc_items (sm_cbuf mt) @ [x])"
proof -
  let ?cb = "sm_cbuf mt" and ?m = "unat (mc_max_size (sm_cbuf mt))"
  have wf: "mc_wf ?cb" and ne: "mc_items ?cb \<noteq> []" and ac: "sm_acum mt = sum_list (mc_items ?cb)"
    using assms by (simp_all add: sm_ok_def)
  note w = mc_wfD [OF wf]
  obtain cb where cb: "push_mc_cbuffer ?cb x = Some cb" "mc_wf cb" "mc_max_size cb = mc_max_size ?cb"
    "mc_items cb = lastn ?m (mc_items ?cb @ [x])" using push_mc_cbuffer_ok [OF wf, of x] by blast
  have len: "length (mc_items ?cb) = unat (mc_size ?cb)" by simp
  have lp: "length (mc_items cb) > 0" unfolding cb(4) using w(2) by simp
  have nz: "mc_size cb \<noteq> 0" using lp by (metis length_mc_items less_irrefl unat_0)
  have ne': "mc_items cb \<noteq> []" by (rule length_greater_0_conv [THEN iffD1, OF lp])
  let ?mt = "\<lambda>a. mt\<lparr>sm_cbuf := cb, sm_acum := a, sm_average := a div ucast (mc_size cb)\<rparr>"
  have sz: "(ucast (mc_size cb) :: u64) = of_nat (length (mc_items cb))"
    by (simp add: word_unat_eq_iff unsigned_ucast_eq unat_of_nat)
  have "add_new_metric_sample_mst mt x = Some (?mt (sum_list (mc_items cb)))"
  proof (cases "is_full_mc_cbuffer ?cb")
    case True
    then have full: "length (mc_items ?cb) = ?m" unfolding len by (simp add: is_full_mc_cbuffer_def)
    have s0: "mc_size ?cb \<noteq> 0" using ne len by (metis length_0_conv unat_0)
    have hd: "mc_items ?cb = mc_data ?cb ! unat (mc_head ?cb) # tl (mc_items ?cb)"
    proof -
      obtain k where "unat (mc_size ?cb) = Suc k" using s0 by (metis not0_implies_Suc unat_eq_zero)
      then have "hd (mc_items ?cb) = mc_data ?cb ! unat (mc_head ?cb)"
        using w by (simp add: mc_items_def ring_items_tail)
      then show ?thesis using ne by (metis list.collapse)
    qed
    have "sum_list (mc_items cb) = sum_list (tl (mc_items ?cb)) + x"
      using cb(4) lastn_full_snoc [OF full w(2)] by simp
    also have "sum_list (tl (mc_items ?cb)) = sm_acum mt - mc_data ?cb ! unat (mc_head ?cb)"
      unfolding ac by (subst hd) simp
    finally show ?thesis using True s0 cb(1) nz w
      by (simp add: add_new_metric_sample_mst_def head_mc_cbuffer_def rd_Some Let_def)
  next
    case False
    then have "unat (mc_size ?cb) < ?m" using w(4) by (simp add: is_full_mc_cbuffer_def) (metis le_neq_implies_less word_unat_eq_iff)
    then have "mc_items cb = mc_items ?cb @ [x]" using cb(4) by (simp add: lastn_all)
    then show ?thesis using False cb(1) nz ac by (simp add: add_new_metric_sample_mst_def Let_def)
  qed
  moreover have "sm_ok (?mt (sum_list (mc_items cb)))" using cb(2) ne' sz by (simp add: sm_ok_def)
  ultimately show ?thesis using cb(3,4) by auto
qed

interpretation smoother: overwriting_fifo sm_ok "\<lambda>mt. mc_items (sm_cbuf mt)" "\<lambda>mt. unat (mc_max_size (sm_cbuf mt))"
  add_new_metric_sample_mst
proof
  fix mt :: metric_smoother_t assume "sm_ok mt"
  then show "length (mc_items (sm_cbuf mt)) \<le> unat (mc_max_size (sm_cbuf mt))"
    using mc_wfD(4) by (auto simp: sm_ok_def)
qed (use add_sample_ok in fastforce)

lemma init_smoother_ok:
  assumes "length (mc_data (sm_cbuf mt)) = MC_MAX_CBUFFER_SIZE" and "0 < n" and "n \<le> MC_MAX_CBUFFER_SIZE"
  shows "\<exists>mt'. init_metric_smoother mt (of_nat n) v = Some mt' \<and> sm_ok mt' \<and>
    unat (mc_max_size (sm_cbuf mt')) = n \<and> mc_items (sm_cbuf mt') = [v]"
proof -
  let ?cb = "init_mc_cbuffer (sm_cbuf mt) (of_nat n)"
  have u: "unat (of_nat n :: u32) = n" using assms(3) by (simp add: unat_of_nat MC_MAX_CBUFFER_SIZE_def take_bit_nat_eq_self)
  then have mx: "unat (mc_max_size ?cb) = n" using assms(3) 
    by (simp add: init_mc_cbuffer_def word_le_nat_alt MC_MAX_CBUFFER_SIZE_def)
  have it: "mc_items ?cb = []" by (simp add: mc_items_def ring_items_def init_mc_cbuffer_def)
  have "mc_wf ?cb" using assms mx by (simp add: mc_wf_def init_mc_cbuffer_def word_less_nat_alt)
  from push_mc_cbuffer_ok [OF this, of v] obtain cb where cb: "push_mc_cbuffer ?cb v = Some cb" "mc_wf cb"
    "mc_max_size cb = mc_max_size ?cb" "mc_items cb = [v]" using it mx assms(2) by (auto simp: lastn_def)
  have "mc_size cb = 1" using cb(4) length_mc_items [of cb] by (simp add: word_unat_eq_iff)
  then show ?thesis using mx cb by (simp add: init_metric_smoother_def sm_ok_def)
qed

section \<open>The history of changes\<close>

definition hist_items :: "pmon_change_history_t \<Rightarrow> bool list" where
  "hist_items h = map (bit (ch_change_vector h)) [0..<AMP_HISTORY_BIT_VECTOR_SIZE]"

definition hist_ok :: "pmon_change_history_t \<Rightarrow> bool" where
  "hist_ok h \<longleftrightarrow> (\<forall>i \<ge> AMP_HISTORY_BIT_VECTOR_SIZE. \<not> bit (ch_change_vector h) i) \<and>
     ch_local_stable_values h = of_nat (length (filter (\<lambda>b. b) (hist_items h))) \<and>
     ch_local_changes h = of_nat (length (filter Not (hist_items h)))"

text \<open>Registering a stable value or a change.\<close>

definition register :: "pmon_change_history_t \<Rightarrow> bool \<Rightarrow> pmon_change_history_t" where
  "register h b = (if b then pmon_register_metric_stable_value h else pmon_register_metric_change h)"

lemma and_1_bit: "(v :: u32) AND 1 = of_bool (bit v 0)"
  by (rule bit_word_eqI) (auto simp: bit_simps)

lemma register_vector:
  assumes "\<forall>i \<ge> 10. \<not> bit (ch_change_vector h) i"
  shows "bit (ch_change_vector (register h b)) i \<longleftrightarrow> (if i = 9 then b else bit (ch_change_vector h) (Suc i))"
proof -
  have l0: "AMP_HISTORY_LAST_BIT = 2 ^ 9" by (simp add: AMP_HISTORY_LAST_BIT_def)
  have l: "bit AMP_HISTORY_LAST_BIT j \<longleftrightarrow> j = 9" for j unfolding l0 bit_exp_iff by auto
  show ?thesis using assms
    by (auto simp: register_def pmon_register_metric_stable_value_def pmon_register_metric_change_def Let_def
        bit_simps l)
qed

lemma register_ok:
  assumes "hist_ok h"
  shows "hist_ok (register h b) \<and> hist_items (register h b) = tl (hist_items h) @ [b]"
proof -
  have hi: "\<forall>i \<ge> 10. \<not> bit (ch_change_vector h) i" using assms by (simp add: hist_ok_def AMP_HISTORY_BIT_VECTOR_SIZE_def)
  note v = register_vector [OF hi]
  have it: "hist_items h = bit (ch_change_vector h) 0 # tl (hist_items h)"
    by (simp add: hist_items_def AMP_HISTORY_BIT_VECTOR_SIZE_def upt_rec)
  have it': "hist_items (register h b) = tl (hist_items h) @ [b]"
    by (simp add: hist_items_def AMP_HISTORY_BIT_VECTOR_SIZE_def upt_rec v numeral_eq_Suc)
  let ?T = "tl (hist_items h)"
  have st: "ch_local_stable_values h = of_bool (bit (ch_change_vector h) 0) + of_nat (length (filter (\<lambda>b. b) ?T))"
    and cg: "ch_local_changes h = of_bool (\<not> bit (ch_change_vector h) 0) + of_nat (length (filter Not ?T))"
    using assms unfolding hist_ok_def by (subst (asm) it, subst (asm) (2) it, simp)+
  have nb: "\<not> bit (ch_change_vector (register h b)) i" if "10 \<le> i" for i using v [where i = i] hi that by simp
  have "ch_local_stable_values (register h b) = of_nat (length (filter (\<lambda>b. b) (?T @ [b])))"
    "ch_local_changes (register h b) = of_nat (length (filter Not (?T @ [b])))"
    using st cg by (auto simp: register_def pmon_register_metric_stable_value_def
        pmon_register_metric_change_def Let_def and_1_bit)
  then have "hist_ok (register h b)" unfolding hist_ok_def it' using nb by (simp add: AMP_HISTORY_BIT_VECTOR_SIZE_def)
  then show ?thesis using it' by simp
qed

interpretation history: overwriting_fifo hist_ok hist_items "\<lambda>_. AMP_HISTORY_BIT_VECTOR_SIZE" "\<lambda>h b. Some (register h b)"
proof
  fix h b assume h: "hist_ok h"
  have "lastn AMP_HISTORY_BIT_VECTOR_SIZE (hist_items h @ [b]) = tl (hist_items h) @ [b]"
    by (rule lastn_full_snoc) (simp_all add: hist_items_def AMP_HISTORY_BIT_VECTOR_SIZE_def)
  then show "\<exists>q'. Some (register h b) = Some q' \<and> hist_ok q' \<and> AMP_HISTORY_BIT_VECTOR_SIZE = AMP_HISTORY_BIT_VECTOR_SIZE \<and>
      hist_items q' = lastn AMP_HISTORY_BIT_VECTOR_SIZE (hist_items h @ [b])"
    using register_ok [OF h, of b] by simp
qed (simp add: hist_items_def)

section \<open>Averages and models\<close>

lemma chk_Some: "- (2 ^ 31) \<le> x \<Longrightarrow> x < 2 ^ 31 \<Longrightarrow> chk x = Some x"
  by (simp add: chk_def)

lemma cdiv_100_bounds: "0 \<le> r \<Longrightarrow> r \<le> 100 \<Longrightarrow> (0 \<le> d \<longrightarrow> 0 \<le> cdiv (r * d) 100 \<and> cdiv (r * d) 100 \<le> d) \<and>
  (d \<le> 0 \<longrightarrow> d \<le> cdiv (r * d) 100 \<and> cdiv (r * d) 100 \<le> 0)"
proof -
  assume r: "0 \<le> r" "r \<le> 100"
  have pos: "0 \<le> r * d div 100 \<and> r * d div 100 \<le> d" if "0 \<le> d" for d
  proof -
    have "r * d \<le> 100 * d" using that r by (intro mult_right_mono)
    then show ?thesis using that r by (simp add: pos_imp_zdiv_nonneg_iff)
  qed
  show ?thesis
  proof (cases "0 \<le> d")
    case True
    then show ?thesis using pos [OF True] r by (auto simp: cdiv_nonneg)
  next
    case False
    then have "cdiv (r * d) 100 = - (r * (- d) div 100)"
      using r by (cases "r = 0") (auto simp: cdiv_def sgn_mult abs_mult)
    then show ?thesis using pos [of "- d"] False by auto
  qed
qed

definition spec_of :: "int \<Rightarrow> int \<Rightarrow> int \<Rightarrow> int \<Rightarrow> (nat \<times> int \<times> int \<times> int) list \<Rightarrow> int list" where
  "spec_of s0 mn mx pad es = [s0, mn, mx, pad] @ concat (map (\<lambda>(m, t, a, b). [int m, t, a, b]) es) @ [-1]"

definition contribution :: "u64 list \<Rightarrow> nat \<times> int \<times> int \<times> int \<Rightarrow> int" where
  "contribution metrics = (\<lambda>(m, t, a, b). if metrics ! m \<le> word_of_int t then a else b)"

lemma additive_step:
  assumes "rd s idx = Some (int m)" "rd s (idx + 1) = Some t" "rd s (idx + 2) = Some a" "rd s (idx + 3) = Some b"
    and "m < length metrics" and "chk (sf + contribution metrics (m, t, a, b)) = Some sf'"
  shows "additive_loop metrics s idx sf = additive_loop metrics s (idx + 4) sf'"
proof -
  have m: "metric_at metrics (int m) = Some (metrics ! m)" using assms(5) by (simp add: metric_at_def rd_Some)
  have d: "rd s (if metrics ! m \<le> word_of_int t then idx + 2 else idx + 3) = Some (contribution metrics (m, t, a, b))"
    using assms(3,4) by (simp add: contribution_def)
  have n: "int m \<noteq> -1" by simp
  show ?thesis
    by (subst additive_loop.simps) (simp only: assms(1,2) m d n if_False assms(6) Option.bind.bind_lunit)
qed

lemma additive_loop_eq:
  "\<forall>(m, _) \<in> set es. m < length metrics \<Longrightarrow> length pre = idx \<Longrightarrow>
   (\<forall>k \<le> length es. chk (sf + sum_list (map (contribution metrics) (take k es))) \<noteq> None) \<Longrightarrow>
   additive_loop metrics (pre @ concat (map (\<lambda>(m, t, a, b). [int m, t, a, b]) es) @ [-1]) idx sf =
     Some (sf + sum_list (map (contribution metrics) es))"
proof (induction es arbitrary: pre idx sf)
  case Nil
  then show ?case by (subst additive_loop.simps) (auto simp: rd_Some)
next
  case (Cons e es)
  obtain m t a b where e: "e = (m, t, a, b)" by (cases e)
  let ?c = "contribution metrics e"
  define S where "S = pre @ concat (map (\<lambda>(m, t, a, b). [int m, t, a, b]) (e # es)) @ [-1]"
  have "chk (sf + ?c) \<noteq> None" using spec [OF Cons.prems(3), of 1] by simp
  then have c1: "chk (sf + ?c) = Some (sf + ?c)" by (auto simp: chk_def split: if_splits)
  have r: "rd S idx = Some (int m)" "rd S (idx + 1) = Some t" "rd S (idx + 2) = Some a"
    "rd S (idx + 3) = Some b" using Cons.prems(2) by (simp_all add: S_def rd_Some e nth_append)
  have sp: "(pre @ [int m, t, a, b]) @ concat (map (\<lambda>(m, t, a, b). [int m, t, a, b]) es) @ [-1] = S"
    by (simp add: S_def e)
  have k: "\<forall>k \<le> length es. chk (sf + ?c + sum_list (map (contribution metrics) (take k es))) \<noteq> None"
  proof (intro allI impI)
    fix k assume "k \<le> length es"
    then show "chk (sf + ?c + sum_list (map (contribution metrics) (take k es))) \<noteq> None"
      using spec [OF Cons.prems(3), of "Suc k"] by (simp add: add.assoc)
  qed
  have IH: "additive_loop metrics S (idx + 4) (sf + ?c) = Some (sf + ?c + sum_list (map (contribution metrics) es))"
    using Cons.IH [of "pre @ [int m, t, a, b]" "idx + 4" "sf + ?c", OF _ _ k] Cons.prems(1,2) unfolding sp by simp
  have "additive_loop metrics S idx sf = additive_loop metrics S (idx + 4) (sf + ?c)"
    using additive_step [OF r, of metrics sf] c1 Cons.prems(1) by (simp add: e)
  then show ?case using IH by (simp add: S_def add.assoc)
qed

section \<open>Properties\<close>

text \<open>C30. The smoothed value of a metric is the mean of its last samples. Initialised with a window of \<open>n\<close>
  samples (1 to 20) and a first value, and given the samples \<open>xs\<close>, the smoother never reads out of bounds
  or divides by zero, and its average is the sum of the last \<open>n\<close> values (the first one included)
  divided by their number; if the sum does not overflow 64 bits this is the integer mean.\<close>

theorem smoothed_value_is_window_mean:
  assumes "length (mc_data (sm_cbuf mt)) = MC_MAX_CBUFFER_SIZE" and "0 < n" and "n \<le> MC_MAX_CBUFFER_SIZE"
  shows "\<exists>mt0 mt'. init_metric_smoother mt (of_nat n) v = Some mt0 \<and> push_all add_new_metric_sample_mst mt0 xs = Some mt' \<and>
    (let ys = lastn n (v # xs) in sm_average mt' = sum_list ys div of_nat (length ys) \<and>
      (sum_list (map unat ys) < 2 ^ 64 \<longrightarrow> unat (sm_average mt') = sum_list (map unat ys) div length ys))"
proof -
  obtain mt0 where 0: "init_metric_smoother mt (of_nat n) v = Some mt0" "sm_ok mt0"
    "unat (mc_max_size (sm_cbuf mt0)) = n" "mc_items (sm_cbuf mt0) = [v]"
    using init_smoother_ok [OF assms] by blast
  obtain mt' where mt': "push_all add_new_metric_sample_mst mt0 xs = Some mt'" "sm_ok mt'"
    "mc_items (sm_cbuf mt') = lastn n (v # xs)"
    using smoother.push_all_ok [OF 0(2), of xs] 0(3,4) by auto
  let ?ys = "lastn n (v # xs)"
  have av: "sm_average mt' = sum_list ?ys div of_nat (length ?ys)" using mt'(2,3) by (simp add: sm_ok_def del: length_lastn)
  have un: "sum_list (map unat zs) < 2 ^ 64 \<Longrightarrow> unat (sum_list zs) = sum_list (map unat zs)" for zs :: "u64 list"
    by (induction zs) (simp_all add: unat_word_ariths)
  have "length ?ys \<le> 20" using assms(3) by (simp add: MC_MAX_CBUFFER_SIZE_def)
  then have l: "unat (of_nat (length ?ys) :: u64) = length ?ys"
    by (simp only: unat_of_nat) (simp add: take_bit_nat_eq_self del: length_lastn)
  have "sum_list (map unat ?ys) < 2 ^ 64 \<Longrightarrow> unat (sm_average mt') = sum_list (map unat ?ys) div length ?ys"
    unfolding av unat_div l un by (rule refl)
  then show ?thesis using 0(1) mt'(1) av by (auto simp: Let_def simp del: length_lastn)
qed

theorem smoothed_value_is_window_mean_witness:
  "\<exists>mt0 mt'. init_metric_smoother \<lparr>sm_cbuf = \<lparr>mc_data = replicate 20 7, mc_head = 3, mc_size = 9, mc_max_size = 0\<rparr>,
      sm_acum = 5, sm_average = 6\<rparr> 2 10 = Some mt0 \<and> push_all add_new_metric_sample_mst mt0 [20, 40, 61] = Some mt' \<and>
    sm_average mt' = 50"
  using smoothed_value_is_window_mean [of "\<lparr>sm_cbuf = \<lparr>mc_data = replicate 20 7, mc_head = 3, mc_size = 9, mc_max_size = 0\<rparr>,
      sm_acum = 5, sm_average = 6\<rparr>" 2 10 "[20, 40, 61]"]
  by (auto simp: MC_MAX_CBUFFER_SIZE_def lastn_def Let_def)

text \<open>C31. The counters of a phase history describe its last ten outcomes: after any sequence of registered
  stable values (\<open>True\<close>) and changes (\<open>False\<close>), starting from a new history (all stable), the bit vector is
  the last ten outcomes, oldest first, and the local counters are the number of stable values and of changes
  among them.\<close>

theorem history_counts_last_outcomes:
  "let h = foldl register init_pmon_change_history bs; w = lastn 10 (replicate 10 True @ bs) in
     hist_items h = w \<and> ch_local_stable_values h = of_nat (length (filter (\<lambda>b. b) w)) \<and>
     ch_local_changes h = of_nat (length (filter Not w))"
proof -
  have i: "hist_ok init_pmon_change_history" "hist_items init_pmon_change_history = replicate 10 True"
  proof -
    have m: "AMP_HISTORY_BIT_VECTOR_MASK = mask 10" by (simp add: AMP_HISTORY_BIT_VECTOR_MASK_def mask_eq_exp_minus_1)
    have b: "bit AMP_HISTORY_BIT_VECTOR_MASK j \<longleftrightarrow> j < 10" for j unfolding m bit_mask_iff by auto
    show "hist_items init_pmon_change_history = replicate 10 True"
      by (rule nth_equalityI) (simp_all add: hist_items_def init_pmon_change_history_def AMP_HISTORY_BIT_VECTOR_SIZE_def b)
    then show "hist_ok init_pmon_change_history" unfolding hist_ok_def
      by (simp add: init_pmon_change_history_def AMP_HISTORY_BIT_VECTOR_SIZE_def b)
  qed
  have p: "push_all (\<lambda>h b. Some (register h b)) h bs = Some (foldl register h bs)" for h
    by (induction bs arbitrary: h) simp_all
  have "hist_ok (foldl register init_pmon_change_history bs)"
    "hist_items (foldl register init_pmon_change_history bs) = lastn 10 (replicate 10 True @ bs)"
    using history.push_all_ok [OF i(1), of bs] unfolding p i(2) by (simp_all add: AMP_HISTORY_BIT_VECTOR_SIZE_def)
  then show ?thesis by (simp add: Let_def hist_ok_def)
qed

text \<open>The running average of a metric never overshoots. For values below \<open>2 ^ 20\<close> and a factor from 0 to 100
  nothing overflows, the new average lies between the old one and the sample, and with an
  absolute threshold a variation is reported exactly when the threshold is not zero and the average moved by more than twice
  the threshold.\<close>

theorem running_average_converges:
  assumes "unat (ch_running_average h) < 2 ^ 20" and "unat x < 2 ^ 20" and "0 \<le> factor" and "factor \<le> 100"
    and "0 \<le> threshold" and "threshold \<le> 1000"
  shows "\<exists>h' changed. pmon_update_running_average h x factor threshold percentage = Some (h', changed) \<and>
    (let old = int (unat (ch_running_average h)); new = int (unat (ch_running_average h')); s = int (unat x) in
     min old s \<le> new \<and> new \<le> max old s \<and>
     (\<not> percentage \<longrightarrow> changed = (threshold \<noteq> 0 \<and> \<bar>new - old\<bar> > 2 * threshold)))"
proof -
  define old s where "old = int (unat (ch_running_average h))" and "s = int (unat x)"
  have "old < int (2 ^ 20)" "s < int (2 ^ 20)" unfolding old_def s_def using assms(1,2) by (simp_all only: of_nat_less_iff)
  then have os: "sint (ch_running_average h) = old" "sint x = s" "0 \<le> old" "old < 2 ^ 20" "0 \<le> s" "s < 2 ^ 20"
    using assms(1,2) by (simp_all add: old_def s_def sint_u32_small)
  define q where "q = cdiv (factor * (old - s)) 100"
  define new where "new = q + s"
  have q: "(0 \<le> old - s \<longrightarrow> 0 \<le> q \<and> q \<le> old - s) \<and> (old - s \<le> 0 \<longrightarrow> old - s \<le> q \<and> q \<le> 0)"
    using cdiv_100_bounds [OF assms(3,4), of "old - s"] unfolding q_def by blast
  have nb: "min old s \<le> new" "new \<le> max old s" "0 \<le> new" "new < 2 ^ 20" using q os by (auto simp: new_def)
  have fd: "\<bar>factor * (old - s)\<bar> \<le> 100 * 2 ^ 20"
    unfolding abs_mult using assms(3,4) os by (intro mult_mono) auto
  have c: "chk (old - s) = Some (old - s)" "chk (factor * (old - s)) = Some (factor * (old - s))" "chk new = Some new"
    "chk (new + 10) = Some (new + 10)" "chk (old + 10) = Some (old + 10)"
    using os nb fd by (auto intro!: chk_Some)
  let ?mx = "max (new + 10) (old + 10)" and ?mn = "min (new + 10) (old + 10)"
  have sm: "chk (?mx + ?mn) = Some (?mx + ?mn)" using os nb by (auto intro!: chk_Some)
  let ?ax = "(?mx + ?mn) div 2"
  have ax: "0 \<le> ?ax" "?ax \<le> 2 ^ 20 + 10" using os nb by auto
  have "threshold * ?ax \<le> 1000 * (2 ^ 20 + 10)" using assms(5,6) ax by (intro mult_mono) auto
  moreover have t0: "0 \<le> threshold * ?ax" by (rule mult_nonneg_nonneg [OF assms(5) ax(1)])
  ultimately have te: "chk (threshold * ?ax) = Some (threshold * ?ax)" "0 \<le> threshold * ?ax"
    "threshold * ?ax \<le> 1000 * (2 ^ 20 + 10)" by (auto intro!: chk_Some simp del: zero_le_mult_iff)
  define eps where "eps = (if percentage then cdiv (threshold * ?ax) 100 else threshold)"
  have cd: "0 \<le> cdiv y 100 \<and> cdiv y 100 \<le> 2 ^ 24" if "0 \<le> y" "y \<le> 1000 * (2 ^ 20 + 10)" for y
    using that by (simp add: cdiv_nonneg) linarith
  have eb: "0 \<le> eps" "eps \<le> 2 ^ 24" using assms(5,6) cd [OF te(2,3)] by (simp_all add: eps_def)
  have ce: "chk (?ax + eps) = Some (?ax + eps)" using ax eb by (auto intro!: chk_Some)
  let ?h = "h\<lparr>ch_running_average := word_of_int new\<rparr>"
  have r: "pmon_update_running_average h x factor threshold percentage =
      Some (?h, eps \<noteq> 0 \<and> \<not> ?mx \<le> ?ax + eps)"
  proof -
    have "(if percentage then do { q \<leftarrow> chk (threshold * ?ax); Some (cdiv q 100) } else Some threshold) = Some eps"
      using te by (simp add: eps_def)
    then show ?thesis unfolding pmon_update_running_average_def os(1,2) Let_def c(1) Option.bind.bind_lunit c(2)
      q_def [symmetric] new_def [symmetric] c(3-5) sm by (simp add: ce)
  qed
  have un: "int (unat (ch_running_average ?h)) = new"
    using nb(3,4) by (simp add: uint_word_of_int take_bit_int_eq_self)
  have ch: "(eps \<noteq> 0 \<and> \<not> ?mx \<le> ?ax + eps) = (threshold \<noteq> 0 \<and> \<bar>new - old\<bar> > 2 * threshold)" if "\<not> percentage"
    using that unfolding eps_def by (simp add: max_def min_def abs_if) linarith
  show ?thesis unfolding Let_def old_def [symmetric] s_def [symmetric]
  proof (intro exI conjI impI)
    show "pmon_update_running_average h x factor threshold percentage = Some (?h, eps \<noteq> 0 \<and> \<not> ?mx \<le> ?ax + eps)" by (rule r)
    assume "\<not> percentage"
    then show "(eps \<noteq> 0 \<and> \<not> ?mx \<le> ?ax + eps) = (threshold \<noteq> 0 \<and>
        2 * threshold < \<bar>int (unat (ch_running_average ?h)) - old\<bar>)" unfolding un by (rule ch)
  qed (unfold un, rule nb(1), rule nb(2))
qed

theorem running_average_converges_witness:
  "\<exists>h' changed. pmon_update_running_average (init_pmon_change_history\<lparr>ch_running_average := 1200\<rparr>) 900 70 50 False =
      Some (h', changed) \<and> 900 \<le> int (unat (ch_running_average h')) \<and> int (unat (ch_running_average h')) \<le> 1200 \<and>
    changed = (\<bar>int (unat (ch_running_average h')) - 1200\<bar> > 100)"
  using running_average_converges [of "init_pmon_change_history\<lparr>ch_running_average := 1200\<rparr>" 900 70 50 False]
  by (simp add: Let_def)

text \<open>The additive model of the speedup factor is the sum it describes. On a specification made of
  a base, bounds and entries (metric, threshold, gain up to it, gain above it) ended by \<open>-1\<close>, if the partial sums fit
  an \<open>int\<close> the walk over the array ends within it and gives the base plus the correction plus one gain for
  each entry, clamped to the bounds.\<close>

theorem additive_model_is_clamped_sum:
  assumes "\<forall>(m, _) \<in> set es. m < length metrics" and "mn \<le> mx"
    and "\<forall>k \<le> length es. chk (s0 + corr + sum_list (map (contribution metrics) (take k es))) \<noteq> None"
  shows "estimate_sf_additive metrics (spec_of s0 mn mx pad es) corr =
    Some (max mn (min mx (s0 + corr + sum_list (map (contribution metrics) es))))"
proof -
  have "chk (s0 + corr) \<noteq> None" using assms(3) by (auto dest: spec [of _ 0])
  then have "chk (s0 + corr) = Some (s0 + corr)" by (auto simp: chk_def split: if_splits)
  moreover have "additive_loop metrics (spec_of s0 mn mx pad es) 4 (s0 + corr) =
      Some (s0 + corr + sum_list (map (contribution metrics) es))"
    using additive_loop_eq [OF assms(1), of "[s0, mn, mx, pad]" 4 "s0 + corr"] assms(3) by (simp add: spec_of_def)
  ultimately show ?thesis using assms(2)
    by (auto simp: estimate_sf_additive_def clamp_def spec_of_def rd_Some)
qed

theorem additive_model_is_clamped_sum_witness:
  "estimate_sf_additive [500, 30] (spec_of 1000 1100 1800 0 [(0, 600, 250, 10), (1, 20, 5, 300)]) (-50) = Some 1500"
  using additive_model_is_clamped_sum [of "[(0, 600, 250, 10), (1, 20, 5, 300)]" "[500, 30]" 1100 1800 1000 "-50" 0]
  by (auto simp: contribution_def chk_def le_Suc_eq)

text \<open>Two of the relations do not compute what their names say, whatever the events: \<open>op_substract\<close> always
  gives 0 (the result is overwritten), and \<open>op_none\<close> reads an operand that is never set.\<close>

theorem subtraction_metrics_are_zero:
  assumes "get_operand (mt_arg1 m) ev mv = Some a" and "get_operand (mt_arg2 m) ev mv = Some b"
  shows "(mt_mode m = op_substract \<longrightarrow> (\<exists>m'. compute_value m ev mv = Some m' \<and> mt_count m' = 0)) \<and>
    (mt_mode m = op_none \<longrightarrow> compute_value m ev mv = None)"
  using assms by (auto simp: compute_value_def get_operands_def upt_rec rd_def Let_def)

theorem subtraction_metrics_are_zero_witness:
  "\<exists>m'. compute_value (init_pmc_metric ''diff'' op_substract \<lparr>arg_type = hw_event_arg, arg_index = 0\<rparr>
      \<lparr>arg_type = hw_event_arg, arg_index = 1\<rparr> 1) [9, 4] [] = Some m' \<and> mt_count m' = 0"
  using subtraction_metrics_are_zero [of "init_pmc_metric ''diff'' op_substract \<lparr>arg_type = hw_event_arg, arg_index = 0\<rparr>
      \<lparr>arg_type = hw_event_arg, arg_index = 1\<rparr> 1" "[9, 4]" "[]" 9 4]
  by (simp add: init_pmc_metric_def get_operand_def rd_def)

end
