(* ===== verification/SampleBuffer.thy ===== *)
theory SampleBuffer
  imports CBuffer
begin

text \<open>
  The buffer of samples between the threads that are monitored and the program that reads them
  (\<^verbatim>\<open>pmc_user.h\<close>, \<^verbatim>\<open>mc_experiments.h\<close>, \<^verbatim>\<open>mc_experiments.c\<close>, the read of \<^verbatim>\<open>/proc/pmc/monitor\<close> in
  \<^verbatim>\<open>mchw_core.c\<close>). A sample is a C structure of 152 bytes, that the ring of \<^verbatim>\<open>CBuffer\<close> stores in memory
  order (little-endian, no padding). The semaphore is its count, the spin lock is not in the model:
  every operation is one step of the thread that holds it.
\<close>

section \<open>Samples\<close>

datatype sample_type_t = PMC_TICK_SAMPLE | PMC_EBS_SAMPLE | PMC_EXIT_SAMPLE | PMC_MIGRATION_SAMPLE | PMC_SELF_SAMPLE

definition MAX_PERFORMANCE_COUNTERS :: nat where "MAX_PERFORMANCE_COUNTERS = 11"
definition MAX_VIRTUAL_COUNTERS :: nat where "MAX_VIRTUAL_COUNTERS = 3"

record pmc_sample_t =
  ps_type :: sample_type_t
  ps_coretype :: u32
  ps_exp_idx :: u32
  ps_pid :: u32
  ps_elapsed_time :: u64
  ps_pmc_mask :: u32
  ps_nr_counts :: u32
  ps_pmc_counts :: "u64 list"
  ps_virt_mask :: u32
  ps_nr_virt_counts :: u32
  ps_virtual_counts :: "u64 list"

fun type_code :: "sample_type_t \<Rightarrow> u32" where
  "type_code PMC_TICK_SAMPLE = 0"
| "type_code PMC_EBS_SAMPLE = 1"
| "type_code PMC_EXIT_SAMPLE = 2"
| "type_code PMC_MIGRATION_SAMPLE = 3"
| "type_code PMC_SELF_SAMPLE = 4"

definition type_of_code :: "u32 \<Rightarrow> sample_type_t" where
  "type_of_code c = (if c = 0 then PMC_TICK_SAMPLE else if c = 1 then PMC_EBS_SAMPLE
     else if c = 2 then PMC_EXIT_SAMPLE else if c = 3 then PMC_MIGRATION_SAMPLE else PMC_SELF_SAMPLE)"

text \<open>The bytes of a word in memory, and the word of some bytes.\<close>

definition le_bytes :: "nat \<Rightarrow> 'a::len word \<Rightarrow> u8 list" where
  "le_bytes n w = map (\<lambda>i. ucast (drop_bit (8 * i) w)) [0..<n]"

definition of_le :: "u8 list \<Rightarrow> 'a::len word" where
  "of_le bs = foldr (\<lambda>b acc. ucast b OR push_bit 8 acc) bs 0"

definition SIZEOF_PMC_SAMPLE :: nat where "SIZEOF_PMC_SAMPLE = 152"

definition sample_bytes :: "pmc_sample_t \<Rightarrow> u8 list" where
  "sample_bytes s = le_bytes 4 (type_code (ps_type s)) @ le_bytes 4 (ps_coretype s) @ le_bytes 4 (ps_exp_idx s) @
     le_bytes 4 (ps_pid s) @ le_bytes 8 (ps_elapsed_time s) @ le_bytes 4 (ps_pmc_mask s) @ le_bytes 4 (ps_nr_counts s) @
     concat (map (le_bytes 8) (ps_pmc_counts s)) @ le_bytes 4 (ps_virt_mask s) @ le_bytes 4 (ps_nr_virt_counts s) @
     concat (map (le_bytes 8) (ps_virtual_counts s))"

definition word_at :: "nat \<Rightarrow> nat \<Rightarrow> u8 list \<Rightarrow> 'a::len word" where
  "word_at i n bs = of_le (take n (drop i bs))"

definition sample_at :: "u8 list \<Rightarrow> pmc_sample_t" where
  "sample_at bs = \<lparr>ps_type = type_of_code (word_at 0 4 bs), ps_coretype = word_at 4 4 bs, ps_exp_idx = word_at 8 4 bs,
     ps_pid = word_at 12 4 bs, ps_elapsed_time = word_at 16 8 bs, ps_pmc_mask = word_at 24 4 bs,
     ps_nr_counts = word_at 28 4 bs, ps_pmc_counts = map (\<lambda>i. word_at (32 + 8 * i) 8 bs) [0..<MAX_PERFORMANCE_COUNTERS],
     ps_virt_mask = word_at 120 4 bs, ps_nr_virt_counts = word_at 124 4 bs,
     ps_virtual_counts = map (\<lambda>i. word_at (128 + 8 * i) 8 bs) [0..<MAX_VIRTUAL_COUNTERS]\<rparr>"

text \<open>What the program that reads the bytes sees: an array of samples.\<close>

definition samples_of :: "u8 list \<Rightarrow> pmc_sample_t list" where
  "samples_of bs = map (\<lambda>i. sample_at (take SIZEOF_PMC_SAMPLE (drop (SIZEOF_PMC_SAMPLE * i) bs)))
     [0..<length bs div SIZEOF_PMC_SAMPLE]"

section \<open>The shared buffer\<close>

record pmc_samples_buffer_t =
  sb_samples :: cbuffer_t
  sb_sem :: nat
  sb_waiting :: bool
  sb_refs :: int

text \<open>The arguments are the outcomes of the allocations: of the object, of the header and of the data of the ring.
  The number of objects that are not freed on the error paths comes second.\<close>

definition allocate_pmc_samples_buffer ::
  "bool \<Rightarrow> bool \<Rightarrow> (nat \<Rightarrow> u8 list option) \<Rightarrow> u32 \<Rightarrow> pmc_samples_buffer_t option" where
  "allocate_pmc_samples_buffer ok header_ok alloc size_bytes =
     (if \<not> ok then None
      else case fst (create_cbuffer_t header_ok alloc size_bytes) of
        None \<Rightarrow> None
      | Some cb \<Rightarrow> Some \<lparr>sb_samples = cb, sb_sem = 0, sb_waiting = False, sb_refs = 1\<rparr>)"

definition get_pmc_samples_buffer :: "pmc_samples_buffer_t \<Rightarrow> pmc_samples_buffer_t" where
  "get_pmc_samples_buffer sbuf = sbuf\<lparr>sb_refs := sb_refs sbuf + 1\<rparr>"

definition get_pmc_samples_buffer_refs :: "pmc_samples_buffer_t \<Rightarrow> int" where
  "get_pmc_samples_buffer_refs sbuf = sb_refs sbuf"

text \<open>\<open>None\<close>: the object was freed.\<close>

definition put_pmc_samples_buffer :: "pmc_samples_buffer_t \<Rightarrow> pmc_samples_buffer_t option" where
  "put_pmc_samples_buffer sbuf =
     (let r = sb_refs sbuf - 1 in if r = 0 then None else Some (sbuf\<lparr>sb_refs := r\<rparr>))"

definition wake_up_monitor_program :: "pmc_samples_buffer_t \<Rightarrow> pmc_samples_buffer_t" where
  "wake_up_monitor_program sbuf =
     (if sb_waiting sbuf then sbuf\<lparr>sb_waiting := False, sb_sem := sb_sem sbuf + 1\<rparr> else sbuf)"

definition push_sample_nowakeup :: "pmc_samples_buffer_t \<Rightarrow> pmc_sample_t \<Rightarrow> pmc_samples_buffer_t option" where
  "push_sample_nowakeup sbuf sample = do {
     cb \<leftarrow> insert_items_cbuffer_t (sb_samples sbuf) (sample_bytes sample) (int SIZEOF_PMC_SAMPLE);
     Some (sbuf\<lparr>sb_samples := cb\<rparr>)
   }"

definition push_sample :: "pmc_samples_buffer_t \<Rightarrow> pmc_sample_t \<Rightarrow> pmc_samples_buffer_t option" where
  "push_sample sbuf sample = do {
     cb \<leftarrow> insert_items_cbuffer_t (sb_samples sbuf) (sample_bytes sample) (int SIZEOF_PMC_SAMPLE);
     let sbuf = sbuf\<lparr>sb_samples := cb\<rparr>;
     Some (if sb_waiting sbuf then sbuf\<lparr>sb_waiting := False, sb_sem := sb_sem sbuf + 1\<rparr> else sbuf)
   }"

text \<open>One attempt of the reader while it holds the lock: at the end of the data, asleep on the semaphore, or with
  the bytes it copied.\<close>

datatype read_result = Eof | Asleep | Read "u8 list"

definition monitor_read :: "pmc_samples_buffer_t \<Rightarrow> bool \<Rightarrow> nat \<Rightarrow> (pmc_samples_buffer_t \<times> read_result) option" where
  "monitor_read sbuf self_monitoring dst_buffer_size =
     (if \<not> self_monitoring \<and> get_pmc_samples_buffer_refs sbuf \<le> 1 \<and> is_empty_cbuffer_t (sb_samples sbuf)
      then Some (sbuf, Eof)
      else if \<not> self_monitoring \<and> is_empty_cbuffer_t (sb_samples sbuf)
      then Some (sbuf\<lparr>sb_waiting := True\<rparr>, Asleep)
      else do {
        (cb, out, n) \<leftarrow> remove_cbuffer_t_batch (sb_samples sbuf) (int dst_buffer_size);
        Some (sbuf\<lparr>sb_samples := cb\<rparr>, Read out)
      })"

section \<open>Bytes and samples\<close>

lemma length_le_bytes [simp]: "length (le_bytes n w) = n"
  by (simp add: le_bytes_def)

lemma le_bytes_Suc: "le_bytes (Suc n) w = ucast w # le_bytes n (drop_bit 8 w)"
  by (rule nth_equalityI) (auto simp: le_bytes_def nth_Cons less_Suc_eq_0_disj drop_bit_drop_bit add.commute simp del: upt_Suc split: nat.splits)

lemma of_le_le_bytes: "of_le (le_bytes n w) = take_bit (8 * n) w"
proof (induction n arbitrary: w)
  case 0
  then show ?case by (simp add: le_bytes_def of_le_def)
next
  case (Suc n)
  have "of_le (le_bytes (Suc n) w) = ucast (ucast w :: u8) OR push_bit 8 (of_le (le_bytes n (drop_bit 8 w)))"
    by (simp add: le_bytes_Suc of_le_def)
  also have "\<dots> = take_bit (8 * Suc n) w"
    unfolding Suc.IH by (rule bit_word_eqI) (auto simp: bit_simps)
  finally show ?case .
qed

lemma of_le_u32 [simp]: "of_le (le_bytes 4 (w :: u32)) = w"
  by (rule bit_word_eqI) (simp add: of_le_le_bytes bit_take_bit_iff)

lemma of_le_u64 [simp]: "of_le (le_bytes 8 (w :: u64)) = w"
  by (rule bit_word_eqI) (simp add: of_le_le_bytes bit_take_bit_iff)

lemma type_of_code [simp]: "type_of_code (type_code t) = t"
  by (cases t) (simp_all add: type_of_code_def)

lemma word_at_chunk: "length as = i \<Longrightarrow> length bs = n \<Longrightarrow> word_at i n (as @ bs @ cs) = of_le bs"
  by (simp add: word_at_def)

lemma length_concat_chunks: "(\<forall>x \<in> set xs. length (f x) = n) \<Longrightarrow> length (concat (map f xs)) = n * length xs"
  by (induction xs) simp_all

lemma chunk_of_concat:
  "(\<forall>x \<in> set xs. length (f x) = n) \<Longrightarrow> i < length xs \<Longrightarrow> take n (drop (n * i) (concat (map f xs) @ zs)) = f (xs ! i)"
proof (induction xs arbitrary: i)
  case (Cons x xs)
  then show ?case by (cases i) (simp_all add: algebra_simps)
qed simp

lemma word_of_concat:
  assumes "i < length ws" and "j = length as + 8 * i"
  shows "word_at j 8 (as @ concat (map (le_bytes 8) (ws :: u64 list)) @ zs) = ws ! i"
  using chunk_of_concat [of ws "le_bytes 8" 8 i zs] assms by (simp add: word_at_def)

definition sample_ok :: "pmc_sample_t \<Rightarrow> bool" where
  "sample_ok s \<longleftrightarrow> length (ps_pmc_counts s) = MAX_PERFORMANCE_COUNTERS \<and> length (ps_virtual_counts s) = MAX_VIRTUAL_COUNTERS"

lemma length_sample_bytes: "sample_ok s \<Longrightarrow> length (sample_bytes s) = SIZEOF_PMC_SAMPLE"
  by (simp add: sample_bytes_def sample_ok_def SIZEOF_PMC_SAMPLE_def MAX_PERFORMANCE_COUNTERS_def MAX_VIRTUAL_COUNTERS_def
      length_concat_chunks [where n = 8])

lemma sample_at_bytes:
  assumes "sample_ok s"
  shows "sample_at (sample_bytes s) = s"
proof -
  let ?c = "concat (map (le_bytes 8) (ps_pmc_counts s))" and ?v = "concat (map (le_bytes 8) (ps_virtual_counts s))"
  let ?h = "[le_bytes 4 (type_code (ps_type s)), le_bytes 4 (ps_coretype s), le_bytes 4 (ps_exp_idx s),
     le_bytes 4 (ps_pid s), le_bytes 8 (ps_elapsed_time s), le_bytes 4 (ps_pmc_mask s), le_bytes 4 (ps_nr_counts s)]"
  have l: "length (ps_pmc_counts s) = 11" "length (ps_virtual_counts s) = 3"
    using assms by (simp_all add: sample_ok_def MAX_PERFORMANCE_COUNTERS_def MAX_VIRTUAL_COUNTERS_def)
  have lc: "length ?c = 88" "length ?v = 24" using l by (simp_all add: length_concat_chunks [where n = 8])
  have b: "sample_bytes s = concat ?h @ ?c @ le_bytes 4 (ps_virt_mask s) @ le_bytes 4 (ps_nr_virt_counts s) @ ?v"
    by (simp add: sample_bytes_def)
  have h: "word_at 0 4 (sample_bytes s) = type_code (ps_type s)" "word_at 4 4 (sample_bytes s) = ps_coretype s"
    "word_at 8 4 (sample_bytes s) = ps_exp_idx s" "word_at 12 4 (sample_bytes s) = ps_pid s"
    "word_at 16 8 (sample_bytes s) = ps_elapsed_time s" "word_at 24 4 (sample_bytes s) = ps_pmc_mask s"
    "word_at 28 4 (sample_bytes s) = ps_nr_counts s" "word_at 120 4 (sample_bytes s) = ps_virt_mask s"
    "word_at 124 4 (sample_bytes s) = ps_nr_virt_counts s"
    unfolding b by (simp_all add: word_at_def lc)
  have cs: "map (\<lambda>i. word_at (32 + 8 * i) 8 (sample_bytes s)) [0..<11] = ps_pmc_counts s"
  proof (rule nth_equalityI)
    fix i assume "i < length (map (\<lambda>i. word_at (32 + 8 * i) 8 (sample_bytes s) :: u64) [0..<11])"
    then have i: "i < 11" by simp
    have "word_at (32 + 8 * i) 8 (concat ?h @ ?c @ (le_bytes 4 (ps_virt_mask s) @ le_bytes 4 (ps_nr_virt_counts s) @ ?v))
        = ps_pmc_counts s ! i"
      by (rule word_of_concat) (simp_all add: l i)
    then show "map (\<lambda>i. word_at (32 + 8 * i) 8 (sample_bytes s)) [0..<11] ! i = ps_pmc_counts s ! i"
      using i by (simp add: b)
  qed (simp add: l)
  have vs: "map (\<lambda>i. word_at (128 + 8 * i) 8 (sample_bytes s)) [0..<3] = ps_virtual_counts s"
  proof (rule nth_equalityI)
    fix i assume "i < length (map (\<lambda>i. word_at (128 + 8 * i) 8 (sample_bytes s) :: u64) [0..<3])"
    then have i: "i < 3" by simp
    have "word_at (128 + 8 * i) 8 ((concat ?h @ ?c @ le_bytes 4 (ps_virt_mask s) @ le_bytes 4 (ps_nr_virt_counts s)) @ ?v @ [])
        = ps_virtual_counts s ! i"
      by (rule word_of_concat) (simp_all add: l lc i)
    then show "map (\<lambda>i. word_at (128 + 8 * i) 8 (sample_bytes s)) [0..<3] ! i = ps_virtual_counts s ! i"
      using i by (simp add: b)
  qed (simp add: l)
  show ?thesis
    by (simp add: sample_at_def h cs vs MAX_PERFORMANCE_COUNTERS_def MAX_VIRTUAL_COUNTERS_def)
qed

lemma samples_of_concat:
  assumes "\<forall>s \<in> set ss. sample_ok s"
  shows "samples_of (concat (map sample_bytes ss)) = ss"
proof -
  have u: "\<forall>s \<in> set ss. length (sample_bytes s) = SIZEOF_PMC_SAMPLE" using assms length_sample_bytes by blast
  have "length (concat (map sample_bytes ss)) div SIZEOF_PMC_SAMPLE = length ss"
    using length_concat_chunks [OF u] by (simp add: SIZEOF_PMC_SAMPLE_def)
  then show ?thesis using assms chunk_of_concat [OF u, of _ "[]"] sample_at_bytes
    by (auto simp: samples_of_def intro!: nth_equalityI)
qed

section \<open>The buffer keeps the last whole samples\<close>

text \<open>A queue that overwrites its oldest elements, for the elements that satisfy a condition.\<close>

locale guarded_fifo =
  fixes inv :: "'q \<Rightarrow> bool"
    and items :: "'q \<Rightarrow> 'a list"
    and cap :: "'q \<Rightarrow> nat"
    and push :: "'q \<Rightarrow> 'a \<Rightarrow> 'q option"
    and ok :: "'a \<Rightarrow> bool"
  assumes guarded_push: "inv q \<Longrightarrow> ok x \<Longrightarrow> \<exists>q'. push q x = Some q' \<and> inv q' \<and> cap q' = cap q \<and>
      items q' = lastn (cap q) (items q @ [x])"
    and guarded_le: "inv q \<Longrightarrow> length (items q) \<le> cap q"
begin

lemma guarded_push_all:
  assumes "inv q" and "\<forall>x \<in> set xs. ok x"
  shows "\<exists>q'. push_all push q xs = Some q' \<and> inv q' \<and> cap q' = cap q \<and> items q' = lastn (cap q) (items q @ xs)"
  using assms
proof (induction xs arbitrary: q)
  case Nil
  then show ?case using guarded_le by (simp add: lastn_all)
next
  case (Cons x xs)
  obtain q1 where q1: "push q x = Some q1" "inv q1" "cap q1 = cap q" "items q1 = lastn (cap q) (items q @ [x])"
    using guarded_push [OF Cons.prems(1), of x] Cons.prems(2) by auto
  obtain q2 where "push_all push q1 xs = Some q2" "inv q2" "cap q2 = cap q" "items q2 = lastn (cap q) (items q1 @ xs)"
    using Cons.IH [OF q1(2)] Cons.prems(2) q1(3) by auto
  then show ?case using q1 by (simp add: lastn_snoc_lastn)
qed

end

sublocale overwriting_fifo \<subseteq> guarded: guarded_fifo inv items cap push "\<lambda>_. True"
  by unfold_locales (auto simp: push_ok items_le)

definition sb_items :: "pmc_samples_buffer_t \<Rightarrow> pmc_sample_t list" where
  "sb_items sbuf = samples_of (cb_contents (sb_samples sbuf))"

definition sb_cap :: "pmc_samples_buffer_t \<Rightarrow> nat" where
  "sb_cap sbuf = unat (cb_max_size (sb_samples sbuf)) div SIZEOF_PMC_SAMPLE"

definition sb_ok :: "pmc_samples_buffer_t \<Rightarrow> bool" where
  "sb_ok sbuf \<longleftrightarrow> cb_wf (sb_samples sbuf) \<and> 0 < sb_cap sbuf \<and>
     unat (cb_max_size (sb_samples sbuf)) = SIZEOF_PMC_SAMPLE * sb_cap sbuf \<and>
     list_all sample_ok (sb_items sbuf) \<and> cb_contents (sb_samples sbuf) = concat (map sample_bytes (sb_items sbuf))"

lemma lastn_chunks:
  assumes "\<forall>x \<in> set xs. length (f x) = n"
  shows "lastn (n * k) (concat (map f xs)) = concat (map f (lastn k xs))"
proof -
  have "drop (n * j) (concat (map f xs)) = concat (map f (drop j xs))" for j
    using assms by (induction xs arbitrary: j) (auto simp: drop_Cons algebra_simps split: nat.splits)
  then show ?thesis using length_concat_chunks [OF assms]
    by (simp add: lastn_def) (metis diff_mult_distrib2)
qed

lemma set_lastn: "set (lastn k xs) \<subseteq> set xs"
  by (simp add: lastn_def set_drop_subset)

lemma sb_items_of:
  assumes "list_all sample_ok ss" and "cb_contents (sb_samples sbuf) = concat (map sample_bytes ss)"
  shows "sb_items sbuf = ss"
  using assms samples_of_concat by (simp add: sb_items_def list_all_iff)

lemma nowakeup_ok:
  assumes "sb_ok sbuf" and "sample_ok s"
  shows "\<exists>cb. insert_items_cbuffer_t (sb_samples sbuf) (sample_bytes s) (int SIZEOF_PMC_SAMPLE) = Some cb \<and>
    (\<forall>sb'. sb_samples sb' = cb \<longrightarrow> sb_ok sb' \<and> sb_cap sb' = sb_cap sbuf \<and>
       sb_items sb' = lastn (sb_cap sbuf) (sb_items sbuf @ [s]))"
proof -
  let ?n = "SIZEOF_PMC_SAMPLE" and ?ss = "sb_items sbuf"
  have wf: "cb_wf (sb_samples sbuf)" and mx: "unat (cb_max_size (sb_samples sbuf)) = ?n * sb_cap sbuf"
    and pos: "0 < sb_cap sbuf" and ok: "list_all sample_ok ?ss"
    and ct: "cb_contents (sb_samples sbuf) = concat (map sample_bytes ?ss)" using assms(1) by (simp_all add: sb_ok_def)
  note l = length_sample_bytes [OF assms(2)]
  have fits: "length (sample_bytes s) \<le> unat (cb_max_size (sb_samples sbuf))" using mx pos l by simp
  obtain cb where cb: "insert_items_cbuffer_t (sb_samples sbuf) (sample_bytes s) (int ?n) = Some cb" "cb_wf cb"
    "cb_contents cb = lastn (?n * sb_cap sbuf) (cb_contents (sb_samples sbuf) @ sample_bytes s)"
    "cb_max_size cb = cb_max_size (sb_samples sbuf)"
    using insert_items_contents [OF wf fits] l mx by auto
  let ?ss' = "lastn (sb_cap sbuf) (?ss @ [s])"
  have a: "list_all sample_ok ?ss'" using ok assms(2) set_lastn [of "sb_cap sbuf" "?ss @ [s]"] by (auto simp: list_all_iff)
  have u: "\<forall>x \<in> set (?ss @ [s]). length (sample_bytes x) = ?n"
    using ok assms(2) length_sample_bytes by (auto simp: list_all_iff)
  have c: "cb_contents cb = concat (map sample_bytes ?ss')"
    using lastn_chunks [OF u, of "sb_cap sbuf"] cb(3) ct by simp
  have "sb_ok sb' \<and> sb_cap sb' = sb_cap sbuf \<and> sb_items sb' = ?ss'" if "sb_samples sb' = cb" for sb'
  proof -
    have cap: "sb_cap sb' = sb_cap sbuf" by (simp only: sb_cap_def that cb(4))
    have it: "sb_items sb' = ?ss'" by (rule sb_items_of [OF a]) (simp only: that c)
    have "unat (cb_max_size (sb_samples sb')) = ?n * sb_cap sbuf" by (simp only: that cb(4) mx)
    then have "sb_ok sb'" unfolding sb_ok_def it cap using a c cb(2) pos by (simp only: that)
    then show ?thesis using cap it by blast
  qed
  then show ?thesis using cb(1) by blast
qed

lemma push_sample_ok:
  "sb_ok sbuf \<Longrightarrow> sample_ok s \<Longrightarrow> \<exists>sb'. push_sample sbuf s = Some sb' \<and> sb_ok sb' \<and> sb_cap sb' = sb_cap sbuf \<and>
    sb_items sb' = lastn (sb_cap sbuf) (sb_items sbuf @ [s])"
proof -
  assume "sb_ok sbuf" and "sample_ok s"
  then obtain cb where cb: "insert_items_cbuffer_t (sb_samples sbuf) (sample_bytes s) (int SIZEOF_PMC_SAMPLE) = Some cb"
    "\<And>sb'. sb_samples sb' = cb \<Longrightarrow> sb_ok sb' \<and> sb_cap sb' = sb_cap sbuf \<and>
       sb_items sb' = lastn (sb_cap sbuf) (sb_items sbuf @ [s])" using nowakeup_ok by blast
  let ?b = "sbuf\<lparr>sb_samples := cb\<rparr>"
  let ?b' = "if sb_waiting sbuf then ?b\<lparr>sb_waiting := False, sb_sem := sb_sem sbuf + 1\<rparr> else ?b"
  have "push_sample sbuf s = Some ?b'" by (simp add: push_sample_def cb(1))
  moreover have "sb_samples ?b' = cb" by simp
  ultimately show ?thesis using cb(2) by blast
qed

lemma sb_items_le: "sb_ok sbuf \<Longrightarrow> length (sb_items sbuf) \<le> sb_cap sbuf"
  using cb_wfD(4) [of "sb_samples sbuf"]
  by (simp add: sb_ok_def sb_items_def samples_of_def sb_cap_def div_le_mono)

interpretation samples: guarded_fifo sb_ok sb_items sb_cap push_sample sample_ok
  by unfold_locales (rule push_sample_ok, assumption+, rule sb_items_le)

lemma monitor_read_ok:
  assumes "sb_ok sbuf" and "0 < m" and "SIZEOF_PMC_SAMPLE * m < 2147483648" and "sb_items sbuf \<noteq> []"
  shows "\<exists>sb' out. monitor_read sbuf b (SIZEOF_PMC_SAMPLE * m) = Some (sb', Read out) \<and> sb_ok sb' \<and> sb_cap sb' = sb_cap sbuf \<and>
    samples_of out = take m (sb_items sbuf) \<and> sb_items sb' = drop m (sb_items sbuf) \<and>
    sb_refs sb' = sb_refs sbuf \<and> sb_sem sb' = sb_sem sbuf \<and> sb_waiting sb' = sb_waiting sbuf"
proof -
  let ?n = "SIZEOF_PMC_SAMPLE" and ?ss = "sb_items sbuf" and ?cb = "sb_samples sbuf"
  have wf: "cb_wf ?cb" and ok: "list_all sample_ok ?ss" and ct: "cb_contents ?cb = concat (map sample_bytes ?ss)"
    using assms(1) by (simp_all add: sb_ok_def)
  have u: "\<forall>x \<in> set ?ss. length (sample_bytes x) = ?n" using ok length_sample_bytes by (auto simp: list_all_iff)
  have ln: "length (cb_contents ?cb) = ?n * length ?ss" unfolding ct by (rule length_concat_chunks [OF u])
  have ne: "\<not> is_empty_cbuffer_t ?cb" using ln assms(4) by (auto simp: is_empty_cbuffer_t_def SIZEOF_PMC_SAMPLE_def)
  obtain cb where cb: "remove_cbuffer_t_batch ?cb (int (?n * m)) =
      Some (cb, take (min (?n * m) (length (cb_contents ?cb))) (cb_contents ?cb), int (min (?n * m) (length (cb_contents ?cb))))"
    "cb_wf cb" "cb_max_size cb = cb_max_size ?cb"
    "cb_contents cb = drop (min (?n * m) (length (cb_contents ?cb))) (cb_contents ?cb)"
    using remove_batch_contents [OF wf assms(3)] by blast
  have split: "take (?n * j) (concat (map sample_bytes xs)) = concat (map sample_bytes (take j xs)) \<and>
      drop (?n * j) (concat (map sample_bytes xs)) = concat (map sample_bytes (drop j xs))"
    if "\<forall>x \<in> set xs. length (sample_bytes x) = ?n" for j xs
    using that by (induction xs arbitrary: j) (auto simp: take_Cons drop_Cons algebra_simps split: nat.splits)
  have mn: "min (?n * m) (length (cb_contents ?cb)) = ?n * min m (length ?ss)"
    unfolding ln by (simp add: min_def SIZEOF_PMC_SAMPLE_def)
  have out: "take (?n * min m (length ?ss)) (cb_contents ?cb) = concat (map sample_bytes (take m ?ss))"
    unfolding ct using split [OF u, of "min m (length ?ss)"] by (simp add: min_def)
  have rest: "cb_contents cb = concat (map sample_bytes (drop m ?ss))"
    unfolding cb(4) mn unfolding ct using split [OF u, of "min m (length ?ss)"] by (simp add: min_def)
  have oks: "list_all sample_ok (take m ?ss)" "list_all sample_ok (drop m ?ss)"
    using ok by (auto simp: list_all_iff dest: in_set_takeD in_set_dropD)
  let ?sb = "sbuf\<lparr>sb_samples := cb\<rparr>"
  have it: "sb_items ?sb = drop m ?ss" by (rule sb_items_of [OF oks(2)]) (simp add: rest)
  have "sb_ok ?sb" "sb_cap ?sb = sb_cap sbuf" using assms(1) cb(2,3) rest oks(2)
    unfolding sb_ok_def it by (simp_all add: sb_cap_def)
  moreover have "samples_of (concat (map sample_bytes (take m ?ss))) = take m ?ss"
    by (rule samples_of_concat) (use oks(1) in \<open>simp add: list_all_iff\<close>)
  moreover have "monitor_read sbuf b (?n * m) = Some (?sb, Read (concat (map sample_bytes (take m ?ss))))"
    using ne cb(1) [unfolded mn] by (simp add: monitor_read_def out del: of_nat_mult)
  ultimately show ?thesis using it by auto
qed

section \<open>Reader and threads\<close>

text \<open>The steps of the threads that share a buffer and of the program that reads it, with the bytes it got.
  \<open>Running\<close>: the reader is about to call read or to retry after it was woken.\<close>

datatype reader = Running | Sleeping | Finished

type_synonym session = "pmc_samples_buffer_t \<times> reader \<times> pmc_sample_t list"

inductive session_step :: "nat \<Rightarrow> session \<Rightarrow> session \<Rightarrow> bool" for n where
  pushes: "sample_ok s \<Longrightarrow> push_sample b s = Some b' \<Longrightarrow> session_step n (b, r, out) (b', r, out)"
| notifies: "session_step n (b, r, out) (wake_up_monitor_program b, r, out)"
| clones: "session_step n (b, r, out) (get_pmc_samples_buffer b, r, out)"
| exits: "put_pmc_samples_buffer b = Some b' \<Longrightarrow> session_step n (b, r, out) (b', r, out)"
| reads: "monitor_read b False n = Some (b', Read bs) \<Longrightarrow>
    session_step n (b, Running, out) (b', Running, out @ samples_of bs)"
| sleeps: "monitor_read b False n = Some (b', Asleep) \<Longrightarrow> session_step n (b, Running, out) (b', Sleeping, out)"
| ends: "monitor_read b False n = Some (b', Eof) \<Longrightarrow> session_step n (b, Running, out) (b', Finished, out)"
| wakes: "0 < sb_sem b \<Longrightarrow> session_step n (b, Sleeping, out) (b\<lparr>sb_sem := sb_sem b - 1\<rparr>, Running, out)"
| interrupted: "session_step n (b, Sleeping, out) (b\<lparr>sb_waiting := False\<rparr>, Running, out)"

inductive_cases session_stepE: "session_step n (b, r, out) s'"

definition woken :: "session \<Rightarrow> bool" where
  "woken = (\<lambda>(b, r, out). r = Sleeping \<longrightarrow> 0 < sb_sem b \<or> (sb_waiting b \<and> is_empty_cbuffer_t (sb_samples b)))"

lemma woken_step:
  assumes "session_step n s s'" and "woken s"
  shows "woken s'"
  using assms
proof (cases rule: session_step.cases)
  case (pushes x b b' r out)
  then have "sb_waiting b \<Longrightarrow> 0 < sb_sem b'" "\<not> sb_waiting b \<Longrightarrow> sb_sem b' = sb_sem b"
    by (auto simp: push_sample_def Let_def split: Option.bind_splits if_splits)
  then show ?thesis using pushes(1,2) assms(2) by (cases "sb_waiting b") (simp_all add: woken_def)
next
  case (exits b b' r out)
  then have "sb_sem b' = sb_sem b \<and> sb_waiting b' = sb_waiting b \<and> sb_samples b' = sb_samples b"
    by (auto simp: put_pmc_samples_buffer_def Let_def split: if_splits)
  then show ?thesis using exits assms(2) by (simp add: woken_def)
next
  case (sleeps b b' out)
  then have "is_empty_cbuffer_t (sb_samples b)" "b' = b\<lparr>sb_waiting := True\<rparr>"
    by (auto simp: monitor_read_def split: if_splits Option.bind_splits prod.splits)
  then show ?thesis using sleeps by (simp add: woken_def)
qed (auto simp: woken_def wake_up_monitor_program_def get_pmc_samples_buffer_def)

lemma woken_reachable: "(session_step n)\<^sup>*\<^sup>* s s' \<Longrightarrow> woken s \<Longrightarrow> woken s'"
  by (induction rule: rtranclp_induct) (auto intro: woken_step)

section \<open>Properties\<close>

text \<open>C35. The samples of the monitored threads reach the program that reads them. A buffer created for
  \<open>n\<close> samples accepts any samples; if there is one, a read of room for \<open>m\<close> samples gives the program the first
  \<open>m\<close> of the last \<open>n\<close> samples that were pushed, field by field, and leaves the others: samples are
  never torn, and what does not fit drops the oldest ones.\<close>

theorem samples_reach_the_monitor:
  assumes "0 < n" and "SIZEOF_PMC_SAMPLE * n < 2 ^ 31" and "length bytes = SIZEOF_PMC_SAMPLE * n"
    and "0 < m" and "SIZEOF_PMC_SAMPLE * m < 2 ^ 31" and "xs \<noteq> []" and "list_all sample_ok xs"
  shows "\<exists>b b' b'' out. allocate_pmc_samples_buffer True True (\<lambda>_. Some bytes) (of_nat (SIZEOF_PMC_SAMPLE * n)) = Some b \<and>
    push_all push_sample b xs = Some b' \<and>
    monitor_read b' False (SIZEOF_PMC_SAMPLE * m) = Some (b'', Read out) \<and>
    samples_of out = take m (lastn n xs) \<and> sb_items b'' = drop m (lastn n xs)"
proof -
  let ?sz = "of_nat (SIZEOF_PMC_SAMPLE * n) :: u32"
  let ?b = "\<lparr>sb_samples = \<lparr>cb_data = bytes, cb_head = 0, cb_size = 0, cb_max_size = ?sz\<rparr>, sb_sem = 0, sb_waiting = False, sb_refs = 1\<rparr>"
  have u: "unat ?sz = SIZEOF_PMC_SAMPLE * n" using assms(2) by (simp only: unat_of_nat) (simp add: take_bit_nat_eq_self)
  have cap: "sb_cap ?b = n" unfolding sb_cap_def by (simp add: u [simplified]) (simp add: SIZEOF_PMC_SAMPLE_def)
  have it: "sb_items ?b = []" by (simp add: sb_items_def samples_of_def cb_contents_def ring_items_def)
  have "cb_wf (sb_samples ?b)" using assms(1-3) u by (simp add: cb_wf_def SIZEOF_PMC_SAMPLE_def)
  then have ok: "sb_ok ?b" unfolding sb_ok_def cap it using assms(1) u by (simp add: cb_contents_def ring_items_def)
  have al: "allocate_pmc_samples_buffer True True (\<lambda>_. Some bytes) ?sz = Some ?b"
    by (simp add: allocate_pmc_samples_buffer_def create_cbuffer_t_def)
  obtain b' where b': "push_all push_sample ?b xs = Some b'" "sb_ok b'" "sb_cap b' = n" "sb_items b' = lastn n xs"
    using samples.guarded_push_all [OF ok, of xs] assms(7) cap it by (auto simp: list_all_iff)
  have "0 < length (sb_items b')" using b'(4) assms(1,6) by simp
  then have "sb_items b' \<noteq> []" by (rule length_greater_0_conv [THEN iffD1])
  then show ?thesis using monitor_read_ok [OF b'(2) assms(4), of False] assms(5) b' al by auto
qed

definition a_sample :: "u64 \<Rightarrow> pmc_sample_t" where
  "a_sample v = \<lparr>ps_type = PMC_TICK_SAMPLE, ps_coretype = 0, ps_exp_idx = 0, ps_pid = 1234, ps_elapsed_time = 1000,
     ps_pmc_mask = 3, ps_nr_counts = 2, ps_pmc_counts = replicate MAX_PERFORMANCE_COUNTERS v, ps_virt_mask = 0,
     ps_nr_virt_counts = 0, ps_virtual_counts = replicate MAX_VIRTUAL_COUNTERS 0\<rparr>"

lemma a_sample_ok [simp]: "sample_ok (a_sample v)"
  by (simp add: sample_ok_def a_sample_def)

theorem samples_reach_the_monitor_witness:
  "\<exists>b b' b'' out. allocate_pmc_samples_buffer True True (\<lambda>_. Some (replicate 304 0)) 304 = Some b \<and>
    push_all push_sample b [a_sample 5, a_sample 6, a_sample 7] = Some b' \<and>
    monitor_read b' False 152 = Some (b'', Read out) \<and> samples_of out = [a_sample 6] \<and> sb_items b'' = [a_sample 7]"
  using samples_reach_the_monitor [of 2 "replicate 304 0" 1 "[a_sample 5, a_sample 6, a_sample 7]"]
  by (simp add: SIZEOF_PMC_SAMPLE_def lastn_def)

text \<open>C36. Wake-ups are not lost for data, and are lost for the end of the data. Whatever the steps of the threads and the
  reader, a reader asleep with samples in the buffer has a wake-up pending. But after the last thread has
  pushed its exit sample and before it drops the buffer, a fast reader goes back to sleep; dropping the buffer
  does not wake it: it sleeps on an empty buffer that no thread has any more, where a read would have given the end of
  file.\<close>

theorem reader_wakeups:
  assumes "sb_ok b" and "sb_refs b = 2" and "\<not> sb_waiting b" and "sb_sem b = 0" and "sb_items b = []"
    and "sample_ok s" and "0 < m" and "SIZEOF_PMC_SAMPLE * m < 2 ^ 31"
  shows "((session_step (SIZEOF_PMC_SAMPLE * m))\<^sup>*\<^sup>* (b, Running, []) (b1, Sleeping, out1) \<longrightarrow>
      0 < sb_sem b1 \<or> is_empty_cbuffer_t (sb_samples b1)) \<and>
    (\<exists>b2. (session_step (SIZEOF_PMC_SAMPLE * m))\<^sup>*\<^sup>* (b, Running, []) (b2, Sleeping, [s]) \<and>
      sb_refs b2 = 1 \<and> sb_sem b2 = 0 \<and> is_empty_cbuffer_t (sb_samples b2) \<and>
      monitor_read b2 False (SIZEOF_PMC_SAMPLE * m) = Some (b2, Eof))"
proof
  show "(session_step (SIZEOF_PMC_SAMPLE * m))\<^sup>*\<^sup>* (b, Running, []) (b1, Sleeping, out1) \<longrightarrow>
      0 < sb_sem b1 \<or> is_empty_cbuffer_t (sb_samples b1)"
    using woken_reachable [of "SIZEOF_PMC_SAMPLE * m" "(b, Running, [])" "(b1, Sleeping, out1)"] by (auto simp: woken_def)
next
  let ?n = "SIZEOF_PMC_SAMPLE * m"
  obtain b1 where b1: "push_sample b s = Some b1" "sb_ok b1" "sb_cap b1 = sb_cap b" "sb_items b1 = lastn (sb_cap b) [s]"
    using push_sample_ok [OF assms(1,6)] assms(5) by auto
  have "0 < sb_cap b" using assms(1) by (simp add: sb_ok_def)
  then have i1: "sb_items b1 = [s]" using b1(4) by (simp add: lastn_all)
  have f1: "sb_refs b1 = 2" "sb_sem b1 = 0" "\<not> sb_waiting b1" using b1(1) assms(2-4)
    by (auto simp: push_sample_def Let_def split: Option.bind_splits)
  obtain b2 out where b2: "monitor_read b1 False ?n = Some (b2, Read out)" "sb_ok b2" "samples_of out = [s]" "sb_items b2 = []"
    "sb_refs b2 = 2" "sb_sem b2 = 0"
    using monitor_read_ok [OF b1(2) assms(7), of False] assms(7,8) i1 f1 by auto
  have e: "is_empty_cbuffer_t (sb_samples b2)"
  proof -
    have "cb_contents (sb_samples b2) = []" using b2(2,4) by (simp add: sb_ok_def)
    then have "unat (cb_size (sb_samples b2)) = 0" by (metis length_cb_contents list.size(3))
    then show ?thesis by (simp add: is_empty_cbuffer_t_def unat_eq_zero)
  qed
  let ?b3 = "b2\<lparr>sb_waiting := True\<rparr>" and ?b4 = "b2\<lparr>sb_waiting := True, sb_refs := 1\<rparr>"
  have r: "monitor_read b2 False ?n = Some (?b3, Asleep)" using e b2(5)
    by (simp add: monitor_read_def get_pmc_samples_buffer_refs_def)
  have p: "put_pmc_samples_buffer ?b3 = Some ?b4" using b2(5) by (simp add: put_pmc_samples_buffer_def)
  have "(session_step ?n)\<^sup>*\<^sup>* (b, Running, []) (?b4, Sleeping, [s])"
  proof -
    have 1: "session_step ?n (b, Running, []) (b1, Running, [])" by (rule pushes [OF assms(6) b1(1)])
    have 2: "session_step ?n (b1, Running, []) (b2, Running, [s])" using reads [OF b2(1), of "[]"] b2(3) by simp
    have 3: "session_step ?n (b2, Running, [s]) (?b3, Sleeping, [s])" by (rule sleeps [OF r])
    have 4: "session_step ?n (?b3, Sleeping, [s]) (?b4, Sleeping, [s])" by (rule exits [OF p])
    from 4 have "(session_step ?n)\<^sup>*\<^sup>* (?b3, Sleeping, [s]) (?b4, Sleeping, [s])" by (rule r_into_rtranclp)
    with 3 have "(session_step ?n)\<^sup>*\<^sup>* (b2, Running, [s]) (?b4, Sleeping, [s])" by (rule converse_rtranclp_into_rtranclp)
    with 2 have "(session_step ?n)\<^sup>*\<^sup>* (b1, Running, []) (?b4, Sleeping, [s])" by (rule converse_rtranclp_into_rtranclp)
    with 1 show ?thesis by (rule converse_rtranclp_into_rtranclp)
  qed
  moreover have "monitor_read ?b4 False ?n = Some (?b4, Eof)" using e by (simp add: monitor_read_def get_pmc_samples_buffer_refs_def)
  ultimately show "\<exists>b2. (session_step ?n)\<^sup>*\<^sup>* (b, Running, []) (b2, Sleeping, [s]) \<and>
      sb_refs b2 = 1 \<and> sb_sem b2 = 0 \<and> is_empty_cbuffer_t (sb_samples b2) \<and> monitor_read b2 False ?n = Some (b2, Eof)"
    using e b2(6) by (intro exI [of _ ?b4]) simp
qed

definition empty_buffer :: pmc_samples_buffer_t where
  "empty_buffer = \<lparr>sb_samples = \<lparr>cb_data = replicate 304 0, cb_head = 0, cb_size = 0, cb_max_size = 304\<rparr>,
     sb_sem = 0, sb_waiting = False, sb_refs = 2\<rparr>"

theorem reader_wakeups_witness:
  "\<exists>b2. (session_step 152)\<^sup>*\<^sup>* (empty_buffer, Running, []) (b2, Sleeping, [a_sample 9]) \<and>
    sb_refs b2 = 1 \<and> sb_sem b2 = 0 \<and> is_empty_cbuffer_t (sb_samples b2)"
proof -
  have it: "sb_items empty_buffer = []"
    by (simp add: sb_items_def samples_of_def cb_contents_def ring_items_def empty_buffer_def)
  have "sb_ok empty_buffer" unfolding sb_ok_def it
    by (simp add: empty_buffer_def cb_wf_def sb_cap_def SIZEOF_PMC_SAMPLE_def cb_contents_def ring_items_def)
  moreover have "sb_refs empty_buffer = 2" "\<not> sb_waiting empty_buffer" "sb_sem empty_buffer = 0"
    by (simp_all add: empty_buffer_def)
  ultimately show ?thesis
    using reader_wakeups [THEN conjunct2, of empty_buffer "a_sample 9" 1] it by (auto simp: SIZEOF_PMC_SAMPLE_def)
qed

end
