(* ===== verification/ExperimentSet.thy ===== *)
theory ExperimentSet
  imports PmuX86 SampleBuffer
begin

text \<open>
  The state of the kernel module that its handlers share, and the sets of event configurations of a
  thread (\<^verbatim>\<open>mc_experiments.h\<close>, \<^verbatim>\<open>mc_experiments.c\<close>, \<^verbatim>\<open>pmu_config_x86.c\<close>). Event configurations are
  objects in memory that threads and the core point to: the state maps addresses to them, an address that
  is not mapped has not been allocated or was freed, and reading through it is \<open>None\<close>. \<open>kn_fresh\<close> is the
  next address and \<open>kn_oom\<close> says of each coming allocation if it fails (none when the list ends).
\<close>

section \<open>State\<close>

definition AMP_MAX_EXP_CORETYPE :: nat where "AMP_MAX_EXP_CORETYPE = 2"
definition AMP_MAX_CORETYPES :: nat where "AMP_MAX_CORETYPES = 2"

record core_experiment_set_t =
  es_exps :: "nat option list"
  es_nr_exps :: int
  es_cur_exp :: int

text \<open>The data of a CPU and the global data of the system-wide mode; the lock is held or not.\<close>

record cpu_syswide_t =
  cs_config_set :: core_experiment_set_t
  cs_cur_config :: "nat option"
  cs_virt_counter_mask :: u32
  cs_pmc_values :: "u64 list"
  cs_last_sample :: pmc_sample_t
  cs_ref_time :: u64

record syswide_ctl_t =
  sw_monitor :: int
  sw_buffer :: "nat option"
  sw_timer :: "u64 option"
  sw_timer_period :: u64
  sw_paused :: bool
  sw_lock :: bool

text \<open>\<open>kn_mods\<close> is the state of the monitoring modules, which the model leaves open.\<close>

record 'm kernel =
  kn_msrs :: "nat \<Rightarrow> msr_file"
  kn_exps :: "nat \<Rightarrow> core_experiment_t option"
  kn_bufs :: "nat \<Rightarrow> pmc_samples_buffer_t option"
  kn_fresh :: nat
  kn_oom :: "bool list"
  kn_jiffies :: u64
  kn_ktime :: u64
  kn_coretype_cpu :: "int list"
  kn_pmu_props_cputype :: "pmu_props_t list"
  kn_cpu_exp :: "nat \<Rightarrow> nat"
  kn_cpu_syswide :: "nat \<Rightarrow> cpu_syswide_t"
  kn_syswide_ctl :: syswide_ctl_t
  kn_mods :: 'm

definition kmalloc :: "'m kernel \<Rightarrow> nat option \<times> 'm kernel" where
  "kmalloc k = (case kn_oom k of
     True # r \<Rightarrow> (None, k\<lparr>kn_oom := r\<rparr>)
   | _ \<Rightarrow> (Some (kn_fresh k), k\<lparr>kn_fresh := kn_fresh k + 1, kn_oom := tl (kn_oom k)\<rparr>))"

definition set_exp :: "'m kernel \<Rightarrow> nat \<Rightarrow> core_experiment_t \<Rightarrow> 'm kernel" where
  "set_exp k a ce = k\<lparr>kn_exps := (kn_exps k)(a := Some ce)\<rparr>"

definition set_msrs :: "'m kernel \<Rightarrow> nat \<Rightarrow> msr_file \<Rightarrow> 'm kernel" where
  "set_msrs k cpu m = k\<lparr>kn_msrs := (kn_msrs k)(cpu := m)\<rparr>"

text \<open>Freeing an address that is not allocated is undefined.\<close>

definition kfree_exp :: "'m kernel \<Rightarrow> nat \<Rightarrow> 'm kernel option" where
  "kfree_exp k a = do { _ \<leftarrow> kn_exps k a; Some (k\<lparr>kn_exps := (kn_exps k)(a := None)\<rparr>) }"

definition get_coretype_cpu :: "'m kernel \<Rightarrow> nat \<Rightarrow> int option" where
  "get_coretype_cpu k cpu = rd (kn_coretype_cpu k) cpu"

definition get_pmu_props_coretype :: "'m kernel \<Rightarrow> int \<Rightarrow> pmu_props_t option" where
  "get_pmu_props_coretype k coretype =
     (if coretype < 0 then None else rd (kn_pmu_props_cputype k) (nat coretype))"

definition get_pmu_props_cpu :: "'m kernel \<Rightarrow> nat \<Rightarrow> pmu_props_t option" where
  "get_pmu_props_cpu k cpu = do { ct \<leftarrow> get_coretype_cpu k cpu; get_pmu_props_coretype k ct }"

section \<open>Registers of the platform\<close>

definition MSR_PERF_GLOBAL_CTRL :: u32 where "MSR_PERF_GLOBAL_CTRL = 0x38F"

text \<open>The mask \<open>1<<i\<close> is a shift of an \<open>int\<close>, or-ed into 64 bits: counters up to 30.\<close>

definition mc_clear_all_platform_counters :: "msr_file \<Rightarrow> pmu_props_t \<Rightarrow> msr_file" where
  "mc_clear_all_platform_counters m props =
     (let (m, gp_counter_mask) = fold (\<lambda>i (m, msk).
            ((m(EVTSEL_MSR_INITIAL_ADDRESS + of_nat i := 0))(PMC_MSR_INITIAL_ADDRESS + of_nat i := 0),
             msk OR push_bit i (1 :: u64))) [0..<nat (nr_gp_pmcs props)] (m, 0);
          m = fold (\<lambda>i m. (m(MSR_PERF_FIXED_CTR_CTRL := 0))(MSR_PERF_FIXED_CTR0 + of_nat i := 0))
            [0..<nat (nr_fixed_pmcs props)] m
      in m(MSR_PERF_GLOBAL_CTRL := gp_counter_mask OR push_bit 32 7))"

text \<open>Clearing the counters of a CPU, and programming an event configuration on it. A NULL configuration is
  left alone.\<close>

definition clear_platform :: "'m kernel \<Rightarrow> nat \<Rightarrow> int \<Rightarrow> 'm kernel option" where
  "clear_platform k cpu coretype = do {
     props \<leftarrow> get_pmu_props_coretype k coretype;
     Some (set_msrs k cpu (mc_clear_all_platform_counters (kn_msrs k cpu) props))
   }"

definition restart_exp :: "'m kernel \<Rightarrow> nat \<Rightarrow> nat option \<Rightarrow> 'm kernel option" where
  "restart_exp k cpu p = (case p of
     None \<Rightarrow> Some k
   | Some a \<Rightarrow> do {
       ce \<leftarrow> kn_exps k a;
       (case mc_restart_all_counters (kn_msrs k cpu) (Some ce) of
          (m, Some ce) \<Rightarrow> Some (set_exp (set_msrs k cpu m) a ce)
        | (m, None) \<Rightarrow> Some (set_msrs k cpu m))
     })"

definition stop_exp :: "'m kernel \<Rightarrow> nat \<Rightarrow> nat \<Rightarrow> 'm kernel option" where
  "stop_exp k cpu a = do { ce \<leftarrow> kn_exps k a; Some (set_msrs k cpu (mc_stop_all_counters (kn_msrs k cpu) ce)) }"

definition clear_exp_set :: "'m kernel \<Rightarrow> nat \<Rightarrow> nat \<Rightarrow> 'm kernel option" where
  "clear_exp_set k cpu a = do { ce \<leftarrow> kn_exps k a; Some (set_msrs k cpu (mc_clear_all_counters (kn_msrs k cpu) ce)) }"

definition save_exp :: "rdpmc \<Rightarrow> 'm kernel \<Rightarrow> nat \<Rightarrow> nat \<Rightarrow> 'm kernel option" where
  "save_exp rdpmc k cpu a = do { ce \<leftarrow> kn_exps k a; Some (set_exp k a (mc_save_all_counters rdpmc (kn_msrs k cpu) ce)) }"

definition restore_exp :: "'m kernel \<Rightarrow> nat \<Rightarrow> nat \<Rightarrow> 'm kernel option" where
  "restore_exp k cpu a = do {
     ce \<leftarrow> kn_exps k a;
     let (m, ce) = mc_restore_all_counters (kn_msrs k cpu) ce;
     Some (set_exp (set_msrs k cpu m) a ce)
   }"

section \<open>Sets of event configurations\<close>

definition init_core_experiment_set_t :: core_experiment_set_t where
  "init_core_experiment_set_t =
     \<lparr>es_exps = replicate AMP_MAX_EXP_CORETYPE None, es_nr_exps = 0, es_cur_exp = 0\<rparr>"

definition free_entry ::
  "nat \<Rightarrow> 'm kernel \<times> core_experiment_set_t \<Rightarrow> ('m kernel \<times> core_experiment_set_t) option" where
  "free_entry i = (\<lambda>(k, cset). do {
     e \<leftarrow> rd (es_exps cset) i;
     (case e of
        None \<Rightarrow> Some (k, cset)
      | Some a \<Rightarrow> do {
          k \<leftarrow> kfree_exp k a;
          Some (k, cset\<lparr>es_exps := (es_exps cset)[i := None]\<rparr>)
        })
   })"

definition free_experiment_set ::
  "'m kernel \<Rightarrow> core_experiment_set_t \<Rightarrow> ('m kernel \<times> core_experiment_set_t) option" where
  "free_experiment_set k cset = do {
     (k, cset) \<leftarrow> foldM free_entry [0..<nat (es_nr_exps cset)] (k, cset);
     Some (k, cset\<lparr>es_nr_exps := 0\<rparr>)
   }"

definition add_experiment_to_set ::
  "'m kernel \<Rightarrow> core_experiment_set_t \<Rightarrow> nat option \<Rightarrow> ('m kernel \<times> core_experiment_set_t) option" where
  "add_experiment_to_set k cset exp = (case exp of
     None \<Rightarrow> Some (k, cset)
   | Some a \<Rightarrow> do {
       ce \<leftarrow> kn_exps k a;
       let n = es_nr_exps cset;
       es \<leftarrow> (if n < 0 then None else wr (es_exps cset) (nat n) (Some a));
       Some (set_exp k a (ce\<lparr>ce_exp_idx := n\<rparr>), cset\<lparr>es_exps := es, es_nr_exps := n + 1\<rparr>)
     })"

definition rewind_experiments_in_set ::
  "core_experiment_set_t \<Rightarrow> (core_experiment_set_t \<times> nat option) option" where
  "rewind_experiments_in_set cset = do {
     e \<leftarrow> rd (es_exps cset) 0;
     Some (cset\<lparr>es_cur_exp := 0\<rparr>, e)
   }"

definition get_next_experiment_in_set ::
  "core_experiment_set_t \<Rightarrow> (core_experiment_set_t \<times> nat option) option" where
  "get_next_experiment_in_set cset = do {
     let cset = (if es_nr_exps cset > 1
        then let c = es_cur_exp cset + 1 in cset\<lparr>es_cur_exp := (if c = es_nr_exps cset then 0 else c)\<rparr>
        else cset);
     e \<leftarrow> rd_int (es_exps cset) (es_cur_exp cset);
     Some (cset, e)
   }"

definition get_cur_experiment_in_set :: "core_experiment_set_t \<Rightarrow> nat option option" where
  "get_cur_experiment_in_set cset = rd_int (es_exps cset) (es_cur_exp cset)"

text \<open>\<open>ENOMEM\<close> is 12. The copies go to the entry of their original, the count of the copies is what a failure
  frees.\<close>

fun clone_loop ::
  "'m kernel \<Rightarrow> core_experiment_set_t \<Rightarrow> core_experiment_set_t \<Rightarrow> nat list
   \<Rightarrow> ('m kernel \<times> core_experiment_set_t \<times> bool) option" where
  "clone_loop k dst src [] = Some (k, dst, True)"
| "clone_loop k dst src (i # is) = do {
     e \<leftarrow> rd (es_exps src) i;
     (case e of
        None \<Rightarrow> clone_loop k dst src is
      | Some a \<Rightarrow>
          (case kmalloc k of
             (None, k) \<Rightarrow> Some (k, dst, False)
           | (Some b, k) \<Rightarrow> do {
               ce \<leftarrow> kn_exps k a;
               es \<leftarrow> wr (es_exps dst) i (Some b);
               clone_loop (set_exp k b (ce\<lparr>ce_nr_overflows := replicate MAX_LL_EXPS 0\<rparr>))
                 (dst\<lparr>es_exps := es, es_nr_exps := es_nr_exps dst + 1\<rparr>) src is
             }))
   }"

definition drop_entry ::
  "nat \<Rightarrow> 'm kernel \<times> core_experiment_set_t \<Rightarrow> ('m kernel \<times> core_experiment_set_t) option" where
  "drop_entry i = (\<lambda>(k, dst). do {
     e \<leftarrow> rd (es_exps dst) i;
     k \<leftarrow> (case e of None \<Rightarrow> Some k | Some a \<Rightarrow> kfree_exp k a);
     Some (k, dst\<lparr>es_exps := (es_exps dst)[i := None]\<rparr>)
   })"

definition clone_core_experiment_set_t ::
  "'m kernel \<Rightarrow> core_experiment_set_t \<Rightarrow> ('m kernel \<times> core_experiment_set_t \<times> int) option" where
  "clone_core_experiment_set_t k src = do {
     (k, dst, ok) \<leftarrow> clone_loop k init_core_experiment_set_t src [0..<nat (es_nr_exps src)];
     if ok then Some (k, dst, 0)
     else do {
       (k, dst) \<leftarrow> foldM drop_entry [0..<nat (es_nr_exps dst)] (k, dst);
       Some (k, dst, - 12)
     }
   }"

definition clone_core_experiment_set_t_noalloc ::
  "'m kernel \<Rightarrow> core_experiment_set_t \<Rightarrow> core_experiment_set_t \<Rightarrow> ('m kernel \<times> core_experiment_set_t) option" where
  "clone_core_experiment_set_t_noalloc k dst src =
     foldM (\<lambda>i (k, dst). do {
         e \<leftarrow> rd (es_exps src) i;
         (case e of
            None \<Rightarrow> Some (k, dst)
          | Some a \<Rightarrow> do {
              es \<leftarrow> wr (es_exps dst) i (Some a);
              ce \<leftarrow> kn_exps k a;
              Some (set_exp k a (ce\<lparr>ce_nr_overflows := replicate MAX_LL_EXPS 0\<rparr>),
                    dst\<lparr>es_exps := es, es_nr_exps := es_nr_exps dst + 1\<rparr>)
            })
       }) [0..<nat (es_nr_exps src)] (k, dst\<lparr>es_nr_exps := 0, es_cur_exp := 0\<rparr>)"

text \<open>The first CPU of a core type: the search compares with the number of possible CPUs, not with
  that of the CPUs it looked at.\<close>

definition get_any_cpu_coretype :: "int list \<Rightarrow> nat \<Rightarrow> nat \<Rightarrow> int \<Rightarrow> int" where
  "get_any_cpu_coretype coretype_cpu num_present_cpus nr_cpu_ids coretype =
     (let i = length (takeWhile (\<lambda>c. c \<noteq> coretype) (take num_present_cpus coretype_cpu)) in
      if i = nr_cpu_ids then -1 else int i)"

section \<open>Multiplexing\<close>

definition in_turn :: "core_experiment_set_t \<Rightarrow> bool" where
  "in_turn cset \<longleftrightarrow> 0 < es_nr_exps cset \<and> nat (es_nr_exps cset) \<le> length (es_exps cset) \<and>
     0 \<le> es_cur_exp cset \<and> es_cur_exp cset < es_nr_exps cset"

text \<open>The set after some switches.\<close>

fun switches :: "nat \<Rightarrow> core_experiment_set_t \<Rightarrow> core_experiment_set_t option" where
  "switches 0 cset = Some cset"
| "switches (Suc n) cset = do { (cset, e) \<leftarrow> get_next_experiment_in_set cset; switches n cset }"

lemma get_next_eq:
  assumes "in_turn cset"
  defines "c \<equiv> (es_cur_exp cset + 1) mod es_nr_exps cset"
  shows "get_next_experiment_in_set cset = Some (cset\<lparr>es_cur_exp := c\<rparr>, es_exps cset ! nat c)"
    and "in_turn (cset\<lparr>es_cur_exp := c\<rparr>)"
proof -
  let ?n = "es_nr_exps cset" and ?c = "es_cur_exp cset"
  have b: "0 \<le> c" "c < ?n" using assms by (simp_all add: in_turn_def)
  then show "in_turn (cset\<lparr>es_cur_exp := c\<rparr>)" using assms(1) by (simp add: in_turn_def)
  have r: "rd_int (es_exps cset) c = Some (es_exps cset ! nat c)"
    using b assms(1) by (auto simp: rd_int_def in_turn_def intro!: rd_Some)
  have "c = (if ?n > 1 then if ?c + 1 = ?n then 0 else ?c + 1 else ?c)"
    using assms by (auto simp: in_turn_def zmod_trivial_iff)
  moreover have "cset\<lparr>es_cur_exp := es_cur_exp cset\<rparr> = cset" by simp
  ultimately show "get_next_experiment_in_set cset = Some (cset\<lparr>es_cur_exp := c\<rparr>, es_exps cset ! nat c)"
    using r by (auto simp: get_next_experiment_in_set_def Let_def split: if_splits)
qed

lemma switches_eq:
  "in_turn cset \<Longrightarrow> switches n cset = Some (cset\<lparr>es_cur_exp := (es_cur_exp cset + int n) mod es_nr_exps cset\<rparr>)"
proof (induction n arbitrary: cset)
  case 0
  then show ?case by (simp add: in_turn_def)
next
  case (Suc n)
  show ?case using Suc.IH [OF get_next_eq(2) [OF Suc.prems]]
    by (simp add: get_next_eq(1) [OF Suc.prems] mod_simps add.commute add.left_commute)
qed

section \<open>Valid sets\<close>

definition set_valid :: "'m kernel \<Rightarrow> core_experiment_set_t \<Rightarrow> bool" where
  "set_valid k cset \<longleftrightarrow> length (es_exps cset) = AMP_MAX_EXP_CORETYPE \<and> 0 \<le> es_nr_exps cset \<and>
     es_nr_exps cset \<le> int AMP_MAX_EXP_CORETYPE \<and>
     (\<forall>i < nat (es_nr_exps cset). \<exists>a ce. es_exps cset ! i = Some a \<and> kn_exps k a = Some ce)"

definition fresh_ok :: "'m kernel \<Rightarrow> bool" where
  "fresh_ok k \<longleftrightarrow> (\<forall>a \<ge> kn_fresh k. kn_exps k a = None)"

lemma kmalloc_cases:
  obtains (fails) r where "kn_oom k = True # r" "kmalloc k = (None, k\<lparr>kn_oom := r\<rparr>)"
  | (gives) r where "kmalloc k = (Some (kn_fresh k), k\<lparr>kn_fresh := kn_fresh k + 1, kn_oom := r\<rparr>)"
  by (cases "kn_oom k" rule: list.exhaust; cases "hd (kn_oom k)") (auto simp: kmalloc_def)

section \<open>Properties\<close>

text \<open>C37. Event multiplexing is fair: whatever the number \<open>n\<close> of switches already made, every configuration of the set
  becomes the current one again within as many switches as there are configurations.\<close>

theorem multiplexing_is_fair:
  assumes "in_turn cset" and "e < nat (es_nr_exps cset)"
  shows "\<exists>j cset'. j < nat (es_nr_exps cset) \<and> switches (n + j) cset = Some cset' \<and>
    get_cur_experiment_in_set cset' = Some (es_exps cset ! e)"
proof -
  let ?N = "es_nr_exps cset" and ?c = "es_cur_exp cset"
  let ?j = "nat ((int e - (?c + int n)) mod ?N)"
  have N: "0 < ?N" using assms(1) by (simp add: in_turn_def)
  have "(?c + int (n + ?j)) mod ?N = (?c + int n + (int e - (?c + int n)) mod ?N) mod ?N" using N by (simp add: add.assoc)
  also have "\<dots> = int e mod ?N" by (simp add: mod_simps)
  also have "\<dots> = int e" using assms(2) N by simp
  finally have "switches (n + ?j) cset = Some (cset\<lparr>es_cur_exp := int e\<rparr>)" by (simp add: switches_eq [OF assms(1)])
  moreover have "get_cur_experiment_in_set (cset\<lparr>es_cur_exp := int e\<rparr>) = Some (es_exps cset ! e)"
    using assms by (simp add: get_cur_experiment_in_set_def rd_int_def rd_Some in_turn_def)
  moreover have "?j < nat ?N" using N by (simp add: nat_less_iff)
  ultimately show ?thesis by blast
qed

theorem multiplexing_is_fair_witness:
  "\<exists>j cset'. j < 2 \<and> switches (5 + j) \<lparr>es_exps = [Some 10, Some 20], es_nr_exps = 2, es_cur_exp = 1\<rparr> = Some cset' \<and>
    get_cur_experiment_in_set cset' = Some (Some 20)"
  using multiplexing_is_fair [of "\<lparr>es_exps = [Some 10, Some 20], es_nr_exps = 2, es_cur_exp = 1\<rparr>" 1 5]
  by (simp add: in_turn_def)

text \<open>A small state for examples: two configurations at addresses 1 and 2, in a set.\<close>

definition idle_cpu_syswide :: cpu_syswide_t where
  "idle_cpu_syswide = \<lparr>cs_config_set = init_core_experiment_set_t, cs_cur_config = None, cs_virt_counter_mask = 0,
     cs_pmc_values = replicate MAX_LL_EXPS 0, cs_last_sample = a_sample 0, cs_ref_time = 0\<rparr>"

definition idle_syswide_ctl :: syswide_ctl_t where
  "idle_syswide_ctl = \<lparr>sw_monitor = -3, sw_buffer = None, sw_timer = None, sw_timer_period = 250, sw_paused = False,
     sw_lock = False\<rparr>"

definition kernel_with :: "'m \<Rightarrow> 'm kernel" where
  "kernel_with s = \<lparr>kn_msrs = \<lambda>_ _. 0,
     kn_exps = (\<lambda>_. None)(1 := Some (init_core_experiment_t 0), 2 := Some (init_core_experiment_t 1)),
     kn_bufs = \<lambda>_. None, kn_fresh = 3, kn_oom = [], kn_jiffies = 0, kn_ktime = 0, kn_coretype_cpu = [0],
     kn_pmu_props_cputype = [], kn_cpu_exp = \<lambda>_. 0, kn_cpu_syswide = \<lambda>_. idle_cpu_syswide,
     kn_syswide_ctl = idle_syswide_ctl, kn_mods = s\<rparr>"

definition a_kernel :: "unit kernel" where
  "a_kernel = kernel_with ()"

definition a_set :: core_experiment_set_t where
  "a_set = \<lparr>es_exps = [Some 1, Some 2], es_nr_exps = 2, es_cur_exp = 0\<rparr>"

lemma a_set_ok: "set_valid a_kernel a_set" "fresh_ok a_kernel"
  by (auto simp: set_valid_def fresh_ok_def a_kernel_def kernel_with_def a_set_def AMP_MAX_EXP_CORETYPE_def nth_Cons less_Suc_eq numeral_2_eq_2)

text \<open>The set of a core type has room for two configurations and nothing checks it: adding a valid configuration to
  a valid set with room puts it at the end, with its index, and gives a valid set; adding to a full one writes
  past the array (over the count of the set). The program of a user reaches this with three
  configurations.\<close>

theorem third_configuration_overflows:
  assumes "set_valid k cset" and "kn_exps k a = Some ce"
  shows "if es_nr_exps cset < 2
    then \<exists>k' cset'. add_experiment_to_set k cset (Some a) = Some (k', cset') \<and> set_valid k' cset' \<and>
      es_nr_exps cset' = es_nr_exps cset + 1 \<and> es_exps cset' ! nat (es_nr_exps cset) = Some a \<and>
      kn_exps k' a = Some (ce\<lparr>ce_exp_idx := es_nr_exps cset\<rparr>)
    else add_experiment_to_set k cset (Some a) = None"
proof (cases "es_nr_exps cset < 2")
  case True
  let ?n = "nat (es_nr_exps cset)"
  have l: "length (es_exps cset) = 2" "0 \<le> es_nr_exps cset" using assms(1) by (simp_all add: set_valid_def AMP_MAX_EXP_CORETYPE_def)
  then have "wr (es_exps cset) ?n (Some a) = Some ((es_exps cset)[?n := Some a])" using True by (intro wr_Some) simp
  then have "add_experiment_to_set k cset (Some a) = Some (set_exp k a (ce\<lparr>ce_exp_idx := es_nr_exps cset\<rparr>),
      cset\<lparr>es_exps := (es_exps cset)[?n := Some a], es_nr_exps := es_nr_exps cset + 1\<rparr>)"
    using assms(2) l by (simp add: add_experiment_to_set_def Let_def)
  moreover have "set_valid (set_exp k a (ce\<lparr>ce_exp_idx := es_nr_exps cset\<rparr>))
      (cset\<lparr>es_exps := (es_exps cset)[?n := Some a], es_nr_exps := es_nr_exps cset + 1\<rparr>)"
  proof -
    let ?k = "set_exp k a (ce\<lparr>ce_exp_idx := es_nr_exps cset\<rparr>)" and ?es = "(es_exps cset)[?n := Some a]"
    have "\<exists>b c. ?es ! i = Some b \<and> kn_exps ?k b = Some c" if i: "i < nat (es_nr_exps cset + 1)" for i
    proof (cases "i = ?n")
      case True
      then show ?thesis using l \<open>es_nr_exps cset < 2\<close> by (simp add: set_exp_def)
    next
      case False
      then have "i < ?n" using i l by simp
      then obtain b c where "es_exps cset ! i = Some b" "kn_exps k b = Some c" using assms(1) by (auto simp: set_valid_def)
      then show ?thesis using False by (cases "b = a") (simp_all add: set_exp_def)
    qed
    then show ?thesis using l True by (simp add: set_valid_def AMP_MAX_EXP_CORETYPE_def)
  qed
  ultimately show ?thesis using True l by (simp add: set_exp_def)
next
  case False
  then have "es_nr_exps cset = 2" "length (es_exps cset) = 2" using assms(1) by (simp_all add: set_valid_def AMP_MAX_EXP_CORETYPE_def)
  then show ?thesis using assms(2) by (simp add: add_experiment_to_set_def wr_def)
qed

theorem third_configuration_overflows_witness:
  "add_experiment_to_set a_kernel a_set (Some 1) = None \<and>
   (\<exists>k' cset'. add_experiment_to_set a_kernel (a_set\<lparr>es_nr_exps := 1\<rparr>) (Some 2) = Some (k', cset') \<and> es_nr_exps cset' = 2)"
  using third_configuration_overflows [of a_kernel a_set 1 "init_core_experiment_t 0"]
    third_configuration_overflows [of a_kernel "a_set\<lparr>es_nr_exps := 1\<rparr>" 2 "init_core_experiment_t 1"] a_set_ok
  by (auto simp: a_set_def a_kernel_def kernel_with_def set_valid_def AMP_MAX_EXP_CORETYPE_def)

text \<open>C38. A thread inherits copies or nothing. Cloning a valid set gives, when the memory suffices, a set with as many configurations
  at new addresses, equal to the originals but for the overflow counts, which start at 0; when an
  allocation fails it returns \<open>-ENOMEM\<close>, the copies already made are freed and the memory is as it was.\<close>

theorem clone_copies_or_cleans_up:
  assumes "set_valid k src" and "fresh_ok k"
  shows "\<exists>k' dst r. clone_core_experiment_set_t k src = Some (k', dst, r) \<and>
    (if r = 0 then es_nr_exps dst = es_nr_exps src \<and> es_cur_exp dst = 0 \<and>
       list_all (\<lambda>i. \<exists>a b ce. es_exps src ! i = Some a \<and> es_exps dst ! i = Some b \<and> kn_fresh k \<le> b \<and>
         kn_exps k a = Some ce \<and> kn_exps k' b = Some (ce\<lparr>ce_nr_overflows := replicate MAX_LL_EXPS 0\<rparr>))
         [0..<nat (es_nr_exps src)] \<and>
       distinct (map (\<lambda>i. es_exps dst ! i) [0..<nat (es_nr_exps src)]) \<and>
       (\<forall>a < kn_fresh k. kn_exps k' a = kn_exps k a)
     else r = - 12 \<and> kn_exps k' = kn_exps k \<and> es_exps dst = [None, None])"
proof -
  let ?F = "kn_fresh k"
  note fr = assms(2) [unfolded fresh_ok_def, rule_format]
  have l: "length (es_exps src) = 2" and n: "es_nr_exps src = 0 \<or> es_nr_exps src = 1 \<or> es_nr_exps src = 2"
    and v: "\<And>i. i < nat (es_nr_exps src) \<Longrightarrow> \<exists>a ce. es_exps src ! i = Some a \<and> kn_exps k a = Some ce"
    using assms(1) by (auto simp: set_valid_def AMP_MAX_EXP_CORETYPE_def)
  have lt: "a < ?F" if "kn_exps k a = Some ce" for a ce using fr [of a] that by (cases "a < ?F") auto
  have c: "clone_core_experiment_set_t k src = (case clone_loop k init_core_experiment_set_t src [0..<nat (es_nr_exps src)] of
      None \<Rightarrow> None | Some (k, dst, ok) \<Rightarrow> if ok then Some (k, dst, 0) else do {
       (k, dst) \<leftarrow> foldM drop_entry [0..<nat (es_nr_exps dst)] (k, dst);
       Some (k, dst, - 12) })"
    by (simp add: clone_core_experiment_set_t_def split: option.splits)
  note ev = c kmalloc_def init_core_experiment_set_t_def AMP_MAX_EXP_CORETYPE_def rd_def wr_def upt_rec set_exp_def drop_entry_def kfree_exp_def
    numeral_2_eq_2
  consider (zero) "es_nr_exps src = 0"
    | (one) a ce where "es_nr_exps src = 1" "es_exps src ! 0 = Some a" "kn_exps k a = Some ce" "a < ?F"
    | (two) a ce b ce' where "es_nr_exps src = 2" "es_exps src ! 0 = Some a" "kn_exps k a = Some ce" "a < ?F"
        "es_exps src ! Suc 0 = Some b" "kn_exps k b = Some ce'" "b < ?F"
    using n v [of 0] v [of "Suc 0"] lt by fastforce
  then show ?thesis
  proof cases
    case zero
    then show ?thesis by (simp add: ev)
  next
    case one
    then show ?thesis using l by (cases "kn_oom k" rule: list.exhaust; cases "hd (kn_oom k)") (auto simp: ev)
  next
    case two
    obtain o1 o2 where o: "o1 = (kn_oom k \<noteq> [] \<and> hd (kn_oom k))" "o2 = (tl (kn_oom k) \<noteq> [] \<and> hd (tl (kn_oom k)))" by blast
    have km: "kmalloc q = (if kn_oom q \<noteq> [] \<and> hd (kn_oom q) then (None, q\<lparr>kn_oom := tl (kn_oom q)\<rparr>)
        else (Some (kn_fresh q), q\<lparr>kn_fresh := kn_fresh q + 1, kn_oom := tl (kn_oom q)\<rparr>))" for q :: "'a kernel"
      by (auto simp: kmalloc_def split: list.splits bool.splits)
    have ab: "kn_exps k ?F = None" "kn_exps k (Suc ?F) = None" "b \<noteq> ?F" using fr two by auto
    have fu: "(kn_exps k)(?F := None) = kn_exps k" using ab(1) by (simp add: fun_upd_idem)
    show ?thesis using two l o ab fu unfolding c
      by (cases o1; cases o2) (simp_all add: km init_core_experiment_set_t_def AMP_MAX_EXP_CORETYPE_def rd_def wr_def
          upt_rec set_exp_def drop_entry_def kfree_exp_def numeral_2_eq_2)
  qed
qed

theorem clone_copies_or_cleans_up_witness:
  "\<exists>k' dst r. clone_core_experiment_set_t (a_kernel\<lparr>kn_oom := [False, True]\<rparr>) a_set = Some (k', dst, r) \<and>
    (r = 0 \<and> es_nr_exps dst = 2 \<or> r = - 12 \<and> kn_exps k' = kn_exps a_kernel)"
  using clone_copies_or_cleans_up [of "a_kernel\<lparr>kn_oom := [False, True]\<rparr>" a_set] a_set_ok
  by (auto simp: set_valid_def fresh_ok_def a_set_def split: if_splits)

end
