(* ===== verification/MonitoringMod.thy ===== *)
theory MonitoringMod
  imports ExperimentSet
begin

text \<open>
  The data of a monitored thread (\<^verbatim>\<open>mc_experiments.h\<close>), the interface of monitoring modules and their
  manager (\<^verbatim>\<open>monitoring_mod.h\<close>, \<^verbatim>\<open>monitoring_mod.c\<close>). A module is a record of callbacks over the kernel
  state, with the state of the modules in it; a callback that a module leaves NULL is \<open>None\<close>. The manager has
  the list of loaded modules by address; the fields of the static structure that the modules' code does not
  see are kept in a record of their own.
\<close>

section \<open>Monitored threads\<close>

datatype pmc_profiling_mode_t = TBS_SCHED_MODE | TBS_USER_MODE | EBS_MODE | EBS_SCHED_MODE

record pmon_prof_t =
  pf_enabled :: bool
  pf_pmc_values :: "u64 list"
  pf_pid :: u32
  pf_pmc_ticks_counter :: u32
  pf_samples_counter :: u32
  pf_jiffies_interval :: u32
  pf_jiffies_timeout :: u64
  pf_pmcs_config :: "nat option"
  pf_multiplex_cfg :: "core_experiment_set_t list"
  pf_last_cpu :: int
  pf_mode :: pmc_profiling_mode_t
  pf_context_switch_timestamp :: u64
  pf_flags :: u64
  pf_virt_counter_mask :: u32
  pf_timer :: "u64 option"
  pf_pid_monitor :: int
  pf_samples_buffer :: "nat option"
  pf_nticks_sampling_period :: u32
  pf_kernel_buffer_size :: u32
  pf_max_ebs_samples :: u32
  pf_ref_time :: u64
  pf_task_mod :: "nat option"
  pf_priv_data :: "nat option"

text \<open>A thread for examples.\<close>

definition a_prof :: pmon_prof_t where
  "a_prof = \<lparr>pf_enabled = True, pf_pmc_values = replicate MAX_LL_EXPS 0, pf_pid = 77, pf_pmc_ticks_counter = 0,
     pf_samples_counter = 0, pf_jiffies_interval = 25, pf_jiffies_timeout = 0, pf_pmcs_config = Some 1,
     pf_multiplex_cfg = [a_set, a_set], pf_last_cpu = -1, pf_mode = TBS_SCHED_MODE, pf_context_switch_timestamp = 0,
     pf_flags = 0, pf_virt_counter_mask = 0, pf_timer = None, pf_pid_monitor = 50, pf_samples_buffer = None,
     pf_nticks_sampling_period = 2, pf_kernel_buffer_size = 304, pf_max_ebs_samples = 0, pf_ref_time = 0,
     pf_task_mod = None, pf_priv_data = None\<rparr>"

definition PMC_EXITING :: u64 where "PMC_EXITING = 0x1"
definition PMC_SELF_MONITORING :: u64 where "PMC_SELF_MONITORING = 0x2"
definition PMC_PREPARE_MULTIPLEXING :: u64 where "PMC_PREPARE_MULTIPLEXING = 0x8"
definition PMC_READ_SELF_MONITORING :: u64 where "PMC_READ_SELF_MONITORING = 0x10"

section \<open>Interface\<close>

definition MM_TICK :: u32 where "MM_TICK = 0x1"
definition MM_MIGRATION :: u32 where "MM_MIGRATION = 0x2"
definition MM_EXIT :: u32 where "MM_EXIT = 0x4"
definition MM_SAVE :: u32 where "MM_SAVE = 0x8"
definition MM_NO_CUR_CPU :: u32 where "MM_NO_CUR_CPU = 0x10"

record counter_usage_t =
  cu_hwpmc_mask :: u32
  cu_nr_virtual_counters :: u32
  cu_nr_experiments :: u32

type_synonym 'm thread_op = "pmon_prof_t \<Rightarrow> 'm kernel \<Rightarrow> 'm kernel \<times> pmon_prof_t"

record 'm monitoring_module_t =
  mm_id :: int
  mm_probe_module :: "('m kernel \<Rightarrow> int \<times> 'm kernel) option"
  mm_enable_module :: "'m kernel \<Rightarrow> int \<times> 'm kernel"
  mm_disable_module :: "'m kernel \<Rightarrow> 'm kernel"
  mm_fork :: "(u64 \<Rightarrow> pmon_prof_t \<Rightarrow> 'm kernel \<Rightarrow> 'm kernel \<times> pmon_prof_t \<times> int) option"
  mm_exec :: "'m thread_op option"
  mm_new_sample :: "(nat \<Rightarrow> pmc_sample_t \<Rightarrow> u32 \<Rightarrow> pmon_prof_t \<Rightarrow> 'm kernel \<Rightarrow>
     'm kernel \<times> pmon_prof_t \<times> pmc_sample_t \<times> int) option"
  mm_migrate :: "(int \<Rightarrow> int \<Rightarrow> 'm thread_op) option"
  mm_exit :: "'m thread_op option"
  mm_free_task :: "'m thread_op option"
  mm_switch_in :: "'m thread_op option"
  mm_switch_out :: "'m thread_op option"
  mm_get_metric :: "(pmon_prof_t \<Rightarrow> int \<Rightarrow> 'm kernel \<Rightarrow> int \<times> u64) option"
  mm_tick :: "(nat \<Rightarrow> 'm thread_op) option"
  mm_counter_usage :: "('m kernel \<Rightarrow> counter_usage_t) option"
  mm_syswide_start :: "(int \<Rightarrow> u32 \<Rightarrow> 'm kernel \<Rightarrow> int \<times> 'm kernel) option"
  mm_syswide_stop :: "(nat \<Rightarrow> u32 \<Rightarrow> 'm kernel \<Rightarrow> 'm kernel) option"
  mm_syswide_refresh :: "(nat \<Rightarrow> u32 \<Rightarrow> 'm kernel \<Rightarrow> 'm kernel) option"
  mm_syswide_dump :: "(nat \<Rightarrow> u32 \<Rightarrow> pmc_sample_t \<Rightarrow> 'm kernel \<Rightarrow> 'm kernel \<times> pmc_sample_t) option"

section \<open>Manager\<close>

record 'm mm_manager_t =
  mgr_modules :: "nat list"
  mgr_desc :: "nat \<Rightarrow> 'm monitoring_module_t"
  mgr_cur_module :: "nat option"
  mgr_nr_modules :: int
  mgr_nr_ids :: int

definition cur_module :: "'m mm_manager_t \<Rightarrow> 'm monitoring_module_t option" where
  "cur_module mgr = map_option (mgr_desc mgr) (mgr_cur_module mgr)"

definition find_module :: "'m mm_manager_t \<Rightarrow> int \<Rightarrow> nat option" where
  "find_module mgr module_id = find (\<lambda>a. mm_id (mgr_desc mgr a) = module_id) (mgr_modules mgr)"

definition is_current_id :: "'m mm_manager_t \<Rightarrow> int \<Rightarrow> bool" where
  "is_current_id mgr module_id = (case cur_module mgr of None \<Rightarrow> False | Some m \<Rightarrow> mm_id m = module_id)"

definition activate_monitoring_module ::
  "'m mm_manager_t \<Rightarrow> 'm kernel \<Rightarrow> int \<Rightarrow> 'm mm_manager_t \<times> 'm kernel \<times> int" where
  "activate_monitoring_module mgr k module_id =
     (if module_id < 0 then
        (case cur_module mgr of
           None \<Rightarrow> (mgr, k, -1)
         | Some m \<Rightarrow> (mgr\<lparr>mgr_cur_module := None\<rparr>, k, mm_id m))
      else if is_current_id mgr module_id then (mgr, k, module_id)
      else (case find_module mgr module_id of
          None \<Rightarrow> (mgr, k, -1)
        | Some a \<Rightarrow>
            let (error, k) = mm_enable_module (mgr_desc mgr a) k in
            if error \<noteq> 0 then (mgr, k, error)
            else let k = (case cur_module mgr of None \<Rightarrow> k | Some m \<Rightarrow> mm_disable_module m k) in
              (mgr\<lparr>mgr_cur_module := Some a\<rparr>, k, module_id)))"

definition reinitialize_monitoring_module ::
  "'m mm_manager_t \<Rightarrow> 'm kernel \<Rightarrow> int \<Rightarrow> 'm kernel \<times> int" where
  "reinitialize_monitoring_module mgr k module_id =
     (if module_id < 0 then (k, -1)
      else (case cur_module mgr of
          Some m \<Rightarrow> if mm_id m = module_id then (snd (mm_enable_module m k), module_id)
            else (case find_module mgr module_id of
                None \<Rightarrow> (k, -1)
              | Some a \<Rightarrow> (snd (mm_enable_module (mgr_desc mgr a) k), module_id))
        | None \<Rightarrow> (case find_module mgr module_id of
                None \<Rightarrow> (k, -1)
              | Some a \<Rightarrow> (snd (mm_enable_module (mgr_desc mgr a) k), module_id))))"

definition SECURITY_IDS_OFFSET :: int where "SECURITY_IDS_OFFSET = 999"

definition current_monitoring_module_security_id :: "'m mm_manager_t \<Rightarrow> int" where
  "current_monitoring_module_security_id mgr =
     (case cur_module mgr of None \<Rightarrow> -1 | Some m \<Rightarrow> SECURITY_IDS_OFFSET + mm_id m)"

text \<open>\<open>EINVAL\<close> is 22. Linking a module that is already in the list corrupts it.\<close>

definition load_monitoring_module ::
  "'m mm_manager_t \<Rightarrow> 'm kernel \<Rightarrow> nat option \<Rightarrow> ('m mm_manager_t \<times> 'm kernel \<times> int) option" where
  "load_monitoring_module mgr k module = (case module of
     None \<Rightarrow> Some (mgr, k, -22)
   | Some a \<Rightarrow>
       let m = mgr_desc mgr a in
       if mm_id m > 0 then Some (mgr, k, -22)
       else let (ret, k) = (case mm_probe_module m of None \<Rightarrow> (0, k) | Some probe \<Rightarrow> probe k) in
         if ret \<noteq> 0 then Some (mgr, k, ret)
         else if a \<in> set (mgr_modules mgr) then None
         else let id = mgr_nr_ids mgr in
           Some (mgr\<lparr>mgr_desc := (mgr_desc mgr)(a := m\<lparr>mm_id := id\<rparr>), mgr_modules := mgr_modules mgr @ [a],
                    mgr_nr_modules := mgr_nr_modules mgr + 1, mgr_nr_ids := id + 1\<rparr>, k, id))"

definition unload_monitoring_module :: "'m mm_manager_t \<Rightarrow> int \<Rightarrow> 'm mm_manager_t \<times> int" where
  "unload_monitoring_module mgr module_id =
     (if module_id < 0 \<or> is_current_id mgr module_id then (mgr, -1)
      else (case find_module mgr module_id of
          None \<Rightarrow> (mgr, -1)
        | Some a \<Rightarrow> (mgr\<lparr>mgr_modules := remove1 a (mgr_modules mgr), mgr_nr_modules := mgr_nr_modules mgr - 1\<rparr>, module_id)))"

text \<open>The commands of the control file after their parsing, and the value the write returns: its length or an error.\<close>

datatype mm_command = Activate int | Deactivate | Reinitialize int | Unknown

definition proc_mm_manager_write ::
  "'m mm_manager_t \<Rightarrow> 'm kernel \<Rightarrow> mm_command \<Rightarrow> int \<Rightarrow> 'm mm_manager_t \<times> 'm kernel \<times> int" where
  "proc_mm_manager_write mgr k cmd len = (case cmd of
     Activate v \<Rightarrow> let (mgr, k, r) = activate_monitoring_module mgr k v in (mgr, k, if r < 0 then r else len)
   | Deactivate \<Rightarrow> let (mgr, k, r) = activate_monitoring_module mgr k (-1) in (mgr, k, if r < 0 then r else len)
   | Reinitialize v \<Rightarrow> let (k, r) = reinitialize_monitoring_module mgr k v in (mgr, k, if r \<noteq> 0 then r else len)
   | Unknown \<Rightarrow> (mgr, k, len))"

definition init_mm_manager ::
  "'m mm_manager_t \<Rightarrow> 'm kernel \<Rightarrow> nat \<Rightarrow> nat list \<Rightarrow> ('m mm_manager_t \<times> 'm kernel \<times> int) option" where
  "init_mm_manager mgr k dummy_mm platform_mms = do {
     let mgr = mgr\<lparr>mgr_nr_modules := 0, mgr_cur_module := None, mgr_nr_ids := 0, mgr_modules := []\<rparr>;
     (mgr, k, _) \<leftarrow> load_monitoring_module mgr k (Some dummy_mm);
     let (mgr, k, ret) = activate_monitoring_module mgr k 0;
     if ret \<noteq> 0 then Some (mgr, k, ret)
     else foldM (\<lambda>a (mgr, k, ret). do {
         (mgr, k, _) \<leftarrow> load_monitoring_module mgr k (Some a);
         Some (mgr, k, ret)
       }) platform_mms (mgr, k, 0)
   }"

definition destroy_mm_manager :: "'m mm_manager_t \<Rightarrow> 'm kernel \<Rightarrow> 'm mm_manager_t \<times> 'm kernel" where
  "destroy_mm_manager mgr k = (case cur_module mgr of
     None \<Rightarrow> (mgr, k)
   | Some m \<Rightarrow> (mgr\<lparr>mgr_cur_module := None\<rparr>, mm_disable_module m k))"

section \<open>Calls of the current module\<close>

definition mod_task_is_curr :: "'m mm_manager_t \<Rightarrow> pmon_prof_t \<Rightarrow> bool" where
  "mod_task_is_curr mgr prof \<longleftrightarrow> pf_task_mod prof \<noteq> None \<and> mgr_cur_module mgr = pf_task_mod prof"

definition is_valid_monitoring_module :: "'m mm_manager_t \<Rightarrow> nat option \<Rightarrow> bool" where
  "is_valid_monitoring_module mgr module = (case module of None \<Rightarrow> False | Some a \<Rightarrow> a \<in> set (mgr_modules mgr))"

text \<open>The callback of the current module for a thread, if the thread belongs to it.\<close>

definition task_cb :: "'m mm_manager_t \<Rightarrow> pmon_prof_t \<Rightarrow> ('m monitoring_module_t \<Rightarrow> 'f option) \<Rightarrow> 'f option" where
  "task_cb mgr prof f = (if mod_task_is_curr mgr prof then Option.bind (cur_module mgr) f else None)"

definition thread_cb :: "'m mm_manager_t \<Rightarrow> ('m monitoring_module_t \<Rightarrow> 'm thread_op option) \<Rightarrow> 'm thread_op" where
  "thread_cb mgr f prof k = (case task_cb mgr prof f of None \<Rightarrow> (k, prof) | Some op \<Rightarrow> op prof k)"

definition mm_on_fork :: "'m mm_manager_t \<Rightarrow> u64 \<Rightarrow> pmon_prof_t \<Rightarrow> 'm kernel \<Rightarrow> 'm kernel \<times> pmon_prof_t \<times> int" where
  "mm_on_fork mgr clone_flags prof k = (case Option.bind (cur_module mgr) mm_fork of
     None \<Rightarrow> (k, prof, 0) | Some op \<Rightarrow> op clone_flags prof k)"

definition mm_on_exec :: "'m mm_manager_t \<Rightarrow> 'm thread_op" where "mm_on_exec mgr = thread_cb mgr mm_exec"
definition mm_on_exit :: "'m mm_manager_t \<Rightarrow> 'm thread_op" where "mm_on_exit mgr = thread_cb mgr mm_exit"
definition mm_on_switch_in :: "'m mm_manager_t \<Rightarrow> 'm thread_op" where "mm_on_switch_in mgr = thread_cb mgr mm_switch_in"
definition mm_on_switch_out :: "'m mm_manager_t \<Rightarrow> 'm thread_op" where "mm_on_switch_out mgr = thread_cb mgr mm_switch_out"

definition mm_on_tick :: "'m mm_manager_t \<Rightarrow> nat \<Rightarrow> 'm thread_op" where
  "mm_on_tick mgr cpu = thread_cb mgr (\<lambda>m. map_option (\<lambda>f. f cpu) (mm_tick m))"

definition mm_on_migrate :: "'m mm_manager_t \<Rightarrow> int \<Rightarrow> int \<Rightarrow> 'm thread_op" where
  "mm_on_migrate mgr prev_cpu new_cpu = thread_cb mgr (\<lambda>m. map_option (\<lambda>f. f prev_cpu new_cpu) (mm_migrate m))"

text \<open>The callback may change the sample (virtual counters) and the thread.\<close>

definition mm_on_new_sample ::
  "'m mm_manager_t \<Rightarrow> nat \<Rightarrow> pmc_sample_t \<Rightarrow> u32 \<Rightarrow> pmon_prof_t \<Rightarrow> 'm kernel \<Rightarrow>
   'm kernel \<times> pmon_prof_t \<times> pmc_sample_t \<times> int" where
  "mm_on_new_sample mgr cpu sample flags prof k = (case task_cb mgr prof mm_new_sample of
     None \<Rightarrow> (k, prof, sample, 0) | Some op \<Rightarrow> op cpu sample flags prof k)"

definition mm_on_free_task :: "'m mm_manager_t \<Rightarrow> 'm thread_op" where
  "mm_on_free_task mgr prof k = (case task_cb mgr prof mm_free_task of
     Some op \<Rightarrow> op prof k
   | None \<Rightarrow>
       if pf_priv_data prof \<noteq> None \<and> is_valid_monitoring_module mgr (pf_task_mod prof)
       then (case Option.bind (pf_task_mod prof) (\<lambda>a. mm_free_task (mgr_desc mgr a)) of
               None \<Rightarrow> (k, prof) | Some op \<Rightarrow> op prof k)
       else (k, prof))"

definition mm_get_current_metric_value :: "'m mm_manager_t \<Rightarrow> pmon_prof_t \<Rightarrow> int \<Rightarrow> 'm kernel \<Rightarrow> int \<times> u64 option" where
  "mm_get_current_metric_value mgr prof key k = (case task_cb mgr prof mm_get_metric of
     None \<Rightarrow> (-1, None) | Some f \<Rightarrow> let (r, v) = f prof key k in (r, Some v))"

definition mm_module_counter_usage :: "'m mm_manager_t \<Rightarrow> 'm kernel \<Rightarrow> counter_usage_t" where
  "mm_module_counter_usage mgr k = (case Option.bind (cur_module mgr) mm_counter_usage of
     None \<Rightarrow> \<lparr>cu_hwpmc_mask = 0, cu_nr_virtual_counters = 0, cu_nr_experiments = 0\<rparr> | Some f \<Rightarrow> f k)"

text \<open>\<open>ENOSYS\<close> is 38.\<close>

definition mm_on_syswide_start_monitor :: "'m mm_manager_t \<Rightarrow> int \<Rightarrow> u32 \<Rightarrow> 'm kernel \<Rightarrow> int \<times> 'm kernel" where
  "mm_on_syswide_start_monitor mgr cpu vmask k = (case Option.bind (cur_module mgr) mm_syswide_start of
     None \<Rightarrow> (-38, k) | Some f \<Rightarrow> f cpu vmask k)"

definition mm_on_syswide_stop_monitor :: "'m mm_manager_t \<Rightarrow> nat \<Rightarrow> u32 \<Rightarrow> 'm kernel \<Rightarrow> 'm kernel" where
  "mm_on_syswide_stop_monitor mgr cpu vmask k = (case Option.bind (cur_module mgr) mm_syswide_stop of
     None \<Rightarrow> k | Some f \<Rightarrow> f cpu vmask k)"

definition mm_on_syswide_refresh_monitor :: "'m mm_manager_t \<Rightarrow> nat \<Rightarrow> u32 \<Rightarrow> 'm kernel \<Rightarrow> 'm kernel" where
  "mm_on_syswide_refresh_monitor mgr cpu vmask k = (case Option.bind (cur_module mgr) mm_syswide_refresh of
     None \<Rightarrow> k | Some f \<Rightarrow> f cpu vmask k)"

definition mm_on_syswide_dump_virtual_counters ::
  "'m mm_manager_t \<Rightarrow> nat \<Rightarrow> u32 \<Rightarrow> pmc_sample_t \<Rightarrow> 'm kernel \<Rightarrow> 'm kernel \<times> pmc_sample_t" where
  "mm_on_syswide_dump_virtual_counters mgr cpu vmask sample k = (case Option.bind (cur_module mgr) mm_syswide_dump of
     None \<Rightarrow> (k, sample) | Some f \<Rightarrow> f cpu vmask sample k)"

section \<open>Invariant of the manager\<close>

definition mgr_ok :: "'m mm_manager_t \<Rightarrow> bool" where
  "mgr_ok mgr \<longleftrightarrow> distinct (mgr_modules mgr) \<and> mgr_nr_modules mgr = int (length (mgr_modules mgr)) \<and>
     inj_on (\<lambda>a. mm_id (mgr_desc mgr a)) (set (mgr_modules mgr)) \<and>
     (\<forall>a \<in> set (mgr_modules mgr). 0 \<le> mm_id (mgr_desc mgr a) \<and> mm_id (mgr_desc mgr a) < mgr_nr_ids mgr) \<and>
     0 \<le> mgr_nr_ids mgr \<and> (\<forall>a. mgr_cur_module mgr = Some a \<longrightarrow> a \<in> set (mgr_modules mgr))"

lemma find_module_Some:
  "find_module mgr i = Some a \<Longrightarrow> a \<in> set (mgr_modules mgr) \<and> mm_id (mgr_desc mgr a) = i"
  by (auto simp: find_module_def find_Some_iff)

lemma find_module_loaded:
  assumes "mgr_ok mgr" and "a \<in> set (mgr_modules mgr)"
  shows "find_module mgr (mm_id (mgr_desc mgr a)) = Some a"
proof -
  have "find_module mgr (mm_id (mgr_desc mgr a)) \<noteq> None" using assms(2) by (auto simp: find_module_def find_None_iff)
  then obtain b where b: "find_module mgr (mm_id (mgr_desc mgr a)) = Some b" by blast
  then have "b = a" using find_module_Some [OF b] assms by (auto simp: mgr_ok_def dest: inj_onD)
  with b show ?thesis by simp
qed

lemma activate_ok:
  assumes "mgr_ok mgr" and "activate_monitoring_module mgr k i = (mgr', k', r)"
  shows "mgr_ok mgr'"
  using assms find_module_Some [of mgr i]
  by (auto simp: activate_monitoring_module_def mgr_ok_def Let_def split: if_splits option.splits prod.splits)

lemma load_ok:
  assumes ok: "mgr_ok mgr" and l: "load_monitoring_module mgr k m = Some (mgr', k', r)"
  shows "mgr_ok mgr'"
proof (cases "mgr' = mgr")
  case True
  then show ?thesis using ok by simp
next
  case False
  then obtain a where a: "a \<notin> set (mgr_modules mgr)"
    "mgr' = mgr\<lparr>mgr_desc := (mgr_desc mgr)(a := (mgr_desc mgr a)\<lparr>mm_id := mgr_nr_ids mgr\<rparr>), mgr_modules := mgr_modules mgr @ [a],
       mgr_nr_modules := mgr_nr_modules mgr + 1, mgr_nr_ids := mgr_nr_ids mgr + 1\<rparr>"
    using l by (auto simp: load_monitoring_module_def Let_def split: option.splits if_splits prod.splits)
  let ?d = "mgr_desc mgr'"
  have d: "mm_id (?d b) = (if b = a then mgr_nr_ids mgr else mm_id (mgr_desc mgr b))" for b by (simp add: a(2))
  have "inj_on (\<lambda>b. mm_id (?d b)) (set (mgr_modules mgr'))"
  proof (rule inj_onI)
    fix x y assume xy: "x \<in> set (mgr_modules mgr')" "y \<in> set (mgr_modules mgr')" "mm_id (?d x) = mm_id (?d y)"
    have b: "mm_id (mgr_desc mgr z) < mgr_nr_ids mgr" if "z \<in> set (mgr_modules mgr)" for z using ok that by (simp add: mgr_ok_def)
    have i: "inj_on (\<lambda>z. mm_id (mgr_desc mgr z)) (set (mgr_modules mgr))" using ok by (simp add: mgr_ok_def)
    show "x = y" using xy b [of x] b [of y] inj_onD [OF i, of x y] a(1) unfolding d by (auto simp: a(2) split: if_splits)
  qed
  then show ?thesis using ok a(1) unfolding mgr_ok_def d by (auto simp: a(2))
qed

lemma unload_ok:
  assumes "mgr_ok mgr" and "unload_monitoring_module mgr i = (mgr', r)"
  shows "mgr_ok mgr'"
proof (cases "mgr' = mgr")
  case True
  then show ?thesis using assms(1) by simp
next
  case False
  then obtain a where a: "find_module mgr i = Some a" "\<not> is_current_id mgr i"
    "mgr' = mgr\<lparr>mgr_modules := remove1 a (mgr_modules mgr), mgr_nr_modules := mgr_nr_modules mgr - 1\<rparr>"
    using assms(2) by (auto simp: unload_monitoring_module_def split: if_splits option.splits)
  have m: "a \<in> set (mgr_modules mgr)" "mm_id (mgr_desc mgr a) = i" using find_module_Some [OF a(1)] by auto
  have "mgr_cur_module mgr \<noteq> Some a" using a(2) m(2) by (auto simp: is_current_id_def cur_module_def)
  moreover have "set (remove1 a (mgr_modules mgr)) = set (mgr_modules mgr) - {a}" using assms(1) by (simp add: mgr_ok_def)
  moreover have "int (length (mgr_modules mgr)) - 1 = int (length (remove1 a (mgr_modules mgr)))"
    using m(1) length_pos_if_in_set [OF m(1)] by (simp add: length_remove1 of_nat_diff Suc_leI)
  ultimately show ?thesis using assms(1) by (auto simp: mgr_ok_def a(3) inj_on_diff)
qed

text \<open>The calls that change the manager.\<close>

inductive mgr_step :: "'m mm_manager_t \<times> 'm kernel \<Rightarrow> 'm mm_manager_t \<times> 'm kernel \<Rightarrow> bool" where
  loads: "load_monitoring_module mgr k m = Some (mgr', k', r) \<Longrightarrow> mgr_step (mgr, k) (mgr', k')"
| unloads: "unload_monitoring_module mgr i = (mgr', r) \<Longrightarrow> mgr_step (mgr, k) (mgr', k)"
| writes: "proc_mm_manager_write mgr k cmd len = (mgr', k', r) \<Longrightarrow> mgr_step (mgr, k) (mgr', k')"
| elsewhere: "mgr_step (mgr, k) (mgr, k')"

lemma mgr_step_ok: "mgr_step s s' \<Longrightarrow> mgr_ok (fst s) \<Longrightarrow> mgr_ok (fst s')"
proof (induction rule: mgr_step.induct)
  case (writes mgr k cmd len mgr' k' r)
  have "mgr' = mgr \<or> (\<exists>i k2 r2. activate_monitoring_module mgr k i = (mgr', k2, r2))"
    using writes(1) by (cases cmd) (auto simp: proc_mm_manager_write_def split: prod.splits)
  then show ?case using writes(2) activate_ok by (auto simp: activate_ok)
qed (auto intro: load_ok unload_ok)

section \<open>Properties\<close>

text \<open>C39. The manager of monitoring modules stays consistent. From an initialised manager, after any loads, unloads and
  commands: the modules are listed once and counted, their ids are distinct and each finds its module,
  the current module, if there is one, is loaded, and unloading it is refused.\<close>

theorem module_manager_consistent:
  assumes "mgr_step\<^sup>*\<^sup>* (mgr\<lparr>mgr_nr_modules := 0, mgr_cur_module := None, mgr_nr_ids := 0, mgr_modules := []\<rparr>, k) (mgr', k')"
  shows "distinct (mgr_modules mgr') \<and> mgr_nr_modules mgr' = int (length (mgr_modules mgr')) \<and>
    list_all (\<lambda>a. find_module mgr' (mm_id (mgr_desc mgr' a)) = Some a) (mgr_modules mgr') \<and>
    (case mgr_cur_module mgr' of None \<Rightarrow> True
     | Some a \<Rightarrow> a \<in> set (mgr_modules mgr') \<and> unload_monitoring_module mgr' (mm_id (mgr_desc mgr' a)) = (mgr', -1))"
proof -
  have "mgr_ok (fst (mgr\<lparr>mgr_nr_modules := 0, mgr_cur_module := None, mgr_nr_ids := 0, mgr_modules := []\<rparr>, k))"
    by (simp add: mgr_ok_def)
  with assms have ok: "mgr_ok (fst (mgr', k'))" by (induction rule: rtranclp_induct) (auto intro: mgr_step_ok)
  then show ?thesis using find_module_loaded [of mgr']
    by (auto simp: mgr_ok_def list_all_iff unload_monitoring_module_def is_current_id_def cur_module_def split: option.splits)
qed

text \<open>A module that counts how often it is enabled in its state, and a manager with two copies of it.\<close>

definition counting_module :: "int \<Rightarrow> nat monitoring_module_t" where
  "counting_module i = \<lparr>mm_id = i, mm_probe_module = None, mm_enable_module = (\<lambda>k. (0, k\<lparr>kn_mods := kn_mods k + 1\<rparr>)),
     mm_disable_module = (\<lambda>k. k\<lparr>kn_mods := kn_mods k - 1\<rparr>), mm_fork = None, mm_exec = None, mm_new_sample = None,
     mm_migrate = None, mm_exit = None, mm_free_task = None, mm_switch_in = None, mm_switch_out = None, mm_get_metric = None,
     mm_tick = None, mm_counter_usage = None, mm_syswide_start = None, mm_syswide_stop = None, mm_syswide_refresh = None,
     mm_syswide_dump = None\<rparr>"

definition two_modules :: "nat mm_manager_t" where
  "two_modules = \<lparr>mgr_modules = [7, 8], mgr_desc = (\<lambda>a. counting_module (int a - 7)), mgr_cur_module = Some 7,
     mgr_nr_modules = 2, mgr_nr_ids = 2\<rparr>"

theorem module_manager_consistent_witness:
  "\<exists>mgr' k'. load_monitoring_module
       (two_modules\<lparr>mgr_nr_modules := 0, mgr_cur_module := None, mgr_nr_ids := 0, mgr_modules := []\<rparr>) (kernel_with 0) (Some 7) =
     Some (mgr', k', 0) \<and> list_all (\<lambda>a. find_module mgr' (mm_id (mgr_desc mgr' a)) = Some a) (mgr_modules mgr') \<and>
     mgr_modules mgr' = [7]"
proof -
  let ?m = "two_modules\<lparr>mgr_nr_modules := 0, mgr_cur_module := None, mgr_nr_ids := 0, mgr_modules := []\<rparr>"
  obtain mgr' k' where l: "load_monitoring_module ?m (kernel_with 0) (Some 7) = Some (mgr', k', 0)" "mgr_modules mgr' = [7]"
    by (simp add: load_monitoring_module_def two_modules_def counting_module_def Let_def)
  from loads [OF l(1)] have "mgr_step\<^sup>*\<^sup>* (?m, kernel_with 0) (mgr', k')" by (rule r_into_rtranclp)
  from module_manager_consistent [OF this] l show ?thesis by blast
qed

text \<open>Activating a module that is not current enables it and then disables the old one, and if it cannot be enabled the
  old one stays, with the error as result; but deactivating only forgets the current module, whose \<open>disable_module\<close> is
  never called, so that activating it again enables it twice.\<close>

theorem activation_switches_or_keeps:
  assumes "mgr_ok mgr" and "a \<in> set (mgr_modules mgr)" and "mgr_cur_module mgr \<noteq> Some a"
    and "mm_enable_module (mgr_desc mgr a) k = (e, k1)"
  shows "activate_monitoring_module mgr k (mm_id (mgr_desc mgr a)) =
      (if e \<noteq> 0 then (mgr, k1, e)
       else (mgr\<lparr>mgr_cur_module := Some a\<rparr>,
             (case mgr_cur_module mgr of None \<Rightarrow> k1 | Some b \<Rightarrow> mm_disable_module (mgr_desc mgr b) k1),
             mm_id (mgr_desc mgr a))) \<and>
    (let mgr1 = mgr\<lparr>mgr_cur_module := Some a\<rparr> in
       activate_monitoring_module mgr1 k1 (-1) = (mgr\<lparr>mgr_cur_module := None\<rparr>, k1, mm_id (mgr_desc mgr a)) \<and>
       fst (snd (activate_monitoring_module (mgr\<lparr>mgr_cur_module := None\<rparr>) k1 (mm_id (mgr_desc mgr a)))) =
         snd (mm_enable_module (mgr_desc mgr a) k1))"
proof -
  note f = find_module_loaded [OF assms(1,2)]
  have p: "0 \<le> mm_id (mgr_desc mgr a)" using assms(1,2) by (simp add: mgr_ok_def)
  have c: "\<not> is_current_id mgr (mm_id (mgr_desc mgr a))"
    using assms(1-3) by (auto simp: is_current_id_def cur_module_def mgr_ok_def dest: inj_onD split: option.splits)
  have f': "find_module (mgr\<lparr>mgr_cur_module := None\<rparr>) (mm_id (mgr_desc mgr a)) = Some a" using f by (simp add: find_module_def)
  have d: "fst (snd (activate_monitoring_module (mgr\<lparr>mgr_cur_module := None\<rparr>) k1 (mm_id (mgr_desc mgr a)))) =
         snd (mm_enable_module (mgr_desc mgr a) k1)"
    using p f' by (simp add: activate_monitoring_module_def is_current_id_def cur_module_def Let_def split: prod.splits)
  show ?thesis using p f c assms(4) d
    by (simp add: activate_monitoring_module_def cur_module_def Let_def split: option.splits)
qed

theorem activation_switches_or_keeps_witness:
  "\<exists>mgr' k'. activate_monitoring_module two_modules (kernel_with 1) 1 = (mgr', k', 1) \<and> mgr_cur_module mgr' = Some 8 \<and> kn_mods k' = 1"
proof -
  have "mgr_ok two_modules" by (auto simp: mgr_ok_def two_modules_def counting_module_def)
  from activation_switches_or_keeps [OF this, of 8 "kernel_with 1" 0 "kernel_with 2"]
  show ?thesis by (simp add: two_modules_def counting_module_def kernel_with_def)
qed

end
