(* ===== verification/SysWide.thy ===== *)
theory SysWide
  imports MonitoringMod
begin

text \<open>
  The system-wide monitoring mode (\<^verbatim>\<open>syswide.c\<close>): one process owns the mode, a timer collects the counters of
  every CPU. Functions that the code runs on every CPU are folded over the CPUs. Taking a spin lock that is
  held is \<open>None\<close>: the code would never return. \<open>hz\<close> is the frequency of the kernel's clock.
\<close>

definition SYSWIDE_MONITORING_DISABLED :: int where "SYSWIDE_MONITORING_DISABLED = -3"
definition SYSWIDE_MONITORING_STOPPING :: int where "SYSWIDE_MONITORING_STOPPING = -2"
definition SYSWIDE_MONITORING_STARTING :: int where "SYSWIDE_MONITORING_STARTING = -1"

definition upd_cpu :: "nat \<Rightarrow> (cpu_syswide_t \<Rightarrow> cpu_syswide_t) \<Rightarrow> 'm kernel \<Rightarrow> 'm kernel" where
  "upd_cpu cpu f k = k\<lparr>kn_cpu_syswide := (kn_cpu_syswide k)(cpu := f (kn_cpu_syswide k cpu))\<rparr>"

definition upd_ctl :: "(syswide_ctl_t \<Rightarrow> syswide_ctl_t) \<Rightarrow> 'm kernel \<Rightarrow> 'm kernel" where
  "upd_ctl f k = k\<lparr>kn_syswide_ctl := f (kn_syswide_ctl k)\<rparr>"

definition lock_ctl :: "'m kernel \<Rightarrow> 'm kernel option" where
  "lock_ctl k = (if sw_lock (kn_syswide_ctl k) then None else Some (upd_ctl (\<lambda>c. c\<lparr>sw_lock := True\<rparr>) k))"

definition unlock_ctl :: "'m kernel \<Rightarrow> 'm kernel" where
  "unlock_ctl k = upd_ctl (\<lambda>c. c\<lparr>sw_lock := False\<rparr>) k"

definition cpus :: "'m kernel \<Rightarrow> nat list" where
  "cpus k = [0..<length (kn_coretype_cpu k)]"

section \<open>Counting\<close>

text \<open>Stop, read and restart one event.\<close>

definition gather_event :: "rdpmc \<Rightarrow> msr_file \<Rightarrow> low_level_exp \<Rightarrow> msr_file \<times> low_level_exp" where
  "gather_event rdpmc m lle =
     (let m = stop_count_hw_event m (ll_event lle);
          ev = read_count_hw_event rdpmc m (ll_event lle);
          m = restart_count_hw_event m ev
      in (m, lle\<lparr>ll_event := ev\<rparr>))"

definition refresh_loop :: "rdpmc \<Rightarrow> msr_file \<Rightarrow> core_experiment_t \<Rightarrow> u64 list \<Rightarrow> (msr_file \<times> core_experiment_t \<times> u64 list) option" where
  "refresh_loop rdpmc m ce vals =
     foldM (\<lambda>i (m, ce, vals). do {
         lle \<leftarrow> rd (ce_array ce) i;
         let (m, lle) = gather_event rdpmc m lle;
         arr \<leftarrow> wr (ce_array ce) i lle;
         v \<leftarrow> rd vals i;
         vals \<leftarrow> wr vals i (v + get_last_value_hw_event (ll_event lle));
         Some (m, ce\<lparr>ce_array := arr\<rparr>, vals)
       }) [0..<length (ce_array ce)] (m, ce, vals)"

definition refresh_counts_cpu :: "'m mm_manager_t \<Rightarrow> rdpmc \<Rightarrow> 'm kernel \<Rightarrow> nat \<Rightarrow> ('m kernel \<times> bool) option" where
  "refresh_counts_cpu mgr rdpmc k cpu = do {
     let cs = kn_cpu_syswide k cpu;
     k \<leftarrow> (case cs_cur_config cs of
         None \<Rightarrow> Some k
       | Some a \<Rightarrow> do {
           ce \<leftarrow> kn_exps k a;
           (m, ce, vals) \<leftarrow> refresh_loop rdpmc (kn_msrs k cpu) ce (cs_pmc_values cs);
           Some (upd_cpu cpu (\<lambda>cs. cs\<lparr>cs_pmc_values := vals\<rparr>) (set_exp (set_msrs k cpu (reset_overflow_status m)) a ce))
         });
     let k = (if cs_virt_counter_mask cs \<noteq> 0 then mm_on_syswide_refresh_monitor mgr cpu (cs_virt_counter_mask cs) k else k);
     Some (k, cs_cur_config cs = None)
   }"

definition copy_counts :: "u64 list \<Rightarrow> u64 list" where
  "copy_counts vals = take MAX_LL_EXPS vals"

definition syswide_monitoring_sample_cpu :: "'m mm_manager_t \<Rightarrow> rdpmc \<Rightarrow> 'm kernel \<Rightarrow> nat \<Rightarrow> 'm kernel option" where
  "syswide_monitoring_sample_cpu mgr rdpmc k cpu = do {
     let core_exp = cs_cur_config (kn_cpu_syswide k cpu);
     cur_coretype \<leftarrow> get_coretype_cpu k cpu;
     (k, _) \<leftarrow> refresh_counts_cpu mgr rdpmc k cpu;
     let cs = kn_cpu_syswide k cpu;
     let now = kn_ktime k;
     (cs, idx, used, sz) \<leftarrow> (case core_exp of
         None \<Rightarrow> Some (cs, 0, 0, 0)
       | Some a \<Rightarrow> do {
           ce \<leftarrow> kn_exps k a;
           let sample = (cs_last_sample cs)\<lparr>ps_pmc_counts := copy_counts (cs_pmc_values cs)\<rparr>;
           Some (cs\<lparr>cs_last_sample := sample, cs_pmc_values := replicate MAX_LL_EXPS 0\<rparr>,
                 word_of_int (ce_exp_idx ce), ce_used_pmcs ce, of_nat (length (ce_array ce)))
         });
     let sample = (cs_last_sample cs)\<lparr>ps_coretype := word_of_int cur_coretype, ps_exp_idx := idx, ps_pmc_mask := used,
       ps_nr_counts := sz, ps_virt_mask := 0, ps_nr_virt_counts := 0, ps_pid := of_nat cpu,
       ps_elapsed_time := now - cs_ref_time cs\<rparr>;
     let k = upd_cpu cpu (\<lambda>_. cs\<lparr>cs_last_sample := sample, cs_ref_time := now\<rparr>) k;
     let vmask = cs_virt_counter_mask (kn_cpu_syswide k cpu);
     let k = (if vmask \<noteq> 0
       then let (k, sample) = mm_on_syswide_dump_virtual_counters mgr cpu vmask sample k
            in upd_cpu cpu (\<lambda>cs. cs\<lparr>cs_last_sample := sample\<rparr>) k
       else k);
     (cset, nxt) \<leftarrow> get_next_experiment_in_set (cs_config_set (kn_cpu_syswide k cpu));
     let k = upd_cpu cpu (\<lambda>cs. cs\<lparr>cs_config_set := cset\<rparr>) k;
     if nxt \<noteq> None \<and> cs_cur_config (kn_cpu_syswide k cpu) \<noteq> nxt then do {
       k \<leftarrow> clear_platform k cpu cur_coretype;
       restart_exp (upd_cpu cpu (\<lambda>cs. cs\<lparr>cs_cur_config := nxt\<rparr>) k) cpu nxt
     } else Some k
   }"

definition syswide_monitoring_enabled :: "'m kernel \<Rightarrow> bool" where
  "syswide_monitoring_enabled k \<longleftrightarrow> sw_monitor (kn_syswide_ctl k) > SYSWIDE_MONITORING_STARTING"

definition fire_syswide_timer :: "'m mm_manager_t \<Rightarrow> rdpmc \<Rightarrow> 'm kernel \<Rightarrow> 'm kernel option" where
  "fire_syswide_timer mgr rdpmc k =
     (if \<not> syswide_monitoring_enabled k then Some k
      else do {
        k \<leftarrow> foldM (\<lambda>cpu k. syswide_monitoring_sample_cpu mgr rdpmc k cpu) (cpus k) k;
        k \<leftarrow> lock_ctl k;
        let ctl = kn_syswide_ctl k;
        k \<leftarrow> (case sw_buffer ctl of
            Some a \<Rightarrow> if \<not> sw_paused ctl \<and> syswide_monitoring_enabled k then do {
                b \<leftarrow> kn_bufs k a;
                b \<leftarrow> foldM (\<lambda>cpu b. push_sample_nowakeup b (cs_last_sample (kn_cpu_syswide k cpu))) (cpus k) b;
                Some (k\<lparr>kn_bufs := (kn_bufs k)(a := Some (wake_up_monitor_program b))\<rparr>)
              } else Some k
          | None \<Rightarrow> Some k);
        let k = (if syswide_monitoring_enabled k
          then upd_ctl (\<lambda>c. c\<lparr>sw_timer := Some (kn_jiffies k + sw_timer_period c)\<rparr>) k else k);
        Some (unlock_ctl k)
      })"

section \<open>Data of the CPUs\<close>

definition zero_sample :: pmc_sample_t where
  "zero_sample = \<lparr>ps_type = PMC_TICK_SAMPLE, ps_coretype = 0, ps_exp_idx = 0, ps_pid = 0, ps_elapsed_time = 0,
     ps_pmc_mask = 0, ps_nr_counts = 0, ps_pmc_counts = replicate MAX_PERFORMANCE_COUNTERS 0, ps_virt_mask = 0,
     ps_nr_virt_counts = 0, ps_virtual_counts = replicate MAX_VIRTUAL_COUNTERS 0\<rparr>"

definition free_cpu_syswide_data :: "'m kernel \<Rightarrow> nat \<Rightarrow> 'm kernel option" where
  "free_cpu_syswide_data k cpu = do {
     (k, cset) \<leftarrow> free_experiment_set k (cs_config_set (kn_cpu_syswide k cpu));
     Some (upd_cpu cpu (\<lambda>cs. cs\<lparr>cs_config_set := cset\<rparr>) k)
   }"

definition reset_cpu_syswide_data :: "'m kernel \<Rightarrow> nat \<Rightarrow> bool \<Rightarrow> 'm kernel option" where
  "reset_cpu_syswide_data k cpu init = do {
     (k, cset) \<leftarrow> (if init then Some (k, init_core_experiment_set_t)
                   else free_experiment_set k (cs_config_set (kn_cpu_syswide k cpu)));
     Some (upd_cpu cpu (\<lambda>cs. cs\<lparr>cs_config_set := cset, cs_pmc_values := replicate MAX_LL_EXPS 0, cs_cur_config := None,
       cs_virt_counter_mask := 0, cs_last_sample := zero_sample\<rparr>) k)
   }"

definition setup_cpu_syswide_data ::
  "'m kernel \<Rightarrow> nat \<Rightarrow> core_experiment_set_t \<Rightarrow> u32 \<Rightarrow> ('m kernel \<times> int) option" where
  "setup_cpu_syswide_data k cpu cset virt_counter_mask = do {
     k \<leftarrow> reset_cpu_syswide_data k cpu False;
     (k, dst, r) \<leftarrow> clone_core_experiment_set_t k cset;
     let k = upd_cpu cpu (\<lambda>cs. cs\<lparr>cs_config_set := dst\<rparr>) k;
     if r \<noteq> 0 then Some (k, - 12)
     else do {
       cur \<leftarrow> get_cur_experiment_in_set dst;
       Some (upd_cpu cpu (\<lambda>cs. cs\<lparr>cs_cur_config := cur, cs_virt_counter_mask := virt_counter_mask\<rparr>) k, 0)
     }
   }"

definition syswide_monitoring_init :: "u64 \<Rightarrow> 'm kernel \<Rightarrow> 'm kernel option" where
  "syswide_monitoring_init hz k = do {
     let k = upd_ctl (\<lambda>c. c\<lparr>sw_monitor := SYSWIDE_MONITORING_DISABLED, sw_buffer := None, sw_lock := False, sw_timer := None,
       sw_timer_period := hz, sw_paused := False\<rparr>) k;
     foldM (\<lambda>cpu k. reset_cpu_syswide_data k cpu True) (cpus k) k
   }"

definition syswide_monitoring_cleanup :: "'m kernel \<Rightarrow> 'm kernel option" where
  "syswide_monitoring_cleanup k = foldM (\<lambda>cpu k. free_cpu_syswide_data k cpu) (cpus k) k"

section \<open>Context switches\<close>

text \<open>True: system-wide monitoring does not use the counters.\<close>

definition syswide_monitoring_switch_in :: "nat \<Rightarrow> bool" where
  "syswide_monitoring_switch_in cpu = False"

definition syswide_monitoring_switch_out :: "'m mm_manager_t \<Rightarrow> rdpmc \<Rightarrow> 'm kernel \<Rightarrow> nat \<Rightarrow> ('m kernel \<times> bool) option" where
  "syswide_monitoring_switch_out mgr rdpmc k cpu =
     (if \<not> syswide_monitoring_enabled k then Some (k, True) else refresh_counts_cpu mgr rdpmc k cpu)"

definition is_syswide_monitor :: "'m kernel \<Rightarrow> int \<Rightarrow> bool" where
  "is_syswide_monitor k pid \<longleftrightarrow> sw_monitor (kn_syswide_ctl k) = pid"

section \<open>Start and stop\<close>

definition syswide_monitoring_start_cpu :: "'m mm_manager_t \<Rightarrow> 'm kernel \<Rightarrow> nat \<Rightarrow> 'm kernel option" where
  "syswide_monitoring_start_cpu mgr k cpu = do {
     k \<leftarrow> (case cs_cur_config (kn_cpu_syswide k cpu) of
         None \<Rightarrow> Some k
       | Some a \<Rightarrow> do { k \<leftarrow> clear_exp_set k cpu a; restart_exp k cpu (Some a) });
     let k = upd_cpu cpu (\<lambda>cs. cs\<lparr>cs_ref_time := kn_ktime k\<rparr>) k;
     let vmask = cs_virt_counter_mask (kn_cpu_syswide k cpu);
     Some (if vmask \<noteq> 0 then snd (mm_on_syswide_start_monitor mgr (int cpu) vmask k) else k)
   }"

definition syswide_monitoring_stop_cpu :: "'m mm_manager_t \<Rightarrow> 'm kernel \<Rightarrow> nat \<Rightarrow> 'm kernel option" where
  "syswide_monitoring_stop_cpu mgr k cpu = do {
     k \<leftarrow> (case cs_cur_config (kn_cpu_syswide k cpu) of None \<Rightarrow> Some k | Some a \<Rightarrow> clear_exp_set k cpu a);
     let vmask = cs_virt_counter_mask (kn_cpu_syswide k cpu);
     Some (if vmask \<noteq> 0 then mm_on_syswide_stop_monitor mgr cpu vmask k else k)
   }"

text \<open>The loop over the CPUs of the start, left at the first error.\<close>

fun start_setup :: "pmon_prof_t \<Rightarrow> nat list \<Rightarrow> 'm kernel \<Rightarrow> ('m kernel \<times> int) option" where
  "start_setup prof [] k = Some (k, 0)"
| "start_setup prof (cpu # rest) k = do {
     coretype \<leftarrow> get_coretype_cpu k cpu;
     cset \<leftarrow> rd_int (pf_multiplex_cfg prof) coretype;
     experiment \<leftarrow> get_cur_experiment_in_set cset;
     ebs \<leftarrow> (case experiment of None \<Rightarrow> Some False | Some a \<Rightarrow> do { ce \<leftarrow> kn_exps k a; Some (ce_ebs_idx ce \<noteq> -1) });
     if ebs then Some (k, - 22)
     else do {
       (k, r) \<leftarrow> setup_cpu_syswide_data k cpu cset (pf_virt_counter_mask prof);
       if r \<noteq> 0 then Some (k, r) else start_setup prof rest k
     }
   }"

definition syswide_monitoring_start ::
  "'m mm_manager_t \<Rightarrow> 'm kernel \<Rightarrow> pmon_prof_t option \<Rightarrow> int \<Rightarrow> ('m kernel \<times> int) option" where
  "syswide_monitoring_start mgr k prof_opt pid = (case prof_opt of
     None \<Rightarrow> Some (k, - 1)
   | Some prof \<Rightarrow> do {
       k \<leftarrow> lock_ctl k;
       if sw_monitor (kn_syswide_ctl k) \<noteq> SYSWIDE_MONITORING_DISABLED then Some (unlock_ctl k, - 16)
       else do {
         let k = upd_ctl (\<lambda>c. c\<lparr>sw_timer_period := scast (pf_jiffies_interval prof),
           sw_monitor := SYSWIDE_MONITORING_STARTING\<rparr>) k;
         let (retval, k) = (if pf_virt_counter_mask prof \<noteq> 0
           then mm_on_syswide_start_monitor mgr (-1) (pf_virt_counter_mask prof) k else (0, k));
         if retval \<noteq> 0 then Some (unlock_ctl k, retval)
         else do {
           (k, retval) \<leftarrow> start_setup prof (cpus k) k;
           if retval \<noteq> 0 then Some (unlock_ctl k, retval)
           else do {
             let k = upd_ctl (\<lambda>c. c\<lparr>sw_buffer := pf_samples_buffer prof\<rparr>) k;
             a \<leftarrow> pf_samples_buffer prof;
             b \<leftarrow> kn_bufs k a;
             let k = k\<lparr>kn_bufs := (kn_bufs k)(a := Some (get_pmc_samples_buffer b))\<rparr>;
             let k = unlock_ctl k;
             k \<leftarrow> foldM (\<lambda>cpu k. syswide_monitoring_start_cpu mgr k cpu) (cpus k) k;
             k \<leftarrow> lock_ctl k;
             let k = upd_ctl (\<lambda>c. c\<lparr>sw_monitor := pid, sw_timer := Some (kn_jiffies k + sw_timer_period c), sw_paused := False\<rparr>) k;
             Some (unlock_ctl k, 0)
           }
         }
       }
     })"

text \<open>On the error path the code takes the lock again instead of releasing it.\<close>

definition syswide_monitoring_stop :: "'m mm_manager_t \<Rightarrow> u64 \<Rightarrow> 'm kernel \<Rightarrow> int \<Rightarrow> ('m kernel \<times> int) option" where
  "syswide_monitoring_stop mgr hz k pid = do {
     k \<leftarrow> lock_ctl k;
     if sw_monitor (kn_syswide_ctl k) \<noteq> pid then do {
       k \<leftarrow> lock_ctl k;
       Some (k, - 1)
     } else do {
       let k = unlock_ctl (upd_ctl (\<lambda>c. c\<lparr>sw_timer_period := hz, sw_monitor := SYSWIDE_MONITORING_STOPPING\<rparr>) k);
       let k = upd_ctl (\<lambda>c. c\<lparr>sw_timer := None\<rparr>) k;
       k \<leftarrow> foldM (\<lambda>cpu k. syswide_monitoring_stop_cpu mgr k cpu) (cpus k) k;
       k \<leftarrow> lock_ctl k;
       let k = upd_ctl (\<lambda>c. c\<lparr>sw_monitor := SYSWIDE_MONITORING_DISABLED\<rparr>) k;
       a \<leftarrow> sw_buffer (kn_syswide_ctl k);
       b \<leftarrow> kn_bufs k a;
       let k = k\<lparr>kn_bufs := (kn_bufs k)(a := put_pmc_samples_buffer b)\<rparr>;
       Some (unlock_ctl (upd_ctl (\<lambda>c. c\<lparr>sw_buffer := None\<rparr>) k), 0)
     }
   }"

definition syswide_monitoring_pause :: "'m kernel \<Rightarrow> ('m kernel \<times> int) option" where
  "syswide_monitoring_pause k = do {
     k \<leftarrow> lock_ctl k;
     Some (if \<not> syswide_monitoring_enabled k then (unlock_ctl k, - 22)
           else (unlock_ctl (upd_ctl (\<lambda>c. c\<lparr>sw_paused := True\<rparr>) k), 0))
   }"

definition syswide_monitoring_resume :: "'m kernel \<Rightarrow> ('m kernel \<times> int) option" where
  "syswide_monitoring_resume k = do {
     k \<leftarrow> lock_ctl k;
     Some (if \<not> syswide_monitoring_enabled k then (unlock_ctl k, - 22)
           else (unlock_ctl (upd_ctl (\<lambda>c. c\<lparr>sw_paused := False\<rparr>) k), 0))
   }"

section \<open>Ownership\<close>

lemma foldM_keeps:
  assumes "\<And>x s s'. f x s = Some s' \<Longrightarrow> g s' = g s" and "foldM f xs s = Some s'"
  shows "g s' = g s"
  using assms(2)
proof (induction xs arbitrary: s)
  case (Cons x xs)
  then obtain s1 where "f x s = Some s1" "foldM f xs s1 = Some s'" by (auto split: Option.bind_splits)
  then show ?case using Cons.IH assms(1) by metis
qed simp

lemma kmalloc_keeps: "kmalloc k = (p, k') \<Longrightarrow> kn_syswide_ctl k' = kn_syswide_ctl k"
  by (auto simp: kmalloc_def split: list.splits bool.splits)

lemma kfree_keeps: "kfree_exp k a = Some k' \<Longrightarrow> kn_syswide_ctl k' = kn_syswide_ctl k"
  by (auto simp: kfree_exp_def split: Option.bind_splits)

lemma free_entry_keeps: "free_entry i s = Some s' \<Longrightarrow> kn_syswide_ctl (fst s') = kn_syswide_ctl (fst s)"
  by (cases s) (auto simp: free_entry_def dest: kfree_keeps split: Option.bind_splits option.splits)

lemma drop_entry_keeps: "drop_entry i s = Some s' \<Longrightarrow> kn_syswide_ctl (fst s') = kn_syswide_ctl (fst s)"
  by (cases s) (auto simp: drop_entry_def dest: kfree_keeps split: Option.bind_splits option.splits)

lemma free_set_keeps:
  assumes "free_experiment_set k cset = Some (k', cset')"
  shows "kn_syswide_ctl k' = kn_syswide_ctl k"
proof -
  obtain c where "foldM free_entry [0..<nat (es_nr_exps cset)] (k, cset) = Some (k', c)"
    using assms by (cases "foldM free_entry [0..<nat (es_nr_exps cset)] (k, cset)") (auto simp: free_experiment_set_def)
  from foldM_keeps [where g = "\<lambda>s. kn_syswide_ctl (fst s)", OF free_entry_keeps this] show ?thesis by simp
qed

lemma clone_loop_keeps: "clone_loop k dst src js = Some (k', dst', ok) \<Longrightarrow> kn_syswide_ctl k' = kn_syswide_ctl k"
proof (induction js arbitrary: k dst)
  case (Cons i js)
  obtain e where e: "rd (es_exps src) i = Some e" using Cons.prems by (cases "rd (es_exps src) i") simp_all
  show ?case
  proof (cases e)
    case None
    then show ?thesis using Cons e by simp
  next
    case (Some a)
    obtain p k1 where km: "kmalloc k = (p, k1)" by (cases "kmalloc k")
    note k1 = kmalloc_keeps [OF km]
    show ?thesis
    proof (cases p)
      case None
      then show ?thesis using Cons.prems e Some km k1 by simp
    next
      case (Some b)
      obtain ce es where "kn_exps k1 a = Some ce" "wr (es_exps dst) i (Some b) = Some es"
        using Cons.prems e \<open>e = Some a\<close> km Some by (cases "kn_exps k1 a"; cases "wr (es_exps dst) i (Some b)") simp_all
      then show ?thesis using Cons.prems Cons.IH e \<open>e = Some a\<close> km Some k1 by (fastforce simp: set_exp_def)
    qed
  qed
qed simp

lemma clone_keeps:
  assumes "clone_core_experiment_set_t k src = Some (k', dst, r)"
  shows "kn_syswide_ctl k' = kn_syswide_ctl k"
proof -
  let ?l = "clone_loop k init_core_experiment_set_t src [0..<nat (es_nr_exps src)]"
  obtain k1 dst1 ok where l: "?l = Some (k1, dst1, ok)"
    using assms by (cases ?l) (auto simp: clone_core_experiment_set_t_def)
  note l1 = clone_loop_keeps [OF l]
  show ?thesis
  proof (cases ok)
    case True
    then show ?thesis using assms l l1 by (simp add: clone_core_experiment_set_t_def)
  next
    case False
    then obtain d where "foldM drop_entry [0..<nat (es_nr_exps dst1)] (k1, dst1) = Some (k', d)"
      using assms l by (cases "foldM drop_entry [0..<nat (es_nr_exps dst1)] (k1, dst1)") (auto simp: clone_core_experiment_set_t_def)
    from foldM_keeps [where g = "\<lambda>s. kn_syswide_ctl (fst s)", OF drop_entry_keeps this] show ?thesis using l1 by simp
  qed
qed

lemma setup_cpu_keeps: "setup_cpu_syswide_data k cpu cset v = Some (k', r) \<Longrightarrow> kn_syswide_ctl k' = kn_syswide_ctl k"
proof -
  assume a: "setup_cpu_syswide_data k cpu cset v = Some (k', r)"
  then obtain k1 where k1: "reset_cpu_syswide_data k cpu False = Some k1"
    by (cases "reset_cpu_syswide_data k cpu False") (simp_all add: setup_cpu_syswide_data_def)
  then obtain k2 dst q where k2: "clone_core_experiment_set_t k1 cset = Some (k2, dst, q)"
    using a by (cases "clone_core_experiment_set_t k1 cset") (auto simp: setup_cpu_syswide_data_def)
  have "kn_syswide_ctl k1 = kn_syswide_ctl k" using k1
    by (auto simp: reset_cpu_syswide_data_def upd_cpu_def dest: free_set_keeps split: Option.bind_splits)
  moreover have "kn_syswide_ctl k' = kn_syswide_ctl k2" using a k1 k2
    by (auto simp: setup_cpu_syswide_data_def upd_cpu_def Let_def split: Option.bind_splits if_splits)
  ultimately show ?thesis using clone_keeps [OF k2] by simp
qed

lemma start_setup_keeps: "start_setup prof cs k = Some (k', r) \<Longrightarrow> kn_syswide_ctl k' = kn_syswide_ctl k"
proof (induction cs arbitrary: k)
  case (Cons cpu cs)
  then obtain coretype cset e ebs where s: "get_coretype_cpu k cpu = Some coretype" "rd_int (pf_multiplex_cfg prof) coretype = Some cset"
    "get_cur_experiment_in_set cset = Some e"
    "(case e of None \<Rightarrow> Some False | Some a \<Rightarrow> do { ce \<leftarrow> kn_exps k a; Some (ce_ebs_idx ce \<noteq> -1) }) = Some ebs"
    by (auto split: Option.bind_splits)
  show ?case
  proof (cases ebs)
    case True
    then show ?thesis using Cons.prems s by simp
  next
    case False
    then obtain k1 q where k1: "setup_cpu_syswide_data k cpu cset (pf_virt_counter_mask prof) = Some (k1, q)"
      "(if q \<noteq> 0 then Some (k1, q) else start_setup prof cs k1) = Some (k', r)"
      using Cons.prems s by (auto split: Option.bind_splits)
    then show ?thesis using setup_cpu_keeps [OF k1(1)] Cons.IH [of k1] by (cases "q = 0") simp_all
  qed
qed simp

lemma busy:
  assumes "\<not> sw_lock (kn_syswide_ctl k)" and "sw_monitor (kn_syswide_ctl k) \<noteq> SYSWIDE_MONITORING_DISABLED"
  shows "syswide_monitoring_start mgr k (Some prof) pid = Some (k, - 16)"
  using assms by (simp add: syswide_monitoring_start_def lock_ctl_def unlock_ctl_def upd_ctl_def)

lemma not_the_monitor:
  assumes "sw_monitor (kn_syswide_ctl k) \<noteq> pid"
  shows "syswide_monitoring_stop mgr hz k pid = None"
  using assms by (simp add: syswide_monitoring_stop_def lock_ctl_def upd_ctl_def)

section \<open>Properties\<close>

text \<open>The callback of a monitoring module leaves the control block of the mode alone, which is private to \<open>syswide.c\<close>.\<close>

definition keeps_ctl :: "'m mm_manager_t \<Rightarrow> pmon_prof_t \<Rightarrow> bool" where
  "keeps_ctl mgr prof \<longleftrightarrow>
     (\<forall>k. kn_syswide_ctl (snd (mm_on_syswide_start_monitor mgr (-1) (pf_virt_counter_mask prof) k)) = kn_syswide_ctl k)"

text \<open>C40. A start that fails blocks the system-wide mode for good. When it fails after it took ownership (the module has no
  virtual counters for the mode, a configuration uses event-based sampling, or there is no memory), the mode stays
  \<open>STARTING\<close>: every later start by any process is refused with \<open>-EBUSY\<close> and changes nothing, the mode is not enabled, and a
  stop by any process never returns, because on that error path the code takes the lock that it holds. The monitoring module,
  if the process uses virtual counters, is taken not to write the control block of the mode.\<close>

theorem failed_start_blocks_syswide:
  assumes "sw_monitor (kn_syswide_ctl k) = SYSWIDE_MONITORING_DISABLED" and "\<not> sw_lock (kn_syswide_ctl k)"
    and "pf_virt_counter_mask prof = 0 \<or> keeps_ctl mgr prof"
    and "syswide_monitoring_start mgr k (Some prof) pid = Some (k', r)" and "r \<noteq> 0"
  shows "sw_monitor (kn_syswide_ctl k') = SYSWIDE_MONITORING_STARTING \<and> \<not> syswide_monitoring_enabled k' \<and>
    syswide_monitoring_start mgr' k' (Some prof') pid' = Some (k', - 16) \<and>
    syswide_monitoring_stop mgr' hz k' (int p) = None"
proof -
  let ?k = "upd_ctl (\<lambda>c. c\<lparr>sw_lock := True, sw_timer_period := scast (pf_jiffies_interval prof),
     sw_monitor := SYSWIDE_MONITORING_STARTING\<rparr>) k"
  obtain ret kv where v: "(ret, kv) = (if pf_virt_counter_mask prof \<noteq> 0
    then mm_on_syswide_start_monitor mgr (-1) (pf_virt_counter_mask prof) ?k else (0, ?k))" by (metis surj_pair)
  then have kv: "kn_syswide_ctl kv = kn_syswide_ctl ?k"
    using assms(3) unfolding keeps_ctl_def by (metis snd_conv)
  have b: "syswide_monitoring_start mgr k (Some prof) pid = (if ret \<noteq> 0 then Some (unlock_ctl kv, ret) else do {
      (k, retval) \<leftarrow> start_setup prof (cpus kv) kv;
      if retval \<noteq> 0 then Some (unlock_ctl k, retval) else do {
        let k = upd_ctl (\<lambda>c. c\<lparr>sw_buffer := pf_samples_buffer prof\<rparr>) k;
        a \<leftarrow> pf_samples_buffer prof;
        b \<leftarrow> kn_bufs k a;
        let k = k\<lparr>kn_bufs := (kn_bufs k)(a := Some (get_pmc_samples_buffer b))\<rparr>;
        let k = unlock_ctl k;
        k \<leftarrow> foldM (\<lambda>cpu k. syswide_monitoring_start_cpu mgr k cpu) (cpus k) k;
        k \<leftarrow> lock_ctl k;
        let k = upd_ctl (\<lambda>c. c\<lparr>sw_monitor := pid, sw_timer := Some (kn_jiffies k + sw_timer_period c), sw_paused := False\<rparr>) k;
        Some (unlock_ctl k, 0) } })"
    using assms(1,2) by (simp add: syswide_monitoring_start_def lock_ctl_def upd_ctl_def v [unfolded upd_ctl_def, symmetric, simplified] Let_def)
  obtain k1 where k1: "k' = unlock_ctl k1" "kn_syswide_ctl k1 = kn_syswide_ctl kv"
  proof (cases "ret = 0")
    case True
    then obtain k1 where "start_setup prof (cpus kv) kv = Some (k1, r)" "k' = unlock_ctl k1"
      using assms(4,5) unfolding b by (auto simp: Let_def split: Option.bind_splits if_splits)
    then show ?thesis using that start_setup_keeps by blast
  next
    case False
    then show ?thesis using assms(4) that [of kv] unfolding b by simp
  qed
  then have c: "sw_monitor (kn_syswide_ctl k') = SYSWIDE_MONITORING_STARTING" "\<not> sw_lock (kn_syswide_ctl k')"
    using kv by (simp_all add: unlock_ctl_def upd_ctl_def)
  moreover have "syswide_monitoring_start mgr' k' (Some prof') pid' = Some (k', - 16)"
    by (rule busy) (simp_all add: c SYSWIDE_MONITORING_STARTING_def SYSWIDE_MONITORING_DISABLED_def)
  moreover have "syswide_monitoring_stop mgr' hz k' (int p) = None"
    by (rule not_the_monitor) (simp add: c SYSWIDE_MONITORING_STARTING_def)
  ultimately show ?thesis by (simp add: syswide_monitoring_enabled_def SYSWIDE_MONITORING_STARTING_def)
qed

definition no_memory :: "nat kernel" where
  "no_memory = (kernel_with 0)\<lparr>kn_oom := [True]\<rparr>"

lemma start_without_memory:
  "\<exists>k'. syswide_monitoring_start two_modules no_memory (Some a_prof) 50 = Some (k', - 12)"
  by (simp add: syswide_monitoring_start_def no_memory_def kernel_with_def lock_ctl_def unlock_ctl_def upd_ctl_def
      idle_syswide_ctl_def SYSWIDE_MONITORING_DISABLED_def a_prof_def cpus_def upt_rec get_coretype_cpu_def rd_def rd_int_def
      a_set_def get_cur_experiment_in_set_def init_core_experiment_t_def setup_cpu_syswide_data_def reset_cpu_syswide_data_def
      idle_cpu_syswide_def init_core_experiment_set_t_def free_experiment_set_def upd_cpu_def clone_core_experiment_set_t_def
      kmalloc_def Let_def)

theorem failed_start_blocks_syswide_witness:
  "\<exists>k'. syswide_monitoring_start two_modules no_memory (Some a_prof) 50 = Some (k', - 12) \<and>
    syswide_monitoring_start two_modules k' (Some a_prof) 51 = Some (k', - 16) \<and>
    syswide_monitoring_stop two_modules 250 k' (int 50) = None"
proof -
  obtain k' where k': "syswide_monitoring_start two_modules no_memory (Some a_prof) 50 = Some (k', - 12)"
    using start_without_memory by blast
  have "sw_monitor (kn_syswide_ctl no_memory) = SYSWIDE_MONITORING_DISABLED" "\<not> sw_lock (kn_syswide_ctl no_memory)"
    "pf_virt_counter_mask a_prof = 0 \<or> keeps_ctl two_modules a_prof"
    by (simp_all add: no_memory_def kernel_with_def idle_syswide_ctl_def SYSWIDE_MONITORING_DISABLED_def a_prof_def)
  from failed_start_blocks_syswide [OF this k', of two_modules a_prof 51 250 50] k' show ?thesis by auto
qed

end
