(* ===== verification/Monitor.thy ===== *)
theory Monitor
  imports SysWide
begin

text \<open>
  Monitoring of threads (\<^verbatim>\<open>mchw_core.c\<close>, the build that programs the counters itself): what the scheduler's
  hooks, the timer, the overflow interrupt and the control files do with the counters and the samples of a thread. The
  state of a handler is the kernel and the thread; \<open>here\<close> is the CPU that runs the handler, pointers to event
  configurations are addresses, a NULL dereference or an access to freed memory is \<open>None\<close>. The locks of a thread
  and of its buffer are not in the model: a handler is one step. The fields of a sample that the code leaves as they
  were on its stack (the virtual counts, the elapsed time of a migration) are zero.
\<close>

datatype pmc_sampling_event_t = PMC_TICK_EVT | PMC_TIMER_TICK_EVT | PMC_SAVE_EVT | PMC_MIGRATION_EVT | PMC_SELF_EVT

section \<open>Reading the counters\<close>

text \<open>One event of a configuration: its value since the last reading, with its overflows.\<close>

definition count_event ::
  "rdpmc \<Rightarrow> pmu_props_t \<Rightarrow> nat \<Rightarrow> msr_file \<Rightarrow> core_experiment_t \<Rightarrow> (msr_file \<times> core_experiment_t \<times> u64) option" where
  "count_event rdpmc props i m ce = do {
     lle \<leftarrow> rd (ce_array ce) i;
     let (m, lle) = gather_event rdpmc m lle;
     arr \<leftarrow> wr (ce_array ce) i lle;
     let last_value = get_last_value_hw_event (ll_event lle);
     novf \<leftarrow> rd (ce_nr_overflows ce) i;
     if novf \<noteq> 0 then do {
       ovs \<leftarrow> wr (ce_nr_overflows ce) i 0;
       Some (m, ce\<lparr>ce_array := arr, ce_nr_overflows := ovs\<rparr>, last_value + ucast novf * (pmc_width_mask props + 1))
     } else Some (m, ce\<lparr>ce_array := arr\<rparr>, last_value)
   }"

text \<open>All the events: \<open>f\<close> puts the value of an event together with what its entry of the array had.\<close>

definition count_all ::
  "rdpmc \<Rightarrow> pmu_props_t \<Rightarrow> (u64 \<Rightarrow> u64 \<Rightarrow> u64) \<Rightarrow> msr_file \<Rightarrow> core_experiment_t \<Rightarrow> u64 list \<Rightarrow>
   (msr_file \<times> core_experiment_t \<times> u64 list) option" where
  "count_all rdpmc props f m ce vals =
     foldM (\<lambda>i (m, ce, vals). do {
         (m, ce, last_value) \<leftarrow> count_event rdpmc props i m ce;
         v \<leftarrow> rd vals i;
         vals \<leftarrow> wr vals i (f v last_value);
         Some (m, ce, vals)
       }) [0..<length (ce_array ce)] (m, ce, vals)"

text \<open>The result is true when the counters were programmed for the first time and nothing was read.\<close>

definition do_count_mc_experiment ::
  "rdpmc \<Rightarrow> 'm kernel \<Rightarrow> nat \<Rightarrow> pmon_prof_t \<Rightarrow> nat \<Rightarrow> bool \<Rightarrow> ('m kernel \<times> pmon_prof_t \<times> bool) option" where
  "do_count_mc_experiment rdpmc k here prof a update_acum = do {
     props \<leftarrow> get_pmu_props_cpu k here;
     ce \<leftarrow> kn_exps k a;
     if ce_need_setup ce then do {
       k \<leftarrow> restart_exp k here (Some a);
       Some (k, prof, True)
     } else do {
       (m, ce, vals) \<leftarrow> count_all rdpmc props (\<lambda>v last_value. if update_acum then v + last_value else v)
         (kn_msrs k here) ce (pf_pmc_values prof);
       Some (set_exp (set_msrs k here (reset_overflow_status m)) a ce, prof\<lparr>pf_pmc_values := vals\<rparr>, False)
     }
   }"

definition do_count_mc_experiment_buffer ::
  "rdpmc \<Rightarrow> 'm kernel \<Rightarrow> nat \<Rightarrow> pmu_props_t \<Rightarrow> nat \<Rightarrow> u64 list \<Rightarrow> ('m kernel \<times> u64 list \<times> bool) option" where
  "do_count_mc_experiment_buffer rdpmc k here props a samples = do {
     ce \<leftarrow> kn_exps k a;
     if ce_need_setup ce then do {
       k \<leftarrow> restart_exp k here (Some a);
       Some (k, samples, True)
     } else do {
       (m, ce, vals) \<leftarrow> count_all rdpmc props (\<lambda>_ last_value. last_value) (kn_msrs k here) ce samples;
       Some (set_exp (set_msrs k here (reset_overflow_status m)) a ce, vals, False)
     }
   }"

section \<open>Samples\<close>

definition init_sample ::
  "sample_type_t \<Rightarrow> int \<Rightarrow> core_experiment_t \<Rightarrow> u32 \<Rightarrow> u64 \<Rightarrow> u64 list \<Rightarrow> pmc_sample_t" where
  "init_sample type coretype ce pid elapsed counts =
     zero_sample\<lparr>ps_type := type, ps_coretype := word_of_int coretype, ps_exp_idx := word_of_int (ce_exp_idx ce),
       ps_pmc_mask := ce_used_pmcs ce, ps_nr_counts := of_nat (length (ce_array ce)), ps_pid := pid,
       ps_elapsed_time := elapsed, ps_pmc_counts := counts\<rparr>"

definition push_sample_cbuffer :: "'m kernel \<Rightarrow> pmon_prof_t \<Rightarrow> pmc_sample_t \<Rightarrow> 'm kernel option" where
  "push_sample_cbuffer k prof sample = (case pf_samples_buffer prof of
     None \<Rightarrow> Some k
   | Some a \<Rightarrow> do {
       b \<leftarrow> kn_bufs k a;
       b \<leftarrow> push_sample b sample;
       Some (k\<lparr>kn_bufs := (kn_bufs k)(a := Some b)\<rparr>)
     })"

text \<open>The period of the counter that samples, from its reset value.\<close>

definition ebs_period :: "pmu_props_t \<Rightarrow> core_experiment_t \<Rightarrow> int \<Rightarrow> u64 option" where
  "ebs_period props ce ebs_idx = do {
     lle \<leftarrow> rd_int (ce_array ce) ebs_idx;
     Some ((- get_reset_value_hw_event (ll_event lle)) AND pmc_width_mask props)
   }"

definition upd_set :: "pmon_prof_t \<Rightarrow> int \<Rightarrow> (core_experiment_set_t \<Rightarrow> (core_experiment_set_t \<times> nat option) option) \<Rightarrow>
  (pmon_prof_t \<times> nat option) option" where
  "upd_set prof coretype f = do {
     cset \<leftarrow> rd_int (pf_multiplex_cfg prof) coretype;
     (cset, e) \<leftarrow> f cset;
     Some (prof\<lparr>pf_multiplex_cfg := (pf_multiplex_cfg prof)[nat coretype := cset]\<rparr>, e)
   }"

text \<open>Putting another configuration in use: the counters are cleared and programmed for it.\<close>

definition switch_config :: "'m kernel \<Rightarrow> nat \<Rightarrow> pmon_prof_t \<Rightarrow> int \<Rightarrow> nat option \<Rightarrow> ('m kernel \<times> pmon_prof_t) option" where
  "switch_config k here prof coretype nxt = do {
     k \<leftarrow> clear_platform k here coretype;
     k \<leftarrow> restart_exp k here nxt;
     Some (k, prof\<lparr>pf_pmcs_config := nxt\<rparr>)
   }"

text \<open>\<open>is_cur\<close>: the thread is the one that runs here.\<close>

definition sample_counters_user_tbs ::
  "'m mm_manager_t \<Rightarrow> rdpmc \<Rightarrow> nat \<Rightarrow> bool \<Rightarrow> 'm kernel \<Rightarrow> pmon_prof_t \<Rightarrow> nat \<Rightarrow> pmc_sampling_event_t \<Rightarrow> nat \<Rightarrow>
   ('m kernel \<times> pmon_prof_t) option" where
  "sample_counters_user_tbs mgr rdpmc here is_cur k prof core_exp event cpu = do {
     cur_coretype \<leftarrow> get_coretype_cpu k cpu;
     props \<leftarrow> get_pmu_props_cpu k cpu;
     let no_cur = (event = PMC_TIMER_TICK_EVT \<and> \<not> is_cur);
     let saved = (event = PMC_SAVE_EVT \<or> event = PMC_SELF_EVT);
     let flags = MM_TICK OR (if no_cur then MM_NO_CUR_CPU else 0) OR (if saved then MM_SAVE else 0);
     (k, prof, _) \<leftarrow> (if saved then do_count_mc_experiment rdpmc k here prof core_exp True else Some (k, prof, False));
     if event = PMC_MIGRATION_EVT \<or> event = PMC_SELF_EVT \<or> event = PMC_TIMER_TICK_EVT \<or>
        (sint (pf_jiffies_interval prof) > 0 \<and> pf_jiffies_timeout prof \<le> kn_jiffies k)
     then do {
       (k, prof, _) \<leftarrow> (if event = PMC_TICK_EVT \<or> (event = PMC_TIMER_TICK_EVT \<and> is_cur)
         then do_count_mc_experiment rdpmc k here prof core_exp True else Some (k, prof, False));
       let prof = prof\<lparr>pf_jiffies_timeout := kn_jiffies k + scast (pf_jiffies_interval prof)\<rparr>;
       let prof = (if pf_mode prof = TBS_USER_MODE \<and> pf_enabled prof
         then prof\<lparr>pf_timer := Some (pf_jiffies_timeout prof)\<rparr> else prof);
       ce \<leftarrow> kn_exps k core_exp;
       let (type, ebs_idx) = (case event of
           PMC_TIMER_TICK_EVT \<Rightarrow> (PMC_TICK_SAMPLE, -1)
         | PMC_TICK_EVT \<Rightarrow> (PMC_TICK_SAMPLE, -1)
         | PMC_SAVE_EVT \<Rightarrow> (PMC_TICK_SAMPLE, -1)
         | PMC_MIGRATION_EVT \<Rightarrow> (PMC_MIGRATION_SAMPLE, ce_ebs_idx ce)
         | PMC_SELF_EVT \<Rightarrow> (PMC_SELF_SAMPLE, -1));
       let now = kn_ktime k;
       let elapsed = now - pf_ref_time prof;
       _ \<leftarrow> (if ebs_idx \<noteq> -1 then ebs_period props ce ebs_idx else Some 0);
       let sample = init_sample type cur_coretype ce (pf_pid prof) elapsed (copy_counts (pf_pmc_values prof));
       let prof = prof\<lparr>pf_ref_time := now, pf_pmc_values := replicate MAX_LL_EXPS 0\<rparr>;
       let (k, prof, sample, _) = mm_on_new_sample mgr cpu sample flags prof k;
       k \<leftarrow> push_sample_cbuffer k prof sample;
       k \<leftarrow> (if event = PMC_SAVE_EVT then stop_exp k here core_exp else Some k);
       (prof, nxt) \<leftarrow> upd_set prof cur_coretype get_next_experiment_in_set;
       if nxt \<noteq> None \<and> pf_pmcs_config prof \<noteq> nxt
       then (if no_cur then Some (k, prof\<lparr>pf_pmcs_config := nxt, pf_flags := pf_flags prof OR PMC_PREPARE_MULTIPLEXING\<rparr>)
             else switch_config k here prof cur_coretype nxt)
       else Some (k, prof)
     } else Some (k, prof)
   }"

definition sample_counters_sched_tbs ::
  "'m mm_manager_t \<Rightarrow> rdpmc \<Rightarrow> nat \<Rightarrow> 'm kernel \<Rightarrow> pmon_prof_t \<Rightarrow> nat \<Rightarrow> pmc_sampling_event_t \<Rightarrow> nat \<Rightarrow>
   ('m kernel \<times> pmon_prof_t) option" where
  "sample_counters_sched_tbs mgr rdpmc here k prof core_exp event cpu = do {
     cur_coretype \<leftarrow> get_coretype_cpu k cpu;
     props \<leftarrow> get_pmu_props_cpu k cpu;
     (case event of
        PMC_TICK_EVT \<Rightarrow>
          if pf_pmc_ticks_counter prof \<ge> pf_nticks_sampling_period prof - 1 then do {
            (k, prof, _) \<leftarrow> do_count_mc_experiment rdpmc k here prof core_exp True;
            ce \<leftarrow> kn_exps k core_exp;
            let now = kn_ktime k;
            let sample = init_sample PMC_TICK_SAMPLE cur_coretype ce (pf_pid prof) (now - pf_ref_time prof)
              (copy_counts (pf_pmc_values prof));
            let prof = prof\<lparr>pf_samples_counter := pf_samples_counter prof + 1, pf_pmc_ticks_counter := 0,
              pf_ref_time := now, pf_pmc_values := replicate MAX_LL_EXPS 0\<rparr>;
            let (k, prof, sample, _) = mm_on_new_sample mgr cpu sample MM_TICK prof k;
            k \<leftarrow> push_sample_cbuffer k prof sample;
            Some (k, prof)
          } else Some (k, prof\<lparr>pf_pmc_ticks_counter := pf_pmc_ticks_counter prof + 1\<rparr>)
      | PMC_MIGRATION_EVT \<Rightarrow> do {
          ce \<leftarrow> kn_exps k core_exp;
          let counts = copy_counts (pf_pmc_values prof);
          counts \<leftarrow> (if ce_ebs_idx ce \<noteq> -1 then do {
              p \<leftarrow> ebs_period props ce (ce_ebs_idx ce);
              v \<leftarrow> rd_int counts (ce_ebs_idx ce);
              wr counts (nat (ce_ebs_idx ce)) (v + p)
            } else Some counts);
          let sample = init_sample PMC_MIGRATION_SAMPLE cur_coretype ce (pf_pid prof) 0 counts;
          let prof = prof\<lparr>pf_pmc_values := replicate MAX_LL_EXPS 0\<rparr>;
          let (k, prof, sample, _) = mm_on_new_sample mgr cpu sample MM_MIGRATION prof k;
          k \<leftarrow> push_sample_cbuffer k prof sample;
          Some (k, prof\<lparr>pf_pmc_ticks_counter := 0\<rparr>)
        }
      | _ \<Rightarrow> Some (k, prof))
   }"

section \<open>Context switches\<close>

definition current_config :: "'m kernel \<Rightarrow> pmon_prof_t \<Rightarrow> nat \<Rightarrow> nat" where
  "current_config k prof cpu = (case pf_pmcs_config prof of Some a \<Rightarrow> a | None \<Rightarrow> kn_cpu_exp k cpu)"

definition mod_save_callback_gen ::
  "'m mm_manager_t \<Rightarrow> rdpmc \<Rightarrow> 'm kernel \<Rightarrow> pmon_prof_t \<Rightarrow> nat \<Rightarrow> ('m kernel \<times> pmon_prof_t) option" where
  "mod_save_callback_gen mgr rdpmc k prof cpu = do {
     (k, busy) \<leftarrow> (if syswide_monitoring_enabled k then do {
         (k, free) \<leftarrow> syswide_monitoring_switch_out mgr rdpmc k cpu;
         Some (k, \<not> free)
       } else Some (k, False));
     if busy \<or> \<not> pf_enabled prof then Some (k, prof)
     else do {
       let core_exp = current_config k prof cpu;
       (k, prof) \<leftarrow> (case pf_mode prof of
           TBS_SCHED_MODE \<Rightarrow> do {
             (k, prof, _) \<leftarrow> do_count_mc_experiment rdpmc k cpu prof core_exp True;
             k \<leftarrow> stop_exp k cpu core_exp;
             Some (k, prof)
           }
         | TBS_USER_MODE \<Rightarrow> sample_counters_user_tbs mgr rdpmc cpu True k prof core_exp PMC_SAVE_EVT cpu
         | _ \<Rightarrow> do {
             ce \<leftarrow> kn_exps k core_exp;
             k \<leftarrow> (if \<not> ce_need_setup ce then save_exp rdpmc k cpu core_exp else Some k);
             k \<leftarrow> stop_exp k cpu core_exp;
             Some (k, prof)
           });
       let (k, prof) = mm_on_switch_out mgr prof k;
       Some (k, if pf_last_cpu prof \<noteq> -1 then prof\<lparr>pf_last_cpu := int cpu\<rparr> else prof)
     }
   }"

definition refresh_event_multiplexing_cpu ::
  "'m kernel \<Rightarrow> nat \<Rightarrow> pmon_prof_t \<Rightarrow> int \<Rightarrow> ('m kernel \<times> pmon_prof_t \<times> bool) option" where
  "refresh_event_multiplexing_cpu k here prof cur_coretype =
     (if pf_flags prof AND PMC_PREPARE_MULTIPLEXING \<noteq> 0 then do {
        k \<leftarrow> clear_platform k here cur_coretype;
        k \<leftarrow> restart_exp k here (pf_pmcs_config prof);
        Some (k, prof\<lparr>pf_flags := pf_flags prof AND NOT PMC_PREPARE_MULTIPLEXING\<rparr>, True)
      } else Some (k, prof, False))"

text \<open>A migration to another core type ends the sample and starts with the first configuration of the core type.\<close>

definition change_coretype ::
  "'m kernel \<Rightarrow> nat \<Rightarrow> pmon_prof_t \<Rightarrow> int \<Rightarrow> int \<Rightarrow> ('m kernel \<times> pmon_prof_t) option" where
  "change_coretype k here prof prev_coretype this_coretype = do {
     (prof, nxt) \<leftarrow> upd_set prof this_coretype rewind_experiments_in_set;
     if (nxt \<noteq> None \<and> pf_pmcs_config prof \<noteq> nxt) \<or> prev_coretype = -1
     then switch_config k here prof this_coretype nxt
     else Some (k, prof)
   }"

definition reprogram :: "'m kernel \<Rightarrow> nat \<Rightarrow> nat \<Rightarrow> 'm kernel option" where
  "reprogram k here core_exp = do { k \<leftarrow> clear_exp_set k here core_exp; restart_exp k here (Some core_exp) }"

definition mod_restore_callback_gen ::
  "'m mm_manager_t \<Rightarrow> rdpmc \<Rightarrow> 'm kernel \<Rightarrow> pmon_prof_t \<Rightarrow> nat \<Rightarrow> ('m kernel \<times> pmon_prof_t) option" where
  "mod_restore_callback_gen mgr rdpmc k prof cpu =
     (if (syswide_monitoring_enabled k \<and> \<not> syswide_monitoring_switch_in cpu) \<or> \<not> pf_enabled prof then Some (k, prof)
      else do {
        let core_exp = current_config k prof cpu;
        let (k, prof) = mm_on_switch_in mgr prof k;
        let migration = (pf_last_cpu prof \<noteq> int cpu);
        (prev_coretype, this_coretype) \<leftarrow>
          (if migration then do {
             p \<leftarrow> (if pf_last_cpu prof = -1 then Some (-1)
                   else if pf_last_cpu prof < 0 then None else get_coretype_cpu k (nat (pf_last_cpu prof)));
             t \<leftarrow> get_coretype_cpu k cpu;
             Some (p, t)
           } else Some (0, 0));
        let moved = (migration \<and> pf_pmcs_config prof \<noteq> None \<and> prev_coretype \<noteq> this_coretype);
        let first = (pf_last_cpu prof = -1);
        let old_cpu = nat (pf_last_cpu prof);
        (k, prof) \<leftarrow> (case pf_mode prof of
            TBS_SCHED_MODE \<Rightarrow> do {
              (k, prof) \<leftarrow>
                (if moved then do {
                   (k, prof) \<leftarrow> (if \<not> first
                     then sample_counters_sched_tbs mgr rdpmc cpu k prof core_exp PMC_MIGRATION_EVT old_cpu else Some (k, prof));
                   change_coretype k cpu prof prev_coretype this_coretype
                 } else do {
                   (k, prof, done) \<leftarrow> refresh_event_multiplexing_cpu k cpu prof this_coretype;
                   k \<leftarrow> (if \<not> done then reprogram k cpu core_exp else Some k);
                   Some (k, prof)
                 });
              Some (if migration then mm_on_migrate mgr (pf_last_cpu prof) (int cpu) prof k else (k, prof))
            }
          | TBS_USER_MODE \<Rightarrow>
              (if moved then do {
                 (k, prof) \<leftarrow> (if \<not> first
                   then sample_counters_user_tbs mgr rdpmc cpu True k prof core_exp PMC_MIGRATION_EVT old_cpu else Some (k, prof));
                 change_coretype k cpu prof prev_coretype this_coretype
               } else do {
                 k \<leftarrow> reprogram k cpu core_exp;
                 Some (k, prof)
               })
          | _ \<Rightarrow> do {
              (k, prof) \<leftarrow>
                (if moved then do {
                   (k, prof) \<leftarrow> (if first then Some (k, prof)
                     else if pf_mode prof = EBS_MODE
                     then sample_counters_user_tbs mgr rdpmc cpu True k prof core_exp PMC_MIGRATION_EVT old_cpu
                     else sample_counters_sched_tbs mgr rdpmc cpu k prof core_exp PMC_MIGRATION_EVT old_cpu);
                   change_coretype k cpu prof prev_coretype this_coretype
                 } else do {
                   k \<leftarrow> restore_exp k cpu core_exp;
                   Some (k, prof)
                 });
              Some (if pf_mode prof = EBS_SCHED_MODE \<and> migration
                    then mm_on_migrate mgr (pf_last_cpu prof) (int cpu) prof k else (k, prof))
            });
        Some (k, prof\<lparr>pf_context_switch_timestamp := kn_jiffies k, pf_last_cpu := int cpu\<rparr>)
      })"

definition mod_tbs_tick ::
  "'m mm_manager_t \<Rightarrow> rdpmc \<Rightarrow> 'm kernel \<Rightarrow> pmon_prof_t \<Rightarrow> nat \<Rightarrow> ('m kernel \<times> pmon_prof_t) option" where
  "mod_tbs_tick mgr rdpmc k prof cpu = do {
     cur_coretype \<leftarrow> get_coretype_cpu k cpu;
     if \<not> pf_enabled prof then Some (k, prof)
     else do {
       let core_exp = current_config k prof cpu;
       let (k, prof) = mm_on_tick mgr cpu prof k;
       (case pf_mode prof of
          TBS_SCHED_MODE \<Rightarrow> sample_counters_sched_tbs mgr rdpmc cpu k prof core_exp PMC_TICK_EVT cpu
        | TBS_USER_MODE \<Rightarrow> do {
            (k, prof, _) \<leftarrow> refresh_event_multiplexing_cpu k cpu prof cur_coretype;
            Some (k, prof)
          }
        | _ \<Rightarrow> Some (k, prof))
     }
   }"

section \<open>Timer\<close>

definition sample_counters_user_tbs_task ::
  "'m mm_manager_t \<Rightarrow> rdpmc \<Rightarrow> nat \<Rightarrow> bool \<Rightarrow> 'm kernel \<Rightarrow> pmon_prof_t \<Rightarrow> ('m kernel \<times> pmon_prof_t) option" where
  "sample_counters_user_tbs_task mgr rdpmc here is_cur k prof =
     (case pf_pmcs_config prof of
        Some a \<Rightarrow>
          if pf_enabled prof \<and> pf_jiffies_timeout prof \<le> kn_jiffies k
          then sample_counters_user_tbs mgr rdpmc here is_cur k prof a PMC_TIMER_TICK_EVT here
          else Some (k, prof)
      | None \<Rightarrow> Some (k, prof))"

text \<open>Where the thread is at each look at it: its CPU (\<open>-1\<close> if not known), if it is running there.\<close>

definition pmct_remote_function ::
  "'m mm_manager_t \<Rightarrow> rdpmc \<Rightarrow> nat \<Rightarrow> int \<times> bool \<times> bool \<Rightarrow> 'm kernel \<Rightarrow> pmon_prof_t \<Rightarrow> ('m kernel \<times> pmon_prof_t \<times> bool) option" where
  "pmct_remote_function mgr rdpmc here where_is k prof = (case where_is of (cpu_task, running, is_cur) \<Rightarrow>
     if cpu_task = -1 \<or> \<not> running \<or> is_cur \<or> cpu_task = int here then do {
       (k, prof) \<leftarrow> sample_counters_user_tbs_task mgr rdpmc here is_cur k prof;
       Some (k, prof, True)
     } else Some (k, prof, False))"

fun timer_tries ::
  "'m mm_manager_t \<Rightarrow> rdpmc \<Rightarrow> nat \<Rightarrow> (int \<times> bool \<times> bool) list \<Rightarrow> 'm kernel \<Rightarrow> pmon_prof_t \<Rightarrow> ('m kernel \<times> pmon_prof_t) option" where
  "timer_tries mgr rdpmc cpu [] k prof = Some (k, prof)"
| "timer_tries mgr rdpmc cpu (w # ws) k prof = do {
     (k, prof, ok) \<leftarrow> pmct_remote_function mgr rdpmc cpu w k prof;
     if ok then Some (k, prof) else timer_tries mgr rdpmc cpu ws k prof
   }"

definition tbs_mode_fire_timer ::
  "'m mm_manager_t \<Rightarrow> rdpmc \<Rightarrow> nat \<Rightarrow> int \<times> bool \<times> bool \<Rightarrow> (int \<times> bool \<times> bool) list \<Rightarrow> 'm kernel \<Rightarrow> pmon_prof_t \<Rightarrow>
   ('m kernel \<times> pmon_prof_t) option" where
  "tbs_mode_fire_timer mgr rdpmc here where_is looks k prof = (case where_is of (cpu_task, running, is_cur) \<Rightarrow>
     if cpu_task = -1 \<or> \<not> running then sample_counters_user_tbs_task mgr rdpmc here is_cur k prof
     else if cpu_task < 0 then None
     else timer_tries mgr rdpmc (nat cpu_task) (take 3 looks) k prof)"

section \<open>Overflow interrupt\<close>

text \<open>The counters other than the one that samples get their overflow counted; the result is not zero when the
  sampling counter overflowed. An index stored as \<open>-1\<close> is the all-ones word.\<close>

definition update_overflow_status_non_ebs_pmcs :: "core_experiment_t \<Rightarrow> u32 \<Rightarrow> (core_experiment_t \<times> u32) option" where
  "update_overflow_status_non_ebs_pmcs exp overflow_mask = do {
     phys \<leftarrow> (if ce_ebs_idx exp = -1 then Some (-1) else rd_int (ce_log_to_phys exp) (ce_ebs_idx exp));
     let ebs_bit = (if ce_ebs_idx exp = -1 then 0 else push_bit (unat phys) (1 :: u32));
     (exp, _) \<leftarrow> foldM (\<lambda>i (exp, filtered_mask).
         if filtered_mask = 0 then Some (exp, filtered_mask)
         else do {
           exp \<leftarrow> (if bit filtered_mask i then do {
               l \<leftarrow> rd (ce_phys_to_log exp) i;
               if l \<noteq> -1 then do {
                 n \<leftarrow> rd (ce_nr_overflows exp) (unat l);
                 ovs \<leftarrow> wr (ce_nr_overflows exp) (unat l) (n + 1);
                 Some (exp\<lparr>ce_nr_overflows := ovs\<rparr>)
               } else Some exp
             } else Some exp);
           Some (exp, filtered_mask AND NOT (push_bit i 1))
         }) [0..<MAX_LL_EXPS] (exp, overflow_mask AND NOT ebs_bit);
     Some (exp, if phys \<noteq> -1 then overflow_mask AND ebs_bit else 0)
   }"

text \<open>The third component says if the process is sent the signal that ends it.\<close>

definition do_count_on_overflow ::
  "'m mm_manager_t \<Rightarrow> rdpmc \<Rightarrow> 'm kernel \<Rightarrow> pmon_prof_t \<Rightarrow> nat \<Rightarrow> u32 \<Rightarrow> ('m kernel \<times> pmon_prof_t \<times> bool) option" where
  "do_count_on_overflow mgr rdpmc k prof this_cpu overflow_mask = do {
     props \<leftarrow> get_pmu_props_cpu k this_cpu;
     cur_coretype \<leftarrow> get_coretype_cpu k this_cpu;
     if \<not> pf_enabled prof
     then Some (set_msrs k this_cpu (mc_clear_all_platform_counters (kn_msrs k this_cpu) props), prof, False)
     else do {
       let core_exp = current_config k prof this_cpu;
       ce \<leftarrow> kn_exps k core_exp;
       (ce, filtered_mask) \<leftarrow> update_overflow_status_non_ebs_pmcs ce overflow_mask;
       let k = set_exp k core_exp ce;
       if filtered_mask = 0 then Some (k, prof, False)
       else do {
         let now = kn_ktime k;
         let elapsed = now - pf_ref_time prof;
         let prof = prof\<lparr>pf_samples_counter := pf_samples_counter prof + 1, pf_ref_time := now\<rparr>;
         (k, counts, first) \<leftarrow> do_count_mc_experiment_buffer rdpmc k this_cpu props core_exp
           (replicate MAX_PERFORMANCE_COUNTERS 0);
         (k, prof) \<leftarrow>
           (if \<not> first then do {
              counts \<leftarrow> (if ce_ebs_idx ce \<noteq> -1 then do {
                  p \<leftarrow> ebs_period props ce (ce_ebs_idx ce);
                  v \<leftarrow> rd_int counts (ce_ebs_idx ce);
                  wr counts (nat (ce_ebs_idx ce)) (v + p)
                } else Some counts);
              let sample = init_sample PMC_EBS_SAMPLE cur_coretype ce (pf_pid prof) elapsed counts;
              let (k, prof, sample, _) = mm_on_new_sample mgr this_cpu sample MM_TICK prof k;
              k \<leftarrow> push_sample_cbuffer k prof sample;
              if pf_mode prof = EBS_MODE then do {
                (prof, nxt) \<leftarrow> upd_set prof cur_coretype get_next_experiment_in_set;
                if nxt \<noteq> None \<and> pf_pmcs_config prof \<noteq> nxt
                then switch_config k this_cpu prof cur_coretype nxt
                else Some (k, prof)
              } else Some (k, prof)
            } else Some (k, prof));
         if pf_max_ebs_samples prof > 0 \<and> pf_samples_counter prof \<ge> pf_max_ebs_samples prof
         then Some (k, prof\<lparr>pf_samples_counter := 0\<rparr>, True)
         else Some (k, prof, False)
       }
     }
   }"

section \<open>Life of a thread\<close>

text \<open>The flags of a new thread of a process: \<open>CLONE_FS | CLONE_FILES | CLONE_VM | CLONE_SIGHAND | CLONE_THREAD\<close> of
  Linux.\<close>

definition PMC_NEW_THREAD :: u64 where "PMC_NEW_THREAD = 0x10F00"

definition is_new_thread :: "u64 \<Rightarrow> bool" where
  "is_new_thread flags \<longleftrightarrow> flags AND PMC_NEW_THREAD = PMC_NEW_THREAD"

record pmon_config_t =
  pc_nticks :: u32
  pc_kernel_buffer_size :: u32

definition new_prof :: "'m mm_manager_t \<Rightarrow> pmon_config_t \<Rightarrow> 'm kernel \<Rightarrow> u32 \<Rightarrow> bool \<Rightarrow> pmon_prof_t" where
  "new_prof mgr cfg k pid enabled =
     \<lparr>pf_enabled = enabled, pf_pmc_values = replicate MAX_LL_EXPS 0, pf_pid = pid, pf_pmc_ticks_counter = 0,
      pf_samples_counter = 0, pf_jiffies_interval = -1, pf_jiffies_timeout = kn_jiffies k + 3000 * 250,
      pf_pmcs_config = None, pf_multiplex_cfg = replicate AMP_MAX_CORETYPES init_core_experiment_set_t,
      pf_last_cpu = -1, pf_mode = TBS_SCHED_MODE, pf_context_switch_timestamp = kn_jiffies k, pf_flags = 0,
      pf_virt_counter_mask = 0, pf_timer = None, pf_pid_monitor = -1, pf_samples_buffer = None,
      pf_nticks_sampling_period = pc_nticks cfg, pf_kernel_buffer_size = pc_kernel_buffer_size cfg,
      pf_max_ebs_samples = 0, pf_ref_time = kn_ktime k, pf_task_mod = mgr_cur_module mgr, pf_priv_data = None\<rparr>"

text \<open>The result of cloning the configurations is not looked at.\<close>

definition inherit_configs ::
  "'m kernel \<Rightarrow> pmon_prof_t \<Rightarrow> pmon_prof_t \<Rightarrow> ('m kernel \<times> pmon_prof_t) option" where
  "inherit_configs k par_prof prof = do {
     (k, prof) \<leftarrow> foldM (\<lambda>i (k, prof). do {
         src \<leftarrow> rd (pf_multiplex_cfg par_prof) i;
         (k, dst, _) \<leftarrow> clone_core_experiment_set_t k src;
         cfg \<leftarrow> wr (pf_multiplex_cfg prof) i dst;
         Some (k, prof\<lparr>pf_multiplex_cfg := cfg\<rparr>)
       }) [0..<AMP_MAX_CORETYPES] (k, prof);
     cset \<leftarrow> rd (pf_multiplex_cfg prof) 0;
     e \<leftarrow> get_cur_experiment_in_set cset;
     Some (k, prof\<lparr>pf_pmcs_config := e\<rparr>)
   }"

definition inherit_prof ::
  "'m kernel \<Rightarrow> pmon_prof_t \<Rightarrow> pmon_prof_t \<Rightarrow> ('m kernel \<times> pmon_prof_t) option" where
  "inherit_prof k par_prof prof = do {
     let prof = prof\<lparr>pf_max_ebs_samples := pf_max_ebs_samples par_prof\<rparr>;
     if pf_flags par_prof AND PMC_SELF_MONITORING = 0 then do {
       let prof = prof\<lparr>pf_mode := pf_mode par_prof\<rparr>;
       (k, prof) \<leftarrow> (case pf_samples_buffer par_prof of
           None \<Rightarrow> Some (k, prof)
         | Some a \<Rightarrow> do {
             b \<leftarrow> kn_bufs k a;
             Some (k\<lparr>kn_bufs := (kn_bufs k)(a := Some (get_pmc_samples_buffer b))\<rparr>, prof\<lparr>pf_samples_buffer := Some a\<rparr>)
           });
       (k, prof) \<leftarrow> (if pf_pmcs_config par_prof \<noteq> None then inherit_configs k par_prof prof else Some (k, prof));
       let prof = prof\<lparr>pf_virt_counter_mask := pf_virt_counter_mask par_prof,
         pf_jiffies_interval := pf_jiffies_interval par_prof,
         pf_nticks_sampling_period := pf_nticks_sampling_period par_prof,
         pf_jiffies_timeout := kn_jiffies k + scast (pf_jiffies_interval par_prof),
         pf_pid_monitor := pf_pid_monitor par_prof, pf_enabled := True\<rparr>;
       Some (k, if pf_mode prof = TBS_USER_MODE then prof\<lparr>pf_timer := Some (pf_jiffies_timeout prof)\<rparr> else prof)
     } else Some (k, prof\<lparr>pf_kernel_buffer_size := pf_kernel_buffer_size par_prof\<rparr>)
   }"

text \<open>The parent is the current thread, if it is monitored. The result is the data of the new thread, or the error: the
  memory, the initialisation of the module (\<open>ENOTSUPP\<close> is 524) or the callback of the current monitoring module.\<close>

definition mod_alloc_per_thread_data ::
  "'m mm_manager_t \<Rightarrow> pmon_config_t \<Rightarrow> bool \<Rightarrow> bool \<Rightarrow> 'm kernel \<Rightarrow> u64 \<Rightarrow> u32 \<Rightarrow> bool \<Rightarrow> pmon_prof_t option \<Rightarrow>
   ('m kernel \<times> pmon_prof_t option \<times> int) option" where
  "mod_alloc_per_thread_data mgr cfg initializing kernel_thread k clone_flags pid enabled par =
     (if initializing \<or> kernel_thread then Some (k, None, - 524)
      else case kmalloc k of
        (None, k) \<Rightarrow> Some (k, None, - 12)
      | (Some _, k) \<Rightarrow> do {
          let prof = new_prof mgr cfg k pid enabled;
          (k, prof) \<leftarrow> (case par of
              Some par_prof \<Rightarrow>
                if is_new_thread clone_flags \<and> pf_enabled par_prof then inherit_prof k par_prof prof else Some (k, prof)
            | None \<Rightarrow> Some (k, prof));
          let (k, prof, ret) = mm_on_fork mgr clone_flags prof k;
          if ret \<noteq> 0 then do {
            k \<leftarrow> (case pf_samples_buffer prof of
                None \<Rightarrow> Some k
              | Some a \<Rightarrow> do { b \<leftarrow> kn_bufs k a; Some (k\<lparr>kn_bufs := (kn_bufs k)(a := put_pmc_samples_buffer b)\<rparr>) });
            Some (k, None, ret)
          } else Some (k, Some prof, 0)
        })"

definition prof_uses_timer :: "pmon_prof_t \<Rightarrow> bool" where
  "prof_uses_timer prof \<longleftrightarrow> pf_mode prof = TBS_SCHED_MODE"

definition upd_buffer :: "'m kernel \<Rightarrow> nat option \<Rightarrow> (pmc_samples_buffer_t \<Rightarrow> pmc_samples_buffer_t option option) \<Rightarrow> 'm kernel option" where
  "upd_buffer k p f = (case p of
     None \<Rightarrow> Some k
   | Some a \<Rightarrow> do { b \<leftarrow> kn_bufs k a; b \<leftarrow> f b; Some (k\<lparr>kn_bufs := (kn_bufs k)(a := b)\<rparr>) })"

definition mod_exit_thread ::
  "'m mm_manager_t \<Rightarrow> rdpmc \<Rightarrow> u64 \<Rightarrow> 'm kernel \<Rightarrow> pmon_prof_t \<Rightarrow> nat \<Rightarrow> ('m kernel \<times> pmon_prof_t) option" where
  "mod_exit_thread mgr rdpmc hz k prof cpu = do {
     cur_coretype \<leftarrow> get_coretype_cpu k cpu;
     k \<leftarrow> (if is_syswide_monitor k (sint (pf_pid prof)) then do {
         (k, _) \<leftarrow> syswide_monitoring_stop mgr hz k (sint (pf_pid prof));
         Some k
       } else Some k);
     let prof = (if prof_uses_timer prof then prof\<lparr>pf_timer := None\<rparr> else prof);
     let core_exp = current_config k prof cpu;
     (k, prof) \<leftarrow>
       (if pf_mode prof = TBS_USER_MODE \<or> pf_mode prof = TBS_SCHED_MODE then do {
          (k, prof, _) \<leftarrow> do_count_mc_experiment rdpmc k cpu prof core_exp True;
          ce \<leftarrow> kn_exps k core_exp;
          let now = kn_ktime k;
          let sample = init_sample PMC_EXIT_SAMPLE cur_coretype ce (pf_pid prof) (now - pf_ref_time prof)
            (copy_counts (pf_pmc_values prof));
          let prof = prof\<lparr>pf_jiffies_timeout := kn_jiffies k + hz * 3600, pf_ref_time := now,
            pf_pmc_values := replicate MAX_LL_EXPS 0\<rparr>;
          let (k, prof, sample, _) = (if pf_enabled prof then mm_on_new_sample mgr cpu sample MM_EXIT prof k
            else (k, prof, sample, 0));
          k \<leftarrow> push_sample_cbuffer k prof sample;
          Some (k, if pf_samples_buffer prof \<noteq> None then prof\<lparr>pf_flags := pf_flags prof OR PMC_EXITING\<rparr> else prof)
        } else do {
          k \<leftarrow> upd_buffer k (pf_samples_buffer prof) (\<lambda>b. Some (Some (wake_up_monitor_program b)));
          Some (k, if pf_samples_buffer prof \<noteq> None then prof\<lparr>pf_flags := pf_flags prof OR PMC_EXITING\<rparr> else prof)
        });
     let (k, prof) = mm_on_exit mgr prof k;
     k \<leftarrow> upd_buffer k (pf_samples_buffer prof) (\<lambda>b. Some (put_pmc_samples_buffer b));
     Some (k, prof\<lparr>pf_samples_buffer := None\<rparr>)
   }"

definition mod_free_per_thread_data ::
  "'m mm_manager_t \<Rightarrow> 'm kernel \<Rightarrow> pmon_prof_t \<Rightarrow> 'm kernel option" where
  "mod_free_per_thread_data mgr k prof = do {
     let (k, prof) = mm_on_free_task mgr prof k;
     (if pf_pmcs_config prof \<noteq> None then
        foldM (\<lambda>i k. do {
            cset \<leftarrow> rd (pf_multiplex_cfg prof) i;
            (k, _) \<leftarrow> free_experiment_set k cset;
            Some k
          }) [0..<AMP_MAX_CORETYPES] k
      else Some k)
   }"

section \<open>Control\<close>

text \<open>The two commands that switch the monitoring of a thread. The buffer's allocation is \<open>alloc\<close>; \<open>here\<close> is the CPU of the
  thread that writes.\<close>

definition monitoring_on ::
  "'m mm_manager_t \<Rightarrow> rdpmc \<Rightarrow> u64 \<Rightarrow> (nat \<Rightarrow> pmc_samples_buffer_t option) \<Rightarrow> 'm kernel \<Rightarrow> pmon_prof_t \<Rightarrow> nat \<Rightarrow>
   ('m kernel \<times> pmon_prof_t \<times> int) option" where
  "monitoring_on mgr rdpmc hz alloc k prof here = do {
     (k, prof, ok) \<leftarrow> (case pf_samples_buffer prof of
         Some _ \<Rightarrow> Some (k, prof, True)
       | None \<Rightarrow> (case alloc (unat (pf_kernel_buffer_size prof)) of
             None \<Rightarrow> Some (k, prof, False)
           | Some b \<Rightarrow>
               let a = kn_fresh k in
               Some (k\<lparr>kn_bufs := (kn_bufs k)(a := Some b), kn_fresh := a + 1\<rparr>, prof\<lparr>pf_samples_buffer := Some a\<rparr>, True)));
     if \<not> ok then Some (k, prof, - 1)
     else do {
       let prof = (if sint (pf_jiffies_interval prof) < 0 then prof\<lparr>pf_jiffies_interval := ucast hz\<rparr> else prof);
       let prof = prof\<lparr>pf_jiffies_timeout := kn_jiffies k + scast (pf_jiffies_interval prof), pf_ref_time := kn_ktime k\<rparr>;
       let prof = (if pf_mode prof = TBS_USER_MODE then prof\<lparr>pf_timer := Some (pf_jiffies_timeout prof)\<rparr> else prof);
       (k, prof) \<leftarrow> mod_restore_callback_gen mgr rdpmc k (prof\<lparr>pf_enabled := True\<rparr>) here;
       Some (k, prof, 0)
     }
   }"

definition monitoring_off ::
  "'m mm_manager_t \<Rightarrow> rdpmc \<Rightarrow> 'm kernel \<Rightarrow> pmon_prof_t \<Rightarrow> nat \<Rightarrow> ('m kernel \<times> pmon_prof_t) option" where
  "monitoring_off mgr rdpmc k prof here =
     mod_save_callback_gen mgr rdpmc k
       ((if prof_uses_timer prof \<and> pf_enabled prof then prof\<lparr>pf_timer := None\<rparr> else prof)\<lparr>pf_enabled := False\<rparr>) here"

text \<open>A read of the file of samples. The buffer that the samples are copied to is the page shared with the program, when
  there is one, or that of the read. \<open>ENOENT\<close> is 2.\<close>

definition PAGE_SIZE :: nat where "PAGE_SIZE = 4096"

definition proc_monitor_pmcs_read ::
  "'m kernel \<Rightarrow> pmon_prof_t \<Rightarrow> bool \<Rightarrow> nat \<Rightarrow> ('m kernel \<times> pmon_prof_t \<times> (int + read_result)) option" where
  "proc_monitor_pmcs_read k prof shared len = (case pf_samples_buffer prof of
     None \<Rightarrow> Some (k, prof, Inl (- 2))
   | Some a \<Rightarrow> do {
       b \<leftarrow> kn_bufs k a;
       let dst_buffer_size = (if shared then min PAGE_SIZE len else len);
       let self = (pf_flags prof AND PMC_READ_SELF_MONITORING \<noteq> 0);
       (b, r) \<leftarrow> monitor_read b self dst_buffer_size;
       Some (k\<lparr>kn_bufs := (kn_bufs k)(a := Some b)\<rparr>,
             if self then prof\<lparr>pf_flags := pf_flags prof AND NOT PMC_READ_SELF_MONITORING\<rparr> else prof, Inr r)
     })"

end
