(* ===== verification/MonitorProps.thy ===== *)
theory MonitorProps
  imports Monitor PmuSetup
begin

text \<open>
  Properties of the monitoring of threads: what the counters count while a thread runs is what its samples report. The
  scheduler, the hardware and the other threads are steps of a transition system; the monitoring module that
  observes the samples is one that records them.
\<close>

section \<open>Events\<close>

text \<open>What does not change in an event: the counter, its control register and value, its reset value and index.\<close>

fun ev_key :: "hw_event \<Rightarrow> u32 \<times> u32 \<times> u64 \<times> u64 \<times> u32 option" where
  "ev_key (SIMPLE e) = (pmc_addr (SIMPLE e), ctl_addr (SIMPLE e), ctl_value (SIMPLE e), get_reset_value_hw_event (SIMPLE e),
     Some (pm_address (se_pmc e)))"
| "ev_key (FIXED e) = (pmc_addr (FIXED e), ctl_addr (FIXED e), ctl_value (FIXED e), get_reset_value_hw_event (FIXED e), None)"

definition key :: "low_level_exp \<Rightarrow> u32 \<times> u32 \<times> u64 \<times> u64 \<times> u32 option" where
  "key lle = ev_key (ll_event lle)"

definition pmc_of :: "low_level_exp \<Rightarrow> u32" where "pmc_of lle = pmc_addr (ll_event lle)"
definition ctl_of :: "low_level_exp \<Rightarrow> u32" where "ctl_of lle = ctl_addr (ll_event lle)"
definition ctlv_of :: "low_level_exp \<Rightarrow> u64" where "ctlv_of lle = ctl_value (ll_event lle)"
definition reset_val :: "low_level_exp \<Rightarrow> u64" where "reset_val lle = get_reset_value_hw_event (ll_event lle)"

lemma key_eqD:
  "key l = key l' \<Longrightarrow> pmc_of l = pmc_of l' \<and> ctl_of l = ctl_of l' \<and> ctlv_of l = ctlv_of l' \<and> reset_val l = reset_val l'"
  by (cases "ll_event l"; cases "ll_event l'") (auto simp: key_def pmc_of_def ctl_of_def ctlv_of_def reset_val_def)

definition index_ok :: "low_level_exp \<Rightarrow> bool" where
  "index_ok lle \<longleftrightarrow> (case snd (snd (snd (snd (key lle)))) of None \<Rightarrow> True | Some i \<Rightarrow> pmc_of lle = PMC_MSR_INITIAL_ADDRESS + i)"

lemma index_ok_key: "key l = key l' \<Longrightarrow> index_ok l = index_ok l'"
  using key_eqD [of l l'] by (auto simp: index_ok_def split: option.splits)

text \<open>Stopping, reading and restarting an event: the value of the counter is in the event, the counter is at its
  reset value, the control register is programmed.\<close>

lemma gather_event_eq:
  assumes "rdpmc_reads_counter rdpmc" and "index_ok lle" and "pmc_of lle \<noteq> ctl_of lle"
  obtains lle' where "gather_event rdpmc m lle = (m(pmc_of lle := reset_val lle, ctl_of lle := ctlv_of lle), lle')"
    and "key lle' = key lle" and "get_last_value_hw_event (ll_event lle') = m (pmc_of lle)" and "ll_pmc_id lle' = ll_pmc_id lle"
proof (cases "ll_event lle")
  case (SIMPLE e)
  then show thesis using assms
    by (intro that [of "snd (gather_event rdpmc m lle)"]) (auto simp: gather_event_def Let_def stopCount_exp_def resetMSR_def readCounter_exp_def readPMC_def
        restartCount_exp_def resetPMC_def writeMSR_def rdpmc_reads_counter_def key_def index_ok_def pmc_of_def ctl_of_def
        ctlv_of_def reset_val_def fun_eq_iff)
next
  case (FIXED e)
  then show thesis using assms
    by (intro that [of "snd (gather_event rdpmc m lle)"]) (auto simp: gather_event_def Let_def stopCount_fixed_exp_def resetMSR_def readCounter_fixed_exp_def readMSR_def
        restartCount_fixed_exp_def writeMSR_def key_def pmc_of_def ctl_of_def ctlv_of_def reset_val_def fun_eq_iff)
qed

lemma restart_event_eq:
  "restart_count_hw_event m (ll_event lle) = (if pmc_of lle = ctl_of lle then restart_count_hw_event m (ll_event lle)
    else m(pmc_of lle := reset_val lle, ctl_of lle := ctlv_of lle))"
  by (cases "ll_event lle") (auto simp: restartCount_exp_def resetPMC_def writeMSR_def restartCount_fixed_exp_def resetMSR_def
      pmc_of_def ctl_of_def ctlv_of_def reset_val_def fun_eq_iff)

section \<open>Event configurations\<close>

text \<open>A configuration that counts from 0 and does not sample on overflow.\<close>

definition exp_ok :: "core_experiment_t \<Rightarrow> bool" where
  "exp_ok ce \<longleftrightarrow> length (ce_array ce) \<le> MAX_LL_EXPS \<and> length (ce_nr_overflows ce) = MAX_LL_EXPS \<and>
     length (ce_log_to_phys ce) = MAX_LL_EXPS \<and> length (ce_phys_to_log ce) = MAX_LL_EXPS \<and> ce_ebs_idx ce = -1 \<and>
     distinct (map pmc_of (ce_array ce)) \<and>
     (\<forall>l \<in> set (ce_array ce). index_ok l \<and> reset_val l = 0 \<and> pmc_of l \<noteq> MSR_PERF_GLOBAL_OVF_CTRL \<and>
        ctl_of l \<noteq> MSR_PERF_GLOBAL_OVF_CTRL \<and>
        (\<forall>l' \<in> set (ce_array ce). pmc_of l \<noteq> ctl_of l' \<and> (ctl_of l = ctl_of l' \<longrightarrow> ctlv_of l = ctlv_of l'))) \<and>
     (\<forall>i < length (ce_array ce). unat (ce_log_to_phys ce ! i) < MAX_LL_EXPS \<and>
        ce_phys_to_log ce ! unat (ce_log_to_phys ce ! i) = of_nat i)"

lemma exp_ok_entry:
  assumes "exp_ok ce" and "l \<in> set (ce_array ce)"
  shows "index_ok l" "reset_val l = 0" "pmc_of l \<noteq> MSR_PERF_GLOBAL_OVF_CTRL" "ctl_of l \<noteq> MSR_PERF_GLOBAL_OVF_CTRL"
    "l' \<in> set (ce_array ce) \<Longrightarrow> pmc_of l \<noteq> ctl_of l'"
    "l' \<in> set (ce_array ce) \<Longrightarrow> ctl_of l = ctl_of l' \<Longrightarrow> ctlv_of l = ctlv_of l'"
  using assms unfolding exp_ok_def by blast+

lemma exp_okD:
  assumes "exp_ok ce"
  shows "length (ce_array ce) \<le> MAX_LL_EXPS" "length (ce_nr_overflows ce) = MAX_LL_EXPS"
    "length (ce_log_to_phys ce) = MAX_LL_EXPS" "length (ce_phys_to_log ce) = MAX_LL_EXPS" "ce_ebs_idx ce = -1"
    "distinct (map pmc_of (ce_array ce))"
    "i < length (ce_array ce) \<Longrightarrow> unat (ce_log_to_phys ce ! i) < MAX_LL_EXPS"
    "i < length (ce_array ce) \<Longrightarrow> ce_phys_to_log ce ! unat (ce_log_to_phys ce ! i) = of_nat i"
  using assms unfolding exp_ok_def by blast+

text \<open>Two configurations that differ in the values read and in the overflows only.\<close>

definition same_cfg :: "core_experiment_t \<Rightarrow> core_experiment_t \<Rightarrow> bool" where
  "same_cfg ce ce' \<longleftrightarrow> map key (ce_array ce') = map key (ce_array ce) \<and> length (ce_nr_overflows ce') = length (ce_nr_overflows ce) \<and>
     ce_log_to_phys ce' = ce_log_to_phys ce \<and> ce_phys_to_log ce' = ce_phys_to_log ce \<and> ce_ebs_idx ce' = ce_ebs_idx ce \<and>
     ce_exp_idx ce' = ce_exp_idx ce \<and> ce_used_pmcs ce' = ce_used_pmcs ce"

lemma same_cfg_refl [simp]: "same_cfg ce ce"
  by (simp add: same_cfg_def)

lemma same_cfg_trans: "same_cfg a b \<Longrightarrow> same_cfg b c \<Longrightarrow> same_cfg a c"
  by (simp add: same_cfg_def)

lemma same_cfg_length: "same_cfg ce ce' \<Longrightarrow> length (ce_array ce') = length (ce_array ce)"
  by (metis same_cfg_def length_map)

lemma map_key_maps:
  assumes "map key xs = map key ys"
  shows "map pmc_of xs = map pmc_of ys" "map ctl_of xs = map ctl_of ys" "map ctlv_of xs = map ctlv_of ys"
    "map reset_val xs = map reset_val ys" "map index_ok xs = map index_ok ys"
proof -
  have l: "length xs = length ys" using assms by (metis length_map)
  have k: "key (xs ! i) = key (ys ! i)" if "i < length ys" for i using assms that l by (metis nth_map)
  show "map pmc_of xs = map pmc_of ys" "map ctl_of xs = map ctl_of ys" "map ctlv_of xs = map ctlv_of ys"
    "map reset_val xs = map reset_val ys" "map index_ok xs = map index_ok ys"
    using l key_eqD [OF k] index_ok_key [OF k] by (simp_all add: list_eq_iff_nth_eq)
qed

lemma same_cfg_ok:
  assumes "same_cfg ce ce'" and "exp_ok ce"
  shows "exp_ok ce'"
proof -
  let ?A = "ce_array ce" and ?B = "ce_array ce'"
  have k: "map key ?B = map key ?A" using assms(1) by (simp add: same_cfg_def)
  note m = map_key_maps [OF k]
  have l: "length ?B = length ?A" using k by (metis length_map)
  have n: "pmc_of (?B ! i) = pmc_of (?A ! i)" "ctl_of (?B ! i) = ctl_of (?A ! i)" "ctlv_of (?B ! i) = ctlv_of (?A ! i)"
    "reset_val (?B ! i) = reset_val (?A ! i)" "index_ok (?B ! i) = index_ok (?A ! i)" if "i < length ?A" for i
    using m that l by (metis nth_map)+
  have e: "index_ok b \<and> reset_val b = 0 \<and> pmc_of b \<noteq> MSR_PERF_GLOBAL_OVF_CTRL \<and> ctl_of b \<noteq> MSR_PERF_GLOBAL_OVF_CTRL \<and>
      (\<forall>b' \<in> set ?B. pmc_of b \<noteq> ctl_of b' \<and> (ctl_of b = ctl_of b' \<longrightarrow> ctlv_of b = ctlv_of b'))" if b: "b \<in> set ?B" for b
  proof -
    obtain i where i: "i < length ?A" "b = ?B ! i" using b l by (auto simp: in_set_conv_nth)
    have "?A ! i \<in> set ?A" using i by simp
    note a = exp_ok_entry [OF assms(2) this]
    have "pmc_of b \<noteq> ctl_of b' \<and> (ctl_of b = ctl_of b' \<longrightarrow> ctlv_of b = ctlv_of b')" if b': "b' \<in> set ?B" for b'
    proof -
      obtain j where j: "j < length ?A" "b' = ?B ! j" using b' l by (auto simp: in_set_conv_nth)
      show ?thesis using a(5) [of "?A ! j"] a(6) [of "?A ! j"] n [OF i(1)] n [OF j(1)] i j by simp
    qed
    then show ?thesis using a(1-4) n [OF i(1)] i by simp
  qed
  have c: "ce_log_to_phys ce' = ce_log_to_phys ce" "ce_phys_to_log ce' = ce_phys_to_log ce" "ce_ebs_idx ce' = ce_ebs_idx ce"
    "length (ce_nr_overflows ce') = length (ce_nr_overflows ce)" using assms(1) by (simp_all add: same_cfg_def)
  note ok = assms(2) [unfolded exp_ok_def]
  show ?thesis unfolding exp_ok_def c l m(1)
  proof (intro conjI ballI)
    fix b assume "b \<in> set ?B"
    note e [OF this]
    then show "index_ok b" "reset_val b = 0" "pmc_of b \<noteq> MSR_PERF_GLOBAL_OVF_CTRL" "ctl_of b \<noteq> MSR_PERF_GLOBAL_OVF_CTRL"
      "\<And>b'. b' \<in> set ?B \<Longrightarrow> pmc_of b \<noteq> ctl_of b'" "\<And>b'. b' \<in> set ?B \<Longrightarrow> ctl_of b = ctl_of b' \<longrightarrow> ctlv_of b = ctlv_of b'"
      by blast+
  qed (use ok in blast)+
qed

section \<open>Reading and programming all the counters\<close>

text \<open>The value of an event since it was last read.\<close>

definition value_of :: "pmu_props_t \<Rightarrow> msr_file \<Rightarrow> core_experiment_t \<Rightarrow> nat \<Rightarrow> u64" where
  "value_of props m ce i = m (pmc_of (ce_array ce ! i)) + ucast (ce_nr_overflows ce ! i) * (pmc_width_mask props + 1)"

text \<open>The counters are at 0 and programmed.\<close>

definition programmed :: "msr_file \<Rightarrow> core_experiment_t \<Rightarrow> bool" where
  "programmed m ce \<longleftrightarrow> (\<forall>l \<in> set (ce_array ce). m (ctl_of l) = ctlv_of l)"

definition zeroed :: "msr_file \<Rightarrow> core_experiment_t \<Rightarrow> bool" where
  "zeroed m ce \<longleftrightarrow> (\<forall>l \<in> set (ce_array ce). m (pmc_of l) = 0)"

definition no_overflows :: "core_experiment_t \<Rightarrow> bool" where
  "no_overflows ce \<longleftrightarrow> (\<forall>i < length (ce_array ce). ce_nr_overflows ce ! i = 0)"

lemma count_event_eq:
  assumes "rdpmc_reads_counter rdpmc" and "exp_ok ce" and "i < length (ce_array ce)"
  obtains ce' where "count_event rdpmc props i m ce =
      Some (m(pmc_of (ce_array ce ! i) := 0, ctl_of (ce_array ce ! i) := ctlv_of (ce_array ce ! i)), ce', value_of props m ce i)"
    and "same_cfg ce ce'" and "ce_need_setup ce' = ce_need_setup ce" and "ce_nr_overflows ce' = (ce_nr_overflows ce)[i := 0]"
proof -
  let ?l = "ce_array ce ! i"
  have l: "?l \<in> set (ce_array ce)" using assms(3) by simp
  note e = exp_ok_entry [OF assms(2) l]
  obtain l' where g: "gather_event rdpmc m ?l = (m(pmc_of ?l := 0, ctl_of ?l := ctlv_of ?l), l')" "key l' = key ?l"
    "get_last_value_hw_event (ll_event l') = m (pmc_of ?l)"
    using gather_event_eq [OF assms(1) e(1) e(5) [OF l], of m] e(2) by metis
  have n: "i < length (ce_nr_overflows ce)" using assms(3) exp_okD [OF assms(2)] by simp
  let ?ce = "ce\<lparr>ce_array := (ce_array ce)[i := l'], ce_nr_overflows := (ce_nr_overflows ce)[i := 0]\<rparr>"
  have k: "map key ((ce_array ce)[i := l']) = map key (ce_array ce)"
    using g(2) assms(3) by (metis list_update_id map_update nth_map)
  have eq: "ce\<lparr>ce_array := (ce_array ce)[i := l']\<rparr> = ?ce" if "ce_nr_overflows ce ! i = 0"
  proof -
    have "(ce_nr_overflows ce)[i := 0] = ce_nr_overflows ce" using that by (metis list_update_id)
    then show ?thesis by simp
  qed
  show thesis
  proof (rule that [of ?ce])
    show "count_event rdpmc props i m ce = Some (m(pmc_of ?l := 0, ctl_of ?l := ctlv_of ?l), ?ce, value_of props m ce i)"
      using assms(3) n g eq by (cases "ce_nr_overflows ce ! i = 0") (simp_all add: count_event_def rd_Some wr_Some value_of_def Let_def)
  qed (simp_all add: same_cfg_def k)
qed

lemma count_all_eq:
  assumes r: "rdpmc_reads_counter rdpmc" and ok: "exp_ok ce" and len: "length vals = MAX_LL_EXPS"
  shows "\<exists>m' ce' vals'. count_all rdpmc props f m ce vals = Some (m', ce', vals') \<and> same_cfg ce ce' \<and>
    ce_need_setup ce' = ce_need_setup ce \<and> zeroed m' ce \<and> programmed m' ce \<and> no_overflows ce' \<and> length vals' = MAX_LL_EXPS \<and>
    (\<forall>i < MAX_LL_EXPS. vals' ! i = (if i < length (ce_array ce) then f (vals ! i) (value_of props m ce i) else vals ! i))"
proof -
  let ?n = "length (ce_array ce)" and ?A = "ce_array ce"
  let ?P = "\<lambda>j (m', ce', vals'). same_cfg ce ce' \<and> ce_need_setup ce' = ce_need_setup ce \<and>
    (\<forall>i < ?n. m' (pmc_of (?A ! i)) = (if i < j then 0 else m (pmc_of (?A ! i)))) \<and>
    (\<forall>i < j. i < ?n \<longrightarrow> m' (ctl_of (?A ! i)) = ctlv_of (?A ! i)) \<and>
    (\<forall>i < ?n. ce_nr_overflows ce' ! i = (if i < j then 0 else ce_nr_overflows ce ! i)) \<and>
    length vals' = MAX_LL_EXPS \<and>
    (\<forall>i < MAX_LL_EXPS. vals' ! i = (if i < j then f (vals ! i) (value_of props m ce i) else vals ! i))"
  note D = exp_okD [OF ok]
  have "\<exists>s'. foldM (\<lambda>i (m, ce, vals). do {
         (m, ce, last_value) \<leftarrow> count_event rdpmc props i m ce;
         v \<leftarrow> rd vals i;
         vals \<leftarrow> wr vals i (f v last_value);
         Some (m, ce, vals)
       }) [0..<?n] (m, ce, vals) = Some s' \<and> ?P ?n s'"
  proof (rule foldM_upt [where I = ?P])
    show "?P 0 (m, ce, vals)" using len by simp
  next
    fix j s assume j: "j < ?n" and P: "?P j s"
    obtain m1 ce1 vals1 where s: "s = (m1, ce1, vals1)" by (cases s)
    have sc: "same_cfg ce ce1" using P by (simp add: s)
    note ok1 = same_cfg_ok [OF sc ok]
    have l1: "length (ce_array ce1) = ?n" by (rule same_cfg_length [OF sc])
    have k1: "key (ce_array ce1 ! j) = key (?A ! j)" using sc j l1 unfolding same_cfg_def by (metis nth_map)
    note kk = key_eqD [OF k1]
    obtain ce2 where c: "count_event rdpmc props j m1 ce1 =
        Some (m1(pmc_of (?A ! j) := 0, ctl_of (?A ! j) := ctlv_of (?A ! j)), ce2, value_of props m1 ce1 j)"
      "same_cfg ce1 ce2" "ce_need_setup ce2 = ce_need_setup ce1" "ce_nr_overflows ce2 = (ce_nr_overflows ce1)[j := 0]"
      using count_event_eq [OF r ok1, of j props m1] j l1 kk by auto
    have v: "value_of props m1 ce1 j = value_of props m ce j" using P j kk by (simp add: s value_of_def)
    have jl: "j < MAX_LL_EXPS" using j D(1) by simp
    let ?m2 = "m1(pmc_of (?A ! j) := 0, ctl_of (?A ! j) := ctlv_of (?A ! j))"
    let ?v2 = "vals1[j := f (vals ! j) (value_of props m ce j)]"
    have b: "(\<lambda>(m, ce, vals). do {
         (m, ce, last_value) \<leftarrow> count_event rdpmc props j m ce;
         v \<leftarrow> rd vals j;
         vals \<leftarrow> wr vals j (f v last_value);
         Some (m, ce, vals)
       }) s = Some (?m2, ce2, ?v2)"
      using P jl by (simp add: s c(1) v rd_Some wr_Some)
    have pm: "pmc_of (?A ! i) = pmc_of (?A ! j) \<longleftrightarrow> i = j" "pmc_of (?A ! i) \<noteq> ctl_of (?A ! j)" if "i < ?n" for i
      using that j D(6) exp_ok_entry(5) [OF ok, of "?A ! i" "?A ! j"] by (auto simp: distinct_conv_nth)
    have ct: "ctl_of (?A ! i) \<noteq> pmc_of (?A ! j)" "ctl_of (?A ! i) = ctl_of (?A ! j) \<Longrightarrow> ctlv_of (?A ! i) = ctlv_of (?A ! j)" if "i < ?n" for i
      using that j exp_ok_entry(5) [OF ok, of "?A ! j" "?A ! i"] exp_ok_entry(6) [OF ok, of "?A ! i" "?A ! j"] by auto
    have "?P (Suc j) (?m2, ce2, ?v2)"
    proof (simp only: prod.case, intro conjI allI impI)
      show "same_cfg ce ce2" using same_cfg_trans [OF sc c(2)] .
      show "ce_need_setup ce2 = ce_need_setup ce" using P c(3) by (simp add: s)
      show "length ?v2 = MAX_LL_EXPS" using P by (simp add: s)
      fix i
      show "?m2 (pmc_of (?A ! i)) = (if i < Suc j then 0 else m (pmc_of (?A ! i)))" if "i < ?n"
        using that P pm [OF that] by (auto simp: s)
      show "?m2 (ctl_of (?A ! i)) = ctlv_of (?A ! i)" if "i < Suc j" "i < ?n"
        using that P ct [OF that(2)] by (auto simp: s less_Suc_eq)
      show "ce_nr_overflows ce2 ! i = (if i < Suc j then 0 else ce_nr_overflows ce ! i)" if "i < ?n"
        using that P D(1,2) sc by (auto simp: s c(4) nth_list_update same_cfg_def less_Suc_eq)
      show "?v2 ! i = (if i < Suc j then f (vals ! i) (value_of props m ce i) else vals ! i)" if "i < MAX_LL_EXPS"
        using that P by (auto simp: s nth_list_update less_Suc_eq)
    qed
    then show "\<exists>s'. (\<lambda>(m, ce, vals). do {
         (m, ce, last_value) \<leftarrow> count_event rdpmc props j m ce;
         v \<leftarrow> rd vals j;
         vals \<leftarrow> wr vals j (f v last_value);
         Some (m, ce, vals)
       }) s = Some s' \<and> ?P (Suc j) s'" using b by blast
  qed
  then obtain s' where e: "count_all rdpmc props f m ce vals = Some s'" and P: "?P ?n s'"
    unfolding count_all_def by blast
  obtain m' ce' vals' where s': "s' = (m', ce', vals')" by (cases s')
  note P = P [unfolded s' prod.case]
  have "zeroed m' ce" unfolding zeroed_def
  proof
    fix l assume "l \<in> set ?A"
    then obtain i where "i < ?n" "l = ?A ! i" by (auto simp: in_set_conv_nth)
    then show "m' (pmc_of l) = 0" using P by simp
  qed
  moreover have "programmed m' ce" unfolding programmed_def
  proof
    fix l assume "l \<in> set ?A"
    then obtain i where "i < ?n" "l = ?A ! i" by (auto simp: in_set_conv_nth)
    then show "m' (ctl_of l) = ctlv_of l" using P by simp
  qed
  moreover have "no_overflows ce'" using P same_cfg_length [of ce ce'] by (simp add: no_overflows_def)
  ultimately show ?thesis using e P unfolding s' by blast
qed

lemma restart_loop:
  assumes "\<And>l l'. l \<in> set L \<Longrightarrow> l' \<in> set L \<Longrightarrow> pmc_of l \<noteq> ctl_of l' \<and> (ctl_of l = ctl_of l' \<longrightarrow> ctlv_of l = ctlv_of l') \<and> reset_val l = 0"
  shows "\<forall>l \<in> set L. fold (\<lambda>lle m. restart_count_hw_event m (ll_event lle)) L m (pmc_of l) = 0 \<and>
    fold (\<lambda>lle m. restart_count_hw_event m (ll_event lle)) L m (ctl_of l) = ctlv_of l"
  using assms
proof (induction L rule: rev_induct)
  case (snoc x L)
  let ?m = "fold (\<lambda>lle m. restart_count_hw_event m (ll_event lle)) L m"
  have IH: "\<forall>l \<in> set L. ?m (pmc_of l) = 0 \<and> ?m (ctl_of l) = ctlv_of l" by (rule snoc.IH) (use snoc.prems in auto)
  have x: "pmc_of x \<noteq> ctl_of x" "reset_val x = 0" using snoc.prems [of x x] by auto
  have f: "fold (\<lambda>lle m. restart_count_hw_event m (ll_event lle)) (L @ [x]) m = ?m(pmc_of x := 0, ctl_of x := ctlv_of x)"
    using restart_event_eq [of ?m x] x by simp
  have o: "pmc_of l \<noteq> ctl_of x" "ctl_of l \<noteq> pmc_of x" "ctl_of l = ctl_of x \<Longrightarrow> ctlv_of l = ctlv_of x" if "l \<in> set (L @ [x])" for l
    using snoc.prems [OF that, of x] snoc.prems [of x l] that by auto
  show ?case unfolding f
  proof
    fix l assume l: "l \<in> set (L @ [x])"
    show "(?m(pmc_of x := 0, ctl_of x := ctlv_of x)) (pmc_of l) = 0 \<and> (?m(pmc_of x := 0, ctl_of x := ctlv_of x)) (ctl_of l) = ctlv_of l"
      using o [OF l] IH l by (cases "l = x") (auto simp: fun_upd_def)
  qed
qed simp

text \<open>The overflows in the status register have been cleared: the last write to the overflow control register was
  that of \<open>reset_overflow_status\<close>.\<close>

definition acked :: "msr_file \<Rightarrow> bool" where
  "acked m \<longleftrightarrow> m MSR_PERF_GLOBAL_OVF_CTRL = m MSR_PERF_GLOBAL_STATUS"

lemma acked_reset [simp]: "acked (reset_overflow_status m)"
  by (simp add: acked_def reset_overflow_status_def MSR_PERF_GLOBAL_OVF_CTRL_def MSR_PERF_GLOBAL_STATUS_def)

lemma restart_exp_eq:
  assumes "kn_exps k a = Some ce" and "exp_ok ce"
  shows "\<exists>m. restart_exp k cpu (Some a) = Some (set_exp (set_msrs k cpu m) a (ce\<lparr>ce_need_setup := False\<rparr>)) \<and>
    zeroed m ce \<and> programmed m ce \<and> acked m"
proof -
  let ?f = "fold (\<lambda>lle m. restart_count_hw_event m (ll_event lle)) (ce_array ce) (kn_msrs k cpu)"
  have "\<forall>l \<in> set (ce_array ce). ?f (pmc_of l) = 0 \<and> ?f (ctl_of l) = ctlv_of l"
    by (rule restart_loop) (use exp_ok_entry [OF assms(2)] in blast)
  then have "zeroed (reset_overflow_status ?f) ce" "programmed (reset_overflow_status ?f) ce"
    using exp_ok_entry(3,4) [OF assms(2)] by (auto simp: zeroed_def programmed_def reset_overflow_status_def)
  then show ?thesis using assms(1) by (auto simp: restart_exp_def mc_restart_all_counters_def)
qed

end
