(* ===== verification/SchedMonitor.thy ===== *)
theory SchedMonitor
  imports MonitorProps
begin

text \<open>
  The monitoring of a thread by the scheduler's ticks (\<open>TBS_SCHED_MODE\<close>) as a transition system: switches, ticks,
  overflow interrupts and migrations between the core types of a hybrid processor. The events the hardware counted while
  the thread ran are those its samples report, and those not reported yet.
\<close>

section \<open>Counters that wrap around\<close>

lemma unat_mask_u64: "w < 64 \<Longrightarrow> unat (mask w :: u64) = 2 ^ w - 1"
proof -
  assume w: "w < 64"
  have "unat (mask w :: u64) = unat (of_nat (mask w) :: u64)" by (simp only: of_nat_mask_eq)
  also have "\<dots> = unat (of_nat (2 ^ w - 1) :: u64)" by (simp only: mask_eq_exp_minus_1)
  also have "\<dots> = 2 ^ w - 1"
    using power_strict_increasing [OF w, of "2 :: nat"] by (simp only: unat_of_nat) simp
  finally show ?thesis .
qed

lemma wrapped_sum:
  fixes x :: u64
  assumes "w < 64" and "unat x \<le> unat (mask w :: u64)" and "d \<le> unat (mask w :: u64)"
  shows "((x + of_nat d) AND mask w) + (if unat x + d > unat (mask w :: u64) then mask w + 1 else 0) = x + of_nat d"
    and "unat ((x + of_nat d) AND mask w) \<le> unat (mask w :: u64)"
proof -
  have p: "(2 :: nat) ^ w \<le> 2 ^ 63" using assms(1) by (intro power_increasing) auto
  have m: "unat (mask w :: u64) = 2 ^ w - 1" by (rule unat_mask_u64 [OF assms(1)])
  have s: "unat (x + of_nat d) = unat x + d"
    using assms m p by (simp add: unat_word_ariths unat_of_nat)
  have t: "unat ((x + of_nat d) AND mask w) = (unat x + d) mod 2 ^ w"
    by (simp only: take_bit_eq_mask [symmetric] unsigned_take_bit_eq s take_bit_nat_def)
  have lt: "(unat x + d) mod 2 ^ w < 2 ^ w" by simp
  show "unat ((x + of_nat d) AND mask w) \<le> unat (mask w :: u64)" unfolding t m using lt by linarith
  have o: "unat (mask w + 1 :: u64) = 2 ^ w"
    using m p by (simp add: unat_word_ariths)
  have pl: "unat (a + b) = unat a + unat b" if "unat a + unat b < 2 ^ 64" for a b :: u64
    using that by (simp add: unat_word_ariths)
  show "((x + of_nat d) AND mask w) + (if unat x + d > unat (mask w :: u64) then mask w + 1 else 0) = x + of_nat d"
  proof (rule word_unat_eq_iff [THEN iffD2], cases "unat x + d > unat (mask w :: u64)")
    case True
    then have "(unat x + d) mod 2 ^ w + 2 ^ w = unat x + d"
      using assms m by (simp add: mod_if [of "unat x + d"])
    moreover have "unat x + d < 2 ^ 64" using assms m p by simp
    ultimately have "unat (((x + of_nat d) AND mask w) + (mask w + 1)) = unat x + d" by (subst pl) (simp_all only: t o)
    then show "unat (((x + of_nat d) AND mask w) + (if unat x + d > unat (mask w :: u64) then mask w + 1 else 0)) = unat (x + of_nat d)"
      using True by (simp only: if_True s)
  next
    case False
    then have "unat x + d < 2 ^ w" using m zero_less_power [of "2 :: nat" w] by linarith
    then have "(unat x + d) mod 2 ^ w = unat x + d" by (rule mod_less)
    then show "unat (((x + of_nat d) AND mask w) + (if unat x + d > unat (mask w :: u64) then mask w + 1 else 0)) = unat (x + of_nat d)"
      using False by (simp only: if_False add_0_right t s)
  qed
qed

lemma wrapped_nat:
  fixes x :: u64
  assumes "w < 64" and "unat x \<le> unat (mask w :: u64)" and "d \<le> unat (mask w :: u64)"
  shows "unat ((x + of_nat d) AND mask w) + (if unat x + d > unat (mask w :: u64) then unat (mask w :: u64) + 1 else 0) = unat x + d"
proof -
  have p: "(2 :: nat) ^ w \<le> 2 ^ 63" using assms(1) by (intro power_increasing) auto
  have m: "unat (mask w :: u64) = 2 ^ w - 1" by (rule unat_mask_u64 [OF assms(1)])
  have s: "unat (x + of_nat d) = unat x + d" using assms m p by (simp add: unat_word_ariths unat_of_nat)
  have "unat ((x + of_nat d) AND mask w) = (unat x + d) mod 2 ^ w"
    by (simp only: take_bit_eq_mask [symmetric] unsigned_take_bit_eq s take_bit_nat_def)
  moreover have "unat x + d < 2 * 2 ^ w" using assms m zero_less_power [of "2 :: nat" w] by linarith
  then have "(unat x + d) mod 2 ^ w = (if unat x + d < 2 ^ w then unat x + d else unat x + d - 2 ^ w)"
    by (simp add: mod_if [of "unat x + d"])
  moreover have "unat (mask w :: u64) + 1 = 2 ^ w" using m zero_less_power [of "2 :: nat" w] by linarith
  ultimately show ?thesis by simp
qed

lemma overflow_count_step:
  fixes n :: u32
  assumes "32 \<le> w" and "w < 64"
  shows "(ucast (n + 1) :: u64) * (mask w + 1) = ucast n * (mask w + 1) + (mask w + 1)"
proof -
  have e: "mask w + 1 = (2 ^ w :: u64)" by (simp add: mask_eq_exp_minus_1)
  have "unat n < 2 ^ 32" using unsigned_less [of n] by simp
  then have t: "(ucast (n + 1) :: u64) = take_bit 32 (ucast n + 1)"
    by (intro word_unat_eq_iff [THEN iffD2]) (simp add: unat_word_ariths unsigned_ucast_eq unsigned_take_bit_eq take_bit_nat_def)
  have "push_bit w (take_bit 32 y) = push_bit w y" for y :: u64
    by (rule bit_word_eqI) (use assms in \<open>auto simp: bit_push_bit_iff bit_take_bit_iff\<close>)
  then have "(take_bit 32 y) * 2 ^ w = y * 2 ^ w" for y :: u64 by (simp add: push_bit_eq_mult)
  then show ?thesis unfolding e t by (simp add: algebra_simps)
qed

section \<open>The hardware\<close>

text \<open>The counters that are programmed for their event count; those that go past their width wrap around.\<close>

definition counting :: "msr_file \<Rightarrow> low_level_exp \<Rightarrow> bool" where
  "counting m l \<longleftrightarrow> m (ctl_of l) = ctlv_of l"

definition hw_count :: "pmu_props_t \<Rightarrow> core_experiment_t \<Rightarrow> (nat \<Rightarrow> nat) \<Rightarrow> nat \<Rightarrow> msr_file \<Rightarrow> msr_file" where
  "hw_count props ce d i m = (let l = ce_array ce ! i in
     if counting m l then m(pmc_of l := (m (pmc_of l) + of_nat (d i)) AND pmc_width_mask props) else m)"

definition hw_counts :: "pmu_props_t \<Rightarrow> core_experiment_t \<Rightarrow> (nat \<Rightarrow> nat) \<Rightarrow> msr_file \<Rightarrow> msr_file" where
  "hw_counts props ce d m = fold (hw_count props ce d) [0..<length (ce_array ce)] m"

definition overflows :: "pmu_props_t \<Rightarrow> core_experiment_t \<Rightarrow> (nat \<Rightarrow> nat) \<Rightarrow> msr_file \<Rightarrow> nat \<Rightarrow> bool" where
  "overflows props ce d m i \<longleftrightarrow> counting m (ce_array ce ! i) \<and>
     unat (m (pmc_of (ce_array ce ! i))) + d i > unat (pmc_width_mask props)"

text \<open>A counter that wraps sets its bit of the global status register, whatever its control register says; it raises the
  interrupt only when the control register enables it: the INT bit of the event-select register of a general-purpose
  counter, the PMI bit in the field of a fixed counter. Writing the overflow control register clears the bits
  that are set in the value written.\<close>

definition fixed_ctr :: "low_level_exp \<Rightarrow> bool" where
  "fixed_ctr l \<longleftrightarrow> (case ll_event l of SIMPLE _ \<Rightarrow> False | FIXED _ \<Rightarrow> True)"

definition status_bit :: "low_level_exp \<Rightarrow> nat" where
  "status_bit l = (if fixed_ctr l then 32 + unat (pmc_of l - MSR_PERF_FIXED_CTR0)
     else unat (pmc_of l - PMC_MSR_INITIAL_ADDRESS))"

definition signals :: "msr_file \<Rightarrow> low_level_exp \<Rightarrow> bool" where
  "signals m l \<longleftrightarrow> (if fixed_ctr l then bit (m (ctl_of l)) (4 * unat (pmc_of l - MSR_PERF_FIXED_CTR0) + 3)
     else bit (m (ctl_of l)) 20)"

definition pending_status :: "msr_file \<Rightarrow> u64" where
  "pending_status m = m MSR_PERF_GLOBAL_STATUS AND NOT (m MSR_PERF_GLOBAL_OVF_CTRL)"

definition status_after :: "pmu_props_t \<Rightarrow> core_experiment_t \<Rightarrow> (nat \<Rightarrow> nat) \<Rightarrow> msr_file \<Rightarrow> u64" where
  "status_after props ce d m = fold (\<lambda>i st.
       if overflows props ce d m i then st OR push_bit (status_bit (ce_array ce ! i)) 1 else st)
     [0..<length (ce_array ce)] (pending_status m)"

definition hw_run :: "pmu_props_t \<Rightarrow> core_experiment_t \<Rightarrow> (nat \<Rightarrow> nat) \<Rightarrow> msr_file \<Rightarrow> msr_file" where
  "hw_run props ce d m = (hw_counts props ce d m)
     (MSR_PERF_GLOBAL_STATUS := status_after props ce d m, MSR_PERF_GLOBAL_OVF_CTRL := 0)"

definition interrupted :: "pmu_props_t \<Rightarrow> core_experiment_t \<Rightarrow> (nat \<Rightarrow> nat) \<Rightarrow> msr_file \<Rightarrow> bool" where
  "interrupted props ce d m \<longleftrightarrow>
     (\<exists>i \<in> set [0..<length (ce_array ce)]. overflows props ce d m i \<and> signals m (ce_array ce ! i))"

lemma hw_counts_upto:
  assumes ok: "exp_ok ce" and pr: "programmed m ce" and j: "j \<le> length (ce_array ce)"
  shows "programmed (fold (hw_count props ce d) [0..<j] m) ce \<and>
    (\<forall>i < length (ce_array ce). fold (hw_count props ce d) [0..<j] m (pmc_of (ce_array ce ! i)) =
      (if i < j then (m (pmc_of (ce_array ce ! i)) + of_nat (d i)) AND pmc_width_mask props else m (pmc_of (ce_array ce ! i))))"
  using j
proof (induction j)
  case 0
  then show ?case using pr by simp
next
  case (Suc j)
  let ?A = "ce_array ce" and ?w = "pmc_width_mask props"
  let ?m = "fold (hw_count props ce d) [0..<j] m"
  let ?v = "(m (pmc_of (?A ! j)) + of_nat (d j)) AND ?w"
  have j: "j < length ?A" "?A ! j \<in> set ?A" using Suc.prems by auto
  have IH: "programmed ?m ce" "\<And>i. i < length ?A \<Longrightarrow> ?m (pmc_of (?A ! i)) = (if i < j then (m (pmc_of (?A ! i)) + of_nat (d i)) AND ?w else m (pmc_of (?A ! i)))"
    using Suc by auto
  have c: "counting ?m (?A ! j)" using IH(1) j by (simp add: programmed_def counting_def)
  have f: "fold (hw_count props ce d) [0..<Suc j] m = ?m(pmc_of (?A ! j) := ?v)"
    using c IH(2) [OF j(1)] by (simp add: hw_count_def Let_def)
  have "programmed (?m(pmc_of (?A ! j) := ?v)) ce"
    using IH(1) exp_ok_entry(5) [OF ok j(2)] unfolding programmed_def by (metis fun_upd_other)
  moreover have "(?m(pmc_of (?A ! j) := ?v)) (pmc_of (?A ! i)) =
    (if i < Suc j then (m (pmc_of (?A ! i)) + of_nat (d i)) AND ?w else m (pmc_of (?A ! i)))" if "i < length ?A" for i
  proof (cases "i = j")
    case False
    then have "pmc_of (?A ! i) \<noteq> pmc_of (?A ! j)" using exp_okD(6) [OF ok] that j(1) by (auto simp: distinct_conv_nth)
    then show ?thesis using IH(2) [OF that] False by simp
  qed simp
  ultimately show ?case unfolding f by blast
qed

lemma hw_counts_eq:
  assumes "exp_ok ce" and "programmed m ce"
  shows "programmed (hw_counts props ce d m) ce"
    and "i < length (ce_array ce) \<Longrightarrow> hw_counts props ce d m (pmc_of (ce_array ce ! i)) =
      (m (pmc_of (ce_array ce ! i)) + of_nat (d i)) AND pmc_width_mask props"
  using hw_counts_upto [OF assms order_refl, of props d] by (simp_all add: hw_counts_def)

text \<open>What the wiring of a configuration must be for its overflows to reach the module: the counters are among those
  of the processor, in the order of the mask that \<open>read_overflow_mask\<close> builds, and the general-purpose ones interrupt.\<close>

definition wired :: "pmu_props_t \<Rightarrow> core_experiment_t \<Rightarrow> bool" where
  "wired props ce \<longleftrightarrow> 0 \<le> nr_fixed_pmcs props \<and> 0 \<le> nr_gp_pmcs props \<and> nr_fixed_pmcs props + nr_gp_pmcs props \<le> 11 \<and>
     (\<forall>i < length (ce_array ce). let l = ce_array ce ! i; p = unat (ce_log_to_phys ce ! i); f = nat (nr_fixed_pmcs props) in
        pmc_of l \<noteq> MSR_PERF_GLOBAL_STATUS \<and> ctl_of l \<noteq> MSR_PERF_GLOBAL_STATUS \<and>
        p < f + nat (nr_gp_pmcs props) \<and> (fixed_ctr l \<longleftrightarrow> p < f) \<and>
        status_bit l = (if p < f then 32 + p else p - f) \<and> (\<not> fixed_ctr l \<longrightarrow> bit (ctlv_of l) 20))"

lemma wiredD:
  assumes "wired props ce" and "i < length (ce_array ce)"
  shows "pmc_of (ce_array ce ! i) \<noteq> MSR_PERF_GLOBAL_STATUS" "ctl_of (ce_array ce ! i) \<noteq> MSR_PERF_GLOBAL_STATUS"
    "unat (ce_log_to_phys ce ! i) < nat (nr_fixed_pmcs props) + nat (nr_gp_pmcs props)"
    "fixed_ctr (ce_array ce ! i) \<longleftrightarrow> unat (ce_log_to_phys ce ! i) < nat (nr_fixed_pmcs props)"
    "status_bit (ce_array ce ! i) = (if unat (ce_log_to_phys ce ! i) < nat (nr_fixed_pmcs props)
       then 32 + unat (ce_log_to_phys ce ! i) else unat (ce_log_to_phys ce ! i) - nat (nr_fixed_pmcs props))"
    "\<not> fixed_ctr (ce_array ce ! i) \<Longrightarrow> bit (ctlv_of (ce_array ce ! i)) 20"
  using assms by (simp_all add: wired_def Let_def)

lemma log_to_phys_inj:
  assumes "exp_ok ce" and "a < length (ce_array ce)" and "b < length (ce_array ce)"
    and "unat (ce_log_to_phys ce ! a) = unat (ce_log_to_phys ce ! b)"
  shows "a = b"
proof -
  have "(of_nat a :: u32) = of_nat b" using exp_okD(8) [OF assms(1,2)] exp_okD(8) [OF assms(1,3)] assms(4) by simp
  then have "unat (of_nat a :: u32) = unat (of_nat b :: u32)" by simp
  then show ?thesis using assms(2,3) exp_okD(1) [OF assms(1)] by (simp add: unat_of_nat MAX_LL_EXPS_def)
qed

lemma status_bit_bounds:
  assumes "wired props ce" and "i < length (ce_array ce)"
  shows "status_bit (ce_array ce ! i) < 64"
    and "status_bit (ce_array ce ! i) = (if p < nat (nr_fixed_pmcs props) then 32 + p else p - nat (nr_fixed_pmcs props)) \<Longrightarrow>
      p < nat (nr_fixed_pmcs props) + nat (nr_gp_pmcs props) \<Longrightarrow> unat (ce_log_to_phys ce ! i) = p"
proof -
  have s: "nat (nr_fixed_pmcs props) + nat (nr_gp_pmcs props) \<le> 11" using assms(1) unfolding wired_def by linarith
  have aux: "a = q" if "(if a < f then 32 + a else a - f) = (if q < f then 32 + q else q - f)" "a < f + g" "q < f + g" "f + g \<le> 11"
    for a q f g :: nat using that by (simp split: if_splits)
  show "status_bit (ce_array ce ! i) < 64" using wiredD(3,5) [OF assms] s by (simp split: if_splits)
  show "status_bit (ce_array ce ! i) = (if p < nat (nr_fixed_pmcs props) then 32 + p else p - nat (nr_fixed_pmcs props)) \<Longrightarrow>
      p < nat (nr_fixed_pmcs props) + nat (nr_gp_pmcs props) \<Longrightarrow> unat (ce_log_to_phys ce ! i) = p"
    by (rule aux [OF _ wiredD(3) [OF assms] _ s]) (simp_all only: wiredD(5) [OF assms])
qed

lemma status_bit_inj:
  assumes "exp_ok ce" and "wired props ce" and "a < length (ce_array ce)" and "b < length (ce_array ce)"
    and "status_bit (ce_array ce ! a) = status_bit (ce_array ce ! b)"
  shows "a = b"
  by (rule log_to_phys_inj [OF assms(1,3,4)])
    (rule status_bit_bounds(2) [OF assms(2,3)], simp_all add: assms(5) wiredD [OF assms(2,4)])

lemma status_after_bit:
  assumes "wired props ce"
  shows "bit (status_after props ce d m) b \<longleftrightarrow>
    bit (pending_status m) b \<or> (\<exists>i < length (ce_array ce). overflows props ce d m i \<and> status_bit (ce_array ce ! i) = b)"
proof -
  have "bit (fold (\<lambda>i st. if overflows props ce d m i then st OR push_bit (status_bit (ce_array ce ! i)) 1 else st) [0..<j] (s :: u64)) b \<longleftrightarrow>
    bit s b \<or> (\<exists>i < j. overflows props ce d m i \<and> status_bit (ce_array ce ! i) = b)" if "j \<le> length (ce_array ce)" for j s
    using that
  proof (induction j)
    case (Suc j)
    then have "status_bit (ce_array ce ! j) < 64" using status_bit_bounds(1) [OF assms, of j] by simp
    then show ?case using Suc by (auto simp: bit_or_iff bit_exp_iff less_Suc_eq)
  qed simp
  then show ?thesis by (simp add: status_after_def)
qed

text \<open>The mask of the interrupt has the counters whose status bit is set.\<close>

lemma or_bits_fold:
  "bit (fold (\<lambda>i msk. msk OR ucast (push_bit (g i) (drop_bit (h i) (s :: u64) AND 1))) [0..<j] (a :: u32)) p \<longleftrightarrow>
   bit a p \<or> (\<exists>i < j. p = g i \<and> bit s (h i) \<and> p < 32)"
proof (induction j)
  case (Suc j)
  have "bit (ucast (push_bit (g j) (drop_bit (h j) s AND 1)) :: u32) p \<longleftrightarrow> p = g j \<and> bit s (h j) \<and> p < 32"
    by (auto simp: bit_ucast_iff bit_push_bit_iff bit_and_iff bit_drop_bit_eq bit_1_iff simp del: push_bit_of_1 push_bit_and)
  then show ?case using Suc by (auto simp: bit_or_iff less_Suc_eq)
qed simp

lemma read_overflow_mask_bit:
  assumes "f + g \<le> 11"
  shows "bit (read_overflow_mask m f g) p \<longleftrightarrow>
    p < f + g \<and> bit (m MSR_PERF_GLOBAL_STATUS) (if p < f then 32 + p else p - f)"
proof -
  have "bit (read_overflow_mask m f g) p \<longleftrightarrow> (\<exists>i < f. p = i \<and> bit (m MSR_PERF_GLOBAL_STATUS) (32 + i) \<and> p < 32) \<or>
     (\<exists>i < g. p = f + i \<and> bit (m MSR_PERF_GLOBAL_STATUS) i \<and> p < 32)"
    unfolding read_overflow_mask_def Let_def or_bits_fold by simp
  then show ?thesis using assms by (auto simp: not_less le_iff_add)
qed

lemma overflow_mask_bits:
  assumes ok: "exp_ok ce" and wi: "wired props ce"
    and st: "\<forall>b. bit (m MSR_PERF_GLOBAL_STATUS) b \<longrightarrow> (\<exists>i < length (ce_array ce). status_bit (ce_array ce ! i) = b)"
  defines "ov \<equiv> read_overflow_mask m (nat (nr_fixed_pmcs props)) (nat (nr_gp_pmcs props))"
  shows "\<forall>p. bit ov p \<longrightarrow> (\<exists>i < length (ce_array ce). unat (ce_log_to_phys ce ! i) = p)"
    and "i < length (ce_array ce) \<Longrightarrow> bit ov (unat (ce_log_to_phys ce ! i)) \<longleftrightarrow> bit (m MSR_PERF_GLOBAL_STATUS) (status_bit (ce_array ce ! i))"
proof -
  have s: "nat (nr_fixed_pmcs props) + nat (nr_gp_pmcs props) \<le> 11" using wi unfolding wired_def by linarith
  note b = read_overflow_mask_bit [OF s, of m, folded ov_def]
  show "bit ov (unat (ce_log_to_phys ce ! i)) \<longleftrightarrow> bit (m MSR_PERF_GLOBAL_STATUS) (status_bit (ce_array ce ! i))"
    if "i < length (ce_array ce)" using wiredD [OF wi that] by (simp add: b)
  show "\<forall>p. bit ov p \<longrightarrow> (\<exists>i < length (ce_array ce). unat (ce_log_to_phys ce ! i) = p)"
  proof (intro allI impI)
    fix p assume "bit ov p"
    then have p: "p < nat (nr_fixed_pmcs props) + nat (nr_gp_pmcs props)"
      "bit (m MSR_PERF_GLOBAL_STATUS) (if p < nat (nr_fixed_pmcs props) then 32 + p else p - nat (nr_fixed_pmcs props))"
      by (simp_all only: b)
    then obtain i where "i < length (ce_array ce)"
      "status_bit (ce_array ce ! i) = (if p < nat (nr_fixed_pmcs props) then 32 + p else p - nat (nr_fixed_pmcs props))"
      using st by blast
    then show "\<exists>i < length (ce_array ce). unat (ce_log_to_phys ce ! i) = p" using status_bit_bounds(2) [OF wi] p(1) by blast
  qed
qed

section \<open>The overflow interrupt\<close>

text \<open>The handler of the interrupt, without the write that re-arms the local APIC.\<close>

definition pmc_do_nmi_counter_overflow ::
  "'m mm_manager_t \<Rightarrow> rdpmc \<Rightarrow> 'm kernel \<Rightarrow> pmon_prof_t \<Rightarrow> nat \<Rightarrow> ('m kernel \<times> pmon_prof_t \<times> bool) option" where
  "pmc_do_nmi_counter_overflow mgr rdpmc k prof c = do {
     props \<leftarrow> get_pmu_props_cpu k c;
     let overflow_mask = read_overflow_mask (kn_msrs k c) (nat (nr_fixed_pmcs props)) (nat (nr_gp_pmcs props));
     (k, prof, sig) \<leftarrow> (if overflow_mask \<noteq> 0 then do_count_on_overflow mgr rdpmc k prof c overflow_mask
       else Some (k, prof, False));
     Some (set_msrs k c (reset_overflow_status (kn_msrs k c)), prof, sig)
   }"

definition ovf_step :: "nat \<Rightarrow> core_experiment_t \<times> u32 \<Rightarrow> (core_experiment_t \<times> u32) option" where
  "ovf_step i = (\<lambda>(exp, filtered_mask).
     if filtered_mask = 0 then Some (exp, filtered_mask)
     else do {
       exp \<leftarrow> (if bit filtered_mask i then do {
           l \<leftarrow> rd (ce_phys_to_log exp) i;
           if l \<noteq> -1 then do {
             n \<leftarrow> rd (ce_nr_overflows exp) (unat l);
             ovs \<leftarrow> wr (ce_nr_overflows exp) (unat l) (n + 1);
             Some (exp\<lparr>ce_nr_overflows := ovs\<rparr>)
           } else Some exp
         } else Some exp);
       Some (exp, filtered_mask AND NOT (push_bit i 1))
     })"

lemma bit_without: "bit (m AND NOT (push_bit i 1)) p \<longleftrightarrow> bit m p \<and> p \<noteq> i" for m :: u32
  by (cases "p < 32") (auto simp: bit_and_iff bit_not_iff bit_exp_iff dest: bit_imp_le_length)

lemma ovf_loop:
  assumes ok: "exp_ok ce" and ov: "\<forall>p. bit ov p \<longrightarrow> (\<exists>i < length (ce_array ce). unat (ce_log_to_phys ce ! i) = p)"
    and j: "j \<le> MAX_LL_EXPS"
  shows "\<exists>ce' fm. foldM ovf_step [0..<j] (ce, ov) = Some (ce', fm) \<and> (\<forall>p. bit fm p \<longleftrightarrow> bit ov p \<and> j \<le> p) \<and>
    ce' = ce\<lparr>ce_nr_overflows := ce_nr_overflows ce'\<rparr> \<and> length (ce_nr_overflows ce') = MAX_LL_EXPS \<and>
    (\<forall>i < length (ce_array ce). ce_nr_overflows ce' ! i = ce_nr_overflows ce ! i +
       (if unat (ce_log_to_phys ce ! i) < j \<and> bit ov (unat (ce_log_to_phys ce ! i)) then 1 else 0))"
  using j
proof (induction j)
  case 0
  then show ?case using exp_okD(2) [OF ok] by simp
next
  case (Suc j)
  let ?n = "length (ce_array ce)" and ?lp = "\<lambda>i. unat (ce_log_to_phys ce ! i)"
  obtain ce1 fm1 where f: "foldM ovf_step [0..<j] (ce, ov) = Some (ce1, fm1)"
    and fm1: "\<And>p. bit fm1 p \<longleftrightarrow> bit ov p \<and> j \<le> p" and e: "ce1 = ce\<lparr>ce_nr_overflows := ce_nr_overflows ce1\<rparr>"
    and l1: "length (ce_nr_overflows ce1) = MAX_LL_EXPS"
    and v: "\<And>i. i < ?n \<Longrightarrow> ce_nr_overflows ce1 ! i = ce_nr_overflows ce ! i + (if ?lp i < j \<and> bit ov (?lp i) then 1 else 0)"
    using Suc by auto
  have pl: "ce_phys_to_log ce1 = ce_phys_to_log ce" by (subst e) simp
  have ff: "foldM ovf_step [0..<Suc j] (ce, ov) = ovf_step j (ce1, fm1)"
    by (cases "ovf_step j (ce1, fm1)") (simp_all add: foldM_append f)
  show ?case
  proof (cases "bit ov j")
    case False
    let ?fm = "if fm1 = 0 then fm1 else fm1 AND NOT (push_bit j 1)"
    have st: "ovf_step j (ce1, fm1) = Some (ce1, ?fm)" using False fm1 by (simp add: ovf_step_def)
    have b: "bit ?fm p \<longleftrightarrow> bit ov p \<and> Suc j \<le> p" for p
      using False fm1 [of p] bit_without [of fm1 j p] by (cases "p = j") auto
    have "ce_nr_overflows ce1 ! i = ce_nr_overflows ce ! i + (if ?lp i < Suc j \<and> bit ov (?lp i) then 1 else 0)" if "i < ?n" for i
      using v [OF that] False by (auto simp: less_Suc_eq)
    then show ?thesis unfolding ff st using b e l1 by blast
  next
    case True
    then obtain i where i: "i < ?n" "?lp i = j" using ov by blast
    have fz: "fm1 \<noteq> 0" "bit fm1 j" using True fm1 [of j] by auto
    have jl: "j < length (ce_phys_to_log ce)" using Suc.prems exp_okD(4) [OF ok] by simp
    have lg: "ce_phys_to_log ce ! j = of_nat i" using exp_okD(8) [OF ok i(1)] i(2) by simp
    have iM: "i < 11" using i(1) exp_okD(1) [OF ok] by (simp add: MAX_LL_EXPS_def)
    have ui: "unat (of_nat i :: u32) = i" using iM by (simp add: unat_of_nat)
    have ne: "(of_nat i :: u32) \<noteq> -1"
    proof
      assume "(of_nat i :: u32) = -1"
      then have "unat (of_nat i + 1 :: u32) = 0" by simp
      then show False using ui iM by (simp add: unat_word_ariths)
    qed
    let ?ce2 = "ce1\<lparr>ce_nr_overflows := (ce_nr_overflows ce1)[i := ce_nr_overflows ce1 ! i + 1]\<rparr>"
    have il: "i < length (ce_nr_overflows ce1)" using iM l1 by (simp add: MAX_LL_EXPS_def)
    have st: "ovf_step j (ce1, fm1) = Some (?ce2, fm1 AND NOT (push_bit j 1))"
      using fz jl lg ui ne il by (simp add: ovf_step_def pl rd_Some wr_Some)
    have b: "bit (fm1 AND NOT (push_bit j 1)) p \<longleftrightarrow> bit ov p \<and> Suc j \<le> p" for p
      unfolding bit_without fm1 by auto
    have inj: "?lp i' \<noteq> j" if "i' < ?n" "i' \<noteq> i" for i'
    proof
      assume "?lp i' = j"
      then have "(of_nat i' :: u32) = of_nat i" using exp_okD(8) [OF ok that(1)] lg by simp
      then have "unat (of_nat i' :: u32) = unat (of_nat i :: u32)" by simp
      then show False using ui that exp_okD(1) [OF ok] by (simp add: unat_of_nat MAX_LL_EXPS_def)
    qed
    have "ce_nr_overflows ?ce2 ! i' = ce_nr_overflows ce ! i' + (if ?lp i' < Suc j \<and> bit ov (?lp i') then 1 else 0)" if "i' < ?n" for i'
      using v [OF that] v [OF i(1)] inj [OF that] i True il by (cases "i' = i") (auto simp: less_Suc_eq)
    moreover have "?ce2 = ce\<lparr>ce_nr_overflows := ce_nr_overflows ?ce2\<rparr>" by (subst e) simp
    moreover have "length (ce_nr_overflows ?ce2) = MAX_LL_EXPS" using l1 by simp
    ultimately show ?thesis unfolding ff st using b by blast
  qed
qed

text \<open>Without a counter that samples, the interrupt only counts the overflows.\<close>

lemma overflow_handler_eq:
  assumes ok: "exp_ok ce" and en: "pf_enabled prof" and cc: "current_config k prof c = a" and ce: "kn_exps k a = Some ce"
    and ct: "get_coretype_cpu k c = Some ct" and pp: "get_pmu_props_cpu k c = Some props"
    and ov: "\<forall>p. bit ov p \<longrightarrow> (\<exists>i < length (ce_array ce). unat (ce_log_to_phys ce ! i) = p)"
  shows "\<exists>ce'. do_count_on_overflow mgr rdpmc k prof c ov = Some (set_exp k a ce', prof, False) \<and>
    ce' = ce\<lparr>ce_nr_overflows := ce_nr_overflows ce'\<rparr> \<and> length (ce_nr_overflows ce') = MAX_LL_EXPS \<and>
    (\<forall>i < length (ce_array ce). ce_nr_overflows ce' ! i = ce_nr_overflows ce ! i +
       (if bit ov (unat (ce_log_to_phys ce ! i)) then 1 else 0))"
proof -
  obtain ce' fm where f: "foldM ovf_step [0..<MAX_LL_EXPS] (ce, ov) = Some (ce', fm)"
    "ce' = ce\<lparr>ce_nr_overflows := ce_nr_overflows ce'\<rparr>" "length (ce_nr_overflows ce') = MAX_LL_EXPS"
    "\<forall>i < length (ce_array ce). ce_nr_overflows ce' ! i = ce_nr_overflows ce ! i +
       (if unat (ce_log_to_phys ce ! i) < MAX_LL_EXPS \<and> bit ov (unat (ce_log_to_phys ce ! i)) then 1 else 0)"
    using ovf_loop [OF ok ov order_refl] by auto
  have u: "update_overflow_status_non_ebs_pmcs ce ov = Some (ce', 0)"
    using f(1) exp_okD(5) [OF ok] by (simp add: update_overflow_status_non_ebs_pmcs_def ovf_step_def [abs_def])
  have "do_count_on_overflow mgr rdpmc k prof c ov = Some (set_exp k a ce', prof, False)"
    using en cc ce ct pp u by (simp add: do_count_on_overflow_def Let_def)
  then show ?thesis using f exp_okD(7) [OF ok] by auto
qed

section \<open>Counting and stopping\<close>

lemma reset_overflow_keeps:
  assumes "exp_ok ce"
  shows "zeroed (reset_overflow_status m) ce = zeroed m ce" "programmed (reset_overflow_status m) ce = programmed m ce"
  using exp_ok_entry(3,4) [OF assms] by (auto simp: zeroed_def programmed_def reset_overflow_status_def)

lemma do_count_eq:
  assumes r: "rdpmc_reads_counter rdpmc" and ok: "exp_ok ce" and len: "length (pf_pmc_values prof) = MAX_LL_EXPS"
    and ce: "kn_exps k a = Some ce" and ns: "\<not> ce_need_setup ce" and pp: "get_pmu_props_cpu k c = Some props"
  shows "\<exists>m ce' vals. do_count_mc_experiment rdpmc k c prof a True =
      Some (set_exp (set_msrs k c m) a ce', prof\<lparr>pf_pmc_values := vals\<rparr>, False) \<and> same_cfg ce ce' \<and> \<not> ce_need_setup ce' \<and>
    zeroed m ce \<and> programmed m ce \<and> acked m \<and> no_overflows ce' \<and> length vals = MAX_LL_EXPS \<and>
    (\<forall>i < MAX_LL_EXPS. vals ! i = pf_pmc_values prof ! i +
       (if i < length (ce_array ce) then value_of props (kn_msrs k c) ce i else 0))"
proof -
  obtain m ce' vals where f: "count_all rdpmc props (+) (kn_msrs k c) ce (pf_pmc_values prof) = Some (m, ce', vals)"
    "same_cfg ce ce'" "ce_need_setup ce' = ce_need_setup ce" "zeroed m ce" "programmed m ce" "no_overflows ce'" "length vals = MAX_LL_EXPS"
    "\<forall>i < MAX_LL_EXPS. vals ! i = (if i < length (ce_array ce)
       then pf_pmc_values prof ! i + value_of props (kn_msrs k c) ce i else pf_pmc_values prof ! i)"
    using count_all_eq [OF r ok len, of props "(+)" "kn_msrs k c"] by blast
  have "do_count_mc_experiment rdpmc k c prof a True =
      Some (set_exp (set_msrs k c (reset_overflow_status m)) a ce', prof\<lparr>pf_pmc_values := vals\<rparr>, False)"
    using f(1) ce ns pp by (simp add: do_count_mc_experiment_def)
  then show ?thesis using f ns reset_overflow_keeps [OF ok, of m]
    by (intro exI [of _ "reset_overflow_status m"] exI [of _ ce'] exI [of _ vals]) auto
qed

section \<open>The scheduler\<close>

text \<open>The monitoring module that observes: it appends every sample to its state.\<close>

definition recording_module :: "pmc_sample_t list monitoring_module_t" where
  "recording_module = \<lparr>mm_id = 0, mm_probe_module = None, mm_enable_module = (\<lambda>k. (0, k)),
     mm_disable_module = (\<lambda>k. k), mm_fork = None, mm_exec = None,
     mm_new_sample = Some (\<lambda>cpu s flags prof k. (k\<lparr>kn_mods := kn_mods k @ [s]\<rparr>, prof, s, 0)),
     mm_migrate = None, mm_exit = None, mm_free_task = None, mm_switch_in = None, mm_switch_out = None, mm_get_metric = None,
     mm_tick = None, mm_counter_usage = None, mm_syswide_start = None, mm_syswide_stop = None, mm_syswide_refresh = None,
     mm_syswide_dump = None\<rparr>"

definition recorder :: "pmc_sample_t list mm_manager_t" where
  "recorder = \<lparr>mgr_modules = [0], mgr_desc = (\<lambda>_. recording_module), mgr_cur_module = Some 0,
     mgr_nr_modules = 1, mgr_nr_ids = 1\<rparr>"

lemma recorder_simps [simp]:
  "mm_on_switch_in recorder prof k = (k, prof)" "mm_on_switch_out recorder prof k = (k, prof)"
  "mm_on_tick recorder c prof k = (k, prof)" "mm_on_migrate recorder p n prof k = (k, prof)"
  "mm_on_exit recorder prof k = (k, prof)"
  "pf_task_mod prof = Some 0 \<Longrightarrow> mm_on_new_sample recorder c s f prof k = (k\<lparr>kn_mods := kn_mods k @ [s]\<rparr>, prof, s, 0)"
  by (auto simp: mm_on_switch_in_def mm_on_switch_out_def mm_on_tick_def mm_on_migrate_def mm_on_exit_def mm_on_new_sample_def thread_cb_def
      task_cb_def mod_task_is_curr_def cur_module_def recorder_def recording_module_def split: option.split)

text \<open>The state: the machine, the thread, the CPU it runs on and, for each core type and each event of its
  configuration, the number of events that the thread has caused.\<close>

type_synonym sched_state = "pmc_sample_t list kernel \<times> pmon_prof_t \<times> nat option \<times> (nat \<Rightarrow> nat \<Rightarrow> nat)"

definition ctype :: "'m kernel \<Rightarrow> nat \<Rightarrow> nat" where
  "ctype k c = nat (kn_coretype_cpu k ! c)"

definition props_of :: "'m kernel \<Rightarrow> nat \<Rightarrow> pmu_props_t" where
  "props_of k c = kn_pmu_props_cputype k ! ctype k c"

definition nr_cpus :: "'m kernel \<Rightarrow> nat" where
  "nr_cpus k = length (kn_coretype_cpu k)"

definition add_counts :: "nat \<Rightarrow> (nat \<Rightarrow> nat) \<Rightarrow> (nat \<Rightarrow> nat \<Rightarrow> nat) \<Rightarrow> nat \<Rightarrow> nat \<Rightarrow> nat" where
  "add_counts t d counted = (\<lambda>t' i. if t' = t then counted t' i + d i else counted t' i)"

inductive sched_step :: "rdpmc \<Rightarrow> sched_state \<Rightarrow> sched_state \<Rightarrow> bool" for rdpmc :: rdpmc where
  switch_in: "c < nr_cpus k \<Longrightarrow> mod_restore_callback_gen recorder rdpmc k prof c = Some (k', prof') \<Longrightarrow>
    sched_step rdpmc (k, prof, None, counted) (k', prof', Some c, counted)"
| switch_out: "mod_save_callback_gen recorder rdpmc k prof c = Some (k', prof') \<Longrightarrow>
    sched_step rdpmc (k, prof, Some c, counted) (k', prof', None, counted)"
| tick: "mod_tbs_tick recorder rdpmc k prof c = Some (k', prof') \<Longrightarrow>
    sched_step rdpmc (k, prof, Some c, counted) (k', prof', Some c, counted)"
| runs: "kn_exps k (current_config k prof c) = Some ce \<Longrightarrow>
    (\<forall>i. d i \<le> (if i < length (ce_array ce) then unat (pmc_width_mask (props_of k c)) else 0)) \<Longrightarrow>
    k1 = set_msrs k c (hw_run (props_of k c) ce d (kn_msrs k c)) \<Longrightarrow>
    (if interrupted (props_of k c) ce d (kn_msrs k c)
     then \<exists>sig. pmc_do_nmi_counter_overflow recorder rdpmc k1 prof c = Some (k', prof', sig)
     else k' = k1 \<and> prof' = prof) \<Longrightarrow>
    sched_step rdpmc (k, prof, Some c, counted) (k', prof', Some c, add_counts (ctype k c) d counted)"
| others: "(\<forall>c. run = Some c \<longrightarrow> ms c = kn_msrs k c) \<Longrightarrow>
    sched_step rdpmc (k, prof, run, counted) (k\<lparr>kn_msrs := ms, kn_jiffies := j, kn_ktime := t\<rparr>, prof, run, counted)"

section \<open>Configurations that differ in their counts\<close>

lemma same_cfg_sym: "same_cfg a b \<Longrightarrow> same_cfg b a"
  by (simp add: same_cfg_def)

lemma same_cfg_nth:
  assumes "same_cfg ce ce'" and "i < length (ce_array ce)"
  shows "pmc_of (ce_array ce' ! i) = pmc_of (ce_array ce ! i)" "ctl_of (ce_array ce' ! i) = ctl_of (ce_array ce ! i)"
    "ctlv_of (ce_array ce' ! i) = ctlv_of (ce_array ce ! i)"
proof -
  have "key (ce_array ce' ! i) = key (ce_array ce ! i)"
    using assms same_cfg_length [OF assms(1)] unfolding same_cfg_def by (metis nth_map)
  then show "pmc_of (ce_array ce' ! i) = pmc_of (ce_array ce ! i)" "ctl_of (ce_array ce' ! i) = ctl_of (ce_array ce ! i)"
    "ctlv_of (ce_array ce' ! i) = ctlv_of (ce_array ce ! i)" using key_eqD by blast+
qed

lemma same_cfg_status:
  assumes "same_cfg ce ce'" and "i < length (ce_array ce)"
  shows "fixed_ctr (ce_array ce' ! i) = fixed_ctr (ce_array ce ! i)" "status_bit (ce_array ce' ! i) = status_bit (ce_array ce ! i)"
proof -
  have "key (ce_array ce' ! i) = key (ce_array ce ! i)"
    using assms same_cfg_length [OF assms(1)] unfolding same_cfg_def by (metis nth_map)
  then show f: "fixed_ctr (ce_array ce' ! i) = fixed_ctr (ce_array ce ! i)"
    by (auto simp: key_def fixed_ctr_def split: hw_event.splits)
  show "status_bit (ce_array ce' ! i) = status_bit (ce_array ce ! i)"
    by (simp add: status_bit_def f same_cfg_nth(1) [OF assms])
qed

lemma same_cfg_wired: "same_cfg ce ce' \<Longrightarrow> wired props ce \<Longrightarrow> wired props ce'"
  using same_cfg_nth [of ce ce'] same_cfg_status [of ce ce'] same_cfg_length [of ce ce']
  by (simp add: wired_def Let_def same_cfg_def)

lemma programmed_nth: "programmed m ce \<longleftrightarrow> (\<forall>i < length (ce_array ce). m (ctl_of (ce_array ce ! i)) = ctlv_of (ce_array ce ! i))"
  by (simp add: programmed_def all_set_conv_all_nth)

lemma zeroed_nth: "zeroed m ce \<longleftrightarrow> (\<forall>i < length (ce_array ce). m (pmc_of (ce_array ce ! i)) = 0)"
  by (simp add: zeroed_def all_set_conv_all_nth)

lemma same_cfg_programmed: "same_cfg ce ce' \<Longrightarrow> programmed m ce' = programmed m ce"
  using same_cfg_nth [of ce ce'] same_cfg_length [of ce ce'] by (simp add: programmed_nth)

lemma same_cfg_zeroed: "same_cfg ce ce' \<Longrightarrow> zeroed m ce' = zeroed m ce"
  using same_cfg_nth [of ce ce'] same_cfg_length [of ce ce'] by (simp add: zeroed_nth)

lemma value_zeroed:
  assumes "zeroed m ce" and "no_overflows ce" and "i < length (ce_array ce)"
  shows "value_of props m ce i = 0"
  using assms by (simp add: value_of_def zeroed_nth no_overflows_def)

section \<open>The invariant\<close>

definition buf_ok :: "'m kernel \<Rightarrow> pmon_prof_t \<Rightarrow> bool" where
  "buf_ok k prof \<longleftrightarrow> (\<forall>a. pf_samples_buffer prof = Some a \<longrightarrow> (\<exists>b. kn_bufs k a = Some b \<and> sb_ok b))"

lemma push_buffer_ok:
  assumes "buf_ok k prof" and "sample_ok s"
  shows "\<exists>bufs. push_sample_cbuffer k prof s = Some (k\<lparr>kn_bufs := bufs\<rparr>) \<and> buf_ok (k\<lparr>kn_bufs := bufs\<rparr>) prof"
proof (cases "pf_samples_buffer prof")
  case None
  then have "push_sample_cbuffer k prof s = Some (k\<lparr>kn_bufs := kn_bufs k\<rparr>)" by (simp add: push_sample_cbuffer_def)
  then show ?thesis using assms(1) by (intro exI [of _ "kn_bufs k"]) simp
next
  case (Some a)
  then obtain b where b: "kn_bufs k a = Some b" "sb_ok b" using assms(1) by (auto simp: buf_ok_def)
  obtain b' where "push_sample b s = Some b'" "sb_ok b'" using push_sample_ok [OF b(2) assms(2)] by auto
  then show ?thesis using Some b by (intro exI [of _ "(kn_bufs k)(a := Some b')"]) (simp add: push_sample_cbuffer_def buf_ok_def)
qed

text \<open>What no handler changes: the platform, the mode of the thread, its configurations (\<open>cfg\<close>: the address of that of a
  core type) and its buffer.\<close>

definition static_ok :: "(nat \<Rightarrow> nat) \<Rightarrow> (nat \<Rightarrow> core_experiment_t) \<Rightarrow> 'm kernel \<Rightarrow> pmon_prof_t \<Rightarrow> bool" where
  "static_ok cfg orig k prof \<longleftrightarrow>
     (\<forall>ct \<in> set (kn_coretype_cpu k). ct = 0 \<or> ct = 1) \<and> length (kn_pmu_props_cputype k) = 2 \<and>
     (\<forall>p \<in> set (kn_pmu_props_cputype k). \<exists>w. 32 \<le> w \<and> w < 64 \<and> pmc_width_mask p = mask w) \<and>
     \<not> syswide_monitoring_enabled k \<and> pf_mode prof = TBS_SCHED_MODE \<and> pf_enabled prof \<and>
     0 \<le> sint (pf_pid prof) \<and>
     pf_flags prof AND PMC_PREPARE_MULTIPLEXING = 0 \<and> pf_task_mod prof = Some 0 \<and> length (pf_multiplex_cfg prof) = 2 \<and>
     (\<forall>t < 2. es_exps (pf_multiplex_cfg prof ! t) \<noteq> [] \<and> es_exps (pf_multiplex_cfg prof ! t) ! 0 = Some (cfg t)) \<and>
     cfg 0 \<noteq> cfg 1 \<and> exp_ok (orig 0) \<and> exp_ok (orig 1) \<and> (\<forall>t < 2. wired (kn_pmu_props_cputype k ! t) (orig t))"

definition cfg_of :: "(nat \<Rightarrow> nat) \<Rightarrow> 'm kernel \<Rightarrow> nat \<Rightarrow> core_experiment_t" where
  "cfg_of cfg k t = the (kn_exps k (cfg t))"

definition configs_ok :: "(nat \<Rightarrow> nat) \<Rightarrow> (nat \<Rightarrow> core_experiment_t) \<Rightarrow> 'm kernel \<Rightarrow> bool" where
  "configs_ok cfg orig k \<longleftrightarrow> (\<forall>t < 2. kn_exps k (cfg t) = Some (cfg_of cfg k t) \<and> same_cfg (orig t) (cfg_of cfg k t))"

text \<open>Where the thread is: it never ran, or its last CPU has a core type whose configuration is in use.\<close>

definition place_ok :: "(nat \<Rightarrow> nat) \<Rightarrow> 'm kernel \<Rightarrow> pmon_prof_t \<Rightarrow> nat option \<Rightarrow> bool" where
  "place_ok cfg k prof run \<longleftrightarrow> pf_pmcs_config prof \<noteq> None \<and>
     (if pf_last_cpu prof = -1 then run = None \<and> (\<forall>i < MAX_LL_EXPS. pf_pmc_values prof ! i = 0)
      else 0 \<le> pf_last_cpu prof \<and> nat (pf_last_cpu prof) < nr_cpus k \<and>
        pf_pmcs_config prof = Some (cfg (ctype k (nat (pf_last_cpu prof)))) \<and>
        \<not> ce_need_setup (cfg_of cfg k (ctype k (nat (pf_last_cpu prof)))) \<and>
        (\<forall>c. run = Some c \<longrightarrow> pf_last_cpu prof = int c))"

definition running_ok :: "(nat \<Rightarrow> nat) \<Rightarrow> (nat \<Rightarrow> core_experiment_t) \<Rightarrow> 'm kernel \<Rightarrow> nat option \<Rightarrow> bool" where
  "running_ok cfg orig k run \<longleftrightarrow> (\<forall>c. run = Some c \<longrightarrow> programmed (kn_msrs k c) (orig (ctype k c)) \<and>
       (\<forall>i < length (ce_array (orig (ctype k c))).
          unat (kn_msrs k c (pmc_of (ce_array (orig (ctype k c)) ! i))) \<le> unat (pmc_width_mask (props_of k c)))) \<and>
     (\<forall>t < 2. (\<forall>c. run = Some c \<longrightarrow> ctype k c \<noteq> t) \<longrightarrow> no_overflows (cfg_of cfg k t))"

text \<open>The counts: those in the samples of a core type, those kept for the next sample, and those in the registers.\<close>

definition reported :: "pmc_sample_t list \<Rightarrow> nat \<Rightarrow> nat \<Rightarrow> u64" where
  "reported samples t i = sum_list (map (\<lambda>s. ps_pmc_counts s ! i) (filter (\<lambda>s. ps_coretype s = of_nat t) samples))"

definition kept :: "'m kernel \<Rightarrow> pmon_prof_t \<Rightarrow> nat \<Rightarrow> nat \<Rightarrow> u64" where
  "kept k prof t i = (if pf_last_cpu prof \<noteq> -1 \<and> ctype k (nat (pf_last_cpu prof)) = t then pf_pmc_values prof ! i else 0)"

definition in_registers :: "(nat \<Rightarrow> nat) \<Rightarrow> 'm kernel \<Rightarrow> nat option \<Rightarrow> nat \<Rightarrow> nat \<Rightarrow> u64" where
  "in_registers cfg k run t i = (case run of None \<Rightarrow> 0 | Some c \<Rightarrow>
     if ctype k c = t \<and> i < length (ce_array (cfg_of cfg k t))
     then value_of (props_of k c) (kn_msrs k c) (cfg_of cfg k t) i else 0)"

text \<open>A fixed counter wraps without an interrupt: the module misses the wrap unless the interrupt of another counter
  comes before its status bit is cleared. \<open>lost t i\<close> is the number of wraps missed.\<close>

definition wrap_at :: "'m kernel \<Rightarrow> nat \<Rightarrow> nat" where
  "wrap_at k t = unat (pmc_width_mask (kn_pmu_props_cputype k ! t)) + 1"

definition fixed_event :: "core_experiment_t \<Rightarrow> nat \<Rightarrow> bool" where
  "fixed_event ce i \<longleftrightarrow> i < length (ce_array ce) \<and> fixed_ctr (ce_array ce ! i)"

definition pending_ok :: "core_experiment_t \<Rightarrow> msr_file \<Rightarrow> (nat \<Rightarrow> nat) \<Rightarrow> (nat \<Rightarrow> nat) \<Rightarrow> nat \<Rightarrow> bool" where
  "pending_ok ce m counted lost w \<longleftrightarrow>
     (\<forall>i < length (ce_array ce). unat (m (pmc_of (ce_array ce ! i))) + lost i * w \<le> counted i \<and>
        (bit (pending_status m) (status_bit (ce_array ce ! i)) \<longrightarrow> 0 < lost i)) \<and>
     (\<forall>b. bit (pending_status m) b \<longrightarrow> (\<exists>i < length (ce_array ce). status_bit (ce_array ce ! i) = b))"

definition lost_ok ::
  "(nat \<Rightarrow> core_experiment_t) \<Rightarrow> 'm kernel \<Rightarrow> nat option \<Rightarrow> (nat \<Rightarrow> nat \<Rightarrow> nat) \<Rightarrow> (nat \<Rightarrow> nat \<Rightarrow> nat) \<Rightarrow> bool" where
  "lost_ok orig k run counted lost \<longleftrightarrow>
     (\<forall>t < 2. \<forall>i. lost t i * wrap_at k t \<le> counted t i \<and> (fixed_event (orig t) i \<or> lost t i = 0)) \<and>
     (\<forall>c. run = Some c \<longrightarrow>
        pending_ok (orig (ctype k c)) (kn_msrs k c) (counted (ctype k c)) (lost (ctype k c)) (wrap_at k (ctype k c)))"

definition conserved ::
  "(nat \<Rightarrow> nat) \<Rightarrow> pmc_sample_t list kernel \<Rightarrow> pmon_prof_t \<Rightarrow> nat option \<Rightarrow> (nat \<Rightarrow> nat \<Rightarrow> nat) \<Rightarrow> (nat \<Rightarrow> nat \<Rightarrow> nat) \<Rightarrow> bool" where
  "conserved cfg k prof run counted lost \<longleftrightarrow> (\<forall>t < 2. \<forall>i < MAX_LL_EXPS.
     reported (kn_mods k) t i + kept k prof t i + in_registers cfg k run t i + of_nat (lost t i * wrap_at k t) = of_nat (counted t i))"

definition sched_inv :: "(nat \<Rightarrow> nat) \<Rightarrow> (nat \<Rightarrow> core_experiment_t) \<Rightarrow> (nat \<Rightarrow> nat \<Rightarrow> nat) \<Rightarrow> sched_state \<Rightarrow> bool" where
  "sched_inv cfg orig lost = (\<lambda>(k, prof, run, counted).
     static_ok cfg orig k prof \<and> buf_ok k prof \<and> length (pf_pmc_values prof) = MAX_LL_EXPS \<and> configs_ok cfg orig k \<and>
     place_ok cfg k prof run \<and> running_ok cfg orig k run \<and> conserved cfg k prof run counted lost \<and>
     lost_ok orig k run counted lost)"

lemma ctype_cong:
  assumes "kn_coretype_cpu k' = kn_coretype_cpu k"
  shows "ctype k' = ctype k" "nr_cpus k' = nr_cpus k"
  using assms by (simp_all add: ctype_def nr_cpus_def fun_eq_iff)

lemma sched_invI:
  "static_ok cfg orig k prof \<Longrightarrow> buf_ok k prof \<Longrightarrow> length (pf_pmc_values prof) = MAX_LL_EXPS \<Longrightarrow> configs_ok cfg orig k \<Longrightarrow>
   place_ok cfg k prof run \<Longrightarrow> running_ok cfg orig k run \<Longrightarrow> conserved cfg k prof run counted lost \<Longrightarrow>
   lost_ok orig k run counted lost \<Longrightarrow> sched_inv cfg orig lost (k, prof, run, counted)"
  by (simp add: sched_inv_def)

lemma sched_invD:
  assumes "sched_inv cfg orig lost (k, prof, run, counted)"
  shows "static_ok cfg orig k prof" "buf_ok k prof" "length (pf_pmc_values prof) = MAX_LL_EXPS" "configs_ok cfg orig k"
    "place_ok cfg k prof run" "running_ok cfg orig k run" "conserved cfg k prof run counted lost" "lost_ok orig k run counted lost"
  using assms by (simp_all add: sched_inv_def)

lemma static_cong:
  assumes "static_ok cfg orig k prof" and "kn_coretype_cpu k' = kn_coretype_cpu k"
    and "kn_pmu_props_cputype k' = kn_pmu_props_cputype k" and "kn_syswide_ctl k' = kn_syswide_ctl k"
    and "pf_mode prof' = pf_mode prof" and "pf_enabled prof' = pf_enabled prof" and "pf_flags prof' = pf_flags prof"
    and "pf_task_mod prof' = pf_task_mod prof" and "length (pf_multiplex_cfg prof') = length (pf_multiplex_cfg prof)"
    and "\<And>t. t < 2 \<Longrightarrow> es_exps (pf_multiplex_cfg prof' ! t) = es_exps (pf_multiplex_cfg prof ! t)"
    and "pf_pid prof' = pf_pid prof"
  shows "static_ok cfg orig k' prof'"
  using assms by (simp add: static_ok_def syswide_monitoring_enabled_def)

lemma static_cpu:
  assumes "static_ok cfg orig k prof" and "c < nr_cpus k"
  shows "ctype k c < 2" "get_coretype_cpu k c = Some (int (ctype k c))" "get_pmu_props_cpu k c = Some (props_of k c)"
    "get_pmu_props_coretype k (int (ctype k c)) = Some (props_of k c)"
    "\<exists>w. 32 \<le> w \<and> w < 64 \<and> pmc_width_mask (props_of k c) = mask w"
proof -
  have "kn_coretype_cpu k ! c \<in> set (kn_coretype_cpu k)" using assms(2) by (simp add: nr_cpus_def)
  then have t: "kn_coretype_cpu k ! c = 0 \<or> kn_coretype_cpu k ! c = 1" using assms(1) by (auto simp: static_ok_def)
  then show a: "ctype k c < 2" by (auto simp: ctype_def)
  have i: "kn_coretype_cpu k ! c = int (ctype k c)" using t by (auto simp: ctype_def)
  show b: "get_coretype_cpu k c = Some (int (ctype k c))" using assms(2) i by (simp add: get_coretype_cpu_def rd_Some nr_cpus_def)
  have l: "length (kn_pmu_props_cputype k) = 2" using assms(1) by (simp add: static_ok_def)
  show d: "get_pmu_props_coretype k (int (ctype k c)) = Some (props_of k c)"
    using a l by (simp add: get_pmu_props_coretype_def rd_Some props_of_def)
  then show "get_pmu_props_cpu k c = Some (props_of k c)" using b by (simp add: get_pmu_props_cpu_def)
  have "props_of k c \<in> set (kn_pmu_props_cputype k)" using a l by (simp add: props_of_def)
  then show "\<exists>w. 32 \<le> w \<and> w < 64 \<and> pmc_width_mask (props_of k c) = mask w" using assms(1) by (auto simp: static_ok_def)
qed

lemma static_exp_ok: "static_ok cfg orig k prof \<Longrightarrow> t < 2 \<Longrightarrow> exp_ok (orig t)"
  by (auto simp: static_ok_def less_2_cases_iff)

lemma static_cfg_inj: "static_ok cfg orig k prof \<Longrightarrow> t < 2 \<Longrightarrow> u < 2 \<Longrightarrow> cfg t = cfg u \<longleftrightarrow> t = u"
  by (auto simp: static_ok_def less_2_cases_iff)

lemma configs_okD:
  assumes "configs_ok cfg orig k" and "static_ok cfg orig k prof" and "t < 2"
  shows "kn_exps k (cfg t) = Some (cfg_of cfg k t)" "same_cfg (orig t) (cfg_of cfg k t)" "exp_ok (cfg_of cfg k t)"
proof -
  show "kn_exps k (cfg t) = Some (cfg_of cfg k t)" and c: "same_cfg (orig t) (cfg_of cfg k t)"
    using assms(1,3) unfolding configs_ok_def by blast+
  show "exp_ok (cfg_of cfg k t)" by (rule same_cfg_ok [OF c static_exp_ok [OF assms(2,3)]])
qed

lemma configs_set:
  assumes "configs_ok cfg orig k" and "static_ok cfg orig k prof" and "t < 2" and "same_cfg (cfg_of cfg k t) ce'"
    and "kn_exps k' = (kn_exps k)(cfg t := Some ce')"
  shows "configs_ok cfg orig k'" "cfg_of cfg k' t = ce'" "u < 2 \<Longrightarrow> u \<noteq> t \<Longrightarrow> cfg_of cfg k' u = cfg_of cfg k u"
proof -
  show a: "cfg_of cfg k' t = ce'" using assms(5) by (simp add: cfg_of_def)
  show b: "cfg_of cfg k' u = cfg_of cfg k u" if "u < 2" "u \<noteq> t" for u
    using static_cfg_inj [OF assms(2) that(1) assms(3)] that(2) assms(5) by (simp add: cfg_of_def)
  show "configs_ok cfg orig k'" unfolding configs_ok_def
  proof (intro allI impI)
    fix u :: nat assume u: "u < 2"
    show "kn_exps k' (cfg u) = Some (cfg_of cfg k' u) \<and> same_cfg (orig u) (cfg_of cfg k' u)"
    proof (cases "u = t")
      case True
      then show ?thesis using a assms(4,5) configs_okD(2) [OF assms(1-3)] same_cfg_trans by auto
    next
      case False
      then show ?thesis using b [OF u False] static_cfg_inj [OF assms(2) u assms(3)] configs_okD(1,2) [OF assms(1,2) u] assms(5) by simp
    qed
  qed
qed

lemma reported_append: "reported (xs @ ys) t i = reported xs t i + reported ys t i"
  by (simp add: reported_def)

lemma conserved_step:
  assumes "conserved cfg k prof run counted lost" and "kn_mods k' = kn_mods k @ ss"
    and "\<And>t i. t < 2 \<Longrightarrow> i < MAX_LL_EXPS \<Longrightarrow>
      reported ss t i + kept k' prof' t i + in_registers cfg k' run' t i + of_nat (lost' t i * wrap_at k' t) =
      kept k prof t i + in_registers cfg k run t i + of_nat (lost t i * wrap_at k t) + of_nat (delta t i)"
    and "\<And>t i. t < 2 \<Longrightarrow> i < MAX_LL_EXPS \<Longrightarrow> counted' t i = counted t i + delta t i"
  shows "conserved cfg k' prof' run' counted' lost'"
proof -
  have "reported (kn_mods k') t i + kept k' prof' t i + in_registers cfg k' run' t i + of_nat (lost' t i * wrap_at k' t) =
      of_nat (counted' t i)" if ti: "t < 2" "i < MAX_LL_EXPS" for t i
  proof -
    have "reported (kn_mods k') t i + kept k' prof' t i + in_registers cfg k' run' t i + of_nat (lost' t i * wrap_at k' t) =
      reported (kn_mods k) t i + (reported ss t i + kept k' prof' t i + in_registers cfg k' run' t i + of_nat (lost' t i * wrap_at k' t))"
      by (simp only: assms(2) reported_append add.assoc)
    also have "\<dots> = (reported (kn_mods k) t i + kept k prof t i + in_registers cfg k run t i + of_nat (lost t i * wrap_at k t)) + of_nat (delta t i)"
      unfolding assms(3) [OF ti] by (simp only: add.assoc)
    also have "\<dots> = of_nat (counted' t i)" using assms(1) ti by (simp add: conserved_def assms(4) [OF ti])
    finally show ?thesis .
  qed
  then show ?thesis by (simp add: conserved_def)
qed

lemma conservedI:
  assumes "conserved cfg k prof run counted lost" and "kn_mods k' = kn_mods k @ ss"
    and "kn_pmu_props_cputype k' = kn_pmu_props_cputype k"
    and "\<And>t i. t < 2 \<Longrightarrow> i < MAX_LL_EXPS \<Longrightarrow>
      reported ss t i + kept k' prof' t i + in_registers cfg k' run' t i = kept k prof t i + in_registers cfg k run t i"
  shows "conserved cfg k' prof' run' counted lost"
proof (rule conserved_step [OF assms(1,2), where delta = "\<lambda>_ _. 0"])
  fix t i assume "t < (2 :: nat)" "i < MAX_LL_EXPS"
  then show "reported ss t i + kept k' prof' t i + in_registers cfg k' run' t i + of_nat (lost t i * wrap_at k' t) =
      kept k prof t i + in_registers cfg k run t i + of_nat (lost t i * wrap_at k t) + of_nat 0"
    by (simp only: assms(4) wrap_at_def assms(3)) simp
qed simp

text \<open>The counters start from 0, with no status bit pending; when they stop, nothing is pending.\<close>

lemma pending_acked: "acked m \<Longrightarrow> pending_status m = 0"
  by (simp add: acked_def pending_status_def)

lemma same_cfg_pending: "same_cfg ce ce' \<Longrightarrow> pending_ok ce' m counted lost w = pending_ok ce m counted lost w"
  using same_cfg_nth(1) [of ce ce'] same_cfg_status(2) [of ce ce'] same_cfg_length [of ce ce']
  by (simp add: pending_ok_def cong: conj_cong)

lemma lost_ok_zeroed:
  assumes "lost_ok orig k run counted lost" and "kn_pmu_props_cputype k' = kn_pmu_props_cputype k"
    and "kn_coretype_cpu k' = kn_coretype_cpu k" and "ctype k c < 2"
    and "zeroed (kn_msrs k' c) (orig (ctype k c))" and "acked (kn_msrs k' c)"
  shows "lost_ok orig k' (Some c) counted lost"
proof -
  have w: "wrap_at k' = wrap_at k" by (simp add: wrap_at_def fun_eq_iff assms(2))
  show ?thesis using assms(1,4,5) unfolding lost_ok_def w ctype_cong(1) [OF assms(3)]
    by (simp add: pending_ok_def pending_acked [OF assms(6)] zeroed_nth)
qed

lemma lost_ok_stopped:
  assumes "lost_ok orig k run counted lost" and "kn_pmu_props_cputype k' = kn_pmu_props_cputype k"
  shows "lost_ok orig k' None counted lost"
  using assms by (simp add: lost_ok_def wrap_at_def)

lemma lost_ok_same:
  assumes "lost_ok orig k run counted lost" and "kn_pmu_props_cputype k' = kn_pmu_props_cputype k"
    and "kn_coretype_cpu k' = kn_coretype_cpu k" and "\<And>c. run = Some c \<Longrightarrow> kn_msrs k' c = kn_msrs k c"
  shows "lost_ok orig k' run counted lost"
  using assms by (simp add: lost_ok_def wrap_at_def ctype_def)

lemma runningD:
  assumes "sched_inv cfg orig lost (k, prof, Some c, counted)"
  shows "c < nr_cpus k" "pf_last_cpu prof = int c" "pf_pmcs_config prof = Some (cfg (ctype k c))"
    "current_config k prof c = cfg (ctype k c)" "\<not> ce_need_setup (cfg_of cfg k (ctype k c))"
    "programmed (kn_msrs k c) (cfg_of cfg k (ctype k c))" "ctype k c < 2"
    "kn_exps k (cfg (ctype k c)) = Some (cfg_of cfg k (ctype k c))" "exp_ok (cfg_of cfg k (ctype k c))"
proof -
  note D = sched_invD [OF assms]
  show a: "c < nr_cpus k" "pf_last_cpu prof = int c" "pf_pmcs_config prof = Some (cfg (ctype k c))"
    "\<not> ce_need_setup (cfg_of cfg k (ctype k c))" using D(5) by (auto simp: place_ok_def split: if_splits)
  then show "current_config k prof c = cfg (ctype k c)" by (simp add: current_config_def)
  show t: "ctype k c < 2" by (rule static_cpu(1) [OF D(1) a(1)])
  show "programmed (kn_msrs k c) (cfg_of cfg k (ctype k c))"
    using D(6) same_cfg_programmed [OF configs_okD(2) [OF D(4,1) t]] by (simp add: running_ok_def)
  show "kn_exps k (cfg (ctype k c)) = Some (cfg_of cfg k (ctype k c))" "exp_ok (cfg_of cfg k (ctype k c))"
    by (rule configs_okD [OF D(4,1) t])+
qed

lemma running_okI:
  assumes "static_ok cfg orig k prof" and "c < nr_cpus k" and "configs_ok cfg orig k"
    and "programmed (kn_msrs k c) (cfg_of cfg k (ctype k c))" and "zeroed (kn_msrs k c) (cfg_of cfg k (ctype k c))"
    and "\<And>u. u < 2 \<Longrightarrow> u \<noteq> ctype k c \<Longrightarrow> no_overflows (cfg_of cfg k u)"
  shows "running_ok cfg orig k (Some c)"
proof -
  note t = static_cpu(1) [OF assms(1,2)]
  note s = configs_okD(2) [OF assms(3,1) t]
  have "programmed (kn_msrs k c) (orig (ctype k c))" "zeroed (kn_msrs k c) (orig (ctype k c))"
    using assms(4,5) same_cfg_programmed [OF s] same_cfg_zeroed [OF s] by simp_all
  then show ?thesis using assms(6) by (simp add: running_ok_def zeroed_nth)
qed

end
