(* ===== verification/SchedProps.thy ===== *)
theory SchedProps
  imports SchedMonitor
begin

text \<open>
  Every step of the scheduler, the hardware and the other threads keeps the invariant of \<open>SchedMonitor\<close>; what the
  configurations need for it holds for those that \<open>do_setup_pmcs\<close> builds. The properties: no event is lost
  or counted twice while the thread lives, and all of them are reported when it ends.
\<close>

section \<open>Steps keep the invariant\<close>

text \<open>Reading the counters of the running thread moves their values to the thread.\<close>

lemma count_running:
  assumes r: "rdpmc_reads_counter rdpmc" and inv: "sched_inv cfg orig lost (k, prof, Some c, counted)"
  obtains m ce' vals where
    "do_count_mc_experiment rdpmc k c prof (cfg (ctype k c)) True =
      Some (set_exp (set_msrs k c m) (cfg (ctype k c)) ce', prof\<lparr>pf_pmc_values := vals\<rparr>, False)"
    and "same_cfg (cfg_of cfg k (ctype k c)) ce'" and "\<not> ce_need_setup ce'" and "zeroed m ce'" and "programmed m ce'"
    and "acked m" and "no_overflows ce'" and "length vals = MAX_LL_EXPS"
    and "\<And>i. i < MAX_LL_EXPS \<Longrightarrow> vals ! i = kept k prof (ctype k c) i + in_registers cfg k (Some c) (ctype k c) i"
proof -
  note D = sched_invD [OF inv] and R = runningD [OF inv]
  let ?t = "ctype k c" and ?ce = "cfg_of cfg k (ctype k c)"
  obtain m ce' vals where f: "do_count_mc_experiment rdpmc k c prof (cfg ?t) True =
      Some (set_exp (set_msrs k c m) (cfg ?t) ce', prof\<lparr>pf_pmc_values := vals\<rparr>, False)"
    "same_cfg ?ce ce'" "\<not> ce_need_setup ce'" "zeroed m ?ce" "programmed m ?ce" "acked m" "no_overflows ce'" "length vals = MAX_LL_EXPS"
    and v: "\<forall>i < MAX_LL_EXPS. vals ! i = pf_pmc_values prof ! i +
       (if i < length (ce_array ?ce) then value_of (props_of k c) (kn_msrs k c) ?ce i else 0)"
    using do_count_eq [OF r R(9) D(3) R(8) R(5) static_cpu(3) [OF D(1) R(1)]] by blast
  have "vals ! i = kept k prof ?t i + in_registers cfg k (Some c) ?t i" if "i < MAX_LL_EXPS" for i
    using v that R(2) by (simp add: kept_def in_registers_def)
  then show thesis using that f same_cfg_zeroed [OF f(2)] same_cfg_programmed [OF f(2)] by blast
qed

lemma inv_switch_out:
  assumes r: "rdpmc_reads_counter rdpmc" and inv: "sched_inv cfg orig lost (k, prof, Some c, counted)"
  shows "\<exists>k' prof'. mod_save_callback_gen recorder rdpmc k prof c = Some (k', prof') \<and>
    sched_inv cfg orig lost (k', prof', None, counted)"
proof -
  note D = sched_invD [OF inv] and R = runningD [OF inv]
  let ?t = "ctype k c"
  obtain m ce' vals where f: "do_count_mc_experiment rdpmc k c prof (cfg ?t) True =
      Some (set_exp (set_msrs k c m) (cfg ?t) ce', prof\<lparr>pf_pmc_values := vals\<rparr>, False)"
    "same_cfg (cfg_of cfg k ?t) ce'" "\<not> ce_need_setup ce'" "no_overflows ce'" "length vals = MAX_LL_EXPS"
    and v: "\<And>i. i < MAX_LL_EXPS \<Longrightarrow> vals ! i = kept k prof ?t i + in_registers cfg k (Some c) ?t i"
    using count_running [OF r inv] by metis
  let ?k = "set_msrs (set_exp (set_msrs k c m) (cfg ?t) ce') c (mc_stop_all_counters m ce')"
  let ?p = "prof\<lparr>pf_pmc_values := vals, pf_last_cpu := int c\<rparr>"
  have st: "mod_save_callback_gen recorder rdpmc k prof c = Some (?k, ?p)"
    using D(1) R(2,4) f(1) by (simp add: mod_save_callback_gen_def static_ok_def stop_exp_def set_exp_def set_msrs_def Let_def)
  have ct: "kn_coretype_cpu ?k = kn_coretype_cpu k" "kn_pmu_props_cputype ?k = kn_pmu_props_cputype k"
    "kn_syswide_ctl ?k = kn_syswide_ctl k" "kn_bufs ?k = kn_bufs k" "kn_mods ?k = kn_mods k @ []"
    "kn_exps ?k = (kn_exps k)(cfg ?t := Some ce')"
    by (simp_all add: set_exp_def set_msrs_def)
  note cty = ctype_cong [OF ct(1)]
  note C = configs_set [OF D(4,1) R(7) f(2) ct(6)]
  have "sched_inv cfg orig lost (?k, ?p, None, counted)"
  proof (rule sched_invI)
    show "static_ok cfg orig ?k ?p" by (rule static_cong [OF D(1) ct(1-3)]) simp_all
    show "buf_ok ?k ?p" using D(2) by (simp add: buf_ok_def ct)
    show "length (pf_pmc_values ?p) = MAX_LL_EXPS" using f by simp
    show "configs_ok cfg orig ?k" by (rule C(1))
    show "place_ok cfg ?k ?p None" using R(1,3) f(3) by (simp add: place_ok_def cty C(2))
    have "no_overflows (cfg_of cfg ?k u)" if "u < 2" for u
      using f(4) C(2) C(3) [OF that] D(6) that by (cases "u = ?t") (auto simp: running_ok_def)
    then show "running_ok cfg orig ?k None" by (simp add: running_ok_def)
    show "conserved cfg ?k ?p None counted lost"
    proof (rule conservedI [OF D(7) ct(5,2)])
      fix u i assume "u < (2 :: nat)" "i < MAX_LL_EXPS"
      then show "reported [] u i + kept ?k ?p u i + in_registers cfg ?k None u i =
        kept k prof u i + in_registers cfg k (Some c) u i"
        using v [of i] R(2) by (cases "u = ?t") (auto simp: reported_def kept_def cty in_registers_def)
    qed
    show "lost_ok orig ?k None counted lost" by (rule lost_ok_stopped [OF D(8) ct(2)])
  qed
  then show ?thesis using st by blast
qed

text \<open>A sample of the thread: its counts are the values it kept.\<close>

lemma reported_init_sample:
  assumes "length vals = MAX_LL_EXPS" and "t < 2" and "u < 2" and "i < MAX_LL_EXPS"
  shows "reported [init_sample ty (int t) ce pid el (copy_counts vals)] u i = (if u = t then vals ! i else 0)"
  using assms by (auto simp: reported_def init_sample_def copy_counts_def less_2_cases_iff)

lemma init_sample_ok:
  "length counts = MAX_LL_EXPS \<Longrightarrow> sample_ok (init_sample ty ct ce pid el counts)"
  by (simp add: sample_ok_def init_sample_def zero_sample_def MAX_LL_EXPS_def MAX_PERFORMANCE_COUNTERS_def)

lemma inv_tick:
  assumes r: "rdpmc_reads_counter rdpmc" and inv: "sched_inv cfg orig lost (k, prof, Some c, counted)"
  shows "\<exists>k' prof'. mod_tbs_tick recorder rdpmc k prof c = Some (k', prof') \<and>
    sched_inv cfg orig lost (k', prof', Some c, counted)"
proof (cases "pf_pmc_ticks_counter prof \<ge> pf_nticks_sampling_period prof - 1")
  case False
  note D = sched_invD [OF inv] and R = runningD [OF inv]
  let ?p = "prof\<lparr>pf_pmc_ticks_counter := pf_pmc_ticks_counter prof + 1\<rparr>"
  have "mod_tbs_tick recorder rdpmc k prof c = Some (k, ?p)"
    using D(1) R(4) static_cpu [OF D(1) R(1)] False by (simp add: mod_tbs_tick_def static_ok_def sample_counters_sched_tbs_def Let_def)
  moreover have "sched_inv cfg orig lost (k, ?p, Some c, counted)"
  proof (rule sched_invI [OF _ _ _ D(4) _ D(6) _ D(8)])
    show "static_ok cfg orig k ?p" by (rule static_cong [OF D(1)]) simp_all
    show "buf_ok k ?p" using D(2) by (simp add: buf_ok_def)
    show "length (pf_pmc_values ?p) = MAX_LL_EXPS" using D(3) by simp
    show "place_ok cfg k ?p (Some c)" using D(5) by (simp add: place_ok_def)
    have "kept k ?p = kept k prof" by (simp add: kept_def fun_eq_iff)
    then show "conserved cfg k ?p (Some c) counted lost" using D(7) by (simp add: conserved_def)
  qed
  ultimately show ?thesis by blast
next
  case True
  note D = sched_invD [OF inv] and R = runningD [OF inv]
  let ?t = "ctype k c"
  obtain m ce' vals where f: "do_count_mc_experiment rdpmc k c prof (cfg ?t) True =
      Some (set_exp (set_msrs k c m) (cfg ?t) ce', prof\<lparr>pf_pmc_values := vals\<rparr>, False)"
    "same_cfg (cfg_of cfg k ?t) ce'" "\<not> ce_need_setup ce'" "zeroed m ce'" "programmed m ce'" "acked m" "no_overflows ce'" "length vals = MAX_LL_EXPS"
    and v: "\<And>i. i < MAX_LL_EXPS \<Longrightarrow> vals ! i = kept k prof ?t i + in_registers cfg k (Some c) ?t i"
    using count_running [OF r inv] by metis
  let ?k1 = "set_exp (set_msrs k c m) (cfg ?t) ce'"
  let ?s = "init_sample PMC_TICK_SAMPLE (int ?t) ce' (pf_pid prof) (kn_ktime k - pf_ref_time prof)
    (copy_counts vals)"
  let ?k2 = "?k1\<lparr>kn_mods := kn_mods k @ [?s]\<rparr>"
  let ?p = "prof\<lparr>pf_samples_counter := pf_samples_counter prof + 1, pf_pmc_ticks_counter := 0,
    pf_ref_time := kn_ktime k, pf_pmc_values := replicate MAX_LL_EXPS 0\<rparr>"
  have sok: "sample_ok ?s" by (rule init_sample_ok) (simp add: copy_counts_def f(8))
  have "buf_ok ?k2 ?p" using D(2) by (simp add: buf_ok_def set_exp_def set_msrs_def)
  from push_buffer_ok [OF this sok] obtain bufs where
    b: "push_sample_cbuffer ?k2 ?p ?s = Some (?k2\<lparr>kn_bufs := bufs\<rparr>)" "buf_ok (?k2\<lparr>kn_bufs := bufs\<rparr>) ?p" by blast
  let ?k = "?k2\<lparr>kn_bufs := bufs\<rparr>"
  have tm: "pf_task_mod prof = Some 0" "pf_mode prof = TBS_SCHED_MODE" "pf_enabled prof" using D(1) by (simp_all add: static_ok_def)
  have e1: "kn_exps ?k1 (cfg ?t) = Some ce'" "kn_ktime ?k1 = kn_ktime k" "kn_mods ?k1 = kn_mods k" by (simp_all add: set_exp_def set_msrs_def)
  have st: "mod_tbs_tick recorder rdpmc k prof c = Some (?k, ?p)"
    using R(4) static_cpu [OF D(1) R(1)] True f(1) tm b(1) e1
    by (simp add: mod_tbs_tick_def sample_counters_sched_tbs_def Let_def)
  have ct: "kn_coretype_cpu ?k = kn_coretype_cpu k" "kn_pmu_props_cputype ?k = kn_pmu_props_cputype k"
    "kn_syswide_ctl ?k = kn_syswide_ctl k" "kn_mods ?k = kn_mods k @ [?s]" "kn_exps ?k = (kn_exps k)(cfg ?t := Some ce')"
    "kn_msrs ?k c = m"
    by (simp_all add: set_exp_def set_msrs_def)
  note cty = ctype_cong [OF ct(1)]
  have po: "props_of ?k = props_of k" unfolding props_of_def fun_eq_iff cty ct by simp
  note C = configs_set [OF D(4,1) R(7) f(2) ct(5)]
  have l: "length (ce_array (orig ?t)) = length (ce_array ce')"
    using same_cfg_length [OF configs_okD(2) [OF D(4,1) R(7)]] same_cfg_length [OF f(2)] by simp
  have "sched_inv cfg orig lost (?k, ?p, Some c, counted)"
  proof (rule sched_invI)
    show "static_ok cfg orig ?k ?p" by (rule static_cong [OF D(1) ct(1-3)]) simp_all
    show "buf_ok ?k ?p" by (rule b(2))
    show "length (pf_pmc_values ?p) = MAX_LL_EXPS" by simp
    show "configs_ok cfg orig ?k" by (rule C(1))
    show "place_ok cfg ?k ?p (Some c)" using R(1-3) f(3) by (simp add: place_ok_def cty C(2))
    show "running_ok cfg orig ?k (Some c)"
    proof (rule running_okI)
      show "static_ok cfg orig ?k ?p" by (rule static_cong [OF D(1) ct(1-3)]) simp_all
      show "c < nr_cpus ?k" using R(1) by (simp add: cty)
      show "configs_ok cfg orig ?k" by (rule C(1))
      show "programmed (kn_msrs ?k c) (cfg_of cfg ?k (ctype ?k c))" using f(5) by (simp only: cty C(2) ct(6))
      show "zeroed (kn_msrs ?k c) (cfg_of cfg ?k (ctype ?k c))" using f(4) by (simp only: cty C(2) ct(6))
      fix u assume "u < (2 :: nat)" "u \<noteq> ctype ?k c"
      then show "no_overflows (cfg_of cfg ?k u)" using D(6) C(3) by (auto simp: running_ok_def cty)
    qed
    show "conserved cfg ?k ?p (Some c) counted lost"
    proof (rule conservedI [OF D(7) ct(4,2)])
      fix u i assume u: "u < (2 :: nat)" and i: "i < MAX_LL_EXPS"
      have ir: "in_registers cfg ?k (Some c) u i = 0"
      proof (cases "u = ?t")
        case True
        show ?thesis unfolding True in_registers_def option.case cty C(2) ct(6) using value_zeroed [OF f(4,7)] by simp
      qed (simp add: in_registers_def cty)
      have "kept ?k ?p u i = 0" using i by (simp add: kept_def)
      then show "reported [?s] u i + kept ?k ?p u i + in_registers cfg ?k (Some c) u i =
        kept k prof u i + in_registers cfg k (Some c) u i"
        unfolding ir reported_init_sample [OF f(8) R(7) u i] using v [OF i] R(2)
        by (cases "u = ?t") (simp_all add: kept_def in_registers_def)
    qed
    show "lost_ok orig ?k (Some c) counted lost"
    proof (rule lost_ok_zeroed [OF D(8) ct(2,1) R(7)])
      show "zeroed (kn_msrs ?k c) (orig ?t)"
        using f(4) same_cfg_zeroed [OF same_cfg_trans [OF configs_okD(2) [OF D(4,1) R(7)] f(2)]] by (simp only: ct(6))
      show "acked (kn_msrs ?k c)" using f(6) by (simp only: ct(6))
    qed
  qed
  then show ?thesis using st by blast
qed

text \<open>A thread that starts to run with its counters programmed for the core type.\<close>

lemma inv_programmed:
  assumes inv: "sched_inv cfg orig lost (k, prof, None, counted)" and c: "c < nr_cpus k"
    and k': "kn_coretype_cpu k' = kn_coretype_cpu k" "kn_pmu_props_cputype k' = kn_pmu_props_cputype k"
      "kn_syswide_ctl k' = kn_syswide_ctl k" "kn_mods k' = kn_mods k @ ss"
      "kn_exps k' = (kn_exps k)(cfg (ctype k c) := Some ((cfg_of cfg k (ctype k c))\<lparr>ce_need_setup := False\<rparr>))"
    and z: "zeroed (kn_msrs k' c) (cfg_of cfg k (ctype k c))" "programmed (kn_msrs k' c) (cfg_of cfg k (ctype k c))"
      "acked (kn_msrs k' c)"
    and p: "pf_mode prof' = pf_mode prof" "pf_enabled prof' = pf_enabled prof" "pf_flags prof' = pf_flags prof"
      "pf_task_mod prof' = pf_task_mod prof" "length (pf_multiplex_cfg prof') = length (pf_multiplex_cfg prof)"
      "\<And>t. t < 2 \<Longrightarrow> es_exps (pf_multiplex_cfg prof' ! t) = es_exps (pf_multiplex_cfg prof ! t)"
      "pf_last_cpu prof' = int c" "pf_pmcs_config prof' = Some (cfg (ctype k c))" "length (pf_pmc_values prof') = MAX_LL_EXPS"
    and pid: "pf_pid prof' = pf_pid prof" and b: "buf_ok k' prof'"
    and v: "\<And>t i. t < 2 \<Longrightarrow> i < MAX_LL_EXPS \<Longrightarrow>
      reported ss t i + (if t = ctype k c then pf_pmc_values prof' ! i else 0) = kept k prof t i"
  shows "sched_inv cfg orig lost (k', prof', Some c, counted)"
proof -
  note D = sched_invD [OF inv]
  let ?t = "ctype k c" and ?ce = "cfg_of cfg k (ctype k c)"
  have t: "?t < 2" by (rule static_cpu(1) [OF D(1) c])
  note cty = ctype_cong [OF k'(1)]
  have sc: "same_cfg ?ce (?ce\<lparr>ce_need_setup := False\<rparr>)" by (simp add: same_cfg_def)
  note C = configs_set [OF D(4,1) t sc k'(5)]
  have z': "zeroed (kn_msrs k' c) (cfg_of cfg k' ?t)" "programmed (kn_msrs k' c) (cfg_of cfg k' ?t)"
    using z same_cfg_zeroed [OF sc] same_cfg_programmed [OF sc] by (simp_all only: C(2))
  have n: "no_overflows (cfg_of cfg k u)" if "u < 2" for u using D(6) that by (simp add: running_ok_def)
  have n': "no_overflows (cfg_of cfg k' ?t)" using n [OF t] by (simp add: C(2) no_overflows_def)
  have s': "static_ok cfg orig k' prof'" by (rule static_cong [OF D(1) k'(1-3) p(1-6) pid])
  show ?thesis
  proof (rule sched_invI [OF s' b p(9) C(1)])
    show "place_ok cfg k' prof' (Some c)" using c p(7,8) by (simp add: place_ok_def cty C(2))
    show "running_ok cfg orig k' (Some c)"
    proof (rule running_okI [OF s' _ C(1)])
      show "c < nr_cpus k'" using c by (simp add: cty)
      show "programmed (kn_msrs k' c) (cfg_of cfg k' (ctype k' c))" "zeroed (kn_msrs k' c) (cfg_of cfg k' (ctype k' c))"
        using z' by (simp_all add: cty)
      show "no_overflows (cfg_of cfg k' u)" if "u < 2" "u \<noteq> ctype k' c" for u
        using n C(3) that by (simp add: cty)
    qed
    show "conserved cfg k' prof' (Some c) counted lost"
    proof (rule conservedI [OF D(7) k'(4,2)])
      fix u i assume u: "u < (2 :: nat)" "i < MAX_LL_EXPS"
      have "in_registers cfg k' (Some c) u i = 0"
        using value_zeroed [OF z'(1) n'] by (auto simp: in_registers_def cty)
      moreover have "kept k' prof' u i = (if u = ?t then pf_pmc_values prof' ! i else 0)" using p(7) by (auto simp: kept_def cty)
      ultimately show "reported ss u i + kept k' prof' u i + in_registers cfg k' (Some c) u i =
        kept k prof u i + in_registers cfg k None u i" using v [OF u] by (simp add: in_registers_def)
    qed
    show "lost_ok orig k' (Some c) counted lost"
      by (rule lost_ok_zeroed [OF D(8) k'(2,1) t _ z(3)])
        (use z(1) same_cfg_zeroed [OF configs_okD(2) [OF D(4,1) t]] in simp)
  qed
qed

lemma set_msrs_set_msrs: "set_msrs (set_msrs k c m) c m' = set_msrs k c m'"
  by (simp add: set_msrs_def)

lemma reprogram_eq:
  assumes "kn_exps k a = Some ce" and "exp_ok ce"
  shows "\<exists>m. reprogram k c a = Some (set_exp (set_msrs k c m) a (ce\<lparr>ce_need_setup := False\<rparr>)) \<and> zeroed m ce \<and> programmed m ce \<and> acked m"
proof -
  let ?k = "set_msrs k c (mc_clear_all_counters (kn_msrs k c) ce)"
  have "kn_exps ?k a = Some ce" using assms(1) by (simp add: set_msrs_def)
  from restart_exp_eq [OF this assms(2), of c] show ?thesis
    using assms(1) by (auto simp: reprogram_def clear_exp_set_def set_msrs_set_msrs)
qed

lemma change_coretype_eq:
  assumes s: "static_ok cfg orig k prof" and c: "c < nr_cpus k" and ce: "kn_exps k (cfg (ctype k c)) = Some ce" and ok: "exp_ok ce"
    and ch: "prev = -1 \<or> pf_pmcs_config prof \<noteq> Some (cfg (ctype k c))"
  shows "\<exists>m cset. change_coretype k c prof prev (int (ctype k c)) =
      Some (set_exp (set_msrs k c m) (cfg (ctype k c)) (ce\<lparr>ce_need_setup := False\<rparr>),
        prof\<lparr>pf_multiplex_cfg := (pf_multiplex_cfg prof)[ctype k c := cset], pf_pmcs_config := Some (cfg (ctype k c))\<rparr>) \<and>
    es_exps cset = es_exps (pf_multiplex_cfg prof ! ctype k c) \<and> zeroed m ce \<and> programmed m ce \<and> acked m"
proof -
  let ?t = "ctype k c"
  have t: "?t < 2" by (rule static_cpu(1) [OF s c])
  let ?cs = "pf_multiplex_cfg prof ! ?t"
  have e: "es_exps ?cs \<noteq> []" "es_exps ?cs ! 0 = Some (cfg ?t)" "?t < length (pf_multiplex_cfg prof)"
    using s t by (simp_all add: static_ok_def)
  let ?p = "prof\<lparr>pf_multiplex_cfg := (pf_multiplex_cfg prof)[?t := ?cs\<lparr>es_cur_exp := 0\<rparr>]\<rparr>"
  have u: "upd_set prof (int ?t) rewind_experiments_in_set = Some (?p, Some (cfg ?t))"
    using e by (simp add: upd_set_def rd_int_def rewind_experiments_in_set_def rd_Some)
  let ?k = "set_msrs k c (mc_clear_all_platform_counters (kn_msrs k c) (props_of k c))"
  have "kn_exps ?k (cfg ?t) = Some ce" using ce by (simp add: set_msrs_def)
  from restart_exp_eq [OF this ok, of c] obtain m where
    m: "restart_exp ?k c (Some (cfg ?t)) = Some (set_exp (set_msrs ?k c m) (cfg ?t) (ce\<lparr>ce_need_setup := False\<rparr>))"
    "zeroed m ce" "programmed m ce" "acked m" by blast
  have "change_coretype k c prof prev (int ?t) =
    Some (set_exp (set_msrs k c m) (cfg ?t) (ce\<lparr>ce_need_setup := False\<rparr>), ?p\<lparr>pf_pmcs_config := Some (cfg ?t)\<rparr>)"
    using ch u m(1) static_cpu(4) [OF s c]
    by (auto simp: change_coretype_def switch_config_def clear_platform_def set_msrs_set_msrs)
  then show ?thesis using m(2-4) by (intro exI [of _ m] exI [of _ "?cs\<lparr>es_cur_exp := 0\<rparr>"]) simp
qed

lemma inv_switch_in:
  assumes inv: "sched_inv cfg orig lost (k, prof, None, counted)" and c: "c < nr_cpus k"
  shows "\<exists>k' prof'. mod_restore_callback_gen recorder rdpmc k prof c = Some (k', prof') \<and>
    sched_inv cfg orig lost (k', prof', Some c, counted) \<and>
    kn_coretype_cpu k' = kn_coretype_cpu k \<and> kn_pmu_props_cputype k' = kn_pmu_props_cputype k"
proof -
  note D = sched_invD [OF inv]
  let ?t = "ctype k c" and ?ce = "cfg_of cfg k (ctype k c)"
  note S = static_cpu [OF D(1) c]
  note E = configs_okD [OF D(4,1) S(1)]
  have en: "pf_enabled prof" "\<not> syswide_monitoring_enabled k" "pf_mode prof = TBS_SCHED_MODE" "pf_task_mod prof = Some 0"
    "pf_flags prof AND PMC_PREPARE_MULTIPLEXING = 0" "length (pf_multiplex_cfg prof) = 2"
    using D(1) by (simp_all add: static_ok_def)
  let ?fin = "\<lambda>p. p\<lparr>pf_context_switch_timestamp := kn_jiffies k, pf_last_cpu := int c\<rparr>"
  consider (never) "pf_last_cpu prof = -1"
    | (same) c' where "pf_last_cpu prof = int c'" "c' < nr_cpus k" "ctype k c' = ?t" "pf_pmcs_config prof = Some (cfg ?t)"
    | (moved) c' where "pf_last_cpu prof = int c'" "c' < nr_cpus k" "ctype k c' \<noteq> ?t" "pf_pmcs_config prof = Some (cfg (ctype k c'))"
    using D(5) unfolding place_ok_def by (metis int_nat_eq)
  then show ?thesis
  proof cases
    case never
    obtain m cset where ch: "change_coretype k c prof (-1) (int ?t) =
        Some (set_exp (set_msrs k c m) (cfg ?t) (?ce\<lparr>ce_need_setup := False\<rparr>),
          prof\<lparr>pf_multiplex_cfg := (pf_multiplex_cfg prof)[?t := cset], pf_pmcs_config := Some (cfg ?t)\<rparr>)"
      "es_exps cset = es_exps (pf_multiplex_cfg prof ! ?t)" "zeroed m ?ce" "programmed m ?ce" "acked m"
      using change_coretype_eq [OF D(1) c E(1,3), of "-1"] by blast
    let ?k = "set_exp (set_msrs k c m) (cfg ?t) (?ce\<lparr>ce_need_setup := False\<rparr>)"
    let ?p = "?fin (prof\<lparr>pf_multiplex_cfg := (pf_multiplex_cfg prof)[?t := cset], pf_pmcs_config := Some (cfg ?t)\<rparr>)"
    have "mod_restore_callback_gen recorder rdpmc k prof c = Some (?k, ?p)"
      using never en D(5) S ch(1) by (simp add: mod_restore_callback_gen_def Let_def place_ok_def set_exp_def set_msrs_def)
    moreover have "sched_inv cfg orig lost (?k, ?p, Some c, counted)"
      using inv c D(2,3) ch never en(6) S(1) D(5)
      by (intro inv_programmed [where ss = "[]" and k = k and prof = prof])
        (auto simp: set_exp_def set_msrs_def buf_ok_def nth_list_update kept_def reported_def place_ok_def)
    moreover have "kn_coretype_cpu ?k = kn_coretype_cpu k" "kn_pmu_props_cputype ?k = kn_pmu_props_cputype k"
      by (simp_all add: set_exp_def set_msrs_def)
    ultimately show ?thesis by blast
  next
    case same
    obtain m where rp: "reprogram k c (cfg ?t) = Some (set_exp (set_msrs k c m) (cfg ?t) (?ce\<lparr>ce_need_setup := False\<rparr>))"
      "zeroed m ?ce" "programmed m ?ce" "acked m" using reprogram_eq [OF E(1,3), of c] by blast
    let ?k = "set_exp (set_msrs k c m) (cfg ?t) (?ce\<lparr>ce_need_setup := False\<rparr>)"
    have "mod_restore_callback_gen recorder rdpmc k prof c = Some (?k, ?fin prof)"
      using same en S rp(1) static_cpu(2) [OF D(1) same(2)]
      by (auto simp: mod_restore_callback_gen_def Let_def current_config_def refresh_event_multiplexing_cpu_def set_exp_def set_msrs_def)
    moreover have "sched_inv cfg orig lost (?k, ?fin prof, Some c, counted)"
      using inv c D(2,3) rp same
      by (intro inv_programmed [where ss = "[]" and k = k and prof = prof])
        (auto simp: set_exp_def set_msrs_def buf_ok_def kept_def reported_def)
    moreover have "kn_coretype_cpu ?k = kn_coretype_cpu k" "kn_pmu_props_cputype ?k = kn_pmu_props_cputype k"
      by (simp_all add: set_exp_def set_msrs_def)
    ultimately show ?thesis by blast
  next
    case moved
    let ?u = "ctype k c'"
    have u: "?u < 2" by (rule static_cpu(1) [OF D(1) moved(2)])
    note U = configs_okD [OF D(4,1) u]
    let ?s = "init_sample PMC_MIGRATION_SAMPLE (int ?u) (cfg_of cfg k ?u) (pf_pid prof) 0 (copy_counts (pf_pmc_values prof))"
    let ?k1 = "k\<lparr>kn_mods := kn_mods k @ [?s]\<rparr>" and ?p1 = "prof\<lparr>pf_pmc_values := replicate MAX_LL_EXPS 0\<rparr>"
    have "buf_ok ?k1 ?p1" using D(2) by (simp add: buf_ok_def)
    from push_buffer_ok [OF this init_sample_ok] obtain bufs where
      b: "push_sample_cbuffer ?k1 ?p1 ?s = Some (?k1\<lparr>kn_bufs := bufs\<rparr>)" "buf_ok (?k1\<lparr>kn_bufs := bufs\<rparr>) ?p1"
      using D(3) by (metis copy_counts_def length_take min.idem)
    let ?k2 = "?k1\<lparr>kn_bufs := bufs\<rparr>" and ?p2 = "?p1\<lparr>pf_pmc_ticks_counter := 0\<rparr>"
    have sm: "sample_counters_sched_tbs recorder rdpmc c k prof (cfg ?u) PMC_MIGRATION_EVT c' = Some (?k2, ?p2)"
      using static_cpu [OF D(1) moved(2)] U(1) exp_okD(5) [OF U(3)] en(4) b(1)
      by (simp add: sample_counters_sched_tbs_def Let_def)
    have s2: "static_ok cfg orig ?k2 ?p2" by (rule static_cong [OF D(1)]) simp_all
    have c2: "ctype ?k2 = ctype k" "nr_cpus ?k2 = nr_cpus k" by (rule ctype_cong, simp)+
    have ne: "cfg ?u \<noteq> cfg ?t" using static_cfg_inj [OF D(1) u S(1)] moved(3) by simp
    obtain m cset where ch: "change_coretype ?k2 c ?p2 (int ?u) (int ?t) =
        Some (set_exp (set_msrs ?k2 c m) (cfg ?t) (?ce\<lparr>ce_need_setup := False\<rparr>),
          ?p2\<lparr>pf_multiplex_cfg := (pf_multiplex_cfg ?p2)[?t := cset], pf_pmcs_config := Some (cfg ?t)\<rparr>)"
      "es_exps cset = es_exps (pf_multiplex_cfg prof ! ?t)" "zeroed m ?ce" "programmed m ?ce" "acked m"
      using change_coretype_eq [OF s2, of c ?ce "int ?u", unfolded c2] c E(1,3) moved(4) ne by auto
    let ?k = "set_exp (set_msrs ?k2 c m) (cfg ?t) (?ce\<lparr>ce_need_setup := False\<rparr>)"
    let ?p = "?fin (?p2\<lparr>pf_multiplex_cfg := (pf_multiplex_cfg ?p2)[?t := cset], pf_pmcs_config := Some (cfg ?t)\<rparr>)"
    have mg: "int c' \<noteq> int c" using moved(3) by auto
    have "mod_restore_callback_gen recorder rdpmc k prof c = Some (?k, ?p)"
      using moved en S sm ch(1) mg static_cpu(2) [OF D(1) moved(2)]
      by (simp add: mod_restore_callback_gen_def Let_def current_config_def set_exp_def set_msrs_def)
    moreover have "sched_inv cfg orig lost (?k, ?p, Some c, counted)"
    proof (rule inv_programmed [where ss = "[?s]" and k = k and prof = prof, OF inv c])
      show "buf_ok ?k ?p" using b(2) by (simp add: buf_ok_def set_exp_def set_msrs_def)
      fix v i assume v: "v < (2 :: nat)" "i < MAX_LL_EXPS"
      show "reported [?s] v i + (if v = ?t then pf_pmc_values ?p ! i else 0) = kept k prof v i"
        using moved(1,3) v(2) by (subst reported_init_sample [OF D(3) u v]) (auto simp: kept_def)
    qed (use ch en(6) S(1) in \<open>auto simp: set_exp_def set_msrs_def nth_list_update\<close>)
    moreover have "kn_coretype_cpu ?k = kn_coretype_cpu k" "kn_pmu_props_cputype ?k = kn_pmu_props_cputype k"
      by (simp_all add: set_exp_def set_msrs_def)
    ultimately show ?thesis by blast
  qed
qed

text \<open>The hardware counts: with the overflows that the interrupt counts and those that are lost, the value of every event
  grows by its number of events.\<close>

lemma value_after_count:
  assumes w: "32 \<le> w" "w < 64" "pmc_width_mask props = mask w" and m: "unat (m (pmc_of (ce_array ce ! i))) \<le> unat (pmc_width_mask props)"
    and d: "d \<le> unat (pmc_width_mask props)"
    and pmc: "pmc_of (ce_array ce' ! i) = pmc_of (ce_array ce ! i)"
    and m': "m' (pmc_of (ce_array ce ! i)) = (m (pmc_of (ce_array ce ! i)) + of_nat d) AND pmc_width_mask props"
    and o: "ce_nr_overflows ce' ! i = ce_nr_overflows ce ! i + (if seen then 1 else 0)"
    and l: "lost' + (if seen then 1 else 0) = lost +
      (if unat (m (pmc_of (ce_array ce ! i))) + d > unat (pmc_width_mask props) then 1 else 0)"
  shows "value_of props m' ce' i + of_nat (lost' * (unat (pmc_width_mask props) + 1)) =
      value_of props m ce i + of_nat (lost * (unat (pmc_width_mask props) + 1)) + of_nat d"
    "unat (m' (pmc_of (ce_array ce ! i))) + lost' * (unat (pmc_width_mask props) + 1) \<le>
      unat (m (pmc_of (ce_array ce ! i))) + lost * (unat (pmc_width_mask props) + 1) + d"
    "unat (m' (pmc_of (ce_array ce ! i))) \<le> unat (pmc_width_mask props)"
proof -
  let ?x = "m (pmc_of (ce_array ce ! i))" and ?n = "ce_nr_overflows ce ! i" and ?W = "unat (mask w :: u64) + 1"
  let ?o = "unat ?x + d > unat (mask w :: u64)"
  note ws = wrapped_sum [OF w(2) m [unfolded w(3)] d [unfolded w(3)]]
    and wn = wrapped_nat [OF w(2) m [unfolded w(3)] d [unfolded w(3)]]
  show "unat (m' (pmc_of (ce_array ce ! i))) \<le> unat (pmc_width_mask props)" using ws(2) by (simp add: m' w(3))
  have l': "lost' * ?W + (if seen then ?W else 0) = lost * ?W + (if ?o then ?W else 0)"
  proof -
    have "(lost' + (if seen then 1 else 0)) * ?W = (lost + (if ?o then 1 else 0)) * ?W" using l by (simp only: w(3))
    then show ?thesis by (simp add: add_mult_distrib split: if_splits)
  qed
  show "unat (m' (pmc_of (ce_array ce ! i))) + lost' * (unat (pmc_width_mask props) + 1) \<le> unat ?x + lost * (unat (pmc_width_mask props) + 1) + d"
    using wn l' unfolding m' w(3) by linarith
  have W: "(of_nat ?W :: u64) = mask w + 1" by simp
  have cast: "(of_nat a :: u64) + (if s then of_nat v else 0) = of_nat b + (if q then of_nat v else 0)"
    if "a + (if s then v else 0) = b + (if q then v else 0)" for a b v :: nat and s q
    using arg_cong [OF that, of "of_nat :: nat \<Rightarrow> u64"] by (simp split: if_splits)
  note lw = cast [OF l', unfolded W]
  have "(ucast (?n + (if seen then 1 else 0)) :: u64) * (mask w + 1) = ucast ?n * (mask w + 1) + (if seen then mask w + 1 else 0)"
    using overflow_count_step [OF w(1,2)] by simp
  then have "value_of props m' ce' i + of_nat (lost' * ?W) =
      ((?x + of_nat d) AND mask w) + ucast ?n * (mask w + 1) + (of_nat (lost' * ?W) + (if seen then mask w + 1 else 0))"
    by (simp add: value_of_def pmc m' o w(3) ac_simps)
  also have "\<dots> = (((?x + of_nat d) AND mask w) + (if ?o then mask w + 1 else 0)) + ucast ?n * (mask w + 1) + of_nat (lost * ?W)"
    unfolding lw by (simp only: ac_simps)
  also have "\<dots> = value_of props m ce i + of_nat (lost * ?W) + of_nat d" unfolding ws(1) by (simp add: value_of_def w(3) ac_simps)
  finally show "value_of props m' ce' i + of_nat (lost' * (unat (pmc_width_mask props) + 1)) =
      value_of props m ce i + of_nat (lost * (unat (pmc_width_mask props) + 1)) + of_nat d" unfolding w(3) .
qed

lemma hw_run_eq:
  assumes ok: "exp_ok ce" and pr: "programmed m ce" and wi: "wired props ce"
  shows "programmed (hw_run props ce d m) ce"
    and "i < length (ce_array ce) \<Longrightarrow> hw_run props ce d m (pmc_of (ce_array ce ! i)) =
      (m (pmc_of (ce_array ce ! i)) + of_nat (d i)) AND pmc_width_mask props"
    and "hw_run props ce d m MSR_PERF_GLOBAL_STATUS = status_after props ce d m"
    and "pending_status (hw_run props ce d m) = status_after props ce d m"
proof -
  note H = hw_counts_eq [OF ok pr, where props = props and d = d]
  have n: "MSR_PERF_GLOBAL_STATUS \<noteq> MSR_PERF_GLOBAL_OVF_CTRL"
    by (simp add: MSR_PERF_GLOBAL_OVF_CTRL_def MSR_PERF_GLOBAL_STATUS_def)
  have e: "pmc_of (ce_array ce ! i) \<noteq> MSR_PERF_GLOBAL_STATUS" "pmc_of (ce_array ce ! i) \<noteq> MSR_PERF_GLOBAL_OVF_CTRL"
    "ctl_of (ce_array ce ! i) \<noteq> MSR_PERF_GLOBAL_STATUS" "ctl_of (ce_array ce ! i) \<noteq> MSR_PERF_GLOBAL_OVF_CTRL"
    if "i < length (ce_array ce)" for i
    using wiredD(1,2) [OF wi that] exp_ok_entry(3,4) [OF ok nth_mem [OF that]] by simp_all
  show "programmed (hw_run props ce d m) ce" using H(1) e(3,4) by (simp add: programmed_nth hw_run_def)
  show "i < length (ce_array ce) \<Longrightarrow> hw_run props ce d m (pmc_of (ce_array ce ! i)) =
      (m (pmc_of (ce_array ce ! i)) + of_nat (d i)) AND pmc_width_mask props"
    using H(2) e(1,2) by (simp add: hw_run_def)
  show s: "hw_run props ce d m MSR_PERF_GLOBAL_STATUS = status_after props ce d m" using n by (simp add: hw_run_def)
  show "pending_status (hw_run props ce d m) = status_after props ce d m" using s by (simp add: pending_status_def) (simp add: hw_run_def)
qed

text \<open>A run of the hardware and its interrupt, if there is one: which overflows the module has seen.\<close>

lemma run_effect:
  fixes d :: "nat \<Rightarrow> nat"
  assumes inv: "sched_inv cfg orig lost (k, prof, Some c, counted)"
  defines "ce \<equiv> cfg_of cfg k (ctype k c)" and "props \<equiv> props_of k c" and "m \<equiv> kn_msrs k c"
  defines "k1 \<equiv> set_msrs k c (hw_run props ce d m)"
  obtains k' ce' seen where
    "if interrupted props ce d m then pmc_do_nmi_counter_overflow recorder rdpmc k1 prof c = Some (k', prof, False) else k' = k1"
    and "kn_exps k' = (kn_exps k)(cfg (ctype k c) := Some ce')" and "kn_coretype_cpu k' = kn_coretype_cpu k"
    and "kn_pmu_props_cputype k' = kn_pmu_props_cputype k" and "kn_syswide_ctl k' = kn_syswide_ctl k"
    and "kn_mods k' = kn_mods k @ []" and "kn_bufs k' = kn_bufs k" and "same_cfg ce ce'" and "\<not> ce_need_setup ce'"
    and "programmed (kn_msrs k' c) ce"
    and "\<And>i. i < length (ce_array ce) \<Longrightarrow> kn_msrs k' c (pmc_of (ce_array ce ! i)) =
      (m (pmc_of (ce_array ce ! i)) + of_nat (d i)) AND pmc_width_mask props"
    and "\<And>i. i < length (ce_array ce) \<Longrightarrow> ce_nr_overflows ce' ! i = ce_nr_overflows ce ! i + (if seen i then 1 else 0)"
    and "\<And>i. seen i \<longleftrightarrow> interrupted props ce d m \<and> bit (status_after props ce d m) (status_bit (ce_array ce ! i))"
    and "pending_status (kn_msrs k' c) = (if interrupted props ce d m then 0 else status_after props ce d m)"
proof -
  note D = sched_invD [OF inv] and R = runningD [OF inv, folded ce_def]
  let ?t = "ctype k c" and ?n = "length (ce_array ce)"
  have pt: "props = kn_pmu_props_cputype k ! ?t" by (simp add: props_def props_of_def)
  note sc = configs_okD(2) [OF D(4,1) R(7), folded ce_def]
  have wi: "wired props ce" using same_cfg_wired [OF sc] D(1) R(7) by (simp add: static_ok_def pt)
  note H = hw_run_eq [OF R(9) R(6) [folded m_def] wi, where d = d]
  have k1: "kn_exps k1 = kn_exps k" "kn_coretype_cpu k1 = kn_coretype_cpu k" "kn_pmu_props_cputype k1 = kn_pmu_props_cputype k"
    "kn_syswide_ctl k1 = kn_syswide_ctl k" "kn_mods k1 = kn_mods k" "kn_bufs k1 = kn_bufs k" "kn_msrs k1 c = hw_run props ce d m"
    by (simp_all add: k1_def set_msrs_def)
  show thesis
  proof (cases "interrupted props ce d m")
    case False
    show thesis
      by (rule that [of k1 ce "\<lambda>_. False"]) (use False k1 R(5,8) H(1,2,4) in \<open>simp_all add: fun_upd_idem\<close>)
  next
    case True
    let ?ov = "read_overflow_mask (kn_msrs k1 c) (nat (nr_fixed_pmcs props)) (nat (nr_gp_pmcs props))"
    have po: "pending_ok ce m (counted ?t) (lost ?t) (wrap_at k ?t)"
      using D(8) same_cfg_pending [OF sc] by (simp add: lost_ok_def m_def)
    have st: "\<forall>b. bit (kn_msrs k1 c MSR_PERF_GLOBAL_STATUS) b \<longrightarrow> (\<exists>i < ?n. status_bit (ce_array ce ! i) = b)"
      unfolding k1 H(3) status_after_bit [OF wi] using po unfolding pending_ok_def by blast
    note ovb = overflow_mask_bits [where m = "kn_msrs k1 c", OF R(9) wi st]
    have en: "pf_enabled prof" using D(1) by (simp add: static_ok_def)
    have c1: "current_config k1 prof c = cfg ?t" using R(3) by (simp add: current_config_def)
    have g: "get_coretype_cpu k1 c = Some (int ?t)" "get_pmu_props_cpu k1 c = Some props"
      using static_cpu [OF D(1) R(1)] k1 by (simp_all add: get_coretype_cpu_def get_pmu_props_cpu_def get_pmu_props_coretype_def props_def)
    have c8: "kn_exps k1 (cfg ?t) = Some ce" using R(8) by (simp add: k1)
    obtain ce' where h: "do_count_on_overflow recorder rdpmc k1 prof c ?ov = Some (set_exp k1 (cfg ?t) ce', prof, False)"
      "ce' = ce\<lparr>ce_nr_overflows := ce_nr_overflows ce'\<rparr>" "length (ce_nr_overflows ce') = MAX_LL_EXPS"
      "\<forall>i < ?n. ce_nr_overflows ce' ! i = ce_nr_overflows ce ! i + (if bit ?ov (unat (ce_log_to_phys ce ! i)) then 1 else 0)"
      using overflow_handler_eq [OF R(9) en c1 c8 g ovb(1)] by blast
    obtain i where i: "i < ?n" "overflows props ce d m i" using True by (auto simp: interrupted_def)
    then have "bit (status_after props ce d m) (status_bit (ce_array ce ! i))" unfolding status_after_bit [OF wi] by blast
    then have "bit ?ov (unat (ce_log_to_phys ce ! i))" using ovb(2) [OF i(1)] by (simp add: k1 H(3))
    then have nz: "?ov \<noteq> 0" by (metis bit_0_eq bot_apply bot_bool_def)
    let ?k2 = "set_exp k1 (cfg ?t) ce'" let ?k = "set_msrs ?k2 c (reset_overflow_status (kn_msrs ?k2 c))"
    have m2: "kn_msrs ?k c = reset_overflow_status (hw_run props ce d m)" using k1(7) by (simp add: set_exp_def set_msrs_def)
    have f: "ce_array ce' = ce_array ce" "ce_log_to_phys ce' = ce_log_to_phys ce" "ce_phys_to_log ce' = ce_phys_to_log ce"
      "ce_ebs_idx ce' = ce_ebs_idx ce" "ce_exp_idx ce' = ce_exp_idx ce" "ce_used_pmcs ce' = ce_used_pmcs ce"
      "ce_need_setup ce' = ce_need_setup ce" by (subst h(2), simp)+
    show thesis
    proof (rule that [of ?k ce' "\<lambda>i. bit (status_after props ce d m) (status_bit (ce_array ce ! i))"])
      show "if interrupted props ce d m then pmc_do_nmi_counter_overflow recorder rdpmc k1 prof c = Some (?k, prof, False) else ?k = k1"
        using True g(2) h(1) nz by (simp add: pmc_do_nmi_counter_overflow_def Let_def)
      show "same_cfg ce ce'" using h(3) exp_okD(2) [OF R(9)] by (simp add: same_cfg_def f)
      show "\<not> ce_need_setup ce'" using R(5) f(7) by simp
      show "programmed (kn_msrs ?k c) ce" unfolding m2 using H(1) reset_overflow_keeps(2) [OF R(9)] by simp
      show "kn_msrs ?k c (pmc_of (ce_array ce ! i)) = (m (pmc_of (ce_array ce ! i)) + of_nat (d i)) AND pmc_width_mask props"
        if "i < ?n" for i
        using H(2) [OF that] exp_ok_entry(3) [OF R(9) nth_mem [OF that]] unfolding m2 by (simp add: reset_overflow_status_def)
      show "ce_nr_overflows ce' ! i = ce_nr_overflows ce ! i +
          (if bit (status_after props ce d m) (status_bit (ce_array ce ! i)) then 1 else 0)" if "i < ?n" for i
        using h(4) ovb(2) [OF that] that unfolding k1 H(3) by simp
      show "pending_status (kn_msrs ?k c) = (if interrupted props ce d m then 0 else status_after props ce d m)"
        unfolding m2 using True by (simp add: pending_acked)
    qed (use True k1 in \<open>simp_all add: set_exp_def set_msrs_def\<close>)
  qed
qed

lemma inv_runs:
  fixes d :: "nat \<Rightarrow> nat"
  assumes inv: "sched_inv cfg orig lost (k, prof, Some c, counted)"
    and d: "\<forall>i. d i \<le> (if i < length (ce_array (cfg_of cfg k (ctype k c))) then unat (pmc_width_mask (props_of k c)) else 0)"
  defines "k1 \<equiv> set_msrs k c (hw_run (props_of k c) (cfg_of cfg k (ctype k c)) d (kn_msrs k c))"
  shows "\<exists>k' lost'. (if interrupted (props_of k c) (cfg_of cfg k (ctype k c)) d (kn_msrs k c)
      then pmc_do_nmi_counter_overflow recorder rdpmc k1 prof c = Some (k', prof, False) else k' = k1) \<and>
    sched_inv cfg orig lost' (k', prof, Some c, add_counts (ctype k c) d counted)"
proof -
  note D = sched_invD [OF inv] and R = runningD [OF inv]
  let ?t = "ctype k c" and ?ce = "cfg_of cfg k (ctype k c)" and ?props = "props_of k c" and ?m = "kn_msrs k c"
  let ?n = "length (ce_array ?ce)" and ?irq = "interrupted (props_of k c) (cfg_of cfg k (ctype k c)) d (kn_msrs k c)"
  let ?st = "status_after ?props ?ce d ?m" and ?W = "wrap_at k ?t"
  let ?x = "\<lambda>i. ?m (pmc_of (ce_array ?ce ! i))" and ?sb = "\<lambda>i. status_bit (ce_array ?ce ! i)"
  let ?o = "\<lambda>i. unat (?m (pmc_of (ce_array ?ce ! i))) + d i > unat (pmc_width_mask ?props)"
  obtain k' ce' seen where
    k': "if ?irq then pmc_do_nmi_counter_overflow recorder rdpmc k1 prof c = Some (k', prof, False) else k' = k1"
    and e: "kn_exps k' = (kn_exps k)(cfg ?t := Some ce')" "kn_coretype_cpu k' = kn_coretype_cpu k"
      "kn_pmu_props_cputype k' = kn_pmu_props_cputype k" "kn_syswide_ctl k' = kn_syswide_ctl k"
      "kn_mods k' = kn_mods k @ []" "kn_bufs k' = kn_bufs k" "same_cfg ?ce ce'" "\<not> ce_need_setup ce'"
    and pm: "programmed (kn_msrs k' c) ?ce"
    and m': "\<And>i. i < ?n \<Longrightarrow> kn_msrs k' c (pmc_of (ce_array ?ce ! i)) = (?x i + of_nat (d i)) AND pmc_width_mask ?props"
    and ov: "\<And>i. i < ?n \<Longrightarrow> ce_nr_overflows ce' ! i = ce_nr_overflows ?ce ! i + (if seen i then 1 else 0)"
    and seen: "\<And>i. seen i \<longleftrightarrow> ?irq \<and> bit ?st (?sb i)"
    and ps: "pending_status (kn_msrs k' c) = (if ?irq then 0 else ?st)"
    using run_effect [OF inv, where d = d and rdpmc = rdpmc, folded k1_def] by blast
  note sc = configs_okD(2) [OF D(4,1) R(7)]
  note nl = same_cfg_length [OF sc] same_cfg_length [OF e(7)]
  have pt: "?props = kn_pmu_props_cputype k ! ?t" by (simp add: props_of_def)
  have W: "?W = unat (pmc_width_mask ?props) + 1" by (simp add: wrap_at_def pt)
  have wi: "wired ?props ?ce" using same_cfg_wired [OF sc] D(1) R(7) by (simp add: static_ok_def pt)
  have po: "pending_ok ?ce ?m (counted ?t) (lost ?t) ?W"
    using D(8) same_cfg_pending [OF sc] by (simp add: lost_ok_def)
  have le: "lost ?t i * ?W \<le> counted ?t i" and fx: "fixed_event (orig ?t) i \<or> lost ?t i = 0" for i
    using D(8) R(7) by (auto simp: lost_ok_def)
  have of: "overflows ?props ?ce d ?m i \<longleftrightarrow> ?o i" if "i < ?n" for i
    using R(6) that by (simp add: overflows_def counting_def programmed_nth)
  have sb: "bit ?st (?sb i) \<longleftrightarrow> bit (pending_status ?m) (?sb i) \<or> ?o i" if i: "i < ?n" for i
    unfolding status_after_bit [OF wi] using status_bit_inj [OF R(9) wi _ i] i of by metis
  have pl: "bit (pending_status ?m) (?sb i) \<Longrightarrow> 0 < lost ?t i" if "i < ?n" for i
    using po that by (simp add: pending_ok_def)
  define lost' where "lost' = (\<lambda>u i. if u = ?t \<and> i < ?n
    then lost u i + (if ?o i then 1 else 0) - (if seen i then 1 else 0) else lost u i)"
  have lo: "lost' ?t i + (if seen i then 1 else 0) = lost ?t i + (if ?o i then 1 else 0)" if "i < ?n" for i
    using that sb [OF that] pl [OF that] seen [of i] by (auto simp: lost'_def)
  obtain w where w: "32 \<le> w" "w < 64" "pmc_width_mask ?props = mask w" using static_cpu(5) [OF D(1) R(1)] by blast
  have bnd: "unat (?x i) \<le> unat (pmc_width_mask ?props)" if "i < ?n" for i
    using D(6) that nl(1) same_cfg_nth(1) [OF sc, of i] by (simp add: running_ok_def)
  have di: "d i \<le> unat (pmc_width_mask ?props)" if "i < ?n" for i using d that by (metis (full_types))
  have z: "d i = 0" if "\<not> i < ?n" for i using d that by (metis le_zero_eq)
  have va: "value_of ?props (kn_msrs k' c) ce' i + of_nat (lost' ?t i * ?W) = value_of ?props ?m ?ce i + of_nat (lost ?t i * ?W) + of_nat (d i)"
    "unat (kn_msrs k' c (pmc_of (ce_array ?ce ! i))) + lost' ?t i * ?W \<le> unat (?x i) + lost ?t i * ?W + d i"
    "unat (kn_msrs k' c (pmc_of (ce_array ?ce ! i))) \<le> unat (pmc_width_mask ?props)" if i: "i < ?n" for i
    unfolding W by (rule value_after_count [where m = ?m and m' = "kn_msrs k' c" and ce = ?ce and ce' = ce' and i = i and d = "d i",
        OF w bnd [OF i] di [OF i] same_cfg_nth(1) [OF e(7) i] m' [OF i] ov [OF i] lo [OF i]])+
  have gp: "fixed_event (orig ?t) i \<or> lost' ?t i = 0" for i
  proof (cases "i < ?n \<and> \<not> fixed_ctr (ce_array ?ce ! i)")
    case True
    then have "\<not> fixed_event (orig ?t) i" using nl(1) same_cfg_status(1) [OF sc, of i] by (simp add: fixed_event_def)
    then have l0: "lost ?t i = 0" using fx by blast
    have "signals ?m (ce_array ?ce ! i)" using R(6) wiredD(6) [OF wi] True by (simp add: signals_def programmed_nth)
    then have "?o i \<Longrightarrow> ?irq" using True of by (auto simp: interrupted_def)
    then have "seen i \<longleftrightarrow> ?o i" using seen [of i] sb [of i] pl [of i] l0 True by auto
    then show ?thesis using lo [of i] l0 True by simp
  next
    case False
    then show ?thesis using fx [of i] nl(1) same_cfg_status(1) [OF sc, of i] by (auto simp: lost'_def fixed_event_def)
  qed
  have po': "pending_ok ?ce (kn_msrs k' c) (add_counts ?t d counted ?t) (lost' ?t) ?W" unfolding pending_ok_def
  proof (intro conjI allI impI)
    fix i assume i: "i < ?n"
    show "unat (kn_msrs k' c (pmc_of (ce_array ?ce ! i))) + lost' ?t i * ?W \<le> add_counts ?t d counted ?t i"
      using va(2) [OF i] po i by (fastforce simp: pending_ok_def add_counts_def)
    show "0 < lost' ?t i" if "bit (pending_status (kn_msrs k' c)) (?sb i)"
      using that sb [OF i] pl [OF i] lo [OF i] seen [of i] unfolding ps by (auto split: if_splits)
  next
    fix b assume "bit (pending_status (kn_msrs k' c)) b"
    then have "bit ?st b" unfolding ps by (auto split: if_splits)
    then show "\<exists>i < ?n. ?sb i = b" unfolding status_after_bit [OF wi] using po unfolding pending_ok_def by blast
  qed
  note cty = ctype_cong [OF e(2)]
  have wr: "wrap_at k' = wrap_at k" by (simp add: wrap_at_def fun_eq_iff e(3))
  have prp: "props_of k' = props_of k" unfolding props_of_def fun_eq_iff cty e(3) by simp
  note C = configs_set [OF D(4,1) R(7) e(7,1)]
  have s': "static_ok cfg orig k' prof" by (rule static_cong [OF D(1) e(2-4)]) simp_all
  have "sched_inv cfg orig lost' (k', prof, Some c, add_counts ?t d counted)"
  proof (rule sched_invI [OF s' _ D(3) C(1)])
    show "buf_ok k' prof" using D(2) by (simp add: buf_ok_def e(6))
    show "place_ok cfg k' prof (Some c)" using R(1-3) e(8) by (simp add: place_ok_def cty C(2))
    have "programmed (kn_msrs k' c) (orig ?t)" using pm same_cfg_programmed [OF sc] by simp
    then show "running_ok cfg orig k' (Some c)"
      using D(6) va(3) nl(1) same_cfg_nth(1) [OF sc] C(3) by (auto simp: running_ok_def cty prp)
    show "conserved cfg k' prof (Some c) (add_counts ?t d counted) lost'"
    proof (rule conserved_step [OF D(7) e(5), where delta = "\<lambda>u i. if u = ?t then d i else 0"])
      fix u i assume u: "u < (2 :: nat)" "i < MAX_LL_EXPS"
      have "in_registers cfg k' (Some c) u i + of_nat (lost' u i * wrap_at k' u) =
        in_registers cfg k (Some c) u i + of_nat (lost u i * wrap_at k u) + of_nat (if u = ?t then d i else 0)"
      proof (cases "u = ?t \<and> i < ?n")
        case True
        have "in_registers cfg k' (Some c) ?t i = value_of ?props (kn_msrs k' c) ce' i"
          "in_registers cfg k (Some c) ?t i = value_of ?props ?m ?ce i"
          unfolding in_registers_def option.case cty prp using C(2) True nl(2) by simp_all
        then show ?thesis using va(1) [of i] True by (simp only: wr if_True simp_thms)
      next
        case False
        then show ?thesis using z [of i] C(2) nl(2) by (auto simp: in_registers_def cty prp wr lost'_def)
      qed
      moreover have "kept k' prof = kept k prof" by (simp add: kept_def fun_eq_iff cty)
      ultimately show "reported [] u i + kept k' prof u i + in_registers cfg k' (Some c) u i + of_nat (lost' u i * wrap_at k' u) =
        kept k prof u i + in_registers cfg k (Some c) u i + of_nat (lost u i * wrap_at k u) + of_nat (if u = ?t then d i else 0)"
        by (simp only: reported_def filter.simps list.map sum_list.Nil add_0_left add.assoc)
    qed (simp add: add_counts_def)
    show "lost_ok orig k' (Some c) (add_counts ?t d counted) lost'" unfolding lost_ok_def wr cty
    proof (intro conjI allI impI)
      fix u i assume u: "u < (2 :: nat)"
      show "lost' u i * wrap_at k u \<le> add_counts ?t d counted u i"
      proof (cases "u = ?t \<and> i < ?n")
        case True
        then show ?thesis using po' by (auto simp: pending_ok_def)
      next
        case False
        have "lost u i * wrap_at k u \<le> counted u i" using D(8) u by (simp add: lost_ok_def)
        then show ?thesis using False by (auto simp: lost'_def add_counts_def)
      qed
      show "fixed_event (orig u) i \<or> lost' u i = 0"
        using gp [of i] D(8) u by (cases "u = ?t") (auto simp: lost_ok_def lost'_def)
    next
      fix c' assume "Some c = Some c'"
      then show "pending_ok (orig (ctype k c')) (kn_msrs k' c') (add_counts ?t d counted (ctype k c')) (lost' (ctype k c'))
          (wrap_at k (ctype k c'))"
        using po' same_cfg_pending [OF sc] by simp
    qed
  qed
  then show ?thesis using k' by blast
qed

lemma inv_others:
  assumes inv: "sched_inv cfg orig lost (k, prof, run, counted)" and ms: "\<forall>c. run = Some c \<longrightarrow> ms c = kn_msrs k c"
  shows "sched_inv cfg orig lost (k\<lparr>kn_msrs := ms, kn_jiffies := j, kn_ktime := t\<rparr>, prof, run, counted)"
proof -
  note D = sched_invD [OF inv]
  let ?k = "k\<lparr>kn_msrs := ms, kn_jiffies := j, kn_ktime := t\<rparr>"
  have c: "ctype ?k = ctype k" "nr_cpus ?k = nr_cpus k" by (rule ctype_cong, simp)+
  have p: "props_of ?k = props_of k" unfolding props_of_def fun_eq_iff c by simp
  have o: "cfg_of cfg ?k = cfg_of cfg k" by (simp add: cfg_of_def fun_eq_iff)
  have i: "in_registers cfg ?k run = in_registers cfg k run"
    using ms by (intro ext) (auto simp: in_registers_def c p o split: option.split)
  have "kept ?k prof = kept k prof" by (simp add: kept_def fun_eq_iff c)
  then show ?thesis
    using D ms static_cong [OF D(1), of ?k prof]
      lost_ok_same [OF D(8), of ?k] wrap_at_def [of ?k] wrap_at_def [of k]
    by (intro sched_invI) (auto simp: buf_ok_def configs_ok_def place_ok_def running_ok_def conserved_def c p o i)
qed

section \<open>Configurations that the module builds\<close>

lemma fold_unchanged: "(\<And>k. k \<in> set xs \<Longrightarrow> f k = (\<lambda>e. e)) \<Longrightarrow> fold f xs e = e"
  by (induction xs) auto

lemma setup_exp_ok:
  assumes F: "0 \<le> nr_fixed_pmcs props" "nr_fixed_pmcs props \<le> 3" and len: "length (pmc_cfg cc) = MAX_LL_EXPS"
    and no_ebs: "\<And>k. k < MAX_LL_EXPS \<Longrightarrow> bit msk k \<Longrightarrow> cfg_ebs_mode (pmc_cfg cc ! k) = 0"
    and su: "do_setup_pmcs props cc msk idx = Some (ce, cc')"
  shows "exp_ok ce"
proof -
  let ?us = "used msk MAX_LL_EXPS" and ?w = "fixed_ctrl_word props cc msk"
  let ?l = "lle_for props (pmc_cfg cc) ?w"
  have ce: "ce = setup_result props cc msk idx" using su do_setup_pmcs_eq [OF F len] by simp
  have arr: "ce_array ce = map ?l ?us" by (simp add: ce setup_result_def Let_def)
  have tab: "ce_nr_overflows ce = replicate MAX_LL_EXPS 0"
    "ce_log_to_phys ce = map of_nat ?us @ replicate (MAX_LL_EXPS - length ?us) (-1)"
    "ce_phys_to_log ce = map (\<lambda>k. if bit msk k then of_nat (rank_of msk k) else -1) [0..<MAX_LL_EXPS]"
    by (simp_all add: ce setup_result_def Let_def)
  have ul: "length ?us \<le> MAX_LL_EXPS" by (metis diff_zero length_filter_le length_upt)
  have ebs: "ce_ebs_idx ce = -1"
    unfolding ce setup_result_def Let_def core_experiment_t.simps by (rule fold_unchanged) (use no_ebs in auto)
  have pa: "unat (pmc_of (?l k)) = (if int k < nr_fixed_pmcs props then 777 + k else 193 + (k - nat (nr_fixed_pmcs props)))"
    if "k < MAX_LL_EXPS" for k
  proof (cases "int k < nr_fixed_pmcs props")
    case True
    then have "k < 3" using F by simp
    then show ?thesis using True by (simp add: pmc_of_def lle_for_def fixed_lle_def init_low_level_exp_id_def init_fixed_count_exp_def pmc_addr_vals)
  next
    case False
    define g where "g = int k - nr_fixed_pmcs props"
    have g: "0 \<le> g" "g \<le> 10" "nat g = k - nat (nr_fixed_pmcs props)" using False F that by (auto simp: g_def MAX_LL_EXPS_def nat_diff_distrib')
    show ?thesis using False g(3)
      by (simp add: pmc_of_def lle_for_def gp_lle_def init_low_level_exp_id_def init_simple_exp_def pmc_addr_vals(1) [OF g(1,2)] flip: g_def)
  qed
  have "inj_on (\<lambda>k. pmc_of (?l k)) (set ?us)"
  proof (rule inj_onI)
    fix a b assume ab: "a \<in> set ?us" "b \<in> set ?us" "pmc_of (?l a) = pmc_of (?l b)"
    then have "unat (pmc_of (?l a)) = unat (pmc_of (?l b))" "a < 11" "b < 11" by (simp_all add: MAX_LL_EXPS_def)
    then show "a = b" using pa [of a] pa [of b] F by (simp add: MAX_LL_EXPS_def split: if_splits)
  qed
  then have dist: "distinct (map pmc_of (ce_array ce))" by (simp add: arr distinct_map comp_def)
  have rst: "reset_val (?l k) = 0" if "k \<in> set ?us" for k
    using no_ebs [of k] that
    by (simp add: reset_val_def lle_for_def fixed_lle_def gp_lle_def init_low_level_exp_id_def init_simple_exp_def
        init_fixed_count_exp_def reset_of_def force_os_def)
  have ev: "ll_event l \<in> ll_event ` set (ce_array (setup_result props cc msk idx))" if "l \<in> set (ce_array ce)" for l
    using that by (auto simp: ce)
  note r = saved_last_value [OF _ F]
  have rd: "rdpmc_reads_counter (\<lambda>m i. m (PMC_MSR_INITIAL_ADDRESS + i))" by (simp add: rdpmc_reads_counter_def)
  have entry: "index_ok l \<and> pmc_of l \<noteq> MSR_PERF_GLOBAL_OVF_CTRL \<and> ctl_of l \<noteq> MSR_PERF_GLOBAL_OVF_CTRL \<and>
      (\<forall>l' \<in> set (ce_array ce). pmc_of l \<noteq> ctl_of l' \<and> (ctl_of l = ctl_of l' \<longrightarrow> ctlv_of l = ctlv_of l'))" if l: "l \<in> set (ce_array ce)" for l
  proof (intro conjI ballI)
    show "index_ok l" by (cases rule: setup_events [OF F ev [OF l]]) (auto simp: index_ok_def key_def pmc_of_def)
    show "pmc_of l \<noteq> MSR_PERF_GLOBAL_OVF_CTRL" "ctl_of l \<noteq> MSR_PERF_GLOBAL_OVF_CTRL"
      using ovf_ctrl_not_used [OF F ev [OF l]] by (simp_all add: pmc_of_def ctl_of_def)
    fix l' assume l': "l' \<in> set (ce_array ce)"
    note c = saved_consistent [OF rd F, of "\<lambda>_. 0" cc msk idx, unfolded consistent_def]
    let ?sv = "\<lambda>l. save_context_hw_event (\<lambda>m i. m (PMC_MSR_INITIAL_ADDRESS + i)) (\<lambda>_. 0) (ll_event l)"
    have "?sv l \<in> set (map ?sv (ce_array (setup_result props cc msk idx)))" "?sv l' \<in> set (map ?sv (ce_array (setup_result props cc msk idx)))"
      using l l' by (simp_all add: ce)
    from bspec [OF bspec [OF c this(1)] this(2)]
    have "pmc_addr (ll_event l) \<noteq> ctl_addr (ll_event l') \<and>
      (ctl_addr (ll_event l) = ctl_addr (ll_event l') \<longrightarrow> ctl_value (ll_event l) = ctl_value (ll_event l'))"
      unfolding r(2-4) [OF rd ev [OF l]] r(2-4) [OF rd ev [OF l']] by blast
    then show "pmc_of l \<noteq> ctl_of l'" "ctl_of l = ctl_of l' \<longrightarrow> ctlv_of l = ctlv_of l'"
      by (simp_all add: pmc_of_def ctl_of_def ctlv_of_def)
  qed
  have inv: "unat (ce_log_to_phys ce ! i) < MAX_LL_EXPS \<and> ce_phys_to_log ce ! unat (ce_log_to_phys ce ! i) = of_nat i"
    if i: "i < length (ce_array ce)" for i
  proof -
    have i': "i < length ?us" using i by (simp add: arr)
    have u: "?us ! i < MAX_LL_EXPS \<and> bit msk (?us ! i)" using nth_mem [OF i'] by simp
    have "ce_log_to_phys ce ! i = of_nat (?us ! i)" using i' by (simp add: tab nth_append)
    then have "unat (ce_log_to_phys ce ! i) = ?us ! i" using of_nat_u32_small u by simp
    then show ?thesis using u rank_used_nth [OF i'] by (simp add: tab)
  qed
  show ?thesis unfolding exp_ok_def
  proof (intro conjI ballI allI impI)
    show "length (ce_array ce) \<le> MAX_LL_EXPS" using ul by (simp add: arr)
    show "ce_ebs_idx ce = -1" by (rule ebs)
    show "distinct (map pmc_of (ce_array ce))" by (rule dist)
    show "length (ce_nr_overflows ce) = MAX_LL_EXPS" "length (ce_log_to_phys ce) = MAX_LL_EXPS" "length (ce_phys_to_log ce) = MAX_LL_EXPS"
      using ul by (simp_all add: tab)
    fix i assume "i < length (ce_array ce)"
    then show "unat (ce_log_to_phys ce ! i) < MAX_LL_EXPS" "ce_phys_to_log ce ! unat (ce_log_to_phys ce ! i) = of_nat i"
      using inv by blast+
  next
    fix l assume l: "l \<in> set (ce_array ce)"
    show "reset_val l = 0" using rst l by (auto simp: arr)
    show "index_ok l" "pmc_of l \<noteq> MSR_PERF_GLOBAL_OVF_CTRL" "ctl_of l \<noteq> MSR_PERF_GLOBAL_OVF_CTRL" using entry [OF l] by blast+
    fix l' assume "l' \<in> set (ce_array ce)"
    then show "pmc_of l \<noteq> ctl_of l'" "ctl_of l = ctl_of l' \<Longrightarrow> ctlv_of l = ctlv_of l'" using entry [OF l] by blast+
  qed
qed

lemma setup_entries:
  assumes F: "0 \<le> nr_fixed_pmcs props" "nr_fixed_pmcs props \<le> 3" and len: "length (pmc_cfg cc) = MAX_LL_EXPS"
    and su: "do_setup_pmcs props cc msk idx = Some (ce, cc')" and i: "i < length (ce_array ce)"
  obtains k where "k < MAX_LL_EXPS" "bit msk k" "unat (ce_log_to_phys ce ! i) = k"
    "ce_array ce ! i = lle_for props (pmc_cfg cc) (fixed_ctrl_word props cc msk) k"
proof -
  have ce: "ce = setup_result props cc msk idx" using su do_setup_pmcs_eq [OF F len] by simp
  have i': "i < length (used msk MAX_LL_EXPS)" using i by (simp add: ce setup_result_def Let_def)
  have u: "used msk MAX_LL_EXPS ! i < MAX_LL_EXPS \<and> bit msk (used msk MAX_LL_EXPS ! i)" using nth_mem [OF i'] by simp
  have "ce_log_to_phys ce ! i = of_nat (used msk MAX_LL_EXPS ! i)" using i' by (simp add: ce setup_result_def Let_def nth_append)
  then have "unat (ce_log_to_phys ce ! i) = used msk MAX_LL_EXPS ! i" using of_nat_u32_small u by simp
  then show thesis using that [of "used msk MAX_LL_EXPS ! i"] u i' by (simp add: ce setup_result_def Let_def)
qed

text \<open>Which status bit a counter of a configuration has, and whether its control register enables its interrupt.\<close>

lemma lle_for_wiring:
  fixes msk :: u32 and cc :: pmc_config_set_t
  assumes F: "0 \<le> nr_fixed_pmcs props" "nr_fixed_pmcs props \<le> 3" and k: "k < MAX_LL_EXPS" "bit msk k"
  defines "l \<equiv> lle_for props (pmc_cfg cc) (fixed_ctrl_word props cc msk) k"
  shows "fixed_ctr l \<longleftrightarrow> k < nat (nr_fixed_pmcs props)"
    "status_bit l = (if k < nat (nr_fixed_pmcs props) then 32 + k else k - nat (nr_fixed_pmcs props))"
    "pmc_of l \<noteq> MSR_PERF_GLOBAL_STATUS" "ctl_of l \<noteq> MSR_PERF_GLOBAL_STATUS"
    "m (ctl_of l) = ctlv_of l \<Longrightarrow> signals m l \<longleftrightarrow> \<not> fixed_ctr l \<or> cfg_ebs_mode (pmc_cfg cc ! k) \<noteq> 0"
    "\<not> fixed_ctr l \<Longrightarrow> bit (ctlv_of l) 20"
proof -
  let ?w = "fixed_ctrl_word props cc msk"
  have bf: "field n 1 v = 1 \<longleftrightarrow> bit v n" for v :: u64 and n
    by (simp add: field_def bit_iff_odd_drop_bit mod_2_eq_odd take_bit_Suc)
  have gs: "unat (MSR_PERF_GLOBAL_STATUS :: u32) = 910" by (simp add: MSR_PERF_GLOBAL_STATUS_def)
  have "(fixed_ctr l \<longleftrightarrow> k < nat (nr_fixed_pmcs props)) \<and>
    status_bit l = (if k < nat (nr_fixed_pmcs props) then 32 + k else k - nat (nr_fixed_pmcs props)) \<and>
    pmc_of l \<noteq> MSR_PERF_GLOBAL_STATUS \<and> ctl_of l \<noteq> MSR_PERF_GLOBAL_STATUS \<and>
    (m (ctl_of l) = ctlv_of l \<longrightarrow> (signals m l \<longleftrightarrow> \<not> fixed_ctr l \<or> cfg_ebs_mode (pmc_cfg cc ! k) \<noteq> 0)) \<and>
    (\<not> fixed_ctr l \<longrightarrow> bit (ctlv_of l) 20)"
  proof (cases "int k < nr_fixed_pmcs props")
    case True
    then have k3: "k < 3" "k < nat (nr_fixed_pmcs props)" using F by auto
    have l: "ll_event l = FIXED (init_fixed_count_exp (MSR_PERF_FIXED_CTR0 + of_nat k) ?w (reset_of props (pmc_cfg cc ! k)))"
      using True by (simp add: l_def lle_for_def fixed_lle_def init_low_level_exp_id_def)
    have p: "pmc_of l = MSR_PERF_FIXED_CTR0 + of_nat k" "ctlv_of l = ?w" "unat (pmc_of l) = 777 + k" "unat (ctl_of l) = 909" "fixed_ctr l"
      using k3(1) by (simp_all add: pmc_of_def ctl_of_def ctlv_of_def fixed_ctr_def l init_fixed_count_exp_def pmc_addr_vals)
    have u: "unat (of_nat k :: u32) = k" by (rule of_nat_u32_small [OF k(1)])
    have "pmc_of l \<noteq> MSR_PERF_GLOBAL_STATUS" "ctl_of l \<noteq> MSR_PERF_GLOBAL_STATUS" using p(3,4) gs k3(1) by auto
    moreover have "bit ?w (4 * k + 3) \<longleftrightarrow> cfg_ebs_mode (pmc_cfg cc ! k) \<noteq> 0"
      using fixed_word_fields(2) [OF F(2), of k "pmc_cfg cc" msk MAX_LL_EXPS] True k
      unfolding bf [symmetric] fixed_ctrl_word_fields(2) [OF F(2) k3(1)] by simp
    ultimately show ?thesis using p k3 u by (simp add: status_bit_def signals_def)
  next
    case False
    define g where "g = int k - nr_fixed_pmcs props"
    have g: "0 \<le> g" "g \<le> 10" "nat g = k - nat (nr_fixed_pmcs props)" using False F k by (auto simp: g_def MAX_LL_EXPS_def nat_diff_distrib')
    let ?c = "force_os g (pmc_cfg cc ! k)"
    have l: "ll_event l = SIMPLE (init_simple_exp (PMC_MSR_INITIAL_ADDRESS + word_of_int g) (word_of_int g)
        (EVTSEL_MSR_INITIAL_ADDRESS + word_of_int g) (evtsel_word ?c) (reset_of props ?c))"
      using False by (simp add: l_def lle_for_def gp_lle_def init_low_level_exp_id_def flip: g_def)
    have p: "pmc_of l = PMC_MSR_INITIAL_ADDRESS + word_of_int g" "ctlv_of l = evtsel_word ?c" "unat (pmc_of l) = 193 + nat g"
      "unat (ctl_of l) = 390 + nat g" "\<not> fixed_ctr l"
      by (simp_all add: pmc_of_def ctl_of_def ctlv_of_def fixed_ctr_def l init_simple_exp_def pmc_addr_vals(1,2) [OF g(1,2)])
    have u: "unat (word_of_int g :: u32) = nat g" using g(1,2) by (simp add: unat_eq_nat_uint word_uint_eqI uint_word_of_int)
    have "pmc_of l \<noteq> MSR_PERF_GLOBAL_STATUS" "ctl_of l \<noteq> MSR_PERF_GLOBAL_STATUS" using p(3,4) gs g(1,2) by auto
    moreover have "bit (evtsel_word ?c) 20" using evtsel_word_fields(6) [of ?c] by (simp only: bf)
    ultimately show ?thesis using p g(3) u False by (auto simp: status_bit_def signals_def)
  qed
  then show "fixed_ctr l \<longleftrightarrow> k < nat (nr_fixed_pmcs props)"
    "status_bit l = (if k < nat (nr_fixed_pmcs props) then 32 + k else k - nat (nr_fixed_pmcs props))"
    "pmc_of l \<noteq> MSR_PERF_GLOBAL_STATUS" "ctl_of l \<noteq> MSR_PERF_GLOBAL_STATUS"
    "m (ctl_of l) = ctlv_of l \<Longrightarrow> signals m l \<longleftrightarrow> \<not> fixed_ctr l \<or> cfg_ebs_mode (pmc_cfg cc ! k) \<noteq> 0"
    "\<not> fixed_ctr l \<Longrightarrow> bit (ctlv_of l) 20" by blast+
qed

lemma setup_wired:
  assumes F: "0 \<le> nr_fixed_pmcs props" "nr_fixed_pmcs props \<le> 3"
    and g: "0 \<le> nr_gp_pmcs props" "nr_fixed_pmcs props + nr_gp_pmcs props \<le> 11" and len: "length (pmc_cfg cc) = MAX_LL_EXPS"
    and msk: "\<And>k. k < MAX_LL_EXPS \<Longrightarrow> bit msk k \<Longrightarrow> int k < nr_fixed_pmcs props + nr_gp_pmcs props"
    and su: "do_setup_pmcs props cc msk idx = Some (ce, cc')"
  shows "wired props ce"
  unfolding wired_def Let_def
proof (intro conjI allI impI F(1) g)
  fix i assume i: "i < length (ce_array ce)"
  obtain k where k: "k < MAX_LL_EXPS" "bit msk k" "unat (ce_log_to_phys ce ! i) = k"
    "ce_array ce ! i = lle_for props (pmc_cfg cc) (fixed_ctrl_word props cc msk) k"
    by (rule setup_entries [OF F len su i])
  note L = lle_for_wiring [OF F k(1,2), where cc = cc, folded k(4)]
  show "pmc_of (ce_array ce ! i) \<noteq> MSR_PERF_GLOBAL_STATUS" "ctl_of (ce_array ce ! i) \<noteq> MSR_PERF_GLOBAL_STATUS"
    "fixed_ctr (ce_array ce ! i) \<longleftrightarrow> unat (ce_log_to_phys ce ! i) < nat (nr_fixed_pmcs props)"
    "status_bit (ce_array ce ! i) = (if unat (ce_log_to_phys ce ! i) < nat (nr_fixed_pmcs props)
       then 32 + unat (ce_log_to_phys ce ! i) else unat (ce_log_to_phys ce ! i) - nat (nr_fixed_pmcs props))"
    by (rule L(3) L(4) L(1) [folded k(3)] L(2) [folded k(3)])+
  show "unat (ce_log_to_phys ce ! i) < nat (nr_fixed_pmcs props) + nat (nr_gp_pmcs props)"
    using msk [OF k(1,2)] k(3) F(1) g(1) by linarith
  show "bit (ctlv_of (ce_array ce ! i)) 20" if "\<not> fixed_ctr (ce_array ce ! i)" using L(6) that by blast
qed


section \<open>Properties\<close>

lemma sched_step_inv:
  assumes "rdpmc_reads_counter rdpmc" and "sched_step rdpmc s s'" and "sched_inv cfg orig lost s"
  shows "\<exists>lost'. sched_inv cfg orig lost' s'"
  using assms(2,3)
proof cases
  case (switch_in c k prof k' prof' counted)
  then show ?thesis using inv_switch_in [of cfg orig lost k prof counted c rdpmc] assms(3) by auto
next
  case (switch_out k prof c k' prof' counted)
  then show ?thesis using inv_switch_out [OF assms(1), of cfg orig lost k prof c counted] assms(3) by auto
next
  case (tick k prof c k' prof' counted)
  then show ?thesis using inv_tick [OF assms(1), of cfg orig lost k prof c counted] assms(3) by auto
next
  case (runs k prof c ce d k1 k' prof' counted)
  have inv: "sched_inv cfg orig lost (k, prof, Some c, counted)" using assms(3) runs(1) by simp
  have "ce = cfg_of cfg k (ctype k c)" using runs(3) runningD(4,8) [OF inv] by simp
  then show ?thesis using inv_runs [OF inv, where d = d and rdpmc = rdpmc] runs by (auto split: if_splits)
next
  case (others run ms k prof counted j t)
  then show ?thesis using inv_others assms(3) by blast
qed

lemma sched_reachable_inv:
  assumes "(sched_step rdpmc)\<^sup>*\<^sup>* s s'" and "rdpmc_reads_counter rdpmc" and "sched_inv cfg orig lost s"
  shows "\<exists>lost'. sched_inv cfg orig lost' s'"
  using assms(1,3)
proof (induction rule: rtranclp_induct)
  case (step y z)
  then show ?case using sched_step_inv [OF assms(2)] by blast
qed blast

text \<open>A thread that has not run yet, on an Intel platform of one or two core types, with a configuration for each that the
  module built, without a counter that samples, of counters that the processor has.\<close>

definition built_by_setup :: "pmu_props_t \<Rightarrow> core_experiment_t \<Rightarrow> bool" where
  "built_by_setup props ce \<longleftrightarrow> (\<exists>cc msk idx cc'. 0 \<le> nr_fixed_pmcs props \<and> nr_fixed_pmcs props \<le> 3 \<and>
     0 \<le> nr_gp_pmcs props \<and> nr_fixed_pmcs props + nr_gp_pmcs props \<le> 11 \<and> length (pmc_cfg cc) = MAX_LL_EXPS \<and>
     (\<forall>k < MAX_LL_EXPS. bit msk k \<longrightarrow> cfg_ebs_mode (pmc_cfg cc ! k) = 0 \<and> int k < nr_fixed_pmcs props + nr_gp_pmcs props) \<and>
     do_setup_pmcs props cc msk idx = Some (ce, cc'))"

definition new_thread :: "(nat \<Rightarrow> nat) \<Rightarrow> pmc_sample_t list kernel \<Rightarrow> pmon_prof_t \<Rightarrow> bool" where
  "new_thread cfg k prof \<longleftrightarrow>
     (\<forall>ct \<in> set (kn_coretype_cpu k). ct = 0 \<or> ct = 1) \<and> length (kn_pmu_props_cputype k) = 2 \<and>
     (\<forall>p \<in> set (kn_pmu_props_cputype k). \<exists>w. 32 \<le> w \<and> w < 64 \<and> pmc_width_mask p = mask w) \<and>
     \<not> syswide_monitoring_enabled k \<and> kn_mods k = [] \<and>
     pf_mode prof = TBS_SCHED_MODE \<and> pf_enabled prof \<and> 0 \<le> sint (pf_pid prof) \<and> pf_flags prof = 0 \<and> pf_task_mod prof = Some 0 \<and>
     pf_last_cpu prof = -1 \<and> pf_pmc_values prof = replicate MAX_LL_EXPS 0 \<and> pf_pmcs_config prof = Some (cfg 0) \<and>
     buf_ok k prof \<and> length (pf_multiplex_cfg prof) = 2 \<and> cfg 0 \<noteq> cfg 1 \<and>
     (\<forall>t < 2. es_exps (pf_multiplex_cfg prof ! t) \<noteq> [] \<and> es_exps (pf_multiplex_cfg prof ! t) ! 0 = Some (cfg t) \<and>
        (\<exists>ce. kn_exps k (cfg t) = Some ce \<and> built_by_setup (kn_pmu_props_cputype k ! t) ce))"

lemma built_by_setup_ok:
  assumes "built_by_setup props ce"
  shows "exp_ok ce" "no_overflows ce" "wired props ce"
proof -
  obtain cc msk idx cc' where b: "0 \<le> nr_fixed_pmcs props" "nr_fixed_pmcs props \<le> 3" "length (pmc_cfg cc) = MAX_LL_EXPS"
    "0 \<le> nr_gp_pmcs props" "nr_fixed_pmcs props + nr_gp_pmcs props \<le> 11"
    "\<forall>k < MAX_LL_EXPS. bit msk k \<longrightarrow> cfg_ebs_mode (pmc_cfg cc ! k) = 0 \<and> int k < nr_fixed_pmcs props + nr_gp_pmcs props"
    "do_setup_pmcs props cc msk idx = Some (ce, cc')"
    using assms unfolding built_by_setup_def by blast
  show ok: "exp_ok ce" by (rule setup_exp_ok [OF b(1-3) _ b(7)]) (use b(6) in blast)
  have "ce = setup_result props cc msk idx" using b(7) do_setup_pmcs_eq [OF b(1-3)] by simp
  then have "ce_nr_overflows ce = replicate MAX_LL_EXPS 0" by (simp add: setup_result_def Let_def)
  then show "no_overflows ce" using exp_okD(1) [OF ok] by (simp add: no_overflows_def)
  show "wired props ce" by (rule setup_wired [OF b(1,2,4,5,3) _ b(7)]) (use b(6) in blast)
qed

lemma new_thread_inv:
  assumes "new_thread cfg k prof"
  shows "sched_inv cfg (cfg_of cfg k) (\<lambda>_ _. 0) (k, prof, None, \<lambda>_ _. 0)"
proof -
  have ce: "kn_exps k (cfg t) = Some (cfg_of cfg k t) \<and> built_by_setup (kn_pmu_props_cputype k ! t) (cfg_of cfg k t)" if "t < 2" for t
    using assms that by (auto simp: new_thread_def cfg_of_def)
  note b = built_by_setup_ok [OF ce [THEN conjunct2]]
  show ?thesis
  proof (rule sched_invI)
    show "static_ok cfg (cfg_of cfg k) k prof" using assms b(1,3) by (simp add: new_thread_def static_ok_def)
    show "buf_ok k prof" "length (pf_pmc_values prof) = MAX_LL_EXPS" using assms by (simp_all add: new_thread_def)
    show "configs_ok cfg (cfg_of cfg k) k" using ce by (simp add: configs_ok_def)
    show "place_ok cfg k prof None" using assms by (simp add: new_thread_def place_ok_def)
    show "running_ok cfg (cfg_of cfg k) k None" using b(2) by (simp add: running_ok_def)
    show "conserved cfg k prof None (\<lambda>_ _. 0) (\<lambda>_ _. 0)"
      using assms by (simp add: new_thread_def conserved_def reported_def kept_def in_registers_def)
    show "lost_ok (cfg_of cfg k) k None (\<lambda>_ _. 0) (\<lambda>_ _. 0)" by (simp add: lost_ok_def)
  qed
qed

text \<open>A machine with a core of each type, and a thread with two counters on each.\<close>

definition two_counters :: pmc_config_set_t where
  "two_counters = sample_config\<lparr>pmc_cfg := replicate 11 plain_cfg\<rparr>"

definition hybrid_machine :: "pmc_sample_t list kernel" where
  "hybrid_machine = (kernel_with [])\<lparr>kn_coretype_cpu := [0, 1], kn_pmu_props_cputype := [sample_props, sample_props],
     kn_exps := (\<lambda>_. None)(1 := Some (setup_result sample_props two_counters 0x81 0),
                              2 := Some (setup_result sample_props two_counters 0x81 0))\<rparr>"

definition new_prof_of :: pmon_prof_t where
  "new_prof_of = a_prof\<lparr>pf_task_mod := Some 0, pf_pmcs_config := Some 1,
     pf_multiplex_cfg := [\<lparr>es_exps = [Some 1, None], es_nr_exps = 1, es_cur_exp = 0\<rparr>,
                          \<lparr>es_exps = [Some 2, None], es_nr_exps = 1, es_cur_exp = 0\<rparr>]\<rparr>"

lemma hybrid_new_thread: "new_thread Suc hybrid_machine new_prof_of"
proof -
  have c: "0 \<le> nr_fixed_pmcs sample_props" "nr_fixed_pmcs sample_props \<le> 3" "length (pmc_cfg two_counters) = MAX_LL_EXPS"
    by (simp_all add: sample_ok two_counters_def MAX_LL_EXPS_def)
  have e: "cfg_ebs_mode (pmc_cfg two_counters ! k) = 0 \<and> int k < nr_fixed_pmcs sample_props + nr_gp_pmcs sample_props"
    if "k < MAX_LL_EXPS" for k
    using that by (simp add: two_counters_def MAX_LL_EXPS_def plain_cfg_def sample_props_def)
  have g: "0 \<le> nr_gp_pmcs sample_props" "nr_fixed_pmcs sample_props + nr_gp_pmcs sample_props \<le> 11" by (simp_all add: sample_props_def)
  have b: "built_by_setup sample_props (setup_result sample_props two_counters 0x81 0)"
    unfolding built_by_setup_def using c e g do_setup_pmcs_eq [OF c, of "0x81" 0] by blast
  have w: "\<exists>w. 32 \<le> w \<and> w < 64 \<and> pmc_width_mask sample_props = mask w" using sample_ok(4) by (intro exI [of _ 48]) simp
  have two: "(\<forall>t < 2. P t) \<longleftrightarrow> P 0 \<and> P (Suc 0)" for P :: "nat \<Rightarrow> bool" by (auto simp: less_2_cases_iff)
  show ?thesis unfolding new_thread_def two
    using b w by (simp add: hybrid_machine_def kernel_with_def new_prof_of_def a_prof_def syswide_monitoring_enabled_def
        idle_syswide_ctl_def SYSWIDE_MONITORING_STARTING_def buf_ok_def)
qed

lemma static_wrap:
  assumes "static_ok cfg orig k prof" and "t < 2"
  shows "2 ^ 32 \<le> wrap_at k t"
proof -
  have "kn_pmu_props_cputype k ! t \<in> set (kn_pmu_props_cputype k)" using assms by (simp add: static_ok_def)
  then obtain w where w: "32 \<le> w" "w < 64" "pmc_width_mask (kn_pmu_props_cputype k ! t) = mask w"
    using assms(1) by (auto simp: static_ok_def)
  have "(2 :: nat) ^ 32 \<le> 2 ^ w" by (rule power_increasing) (use w(1) in simp_all)
  then show ?thesis using unat_mask_u64 [OF w(2)] by (simp add: wrap_at_def w(3))
qed

definition five_events :: "nat \<Rightarrow> nat" where
  "five_events = (\<lambda>i. if i = 0 then 5 else 0)"

lemma hybrid_run:
  assumes r: "rdpmc_reads_counter rdpmc"
  shows "\<exists>k prof. (sched_step rdpmc)\<^sup>*\<^sup>* (hybrid_machine, new_prof_of, None, \<lambda>_ _. 0)
    (k, prof, Some 0, add_counts 0 five_events (\<lambda>_ _. 0)) \<and> 5 < wrap_at k 0"
proof -
  note i0 = new_thread_inv [OF hybrid_new_thread]
  let ?c0 = "\<lambda>_ _. 0 :: nat" and ?h = hybrid_machine
  have n: "0 < nr_cpus ?h" "kn_coretype_cpu ?h = [0, 1]" "kn_pmu_props_cputype ?h = [sample_props, sample_props]"
    by (simp_all add: nr_cpus_def hybrid_machine_def)
  obtain k1 p1 where s1: "mod_restore_callback_gen recorder rdpmc ?h new_prof_of 0 = Some (k1, p1)"
    and i1: "sched_inv Suc (cfg_of Suc ?h) (\<lambda>_ _. 0) (k1, p1, Some 0, ?c0)"
    and n1: "kn_coretype_cpu k1 = [0, 1]" "kn_pmu_props_cputype k1 = [sample_props, sample_props]"
    using inv_switch_in [OF i0 n(1)] n(2,3) by metis
  have st1: "sched_step rdpmc (?h, new_prof_of, None, ?c0) (k1, p1, Some 0, ?c0)" by (rule sched_step.switch_in [OF n(1) s1])
  note R = runningD [OF i1]
  have t1: "ctype k1 0 = 0" "props_of k1 0 = sample_props" by (simp_all add: ctype_def props_of_def n1)
  have "cfg_of Suc ?h 0 = setup_result sample_props two_counters 0x81 0" by (simp add: cfg_of_def hybrid_machine_def)
  then have "length (ce_array (cfg_of Suc ?h 0)) = 2"
    by (simp add: setup_result_def Let_def MAX_LL_EXPS_def upt_conv_Cons)
  then have l: "length (ce_array (cfg_of Suc k1 0)) = 2"
    using same_cfg_length [OF configs_okD(2) [OF sched_invD(4,1) [OF i1]], of 0] by simp
  have m: "unat (pmc_width_mask sample_props) = 2 ^ 48 - 1" by (simp add: sample_props_def mask_eq_exp_minus_1)
  have d: "\<forall>i. five_events i \<le> (if i < length (ce_array (cfg_of Suc k1 (ctype k1 0))) then unat (pmc_width_mask (props_of k1 0)) else 0)"
    by (simp add: five_events_def t1 l m)
  obtain k2 where "sched_step rdpmc (k1, p1, Some 0, ?c0) (k2, p1, Some 0, add_counts (ctype k1 0) five_events ?c0)"
    and i2: "\<exists>lost. sched_inv Suc (cfg_of Suc ?h) lost (k2, p1, Some 0, add_counts (ctype k1 0) five_events ?c0)"
    using inv_runs [OF i1 d, where rdpmc = rdpmc] sched_step.runs [OF R(8) [folded R(4)] d refl]
    by (metis (full_types))
  moreover have "5 < wrap_at k2 0" using i2 static_wrap [of Suc "cfg_of Suc ?h" k2 p1 0] sched_invD(1) by fastforce
  ultimately show ?thesis using st1 unfolding t1 by (meson converse_rtranclp_into_rtranclp r_into_rtranclp)
qed

text \<open>What the samples of a core type must add up to for an event of its configuration: all the events of the thread,
  except, for a fixed counter, the wraps the module did not see, each worth the width of the counter.\<close>

definition accounts_for :: "core_experiment_t \<Rightarrow> nat \<Rightarrow> nat \<Rightarrow> u64 \<Rightarrow> nat \<Rightarrow> bool" where
  "accounts_for ce i w found caused \<longleftrightarrow>
     (\<exists>lost. found + of_nat (lost * w) = of_nat caused \<and> lost * w \<le> caused \<and> (fixed_event ce i \<or> lost = 0))"

lemma accounts_for_exact:
  assumes "accounts_for ce i w found caused" and "\<not> fixed_event ce i \<or> caused < w"
  shows "found = of_nat caused"
proof -
  obtain lost where l: "found + of_nat (lost * w) = of_nat caused" "lost * w \<le> caused" "fixed_event ce i \<or> lost = 0"
    using assms(1) by (auto simp: accounts_for_def)
  have "lost = 0" using l(2,3) assms(2) by (cases lost) auto
  then show ?thesis using l(1) by simp
qed

text \<open>C1. No event is counted twice, and only wraps of fixed counters are lost. Take a thread under the monitoring by
  ticks, with a configuration built by the module for each core type of the machine, of counters the processor has and
  without sampling, and any sequence of switches in and out (on the same or another CPU, of the same or another core
  type), ticks, runs of the hardware with their overflow interrupts, and activity of the other CPUs. A counter that
  wraps interrupts only when its control register enables it. For each core type and each event of its configuration:
  what the samples of this core type report, what the thread keeps for its next sample and what is in the registers add
  up, modulo 2 to the 64, to what the thread has caused, less a whole number of wraps; the number is 0 for a
  general-purpose counter, and for a fixed counter as long as the thread caused fewer events than the counter holds. In
  every such state the handlers of what can come next are defined: none reads or writes out of bounds, the handler of
  the overflow interrupt included, whatever the counters have counted before it.\<close>

theorem every_event_is_reported:
  assumes "rdpmc_reads_counter rdpmc" and "new_thread cfg k0 prof0"
    and "(sched_step rdpmc)\<^sup>*\<^sup>* (k0, prof0, None, \<lambda>_ _. 0) (k, prof, run, counted)" and "t < 2" and "i < MAX_LL_EXPS"
  shows "accounts_for (cfg_of cfg k0 t) i (wrap_at k t)
      (reported (kn_mods k) t i + kept k prof t i + in_registers cfg k run t i) (counted t i) \<and>
    (case run of
       None \<Rightarrow> (\<forall>c < nr_cpus k. mod_restore_callback_gen recorder rdpmc k prof c \<noteq> None)
     | Some c \<Rightarrow> mod_tbs_tick recorder rdpmc k prof c \<noteq> None \<and> mod_save_callback_gen recorder rdpmc k prof c \<noteq> None \<and>
         (\<forall>d. interrupted (props_of k c) (cfg_of cfg k (ctype k c)) d (kn_msrs k c) \<longrightarrow>
            pmc_do_nmi_counter_overflow recorder rdpmc
              (set_msrs k c (hw_run (props_of k c) (cfg_of cfg k (ctype k c)) d (kn_msrs k c))) prof c \<noteq> None))"
proof -
  obtain lost where inv: "sched_inv cfg (cfg_of cfg k0) lost (k, prof, run, counted)"
    using sched_reachable_inv [OF assms(3,1) new_thread_inv [OF assms(2)]] by blast
  have "accounts_for (cfg_of cfg k0 t) i (wrap_at k t)
      (reported (kn_mods k) t i + kept k prof t i + in_registers cfg k run t i) (counted t i)"
    using sched_invD(7,8) [OF inv] assms(4,5) unfolding accounts_for_def conserved_def lost_ok_def by blast
  moreover have "\<forall>c < nr_cpus k. mod_restore_callback_gen recorder rdpmc k prof c \<noteq> None" if "run = None"
    using inv_switch_in [of cfg _ lost k prof counted _ rdpmc] inv that by fastforce
  moreover have "mod_tbs_tick recorder rdpmc k prof c \<noteq> None \<and> mod_save_callback_gen recorder rdpmc k prof c \<noteq> None" if "run = Some c" for c
    using inv_tick [OF assms(1)] inv_switch_out [OF assms(1)] inv that by fastforce
  moreover have "pmc_do_nmi_counter_overflow recorder rdpmc
      (set_msrs k c (hw_run (props_of k c) (cfg_of cfg k (ctype k c)) d (kn_msrs k c))) prof c \<noteq> None"
    if "run = Some c" "interrupted (props_of k c) (cfg_of cfg k (ctype k c)) d (kn_msrs k c)" for c d
    using run_effect [OF inv [unfolded that(1)], where d = d and rdpmc = rdpmc] that(2) by (metis option.distinct(1))
  ultimately show ?thesis by (cases run) simp_all
qed

theorem every_event_is_reported_witness:
  "\<exists>k prof. in_registers Suc k (Some 0) 0 0 + kept k prof 0 0 + reported (kn_mods k) 0 0 = 5 \<and>
     mod_tbs_tick recorder (\<lambda>m i. m (PMC_MSR_INITIAL_ADDRESS + i)) k prof 0 \<noteq> None"
proof -
  have r: "rdpmc_reads_counter (\<lambda>m i. m (PMC_MSR_INITIAL_ADDRESS + i))" by (simp add: rdpmc_reads_counter_def)
  obtain k prof where run: "(sched_step (\<lambda>m i. m (PMC_MSR_INITIAL_ADDRESS + i)))\<^sup>*\<^sup>* (hybrid_machine, new_prof_of, None, \<lambda>_ _. 0)
    (k, prof, Some 0, add_counts 0 five_events (\<lambda>_ _. 0))" and w: "5 < wrap_at k 0" using hybrid_run [OF r] by blast
  have "(0 :: nat) < MAX_LL_EXPS" by (simp add: MAX_LL_EXPS_def)
  note e = every_event_is_reported [OF r hybrid_new_thread run _ this, of 0]
  have "add_counts 0 five_events (\<lambda>_ _. 0) 0 0 = 5" by (simp add: add_counts_def five_events_def)
  then have "reported (kn_mods k) 0 0 + kept k prof 0 0 + in_registers Suc k (Some 0) 0 0 = 5"
    using accounts_for_exact [of _ 0 "wrap_at k 0"] e w by fastforce
  with e show ?thesis by (intro exI [of _ k] exI [of _ prof]) (simp add: add_ac)
qed





end
