(* ===== verification/UcpLookahead.thy ===== *)
theory UcpLookahead
  imports Prelude
begin

text \<open>
  The allocation of cache ways to applications by marginal utility (\<^verbatim>\<open>cache_partitioning.c\<close>): the lookahead algorithm
  of utility-based cache partitioning, and the phase that then moves ways to the application that suffers most. A curve
  is the array of an application: its entry 0 is the number of entries, entry \<open>w\<close> the slowdown (or the misses) with \<open>w\<close>
  ways. The solution is the caller's array. Loops with no bound in the code are partial functions: \<open>None\<close> is also a loop that
  never ends.
\<close>

section \<open>Marginal utility\<close>

definition marginal_utility :: "int \<Rightarrow> int \<Rightarrow> int \<Rightarrow> int \<Rightarrow> int option" where
  "marginal_utility from_way to_way mpki_from mpki_to = do {
     d \<leftarrow> c_int (mpki_to - mpki_from);
     if from_way - to_way = 0 then None else c_int (cdiv d (from_way - to_way))
   }"

text \<open>One number of extra ways; the result is the best utility, the ways it takes and the value there.\<close>

definition mu_step :: "int list \<Rightarrow> int \<Rightarrow> int \<Rightarrow> int \<Rightarrow> int \<Rightarrow> nat \<Rightarrow> int \<times> int \<times> int \<Rightarrow> (int \<times> int \<times> int) option" where
  "mu_step curve cur misses entries topv i = (\<lambda>(max_mu, mu_ways, best). do {
     let new_ways = cur + int i;
     new_misses \<leftarrow> (if new_ways > entries then Some topv else rd_int curve new_ways);
     mu \<leftarrow> marginal_utility cur new_ways misses new_misses;
     Some (if mu > max_mu then (mu, new_ways, new_misses) else (max_mu, mu_ways, best))
   })"

definition get_max_mu_gen :: "int list \<Rightarrow> int \<Rightarrow> int \<Rightarrow> int \<Rightarrow> (int \<times> int \<times> int) option" where
  "get_max_mu_gen curve cur available_ways max_nr_ways = do {
     misses \<leftarrow> rd_int curve cur;
     entries \<leftarrow> rd_int curve 0;
     topv \<leftarrow> rd_int curve entries;
     foldM (mu_step curve cur misses entries topv) [1..<nat (min available_ways (max_nr_ways - cur)) + 1] (0, -1, 0)
   }"

section \<open>The lookahead algorithm\<close>

text \<open>The application with the greatest utility: the utility, its ways and the application.\<close>

definition scan_step :: "int list list \<Rightarrow> int \<Rightarrow> int \<Rightarrow> int list \<Rightarrow> nat \<Rightarrow> int \<times> int \<times> nat \<Rightarrow> (int \<times> int \<times> nat) option" where
  "scan_step curves nr_ways available_ways solution i = (\<lambda>(g_mu, g_ways, sel). do {
     curve \<leftarrow> rd curves i;
     s \<leftarrow> rd solution i;
     (max_mu, mu_ways, _) \<leftarrow> get_max_mu_gen curve s available_ways nr_ways;
     Some (if max_mu > g_mu then (max_mu, mu_ways, i) else (g_mu, g_ways, sel))
   })"

partial_function (option) lookahead_loop ::
  "int list list \<Rightarrow> nat \<Rightarrow> int \<Rightarrow> int \<Rightarrow> int list \<Rightarrow> (int \<times> int list) option" where
  "lookahead_loop curves nr_apps nr_ways available_ways solution =
     (if available_ways \<le> 0 then Some (available_ways, solution)
      else Option.bind (foldM (scan_step curves nr_ways available_ways solution) [0..<nr_apps] (0, -1, 0)) (\<lambda>best.
        if fst best = 0 then Some (available_ways, solution)
        else Option.bind (rd solution (snd (snd best))) (\<lambda>s.
          Option.bind (wr solution (snd (snd best)) (fst (snd best))) (\<lambda>solution'.
            lookahead_loop curves nr_apps nr_ways (available_ways - (fst (snd best) - s)) solution'))))"

declare lookahead_loop.simps [code]

text \<open>What is left goes to the applications in turn.\<close>

fun fair_loop :: "int \<Rightarrow> nat list \<Rightarrow> int \<Rightarrow> int \<Rightarrow> int list \<Rightarrow> int list option" where
  "fair_loop nr_fair [] remaining_ways available_ways solution = Some solution"
| "fair_loop nr_fair (i # is) remaining_ways available_ways solution =
     (if available_ways > 0 then do {
        let nr_extra = (if remaining_ways > 0 then nr_fair + 1 else nr_fair);
        s \<leftarrow> rd solution i;
        solution \<leftarrow> wr solution i (s + nr_extra);
        fair_loop nr_fair is (if remaining_ways > 0 then remaining_ways - 1 else remaining_ways) (available_ways - nr_extra) solution
      } else Some solution)"

definition distribute_fairly :: "nat \<Rightarrow> int \<Rightarrow> int list \<Rightarrow> int list option" where
  "distribute_fairly nr_apps available_ways solution =
     (if available_ways > 0 then
        (if nr_apps = 0 then None
         else fair_loop (cdiv available_ways (int nr_apps)) [0..<nr_apps] (cmod available_ways (int nr_apps)) available_ways solution)
      else Some solution)"

text \<open>\<open>curves\<close> are those of the applications of the array.\<close>

definition lookahead_algorithm :: "int list list \<Rightarrow> nat \<Rightarrow> int \<Rightarrow> int list \<Rightarrow> int list option" where
  "lookahead_algorithm curves nr_apps nr_ways solution = do {
     solution \<leftarrow> foldM (\<lambda>i sol. wr sol i 1) [0..<nr_apps] solution;
     (available_ways, solution) \<leftarrow> lookahead_loop curves nr_apps nr_ways (nr_ways - int nr_apps) solution;
     distribute_fairly nr_apps available_ways solution
   }"

text \<open>\<open>curves\<close> are those of the objects of the list, from its head. One application gets everything.\<close>

definition lookahead_algorithm_list :: "int list list \<Rightarrow> nat \<Rightarrow> int \<Rightarrow> int list \<Rightarrow> int list option" where
  "lookahead_algorithm_list curves nr_apps nr_ways solution =
     (if nr_apps = 1 then wr solution 0 nr_ways else lookahead_algorithm curves nr_apps nr_ways solution)"

section \<open>Moving ways to the application that suffers most\<close>

definition MAX_APPS :: nat where "MAX_APPS = 20"

text \<open>The cost of taking a way from application \<open>i\<close> for \<open>idx\<close>; \<open>1<<i\<close> is a shift of an \<open>int\<close>.\<close>

definition steal_step ::
  "int list list \<Rightarrow> nat \<Rightarrow> u64 \<Rightarrow> int list \<Rightarrow> nat \<Rightarrow> int list \<times> int \<times> int \<Rightarrow> (int list \<times> int \<times> int) option" where
  "steal_step curves idx unmerged ways i = (\<lambda>(slowdown_red, min_val, min_index). do {
     my_curve \<leftarrow> rd curves idx;
     my_ways \<leftarrow> rd ways idx;
     cur_slowdown \<leftarrow> rd_int my_curve my_ways;
     curve \<leftarrow> rd curves i;
     those \<leftarrow> rd ways i;
     if i \<ge> 31 then None
     else do {
       skip \<leftarrow> (if \<not> bit unmerged i \<or> i = idx \<or> those = 1 then Some True
                else do { v \<leftarrow> rd_int curve (those - 1); Some (v > cur_slowdown) });
       if skip then do {
         slowdown_red \<leftarrow> wr slowdown_red i INT_MAX;
         Some (slowdown_red, min_val, min_index)
       } else do {
         a \<leftarrow> rd_int my_curve (my_ways + 1);
         b \<leftarrow> rd_int curve those;
         c \<leftarrow> rd_int curve (those - 1);
         r \<leftarrow> c_int (a - cur_slowdown);
         t \<leftarrow> c_int (b - c);
         r \<leftarrow> c_int (r - t);
         slowdown_red \<leftarrow> wr slowdown_red i r;
         Some (if r < min_val then (slowdown_red, r, int i) else (slowdown_red, min_val, min_index))
       }
     }
   })"

definition cost_way_stealing :: "int list list \<Rightarrow> nat \<Rightarrow> nat \<Rightarrow> u64 \<Rightarrow> int list \<Rightarrow> (int \<times> int) option" where
  "cost_way_stealing curves nr_apps idx unmerged ways = do {
     (_, min_val, min_index) \<leftarrow> foldM (steal_step curves idx unmerged ways) [0..<nr_apps] (replicate MAX_APPS 0, INT_MAX, -1);
     Some (min_val, min_index)
   }"

definition max_step :: "int list \<Rightarrow> nat \<Rightarrow> int \<times> int \<Rightarrow> (int \<times> int) option" where
  "max_step sv j = (\<lambda>(max_idx, max_slowdown). do {
     v \<leftarrow> rd sv j;
     Some (if v > max_slowdown then (int j, v) else (max_idx, max_slowdown))
   })"

text \<open>One pass: the flag says whether the loop goes on.\<close>

definition unfairness_pass ::
  "int list list \<Rightarrow> nat \<Rightarrow> int list \<times> u64 \<times> int list \<Rightarrow> ((int list \<times> u64 \<times> int list) \<times> bool) option" where
  "unfairness_pass curves nr_apps = (\<lambda>(solution, unmerged, sv). do {
     (max_idx, _) \<leftarrow> foldM (max_step sv) [0..<nr_apps] (-1, - INT_MAX);
     if max_idx < 0 \<or> max_idx \<ge> 31 then None
     else let m = nat max_idx in
       if \<not> bit unmerged m then Some ((solution, unmerged, sv), False)
       else do {
         (min_cost, min_idx) \<leftarrow> cost_way_stealing curves nr_apps m unmerged solution;
         if min_cost > 70 then Some ((solution, unmerged, sv), False)
         else do {
           s \<leftarrow> rd solution m;
           solution \<leftarrow> wr solution m (s + 1);
           t \<leftarrow> rd_int solution min_idx;
           solution \<leftarrow> wr_int solution min_idx (t - 1);
           mc \<leftarrow> rd curves m;
           a \<leftarrow> rd_int mc (s + 1);
           sv \<leftarrow> wr sv m a;
           c \<leftarrow> rd_int curves min_idx;
           b \<leftarrow> rd_int c (t - 1);
           sv \<leftarrow> wr_int sv min_idx b;
           Some ((solution, unmerged AND NOT (push_bit m 1), sv), True)
         }
       }
   })"

fun unfairness_loop :: "int list list \<Rightarrow> nat \<Rightarrow> nat \<Rightarrow> int list \<times> u64 \<times> int list \<Rightarrow> (int list \<times> u64 \<times> int list) option" where
  "unfairness_loop curves nr_apps 0 s = Some s"
| "unfairness_loop curves nr_apps (Suc n) s = do {
     (s, go) \<leftarrow> unfairness_pass curves nr_apps s;
     if go then unfairness_loop curves nr_apps n s else Some s
   }"

definition slowdown_step :: "int list list \<Rightarrow> int list \<Rightarrow> nat \<Rightarrow> int list \<Rightarrow> int list option" where
  "slowdown_step curves solution i sv = do { c \<leftarrow> rd curves i; s \<leftarrow> rd solution i; v \<leftarrow> rd_int c s; wr sv i v }"

definition ucp_unfairness :: "int list list \<Rightarrow> nat \<Rightarrow> int \<Rightarrow> int list \<Rightarrow> int list option" where
  "ucp_unfairness curves nr_apps nr_ways solution = do {
     solution \<leftarrow> lookahead_algorithm curves nr_apps nr_ways solution;
     sv \<leftarrow> foldM (slowdown_step curves solution) [0..<nr_apps] (replicate MAX_APPS 0);
     if nr_apps \<ge> 31 then None
     else do {
       (solution, _, _) \<leftarrow> unfairness_loop curves nr_apps nr_apps (solution, mask nr_apps, sv);
       Some solution
     }
   }"

section \<open>Curves\<close>

text \<open>A curve of a machine with \<open>nr_ways\<close> ways: at least one entry, and values far from overflow.\<close>

definition curve_ok :: "int \<Rightarrow> int list \<Rightarrow> bool" where
  "curve_ok nr_ways c \<longleftrightarrow> nr_ways < int (length c) \<and> 1 \<le> c ! 0 \<and> c ! 0 < int (length c) \<and>
     list_all (\<lambda>v. 0 \<le> v \<and> v \<le> 1000000000) (tl c)"

definition curve_at :: "int list \<Rightarrow> int \<Rightarrow> int" where
  "curve_at c w = (if w > c ! 0 then c ! nat (c ! 0) else c ! nat w)"

definition mu_at :: "int list \<Rightarrow> int \<Rightarrow> int \<Rightarrow> int" where
  "mu_at c cur w = cdiv (curve_at c w - c ! nat cur) (cur - w)"

lemma curve_val:
  assumes "curve_ok W c" and "1 \<le> i" and "i < int (length c)"
  shows "0 \<le> c ! nat i" "c ! nat i \<le> 1000000000" "rd_int c i = Some (c ! nat i)"
proof -
  have n: "nat i = Suc (nat (i - 1))" "nat (i - 1) < length (tl c)" using assms by auto
  then have "c ! nat i = tl c ! nat (i - 1)" by (simp add: nth_tl)
  then show "0 \<le> c ! nat i" "c ! nat i \<le> 1000000000" using assms(1) n(2) by (auto simp: curve_ok_def list_all_length)
  show "rd_int c i = Some (c ! nat i)" using assms by (simp add: rd_int_Some)
qed

lemma curve_at_bounds:
  assumes "curve_ok W c" and "1 \<le> w" and "w \<le> W"
  shows "0 \<le> curve_at c w" "curve_at c w \<le> 1000000000"
proof -
  have "1 \<le> c ! 0" "c ! 0 < int (length c)" "w < int (length c)" using assms by (auto simp: curve_ok_def)
  then show "0 \<le> curve_at c w" "curve_at c w \<le> 1000000000"
    using curve_val [OF assms(1)] assms(2) by (auto simp: curve_at_def)
qed

lemma abs_div_le: "0 \<le> (m::int) \<Longrightarrow> 0 < n \<Longrightarrow> m div n \<le> m"
  using zdiv_mono2 [of m 1 n] by simp

lemma cdiv_abs_le: "\<bar>cdiv a b\<bar> \<le> \<bar>a\<bar>"
proof (cases "b = 0 \<or> a = 0")
  case False
  then have "\<bar>cdiv a b\<bar> = \<bar>a\<bar> div \<bar>b\<bar>" by (simp add: cdiv_def abs_mult sgn_if pos_imp_zdiv_nonneg_iff)
  then show ?thesis using False abs_div_le [of "\<bar>a\<bar>" "\<bar>b\<bar>"] by simp
qed (auto simp: cdiv_def)

lemma marginal_utility_eq:
  assumes "curve_ok W c" and "1 \<le> cur" and "cur < w" and "w \<le> W"
  shows "marginal_utility cur w (c ! nat cur) (curve_at c w) = Some (mu_at c cur w)"
proof -
  have "cur < int (length c)" using assms by (simp add: curve_ok_def)
  then have b: "0 \<le> c ! nat cur" "c ! nat cur \<le> 1000000000" using curve_val [OF assms(1,2)] by blast+
  have w: "0 \<le> curve_at c w" "curve_at c w \<le> 1000000000" using curve_at_bounds [OF assms(1) _ assms(4)] assms by auto
  let ?d = "curve_at c w - c ! nat cur"
  have "\<bar>?d\<bar> \<le> 1000000000" using b w by linarith
  moreover have "\<bar>cdiv ?d (cur - w)\<bar> \<le> \<bar>?d\<bar>" by (rule cdiv_abs_le)
  ultimately have "- 2147483648 \<le> ?d" "?d \<le> 2147483647"
    "- 2147483648 \<le> cdiv ?d (cur - w)" "cdiv ?d (cur - w) \<le> 2147483647" by linarith+
  then show ?thesis using assms(3) by (simp add: marginal_utility_def mu_at_def c_int_def INT_MAX_def)
qed

text \<open>A positive utility is a decrease of the value.\<close>

lemma mu_at_pos:
  assumes "cur < w" and "0 < mu_at c cur w"
  shows "curve_at c w < c ! nat cur"
proof (rule ccontr)
  assume "\<not> curve_at c w < c ! nat cur"
  then have "0 \<le> curve_at c w - c ! nat cur" by simp
  then have "mu_at c cur w \<le> 0" using assms(1)
    by (auto simp: mu_at_def cdiv_def sgn_if pos_imp_zdiv_nonneg_iff)
  then show False using assms(2) by simp
qed

lemma get_max_mu_gen_eq:
  assumes ok: "curve_ok W c" and cur: "1 \<le> cur" "cur \<le> W" and av: "0 \<le> avail"
  shows "\<exists>mu w b. get_max_mu_gen c cur avail W = Some (mu, w, b) \<and> 0 \<le> mu \<and>
    (0 < mu \<longrightarrow> cur < w \<and> w \<le> cur + avail \<and> w \<le> W \<and> mu = mu_at c cur w) \<and>
    (\<forall>v. cur < v \<and> v \<le> W \<and> v \<le> cur + avail \<longrightarrow> mu_at c cur v \<le> mu)"
proof -
  let ?n = "nat (min avail (W - cur))"
  let ?I = "\<lambda>n (mu, w, b). 0 \<le> mu \<and> (0 < mu \<longrightarrow> cur < w \<and> w < cur + int n \<and> mu = mu_at c cur w) \<and>
    (\<forall>v. cur < v \<and> v < cur + int n \<longrightarrow> mu_at c cur v \<le> mu)"
  have e: "1 \<le> c ! 0" "c ! 0 < int (length c)" "W < int (length c)" using ok by (simp_all add: curve_ok_def)
  have r: "rd_int c cur = Some (c ! nat cur)" "rd_int c 0 = Some (c ! 0)" "rd_int c (c ! 0) = Some (c ! nat (c ! 0))"
    using e cur by (simp_all add: rd_int_Some del: length_greater_0_conv)
  have "\<exists>s'. foldM (mu_step c cur (c ! nat cur) (c ! 0) (c ! nat (c ! 0))) [1..<?n + 1] (0, -1, 0) = Some s' \<and> ?I (?n + 1) s'"
  proof (rule foldM_upt_from [where I = ?I])
    fix i and s :: "int \<times> int \<times> int" assume i: "1 \<le> i" "i < ?n + 1" and I: "?I i s"
    obtain mu w b where s: "s = (mu, w, b)" by (cases s)
    let ?v = "cur + int i"
    have v: "cur < ?v" "?v \<le> W" using i av cur by auto
    have rv: "(if ?v > c ! 0 then Some (c ! nat (c ! 0)) else rd_int c ?v) = Some (curve_at c ?v)"
      using v e cur by (simp add: curve_at_def rd_int_Some)
    have st: "mu_step c cur (c ! nat cur) (c ! 0) (c ! nat (c ! 0)) i s =
      Some (if mu_at c cur ?v > mu then (mu_at c cur ?v, ?v, curve_at c ?v) else (mu, w, b))"
      using marginal_utility_eq [OF ok cur(1) v] unfolding mu_step_def s by (simp add: Let_def rv)
    have "?I (Suc i) (if mu_at c cur ?v > mu then (mu_at c cur ?v, ?v, curve_at c ?v) else (mu, w, b))"
    proof (cases "mu_at c cur ?v > mu")
      case True
      have "mu_at c cur u \<le> mu_at c cur ?v" if "cur < u" "u < cur + int (Suc i)" for u
      proof (cases "u = ?v")
        case False
        then have "mu_at c cur u \<le> mu" using I that by (simp add: s)
        then show ?thesis using True by simp
      qed simp
      then show ?thesis using True I i by (simp add: s)
    next
      case False
      have "mu_at c cur u \<le> mu" if "cur < u" "u < cur + int (Suc i)" for u
        using I that False by (cases "u = ?v") (auto simp: s)
      then show ?thesis using False I by (auto simp: s)
    qed
    then show "\<exists>s'. mu_step c cur (c ! nat cur) (c ! 0) (c ! nat (c ! 0)) i s = Some s' \<and> ?I (Suc i) s'" unfolding st by (intro exI conjI) (rule refl, assumption)
  qed simp_all
  then obtain mu w b where f: "get_max_mu_gen c cur avail W = Some (mu, w, b)" and I: "?I (?n + 1) (mu, w, b)"
    unfolding get_max_mu_gen_def by (auto simp: r)
  have "int (?n + 1) = min avail (W - cur) + 1" using av cur by simp
  then show ?thesis using f I by (intro exI [of _ mu] exI [of _ w] exI [of _ b]) auto
qed

section \<open>The allocation\<close>

text \<open>The ways given so far: everyone has at least one and \<open>avail\<close> are left.\<close>

definition alloc_ok :: "nat \<Rightarrow> int \<Rightarrow> int \<Rightarrow> int list \<Rightarrow> bool" where
  "alloc_ok n W avail sol \<longleftrightarrow> n \<le> length sol \<and> 0 \<le> avail \<and> (\<forall>i<n. 1 \<le> sol ! i) \<and> (\<Sum>i<n. sol ! i) = W - avail"

lemma sum_update:
  assumes "k < n" and "n \<le> length xs"
  shows "(\<Sum>i<n. xs[k := x] ! i) = (\<Sum>i<n. xs ! i) - xs ! k + (x :: int)"
proof -
  have "(\<Sum>i<n. xs[k := x] ! i) = (\<Sum>i\<in>{..<n} - {k}. xs[k := x] ! i) + x"
    using assms by (subst sum.remove [of _ k]) simp_all
  also have "(\<Sum>i\<in>{..<n} - {k}. xs[k := x] ! i) = (\<Sum>i\<in>{..<n} - {k}. xs ! i)" by (rule sum.cong) auto
  also have "\<dots> = (\<Sum>i<n. xs ! i) - xs ! k" using assms by (subst sum.remove [of "{..<n}" k]) simp_all
  finally show ?thesis .
qed

lemma alloc_ok_le:
  assumes "alloc_ok n W avail sol" and "i < n"
  shows "1 \<le> sol ! i" "sol ! i \<le> W - avail"
proof -
  have ge: "\<forall>j<n. 1 \<le> sol ! j" using assms(1) by (simp add: alloc_ok_def)
  then show "1 \<le> sol ! i" using assms(2) by simp
  have "sol ! i \<le> (\<Sum>j<n. sol ! j)" using assms(2) ge by (intro member_le_sum) (auto intro: order_trans [of 0 1])
  then show "sol ! i \<le> W - avail" using assms(1) by (simp add: alloc_ok_def)
qed

lemma alloc_ok_grow:
  assumes "alloc_ok n W avail sol" and "k < n" and "sol ! k \<le> v" and "v \<le> sol ! k + avail"
  shows "alloc_ok n W (avail - (v - sol ! k)) (sol[k := v])"
proof -
  have "(\<Sum>i<n. sol[k := v] ! i) = (\<Sum>i<n. sol ! i) - sol ! k + v"
    using assms(1,2) by (intro sum_update) (auto simp: alloc_ok_def)
  moreover have "\<forall>i<n. 1 \<le> sol[k := v] ! i"
    using assms alloc_ok_le [OF assms(1,2)] by (auto simp: alloc_ok_def nth_list_update)
  ultimately show ?thesis using assms by (auto simp: alloc_ok_def)
qed

text \<open>No application has a better use of \<open>avail\<close> ways than \<open>mu\<close>.\<close>

definition no_better :: "int list list \<Rightarrow> nat \<Rightarrow> int \<Rightarrow> int \<Rightarrow> int list \<Rightarrow> int \<Rightarrow> bool" where
  "no_better curves n W avail sol mu \<longleftrightarrow>
     (\<forall>i<n. \<forall>v. sol ! i < v \<and> v \<le> W \<and> v \<le> sol ! i + avail \<longrightarrow> mu_at (curves ! i) (sol ! i) v \<le> mu)"

definition curves_ok :: "nat \<Rightarrow> int \<Rightarrow> int list list \<Rightarrow> bool" where
  "curves_ok n W curves \<longleftrightarrow> n \<le> length curves \<and> list_all (curve_ok W) (take n curves)"

lemma curves_ok_nth: "curves_ok n W curves \<Longrightarrow> i < n \<Longrightarrow> i < length curves \<and> curve_ok W (curves ! i)"
  by (auto simp: curves_ok_def list_all_length)

text \<open>The scan finds the greatest marginal utility there is.\<close>

lemma scan_eq:
  assumes ok: "curves_ok n W curves" and al: "alloc_ok n W avail sol"
  shows "\<exists>g gw sel. foldM (scan_step curves W avail sol) [0..<n] (0, -1, 0) = Some (g, gw, sel) \<and> 0 \<le> g \<and>
    (0 < g \<longrightarrow> sel < n \<and> sol ! sel < gw \<and> gw \<le> sol ! sel + avail \<and> gw \<le> W \<and> g = mu_at (curves ! sel) (sol ! sel) gw) \<and>
    no_better curves n W avail sol g"
proof -
  let ?I = "\<lambda>m (g, gw, sel). 0 \<le> g \<and>
    (0 < g \<longrightarrow> sel < n \<and> sol ! sel < gw \<and> gw \<le> sol ! sel + avail \<and> gw \<le> W \<and> g = mu_at (curves ! sel) (sol ! sel) gw) \<and>
    no_better curves m W avail sol g"
  have "\<exists>s'. foldM (scan_step curves W avail sol) [0..<n] (0, -1, 0) = Some s' \<and> ?I n s'"
  proof (rule foldM_upt [where I = ?I])
    fix i and s :: "int \<times> int \<times> nat" assume i: "i < n" and I: "?I i s"
    obtain g gw sel where s: "s = (g, gw, sel)" by (cases s)
    have c: "i < length curves" "curve_ok W (curves ! i)" using curves_ok_nth [OF ok i] by simp_all
    have b: "1 \<le> sol ! i" "sol ! i \<le> W" "0 \<le> avail" "i < length sol"
      using alloc_ok_le [OF al i] al i by (auto simp: alloc_ok_def)
    obtain mu w r where m: "get_max_mu_gen (curves ! i) (sol ! i) avail W = Some (mu, w, r)" "0 \<le> mu"
      and pos: "0 < mu \<longrightarrow> sol ! i < w \<and> w \<le> sol ! i + avail \<and> w \<le> W \<and> mu = mu_at (curves ! i) (sol ! i) w"
      and best: "\<forall>v. sol ! i < v \<and> v \<le> W \<and> v \<le> sol ! i + avail \<longrightarrow> mu_at (curves ! i) (sol ! i) v \<le> mu"
      using get_max_mu_gen_eq [OF c(2) b(1-3)] by blast
    have st: "scan_step curves W avail sol i s = Some (if mu > g then (mu, w, i) else (g, gw, sel))"
      using c b by (simp add: scan_step_def s m mem_simps)
    have nb: "no_better curves (Suc i) W avail sol (max mu g)"
      using I best by (auto simp: no_better_def s less_Suc_eq le_max_iff_disj)
    have "?I (Suc i) (if mu > g then (mu, w, i) else (g, gw, sel))"
      using I m(2) pos i nb by (cases "mu > g") (auto simp: s max_def)
    then show "\<exists>s'. scan_step curves W avail sol i s = Some s' \<and> ?I (Suc i) s'"
      unfolding st by (intro exI conjI) (rule refl, assumption)
  qed (simp add: no_better_def)
  then show ?thesis by auto
qed

text \<open>The loop ends: every round gives at least one way.\<close>

lemma lookahead_loop_ends:
  assumes ok: "curves_ok n W curves"
  shows "alloc_ok n W avail sol \<Longrightarrow> \<exists>a' sol'. lookahead_loop curves n W avail sol = Some (a', sol') \<and> alloc_ok n W a' sol' \<and>
    length sol' = length sol \<and> drop n sol' = drop n sol \<and> (\<forall>i<n. sol ! i \<le> sol' ! i \<and> sol' ! i \<le> W) \<and>
    (0 < a' \<longrightarrow> no_better curves n W a' sol' 0)"
proof (induction "nat avail" arbitrary: avail sol rule: less_induct)
  case less
  have "0 \<le> avail" using less.prems by (simp add: alloc_ok_def)
  then have le: "\<forall>i<n. sol ! i \<le> W" using alloc_ok_le [OF less.prems] by fastforce
  show ?case
  proof (cases "avail \<le> 0")
    case True
    then show ?thesis using less.prems le by (subst lookahead_loop.simps) simp
  next
    case False
    obtain g gw sel where sc: "foldM (scan_step curves W avail sol) [0..<n] (0, -1, 0) = Some (g, gw, sel)" and g: "0 \<le> g"
      and pos: "0 < g \<longrightarrow> sel < n \<and> sol ! sel < gw \<and> gw \<le> sol ! sel + avail \<and> gw \<le> W \<and> g = mu_at (curves ! sel) (sol ! sel) gw"
      and nb: "no_better curves n W avail sol g"
      using scan_eq [OF ok less.prems] by blast
    show ?thesis
    proof (cases "g = 0")
      case True
      then show ?thesis using False less.prems le nb by (subst lookahead_loop.simps) (simp add: sc)
    next
      case False
      then have p: "sel < n" "sol ! sel < gw" "gw \<le> sol ! sel + avail" "gw \<le> W" "0 < mu_at (curves ! sel) (sol ! sel) gw"
        using pos g by auto
      let ?sol = "sol[sel := gw]" and ?av = "avail - (gw - sol ! sel)"
      have len: "n \<le> length sol" using less.prems by (simp add: alloc_ok_def)
      have al: "alloc_ok n W ?av ?sol" using alloc_ok_grow [OF less.prems p(1) _ p(3)] p(2) by simp
      have eq: "lookahead_loop curves n W avail sol = lookahead_loop curves n W ?av ?sol"
        using \<open>\<not> avail \<le> 0\<close> False p(1) len by (subst lookahead_loop.simps) (simp add: sc mem_simps)
      have dec: "nat ?av < nat avail" using p(2) \<open>\<not> avail \<le> 0\<close> by linarith
      obtain a' sol' where r: "lookahead_loop curves n W ?av ?sol = Some (a', sol')" "alloc_ok n W a' sol'"
          "length sol' = length ?sol" "drop n sol' = drop n ?sol" "0 < a' \<longrightarrow> no_better curves n W a' sol' 0"
        and grow: "\<forall>i<n. ?sol ! i \<le> sol' ! i \<and> sol' ! i \<le> W"
        using less.hyps [OF dec al] by blast
      have "sol ! i \<le> ?sol ! i" if "i < n" for i using p(2) len that by (cases "i = sel") simp_all
      then have "\<forall>i<n. sol ! i \<le> sol' ! i" using grow order_trans by fast
      moreover have "drop n sol' = drop n sol" using r(4) p(1) by simp
      ultimately show ?thesis using r grow by (simp add: eq)
    qed
  qed
qed

lemma fair_loop_eq:
  assumes "m \<le> n" and "n \<le> length sol" and "0 \<le> q" and "0 \<le> r" and "r \<le> int (n - m)" and "avail = q * int (n - m) + r"
  shows "\<exists>sol'. fair_loop q [m..<n] r avail sol = Some sol' \<and> length sol' = length sol \<and>
    (\<Sum>i<n. sol' ! i) = (\<Sum>i<n. sol ! i) + avail \<and> (\<forall>i<n. sol ! i \<le> sol' ! i) \<and> drop n sol' = drop n sol"
  using assms
proof (induction "n - m" arbitrary: m r avail sol)
  case 0
  then show ?case by simp
next
  case (Suc k)
  then have m: "m < n" "n - Suc m = k" "m < length sol" by simp_all
  then have up: "[m..<n] = m # [Suc m..<n]" by (simp add: upt_rec)
  let ?e = "if 0 < r then q + 1 else q"
  let ?r = "if 0 < r then r - 1 else r"
  let ?sol = "sol[m := sol ! m + ?e]"
  have nm: "int (n - m) = int k + 1" using Suc.hyps(2) by simp
  show ?case
  proof (cases "avail > 0")
    case False
    have "0 \<le> q * int (n - m)" using Suc.prems(3) by simp
    then have "avail = 0" using False Suc.prems(4,6) by linarith
    then show ?thesis using False by (simp add: up)
  next
    case True
    have av: "avail - ?e = q * int (n - Suc m) + ?r"
      using Suc.prems(6) nm m(2) by (simp add: ring_distribs)
    have rr: "0 \<le> ?r" "?r \<le> int (n - Suc m)" using Suc.prems(3-6) nm m(2) by (auto split: if_splits)
    obtain sol' where s: "fair_loop q [Suc m..<n] ?r (avail - ?e) ?sol = Some sol'" "length sol' = length ?sol"
      "(\<Sum>i<n. sol' ! i) = (\<Sum>i<n. ?sol ! i) + (avail - ?e)" "\<forall>i<n. ?sol ! i \<le> sol' ! i" "drop n sol' = drop n ?sol"
      using Suc.hyps(1) [of "Suc m" ?sol ?r "avail - ?e"] Suc.prems(2,3) m rr av by auto
    have st: "fair_loop q [m..<n] r avail sol = fair_loop q [Suc m..<n] ?r (avail - ?e) ?sol"
      using True m(3) by (simp add: up mem_simps Let_def)
    have "(\<Sum>i<n. ?sol ! i) = (\<Sum>i<n. sol ! i) + ?e" using m(1) Suc.prems(2) by (simp only: sum_update)
    moreover have "sol ! i \<le> ?sol ! i" for i using Suc.prems(3) m(3) by (cases "i = m") simp_all
    ultimately show ?thesis using s m(1) order_trans [OF _ s(4) [rule_format]] by (auto simp: st)
  qed
qed

lemma distribute_fairly_eq:
  assumes "alloc_ok n W avail sol" and "0 < n"
  shows "\<exists>sol'. distribute_fairly n avail sol = Some sol' \<and> alloc_ok n W 0 sol' \<and> length sol' = length sol \<and>
    (\<forall>i<n. sol ! i \<le> sol' ! i) \<and> drop n sol' = drop n sol"
proof (cases "avail > 0")
  case False
  then show ?thesis using assms by (auto simp: distribute_fairly_def alloc_ok_def)
next
  case True
  let ?q = "avail div int n" and ?r = "avail mod int n"
  have c: "cdiv avail (int n) = ?q" "cmod avail (int n) = ?r" using True by (simp_all add: cdiv_nonneg cmod_nonneg)
  have b: "0 \<le> ?q" "0 \<le> ?r" "?r < int n" using True assms(2) by (simp_all add: pos_imp_zdiv_nonneg_iff)
  obtain sol' where "fair_loop ?q [0..<n] ?r avail sol = Some sol'" "length sol' = length sol"
    "(\<Sum>i<n. sol' ! i) = (\<Sum>i<n. sol ! i) + avail" "\<forall>i<n. sol ! i \<le> sol' ! i" "drop n sol' = drop n sol"
    using fair_loop_eq [of 0 n sol ?q ?r avail] assms b by (auto simp: alloc_ok_def)
  then show ?thesis using True assms by (auto simp: distribute_fairly_def c alloc_ok_def intro: order_trans)
qed

lemma ones_alloc:
  assumes "n \<le> length sol" and "int n \<le> W"
  shows "\<exists>sol'. foldM (\<lambda>i sol. wr sol i 1) [0..<n] sol = Some sol' \<and> length sol' = length sol \<and>
    alloc_ok n W (W - int n) sol' \<and> drop n sol' = drop n sol"
proof -
  let ?I = "\<lambda>m s. length s = length sol \<and> (\<forall>i<m. s ! i = (1 :: int)) \<and> drop n s = drop n sol"
  have "\<exists>s'. foldM (\<lambda>i sol. wr sol i 1) [0..<n] sol = Some s' \<and> ?I n s'"
    by (rule foldM_upt [where I = ?I]) (use assms(1) in \<open>auto simp: mem_simps nth_list_update less_Suc_eq\<close>)
  then obtain s' where "foldM (\<lambda>i sol. wr sol i 1) [0..<n] sol = Some s'" and I: "?I n s'" by blast
  moreover have "(\<Sum>i<n. s' ! i) = (\<Sum>i<n. 1)" using I by (intro sum.cong) auto
  ultimately show ?thesis using assms by (auto simp: alloc_ok_def)
qed

text \<open>The curves of \<open>n\<close> applications on \<open>W\<close> ways, at least one each: the algorithm returns, gives every way away and at
  least one to everyone, and writes no other cell.\<close>

lemma lookahead_algorithm_eq:
  assumes "curves_ok n W curves" and "0 < n" and "int n \<le> W" and "n \<le> length sol"
  shows "\<exists>sol'. lookahead_algorithm curves n W sol = Some sol' \<and> length sol' = length sol \<and> alloc_ok n W 0 sol' \<and>
    drop n sol' = drop n sol"
proof -
  obtain s1 where s1: "foldM (\<lambda>i sol. wr sol i 1) [0..<n] sol = Some s1" "length s1 = length sol"
    "alloc_ok n W (W - int n) s1" "drop n s1 = drop n sol"
    using ones_alloc [OF assms(4,3)] by blast
  obtain a s2 where s2: "lookahead_loop curves n W (W - int n) s1 = Some (a, s2)" "alloc_ok n W a s2" "length s2 = length s1"
    "drop n s2 = drop n s1"
    using lookahead_loop_ends [OF assms(1) s1(3)] by blast
  obtain s3 where "distribute_fairly n a s2 = Some s3" "alloc_ok n W 0 s3" "length s3 = length s2" "drop n s3 = drop n s2"
    using distribute_fairly_eq [OF s2(2) assms(2)] by blast
  then show ?thesis using s1 s2 by (auto simp: lookahead_algorithm_def)
qed

section \<open>The fairness phase\<close>

definition falling :: "int \<Rightarrow> int list \<Rightarrow> bool" where
  "falling W c \<longleftrightarrow> list_all (\<lambda>w. c ! Suc w \<le> c ! w) [1..<nat W]"

text \<open>\<open>sv\<close> is the vector of the slowdowns with the ways of \<open>sol\<close>.\<close>

definition slow_ok :: "int list list \<Rightarrow> nat \<Rightarrow> int \<Rightarrow> int list \<Rightarrow> int list \<Rightarrow> bool" where
  "slow_ok curves n W sol sv \<longleftrightarrow> alloc_ok n W 0 sol \<and> length sv = MAX_APPS \<and> (\<forall>i<n. sv ! i = curves ! i ! nat (sol ! i))"

lemma slow_ok_bounds:
  assumes "curves_ok n W curves" and "slow_ok curves n W sol sv" and "i < n"
  shows "0 \<le> sv ! i" "sv ! i \<le> 1000000000" "1 \<le> sol ! i" "sol ! i \<le> W" "i < length sol"
proof -
  have a: "alloc_ok n W 0 sol" "sv ! i = curves ! i ! nat (sol ! i)" using assms(2,3) by (simp_all add: slow_ok_def)
  have c: "curve_ok W (curves ! i)" using curves_ok_nth [OF assms(1,3)] by simp
  show w: "1 \<le> sol ! i" "sol ! i \<le> W" "i < length sol" using alloc_ok_le [OF a(1) assms(3)] a(1) assms(3)
    by (auto simp: alloc_ok_def)
  then have "sol ! i < int (length (curves ! i))" using c by (simp add: curve_ok_def)
  then show "0 \<le> sv ! i" "sv ! i \<le> 1000000000" using curve_val [OF c w(1)] a(2) by simp_all
qed

lemma max_eq:
  assumes "curves_ok n W curves" and "slow_ok curves n W sol sv" and "0 < n" and "n \<le> MAX_APPS"
  shows "\<exists>m. foldM (max_step sv) [0..<n] (-1, - INT_MAX) = Some (int m, sv ! m) \<and> m < n \<and> (\<forall>j<n. sv ! j \<le> sv ! m)"
proof -
  let ?I = "\<lambda>k (x, v). (k = 0 \<and> x = -1 \<and> v = - INT_MAX) \<or> (\<exists>m<n. x = int m \<and> v = sv ! m \<and> (\<forall>j<k. sv ! j \<le> sv ! m))"
  have "\<exists>s'. foldM (max_step sv) [0..<n] (-1, - INT_MAX) = Some s' \<and> ?I n s'"
  proof (rule foldM_upt [where I = ?I])
    fix i and s :: "int \<times> int" assume i: "i < n" and I: "?I i s"
    obtain x v where s: "s = (x, v)" by (cases s)
    have v: "0 \<le> sv ! i" using slow_ok_bounds [OF assms(1,2) i] by simp
    have st: "max_step sv i s = Some (if sv ! i > v then (int i, sv ! i) else (x, v))"
      using i assms(2,4) by (simp add: max_step_def s mem_simps slow_ok_def)
    have "?I (Suc i) (if sv ! i > v then (int i, sv ! i) else (x, v))"
    proof (cases "sv ! i > v")
      case True
      then have "\<forall>j<Suc i. sv ! j \<le> sv ! i" using I by (auto simp: s less_Suc_eq)
      then show ?thesis using True i by auto
    next
      case False
      then have "\<not> (x = -1 \<and> v = - INT_MAX)" using v by (auto simp: INT_MAX_def)
      then show ?thesis using I False by (auto simp: s less_Suc_eq)
    qed
    then show "\<exists>s'. max_step sv i s = Some s' \<and> ?I (Suc i) s'" unfolding st by (intro exI conjI) (rule refl, assumption)
  qed simp
  then show ?thesis using assms(3) by auto
qed

text \<open>Who gives a way: nobody, or an application with at least two whose slowdown with one fewer is no more than the
  current one of the application that takes it.\<close>

definition donor_ok :: "int list list \<Rightarrow> nat \<Rightarrow> int list \<Rightarrow> int list \<Rightarrow> nat \<Rightarrow> int \<Rightarrow> int \<Rightarrow> bool" where
  "donor_ok curves n sol sv m v k \<longleftrightarrow> v = INT_MAX \<or>
     (0 \<le> k \<and> nat k < n \<and> nat k \<noteq> m \<and> 2 \<le> sol ! nat k \<and> curves ! nat k ! nat (sol ! nat k - 1) \<le> sv ! m)"

lemma two_allocs:
  assumes "alloc_ok n W 0 sol" and "i < n" and "m < n" and "i \<noteq> m"
  shows "sol ! i + sol ! m \<le> W"
proof -
  have ge: "\<forall>j<n. 1 \<le> sol ! j" and s: "(\<Sum>j<n. sol ! j) = W" using assms(1) by (simp_all add: alloc_ok_def)
  have "(\<Sum>j\<in>{i, m}. sol ! j) \<le> (\<Sum>j<n. sol ! j)" using assms ge
    by (intro sum_mono2) (auto intro: order_trans [of 0 1])
  then show ?thesis using s assms(4) by simp
qed

lemma cost_eq:
  assumes ok: "curves_ok n W curves" and sl: "slow_ok curves n W sol sv" and m: "m < n" and n: "n \<le> MAX_APPS"
  shows "\<exists>v k. cost_way_stealing curves n m un sol = Some (v, k) \<and> donor_ok curves n sol sv m v k"
proof -
  let ?I = "\<lambda>(_::nat) (red, v, k). length red = MAX_APPS \<and> donor_ok curves n sol sv m v k"
  have al: "alloc_ok n W 0 sol" using sl by (simp add: slow_ok_def)
  have M: "1 \<le> sol ! m" "sol ! m \<le> W" "m < length sol" "0 \<le> sv ! m" "sv ! m \<le> 1000000000"
    using slow_ok_bounds [OF ok sl m] by simp_all
  have cm: "m < length curves" "curve_ok W (curves ! m)" using curves_ok_nth [OF ok m] by simp_all
  have svm: "rd_int (curves ! m) (sol ! m) = Some (sv ! m)"
    using curve_val(3) [OF cm(2) M(1)] M(2) cm(2) sl m by (simp add: slow_ok_def curve_ok_def)
  have "\<exists>s'. foldM (steal_step curves m un sol) [0..<n] (replicate MAX_APPS 0, INT_MAX, -1) = Some s' \<and> ?I n s'"
  proof (rule foldM_upt [where I = ?I])
    fix i and s :: "int list \<times> int \<times> int" assume i: "i < n" and I: "?I i s"
    obtain red v k where s: "s = (red, v, k)" by (cases s)
    have L: "i < length red" "i < 20" "length red = MAX_APPS" and dk: "donor_ok curves n sol sv m v k"
      using I i n by (auto simp: s MAX_APPS_def)
    have ci: "i < length curves" "curve_ok W (curves ! i)" using curves_ok_nth [OF ok i] by simp_all
    have B: "1 \<le> sol ! i" "sol ! i \<le> W" "i < length sol" "0 \<le> sv ! i" "sv ! i \<le> 1000000000"
      using slow_ok_bounds [OF ok sl i] by simp_all
    have svi: "rd_int (curves ! i) (sol ! i) = Some (sv ! i)"
      using curve_val(3) [OF ci(2) B(1)] B(2) ci(2) sl i by (simp add: slow_ok_def curve_ok_def)
    let ?less = "curves ! i ! nat (sol ! i - 1)" and ?more = "curves ! m ! nat (sol ! m + 1)"
    show "\<exists>s'. steal_step curves m un sol i s = Some s' \<and> ?I (Suc i) s'"
    proof (cases "\<not> bit un i \<or> i = m \<or> sol ! i = 1")
      case True
      then have "steal_step curves m un sol i s = Some (red[i := INT_MAX], v, k)"
        using L M(3) cm(1) ci(1) B(3) svm by (simp add: steal_step_def s mem_simps)
      then show ?thesis using dk L by simp
    next
      case False
      then have two: "2 \<le> sol ! i" and im: "i \<noteq> m" "bit un i" using B(1) by auto
      have r1: "rd_int (curves ! i) (sol ! i - 1) = Some ?less" "0 \<le> ?less" "?less \<le> 1000000000"
        using curve_val [OF ci(2), of "sol ! i - 1"] two B(2) ci(2) by (auto simp: curve_ok_def)
      have "sol ! i + sol ! m \<le> W" by (rule two_allocs [OF al i m im(1)])
      then have r2: "rd_int (curves ! m) (sol ! m + 1) = Some ?more" "0 \<le> ?more" "?more \<le> 1000000000"
        using curve_val [OF cm(2), of "sol ! m + 1"] two M(1) cm(2) by (auto simp: curve_ok_def)
      show ?thesis
      proof (cases "?less > sv ! m")
        case True
        then have "steal_step curves m un sol i s = Some (red[i := INT_MAX], v, k)"
          using L M(3) cm(1) ci(1) B(3) False svm r1 by (simp add: steal_step_def s mem_simps)
        then show ?thesis using dk L by simp
      next
        case le: False
        let ?r = "?more - sv ! m - (sv ! i - ?less)"
        have c: "c_int (?more - sv ! m) = Some (?more - sv ! m)" "c_int (sv ! i - ?less) = Some (sv ! i - ?less)"
          "c_int ?r = Some ?r" using r1 r2 M B by (auto simp: c_int_def INT_MAX_def)
        have "steal_step curves m un sol i s = Some (red[i := ?r], (if ?r < v then (?r, int i) else (v, k)))"
          using L M(3) cm(1) ci(1) B(3) False svm svi r1(1) r2(1) c le by (simp add: steal_step_def s mem_simps)
        moreover have "donor_ok curves n sol sv m ?r (int i)" using i im(1) two le by (simp add: donor_ok_def)
        ultimately show ?thesis using dk L by simp
      qed
    qed
  qed (simp add: donor_ok_def)
  then show ?thesis unfolding cost_way_stealing_def by auto
qed

lemma alloc_transfer:
  assumes "alloc_ok n W 0 sol" and "m < n" and "k < n" and "k \<noteq> m" and "2 \<le> sol ! k"
  shows "alloc_ok n W 0 (sol[m := sol ! m + 1, k := sol ! k - 1])"
proof -
  let ?s = "sol[m := sol ! m + 1]"
  have "(\<Sum>i<n. ?s[k := sol ! k - 1] ! i) = (\<Sum>i<n. ?s ! i) - ?s ! k + (sol ! k - 1)"
    using assms by (intro sum_update) (auto simp: alloc_ok_def)
  moreover have "(\<Sum>i<n. ?s ! i) = (\<Sum>i<n. sol ! i) - sol ! m + (sol ! m + 1)"
    using assms by (intro sum_update) (auto simp: alloc_ok_def)
  moreover have "1 \<le> ?s[k := sol ! k - 1] ! i" if "i < n" for i
  proof (cases "i = k \<or> i = m")
    case True
    have "1 \<le> sol ! m" by (rule alloc_ok_le(1) [OF assms(1,2)])
    then show ?thesis using True assms by (auto simp: alloc_ok_def)
  next
    case False
    then show ?thesis using alloc_ok_le(1) [OF assms(1) that] by simp
  qed
  ultimately show ?thesis using assms(1,4) by (simp add: alloc_ok_def)
qed

lemma falling_le: "falling W c \<Longrightarrow> 1 \<le> w \<Longrightarrow> w < W \<Longrightarrow> c ! nat (w + 1) \<le> c ! nat w"
proof -
  assume a: "falling W c" "1 \<le> w" "w < W"
  then have "nat w \<in> set [1..<nat W]" "nat (w + 1) = Suc (nat w)" by auto
  then show ?thesis using a(1) by (simp add: falling_def list_all_iff)
qed

text \<open>A pass keeps the allocation and no slowdown passes the greatest one before it.\<close>

lemma unfairness_pass_eq:
  assumes ok: "curves_ok n W curves" and fl: "\<forall>i<n. falling W (curves ! i)" and sl: "slow_ok curves n W sol sv"
    and n: "0 < n" "n \<le> MAX_APPS"
  shows "\<exists>sol' un' sv' go. unfairness_pass curves n (sol, un, sv) = Some ((sol', un', sv'), go) \<and>
    slow_ok curves n W sol' sv' \<and> length sol' = length sol \<and> drop n sol' = drop n sol \<and>
    (\<exists>m<n. \<forall>i<n. sv' ! i \<le> sv ! m)"
proof -
  obtain m where m: "foldM (max_step sv) [0..<n] (-1, - INT_MAX) = Some (int m, sv ! m)" "m < n" and mx: "\<forall>j<n. sv ! j \<le> sv ! m"
    using max_eq [OF ok sl n] by blast
  obtain v k where c: "cost_way_stealing curves n m un sol = Some (v, k)" and d: "donor_ok curves n sol sv m v k"
    using cost_eq [OF ok sl m(2) n(2)] by blast
  have m31: "\<not> 31 \<le> int m" using m(2) n(2) by (simp add: MAX_APPS_def)
  show ?thesis
  proof (cases "bit un m \<and> v \<le> 70")
    case False
    then have "unfairness_pass curves n (sol, un, sv) = Some ((sol, un, sv), False)"
      using m31 by (auto simp: unfairness_pass_def m c Let_def)
    then show ?thesis using sl mx m(2) by blast
  next
    case True
    then have k: "0 \<le> k" "nat k < n" "nat k \<noteq> m" "2 \<le> sol ! nat k" and le: "curves ! nat k ! nat (sol ! nat k - 1) \<le> sv ! m"
      using d by (auto simp: donor_ok_def INT_MAX_def)
    let ?k = "nat k"
    let ?sol = "sol[m := sol ! m + 1, ?k := sol ! ?k - 1]"
    let ?a = "curves ! m ! nat (sol ! m + 1)" and ?b = "curves ! ?k ! nat (sol ! ?k - 1)"
    let ?sv = "sv[m := ?a, ?k := ?b]"
    have al: "alloc_ok n W 0 sol" and lsv: "length sv = MAX_APPS" and sv: "\<forall>i<n. sv ! i = curves ! i ! nat (sol ! i)"
      using sl by (simp_all add: slow_ok_def)
    have B: "1 \<le> sol ! m" "m < length sol" "?k < length sol"
      using slow_ok_bounds [OF ok sl m(2)] slow_ok_bounds [OF ok sl k(2)] by simp_all
    have W: "sol ! m + 1 < W" using two_allocs [OF al k(2) m(2) k(3)] k(4) by simp
    have C: "m < length curves" "curve_ok W (curves ! m)" "?k < length curves" "curve_ok W (curves ! ?k)"
      using curves_ok_nth [OF ok m(2)] curves_ok_nth [OF ok k(2)] by simp_all
    have r1: "rd_int (curves ! m) (sol ! m + 1) = Some ?a"
      using curve_val(3) [OF C(2)] B(1) W C(2) by (simp add: curve_ok_def)
    have r2: "rd_int (curves ! ?k) (sol ! ?k - 1) = Some ?b"
      using curve_val(3) [OF C(4), of "sol ! ?k - 1"] k(4) C(4) slow_ok_bounds(4) [OF ok sl k(2)] by (simp add: curve_ok_def)
    have ls: "m < length sv" "?k < length sv" using m(2) k(2) n(2) lsv by simp_all
    have st: "unfairness_pass curves n (sol, un, sv) = Some ((?sol, un AND NOT (push_bit m 1), ?sv), True)"
      using m31 True B C ls k(1,3) by (simp add: unfairness_pass_def m c Let_def mem_simps r1 r2)
    have "?sv ! i = curves ! i ! nat (?sol ! i)" if "i < n" for i
      using sv that k(3) ls B by (cases "i = m"; cases "i = ?k") simp_all
    then have sl': "slow_ok curves n W ?sol ?sv" using alloc_transfer [OF al m(2) k(2,3,4)] lsv by (simp add: slow_ok_def)
    have "?a \<le> sv ! m" using falling_le [of W "curves ! m" "sol ! m"] fl m(2) B(1) W sv by simp
    then have "?sv ! i \<le> sv ! m" if "i < n" for i
      using mx that le ls k(3) by (cases "i = m"; cases "i = ?k") simp_all
    moreover have "drop n ?sol = drop n sol" using m(2) k(2) by simp
    ultimately show ?thesis using st sl' m(2) by (metis length_list_update)
  qed
qed

lemma unfairness_loop_eq:
  assumes ok: "curves_ok n W curves" and fl: "\<forall>i<n. falling W (curves ! i)" and n: "0 < n" "n \<le> MAX_APPS"
  shows "slow_ok curves n W sol sv \<Longrightarrow> \<exists>sol' un' sv'. unfairness_loop curves n fuel (sol, un, sv) = Some (sol', un', sv') \<and>
    slow_ok curves n W sol' sv' \<and> length sol' = length sol \<and> drop n sol' = drop n sol \<and>
    (\<forall>i<n. \<exists>j<n. sv' ! i \<le> sv ! j)"
proof (induction fuel arbitrary: sol un sv)
  case 0
  then show ?case by auto
next
  case (Suc fuel)
  obtain s1 u1 v1 go where p: "unfairness_pass curves n (sol, un, sv) = Some ((s1, u1, v1), go)" "slow_ok curves n W s1 v1"
      "length s1 = length sol" "drop n s1 = drop n sol" and "\<exists>m<n. \<forall>i<n. v1 ! i \<le> sv ! m"
    using unfairness_pass_eq [OF ok fl Suc.prems n, of un] by fast
  then obtain m where m: "m < n" "\<forall>i<n. v1 ! i \<le> sv ! m" by blast
  show ?case
  proof (cases go)
    case False
    then show ?thesis using p m by auto
  next
    case True
    obtain s2 u2 v2 where q: "unfairness_loop curves n fuel (s1, u1, v1) = Some (s2, u2, v2)" "slow_ok curves n W s2 v2"
        "length s2 = length s1" "drop n s2 = drop n s1" and le: "\<forall>i<n. \<exists>j<n. v2 ! i \<le> v1 ! j"
      using Suc.IH [OF p(2), of u1] by blast
    have "v2 ! i \<le> sv ! m" if "i < n" for i
    proof -
      have "\<exists>j<n. v2 ! i \<le> v1 ! j" using le that by blast
      then obtain j where "j < n" "v2 ! i \<le> v1 ! j" by blast
      then show ?thesis using m(2) by (meson order_trans)
    qed
    then show ?thesis using p q m(1) True by auto
  qed
qed

lemma initial_slowdowns:
  assumes ok: "curves_ok n W curves" and al: "alloc_ok n W 0 sol" and n: "n \<le> MAX_APPS"
  shows "\<exists>sv. foldM (slowdown_step curves sol) [0..<n] (replicate MAX_APPS 0) = Some sv \<and>
    slow_ok curves n W sol sv"
proof -
  let ?I = "\<lambda>m sv. length sv = MAX_APPS \<and> (\<forall>i<m. sv ! i = curves ! i ! nat (sol ! i))"
  let ?f = "slowdown_step curves sol"
  have "\<exists>sv. foldM ?f [0..<n] (replicate MAX_APPS 0) = Some sv \<and> ?I n sv"
  proof (rule foldM_upt [where I = ?I])
    fix i sv assume i: "i < n" and I: "?I i sv"
    have c: "i < length curves" "curve_ok W (curves ! i)" using curves_ok_nth [OF ok i] by simp_all
    have b: "1 \<le> sol ! i" "sol ! i \<le> W" "i < length sol" using alloc_ok_le [OF al i] al i by (auto simp: alloc_ok_def)
    have r: "rd_int (curves ! i) (sol ! i) = Some (curves ! i ! nat (sol ! i))"
      using curve_val(3) [OF c(2) b(1)] b(2) c(2) by (simp add: curve_ok_def)
    have "?f i sv = Some (sv[i := curves ! i ! nat (sol ! i)])" using c b i I n by (simp add: slowdown_step_def mem_simps r)
    then show "\<exists>s'. ?f i sv = Some s' \<and> ?I (Suc i) s'" using I i n by (auto simp: nth_list_update less_Suc_eq)
  qed simp
  then show ?thesis using al by (auto simp: slow_ok_def)
qed

text \<open>C14. Utility-based partitioning returns: for \<open>n\<close> applications with at most as many ways as the cache has, the lookahead
  loop ends, every way is given away, every application has at least one, and the cells of the array past the
  applications keep their values.\<close>

theorem lookahead_allocates_every_way:
  assumes "curves_ok n W curves" and "0 < n" and "int n \<le> W" and "n \<le> length sol"
  shows "\<exists>sol'. lookahead_algorithm curves n W sol = Some sol' \<and> length sol' = length sol \<and>
    (\<Sum>i<n. sol' ! i) = W \<and> (\<forall>i<n. 1 \<le> sol' ! i) \<and> drop n sol' = drop n sol"
  using lookahead_algorithm_eq [OF assms] by (auto simp: alloc_ok_def)

definition two_curves :: "int list list" where
  "two_curves = [[4, 400, 300, 200, 100], [4, 150, 120, 110, 105]]"

lemma two_curves_ok: "curves_ok 2 4 two_curves"
  by (simp add: curves_ok_def two_curves_def curve_ok_def)

theorem lookahead_allocates_every_way_witness:
  "\<exists>sol'. lookahead_algorithm two_curves 2 4 [0, 0, 9] = Some sol' \<and> length sol' = 3 \<and> sol' ! 0 + sol' ! 1 = 4 \<and>
    list_all (\<lambda>i. 1 \<le> sol' ! i) [0, 1] \<and> drop 2 sol' = [9]"
proof -
  obtain sol' where "lookahead_algorithm two_curves 2 4 [0, 0, 9] = Some sol'" "length sol' = length [0, 0, 9 :: int]"
    "(\<Sum>i<2. sol' ! i) = 4" "\<forall>i<2. 1 \<le> sol' ! i" "drop 2 sol' = drop 2 [0, 0, 9]"
    using lookahead_allocates_every_way [OF two_curves_ok, of "[0, 0, 9]"] by auto
  then show ?thesis by (intro exI [of _ sol']) (simp add: numeral_2_eq_2)
qed

text \<open>C15. The fairness phase of UCP: with curves that do not rise, every way is still given away, at least one to everyone, and no
  application is slowed down more than the worst one was after the lookahead.\<close>

theorem unfairness_phase_is_fair:
  assumes "curves_ok n W curves" and "\<forall>i<n. falling W (curves ! i)" and "0 < n" and "n \<le> MAX_APPS" and "int n \<le> W"
    and "n \<le> length sol"
  shows "\<exists>look sol'. lookahead_algorithm curves n W sol = Some look \<and> ucp_unfairness curves n W sol = Some sol' \<and>
    (\<Sum>i<n. sol' ! i) = W \<and> (\<forall>i<n. 1 \<le> sol' ! i) \<and>
    (\<forall>i<n. \<exists>j<n. curves ! i ! nat (sol' ! i) \<le> curves ! j ! nat (look ! j))"
proof -
  obtain look where l: "lookahead_algorithm curves n W sol = Some look" "alloc_ok n W 0 look"
    using lookahead_algorithm_eq [OF assms(1,3,5,6)] by blast
  obtain sv where sv: "foldM (slowdown_step curves look) [0..<n] (replicate MAX_APPS 0) = Some sv"
      "slow_ok curves n W look sv"
    using initial_slowdowns [OF assms(1) l(2) assms(4)] by blast
  obtain sol' un' sv' where r: "unfairness_loop curves n n (look, mask n, sv) = Some (sol', un', sv')" "slow_ok curves n W sol' sv'"
      and le: "\<forall>i<n. \<exists>j<n. sv' ! i \<le> sv ! j"
    using unfairness_loop_eq [OF assms(1-4) sv(2), of n "mask n"] by blast
  have "\<not> 31 \<le> n" using assms(4) by (simp add: MAX_APPS_def)
  then have "ucp_unfairness curves n W sol = Some sol'" by (simp add: ucp_unfairness_def l sv r)
  moreover have "(\<Sum>i<n. sol' ! i) = W \<and> (\<forall>i<n. 1 \<le> sol' ! i)" using r(2) by (simp add: slow_ok_def alloc_ok_def)
  moreover have "\<forall>i<n. \<exists>j<n. curves ! i ! nat (sol' ! i) \<le> curves ! j ! nat (look ! j)"
    using le sv(2) r(2) unfolding slow_ok_def by metis
  ultimately show ?thesis using l(1) by blast
qed

theorem unfairness_phase_is_fair_witness:
  "\<exists>look sol'. lookahead_algorithm two_curves 2 4 [0, 0] = Some look \<and> ucp_unfairness two_curves 2 4 [0, 0] = Some sol' \<and>
    sol' ! 0 + sol' ! 1 = 4 \<and> list_all (\<lambda>i. 1 \<le> sol' ! i) [0, 1]"
proof -
  have "\<forall>i<2. falling 4 (two_curves ! i)" by (simp add: two_curves_def falling_def less_2_cases_iff all_conj_distrib upt_rec)
  then obtain look sol' where "lookahead_algorithm two_curves 2 4 [0, 0] = Some look" "ucp_unfairness two_curves 2 4 [0, 0] = Some sol'"
    "(\<Sum>i<2. sol' ! i) = 4" "\<forall>i<2. 1 \<le> sol' ! i"
    using unfairness_phase_is_fair [OF two_curves_ok, of "[0, 0]"] by (auto simp: MAX_APPS_def)
  then show ?thesis by (intro exI [of _ look] exI [of _ sol']) (simp add: numeral_2_eq_2)
qed

end
