(* ===== verification/Clusters.thy ===== *)
theory Clusters
  imports SizedList UcpLookahead
begin

text \<open>
  The cluster sets of the cache-clustering policies (\<^verbatim>\<open>cache_partitioning.c\<close>): groups of applications that share some
  ways. A set holds a pool of clusters, the list of those in use, and the scratch memory of pair clustering:
  clustering solutions, the distance matrix, the matrix of candidate clusters and a pool of distance nodes. The applications
  are indices in a heap the model keeps in the same record; a candidate is its cell \<open>(i, j)\<close> of the matrix, a distance node
  its index in the pool. Also here: the policies that need no clustering (one cluster for all, equal parts).
\<close>

section \<open>Data\<close>

definition MAX_CLUSTERS :: nat where "MAX_CLUSTERS = 16"
definition MAX_NR_WAYS :: nat where "MAX_NR_WAYS = 11"
definition MAX_APP_CLUSTER :: nat where "MAX_APP_CLUSTER = 2"

definition CACHE_CLASS_UNKOWN :: int where "CACHE_CLASS_UNKOWN = -1"
definition CACHE_CLASS_LIGHT :: int where "CACHE_CLASS_LIGHT = 0"
definition CACHE_CLASS_STREAMING :: int where "CACHE_CLASS_STREAMING = 1"
definition CACHE_CLASS_SENSITIVE :: int where "CACHE_CLASS_SENSITIVE = 2"

text \<open>What the policies use of an application.\<close>

record cl_app =
  ap_curve :: "int list"
  ap_space_curve :: "int list"
  ap_type :: int
  ap_sensitivity :: u64
  ap_flags :: u64
  ap_app_id :: int
  ap_sensitive_id :: int

record cluster_info_t =
  cl_nr_ways :: int
  cl_nr_apps :: int
  cl_apps :: "nat sized_list"

record candidate_cluster_t =
  cc_idx_cluster :: int
  cc_nr_apps :: int
  cc_buckets :: "int list list"
  cc_per_app_slowdown :: "int list list"
  cc_partitioned_curve :: "int list"
  cc_max_slowdown :: "int list"
  cc_sum_slowdown :: "int list"
  cc_apps :: "nat option list"

record clustering_solution_t =
  so_nr_clusters :: nat
  so_per_app_cluster :: "int list"
  so_ways_per_cluster :: "int list"
  so_slowdown_per_app :: "int list"
  so_cluster_list :: "(nat \<times> nat) sized_list"
  so_unfairness :: int

record distance1w_node_t =
  dn_app_i :: nat
  dn_app_j :: nat
  dn_distance :: int
  dn_merged_cluster :: "nat \<times> nat"

record cluster_set =
  cs_pool :: "cluster_info_t list"
  cs_clusters :: "nat sized_list"
  cs_nr_clusters :: nat
  cs_default_cluster :: int
  cs_solutions :: "clustering_solution_t list"
  cs_distance_matrix :: "int list list"
  cs_curves :: "candidate_cluster_t list list"
  cs_dnode_pool :: "distance1w_node_t list"
  cl_heap :: "cl_app list"

text \<open>The arrays have the sizes of their declarations.\<close>

definition cset_wf :: "cluster_set \<Rightarrow> bool" where
  "cset_wf s \<longleftrightarrow> length (cs_pool s) = MAX_CLUSTERS \<and> length (cs_solutions s) = MAX_CLUSTERS \<and>
     length (cs_distance_matrix s) = MAX_APPS \<and> list_all (\<lambda>r. length r = MAX_APPS) (cs_distance_matrix s) \<and>
     length (cs_curves s) = MAX_APPS \<and> list_all (\<lambda>r. length r = MAX_APPS) (cs_curves s) \<and> length (cs_dnode_pool s) = 66"

section \<open>Operations\<close>

definition init_cluster :: "nat \<Rightarrow> cluster_info_t list \<Rightarrow> cluster_info_t list option" where
  "init_cluster i cs = do {
     c \<leftarrow> rd cs i;
     wr cs i (c\<lparr>cl_apps := init_sized_list, cl_nr_ways := 0, cl_nr_apps := 0\<rparr>)
   }"

definition init_cluster_set :: "cluster_set \<Rightarrow> cluster_set option" where
  "init_cluster_set s = do {
     p \<leftarrow> foldM init_cluster [0..<MAX_CLUSTERS] (cs_pool s);
     Some (s\<lparr>cs_clusters := init_sized_list, cs_nr_clusters := 0, cs_default_cluster := 0, cs_pool := p\<rparr>)
   }"

text \<open>The cluster is its index in the pool; \<open>None\<close> inside is \<open>NULL\<close>.\<close>

definition allocate_new_cluster :: "cluster_set \<Rightarrow> (cluster_set \<times> nat option) option" where
  "allocate_new_cluster s =
     (if cs_nr_clusters s \<ge> MAX_CLUSTERS then Some (s, None)
      else do {
        l \<leftarrow> insert_sized_list_tail (cs_clusters s) (cs_nr_clusters s);
        Some (s\<lparr>cs_clusters := l, cs_nr_clusters := cs_nr_clusters s + 1\<rparr>, Some (cs_nr_clusters s))
      })"

text \<open>The callers do not test for \<open>NULL\<close>: they write through the pointer.\<close>

definition new_cluster :: "cluster_set \<Rightarrow> (cluster_set \<times> nat) option" where
  "new_cluster s = do {
     (s, c) \<leftarrow> allocate_new_cluster s;
     i \<leftarrow> c;
     Some (s, i)
   }"

definition set_cluster_ways :: "nat \<Rightarrow> int \<Rightarrow> cluster_set \<Rightarrow> cluster_set option" where
  "set_cluster_ways i w s = do {
     c \<leftarrow> rd (cs_pool s) i;
     p \<leftarrow> wr (cs_pool s) i (c\<lparr>cl_nr_ways := w\<rparr>);
     Some (s\<lparr>cs_pool := p\<rparr>)
   }"

definition add_app_to_cluster :: "nat \<Rightarrow> nat \<Rightarrow> cluster_set \<Rightarrow> cluster_set option" where
  "add_app_to_cluster i app s = do {
     c \<leftarrow> rd (cs_pool s) i;
     l \<leftarrow> insert_sized_list_tail (cl_apps c) app;
     p \<leftarrow> wr (cs_pool s) i (c\<lparr>cl_apps := l, cl_nr_apps := cl_nr_apps c + 1\<rparr>);
     Some (s\<lparr>cs_pool := p\<rparr>)
   }"

text \<open>The guard is on the clusters in use, not on the index.\<close>

definition cluster_by_idx :: "cluster_set \<Rightarrow> nat \<Rightarrow> nat option" where
  "cluster_by_idx s idx = (if cs_nr_clusters s \<ge> MAX_CLUSTERS then None else Some idx)"

text \<open>The first \<open>n\<close> objects of a list, by a loop that follows the links \<open>n\<close> times: past the end it dereferences \<open>NULL\<close>.\<close>

definition first_objects :: "'a sized_list \<Rightarrow> nat \<Rightarrow> 'a list option" where
  "first_objects l n = (if n \<le> length (sl_nodes l) then Some (take n (sl_nodes l)) else None)"

section \<open>One cluster, and equal parts\<close>

definition trivial_part :: "nat sized_list \<Rightarrow> int \<Rightarrow> cluster_set \<Rightarrow> cluster_set option" where
  "trivial_part apps nr_ways s = do {
     s \<leftarrow> init_cluster_set s;
     (s, cur) \<leftarrow> new_cluster s;
     s \<leftarrow> set_cluster_ways cur nr_ways s;
     foldM (add_app_to_cluster cur) (sl_nodes apps) (s\<lparr>cs_default_cluster := 0\<rparr>)
   }"

text \<open>An application gets a fair share, rounded up, of the ways that remain.\<close>

definition fair_step :: "nat \<Rightarrow> cluster_set \<times> int \<times> int \<Rightarrow> (cluster_set \<times> int \<times> int) option" where
  "fair_step app = (\<lambda>(s, remaining_ways, nr_remaining_apps).
     if nr_remaining_apps = 0 then None
     else do {
       let nr_fair_ways = cdiv (remaining_ways + (nr_remaining_apps - 1)) nr_remaining_apps;
       (s, cur) \<leftarrow> new_cluster s;
       s \<leftarrow> set_cluster_ways cur nr_fair_ways s;
       s \<leftarrow> add_app_to_cluster cur app s;
       Some (s, remaining_ways - nr_fair_ways, nr_remaining_apps - 1)
     })"

definition equal_part :: "nat sized_list \<Rightarrow> int \<Rightarrow> int \<Rightarrow> cluster_set \<Rightarrow> cluster_set option" where
  "equal_part apps nr_apps nr_ways s =
     (if nr_apps > nr_ways then trivial_part apps nr_ways s
      else do {
        s \<leftarrow> init_cluster_set s;
        (s, _, _) \<leftarrow> foldM fair_step (sl_nodes apps) (s\<lparr>cs_default_cluster := 0\<rparr>, nr_ways, nr_apps);
        Some s
      })"

definition class_step :: "cluster_set \<Rightarrow> nat \<Rightarrow> nat sized_list \<times> nat sized_list \<Rightarrow> (nat sized_list \<times> nat sized_list) option" where
  "class_step s app = (\<lambda>(light, intensive). do {
     a \<leftarrow> rd (cl_heap s) app;
     if ap_type a = CACHE_CLASS_LIGHT
     then do { light \<leftarrow> insert_sized_list_tail light app; Some (light, intensive) }
     else do { intensive \<leftarrow> insert_sized_list_tail intensive app; Some (light, intensive) }
   })"

text \<open>\<open>n\<close> applications from the head of a list to a cluster.\<close>

fun assign_from_head :: "nat \<Rightarrow> nat \<Rightarrow> nat sized_list \<times> cluster_set \<Rightarrow> (nat sized_list \<times> cluster_set) option" where
  "assign_from_head cl 0 (l, s) = Some (l, s)"
| "assign_from_head cl (Suc n) (l, s) = do {
     app \<leftarrow> head_sized_list l;
     l \<leftarrow> remove_sized_list l app;
     s \<leftarrow> add_app_to_cluster cl app s;
     assign_from_head cl n (l, s)
   }"

text \<open>The test for too many intensive applications comes before they are counted: \<open>0 > nr_ways\<close>.\<close>

definition equal_part_intensive :: "nat sized_list \<Rightarrow> nat \<Rightarrow> int \<Rightarrow> cluster_set \<Rightarrow> cluster_set option" where
  "equal_part_intensive apps nr_apps nr_ways s = do {
     s \<leftarrow> init_cluster_set s;
     if 0 > nr_ways then trivial_part apps nr_ways s
     else do {
       as \<leftarrow> first_objects apps nr_apps;
       (light, intensive) \<leftarrow> foldM (class_step s) as (init_sized_list, init_sized_list);
       (s, shared) \<leftarrow> new_cluster (s\<lparr>cs_default_cluster := 0\<rparr>);
       s \<leftarrow> set_cluster_ways shared nr_ways s;
       (light, s) \<leftarrow> assign_from_head shared (sized_list_length light) (light, s);
       (s, _, _) \<leftarrow> foldM fair_step (sl_nodes intensive) (s, nr_ways, int (sized_list_length intensive));
       Some s
     }
   }"

end
