(* ===== verification/PairClustering.thy ===== *)
theory PairClustering
  imports Clusters
begin

text \<open>
  Pair clustering of the applications that are sensitive to the cache (\<^verbatim>\<open>cache_partitioning.c\<close>): curves of two
  applications that share the ways of a cluster, the solutions explored, and the two versions of the algorithm. Arrays of a
  candidate cluster have room for eleven ways. A \<open>short\<close> keeps the low 16 bits of what is stored in it.
\<close>

section \<open>Combined curves\<close>

definition c_short :: "int \<Rightarrow> int" where "c_short x = signed_take_bit 15 x"

definition rd2 :: "'a list list \<Rightarrow> nat \<Rightarrow> nat \<Rightarrow> 'a option" where
  "rd2 m i j = do { r \<leftarrow> rd m i; rd r j }"

definition wr2 :: "'a list list \<Rightarrow> nat \<Rightarrow> nat \<Rightarrow> 'a \<Rightarrow> 'a list list option" where
  "wr2 m i j x = do { r \<leftarrow> rd m i; r \<leftarrow> wr r j x; wr m i r }"

text \<open>\<open>(a * x + b * y) / d\<close> on \<open>int\<close>.\<close>

definition weighted :: "int \<Rightarrow> int \<Rightarrow> int \<Rightarrow> int \<Rightarrow> int \<Rightarrow> int option" where
  "weighted a x b y d = do {
     p \<leftarrow> c_int (a * x);
     q \<leftarrow> c_int (b * y);
     t \<leftarrow> c_int (p + q);
     Some (cdiv t d)
   }"

text \<open>The callers pass a pointer to item 1 of the array: index \<open>q\<close> there is cell \<open>q + 1\<close> of \<open>curve\<close>.\<close>

definition access_index :: "int list \<Rightarrow> int \<Rightarrow> int \<Rightarrow> int \<Rightarrow> int option" where
  "access_index curve nr_ways space scale_factor = do {
     let r = cmod space scale_factor;
     let q = cdiv space scale_factor;
     if q \<ge> nr_ways then rd_int curve q
     else if r = 0 \<or> q + 1 > nr_ways then rd_int curve (q + 1)
     else do {
       x \<leftarrow> rd_int curve (q + 1);
       y \<leftarrow> rd_int curve (q + 2);
       weighted (scale_factor - r) x r y scale_factor
     }
   }"

definition access_index_acc :: "int list \<Rightarrow> int \<Rightarrow> int \<Rightarrow> int \<Rightarrow> int option" where
  "access_index_acc curve nr_ways space scale_factor = do {
     let r = cmod space scale_factor;
     let q = cdiv space scale_factor;
     if q \<ge> nr_ways then rd_int curve nr_ways
     else if r = 0 \<and> q \<ge> 1 then rd_int curve q
     else if q = 0 then do {
       x \<leftarrow> rd_int curve 1;
       y \<leftarrow> rd_int curve 2;
       value \<leftarrow> weighted (scale_factor - r) x r y scale_factor;
       delta \<leftarrow> c_int (value - y);
       value \<leftarrow> c_int (x + delta);
       Some (if value < 0 then 1 else value)
     }
     else do {
       x \<leftarrow> rd_int curve q;
       y \<leftarrow> rd_int curve (q + 1);
       weighted (scale_factor - r) x r y scale_factor
     }
   }"

definition the_app :: "cl_app list \<Rightarrow> candidate_cluster_t \<Rightarrow> nat \<Rightarrow> cl_app option" where
  "the_app heap info k = do { p \<leftarrow> rd (cc_apps info) k; a \<leftarrow> p; rd heap a }"

text \<open>One way more: the space of each application and what it costs.\<close>

definition space_share :: "int \<Rightarrow> int \<Rightarrow> int \<Rightarrow> int option" where
  "space_share m ms scale_factor = do {
     p \<leftarrow> c_int (m * scale_factor);
     t \<leftarrow> c_int (p + (ms - 1));
     if ms = 0 then None else c_int (cdiv t ms)
   }"

definition combine_step ::
  "cl_app \<Rightarrow> cl_app \<Rightarrow> int \<Rightarrow> nat \<Rightarrow> candidate_cluster_t \<times> int \<times> int \<Rightarrow> (candidate_cluster_t \<times> int \<times> int) option" where
  "combine_step app0 app1 nr_ways i = (\<lambda>(info, s0, s1). do {
     m0 \<leftarrow> access_index (ap_space_curve app0) nr_ways s0 100;
     m1 \<leftarrow> access_index (ap_space_curve app1) nr_ways s1 100;
     ms \<leftarrow> c_int (m0 + m1);
     d0 \<leftarrow> space_share m0 ms 100;
     s0 \<leftarrow> c_int (s0 + d0);
     d1 \<leftarrow> space_share m1 ms 100;
     s1 \<leftarrow> c_int (s1 + d1);
     slow0 \<leftarrow> access_index_acc (ap_curve app0) nr_ways s0 100;
     slow1 \<leftarrow> access_index_acc (ap_curve app1) nr_ways s1 100;
     t \<leftarrow> c_int (slow0 + slow1);
     pas \<leftarrow> wr2 (cc_per_app_slowdown info) i 0 (c_short slow0);
     pas \<leftarrow> wr2 pas i 1 (c_short slow1);
     mx \<leftarrow> wr (cc_max_slowdown info) (i + 1) (max slow0 slow1);
     sm \<leftarrow> wr (cc_sum_slowdown info) (i + 1) t;
     bk \<leftarrow> wr2 (cc_buckets info) i 0 (c_short s0);
     bk \<leftarrow> wr2 bk i 1 (c_short s1);
     Some (info\<lparr>cc_per_app_slowdown := pas, cc_max_slowdown := mx, cc_sum_slowdown := sm, cc_buckets := bk\<rparr>, s0, s1)
   })"

definition build_combined_curve :: "cl_app list \<Rightarrow> candidate_cluster_t \<Rightarrow> int \<Rightarrow> candidate_cluster_t option" where
  "build_combined_curve heap info nr_ways = do {
     app0 \<leftarrow> the_app heap info 0;
     app1 \<leftarrow> the_app heap info 1;
     mx \<leftarrow> wr (cc_max_slowdown info) 0 nr_ways;
     sm \<leftarrow> wr (cc_sum_slowdown info) 0 nr_ways;
     (info, _, _) \<leftarrow> foldM (combine_step app0 app1 nr_ways) [0..<nat nr_ways]
       (info\<lparr>cc_max_slowdown := mx, cc_sum_slowdown := sm\<rparr>, 0, 0);
     Some info
   }"

text \<open>The combined curve against a partition of the same ways by UCP.\<close>

definition distance_step ::
  "cl_app \<Rightarrow> cl_app \<Rightarrow> nat \<Rightarrow> candidate_cluster_t \<times> int list \<times> int \<Rightarrow> (candidate_cluster_t \<times> int list \<times> int) option" where
  "distance_step app0 app1 i = (\<lambda>(info, ucp_solution, distance). do {
     combined \<leftarrow> rd (cc_max_slowdown info) i;
     (value, ucp_solution) \<leftarrow> (if i > 1 then do {
         sol \<leftarrow> lookahead_algorithm [ap_curve app0, ap_curve app1] 2 (int i) ucp_solution;
         w0 \<leftarrow> rd sol 0;
         w1 \<leftarrow> rd sol 1;
         slow0 \<leftarrow> rd_int (ap_curve app0) w0;
         slow1 \<leftarrow> rd_int (ap_curve app1) w1;
         Some (max slow0 slow1, sol)
       } else Some (combined, ucp_solution));
     pc \<leftarrow> wr (cc_partitioned_curve info) i value;
     d \<leftarrow> c_int (combined - value);
     distance \<leftarrow> c_int (distance + d);
     Some (info\<lparr>cc_partitioned_curve := pc\<rparr>, ucp_solution, distance)
   })"

definition calculate_slowdown_distance :: "cl_app list \<Rightarrow> candidate_cluster_t \<Rightarrow> int \<Rightarrow> (candidate_cluster_t \<times> int) option" where
  "calculate_slowdown_distance heap info nr_ways = do {
     pc \<leftarrow> wr (cc_partitioned_curve info) 0 nr_ways;
     info \<leftarrow> build_combined_curve heap (info\<lparr>cc_partitioned_curve := pc\<rparr>) nr_ways;
     app0 \<leftarrow> the_app heap info 0;
     app1 \<leftarrow> the_app heap info 1;
     (info, _, distance) \<leftarrow> foldM (distance_step app0 app1) [1..<nat nr_ways + 1] (info, replicate MAX_APP_CLUSTER 0, 0);
     Some (info, distance)
   }"

section \<open>Solutions\<close>

definition clear_distance_in_matrix :: "int list list \<Rightarrow> nat \<Rightarrow> nat \<Rightarrow> int list list option" where
  "clear_distance_in_matrix matrix index nr_apps = foldM (\<lambda>i m. do {
     m \<leftarrow> wr2 m index i INT_MAX;
     wr2 m i index INT_MAX
   }) [0..<nr_apps] matrix"

text \<open>A candidate is added to the list of a solution.\<close>

definition add_candidate :: "nat \<times> nat \<Rightarrow> clustering_solution_t \<Rightarrow> clustering_solution_t option" where
  "add_candidate c so = do {
     l \<leftarrow> insert_sized_list_tail (so_cluster_list so) c;
     Some (so\<lparr>so_cluster_list := l, so_nr_clusters := so_nr_clusters so + 1\<rparr>)
   }"

definition keep_step ::
  "candidate_cluster_t list list \<Rightarrow> nat \<Rightarrow> nat \<Rightarrow> nat \<times> nat \<Rightarrow> clustering_solution_t \<Rightarrow> clustering_solution_t option" where
  "keep_step cells min_i min_j c so = do {
     cand \<leftarrow> rd2 cells (fst c) (snd c);
     if cc_idx_cluster cand = int min_i \<or> cc_idx_cluster cand = int min_j then Some so else add_candidate c so
   }"

definition build_new_solution ::
  "candidate_cluster_t list list \<Rightarrow> clustering_solution_t \<Rightarrow> nat \<times> nat \<Rightarrow> nat \<Rightarrow> nat \<Rightarrow> clustering_solution_t \<Rightarrow> clustering_solution_t option" where
  "build_new_solution cells prev_solution merged min_i min_j new_solution = do {
     l \<leftarrow> insert_sized_list_tail (so_cluster_list new_solution) merged;
     foldM (keep_step cells min_i min_j) (sl_nodes (so_cluster_list prev_solution))
       (new_solution\<lparr>so_cluster_list := l, so_nr_clusters := 1\<rparr>)
   }"

text \<open>The slowdown of each application of cluster \<open>i\<close> of the list, with the extremes so far.\<close>

definition slow_app_step ::
  "cl_app list \<Rightarrow> candidate_cluster_t \<Rightarrow> nat \<Rightarrow> nat \<Rightarrow> clustering_solution_t \<times> int \<times> int \<Rightarrow> (clustering_solution_t \<times> int \<times> int) option" where
  "slow_app_step heap cand i j = (\<lambda>(so, max_slowdown, min_slowdown). do {
     app \<leftarrow> the_app heap cand j;
     w \<leftarrow> rd (so_ways_per_cluster so) i;
     this_slowdown \<leftarrow> (if cc_nr_apps cand = 1 then rd_int (ap_curve app) w
       else do { r \<leftarrow> rd_int (cc_per_app_slowdown cand) (w - 1); rd r j });
     sp \<leftarrow> wr_int (so_slowdown_per_app so) (ap_sensitive_id app) this_slowdown;
     pc \<leftarrow> wr_int (so_per_app_cluster so) (ap_sensitive_id app) (cc_idx_cluster cand);
     Some (so\<lparr>so_slowdown_per_app := sp, so_per_app_cluster := pc\<rparr>, max max_slowdown this_slowdown, min min_slowdown this_slowdown)
   })"

definition slow_cluster_step ::
  "cl_app list \<Rightarrow> candidate_cluster_t list list \<Rightarrow> (candidate_cluster_t \<Rightarrow> nat \<Rightarrow> clustering_solution_t \<Rightarrow> clustering_solution_t option) \<Rightarrow>
   nat \<times> nat \<Rightarrow> nat \<times> clustering_solution_t \<times> int \<times> int \<Rightarrow> (nat \<times> clustering_solution_t \<times> int \<times> int) option" where
  "slow_cluster_step heap cells update c = (\<lambda>(i, so, max_slowdown, min_slowdown). do {
     cand \<leftarrow> rd2 cells (fst c) (snd c);
     so \<leftarrow> update cand i so;
     (so, mx, mn) \<leftarrow> foldM (slow_app_step heap cand i) [0..<nat (cc_nr_apps cand)] (so, max_slowdown, min_slowdown);
     Some (i + 1, so, mx, mn)
   })"

definition set_unfairness ::
  "cl_app list \<Rightarrow> candidate_cluster_t list list \<Rightarrow> (candidate_cluster_t \<Rightarrow> nat \<Rightarrow> clustering_solution_t \<Rightarrow> clustering_solution_t option) \<Rightarrow>
   clustering_solution_t \<Rightarrow> clustering_solution_t option" where
  "set_unfairness heap cells update so = do {
     (_, so, mx, mn) \<leftarrow> foldM (slow_cluster_step heap cells update) (sl_nodes (so_cluster_list so)) (0, so, 0, INT_MAX);
     if mn = 0 then Some (so\<lparr>so_unfairness := INT_MAX\<rparr>)
     else do { p \<leftarrow> c_int (1000 * mx); Some (so\<lparr>so_unfairness := cdiv p mn\<rparr>) }
   }"

text \<open>The curve of a candidate: that of its application, or the combined one.\<close>

fun candidate_curves :: "cl_app list \<Rightarrow> candidate_cluster_t list list \<Rightarrow> (nat \<times> nat) list \<Rightarrow> int list list option" where
  "candidate_curves heap cells [] = Some []"
| "candidate_curves heap cells (c # cs) = do {
     cand \<leftarrow> rd2 cells (fst c) (snd c);
     curve \<leftarrow> (if cc_nr_apps cand = 1 then do { a \<leftarrow> the_app heap cand 0; Some (ap_curve a) } else Some (cc_sum_slowdown cand));
     rest \<leftarrow> candidate_curves heap cells cs;
     Some (curve # rest)
   }"

definition cluster_ucp :: "cl_app list \<Rightarrow> candidate_cluster_t list list \<Rightarrow> clustering_solution_t \<Rightarrow> int \<Rightarrow> clustering_solution_t option" where
  "cluster_ucp heap cells so nr_ways = do {
     cvs \<leftarrow> candidate_curves heap cells (sl_nodes (so_cluster_list so));
     w \<leftarrow> lookahead_algorithm_list cvs (so_nr_clusters so) nr_ways (so_ways_per_cluster so);
     set_unfairness heap cells (\<lambda>cand i so. Some so) (so\<lparr>so_ways_per_cluster := w\<rparr>)
   }"

definition evaluate_new_solution ::
  "cl_app list \<Rightarrow> candidate_cluster_t list list \<Rightarrow> clustering_solution_t \<Rightarrow> int list \<Rightarrow> clustering_solution_t option" where
  "evaluate_new_solution heap cells new_solution ways_assigned =
     set_unfairness heap cells (\<lambda>cand i so. do {
       w \<leftarrow> rd_int ways_assigned (cc_idx_cluster cand);
       ws \<leftarrow> wr (so_ways_per_cluster so) i w;
       Some (so\<lparr>so_ways_per_cluster := ws\<rparr>)
     }) new_solution"

definition keep_ways_step ::
  "candidate_cluster_t list list \<Rightarrow> nat \<Rightarrow> nat \<Rightarrow> int list \<Rightarrow> nat \<times> nat \<Rightarrow> clustering_solution_t \<Rightarrow> clustering_solution_t option" where
  "keep_ways_step cells min_i min_j ways_assigned c so = do {
     cand \<leftarrow> rd2 cells (fst c) (snd c);
     if cc_idx_cluster cand = int min_i \<or> cc_idx_cluster cand = int min_j then Some so
     else do {
       l \<leftarrow> insert_sized_list_tail (so_cluster_list so) c;
       w \<leftarrow> rd_int ways_assigned (cc_idx_cluster cand);
       ws \<leftarrow> wr (so_ways_per_cluster so) (so_nr_clusters so) w;
       Some (so\<lparr>so_cluster_list := l, so_ways_per_cluster := ws, so_nr_clusters := so_nr_clusters so + 1\<rparr>)
     }
   }"

definition build_new_solution_merged ::
  "cl_app list \<Rightarrow> candidate_cluster_t list list \<Rightarrow> clustering_solution_t \<Rightarrow> nat \<times> nat \<Rightarrow> nat \<Rightarrow> nat \<Rightarrow> int list \<Rightarrow>
   clustering_solution_t \<Rightarrow> clustering_solution_t option" where
  "build_new_solution_merged heap cells prev_solution merged min_i min_j ways_assigned new_solution = do {
     l \<leftarrow> insert_sized_list_tail (so_cluster_list new_solution) merged;
     w \<leftarrow> rd ways_assigned min_i;
     ws \<leftarrow> wr (so_ways_per_cluster new_solution) 0 w;
     so \<leftarrow> foldM (keep_ways_step cells min_i min_j ways_assigned) (sl_nodes (so_cluster_list prev_solution))
       (new_solution\<lparr>so_cluster_list := l, so_nr_clusters := 1, so_ways_per_cluster := ws\<rparr>);
     set_unfairness heap cells (\<lambda>cand i so. Some so) so
   }"

text \<open>Applications by descending slowdown: a selection sort with a bit per application already taken.\<close>

definition select_max_step :: "clustering_solution_t \<Rightarrow> u64 \<Rightarrow> nat \<Rightarrow> int \<times> nat \<Rightarrow> (int \<times> nat) option" where
  "select_max_step so sel j = (\<lambda>(max_slowdown, idx_max).
     if j \<ge> 31 then None
     else if bit sel j then Some (max_slowdown, idx_max)
     else do {
       v \<leftarrow> rd (so_slowdown_per_app so) j;
       Some (if v > max_slowdown then (v, j) else (max_slowdown, idx_max))
     })"

definition sort_slow_step ::
  "clustering_solution_t \<Rightarrow> nat \<Rightarrow> nat \<Rightarrow> u64 \<times> nat \<times> nat list \<Rightarrow> (u64 \<times> nat \<times> nat list) option" where
  "sort_slow_step so nr_apps i = (\<lambda>(sel, idx_max, index_vector). do {
     (_, idx_max) \<leftarrow> foldM (select_max_step so sel) [0..<nr_apps] (-1, idx_max);
     index_vector \<leftarrow> wr index_vector i idx_max;
     Some (sel OR push_bit idx_max 1, idx_max, index_vector)
   })"

definition get_sorted_slowdowns :: "clustering_solution_t \<Rightarrow> nat list \<Rightarrow> nat list option" where
  "get_sorted_slowdowns so index_vector = do {
     (_, _, v) \<leftarrow> foldM (sort_slow_step so (so_nr_clusters so)) [0..<so_nr_clusters so] (0, 0, index_vector);
     Some v
   }"

section \<open>What both versions share\<close>

text \<open>Every application alone in its cluster, on the diagonal of the matrix; \<open>i\<close> counts.\<close>

definition single_step :: "nat \<Rightarrow> nat \<times> cluster_set \<times> clustering_solution_t \<Rightarrow> (nat \<times> cluster_set \<times> clustering_solution_t) option" where
  "single_step app = (\<lambda>(i, s, so). do {
     cand \<leftarrow> rd2 (cs_curves s) i i;
     a \<leftarrow> rd (cl_heap s) app;
     h \<leftarrow> wr (cl_heap s) app (a\<lparr>ap_sensitive_id := int i\<rparr>);
     pc \<leftarrow> wr (so_per_app_cluster so) i (int i);
     cells \<leftarrow> wr2 (cs_curves s) i i (cand\<lparr>cc_nr_apps := 1, cc_apps := [Some app, None], cc_idx_cluster := int i\<rparr>);
     so \<leftarrow> add_candidate (i, i) (so\<lparr>so_per_app_cluster := pc\<rparr>);
     Some (i + 1, s\<lparr>cl_heap := h, cs_curves := cells\<rparr>, so)
   })"

definition initial_solution :: "nat sized_list \<Rightarrow> nat \<Rightarrow> cluster_set \<Rightarrow> (nat list \<times> cluster_set \<times> clustering_solution_t) option" where
  "initial_solution apps nr_apps s = do {
     so \<leftarrow> rd (cs_solutions s) 0;
     as \<leftarrow> first_objects apps nr_apps;
     (_, s, so) \<leftarrow> foldM single_step as
       (0, s, so\<lparr>so_cluster_list := init_sized_list, so_nr_clusters := 0, so_slowdown_per_app := replicate MAX_APPS 0\<rparr>);
     Some (as, s, so)
   }"

definition put_solution :: "nat \<Rightarrow> clustering_solution_t \<Rightarrow> cluster_set \<Rightarrow> cluster_set option" where
  "put_solution k so s = do { l \<leftarrow> wr (cs_solutions s) k so; Some (s\<lparr>cs_solutions := l\<rparr>) }"

text \<open>The next solution of the array, with an empty list.\<close>

definition next_solution :: "nat \<Rightarrow> cluster_set \<Rightarrow> clustering_solution_t option" where
  "next_solution k s = do { so \<leftarrow> rd (cs_solutions s) k; Some (so\<lparr>so_cluster_list := init_sized_list\<rparr>) }"

text \<open>The candidate of two applications.\<close>

definition pair_cell :: "nat list \<Rightarrow> nat \<Rightarrow> nat \<Rightarrow> cluster_set \<Rightarrow> candidate_cluster_t option" where
  "pair_cell as i j s = do {
     cand \<leftarrow> rd2 (cs_curves s) i j;
     app0 \<leftarrow> rd as i;
     app1 \<leftarrow> rd as j;
     a \<leftarrow> rd (cl_heap s) app0;
     Some (cand\<lparr>cc_apps := [Some app0, Some app1], cc_nr_apps := 2, cc_idx_cluster := ap_sensitive_id a\<rparr>)
   }"

text \<open>The clusters of the set, from the best solution. \<open>nr_apps\<close> is set and then counts the applications again.\<close>

fun fill_cluster :: "nat \<Rightarrow> candidate_cluster_t \<Rightarrow> nat list \<Rightarrow> cluster_set \<Rightarrow> cluster_set option" where
  "fill_cluster cur cand [] s = Some s"
| "fill_cluster cur cand (j # js) s = do {
     p \<leftarrow> rd (cc_apps cand) j;
     app \<leftarrow> p;
     s \<leftarrow> add_app_to_cluster cur app s;
     fill_cluster cur cand js s
   }"

definition export_step :: "clustering_solution_t \<Rightarrow> nat \<times> nat \<Rightarrow> nat \<times> cluster_set \<Rightarrow> (nat \<times> cluster_set) option" where
  "export_step best c = (\<lambda>(i, s). do {
     cand \<leftarrow> rd2 (cs_curves s) (fst c) (snd c);
     (s, cur) \<leftarrow> new_cluster s;
     w \<leftarrow> rd (so_ways_per_cluster best) i;
     info \<leftarrow> rd (cs_pool s) cur;
     p \<leftarrow> wr (cs_pool s) cur (info\<lparr>cl_nr_ways := w, cl_nr_apps := cc_nr_apps cand\<rparr>);
     s \<leftarrow> fill_cluster cur cand [0..<nat (cc_nr_apps cand)] (s\<lparr>cs_pool := p\<rparr>);
     Some (i + 1, s)
   })"

definition export_clusters :: "clustering_solution_t \<Rightarrow> cluster_set \<Rightarrow> cluster_set option" where
  "export_clusters best s = do {
     (_, s) \<leftarrow> foldM (export_step best) (sl_nodes (so_cluster_list best)) (0, s);
     Some s
   }"

text \<open>The smallest of the first \<open>n\<close> cells, with its index; \<open>none\<close> when all are \<open>INT_MAX\<close>.\<close>

definition min_step :: "int list \<Rightarrow> nat \<Rightarrow> int \<times> int \<Rightarrow> (int \<times> int) option" where
  "min_step v j = (\<lambda>(min_val, idx_min). do {
     x \<leftarrow> rd v j;
     Some (if x < min_val then (x, int j) else (min_val, idx_min))
   })"

definition min_of :: "int list \<Rightarrow> nat \<Rightarrow> int \<Rightarrow> (int \<times> int) option" where
  "min_of v n none = foldM (min_step v) [0..<n] (INT_MAX, none)"

section \<open>The first version: merge the closest clusters\<close>

definition distance_pair_step :: "nat list \<Rightarrow> int \<Rightarrow> nat \<Rightarrow> nat \<Rightarrow> cluster_set \<Rightarrow> cluster_set option" where
  "distance_pair_step as nr_ways i j s = do {
     info \<leftarrow> pair_cell as i j s;
     (info, distance) \<leftarrow> calculate_slowdown_distance (cl_heap s) info nr_ways;
     cells \<leftarrow> wr2 (cs_curves s) i j info;
     m \<leftarrow> wr2 (cs_distance_matrix s) i j distance;
     m \<leftarrow> wr2 m j i distance;
     Some (s\<lparr>cs_curves := cells, cs_distance_matrix := m\<rparr>)
   }"

definition reset_distance_row :: "nat \<Rightarrow> nat \<Rightarrow> int list list \<Rightarrow> int list list option" where
  "reset_distance_row nr_apps i m = do {
     m \<leftarrow> wr2 m i i INT_MAX;
     foldM (\<lambda>j m. do { m \<leftarrow> wr2 m j i INT_MAX; wr2 m i j INT_MAX }) [i + 1..<nr_apps] m
   }"

text \<open>The state of the loop: the set, the applications not merged, the current solution, the number of solutions and the best one.\<close>

type_synonym search = "cluster_set \<times> u64 \<times> clustering_solution_t \<times> nat \<times> clustering_solution_t"

definition merge_step :: "nat \<Rightarrow> int \<Rightarrow> nat list \<Rightarrow> nat \<Rightarrow> search \<Rightarrow> search option" where
  "merge_step nr_apps nr_ways sorted_indexes i = (\<lambda>(s, unmerged, cur, nr_solutions, best).
     if unmerged = 0 then Some (s, unmerged, cur, nr_solutions, best)
     else do {
       idxc \<leftarrow> rd sorted_indexes i;
       if \<not> bit unmerged idxc then Some (s, unmerged, cur, nr_solutions, best)
       else do {
         row \<leftarrow> rd (cs_distance_matrix s) idxc;
         (min_distance, idx_min) \<leftarrow> min_of row nr_apps 0;
         if min_distance \<ge> 0 then do {
           m \<leftarrow> clear_distance_in_matrix (cs_distance_matrix s) idxc nr_apps;
           Some (s\<lparr>cs_distance_matrix := m\<rparr>, unmerged AND NOT (push_bit idxc 1), cur, nr_solutions, best)
         } else do {
           let (min_i, min_j) = (if nat idx_min > idxc then (idxc, nat idx_min) else (nat idx_min, idxc));
           m \<leftarrow> clear_distance_in_matrix (cs_distance_matrix s) min_i nr_apps;
           m \<leftarrow> clear_distance_in_matrix m min_j nr_apps;
           let s = s\<lparr>cs_distance_matrix := m\<rparr>;
           new \<leftarrow> next_solution nr_solutions s;
           new \<leftarrow> build_new_solution (cs_curves s) cur (min_i, min_j) min_i min_j new;
           new \<leftarrow> cluster_ucp (cl_heap s) (cs_curves s) new nr_ways;
           s \<leftarrow> put_solution nr_solutions new s;
           Some (s, unmerged AND NOT (push_bit min_i 1) AND NOT (push_bit min_j 1), new, nr_solutions + 1,
             if so_unfairness new \<le> so_unfairness best then new else best)
         }
       }
     })"

definition pair_clustering_core :: "nat sized_list \<Rightarrow> nat \<Rightarrow> int \<Rightarrow> cluster_set \<Rightarrow> (cluster_set \<times> clustering_solution_t) option" where
  "pair_clustering_core apps nr_apps nr_ways s = do {
     m \<leftarrow> foldM (reset_distance_row nr_apps) [0..<nr_apps] (cs_distance_matrix s);
     (as, s, cur) \<leftarrow> initial_solution apps nr_apps (s\<lparr>cs_distance_matrix := m\<rparr>);
     cur \<leftarrow> cluster_ucp (cl_heap s) (cs_curves s) cur nr_ways;
     s \<leftarrow> put_solution 0 cur s;
     s \<leftarrow> foldM (\<lambda>i. foldM (distance_pair_step as nr_ways i) [i + 1..<nr_apps]) [0..<nr_apps] s;
     if nr_apps \<ge> 31 then None
     else do {
       sorted_indexes \<leftarrow> get_sorted_slowdowns cur (replicate MAX_APPS 0);
       (s, _, _, _, best) \<leftarrow> foldM (merge_step nr_apps nr_ways sorted_indexes) [0..<nr_apps] (s, mask nr_apps, cur, 1, cur);
       s \<leftarrow> export_clusters best s;
       Some (s, best)
     }
   }"

section \<open>The second version: fair UCP, then merge or steal a way\<close>

definition reduction_step ::
  "cluster_set \<Rightarrow> nat list \<Rightarrow> int \<Rightarrow> nat \<Rightarrow> u64 \<Rightarrow> int list \<Rightarrow> nat \<Rightarrow> int list \<Rightarrow> int list option" where
  "reduction_step s as max_ways idx_app unmerged ways i slowdown_red = do {
     app \<leftarrow> rd as i;
     a \<leftarrow> rd (cl_heap s) app;
     if \<not> bit unmerged i then wr slowdown_red i INT_MAX
     else if i = idx_app then do {
       w \<leftarrow> rd ways idx_app;
       if w = max_ways then wr slowdown_red i INT_MAX
       else do {
         x \<leftarrow> rd_int (ap_curve a) (w + 1);
         y \<leftarrow> rd_int (ap_curve a) w;
         r \<leftarrow> c_int (x - y);
         wr slowdown_red i r
       }
     } else do {
       let (min_i, min_j) = (if idx_app > i then (i, idx_app) else (idx_app, i));
       cluster \<leftarrow> rd2 (cs_curves s) min_i min_j;
       wi \<leftarrow> rd ways min_i;
       wj \<leftarrow> rd ways min_j;
       ai \<leftarrow> rd as min_i;
       aj \<leftarrow> rd as min_j;
       app0 \<leftarrow> rd (cl_heap s) ai;
       app1 \<leftarrow> rd (cl_heap s) aj;
       combined \<leftarrow> rd_int (cc_sum_slowdown cluster) (wi + wj);
       x \<leftarrow> rd_int (ap_curve app0) wi;
       y \<leftarrow> rd_int (ap_curve app1) wj;
       t \<leftarrow> c_int (x + y);
       r \<leftarrow> c_int (combined - t);
       wr slowdown_red i r
     }
   }"

text \<open>The test for a null pointer in the code is that of the array of applications: every cell has been set.\<close>

definition determine_slowdown_reductions ::
  "cluster_set \<Rightarrow> nat list \<Rightarrow> nat \<Rightarrow> int \<Rightarrow> nat \<Rightarrow> u64 \<Rightarrow> int list \<Rightarrow> int list \<Rightarrow> int list option" where
  "determine_slowdown_reductions s as nr_apps max_ways idx_app unmerged ways slowdown_red =
     foldM (reduction_step s as max_ways idx_app unmerged ways) [0..<nr_apps] slowdown_red"

definition min_distance_step ::
  "distance1w_node_t list \<Rightarrow> nat \<Rightarrow> nat \<Rightarrow> nat option \<times> int \<Rightarrow> (nat option \<times> int) option" where
  "min_distance_step nodes filter_idx n = (\<lambda>(best, min_distance). do {
     cur \<leftarrow> rd nodes n;
     Some (if dn_app_i cur \<noteq> filter_idx \<and> dn_app_j cur \<noteq> filter_idx \<and> (best = None \<or> dn_distance cur < min_distance)
           then (Some n, dn_distance cur) else (best, min_distance))
   })"

definition get_min_distance_in_list :: "distance1w_node_t list \<Rightarrow> nat sized_list \<Rightarrow> nat \<Rightarrow> nat option option" where
  "get_min_distance_in_list nodes distance_list filter_idx = do {
     (best, _) \<leftarrow> foldM (min_distance_step nodes filter_idx) (sl_nodes distance_list) (None, INT_MAX);
     Some best
   }"

fun delete_loop :: "distance1w_node_t list \<Rightarrow> nat \<Rightarrow> nat list \<Rightarrow> nat sized_list \<Rightarrow> nat sized_list option" where
  "delete_loop nodes filter_idx [] l = Some l"
| "delete_loop nodes filter_idx (n # ns) l = do {
     cur \<leftarrow> rd nodes n;
     l \<leftarrow> (if dn_app_i cur = filter_idx \<or> dn_app_j cur = filter_idx then remove_sized_list l n else Some l);
     delete_loop nodes filter_idx ns l
   }"

definition delete_distances :: "distance1w_node_t list \<Rightarrow> nat sized_list \<Rightarrow> nat \<Rightarrow> nat sized_list option" where
  "delete_distances nodes distance_list filter_idx = delete_loop nodes filter_idx (sl_nodes distance_list) distance_list"

definition distance1w_step ::
  "nat list \<Rightarrow> int \<Rightarrow> int list \<Rightarrow> nat \<Rightarrow> nat \<Rightarrow> cluster_set \<times> nat sized_list \<times> nat \<Rightarrow> (cluster_set \<times> nat sized_list \<times> nat) option" where
  "distance1w_step as nr_ways ways i j = (\<lambda>(s, distance_list, node_pool_index). do {
     info \<leftarrow> pair_cell as i j s;
     info \<leftarrow> build_combined_curve (cl_heap s) info nr_ways;
     cells \<leftarrow> wr2 (cs_curves s) i j info;
     let s = s\<lparr>cs_curves := cells\<rparr>;
     wi \<leftarrow> rd ways i;
     wj \<leftarrow> rd ways j;
     if wi + wj = 2 then do {
       app0 \<leftarrow> the_app (cl_heap s) info 0;
       app1 \<leftarrow> the_app (cl_heap s) info 1;
       x \<leftarrow> rd (ap_curve app0) 1;
       y \<leftarrow> rd (ap_curve app1) 1;
       t \<leftarrow> c_int (x + y);
       combined \<leftarrow> rd (cc_sum_slowdown info) 1;
       d \<leftarrow> c_int (combined - t);
       nodes \<leftarrow> wr (cs_dnode_pool s) node_pool_index \<lparr>dn_app_i = i, dn_app_j = j, dn_distance = d, dn_merged_cluster = (i, j)\<rparr>;
       distance_list \<leftarrow> insert_sized_list_tail distance_list node_pool_index;
       Some (s\<lparr>cs_dnode_pool := nodes\<rparr>, distance_list, node_pool_index + 1)
     } else Some (s, distance_list, node_pool_index)
   })"

text \<open>With the ways of each application and the list of distances.\<close>

type_synonym search2 = "cluster_set \<times> u64 \<times> clustering_solution_t \<times> nat \<times> clustering_solution_t \<times> int list \<times> nat sized_list"

definition better :: "clustering_solution_t \<Rightarrow> clustering_solution_t \<Rightarrow> clustering_solution_t" where
  "better new best = (if so_unfairness new < so_unfairness best then new else best)"

text \<open>Steal a way: two clusters of one way become one, and \<open>idxc\<close> gets the way.\<close>

definition steal_way :: "nat \<Rightarrow> distance1w_node_t \<Rightarrow> search2 \<Rightarrow> search2 option" where
  "steal_way idxc node = (\<lambda>(s, unmerged, cur, nr_solutions, best, ways, distance_list). do {
     let min_i = dn_app_i node;
     let min_j = dn_app_j node;
     distance_list \<leftarrow> delete_distances (cs_dnode_pool s) distance_list min_i;
     distance_list \<leftarrow> delete_distances (cs_dnode_pool s) distance_list min_j;
     ways \<leftarrow> wr ways min_j 1;
     ways \<leftarrow> wr ways min_i 1;
     w \<leftarrow> rd ways idxc;
     ways \<leftarrow> wr ways idxc (w + 1);
     new \<leftarrow> next_solution nr_solutions s;
     new \<leftarrow> build_new_solution_merged (cl_heap s) (cs_curves s) cur (min_i, min_j) min_i min_j ways new;
     s \<leftarrow> put_solution nr_solutions new s;
     Some (s, unmerged AND NOT (push_bit min_i 1) AND NOT (push_bit min_j 1), new, nr_solutions + 1, better new best, ways, distance_list)
   })"

text \<open>Merge \<open>idxc\<close> with another one: the cluster has the ways of both.\<close>

definition merge_pair :: "nat \<Rightarrow> nat \<Rightarrow> search2 \<Rightarrow> search2 option" where
  "merge_pair idxc idx_min = (\<lambda>(s, unmerged, cur, nr_solutions, best, ways, distance_list). do {
     let (min_i, min_j) = (if idx_min > idxc then (idxc, idx_min) else (idx_min, idxc));
     wi \<leftarrow> rd ways min_i;
     wj \<leftarrow> rd ways min_j;
     distance_list \<leftarrow> (if wi = 1 then delete_distances (cs_dnode_pool s) distance_list min_i else Some distance_list);
     distance_list \<leftarrow> (if wj = 1 then delete_distances (cs_dnode_pool s) distance_list min_j else Some distance_list);
     ways \<leftarrow> wr ways min_i (wi + wj);
     new \<leftarrow> next_solution nr_solutions s;
     new \<leftarrow> build_new_solution_merged (cl_heap s) (cs_curves s) cur (min_i, min_j) min_i min_j ways new;
     s \<leftarrow> put_solution nr_solutions new s;
     Some (s, unmerged AND NOT (push_bit min_i 1) AND NOT (push_bit min_j 1), new, nr_solutions + 1, better new best, ways, distance_list)
   })"

definition fair_merge_step :: "nat list \<Rightarrow> nat \<Rightarrow> int \<Rightarrow> nat list \<Rightarrow> nat \<Rightarrow> search2 \<Rightarrow> search2 option" where
  "fair_merge_step as nr_apps nr_ways sorted_indexes i = (\<lambda>(s, unmerged, cur, nr_solutions, best, ways, distance_list).
     if unmerged = 0 then Some (s, unmerged, cur, nr_solutions, best, ways, distance_list)
     else do {
       idxc \<leftarrow> rd sorted_indexes i;
       if \<not> bit unmerged idxc then Some (s, unmerged, cur, nr_solutions, best, ways, distance_list)
       else do {
         red \<leftarrow> determine_slowdown_reductions s as nr_apps nr_ways idxc unmerged ways (replicate MAX_APPS 0);
         n \<leftarrow> get_min_distance_in_list (cs_dnode_pool s) distance_list idxc;
         red \<leftarrow> (case n of
             Some k \<Rightarrow> do { node \<leftarrow> rd (cs_dnode_pool s) k; x \<leftarrow> rd red idxc; y \<leftarrow> c_int (x + dn_distance node); wr red idxc y }
           | None \<Rightarrow> wr red idxc INT_MAX);
         (min_reduction, idx_min) \<leftarrow> min_of red nr_apps (-1);
         if idx_min = int idxc \<and> min_reduction < 0 then do {
           k \<leftarrow> n;
           node \<leftarrow> rd (cs_dnode_pool s) k;
           steal_way idxc node (s, unmerged, cur, nr_solutions, best, ways, distance_list)
         } else if min_reduction < 0 then
           merge_pair idxc (nat idx_min) (s, unmerged, cur, nr_solutions, best, ways, distance_list)
         else Some (s, unmerged, cur, nr_solutions, best, ways, distance_list)
       }
     })"

definition pair_clustering_core2 :: "nat sized_list \<Rightarrow> nat \<Rightarrow> int \<Rightarrow> cluster_set \<Rightarrow> (cluster_set \<times> clustering_solution_t) option" where
  "pair_clustering_core2 apps nr_apps nr_ways s = do {
     (as, s, cur) \<leftarrow> initial_solution apps nr_apps s;
     cvs \<leftarrow> foldM (\<lambda>app cvs. do { a \<leftarrow> rd (cl_heap s) app; Some (cvs @ [ap_curve a]) }) as [];
     ways \<leftarrow> ucp_unfairness cvs nr_apps nr_ways (replicate MAX_APPS 0);
     cur \<leftarrow> evaluate_new_solution (cl_heap s) (cs_curves s) cur ways;
     s \<leftarrow> put_solution 0 cur s;
     (s, distance_list, _) \<leftarrow> foldM (\<lambda>i. foldM (distance1w_step as nr_ways ways i) [i + 1..<nr_apps]) [0..<nr_apps]
       (s, init_sized_list, 0);
     if nr_apps \<ge> 31 then None
     else do {
       sorted_indexes \<leftarrow> get_sorted_slowdowns cur (replicate MAX_APPS 0);
       (s, _, _, _, best, _, _) \<leftarrow> foldM (fair_merge_step as nr_apps nr_ways sorted_indexes) [0..<nr_apps]
         (s, mask nr_apps, cur, 1, cur, ways, distance_list);
       s \<leftarrow> export_clusters best s;
       Some (s, best)
     }
   }"

end
