(* ===== verification/Lfoc.thy ===== *)
theory Lfoc
  imports PairClustering
begin

text \<open>
  The LFOC family of cache-clustering policies (\<^verbatim>\<open>lfoc_gen\<close> in \<^verbatim>\<open>cache_partitioning.c\<close>): applications are light, streaming or
  sensitive; streaming ones are confined to a few ways, the rest of the cache goes to clusters of sensitive ones, and light
  ones fill the gaps. The arrays of positions start uninitialised: a cell that has not been written is \<open>None\<close>, and reading it
  is undefined. Counts the code keeps as \<^verbatim>\<open>unsigned int\<close> are 32-bit words, weights are 64-bit words.
\<close>

section \<open>Classes\<close>

datatype lfoc_mode_t = LFOC_LEGACY_MD | LFOC_PLUS_MD | LFOC_EVEN_SENSITIVE_MD | LFOC_NOPART_SENSITIVE_MD | LFOC_S_MD

definition MAX_WAYS_STREAMING :: nat where "MAX_WAYS_STREAMING = 4"
definition LIGHT_PER_STREAMING :: int where "LIGHT_PER_STREAMING = 2"
definition ISOLATED_STREAMING :: u64 where "ISOLATED_STREAMING = 1"
definition LFOC_EINVAL :: int where "LFOC_EINVAL = 22"

definition streaming_is_special :: "cl_app \<Rightarrow> bool" where
  "streaming_is_special app \<longleftrightarrow> ap_flags app AND ISOLATED_STREAMING \<noteq> 0"

record classes =
  k_sensitive :: "nat sized_list"
  k_light :: "nat sized_list"
  k_streaming :: "nat sized_list"
  k_special :: nat
  k_unkown :: nat
  k_total_weight :: u64

definition no_classes :: classes where
  "no_classes = \<lparr>k_sensitive = init_sized_list, k_light = init_sized_list, k_streaming = init_sized_list,
     k_special = 0, k_unkown = 0, k_total_weight = 0\<rparr>"

text \<open>\<open>i\<close> is the position of the application, kept for debugging.\<close>

definition classify_step :: "nat \<Rightarrow> nat \<times> cluster_set \<times> classes \<Rightarrow> (nat \<times> cluster_set \<times> classes) option" where
  "classify_step app = (\<lambda>(i, s, k). do {
     a \<leftarrow> rd (cl_heap s) app;
     h \<leftarrow> wr (cl_heap s) app (a\<lparr>ap_app_id := int i\<rparr>);
     let s = s\<lparr>cl_heap := h\<rparr>;
     if ap_type a = CACHE_CLASS_SENSITIVE then do {
       l \<leftarrow> insert_sized_list_tail (k_sensitive k) app;
       Some (i + 1, s, k\<lparr>k_sensitive := l, k_total_weight := k_total_weight k + ap_sensitivity a\<rparr>)
     } else if ap_type a = CACHE_CLASS_LIGHT then do {
       l \<leftarrow> insert_sized_list_tail (k_light k) app;
       Some (i + 1, s, k\<lparr>k_light := l\<rparr>)
     } else do {
       l \<leftarrow> insert_sized_list_tail (k_streaming k) app;
       let k = k\<lparr>k_streaming := l\<rparr>;
       Some (i + 1, s,
         if ap_type a = CACHE_CLASS_STREAMING
         then (if streaming_is_special a then k\<lparr>k_special := k_special k + 1\<rparr> else k)
         else k\<lparr>k_unkown := k_unkown k + 1\<rparr>)
     }
   })"

text \<open>The ways kept for streaming applications, and how many share one part.\<close>

definition reserve_ways :: "nat \<Rightarrow> nat \<Rightarrow> int \<Rightarrow> int \<Rightarrow> (int \<times> int) option" where
  "reserve_ways nr_streaming nr_special max_streaming streaming_part_size =
     (if nr_streaming = 0 then Some (0, 0)
      else
        let per = word_of_int max_streaming :: u32;
            size = word_of_int streaming_part_size :: u32;
            special = of_nat nr_special :: u32;
            regular = of_nat nr_streaming - special
        in if per = 0 then None
           else
             let reserved = sint (special * size + ((regular + per - 1) * size) div per)
             in if nr_special = 0 \<and> reserved > int MAX_WAYS_STREAMING then
                  (if streaming_part_size = 0 \<or> cdiv (int MAX_WAYS_STREAMING) streaming_part_size = 0 then None
                   else Some (int MAX_WAYS_STREAMING,
                     cdiv (int nr_streaming + int MAX_WAYS_STREAMING - 1) (cdiv (int MAX_WAYS_STREAMING) streaming_part_size)))
                else Some (reserved, max_streaming))"

section \<open>Clusters of sensitive applications\<close>

text \<open>What the rest of the code needs: the set, the number of clusters, those of sensitive applications with their positions,
  and the cluster with fewest ways.\<close>

record sens_part =
  sp_set :: cluster_set
  sp_nr_clusters :: nat
  sp_nr_sensitive :: nat
  sp_pos :: "nat option list"
  sp_fewer :: int
  sp_min :: int

definition no_sens :: "int \<Rightarrow> cluster_set \<Rightarrow> sens_part" where
  "no_sens nr_ways s = \<lparr>sp_set = s, sp_nr_clusters = 0, sp_nr_sensitive = 0, sp_pos = replicate MAX_CLUSTERS None, sp_fewer = -1,
     sp_min = 1000 * nr_ways\<rparr>"

definition fewer_ways :: "nat \<Rightarrow> int \<Rightarrow> sens_part \<Rightarrow> sens_part" where
  "fewer_ways i w p = (if sp_min p > w then p\<lparr>sp_min := w, sp_fewer := int i\<rparr> else p)"

definition paired_step :: "nat \<Rightarrow> sens_part \<Rightarrow> sens_part option" where
  "paired_step i p = do {
     c \<leftarrow> cluster_by_idx (sp_set p) i;
     cluster \<leftarrow> rd (cs_pool (sp_set p)) c;
     pos \<leftarrow> wr (sp_pos p) i (Some i);
     Some (fewer_ways i (cl_nr_ways cluster) (p\<lparr>sp_pos := pos\<rparr>))
   }"

definition paired_sensitive :: "nat sized_list \<Rightarrow> int \<Rightarrow> sens_part \<Rightarrow> sens_part option" where
  "paired_sensitive sens ways p = do {
     (s, cs) \<leftarrow> pair_clustering_core2 sens (sized_list_length sens) ways (sp_set p);
     foldM paired_step [0..<cs_nr_clusters s]
       (p\<lparr>sp_set := s, sp_nr_clusters := so_nr_clusters cs, sp_nr_sensitive := so_nr_clusters cs\<rparr>)
   }"

definition own_cluster_step :: "nat \<Rightarrow> sens_part \<Rightarrow> sens_part option" where
  "own_cluster_step app p = do {
     (s, cur) \<leftarrow> new_cluster (sp_set p);
     s \<leftarrow> add_app_to_cluster cur app s;
     pos \<leftarrow> wr (sp_pos p) (sp_nr_sensitive p) (Some (sp_nr_sensitive p));
     Some (p\<lparr>sp_set := s, sp_pos := pos, sp_nr_sensitive := sp_nr_sensitive p + 1, sp_nr_clusters := sp_nr_clusters p + 1\<rparr>)
   }"

definition set_ways_step :: "int list \<Rightarrow> nat \<Rightarrow> sens_part \<Rightarrow> sens_part option" where
  "set_ways_step ucp_solution i p = do {
     c \<leftarrow> cluster_by_idx (sp_set p) i;
     w \<leftarrow> rd ucp_solution i;
     s \<leftarrow> set_cluster_ways c w (sp_set p);
     Some (fewer_ways i w (p\<lparr>sp_set := s\<rparr>))
   }"

definition curves_of :: "cluster_set \<Rightarrow> nat list \<Rightarrow> int list list option" where
  "curves_of s as = foldM (\<lambda>app cvs. do { a \<leftarrow> rd (cl_heap s) app; Some (cvs @ [ap_curve a]) }) as []"

text \<open>One cluster each, with the ways UCP gives them.\<close>

definition ucp_sensitive :: "nat sized_list \<Rightarrow> int \<Rightarrow> sens_part \<Rightarrow> sens_part option" where
  "ucp_sensitive sens ways p = do {
     p \<leftarrow> foldM own_cluster_step (sl_nodes sens) p;
     cvs \<leftarrow> curves_of (sp_set p) (sl_nodes sens);
     ucp_solution \<leftarrow> lookahead_algorithm_list cvs (sp_nr_sensitive p) ways (replicate MAX_CLUSTERS 0);
     foldM (set_ways_step ucp_solution) [0..<cs_nr_clusters (sp_set p)] p
   }"

definition even_step :: "nat \<Rightarrow> nat \<times> int \<times> int \<times> sens_part \<Rightarrow> (nat \<times> int \<times> int \<times> sens_part) option" where
  "even_step app = (\<lambda>(i, remaining_ways, nr_remaining_apps, p).
     if nr_remaining_apps \<le> 0 then Some (i, remaining_ways, nr_remaining_apps, p)
     else do {
       let nr_fair_ways = cdiv (remaining_ways + (nr_remaining_apps - 1)) nr_remaining_apps;
       (s, cur) \<leftarrow> new_cluster (sp_set p);
       s \<leftarrow> set_cluster_ways cur nr_fair_ways s;
       s \<leftarrow> add_app_to_cluster cur app s;
       pos \<leftarrow> wr (sp_pos p) i (Some i);
       Some (i + 1, remaining_ways - nr_fair_ways, nr_remaining_apps - 1,
         p\<lparr>sp_set := s, sp_nr_clusters := sp_nr_clusters p + 1, sp_pos := pos, sp_fewer := int i\<rparr>)
     })"

definition even_sensitive :: "nat sized_list \<Rightarrow> int \<Rightarrow> sens_part \<Rightarrow> sens_part option" where
  "even_sensitive sens ways p = do {
     (_, _, _, p) \<leftarrow> foldM even_step (sl_nodes sens)
       (0, ways, int (sized_list_length sens), p\<lparr>sp_nr_sensitive := sized_list_length sens\<rparr>);
     Some p
   }"

definition single_app_step :: "nat \<Rightarrow> nat \<Rightarrow> nat \<times> sens_part \<Rightarrow> (nat \<times> sens_part) option" where
  "single_app_step cur app = (\<lambda>(i, p). do {
     s \<leftarrow> add_app_to_cluster cur app (sp_set p);
     pos \<leftarrow> wr (sp_pos p) i (Some 0);
     Some (i + 1, p\<lparr>sp_set := s, sp_pos := pos\<rparr>)
   })"

text \<open>\<^verbatim>\<open>use_single_sensitive_partition\<close>.\<close>

definition single_sensitive :: "nat sized_list \<Rightarrow> int \<Rightarrow> sens_part \<Rightarrow> sens_part option" where
  "single_sensitive sens ways p = do {
     (s, cur) \<leftarrow> new_cluster (sp_set p);
     s \<leftarrow> set_cluster_ways cur ways s;
     (_, p) \<leftarrow> foldM (single_app_step cur) (sl_nodes sens)
       (0, p\<lparr>sp_set := s, sp_nr_sensitive := sized_list_length sens, sp_nr_clusters := sp_nr_clusters p + 1, sp_fewer := 0\<rparr>);
     Some p
   }"

text \<open>LFOC-S: applications of little weight share a cluster that grows by one way each; \<open>shared\<close> is its index once it exists.\<close>

definition mild_step ::
  "u64 \<Rightarrow> nat \<Rightarrow> nat option \<times> int \<times> u64 \<times> nat sized_list \<times> sens_part \<Rightarrow> (nat option \<times> int \<times> u64 \<times> nat sized_list \<times> sens_part) option" where
  "mild_step min_weight app = (\<lambda>(shared, remaining_ways, total_weight, sens, p). do {
     a \<leftarrow> rd (cl_heap (sp_set p)) app;
     if ap_sensitivity a > min_weight then Some (shared, remaining_ways, total_weight, sens, p)
     else do {
       (c, p) \<leftarrow> (case shared of
           Some c \<Rightarrow> Some (c, p)
         | None \<Rightarrow> do {
             (s, c) \<leftarrow> new_cluster (sp_set p);
             s \<leftarrow> set_cluster_ways c 0 s;
             Some (c, p\<lparr>sp_set := s, sp_nr_clusters := sp_nr_clusters p + 1\<rparr>)
           });
       s \<leftarrow> add_app_to_cluster c app (sp_set p);
       info \<leftarrow> rd (cs_pool s) c;
       s \<leftarrow> set_cluster_ways c (cl_nr_ways info + 1) s;
       sens \<leftarrow> remove_sized_list sens app;
       Some (Some c, remaining_ways - 1, total_weight - ap_sensitivity a, sens, p\<lparr>sp_set := s\<rparr>)
     }
   })"

definition weighted_step :: "nat \<Rightarrow> int \<times> u64 \<times> sens_part \<Rightarrow> (int \<times> u64 \<times> sens_part) option" where
  "weighted_step app = (\<lambda>(remaining_ways, total_weight, p). do {
     a \<leftarrow> rd (cl_heap (sp_set p)) app;
     if total_weight = 0 then None
     else do {
       let q = (word_of_int remaining_ways * ap_sensitivity a + (total_weight - 1)) div total_weight;
       let nr_fair_ways = sint (ucast q :: u32);
       let nr_fair_ways = (if nr_fair_ways < 1 then 1 else nr_fair_ways);
       (s, cur) \<leftarrow> new_cluster (sp_set p);
       s \<leftarrow> add_app_to_cluster cur app s;
       s \<leftarrow> set_cluster_ways cur nr_fair_ways s;
       Some (remaining_ways - nr_fair_ways, total_weight - ap_sensitivity a,
         p\<lparr>sp_set := s, sp_nr_clusters := sp_nr_clusters p + 1\<rparr>)
     }
   })"

definition weighted_sensitive :: "nat sized_list \<Rightarrow> u64 \<Rightarrow> int \<Rightarrow> sens_part \<Rightarrow> sens_part option" where
  "weighted_sensitive sens total_weight ways p =
     (if (word_of_int ways :: u64) = 0 then None
      else do {
        let min_weight = total_weight div word_of_int ways;
        (_, remaining_ways, total_weight, sens, p) \<leftarrow> foldM (mild_step min_weight) (sl_nodes sens)
          (None, ways, total_weight, sens, p\<lparr>sp_fewer := 0\<rparr>);
        (_, _, p) \<leftarrow> foldM weighted_step (sl_nodes sens) (remaining_ways, total_weight, p);
        Some p
      })"

definition place_sensitive :: "lfoc_mode_t \<Rightarrow> classes \<Rightarrow> int \<Rightarrow> int \<Rightarrow> sens_part \<Rightarrow> sens_part option" where
  "place_sensitive md k nr_ways nr_reserved_ways p =
     (let sens = k_sensitive k; ways = nr_ways - nr_reserved_ways in
      if md = LFOC_PLUS_MD \<and> sized_list_length sens > 1 then paired_sensitive sens ways p
      else (case md of
          LFOC_LEGACY_MD \<Rightarrow> (if int (sized_list_length sens) > nr_ways then single_sensitive sens ways p else ucp_sensitive sens ways p)
        | LFOC_PLUS_MD \<Rightarrow> (if int (sized_list_length sens) > nr_ways then single_sensitive sens ways p else ucp_sensitive sens ways p)
        | LFOC_EVEN_SENSITIVE_MD \<Rightarrow> even_sensitive sens ways p
        | LFOC_NOPART_SENSITIVE_MD \<Rightarrow> single_sensitive sens ways p
        | LFOC_S_MD \<Rightarrow> weighted_sensitive sens (k_total_weight k) ways p))"

section \<open>Streaming and light applications\<close>

record stream_part =
  st_set :: cluster_set
  st_nr_clusters :: nat
  st_pos :: "nat option list"
  st_nr_parts :: nat

text \<open>Special ones are alone; the others share \<open>common\<close>, which exists only when there are ways for it.\<close>

definition stream_app_step :: "int \<Rightarrow> nat option \<Rightarrow> nat \<Rightarrow> stream_part \<Rightarrow> stream_part option" where
  "stream_app_step streaming_part_size common app t = do {
     a \<leftarrow> rd (cl_heap (st_set t)) app;
     if streaming_is_special a then do {
       (s, c) \<leftarrow> new_cluster (st_set t);
       s \<leftarrow> set_cluster_ways c streaming_part_size s;
       s \<leftarrow> add_app_to_cluster c app s;
       pos \<leftarrow> wr (st_pos t) (st_nr_parts t) (Some (st_nr_clusters t));
       Some (t\<lparr>st_set := s, st_pos := pos, st_nr_clusters := st_nr_clusters t + 1, st_nr_parts := st_nr_parts t + 1\<rparr>)
     } else do {
       c \<leftarrow> common;
       s \<leftarrow> add_app_to_cluster c app (st_set t);
       Some (t\<lparr>st_set := s\<rparr>)
     }
   }"

definition place_special :: "classes \<Rightarrow> int \<Rightarrow> int \<Rightarrow> stream_part \<Rightarrow> stream_part option" where
  "place_special k nr_reserved_ways streaming_part_size t = do {
     let normal = nr_reserved_ways - int (k_special k) * streaming_part_size;
     (common, t) \<leftarrow> (if normal > 0 then do {
         (s, c) \<leftarrow> new_cluster (st_set t);
         s \<leftarrow> set_cluster_ways c normal s;
         pos \<leftarrow> wr (st_pos t) (st_nr_parts t) (Some (st_nr_clusters t));
         Some (Some c, t\<lparr>st_set := s\<lparr>cs_default_cluster := int (st_nr_clusters t)\<rparr>, st_pos := pos,
           st_nr_clusters := st_nr_clusters t + 1, st_nr_parts := st_nr_parts t + 1\<rparr>)
       } else Some (None, t));
     foldM (stream_app_step streaming_part_size common) (sl_nodes (k_streaming k)) t
   }"

text \<open>One cluster per part, each with its share of the applications that remain.\<close>

definition stream_part_step ::
  "int \<Rightarrow> int \<Rightarrow> nat \<Rightarrow> nat list \<times> stream_part \<Rightarrow> (nat list \<times> stream_part) option" where
  "stream_part_step streaming_part_size proportional i = (\<lambda>(as, t).
     if as = [] then Some (as, t)
     else do {
       (s, c) \<leftarrow> new_cluster (st_set t);
       s \<leftarrow> set_cluster_ways c streaming_part_size s;
       let n = nat (min proportional (int (List.length as)));
       s \<leftarrow> foldM (add_app_to_cluster c) (take n as) s;
       pos \<leftarrow> wr (st_pos t) i (Some (st_nr_clusters t + i));
       Some (drop n as, t\<lparr>st_set := s\<lparr>cs_default_cluster := int (st_nr_clusters t + i)\<rparr>, st_pos := pos\<rparr>)
     })"

definition place_regular :: "classes \<Rightarrow> int \<Rightarrow> int \<Rightarrow> stream_part \<Rightarrow> stream_part option" where
  "place_regular k nr_reserved_ways streaming_part_size t =
     (if streaming_part_size = 0 \<or> cdiv nr_reserved_ways streaming_part_size = 0 then None
      else do {
        let parts = cdiv nr_reserved_ways streaming_part_size;
        let proportional = cdiv (int (sized_list_length (k_streaming k)) + parts - 1) parts;
        (_, t) \<leftarrow> foldM (stream_part_step streaming_part_size proportional) [0..<nat nr_reserved_ways]
          (sl_nodes (k_streaming k), t\<lparr>st_nr_parts := nat parts\<rparr>);
        Some t
      })"

definition place_streaming :: "classes \<Rightarrow> int \<Rightarrow> int \<Rightarrow> bool \<Rightarrow> stream_part \<Rightarrow> stream_part option" where
  "place_streaming k nr_reserved_ways streaming_part_size collide_streaming_parts t =
     (if nr_reserved_ways = 0 then Some t
      else if collide_streaming_parts \<or> k_special k > 0 then place_special k nr_reserved_ways streaming_part_size t
      else place_regular k nr_reserved_ways streaming_part_size t)"

text \<open>Light applications in the room the streaming clusters have, at least one gap each.\<close>

definition light_room_step :: "int \<Rightarrow> nat option list \<Rightarrow> nat \<Rightarrow> nat sized_list \<times> cluster_set \<Rightarrow> (nat sized_list \<times> cluster_set) option" where
  "light_room_step max_streaming pos idx_stream = (\<lambda>(light, s).
     if sized_list_length light = 0 then Some (light, s)
     else do {
       e \<leftarrow> rd pos idx_stream;
       p \<leftarrow> e;
       c \<leftarrow> cluster_by_idx s p;
       cluster \<leftarrow> rd (cs_pool s) c;
       let room = max_streaming * cl_nr_ways cluster - cl_nr_apps cluster + 1;
       if room > 0
       then assign_from_head c (nat (min (room * LIGHT_PER_STREAMING) (int (sized_list_length light)))) (light, s)
       else Some (light, s)
     })"

text \<open>The rest of them, one to each cluster of sensitive applications in turn.\<close>

fun light_robin :: "nat option list \<Rightarrow> nat \<Rightarrow> nat \<Rightarrow> nat \<Rightarrow> nat sized_list \<times> cluster_set \<Rightarrow> (nat sized_list \<times> cluster_set) option" where
  "light_robin pos nr_sensitive i 0 (light, s) = Some (light, s)"
| "light_robin pos nr_sensitive i (Suc n) (light, s) = do {
     e \<leftarrow> (if nr_sensitive = 0 then None else rd pos (i mod nr_sensitive));
     p \<leftarrow> e;
     c \<leftarrow> cluster_by_idx s p;
     (light, s) \<leftarrow> assign_from_head c 1 (light, s);
     light_robin pos nr_sensitive (i + 1) n (light, s)
   }"

definition place_light ::
  "nat sized_list \<Rightarrow> int \<Rightarrow> int \<Rightarrow> int \<Rightarrow> bool \<Rightarrow> sens_part \<Rightarrow> stream_part \<Rightarrow> cluster_set option" where
  "place_light light nr_ways nr_reserved_ways max_streaming use_full_cache_light p t =
     (if sized_list_length light = 0 then Some (st_set t)
      else do {
        (light, s) \<leftarrow> (if use_full_cache_light then do {
            (s, cur) \<leftarrow> new_cluster (st_set t);
            s \<leftarrow> set_cluster_ways cur nr_ways s;
            assign_from_head cur (sized_list_length light) (light, s)
          } else if nr_reserved_ways > 0 then
            foldM (light_room_step max_streaming (st_pos t)) [0..<st_nr_parts t] (light, st_set t)
          else Some (light, st_set t));
        (_, s) \<leftarrow> light_robin (sp_pos p) (sp_nr_sensitive p) 0 (sized_list_length light) (light, s);
        Some s
      })"

section \<open>The policy\<close>

definition lfoc_gen ::
  "nat sized_list \<Rightarrow> nat \<Rightarrow> int \<Rightarrow> int \<Rightarrow> lfoc_mode_t \<Rightarrow> int \<Rightarrow> bool \<Rightarrow> bool \<Rightarrow> cluster_set \<Rightarrow> (cluster_set \<times> int) option" where
  "lfoc_gen apps nr_apps nr_ways max_streaming md streaming_part_size collide_streaming_parts use_full_cache_light s = do {
     s \<leftarrow> init_cluster_set s;
     as \<leftarrow> first_objects apps nr_apps;
     (_, s, k) \<leftarrow> foldM classify_step as (0, s, no_classes);
     if k_unkown k > 0 then Some (s, - LFOC_EINVAL)
     else if sized_list_length (k_sensitive k) = 0 then do {
       (s, cur) \<leftarrow> new_cluster s;
       s \<leftarrow> set_cluster_ways cur nr_ways s;
       s \<leftarrow> foldM (add_app_to_cluster cur) (sl_nodes apps) (s\<lparr>cs_default_cluster := 0\<rparr>);
       Some (s, 0)
     } else do {
       (nr_reserved_ways, _) \<leftarrow>
         reserve_ways (sized_list_length (k_streaming k)) (k_special k) max_streaming streaming_part_size;
       p \<leftarrow> place_sensitive md k nr_ways nr_reserved_ways (no_sens nr_ways s);
       t \<leftarrow> place_streaming k nr_reserved_ways streaming_part_size collide_streaming_parts
         \<lparr>st_set = (sp_set p)\<lparr>cs_default_cluster := sp_fewer p mod 4294967296\<rparr>, st_nr_clusters = sp_nr_clusters p,
          st_pos = replicate MAX_WAYS_STREAMING None, st_nr_parts = 0\<rparr>;
       s \<leftarrow> place_light (k_light k) nr_ways nr_reserved_ways max_streaming (use_full_cache_light \<or> md = LFOC_S_MD) p t;
       Some (s, 0)
     }
   }"

definition lfoc_list ::
  "nat sized_list \<Rightarrow> nat \<Rightarrow> int \<Rightarrow> int \<Rightarrow> bool \<Rightarrow> int \<Rightarrow> bool \<Rightarrow> cluster_set \<Rightarrow> (cluster_set \<times> int) option" where
  "lfoc_list apps nr_apps nr_ways max_streaming use_pair_clustering max_nr_ways_streaming_part collide_streaming_parts s =
     lfoc_gen apps nr_apps nr_ways max_streaming (if use_pair_clustering then LFOC_PLUS_MD else LFOC_LEGACY_MD)
       max_nr_ways_streaming_part collide_streaming_parts False s"

end
