(* ===== verification/ClusterProps.thy ===== *)
theory ClusterProps
  imports Lfoc
begin

text \<open>
  What a cluster set shows: the ways and the applications of each cluster in use. The operations on the set act on that view
  as list operations; the policies are proved on it.
\<close>

section \<open>The view of a cluster set\<close>

type_synonym view = "(int \<times> nat list) list"

definition cs_inv :: "cluster_set \<Rightarrow> view \<Rightarrow> bool" where
  "cs_inv s vw \<longleftrightarrow> length (cs_pool s) = MAX_CLUSTERS \<and> length vw \<le> MAX_CLUSTERS \<and> cs_nr_clusters s = length vw \<and>
     cs_clusters s = slist_of [0..<length vw] \<and>
     (\<forall>i<length vw. cl_nr_ways (cs_pool s ! i) = fst (vw ! i) \<and> cl_apps (cs_pool s ! i) = slist_of (snd (vw ! i))) \<and>
     (\<forall>i<MAX_CLUSTERS. length vw \<le> i \<longrightarrow> cl_nr_ways (cs_pool s ! i) = 0 \<and> cl_apps (cs_pool s ! i) = slist_of [])"

definition placed :: "view \<Rightarrow> nat multiset" where
  "placed vw = mset (concat (map snd vw))"

definition total_ways :: "view \<Rightarrow> int" where
  "total_ways vw = sum_list (map fst vw)"

lemma placed_simps [simp]:
  "placed [] = {#}" "placed (vw @ [(w, as)]) = placed vw + mset as" "total_ways [] = 0" "total_ways (vw @ [(w, as)]) = total_ways vw + w"
  by (simp_all add: placed_def total_ways_def)

lemma placed_add: "i < length vw \<Longrightarrow> placed (vw[i := (w, snd (vw ! i) @ as)]) = placed vw + mset as"
proof (induction vw arbitrary: i)
  case Nil
  then show ?case by simp
next
  case (Cons v vw)
  then show ?case by (cases i) (simp_all add: placed_def)
qed

lemma placed_snd: "i < length vw \<Longrightarrow> mset (snd (vw ! i)) \<subseteq># placed vw"
proof (induction vw arbitrary: i)
  case Nil
  then show ?case by simp
next
  case (Cons v vw)
  show ?case
  proof (cases i)
    case 0
    then show ?thesis by (simp add: placed_def)
  next
    case (Suc j)
    then have "mset (snd (vw ! j)) \<subseteq># placed vw" using Cons by simp
    then have "mset (snd (vw ! j)) \<subseteq># mset (snd v) + placed vw" using subset_mset.order_trans mset_subset_eq_add_right by blast
    then show ?thesis using Suc by (simp add: placed_def)
  qed
qed

lemma init_cluster_set_view:
  assumes "length (cs_pool s) = MAX_CLUSTERS"
  shows "\<exists>s'. init_cluster_set s = Some s' \<and> cs_inv s' [] \<and> cl_heap s' = cl_heap s"
proof -
  let ?I = "\<lambda>n cs. length cs = MAX_CLUSTERS \<and> (\<forall>i<n. cl_nr_ways (cs ! i) = 0 \<and> cl_apps (cs ! i) = slist_of [])"
  have "\<exists>cs. foldM init_cluster [0..<MAX_CLUSTERS] (cs_pool s) = Some cs \<and> ?I MAX_CLUSTERS cs"
    by (rule foldM_upt [where I = ?I]) (use assms in \<open>auto simp: init_cluster_def mem_simps nth_list_update less_Suc_eq\<close>)
  then obtain cs where "foldM init_cluster [0..<MAX_CLUSTERS] (cs_pool s) = Some cs" "?I MAX_CLUSTERS cs" by blast
  then show ?thesis by (simp add: init_cluster_set_def cs_inv_def)
qed

lemma new_cluster_view:
  assumes "cs_inv s vw" and "length vw < MAX_CLUSTERS"
  shows "\<exists>s'. new_cluster s = Some (s', length vw) \<and> cs_inv s' (vw @ [(0, [])]) \<and> cl_heap s' = cl_heap s"
  using assms by (auto simp: new_cluster_def allocate_new_cluster_def cs_inv_def nth_append)

lemma set_cluster_ways_view:
  assumes "cs_inv s vw" and "i < length vw"
  shows "\<exists>s'. set_cluster_ways i w s = Some s' \<and> cs_inv s' (vw[i := (w, snd (vw ! i))]) \<and> cl_heap s' = cl_heap s"
  using assms by (auto simp: set_cluster_ways_def cs_inv_def mem_simps nth_list_update)

lemma add_app_view:
  assumes "cs_inv s vw" and "i < length vw" and "app \<notin> set (snd (vw ! i))"
  shows "\<exists>s'. add_app_to_cluster i app s = Some s' \<and> cs_inv s' (vw[i := (fst (vw ! i), snd (vw ! i) @ [app])]) \<and> cl_heap s' = cl_heap s"
  using assms by (auto simp: add_app_to_cluster_def cs_inv_def mem_simps nth_list_update)

lemma cs_inv_len: "cs_inv s vw \<Longrightarrow> cs_nr_clusters s = length vw \<and> length (cs_pool s) = MAX_CLUSTERS"
  by (simp add: cs_inv_def)

lemma cs_inv_default [simp]: "cs_inv (s\<lparr>cs_default_cluster := d\<rparr>) vw = cs_inv s vw"
  by (simp add: cs_inv_def)

lemma cluster_by_idx_view: "cs_inv s vw \<Longrightarrow> length vw < MAX_CLUSTERS \<Longrightarrow> cluster_by_idx s i = Some i"
  by (simp add: cluster_by_idx_def cs_inv_def)

lemma add_apps_view:
  assumes "cs_inv s vw" and "i < length vw" and "distinct (snd (vw ! i) @ as)"
  shows "\<exists>s'. foldM (add_app_to_cluster i) as s = Some s' \<and> cs_inv s' (vw[i := (fst (vw ! i), snd (vw ! i) @ as)]) \<and> cl_heap s' = cl_heap s"
  using assms
proof (induction as arbitrary: s vw)
  case Nil
  then show ?case by simp
next
  case (Cons a as)
  obtain s1 where s1: "add_app_to_cluster i a s = Some s1" "cs_inv s1 (vw[i := (fst (vw ! i), snd (vw ! i) @ [a])])" "cl_heap s1 = cl_heap s"
    using add_app_view [OF Cons.prems(1,2), of a] Cons.prems(3) by auto
  then show ?case using Cons.IH [OF s1(2)] Cons.prems by auto
qed

text \<open>A new cluster with its ways and its applications.\<close>

lemma whole_cluster_view:
  assumes "cs_inv s vw" and "length vw < MAX_CLUSTERS" and "distinct as"
  shows "\<exists>s1 s2 s3. new_cluster s = Some (s1, length vw) \<and> set_cluster_ways (length vw) w s1 = Some s2 \<and>
    foldM (add_app_to_cluster (length vw)) as s2 = Some s3 \<and> cs_inv s3 (vw @ [(w, as)]) \<and> cl_heap s3 = cl_heap s"
proof -
  obtain s1 where 1: "new_cluster s = Some (s1, length vw)" "cs_inv s1 (vw @ [(0, [])])" "cl_heap s1 = cl_heap s"
    using new_cluster_view [OF assms(1,2)] by blast
  obtain s2 where 2: "set_cluster_ways (length vw) w s1 = Some s2" "cs_inv s2 (vw @ [(w, [])])" "cl_heap s2 = cl_heap s1"
    using set_cluster_ways_view [OF 1(2), of "length vw" w] by auto
  obtain s3 where "foldM (add_app_to_cluster (length vw)) as s2 = Some s3" "cs_inv s3 (vw @ [(w, as)])" "cl_heap s3 = cl_heap s2"
    using add_apps_view [OF 2(2), of "length vw" as] assms(3) by auto
  then show ?thesis using 1 2 by auto
qed

lemma assign_from_head_view:
  assumes "cs_inv s vw" and "i < length vw" and "distinct (snd (vw ! i) @ as @ bs)"
  shows "\<exists>s'. assign_from_head i (length as) (slist_of (as @ bs), s) = Some (slist_of bs, s') \<and>
    cs_inv s' (vw[i := (fst (vw ! i), snd (vw ! i) @ as)]) \<and> cl_heap s' = cl_heap s"
  using assms
proof (induction as arbitrary: s vw)
  case Nil
  then show ?case by simp
next
  case (Cons a as)
  obtain s1 where s1: "add_app_to_cluster i a s = Some s1" "cs_inv s1 (vw[i := (fst (vw ! i), snd (vw ! i) @ [a])])" "cl_heap s1 = cl_heap s"
    using add_app_view [OF Cons.prems(1,2), of a] Cons.prems(3) by auto
  have r: "remove_sized_list (slist_of (a # as @ bs)) a = Some (slist_of (as @ bs))"
    using remove_sized_list_split [of a "[]" "as @ bs"] by simp
  show ?case using Cons.IH [OF s1(2)] Cons.prems s1 by (auto simp: r)
qed

section \<open>Equal parts\<close>

text \<open>The shares of \<open>n\<close> applications in \<open>w\<close> ways.\<close>

fun fair_shares :: "int \<Rightarrow> nat \<Rightarrow> int list" where
  "fair_shares w 0 = []"
| "fair_shares w (Suc n) = (let f = (w + int n) div int (Suc n) in f # fair_shares (w - f) n)"

lemma length_fair_shares [simp]: "length (fair_shares w n) = n"
  by (induction n arbitrary: w) (simp_all add: Let_def)

lemma fair_share_bounds:
  assumes "lo * int (Suc n) \<le> w" and "w \<le> hi * int (Suc n)"
  shows "lo \<le> (w + int n) div int (Suc n)" "(w + int n) div int (Suc n) \<le> hi"
    "lo * int n \<le> w - (w + int n) div int (Suc n)" "w - (w + int n) div int (Suc n) \<le> hi * int n"
proof -
  let ?f = "(w + int n) div int (Suc n)"
  have d: "?f * int (Suc n) \<le> w + int n" "w + int n < ?f * int (Suc n) + int (Suc n)"
    using div_mult_mod_eq [of "w + int n" "int (Suc n)"] pos_mod_bound [of "int (Suc n)" "w + int n"]
      pos_mod_sign [of "int (Suc n)" "w + int n"] by linarith+
  have "lo * int (Suc n) < (?f + 1) * int (Suc n)" using assms(1) d(2) by (simp add: ring_distribs)
  then have "lo < ?f + 1" by (rule mult_right_less_imp_less) simp
  then show lo: "lo \<le> ?f" by simp
  have "?f * int (Suc n) < (hi + 1) * int (Suc n)" using assms(2) d(1) by (simp add: ring_distribs)
  then have "?f < hi + 1" by (rule mult_right_less_imp_less) simp
  then show hi: "?f \<le> hi" by simp
  show "w - ?f \<le> hi * int n"
  proof -
    have "w \<le> ?f * int (Suc n)" using d(2) by simp
    then have "w - ?f \<le> ?f * int n" by (simp add: ring_distribs)
    also have "\<dots> \<le> hi * int n" using hi by (rule mult_right_mono) simp
    finally show ?thesis .
  qed
  show "lo * int n \<le> w - ?f"
  proof (cases "?f = lo")
    case True
    then show ?thesis using assms(1) by (simp add: ring_distribs)
  next
    case False
    then have "lo + 1 \<le> ?f" using lo by simp
    then have "(lo + 1) * int n \<le> ?f * int n" by (rule mult_right_mono) simp
    then show ?thesis using d(1) by (simp add: ring_distribs)
  qed
qed

lemma fair_shares_fair:
  assumes "lo * int n \<le> w" and "w \<le> hi * int n"
  shows "list_all (\<lambda>f. lo \<le> f \<and> f \<le> hi) (fair_shares w n) \<and> (0 < n \<longrightarrow> sum_list (fair_shares w n) = w)"
  using assms
proof (induction n arbitrary: w)
  case 0
  then show ?case by simp
next
  case (Suc n)
  let ?f = "(w + int n) div int (Suc n)"
  note b = fair_share_bounds [OF Suc.prems]
  have "list_all (\<lambda>f. lo \<le> f \<and> f \<le> hi) (fair_shares (w - ?f) n)" "0 < n \<longrightarrow> sum_list (fair_shares (w - ?f) n) = w - ?f"
    using Suc.IH [OF b(3,4)] by simp_all
  then show ?case using b by (cases n) (simp_all add: Let_def)
qed

lemma fair_loop_view:
  assumes "cs_inv s vw" and "length vw + length as \<le> MAX_CLUSTERS" and "0 \<le> w"
  shows "\<exists>s'. foldM fair_step as (s, w, int (length as)) = Some (s', w - sum_list (fair_shares w (length as)), 0) \<and>
    cs_inv s' (vw @ zip (fair_shares w (length as)) (map (\<lambda>a. [a]) as)) \<and> cl_heap s' = cl_heap s"
  using assms
proof (induction as arbitrary: s vw w)
  case Nil
  then show ?case by simp
next
  case (Cons a as)
  let ?f = "(w + int (length as)) div int (Suc (length as))"
  have f: "cdiv (w + (int (length (a # as)) - 1)) (int (length (a # as))) = ?f" using Cons.prems(3) by (simp add: cdiv_nonneg)
  obtain s1 s2 s3 where st: "new_cluster s = Some (s1, length vw)" "set_cluster_ways (length vw) ?f s1 = Some s2"
      "foldM (add_app_to_cluster (length vw)) [a] s2 = Some s3" and I: "cs_inv s3 (vw @ [(?f, [a])])" "cl_heap s3 = cl_heap s"
    using whole_cluster_view [OF Cons.prems(1), of "[a]" ?f] Cons.prems(2) by auto
  have add: "add_app_to_cluster (length vw) a s2 = Some s3" using st(3) by (simp split: Option.bind_splits)
  have step: "fair_step a (s, w, int (length (a # as))) = Some (s3, w - ?f, int (length as))"
    using f by (simp add: fair_step_def st(1,2) add Let_def del: of_nat_Suc)
  have "w \<le> w * int (Suc (length as))" using mult_left_mono [of 1 "int (Suc (length as))" w] Cons.prems(3) by simp
  then have "0 \<le> w - ?f" using fair_share_bounds(3) [of 0 "length as" w w] Cons.prems(3) by simp
  then show ?case using Cons.IH [OF I(1), of "w - ?f"] Cons.prems(2) I(2) step by (auto simp: Let_def)
qed

lemma trivial_part_view:
  assumes "length (cs_pool s) = MAX_CLUSTERS" and "distinct as"
  shows "\<exists>s'. trivial_part (slist_of as) w s = Some s' \<and> cs_inv s' [(w, as)] \<and> cl_heap s' = cl_heap s"
proof -
  obtain s0 where i: "init_cluster_set s = Some s0" "cs_inv s0 []" "cl_heap s0 = cl_heap s"
    using init_cluster_set_view [OF assms(1)] by blast
  obtain s1 where n: "new_cluster s0 = Some (s1, 0)" "cs_inv s1 [(0, [])]" "cl_heap s1 = cl_heap s0"
    using new_cluster_view [OF i(2)] by (auto simp: MAX_CLUSTERS_def)
  obtain s2 where w: "set_cluster_ways 0 w s1 = Some s2" "cs_inv s2 [(w, [])]" "cl_heap s2 = cl_heap s1"
    using set_cluster_ways_view [OF n(2), of 0 w] by auto
  obtain s3 where "foldM (add_app_to_cluster 0) as (s2\<lparr>cs_default_cluster := 0\<rparr>) = Some s3" "cs_inv s3 [(w, as)]" "cl_heap s3 = cl_heap s2"
    using add_apps_view [of "s2\<lparr>cs_default_cluster := 0\<rparr>" "[(w, [])]" 0 as] w(2) assms(2) by auto
  then show ?thesis using i n w by (simp add: trivial_part_def)
qed

text \<open>Equal parts: with at most as many applications as ways, every application has a cluster of its own, every way is given, and no
  two clusters differ by more than one way; with more applications than ways they all share one cluster of every way.\<close>

theorem equal_parts_are_equal:
  assumes "length (cs_pool s) = MAX_CLUSTERS" and "distinct as" and "as \<noteq> []" and "length as \<le> MAX_CLUSTERS" and "0 \<le> w"
  shows "\<exists>s' vw. equal_part (slist_of as) (int (length as)) w s = Some s' \<and> cs_inv s' vw \<and> total_ways vw = w \<and>
    (if int (length as) \<le> w
     then map snd vw = map (\<lambda>a. [a]) as \<and> list_all (\<lambda>(f, _). w div int (length as) \<le> f \<and> f \<le> w div int (length as) + 1) vw
     else vw = [(w, as)])"
proof (cases "int (length as) \<le> w")
  case False
  then show ?thesis using trivial_part_view [OF assms(1,2), of w] by (auto simp: equal_part_def total_ways_def)
next
  case True
  let ?n = "length as"
  obtain s0 where i: "init_cluster_set s = Some s0" "cs_inv s0 []" "cl_heap s0 = cl_heap s"
    using init_cluster_set_view [OF assms(1)] by blast
  let ?vw = "zip (fair_shares w ?n) (map (\<lambda>a. [a]) as)"
  obtain s' where r: "foldM fair_step as (s0\<lparr>cs_default_cluster := 0\<rparr>, w, int ?n) = Some (s', w - sum_list (fair_shares w ?n), 0)" "cs_inv s' ?vw"
    using fair_loop_view [of "s0\<lparr>cs_default_cluster := 0\<rparr>" "[]" as w] i(2) assms(4,5) by auto
  have n: "0 < int ?n" using assms(3) by simp
  have "w = w div int ?n * int ?n + w mod int ?n" by simp
  moreover have "0 \<le> w mod int ?n" "w mod int ?n < int ?n" using n by simp_all
  ultimately have b: "w div int ?n * int ?n \<le> w" "w \<le> (w div int ?n + 1) * int ?n" unfolding ring_distribs by linarith+
  have sh: "list_all (\<lambda>f. w div int ?n \<le> f \<and> f \<le> w div int ?n + 1) (fair_shares w ?n)" "sum_list (fair_shares w ?n) = w"
    using fair_shares_fair [OF b] n by simp_all
  have "equal_part (slist_of as) (int ?n) w s = Some s'" using True i(1) r(1) by (simp add: equal_part_def)
  moreover have "total_ways ?vw = w" using sh(2) by (simp add: total_ways_def)
  moreover have "map snd ?vw = map (\<lambda>a. [a]) as" by simp
  moreover have "list_all (\<lambda>(f, _). w div int ?n \<le> f \<and> f \<le> w div int ?n + 1) ?vw"
    using sh(1) by (auto simp: list_all_iff dest: set_zip_leftD)
  ultimately show ?thesis using r(2) True by auto
qed

definition some_set :: "cl_app list \<Rightarrow> cluster_set" where
  "some_set heap = \<lparr>cs_pool = replicate MAX_CLUSTERS \<lparr>cl_nr_ways = 0, cl_nr_apps = 0, cl_apps = init_sized_list\<rparr>,
     cs_clusters = init_sized_list, cs_nr_clusters = 0, cs_default_cluster = 0, cs_solutions = [], cs_distance_matrix = [],
     cs_curves = [], cs_dnode_pool = [], cl_heap = heap\<rparr>"

theorem equal_parts_are_equal_witness:
  "\<exists>s' vw. equal_part (slist_of [5, 3, 8]) 3 11 (some_set []) = Some s' \<and> cs_inv s' vw \<and> total_ways vw = 11 \<and>
    map snd vw = [[5], [3], [8]] \<and> list_all (\<lambda>(f, _). 3 \<le> f \<and> f \<le> 4) vw"
  using equal_parts_are_equal [of "some_set []" "[5, 3, 8]" 11] by (simp add: some_set_def MAX_CLUSTERS_def)

end
