(* ===== verification/LfocProps.thy ===== *)
theory LfocProps
  imports ClusterProps
begin

text \<open>
  LFOC with a cluster per sensitive application: every application is placed exactly once and no more ways are given than the
  cache has; and the streaming positions that are read without having been written.
\<close>

section \<open>Classification\<close>

definition same_apps :: "cl_app list \<Rightarrow> cl_app list \<Rightarrow> bool" where
  "same_apps h h' \<longleftrightarrow> length h' = length h \<and>
     (\<forall>a<length h. ap_curve (h' ! a) = ap_curve (h ! a) \<and> ap_type (h' ! a) = ap_type (h ! a) \<and> ap_flags (h' ! a) = ap_flags (h ! a))"

lemma same_apps_refl [simp]: "same_apps h h"
  by (simp add: same_apps_def)

lemma same_apps_trans: "same_apps h1 h2 \<Longrightarrow> same_apps h2 h3 \<Longrightarrow> same_apps h1 h3"
  by (simp add: same_apps_def)

lemma same_apps_id: "a < length h \<Longrightarrow> same_apps h (h[a := (h ! a)\<lparr>ap_app_id := i\<rparr>])"
  by (auto simp: same_apps_def nth_list_update)

text \<open>Light, streaming (not special) or sensitive.\<close>

definition plain_app :: "cl_app list \<Rightarrow> nat \<Rightarrow> bool" where
  "plain_app h a \<longleftrightarrow> a < length h \<and>
     (ap_type (h ! a) = CACHE_CLASS_LIGHT \<or> ap_type (h ! a) = CACHE_CLASS_SENSITIVE \<or>
      (ap_type (h ! a) = CACHE_CLASS_STREAMING \<and> \<not> streaming_is_special (h ! a)))"

definition of_class :: "cl_app list \<Rightarrow> int \<Rightarrow> nat list \<Rightarrow> nat list" where
  "of_class h c as = filter (\<lambda>a. ap_type (h ! a) = c) as"

lemma same_apps_plain: "same_apps h h' \<Longrightarrow> plain_app h a \<Longrightarrow> plain_app h' a"
  by (auto simp: same_apps_def plain_app_def streaming_is_special_def)

lemmas class_defs = CACHE_CLASS_LIGHT_def CACHE_CLASS_SENSITIVE_def CACHE_CLASS_STREAMING_def

lemma classify_view:
  assumes "cs_inv s vw" and "same_apps h (cl_heap s)" and "list_all (plain_app h) as" and "distinct (S @ L @ T @ as)"
    and "k_sensitive k = slist_of S" and "k_light k = slist_of L" and "k_streaming k = slist_of T"
  shows "\<exists>j s' k'. foldM classify_step as (i, s, k) = Some (j, s', k') \<and> cs_inv s' vw \<and> same_apps h (cl_heap s') \<and>
    k_sensitive k' = slist_of (S @ of_class h CACHE_CLASS_SENSITIVE as) \<and> k_light k' = slist_of (L @ of_class h CACHE_CLASS_LIGHT as) \<and>
    k_streaming k' = slist_of (T @ of_class h CACHE_CLASS_STREAMING as) \<and> k_special k' = k_special k \<and> k_unkown k' = k_unkown k"
  using assms
proof (induction as arbitrary: i s k S L T)
  case Nil
  then show ?case by (simp add: of_class_def)
next
  case (Cons a as)
  let ?s = "s\<lparr>cl_heap := (cl_heap s)[a := (cl_heap s ! a)\<lparr>ap_app_id := int i\<rparr>]\<rparr>"
  have p: "plain_app h a" "a < length h" using Cons.prems(3) by (simp_all add: plain_app_def)
  have same: "a < length (cl_heap s)" "ap_type (cl_heap s ! a) = ap_type (h ! a)" "ap_flags (cl_heap s ! a) = ap_flags (h ! a)"
    using Cons.prems(2) p(2) by (simp_all add: same_apps_def)
  have I: "cs_inv ?s vw" using Cons.prems(1) by (simp add: cs_inv_def)
  have hs: "same_apps h (cl_heap ?s)" using same_apps_trans [OF Cons.prems(2) same_apps_id [OF same(1)]] by simp
  have sp: "streaming_is_special (cl_heap s ! a) = streaming_is_special (h ! a)" using same by (simp add: streaming_is_special_def)
  have rest: "list_all (plain_app h) as" using Cons.prems(3) by simp
  consider "ap_type (h ! a) = CACHE_CLASS_SENSITIVE" | "ap_type (h ! a) = CACHE_CLASS_LIGHT"
    | "ap_type (h ! a) = CACHE_CLASS_STREAMING" "\<not> streaming_is_special (h ! a)" using p by (auto simp: plain_app_def)
  then show ?case
  proof cases
    case 1
    let ?k = "k\<lparr>k_sensitive := slist_of (S @ [a]), k_total_weight := k_total_weight k + ap_sensitivity (cl_heap s ! a)\<rparr>"
    have "classify_step a (i, s, k) = Some (i + 1, ?s, ?k)"
      using 1 same Cons.prems(4,5) by (simp add: classify_step_def mem_simps)
    moreover have "distinct ((S @ [a]) @ L @ T @ as)" using Cons.prems(4) by auto
    moreover note Cons.IH [OF I hs rest this, of ?k "i + 1"]
    ultimately show ?thesis using Cons.prems(6,7) 1 by (simp add: of_class_def class_defs)
  next
    case 2
    let ?k = "k\<lparr>k_light := slist_of (L @ [a])\<rparr>"
    have "classify_step a (i, s, k) = Some (i + 1, ?s, ?k)"
      using 2 same Cons.prems(4,6) by (simp add: classify_step_def mem_simps class_defs)
    moreover have "distinct (S @ (L @ [a]) @ T @ as)" using Cons.prems(4) by auto
    moreover note Cons.IH [OF I hs rest this, of ?k "i + 1"]
    ultimately show ?thesis using Cons.prems(5,7) 2 by (simp add: of_class_def class_defs)
  next
    case 3
    let ?k = "k\<lparr>k_streaming := slist_of (T @ [a])\<rparr>"
    have "classify_step a (i, s, k) = Some (i + 1, ?s, ?k)"
      using 3 same sp Cons.prems(4,7) by (simp add: classify_step_def mem_simps class_defs)
    moreover have "distinct (S @ L @ (T @ [a]) @ as)" using Cons.prems(4) by auto
    moreover note Cons.IH [OF I hs rest this, of ?k "i + 1"]
    ultimately show ?thesis using Cons.prems(5,6) 3 by (simp add: of_class_def class_defs)
  qed
qed

lemma of_class_split: "list_all (plain_app h) as \<Longrightarrow>
  mset as = mset (of_class h CACHE_CLASS_SENSITIVE as) + mset (of_class h CACHE_CLASS_LIGHT as) + mset (of_class h CACHE_CLASS_STREAMING as)"
  by (induction as) (auto simp: of_class_def plain_app_def class_defs)

section \<open>Sensitive applications\<close>

definition sens_ok :: "sens_part \<Rightarrow> view \<Rightarrow> bool" where
  "sens_ok p vw \<longleftrightarrow> cs_inv (sp_set p) vw \<and> sp_nr_sensitive p = length vw \<and> sp_nr_clusters p = length vw \<and>
     length (sp_pos p) = MAX_CLUSTERS \<and> (\<forall>i<length vw. sp_pos p ! i = Some i)"

lemma own_clusters_view:
  assumes "sens_ok p vw" and "length vw + length S \<le> MAX_CLUSTERS"
  shows "\<exists>p'. foldM own_cluster_step S p = Some p' \<and> sens_ok p' (vw @ map (\<lambda>a. (0, [a])) S) \<and> cl_heap (sp_set p') = cl_heap (sp_set p)"
  using assms
proof (induction S arbitrary: p vw)
  case Nil
  then show ?case by simp
next
  case (Cons a S)
  obtain s1 where 1: "new_cluster (sp_set p) = Some (s1, length vw)" "cs_inv s1 (vw @ [(0, [])])" "cl_heap s1 = cl_heap (sp_set p)"
    using new_cluster_view [of "sp_set p" vw] Cons.prems by (auto simp: sens_ok_def)
  obtain s2 where 2: "add_app_to_cluster (length vw) a s1 = Some s2" "cs_inv s2 (vw @ [(0, [a])])" "cl_heap s2 = cl_heap s1"
    using add_app_view [OF 1(2), of "length vw" a] by auto
  let ?p = "p\<lparr>sp_set := s2, sp_pos := (sp_pos p)[length vw := Some (length vw)], sp_nr_sensitive := length vw + 1, sp_nr_clusters := length vw + 1\<rparr>"
  have "own_cluster_step a p = Some ?p"
    using Cons.prems 1(1) 2(1) by (simp add: own_cluster_step_def sens_ok_def mem_simps)
  moreover have "sens_ok ?p (vw @ [(0, [a])])"
    using Cons.prems 2(2) by (auto simp: sens_ok_def nth_list_update less_Suc_eq)
  ultimately show ?case using Cons.IH [of ?p "vw @ [(0, [a])]"] Cons.prems(2) 1(3) 2(3) by simp
qed

lemma curves_of_eq:
  assumes "list_all (\<lambda>a. a < length (cl_heap s)) as"
  shows "curves_of s as = Some (map (\<lambda>a. ap_curve (cl_heap s ! a)) as)"
proof -
  have "foldM (\<lambda>app cvs. do { a \<leftarrow> rd (cl_heap s) app; Some (cvs @ [ap_curve a]) }) as cvs = Some (cvs @ map (\<lambda>a. ap_curve (cl_heap s ! a)) as)" for cvs
    using assms by (induction as arbitrary: cvs) (simp_all add: mem_simps)
  then show ?thesis by (simp add: curves_of_def)
qed

text \<open>What UCP gives: all the ways, at least one each.\<close>

lemma lookahead_list_eq:
  assumes "curves_ok n W cvs" and "0 < n" and "int n \<le> W" and "n \<le> length sol"
  shows "\<exists>sol'. lookahead_algorithm_list cvs n W sol = Some sol' \<and> length sol' = length sol \<and> alloc_ok n W 0 sol'"
proof (cases "n = 1")
  case True
  then have "0 < length sol" using assms(4) by linarith
  moreover from this have "wr sol 0 W = Some (sol[0 := W])" by (rule wr_Some)
  ultimately show ?thesis using True assms by (simp add: lookahead_algorithm_list_def alloc_ok_def)
next
  case False
  then show ?thesis using lookahead_algorithm_eq [OF assms] by (auto simp: lookahead_algorithm_list_def)
qed

definition ucp_view :: "int list \<Rightarrow> nat list \<Rightarrow> nat \<Rightarrow> view" where
  "ucp_view sol S k = map (\<lambda>j. (if j < k then sol ! j else 0, [S ! j])) [0..<length S]"

lemma ucp_view_step: "k < length S \<Longrightarrow> (ucp_view sol S k)[k := (sol ! k, snd (ucp_view sol S k ! k))] = ucp_view sol S (Suc k)"
  by (rule nth_equalityI) (auto simp: ucp_view_def nth_list_update less_Suc_eq)

lemma ucp_view_placed: "placed (ucp_view sol S k) = mset S"
proof -
  have "concat (map snd (ucp_view sol S k)) = map (\<lambda>j. S ! j) [0..<length S]" by (simp add: ucp_view_def comp_def concat_map_singleton)
  then show ?thesis by (simp add: placed_def map_nth)
qed

lemma ucp_sensitive_view:
  assumes "sens_ok p []" and "S \<noteq> []" and "length S < MAX_CLUSTERS" and "int (length S) \<le> W" and "list_all (\<lambda>a. a < length (cl_heap (sp_set p))) S"
    and "list_all (\<lambda>a. curve_ok W (ap_curve (cl_heap (sp_set p) ! a))) S"
  shows "\<exists>p' vw. ucp_sensitive (slist_of S) W p = Some p' \<and> sens_ok p' vw \<and> length vw = length S \<and> placed vw = mset S \<and> total_ways vw = W \<and>
    list_all (\<lambda>c. 1 \<le> fst c) vw \<and> cl_heap (sp_set p') = cl_heap (sp_set p)"
proof -
  let ?n = "length S"
  obtain p1 where p1: "foldM own_cluster_step S p = Some p1" "sens_ok p1 (map (\<lambda>a. (0, [a])) S)" "cl_heap (sp_set p1) = cl_heap (sp_set p)"
    using own_clusters_view [OF assms(1), of S] assms(3) by auto
  let ?cvs = "map (\<lambda>a. ap_curve (cl_heap (sp_set p) ! a)) S"
  have cv: "curves_of (sp_set p1) S = Some ?cvs" using curves_of_eq [of "sp_set p1" S] assms(5) p1(3) by simp
  have "curves_ok ?n W ?cvs" using assms(6) by (simp add: curves_ok_def list_all_iff)
  then obtain sol where sol: "lookahead_algorithm_list ?cvs ?n W (replicate MAX_CLUSTERS 0) = Some sol" "length sol = MAX_CLUSTERS" "alloc_ok ?n W 0 sol"
    using lookahead_list_eq [of ?n W ?cvs "replicate MAX_CLUSTERS 0"] assms(2-4) by auto
  have n: "sp_nr_sensitive p1 = ?n" "cs_nr_clusters (sp_set p1) = ?n" using p1(2) by (simp_all add: sens_ok_def cs_inv_def)
  let ?I = "\<lambda>k p. sens_ok p (ucp_view sol S k) \<and> cl_heap (sp_set p) = cl_heap (sp_set p1)"
  have "\<exists>p2. foldM (set_ways_step sol) [0..<?n] p1 = Some p2 \<and> ?I ?n p2"
  proof (rule foldM_upt [where I = ?I])
    have "map (\<lambda>a. (0, [a])) S = ucp_view sol S 0" by (rule nth_equalityI) (simp_all add: ucp_view_def)
    then show "?I 0 p1" using p1(2) by simp
    fix k q assume k: "k < ?n" and I: "?I k q"
    have inv: "cs_inv (sp_set q) (ucp_view sol S k)" "length (ucp_view sol S k) = ?n" using I by (simp_all add: sens_ok_def ucp_view_def)
    obtain s' where s': "set_cluster_ways k (sol ! k) (sp_set q) = Some s'" "cs_inv s' (ucp_view sol S (Suc k))" "cl_heap s' = cl_heap (sp_set q)"
      using set_cluster_ways_view [OF inv(1), of k "sol ! k"] k inv(2) by (auto simp: ucp_view_step)
    have "set_ways_step sol k q = Some (fewer_ways k (sol ! k) (q\<lparr>sp_set := s'\<rparr>))"
      using cluster_by_idx_view [OF inv(1), of k] inv(2) k assms(3) sol(2) s'(1) by (simp add: set_ways_step_def mem_simps)
    moreover have "?I (Suc k) (fewer_ways k (sol ! k) (q\<lparr>sp_set := s'\<rparr>))"
      using I s'(2,3) inv(2) by (simp add: fewer_ways_def sens_ok_def ucp_view_def)
    ultimately show "\<exists>q'. set_ways_step sol k q = Some q' \<and> ?I (Suc k) q'" by blast
  qed
  then obtain p2 where p2: "foldM (set_ways_step sol) [0..<?n] p1 = Some p2" "?I ?n p2" by blast
  have u: "ucp_sensitive (slist_of S) W p = Some p2" using p1(1) cv sol(1) p2(1) n by (simp add: ucp_sensitive_def)
  have "map fst (ucp_view sol S ?n) = map (\<lambda>j. sol ! j) [0..<?n]" by (simp add: ucp_view_def)
  then have t: "total_ways (ucp_view sol S ?n) = W"
    using sol(3) by (simp add: total_ways_def alloc_ok_def sum_list_sum_nth atLeast0LessThan)
  have "list_all (\<lambda>c. 1 \<le> fst c) (ucp_view sol S ?n)" using sol(3) by (auto simp: alloc_ok_def ucp_view_def list_all_iff)
  then show ?thesis using u p2(2) p1(3) t ucp_view_placed by (intro exI [of _ p2] exI [of _ "ucp_view sol S ?n"]) (simp add: ucp_view_def)
qed

section \<open>Streaming applications\<close>

lemma reserve_regular:
  assumes "0 < n" and "0 < m" and "n \<le> 1000000" and "m \<le> 1000000"
  shows "\<exists>r per. reserve_ways n 0 (int m) 1 = Some (r, per) \<and> 1 \<le> r \<and> r \<le> 4 \<and> (n \<le> 4 * m \<longrightarrow> r = int ((n + m - 1) div m))"
proof -
  let ?per = "word_of_int (int m) :: u32" and ?n = "of_nat n :: u32"
  have m: "unat ?per = m" using assms(4) by (intro unat_word_of_int_u32) simp
  have n: "unat ?n = n" using assms(3) by (simp add: unat_of_nat take_bit_nat_eq_self)
  have nz: "?per \<noteq> 0" using m assms(2) by (metis unat_0 less_irrefl)
  have a: "unat (?n + ?per) = n + m" using unat_add_u32 [of ?n ?per] m n assms by simp
  have b: "unat (?n + ?per - 1) = n + m - 1"
    using unat_sub_u32 [of 1 "?n + ?per"] a assms(2) by simp
  let ?q = "(?n + ?per - 1) div ?per"
  have q: "unat ?q = (n + m - 1) div m" using b m by (simp add: unat_div_distrib)
  have "(n + m - 1) div m \<le> n + m - 1" by (rule div_le_dividend)
  then have "(n + m - 1) div m < 2147483648" using assms(3,4) by linarith
  then have "sint ?q = int ((n + m - 1) div m)" using sint_u32_small [of ?q] unfolding q by blast
  moreover have "1 \<le> (n + m - 1) div m" using assms(1,2) by (simp add: Suc_le_eq div_greater_zero_iff)
  moreover have "(n + m - 1) div m \<le> 4" if "n \<le> 4 * m"
  proof -
    have "n + m - 1 < 5 * m" using that assms(2) by linarith
    then have "(n + m - 1) div m < 5" by (rule less_mult_imp_div_less)
    then show ?thesis by simp
  qed
  ultimately show ?thesis using assms(1) nz unfolding reserve_ways_def by (auto simp: Let_def MAX_WAYS_STREAMING_def cdiv_def)
qed

definition streams_ok :: "stream_part \<Rightarrow> view \<Rightarrow> view \<Rightarrow> bool" where
  "streams_ok t vw vs \<longleftrightarrow> cs_inv (st_set t) (vw @ vs) \<and> length (st_pos t) = MAX_WAYS_STREAMING \<and> length vs \<le> MAX_WAYS_STREAMING \<and>
     (\<forall>j<length vs. st_pos t ! j = Some (length vw + j))"

lemma regular_apps_view:
  assumes "cs_inv (st_set t) vw" and "c < length vw" and "distinct (snd (vw ! c) @ as)" and "list_all (plain_app (cl_heap (st_set t))) as"
    and "\<forall>a\<in>set as. ap_type (cl_heap (st_set t) ! a) = CACHE_CLASS_STREAMING"
  shows "\<exists>s'. foldM (stream_app_step ps (Some c)) as t = Some (t\<lparr>st_set := s'\<rparr>) \<and> cs_inv s' (vw[c := (fst (vw ! c), snd (vw ! c) @ as)]) \<and>
    cl_heap s' = cl_heap (st_set t)"
  using assms
proof (induction as arbitrary: t vw)
  case Nil
  then show ?case by (intro exI [of _ "st_set t"]) simp
next
  case (Cons a as)
  obtain s1 where s1: "add_app_to_cluster c a (st_set t) = Some s1" "cs_inv s1 (vw[c := (fst (vw ! c), snd (vw ! c) @ [a])])"
      "cl_heap s1 = cl_heap (st_set t)"
    using add_app_view [OF Cons.prems(1,2), of a] Cons.prems(3) by auto
  have "a < length (cl_heap (st_set t))" "\<not> streaming_is_special (cl_heap (st_set t) ! a)"
    using Cons.prems(4,5) by (auto simp: plain_app_def class_defs)
  then have "stream_app_step ps (Some c) a t = Some (t\<lparr>st_set := s1\<rparr>)" using s1(1) by (simp add: stream_app_step_def mem_simps)
  then show ?case using Cons.IH [of "t\<lparr>st_set := s1\<rparr>" "vw[c := (fst (vw ! c), snd (vw ! c) @ [a])]"] Cons.prems s1 by auto
qed

lemma special_part_view:
  assumes "cs_inv (st_set t) vw" and "length vw < MAX_CLUSTERS" and "distinct T" and "list_all (plain_app (cl_heap (st_set t))) T"
    and "\<forall>a\<in>set T. ap_type (cl_heap (st_set t) ! a) = CACHE_CLASS_STREAMING" and "k_streaming k = slist_of T" and "k_special k = 0"
    and "0 < r" and "st_nr_clusters t = length vw" and "st_nr_parts t = 0" and "length (st_pos t) = MAX_WAYS_STREAMING"
  shows "\<exists>t'. place_special k r ps t = Some t' \<and> streams_ok t' vw [(r, T)] \<and> st_nr_parts t' = 1 \<and> cl_heap (st_set t') = cl_heap (st_set t)"
proof -
  obtain s1 where 1: "new_cluster (st_set t) = Some (s1, length vw)" "cs_inv s1 (vw @ [(0, [])])" "cl_heap s1 = cl_heap (st_set t)"
    using new_cluster_view [OF assms(1,2)] by blast
  obtain s2 where 2: "set_cluster_ways (length vw) r s1 = Some s2" "cs_inv s2 (vw @ [(r, [])])" "cl_heap s2 = cl_heap s1"
    using set_cluster_ways_view [OF 1(2), of "length vw" r] by auto
  let ?t = "t\<lparr>st_set := s2\<lparr>cs_default_cluster := int (length vw)\<rparr>, st_pos := (st_pos t)[0 := Some (length vw)],
    st_nr_clusters := length vw + 1, st_nr_parts := 1\<rparr>"
  obtain s3 where 3: "foldM (stream_app_step ps (Some (length vw))) T ?t = Some (?t\<lparr>st_set := s3\<rparr>)" "cs_inv s3 (vw @ [(r, T)])"
      "cl_heap s3 = cl_heap s2"
    using regular_apps_view [of ?t "vw @ [(r, [])]" "length vw" T ps] 1 2 assms(3-5) by auto
  have "wr (st_pos t) 0 (Some (length vw)) = Some ((st_pos t)[0 := Some (length vw)])"
    using assms(11) by (intro wr_Some) (simp add: MAX_WAYS_STREAMING_def)
  then have "place_special k r ps t = Some (?t\<lparr>st_set := s3\<rparr>)"
    using 1(1) 2(1) 3(1) assms(6-10) by (simp add: place_special_def Let_def)
  moreover have "streams_ok (?t\<lparr>st_set := s3\<rparr>) vw [(r, T)]" using 3(2) assms(11) by (simp add: streams_ok_def MAX_WAYS_STREAMING_def)
  ultimately show ?thesis using 1 2 3 by auto
qed

lemma regular_parts_view:
  assumes "cs_inv (st_set t) vw" and "length vw + r \<le> MAX_CLUSTERS" and "distinct T" and "T \<noteq> []" and "k_streaming k = slist_of T"
    and "0 < r" and "r \<le> MAX_WAYS_STREAMING" and "(r - 1) * ((length T + r - 1) div r) < length T"
    and "st_nr_clusters t = length vw" and "length (st_pos t) = MAX_WAYS_STREAMING"
  shows "\<exists>t' vs. place_regular k (int r) 1 t = Some t' \<and> streams_ok t' vw vs \<and> placed vs = mset T \<and> list_all (\<lambda>c. fst c = 1) vs \<and> length vs = r \<and>
    st_nr_parts t' = r \<and> cl_heap (st_set t') = cl_heap (st_set t)"
proof -
  let ?q = "(length T + r - 1) div r"
  have c: "cdiv (int r) 1 = int r" "cdiv (int (length T) + int r - 1) (int r) = int ?q"
    using assms(6) by (simp_all add: cdiv_nonneg zdiv_int of_nat_diff)
  let ?t = "t\<lparr>st_nr_parts := r\<rparr>"
  let ?I = "\<lambda>i (rest, t'). \<exists>vs. rest = drop (i * ?q) T \<and> streams_ok t' vw vs \<and> placed vs + mset rest = mset T \<and>
    list_all (\<lambda>c. fst c = 1) vs \<and> length vs = i \<and> st_nr_clusters t' = length vw \<and> st_nr_parts t' = r \<and> cl_heap (st_set t') = cl_heap (st_set t)"
  have "\<exists>z. foldM (stream_part_step 1 (int ?q)) [0..<r] (T, ?t) = Some z \<and> ?I r z"
  proof (rule foldM_upt [where I = ?I])
    show "?I 0 (T, ?t)" using assms(1,9,10) by (simp add: streams_ok_def)
    fix i and z :: "nat list \<times> stream_part" assume i: "i < r" and I: "?I i z"
    obtain rest t' where z: "z = (rest, t')" by (cases z)
    obtain vs where vs: "rest = drop (i * ?q) T" "streams_ok t' vw vs" "placed vs + mset rest = mset T" "list_all (\<lambda>c. fst c = 1) vs"
      "length vs = i" "st_nr_clusters t' = length vw" "st_nr_parts t' = r" "cl_heap (st_set t') = cl_heap (st_set t)"
      using I by (auto simp: z)
    have "i * ?q \<le> (r - 1) * ?q" using i by (intro mult_right_mono) simp_all
    then have "i * ?q < length T" using assms(8) by (rule le_less_trans)
    then have ne: "rest \<noteq> []" unfolding vs(1) by simp
    have tk: "take (nat (min (int ?q) (int (length rest)))) rest = take ?q rest" "drop (nat (min (int ?q) (int (length rest)))) rest = drop ?q rest"
      by (simp_all add: min_def)
    have d: "distinct rest" using assms(3) vs(1) by simp
    have inv: "cs_inv (st_set t') (vw @ vs)" "length (st_pos t') = MAX_WAYS_STREAMING" using vs(2) by (simp_all add: streams_ok_def)
    have "length (vw @ vs) < MAX_CLUSTERS" using assms(2) i vs(5) by simp
    then obtain s1 s2 s3 where w: "new_cluster (st_set t') = Some (s1, length (vw @ vs))" "set_cluster_ways (length (vw @ vs)) 1 s1 = Some s2"
      "foldM (add_app_to_cluster (length (vw @ vs))) (take ?q rest) s2 = Some s3" "cs_inv s3 ((vw @ vs) @ [(1, take ?q rest)])"
      "cl_heap s3 = cl_heap (st_set t')"
      using whole_cluster_view [OF inv(1), of "take ?q rest" 1] d by auto
    let ?t' = "t'\<lparr>st_set := s3\<lparr>cs_default_cluster := int (length vw + i)\<rparr>, st_pos := (st_pos t')[i := Some (length vw + i)]\<rparr>"
    have i4: "i < length (st_pos t')" using i assms(7) inv(2) by simp
    have st: "stream_part_step 1 (int ?q) i z = Some (drop ?q rest, ?t')"
      using ne w(1-3) vs(6) i4 unfolding stream_part_step_def z prod.case Let_def tk by (simp add: mem_simps)
    have "streams_ok ?t' vw (vs @ [(1, take ?q rest)])"
      using vs(2,5) w(4) i4 i assms(7) by (auto simp: streams_ok_def nth_list_update less_Suc_eq)
    moreover have "drop ?q rest = drop (Suc i * ?q) T" using vs(1) by (simp add: add.commute)
    moreover have "placed (vs @ [(1, take ?q rest)]) + mset (drop ?q rest) = mset T"
      using vs(3) by (simp add: union_assoc flip: mset_append)
    ultimately have "?I (Suc i) (drop ?q rest, ?t')" using vs w(5) by (intro case_prodI exI [of _ "vs @ [(1, take ?q rest)]"]) simp
    then show "\<exists>z'. stream_part_step 1 (int ?q) i z = Some z' \<and> ?I (Suc i) z'" using st by blast
  qed
  then obtain rest t' vs where f: "foldM (stream_part_step 1 (int ?q)) [0..<r] (T, ?t) = Some (rest, t')" "rest = drop (r * ?q) T"
    "streams_ok t' vw vs" "placed vs + mset rest = mset T" "list_all (\<lambda>c. fst c = 1) vs" "length vs = r" "st_nr_parts t' = r"
    "cl_heap (st_set t') = cl_heap (st_set t)" by auto
  have "length T + r - 1 < r * ?q + r" using assms(6) by (metis add.commute div_mult_mod_eq mult.commute mod_less_divisor nat_add_left_cancel_less)
  then have "length T \<le> r * ?q" using assms(6) by linarith
  then have "rest = []" using f(2) by simp
  moreover have "place_regular k (int r) 1 t = Some t'"
    using f(1) assms(5,6) c by (simp add: place_regular_def Let_def)
  ultimately show ?thesis using f by auto
qed

text \<open>The parts are all used when the cap on the ways does not apply.\<close>

lemma parts_fill:
  assumes "0 < n" and "0 < m"
  defines "r \<equiv> (n + m - 1) div m"
  shows "(r - 1) * ((n + r - 1) div r) < (n :: nat)"
proof -
  have r0: "0 < r" using assms by (simp add: r_def div_greater_zero_iff)
  have a: "r * m \<le> n + m - 1" unfolding r_def by (rule div_times_less_eq_dividend)
  have "n + m - 1 < r * m + m" unfolding r_def using assms(2)
    by (metis add.commute div_mult_mod_eq mod_less_divisor nat_add_left_cancel_less)
  then have "n \<le> m * r" by (simp add: mult.commute)
  then have "n + r - 1 < (m + 1) * r" using r0 by simp
  then have "(n + r - 1) div r < m + 1" by (rule less_mult_imp_div_less)
  then have "(r - 1) * ((n + r - 1) div r) \<le> (r - 1) * m" by (intro mult_le_mono2) simp
  also have "\<dots> = r * m - m" by (simp add: diff_mult_distrib)
  also have "\<dots> < n" using a assms(1) by linarith
  finally show ?thesis .
qed

lemma place_streaming_view:
  assumes inv: "cs_inv (st_set t) vw" and len: "length vw + 4 \<le> MAX_CLUSTERS" and T: "distinct T" "list_all (plain_app (cl_heap (st_set t))) T"
    "\<forall>a\<in>set T. ap_type (cl_heap (st_set t) ! a) = CACHE_CLASS_STREAMING" and k: "k_streaming k = slist_of T" "k_special k = 0"
    and t: "st_nr_clusters t = length vw" "st_nr_parts t = 0" "length (st_pos t) = MAX_WAYS_STREAMING"
    and m: "0 < m" "m \<le> 1000000" "length T \<le> 1000000" "collide \<or> length T \<le> 4 * m"
  shows "\<exists>r per t' vs. reserve_ways (length T) 0 (int m) 1 = Some (r, per) \<and> 0 \<le> r \<and> r \<le> 4 \<and>
    place_streaming k r 1 collide t = Some t' \<and> streams_ok t' vw vs \<and> placed vs = mset T \<and> list_all (\<lambda>c. 1 \<le> fst c) vs \<and>
    total_ways vs \<le> r \<and> st_nr_parts t' = length vs \<and> cl_heap (st_set t') = cl_heap (st_set t)"
proof (cases "T = []")
  case True
  then have "reserve_ways (length T) 0 (int m) 1 = Some (0, 0)" by (simp add: reserve_ways_def)
  moreover have "place_streaming k 0 1 collide t = Some t" by (simp add: place_streaming_def)
  moreover have "streams_ok t vw []" using inv t by (simp add: streams_ok_def)
  ultimately show ?thesis using True t by (intro exI [of _ 0] exI [of _ t] exI [of _ "[]"]) simp
next
  case False
  obtain r per where r: "reserve_ways (length T) 0 (int m) 1 = Some (r, per)" "1 \<le> r" "r \<le> 4"
    "length T \<le> 4 * m \<longrightarrow> r = int ((length T + m - 1) div m)"
    using reserve_regular [of "length T" m] False m by auto
  show ?thesis
  proof (cases collide)
    case True
    obtain t' where "place_special k r 1 t = Some t'" "streams_ok t' vw [(r, T)]" "st_nr_parts t' = 1" "cl_heap (st_set t') = cl_heap (st_set t)"
      using special_part_view [OF inv _ T k _ t, of r 1] len r(2) by auto
    then show ?thesis using r True by (intro exI [of _ r] exI [of _ per] exI [of _ t'] exI [of _ "[(r, T)]"])
        (simp add: place_streaming_def placed_def total_ways_def)
  next
    case nc: False
    let ?r = "(length T + m - 1) div m"
    have R: "r = int ?r" using r(4) m(4) nc by simp
    have fill: "(?r - 1) * ((length T + ?r - 1) div ?r) < length T" using parts_fill [of "length T" m] False m(1) by simp
    obtain t' vs where "place_regular k (int ?r) 1 t = Some t'" "streams_ok t' vw vs" "placed vs = mset T" "list_all (\<lambda>c. fst c = 1) vs"
      "length vs = ?r" "st_nr_parts t' = ?r" "cl_heap (st_set t') = cl_heap (st_set t)"
      using regular_parts_view [OF inv _ T(1) False k(1) _ _ fill t(1,3)] len r(2,3) R by (auto simp: MAX_WAYS_STREAMING_def)
    moreover have "total_ways vs = int (length vs)" if "list_all (\<lambda>c. fst c = 1) vs" for vs :: view
      using that by (induction vs) (simp_all add: total_ways_def)
    moreover have "list_all (\<lambda>c. 1 \<le> fst c) vs" if "list_all (\<lambda>c. fst c = 1) vs" for vs :: view
      using that by (simp add: list_all_iff)
    ultimately show ?thesis using r R nc k(2) by (intro exI [of _ r] exI [of _ per] exI [of _ t'] exI [of _ vs]) (simp add: place_streaming_def)
  qed
qed

section \<open>Light applications\<close>

text \<open>The clusters of a view with more applications: the ways stay, and what leaves the list of light ones is placed.\<close>

definition grown :: "nat multiset \<Rightarrow> view \<Rightarrow> view \<Rightarrow> nat list \<Rightarrow> bool" where
  "grown all vw vw' rest \<longleftrightarrow> map fst vw' = map fst vw \<and> placed vw' + mset rest = all"

lemma grown_assign:
  assumes "cs_inv s vw'" and "grown all vw vw' (as @ bs)" and "i < length vw" and "\<forall>a. count all a \<le> 1"
  shows "\<exists>s' vw2. assign_from_head i (length as) (slist_of (as @ bs), s) = Some (slist_of bs, s') \<and> cs_inv s' vw2 \<and> grown all vw vw2 bs \<and>
    cl_heap s' = cl_heap s"
proof -
  have len: "length vw' = length vw" using assms(2) by (metis grown_def length_map)
  have "mset (snd (vw' ! i) @ as @ bs) \<subseteq># all"
    using placed_snd [of i vw'] assms(2,3) len by (auto simp: grown_def intro: subset_mset.add_mono)
  then have "count (mset (snd (vw' ! i) @ as @ bs)) a \<le> 1" for a using assms(4) mset_subset_eq_count order_trans by metis
  then have "\<forall>a. count (mset (snd (vw' ! i) @ as @ bs)) a = (if a \<in> set (snd (vw' ! i) @ as @ bs) then 1 else 0)"
    by (metis count_eq_zero_iff le_antisym not_less_eq_eq One_nat_def less_one not_le set_mset_mset)
  then have d: "distinct (snd (vw' ! i) @ as @ bs)" by (subst distinct_count_atmost_1) simp
  let ?vw = "vw'[i := (fst (vw' ! i), snd (vw' ! i) @ as)]"
  have "map fst ?vw = map fst vw'" using assms(3) len by (simp add: map_update list_update_same_conv)
  moreover have "placed ?vw + mset bs = placed vw' + mset (as @ bs)" using placed_add [of i vw'] assms(3) len by simp
  ultimately show ?thesis using assign_from_head_view [OF assms(1) _ d] assms(2,3) len by (auto simp: grown_def)
qed

lemma light_rooms_view:
  assumes "streams_ok t vw vs" and "length (vw @ vs) < MAX_CLUSTERS" and "st_nr_parts t = length vs" and "placed (vw @ vs) + mset L = all"
    and "\<forall>a. count all a \<le> 1"
  shows "\<exists>s' vw' L'. foldM (light_room_step m (st_pos t)) [0..<st_nr_parts t] (slist_of L, st_set t) = Some (slist_of L', s') \<and>
    cs_inv s' vw' \<and> grown all (vw @ vs) vw' L' \<and> cl_heap s' = cl_heap (st_set t)"
proof -
  let ?I = "\<lambda>(i :: nat) (l, s). \<exists>vw' L'. l = slist_of L' \<and> cs_inv s vw' \<and> grown all (vw @ vs) vw' L' \<and> cl_heap s = cl_heap (st_set t)"
  have "\<exists>z. foldM (light_room_step m (st_pos t)) [0..<st_nr_parts t] (slist_of L, st_set t) = Some z \<and> ?I (st_nr_parts t) z"
  proof (rule foldM_upt [where I = ?I])
    have "cs_inv (st_set t) (vw @ vs)" "grown all (vw @ vs) (vw @ vs) L" using assms(1,4) by (simp_all add: streams_ok_def grown_def)
    then show "?I 0 (slist_of L, st_set t)" by auto
    fix i and z :: "nat sized_list \<times> cluster_set" assume i: "i < st_nr_parts t" and I: "?I i z"
    obtain vw' L' s where z: "z = (slist_of L', s)" "cs_inv s vw'" "grown all (vw @ vs) vw' L'" "cl_heap s = cl_heap (st_set t)"
      using I by (cases z) auto
    have len: "length vw' = length (vw @ vs)" using z(3) by (metis grown_def length_map)
    let ?c = "length vw + i"
    have p: "rd (st_pos t) i = Some (Some ?c)" using assms(1,3) i by (simp add: streams_ok_def rd_Some)
    have c: "?c < length (vw @ vs)" "?c < length (cs_pool s)" using i assms(2,3) cs_inv_len [OF z(2)] by simp_all
    let ?cl = "cs_pool s ! ?c"
    let ?room = "m * cl_nr_ways ?cl - cl_nr_apps ?cl + 1"
    let ?n = "nat (min (?room * LIGHT_PER_STREAMING) (int (length L')))"
    have b: "cluster_by_idx s ?c = Some ?c" "rd (cs_pool s) ?c = Some ?cl" "length (take ?n L') = ?n"
      using cluster_by_idx_view [OF z(2)] len assms(2) c(2) by (simp_all add: rd_Some)
    show "\<exists>z'. light_room_step m (st_pos t) i z = Some z' \<and> ?I (Suc i) z'"
    proof (cases "L' = [] \<or> \<not> ?room > 0")
      case True
      then have "light_room_step m (st_pos t) i z = Some z" using p b by (auto simp: light_room_step_def z(1) Let_def)
      then show ?thesis using I by simp
    next
      case False
      obtain s2 vw2 where a: "assign_from_head ?c (length (take ?n L')) (slist_of (take ?n L' @ drop ?n L'), s) = Some (slist_of (drop ?n L'), s2)"
        "cs_inv s2 vw2" "grown all (vw @ vs) vw2 (drop ?n L')" "cl_heap s2 = cl_heap s"
        using grown_assign [OF z(2), of all "vw @ vs" "take ?n L'" "drop ?n L'" ?c] z(3) c(1) assms(5) by auto
      then have a': "assign_from_head ?c ?n (slist_of L', s) = Some (slist_of (drop ?n L'), s2)"
        unfolding b(3) append_take_drop_id by blast
      have "light_room_step m (st_pos t) i z = Some (slist_of (drop ?n L'), s2)"
        using p b(1,2) False a' by (simp add: light_room_step_def z(1) Let_def)
      then show ?thesis using a z(4) by auto
    qed
  qed
  then show ?thesis by auto
qed

lemma light_robin_view:
  assumes "cs_inv s vw'" and "grown all vw vw' L" and "length vw < MAX_CLUSTERS" and "\<forall>a. count all a \<le> 1" and "0 < n" and "n \<le> length vw"
    and "n \<le> length pos" and "\<forall>i<n. pos ! i = Some i"
  shows "\<exists>s' vw2. light_robin pos n i (length L) (slist_of L, s) = Some (slist_of [], s') \<and> cs_inv s' vw2 \<and> grown all vw vw2 [] \<and>
    cl_heap s' = cl_heap s"
  using assms(1,2)
proof (induction L arbitrary: s vw' i)
  case Nil
  then show ?case by auto
next
  case (Cons a L)
  let ?c = "i mod n"
  have c: "?c < n" using assms(5) by simp
  have len: "length vw' = length vw" using Cons.prems(2) by (metis grown_def length_map)
  have p: "rd pos ?c = Some (Some ?c)" using c assms(7,8) by (simp add: rd_Some)
  have b: "cluster_by_idx s ?c = Some ?c" using cluster_by_idx_view [OF Cons.prems(1)] len assms(3) by simp
  obtain s1 vw1 where 1: "assign_from_head ?c 1 (slist_of (a # L), s) = Some (slist_of L, s1)" "cs_inv s1 vw1" "grown all vw vw1 L" "cl_heap s1 = cl_heap s"
    using grown_assign [OF Cons.prems(1), of all vw "[a]" L ?c] Cons.prems(2) c assms(4,6) by auto
  obtain s2 vw2 where "light_robin pos n (i + 1) (length L) (slist_of L, s1) = Some (slist_of [], s2)" "cs_inv s2 vw2" "grown all vw vw2 []"
    "cl_heap s2 = cl_heap s1"
    using Cons.IH [OF 1(2,3)] by blast
  moreover have "light_robin pos n i (length (a # L)) (slist_of (a # L), s) = light_robin pos n (i + 1) (length L) (slist_of L, s1)"
    using p b assms(5) 1(1) by (simp del: assign_from_head.simps One_nat_def)
  ultimately show ?case using 1(4) by auto
qed

lemma place_light_view:
  assumes t: "streams_ok t vw vs" and len: "length (vw @ vs) < MAX_CLUSTERS" and parts: "st_nr_parts t = length vs"
    and pl: "placed (vw @ vs) + mset L = all" and cnt: "\<forall>a. count all a \<le> 1"
    and p: "sp_nr_sensitive p = length vw" "length (sp_pos p) = MAX_CLUSTERS" "\<forall>i<length vw. sp_pos p ! i = Some i" and ne: "vw \<noteq> []"
  shows "\<exists>s' vw'. place_light (slist_of L) nr_ways r m False p t = Some s' \<and> cs_inv s' vw' \<and> grown all (vw @ vs) vw' []"
proof (cases "L = []")
  case True
  then have "place_light (slist_of L) nr_ways r m False p t = Some (st_set t)" "grown all (vw @ vs) (vw @ vs) []"
    using pl by (simp_all add: place_light_def grown_def)
  then show ?thesis using t by (auto simp: streams_ok_def)
next
  case False
  obtain s1 vw1 L1 where 1: "(if r > 0 then foldM (light_room_step m (st_pos t)) [0..<st_nr_parts t] (slist_of L, st_set t)
      else Some (slist_of L, st_set t)) = Some (slist_of L1, s1)" "cs_inv s1 vw1" "grown all (vw @ vs) vw1 L1"
  proof (cases "r > 0")
    case True
    then show ?thesis using light_rooms_view [OF t len parts pl cnt, of m] that by auto
  next
    case nr: False
    have "cs_inv (st_set t) (vw @ vs)" "grown all (vw @ vs) (vw @ vs) L" using t pl by (simp_all add: streams_ok_def grown_def)
    then show ?thesis using nr that by simp
  qed
  have b: "0 < length vw" "length vw \<le> length (vw @ vs)" "length vw \<le> length (sp_pos p)" using ne len p(2) by simp_all
  obtain s2 vw2 where "light_robin (sp_pos p) (length vw) 0 (length L1) (slist_of L1, s1) = Some (slist_of [], s2)" "cs_inv s2 vw2"
    "grown all (vw @ vs) vw2 []"
    using light_robin_view [OF 1(2,3) len cnt b p(3)] by blast
  then show ?thesis using False 1(1) p(1) by (auto simp: place_light_def)
qed

section \<open>The policy\<close>

lemma reserve_some:
  assumes "0 < m" and "m \<le> 1000000" and "n \<le> 1000000"
  obtains r per where "reserve_ways n 0 (int m) 1 = Some (r, per)" "0 \<le> r" "r \<le> 4"
proof (cases "n = 0")
  case True
  then show ?thesis using that by (simp add: reserve_ways_def)
next
  case False
  then show ?thesis using reserve_regular [of n m] assms that by auto
qed

lemma curve_ok_mono: "curve_ok W c \<Longrightarrow> V \<le> W \<Longrightarrow> curve_ok V c"
  by (simp add: curve_ok_def)

lemma list_all_map_fst: "list_all (\<lambda>c. P (fst c)) xs = list_all P (map fst xs)"
  by (simp add: list_all_iff)

text \<open>Applications that LFOC can place: no special streaming ones, curves for the sensitive ones, one way per streaming part, and room for
  every cluster.\<close>

definition lfoc_ok :: "cl_app list \<Rightarrow> int \<Rightarrow> nat \<Rightarrow> bool \<Rightarrow> nat list \<Rightarrow> bool" where
  "lfoc_ok h W m collide as \<longleftrightarrow> distinct as \<and> list_all (plain_app h) as \<and> 0 < m \<and> m \<le> 1000000 \<and>
     length (of_class h CACHE_CLASS_SENSITIVE as) \<le> 11 \<and> int (length (of_class h CACHE_CLASS_SENSITIVE as)) + 4 \<le> W \<and>
     list_all (\<lambda>a. curve_ok W (ap_curve (h ! a))) (of_class h CACHE_CLASS_SENSITIVE as) \<and>
     length (of_class h CACHE_CLASS_STREAMING as) \<le> 1000000 \<and>
     (collide \<or> length (of_class h CACHE_CLASS_STREAMING as) \<le> 4 * m)"

lemma lfoc_none_sensitive:
  assumes "cs_inv s []" and "distinct as"
  shows "\<exists>s1 s2 s3. new_cluster s = Some (s1, 0) \<and> set_cluster_ways 0 w s1 = Some s2 \<and>
    foldM (add_app_to_cluster 0) as (s2\<lparr>cs_default_cluster := 0\<rparr>) = Some s3 \<and> cs_inv s3 [(w, as)]"
proof -
  obtain s1 where 1: "new_cluster s = Some (s1, 0)" "cs_inv s1 [(0, [])]"
    using new_cluster_view [OF assms(1)] by (auto simp: MAX_CLUSTERS_def)
  obtain s2 where 2: "set_cluster_ways 0 w s1 = Some s2" "cs_inv s2 [(w, [])]"
    using set_cluster_ways_view [OF 1(2), of 0 w] by auto
  show ?thesis using add_apps_view [of "s2\<lparr>cs_default_cluster := 0\<rparr>" "[(w, [])]" 0 as] 1 2 assms(2) by auto
qed

text \<open>C4. LFOC places every application, within bounds: called on distinct applications with one way for a streaming part, it succeeds,
  every application is in exactly one cluster, every cluster has at least one way, and the ways of the clusters are no more than
  those of the cache. The bounds are those of \<open>lfoc_ok\<close>: every application is light, sensitive or streaming, and no streaming one
  is to be isolated; at most 11 are sensitive, with slowdown curves that cover the ways, and the cache has four ways more than
  there are sensitive applications; and four parts of \<open>m\<close> streaming applications hold all of them, unless they may share (neither \<open>m\<close> nor their number is above a million).
  Past the last bound the function can read a position it never wrote (\<open>lfoc_reads_an_unset_position\<close>).\<close>

theorem lfoc_places_every_application:
  assumes "length (cs_pool s) = MAX_CLUSTERS" and "lfoc_ok (cl_heap s) W m collide as"
  shows "\<exists>s' vw. lfoc_list (slist_of as) (length as) W (int m) False 1 collide s = Some (s', 0) \<and> cs_inv s' vw \<and>
    placed vw = mset as \<and> list_all (\<lambda>c. 1 \<le> fst c) vw \<and> total_ways vw \<le> W"
proof -
  let ?h = "cl_heap s"
  let ?S = "of_class ?h CACHE_CLASS_SENSITIVE as" and ?L = "of_class ?h CACHE_CLASS_LIGHT as" and ?T = "of_class ?h CACHE_CLASS_STREAMING as"
  have A: "distinct as" "list_all (plain_app ?h) as" "0 < m" "m \<le> 1000000" "length ?S \<le> 11" "int (length ?S) + 4 \<le> W"
    "length ?T \<le> 1000000" "collide \<or> length ?T \<le> 4 * m" using assms(2) by (simp_all add: lfoc_ok_def)
  obtain s0 where i: "init_cluster_set s = Some s0" "cs_inv s0 []" "cl_heap s0 = ?h" using init_cluster_set_view [OF assms(1)] by blast
  obtain j s1 k where c: "foldM classify_step as (0, s0, no_classes) = Some (j, s1, k)" "cs_inv s1 []" "same_apps ?h (cl_heap s1)"
    "k_sensitive k = slist_of ?S" "k_light k = slist_of ?L" "k_streaming k = slist_of ?T" "k_special k = 0" "k_unkown k = 0"
    using classify_view [OF i(2), of ?h as "[]" "[]" "[]" no_classes 0] i(3) A by (auto simp: no_classes_def)
  have fo: "first_objects (slist_of as) (length as) = Some as" by (simp add: first_objects_def)
  show ?thesis
  proof (cases "?S = []")
    case True
    obtain s2 s3 s4 where "new_cluster s1 = Some (s2, 0)" "set_cluster_ways 0 W s2 = Some s3"
      "foldM (add_app_to_cluster 0) as (s3\<lparr>cs_default_cluster := 0\<rparr>) = Some s4" and I: "cs_inv s4 [(W, as)]"
      using lfoc_none_sensitive [OF c(2) A(1), of W] by blast
    then have "lfoc_list (slist_of as) (length as) W (int m) False 1 collide s = Some (s4, 0)"
      using i(1) c(1,4,8) fo True by (simp add: lfoc_list_def lfoc_gen_def)
    then show ?thesis using I A(6) by (intro exI [of _ s4] exI [of _ "[(W, as)]"]) (simp add: placed_def total_ways_def)
  next
    case False
    note S = this
    have dist: "distinct ?S" "distinct ?T" using A(1) by (simp_all add: of_class_def)
    have plainT: "list_all (plain_app (cl_heap s1)) ?T" using A(2) same_apps_plain [OF c(3)] by (simp add: list_all_iff of_class_def)
    have typeT: "\<forall>a\<in>set ?T. ap_type (cl_heap s1 ! a) = CACHE_CLASS_STREAMING"
      using A(2) c(3) by (simp add: list_all_iff of_class_def same_apps_def plain_app_def)
    have S1: "list_all (\<lambda>a. a < length (cl_heap s1)) ?S"
      using A(2) c(3) by (simp add: list_all_iff of_class_def same_apps_def plain_app_def)
    obtain r per where r: "reserve_ways (length ?T) 0 (int m) 1 = Some (r, per)" "0 \<le> r" "r \<le> 4"
      by (rule reserve_some [OF A(3,4,7)])
    have S2: "list_all (\<lambda>a. curve_ok (W - r) (ap_curve (cl_heap s1 ! a))) ?S"
      using assms(2) A(2) c(3) r(2) by (auto simp: lfoc_ok_def list_all_iff of_class_def same_apps_def plain_app_def intro: curve_ok_mono)
    have p0: "sens_ok (no_sens W s1) []" "sp_set (no_sens W s1) = s1" using c(2) by (simp_all add: sens_ok_def no_sens_def)
    obtain p vw where p: "ucp_sensitive (slist_of ?S) (W - r) (no_sens W s1) = Some p" "sens_ok p vw" "length vw = length ?S"
      "placed vw = mset ?S" "total_ways vw = W - r" "list_all (\<lambda>c. 1 \<le> fst c) vw" "cl_heap (sp_set p) = cl_heap s1"
      using ucp_sensitive_view [OF p0(1) S, of "W - r"] p0(2) S1 S2 A(5,6) r(3) by (auto simp: MAX_CLUSTERS_def)
    have ps: "place_sensitive LFOC_LEGACY_MD k W r (no_sens W s1) = Some p"
      using p(1) c(4) A(6) by (simp add: place_sensitive_def)
    let ?t0 = "\<lparr>st_set = (sp_set p)\<lparr>cs_default_cluster := sp_fewer p mod 4294967296\<rparr>, st_nr_clusters = sp_nr_clusters p,
      st_pos = replicate MAX_WAYS_STREAMING None, st_nr_parts = 0\<rparr>"
    have P: "cs_inv (sp_set p) vw" "sp_nr_clusters p = length vw" "sp_nr_sensitive p = length vw" "length (sp_pos p) = MAX_CLUSTERS"
      "\<forall>i<length vw. sp_pos p ! i = Some i" using p(2) by (simp_all add: sens_ok_def)
    have t0: "cs_inv (st_set ?t0) vw" "length vw + 4 \<le> MAX_CLUSTERS" "cl_heap (st_set ?t0) = cl_heap s1"
      "st_nr_clusters ?t0 = length vw" "st_nr_parts ?t0 = 0" "length (st_pos ?t0) = MAX_WAYS_STREAMING"
      using P(1,2) p(3,7) A(5) by (simp_all add: MAX_CLUSTERS_def)
    obtain r' per' t vs where t: "reserve_ways (length ?T) 0 (int m) 1 = Some (r', per')" "place_streaming k r' 1 collide ?t0 = Some t"
      "streams_ok t vw vs" "placed vs = mset ?T" "list_all (\<lambda>c. 1 \<le> fst c) vs" "total_ways vs \<le> r'" "st_nr_parts t = length vs"
      using place_streaming_view [OF t0(1,2) dist(2) _ _ c(6,7) t0(4-6) A(3,4,7,8)] plainT typeT unfolding t0(3) by blast
    have rr: "r' = r" using t(1) r(1) by simp
    have cnt: "\<forall>a. count (mset as) a \<le> 1" using A(1) by (simp add: distinct_count_atmost_1)
    have pl: "placed (vw @ vs) + mset ?L = mset as"
      using p(4) t(4) of_class_split [OF A(2)] by (simp add: placed_def)
    have ne: "vw \<noteq> []" using S p(3) by (metis length_0_conv)
    obtain s2 vw2 where s2: "place_light (slist_of ?L) W r (int m) False p t = Some s2" "cs_inv s2 vw2" "grown (mset as) (vw @ vs) vw2 []"
      using place_light_view [OF t(3) _ t(7) pl cnt P(3,4,5), of W r "int m"] ne p(3) t(3) A(5) by (auto simp: streams_ok_def MAX_CLUSTERS_def MAX_WAYS_STREAMING_def)
    have "lfoc_list (slist_of as) (length as) W (int m) False 1 collide s = Some (s2, 0)"
      using i(1) c(1,4-8) fo S r(1) ps t(2) s2(1) rr by (simp add: lfoc_list_def lfoc_gen_def)
    moreover have "placed vw2 = mset as" "map fst vw2 = map fst vw @ map fst vs" using s2(3) by (simp_all add: grown_def)
    moreover have "list_all (\<lambda>c. 1 \<le> fst c) vw2"
      using \<open>map fst vw2 = map fst vw @ map fst vs\<close> p(6) t(5) by (metis list_all_append list_all_map_fst)
    moreover have "total_ways vw2 \<le> W"
      using \<open>map fst vw2 = map fst vw @ map fst vs\<close> p(5) t(6) rr by (simp add: total_ways_def)
    ultimately show ?thesis using s2(2) by blast
  qed
qed

text \<open>Two sensitive applications, two streaming ones and two light ones on eleven ways.\<close>

definition six_apps :: "cl_app list" where
  "six_apps = map (\<lambda>c. \<lparr>ap_curve = 11 # replicate 11 1000, ap_space_curve = [], ap_type = c, ap_sensitivity = 0, ap_flags = 0,
     ap_app_id = 0, ap_sensitive_id = 0\<rparr>) [2, 1, 0, 2, 1, 0]"

theorem lfoc_places_every_application_witness:
  "\<exists>s' vw. lfoc_list (slist_of [0, 1, 2, 3, 4, 5]) 6 11 5 False 1 False (some_set six_apps) = Some (s', 0) \<and> cs_inv s' vw \<and>
    placed vw = {#0, 1, 2, 3, 4, 5#} \<and> list_all (\<lambda>c. 1 \<le> fst c) vw \<and> total_ways vw \<le> 11"
proof -
  have "lfoc_ok (cl_heap (some_set six_apps)) 11 5 False [0, 1, 2, 3, 4, 5]"
    by (simp add: lfoc_ok_def some_set_def six_apps_def plain_app_def of_class_def class_defs streaming_is_special_def curve_ok_def list_all_iff)
  moreover have "length (cs_pool (some_set six_apps)) = MAX_CLUSTERS" "length [0, 1, 2, 3, 4, 5 :: nat] = 6" by (simp_all add: some_set_def)
  ultimately obtain s' vw where "lfoc_list (slist_of [0, 1, 2, 3, 4, 5]) 6 11 5 False 1 False (some_set six_apps) = Some (s', 0)" "cs_inv s' vw"
    "placed vw = mset [0, 1, 2, 3, 4, 5]" "list_all (\<lambda>c. 1 \<le> fst c) vw" "total_ways vw \<le> 11"
    using lfoc_places_every_application [of "some_set six_apps" 11 5 False "[0, 1, 2, 3, 4, 5]"] by (metis of_nat_numeral)
  then show ?thesis by (intro exI [of _ s'] exI [of _ vw]) simp
qed

definition nine_apps :: "cl_app list" where
  "nine_apps = map (\<lambda>c. \<lparr>ap_curve = 11 # replicate 11 1000, ap_space_curve = [], ap_type = c, ap_sensitivity = 0, ap_flags = 0,
     ap_app_id = 0, ap_sensitive_id = 0\<rparr>) [2, 1, 1, 1, 1, 1, 0, 0, 0]"

text \<open>The cap on the ways for streaming applications: with five of them, one per way, LFOC makes three clusters and counts four. Two
  light applications still fit; with a third, the position of the fourth cluster is read, which was never written.\<close>

theorem lfoc_reads_an_unset_position:
  "lfoc_list (slist_of [0, 1, 2, 3, 4, 5, 6, 7]) 8 11 1 False 1 False (some_set nine_apps) \<noteq> None \<and>
   lfoc_list (slist_of [0, 1, 2, 3, 4, 5, 6, 7, 8]) 9 11 1 False 1 False (some_set nine_apps) = None"
proof
  show "lfoc_list (slist_of [0, 1, 2, 3, 4, 5, 6, 7]) 8 11 1 False 1 False (some_set nine_apps) \<noteq> None" by code_simp
  show "lfoc_list (slist_of [0, 1, 2, 3, 4, 5, 6, 7, 8]) 9 11 1 False 1 False (some_set nine_apps) = None" by code_simp
qed

section \<open>Wide caches\<close>

text \<open>The arrays of a candidate cluster, as declared.\<close>

definition candidate_wf :: "candidate_cluster_t \<Rightarrow> bool" where
  "candidate_wf info \<longleftrightarrow> length (cc_buckets info) = MAX_NR_WAYS \<and> length (cc_per_app_slowdown info) = MAX_NR_WAYS \<and>
     length (cc_partitioned_curve info) = MAX_NR_WAYS + 1 \<and> length (cc_max_slowdown info) = MAX_NR_WAYS + 1 \<and>
     length (cc_sum_slowdown info) = MAX_NR_WAYS + 1"

lemma wr_length: "wr xs i x = Some ys \<Longrightarrow> length ys = length xs \<and> i < length xs"
  by (auto simp: wr_def split: if_splits)

lemma wr2_length: "wr2 m i j x = Some m' \<Longrightarrow> length m' = length m \<and> i < length m"
  by (auto simp: wr2_def Option.bind_eq_Some_conv dest!: wr_length)

lemma combine_step_length:
  assumes "combine_step a0 a1 w i (info, s0, s1) = Some (info', t0, t1)"
  shows "length (cc_per_app_slowdown info') = length (cc_per_app_slowdown info) \<and> i < length (cc_per_app_slowdown info)"
  using assms by (auto simp: combine_step_def Option.bind_eq_Some_conv dest!: wr2_length)

lemma combine_fold_length:
  "foldM (combine_step a0 a1 w) is (info, s) = Some (info', s') \<Longrightarrow> length (cc_per_app_slowdown info') = length (cc_per_app_slowdown info) \<and>
   list_all (\<lambda>i. i < length (cc_per_app_slowdown info)) is"
proof (induction "is" arbitrary: info s)
  case Nil
  then show ?case by simp
next
  case (Cons i "is")
  then obtain i1 s1 where 1: "combine_step a0 a1 w i (info, s) = Some (i1, s1)" "foldM (combine_step a0 a1 w) is (i1, s1) = Some (info', s')"
    by (auto simp: Option.bind_eq_Some_conv)
  then show ?case using Cons.IH [OF 1(2)] combine_step_length [of a0 a1 w i info "fst s" "snd s" i1 "fst s1" "snd s1"] by simp
qed

text \<open>Pair clustering is for caches of at most eleven ways: on a wider one the combined curve of two applications is written past the
  end of its arrays (the drivers allow twenty ways).\<close>

theorem wide_caches_overflow:
  assumes "candidate_wf info" and "int MAX_NR_WAYS < nr_ways"
  shows "build_combined_curve heap info nr_ways = None"
proof (rule ccontr)
  assume "build_combined_curve heap info nr_ways \<noteq> None"
  then obtain a0 a1 mx sm i' s where f: "foldM (combine_step a0 a1 nr_ways) [0..<nat nr_ways]
      (info\<lparr>cc_max_slowdown := mx, cc_sum_slowdown := sm\<rparr>, 0, 0) = Some (i', s)"
    by (auto simp: build_combined_curve_def Option.bind_eq_Some_conv)
  have "list_all (\<lambda>i. i < MAX_NR_WAYS) [0..<nat nr_ways]" using combine_fold_length [OF f] assms(1) by (simp add: candidate_wf_def)
  moreover have "MAX_NR_WAYS \<in> set [0..<nat nr_ways]" using assms(2) by auto
  ultimately show False unfolding list_all_iff by blast
qed

definition blank_candidate :: candidate_cluster_t where
  "blank_candidate = \<lparr>cc_idx_cluster = 0, cc_nr_apps = 2, cc_buckets = replicate MAX_NR_WAYS [0, 0], cc_per_app_slowdown = replicate MAX_NR_WAYS [0, 0],
     cc_partitioned_curve = replicate (MAX_NR_WAYS + 1) 0, cc_max_slowdown = replicate (MAX_NR_WAYS + 1) 0,
     cc_sum_slowdown = replicate (MAX_NR_WAYS + 1) 0, cc_apps = [Some 0, Some 1]\<rparr>"

theorem wide_caches_overflow_witness:
  "build_combined_curve six_apps blank_candidate 12 = None"
  by (rule wide_caches_overflow) (simp_all add: candidate_wf_def blank_candidate_def MAX_NR_WAYS_def)

end
