(* ===== verification/ClusterEnforce.thy ===== *)
theory ClusterEnforce
  imports CachePartTiling ClusterProps
begin

text \<open>
  From a cluster set to the partitions of the cache (\<^verbatim>\<open>enforce_cluster_partitioning\<close> in \<^verbatim>\<open>cache_partitioning.c\<close>):
  each cluster takes a partition, the partition takes the ways of the cluster from the top of the cache down, and the
  applications of the cluster move to it. The clusters and the partitions number the same applications alike.
\<close>

section \<open>Choosing a partition\<close>

text \<open>\<open>1 << idx\<close> on \<open>int\<close>.\<close>

definition part_bit :: "int \<Rightarrow> u32 option" where
  "part_bit idx = (if 0 \<le> idx \<and> idx < 31 then Some (push_bit (nat idx) 1) else None)"

definition part_available_idx :: "int \<Rightarrow> u32 \<Rightarrow> u32 \<Rightarrow> u32 option" where
  "part_available_idx idx available reserved = do { b \<leftarrow> part_bit idx; Some (b AND available AND NOT reserved) }"

definition part_available :: "cat_cache_part_t \<Rightarrow> u32 \<Rightarrow> u32 \<Rightarrow> u32 option" where
  "part_available part available reserved = part_available_idx (cp_part_index part) available reserved"

text \<open>The loop over the applications of the cluster has no effect, but it follows the partition of each one.\<close>

fun probe_loop :: "cache_part_set_t \<Rightarrow> u32 \<Rightarrow> u32 \<Rightarrow> nat list \<Rightarrow> unit option" where
  "probe_loop s available reserved [] = Some ()"
| "probe_loop s available reserved (a # as) = do {
     app \<leftarrow> app_at s a;
     p \<leftarrow> app_cat_partition app;
     part \<leftarrow> part_at s p;
     v \<leftarrow> part_available part available reserved;
     if v \<noteq> 0 then Some () else probe_loop s available reserved as
   }"

text \<open>The first index that is in use and not reserved; running out of them is a panic.\<close>

fun free_index :: "nat \<Rightarrow> nat \<Rightarrow> u32 \<Rightarrow> u32 \<Rightarrow> nat option" where
  "free_index 0 j available reserved = None"
| "free_index (Suc n) j available reserved = do {
     v \<leftarrow> part_available_idx (int j) available reserved;
     if v \<noteq> 0 then Some j else free_index n (j + 1) available reserved
   }"

definition used_step :: "nat \<Rightarrow> cache_part_set_t \<times> u32 \<Rightarrow> (cache_part_set_t \<times> u32) option" where
  "used_step p = (\<lambda>(s, used). do {
     part \<leftarrow> part_at s p;
     b \<leftarrow> part_bit (cp_part_index part);
     Some (s, used OR b)
   })"

fun allocate_step :: "nat \<Rightarrow> cache_part_set_t \<times> u32 \<Rightarrow> (cache_part_set_t \<times> u32) option" where
  "allocate_step i (s, used) = do {
     (s, p) \<leftarrow> allocate_empty_partition s;
     used_step p (s, used)
   }"

section \<open>Clusters to partitions\<close>

definition place_app :: "bool \<Rightarrow> nat \<Rightarrow> nat \<Rightarrow> cache_part_set_t \<Rightarrow> cache_part_set_t option" where
  "place_app externally_managed_cos_ids p a s = do {
     app \<leftarrow> app_at s a;
     if app_cat_partition app \<noteq> Some p then move_app_to_partition a p s
     else if externally_managed_cos_ids then refresh_hw_partition_app a s
     else Some s
   }"

definition enforce_step ::
  "cluster_set \<Rightarrow> bool \<Rightarrow> int \<Rightarrow> nat \<Rightarrow> cache_part_set_t \<times> u32 \<times> u32 \<times> int \<Rightarrow> (cache_part_set_t \<times> u32 \<times> u32 \<times> int) option" where
  "enforce_step cs externally_managed_cos_ids nr_ways i = (\<lambda>(s, used, reserved, low_way). do {
     c \<leftarrow> cluster_by_idx cs i;
     cluster \<leftarrow> rd (cs_pool cs) c;
     _ \<leftarrow> probe_loop s used reserved (sl_nodes (cl_apps cluster));
     j \<leftarrow> free_index MAX_CLUSTERS 0 used reserved;
     part \<leftarrow> part_at s j;
     b \<leftarrow> part_bit (cp_part_index part);
     let s = (if cs_default_cluster cs = int i then s\<lparr>ps_default_partition := Some j\<rparr> else s);
     (s, low_way) \<leftarrow> (if cl_nr_ways cluster = nr_ways then do {
         s \<leftarrow> reconfigure_partition_gen s j (word_of_int (cl_nr_ways cluster)) 0 (\<not> externally_managed_cos_ids);
         Some (s, low_way)
       } else do {
         s \<leftarrow> reconfigure_partition_gen s j (word_of_int (cl_nr_ways cluster))
           (word_of_int (nr_ways - low_way - cl_nr_ways cluster)) (\<not> externally_managed_cos_ids);
         Some (s, low_way + cl_nr_ways cluster)
       });
     s \<leftarrow> foldM (place_app externally_managed_cos_ids j) (sl_nodes (cl_apps cluster)) s;
     Some (s, used, reserved OR b, low_way)
   })"

text \<open>Partitions with no application leave, while there are more than clusters; the default one stays.\<close>

definition discard_step :: "nat \<Rightarrow> cache_part_set_t \<times> int \<Rightarrow> (cache_part_set_t \<times> int) option" where
  "discard_step p = (\<lambda>(s, partitions_to_remove).
     if partitions_to_remove \<le> 0 then Some (s, partitions_to_remove)
     else do {
       part \<leftarrow> part_at s p;
       if ps_default_partition s \<noteq> Some p \<and> get_load_partition part = 0
       then do { s \<leftarrow> deallocate_partition_no_resize s p; Some (s, partitions_to_remove - 1) }
       else Some (s, partitions_to_remove)
     })"

definition enforce_cluster_partitioning :: "cluster_set \<Rightarrow> bool \<Rightarrow> cache_part_set_t \<Rightarrow> cache_part_set_t option" where
  "enforce_cluster_partitioning cs externally_managed_cos_ids s = do {
     let part_list = sl_nodes (ps_assigned_partitions s);
     let old_cluster_count = sized_list_length (ps_assigned_partitions s);
     let nr_ways = sint (cat_cbm_length (ps_cat_support s));
     (s, used) \<leftarrow> foldM used_step part_list (s, 0);
     (s, used) \<leftarrow> foldM allocate_step [0..<cs_nr_clusters cs - old_cluster_count] (s, used);
     (s, _, _, _) \<leftarrow> foldM (enforce_step cs externally_managed_cos_ids nr_ways) [0..<cs_nr_clusters cs] (s, used, 0, 0);
     (s, _) \<leftarrow> foldM discard_step (sl_nodes (ps_assigned_partitions s)) (s, int old_cluster_count - int (cs_nr_clusters cs));
     Some s
   }"

end
