(* ===== verification/PmcSched.thy ===== *)
theory PmcSched
  imports SizedList
begin

text \<open>
  The scheduling framework (\<^verbatim>\<open>pmcsched.c\<close>): what it does when a thread is switched in or out, moves to another CPU, exits or
  takes a tick, the signals and profiling requests of the plugins, and its periodic timer. CPUs form groups; a group keeps
  lists of its active and stopped threads and applications. Threads, groups and applications are indices; an application has
  one structure per group, the pair of both. A plugin is a record of functions. A platform without RDT is modelled: the branches on
  \<^verbatim>\<open>pmcsched_rdt_capable\<close> are those of a machine that is not.
\<close>

section \<open>State\<close>

datatype state_t = NO_QUEUE | STOP_QUEUE | ACTIVE_QUEUE | STOP_PENDING | ACTIVE_PENDING | KILL_PENDING | TASK_KILLED | REACTIVATED

datatype scheduling_mode_t = PROFILING | NORMAL

datatype migration_state_t = MIGRATION_COMPLETED | MIGRATION_REQUESTED | MIGRATION_STARTED

text \<open>The states of a task the framework tells apart.\<close>

datatype task_state = TASK_RUNNING | TASK_WAKING | TASK_SLEEPING | TASK_DEAD

definition PENDING_PROFILING :: int where "PENDING_PROFILING = -1"

text \<open>A thread, with what the framework reads of its profile and of its task.\<close>

record pmcsched_thread_data =
  td_runnable :: bool
  td_actually_runnable :: bool
  td_state :: state_t
  td_sched_app :: nat
  td_cur_group :: "nat option"
  td_security_id :: int
  td_first_time :: bool
  td_signal_sent :: bool
  td_stopped_during_profiling :: bool
  td_memory_profile :: int
  td_exiting :: bool
  td_mig_state :: migration_state_t
  td_src_group :: nat
  td_dst_group :: nat
  td_prof_enabled :: bool
  td_last_cpu :: int
  td_task_state :: task_state

record app_pmcsched =
  pa_active_threads :: "nat sized_list"
  pa_stopped_threads :: "nat sized_list"
  pa_state :: state_t

record sched_thread_group =
  sg_active_threads :: "nat sized_list"
  sg_active_apps :: "(nat \<times> nat) sized_list"
  sg_stopped_threads :: "nat sized_list"
  sg_stopped_apps :: "(nat \<times> nat) sized_list"
  sg_pending_signals_list :: "nat sized_list"
  sg_pending_profile_list :: "nat sized_list"
  sg_profiler_stopped_list :: "nat sized_list"
  sg_migration_list :: "nat sized_list"
  sg_activate_kthread :: bool
  sg_force_activate_timer :: bool
  sg_timer_period :: int
  sg_scheduling_mode :: scheduling_mode_t
  sg_disabling_mode :: bool
  sg_profiled :: "nat option"
  sg_nr_online_cpus :: int

text \<open>\<open>pm_apps ! a ! g\<close> is the structure of application \<open>a\<close> for group \<open>g\<close>; \<open>pm_group_of_cpu\<close> is the topology.\<close>

record pmcsched =
  pm_threads :: "pmcsched_thread_data list"
  pm_groups :: "sched_thread_group list"
  pm_apps :: "app_pmcsched list list"
  pm_security_id :: int
  pm_group_of_cpu :: "nat \<Rightarrow> nat"
  pm_migration_counter :: int

text \<open>The kernel: whether the lock of the signals of a task is free, and the result of sending it one.\<close>

record kernel =
  k_trylock :: "nat \<Rightarrow> bool"
  k_send :: "nat \<Rightarrow> int"

text \<open>A plugin; callbacks take the CPU they run on.\<close>

record sched_ops =
  op_global_lock :: bool
  op_cosched :: bool
  op_on_active :: "nat \<Rightarrow> nat \<Rightarrow> pmcsched \<Rightarrow> pmcsched option"
  op_on_inactive :: "nat \<Rightarrow> nat \<Rightarrow> pmcsched \<Rightarrow> pmcsched option"
  op_on_exit :: "(nat \<Rightarrow> nat \<Rightarrow> pmcsched \<Rightarrow> pmcsched option) option"
  op_on_migrate :: "(nat \<Rightarrow> nat \<Rightarrow> int \<Rightarrow> pmcsched \<Rightarrow> pmcsched option) option"
  op_profiles :: bool
  op_light_weight :: "(nat \<Rightarrow> pmcsched \<Rightarrow> pmcsched option) option"
  op_active_during_profile :: "(nat \<Rightarrow> pmcsched \<Rightarrow> pmcsched option) option"

section \<open>Access\<close>

definition upd_thread :: "nat \<Rightarrow> (pmcsched_thread_data \<Rightarrow> pmcsched_thread_data) \<Rightarrow> pmcsched \<Rightarrow> pmcsched option" where
  "upd_thread t f s = do { d \<leftarrow> rd (pm_threads s) t; l \<leftarrow> wr (pm_threads s) t (f d); Some (s\<lparr>pm_threads := l\<rparr>) }"

definition put_group :: "nat \<Rightarrow> sched_thread_group \<Rightarrow> pmcsched \<Rightarrow> pmcsched option" where
  "put_group g grp s = do { l \<leftarrow> wr (pm_groups s) g grp; Some (s\<lparr>pm_groups := l\<rparr>) }"

definition get_app :: "nat \<times> nat \<Rightarrow> pmcsched \<Rightarrow> app_pmcsched option" where
  "get_app p s = do { l \<leftarrow> rd (pm_apps s) (fst p); rd l (snd p) }"

definition put_app_group :: "nat \<times> nat \<Rightarrow> app_pmcsched \<Rightarrow> pmcsched \<Rightarrow> pmcsched option" where
  "put_app_group p app s = do {
     l \<leftarrow> rd (pm_apps s) (fst p);
     l \<leftarrow> wr l (snd p) app;
     as \<leftarrow> wr (pm_apps s) (fst p) l;
     Some (s\<lparr>pm_apps := as\<rparr>)
   }"

text \<open>\<open>pmcsched_gbl\<close> is the first group.\<close>

definition get_cpu_group_sched :: "sched_ops \<Rightarrow> pmcsched \<Rightarrow> nat \<Rightarrow> nat" where
  "get_cpu_group_sched ops s cpu = (if op_global_lock ops then 0 else pm_group_of_cpu s cpu)"

definition awake :: "pmcsched_thread_data \<Rightarrow> bool" where
  "awake d \<longleftrightarrow> td_task_state d = TASK_RUNNING \<or> td_task_state d = TASK_WAKING"

text \<open>Every state from \<open>STOP_PENDING\<close> on, those of killed and reactivated threads included.\<close>

definition signal_pending_th :: "pmcsched_thread_data \<Rightarrow> bool" where
  "signal_pending_th d \<longleftrightarrow> td_state d \<noteq> NO_QUEUE \<and> td_state d \<noteq> STOP_QUEUE \<and> td_state d \<noteq> ACTIVE_QUEUE"

definition profiling_pending :: "pmcsched_thread_data \<Rightarrow> bool" where
  "profiling_pending d \<longleftrightarrow> td_memory_profile d = PENDING_PROFILING"

definition dead_task :: "pmcsched_thread_data \<Rightarrow> bool" where
  "dead_task d \<longleftrightarrow> td_state d = TASK_KILLED \<or> td_task_state d = TASK_DEAD"

definition pmcsched_set_state :: "nat \<Rightarrow> state_t \<Rightarrow> pmcsched \<Rightarrow> pmcsched option" where
  "pmcsched_set_state t st = upd_thread t (\<lambda>d. d\<lparr>td_state := st\<rparr>)"

section \<open>Queues\<close>

definition switch_queues :: "'a sized_list \<Rightarrow> 'a sized_list \<Rightarrow> 'a \<Rightarrow> ('a sized_list \<times> 'a sized_list) option" where
  "switch_queues queue_1 queue_2 val = do {
     q1 \<leftarrow> remove_sized_list queue_1 val;
     q2 \<leftarrow> insert_sized_list_tail queue_2 val;
     Some (q1, q2)
   }"

definition check_active_app :: "sched_ops \<Rightarrow> nat \<Rightarrow> nat \<times> nat \<Rightarrow> pmcsched \<Rightarrow> pmcsched option" where
  "check_active_app ops cpu p s = do {
     let g = get_cpu_group_sched ops s cpu;
     grp \<leftarrow> rd (pm_groups s) g;
     app \<leftarrow> get_app p s;
     if sized_list_length (pa_active_threads app) \<noteq> 0 \<and> pa_state app \<noteq> ACTIVE_QUEUE then do {
       grp \<leftarrow> (if pa_state app = STOP_QUEUE then do {
           (q1, q2) \<leftarrow> switch_queues (sg_stopped_apps grp) (sg_active_apps grp) p;
           Some (grp\<lparr>sg_stopped_apps := q1, sg_active_apps := q2\<rparr>)
         } else if pa_state app = NO_QUEUE then do {
           q \<leftarrow> insert_sized_list_tail (sg_active_apps grp) p;
           Some (grp\<lparr>sg_active_apps := q\<rparr>)
         } else Some grp);
       s \<leftarrow> put_group g grp s;
       put_app_group p (app\<lparr>pa_state := ACTIVE_QUEUE\<rparr>) s
     } else Some s
   }"

definition check_inactive_app :: "sched_ops \<Rightarrow> nat \<Rightarrow> nat \<times> nat \<Rightarrow> pmcsched \<Rightarrow> pmcsched option" where
  "check_inactive_app ops cpu p s = do {
     let g = get_cpu_group_sched ops s cpu;
     grp \<leftarrow> rd (pm_groups s) g;
     app \<leftarrow> get_app p s;
     if sized_list_length (pa_active_threads app) = 0 \<and> pa_state app \<noteq> STOP_QUEUE then do {
       grp \<leftarrow> (if pa_state app = ACTIVE_QUEUE then do {
           (q1, q2) \<leftarrow> switch_queues (sg_active_apps grp) (sg_stopped_apps grp) p;
           Some (grp\<lparr>sg_active_apps := q1, sg_stopped_apps := q2\<rparr>)
         } else do {
           q \<leftarrow> insert_sized_list_tail (sg_stopped_apps grp) p;
           Some (grp\<lparr>sg_stopped_apps := q\<rparr>)
         });
       s \<leftarrow> put_group g grp s;
       put_app_group p (app\<lparr>pa_state := STOP_QUEUE\<rparr>) s
     } else Some s
   }"

text \<open>The legacy pointer of a thread to its application is that of the first group.\<close>

definition reactivate :: "nat \<Rightarrow> nat \<Rightarrow> pmcsched \<Rightarrow> pmcsched option" where
  "reactivate g e s = do {
     d \<leftarrow> rd (pm_threads s) e;
     if dead_task d \<or> td_signal_sent d \<or> \<not> td_runnable d then Some s
     else do {
       let p = (td_sched_app d, 0);
       app \<leftarrow> get_app p s;
       (q1, q2) \<leftarrow> switch_queues (pa_stopped_threads app) (pa_active_threads app) e;
       s \<leftarrow> put_app_group p (app\<lparr>pa_stopped_threads := q1, pa_active_threads := q2\<rparr>) s;
       grp \<leftarrow> rd (pm_groups s) g;
       (r1, r2) \<leftarrow> switch_queues (sg_stopped_threads grp) (sg_active_threads grp) e;
       sig \<leftarrow> (if signal_pending_th d then Some (sg_pending_signals_list grp)
               else insert_sized_list_tail (sg_pending_signals_list grp) e);
       s \<leftarrow> put_group g (grp\<lparr>sg_stopped_threads := r1, sg_active_threads := r2, sg_pending_signals_list := sig\<rparr>) s;
       upd_thread e (\<lambda>d. d\<lparr>td_state := ACTIVE_PENDING, td_stopped_during_profiling := False\<rparr>) s
     }
   }"

text \<open>The callers pass the list of stopped threads and the list of signals of the current group.\<close>

definition activate_stopped_by_profiling :: "nat \<Rightarrow> pmcsched \<Rightarrow> pmcsched option" where
  "activate_stopped_by_profiling g s = do {
     grp \<leftarrow> rd (pm_groups s) g;
     s \<leftarrow> foldM (reactivate g) (sl_nodes (sg_profiler_stopped_list grp)) s;
     grp \<leftarrow> rd (pm_groups s) g;
     put_group g (grp\<lparr>sg_profiler_stopped_list := init_sized_list\<rparr>) s
   }"

section \<open>Pending profiling and signals\<close>

definition add_signal_step :: "nat \<Rightarrow> state_t option \<Rightarrow> nat \<Rightarrow> pmcsched \<Rightarrow> pmcsched option" where
  "add_signal_step g md e s = do {
     d \<leftarrow> rd (pm_threads s) e;
     if md = Some KILL_PENDING \<and> td_state d = TASK_KILLED then Some s
     else do {
       s \<leftarrow> (case md of None \<Rightarrow> Some s | Some st \<Rightarrow> pmcsched_set_state e st s);
       if signal_pending_th d then Some s
       else do {
         grp \<leftarrow> rd (pm_groups s) g;
         q \<leftarrow> insert_sized_list_tail (sg_pending_signals_list grp) e;
         put_group g (grp\<lparr>sg_pending_signals_list := q\<rparr>) s
       }
     }
   }"

text \<open>\<open>md\<close> is the state to set, if any.\<close>

definition add_to_pending_signals :: "sched_ops \<Rightarrow> nat \<Rightarrow> nat list \<Rightarrow> state_t option \<Rightarrow> pmcsched \<Rightarrow> pmcsched option" where
  "add_to_pending_signals ops cpu ts md s = foldM (add_signal_step (get_cpu_group_sched ops s cpu) md) ts s"

text \<open>The loop over the threads that wait to be profiled: \<open>aux\<close> is the last one passed over. The result says whether a thread
  that is alive was passed over, whether one was selected, and how many were looked at.\<close>

fun profiling_loop ::
  "sched_ops \<Rightarrow> nat \<Rightarrow> nat \<Rightarrow> nat option \<Rightarrow> pmcsched \<Rightarrow> nat option \<Rightarrow> bool \<Rightarrow> nat \<Rightarrow> (pmcsched \<times> nat option \<times> bool \<times> bool \<times> nat) option" where
  "profiling_loop ops g 0 elem s aux jumped task = Some (s, aux, jumped, False, task)"
| "profiling_loop ops g (Suc n) None s aux jumped task = Some (s, aux, jumped, False, task)"
| "profiling_loop ops g (Suc n) (Some e) s aux jumped task = do {
     d \<leftarrow> rd (pm_threads s) e;
     grp \<leftarrow> rd (pm_groups s) g;
     if \<not> profiling_pending d \<or> dead_task d \<or> \<not> td_runnable d then do {
       nxt \<leftarrow> next_sized_list (sg_pending_profile_list grp) (Some e);
       s \<leftarrow> (if dead_task d then do {
           q \<leftarrow> remove_sized_list (sg_pending_profile_list grp) e;
           put_group g (grp\<lparr>sg_pending_profile_list := q\<rparr>) s
         } else Some s);
       profiling_loop ops g n nxt s (Some e) (jumped \<or> \<not> dead_task d) (task + 1)
     } else do {
       s \<leftarrow> put_group g (grp\<lparr>sg_profiled := Some e, sg_scheduling_mode := PROFILING\<rparr>) s;
       s \<leftarrow> (case op_light_weight ops of None \<Rightarrow> Some s | Some f \<Rightarrow> f e s);
       grp \<leftarrow> rd (pm_groups s) g;
       q \<leftarrow> remove_sized_list (sg_pending_profile_list grp) e;
       s \<leftarrow> put_group g (grp\<lparr>sg_pending_profile_list := q\<rparr>) s;
       Some (s, aux, jumped, True, task)
     }
   }"

definition check_pending_profiling_group :: "sched_ops \<Rightarrow> kernel \<Rightarrow> nat \<Rightarrow> pmcsched \<Rightarrow> pmcsched option" where
  "check_pending_profiling_group ops k g s = do {
     grp \<leftarrow> rd (pm_groups s) g;
     let l = sg_pending_profile_list grp;
     if sg_scheduling_mode grp = PROFILING \<or> \<not> op_profiles ops \<or> sized_list_length l = 0 then Some s
     else do {
       (s, aux, jumped, selected, task) \<leftarrow> profiling_loop ops g (sized_list_length l) (head_sized_list l) s None False 0;
       grp \<leftarrow> rd (pm_groups s) g;
       s \<leftarrow> (if \<not> jumped \<and> task = sized_list_length (sg_pending_profile_list grp)
             then put_group g (grp\<lparr>sg_pending_profile_list := init_sized_list\<rparr>) s else Some s);
       p \<leftarrow> sg_profiled grp;
       d \<leftarrow> rd (pm_threads s) p;
       if selected \<and> \<not> awake d then
         (if \<not> k_trylock k p then Some s
          else do {
            a \<leftarrow> aux;
            upd_thread a (\<lambda>d. d\<lparr>td_signal_sent := True\<rparr>) s
          })
       else Some s
     }
   }"

definition send_signal :: "kernel \<Rightarrow> nat \<Rightarrow> int" where
  "send_signal k t = (if \<not> k_trylock k t then -1 else if k_send k t < 0 then -1 else 1)"

text \<open>The loop over the threads that wait for a signal; \<open>ret\<close> is the result of the last one sent.\<close>

fun signals_loop :: "kernel \<Rightarrow> nat \<Rightarrow> nat \<Rightarrow> nat option \<Rightarrow> int \<Rightarrow> pmcsched \<Rightarrow> pmcsched option" where
  "signals_loop k g 0 elem ret s = Some s"
| "signals_loop k g (Suc n) None ret s = Some s"
| "signals_loop k g (Suc n) (Some e) ret s = do {
     d \<leftarrow> rd (pm_threads s) e;
     grp \<leftarrow> rd (pm_groups s) g;
     nxt \<leftarrow> next_sized_list (sg_pending_signals_list grp) (Some e);
     if \<not> signal_pending_th d \<or> (td_signal_sent d \<and> td_state d \<noteq> KILL_PENDING) then do {
       q \<leftarrow> remove_sized_list (sg_pending_signals_list grp) e;
       s \<leftarrow> put_group g (grp\<lparr>sg_pending_signals_list := q\<rparr>) s;
       signals_loop k g n nxt ret s
     } else if sg_scheduling_mode grp = PROFILING \<and>
         ((sg_profiled grp \<noteq> Some e \<and> td_state d \<noteq> STOP_PENDING) \<or>
          (sg_profiled grp = Some e \<and> (td_state d = STOP_PENDING \<or> td_state d = KILL_PENDING))) then
       signals_loop k g n nxt ret s
     else if \<not> k_trylock k e then signals_loop k g n nxt ret s
     else do {
       let ret = (if td_state d \<in> {ACTIVE_PENDING, STOP_PENDING, KILL_PENDING} then send_signal k e else ret);
       s \<leftarrow> upd_thread e (\<lambda>d. d\<lparr>td_signal_sent := \<not> (ret < 0)\<rparr>) s;
       s \<leftarrow> (if ret > 0 \<and> \<not> sg_disabling_mode grp then do {
           q \<leftarrow> remove_sized_list (sg_pending_signals_list grp) e;
           put_group g (grp\<lparr>sg_pending_signals_list := q\<rparr>) s
         } else Some s);
       signals_loop k g n nxt ret s
     }
   }"

definition check_pending_signals_group :: "kernel \<Rightarrow> nat \<Rightarrow> pmcsched \<Rightarrow> pmcsched option" where
  "check_pending_signals_group k g s = do {
     grp \<leftarrow> rd (pm_groups s) g;
     let l = sg_pending_signals_list grp;
     signals_loop k g (sized_list_length l) (head_sized_list l) 1 s
   }"

definition active_or_inactive ::
  "sched_ops \<Rightarrow> kernel \<Rightarrow> (nat \<Rightarrow> nat \<Rightarrow> pmcsched \<Rightarrow> pmcsched option) \<Rightarrow> nat \<Rightarrow> nat \<Rightarrow> pmcsched \<Rightarrow> pmcsched option" where
  "active_or_inactive ops k funct cpu t s = do {
     s \<leftarrow> funct cpu t s;
     let g = get_cpu_group_sched ops s cpu;
     s \<leftarrow> check_pending_profiling_group ops k g s;
     check_pending_signals_group k g s
   }"

section \<open>Context switches\<close>

definition trace_runnable :: "nat \<Rightarrow> bool \<Rightarrow> pmcsched \<Rightarrow> pmcsched option" where
  "trace_runnable t switch_in = upd_thread t (\<lambda>d.
     if \<not> switch_in then (if td_actually_runnable d \<and> \<not> awake d then d\<lparr>td_actually_runnable := False\<rparr> else d)
     else (if \<not> td_actually_runnable d \<and> awake d then d\<lparr>td_actually_runnable := True\<rparr> else d))"

definition transition_period :: "nat \<Rightarrow> bool \<Rightarrow> pmcsched \<Rightarrow> (pmcsched \<times> bool) option" where
  "transition_period t switch_in s = do {
     d \<leftarrow> rd (pm_threads s) t;
     if \<not> switch_in then
       (if td_state d = STOP_PENDING \<and> td_signal_sent d then do {
          s \<leftarrow> upd_thread t (\<lambda>d. d\<lparr>td_state := STOP_QUEUE, td_signal_sent := False\<rparr>) s;
          Some (s, True)
        } else Some (s, False))
     else
       (if td_state d = ACTIVE_PENDING \<and> td_signal_sent d then do {
          s \<leftarrow> upd_thread t (\<lambda>d. d\<lparr>td_state := ACTIVE_QUEUE, td_signal_sent := False, td_runnable := True\<rparr>) s;
          Some (s, True)
        } else Some (s, False))
   }"

definition annoying_profiling_intruders ::
  "sched_ops \<Rightarrow> kernel \<Rightarrow> nat \<Rightarrow> nat \<Rightarrow> bool \<Rightarrow> pmcsched \<Rightarrow> (pmcsched \<times> bool) option" where
  "annoying_profiling_intruders ops k cpu t first_time s = do {
     let g = get_cpu_group_sched ops s cpu;
     grp \<leftarrow> rd (pm_groups s) g;
     d \<leftarrow> rd (pm_threads s) t;
     if sg_scheduling_mode grp \<noteq> PROFILING then Some (s, False)
     else if sg_profiled grp = Some t then
       (if first_time then None
        else do { s \<leftarrow> upd_thread t (\<lambda>d. d\<lparr>td_runnable := True\<rparr>) s; Some (s, True) })
     else if \<not> awake d then Some (s, False)
     else do {
       s \<leftarrow> upd_thread t (\<lambda>d. d\<lparr>td_runnable := True\<rparr>) s;
       case op_active_during_profile ops of
         Some f \<Rightarrow>
           (if first_time then do {
              s \<leftarrow> f t s;
              s \<leftarrow> check_pending_profiling_group ops k g s;
              s \<leftarrow> check_pending_signals_group k g s;
              Some (s, False)
            } else Some (s, False))
       | None \<Rightarrow> Some (s, False)
     }
   }"

definition ignore_thread :: "pmcsched \<Rightarrow> pmcsched_thread_data \<Rightarrow> bool" where
  "ignore_thread s d \<longleftrightarrow> \<not> td_prof_enabled d \<or> td_security_id d \<noteq> pm_security_id s"

text \<open>The last part of a switch-in: a thread that becomes runnable is given to the plugin.\<close>

definition become_active :: "sched_ops \<Rightarrow> kernel \<Rightarrow> nat \<Rightarrow> nat \<Rightarrow> pmcsched \<Rightarrow> pmcsched option" where
  "become_active ops k cpu t s = do {
     grp \<leftarrow> rd (pm_groups s) (get_cpu_group_sched ops s cpu);
     d \<leftarrow> rd (pm_threads s) t;
     if sg_scheduling_mode grp \<noteq> PROFILING \<and> \<not> td_runnable d \<and> awake d then do {
       s \<leftarrow> upd_thread t (\<lambda>d. d\<lparr>td_runnable := True\<rparr>) s;
       active_or_inactive ops k (op_on_active ops) cpu t s
     } else Some s
   }"

definition pmcsched_on_switch_in :: "sched_ops \<Rightarrow> kernel \<Rightarrow> nat \<Rightarrow> nat \<Rightarrow> pmcsched \<Rightarrow> pmcsched option" where
  "pmcsched_on_switch_in ops k cpu t s = do {
     d \<leftarrow> rd (pm_threads s) t;
     if ignore_thread s d then Some s
     else do {
       let was_first_time = td_first_time d;
       s \<leftarrow> upd_thread t (\<lambda>d. d\<lparr>td_first_time := False\<rparr>) s;
       s \<leftarrow> trace_runnable t True s;
       if op_cosched ops then do {
         (s, woken) \<leftarrow> transition_period t True s;
         if woken then Some s
         else do {
           (s, profiled) \<leftarrow> annoying_profiling_intruders ops k cpu t was_first_time s;
           if profiled then Some s else become_active ops k cpu t s
         }
       } else become_active ops k cpu t s
     }
   }"

text \<open>A task that died without the framework knowing.\<close>

definition euthanasia :: "sched_ops \<Rightarrow> nat \<Rightarrow> nat \<Rightarrow> pmcsched \<Rightarrow> (pmcsched \<times> bool) option" where
  "euthanasia ops cpu t s = do {
     d \<leftarrow> rd (pm_threads s) t;
     if td_task_state d = TASK_DEAD \<and> td_state d \<noteq> TASK_KILLED then do {
       s \<leftarrow> (case op_on_exit ops of None \<Rightarrow> Some s | Some f \<Rightarrow> f cpu t s);
       s \<leftarrow> pmcsched_set_state t TASK_KILLED s;
       let g = get_cpu_group_sched ops s cpu;
       grp \<leftarrow> rd (pm_groups s) g;
       s \<leftarrow> (if sg_profiled grp = Some t then do {
           s \<leftarrow> activate_stopped_by_profiling g s;
           grp \<leftarrow> rd (pm_groups s) g;
           put_group g (grp\<lparr>sg_scheduling_mode := NORMAL\<rparr>) s
         } else Some s);
       Some (s, True)
     } else Some (s, False)
   }"

definition become_inactive :: "sched_ops \<Rightarrow> kernel \<Rightarrow> nat \<Rightarrow> nat \<Rightarrow> pmcsched \<Rightarrow> pmcsched option" where
  "become_inactive ops k cpu t s = do {
     d \<leftarrow> rd (pm_threads s) t;
     if td_runnable d \<and> \<not> awake d then do {
       (s, dead) \<leftarrow> euthanasia ops cpu t s;
       if dead then Some s
       else do {
         s \<leftarrow> (if \<not> op_cosched ops then upd_thread t (\<lambda>d. d\<lparr>td_runnable := False\<rparr>) s else Some s);
         active_or_inactive ops k (op_on_inactive ops) cpu t s
       }
     } else Some s
   }"

definition pmcsched_on_switch_out :: "sched_ops \<Rightarrow> kernel \<Rightarrow> nat \<Rightarrow> nat \<Rightarrow> pmcsched \<Rightarrow> pmcsched option" where
  "pmcsched_on_switch_out ops k cpu t s = do {
     d \<leftarrow> rd (pm_threads s) t;
     if ignore_thread s d then Some s
     else do {
       s \<leftarrow> trace_runnable t False s;
       if op_cosched ops then do {
         (s, stopped) \<leftarrow> transition_period t False s;
         grp \<leftarrow> rd (pm_groups s) (get_cpu_group_sched ops s cpu);
         if stopped \<or> sg_scheduling_mode grp = PROFILING then Some s else become_inactive ops k cpu t s
       } else become_inactive ops k cpu t s
     }
   }"

definition pmcsched_on_migrate :: "sched_ops \<Rightarrow> nat \<Rightarrow> int \<Rightarrow> nat \<Rightarrow> pmcsched \<Rightarrow> pmcsched option" where
  "pmcsched_on_migrate ops t prev_cpu new_cpu s = (case op_on_migrate ops of None \<Rightarrow> Some s | Some f \<Rightarrow> f new_cpu t prev_cpu s)"

text \<open>The lock that is released at the end is the one acquired for the plugin; when the plugin is not called it is an
  uninitialised variable.\<close>

definition pmcsched_on_exit :: "sched_ops \<Rightarrow> nat \<Rightarrow> nat \<Rightarrow> pmcsched \<Rightarrow> pmcsched option" where
  "pmcsched_on_exit ops cpu t s = do {
     d \<leftarrow> rd (pm_threads s) t;
     if \<not> td_prof_enabled d then Some s
     else do {
       let was_first_time = (td_first_time d \<and> td_security_id d = pm_security_id s);
       s \<leftarrow> upd_thread t (\<lambda>d. d\<lparr>td_first_time := td_first_time d \<and> \<not> was_first_time\<rparr>) s;
       if td_state d = KILL_PENDING \<or> was_first_time \<or> dead_task d then None
       else do {
         s \<leftarrow> upd_thread t (\<lambda>d. d\<lparr>td_exiting := True\<rparr>) s;
         s \<leftarrow> (case op_on_exit ops of None \<Rightarrow> Some s | Some f \<Rightarrow> f cpu t s);
         pmcsched_set_state t TASK_KILLED s
       }
     }
   }"

text \<open>What the monitoring core calls when it switches a thread in on a CPU: the switch-in, and the migration when the CPU is
  not the last one.\<close>

definition sched_restore :: "sched_ops \<Rightarrow> kernel \<Rightarrow> nat \<Rightarrow> nat \<Rightarrow> pmcsched \<Rightarrow> pmcsched option" where
  "sched_restore ops k cpu t s = do {
     s \<leftarrow> pmcsched_on_switch_in ops k cpu t s;
     d \<leftarrow> rd (pm_threads s) t;
     s \<leftarrow> (if td_last_cpu d \<noteq> int cpu then pmcsched_on_migrate ops t (td_last_cpu d) cpu s else Some s);
     upd_thread t (\<lambda>d. d\<lparr>td_last_cpu := int cpu\<rparr>) s
   }"

section \<open>Periodic work\<close>

definition PMCSCHED_PERIOD_DEFAULT :: int where "PMCSCHED_PERIOD_DEFAULT = 0"
definition PMCSCHED_PERIOD_DISABLE :: int where "PMCSCHED_PERIOD_DISABLE = -1"

text \<open>The period of the timer is an \<^verbatim>\<open>unsigned long\<close>: the expiry when it is set again, if it is.\<close>

definition next_expiry :: "u64 \<Rightarrow> u64 \<Rightarrow> sched_thread_group \<Rightarrow> u64 \<Rightarrow> u64 option" where
  "next_expiry period_normal period_profiling grp jiffies =
     (let period = (if sg_timer_period grp = PMCSCHED_PERIOD_DISABLE then -1
          else if sg_timer_period grp = PMCSCHED_PERIOD_DEFAULT then
            (if sg_scheduling_mode grp = PROFILING then period_profiling else period_normal)
          else word_of_int (sg_timer_period grp))
      in if period > 0 then Some (jiffies + period) else None)"

text \<open>The flags of the timer handler around the callback of the plugin; the result says whether the kernel thread is woken.\<close>

definition sched_timer_periodic ::
  "(pmcsched \<Rightarrow> pmcsched option) option \<Rightarrow> bool \<Rightarrow> nat \<Rightarrow> pmcsched \<Rightarrow> (pmcsched \<times> bool) option" where
  "sched_timer_periodic timer has_kthread g s = do {
     grp \<leftarrow> rd (pm_groups s) g;
     s \<leftarrow> (case timer of
         Some f \<Rightarrow> do { s \<leftarrow> put_group g (grp\<lparr>sg_force_activate_timer := False\<rparr>) s; f s }
       | None \<Rightarrow> put_group g (grp\<lparr>sg_activate_kthread := True\<rparr>) s);
     grp \<leftarrow> rd (pm_groups s) g;
     if has_kthread \<and> sg_activate_kthread grp
     then do { s \<leftarrow> put_group g (grp\<lparr>sg_activate_kthread := False\<rparr>) s; Some (s, True) }
     else Some (s, False)
   }"

text \<open>The body of the kernel thread of a group.\<close>

definition periodic_scheduling ::
  "sched_ops \<Rightarrow> kernel \<Rightarrow> (pmcsched \<Rightarrow> pmcsched option) option \<Rightarrow> nat \<Rightarrow> pmcsched \<Rightarrow> pmcsched option" where
  "periodic_scheduling ops k kthread g s = do {
     grp \<leftarrow> rd (pm_groups s) g;
     if sg_scheduling_mode grp = PROFILING then Some s
     else do {
       s \<leftarrow> (case kthread of None \<Rightarrow> Some s | Some f \<Rightarrow> f s);
       s \<leftarrow> check_pending_profiling_group ops k g s;
       check_pending_signals_group k g s
     }
   }"

text \<open>The timer a tick sets off, if it was asked for.\<close>

definition pmcsched_on_tick :: "nat \<Rightarrow> pmcsched \<Rightarrow> (pmcsched \<times> bool) option" where
  "pmcsched_on_tick g s = do {
     grp \<leftarrow> rd (pm_groups s) g;
     if sg_force_activate_timer grp
     then do { s \<leftarrow> put_group g (grp\<lparr>sg_force_activate_timer := False\<rparr>) s; Some (s, True) }
     else Some (s, False)
   }"

end
