(* ===== verification/SchedPlugins.thy ===== *)
theory SchedPlugins
  imports PmcSched
begin

text \<open>
  Two scheduling plugins: the group plugin (\<^verbatim>\<open>group_plugin.c\<close>), which moves threads between groups at random, and the plugin
  that keeps the big cores of an asymmetric machine busy (\<^verbatim>\<open>busybcs_plugin.c\<close>). What they only print is left out, and so is the
  call that tells the kernel where a thread may run.
\<close>

section \<open>Active threads\<close>

text \<open>The two plugins have the same handlers, but that only the group plugin forgets the group of an inactive thread:
  \<open>forget\<close>.\<close>

definition on_active_thread :: "nat \<Rightarrow> nat \<Rightarrow> pmcsched \<Rightarrow> pmcsched option" where
  "on_active_thread g t s = do {
     d \<leftarrow> rd (pm_threads s) t;
     grp \<leftarrow> rd (pm_groups s) g;
     let p = (td_sched_app d, g);
     app \<leftarrow> get_app p s;
     s \<leftarrow> upd_thread t (\<lambda>d. d\<lparr>td_cur_group := Some g\<rparr>) s;
     q \<leftarrow> insert_sized_list_tail (pa_active_threads app) t;
     s \<leftarrow> put_app_group p (app\<lparr>pa_active_threads := q\<rparr>) s;
     l \<leftarrow> insert_sized_list_tail (sg_active_threads grp) t;
     as \<leftarrow> (if sized_list_length q = 1 then insert_sized_list_tail (sg_active_apps grp) p else Some (sg_active_apps grp));
     put_group g (grp\<lparr>sg_active_threads := l, sg_active_apps := as\<rparr>) s
   }"

text \<open>From the group of the thread, whatever the CPU.\<close>

definition on_inactive_thread :: "bool \<Rightarrow> nat \<Rightarrow> pmcsched \<Rightarrow> pmcsched option" where
  "on_inactive_thread forget t s = do {
     d \<leftarrow> rd (pm_threads s) t;
     g \<leftarrow> td_cur_group d;
     grp \<leftarrow> rd (pm_groups s) g;
     let p = (td_sched_app d, g);
     app \<leftarrow> get_app p s;
     q \<leftarrow> remove_sized_list (pa_active_threads app) t;
     s \<leftarrow> put_app_group p (app\<lparr>pa_active_threads := q\<rparr>) s;
     l \<leftarrow> remove_sized_list (sg_active_threads grp) t;
     as \<leftarrow> (if sized_list_length q = 0 then remove_sized_list (sg_active_apps grp) p else Some (sg_active_apps grp));
     s \<leftarrow> put_group g (grp\<lparr>sg_active_threads := l, sg_active_apps := as\<rparr>) s;
     if forget then upd_thread t (\<lambda>d. d\<lparr>td_cur_group := None\<rparr>) s else Some s
   }"

definition leave_migration :: "nat \<Rightarrow> nat \<Rightarrow> pmcsched \<Rightarrow> pmcsched option" where
  "leave_migration g t s = do {
     grp \<leftarrow> rd (pm_groups s) g;
     q \<leftarrow> remove_sized_list (sg_migration_list grp) t;
     s \<leftarrow> put_group g (grp\<lparr>sg_migration_list := q\<rparr>) s;
     upd_thread t (\<lambda>d. d\<lparr>td_mig_state := MIGRATION_COMPLETED\<rparr>) s
   }"

definition on_exit_thread :: "nat \<Rightarrow> nat \<Rightarrow> pmcsched \<Rightarrow> pmcsched option" where
  "on_exit_thread cpu t s = do {
     d \<leftarrow> rd (pm_threads s) t;
     case td_cur_group d of
       Some g \<Rightarrow> (if td_mig_state d \<noteq> MIGRATION_COMPLETED then leave_migration g t s else Some s)
     | None \<Rightarrow> Some s
   }"

definition on_migrate_thread :: "bool \<Rightarrow> nat \<Rightarrow> nat \<Rightarrow> int \<Rightarrow> pmcsched \<Rightarrow> pmcsched option" where
  "on_migrate_thread forget new_cpu t prev_cpu s = do {
     let g = pm_group_of_cpu s new_cpu;
     d \<leftarrow> rd (pm_threads s) t;
     if prev_cpu = -1 \<or> td_cur_group d = Some g then Some s
     else do {
       s \<leftarrow> (case td_cur_group d of
           Some old \<Rightarrow> do {
             s \<leftarrow> (if td_mig_state d \<noteq> MIGRATION_COMPLETED then leave_migration old t s else Some s);
             on_inactive_thread forget t s
           }
         | None \<Rightarrow> Some s);
       on_active_thread g t s
     }
   }"

section \<open>Migrations\<close>

text \<open>The kernel thread of the group: a thread of the list whose migration has started already leaves the list, the others
  start. The second list is that of the threads the kernel is asked to move.\<close>

fun kthread_loop :: "nat \<Rightarrow> nat list \<Rightarrow> nat list \<Rightarrow> pmcsched \<Rightarrow> (pmcsched \<times> nat list) option" where
  "kthread_loop g [] moved s = Some (s, moved)"
| "kthread_loop g (t # ts) moved s = do {
     d \<leftarrow> rd (pm_threads s) t;
     if td_mig_state d = MIGRATION_STARTED then do {
       grp \<leftarrow> rd (pm_groups s) g;
       q \<leftarrow> remove_sized_list (sg_migration_list grp) t;
       s \<leftarrow> put_group g (grp\<lparr>sg_migration_list := q\<rparr>) s;
       kthread_loop g ts moved s
     } else do {
       _ \<leftarrow> rd (pm_groups s) (td_dst_group d);
       s \<leftarrow> upd_thread t (\<lambda>d. d\<lparr>td_mig_state := MIGRATION_STARTED\<rparr>) s;
       kthread_loop g ts (moved @ [t]) s
     }
   }"

definition sched_kthread_periodic :: "nat \<Rightarrow> pmcsched \<Rightarrow> (pmcsched \<times> nat list) option" where
  "sched_kthread_periodic g s = do {
     grp \<leftarrow> rd (pm_groups s) g;
     kthread_loop g (sl_nodes (sg_migration_list grp)) [] s
   }"

definition request_migration :: "nat \<Rightarrow> nat \<Rightarrow> nat \<Rightarrow> pmcsched \<Rightarrow> pmcsched option" where
  "request_migration src dst t s = do {
     grp \<leftarrow> rd (pm_groups s) src;
     s \<leftarrow> upd_thread t (\<lambda>d. d\<lparr>td_mig_state := MIGRATION_REQUESTED, td_dst_group := dst, td_src_group := src\<rparr>) s;
     q \<leftarrow> insert_sized_list_tail (sg_migration_list grp) t;
     put_group src (grp\<lparr>sg_migration_list := q\<rparr>) s
   }"

text \<open>A random group other than this one; \<open>rnd\<close> is the sequence of random numbers, already not negative.\<close>

partial_function (option) random_group :: "(nat \<Rightarrow> nat) \<Rightarrow> nat \<Rightarrow> nat \<Rightarrow> nat \<Rightarrow> nat option" where
  "random_group rnd cpu_group_count llc_id i =
     (if cpu_group_count = 0 then None
      else if rnd i mod cpu_group_count = llc_id then random_group rnd cpu_group_count llc_id (i + 1)
      else Some (rnd i mod cpu_group_count))"

declare random_group.simps [code]

text \<open>Every third time the first thread of the first application is sent to another group.\<close>

definition sched_timer_periodic_group :: "(nat \<Rightarrow> nat) \<Rightarrow> nat \<Rightarrow> pmcsched \<Rightarrow> pmcsched option" where
  "sched_timer_periodic_group rnd g s = do {
     grp \<leftarrow> rd (pm_groups s) g;
     case head_sized_list (sg_active_apps grp) of
       None \<Rightarrow> Some s
     | Some p \<Rightarrow> do {
         let c = pm_migration_counter s + 1;
         if c \<noteq> 3 then Some (s\<lparr>pm_migration_counter := c\<rparr>)
         else do {
           let s = s\<lparr>pm_migration_counter := 0\<rparr>;
           app \<leftarrow> get_app p s;
           t \<leftarrow> head_sized_list (pa_active_threads app);
           d \<leftarrow> rd (pm_threads s) t;
           s \<leftarrow> (if td_mig_state d = MIGRATION_COMPLETED then do {
               target \<leftarrow> random_group rnd (List.length (pm_groups s)) g 0;
               request_migration g target t s
             } else Some s);
           grp \<leftarrow> rd (pm_groups s) g;
           put_group g (grp\<lparr>sg_activate_kthread := True\<rparr>) s
         }
       }
   }"

definition AMP_SLOW_CORE :: nat where "AMP_SLOW_CORE = 0"
definition AMP_FAST_CORE :: nat where "AMP_FAST_CORE = 1"

text \<open>Threads of group \<open>src\<close>, from the head of its list, while there is room on the other one.\<close>

fun steal_for_big :: "nat list \<Rightarrow> int \<Rightarrow> pmcsched \<Rightarrow> pmcsched option" where
  "steal_for_big [] big_cores_available s = Some s"
| "steal_for_big (t # ts) big_cores_available s =
     (if big_cores_available > 0 then do {
        s \<leftarrow> request_migration AMP_SLOW_CORE AMP_FAST_CORE t s;
        steal_for_big ts (big_cores_available - 1) s
      } else Some s)"

fun steal_for_small :: "nat list \<Rightarrow> int \<Rightarrow> pmcsched \<Rightarrow> pmcsched option" where
  "steal_for_small [] big_cores_available s = Some s"
| "steal_for_small (t # ts) big_cores_available s =
     (if big_cores_available \<ge> 0 then do {
        s \<leftarrow> request_migration AMP_FAST_CORE AMP_SLOW_CORE t s;
        steal_for_small ts (big_cores_available + 1) s
      } else Some s)"

text \<open>\<open>locked\<close>: the lock of the other group was free. Waking the kernel thread up is not a change of this state.\<close>

definition sched_timer_periodic_busybcs :: "bool \<Rightarrow> nat \<Rightarrow> pmcsched \<Rightarrow> pmcsched option" where
  "sched_timer_periodic_busybcs locked g s = do {
     big \<leftarrow> rd (pm_groups s) AMP_FAST_CORE;
     small \<leftarrow> rd (pm_groups s) AMP_SLOW_CORE;
     let total_core_count = sg_nr_online_cpus big + sg_nr_online_cpus small;
     let nr_migrations_pending = sized_list_length (sg_migration_list big) + sized_list_length (sg_migration_list small);
     let nr_threads_total = int (sized_list_length (sg_active_threads big) + sized_list_length (sg_active_threads small));
     let big_cores_available = sg_nr_online_cpus big - int (sized_list_length (sg_active_threads big));
     if \<not> locked \<or> nr_threads_total > total_core_count \<or> nr_migrations_pending > 0 then Some s
     else if g = AMP_FAST_CORE then
       (if big_cores_available \<le> 0 \<or> sized_list_length (sg_active_threads small) = 0 then Some s
        else steal_for_big (sl_nodes (sg_active_threads small)) big_cores_available s)
     else if big_cores_available \<ge> 0 then Some s
     else steal_for_small (sl_nodes (sg_active_threads big)) big_cores_available s
   }"

section \<open>The plugins\<close>

definition plugin_ops :: "bool \<Rightarrow> sched_ops" where
  "plugin_ops forget = \<lparr>op_global_lock = False, op_cosched = False,
     op_on_active = (\<lambda>cpu t s. on_active_thread (pm_group_of_cpu s cpu) t s),
     op_on_inactive = (\<lambda>cpu t s. on_inactive_thread forget t s),
     op_on_exit = Some on_exit_thread,
     op_on_migrate = Some (on_migrate_thread forget),
     op_profiles = False, op_light_weight = None, op_active_during_profile = None\<rparr>"

definition group_plugin :: sched_ops where "group_plugin = plugin_ops True"
definition busybcs_plugin :: sched_ops where "busybcs_plugin = plugin_ops False"

end
