(* ===== verification/PluginProps.thy ===== *)
theory PluginProps
  imports SchedPlugins
begin

text \<open>
  The lists of the scheduling groups are those of the threads: for any sequence of context switches, exits and
  migrations in which no thread sleeps, dies or is looked at again before its migration is over. Sequences in which one is
  corrupt a list.
\<close>

section \<open>Lists as sets\<close>

definition list_is :: "'a sized_list \<Rightarrow> 'a set \<Rightarrow> bool" where
  "list_is l A \<longleftrightarrow> sl_wf l \<and> set (sl_nodes l) = A"

lemma list_is_insert:
  assumes "list_is l A" and "x \<notin> A"
  shows "\<exists>l'. insert_sized_list_tail l x = Some l' \<and> list_is l' (insert x A) \<and> (sized_list_length l' = 1 \<longleftrightarrow> A = {})"
  using assms by (auto simp: list_is_def insert_sized_list_tail_def sl_wf_def sized_list_length_def)

lemma list_is_remove:
  assumes "list_is l A" and "x \<in> A"
  shows "\<exists>l'. remove_sized_list l x = Some l' \<and> list_is l' (A - {x}) \<and> (sized_list_length l' = 0 \<longleftrightarrow> A = {x})"
proof -
  have d: "distinct (sl_nodes l)" "x \<in> set (sl_nodes l)" "sl_size l = length (sl_nodes l)" "set (sl_nodes l) = A"
    using assms by (auto simp: list_is_def sl_wf_def)
  let ?r = "remove1 x (sl_nodes l)"
  have r: "set ?r = A - {x}" "distinct ?r" "length ?r = length (sl_nodes l) - 1" using d by (simp_all add: set_remove1_eq length_remove1)
  have "length ?r = 0 \<longleftrightarrow> set ?r = {}" by simp
  then have "length ?r = 0 \<longleftrightarrow> A = {x}" using r(1) assms(2) by auto
  then show ?thesis using d r by (auto simp: remove_sized_list_def list_is_def sl_wf_def sized_list_length_def)
qed

lemma list_is_insertE:
  assumes "list_is l A" and "x \<notin> A"
  obtains l' where "insert_sized_list_tail l x = Some l'" "list_is l' (insert x A)" "sized_list_length l' = 1 \<longleftrightarrow> A = {}"
  using list_is_insert [OF assms] by (elim exE conjE) (rule that)

lemma list_is_removeE:
  assumes "list_is l A" and "x \<in> A"
  obtains l' where "remove_sized_list l x = Some l'" "list_is l' (A - {x})" "sized_list_length l' = 0 \<longleftrightarrow> A = {x}"
  using list_is_remove [OF assms] by (elim exE conjE) (rule that)

lemma list_is_empty: "list_is l {} \<longleftrightarrow> sl_nodes l = [] \<and> sl_size l = 0"
  by (auto simp: list_is_def sl_wf_def)

section \<open>The lists of the groups\<close>

text \<open>For \<open>n\<close> threads: \<open>c\<close> is the group of a thread, \<open>ap\<close> its application, \<open>mg\<close> whether it waits to be moved.\<close>

definition lists_ok :: "pmcsched \<Rightarrow> nat \<Rightarrow> (nat \<Rightarrow> nat option) \<Rightarrow> (nat \<Rightarrow> nat) \<Rightarrow> (nat \<Rightarrow> bool) \<Rightarrow> bool" where
  "lists_ok s n c ap mg \<longleftrightarrow>
     (\<forall>a<length (pm_apps s). length (pm_apps s ! a) = length (pm_groups s)) \<and>
     (\<forall>g<length (pm_groups s).
        list_is (sg_active_threads (pm_groups s ! g)) {t. t < n \<and> c t = Some g} \<and>
        list_is (sg_active_apps (pm_groups s ! g)) {p. snd p = g \<and> (\<exists>t<n. c t = Some g \<and> ap t = fst p)} \<and>
        list_is (sg_migration_list (pm_groups s ! g)) {t. t < n \<and> c t = Some g \<and> mg t} \<and>
        list_is (sg_pending_signals_list (pm_groups s ! g)) {} \<and> sg_scheduling_mode (pm_groups s ! g) = NORMAL \<and>
        (\<forall>a<length (pm_apps s). list_is (pa_active_threads (pm_apps s ! a ! g)) {t. t < n \<and> c t = Some g \<and> ap t = a}))"

lemma lists_okD:
  assumes "lists_ok s n c ap mg" and "g < length (pm_groups s)"
  shows "list_is (sg_active_threads (pm_groups s ! g)) {t. t < n \<and> c t = Some g}"
    "list_is (sg_active_apps (pm_groups s ! g)) {p. snd p = g \<and> (\<exists>t<n. c t = Some g \<and> ap t = fst p)}"
    "list_is (sg_migration_list (pm_groups s ! g)) {t. t < n \<and> c t = Some g \<and> mg t}"
    "list_is (sg_pending_signals_list (pm_groups s ! g)) {}" "sg_scheduling_mode (pm_groups s ! g) = NORMAL"
    "a < length (pm_apps s) \<Longrightarrow> list_is (pa_active_threads (pm_apps s ! a ! g)) {t. t < n \<and> c t = Some g \<and> ap t = a}"
    "a < length (pm_apps s) \<Longrightarrow> length (pm_apps s ! a) = length (pm_groups s)"
  using assms by (auto simp: lists_ok_def)

lemma lists_ok_threads [simp]: "lists_ok (s\<lparr>pm_threads := ts\<rparr>) n c ap mg = lists_ok s n c ap mg"
  by (simp add: lists_ok_def)

lemma lists_ok_threads_groups [simp]: "lists_ok (s\<lparr>pm_threads := ts, pm_groups := gs\<rparr>) n c ap mg = lists_ok (s\<lparr>pm_groups := gs\<rparr>) n c ap mg"
  by (simp add: lists_ok_def)

lemma lists_ok_counter [simp]: "lists_ok (s\<lparr>pm_migration_counter := i\<rparr>) n c ap mg = lists_ok s n c ap mg"
  by (simp add: lists_ok_def)

lemma upd_thread_eq: "t < length (pm_threads s) \<Longrightarrow> upd_thread t f s = Some (s\<lparr>pm_threads := (pm_threads s)[t := f (pm_threads s ! t)]\<rparr>)"
  by (simp add: upd_thread_def mem_simps)

lemma put_group_eq: "g < length (pm_groups s) \<Longrightarrow> put_group g grp s = Some (s\<lparr>pm_groups := (pm_groups s)[g := grp]\<rparr>)"
  by (simp add: put_group_def mem_simps)

lemma get_app_eq: "fst p < length (pm_apps s) \<Longrightarrow> snd p < length (pm_apps s ! fst p) \<Longrightarrow> get_app p s = Some (pm_apps s ! fst p ! snd p)"
  by (simp add: get_app_def mem_simps)

lemma put_app_group_eq: "fst p < length (pm_apps s) \<Longrightarrow> snd p < length (pm_apps s ! fst p) \<Longrightarrow>
  put_app_group p app s = Some (s\<lparr>pm_apps := (pm_apps s)[fst p := (pm_apps s ! fst p)[snd p := app]]\<rparr>)"
  by (simp add: put_app_group_def mem_simps)

lemmas store_eqs = upd_thread_eq put_group_eq get_app_eq put_app_group_eq

text \<open>A thread enters a group.\<close>

lemma on_active_thread_ok:
  assumes ok: "lists_ok s n c ap mg" and t: "t < n" "t < length (pm_threads s)" "c t = None" "\<not> mg t"
    and g: "g < length (pm_groups s)" and a: "ap t = td_sched_app (pm_threads s ! t)" "ap t < length (pm_apps s)"
  shows "\<exists>s'. on_active_thread g t s = Some s' \<and> lists_ok s' n (c(t := Some g)) ap mg \<and>
    pm_threads s' = (pm_threads s)[t := (pm_threads s ! t)\<lparr>td_cur_group := Some g\<rparr>] \<and>
    length (pm_groups s') = length (pm_groups s) \<and> length (pm_apps s') = length (pm_apps s) \<and>
    pm_security_id s' = pm_security_id s \<and> pm_group_of_cpu s' = pm_group_of_cpu s"
proof -
  let ?a = "ap t" and ?grp = "pm_groups s ! g"
  let ?app = "pm_apps s ! ?a ! g"
  note L = lists_okD [OF ok g]
  have ga: "g < length (pm_apps s ! ?a)" using L(7) [OF a(2)] g by simp
  let ?A = "{u. u < n \<and> c u = Some g \<and> ap u = ?a}" and ?T = "{u. u < n \<and> c u = Some g}"
    and ?P = "{p. snd p = g \<and> (\<exists>u<n. c u = Some g \<and> ap u = fst p)}"
  have nt: "t \<notin> ?A" "t \<notin> ?T" using t(3) by auto
  obtain q where q: "insert_sized_list_tail (pa_active_threads ?app) t = Some q" "list_is q (insert t ?A)" "sized_list_length q = 1 \<longleftrightarrow> ?A = {}"
    by (rule list_is_insertE [OF L(6) [OF a(2)] nt(1)])
  obtain l where l: "insert_sized_list_tail (sg_active_threads ?grp) t = Some l" "list_is l (insert t ?T)"
    by (rule list_is_insertE [OF L(1) nt(2)])
  obtain as where as: "(if sized_list_length q = 1 then insert_sized_list_tail (sg_active_apps ?grp) (?a, g) else Some (sg_active_apps ?grp)) = Some as"
    "list_is as (insert (?a, g) ?P)"
  proof (cases "?A = {}")
    case True
    then have n: "(?a, g) \<notin> ?P" by auto
    obtain r where "insert_sized_list_tail (sg_active_apps ?grp) (?a, g) = Some r" "list_is r (insert (?a, g) ?P)"
      by (rule list_is_insertE [OF L(2) n])
    then show ?thesis using q(3) True by (intro that [of r]) simp_all
  next
    case False
    then have e: "insert (?a, g) ?P = ?P" by auto
    have i: "list_is (sg_active_apps ?grp) (insert (?a, g) ?P)" unfolding e by (rule L(2))
    have "sized_list_length q \<noteq> 1" using q(3) False by blast
    then show ?thesis using i by (intro that [of "sg_active_apps ?grp"]) simp_all
  qed
  let ?s = "s\<lparr>pm_threads := (pm_threads s)[t := (pm_threads s ! t)\<lparr>td_cur_group := Some g\<rparr>],
    pm_apps := (pm_apps s)[?a := (pm_apps s ! ?a)[g := ?app\<lparr>pa_active_threads := q\<rparr>]],
    pm_groups := (pm_groups s)[g := ?grp\<lparr>sg_active_threads := l, sg_active_apps := as\<rparr>]\<rparr>"
  have st: "on_active_thread g t s = Some ?s"
    using t(2) g a(2) ga q(1) l(1) as(1) by (simp add: on_active_thread_def store_eqs mem_simps flip: a(1))
  have sets: "insert t ?A = {u. u < n \<and> (c(t := Some g)) u = Some g \<and> ap u = ?a}" "insert t ?T = {u. u < n \<and> (c(t := Some g)) u = Some g}"
    "insert (?a, g) ?P = {p. snd p = g \<and> (\<exists>u<n. (c(t := Some g)) u = Some g \<and> ap u = fst p)}" using t by auto
  have other: "{u. u < n \<and> (c(t := Some g)) u = Some h \<and> Q u} = {u. u < n \<and> c u = Some h \<and> Q u}" if "h \<noteq> g \<or> \<not> Q t" for h Q using that t(3) by auto
  have otherP: "{p. snd p = h \<and> (\<exists>u<n. (c(t := Some g)) u = Some h \<and> ap u = fst p)} = {p. snd p = h \<and> (\<exists>u<n. c u = Some h \<and> ap u = fst p)}"
    if "h \<noteq> g" for h
  proof -
    have "((c(t := Some g)) u = Some h) = (c u = Some h)" for u using that t(3) by simp
    then show ?thesis by (simp only:)
  qed
  have "lists_ok ?s n (c(t := Some g)) ap mg"
    unfolding lists_ok_def
  proof (intro conjI allI impI)
    show "length (pm_apps ?s ! b) = length (pm_groups ?s)" if "b < length (pm_apps ?s)" for b
      using that ok a(2) by (auto simp: lists_ok_def nth_list_update)
    fix h assume h: "h < length (pm_groups ?s)"
    then have h': "h < length (pm_groups s)" by simp
    note H = lists_okD [OF ok h']
    show "list_is (sg_active_threads (pm_groups ?s ! h)) {u. u < n \<and> (c(t := Some g)) u = Some h}"
      using H(1) l(2) sets(2) g other [of h "\<lambda>_. True"] by (cases "h = g") (simp_all del: fun_upd_apply)
    show "list_is (sg_active_apps (pm_groups ?s ! h)) {p. snd p = h \<and> (\<exists>u<n. (c(t := Some g)) u = Some h \<and> ap u = fst p)}"
      using H(2) as(2) sets(3) g otherP [of h] by (cases "h = g") (simp_all del: fun_upd_apply)
    show "list_is (sg_migration_list (pm_groups ?s ! h)) {u. u < n \<and> (c(t := Some g)) u = Some h \<and> mg u}"
      using H(3) g other [of h mg] t(4) by (cases "h = g") (simp_all del: fun_upd_apply)
    show "list_is (sg_pending_signals_list (pm_groups ?s ! h)) {}" "sg_scheduling_mode (pm_groups ?s ! h) = NORMAL"
      using H(4,5) g by (cases "h = g"; simp)+
    fix b assume b: "b < length (pm_apps ?s)"
    then have b': "b < length (pm_apps s)" by simp
    show "list_is (pa_active_threads (pm_apps ?s ! b ! h)) {u. u < n \<and> (c(t := Some g)) u = Some h \<and> ap u = b}"
      using H(6) [OF b'] q(2) sets(1) a(2) ga other [of h "\<lambda>u. ap u = b"]
      by (cases "h = g"; cases "b = ?a") (simp_all del: fun_upd_apply)
  qed
  then show ?thesis using st by simp
qed

text \<open>A thread leaves its group.\<close>

lemma on_inactive_thread_ok:
  assumes ok: "lists_ok s n c ap mg" and t: "t < n" "t < length (pm_threads s)" "c t = Some g" "\<not> mg t"
    and g: "td_cur_group (pm_threads s ! t) = Some g" "g < length (pm_groups s)"
    and a: "ap t = td_sched_app (pm_threads s ! t)" "ap t < length (pm_apps s)"
  shows "\<exists>s'. on_inactive_thread forget t s = Some s' \<and> lists_ok s' n (c(t := None)) ap mg \<and>
    pm_threads s' = (if forget then (pm_threads s)[t := (pm_threads s ! t)\<lparr>td_cur_group := None\<rparr>] else pm_threads s) \<and>
    length (pm_groups s') = length (pm_groups s) \<and> length (pm_apps s') = length (pm_apps s) \<and>
    pm_security_id s' = pm_security_id s \<and> pm_group_of_cpu s' = pm_group_of_cpu s"
proof -
  let ?a = "ap t" and ?grp = "pm_groups s ! g"
  let ?app = "pm_apps s ! ?a ! g"
  note L = lists_okD [OF ok g(2)]
  have ga: "g < length (pm_apps s ! ?a)" using L(7) [OF a(2)] g by simp
  let ?A = "{u. u < n \<and> c u = Some g \<and> ap u = ?a}" and ?T = "{u. u < n \<and> c u = Some g}"
    and ?P = "{p. snd p = g \<and> (\<exists>u<n. c u = Some g \<and> ap u = fst p)}"
  have nt: "t \<in> ?A" "t \<in> ?T" using t(1,3) by auto
  obtain q where q: "remove_sized_list (pa_active_threads ?app) t = Some q" "list_is q (?A - {t})" "sized_list_length q = 0 \<longleftrightarrow> ?A = {t}"
    by (rule list_is_removeE [OF L(6) [OF a(2)] nt(1)])
  obtain l where l: "remove_sized_list (sg_active_threads ?grp) t = Some l" "list_is l (?T - {t})"
    by (rule list_is_removeE [OF L(1) nt(2)])
  let ?P' = "{p. snd p = g \<and> (\<exists>u<n. (c(t := None)) u = Some g \<and> ap u = fst p)}"
  obtain as where as: "(if sized_list_length q = 0 then remove_sized_list (sg_active_apps ?grp) (?a, g) else Some (sg_active_apps ?grp)) = Some as"
    "list_is as ?P'"
  proof (cases "?A = {t}")
    case True
    have n: "(?a, g) \<in> ?P" using t(1,3) by auto
    obtain r where r: "remove_sized_list (sg_active_apps ?grp) (?a, g) = Some r" "list_is r (?P - {(?a, g)})"
      by (rule list_is_removeE [OF L(2) n])
    have only: "u = t" if "u < n" "c u = Some g" "ap u = ?a" for u
    proof -
      have "u \<in> ?A" using that by simp
      then show ?thesis by (simp only: True singleton_iff)
    qed
    have e: "?P - {(?a, g)} = ?P'"
    proof (intro set_eqI iffI)
      fix p assume "p \<in> ?P - {(?a, g)}"
      then obtain u where u: "u < n" "c u = Some g" "ap u = fst p" "snd p = g" "p \<noteq> (?a, g)" by auto
      then have "u \<noteq> t" by (cases p) auto
      with u show "p \<in> ?P'" by auto
    next
      fix p assume "p \<in> ?P'"
      then obtain u where u: "u < n" "u \<noteq> t" "c u = Some g" "ap u = fst p" "snd p = g" by (auto split: if_splits)
      then have "fst p \<noteq> ?a" using only [of u] by metis
      with u show "p \<in> ?P - {(?a, g)}" by (cases p) auto
    qed
    have z: "sized_list_length q = 0" using q(3) True by blast
    show ?thesis by (rule that [of r]) (use r z in \<open>simp_all only: e if_True refl\<close>)
  next
    case False
    obtain u where u: "u \<in> ?A" "u \<noteq> t" using False nt(1) by auto
    have e: "?P = ?P'"
    proof (intro set_eqI iffI)
      fix p assume "p \<in> ?P"
      then obtain v where v: "v < n" "c v = Some g" "ap v = fst p" "snd p = g" by auto
      show "p \<in> ?P'" by (cases "v = t") (use v u in auto)
    qed (auto split: if_splits)
    have i: "list_is (sg_active_apps ?grp) ?P'" using L(2) unfolding e .
    have z: "sized_list_length q \<noteq> 0" using q(3) False by blast
    show ?thesis by (rule that [of "sg_active_apps ?grp"]) (use i z in \<open>simp_all only: if_False\<close>)
  qed
  let ?s = "s\<lparr>pm_apps := (pm_apps s)[?a := (pm_apps s ! ?a)[g := ?app\<lparr>pa_active_threads := q\<rparr>]],
    pm_groups := (pm_groups s)[g := ?grp\<lparr>sg_active_threads := l, sg_active_apps := as\<rparr>]\<rparr>"
  let ?s' = "?s\<lparr>pm_threads := (if forget then (pm_threads s)[t := (pm_threads s ! t)\<lparr>td_cur_group := None\<rparr>] else pm_threads s)\<rparr>"
  have st: "on_inactive_thread forget t s = Some ?s'"
    using t(2) g a(2) ga q(1) l(1) as(1) by (simp add: on_inactive_thread_def store_eqs mem_simps flip: a(1))
  have sets: "?A - {t} = {u. u < n \<and> (c(t := None)) u = Some g \<and> ap u = ?a}" "?T - {t} = {u. u < n \<and> (c(t := None)) u = Some g}"
    using t by auto
  have other: "{u. u < n \<and> (c(t := None)) u = Some h \<and> Q u} = {u. u < n \<and> c u = Some h \<and> Q u}" if "h \<noteq> g \<or> \<not> Q t" for h Q using that t(3) by auto
  have otherP: "{p. snd p = h \<and> (\<exists>u<n. (c(t := None)) u = Some h \<and> ap u = fst p)} = {p. snd p = h \<and> (\<exists>u<n. c u = Some h \<and> ap u = fst p)}"
    if "h \<noteq> g" for h
  proof -
    have "((c(t := None)) u = Some h) = (c u = Some h)" for u using that t(3) by simp
    then show ?thesis by (simp only:)
  qed
  have "lists_ok ?s n (c(t := None)) ap mg"
    unfolding lists_ok_def
  proof (intro conjI allI impI)
    show "length (pm_apps ?s ! b) = length (pm_groups ?s)" if "b < length (pm_apps ?s)" for b
      using that ok a(2) by (auto simp: lists_ok_def nth_list_update)
    fix h assume h: "h < length (pm_groups ?s)"
    then have h': "h < length (pm_groups s)" by simp
    note H = lists_okD [OF ok h']
    show "list_is (sg_active_threads (pm_groups ?s ! h)) {u. u < n \<and> (c(t := None)) u = Some h}"
      using H(1) l(2) sets(2) g other [of h "\<lambda>_. True"] by (cases "h = g") (simp_all del: fun_upd_apply)
    show "list_is (sg_active_apps (pm_groups ?s ! h)) {p. snd p = h \<and> (\<exists>u<n. (c(t := None)) u = Some h \<and> ap u = fst p)}"
      using H(2) as(2) g otherP [of h] by (cases "h = g") (simp_all del: fun_upd_apply)
    show "list_is (sg_migration_list (pm_groups ?s ! h)) {u. u < n \<and> (c(t := None)) u = Some h \<and> mg u}"
      using H(3) g other [of h mg] t(4) by (cases "h = g") (simp_all del: fun_upd_apply)
    show "list_is (sg_pending_signals_list (pm_groups ?s ! h)) {}" "sg_scheduling_mode (pm_groups ?s ! h) = NORMAL"
      using H(4,5) g by (cases "h = g"; simp)+
    fix b assume b: "b < length (pm_apps ?s)"
    then have b': "b < length (pm_apps s)" by simp
    show "list_is (pa_active_threads (pm_apps ?s ! b ! h)) {u. u < n \<and> (c(t := None)) u = Some h \<and> ap u = b}"
      using H(6) [OF b'] q(2) sets(1) a(2) ga other [of h "\<lambda>u. ap u = b"]
      by (cases "h = g"; cases "b = ?a") (simp_all del: fun_upd_apply)
  qed
  then show ?thesis using st by simp
qed

text \<open>A thread enters or leaves the list of those to be moved.\<close>

lemma migration_list_ok:
  assumes ok: "lists_ok s n c ap mg" and t: "t < n" "c t = Some g" and g: "g < length (pm_groups s)"
    and q: "list_is q (if b then insert t {u. u < n \<and> c u = Some g \<and> mg u} else {u. u < n \<and> c u = Some g \<and> mg u} - {t})"
  shows "lists_ok (s\<lparr>pm_groups := (pm_groups s)[g := (pm_groups s ! g)\<lparr>sg_migration_list := q\<rparr>]\<rparr>) n c ap (mg(t := b))"
    (is "lists_ok ?s n c ap ?mg")
proof -
  have m: "{u. u < n \<and> c u = Some g \<and> ?mg u} =
      (if b then insert t {u. u < n \<and> c u = Some g \<and> mg u} else {u. u < n \<and> c u = Some g \<and> mg u} - {t})" using t by auto
  have o: "{u. u < n \<and> c u = Some h \<and> ?mg u} = {u. u < n \<and> c u = Some h \<and> mg u}" if "h \<noteq> g" for h using that t by auto
  show ?thesis unfolding lists_ok_def
  proof (intro conjI allI impI)
    show "length (pm_apps ?s ! b) = length (pm_groups ?s)" if "b < length (pm_apps ?s)" for b
      using that ok by (auto simp: lists_ok_def)
    fix h assume "h < length (pm_groups ?s)"
    then have h': "h < length (pm_groups s)" by simp
    note H = lists_okD [OF ok h']
    show "list_is (sg_migration_list (pm_groups ?s ! h)) {u. u < n \<and> c u = Some h \<and> ?mg u}"
      using H(3) q m g o [of h] by (cases "h = g") (simp_all del: fun_upd_apply)
    show "list_is (sg_active_threads (pm_groups ?s ! h)) {u. u < n \<and> c u = Some h}"
      "list_is (sg_active_apps (pm_groups ?s ! h)) {p. snd p = h \<and> (\<exists>u<n. c u = Some h \<and> ap u = fst p)}"
      "list_is (sg_pending_signals_list (pm_groups ?s ! h)) {}" "sg_scheduling_mode (pm_groups ?s ! h) = NORMAL"
      using H(1,2,4,5) g by (cases "h = g"; simp)+
    show "list_is (pa_active_threads (pm_apps ?s ! b ! h)) {u. u < n \<and> c u = Some h \<and> ap u = b}" if "b < length (pm_apps ?s)" for b
      using H(6) that by simp
  qed
qed

lemma leave_migration_ok:
  assumes ok: "lists_ok s n c ap mg" and t: "t < n" "t < length (pm_threads s)" "c t = Some g" "mg t" and g: "g < length (pm_groups s)"
  shows "\<exists>s'. leave_migration g t s = Some s' \<and> lists_ok s' n c ap (mg(t := False)) \<and>
    pm_threads s' = (pm_threads s)[t := (pm_threads s ! t)\<lparr>td_mig_state := MIGRATION_COMPLETED\<rparr>] \<and>
    length (pm_groups s') = length (pm_groups s) \<and> length (pm_apps s') = length (pm_apps s) \<and>
    pm_security_id s' = pm_security_id s \<and> pm_group_of_cpu s' = pm_group_of_cpu s"
proof -
  have i: "t \<in> {u. u < n \<and> c u = Some g \<and> mg u}" using t by simp
  obtain q where q: "remove_sized_list (sg_migration_list (pm_groups s ! g)) t = Some q"
    "list_is q ({u. u < n \<and> c u = Some g \<and> mg u} - {t})"
    by (rule list_is_removeE [OF lists_okD(3) [OF ok g] i])
  have "lists_ok (s\<lparr>pm_groups := (pm_groups s)[g := (pm_groups s ! g)\<lparr>sg_migration_list := q\<rparr>]\<rparr>) n c ap (mg(t := False))"
    by (rule migration_list_ok [OF ok t(1,3) g]) (simp add: q(2))
  then show ?thesis using q(1) g t(2) by (simp add: leave_migration_def store_eqs mem_simps)
qed

lemma request_migration_ok:
  assumes ok: "lists_ok s n c ap mg" and t: "t < n" "t < length (pm_threads s)" "c t = Some g" "\<not> mg t" and g: "g < length (pm_groups s)"
  shows "\<exists>s'. request_migration g h t s = Some s' \<and> lists_ok s' n c ap (mg(t := True)) \<and>
    pm_threads s' = (pm_threads s)[t := (pm_threads s ! t)\<lparr>td_mig_state := MIGRATION_REQUESTED, td_dst_group := h, td_src_group := g\<rparr>] \<and>
    length (pm_groups s') = length (pm_groups s) \<and> length (pm_apps s') = length (pm_apps s) \<and>
    pm_security_id s' = pm_security_id s \<and> pm_group_of_cpu s' = pm_group_of_cpu s"
proof -
  have i: "t \<notin> {u. u < n \<and> c u = Some g \<and> mg u}" using t by simp
  obtain q where q: "insert_sized_list_tail (sg_migration_list (pm_groups s ! g)) t = Some q"
    "list_is q (insert t {u. u < n \<and> c u = Some g \<and> mg u})"
    by (rule list_is_insertE [OF lists_okD(3) [OF ok g] i])
  have "lists_ok (s\<lparr>pm_groups := (pm_groups s)[g := (pm_groups s ! g)\<lparr>sg_migration_list := q\<rparr>]\<rparr>) n c ap (mg(t := True))"
    by (rule migration_list_ok [OF ok t(1,3) g]) (simp add: q(2))
  then show ?thesis using q(1) g t(2) by (simp add: request_migration_def store_eqs mem_simps)
qed

section \<open>The invariant\<close>

text \<open>A thread is in a group exactly when the framework takes it for runnable, and waits to be moved only then.\<close>

definition thread_ok :: "pmcsched \<Rightarrow> pmcsched_thread_data \<Rightarrow> bool" where
  "thread_ok s d \<longleftrightarrow> (td_runnable d \<longleftrightarrow> td_cur_group d \<noteq> None) \<and> (td_mig_state d \<noteq> MIGRATION_COMPLETED \<longrightarrow> td_cur_group d \<noteq> None) \<and>
     (td_cur_group d = None \<or> the (td_cur_group d) < length (pm_groups s)) \<and> td_sched_app d < length (pm_apps s) \<and>
     \<not> ignore_thread s d \<and> td_state d \<in> {NO_QUEUE, TASK_KILLED} \<and>
     (td_mig_state d \<noteq> MIGRATION_COMPLETED \<longrightarrow> td_dst_group d < length (pm_groups s))"

definition groups_inv :: "pmcsched \<Rightarrow> bool" where
  "groups_inv s \<longleftrightarrow> lists_ok s (length (pm_threads s)) (\<lambda>t. td_cur_group (pm_threads s ! t)) (\<lambda>t. td_sched_app (pm_threads s ! t))
       (\<lambda>t. td_mig_state (pm_threads s ! t) \<noteq> MIGRATION_COMPLETED) \<and>
     (\<forall>t<length (pm_threads s). thread_ok s (pm_threads s ! t)) \<and> (\<forall>cpu. pm_group_of_cpu s cpu < length (pm_groups s))"

lemma groups_invD:
  assumes "groups_inv s"
  shows "lists_ok s (length (pm_threads s)) (\<lambda>t. td_cur_group (pm_threads s ! t)) (\<lambda>t. td_sched_app (pm_threads s ! t))
      (\<lambda>t. td_mig_state (pm_threads s ! t) \<noteq> MIGRATION_COMPLETED)"
    "t < length (pm_threads s) \<Longrightarrow> thread_ok s (pm_threads s ! t)" "pm_group_of_cpu s cpu < length (pm_groups s)"
  using assms by (auto simp: groups_inv_def)

lemma lists_ok_cong:
  assumes "\<And>u. u < n \<Longrightarrow> c u = c' u \<and> ap u = ap' u \<and> mg u = mg' u"
  shows "lists_ok s n c ap mg = lists_ok s n c' ap' mg'"
proof -
  have "{t. t < n \<and> c t = Some g} = {t. t < n \<and> c' t = Some g}" "{t. t < n \<and> c t = Some g \<and> mg t} = {t. t < n \<and> c' t = Some g \<and> mg' t}"
    "{t. t < n \<and> c t = Some g \<and> ap t = a} = {t. t < n \<and> c' t = Some g \<and> ap' t = a}"
    "{p. snd p = g \<and> (\<exists>t<n. c t = Some g \<and> ap t = fst p)} = {p. snd p = g \<and> (\<exists>t<n. c' t = Some g \<and> ap' t = fst p)}" for g a
    using assms by (auto 0 3)
  then show ?thesis unfolding lists_ok_def by (simp only:)
qed

text \<open>A step that changes one thread.\<close>

lemma groups_inv_step:
  assumes inv: "groups_inv s" and t: "t < length (pm_threads s)" and s': "pm_threads s' = (pm_threads s)[t := d]"
    and l: "lists_ok s' (length (pm_threads s)) ((\<lambda>t. td_cur_group (pm_threads s ! t))(t := td_cur_group d)) (\<lambda>t. td_sched_app (pm_threads s ! t))
      ((\<lambda>t. td_mig_state (pm_threads s ! t) \<noteq> MIGRATION_COMPLETED)(t := td_mig_state d \<noteq> MIGRATION_COMPLETED))"
    and a: "td_sched_app d = td_sched_app (pm_threads s ! t)" and d: "thread_ok s d"
    and f: "length (pm_groups s') = length (pm_groups s)" "length (pm_apps s') = length (pm_apps s)"
      "pm_security_id s' = pm_security_id s" "pm_group_of_cpu s' = pm_group_of_cpu s"
  shows "groups_inv s'"
proof -
  have k: "thread_ok s' e = thread_ok s e" for e using f by (simp add: thread_ok_def ignore_thread_def)
  have "lists_ok s' (length (pm_threads s')) (\<lambda>t. td_cur_group (pm_threads s' ! t)) (\<lambda>t. td_sched_app (pm_threads s' ! t))
      (\<lambda>t. td_mig_state (pm_threads s' ! t) \<noteq> MIGRATION_COMPLETED)"
    unfolding s' length_list_update
    by (rule iffD1 [OF lists_ok_cong l]) (use t a in \<open>auto simp: nth_list_update\<close>)
  moreover have "thread_ok s' (pm_threads s' ! u)" if "u < length (pm_threads s')" for u
    using that groups_invD(2) [OF inv, of u] d t by (cases "u = t") (simp_all add: k s')
  ultimately show ?thesis unfolding groups_inv_def using groups_invD(3) [OF inv] f by simp
qed

lemma groups_inv_upd:
  assumes inv: "groups_inv s" and t: "t < length (pm_threads s)"
    and d: "thread_ok s (f (pm_threads s ! t))" "td_sched_app (f (pm_threads s ! t)) = td_sched_app (pm_threads s ! t)"
      "td_cur_group (f (pm_threads s ! t)) = td_cur_group (pm_threads s ! t)"
      "(td_mig_state (f (pm_threads s ! t)) = MIGRATION_COMPLETED) = (td_mig_state (pm_threads s ! t) = MIGRATION_COMPLETED)"
  shows "\<exists>s'. upd_thread t f s = Some s' \<and> groups_inv s' \<and> s' = s\<lparr>pm_threads := (pm_threads s)[t := f (pm_threads s ! t)]\<rparr>"
proof -
  let ?s = "s\<lparr>pm_threads := (pm_threads s)[t := f (pm_threads s ! t)]\<rparr>"
  have "groups_inv ?s"
    by (rule groups_inv_step [OF inv t _ _ d(2,1)]) (use groups_invD(1) [OF inv] d(3,4) in \<open>simp_all add: fun_upd_idem\<close>)
  then show ?thesis using t by (simp add: upd_thread_eq)
qed

lemma no_signals:
  assumes "lists_ok s n c ap mg" and "g < length (pm_groups s)"
  shows "check_pending_signals_group k g s = Some s"
  using lists_okD(4) [OF assms] assms(2) by (simp add: check_pending_signals_group_def mem_simps list_is_empty sized_list_length_def)

lemma no_profiling: "\<not> op_profiles ops \<Longrightarrow> g < length (pm_groups s) \<Longrightarrow> check_pending_profiling_group ops k g s = Some s"
  by (simp add: check_pending_profiling_group_def mem_simps)

lemma plugin_simps [simp]:
  "op_global_lock (plugin_ops f) = False" "op_cosched (plugin_ops f) = False" "op_profiles (plugin_ops f) = False"
  "op_on_active (plugin_ops f) cpu t s = on_active_thread (pm_group_of_cpu s cpu) t s"
  "op_on_inactive (plugin_ops f) cpu t s = on_inactive_thread f t s"
  "op_on_exit (plugin_ops f) = Some on_exit_thread" "op_on_migrate (plugin_ops f) = Some (on_migrate_thread f)"
  by (simp_all add: plugin_ops_def)

section \<open>The framework keeps it\<close>

text \<open>What does not change.\<close>

definition same_frame :: "pmcsched \<Rightarrow> pmcsched \<Rightarrow> bool" where
  "same_frame s s' \<longleftrightarrow> length (pm_threads s') = length (pm_threads s) \<and> length (pm_groups s') = length (pm_groups s) \<and>
     length (pm_apps s') = length (pm_apps s) \<and> pm_security_id s' = pm_security_id s \<and> pm_group_of_cpu s' = pm_group_of_cpu s"

lemma same_frame_refl [simp]: "same_frame s s"
  by (simp add: same_frame_def)

lemma same_frame_trans: "same_frame s s' \<Longrightarrow> same_frame s' s'' \<Longrightarrow> same_frame s s''"
  by (simp add: same_frame_def)

lemma become_active_ok:
  assumes inv: "groups_inv s" and t: "t < length (pm_threads s)"
  shows "\<exists>s'. become_active (plugin_ops f) k cpu t s = Some s' \<and> groups_inv s' \<and> same_frame s s' \<and>
    pm_threads s' = (pm_threads s)[t := (if \<not> td_runnable (pm_threads s ! t) \<and> awake (pm_threads s ! t)
      then (pm_threads s ! t)\<lparr>td_runnable := True, td_cur_group := Some (pm_group_of_cpu s cpu)\<rparr> else pm_threads s ! t)]"
proof -
  let ?d = "pm_threads s ! t" and ?g = "pm_group_of_cpu s cpu"
  have g: "?g < length (pm_groups s)" by (rule groups_invD(3) [OF inv])
  note ok = groups_invD(1) [OF inv] and th = groups_invD(2) [OF inv t]
  have n: "sg_scheduling_mode (pm_groups s ! ?g) = NORMAL" by (rule lists_okD(5) [OF ok g])
  show ?thesis
  proof (cases "\<not> td_runnable ?d \<and> awake ?d")
    case False
    then show ?thesis using inv t g by (auto simp: become_active_def get_cpu_group_sched_def mem_simps)
  next
    case True
    let ?s = "s\<lparr>pm_threads := (pm_threads s)[t := ?d\<lparr>td_runnable := True\<rparr>]\<rparr>"
    have c: "td_cur_group ?d = None" "td_mig_state ?d = MIGRATION_COMPLETED" using th True by (auto simp: thread_ok_def)
    have ok': "lists_ok ?s (length (pm_threads s)) (\<lambda>t. td_cur_group (pm_threads s ! t)) (\<lambda>t. td_sched_app (pm_threads s ! t))
        (\<lambda>t. td_mig_state (pm_threads s ! t) \<noteq> MIGRATION_COMPLETED)" using ok by simp
    obtain s' where s': "on_active_thread ?g t ?s = Some s'"
      "lists_ok s' (length (pm_threads s)) ((\<lambda>t. td_cur_group (pm_threads s ! t))(t := Some ?g)) (\<lambda>t. td_sched_app (pm_threads s ! t))
        (\<lambda>t. td_mig_state (pm_threads s ! t) \<noteq> MIGRATION_COMPLETED)"
      "pm_threads s' = (pm_threads s)[t := ?d\<lparr>td_runnable := True, td_cur_group := Some ?g\<rparr>]"
      "length (pm_groups s') = length (pm_groups s)" "length (pm_apps s') = length (pm_apps s)"
      "pm_security_id s' = pm_security_id s" "pm_group_of_cpu s' = pm_group_of_cpu s"
      using on_active_thread_ok [OF ok' t, of ?g] t c g th by (auto simp: thread_ok_def)
    have inv': "groups_inv s'"
      by (rule groups_inv_step [OF inv t s'(3) _ _ _ s'(4-7)])
        (use s'(2) c th g in \<open>simp_all add: fun_upd_idem thread_ok_def ignore_thread_def\<close>)
    have g': "?g < length (pm_groups s')" using g s'(4) by simp
    have "active_or_inactive (plugin_ops f) k (op_on_active (plugin_ops f)) cpu t ?s = Some s'"
      using s'(1,7) no_signals [OF s'(2) g'] no_profiling [OF _ g'] by (simp add: active_or_inactive_def get_cpu_group_sched_def)
    then have "become_active (plugin_ops f) k cpu t s = Some s'"
      using True t g n by (simp add: become_active_def get_cpu_group_sched_def mem_simps upd_thread_eq)
    then show ?thesis using inv' s'(3-7) True by (simp add: same_frame_def)
  qed
qed

lemma become_inactive_ok:
  assumes inv: "groups_inv s" and t: "t < length (pm_threads s)"
    and a: "\<not> awake (pm_threads s ! t) \<Longrightarrow> td_mig_state (pm_threads s ! t) = MIGRATION_COMPLETED"
    and e: "td_task_state (pm_threads s ! t) = TASK_DEAD \<Longrightarrow> td_state (pm_threads s ! t) = TASK_KILLED"
  shows "\<exists>s'. become_inactive (plugin_ops True) k cpu t s = Some s' \<and> groups_inv s' \<and> same_frame s s' \<and>
    pm_threads s' = (pm_threads s)[t := (if td_runnable (pm_threads s ! t) \<and> \<not> awake (pm_threads s ! t)
      then (pm_threads s ! t)\<lparr>td_runnable := False, td_cur_group := None\<rparr> else pm_threads s ! t)]"
proof -
  let ?d = "pm_threads s ! t"
  note ok = groups_invD(1) [OF inv] and th = groups_invD(2) [OF inv t]
  have cpu: "pm_group_of_cpu s cpu < length (pm_groups s)" by (rule groups_invD(3) [OF inv])
  show ?thesis
  proof (cases "td_runnable ?d \<and> \<not> awake ?d")
    case False
    then show ?thesis using inv t by (auto simp: become_inactive_def mem_simps)
  next
    case True
    then obtain g where g: "td_cur_group ?d = Some g" "g < length (pm_groups s)" using th by (auto simp: thread_ok_def)
    have m: "td_mig_state ?d = MIGRATION_COMPLETED" using a True by blast
    let ?s = "s\<lparr>pm_threads := (pm_threads s)[t := ?d\<lparr>td_runnable := False\<rparr>]\<rparr>"
    have ok': "lists_ok ?s (length (pm_threads s)) (\<lambda>t. td_cur_group (pm_threads s ! t)) (\<lambda>t. td_sched_app (pm_threads s ! t))
        (\<lambda>t. td_mig_state (pm_threads s ! t) \<noteq> MIGRATION_COMPLETED)" using ok by simp
    obtain s' where s': "on_inactive_thread True t ?s = Some s'"
      "lists_ok s' (length (pm_threads s)) ((\<lambda>t. td_cur_group (pm_threads s ! t))(t := None)) (\<lambda>t. td_sched_app (pm_threads s ! t))
        (\<lambda>t. td_mig_state (pm_threads s ! t) \<noteq> MIGRATION_COMPLETED)"
      "pm_threads s' = (pm_threads s)[t := ?d\<lparr>td_runnable := False, td_cur_group := None\<rparr>]"
      "length (pm_groups s') = length (pm_groups s)" "length (pm_apps s') = length (pm_apps s)"
      "pm_security_id s' = pm_security_id s" "pm_group_of_cpu s' = pm_group_of_cpu s"
      using on_inactive_thread_ok [OF ok' t, of g True] t m g th by (auto simp: thread_ok_def)
    have inv': "groups_inv s'"
      by (rule groups_inv_step [OF inv t s'(3) _ _ _ s'(4-7)])
        (use s'(2) m th in \<open>simp_all add: fun_upd_idem thread_ok_def ignore_thread_def\<close>)
    have g': "pm_group_of_cpu s cpu < length (pm_groups s')" using cpu s'(4) by simp
    have "active_or_inactive (plugin_ops True) k (op_on_inactive (plugin_ops True)) cpu t ?s = Some s'"
      using s'(1,7) no_signals [OF s'(2) g'] no_profiling [OF _ g'] by (simp add: active_or_inactive_def get_cpu_group_sched_def)
    moreover have "euthanasia (plugin_ops True) cpu t s = Some (s, False)" using e t by (auto simp: euthanasia_def mem_simps)
    ultimately have "become_inactive (plugin_ops True) k cpu t s = Some s'"
      using True t by (simp add: become_inactive_def mem_simps upd_thread_eq)
    then show ?thesis using inv' s'(3-7) True by (simp add: same_frame_def)
  qed
qed

lemma leave_migration_inv:
  assumes inv: "groups_inv s" and t: "t < length (pm_threads s)" "td_cur_group (pm_threads s ! t) = Some g"
    and m: "td_mig_state (pm_threads s ! t) \<noteq> MIGRATION_COMPLETED"
  shows "\<exists>s'. leave_migration g t s = Some s' \<and> groups_inv s' \<and> same_frame s s' \<and>
    pm_threads s' = (pm_threads s)[t := (pm_threads s ! t)\<lparr>td_mig_state := MIGRATION_COMPLETED\<rparr>]"
proof -
  note ok = groups_invD(1) [OF inv] and th = groups_invD(2) [OF inv t(1)]
  have g: "g < length (pm_groups s)" using th t(2) by (simp add: thread_ok_def)
  obtain s' where s': "leave_migration g t s = Some s'"
    "lists_ok s' (length (pm_threads s)) (\<lambda>t. td_cur_group (pm_threads s ! t)) (\<lambda>t. td_sched_app (pm_threads s ! t))
      ((\<lambda>t. td_mig_state (pm_threads s ! t) \<noteq> MIGRATION_COMPLETED)(t := False))"
    "pm_threads s' = (pm_threads s)[t := (pm_threads s ! t)\<lparr>td_mig_state := MIGRATION_COMPLETED\<rparr>]"
    "length (pm_groups s') = length (pm_groups s)" "length (pm_apps s') = length (pm_apps s)"
    "pm_security_id s' = pm_security_id s" "pm_group_of_cpu s' = pm_group_of_cpu s"
    using leave_migration_ok [OF ok t(1) t(1,2) m g] by blast
  have "groups_inv s'"
    by (rule groups_inv_step [OF inv t(1) s'(3) _ _ _ s'(4-7)])
      (use s'(2) th in \<open>simp_all add: fun_upd_idem thread_ok_def ignore_thread_def\<close>)
  then show ?thesis using s' by (simp add: same_frame_def)
qed

text \<open>A thread that is switched in on another CPU enters its group.\<close>

lemma on_migrate_ok:
  assumes inv: "groups_inv s" and t: "t < length (pm_threads s)" and r: "td_cur_group (pm_threads s ! t) \<noteq> None"
  shows "\<exists>s'. on_migrate_thread True cpu t prev s = Some s' \<and> groups_inv s' \<and> same_frame s s' \<and>
    pm_threads s' = (pm_threads s)[t := (if prev = -1 \<or> td_cur_group (pm_threads s ! t) = Some (pm_group_of_cpu s cpu) then pm_threads s ! t
      else (pm_threads s ! t)\<lparr>td_mig_state := MIGRATION_COMPLETED, td_cur_group := Some (pm_group_of_cpu s cpu)\<rparr>)]"
proof -
  let ?d = "pm_threads s ! t" and ?g = "pm_group_of_cpu s cpu"
  have g: "?g < length (pm_groups s)" by (rule groups_invD(3) [OF inv])
  show ?thesis
  proof (cases "prev = -1 \<or> td_cur_group ?d = Some ?g")
    case True
    then show ?thesis using inv t by (auto simp: on_migrate_thread_def mem_simps)
  next
    case False
    obtain old where old: "td_cur_group ?d = Some old" "old \<noteq> ?g" using r False by auto
    have oldl: "old < length (pm_groups s)" using groups_invD(2) [OF inv t] old by (simp add: thread_ok_def)
    let ?l = "if td_mig_state ?d \<noteq> MIGRATION_COMPLETED then leave_migration old t s else Some s"
    let ?d1 = "?d\<lparr>td_mig_state := MIGRATION_COMPLETED\<rparr>"
    obtain s1 where s1: "?l = Some s1" "groups_inv s1" "same_frame s s1" "pm_threads s1 = (pm_threads s)[t := ?d1]"
    proof (cases "td_mig_state ?d = MIGRATION_COMPLETED")
      case True
      then have "?d1 = ?d" by simp
      with True inv show ?thesis by (intro that [of s]) (simp_all only: same_frame_refl list_update_id not_True_eq_False if_False refl simp_thms)
    next
      case False
      then show ?thesis using leave_migration_inv [OF inv t old(1) False] that by (elim exE conjE) simp
    qed
    have t1: "t < length (pm_threads s1)" "pm_threads s1 ! t = ?d1" using t s1(4) by simp_all
    note ok1 = groups_invD(1) [OF s1(2)] and th1 = groups_invD(2) [OF s1(2) t1(1)]
    have f1: "length (pm_groups s1) = length (pm_groups s)" "length (pm_apps s1) = length (pm_apps s)"
      "pm_security_id s1 = pm_security_id s" "pm_group_of_cpu s1 = pm_group_of_cpu s" "length (pm_threads s1) = length (pm_threads s)"
      using s1(3) by (simp_all add: same_frame_def)
    obtain s2 where s2: "on_inactive_thread True t s1 = Some s2"
      "lists_ok s2 (length (pm_threads s1)) ((\<lambda>t. td_cur_group (pm_threads s1 ! t))(t := None)) (\<lambda>t. td_sched_app (pm_threads s1 ! t))
        (\<lambda>t. td_mig_state (pm_threads s1 ! t) \<noteq> MIGRATION_COMPLETED)"
      "pm_threads s2 = (pm_threads s1)[t := ?d1\<lparr>td_cur_group := None\<rparr>]"
      "length (pm_groups s2) = length (pm_groups s1)" "length (pm_apps s2) = length (pm_apps s1)"
      "pm_security_id s2 = pm_security_id s1" "pm_group_of_cpu s2 = pm_group_of_cpu s1"
      using on_inactive_thread_ok [OF ok1 t1(1) t1(1), of old True] t1(2) old oldl f1 th1 by (auto simp: thread_ok_def)
    have t2: "t < length (pm_threads s2)" "pm_threads s2 ! t = ?d1\<lparr>td_cur_group := None\<rparr>" using t1 s2(3) by simp_all
    obtain s3 where s3: "on_active_thread ?g t s2 = Some s3"
      "lists_ok s3 (length (pm_threads s1)) ((\<lambda>t. td_cur_group (pm_threads s1 ! t))(t := None, t := Some ?g)) (\<lambda>t. td_sched_app (pm_threads s1 ! t))
        (\<lambda>t. td_mig_state (pm_threads s1 ! t) \<noteq> MIGRATION_COMPLETED)"
      "pm_threads s3 = (pm_threads s2)[t := ?d1\<lparr>td_cur_group := None, td_cur_group := Some ?g\<rparr>]"
      "length (pm_groups s3) = length (pm_groups s2)" "length (pm_apps s3) = length (pm_apps s2)"
      "pm_security_id s3 = pm_security_id s2" "pm_group_of_cpu s3 = pm_group_of_cpu s2"
      using on_active_thread_ok [OF s2(2) t1(1) t2(1), of ?g] t1(2) t2(2) g f1 s2(4,5) th1 by (auto simp: thread_ok_def)
    have p3: "pm_threads s3 = (pm_threads s1)[t := ?d1\<lparr>td_cur_group := Some ?g\<rparr>]" using s3(3) s2(3) by simp
    have inv3: "groups_inv s3"
      by (rule groups_inv_step [OF s1(2) t1(1) p3])
        (use s3 s2 s1 t1 th1 g f1 old in \<open>simp_all add: fun_upd_idem thread_ok_def ignore_thread_def\<close>)
    have "on_migrate_thread True cpu t prev s = Some s3"
      using False old t s1(1) s2(1) s3(1) by (simp add: on_migrate_thread_def mem_simps)
    moreover have "same_frame s s3" using f1 s2(3-7) s3(3-7) by (simp add: same_frame_def)
    ultimately show ?thesis using inv3 p3 s1(4) False by simp
  qed
qed

section \<open>Sequences of events\<close>

text \<open>What the kernel does to the threads of a machine under the group plugin: \<open>Switch_in t cpu\<close> runs a thread on a CPU,
  \<open>Switch_out t cpu st\<close> takes it off, preempted (\<open>TASK_RUNNING\<close>), asleep or dead; \<open>Exit\<close> is the call made when it ends, before it is
  dead. \<open>Timer\<close> and \<open>Kthread\<close> are the periodic functions of a group, \<open>rnd\<close> the random numbers.\<close>

datatype sched_event = Switch_in nat nat | Switch_out nat nat task_state | Exit nat nat | Timer nat "nat \<Rightarrow> nat" | Kthread nat

definition set_task_state :: "nat \<Rightarrow> task_state \<Rightarrow> pmcsched \<Rightarrow> pmcsched option" where
  "set_task_state t st = upd_thread t (\<lambda>d. d\<lparr>td_task_state := st\<rparr>)"

definition do_event :: "kernel \<Rightarrow> sched_event \<Rightarrow> pmcsched \<Rightarrow> pmcsched option" where
  "do_event k e s = (case e of
     Switch_in t cpu \<Rightarrow> do { s \<leftarrow> set_task_state t TASK_RUNNING s; sched_restore group_plugin k cpu t s }
   | Switch_out t cpu st \<Rightarrow> do { s \<leftarrow> set_task_state t st s; pmcsched_on_switch_out group_plugin k cpu t s }
   | Exit t cpu \<Rightarrow> pmcsched_on_exit group_plugin cpu t s
   | Timer g rnd \<Rightarrow> map_option fst (sched_timer_periodic (Some (sched_timer_periodic_group rnd g)) True g s)
   | Kthread g \<Rightarrow> periodic_scheduling group_plugin k (Some (\<lambda>s. map_option fst (sched_kthread_periodic g s))) g s)"

text \<open>A thread does not run again once it is dead; it dies only after its exit, which comes once, after it has run. The random
  numbers give another group in the end. Two conditions are not guaranteed by the code: a thread that is to be moved is switched
  in before it sleeps or dies, and before the kernel thread of its group looks at it a second time.\<close>

definition allowed :: "sched_event \<Rightarrow> pmcsched \<Rightarrow> bool" where
  "allowed e s = (case e of
     Switch_in t cpu \<Rightarrow> t < length (pm_threads s) \<and> td_task_state (pm_threads s ! t) \<noteq> TASK_DEAD
   | Switch_out t cpu st \<Rightarrow> t < length (pm_threads s) \<and> td_task_state (pm_threads s ! t) = TASK_RUNNING \<and>
       (st = TASK_RUNNING \<or> td_mig_state (pm_threads s ! t) = MIGRATION_COMPLETED) \<and>
       (st = TASK_DEAD \<longrightarrow> td_state (pm_threads s ! t) = TASK_KILLED)
   | Exit t cpu \<Rightarrow> t < length (pm_threads s) \<and> td_task_state (pm_threads s ! t) = TASK_RUNNING \<and>
       \<not> td_first_time (pm_threads s ! t) \<and> td_state (pm_threads s ! t) \<noteq> TASK_KILLED
   | Timer g rnd \<Rightarrow> g < length (pm_groups s) \<and> random_group rnd (length (pm_groups s)) g 0 \<noteq> None
   | Kthread g \<Rightarrow> g < length (pm_groups s) \<and>
       list_all (\<lambda>t. td_mig_state (pm_threads s ! t) \<noteq> MIGRATION_STARTED) (sl_nodes (sg_migration_list (pm_groups s ! g))))"

fun run_events :: "kernel \<Rightarrow> sched_event list \<Rightarrow> pmcsched \<Rightarrow> pmcsched option" where
  "run_events k [] s = Some s"
| "run_events k (e # es) s = do { s \<leftarrow> do_event k e s; run_events k es s }"

fun run_allowed :: "kernel \<Rightarrow> sched_event list \<Rightarrow> pmcsched \<Rightarrow> bool" where
  "run_allowed k [] s = True"
| "run_allowed k (e # es) s = (allowed e s \<and> (case do_event k e s of Some s' \<Rightarrow> run_allowed k es s' | None \<Rightarrow> True))"

text \<open>An update of the fields the lists do not depend on.\<close>

lemma upd_ok:
  assumes "groups_inv s" and "t < length (pm_threads s)"
    and "thread_ok s (f (pm_threads s ! t))" "td_sched_app (f (pm_threads s ! t)) = td_sched_app (pm_threads s ! t)"
      "td_cur_group (f (pm_threads s ! t)) = td_cur_group (pm_threads s ! t)"
      "td_mig_state (f (pm_threads s ! t)) = td_mig_state (pm_threads s ! t)"
  shows "\<exists>s'. upd_thread t f s = Some s' \<and> groups_inv s' \<and> same_frame s s' \<and> pm_threads s' = (pm_threads s)[t := f (pm_threads s ! t)]"
  using groups_inv_upd [where f = f, OF assms(1-5)] assms(6) by (auto simp: same_frame_def)

lemma not_ignored: "groups_inv s \<Longrightarrow> t < length (pm_threads s) \<Longrightarrow> \<not> ignore_thread s (pm_threads s ! t)"
  using groups_invD(2) by (auto simp: thread_ok_def)

lemma switch_in_ok:
  assumes inv: "groups_inv s" and t: "t < length (pm_threads s)" and r: "td_task_state (pm_threads s ! t) = TASK_RUNNING"
  shows "\<exists>s'. sched_restore (plugin_ops True) k cpu t s = Some s' \<and> groups_inv s' \<and> same_frame s s'"
proof -
  let ?d = "pm_threads s ! t"
  let ?f = "\<lambda>d. d\<lparr>td_first_time := False\<rparr>" and ?h = "\<lambda>d. if \<not> td_actually_runnable d \<and> awake d then d\<lparr>td_actually_runnable := True\<rparr> else d"
  have hk: "td_sched_app (?h d) = td_sched_app d" "td_cur_group (?h d) = td_cur_group d" "td_mig_state (?h d) = td_mig_state d" for d by simp_all
  have tr: "trace_runnable t True = upd_thread t ?h" by (simp add: trace_runnable_def)
  have th: "thread_ok s ?d" by (rule groups_invD(2) [OF inv t])
  have b1: "thread_ok s (?f ?d)" using th by (simp add: thread_ok_def ignore_thread_def)
  obtain s1 where s1: "upd_thread t ?f s = Some s1" "groups_inv s1" "same_frame s s1" "pm_threads s1 = (pm_threads s)[t := ?f ?d]"
    using upd_ok [where f = ?f, OF inv t b1] by auto
  have t1: "t < length (pm_threads s1)" "pm_threads s1 ! t = ?f ?d" using t s1(4) by simp_all
  have b2: "thread_ok s1 (?h (pm_threads s1 ! t))"
    using groups_invD(2) [OF s1(2) t1(1)] by (simp add: thread_ok_def ignore_thread_def)
  obtain s2 where s2: "trace_runnable t True s1 = Some s2" "groups_inv s2" "same_frame s1 s2" "pm_threads s2 = (pm_threads s1)[t := ?h (pm_threads s1 ! t)]"
    using upd_ok [where f = ?h, OF s1(2) t1(1) b2 hk] by (elim exE conjE) (rule that, simp_all only: tr)
  have t2: "t < length (pm_threads s2)" "awake (pm_threads s2 ! t)" using t1 s2(4) r by (simp_all add: awake_def)
  obtain s3 where s3: "become_active (plugin_ops True) k cpu t s2 = Some s3" "groups_inv s3" "same_frame s2 s3"
    "pm_threads s3 = (pm_threads s2)[t := (if \<not> td_runnable (pm_threads s2 ! t) \<and> awake (pm_threads s2 ! t)
      then (pm_threads s2 ! t)\<lparr>td_runnable := True, td_cur_group := Some (pm_group_of_cpu s2 cpu)\<rparr> else pm_threads s2 ! t)]"
    using become_active_ok [OF s2(2) t2(1)] by blast
  have t3: "t < length (pm_threads s3)" using t2(1) s3(4) by simp
  have r3: "td_cur_group (pm_threads s3 ! t) \<noteq> None"
  proof -
    have "td_runnable (pm_threads s3 ! t)" using s3(4) t2 by simp
    then show ?thesis using groups_invD(2) [OF s3(2) t3] by (simp add: thread_ok_def)
  qed
  have sw: "pmcsched_on_switch_in (plugin_ops True) k cpu t s = Some s3"
    using s1(1) s2(1) s3(1) t not_ignored [OF inv t] by (simp add: pmcsched_on_switch_in_def mem_simps)
  let ?d3 = "pm_threads s3 ! t"
  have "\<exists>s4. (if td_last_cpu ?d3 \<noteq> int cpu then pmcsched_on_migrate (plugin_ops True) t (td_last_cpu ?d3) cpu s3 else Some s3) = Some s4 \<and>
      groups_inv s4 \<and> same_frame s3 s4"
    using on_migrate_ok [OF s3(2) t3 r3, of cpu "td_last_cpu ?d3"] s3(2) by (auto simp: pmcsched_on_migrate_def)
  then obtain s4 where s4: "(if td_last_cpu ?d3 \<noteq> int cpu then pmcsched_on_migrate (plugin_ops True) t (td_last_cpu ?d3) cpu s3 else Some s3) = Some s4"
    "groups_inv s4" "same_frame s3 s4" by blast
  have t4: "t < length (pm_threads s4)" using t3 s4(3) by (simp add: same_frame_def)
  have b4: "thread_ok s4 ((pm_threads s4 ! t)\<lparr>td_last_cpu := int cpu\<rparr>)"
    using groups_invD(2) [OF s4(2) t4] by (simp add: thread_ok_def ignore_thread_def)
  obtain s5 where s5: "upd_thread t (\<lambda>d. d\<lparr>td_last_cpu := int cpu\<rparr>) s4 = Some s5" "groups_inv s5" "same_frame s4 s5"
    using upd_ok [where f = "\<lambda>d. d\<lparr>td_last_cpu := int cpu\<rparr>", OF s4(2) t4 b4] by auto
  have "sched_restore (plugin_ops True) k cpu t s = Some s5"
    unfolding sched_restore_def using sw s4(1) s5(1) t3 by (simp add: mem_simps)
  moreover have "same_frame s s5" using s1(3) s2(3) s3(3) s4(3) s5(3) by (simp add: same_frame_def)
  ultimately show ?thesis using s5(2) by blast
qed

lemma switch_out_ok:
  assumes inv: "groups_inv s" and t: "t < length (pm_threads s)"
    and a: "\<not> awake (pm_threads s ! t) \<Longrightarrow> td_mig_state (pm_threads s ! t) = MIGRATION_COMPLETED"
    and e: "td_task_state (pm_threads s ! t) = TASK_DEAD \<Longrightarrow> td_state (pm_threads s ! t) = TASK_KILLED"
  shows "\<exists>s'. pmcsched_on_switch_out (plugin_ops True) k cpu t s = Some s' \<and> groups_inv s' \<and> same_frame s s'"
proof -
  let ?d = "pm_threads s ! t"
  let ?h = "\<lambda>d. if td_actually_runnable d \<and> \<not> awake d then d\<lparr>td_actually_runnable := False\<rparr> else d"
  have hk: "td_sched_app (?h d) = td_sched_app d" "td_cur_group (?h d) = td_cur_group d" "td_mig_state (?h d) = td_mig_state d" for d by simp_all
  have tr: "trace_runnable t False = upd_thread t ?h" by (simp add: trace_runnable_def)
  have th: "thread_ok s ?d" by (rule groups_invD(2) [OF inv t])
  have b1: "thread_ok s (?h ?d)" using th by (simp add: thread_ok_def ignore_thread_def)
  obtain s1 where s1: "trace_runnable t False s = Some s1" "groups_inv s1" "same_frame s s1" "pm_threads s1 = (pm_threads s)[t := ?h ?d]"
    using upd_ok [where f = ?h, OF inv t b1 hk] by (elim exE conjE) (rule that, simp_all only: tr)
  have t1: "t < length (pm_threads s1)" using t s1(4) by simp
  have k1: "awake (pm_threads s1 ! t) = awake ?d" "td_mig_state (pm_threads s1 ! t) = td_mig_state ?d"
    "td_task_state (pm_threads s1 ! t) = td_task_state ?d" "td_state (pm_threads s1 ! t) = td_state ?d"
    using s1(4) t by (simp_all add: awake_def)
  obtain s2 where s2: "become_inactive (plugin_ops True) k cpu t s1 = Some s2" "groups_inv s2" "same_frame s1 s2"
    using become_inactive_ok [OF s1(2) t1, of k cpu] a e k1 by auto
  have "pmcsched_on_switch_out (plugin_ops True) k cpu t s = Some s2"
    using s1(1) s2(1) t not_ignored [OF inv t] by (simp add: pmcsched_on_switch_out_def mem_simps)
  then show ?thesis using s2(2) same_frame_trans [OF s1(3) s2(3)] by blast
qed

lemma exit_ok:
  assumes inv: "groups_inv s" and t: "t < length (pm_threads s)"
    and a: "td_task_state (pm_threads s ! t) = TASK_RUNNING" "\<not> td_first_time (pm_threads s ! t)" "td_state (pm_threads s ! t) \<noteq> TASK_KILLED"
  shows "\<exists>s'. pmcsched_on_exit (plugin_ops True) cpu t s = Some s' \<and> groups_inv s' \<and> same_frame s s'"
proof -
  let ?d = "pm_threads s ! t"
  let ?f = "\<lambda>d. d\<lparr>td_first_time := td_first_time d \<and> \<not> False\<rparr>" and ?e = "\<lambda>d. d\<lparr>td_exiting := True\<rparr>" and ?k = "\<lambda>d. d\<lparr>td_state := TASK_KILLED\<rparr>"
  have th: "thread_ok s ?d" by (rule groups_invD(2) [OF inv t])
  have b1: "thread_ok s (?f ?d)" using th by (simp add: thread_ok_def ignore_thread_def)
  obtain s1 where s1: "upd_thread t ?f s = Some s1" "groups_inv s1" "same_frame s s1" "pm_threads s1 = (pm_threads s)[t := ?f ?d]"
    using upd_ok [where f = ?f, OF inv t b1] by auto
  have t1: "t < length (pm_threads s1)" using t s1(4) by simp
  have b2: "thread_ok s1 (?e (pm_threads s1 ! t))" using groups_invD(2) [OF s1(2) t1] by (simp add: thread_ok_def ignore_thread_def)
  obtain s2 where s2: "upd_thread t ?e s1 = Some s2" "groups_inv s2" "same_frame s1 s2" "pm_threads s2 = (pm_threads s1)[t := ?e (pm_threads s1 ! t)]"
    using upd_ok [where f = ?e, OF s1(2) t1 b2] by auto
  have t2: "t < length (pm_threads s2)" using t1 s2(4) by simp
  let ?d2 = "pm_threads s2 ! t"
  have "\<exists>s3. on_exit_thread cpu t s2 = Some s3 \<and> groups_inv s3 \<and> same_frame s2 s3"
  proof (cases "td_mig_state ?d2 = MIGRATION_COMPLETED")
    case True
    then show ?thesis using s2(2) t2 by (cases "td_cur_group ?d2") (simp_all add: on_exit_thread_def mem_simps)
  next
    case False
    then obtain g where g: "td_cur_group ?d2 = Some g" using groups_invD(2) [OF s2(2) t2] by (auto simp: thread_ok_def)
    show ?thesis using leave_migration_inv [OF s2(2) t2 g False] g False t2 by (auto simp: on_exit_thread_def mem_simps)
  qed
  then obtain s3 where s3: "on_exit_thread cpu t s2 = Some s3" "groups_inv s3" "same_frame s2 s3" by blast
  have t3: "t < length (pm_threads s3)" using t2 s3(3) by (simp add: same_frame_def)
  have b3: "thread_ok s3 (?k (pm_threads s3 ! t))" using groups_invD(2) [OF s3(2) t3] by (simp add: thread_ok_def ignore_thread_def)
  obtain s4 where s4: "upd_thread t ?k s3 = Some s4" "groups_inv s4" "same_frame s3 s4"
    using upd_ok [where f = ?k, OF s3(2) t3 b3] by auto
  have "td_state ?d \<noteq> KILL_PENDING" "td_prof_enabled ?d" using th by (auto simp: thread_ok_def ignore_thread_def)
  then have "pmcsched_on_exit (plugin_ops True) cpu t s = Some s4"
    using s1(1) s2(1) s3(1) s4(1) t a by (simp add: pmcsched_on_exit_def mem_simps dead_task_def pmcsched_set_state_def)
  moreover have "same_frame s s4" using s1(3) s2(3) s3(3) s4(3) by (simp add: same_frame_def)
  ultimately show ?thesis using s4(2) by blast
qed

text \<open>Flags of a group the lists do not depend on.\<close>

lemma put_group_ok:
  assumes inv: "groups_inv s" and g: "g < length (pm_groups s)"
    and f: "sg_active_threads grp = sg_active_threads (pm_groups s ! g)" "sg_active_apps grp = sg_active_apps (pm_groups s ! g)"
      "sg_migration_list grp = sg_migration_list (pm_groups s ! g)" "sg_pending_signals_list grp = sg_pending_signals_list (pm_groups s ! g)"
      "sg_scheduling_mode grp = sg_scheduling_mode (pm_groups s ! g)"
  shows "\<exists>s'. put_group g grp s = Some s' \<and> groups_inv s' \<and> same_frame s s' \<and> pm_threads s' = pm_threads s \<and> pm_groups s' = (pm_groups s)[g := grp]"
proof -
  let ?s = "s\<lparr>pm_groups := (pm_groups s)[g := grp]\<rparr>"
  have e: "x ((pm_groups s)[g := grp] ! h) = x (pm_groups s ! h)" if "x grp = x (pm_groups s ! g)" for x :: "sched_thread_group \<Rightarrow> 'z" and h
    using that g by (cases "h = g") simp_all
  have "lists_ok ?s n c ap mg = lists_ok s n c ap mg" for n c ap mg
    unfolding lists_ok_def by (simp add: e [OF f(1)] e [OF f(2)] e [OF f(3)] e [OF f(4)] e [OF f(5)])
  moreover have "thread_ok ?s d = thread_ok s d" for d by (simp add: thread_ok_def ignore_thread_def)
  ultimately have "groups_inv ?s" using inv by (simp add: groups_inv_def)
  then show ?thesis using g by (simp add: put_group_eq same_frame_def)
qed

lemma head_member: "list_is l A \<Longrightarrow> head_sized_list l = Some x \<Longrightarrow> x \<in> A"
  by (auto simp: list_is_def head_sized_list_def split: list.splits)

lemma head_exists: "list_is l A \<Longrightarrow> A \<noteq> {} \<Longrightarrow> \<exists>x. head_sized_list l = Some x"
  by (auto simp: list_is_def head_sized_list_def split: list.splits)

lemma random_group_other:
  assumes "random_group rnd n g i = Some h"
  shows "h < n \<and> h \<noteq> g"
proof (rule random_group.raw_induct [OF _ assms])
  fix f and rnd :: "nat \<Rightarrow> nat" and n g i h
  assume IH: "\<And>rnd n g i h. f rnd n g i = Some h \<Longrightarrow> h < n \<and> h \<noteq> g"
    and h: "(if n = 0 then None else if rnd i mod n = g then f rnd n g (i + 1) else Some (rnd i mod n)) = Some h"
  show "h < n \<and> h \<noteq> g" using h IH [of rnd n g "i + 1" h] by (auto split: if_splits)
qed

lemma timer_group_ok:
  assumes inv: "groups_inv s" and g: "g < length (pm_groups s)" and r: "random_group rnd (length (pm_groups s)) g 0 \<noteq> None"
  shows "\<exists>s'. sched_timer_periodic_group rnd g s = Some s' \<and> groups_inv s' \<and> same_frame s s'"
proof (cases "head_sized_list (sg_active_apps (pm_groups s ! g))")
  case None
  then show ?thesis using inv g by (simp add: sched_timer_periodic_group_def mem_simps)
next
  case (Some p)
  note ok = groups_invD(1) [OF inv]
  note L = lists_okD [OF ok g]
  obtain u where u: "u < length (pm_threads s)" "snd p = g" "td_cur_group (pm_threads s ! u) = Some g" "td_sched_app (pm_threads s ! u) = fst p"
    using head_member [OF L(2) Some] by auto
  have a: "fst p < length (pm_apps s)" using groups_invD(2) [OF inv u(1)] u(4) by (auto simp: thread_ok_def)
  have ga: "g < length (pm_apps s ! fst p)" using L(7) [OF a] g by simp
  let ?s = "s\<lparr>pm_migration_counter := 0\<rparr>"
  have cnt: "groups_inv (s\<lparr>pm_migration_counter := i\<rparr>)" for i
    using inv by (simp add: groups_inv_def thread_ok_def ignore_thread_def)
  show ?thesis
  proof (cases "pm_migration_counter s + 1 = 3")
    case False
    then show ?thesis using Some g cnt [of "pm_migration_counter s + 1"]
      by (simp add: sched_timer_periodic_group_def mem_simps same_frame_def)
  next
    case True
    note inv0 = cnt [of 0]
    have "{v. v < length (pm_threads s) \<and> td_cur_group (pm_threads s ! v) = Some g \<and> td_sched_app (pm_threads s ! v) = fst p} \<noteq> {}"
      using u by blast
    then obtain t where hd: "head_sized_list (pa_active_threads (pm_apps s ! fst p ! g)) = Some t"
      using head_exists [OF L(6) [OF a]] by blast
    have t: "t < length (pm_threads s)" "td_cur_group (pm_threads s ! t) = Some g"
      using head_member [OF L(6) [OF a] hd] by auto
    let ?d = "pm_threads s ! t"
    obtain h where h1: "random_group rnd (length (pm_groups s)) g 0 = Some h" using r by blast
    then have h: "random_group rnd (length (pm_groups s)) g 0 = Some h" "h < length (pm_groups s)" using random_group_other by auto
    have "\<exists>s1. (if td_mig_state ?d = MIGRATION_COMPLETED then request_migration g h t ?s else Some ?s) = Some s1 \<and> groups_inv s1 \<and> same_frame s s1"
    proof (cases "td_mig_state ?d = MIGRATION_COMPLETED")
      case False
      then show ?thesis using inv0 by (simp add: same_frame_def)
    next
      case m: True
      let ?d' = "?d\<lparr>td_mig_state := MIGRATION_REQUESTED, td_dst_group := h, td_src_group := g\<rparr>"
      have ok0: "lists_ok ?s (length (pm_threads s)) (\<lambda>t. td_cur_group (pm_threads s ! t)) (\<lambda>t. td_sched_app (pm_threads s ! t))
        (\<lambda>t. td_mig_state (pm_threads s ! t) \<noteq> MIGRATION_COMPLETED)" using ok by simp
      obtain s' where s': "request_migration g h t ?s = Some s'"
        "lists_ok s' (length (pm_threads s)) (\<lambda>t. td_cur_group (pm_threads s ! t)) (\<lambda>t. td_sched_app (pm_threads s ! t))
          ((\<lambda>t. td_mig_state (pm_threads s ! t) \<noteq> MIGRATION_COMPLETED)(t := True))"
        "pm_threads s' = (pm_threads s)[t := ?d']"
        "length (pm_groups s') = length (pm_groups s)" "length (pm_apps s') = length (pm_apps s)"
        "pm_security_id s' = pm_security_id s" "pm_group_of_cpu s' = pm_group_of_cpu s"
        using request_migration_ok [OF ok0 t(1), of g h] t m g by auto
      have "groups_inv s'"
        by (rule groups_inv_step [OF inv t(1) s'(3) _ _ _ s'(4-7)])
          (use s'(2) t h(2) groups_invD(2) [OF inv t(1)] in \<open>simp_all add: fun_upd_idem thread_ok_def ignore_thread_def\<close>)
      then show ?thesis using s' m by (simp add: same_frame_def)
    qed
    then obtain s1 where s1: "(if td_mig_state ?d = MIGRATION_COMPLETED then request_migration g h t ?s else Some ?s) = Some s1"
      "groups_inv s1" "same_frame s s1" by blast
    have g1: "g < length (pm_groups s1)" using g s1(3) by (simp add: same_frame_def)
    obtain s2 where s2: "put_group g ((pm_groups s1 ! g)\<lparr>sg_activate_kthread := True\<rparr>) s1 = Some s2" "groups_inv s2" "same_frame s1 s2"
      using put_group_ok [OF s1(2) g1, of "(pm_groups s1 ! g)\<lparr>sg_activate_kthread := True\<rparr>"] by auto
    have "sched_timer_periodic_group rnd g s = Some s2"
    proof (cases "td_mig_state ?d = MIGRATION_COMPLETED")
      case m: True
      then show ?thesis using Some True g g1 a ga hd t(1) h(1) s1(1) s2(1) u(2)
        by (simp add: sched_timer_periodic_group_def mem_simps get_app_eq)
    next
      case m: False
      then have e: "s1 = ?s" using s1(1) by simp
      show ?thesis using Some True g g1 a ga hd t(1) h(1) s2(1) u(2) m unfolding e
        by (simp add: sched_timer_periodic_group_def mem_simps get_app_eq)
    qed
    then show ?thesis using s2(2) same_frame_trans [OF s1(3) s2(3)] by blast
  qed
qed

lemma kthread_loop_ok:
  assumes "groups_inv s" and "g < length (pm_groups s)" and "distinct ts"
    and "\<forall>t\<in>set ts. t < length (pm_threads s) \<and> td_mig_state (pm_threads s ! t) = MIGRATION_REQUESTED"
  shows "\<exists>s' m. kthread_loop g ts moved s = Some (s', m) \<and> groups_inv s' \<and> same_frame s s'"
  using assms
proof (induction ts arbitrary: s moved)
  case Nil
  then show ?case by simp
next
  case (Cons t ts)
  let ?d = "pm_threads s ! t" and ?f = "\<lambda>d. d\<lparr>td_mig_state := MIGRATION_STARTED\<rparr>"
  have t: "t < length (pm_threads s)" "td_mig_state ?d = MIGRATION_REQUESTED" using Cons.prems(4) by simp_all
  have th: "thread_ok s ?d" by (rule groups_invD(2) [OF Cons.prems(1) t(1)])
  have b: "thread_ok s (?f ?d)" using th t(2) by (simp add: thread_ok_def ignore_thread_def)
  obtain s1 where s1: "upd_thread t ?f s = Some s1" "groups_inv s1" "s1 = s\<lparr>pm_threads := (pm_threads s)[t := ?f ?d]\<rparr>"
    using groups_inv_upd [where f = ?f, OF Cons.prems(1) t(1) b] t(2) by auto
  have f1: "same_frame s s1" using s1(3) by (simp add: same_frame_def)
  have g1: "g < length (pm_groups s1)" using Cons.prems(2) s1(3) by simp
  have l: "\<forall>u\<in>set ts. u < length (pm_threads s1) \<and> td_mig_state (pm_threads s1 ! u) = MIGRATION_REQUESTED"
  proof
    fix u assume u: "u \<in> set ts"
    then have "u \<noteq> t" using Cons.prems(3) by auto
    then show "u < length (pm_threads s1) \<and> td_mig_state (pm_threads s1 ! u) = MIGRATION_REQUESTED" using u Cons.prems(4) s1(3) by simp
  qed
  have ds: "distinct ts" using Cons.prems(3) by simp
  obtain s' m where s': "kthread_loop g ts (moved @ [t]) s1 = Some (s', m)" "groups_inv s'" "same_frame s1 s'"
    using Cons.IH [OF s1(2) g1 ds l, of "moved @ [t]"] by blast
  have "td_dst_group ?d < length (pm_groups s)" using th t(2) by (simp add: thread_ok_def)
  then have "kthread_loop g (t # ts) moved s = Some (s', m)" using t s1(1) s'(1) by (simp add: mem_simps)
  then show ?case using s'(2) same_frame_trans [OF f1 s'(3)] by blast
qed

lemma kthread_ok:
  assumes inv: "groups_inv s" and g: "g < length (pm_groups s)"
    and a: "list_all (\<lambda>t. td_mig_state (pm_threads s ! t) \<noteq> MIGRATION_STARTED) (sl_nodes (sg_migration_list (pm_groups s ! g)))"
  shows "\<exists>s' m. sched_kthread_periodic g s = Some (s', m) \<and> groups_inv s' \<and> same_frame s s'"
proof -
  let ?l = "sl_nodes (sg_migration_list (pm_groups s ! g))"
  have L: "list_is (sg_migration_list (pm_groups s ! g)) {t. t < length (pm_threads s) \<and> td_cur_group (pm_threads s ! t) = Some g \<and>
      td_mig_state (pm_threads s ! t) \<noteq> MIGRATION_COMPLETED}" by (rule lists_okD(3) [OF groups_invD(1) [OF inv] g])
  have d: "distinct ?l" using L by (simp add: list_is_def sl_wf_def)
  have e: "t < length (pm_threads s) \<and> td_mig_state (pm_threads s ! t) = MIGRATION_REQUESTED" if "t \<in> set ?l" for t
  proof -
    have "t < length (pm_threads s) \<and> td_mig_state (pm_threads s ! t) \<noteq> MIGRATION_COMPLETED" using that L by (simp add: list_is_def)
    moreover have "td_mig_state (pm_threads s ! t) \<noteq> MIGRATION_STARTED" using that a by (simp add: list_all_iff)
    ultimately show ?thesis by (cases "td_mig_state (pm_threads s ! t)") simp_all
  qed
  have m: "\<forall>t\<in>set ?l. t < length (pm_threads s) \<and> td_mig_state (pm_threads s ! t) = MIGRATION_REQUESTED" using e by blast
  show ?thesis using kthread_loop_ok [OF inv g d m, of "[]"] g by (simp add: sched_kthread_periodic_def mem_simps)
qed

lemma periodic_scheduling_ok:
  assumes inv: "groups_inv s" and g: "g < length (pm_groups s)"
    and a: "list_all (\<lambda>t. td_mig_state (pm_threads s ! t) \<noteq> MIGRATION_STARTED) (sl_nodes (sg_migration_list (pm_groups s ! g)))"
  shows "\<exists>s'. periodic_scheduling (plugin_ops True) k (Some (\<lambda>s. map_option fst (sched_kthread_periodic g s))) g s = Some s' \<and>
    groups_inv s' \<and> same_frame s s'"
proof -
  obtain s' m where s': "sched_kthread_periodic g s = Some (s', m)" "groups_inv s'" "same_frame s s'" using kthread_ok [OF assms] by blast
  have g': "g < length (pm_groups s')" using g s'(3) by (simp add: same_frame_def)
  have n: "sg_scheduling_mode (pm_groups s ! g) = NORMAL" by (rule lists_okD(5) [OF groups_invD(1) [OF inv] g])
  show ?thesis using s' n no_profiling [OF _ g', of "plugin_ops True"] no_signals [OF groups_invD(1) [OF s'(2)] g'] g
    by (simp add: periodic_scheduling_def mem_simps)
qed

lemma timer_ok:
  assumes inv: "groups_inv s" and g: "g < length (pm_groups s)" and r: "random_group rnd (length (pm_groups s)) g 0 \<noteq> None"
  shows "\<exists>s' b. sched_timer_periodic (Some (sched_timer_periodic_group rnd g)) True g s = Some (s', b) \<and> groups_inv s' \<and> same_frame s s'"
proof -
  obtain s1 where s1: "put_group g ((pm_groups s ! g)\<lparr>sg_force_activate_timer := False\<rparr>) s = Some s1" "groups_inv s1" "same_frame s s1"
    using put_group_ok [OF inv g, of "(pm_groups s ! g)\<lparr>sg_force_activate_timer := False\<rparr>"] by auto
  have l1: "length (pm_groups s1) = length (pm_groups s)" using s1(3) by (simp add: same_frame_def)
  obtain s2 where s2: "sched_timer_periodic_group rnd g s1 = Some s2" "groups_inv s2" "same_frame s1 s2"
    using timer_group_ok [OF s1(2), of g rnd] g r l1 by auto
  have g2: "g < length (pm_groups s2)" using g l1 s2(3) by (simp add: same_frame_def)
  obtain s3 where s3: "put_group g ((pm_groups s2 ! g)\<lparr>sg_activate_kthread := False\<rparr>) s2 = Some s3" "groups_inv s3" "same_frame s2 s3"
    using put_group_ok [OF s2(2) g2, of "(pm_groups s2 ! g)\<lparr>sg_activate_kthread := False\<rparr>"] by auto
  have f: "same_frame s s2" "same_frame s s3" using s1(3) s2(3) s3(3) by (simp_all add: same_frame_def)
  show ?thesis
    using s1(1) s2(1,2) s3(1,2) f g g2 by (cases "sg_activate_kthread (pm_groups s2 ! g)") (auto simp: sched_timer_periodic_def mem_simps)
qed

lemma set_task_state_ok:
  assumes "groups_inv s" and "t < length (pm_threads s)"
  shows "\<exists>s'. set_task_state t st s = Some s' \<and> groups_inv s' \<and> same_frame s s' \<and> pm_threads s' = (pm_threads s)[t := (pm_threads s ! t)\<lparr>td_task_state := st\<rparr>]"
  using upd_ok [where f = "\<lambda>d. d\<lparr>td_task_state := st\<rparr>", OF assms] groups_invD(2) [OF assms]
  by (simp add: set_task_state_def thread_ok_def ignore_thread_def)

lemma do_event_ok:
  assumes inv: "groups_inv s" and a: "allowed e s"
  shows "\<exists>s'. do_event k e s = Some s' \<and> groups_inv s'"
proof (cases e)
  case (Switch_in t cpu)
  then have t: "t < length (pm_threads s)" using a by (simp add: allowed_def)
  obtain s1 where s1: "set_task_state t TASK_RUNNING s = Some s1" "groups_inv s1"
    "pm_threads s1 = (pm_threads s)[t := (pm_threads s ! t)\<lparr>td_task_state := TASK_RUNNING\<rparr>]" using set_task_state_ok [OF inv t] by blast
  have "t < length (pm_threads s1)" "td_task_state (pm_threads s1 ! t) = TASK_RUNNING" using t s1(3) by simp_all
  from switch_in_ok [OF s1(2) this, of k cpu] s1(1) show ?thesis by (auto simp: do_event_def Switch_in group_plugin_def)
next
  case (Switch_out t cpu st)
  then have t: "t < length (pm_threads s)" using a by (simp add: allowed_def)
  obtain s1 where s1: "set_task_state t st s = Some s1" "groups_inv s1"
    "pm_threads s1 = (pm_threads s)[t := (pm_threads s ! t)\<lparr>td_task_state := st\<rparr>]" using set_task_state_ok [OF inv t] by blast
  have t1: "t < length (pm_threads s1)" "pm_threads s1 ! t = (pm_threads s ! t)\<lparr>td_task_state := st\<rparr>" using t s1(3) by simp_all
  have "\<exists>s'. pmcsched_on_switch_out (plugin_ops True) k cpu t s1 = Some s' \<and> groups_inv s' \<and> same_frame s1 s'"
    by (rule switch_out_ok [OF s1(2) t1(1)]) (use a t1(2) in \<open>auto simp: allowed_def Switch_out awake_def\<close>)
  with s1(1) show ?thesis by (auto simp: do_event_def Switch_out group_plugin_def)
next
  case (Exit t cpu)
  then show ?thesis using exit_ok [OF inv, of t cpu] a by (auto simp: do_event_def allowed_def group_plugin_def)
next
  case (Timer g rnd)
  then show ?thesis using timer_ok [OF inv, of g rnd] a by (auto simp: do_event_def allowed_def)
next
  case (Kthread g)
  then show ?thesis using periodic_scheduling_ok [OF inv, of g k] a by (auto simp: do_event_def allowed_def group_plugin_def)
qed

section \<open>Properties\<close>

text \<open>A machine before any thread has run: the threads of an application each, the groups empty. The data of a thread are
  those \<open>pmcsched_on_fork\<close> and the fork handlers of the two plugins set.\<close>

definition new_thread :: "int \<Rightarrow> nat \<Rightarrow> pmcsched_thread_data" where
  "new_thread security_id a = \<lparr>td_runnable = False, td_actually_runnable = False, td_state = NO_QUEUE, td_sched_app = a, td_cur_group = None,
     td_security_id = security_id, td_first_time = True, td_signal_sent = False, td_stopped_during_profiling = False, td_memory_profile = 0,
     td_exiting = False, td_mig_state = MIGRATION_COMPLETED, td_src_group = 0, td_dst_group = 0, td_prof_enabled = True, td_last_cpu = -1,
     td_task_state = TASK_SLEEPING\<rparr>"

definition new_app :: app_pmcsched where
  "new_app = \<lparr>pa_active_threads = init_sized_list, pa_stopped_threads = init_sized_list, pa_state = NO_QUEUE\<rparr>"

definition new_group :: "int \<Rightarrow> sched_thread_group" where
  "new_group cpus = \<lparr>sg_active_threads = init_sized_list, sg_active_apps = init_sized_list, sg_stopped_threads = init_sized_list,
     sg_stopped_apps = init_sized_list, sg_pending_signals_list = init_sized_list, sg_pending_profile_list = init_sized_list,
     sg_profiler_stopped_list = init_sized_list, sg_migration_list = init_sized_list, sg_activate_kthread = False,
     sg_force_activate_timer = False, sg_timer_period = PMCSCHED_PERIOD_DEFAULT, sg_scheduling_mode = NORMAL, sg_disabling_mode = False,
     sg_profiled = None, sg_nr_online_cpus = cpus\<rparr>"

definition boot_sched :: "(nat \<Rightarrow> nat) \<Rightarrow> int list \<Rightarrow> nat \<Rightarrow> nat list \<Rightarrow> pmcsched" where
  "boot_sched topo cpus apps threads = \<lparr>pm_threads = map (new_thread 7) threads, pm_groups = map new_group cpus,
     pm_apps = replicate apps (replicate (length cpus) new_app), pm_security_id = 7, pm_group_of_cpu = topo, pm_migration_counter = 0\<rparr>"

lemma boot_inv:
  assumes "\<forall>cpu. topo cpu < length cpus" and "\<forall>a\<in>set threads. a < apps"
  shows "groups_inv (boot_sched topo cpus apps threads)"
proof -
  have t: "pm_threads (boot_sched topo cpus apps threads) ! u = new_thread 7 (threads ! u)" if "u < length threads" for u
    using that by (simp add: boot_sched_def)
  have "lists_ok (boot_sched topo cpus apps threads) (length threads) (\<lambda>_. None) (\<lambda>u. threads ! u) (\<lambda>_. False)"
    unfolding lists_ok_def by (simp add: boot_sched_def new_group_def new_app_def list_is_empty)
  then have "lists_ok (boot_sched topo cpus apps threads) (length threads) (\<lambda>t. td_cur_group (pm_threads (boot_sched topo cpus apps threads) ! t))
      (\<lambda>t. td_sched_app (pm_threads (boot_sched topo cpus apps threads) ! t))
      (\<lambda>t. td_mig_state (pm_threads (boot_sched topo cpus apps threads) ! t) \<noteq> MIGRATION_COMPLETED)"
    by (rule iffD1 [OF lists_ok_cong, rotated]) (simp add: t, simp add: new_thread_def)
  moreover have len: "length (pm_threads (boot_sched topo cpus apps threads)) = length threads" by (simp add: boot_sched_def)
  moreover have "thread_ok (boot_sched topo cpus apps threads) (pm_threads (boot_sched topo cpus apps threads) ! u)" if "u < length threads" for u
    using that assms(2) by (simp add: t) (simp add: boot_sched_def thread_ok_def new_thread_def ignore_thread_def)
  moreover have "pm_group_of_cpu (boot_sched topo cpus apps threads) cpu < length (pm_groups (boot_sched topo cpus apps threads))" for cpu
    using assms(1) by (simp add: boot_sched_def)
  ultimately show ?thesis unfolding groups_inv_def len by blast
qed

text \<open>C16. The group plugin under the framework keeps its lists, while every migration that is asked for is over before its thread
  does anything else: whatever the order in which threads are switched in and out on any CPU, sleep, exit and die, and timers and
  kernel threads move them, no list operation goes wrong, and the lists of threads, of applications and of migrations of every
  group hold exactly the threads that are in it, those of the application that are, and those that wait to be moved. The sequences
  it holds for are those of \<open>allowed\<close>. A dead thread does not run, a thread exits once and after it has run, and there is another group
  to draw, which only one group denies; but also, and this the code does not see to, a thread that waits to be moved does not sleep or
  die before it is switched in again, and the kernel thread of its group does not look at it a second time before that (the branch
  of \<open>MIGRATION_STARTED\<close>). Without either of the two conditions it is false, as the lemmas after it show.\<close>

theorem group_plugin_keeps_the_lists:
  assumes "groups_inv s" and "run_allowed k es s"
  shows "\<exists>s'. run_events k es s = Some s' \<and> groups_inv s'"
  using assms
proof (induction es arbitrary: s)
  case Nil
  then show ?case by simp
next
  case (Cons e es)
  obtain s1 where s1: "do_event k e s = Some s1" "groups_inv s1" using do_event_ok [OF Cons.prems(1), of e k] Cons.prems(2) by auto
  then show ?case using Cons.IH [OF s1(2)] Cons.prems(2) by simp
qed

text \<open>Two groups with two CPUs each.\<close>

definition two_groups :: "nat \<Rightarrow> nat" where "two_groups cpu = (if cpu < 2 then 0 else 1)"

definition quiet_kernel :: kernel where "quiet_kernel = \<lparr>k_trylock = (\<lambda>_. True), k_send = (\<lambda>_. 1)\<rparr>"

definition migration_events :: "sched_event list" where
  "migration_events = [Switch_in 0 0, Switch_in 1 1, Timer 0 (\<lambda>_. 1), Timer 0 (\<lambda>_. 1), Timer 0 (\<lambda>_. 1), Kthread 0,
     Switch_out 0 0 TASK_RUNNING, Switch_in 0 2, Switch_out 1 1 TASK_SLEEPING, Exit 0 2, Switch_out 0 2 TASK_DEAD]"

theorem group_plugin_keeps_the_lists_witness:
  "\<exists>s'. run_events quiet_kernel migration_events (boot_sched two_groups [2, 2] 2 [0, 1]) = Some s' \<and> groups_inv s'"
proof (rule group_plugin_keeps_the_lists)
  show "groups_inv (boot_sched two_groups [2, 2] 2 [0, 1])" by (rule boot_inv) (simp_all add: two_groups_def)
  show "run_allowed quiet_kernel migration_events (boot_sched two_groups [2, 2] 2 [0, 1])" by code_simp
qed

text \<open>What the two conditions exclude. A thread that sleeps while it waits to be moved is kept by its group in the list of migrations,
  but the plugin forgets the group; when the thread wakes up on the other side and exits, it is removed from the list of a group it
  is not in. The same events with the thread switched in before it sleeps are harmless.\<close>

definition sleepy_events :: "sched_event list" where
  "sleepy_events = [Switch_in 0 0, Timer 0 (\<lambda>_. 1), Timer 0 (\<lambda>_. 1), Timer 0 (\<lambda>_. 1), Switch_out 0 0 TASK_SLEEPING,
     Switch_in 0 2, Exit 0 2]"

lemma sleep_during_migration_corrupts_a_list:
  "run_events quiet_kernel sleepy_events (boot_sched two_groups [2, 2] 1 [0]) = None \<and>
   run_events quiet_kernel (butlast sleepy_events) (boot_sched two_groups [2, 2] 1 [0]) \<noteq> None \<and>
   run_events quiet_kernel [Switch_in 0 0, Timer 0 (\<lambda>_. 1), Timer 0 (\<lambda>_. 1), Timer 0 (\<lambda>_. 1), Switch_out 0 0 TASK_RUNNING,
     Switch_in 0 2, Switch_out 0 2 TASK_SLEEPING, Switch_in 0 2, Exit 0 2] (boot_sched two_groups [2, 2] 1 [0]) \<noteq> None"
  by code_simp

text \<open>A thread the kernel thread looks at a second time, because it has not been switched out since the first, is taken from the
  list of migrations but its migration stays started; when it is switched in on the other side it is removed from that list
  again.\<close>

definition second_look_events :: "sched_event list" where
  "second_look_events = [Switch_in 0 0, Timer 0 (\<lambda>_. 1), Timer 0 (\<lambda>_. 1), Timer 0 (\<lambda>_. 1), Kthread 0, Kthread 0,
     Switch_out 0 0 TASK_RUNNING, Switch_in 0 2]"

lemma second_look_corrupts_a_list:
  "run_events quiet_kernel second_look_events (boot_sched two_groups [2, 2] 1 [0]) = None \<and>
   run_events quiet_kernel (butlast second_look_events) (boot_sched two_groups [2, 2] 1 [0]) \<noteq> None"
  by code_simp

text \<open>With one group the timer of the group plugin never returns: it draws random groups until one is not its own.\<close>

theorem random_group_needs_two_groups:
  "random_group rnd 1 0 i = None"
  using random_group_other [of rnd 1 0 i] by (cases "random_group rnd 1 0 i") auto

text \<open>C17. The plugin for asymmetric machines balances only one way: the timer of the group of small cores never asks for a migration,
  however many threads the big cores have too many. Its guard lets only a negative number of free big cores through, and its loop runs
  only while that number is not negative.\<close>

theorem busybcs_small_cores_never_steal:
  assumes "g \<noteq> AMP_FAST_CORE" and "length (pm_groups s) = 2"
  shows "sched_timer_periodic_busybcs locked g s = Some s"
proof -
  have l: "AMP_FAST_CORE < length (pm_groups s)" "AMP_SLOW_CORE < length (pm_groups s)" using assms(2) by (simp_all add: AMP_FAST_CORE_def AMP_SLOW_CORE_def)
  have n: "steal_for_small ts b s = Some s" if "b < 0" for ts b using that by (cases ts) simp_all
  show ?thesis using assms(1) l n by (simp add: sched_timer_periodic_busybcs_def mem_simps Let_def)
qed

theorem busybcs_small_cores_never_steal_witness:
  "sched_timer_periodic_busybcs True 0 (boot_sched two_groups [2, 2] 1 [0]) = Some (boot_sched two_groups [2, 2] 1 [0])"
  by (rule busybcs_small_cores_never_steal) (simp_all add: AMP_FAST_CORE_def boot_sched_def)

end
