(* ===== verification/CStrings.thy ===== *)
theory CStrings
  imports Prelude
begin

text \<open>
  What the program uses of the string functions of the C library and of the kernel: tokens, \<^verbatim>\<open>sscanf\<close> with integer conversions,
  \<^verbatim>\<open>sprintf\<close> of a number, and copies to arrays of a fixed size. A string is the characters before the terminator.
\<close>

section \<open>Tokens\<close>

text \<open>\<^verbatim>\<open>strsep\<close>: the token before the separator, and what is left, if any; \<open>None\<close> is NULL.\<close>

definition strsep :: "char \<Rightarrow> string option \<Rightarrow> (string \<times> string option) option" where
  "strsep c s = (case s of None \<Rightarrow> None
     | Some s \<Rightarrow> Some (takeWhile (\<lambda>x. x \<noteq> c) s, case dropWhile (\<lambda>x. x \<noteq> c) s of [] \<Rightarrow> None | _ # r \<Rightarrow> Some r))"

text \<open>The tokens of \<^verbatim>\<open>while ((token = strsep(&s, c)))\<close>.\<close>

fun split_on :: "char \<Rightarrow> string \<Rightarrow> string list" where
  "split_on c [] = [[]]"
| "split_on c (x # xs) =
     (if x = c then [] # split_on c xs
      else case split_on c xs of [] \<Rightarrow> [[x]] | t # ts \<Rightarrow> (x # t) # ts)"

lemma split_on_not_Nil [simp]: "split_on c s \<noteq> []"
  by (cases s) (auto split: list.splits)

lemma split_on_strsep:
  "split_on c s = (case strsep c (Some s) of Some (t, None) \<Rightarrow> [t] | Some (t, Some r) \<Rightarrow> t # split_on c r | None \<Rightarrow> [])"
proof (induction s)
  case Nil
  then show ?case by (simp add: strsep_def)
next
  case (Cons x s)
  then show ?case by (cases "x = c") (auto simp: strsep_def split: list.splits option.splits)
qed

text \<open>The tokens joined by the separator.\<close>

fun join_with :: "char \<Rightarrow> string list \<Rightarrow> string" where
  "join_with c [] = []"
| "join_with c [t] = t"
| "join_with c (t # u # ts) = t @ c # join_with c (u # ts)"

lemma split_on_no_sep: "c \<notin> set t \<Longrightarrow> split_on c t = [t]"
  by (induction t) auto

lemma split_on_append: "c \<notin> set t \<Longrightarrow> split_on c (t @ c # s) = t # split_on c s"
  by (induction t) auto

lemma split_join: "ts \<noteq> [] \<Longrightarrow> \<forall>t\<in>set ts. c \<notin> set t \<Longrightarrow> split_on c (join_with c ts) = ts"
  by (induction c ts rule: join_with.induct) (auto simp: split_on_no_sep split_on_append)

lemma join_snoc: "ts \<noteq> [] \<Longrightarrow> join_with c (ts @ [t]) = join_with c ts @ c # t"
  by (induction c ts rule: join_with.induct) auto

lemma join_append: "ts \<noteq> [] \<Longrightarrow> us \<noteq> [] \<Longrightarrow> join_with c (ts @ us) = join_with c ts @ c # join_with c us"
proof (induction us rule: rev_induct)
  case Nil
  then show ?case by simp
next
  case (snoc u us)
  show ?case
  proof (cases "us = []")
    case True
    then show ?thesis using snoc.prems by (simp add: join_snoc)
  next
    case False
    then show ?thesis using snoc by (simp add: join_snoc flip: append_assoc)
  qed
qed

section \<open>Copies\<close>

text \<open>A copy to an array of \<open>n\<close> characters that must hold the terminator too: \<^verbatim>\<open>strncpy\<close> leaves it out when the string is too
  long, \<^verbatim>\<open>strcpy\<close> and \<^verbatim>\<open>strcat\<close> write past the end.\<close>

definition fits :: "nat \<Rightarrow> string \<Rightarrow> string option" where
  "fits n s = (if List.length s < n then Some s else None)"

section \<open>Numbers\<close>

definition digit_value :: "char \<Rightarrow> nat option" where
  "digit_value ch = (let v = of_char ch :: nat in
     if 48 \<le> v \<and> v \<le> 57 then Some (v - 48)
     else if 65 \<le> v \<and> v \<le> 70 then Some (v - 55)
     else if 97 \<le> v \<and> v \<le> 102 then Some (v - 87) else None)"

definition is_digit :: "nat \<Rightarrow> char \<Rightarrow> bool" where
  "is_digit base ch = (case digit_value ch of None \<Rightarrow> False | Some d \<Rightarrow> d < base)"

fun scan_digits :: "nat \<Rightarrow> nat \<Rightarrow> string \<Rightarrow> nat \<times> string" where
  "scan_digits base acc [] = (acc, [])"
| "scan_digits base acc (ch # s) =
     (case digit_value ch of
        Some d \<Rightarrow> if d < base then scan_digits base (acc * base + d) s else (acc, ch # s)
      | None \<Rightarrow> (acc, ch # s))"

definition is_space :: "char \<Rightarrow> bool" where
  "is_space ch = (let v = of_char ch :: nat in v = 32 \<or> (9 \<le> v \<and> v \<le> 13))"

text \<open>The base and the digits of a number written in base \<open>base\<close>, 0 for the base of its prefix.\<close>

definition radix :: "nat \<Rightarrow> string \<Rightarrow> nat \<times> string" where
  "radix base s = (case s of
     z # x # h # r \<Rightarrow> if z = CHR ''0'' \<and> x \<in> {CHR ''x'', CHR ''X''} \<and> is_digit 16 h \<and> base \<in> {0, 16} then (16, h # r)
       else if base = 0 then (if z = CHR ''0'' then 8 else 10, s) else (base, s)
   | z # _ \<Rightarrow> if base = 0 then (if z = CHR ''0'' then 8 else 10, s) else (base, s)
   | [] \<Rightarrow> (base, s))"

text \<open>A conversion: in the kernel a minus sign before a number that may have one, and the value wraps around; in the library
  (\<open>libc\<close>) a sign before any number, and a value out of range becomes the nearest. Both are cut to 32 bits.\<close>

definition scan_number :: "bool \<Rightarrow> nat \<Rightarrow> bool \<Rightarrow> string \<Rightarrow> (u32 \<times> string) option" where
  "scan_number libc base sg s =
     (let s = dropWhile is_space s;
          neg = ((libc \<or> sg) \<and> s \<noteq> [] \<and> hd s = CHR ''-'');
          s = (if neg \<or> (libc \<and> s \<noteq> [] \<and> hd s = CHR ''+'') then tl s else s)
      in if s = [] \<or> \<not> is_digit (if base = 16 then 16 else 10) (hd s) then None
         else (let (b, ds) = radix base s;
                   (v, r) = scan_digits b 0 ds;
                   n = (if neg then - int v else int v);
                   n = (if \<not> libc then n
                        else if sg then max (- (2 ^ 63)) (min (2 ^ 63 - 1) n)
                        else if int v > 2 ^ 64 - 1 then 2 ^ 64 - 1 else n)
               in Some (word_of_int n, r)))"

section \<open>Formats\<close>

datatype directive = Lit char | Blank | Conv nat bool

text \<open>\<^verbatim>\<open>%i\<close>, \<^verbatim>\<open>%d\<close>, \<^verbatim>\<open>%x\<close> and \<^verbatim>\<open>%u\<close>; a blank of the format stands for any number of them.\<close>

fun directives :: "string \<Rightarrow> directive list" where
  "directives [] = []"
| "directives [c] = [Lit c]"
| "directives (c # d # r) =
     (if c = CHR ''%'' then
        (if d = CHR ''i'' then Conv 0 True else if d = CHR ''d'' then Conv 10 True
         else if d = CHR ''x'' then Conv 16 False else Conv 10 False) # directives r
      else (if c = CHR '' '' then Blank else Lit c) # directives (d # r))"

fun scan :: "bool \<Rightarrow> directive list \<Rightarrow> string \<Rightarrow> u32 list" where
  "scan libc [] s = []"
| "scan libc (Lit c # ds) s = (case s of [] \<Rightarrow> [] | x # r \<Rightarrow> if x = c then scan libc ds r else [])"
| "scan libc (Blank # ds) s = scan libc ds (dropWhile is_space s)"
| "scan libc (Conv base sg # ds) s =
     (case scan_number libc base sg s of None \<Rightarrow> [] | Some (v, r) \<Rightarrow> v # scan libc ds r)"

text \<open>The values read: their number is the result of \<^verbatim>\<open>sscanf\<close>, but for the end of the string, where the library returns a
  negative number.\<close>

definition sscanf :: "bool \<Rightarrow> string \<Rightarrow> string \<Rightarrow> u32 list" where
  "sscanf libc s format = scan libc (directives format) s"

definition atoi :: "string \<Rightarrow> int" where
  "atoi s = (case scan_number True 10 True s of None \<Rightarrow> 0 | Some (v, _) \<Rightarrow> sint v)"

text \<open>\<^verbatim>\<open>sprintf\<close> of a number that is not negative.\<close>

definition digit_char :: "nat \<Rightarrow> char" where
  "digit_char d = char_of (if d < 10 then 48 + d else 87 + d)"

fun num_string :: "nat \<Rightarrow> nat \<Rightarrow> string" where
  "num_string base n = (if n < base \<or> base < 2 then [digit_char n] else num_string base (n div base) @ [digit_char (n mod base)])"

declare num_string.simps [simp del]

definition dec_string :: "nat \<Rightarrow> string" where "dec_string = num_string 10"

definition hex_string :: "nat \<Rightarrow> string" where "hex_string n = ''0x'' @ num_string 16 n"

end
