(* ===== verification/RawConfig.thy ===== *)
theory RawConfig
  imports CStrings ExperimentSet
begin

text \<open>
  Configuration strings in the raw format (\<^verbatim>\<open>pmc0=0xc0,pmc1=0x76,...\<close>): the parser of the kernel module (\<^verbatim>\<open>pmu_config_x86.c\<close>, and
  \<^verbatim>\<open>mchw_core.c\<close> for virtual counters) and the checks the library makes before it hands a string over (\<^verbatim>\<open>core.c\<close>).
\<close>

section \<open>The parser of the kernel module\<close>

definition PMCTRACK_MAX_LEN_RAW_PMC_STRING :: nat where "PMCTRACK_MAX_LEN_RAW_PMC_STRING = 256"
definition default_ebs_window :: u64 where "default_ebs_window = 500000000"

definition no_cfg :: pmc_usrcfg_t where
  "no_cfg = \<lparr>cfg_evtsel = 0, cfg_usr = 0, cfg_os = 0, cfg_reset_value = 0, cfg_ebs_mode = 0, cfg_umask = 0, cfg_edge = 0, cfg_inv = 0,
     cfg_any = 0, cfg_cmask = 0\<rparr>"

definition empty_config :: pmc_config_set_t where
  "empty_config = \<lparr>pmc_cfg = replicate MAX_LL_EXPS no_cfg, cs_used_pmcs = 0, cs_nr_pmcs = 0, cs_ebs_index = -1, cs_coretype = -1\<rparr>"

definition counter_id :: "u32 \<Rightarrow> bool" where
  "counter_id idx \<longleftrightarrow> 0 \<le> sint idx \<and> sint idx < int MAX_LL_EXPS"

definition upd_cfg :: "u32 \<Rightarrow> (pmc_usrcfg_t \<Rightarrow> pmc_usrcfg_t) \<Rightarrow> pmc_config_set_t \<Rightarrow> pmc_config_set_t" where
  "upd_cfg idx f s = s\<lparr>pmc_cfg := (pmc_cfg s)[unat idx := f (pmc_cfg s ! unat idx)]\<rparr>"

text \<open>A branch that does not match gives \<open>None\<close>; one that does gives the new state, or \<open>None\<close> for an error.\<close>

type_synonym branch = "pmc_config_set_t option option"

definition orelse :: "branch \<Rightarrow> branch \<Rightarrow> branch" where
  "orelse a b = (case a of None \<Rightarrow> b | Some r \<Rightarrow> Some r)"

definition pmc_flag :: "string \<Rightarrow> pmc_config_set_t \<Rightarrow> branch" where
  "pmc_flag flag s = (case sscanf False flag ''pmc%i=%x'' of
     [] \<Rightarrow> None
   | idx # vals \<Rightarrow> Some (if \<not> counter_id idx then None
       else (let s = upd_cfg idx (\<lambda>c. c\<lparr>cfg_usr := 1\<rparr>) (s\<lparr>cs_used_pmcs := cs_used_pmcs s OR push_bit (unat idx) 1, cs_nr_pmcs := cs_nr_pmcs s + 1\<rparr>)
             in Some (case vals of [val] \<Rightarrow> upd_cfg idx (\<lambda>c. c\<lparr>cfg_evtsel := val\<rparr>) s | _ \<Rightarrow> s))))"

text \<open>A field with its value, under two names.\<close>

definition value_flag :: "string \<Rightarrow> string \<Rightarrow> (u32 \<Rightarrow> pmc_usrcfg_t \<Rightarrow> pmc_usrcfg_t) \<Rightarrow> string \<Rightarrow> pmc_config_set_t \<Rightarrow> branch" where
  "value_flag format format2 f flag s =
     (let toks = (case sscanf False flag format of [idx, val] \<Rightarrow> [idx, val] | _ \<Rightarrow> sscanf False flag format2)
      in case toks of [idx, val] \<Rightarrow> if counter_id idx then Some (Some (upd_cfg idx (f val) s)) else None | _ \<Rightarrow> None)"

text \<open>A field of one bit, set when there is no value.\<close>

definition bit_flag :: "string \<Rightarrow> (u8 \<Rightarrow> pmc_usrcfg_t \<Rightarrow> pmc_usrcfg_t) \<Rightarrow> string \<Rightarrow> pmc_config_set_t \<Rightarrow> branch" where
  "bit_flag format f flag s = (case sscanf False flag format of
     [] \<Rightarrow> None
   | idx # vals \<Rightarrow> if \<not> counter_id idx then None
       else (case vals of
           [val] \<Rightarrow> if val \<noteq> 0 \<and> val \<noteq> 1 then Some None else Some (Some (upd_cfg idx (f (ucast val)) s))
         | _ \<Rightarrow> Some (Some (upd_cfg idx (f 1) s))))"

definition ebs_flag :: "bool \<Rightarrow> string \<Rightarrow> pmc_config_set_t \<Rightarrow> branch" where
  "ebs_flag ebs_allowed flag s = (case sscanf False flag ''ebs%i=%d'' of
     [] \<Rightarrow> None
   | idx # vals \<Rightarrow> if \<not> ebs_allowed \<or> \<not> counter_id idx \<or> cs_ebs_index s \<noteq> -1 then None
       else (let ebs_window = (case vals of [val] \<Rightarrow> ucast val | _ \<Rightarrow> default_ebs_window)
             in Some (Some (upd_cfg idx (\<lambda>c. c\<lparr>cfg_ebs_mode := 1, cfg_reset_value := ebs_window\<rparr>) (s\<lparr>cs_ebs_index := sint idx\<rparr>)))))"

definition coretype_flag :: "string \<Rightarrow> pmc_config_set_t \<Rightarrow> branch" where
  "coretype_flag flag s = (case sscanf False flag ''coretype=%d'' of
     [idx] \<Rightarrow> if 0 \<le> sint idx \<and> sint idx < int AMP_MAX_CORETYPES then Some (Some (s\<lparr>cs_coretype := sint idx\<rparr>)) else None
   | _ \<Rightarrow> None)"

definition parse_flag :: "bool \<Rightarrow> string \<Rightarrow> pmc_config_set_t \<Rightarrow> pmc_config_set_t option" where
  "parse_flag ebs_allowed flag s =
     (case orelse (pmc_flag flag s)
        (orelse (value_flag ''umask%i=%x'' ''um%i=%x'' (\<lambda>v c. c\<lparr>cfg_umask := ucast v\<rparr>) flag s)
        (orelse (value_flag ''cmask%i=%x'' ''cm%i=%x'' (\<lambda>v c. c\<lparr>cfg_cmask := ucast v\<rparr>) flag s)
        (orelse (bit_flag ''usr%i=%d'' (\<lambda>v c. c\<lparr>cfg_usr := v\<rparr>) flag s)
        (orelse (bit_flag ''os%i=%d'' (\<lambda>v c. c\<lparr>cfg_os := v\<rparr>) flag s)
        (orelse (bit_flag ''edge%i=%d'' (\<lambda>v c. c\<lparr>cfg_edge := v\<rparr>) flag s)
        (orelse (bit_flag ''inv%i=%d'' (\<lambda>v c. c\<lparr>cfg_inv := v\<rparr>) flag s)
        (orelse (bit_flag ''any%i=%d'' (\<lambda>v c. c\<lparr>cfg_any := v\<rparr>) flag s)
        (orelse (ebs_flag ebs_allowed flag s) (coretype_flag flag s))))))))) of
      None \<Rightarrow> None | Some r \<Rightarrow> r)"

text \<open>The number of the first flag that is wrong, or the configuration.\<close>

fun parse_flags :: "bool \<Rightarrow> string list \<Rightarrow> nat \<Rightarrow> pmc_config_set_t \<Rightarrow> nat + pmc_config_set_t" where
  "parse_flags ebs_allowed [] curr_flag s = Inr s"
| "parse_flags ebs_allowed (flag # flags) curr_flag s = (case parse_flag ebs_allowed flag s of
     None \<Rightarrow> Inl (curr_flag + 1)
   | Some s \<Rightarrow> parse_flags ebs_allowed flags (curr_flag + 1) s)"

definition parse_pmcs_strconfig :: "string \<Rightarrow> bool \<Rightarrow> nat + pmc_config_set_t" where
  "parse_pmcs_strconfig buf ebs_allowed =
     parse_flags ebs_allowed (split_on (CHR '','') (take (PMCTRACK_MAX_LEN_RAW_PMC_STRING - 1) buf)) 0 empty_config"

section \<open>Virtual counters\<close>

text \<open>Mask, number and highest identifier.\<close>

fun parse_virt_flags :: "string list \<Rightarrow> nat \<Rightarrow> u32 \<times> nat \<times> int \<Rightarrow> nat + u32 \<times> nat \<times> int" where
  "parse_virt_flags [] curr_flag r = Inr r"
| "parse_virt_flags (flag # flags) curr_flag (used, count, max_id) = (case sscanf False flag ''virt%i'' of
     [] \<Rightarrow> Inl (curr_flag + 1)
   | idx # _ \<Rightarrow> if sint idx < 0 \<or> sint idx \<ge> int MAX_VIRTUAL_COUNTERS then Inl (curr_flag + 1)
       else parse_virt_flags flags (curr_flag + 1) (used OR push_bit (unat idx) 1, count + 1, max (sint idx) max_id))"

definition parse_virtual_strconfig :: "string \<Rightarrow> nat + u32 \<times> nat \<times> int" where
  "parse_virtual_strconfig buf = parse_virt_flags (split_on (CHR '','') buf) 0 (0, 0, 0)"

section \<open>The checks of the library\<close>

definition MAX_CONFIG_STRING_SIZE :: nat where "MAX_CONFIG_STRING_SIZE = 150"

text \<open>\<open>0x1<<idx\<close> on \<open>int\<close>.\<close>

definition flag_bit :: "int \<Rightarrow> u32 option" where
  "flag_bit idx = (if 0 \<le> idx \<and> idx < 31 then Some (push_bit (nat idx) 1) else None)"

text \<open>A counter that is not in the mask yet is added and counted.\<close>

definition mark_counter :: "u32 \<Rightarrow> u32 \<times> nat \<Rightarrow> (u32 \<times> nat) option" where
  "mark_counter idx m = do { b \<leftarrow> flag_bit (sint idx); Some (if fst m AND b = 0 then (fst m OR b, snd m + 1) else m) }"

definition check_flag :: "string \<Rightarrow> (u32 \<times> nat) \<times> bool \<Rightarrow> ((u32 \<times> nat) \<times> bool) option" where
  "check_flag flag = (\<lambda>(m, ebs_on). case sscanf True flag ''pmc%i=%x'' of
     idx # _ \<Rightarrow> do { m \<leftarrow> mark_counter idx m; Some (m, ebs_on) }
   | [] \<Rightarrow> Some (m, ebs_on \<or> sscanf True flag ''ebs%i=%x'' \<noteq> []))"

definition check_string :: "string \<Rightarrow> (u32 \<times> nat) \<times> bool \<Rightarrow> ((u32 \<times> nat) \<times> bool) option" where
  "check_string cfg r = do {
     cfg \<leftarrow> fits (MAX_CONFIG_STRING_SIZE + 1) cfg;
     foldM check_flag (split_on (CHR '','') cfg) r
   }"

text \<open>For a list of strings that is not empty: the mask and the number of counters, whether one samples, and the number of
  strings.\<close>

definition pmct_check_counter_config :: "string list \<Rightarrow> (u32 \<times> nat \<times> bool \<times> nat) option" where
  "pmct_check_counter_config cfgs = do {
     ((pmcmask, counters), ebs) \<leftarrow> foldM check_string cfgs ((0, 0), False);
     Some (pmcmask, counters, ebs, List.length cfgs)
   }"

definition check_virt_flag :: "string \<Rightarrow> u32 \<times> nat \<Rightarrow> (u32 \<times> nat) option" where
  "check_virt_flag flag m = (case sscanf True flag ''virt%i=%x'' of idx # _ \<Rightarrow> mark_counter idx m | [] \<Rightarrow> Some m)"

definition pmct_check_vcounter_config :: "string \<Rightarrow> (u32 \<times> nat) option" where
  "pmct_check_vcounter_config virtcfg = do {
     cfg \<leftarrow> fits (MAX_CONFIG_STRING_SIZE + 1) virtcfg;
     foldM check_virt_flag (split_on (CHR '','') cfg) (0, 0)
   }"

end
