(* ===== verification/EventStrings.thy ===== *)
theory EventStrings
  imports RawConfig
begin

text \<open>
  The translation of the events a user names into strings in the raw format (\<^verbatim>\<open>pmu_info.c\<close> of \<^verbatim>\<open>libpmctrack\<close>): the events of a
  processor model, read from a CSV file; the assignment of a counter and of an experiment to each event of a string; the raw strings,
  one per experiment, and the mapping of counters to events; virtual counters. A result is an error code or a value. What is printed
  for the user is left out, and so is the release of memory.
\<close>

section \<open>Data\<close>

definition MAX_NR_PROPERTIES :: nat where "MAX_NR_PROPERTIES = 10"
definition MAX_NR_SUBEVENTS :: nat where "MAX_NR_SUBEVENTS = 30"
definition MAX_NR_EVENTS :: nat where "MAX_NR_EVENTS = 50"
definition MAX_NR_EVENTS_CFG :: nat where "MAX_NR_EVENTS_CFG = 30"
definition NAME_HW_EVENT_SIZE :: nat where "NAME_HW_EVENT_SIZE = 50"
definition CODE_HW_EVENT_SIZE :: nat where "CODE_HW_EVENT_SIZE = 22"
definition NAME_KEY_PMC_PROPERTY_SIZE :: nat where "NAME_KEY_PMC_PROPERTY_SIZE = 30"
definition VALUE_PMC_PROPERTY_SIZE :: nat where "VALUE_PMC_PROPERTY_SIZE = 50"
definition COMPLETE_EVENT_CFG_SIZE :: nat where "COMPLETE_EVENT_CFG_SIZE = 100"
definition FILE_LINE_SIZE :: nat where "FILE_LINE_SIZE = 100"
definition ROW_CFG_SIZE :: nat where "ROW_CFG_SIZE = 200"
definition MAX_COUNTER_CONFIGS :: nat where "MAX_COUNTER_CONFIGS = 5"

record pmc_property_t =
  pr_key :: string
  pr_value :: string

record hw_subevent_t =
  hs_name :: string
  hs_properties :: "pmc_property_t list"

record hw_event_t =
  he_pmcn :: int
  he_name :: string
  he_code :: string
  he_subevents :: "hw_subevent_t list"

record pmu_info_t =
  pi_model :: string
  pi_nr_fixed_pmcs :: nat
  pi_nr_gp_pmcs :: nat
  pi_events :: "hw_event_t list"

text \<open>An event of a configuration string; counter -1 is none yet.\<close>

record event_cfg_t =
  ec_counter :: int
  ec_exp :: nat
  ec_name :: string
  ec_code :: string
  ec_properties :: "pmc_property_t list"

record counter_mapping_t =
  cm_nr_counter :: int
  cm_events :: "string option list"
  cm_experiment_mask :: u32

type_synonym 'a result = "(int + 'a) option"

definition result_bind :: "'a result \<Rightarrow> ('a \<Rightarrow> 'b result) \<Rightarrow> 'b result" where
  "result_bind m f = (case m of None \<Rightarrow> None | Some (Inl e) \<Rightarrow> Some (Inl e) | Some (Inr x) \<Rightarrow> f x)"

fun each_result :: "('a \<Rightarrow> 's \<Rightarrow> 's result) \<Rightarrow> 'a list \<Rightarrow> 's \<Rightarrow> 's result" where
  "each_result f [] s = Some (Inr s)"
| "each_result f (x # xs) s = result_bind (f x s) (each_result f xs)"

text \<open>The second token of a string, if there is one.\<close>

definition second :: "string list \<Rightarrow> string option" where
  "second ts = (case ts of _ # v # _ \<Rightarrow> Some v | _ \<Rightarrow> None)"

section \<open>The events of a processor model\<close>

text \<open>\<^verbatim>\<open>fgets\<close>: a line that does not fit is read in pieces.\<close>

fun pieces :: "nat \<Rightarrow> string \<Rightarrow> string list" where
  "pieces n s = (if n = 0 \<or> List.length s \<le> n then [s] else take n s # pieces n (drop n s))"

text \<open>A property of a row: \<^verbatim>\<open>key\<close> or \<^verbatim>\<open>key=value\<close>.\<close>

definition make_property :: "string \<Rightarrow> string option \<Rightarrow> pmc_property_t option" where
  "make_property key v = do {
     k \<leftarrow> fits NAME_KEY_PMC_PROPERTY_SIZE key;
     v \<leftarrow> (case v of None \<Rightarrow> Some [] | Some v \<Rightarrow> fits VALUE_PMC_PROPERTY_SIZE v);
     Some \<lparr>pr_key = k, pr_value = v\<rparr>
   }"

definition add_property :: "pmc_property_t \<Rightarrow> pmc_property_t list \<Rightarrow> pmc_property_t list option" where
  "add_property p ps = (if List.length ps < MAX_NR_PROPERTIES then Some (ps @ [p]) else None)"

text \<open>A flag of a row: the counter of the event, something to ignore, or a property of the sub-event.\<close>

definition csv_flag :: "string \<Rightarrow> int \<times> pmc_property_t list \<Rightarrow> (int \<times> pmc_property_t list) option" where
  "csv_flag flag = (\<lambda>(pmcn, ps).
     let toks = split_on (CHR ''='') flag; key = hd toks; v = second toks
     in if key = ''pmc'' then do { v \<leftarrow> v; Some (atoi v, ps) }
        else if take 1 key \<noteq> ''-'' \<and> key \<noteq> ''type'' then do {
          p \<leftarrow> make_property key v;
          ps \<leftarrow> add_property p ps;
          Some (pmcn, ps)
        } else Some (pmcn, ps))"

text \<open>The line break at the end of the flags is removed; they are in the fifth column, which may be missing.\<close>

definition csv_flags :: "string list \<Rightarrow> string list option" where
  "csv_flags cols = (case drop 4 cols of
     [] \<Rightarrow> Some []
   | flags # _ \<Rightarrow> if flags = [] then None
       else Some (split_on (CHR '';'') (if last flags = CHR 0x0A then butlast flags else flags)))"

definition csv_row :: "string \<Rightarrow> hw_event_t list \<Rightarrow> hw_event_t list result" where
  "csv_row row events =
     (if row = [] \<or> row = [CHR 0x0A] then Some (Inr events)
      else (let cols = split_on (CHR '','') row; evt_name = hd cols;
                ind = List.length (takeWhile (\<lambda>e. he_name e \<noteq> evt_name) events)
        in if ind = List.length events \<and> MAX_NR_EVENTS \<le> ind then Some (Inl (-2))
           else do {
             events \<leftarrow> (if ind < List.length events then Some events
               else do {
                 n \<leftarrow> fits NAME_HW_EVENT_SIZE evt_name;
                 code \<leftarrow> (if 2 < List.length cols then Some (cols ! 2) else None);
                 code \<leftarrow> fits CODE_HW_EVENT_SIZE code;
                 Some (events @ [\<lparr>he_pmcn = -1, he_name = n, he_code = code, he_subevents = []\<rparr>])
               });
             e \<leftarrow> rd events ind;
             if MAX_NR_SUBEVENTS \<le> List.length (he_subevents e) then Some (Inl (-3))
             else do {
               subname \<leftarrow> second cols;
               subname \<leftarrow> fits NAME_HW_EVENT_SIZE subname;
               flags \<leftarrow> csv_flags cols;
               (pmcn, ps) \<leftarrow> foldM csv_flag flags (he_pmcn e, []);
               events \<leftarrow> wr events ind (e\<lparr>he_pmcn := pmcn, he_subevents := he_subevents e @ [\<lparr>hs_name = subname, hs_properties = ps\<rparr>]\<rparr>);
               Some (Inr events)
             }
           }))"

text \<open>The lines of the file, line breaks included; the first piece, the head, is dismissed.\<close>

definition parse_csv_file :: "string list \<Rightarrow> pmu_info_t \<Rightarrow> pmu_info_t result" where
  "parse_csv_file file pmu =
     result_bind (each_result csv_row (tl (concat (map (pieces (FILE_LINE_SIZE - 1)) file))) [])
       (\<lambda>events. Some (Inr (pmu\<lparr>pi_events := events\<rparr>)))"

section \<open>The events of a string\<close>

record cfg_state =
  st_events :: "event_cfg_t list"
  st_pmc_mask :: u32
  st_highest_exp :: nat
  st_coretype :: int

text \<open>An event with a given counter goes to the first experiment that does not use it, if those before are in order.\<close>

definition force_counter :: "int \<Rightarrow> event_cfg_t \<Rightarrow> cfg_state \<Rightarrow> (event_cfg_t \<times> cfg_state) option" where
  "force_counter c e st = (
     let x = List.length (filter (\<lambda>f. ec_counter f = c) (st_events st));
         e = e\<lparr>ec_counter := c, ec_exp := x\<rparr>;
         st = st\<lparr>st_highest_exp := max (st_highest_exp st) x\<rparr>
     in if x = 0 then do { b \<leftarrow> flag_bit c; Some (e, st\<lparr>st_pmc_mask := st_pmc_mask st OR b\<rparr>) } else Some (e, st))"

text \<open>A property the user gives replaces that of the event.\<close>

fun set_property :: "string \<Rightarrow> string option \<Rightarrow> pmc_property_t list \<Rightarrow> pmc_property_t list option" where
  "set_property key v [] = None"
| "set_property key v (p # ps) =
     (if pr_key p = key then (case v of None \<Rightarrow> Some (p # ps)
        | Some v \<Rightarrow> do { v \<leftarrow> fits VALUE_PMC_PROPERTY_SIZE v; Some (p\<lparr>pr_value := v\<rparr> # ps) })
      else do { ps \<leftarrow> set_property key v ps; Some (p # ps) })"

definition user_flag :: "pmu_info_t \<Rightarrow> string \<Rightarrow> event_cfg_t \<times> cfg_state \<Rightarrow> (event_cfg_t \<times> cfg_state) result" where
  "user_flag pmu flag = (\<lambda>(e, st).
     let toks = split_on (CHR ''='') flag; key = hd toks; v = second toks
     in if key = ''pmc'' \<and> ec_counter e = -1 then do {
          v \<leftarrow> v;
          let c = atoi v;
          if c < int (pi_nr_fixed_pmcs pmu) \<or> c \<ge> int (pi_nr_gp_pmcs pmu) then Some (Inl (-3))
          else do { r \<leftarrow> force_counter c e st; Some (Inr r) }
        } else if key \<noteq> ''pmc'' then do {
          ps \<leftarrow> (if \<exists>p\<in>set (ec_properties e). pr_key p = key then set_property key v (ec_properties e)
            else do { p \<leftarrow> make_property key v; add_property p (ec_properties e) });
          Some (Inr (e\<lparr>ec_properties := ps\<rparr>, st))
        } else Some (Inr (e, st)))"

definition find_event :: "pmu_info_t \<Rightarrow> string \<Rightarrow> string option \<Rightarrow> (hw_event_t \<times> hw_subevent_t) result" where
  "find_event pmu name sub = (case List.find (\<lambda>e. he_name e = name) (pi_events pmu) of
     None \<Rightarrow> Some (Inl (-2))
   | Some e \<Rightarrow> (case sub of
       None \<Rightarrow> do { s \<leftarrow> rd (he_subevents e) 0; Some (Inr (e, s)) }
     | Some v \<Rightarrow> (case List.find (\<lambda>s. hs_name s = v) (he_subevents e) of
         None \<Rightarrow> Some (Inl (-2)) | Some s \<Rightarrow> Some (Inr (e, s)))))"

text \<open>An event named by its code or by its name.\<close>

definition named_event :: "pmu_info_t \<Rightarrow> string \<Rightarrow> string \<Rightarrow> string option \<Rightarrow> cfg_state \<Rightarrow> (event_cfg_t \<times> cfg_state) result" where
  "named_event pmu name key sub st =
     (if take 2 key = ''0x''
      then do {
        code \<leftarrow> fits CODE_HW_EVENT_SIZE key;
        Some (Inr (\<lparr>ec_counter = -1, ec_exp = 0, ec_name = name, ec_code = code, ec_properties = []\<rparr>, st))
      } else result_bind (find_event pmu key sub) (\<lambda>(ev, s).
        let e = \<lparr>ec_counter = he_pmcn ev, ec_exp = 0, ec_name = name, ec_code = he_code ev, ec_properties = hs_properties s\<rparr>
        in if he_pmcn ev > -1 then do { r \<leftarrow> force_counter (he_pmcn ev) e st; Some (Inr r) } else Some (Inr (e, st))))"

definition event_row :: "pmu_info_t \<Rightarrow> int \<Rightarrow> string \<Rightarrow> cfg_state \<Rightarrow> cfg_state result" where
  "event_row pmu max_core_types row st = (
     let fields = split_on (CHR '':'') row; toks = split_on (CHR ''.'') (hd fields); key = hd toks; sub = second toks
     in do {
       name \<leftarrow> fits COMPLETE_EVENT_CFG_SIZE (hd fields);
       case sscanf True key ''coretype=%d'' of
         ind # _ \<Rightarrow> (if sint ind < 0 \<or> sint ind \<ge> max_core_types then Some (Inl (-2)) else Some (Inr (st\<lparr>st_coretype := sint ind\<rparr>)))
       | [] \<Rightarrow> result_bind (named_event pmu name key sub st) (\<lambda>r.
           result_bind (each_result (user_flag pmu) (tl fields) r) (\<lambda>(e, st).
             if List.length (st_events st) < MAX_NR_EVENTS_CFG then Some (Inr (st\<lparr>st_events := st_events st @ [e]\<rparr>)) else None))
     })"

section \<open>Counters for the events\<close>

definition taken :: "event_cfg_t list \<Rightarrow> nat \<Rightarrow> nat \<Rightarrow> bool" where
  "taken events e x \<longleftrightarrow> list_ex (\<lambda>f. ec_exp f = e \<and> ec_counter f = int x) events"

text \<open>The search of a free counter from \<open>x\<close>, as its loop does it: the flag says whether the last one looked at is taken.\<close>

function search_loop :: "event_cfg_t list \<Rightarrow> nat \<Rightarrow> nat \<Rightarrow> nat \<Rightarrow> bool \<Rightarrow> nat \<times> bool" where
  "search_loop events e lim x found =
     (if x < lim \<and> found then (if taken events e x then search_loop events e lim (x + 1) True else search_loop events e lim x False)
      else (x, found))"
  by pat_completeness auto
termination by (relation "measure (\<lambda>(events, e, lim, x, found). 2 * (lim - x) + (if found then 1 else 0))") auto

declare search_loop.simps [simp del]

text \<open>An event without a counter gets the first free one of an experiment, or of the next one. Without counters for general
  purposes the loop does not end.\<close>

partial_function (option) assign_loop ::
  "nat \<Rightarrow> nat \<Rightarrow> event_cfg_t list \<Rightarrow> nat \<Rightarrow> nat \<Rightarrow> nat \<Rightarrow> u32 \<Rightarrow> (event_cfg_t list \<times> nat \<times> u32) option" where
  "assign_loop first lim events ind x actual_exp pmc_mask =
     (if ind < List.length events then
        (if ec_counter (events ! ind) = -1 then
           (let y = fst (search_loop events actual_exp lim x True)
            in if snd (search_loop events actual_exp lim x True) then assign_loop first lim events ind first (actual_exp + 1) pmc_mask
               else assign_loop first lim (events[ind := (events ! ind)\<lparr>ec_counter := int y, ec_exp := actual_exp\<rparr>]) (ind + 1) y actual_exp
                 (if actual_exp = 0 then pmc_mask OR push_bit y 1 else pmc_mask))
         else assign_loop first lim events (ind + 1) x actual_exp pmc_mask)
      else Some (events, actual_exp, pmc_mask))"

declare assign_loop.simps [code]

section \<open>Strings for the kernel\<close>

text \<open>The flags of an event in a raw string.\<close>

definition counter_string :: "int \<Rightarrow> string" where
  "counter_string c = (if c < 0 then CHR ''-'' # dec_string (nat (- c)) else dec_string (nat c))"

definition pmc_token :: "pmu_info_t \<Rightarrow> event_cfg_t \<Rightarrow> string" where
  "pmc_token pmu e = ''pmc'' @ counter_string (ec_counter e) @
     (if ec_counter e < int (pi_nr_fixed_pmcs pmu) then [] else CHR ''='' # ec_code e)"

definition property_token :: "event_cfg_t \<Rightarrow> pmc_property_t \<Rightarrow> string" where
  "property_token e p = pr_key p @ counter_string (ec_counter e) @ (if pr_value p \<noteq> [] then CHR ''='' # pr_value p else [])"

text \<open>\<^verbatim>\<open>strcat\<close> to an array of \<open>ROW_CFG_SIZE\<close> characters.\<close>

definition append_token :: "string \<Rightarrow> string \<Rightarrow> string option" where
  "append_token tok row = do {
     tok \<leftarrow> fits ROW_CFG_SIZE tok;
     fits ROW_CFG_SIZE (if row \<noteq> [] then row @ CHR '','' # tok else tok)
   }"

definition event_string :: "pmu_info_t \<Rightarrow> event_cfg_t \<Rightarrow> string \<Rightarrow> string option" where
  "event_string pmu e row = do {
     row \<leftarrow> append_token (pmc_token pmu e) row;
     foldM (\<lambda>p. append_token (property_token e p)) (ec_properties e) row
   }"

text \<open>The entry of the mapping and the string of the experiment of an event. The entries beyond the experiments are not
  initialised: \<open>None\<close>.\<close>

definition map_event :: "event_cfg_t \<Rightarrow> counter_mapping_t list \<Rightarrow> counter_mapping_t list option" where
  "map_event e m = do {
     c \<leftarrow> rd_int m (ec_counter e);
     let c = (if cm_nr_counter c = -1 then c\<lparr>cm_nr_counter := ec_counter e, cm_experiment_mask := 0\<rparr> else c);
     evs \<leftarrow> wr (cm_events c) (ec_exp e) (Some (ec_name e));
     b \<leftarrow> flag_bit (int (ec_exp e));
     wr_int m (ec_counter e) (c\<lparr>cm_events := evs, cm_experiment_mask := cm_experiment_mask c OR b\<rparr>)
   }"

definition emit_event :: "pmu_info_t \<Rightarrow> event_cfg_t \<Rightarrow> counter_mapping_t list \<times> string list \<Rightarrow> (counter_mapping_t list \<times> string list) option" where
  "emit_event pmu e = (\<lambda>(m, raws). do {
     m \<leftarrow> map_event e m;
     row \<leftarrow> rd raws (ec_exp e);
     row \<leftarrow> event_string pmu e row;
     raws \<leftarrow> wr raws (ec_exp e) row;
     Some (m, raws)
   })"

text \<open>The mask of the counters of the first experiment, the mapping and the strings; \<open>mapping\<close> is what is in the array of the
  caller, of \<open>MAX_PERFORMANCE_COUNTERS\<close> entries, and the array of strings has \<open>MAX_COUNTER_CONFIGS\<close>.\<close>

definition generate_strings ::
  "pmu_info_t \<Rightarrow> event_cfg_t list \<Rightarrow> nat \<Rightarrow> int \<Rightarrow> counter_mapping_t list \<Rightarrow> (counter_mapping_t list \<times> string list) option" where
  "generate_strings pmu events nr_exps coretype m = do {
     raws \<leftarrow> (if nr_exps \<le> MAX_COUNTER_CONFIGS then Some (replicate nr_exps []) else None);
     m \<leftarrow> foldM (\<lambda>i m. do { c \<leftarrow> rd m i; wr m i (c\<lparr>cm_nr_counter := -1\<rparr>) }) [0..<pi_nr_fixed_pmcs pmu + pi_nr_gp_pmcs pmu] m;
     (m, raws) \<leftarrow> foldM (emit_event pmu) events (m, raws);
     raws \<leftarrow> (if coretype \<noteq> -1 then those (map (\<lambda>r. fits ROW_CFG_SIZE (r @ '',coretype='' @ counter_string coretype)) raws) else Some raws);
     Some (m, raws)
   }"

text \<open>The events of a string before they have counters.\<close>

definition string_events :: "pmu_info_t \<Rightarrow> int \<Rightarrow> string \<Rightarrow> cfg_state result" where
  "string_events pmu max_core_types row_cfg = each_result (event_row pmu max_core_types) (split_on (CHR '','') row_cfg)
     \<lparr>st_events = [], st_pmc_mask = 0, st_highest_exp = 0, st_coretype = -1\<rparr>"

text \<open>The events of a string, placed: the events, the number of experiments, the core type and the mask of the counters of the first
  experiment.\<close>

definition place_events :: "pmu_info_t \<Rightarrow> int \<Rightarrow> string \<Rightarrow> (event_cfg_t list \<times> nat \<times> int \<times> u32) result" where
  "place_events pmu max_core_types strcfg = do {
     row_cfg \<leftarrow> fits ROW_CFG_SIZE strcfg;
     result_bind (string_events pmu max_core_types row_cfg) (\<lambda>st. do {
       let first = pi_nr_fixed_pmcs pmu;
       (events, actual_exp, pmc_mask) \<leftarrow>
         assign_loop first (first + pi_nr_gp_pmcs pmu) (st_events st) 0 first 0 (st_pmc_mask st);
       Some (Inr (events, max (st_highest_exp st) actual_exp + 1, st_coretype st, pmc_mask))
     })
   }"

definition pmct_parse_counter_string ::
  "pmu_info_t option \<Rightarrow> int \<Rightarrow> string \<Rightarrow> counter_mapping_t list \<Rightarrow> (string list \<times> u32 \<times> counter_mapping_t list) result" where
  "pmct_parse_counter_string pmu max_core_types strcfg m = (case pmu of
     None \<Rightarrow> Some (Inl (-1))
   | Some pmu \<Rightarrow> result_bind (place_events pmu max_core_types strcfg) (\<lambda>(events, nr_exps, coretype, pmc_mask). do {
       (m, raws) \<leftarrow> generate_strings pmu events nr_exps coretype m;
       Some (Inr (raws, pmc_mask, m))
     }))"

section \<open>Several strings\<close>

definition no_mapping :: "counter_mapping_t list" where
  "no_mapping = replicate MAX_PERFORMANCE_COUNTERS
     \<lparr>cm_nr_counter = 0, cm_events = replicate MAX_COUNTER_CONFIGS None, cm_experiment_mask = 0\<rparr>"

text \<open>The events of one counter, moved by \<open>base\<close> experiments.\<close>

definition merge_event :: "counter_mapping_t \<Rightarrow> nat \<Rightarrow> nat \<Rightarrow> counter_mapping_t \<Rightarrow> counter_mapping_t result" where
  "merge_event src base j dst =
     (if \<not> bit (cm_experiment_mask src) j then Some (Inr dst)
      else do {
        b \<leftarrow> flag_bit (int (j + base));
        if cm_experiment_mask dst AND b \<noteq> 0 then Some (Inl 1)
        else do {
          e \<leftarrow> rd (cm_events src) j;
          evs \<leftarrow> wr (cm_events dst) (j + base) e;
          Some (Inr (dst\<lparr>cm_experiment_mask := cm_experiment_mask dst OR b, cm_events := evs\<rparr>))
        }
      })"

definition merge_counter ::
  "counter_mapping_t list \<Rightarrow> u32 \<Rightarrow> nat \<Rightarrow> nat \<Rightarrow> counter_mapping_t list \<Rightarrow> counter_mapping_t list result" where
  "merge_counter src pmcmask base i dst =
     (if \<not> bit pmcmask i then Some (Inr dst)
      else do {
        s \<leftarrow> rd src i;
        d \<leftarrow> rd dst i;
        result_bind (each_result (merge_event s base) [0..<MAX_COUNTER_CONFIGS] d)
          (\<lambda>d. do { dst \<leftarrow> wr dst i d; Some (Inr dst) })
      })"

definition merge_counter_mappings ::
  "counter_mapping_t list \<Rightarrow> counter_mapping_t list \<Rightarrow> u32 \<Rightarrow> nat \<Rightarrow> counter_mapping_t list result" where
  "merge_counter_mappings dst src pmcmask base = each_result (merge_counter src pmcmask base) [0..<32] dst"

text \<open>What is kept of each string: its mapping, its mask and the number of its experiments.\<close>

record string_data =
  sd_mapping :: "counter_mapping_t list"
  sd_pmcmask :: u32
  sd_nr_exps :: nat

definition parse_one :: "pmu_info_t option \<Rightarrow> int \<Rightarrow> string \<Rightarrow> string list \<times> string_data list \<Rightarrow> (string list \<times> string_data list) result" where
  "parse_one pmu nr_pmus cfg = (\<lambda>(raws, aux).
     if MAX_COUNTER_CONFIGS \<le> List.length aux then None
     else (case pmct_parse_counter_string pmu nr_pmus cfg no_mapping of
         None \<Rightarrow> None
       | Some (Inl _) \<Rightarrow> Some (Inl 1)
       | Some (Inr (rs, pmcmask, m)) \<Rightarrow>
           if List.length raws + List.length rs > MAX_COUNTER_CONFIGS then Some (Inl 2)
           else Some (Inr (raws @ rs, aux @ [\<lparr>sd_mapping = m, sd_pmcmask = pmcmask, sd_nr_exps = List.length rs\<rparr>]))))"

definition merge_one :: "string_data \<Rightarrow> counter_mapping_t list \<times> u32 \<times> nat \<Rightarrow> (counter_mapping_t list \<times> u32 \<times> nat) result" where
  "merge_one sd = (\<lambda>(m, mask, base).
     case merge_counter_mappings m (sd_mapping sd) (sd_pmcmask sd) base of
       None \<Rightarrow> None
     | Some (Inl _) \<Rightarrow> Some (Inl 3)
     | Some (Inr m) \<Rightarrow> Some (Inr (m, mask OR sd_pmcmask sd, base + sd_nr_exps sd)))"

text \<open>The raw strings, their number, the mask and the mapping; raw input is copied, and only that.\<close>

definition pmct_parse_pmc_configuration ::
  "pmu_info_t option \<Rightarrow> int \<Rightarrow> string list \<Rightarrow> bool \<Rightarrow> int \<Rightarrow> (string list \<times> (nat \<times> u32 \<times> counter_mapping_t list) option) result" where
  "pmct_parse_pmc_configuration pmu nr_pmus user_cfg raw nr_coretype =
     (if raw then Some (Inr (user_cfg, None))
      else if nr_coretype \<ge> nr_pmus then Some (Inl 1)
      else result_bind (each_result (parse_one pmu nr_pmus) user_cfg ([], [])) (\<lambda>(raws, aux).
        let first = (case aux of [] \<Rightarrow> \<lparr>sd_mapping = no_mapping, sd_pmcmask = 0, sd_nr_exps = 0\<rparr> | a # _ \<Rightarrow> a)
        in result_bind (each_result merge_one (tl aux) (sd_mapping first, sd_pmcmask first, sd_nr_exps first)) (\<lambda>(m, mask, n).
          Some (Inr (raws, Some (n, mask, m))))))"

section \<open>Virtual counters\<close>

text \<open>A virtual counter by its number or by its name; \<open>vci\<close> are the names, if they can be read. The last component says whether they
  were.\<close>

definition vcounter_token :: "string list option \<Rightarrow> string \<Rightarrow> u32 \<times> nat \<times> bool \<Rightarrow> (u32 \<times> nat \<times> bool) result" where
  "vcounter_token vci flag = (\<lambda>(virtmask, counters, mnemonics).
     case sscanf True flag ''virt%i=%x'' of
       idx # _ \<Rightarrow> do {
         b \<leftarrow> flag_bit (sint idx);
         if virtmask AND b \<noteq> 0 then Some (Inl 1) else Some (Inr (virtmask OR b, counters + 1, mnemonics))
       }
     | [] \<Rightarrow> (case vci of
         None \<Rightarrow> Some (Inl 1)
       | Some names \<Rightarrow> do {
           let idx = List.length (takeWhile (\<lambda>n. n \<noteq> flag) names);
           if idx = List.length names then Some (Inl 1)
           else do {
             b \<leftarrow> flag_bit (int idx);
             if virtmask AND b \<noteq> 0 then Some (Inl 1) else Some (Inr (virtmask OR b, counters + 1, True))
           }
         }))"

definition parse_vcounters :: "string list option \<Rightarrow> string \<Rightarrow> (u32 \<times> nat \<times> bool) result" where
  "parse_vcounters vci virtcfg = do {
     cfg \<leftarrow> fits (MAX_CONFIG_STRING_SIZE + 1) virtcfg;
     each_result (vcounter_token vci) (split_on (CHR '','') cfg) (0, 0, False)
   }"

text \<open>The string of the counters of a mask.\<close>

definition virt_string :: "u32 \<Rightarrow> string" where
  "virt_string virtmask = join_with (CHR '','') (map (\<lambda>i. ''virt'' @ dec_string i) (filter (bit virtmask) [0..<MAX_VIRTUAL_COUNTERS]))"

text \<open>The length of its buffer, as the code computes it: a comment swallows an operator, and what was to be a sum is a product.\<close>

definition virt_length :: "nat \<Rightarrow> nat" where
  "virt_length nr_virtual_counters = 1 + 5 * nr_virtual_counters * (nr_virtual_counters - 1)"

definition pmct_parse_vcounter_config :: "string list option \<Rightarrow> string \<Rightarrow> (u32 \<times> nat \<times> bool \<times> string) result" where
  "pmct_parse_vcounter_config vci virtcfg =
     result_bind (parse_vcounters vci virtcfg) (\<lambda>(virtmask, n, mnemonics). do {
       cfg \<leftarrow> fits (virt_length n) (virt_string virtmask);
       Some (Inr (virtmask, n, mnemonics, cfg))
     })"

end
