(* ===== verification/ConfigItems.thy ===== *)
theory ConfigItems
  imports EventStrings
begin

text \<open>
  One flag of a raw configuration string: what is printed by the library is read by the kernel module.
\<close>

section \<open>Numbers in strings\<close>

lemma digit_value_char [simp]: "d < 16 \<Longrightarrow> digit_value (digit_char d) = Some d"
  by (auto simp: digit_value_def digit_char_def)

lemma digit_char_0: "digit_char 0 = CHR ''0''"
  by code_simp

lemma num_string_not_Nil [simp]: "num_string b n \<noteq> []"
  by (subst num_string.simps) simp

lemma scan_digits_end: "r = [] \<or> \<not> is_digit base (hd r) \<Longrightarrow> scan_digits base acc r = (acc, r)"
  by (cases r) (auto simp: is_digit_def split: option.splits)

lemma scan_digits_num:
  assumes "2 \<le> base" and "base \<le> 16"
  shows "scan_digits base acc (num_string base n @ r) = scan_digits base (acc * base ^ length (num_string base n) + n) r"
  using assms
proof (induction base n arbitrary: acc r rule: num_string.induct)
  case (1 base n)
  show ?case
  proof (cases "n < base")
    case True
    then show ?thesis using 1 by (subst (1 2) num_string.simps) simp
  next
    case False
    have IH: "scan_digits base acc (num_string base (n div base) @ r) =
        scan_digits base (acc * base ^ length (num_string base (n div base)) + n div base) r" for acc r
      using 1 False by simp
    have m: "n mod base < base" using 1 by simp
    then have "n mod base < 16" using 1(3) by linarith
    then have dv: "digit_value (digit_char (n mod base)) = Some (n mod base)" by simp
    have e: "acc * base ^ l * base + (n div base) * base + n mod base = acc * base ^ Suc l + n" for l
      by (simp add: algebra_simps)
    show ?thesis using False 1 m e dv by (subst (1 2) num_string.simps) (simp add: IH algebra_simps)
  qed
qed

lemma num_string_hd:
  assumes "2 \<le> base"
  shows "\<exists>d<base. hd (num_string base n) = digit_char d \<and> (n > 0 \<longrightarrow> d > 0)"
  using assms
proof (induction base n rule: num_string.induct)
  case (1 base n)
  show ?case
  proof (cases "n < base")
    case True
    then show ?thesis by (subst num_string.simps) auto
  next
    case False
    then have "0 < n div base" using 1 by (simp add: div_greater_zero_iff)
    then show ?thesis using 1 False by (subst num_string.simps) simp
  qed
qed

lemma digit_char_props:
  assumes "d < 10"
  shows "\<not> is_space (digit_char d)" "digit_char d \<noteq> CHR ''-''" "digit_char d \<noteq> CHR ''+''" "d > 0 \<Longrightarrow> digit_char d \<noteq> CHR ''0''"
    "is_digit 10 (digit_char d)" "digit_char d \<noteq> CHR '',''" "digit_char d \<noteq> CHR ''=''"
proof -
  have v: "of_char (digit_char d) = 48 + d" using assms by (simp add: digit_char_def)
  show "\<not> is_space (digit_char d)" using v assms by (simp add: is_space_def)
  show "is_digit 10 (digit_char d)" using v assms by (simp add: is_digit_def digit_value_def)
  have n: "digit_char d \<noteq> c" if "of_char c \<noteq> 48 + d" for c using that v by auto
  show "digit_char d \<noteq> CHR ''-''" "digit_char d \<noteq> CHR ''+''" "d > 0 \<Longrightarrow> digit_char d \<noteq> CHR ''0''"
    "digit_char d \<noteq> CHR '',''" "digit_char d \<noteq> CHR ''=''" using assms by (intro n; simp)+
qed

lemma set_num_string:
  assumes "2 \<le> base"
  shows "c \<in> set (num_string base n) \<Longrightarrow> \<exists>d<base. c = digit_char d"
  using assms
proof (induction base n rule: num_string.induct)
  case (1 base n)
  show ?case
  proof (cases "n < base")
    case True
    then show ?thesis using 1(2) by (subst (asm) num_string.simps) auto
  next
    case False
    have "c \<in> set (num_string base (n div base)) \<or> c = digit_char (n mod base)"
      using 1(2,3) False by (subst (asm) num_string.simps) auto
    then show ?thesis using 1 False by (auto intro: exI [of _ "n mod base"])
  qed
qed

lemma dec_string_chars: "c \<in> set (dec_string n) \<Longrightarrow> c \<noteq> CHR '','' \<and> c \<noteq> CHR ''=''"
  using set_num_string [of 10 c n] digit_char_props(6,7) by (auto simp: dec_string_def)

text \<open>A number that is printed is read back, at the end of a string or before its value.\<close>

lemma scan_number_dec:
  assumes n: "n < 2 ^ 31" and r: "r = [] \<or> hd r = CHR ''=''" and b: "base = 0 \<or> base = 10"
  shows "scan_number libc base True (dec_string n @ r) = Some (of_nat n, r)"
proof -
  let ?s = "num_string 10 n"
  obtain d where d: "d < 10" "hd ?s = digit_char d" "n > 0 \<longrightarrow> d > 0" using num_string_hd [of 10 n] by auto
  have hd: "hd (?s @ r) = digit_char d" "?s @ r \<noteq> []" using d by simp_all
  then obtain t where t: "?s @ r = digit_char d # t" by (cases "?s @ r") auto
  have sp: "dropWhile is_space (?s @ r) = ?s @ r" using digit_char_props(1) [OF d(1)] by (simp add: t)
  have neg: "hd (?s @ r) \<noteq> CHR ''-''" "hd (?s @ r) \<noteq> CHR ''+''" using digit_char_props(2,3) [OF d(1)] hd(1) by simp_all
  have dg: "is_digit 10 (hd (?s @ r))" using digit_char_props(5) [OF d(1)] hd(1) by simp
  have nr: "r = [] \<or> \<not> is_digit 10 (hd r)" using r by (auto simp: is_digit_def digit_value_def)
  have sc: "scan_digits 10 0 (?s @ r) = (n, r)" by (simp add: scan_digits_num scan_digits_end [OF nr])
  have rad: "(case radix base (?s @ r) of (b, ds) \<Rightarrow> scan_digits b 0 ds) = (n, r)"
  proof (cases "n = 0")
    case True
    then have s: "?s = ''0''" by (subst num_string.simps) (simp add: digit_char_0)
    have "r = [] \<or> \<not> is_digit 8 (hd r)" using r by (auto simp: is_digit_def digit_value_def)
    then have e: "scan_digits b 0 (''0'' @ r) = (0, r)" if "b = 8 \<or> b = 10" for b
      using that nr by (auto simp: digit_value_def intro!: scan_digits_end)
    have "radix base (''0'' @ r) = (if base = 0 then 8 else base, ''0'' @ r)"
    proof (cases r)
      case Nil
      then show ?thesis by (simp add: radix_def)
    next
      case (Cons x t)
      then show ?thesis using r by (cases t) (simp_all add: radix_def)
    qed
    then show ?thesis using e b unfolding s by (auto simp: True)
  next
    case False
    then have "digit_char d \<noteq> CHR ''0''" using d digit_char_props(4) by auto
    then have "radix base (?s @ r) = (10, ?s @ r)" using b by (auto simp: radix_def t split: list.splits)
    then show ?thesis using sc by simp
  qed
  then obtain b' ds where rad': "radix base (?s @ r) = (b', ds)" "scan_digits b' 0 ds = (n, r)" by (cases "radix base (?s @ r)") auto
  have mx: "max (- (2 ^ 63)) (min (2 ^ 63 - 1) (int n)) = int n" using n by simp
  have b16: "base \<noteq> 16" using b by auto
  show ?thesis using neg hd(2) dg rad' mx b16 unfolding scan_number_def dec_string_def Let_def sp by simp
qed

text \<open>The beginning of a format.\<close>

lemma scan_literal: "scan libc (map Lit w @ ds) (w @ s) = scan libc ds s"
  by (induction w) simp_all

text \<open>A flag: a name, the number of a counter, and a value.\<close>

definition flag_text :: "string \<Rightarrow> nat \<Rightarrow> string \<Rightarrow> string" where
  "flag_text name c v = name @ dec_string c @ (if v \<noteq> [] then CHR ''='' # v else [])"

lemma scan_flag:
  assumes c: "c < 2 ^ 31" and f: "directives format = map Lit name @ [Conv 0 True, Lit (CHR ''=''), Conv base sg]"
  shows "sscanf libc (flag_text name c v) format =
    of_nat c # (case scan_number libc base sg v of None \<Rightarrow> [] | Some (x, _) \<Rightarrow> [x])"
proof -
  have e: "scan_number libc base sg [] = None" by (simp add: scan_number_def)
  have "scan_number libc 0 True (dec_string c @ (if v \<noteq> [] then CHR ''='' # v else [])) =
      Some (of_nat c, if v \<noteq> [] then CHR ''='' # v else [])"
    by (rule scan_number_dec [OF c]) simp_all
  then show ?thesis unfolding sscanf_def f flag_text_def by (simp add: scan_literal e split: option.splits)
qed

text \<open>A format that asks for another name.\<close>

fun lit_clash :: "string \<Rightarrow> string \<Rightarrow> bool" where
  "lit_clash [] n = False"
| "lit_clash (x # w) [] = (\<not> is_digit 10 x)"
| "lit_clash (x # w) (y # n) = (x \<noteq> y \<or> lit_clash w n)"

lemma scan_clash:
  assumes "directives format = map Lit w @ ds" and "lit_clash w name"
  shows "sscanf libc (flag_text name c v) format = []"
proof -
  have "scan libc (map Lit w @ ds) (name @ dec_string c @ s) = []" for s
    using assms(2)
  proof (induction w name rule: lit_clash.induct)
    case (2 x w)
    obtain d where d: "d < 10" "hd (num_string 10 c) = digit_char d" using num_string_hd [of 10 c] by auto
    obtain t where t: "num_string 10 c = digit_char d # t" using d(2) by (cases "num_string 10 c") auto
    have "digit_char d \<noteq> x" using 2 digit_char_props(5) [OF d(1)] by auto
    then show ?case by (simp add: dec_string_def t)
  qed auto
  then show ?thesis unfolding sscanf_def assms(1) flag_text_def by simp
qed

lemma formats:
  "directives ''pmc%i=%x'' = map Lit ''pmc'' @ [Conv 0 True, Lit (CHR ''=''), Conv 16 False]"
  "directives ''umask%i=%x'' = map Lit ''umask'' @ [Conv 0 True, Lit (CHR ''=''), Conv 16 False]"
  "directives ''um%i=%x'' = map Lit ''um'' @ [Conv 0 True, Lit (CHR ''=''), Conv 16 False]"
  "directives ''cmask%i=%x'' = map Lit ''cmask'' @ [Conv 0 True, Lit (CHR ''=''), Conv 16 False]"
  "directives ''cm%i=%x'' = map Lit ''cm'' @ [Conv 0 True, Lit (CHR ''=''), Conv 16 False]"
  "directives ''usr%i=%d'' = map Lit ''usr'' @ [Conv 0 True, Lit (CHR ''=''), Conv 10 True]"
  "directives ''os%i=%d'' = map Lit ''os'' @ [Conv 0 True, Lit (CHR ''=''), Conv 10 True]"
  "directives ''edge%i=%d'' = map Lit ''edge'' @ [Conv 0 True, Lit (CHR ''=''), Conv 10 True]"
  "directives ''inv%i=%d'' = map Lit ''inv'' @ [Conv 0 True, Lit (CHR ''=''), Conv 10 True]"
  "directives ''any%i=%d'' = map Lit ''any'' @ [Conv 0 True, Lit (CHR ''=''), Conv 10 True]"
  "directives ''ebs%i=%d'' = map Lit ''ebs'' @ [Conv 0 True, Lit (CHR ''=''), Conv 10 True]"
  "directives ''ebs%i=%x'' = map Lit ''ebs'' @ [Conv 0 True, Lit (CHR ''=''), Conv 16 False]"
  "directives ''coretype=%d'' = map Lit ''coretype='' @ [Conv 10 True]"
  by simp_all

lemmas clashes = formats(1-12) [THEN scan_clash]
lemmas flag_rules = formats(1-11) [THEN scan_flag [rotated]]

lemma no_coretype: "lit_clash ''coretype='' name \<Longrightarrow> sscanf libc (flag_text name c v) ''coretype=%d'' = []"
  by (rule scan_clash [OF formats(13)])

section \<open>What the kernel reads of a flag\<close>

text \<open>The selection of an event, or a property of it.\<close>

datatype item = Pmc string | Property string string

definition hex_value :: "string \<Rightarrow> u32 option" where "hex_value t = map_option fst (scan_number False 16 False t)"
definition dec_value :: "string \<Rightarrow> u32 option" where "dec_value t = map_option fst (scan_number False 10 True t)"

definition bit_keys :: "string list" where "bit_keys = [''usr'', ''os'', ''edge'', ''inv'', ''any'']"

definition is_ebs :: "item \<Rightarrow> bool" where
  "is_ebs it = (case it of Property k v \<Rightarrow> k = ''ebs'' | Pmc c \<Rightarrow> False)"

definition is_pmc :: "item \<Rightarrow> bool" where
  "is_pmc it = (case it of Property k v \<Rightarrow> False | Pmc c \<Rightarrow> True)"

text \<open>What the kernel accepts.\<close>

definition readable_item :: "item \<Rightarrow> bool" where
  "readable_item it = (case it of
     Pmc code \<Rightarrow> CHR '','' \<notin> set code
   | Property k v \<Rightarrow> CHR '','' \<notin> set v \<and>
       (if k \<in> {''umask'', ''um'', ''cmask'', ''cm''} then hex_value v \<noteq> None
        else if k \<in> set bit_keys then dec_value v \<in> {None, Some 0, Some 1} else k = ''ebs''))"

text \<open>What it means.\<close>

definition item_cfg :: "item \<Rightarrow> pmc_usrcfg_t \<Rightarrow> pmc_usrcfg_t" where
  "item_cfg it c = (case it of
     Pmc code \<Rightarrow> (case hex_value code of None \<Rightarrow> c\<lparr>cfg_usr := 1\<rparr> | Some v \<Rightarrow> c\<lparr>cfg_usr := 1, cfg_evtsel := v\<rparr>)
   | Property k v \<Rightarrow>
       (let h = ucast (the (hex_value v)) :: u8; b = (case dec_value v of None \<Rightarrow> 1 | Some d \<Rightarrow> ucast d) :: u8
        in if k = ''umask'' \<or> k = ''um'' then c\<lparr>cfg_umask := h\<rparr> else if k = ''cmask'' \<or> k = ''cm'' then c\<lparr>cfg_cmask := h\<rparr>
           else if k = ''usr'' then c\<lparr>cfg_usr := b\<rparr> else if k = ''os'' then c\<lparr>cfg_os := b\<rparr>
           else if k = ''edge'' then c\<lparr>cfg_edge := b\<rparr> else if k = ''inv'' then c\<lparr>cfg_inv := b\<rparr>
           else if k = ''any'' then c\<lparr>cfg_any := b\<rparr>
           else c\<lparr>cfg_ebs_mode := 1, cfg_reset_value := (case dec_value v of None \<Rightarrow> default_ebs_window | Some d \<Rightarrow> ucast d)\<rparr>))"

definition apply_item :: "nat \<times> item \<Rightarrow> pmc_config_set_t \<Rightarrow> pmc_config_set_t" where
  "apply_item ci s = (let c = fst ci; it = snd ci in
     \<lparr>pmc_cfg = (pmc_cfg s)[c := item_cfg it (pmc_cfg s ! c)],
      cs_used_pmcs = (if is_pmc it then cs_used_pmcs s OR push_bit c 1 else cs_used_pmcs s),
      cs_nr_pmcs = (if is_pmc it then cs_nr_pmcs s + 1 else cs_nr_pmcs s),
      cs_ebs_index = (if is_ebs it then int c else cs_ebs_index s), cs_coretype = cs_coretype s\<rparr>)"

definition item_text :: "nat \<times> item \<Rightarrow> string" where
  "item_text ci = (case snd ci of Pmc code \<Rightarrow> flag_text ''pmc'' (fst ci) code | Property k v \<Rightarrow> flag_text k (fst ci) v)"

lemma counter_of_nat: "c < MAX_LL_EXPS \<Longrightarrow> counter_id (of_nat c)" "c < MAX_LL_EXPS \<Longrightarrow> unat (of_nat c :: u32) = c"
  "c < MAX_LL_EXPS \<Longrightarrow> sint (of_nat c :: u32) = int c"
proof -
  assume c: "c < MAX_LL_EXPS"
  then have c': "c < 11" by (simp add: MAX_LL_EXPS_def)
  show u: "unat (of_nat c :: u32) = c" using c' by (simp add: unat_of_nat)
  show s: "sint (of_nat c :: u32) = int c" using c' by (simp add: signed_of_nat signed_take_bit_int_eq_self)
  show "counter_id (of_nat c)" using c by (simp add: counter_id_def s)
qed

lemma upd_cfg_of_nat: "c < MAX_LL_EXPS \<Longrightarrow> upd_cfg (of_nat c) f s = s\<lparr>pmc_cfg := (pmc_cfg s)[c := f (pmc_cfg s ! c)]\<rparr>"
  by (simp add: upd_cfg_def counter_of_nat)

lemmas parse_simps = parse_flag_def pmc_flag_def value_flag_def bit_flag_def ebs_flag_def coretype_flag_def orelse_def

lemma no_flag:
  assumes "lit_clash ''pmc'' k"
  shows "pmc_flag (flag_text k c v) s = None"
  using assms by (simp add: pmc_flag_def clashes)

lemma pmc_item:
  assumes c: "c < MAX_LL_EXPS" and l: "length (pmc_cfg s) = MAX_LL_EXPS"
  shows "parse_flag True (item_text (c, Pmc code)) s = Some (apply_item (c, Pmc code) s)"
proof -
  have b: "c < 2 ^ 31" using c by (simp add: MAX_LL_EXPS_def)
  have "sscanf False (flag_text ''pmc'' c code) ''pmc%i=%x'' = of_nat c # (case hex_value code of None \<Rightarrow> [] | Some x \<Rightarrow> [x])"
    using scan_flag [OF b formats(1), where libc = False and v = code] by (simp add: hex_value_def split: option.splits)
  then show ?thesis using c l
    by (cases "hex_value code") (simp_all add: parse_flag_def orelse_def pmc_flag_def item_text_def counter_of_nat upd_cfg_of_nat
      apply_item_def item_cfg_def is_pmc_def is_ebs_def)
qed

text \<open>The value of a flag.\<close>

lemma flag_values:
  assumes "c < MAX_LL_EXPS"
  shows "sscanf False (flag_text ''umask'' c v) ''umask%i=%x'' = of_nat c # (case hex_value v of None \<Rightarrow> [] | Some x \<Rightarrow> [x])"
    "sscanf False (flag_text ''um'' c v) ''um%i=%x'' = of_nat c # (case hex_value v of None \<Rightarrow> [] | Some x \<Rightarrow> [x])"
    "sscanf False (flag_text ''cmask'' c v) ''cmask%i=%x'' = of_nat c # (case hex_value v of None \<Rightarrow> [] | Some x \<Rightarrow> [x])"
    "sscanf False (flag_text ''cm'' c v) ''cm%i=%x'' = of_nat c # (case hex_value v of None \<Rightarrow> [] | Some x \<Rightarrow> [x])"
    "sscanf False (flag_text ''usr'' c v) ''usr%i=%d'' = of_nat c # (case dec_value v of None \<Rightarrow> [] | Some x \<Rightarrow> [x])"
    "sscanf False (flag_text ''os'' c v) ''os%i=%d'' = of_nat c # (case dec_value v of None \<Rightarrow> [] | Some x \<Rightarrow> [x])"
    "sscanf False (flag_text ''edge'' c v) ''edge%i=%d'' = of_nat c # (case dec_value v of None \<Rightarrow> [] | Some x \<Rightarrow> [x])"
    "sscanf False (flag_text ''inv'' c v) ''inv%i=%d'' = of_nat c # (case dec_value v of None \<Rightarrow> [] | Some x \<Rightarrow> [x])"
    "sscanf False (flag_text ''any'' c v) ''any%i=%d'' = of_nat c # (case dec_value v of None \<Rightarrow> [] | Some x \<Rightarrow> [x])"
    "sscanf False (flag_text ''ebs'' c v) ''ebs%i=%d'' = of_nat c # (case dec_value v of None \<Rightarrow> [] | Some x \<Rightarrow> [x])"
proof -
  have b: "c < 2 ^ 31" using assms by (simp add: MAX_LL_EXPS_def)
  have h: "(case scan_number False 16 False v of None \<Rightarrow> [] | Some (x, _) \<Rightarrow> [x]) = (case hex_value v of None \<Rightarrow> [] | Some x \<Rightarrow> [x])"
    and d: "(case scan_number False 10 True v of None \<Rightarrow> [] | Some (x, _) \<Rightarrow> [x]) = (case dec_value v of None \<Rightarrow> [] | Some x \<Rightarrow> [x])"
    by (auto simp: hex_value_def dec_value_def split: option.splits)
  note r = flag_rules [OF b, where libc = False and v = v, unfolded h d]
  show "sscanf False (flag_text ''umask'' c v) ''umask%i=%x'' = of_nat c # (case hex_value v of None \<Rightarrow> [] | Some x \<Rightarrow> [x])"
    "sscanf False (flag_text ''um'' c v) ''um%i=%x'' = of_nat c # (case hex_value v of None \<Rightarrow> [] | Some x \<Rightarrow> [x])"
    "sscanf False (flag_text ''cmask'' c v) ''cmask%i=%x'' = of_nat c # (case hex_value v of None \<Rightarrow> [] | Some x \<Rightarrow> [x])"
    "sscanf False (flag_text ''cm'' c v) ''cm%i=%x'' = of_nat c # (case hex_value v of None \<Rightarrow> [] | Some x \<Rightarrow> [x])"
    "sscanf False (flag_text ''usr'' c v) ''usr%i=%d'' = of_nat c # (case dec_value v of None \<Rightarrow> [] | Some x \<Rightarrow> [x])"
    "sscanf False (flag_text ''os'' c v) ''os%i=%d'' = of_nat c # (case dec_value v of None \<Rightarrow> [] | Some x \<Rightarrow> [x])"
    "sscanf False (flag_text ''edge'' c v) ''edge%i=%d'' = of_nat c # (case dec_value v of None \<Rightarrow> [] | Some x \<Rightarrow> [x])"
    "sscanf False (flag_text ''inv'' c v) ''inv%i=%d'' = of_nat c # (case dec_value v of None \<Rightarrow> [] | Some x \<Rightarrow> [x])"
    "sscanf False (flag_text ''any'' c v) ''any%i=%d'' = of_nat c # (case dec_value v of None \<Rightarrow> [] | Some x \<Rightarrow> [x])"
    "sscanf False (flag_text ''ebs'' c v) ''ebs%i=%d'' = of_nat c # (case dec_value v of None \<Rightarrow> [] | Some x \<Rightarrow> [x])"
    by (rule r)+
qed

lemma digit_codes: "is_digit 10 ch \<longleftrightarrow> 48 \<le> (of_char ch :: nat) \<and> (of_char ch :: nat) \<le> 57"
  by (auto simp: is_digit_def digit_value_def Let_def split: if_splits)

lemma property_item:
  assumes c: "c < MAX_LL_EXPS" and l: "length (pmc_cfg s) = MAX_LL_EXPS" and r: "readable_item (Property k v)"
    and e: "k = ''ebs'' \<Longrightarrow> cs_ebs_index s = -1"
  shows "parse_flag True (item_text (c, Property k v)) s = Some (apply_item (c, Property k v) s)"
proof -
  note defs = item_text_def apply_item_def item_cfg_def is_pmc_def is_ebs_def parse_simps clashes digit_codes
  have one: "x = 0 \<or> x = 1" if "dec_value v \<in> {None, Some 0, Some 1}" "dec_value v = Some x" for x :: u32 using that by auto
  consider (um) "k = ''umask''" | (um2) "k = ''um''" | (cm) "k = ''cmask''" | (cm2) "k = ''cm''" | (usr) "k = ''usr''" | (os) "k = ''os''"
    | (edge) "k = ''edge''" | (inv) "k = ''inv''" | (any) "k = ''any''" | (ebs) "k = ''ebs''"
  proof -
    have "k \<in> {''umask'', ''um'', ''cmask'', ''cm''} \<or> k \<in> set bit_keys \<or> k = ''ebs''"
      using r unfolding readable_item_def item.case by (meson)
    then show thesis unfolding bit_keys_def list.set insert_iff empty_iff using that by (elim disjE) blast+
  qed
  then show ?thesis
  proof cases
    case um
    then obtain x where "hex_value v = Some x" using r by (auto simp: readable_item_def)
    then show ?thesis using c by (simp add: um defs flag_values counter_of_nat upd_cfg_of_nat)
  next
    case um2
    then obtain x where "hex_value v = Some x" using r by (auto simp: readable_item_def)
    then show ?thesis using c by (simp add: um2 defs flag_values counter_of_nat upd_cfg_of_nat)
  next
    case cm
    then obtain x where "hex_value v = Some x" using r by (auto simp: readable_item_def)
    then show ?thesis using c by (simp add: cm defs flag_values counter_of_nat upd_cfg_of_nat)
  next
    case cm2
    then obtain x where "hex_value v = Some x" using r by (auto simp: readable_item_def)
    then show ?thesis using c by (simp add: cm2 defs flag_values counter_of_nat upd_cfg_of_nat)
  next
    case usr
    then have "dec_value v \<in> {None, Some 0, Some 1}" using r by (simp add: readable_item_def bit_keys_def)
    then show ?thesis using c one by (cases "dec_value v") (auto simp: usr defs flag_values counter_of_nat upd_cfg_of_nat)
  next
    case os
    then have "dec_value v \<in> {None, Some 0, Some 1}" using r by (simp add: readable_item_def bit_keys_def)
    then show ?thesis using c one by (cases "dec_value v") (auto simp: os defs flag_values counter_of_nat upd_cfg_of_nat)
  next
    case edge
    then have "dec_value v \<in> {None, Some 0, Some 1}" using r by (simp add: readable_item_def bit_keys_def)
    then show ?thesis using c one by (cases "dec_value v") (auto simp: edge defs flag_values counter_of_nat upd_cfg_of_nat)
  next
    case inv
    then have "dec_value v \<in> {None, Some 0, Some 1}" using r by (simp add: readable_item_def bit_keys_def)
    then show ?thesis using c one by (cases "dec_value v") (auto simp: inv defs flag_values counter_of_nat upd_cfg_of_nat)
  next
    case any
    then have "dec_value v \<in> {None, Some 0, Some 1}" using r by (simp add: readable_item_def bit_keys_def)
    then show ?thesis using c one by (cases "dec_value v") (auto simp: any defs flag_values counter_of_nat upd_cfg_of_nat)
  next
    case ebs
    then show ?thesis using c e by (cases "dec_value v") (simp_all add: defs flag_values counter_of_nat upd_cfg_of_nat)
  qed
qed

end
