(* ===== verification/CounterPlacement.thy ===== *)
theory CounterPlacement
  imports EventStrings
begin

text \<open>
  The counters and experiments of the events of a string: the search of free counters ends, and no two events get the same counter in
  an experiment.
\<close>

section \<open>The search of a counter\<close>

lemma search_loop_True:
  "search_loop events e lim x True =
    (if x < lim then (if taken events e x then search_loop events e lim (x + 1) True else (x, False)) else (x, True))"
proof -
  have "search_loop events e lim x False = (x, False)" by (subst search_loop.simps) simp
  then show ?thesis by (subst search_loop.simps) simp
qed

text \<open>The loop finds the first counter that is free.\<close>

lemma search_loop_find:
  assumes "x \<le> lim"
  shows "search_loop events e lim x True =
    (case List.find (\<lambda>z. \<not> taken events e z) [x..<lim] of None \<Rightarrow> (lim, True) | Some y \<Rightarrow> (y, False))"
  using assms
proof (induction "lim - x" arbitrary: x)
  case 0
  then show ?case by (subst search_loop_True) simp
next
  case (Suc d)
  then have x: "x < lim" by simp
  then have u: "[x..<lim] = x # [x + 1..<lim]" by (simp add: upt_conv_Cons)
  show ?case
  proof (cases "taken events e x")
    case True
    then have "search_loop events e lim x True = search_loop events e lim (x + 1) True" using x by (subst search_loop_True) simp
    then show ?thesis using Suc.hyps(1) [of "x + 1"] Suc.hyps(2) x True by (simp only: u find.simps) simp
  next
    case False
    then show ?thesis using x by (subst search_loop_True) (simp add: u)
  qed
qed

lemma search_loop_search:
  assumes "x \<le> lim"
  obtains "search_loop events e lim x True = (lim, True)" "\<forall>z. x \<le> z \<and> z < lim \<longrightarrow> taken events e z"
    | y where "search_loop events e lim x True = (y, False)" "x \<le> y" "y < lim" "\<not> taken events e y"
proof (cases "List.find (\<lambda>z. \<not> taken events e z) [x..<lim]")
  case None
  then have "search_loop events e lim x True = (lim, True)" using search_loop_find [OF assms] by simp
  moreover have "\<forall>z. x \<le> z \<and> z < lim \<longrightarrow> taken events e z" using None by (auto simp: find_None_iff)
  ultimately show thesis by (rule that(1))
next
  case (Some y)
  then have "y \<in> set [x..<lim]" "\<not> taken events e y" by (auto simp: find_Some_iff)
  then show thesis using that(2) [of y] search_loop_find [OF assms] Some by simp
qed

section \<open>Where the events are\<close>

text \<open>The places that are used: experiment and counter.\<close>

definition place :: "event_cfg_t \<Rightarrow> int \<times> nat" where "place e = (ec_counter e, ec_exp e)"

definition placed :: "event_cfg_t \<Rightarrow> bool" where "placed e \<longleftrightarrow> 0 \<le> ec_counter e"

definition apart :: "event_cfg_t list \<Rightarrow> bool" where 
  "apart events \<longleftrightarrow> (\<forall>i<length events. \<forall>j<i. placed (events ! i) \<and> placed (events ! j) \<longrightarrow> place (events ! i) \<noteq> place (events ! j))"

text \<open>The mask has the counters of the first experiment.\<close>

definition mask_ok :: "u32 \<Rightarrow> event_cfg_t list \<Rightarrow> bool" where
  "mask_ok w events \<longleftrightarrow> (\<forall>i<32. bit w i \<longleftrightarrow> (int i, 0) \<in> place ` set events)"

text \<open>What a program that names the events wants: the event itself, but for its place.\<close>

definition same_event :: "event_cfg_t \<Rightarrow> event_cfg_t \<Rightarrow> bool" where
  "same_event e f \<longleftrightarrow> ec_name f = ec_name e \<and> ec_code f = ec_code e \<and> ec_properties f = ec_properties e \<and> (ec_counter e \<noteq> -1 \<longrightarrow> f = e)"

lemma taken_place: "taken events e x \<longleftrightarrow> (int x, e) \<in> place ` set events"
  by (force simp: taken_def place_def list_ex_iff)

lemma same_event_refl [simp]: "same_event e e"
  by (simp add: same_event_def)

section \<open>The assignment ends\<close>

text \<open>Before the event \<open>ind\<close> all have a counter, the events have different places, and the experiments are at most \<open>h\<close> or the
  actual one.\<close>

definition assign_inv :: "nat \<Rightarrow> event_cfg_t list \<Rightarrow> event_cfg_t list \<Rightarrow> nat \<Rightarrow> nat \<Rightarrow> u32 \<Rightarrow> bool" where
  "assign_inv h events0 events ind actual_exp w \<longleftrightarrow>
     list_all2 same_event events0 events \<and> apart events \<and> mask_ok w events \<and>
     (\<forall>i<ind. i < length events \<longrightarrow> ec_counter (events ! i) \<noteq> -1) \<and> (\<forall>e\<in>set events. placed e \<longrightarrow> ec_exp e \<le> max h actual_exp)"

lemma taken_exp:
  assumes "taken events e x"
  shows "e \<le> sum_list (map ec_exp events)"
proof -
  obtain f where "f \<in> set events" "ec_exp f = e" using assms by (auto simp: taken_def list_ex_iff)
  then show ?thesis using member_le_sum_list [of e "map ec_exp events"] by force
qed

lemma assign_place:
  assumes inv: "assign_inv h events0 events ind a w" and ind: "ind < length events" "ec_counter (events ! ind) = -1"
    and free: "\<not> taken events a y" "y < 32"
  shows "assign_inv h events0 (events[ind := (events ! ind)\<lparr>ec_counter := int y, ec_exp := a\<rparr>]) (ind + 1) a
    (if a = 0 then w OR push_bit y 1 else w)"
proof -
  let ?e = "(events ! ind)\<lparr>ec_counter := int y, ec_exp := a\<rparr>"
  let ?evs = "events[ind := ?e]"
  have same: "list_all2 same_event events0 events" and l: "length events0 = length events"
    using inv by (auto simp: assign_inv_def dest: list_all2_lengthD)
  have "same_event (events0 ! ind) (events ! ind)" using list_all2_nthD2 [OF same ind(1)] .
  then have "ec_counter (events0 ! ind) = -1 \<and> same_event (events0 ! ind) ?e" using ind(2) by (auto simp: same_event_def)
  then have 1: "list_all2 same_event events0 ?evs"
    using same ind(1) l by (auto simp: list_all2_conv_all_nth nth_list_update)
  have new: "place ?e = (int y, a)" by (simp add: place_def)
  have p: "place f \<noteq> (int y, a)" if "f \<in> set events" for f using free(1) that by (force simp: taken_place)
  have 2: "apart ?evs" unfolding apart_def
  proof (intro allI impI)
    fix i j assume ij: "i < length ?evs" "j < i" "placed (?evs ! i) \<and> placed (?evs ! j)"
    show "place (?evs ! i) \<noteq> place (?evs ! j)"
    proof (cases "i = ind \<or> j = ind")
      case True
      then show ?thesis using ij new p [of "events ! i"] p [of "events ! j"] by (auto simp: nth_list_update)
    next
      case False
      then show ?thesis using ij inv by (simp add: assign_inv_def apart_def)
    qed
  qed
  have old: "place (events ! ind) = (-1, ec_exp (events ! ind))" using ind(2) by (simp add: place_def)
  have im: "(int i, e) \<in> place ` set ?evs \<longleftrightarrow> (int i, e) \<in> place ` set events \<or> (i = y \<and> e = a)" for i e
  proof -
    let ?r = "place ` set (take ind events) \<union> place ` set (drop (Suc ind) events)"
    have "set events = set (take ind events @ events ! ind # drop (Suc ind) events)" using id_take_nth_drop [OF ind(1)] by simp
    then have a: "place ` set events = insert (place (events ! ind)) ?r" by (simp add: image_Un)
    have "place ` set ?evs = insert (place ?e) ?r" using ind(1) by (simp add: upd_conv_take_nth_drop image_Un)
    then show ?thesis using a old new by auto
  qed
  have 3: "mask_ok (if a = 0 then w OR push_bit y 1 else w) ?evs"
    using inv free(2) unfolding mask_ok_def im by (auto simp: assign_inv_def mask_ok_def bit_or_iff bit_push_bit_iff bit_1_iff simp del: push_bit_of_1)
  have 4: "\<forall>e\<in>set ?evs. placed e \<longrightarrow> ec_exp e \<le> max h a"
    using inv set_update_subset_insert [of events ind ?e] by (auto simp: assign_inv_def)
  have 5: "\<forall>i<ind + 1. i < length ?evs \<longrightarrow> ec_counter (?evs ! i) \<noteq> -1"
    using inv by (auto simp: assign_inv_def nth_list_update less_Suc_eq)
  show ?thesis unfolding assign_inv_def using 1 2 3 4 5 by blast
qed

lemma assign_inv_next: "assign_inv h events0 events ind a w \<Longrightarrow> ec_counter (events ! ind) \<noteq> -1 \<Longrightarrow> assign_inv h events0 events (ind + 1) a w"
  by (auto simp: assign_inv_def less_Suc_eq)

lemma assign_inv_exp: "assign_inv h events0 events ind a w \<Longrightarrow> assign_inv h events0 events ind (a + 1) w"
  by (auto simp: assign_inv_def)

text \<open>An experiment that is full has events, and so there is an end to them.\<close>

lemma assign_loop_ends:
  assumes "first < lim" and "lim \<le> 32" and "x < lim" and "assign_inv h events0 events ind a w"
  shows "\<exists>events' a' w'. assign_loop first lim events ind x a w = Some (events', a', w') \<and>
    assign_inv h events0 events' (length events') a' w'"
  using assms(3,4)
proof (induction "(length events - ind, Suc (sum_list (map ec_exp events)) - a)" arbitrary: events ind x a w
    rule: wf_induct_rule [OF wf_lex_prod [OF wf_less_than wf_less_than]])
  case 1
  note inv = 1(3) and x = 1(2)
  have IH: "\<exists>events' a' w'. assign_loop first lim evs i z b v = Some (events', a', w') \<and> assign_inv h events0 events' (length events') a' w'"
    if "length evs - i < length events - ind \<or>
        length evs - i = length events - ind \<and> Suc (sum_list (map ec_exp evs)) - b < Suc (sum_list (map ec_exp events)) - a"
      and "z < lim" and "assign_inv h events0 evs i b v" for evs i z b v
    by (rule 1(1) [OF _ that(2,3)]) (use that(1) in auto)
  show ?case
  proof (cases "ind < length events")
    case False
    then have "assign_inv h events0 events (length events) a w" using inv by (auto simp: assign_inv_def)
    then show ?thesis using False by (subst assign_loop.simps) simp
  next
    case ind: True
    show ?thesis
    proof (cases "ec_counter (events ! ind) = -1")
      case False
      then show ?thesis using IH [OF _ x assign_inv_next [OF inv False]] ind by (subst assign_loop.simps) simp
    next
      case c: True
      from x have "x \<le> lim" by simp
      then show ?thesis
      proof (cases rule: search_loop_search [of x lim events a])
        case 1
        have "a \<le> sum_list (map ec_exp events)" using 1(2) x taken_exp by blast
        then show ?thesis using IH [OF _ assms(1) assign_inv_exp [OF inv]] ind c 1(1) by (subst assign_loop.simps) simp
      next
        case (2 y)
        have "y < 32" using 2(3) assms(2) by simp
        have d: "length (events[ind := f]) - (ind + 1) < length events - ind" for f using ind by simp
        show ?thesis using IH [OF disjI1 [OF d] 2(3) assign_place [OF inv ind c 2(4) \<open>y < 32\<close>]] ind c 2(1)
          by (subst assign_loop.simps) (simp del: push_bit_of_1)
      qed
    qed
  qed
qed

section \<open>The events of a string\<close>

definition same_counter :: "int \<Rightarrow> event_cfg_t list \<Rightarrow> nat" where
  "same_counter c events = length (filter (\<lambda>f. ec_counter f = c) events)"

definition cfg_ok :: "cfg_state \<Rightarrow> bool" where
  "cfg_ok st \<longleftrightarrow> apart (st_events st) \<and> mask_ok (st_pmc_mask st) (st_events st) \<and>
     (\<forall>e\<in>set (st_events st). placed e \<longrightarrow> ec_exp e \<le> st_highest_exp st \<and> ec_exp e < same_counter (ec_counter e) (st_events st))"

text \<open>An event that is not in the list yet.\<close>

definition with_event :: "event_cfg_t \<Rightarrow> cfg_state \<Rightarrow> cfg_state" where
  "with_event e st = st\<lparr>st_events := st_events st @ [e]\<rparr>"

lemma apart_snoc:
  "apart (events @ [e]) \<longleftrightarrow> apart events \<and> (placed e \<longrightarrow> (\<forall>f\<in>set events. placed f \<longrightarrow> place e \<noteq> place f))"
  by (auto simp: apart_def nth_append less_Suc_eq all_set_conv_all_nth)

lemma mask_ok_snoc_unplaced: "\<not> placed e \<Longrightarrow> mask_ok w (events @ [e]) \<longleftrightarrow> mask_ok w events"
  by (auto simp: mask_ok_def placed_def place_def)

lemma cfg_ok_unplaced: "\<not> placed e \<Longrightarrow> cfg_ok (with_event e st) \<longleftrightarrow> cfg_ok st"
  by (auto simp: cfg_ok_def with_event_def apart_snoc mask_ok_snoc_unplaced same_counter_def placed_def)

lemma force_counter_ok:
  assumes ok: "cfg_ok st" and f: "force_counter c e st = Some (e', st')" and c: "0 \<le> c"
  shows "cfg_ok (with_event e' st')" and "placed e'"
proof -
  let ?x = "same_counter c (st_events st)"
  have e': "e' = e\<lparr>ec_counter := c, ec_exp := ?x\<rparr>" and evs: "st_events st' = st_events st"
    and h: "st_highest_exp st' = max (st_highest_exp st) ?x"
    and w: "if ?x = 0 then c < 31 \<and> st_pmc_mask st' = st_pmc_mask st OR push_bit (nat c) 1 else st_pmc_mask st' = st_pmc_mask st"
    using f c by (auto simp: force_counter_def same_counter_def flag_bit_def Let_def simp del: push_bit_of_1 split: Option.bind_splits if_splits)
  show "placed e'" using c by (simp add: e' placed_def)
  have p: "place e' = (c, ?x)" by (simp add: e' place_def)
  have lt: "ec_exp f < same_counter (ec_counter f) (st_events st)" if "f \<in> set (st_events st)" "placed f" for f
    using ok that by (simp add: cfg_ok_def)
  have "place f \<noteq> (c, ?x)" if "f \<in> set (st_events st)" "placed f" for f using lt [OF that] by (auto simp: place_def)
  then have "\<forall>f\<in>set (st_events st). placed f \<longrightarrow> place e' \<noteq> place f" unfolding p by metis
  then have 1: "apart (st_events st @ [e'])" using ok by (simp add: cfg_ok_def apart_snoc)
  have "mask_ok (st_pmc_mask st) (st_events st)" using ok by (simp add: cfg_ok_def)
  then have 2: "mask_ok (st_pmc_mask st') (st_events st @ [e'])" using w c
    by (auto simp: mask_ok_def p bit_or_iff bit_push_bit_iff bit_1_iff simp del: push_bit_of_1 split: if_splits)
  have 3: "ec_exp f \<le> st_highest_exp st' \<and> ec_exp f < same_counter (ec_counter f) (st_events st @ [e'])"
    if "f \<in> set (st_events st @ [e'])" "placed f" for f
  proof (cases "f = e'")
    case True
    then show ?thesis by (simp add: h e' same_counter_def)
  next
    case False
    then have "f \<in> set (st_events st)" using that(1) by simp
    then show ?thesis using lt [of f] that(2) ok by (auto simp: h cfg_ok_def same_counter_def)
  qed
  show "cfg_ok (with_event e' st')" using 1 2 3 evs by (simp add: cfg_ok_def with_event_def)
qed

lemma result_bindE:
  assumes "result_bind m f = Some (Inr y)"
  obtains x where "m = Some (Inr x)" "f x = Some (Inr y)"
  using assms by (auto simp: result_bind_def split: option.splits sum.splits)

lemma user_flag_ok:
  assumes ok: "cfg_ok (with_event e st)" and u: "user_flag pmu flag (e, st) = Some (Inr (e', st'))"
  shows "cfg_ok (with_event e' st')"
proof -
  have keep: "cfg_ok (with_event (e\<lparr>ec_properties := ps\<rparr>) st)" for ps
    using ok by (auto simp: cfg_ok_def with_event_def apart_snoc mask_ok_def place_def placed_def same_counter_def)
  show ?thesis
  proof (cases "hd (split_on (CHR ''='') flag) = ''pmc'' \<and> ec_counter e = -1")
    case True
    then have "cfg_ok st" using ok by (simp add: cfg_ok_unplaced placed_def)
    moreover obtain v where "force_counter (atoi v) e st = Some (e', st')" "int (pi_nr_fixed_pmcs pmu) \<le> atoi v"
      using u True by (auto simp: user_flag_def Let_def split: Option.bind_splits if_splits)
    ultimately show ?thesis using force_counter_ok(1) by (metis of_nat_0_le_iff order_trans)
  next
    case False
    then show ?thesis using u ok keep by (auto simp: user_flag_def Let_def split: Option.bind_splits if_splits)
  qed
qed

lemma each_result_inv:
  assumes "each_result f xs s = Some (Inr s')" and "I s" and "\<And>x s s'. I s \<Longrightarrow> f x s = Some (Inr s') \<Longrightarrow> I s'"
  shows "I s'"
  using assms(1,2)
proof (induction xs arbitrary: s)
  case Nil
  then show ?case by simp
next
  case (Cons x xs)
  from Cons.prems(1) have "result_bind (f x s) (each_result f xs) = Some (Inr s')" by simp
  then show ?case by (rule result_bindE) (use Cons assms(3) in blast)
qed

lemma named_event_ok:
  assumes ok: "cfg_ok st" and n: "named_event pmu name key sub st = Some (Inr (e, st'))"
  shows "cfg_ok (with_event e st')"
proof (cases "take 2 key = ''0x''")
  case True
  then have "\<not> placed e" "st' = st" using n by (auto simp: named_event_def placed_def split: Option.bind_splits)
  then show ?thesis using ok by (simp add: cfg_ok_unplaced)
next
  case False
  then obtain ev :: hw_event_t and s :: hw_subevent_t where n': "(let e = \<lparr>ec_counter = he_pmcn ev, ec_exp = 0, ec_name = name, ec_code = he_code ev, ec_properties = hs_properties s\<rparr>
      in if he_pmcn ev > -1 then do { r \<leftarrow> force_counter (he_pmcn ev) e st; Some (Inr r) } else Some (Inr (e, st))) = (Some (Inr (e, st')) :: (event_cfg_t \<times> cfg_state) result)"
  proof -
    have "result_bind (find_event pmu key sub) (\<lambda>(ev, s).
        let e = \<lparr>ec_counter = he_pmcn ev, ec_exp = 0, ec_name = name, ec_code = he_code ev, ec_properties = hs_properties s\<rparr>
        in if he_pmcn ev > -1 then do { r \<leftarrow> force_counter (he_pmcn ev) e st; Some (Inr r) } else Some (Inr (e, st))) = Some (Inr (e, st'))"
      using n False by (simp add: named_event_def)
    then show thesis by (rule result_bindE) (use that in \<open>auto split: prod.splits\<close>)
  qed
  show ?thesis
  proof (cases "he_pmcn ev > -1")
    case True
    then show ?thesis using n' force_counter_ok(1) [OF ok] by (auto simp: Let_def split: Option.bind_splits)
  next
    case False
    then have "\<not> placed e" "st' = st" using n' by (auto simp: placed_def)
    then show ?thesis using ok by (simp add: cfg_ok_unplaced)
  qed
qed

lemma event_row_ok:
  assumes ok: "cfg_ok st" and r: "event_row pmu mt row st = Some (Inr st')"
  shows "cfg_ok st'"
proof -
  let ?fs = "split_on (CHR '':'') row"
  let ?ts = "split_on (CHR ''.'') (hd ?fs)"
  show ?thesis
  proof (cases "sscanf True (hd ?ts) ''coretype=%d''")
    case Nil
    obtain name where
      "result_bind (named_event pmu name (hd ?ts) (second ?ts) st) (\<lambda>r. result_bind (each_result (user_flag pmu) (tl ?fs) r) (\<lambda>(e, st).
         if List.length (st_events st) < MAX_NR_EVENTS_CFG then Some (Inr (st\<lparr>st_events := st_events st @ [e]\<rparr>)) else None)) = Some (Inr st')"
      using r Nil by (auto simp: event_row_def Let_def split: Option.bind_splits)
    then obtain r1 r2 where n: "named_event pmu name (hd ?ts) (second ?ts) st = Some (Inr r1)"
      "each_result (user_flag pmu) (tl ?fs) r1 = Some (Inr r2)"
      "(\<lambda>(e, st). if List.length (st_events st) < MAX_NR_EVENTS_CFG then Some (Inr (st\<lparr>st_events := st_events st @ [e]\<rparr>)) else None) r2 = (Some (Inr st') :: cfg_state result)"
      by (elim result_bindE) (rule that)
    have "cfg_ok (with_event (fst r1) (snd r1))" using named_event_ok [OF ok] n(1) by (cases r1) simp
    then have "cfg_ok (with_event (fst r2) (snd r2))"
      by (rule each_result_inv [where I = "\<lambda>r. cfg_ok (with_event (fst r) (snd r))", OF n(2)])
        (metis user_flag_ok prod.collapse)
    then show ?thesis using n(3) by (auto simp: with_event_def split: prod.splits if_splits)
  next
    case (Cons ind r')
    then have "st_events st' = st_events st \<and> st_pmc_mask st' = st_pmc_mask st \<and> st_highest_exp st' = st_highest_exp st"
      using r by (auto simp: event_row_def Let_def split: Option.bind_splits if_splits)
    then show ?thesis using ok by (simp add: cfg_ok_def)
  qed
qed

lemma rows_ok:
  assumes "each_result (event_row pmu mt) rows \<lparr>st_events = [], st_pmc_mask = 0, st_highest_exp = 0, st_coretype = -1\<rparr> = Some (Inr st)"
  shows "cfg_ok st"
  by (rule each_result_inv [where I = cfg_ok, OF assms _ event_row_ok]) (simp_all add: cfg_ok_def apart_def mask_ok_def)

text \<open>What is promised of the places: each event has one of its own, the events with a given counter keep it, and the mask is that of
  the first experiment.\<close>

definition placement_of :: "event_cfg_t list \<Rightarrow> event_cfg_t list \<times> nat \<times> int \<times> u32 \<Rightarrow> bool" where
  "placement_of events0 r = (case r of (events, n, ct, w) \<Rightarrow>
     list_all2 same_event events0 events \<and> apart events \<and> mask_ok w events \<and> (\<forall>e\<in>set events. ec_counter e \<noteq> -1) \<and>
     (\<forall>e\<in>set events. placed e \<longrightarrow> ec_exp e < n))"

lemma places_found:
  assumes gp: "0 < pi_nr_gp_pmcs pmu" "pi_nr_fixed_pmcs pmu + pi_nr_gp_pmcs pmu \<le> 32"
    and l: "length s < ROW_CFG_SIZE" and e: "string_events pmu mt s = Some (Inr st)"
  obtains events n w where "place_events pmu mt s = Some (Inr (events, n, st_coretype st, w))"
    "placement_of (st_events st) (events, n, st_coretype st, w)"
proof -
  let ?first = "pi_nr_fixed_pmcs pmu" let ?h = "st_highest_exp st"
  have ok: "cfg_ok st" using e unfolding string_events_def by (rule rows_ok)
  have "assign_inv ?h (st_events st) (st_events st) 0 0 (st_pmc_mask st)"
    using ok by (simp add: assign_inv_def cfg_ok_def list_all2_conv_all_nth)
  then obtain events a w where r: "assign_loop ?first (?first + pi_nr_gp_pmcs pmu) (st_events st) 0 ?first 0 (st_pmc_mask st) = Some (events, a, w)"
    "assign_inv ?h (st_events st) events (length events) a w"
    using assign_loop_ends [of ?first "?first + pi_nr_gp_pmcs pmu" ?first ?h "st_events st" "st_events st" 0 0 "st_pmc_mask st"] gp by auto
  have "place_events pmu mt s = Some (Inr (events, max ?h a + 1, st_coretype st, w))"
    using e l r(1) by (simp add: place_events_def fits_def result_bind_def)
  moreover have "placement_of (st_events st) (events, max ?h a + 1, st_coretype st, w)"
    using r(2) by (auto simp: placement_of_def assign_inv_def all_set_conv_all_nth)
  ultimately show thesis by (rule that)
qed

lemma place_eventsE:
  assumes "place_events pmu mt s = Some (Inr r)"
  obtains st where "string_events pmu mt s = Some (Inr st)" "length s < ROW_CFG_SIZE"
proof -
  have l: "length s < ROW_CFG_SIZE" using assms by (auto simp: place_events_def fits_def split: if_splits)
  then obtain f where "result_bind (string_events pmu mt s) f = Some (Inr r)"
    using assms by (auto simp: place_events_def fits_def)
  then show thesis by (rule result_bindE) (use that l in blast)
qed

lemma places_of:
  assumes "place_events pmu mt s = Some (Inr r)" and "0 < pi_nr_gp_pmcs pmu" "pi_nr_fixed_pmcs pmu + pi_nr_gp_pmcs pmu \<le> 32"
  obtains st where "string_events pmu mt s = Some (Inr st)" "placement_of (st_events st) r"
proof -
  obtain st where st: "string_events pmu mt s = Some (Inr st)" "length s < ROW_CFG_SIZE" by (rule place_eventsE [OF assms(1)])
  obtain events n w where "place_events pmu mt s = Some (Inr (events, n, st_coretype st, w))"
    "placement_of (st_events st) (events, n, st_coretype st, w)" by (rule places_found [OF assms(2,3) st(2,1)])
  then show thesis using that [OF st(1)] assms(1) by simp
qed

lemma placed_apart:
  assumes "apart events" and "\<forall>e\<in>set events. placed e"
  shows "distinct (map (\<lambda>e. (ec_counter e, ec_exp e)) events)"
  using assms unfolding distinct_conv_nth apart_def place_def
  by (auto simp: all_set_conv_all_nth) (metis linorder_neqE_nat)

end
