(* ===== verification/ConfigProps.thy ===== *)
theory ConfigProps
  imports ConfigItems CounterPlacement
begin

text \<open>
  From the events a user names to the configuration of the counters: every event gets a counter of its own in an experiment, and the
  kernel module reads from the strings of the library what the user asked for; the two parsers agree on the counters of a string.
\<close>

section \<open>A string of flags\<close>

lemma apply_item_fields [simp]:
  "length (pmc_cfg (apply_item ci s)) = length (pmc_cfg s)" "cs_coretype (apply_item ci s) = cs_coretype s"
  by (simp_all add: apply_item_def Let_def)

lemma parse_items:
  assumes "length (pmc_cfg s) = MAX_LL_EXPS" and "\<forall>ci\<in>set its. fst ci < MAX_LL_EXPS \<and> readable_item (snd ci)"
    and "length (filter (\<lambda>ci. is_ebs (snd ci)) its) \<le> (if cs_ebs_index s = -1 then 1 else 0)"
  shows "parse_flags True (map item_text its @ ts) n s = parse_flags True ts (n + length its) (fold apply_item its s)"
  using assms
proof (induction its arbitrary: s n)
  case Nil
  then show ?case by simp
next
  case (Cons ci its)
  obtain c it where ci: "ci = (c, it)" by (cases ci)
  have c: "c < MAX_LL_EXPS" "readable_item it" using Cons.prems(2) ci by simp_all
  have p: "parse_flag True (item_text ci) s = Some (apply_item ci s)"
  proof (cases it)
    case (Pmc code)
    then show ?thesis using pmc_item [OF c(1) Cons.prems(1)] ci by simp
  next
    case (Property k v)
    have "k = ''ebs'' \<Longrightarrow> cs_ebs_index s = -1" using Cons.prems(3) ci Property by (simp add: is_ebs_def split: if_splits)
    then show ?thesis using property_item [OF c(1) Cons.prems(1)] c(2) ci Property by simp
  qed
  have e: "length (filter (\<lambda>ci. is_ebs (snd ci)) its) \<le> (if cs_ebs_index (apply_item ci s) = -1 then 1 else 0)"
    using Cons.prems(3) ci by (cases "is_ebs it") (auto simp: apply_item_def split: if_splits)
  show ?case using Cons.IH [of "apply_item ci s" "n + 1"] Cons.prems(1,2) e p by simp
qed

lemma fold_apply_cfg:
  assumes "length (pmc_cfg s) = MAX_LL_EXPS" and "\<forall>ci\<in>set its. fst ci < MAX_LL_EXPS" and "c < MAX_LL_EXPS"
  shows "pmc_cfg (fold apply_item its s) ! c = fold (\<lambda>ci. item_cfg (snd ci)) (filter (\<lambda>ci. fst ci = c) its) (pmc_cfg s ! c)"
  using assms by (induction its arbitrary: s) (simp_all add: apply_item_def Let_def)

lemma bit_or_push: "bit ((a :: u32) OR push_bit c 1) i \<longleftrightarrow> bit a i \<or> (i = c \<and> c < 32)"
  by (auto simp: bit_or_iff bit_push_bit_iff bit_1_iff simp del: push_bit_of_1)

lemma apply_item_used: "cs_used_pmcs (apply_item ci s) = (if is_pmc (snd ci) then cs_used_pmcs s OR push_bit (fst ci) 1 else cs_used_pmcs s)"
  by (simp add: apply_item_def Let_def)

lemma fold_apply_used:
  "bit (cs_used_pmcs (fold apply_item its s)) i \<longleftrightarrow> bit (cs_used_pmcs s) i \<or> (i < 32 \<and> (\<exists>ci\<in>set its. fst ci = i \<and> is_pmc (snd ci)))"
proof (induction its arbitrary: s)
  case Nil
  then show ?case by simp
next
  case (Cons ci its)
  show ?case unfolding fold_simps o_apply Cons.IH apply_item_used by (auto simp only: bit_or_push list.set insert_iff split: if_splits)
qed

lemma fold_apply_other [simp]: "cs_coretype (fold apply_item its s) = cs_coretype s" "length (pmc_cfg (fold apply_item its s)) = length (pmc_cfg s)"
  by (induction its arbitrary: s) simp_all

lemma coretype_token:
  assumes "ct = 0 \<or> ct = 1"
  shows "parse_flag True (''coretype='' @ dec_string ct) s = Some (s\<lparr>cs_coretype := int ct\<rparr>)"
proof -
  have d: "dec_string 0 = ''0''" "dec_string 1 = ''1''" by code_simp+
  have f: "directives f = Lit c # ds \<Longrightarrow> c \<noteq> CHR ''c'' \<Longrightarrow> sscanf False (CHR ''c'' # r) f = []" for f c ds r by (simp add: sscanf_def)
  have z: "sscanf False ''coretype=0'' ''coretype=%d'' = [0]" "sscanf False ''coretype=1'' ''coretype=%d'' = [1]"
    "sscanf False ''coretype=0'' ''cmask%i=%x'' = []" "sscanf False ''coretype=1'' ''cmask%i=%x'' = []"
    "sscanf False ''coretype=0'' ''cm%i=%x'' = []" "sscanf False ''coretype=1'' ''cm%i=%x'' = []" by code_simp+
  show ?thesis using assms by (auto simp: d parse_simps f z AMP_MAX_CORETYPES_def simp flip: One_nat_def)
qed

section \<open>The strings of the library\<close>

text \<open>What an event asks for.\<close>

definition event_items :: "pmu_info_t \<Rightarrow> event_cfg_t \<Rightarrow> (nat \<times> item) list" where
  "event_items pmu e = (nat (ec_counter e), Pmc (if ec_counter e < int (pi_nr_fixed_pmcs pmu) then [] else ec_code e)) #
     map (\<lambda>p. (nat (ec_counter e), Property (pr_key p) (pr_value p))) (ec_properties e)"

definition readable_event :: "pmu_info_t \<Rightarrow> event_cfg_t \<Rightarrow> bool" where
  "readable_event pmu e \<longleftrightarrow> 0 \<le> ec_counter e \<and> ec_counter e < int MAX_LL_EXPS \<and>
     ec_counter e < int (pi_nr_fixed_pmcs pmu + pi_nr_gp_pmcs pmu) \<and> ec_code e \<noteq> [] \<and>
     (\<forall>ci\<in>set (event_items pmu e). readable_item (snd ci))"

definition event_config :: "pmu_info_t \<Rightarrow> event_cfg_t \<Rightarrow> pmc_usrcfg_t" where
  "event_config pmu e = fold (\<lambda>ci. item_cfg (snd ci)) (event_items pmu e) no_cfg"

lemma counter_string_nat: "0 \<le> c \<Longrightarrow> counter_string c = dec_string (nat c)"
  by (simp add: counter_string_def)

lemma item_texts:
  assumes "0 \<le> ec_counter e" and "ec_code e \<noteq> []"
  shows "map item_text (event_items pmu e) = pmc_token pmu e # map (property_token e) (ec_properties e)"
  using assms by (auto simp: event_items_def item_text_def pmc_token_def property_token_def flag_text_def counter_string_nat)

lemma flag_text_nonempty: "flag_text k c v \<noteq> []"
  by (simp add: flag_text_def dec_string_def)

lemma item_text_nonempty: "item_text ci \<noteq> []"
  by (simp add: item_text_def flag_text_nonempty split: item.splits)

lemma item_text_no_comma:
  assumes "readable_item (snd ci)"
  shows "CHR '','' \<notin> set (item_text ci)"
proof (cases "snd ci")
  case (Pmc code)
  then show ?thesis using assms dec_string_chars by (auto simp: item_text_def flag_text_def readable_item_def split: if_splits)
next
  case (Property k v)
  then have "CHR '','' \<notin> set v" "k \<in> {''umask'', ''um'', ''cmask'', ''cm'', ''usr'', ''os'', ''edge'', ''inv'', ''any'', ''ebs''}"
    using assms by (auto simp: readable_item_def bit_keys_def split: if_splits)
  then show ?thesis using dec_string_chars Property by (auto simp: item_text_def flag_text_def split: if_splits)
qed

lemma append_token_join:
  assumes "append_token tok (join_with (CHR '','') ts) = Some row" and "\<forall>t\<in>set ts. t \<noteq> []"
  shows "row = join_with (CHR '','') (ts @ [tok])"
proof (cases ts)
  case Nil
  then show ?thesis using assms(1) by (auto simp: append_token_def fits_def split: if_splits)
next
  case (Cons t us)
  then have "join_with (CHR '','') ts \<noteq> []" using assms(2) by (cases us) auto
  moreover have "join_with (CHR '','') (ts @ [tok]) = join_with (CHR '','') ts @ CHR '','' # tok" by (rule join_snoc) (simp add: Cons)
  ultimately show ?thesis using assms(1) by (auto simp only: append_token_def fits_def bind.simps if_True split: if_splits Option.bind_splits)
qed

lemma append_tokens_join:
  assumes "foldM (\<lambda>p. append_token (f p)) ps (join_with (CHR '','') ts) = Some row" and "\<forall>t\<in>set ts. t \<noteq> []" and "\<forall>p\<in>set ps. f p \<noteq> []"
  shows "row = join_with (CHR '','') (ts @ map f ps)"
  using assms
proof (induction ps arbitrary: ts)
  case Nil
  then show ?case by simp
next
  case (Cons p ps)
  obtain r where r: "append_token (f p) (join_with (CHR '','') ts) = Some r" "foldM (\<lambda>p. append_token (f p)) ps r = Some row"
    using Cons.prems(1) by (auto split: bind_splits)
  have "r = join_with (CHR '','') (ts @ [f p])" by (rule append_token_join [OF r(1) Cons.prems(2)])
  then show ?case using Cons.IH [of "ts @ [f p]"] r(2) Cons.prems(2,3) by simp
qed

lemma event_string_join:
  assumes "event_string pmu e (join_with (CHR '','') ts) = Some row" and "\<forall>t\<in>set ts. t \<noteq> []"
    and "0 \<le> ec_counter e" and "ec_code e \<noteq> []"
  shows "row = join_with (CHR '','') (ts @ map item_text (event_items pmu e))"
proof -
  have it: "map item_text (event_items pmu e) = pmc_token pmu e # map (property_token e) (ec_properties e)"
    by (rule item_texts [OF assms(3,4)])
  have n: "\<forall>t\<in>set (map item_text (event_items pmu e)). t \<noteq> []" by (auto simp: item_text_nonempty)
  obtain r where r: "append_token (pmc_token pmu e) (join_with (CHR '','') ts) = Some r"
    "foldM (\<lambda>p. append_token (property_token e p)) (ec_properties e) r = Some row"
    using assms(1) by (auto simp: event_string_def split: bind_splits)
  have r1: "r = join_with (CHR '','') (ts @ [pmc_token pmu e])" by (rule append_token_join [OF r(1) assms(2)])
  have "row = join_with (CHR '','') ((ts @ [pmc_token pmu e]) @ map (property_token e) (ec_properties e))"
    by (rule append_tokens_join) (use r(2) r1 assms(2) n it in auto)
  then show ?thesis by (simp add: it)
qed

section \<open>The strings of the experiments\<close>

definition exp_items :: "pmu_info_t \<Rightarrow> event_cfg_t list \<Rightarrow> nat \<Rightarrow> (nat \<times> item) list" where
  "exp_items pmu events k = concat (map (event_items pmu) (filter (\<lambda>e. ec_exp e = k) events))"

lemma exp_items_simps [simp]:
  "exp_items pmu [] k = []"
  "exp_items pmu (e # events) k = (if ec_exp e = k then event_items pmu e else []) @ exp_items pmu events k"
  by (simp_all add: exp_items_def)

lemma emit_eventE:
  assumes "emit_event pmu e (m, raws) = Some r"
  obtains m1 row where "map_event e m = Some m1" "ec_exp e < length raws" "event_string pmu e (raws ! ec_exp e) = Some row"
    "r = (m1, raws[ec_exp e := row])"
  using assms by (auto simp: emit_event_def rd_def wr_def split: Option.bind_splits if_splits)

lemma emit_raws:
  assumes "foldM (emit_event pmu) events (m, map (\<lambda>k. join_with (CHR '','') (tss k)) [0..<n]) = Some (m', raws)"
    and "\<forall>k<n. \<forall>t\<in>set (tss k). t \<noteq> []" and "\<forall>e\<in>set events. 0 \<le> ec_counter e \<and> ec_code e \<noteq> []"
  shows "raws = map (\<lambda>k. join_with (CHR '','') (tss k @ map item_text (exp_items pmu events k))) [0..<n]"
  using assms
proof (induction events arbitrary: m tss)
  case Nil
  then show ?case by simp
next
  case (Cons e events)
  let ?raws = "\<lambda>tss. map (\<lambda>k. join_with (CHR '','') (tss k)) [0..<n]"
  let ?tss = "tss(ec_exp e := tss (ec_exp e) @ map item_text (event_items pmu e))"
  obtain r where e: "emit_event pmu e (m, ?raws tss) = Some r" "foldM (emit_event pmu) events r = Some (m', raws)"
    using Cons.prems(1) by (auto split: Option.bind_splits)
  obtain m1 row where "map_event e m = Some m1" "ec_exp e < length (?raws tss)" "event_string pmu e (?raws tss ! ec_exp e) = Some row"
    "r = (m1, (?raws tss)[ec_exp e := row])"
    by (rule emit_eventE [OF e(1)])
  then have r: "ec_exp e < n" "event_string pmu e (join_with (CHR '','') (tss (ec_exp e))) = Some row"
    "foldM (emit_event pmu) events (m1, (?raws tss)[ec_exp e := row]) = Some (m', raws)"
    using e(2) by simp_all
  have row: "row = join_with (CHR '','') (tss (ec_exp e) @ map item_text (event_items pmu e))"
    by (rule event_string_join [OF r(2)]) (use Cons.prems(2,3) r(1) in auto)
  have "(?raws tss)[ec_exp e := row] = ?raws ?tss"
    by (rule nth_equalityI) (auto simp: row nth_list_update)
  then have "raws = ?raws (\<lambda>k. ?tss k @ map item_text (exp_items pmu events k))"
    by (intro Cons.IH [of m1]) (use r(3) Cons.prems(2,3) in \<open>auto simp: item_text_nonempty dest: sym [of "[]"]\<close>)
  then show ?case by simp
qed

text \<open>What the mapping says of an event.\<close>

definition mapped :: "counter_mapping_t list \<Rightarrow> event_cfg_t \<Rightarrow> bool" where
  "mapped m e \<longleftrightarrow> 0 \<le> ec_counter e \<and> nat (ec_counter e) < length m \<and>
     (let c = m ! nat (ec_counter e)
      in cm_nr_counter c = ec_counter e \<and> ec_exp e < length (cm_events c) \<and> cm_events c ! ec_exp e = Some (ec_name e) \<and>
         bit (cm_experiment_mask c) (ec_exp e))"

lemma flag_bit_nat: "flag_bit (int k) = Some b \<Longrightarrow> k < 31 \<and> b = push_bit k 1"
  by (auto simp: flag_bit_def simp del: push_bit_of_1 split: if_splits)

lemma bit_or_flag: "k < 31 \<Longrightarrow> bit (w OR push_bit k 1 :: u32) i \<longleftrightarrow> bit w i \<or> i = k"
  by (auto simp: bit_or_push simp del: push_bit_of_1)

definition mapping_shape :: "counter_mapping_t list \<Rightarrow> bool" where
  "mapping_shape m \<longleftrightarrow> list_all (\<lambda>c. length (cm_events c) = MAX_COUNTER_CONFIGS) m"

lemma map_eventE:
  assumes "map_event e m = Some m'" and "mapping_shape m"
  obtains c c' where "0 \<le> ec_counter e" "nat (ec_counter e) < length m" "c = m ! nat (ec_counter e)" "ec_exp e < MAX_COUNTER_CONFIGS"
    "c' = (if cm_nr_counter c = -1 then c\<lparr>cm_nr_counter := ec_counter e, cm_experiment_mask := 0\<rparr> else c)"
    "m' = m[nat (ec_counter e) := c'\<lparr>cm_events := (cm_events c')[ec_exp e := Some (ec_name e)],
       cm_experiment_mask := cm_experiment_mask c' OR push_bit (ec_exp e) 1\<rparr>]"
proof -
  let ?c = "m ! nat (ec_counter e)"
  let ?c' = "if cm_nr_counter ?c = -1 then ?c\<lparr>cm_nr_counter := ec_counter e, cm_experiment_mask := 0\<rparr> else ?c"
  have n: "0 \<le> ec_counter e" "nat (ec_counter e) < length m"
    using assms(1) by (auto simp: map_event_def rd_int_def rd_def split: Option.bind_splits if_splits)
  then have l: "length (cm_events ?c') = MAX_COUNTER_CONFIGS" using assms(2) by (simp add: mapping_shape_def list_all_length)
  have r: "rd_int m (ec_counter e) = Some ?c" using n by (simp add: mem_simps)
  obtain evs b where x: "wr (cm_events ?c') (ec_exp e) (Some (ec_name e)) = Some evs" "flag_bit (int (ec_exp e)) = Some b"
    "wr_int m (ec_counter e) (?c'\<lparr>cm_events := evs, cm_experiment_mask := cm_experiment_mask ?c' OR b\<rparr>) = Some m'"
    using assms(1) unfolding map_event_def r bind.simps Let_def by (auto split: Option.bind_splits simp del: if_split)
  have e: "ec_exp e < MAX_COUNTER_CONFIGS" "evs = (cm_events ?c')[ec_exp e := Some (ec_name e)]"
    using x(1) unfolding wr_def l by (simp_all split: if_splits)
  have "b = push_bit (ec_exp e) 1" using flag_bit_nat [OF x(2)] by simp
  then show thesis using that [OF n refl e(1) refl] x(3) n e(2) by (simp add: mem_simps)
qed

text \<open>The entries of the first \<open>n\<close> counters are free or those of the counter.\<close>

definition own_entries :: "nat \<Rightarrow> counter_mapping_t list \<Rightarrow> bool" where
  "own_entries n m \<longleftrightarrow> mapping_shape m \<and> (\<forall>i<n. i < length m \<longrightarrow> cm_nr_counter (m ! i) = -1 \<or> cm_nr_counter (m ! i) = int i)"

lemma map_event_own:
  assumes "map_event e m = Some m'" and "own_entries n m"
  shows "own_entries n m'"
proof -
  have s: "mapping_shape m" using assms(2) by (simp add: own_entries_def)
  show ?thesis
    by (rule map_eventE [OF assms(1) s])
      (use assms(2) in \<open>auto simp: own_entries_def mapping_shape_def list_all_length nth_list_update\<close>)
qed

lemma map_event_maps:
  assumes "map_event e m = Some m'" and "own_entries n m" and "ec_counter e < int n"
  shows "mapped m' e"
proof -
  have s: "mapping_shape m" using assms(2) by (simp add: own_entries_def)
  show ?thesis
  proof (rule map_eventE [OF assms(1) s])
    fix c c'
    assume c: "0 \<le> ec_counter e" "nat (ec_counter e) < length m" "c = m ! nat (ec_counter e)" "ec_exp e < MAX_COUNTER_CONFIGS"
      "c' = (if cm_nr_counter c = -1 then c\<lparr>cm_nr_counter := ec_counter e, cm_experiment_mask := 0\<rparr> else c)"
      "m' = m[nat (ec_counter e) := c'\<lparr>cm_events := (cm_events c')[ec_exp e := Some (ec_name e)],
         cm_experiment_mask := cm_experiment_mask c' OR push_bit (ec_exp e) 1\<rparr>]"
    have "nat (ec_counter e) < n" using c(1) assms(3) by simp
    moreover have "\<forall>i<n. i < length m \<longrightarrow> cm_nr_counter (m ! i) = -1 \<or> cm_nr_counter (m ! i) = int i"
      using assms(2) by (simp add: own_entries_def)
    ultimately have "cm_nr_counter c = -1 \<or> cm_nr_counter c = int (nat (ec_counter e))" using c(2,3) by blast
    then have "cm_nr_counter c = -1 \<or> cm_nr_counter c = ec_counter e" using c(1) by simp
    then have n: "cm_nr_counter c' = ec_counter e" using c(5) by auto
    have l: "length (cm_events c') = MAX_COUNTER_CONFIGS" using c(2,3,5) s by (simp add: mapping_shape_def list_all_length)
    have "ec_exp e < 31" using c(4) by (simp add: MAX_COUNTER_CONFIGS_def)
    then show "mapped m' e" using c(1,2,4) n l by (simp add: mapped_def c(6) bit_or_flag del: push_bit_of_1)
  qed
qed

lemma map_event_keeps:
  assumes "map_event f m = Some m'" and "own_entries n m" and m: "mapped m e"
    and "(ec_counter e, ec_exp e) \<noteq> (ec_counter f, ec_exp f)"
  shows "mapped m' e"
proof -
  have s: "mapping_shape m" using assms(2) by (simp add: own_entries_def)
  show ?thesis
  proof (rule map_eventE [OF assms(1) s])
    fix c c'
    assume c: "0 \<le> ec_counter f" "nat (ec_counter f) < length m" "c = m ! nat (ec_counter f)" "ec_exp f < MAX_COUNTER_CONFIGS"
      "c' = (if cm_nr_counter c = -1 then c\<lparr>cm_nr_counter := ec_counter f, cm_experiment_mask := 0\<rparr> else c)"
      "m' = m[nat (ec_counter f) := c'\<lparr>cm_events := (cm_events c')[ec_exp f := Some (ec_name f)],
         cm_experiment_mask := cm_experiment_mask c' OR push_bit (ec_exp f) 1\<rparr>]"
    have f: "ec_exp f < 31" using c(4) by (simp add: MAX_COUNTER_CONFIGS_def)
    show "mapped m' e"
    proof (cases "ec_counter e = ec_counter f")
      case True
      then have "c' = c" "ec_exp e \<noteq> ec_exp f" using m c(1,3,5) assms(4) by (auto simp: mapped_def Let_def)
      then show ?thesis using m c(1-3) f True by (simp add: mapped_def c(6) bit_or_flag Let_def del: push_bit_of_1)
    next
      case False
      then have "nat (ec_counter e) \<noteq> nat (ec_counter f)" using m c(1) by (auto simp: mapped_def)
      then show ?thesis using m c(2) by (simp add: mapped_def c(6))
    qed
  qed
qed

lemma distinct_images: "distinct (map g (d @ e # events)) \<Longrightarrow> f \<in> set d \<Longrightarrow> g f \<noteq> g e"
  by (metis distinct.simps(2) distinct_append image_eqI list.set_map list.simps(9) map_append not_distinct_conv_prefix Un_iff set_append)

lemma emit_maps:
  assumes "foldM (emit_event pmu) events (m, raws) = Some (m', raws')" and "own_entries n m"
    and "\<forall>e\<in>set events. ec_counter e < int n"
    and "distinct (map (\<lambda>e. (ec_counter e, ec_exp e)) (d @ events))" and "\<forall>e\<in>set d. mapped m e"
  shows "\<forall>e\<in>set (d @ events). mapped m' e"
  using assms
proof (induction events arbitrary: m raws d)
  case Nil
  then show ?case by simp
next
  case (Cons e events)
  obtain r where e: "emit_event pmu e (m, raws) = Some r" "foldM (emit_event pmu) events r = Some (m', raws')"
    using Cons.prems(1) by (auto split: Option.bind_splits)
  obtain m1 row where r: "map_event e m = Some m1" "r = (m1, raws[ec_exp e := row])" by (rule emit_eventE [OF e(1)])
  have d: "\<forall>f\<in>set (d @ [e]). mapped m1 f"
  proof
    fix f assume f: "f \<in> set (d @ [e])"
    show "mapped m1 f"
    proof (cases "f \<in> set d")
      case True
      then have "(ec_counter f, ec_exp f) \<noteq> (ec_counter e, ec_exp e)" using distinct_images [OF Cons.prems(4) True] by simp
      then show ?thesis using map_event_keeps [OF r(1) Cons.prems(2)] Cons.prems(5) True by blast
    next
      case False
      then show ?thesis using f map_event_maps [OF r(1) Cons.prems(2)] Cons.prems(3) by simp
    qed
  qed
  have "foldM (emit_event pmu) events (m1, raws[ec_exp e := row]) = Some (m', raws')" using e(2) by (simp add: r(2))
  moreover have "\<forall>e\<in>set events. ec_counter e < int n" using Cons.prems(3) by simp
  moreover have "distinct (map (\<lambda>e. (ec_counter e, ec_exp e)) ((d @ [e]) @ events))" using Cons.prems(4) by (simp del: distinct_append)
  ultimately have "\<forall>f\<in>set ((d @ [e]) @ events). mapped m' f"
    by (rule Cons.IH [OF _ map_event_own [OF r(1) Cons.prems(2)] _ _ d])
  then show ?case by simp
qed

lemma map_event_length: "map_event e m = Some m' \<Longrightarrow> length m' = length m"
  by (auto simp: map_event_def Let_def wr_int_def wr_def split: Option.bind_splits if_splits)

text \<open>The entries of the counters are marked as free first.\<close>

lemma clear_mapping:
  assumes "foldM (\<lambda>i m. do { c \<leftarrow> rd m i; wr m i (c\<lparr>cm_nr_counter := -1\<rparr>) }) [0..<n] m = Some m'" and "mapping_shape m"
  shows "own_entries n m'"
proof -
  have "mapping_shape m' \<and> (\<forall>i<n. cm_nr_counter (m' ! i) = -1)" using assms
  proof (induction n arbitrary: m')
    case 0
    then show ?case by simp
  next
    case (Suc n)
    obtain m1 where m1: "foldM (\<lambda>i m. do { c \<leftarrow> rd m i; wr m i (c\<lparr>cm_nr_counter := -1\<rparr>) }) [0..<n] m = Some m1"
      "n < length m1" "m' = m1[n := (m1 ! n)\<lparr>cm_nr_counter := -1\<rparr>]"
      using Suc.prems(1) by (auto simp: foldM_append rd_def wr_def split: Option.bind_splits if_splits)
    show ?case using Suc.IH [OF m1(1) Suc.prems(2)] m1(2,3)
      by (auto simp: mapping_shape_def list_all_length nth_list_update less_Suc_eq)
  qed
  then show ?thesis by (simp add: own_entries_def)
qed

lemma append_token_fits: "append_token tok row = Some row' \<Longrightarrow> length row' < ROW_CFG_SIZE"
  by (auto simp: append_token_def fits_def split: Option.bind_splits if_splits)

lemma event_string_fits:
  assumes "event_string pmu e row = Some row'"
  shows "length row' < ROW_CFG_SIZE"
proof -
  have f: "foldM (\<lambda>p. append_token (f p)) ps r = Some row' \<Longrightarrow> length r < ROW_CFG_SIZE \<Longrightarrow> length row' < ROW_CFG_SIZE" for f ps r
    by (induction ps arbitrary: r) (auto dest: append_token_fits split: Option.bind_splits)
  then show ?thesis using assms by (auto simp: event_string_def dest: append_token_fits split: Option.bind_splits)
qed

lemma emit_fits:
  assumes "foldM (emit_event pmu) events (m, raws) = Some (m', raws')" and "\<forall>r\<in>set raws. length r < ROW_CFG_SIZE"
  shows "\<forall>r\<in>set raws'. length r < ROW_CFG_SIZE"
  using assms
proof (induction events arbitrary: m raws)
  case Nil
  then show ?case by simp
next
  case (Cons e events)
  obtain r where e: "emit_event pmu e (m, raws) = Some r" "foldM (emit_event pmu) events r = Some (m', raws')"
    using Cons.prems(1) by (auto split: Option.bind_splits)
  obtain m1 row where r: "event_string pmu e (raws ! ec_exp e) = Some row" "r = (m1, raws[ec_exp e := row])" by (rule emit_eventE [OF e(1)])
  have "\<forall>r\<in>set (raws[ec_exp e := row]). length r < ROW_CFG_SIZE"
    using Cons.prems(2) event_string_fits [OF r(1)] set_update_subset_insert [of raws "ec_exp e" row] by auto
  then show ?case using Cons.IH e(2) r(2) by blast
qed

definition with_coretype :: "int \<Rightarrow> string list" where
  "with_coretype ct = (if ct = -1 then [] else [''coretype='' @ counter_string ct])"

lemma those_map:
  assumes "those (map f rows) = Some raws"
  shows "length raws = length rows \<and> (\<forall>k<length rows. f (rows ! k) = Some (raws ! k))"
  using assms
proof (induction rows arbitrary: raws)
  case Nil
  then show ?case by simp
next
  case (Cons r rows)
  obtain x rs where x: "f r = Some x" "those (map f rows) = Some rs" "raws = x # rs" using Cons.prems by (auto split: option.splits)
  show ?case
  proof (intro conjI allI impI)
    show "length raws = length (r # rows)" using Cons.IH [OF x(2)] x(3) by simp
  next
    fix k assume "k < length (r # rows)"
    then show "f ((r # rows) ! k) = Some (raws ! k)" using Cons.IH [OF x(2)] x by (cases k) simp_all
  qed
qed

lemma coretype_rows:
  assumes "those (map (\<lambda>r. fits n (r @ '',coretype='' @ counter_string ct)) rows) = Some raws" and "k < length rows"
  shows "length raws = length rows \<and> raws ! k = rows ! k @ '',coretype='' @ counter_string ct \<and> length (raws ! k) < n"
proof -
  note r = those_map [OF assms(1)]
  have f: "fits n s = Some t \<Longrightarrow> t = s \<and> length t < n" for s t by (simp add: fits_def split: if_splits)
  have "fits n (rows ! k @ '',coretype='' @ counter_string ct) = Some (raws ! k)" using r assms(2) by blast
  then have "raws ! k = rows ! k @ '',coretype='' @ counter_string ct \<and> length (raws ! k) < n" by (rule f)
  then show ?thesis using r by blast
qed

text \<open>What the strings are, when all experiments have events.\<close>

lemma generated:
  assumes g: "generate_strings pmu events n ct m = Some (m', raws)" and m: "mapping_shape m"
    and e: "\<forall>e\<in>set events. readable_event pmu e" and d: "distinct (map (\<lambda>e. (ec_counter e, ec_exp e)) events)"
    and k: "k < n" "exp_items pmu events k \<noteq> []"
  shows "length raws = n" "raws ! k = join_with (CHR '','') (map item_text (exp_items pmu events k) @ with_coretype ct)"
    "\<forall>e\<in>set events. mapped m' e" "length (raws ! k) < ROW_CFG_SIZE"
proof -
  let ?row = "\<lambda>k. join_with (CHR '','') (map item_text (exp_items pmu events k))"
  obtain m1 rows where
    c: "foldM (\<lambda>i m. do { c \<leftarrow> rd m i; wr m i (c\<lparr>cm_nr_counter := -1\<rparr>) }) [0..<pi_nr_fixed_pmcs pmu + pi_nr_gp_pmcs pmu] m = Some m1"
    and f: "foldM (emit_event pmu) events (m1, replicate n []) = Some (m', rows)"
    and r: "(if ct \<noteq> -1 then those (map (\<lambda>r. fits ROW_CFG_SIZE (r @ '',coretype='' @ counter_string ct)) rows) else Some rows) = Some raws"
    using g by (auto simp: generate_strings_def split: Option.bind_splits prod.splits if_splits)
  have own: "own_entries (pi_nr_fixed_pmcs pmu + pi_nr_gp_pmcs pmu) m1" by (rule clear_mapping [OF c m])
  have "\<forall>e\<in>set ([] @ events). mapped m' e"
    by (rule emit_maps [OF f own]) (use e d in \<open>auto simp: readable_event_def\<close>)
  then show "\<forall>e\<in>set events. mapped m' e" by simp
  have "replicate n [] = map (\<lambda>k. join_with (CHR '','') ((\<lambda>k. []) k)) [0..<n]" by (rule nth_equalityI) simp_all
  then have "rows = map (\<lambda>k. join_with (CHR '','') ((\<lambda>k. []) k @ map item_text (exp_items pmu events k))) [0..<n]"
    by (intro emit_raws [of pmu events m1 _ n m']) (use f e in \<open>auto simp: readable_event_def\<close>)
  then have rows: "rows = map ?row [0..<n]" by simp
  have ne: "map item_text (exp_items pmu events k) \<noteq> []" using k(2) by simp
  have "\<forall>r\<in>set rows. length r < ROW_CFG_SIZE" by (rule emit_fits [OF f]) (simp add: ROW_CFG_SIZE_def)
  moreover have "length rows = n" by (simp add: rows)
  ultimately have "length (rows ! k) < ROW_CFG_SIZE" using k(1) by simp
  moreover have "ct \<noteq> -1 \<Longrightarrow> length (raws ! k) < ROW_CFG_SIZE"
    using r k(1) coretype_rows [of ROW_CFG_SIZE ct rows raws k] \<open>length rows = n\<close> by (metis (no_types, lifting))
  ultimately show "length (raws ! k) < ROW_CFG_SIZE" using r by (cases "ct = -1") simp_all
  show "length raws = n"
  proof (cases "ct = -1")
    case True
    then have "raws = rows" using r by simp
    then show ?thesis by (simp add: rows)
  next
    case False
    then show ?thesis using r rows k(1) coretype_rows [of ROW_CFG_SIZE ct rows raws k] by simp
  qed
  show "raws ! k = join_with (CHR '','') (map item_text (exp_items pmu events k) @ with_coretype ct)"
  proof (cases "ct = -1")
    case True
    then have "raws = rows" using r by simp
    then show ?thesis using True k(1) by (simp add: rows with_coretype_def)
  next
    case False
    then have "raws ! k = ?row k @ '',coretype='' @ counter_string ct" using r rows k(1) coretype_rows [of ROW_CFG_SIZE ct rows raws k] by simp
    then show ?thesis using False join_snoc [OF ne] by (simp add: with_coretype_def)
  qed
qed

section \<open>The kernel reads what was asked for\<close>

lemma no_cfg_entry: "c < MAX_LL_EXPS \<Longrightarrow> pmc_cfg empty_config ! c = no_cfg" "length (pmc_cfg empty_config) = MAX_LL_EXPS"
  by (simp_all add: empty_config_def)

text \<open>A string of items that can be read.\<close>

lemma parse_row:
  assumes its: "\<forall>ci\<in>set its. fst ci < MAX_LL_EXPS \<and> readable_item (snd ci)" "its \<noteq> []"
    and ebs: "length (filter (\<lambda>ci. is_ebs (snd ci)) its) \<le> 1" and ct: "ct \<in> {-1, 0, 1}"
    and l: "length (join_with (CHR '','') (map item_text its @ with_coretype ct)) < PMCTRACK_MAX_LEN_RAW_PMC_STRING"
  shows "parse_pmcs_strconfig (join_with (CHR '','') (map item_text its @ with_coretype ct)) True =
    Inr ((fold apply_item its empty_config)\<lparr>cs_coretype := ct\<rparr>)"
proof -
  let ?s = "fold apply_item its empty_config"
  have sp: "split_on (CHR '','') (join_with (CHR '','') (map item_text its @ with_coretype ct)) = map item_text its @ with_coretype ct"
  proof (rule split_join)
    have "CHR '','' \<notin> set (counter_string ct)" using ct by (auto simp: counter_string_def dest: dec_string_chars)
    then show "\<forall>t\<in>set (map item_text its @ with_coretype ct). CHR '','' \<notin> set t"
      using its(1) item_text_no_comma by (auto simp: with_coretype_def)
  qed (simp add: its(2))
  have c0: "parse_flags True [] n ?s = Inr (?s\<lparr>cs_coretype := -1\<rparr>)" for n by (simp add: empty_config_def)
  have "parse_flags True (with_coretype ct) n ?s = Inr (?s\<lparr>cs_coretype := ct\<rparr>)" for n
    using ct coretype_token [of 0 ?s] coretype_token [of 1 ?s] c0 by (auto simp: with_coretype_def counter_string_def)
  moreover have "parse_flags True (map item_text its @ with_coretype ct) 0 empty_config = parse_flags True (with_coretype ct) (length its) ?s"
    using parse_items [of empty_config its "with_coretype ct" 0] its(1) ebs by (simp add: no_cfg_entry empty_config_def)
  ultimately show ?thesis using l by (simp add: parse_pmcs_strconfig_def sp PMCTRACK_MAX_LEN_RAW_PMC_STRING_def)
qed

lemma filter_distinct_image: "distinct (map g xs) \<Longrightarrow> x \<in> set xs \<Longrightarrow> filter (\<lambda>y. g y = g x) xs = [x]"
  by (induction xs) (auto simp: image_iff filter_empty_conv)

lemma event_items_counter: "ci \<in> set (event_items pmu e) \<Longrightarrow> fst ci = nat (ec_counter e)"
  by (auto simp: event_items_def)

lemma filter_event_items: "filter (\<lambda>ci. fst ci = c) (event_items pmu e) = (if nat (ec_counter e) = c then event_items pmu e else [])"
  using event_items_counter by (auto simp: filter_empty_conv filter_id_conv)

text \<open>The items of the counter of an event in its experiment are those of the event.\<close>

lemma items_of_event:
  assumes d: "distinct (map (\<lambda>e. (ec_counter e, ec_exp e)) events)" and n: "\<forall>e\<in>set events. 0 \<le> ec_counter e" and e: "e \<in> set events"
  shows "filter (\<lambda>ci. fst ci = nat (ec_counter e)) (exp_items pmu events (ec_exp e)) = event_items pmu e"
proof -
  have "filter (\<lambda>ci. fst ci = c) (exp_items pmu evs k) = concat (map (event_items pmu) (filter (\<lambda>f. nat (ec_counter f) = c \<and> ec_exp f = k) evs))"
    for c k evs by (induction evs) (simp_all add: filter_event_items)
  moreover have "filter (\<lambda>f. nat (ec_counter f) = nat (ec_counter e) \<and> ec_exp f = ec_exp e) events =
      filter (\<lambda>f. (ec_counter f, ec_exp f) = (ec_counter e, ec_exp e)) events"
    by (rule filter_cong) (use n e in \<open>auto simp: eq_nat_nat_iff\<close>)
  ultimately show ?thesis using filter_distinct_image [OF d e] by simp
qed

definition is_ebs_event :: "event_cfg_t \<Rightarrow> bool" where
  "is_ebs_event e \<longleftrightarrow> list_ex (\<lambda>p. pr_key p = ''ebs'') (ec_properties e)"

definition ebs_flags :: "event_cfg_t list \<Rightarrow> nat \<Rightarrow> nat" where
  "ebs_flags events k = length (filter (\<lambda>p. pr_key p = ''ebs'') (concat (map ec_properties (filter (\<lambda>e. ec_exp e = k) events))))"

lemma ebs_items: "length (filter (\<lambda>ci. is_ebs (snd ci)) (exp_items pmu events k)) = ebs_flags events k"
proof -
  have "length (filter (\<lambda>ci. is_ebs (snd ci)) (event_items pmu e)) = length (filter (\<lambda>p. pr_key p = ''ebs'') (ec_properties e))" for e
    by (simp add: event_items_def is_ebs_def filter_map o_def)
  then show ?thesis by (induction events) (simp_all add: ebs_flags_def)
qed

lemma fold_item_cfg: "fold (\<lambda>ci. item_cfg (snd ci)) (event_items pmu e) no_cfg = event_config pmu e"
  by (simp add: event_config_def)

lemma generated_config:
  assumes g: "generate_strings pmu events n ct m = Some (m', raws)" and m: "mapping_shape m"
    and r: "\<forall>e\<in>set events. readable_event pmu e" and d: "distinct (map (\<lambda>e. (ec_counter e, ec_exp e)) events)"
    and ebs: "ebs_flags events (ec_exp e) \<le> 1" and ct: "ct \<in> {-1, 0, 1}" and e: "e \<in> set events" "ec_exp e < n"
  shows "\<exists>c. parse_pmcs_strconfig (raws ! ec_exp e) True = Inr c \<and> cs_coretype c = ct \<and>
     (\<forall>i. bit (cs_used_pmcs c) i \<longleftrightarrow> (\<exists>f\<in>set events. ec_exp f = ec_exp e \<and> ec_counter f = int i)) \<and>
     pmc_cfg c ! nat (ec_counter e) = event_config pmu e \<and> mapped m' e"
proof -
  let ?its = "exp_items pmu events (ec_exp e)"
  let ?c = "(fold apply_item ?its empty_config)\<lparr>cs_coretype := ct\<rparr>"
  have nn: "\<forall>e\<in>set events. 0 \<le> ec_counter e \<and> ec_counter e < int MAX_LL_EXPS" using r by (simp add: readable_event_def)
  have ne: "?its \<noteq> []" using e(1) by (force simp: exp_items_def event_items_def)
  have its: "\<forall>ci\<in>set ?its. fst ci < MAX_LL_EXPS \<and> readable_item (snd ci)"
  proof
    fix ci assume "ci \<in> set ?its"
    then obtain f where f: "f \<in> set events" "ci \<in> set (event_items pmu f)" by (auto simp: exp_items_def)
    then show "fst ci < MAX_LL_EXPS \<and> readable_item (snd ci)"
      using nn r event_items_counter [OF f(2)] by (fastforce simp: readable_event_def)
  qed
  note gen = generated [OF g m r d e(2) ne]
  have l: "length (raws ! ec_exp e) < PMCTRACK_MAX_LEN_RAW_PMC_STRING - 1"
    using gen(4) by (simp add: ROW_CFG_SIZE_def PMCTRACK_MAX_LEN_RAW_PMC_STRING_def)
  have p: "parse_pmcs_strconfig (raws ! ec_exp e) True = Inr ?c"
    unfolding gen(2) by (rule parse_row [OF its ne _ ct]) (use ebs l in \<open>auto simp: ebs_items gen(2)\<close>)
  have c: "nat (ec_counter e) < MAX_LL_EXPS" using nn e(1) by auto
  have "pmc_cfg ?c ! nat (ec_counter e) = event_config pmu e"
    using fold_apply_cfg [of empty_config ?its "nat (ec_counter e)"] its c items_of_event [OF d _ e(1)] nn
    by (simp add: no_cfg_entry fold_item_cfg)
  moreover have "bit (cs_used_pmcs ?c) i \<longleftrightarrow> (\<exists>f\<in>set events. ec_exp f = ec_exp e \<and> ec_counter f = int i)" for i
  proof -
    have "bit (cs_used_pmcs ?c) i \<longleftrightarrow> i < 32 \<and> (\<exists>ci\<in>set ?its. fst ci = i \<and> is_pmc (snd ci))"
      by (simp add: fold_apply_used) (simp add: empty_config_def)
    also have "\<dots> \<longleftrightarrow> i < 32 \<and> (\<exists>f\<in>set events. ec_exp f = ec_exp e \<and> nat (ec_counter f) = i)"
      by (auto simp: exp_items_def event_items_def is_pmc_def)
    also have "\<dots> \<longleftrightarrow> (\<exists>f\<in>set events. ec_exp f = ec_exp e \<and> ec_counter f = int i)"
      using nn by (auto simp: MAX_LL_EXPS_def)
    finally show ?thesis .
  qed
  ultimately show ?thesis using p gen(3) e(1) by auto
qed

section \<open>From the string of the user\<close>

lemma mapping_shape_init: "mapping_shape no_mapping"
  by (simp add: mapping_shape_def no_mapping_def list_all_iff)

text \<open>A small processor, for examples.\<close>

definition small_pmu :: pmu_info_t where
  "small_pmu = \<lparr>pi_model = ''small'', pi_nr_fixed_pmcs = 1, pi_nr_gp_pmcs = 2,
     pi_events = [\<lparr>he_pmcn = 0, he_name = ''instr'', he_code = ''0xc0'', he_subevents = [\<lparr>hs_name = ''any'', hs_properties = []\<rparr>]\<rparr>,
       \<lparr>he_pmcn = -1, he_name = ''l2'', he_code = ''0x24'',
        he_subevents = [\<lparr>hs_name = ''miss'', hs_properties = [\<lparr>pr_key = ''umask'', pr_value = ''0x3f''\<rparr>]\<rparr>]\<rparr>]\<rparr>"

definition small_request :: string where "small_request = ''instr,l2.miss:usr=1:os,0x2e:umask=0x41,0x3c:ebs=500,coretype=1''"

lemma small_events: "case string_events small_pmu 2 small_request of Some (Inr st) \<Rightarrow> length (st_events st) = 4 | _ \<Rightarrow> False"
  by code_simp

text \<open>C6. Every event of a string that can be placed gets a counter and an experiment of its own: the search for free counters ends
  whenever the processor has a counter for general purposes, events with a counter keep it, no two events share a counter in an
  experiment, no experiment is beyond the number that is reported, and the mask is that of the first experiment.\<close>

theorem every_event_gets_a_counter:
  assumes "0 < pi_nr_gp_pmcs pmu" and "pi_nr_fixed_pmcs pmu + pi_nr_gp_pmcs pmu \<le> 32" and "length s < ROW_CFG_SIZE"
    and "string_events pmu mt s = Some (Inr st)"
  shows "\<exists>r. place_events pmu mt s = Some (Inr r) \<and> placement_of (st_events st) r"
  by (rule places_found [OF assms]) blast

theorem every_event_gets_a_counter_witness:
  "\<exists>st r. string_events small_pmu 2 small_request = Some (Inr st) \<and> length (st_events st) = 4 \<and>
     place_events small_pmu 2 small_request = Some (Inr r) \<and> placement_of (st_events st) r"
proof -
  have p: "0 < pi_nr_gp_pmcs small_pmu" "pi_nr_fixed_pmcs small_pmu + pi_nr_gp_pmcs small_pmu \<le> 32" "length small_request < ROW_CFG_SIZE"
    by code_simp+
  obtain st where st: "string_events small_pmu 2 small_request = Some (Inr st)" "length (st_events st) = 4"
    using small_events by (auto split: option.splits sum.splits)
  then show ?thesis using every_event_gets_a_counter [OF p st(1)] by blast
qed

text \<open>C5. The kernel module reads from the strings of the library what the user asked for: in the configuration of the experiment of an
  event, its counter has the event and the flags of the user, the counters used are those of the events of the experiment, and the
  mapping names the event.\<close>

theorem kernel_reads_what_was_asked:
  assumes place: "place_events pmu mt s = Some (Inr (events, n, ct, w))" and gen: "generate_strings pmu events n ct no_mapping = Some (m, raws)"
    and pmu: "0 < pi_nr_gp_pmcs pmu" "pi_nr_fixed_pmcs pmu + pi_nr_gp_pmcs pmu \<le> 32"
    and readable: "list_all (readable_event pmu) events" and ebs: "ebs_flags events (ec_exp e) \<le> 1" and ct: "ct \<in> {-1, 0, 1}"
    and e: "e \<in> set events"
  shows "\<exists>c. parse_pmcs_strconfig (raws ! ec_exp e) True = Inr c \<and> cs_coretype c = ct \<and>
     (\<forall>i. bit (cs_used_pmcs c) i \<longleftrightarrow> (\<exists>f\<in>set events. ec_exp f = ec_exp e \<and> ec_counter f = int i)) \<and>
     pmc_cfg c ! nat (ec_counter e) = event_config pmu e \<and> mapped m e"
proof -
  have r: "\<forall>e\<in>set events. readable_event pmu e" using readable by (simp add: list_all_iff)
  then have p: "\<forall>e\<in>set events. placed e" by (simp add: readable_event_def placed_def)
  obtain st where "string_events pmu mt s = Some (Inr st)" and st: "placement_of (st_events st) (events, n, ct, w)"
    by (rule places_of [OF place pmu])
  then have d: "distinct (map (\<lambda>e. (ec_counter e, ec_exp e)) events)" using placed_apart [OF _ p] by (simp add: placement_of_def)
  have "ec_exp e < n" using st p e by (simp add: placement_of_def)
  then show ?thesis by (rule generated_config [OF gen mapping_shape_init r d ebs ct e])
qed

text \<open>The last event of the example is sampled in a second experiment.\<close>

definition small_result :: "(event_cfg_t list \<times> counter_mapping_t list \<times> string list) option" where
  "small_result = (case place_events small_pmu 2 small_request of
     Some (Inr (events, n, ct, w)) \<Rightarrow>
       if n = 2 \<and> ct = 1 \<and> list_all (readable_event small_pmu) events \<and> length events = 4 \<and> ec_exp (events ! 3) = 1 \<and>
          ebs_flags events 1 \<le> 1
       then map_option (\<lambda>(m, raws). (events, m, raws)) (generate_strings small_pmu events n ct no_mapping) else None
   | _ \<Rightarrow> None)"

lemma small_result_ok: "case small_result of Some (events, m, raws) \<Rightarrow> raws ! 1 = ''pmc1=0x3c,ebs1=500,coretype=1'' | None \<Rightarrow> False"
  by code_simp

theorem kernel_reads_what_was_asked_witness:
  "\<exists>e c. parse_pmcs_strconfig ''pmc1=0x3c,ebs1=500,coretype=1'' True = Inr c \<and> cs_coretype c = 1 \<and>
     pmc_cfg c ! nat (ec_counter e) = event_config small_pmu e"
proof -
  obtain events m raws where r: "small_result = Some (events, m, raws)" "raws ! 1 = ''pmc1=0x3c,ebs1=500,coretype=1''"
    using small_result_ok by (auto split: option.splits)
  then obtain w where w: "place_events small_pmu 2 small_request = Some (Inr (events, 2, 1, w))"
    "generate_strings small_pmu events 2 1 no_mapping = Some (m, raws)" "list_all (readable_event small_pmu) events" "length events = 4"
    "ec_exp (events ! 3) = 1" "ebs_flags events 1 \<le> 1"
    by (auto simp: small_result_def split: option.splits sum.splits if_splits)
  have p: "0 < pi_nr_gp_pmcs small_pmu" "pi_nr_fixed_pmcs small_pmu + pi_nr_gp_pmcs small_pmu \<le> 32" by code_simp+
  have "events ! 3 \<in> set events" using w(4) by simp
  from kernel_reads_what_was_asked [OF w(1,2) p w(3) _ _ this] show ?thesis using w(5,6) r(2) by auto
qed

end
