(* ===== verification/ParserProps.thy ===== *)
theory ParserProps
  imports ConfigItems
begin

text \<open>
  Any string the kernel module accepts: the configuration it gives is well formed, and the check of the library agrees on the
  counters. The strings of virtual counters.
\<close>

section \<open>The configurations the kernel module accepts\<close>

definition usrcfg_typed :: "pmc_usrcfg_t \<Rightarrow> bool" where
  "usrcfg_typed c \<longleftrightarrow> cfg_usr c \<in> {0, 1} \<and> cfg_os c \<in> {0, 1} \<and> cfg_edge c \<in> {0, 1} \<and> cfg_inv c \<in> {0, 1} \<and> cfg_any c \<in> {0, 1} \<and>
     cfg_ebs_mode c \<in> {0, 1}"

text \<open>The fields of one bit are bits, the counters and the core type are in the bounds of the arrays, and only one counter samples.\<close>

definition config_typed :: "pmc_config_set_t \<Rightarrow> bool" where
  "config_typed s \<longleftrightarrow> length (pmc_cfg s) = MAX_LL_EXPS \<and> (\<forall>i<MAX_LL_EXPS. usrcfg_typed (pmc_cfg s ! i)) \<and>
     (\<forall>i. bit (cs_used_pmcs s) i \<longrightarrow> i < MAX_LL_EXPS) \<and> -1 \<le> cs_ebs_index s \<and> cs_ebs_index s < int MAX_LL_EXPS \<and>
     (\<forall>i<MAX_LL_EXPS. cfg_ebs_mode (pmc_cfg s ! i) = 1 \<longrightarrow> cs_ebs_index s = int i) \<and> cs_coretype s \<in> {-1, 0, 1}"

lemma config_typedD:
  assumes "config_typed s"
  shows "length (pmc_cfg s) = MAX_LL_EXPS" "i < MAX_LL_EXPS \<Longrightarrow> usrcfg_typed (pmc_cfg s ! i)"
    "bit (cs_used_pmcs s) i \<Longrightarrow> i < MAX_LL_EXPS" "i < MAX_LL_EXPS \<Longrightarrow> cfg_ebs_mode (pmc_cfg s ! i) = 1 \<Longrightarrow> cs_ebs_index s = int i"
  using assms by (simp_all add: config_typed_def)

lemma empty_config_typed: "config_typed empty_config"
  by (simp add: config_typed_def empty_config_def usrcfg_typed_def no_cfg_def)

lemma counter_id_nat:
  assumes "counter_id idx"
  obtains k where "k < MAX_LL_EXPS" "unat idx = k" "sint idx = int k"
proof -
  obtain k where k: "sint idx = int k" "k < MAX_LL_EXPS" using assms nonneg_int_cases [of "sint idx"] by (auto simp: counter_id_def)
  have "idx = word_of_int (int k)" by (simp flip: k(1))
  then have "unat idx = k" using counter_of_nat(2) [OF k(2)] by simp
  then show thesis using that k by blast
qed

text \<open>A change of one counter that keeps the sampling mode.\<close>

lemma upd_cfg_typed:
  assumes "config_typed s" and "counter_id idx" and "\<And>c. usrcfg_typed c \<Longrightarrow> usrcfg_typed (f c) \<and> cfg_ebs_mode (f c) = cfg_ebs_mode c"
  shows "config_typed (upd_cfg idx f s)"
proof -
  obtain k where i: "unat idx < MAX_LL_EXPS" by (rule counter_id_nat [OF assms(2)]) simp
  show ?thesis using assms(1,3) i unfolding config_typed_def upd_cfg_def by (auto simp: nth_list_update)
qed

lemma value_flag_typed:
  assumes "value_flag f1 f2 f flag s = Some (Some s')" and "config_typed s"
    and "\<And>v c. usrcfg_typed c \<Longrightarrow> usrcfg_typed (f v c) \<and> cfg_ebs_mode (f v c) = cfg_ebs_mode c"
  shows "config_typed s'"
  using assms(1) upd_cfg_typed [OF assms(2)] assms(3)
  by (auto simp: value_flag_def Let_def split: list.splits if_splits)

lemma bit_flag_typed:
  assumes "bit_flag fm f flag s = Some (Some s')" and "config_typed s"
    and "\<And>v c. v \<in> {0, 1} \<Longrightarrow> usrcfg_typed c \<Longrightarrow> usrcfg_typed (f v c) \<and> cfg_ebs_mode (f v c) = cfg_ebs_mode c"
  shows "config_typed s'"
  using assms(1) upd_cfg_typed [OF assms(2)] assms(3)
  by (auto simp: bit_flag_def split: list.splits if_splits)

lemma coretype_flag_typed: "coretype_flag flag s = Some (Some s') \<Longrightarrow> config_typed s \<Longrightarrow> config_typed s'"
  by (auto simp: coretype_flag_def config_typed_def AMP_MAX_CORETYPES_def split: list.splits if_splits)

lemma pmc_flag_typed:
  assumes "pmc_flag flag s = Some (Some s')" and t: "config_typed s"
  shows "config_typed s'"
proof -
  obtain idx vals where v: "sscanf False flag ''pmc%i=%x'' = idx # vals" "counter_id idx" using assms(1)
    by (auto simp: pmc_flag_def split: list.splits if_splits)
  let ?s = "s\<lparr>cs_used_pmcs := cs_used_pmcs s OR push_bit (unat idx) 1, cs_nr_pmcs := cs_nr_pmcs s + 1\<rparr>"
  let ?s1 = "upd_cfg idx (\<lambda>c. c\<lparr>cfg_usr := 1\<rparr>) ?s"
  obtain k where "unat idx < MAX_LL_EXPS" by (rule counter_id_nat [OF v(2)]) simp
  then have "config_typed ?s" using t
    by (auto simp: config_typed_def bit_or_iff bit_push_bit_iff bit_1_iff simp del: push_bit_of_1)
  then have 1: "config_typed ?s1" by (rule upd_cfg_typed [OF _ v(2)]) (simp add: usrcfg_typed_def)
  have 2: "config_typed (upd_cfg idx (\<lambda>c. c\<lparr>cfg_evtsel := val\<rparr>) ?s1)" for val
    by (rule upd_cfg_typed [OF 1 v(2)]) (simp add: usrcfg_typed_def)
  show ?thesis using assms(1) v 1 2 by (auto simp: pmc_flag_def Let_def split: list.splits)
qed

lemma ebs_flag_typed:
  assumes "ebs_flag a flag s = Some (Some s')" and t: "config_typed s"
  shows "config_typed s'"
proof -
  obtain idx vals where v: "sscanf False flag ''ebs%i=%d'' = idx # vals" "counter_id idx" "cs_ebs_index s = -1" using assms(1)
    by (auto simp: ebs_flag_def split: list.splits if_splits)
  obtain k where k: "k < MAX_LL_EXPS" "unat idx = k" "sint idx = int k" by (rule counter_id_nat [OF v(2)])
  have "config_typed (upd_cfg idx (\<lambda>c. c\<lparr>cfg_ebs_mode := 1, cfg_reset_value := w\<rparr>) (s\<lparr>cs_ebs_index := sint idx\<rparr>))" for w
    using t v(3) k(1) unfolding config_typed_def upd_cfg_def k by (auto simp: nth_list_update usrcfg_typed_def)
  then show ?thesis using assms(1) v by (auto simp: ebs_flag_def Let_def split: if_splits)
qed

text \<open>The branches of a flag.\<close>

lemma parse_flag_cases:
  assumes "parse_flag a flag s = Some s'"
  obtains (pmc) "pmc_flag flag s = Some (Some s')"
    | (umask) "pmc_flag flag s = None" "value_flag ''umask%i=%x'' ''um%i=%x'' (\<lambda>v c. c\<lparr>cfg_umask := ucast v\<rparr>) flag s = Some (Some s')"
    | (cmask) "pmc_flag flag s = None" "value_flag ''cmask%i=%x'' ''cm%i=%x'' (\<lambda>v c. c\<lparr>cfg_cmask := ucast v\<rparr>) flag s = Some (Some s')"
    | (usr) "pmc_flag flag s = None" "bit_flag ''usr%i=%d'' (\<lambda>v c. c\<lparr>cfg_usr := v\<rparr>) flag s = Some (Some s')"
    | (os) "pmc_flag flag s = None" "bit_flag ''os%i=%d'' (\<lambda>v c. c\<lparr>cfg_os := v\<rparr>) flag s = Some (Some s')"
    | (edge) "pmc_flag flag s = None" "bit_flag ''edge%i=%d'' (\<lambda>v c. c\<lparr>cfg_edge := v\<rparr>) flag s = Some (Some s')"
    | (inv) "pmc_flag flag s = None" "bit_flag ''inv%i=%d'' (\<lambda>v c. c\<lparr>cfg_inv := v\<rparr>) flag s = Some (Some s')"
    | (any) "pmc_flag flag s = None" "bit_flag ''any%i=%d'' (\<lambda>v c. c\<lparr>cfg_any := v\<rparr>) flag s = Some (Some s')"
    | (ebs) "pmc_flag flag s = None" "ebs_flag a flag s = Some (Some s')"
    | (coretype) "pmc_flag flag s = None" "coretype_flag flag s = Some (Some s')"
proof -
  have o: "orelse x y = Some (Some z) \<longleftrightarrow> x = Some (Some z) \<or> (x = None \<and> y = Some (Some z))" for x y z
    by (auto simp: orelse_def split: option.splits)
  have c: "(case x of None \<Rightarrow> None | Some r \<Rightarrow> r) = Some z \<longleftrightarrow> x = Some (Some z)" for x :: branch and z
    by (auto split: option.splits)
  show thesis using assms unfolding parse_flag_def c o by (elim disjE conjE) (erule (1) that | erule that)+
qed

lemma parse_flag_typed:
  assumes "parse_flag a flag s = Some s'" and t: "config_typed s"
  shows "config_typed s'"
  using assms(1)
proof (cases rule: parse_flag_cases)
  case pmc
  then show ?thesis using t by (rule pmc_flag_typed)
next
  case umask
  show ?thesis by (rule value_flag_typed [OF umask(2) t]) (simp add: usrcfg_typed_def)
next
  case cmask
  show ?thesis by (rule value_flag_typed [OF cmask(2) t]) (simp add: usrcfg_typed_def)
next
  case usr
  show ?thesis by (rule bit_flag_typed [OF usr(2) t]) (simp add: usrcfg_typed_def)
next
  case os
  show ?thesis by (rule bit_flag_typed [OF os(2) t]) (simp add: usrcfg_typed_def)
next
  case edge
  show ?thesis by (rule bit_flag_typed [OF edge(2) t]) (simp add: usrcfg_typed_def)
next
  case inv
  show ?thesis by (rule bit_flag_typed [OF inv(2) t]) (simp add: usrcfg_typed_def)
next
  case any
  show ?thesis by (rule bit_flag_typed [OF any(2) t]) (simp add: usrcfg_typed_def)
next
  case ebs
  show ?thesis by (rule ebs_flag_typed [OF ebs(2) t])
next
  case coretype
  show ?thesis by (rule coretype_flag_typed [OF coretype(2) t])
qed

lemma parse_flags_typed: "parse_flags a flags n s = Inr s' \<Longrightarrow> config_typed s \<Longrightarrow> config_typed s'"
  by (induction flags arbitrary: n s) (auto dest: parse_flag_typed split: option.splits)

lemma parse_flags_wrong: "parse_flags a flags n s = Inl k \<Longrightarrow> n < k \<and> k \<le> n + length flags"
proof (induction flags arbitrary: n s)
  case Nil
  then show ?case by simp
next
  case (Cons f flags)
  then show ?case by (fastforce split: option.splits)
qed

text \<open>C7. Whatever string the kernel module accepts, the configuration fits the arrays it is used with: the fields of one bit are
  bits, no counter is beyond the \<open>MAX_LL_EXPS\<close> entries of the arrays of counters, at most one of them samples, and the core type is
  none or one of the \<open>AMP_MAX_CORETYPES\<close> the arrays have room for. Whether the processor has such a counter or core type the parser
  does not ask. The error of a string it does not accept is the number of one of its flags.\<close>

theorem accepted_configurations_are_typed:
  "case parse_pmcs_strconfig buf ebs_allowed of
     Inl k \<Rightarrow> 0 < k \<and> k \<le> length (split_on (CHR '','') (take (PMCTRACK_MAX_LEN_RAW_PMC_STRING - 1) buf)) | Inr c \<Rightarrow> config_typed c"
  using parse_flags_typed [OF _ empty_config_typed] parse_flags_wrong [of ebs_allowed _ 0]
  by (auto simp: parse_pmcs_strconfig_def split: sum.splits)

section \<open>The check of the library\<close>

lemma scan_digits_bound: "2 \<le> b \<Longrightarrow> fst (scan_digits b acc s) < (acc + 1) * b ^ length s"
proof (induction b acc s rule: scan_digits.induct)
  case (1 b acc)
  then show ?case by simp
next
  case (2 b acc ch s)
  have base: "acc < (acc + 1) * b ^ length (ch # s)" 
  proof -
    have "1 \<le> b ^ length (ch # s)" using 2(2) by (simp add: Suc_leI)
    then have "(acc + 1) * 1 \<le> (acc + 1) * b ^ length (ch # s)" by (rule mult_left_mono) simp
    moreover have "acc < (acc + 1) * 1" by simp
    ultimately show ?thesis by (rule order_less_le_trans [rotated])
  qed
  show ?case
  proof (cases "digit_value ch")
    case None
    then show ?thesis using base by simp
  next
    case (Some d)
    show ?thesis
    proof (cases "d < b")
      case True
      have "fst (scan_digits b (acc * b + d) s) < (acc * b + d + 1) * b ^ length s" using 2 Some True by simp
      also have "\<dots> \<le> (acc * b + b) * b ^ length s" using True by (intro mult_right_mono) auto
      finally show ?thesis using Some True by (simp add: algebra_simps)
    next
      case False
      then show ?thesis using base Some by simp
    qed
  qed
qed

lemma radix_0: "radix 0 t = (b, ds) \<Longrightarrow> t \<noteq> [] \<Longrightarrow> 2 \<le> b \<and> b \<le> 16 \<and> length ds \<le> length t"
  by (auto simp: radix_def split: list.splits if_splits)

text \<open>A short number that the kernel reads is the same for the library.\<close>

lemma scan_number_lib:
  assumes k: "scan_number False 0 True s = Some r" and l: "length s \<le> 15"
  shows "scan_number True 0 True s = Some r"
proof -
  have "dropWhile is_space s \<noteq> []"
  proof
    assume "dropWhile is_space s = []"
    then have "scan_number False 0 True s = None" unfolding scan_number_def by (simp only: Let_def) simp
    then show False using k by simp
  qed
  then obtain ch u where s: "dropWhile is_space s = ch # u" by (cases "dropWhile is_space s") auto
  define n where "n = (ch = CHR ''-'')"
  define d where "d = (if n then u else ch # u)"
  define num where "num c = (case radix 0 d of (b, ds) \<Rightarrow> case scan_digits b 0 ds of (v, r) \<Rightarrow>
      Some (word_of_int (c (if n then - int v else int v)) :: u32, r))" for c
  have kern: "scan_number False 0 True s = (if d = [] \<or> \<not> is_digit 10 (hd d) then None else num id)"
    by (simp add: scan_number_def s Let_def n_def d_def num_def)
  then have d: "d \<noteq> []" "is_digit 10 (hd d)" "num id = Some r" using k by (auto split: if_splits)
  have "ch \<noteq> CHR ''+''" using d(2) by (auto simp: d_def n_def is_digit_def digit_value_def)
  then have lib: "scan_number True 0 True s = num (\<lambda>x. max (- (2 ^ 63)) (min (2 ^ 63 - 1) x))"
    using d(1,2) unfolding scan_number_def s by (cases "ch = CHR ''-''") (simp_all add: Let_def n_def d_def num_def)
  obtain b ds where rd: "radix 0 d = (b, ds)" by (cases "radix 0 d")
  obtain v t where v: "scan_digits b 0 ds = (v, t)" by (cases "scan_digits b 0 ds")
  have b: "2 \<le> b" "b \<le> 16" "length ds \<le> length d" using radix_0 [OF rd d(1)] by simp_all
  have ls: "length d \<le> 15" using l length_dropWhile_le [of is_space s] by (simp add: d_def s)
  have "v < b ^ length ds" using scan_digits_bound [OF b(1), of 0 ds] v by simp
  also have "\<dots> \<le> 16 ^ length ds" using b(2) by (rule power_mono) simp
  also have "\<dots> \<le> 16 ^ 15" using b(3) ls by (intro power_increasing) auto
  finally have "int v < 2 ^ 60" by simp
  then have "max (- (2 ^ 63)) (min (2 ^ 63 - 1) (if n then - int v else int v)) = (if n then - int v else int v)" by simp
  then show ?thesis using lib d(3) by (simp add: num_def rd v)
qed

text \<open>A format that is read begins the string.\<close>

lemma scan_prefix:
  assumes "sscanf libc t f \<noteq> []" and "directives f = map Lit w @ ds"
  obtains r where "t = w @ r" "sscanf libc t f = scan libc ds r"
proof -
  have "scan libc (map Lit w @ ds) t \<noteq> [] \<Longrightarrow> \<exists>r. t = w @ r" for t
  proof (induction w arbitrary: t)
    case (Cons c w)
    then show ?case by (cases t) (auto split: if_splits)
  qed simp
  then obtain r where "t = w @ r" using assms by (auto simp: sscanf_def)
  then show thesis using that [of r] assms(2) by (simp add: sscanf_def scan_literal)
qed

text \<open>A flag that begins with another name is no counter and does not sample.\<close>

fun differs :: "string \<Rightarrow> string \<Rightarrow> bool" where
  "differs (x # v) (y # w) = (x \<noteq> y \<or> differs v w)"
| "differs v w = False"

lemma scan_differs: "differs v w \<Longrightarrow> scan libc (map Lit v @ ds) (w @ r) = []"
  by (induction v w rule: differs.induct) auto

lemma other_name:
  assumes "sscanf False t f \<noteq> []" and "directives f = map Lit w @ ds"
    and "differs ''pmc'' w" and "differs ''ebs'' w"
  shows "sscanf True t ''pmc%i=%x'' = [] \<and> sscanf True t ''ebs%i=%x'' = []"
proof -
  obtain r where t: "t = w @ r" by (rule scan_prefix [OF assms(1,2)])
  show ?thesis unfolding sscanf_def formats(1,12) t scan_differs [OF assms(3)] scan_differs [OF assms(4)] by simp
qed

text \<open>A counter is the same counter for both, and one that samples does so for both.\<close>

lemma first_number:
  assumes "sscanf False t f = idx # vals" and "directives f = map Lit w @ Conv 0 True # ds" and "directives g = map Lit w @ Conv 0 True # ds'"
    and "length t \<le> length w + 15"
  shows "\<exists>vals'. sscanf True t g = idx # vals'"
proof -
  have ne: "sscanf False t f \<noteq> []" using assms(1) by simp
  obtain r where r: "t = w @ r" "sscanf False t f = scan False (Conv 0 True # ds) r" by (rule scan_prefix [OF ne assms(2)])
  then obtain z where z: "scan_number False 0 True r = Some (idx, z)" using assms(1) by (auto split: option.splits)
  have "scan_number True 0 True r = Some (idx, z)" by (rule scan_number_lib [OF z]) (use assms(4) r(1) in simp)
  then show ?thesis unfolding sscanf_def assms(3) r(1) by (simp add: scan_literal)
qed

lemma or_marked: "w AND push_bit m 1 \<noteq> 0 \<Longrightarrow> w OR push_bit m 1 = (w :: u32)"
proof -
  assume w: "w AND push_bit m 1 \<noteq> 0"
  have "\<not> bit w m \<Longrightarrow> w AND push_bit m 1 = 0"
    by (rule bit_eqI) (auto simp: bit_and_iff bit_push_bit_iff bit_1_iff simp del: push_bit_of_1)
  then have "bit w m" using w by blast
  then show ?thesis by (intro bit_eqI) (auto simp: bit_or_iff bit_push_bit_iff bit_1_iff simp del: push_bit_of_1)
qed

lemma check_flag_agrees:
  assumes p: "parse_flag True t s = Some s'" and l: "length t \<le> 18" and typed: "config_typed s"
  shows "\<exists>n'. check_flag t ((cs_used_pmcs s, n), e) = Some ((cs_used_pmcs s', n'), e \<or> (cs_ebs_index s = -1 \<and> cs_ebs_index s' \<noteq> -1))"
proof -
  have other: "check_flag t ((w, n), e) = Some ((w, n), e)"
    if "sscanf False t f \<noteq> []" "directives f = map Lit v @ ds" "differs ''pmc'' v" "differs ''ebs'' v" for w f v ds
    using other_name [OF that] by (simp add: check_flag_def)
  have val: "sscanf False t f \<noteq> [] \<or> sscanf False t g \<noteq> []" "cs_used_pmcs s' = cs_used_pmcs s" "cs_ebs_index s' = cs_ebs_index s"
    if "value_flag f g h t s = Some (Some s')" for f g h
    using that by (auto simp: value_flag_def Let_def upd_cfg_def split: list.splits if_splits)
  have bit: "sscanf False t f \<noteq> []" "cs_used_pmcs s' = cs_used_pmcs s" "cs_ebs_index s' = cs_ebs_index s"
    if "bit_flag f h t s = Some (Some s')" for f h
    using that by (auto simp: bit_flag_def upd_cfg_def split: list.splits if_splits)
  show ?thesis using p
  proof (cases rule: parse_flag_cases)
    case pmc
    obtain idx vals where v: "sscanf False t ''pmc%i=%x'' = idx # vals" "counter_id idx" using pmc
      by (auto simp: pmc_flag_def split: list.splits if_splits)
    then have s': "cs_used_pmcs s' = cs_used_pmcs s OR push_bit (unat idx) 1" "cs_ebs_index s' = cs_ebs_index s"
      using pmc by (auto simp: pmc_flag_def Let_def upd_cfg_def split: list.splits)
    obtain k where k: "k < MAX_LL_EXPS" "unat idx = k" "sint idx = int k" by (rule counter_id_nat [OF v(2)])
    from k have "flag_bit (sint idx) = Some (push_bit (unat idx) 1)" by (simp add: flag_bit_def MAX_LL_EXPS_def)
    then have "\<exists>n'. mark_counter idx (cs_used_pmcs s, n) = Some (cs_used_pmcs s', n')"
      using or_marked [of "cs_used_pmcs s" "unat idx"] by (simp add: mark_counter_def s' del: push_bit_of_1)
    moreover obtain vals' where "sscanf True t ''pmc%i=%x'' = idx # vals'" using first_number [OF v(1) formats(1) formats(1)] l by auto
    ultimately show ?thesis using s'(2) by (auto simp: check_flag_def)
  next
    case umask
    show ?thesis using val [OF umask(2)] other [OF _ formats(2)] other [OF _ formats(3)] by auto
  next
    case cmask
    show ?thesis using val [OF cmask(2)] other [OF _ formats(4)] other [OF _ formats(5)] by auto
  next
    case usr
    show ?thesis using bit [OF usr(2)] other [OF _ formats(6)] by auto
  next
    case os
    show ?thesis using bit [OF os(2)] other [OF _ formats(7)] by auto
  next
    case edge
    show ?thesis using bit [OF edge(2)] other [OF _ formats(8)] by auto
  next
    case inv
    show ?thesis using bit [OF inv(2)] other [OF _ formats(9)] by auto
  next
    case any
    show ?thesis using bit [OF any(2)] other [OF _ formats(10)] by auto
  next
    case ebs
    then obtain idx vals where v: "sscanf False t ''ebs%i=%d'' = idx # vals" "counter_id idx" "cs_ebs_index s = -1"
      by (auto simp: ebs_flag_def split: list.splits if_splits)
    obtain k where k: "sint idx = int k" by (rule counter_id_nat [OF v(2)])
    have s': "cs_used_pmcs s' = cs_used_pmcs s" "cs_ebs_index s' = int k"
      using ebs(2) v k by (auto simp: ebs_flag_def Let_def upd_cfg_def split: if_splits)
    have "sscanf False t ''ebs%i=%d'' \<noteq> []" using v(1) by simp
    then obtain r where t: "t = ''ebs'' @ r" by (rule scan_prefix [of False t _ "''ebs''"]) simp_all
    have "sscanf True t ''pmc%i=%x'' = []" by (simp add: sscanf_def t)
    moreover obtain vals' where "sscanf True t ''ebs%i=%x'' = idx # vals'" using first_number [OF v(1) formats(11) formats(12)] l by auto
    ultimately show ?thesis using s' v(3) by (simp add: check_flag_def)
  next
    case coretype
    then have c: "sscanf False t ''coretype=%d'' \<noteq> []" "cs_used_pmcs s' = cs_used_pmcs s" "cs_ebs_index s' = cs_ebs_index s"
      by (auto simp: coretype_flag_def split: list.splits if_splits)
    then show ?thesis using other [OF _ formats(13)] by auto
  qed
qed

lemma check_flags_agree:
  assumes "parse_flags True flags n s = Inr s'" and "\<forall>t\<in>set flags. length t \<le> 18" and "config_typed s"
  shows "\<exists>m'. foldM check_flag flags ((cs_used_pmcs s, m), cs_ebs_index s \<noteq> -1) = Some ((cs_used_pmcs s', m'), cs_ebs_index s' \<noteq> -1)"
  using assms
proof (induction flags arbitrary: n s m)
  case Nil
  then show ?case by simp
next
  case (Cons t flags)
  obtain s1 where s1: "parse_flag True t s = Some s1" "parse_flags True flags (n + 1) s1 = Inr s'"
    using Cons.prems(1) by (auto split: option.splits)
  have keep: "cs_ebs_index s \<noteq> -1 \<Longrightarrow> cs_ebs_index s1 = cs_ebs_index s"
    using s1(1) by (rule parse_flag_cases)
      (auto simp: pmc_flag_def value_flag_def bit_flag_def ebs_flag_def coretype_flag_def Let_def upd_cfg_def split: list.splits if_splits)
  obtain m1 where m1: "check_flag t ((cs_used_pmcs s, m), cs_ebs_index s \<noteq> -1) =
      Some ((cs_used_pmcs s1, m1), cs_ebs_index s \<noteq> -1 \<or> (cs_ebs_index s = -1 \<and> cs_ebs_index s1 \<noteq> -1))"
    using check_flag_agrees [OF s1(1)] Cons.prems(2,3) by fastforce
  have e: "(cs_ebs_index s \<noteq> -1 \<or> (cs_ebs_index s = -1 \<and> cs_ebs_index s1 \<noteq> -1)) = (cs_ebs_index s1 \<noteq> -1)" using keep by auto
  obtain m' where "foldM check_flag flags ((cs_used_pmcs s1, m1), cs_ebs_index s1 \<noteq> -1) = Some ((cs_used_pmcs s', m'), cs_ebs_index s' \<noteq> -1)"
    using Cons.IH [OF s1(2) _ parse_flag_typed [OF s1(1) Cons.prems(3)], of m1] Cons.prems(2) by auto
  then show ?case using m1 unfolding e by simp
qed

text \<open>C8. The library and the kernel module read the same counters from a string with no flag longer than 18 characters: if the
  kernel module accepts it, and it has no more than the 150 characters the library takes, the check of the library gives the mask of
  its counters, and says whether one of them samples. The longest name of a field, with a counter of two digits and a value of eight
  hexadecimal ones, is just as long. With longer numbers the two can disagree: the kernel's conversion wraps around and that of the
  library does not (\<open>long_number_disagrees\<close>).\<close>

theorem library_agrees_with_kernel:
  assumes "parse_pmcs_strconfig s True = Inr c" and "length s \<le> MAX_CONFIG_STRING_SIZE" and "list_all (\<lambda>t. length t \<le> 18) (split_on (CHR '','') s)"
  shows "\<exists>counters. pmct_check_counter_config [s] = Some (cs_used_pmcs c, counters, cs_ebs_index c \<noteq> -1, 1)"
proof -
  have "take (PMCTRACK_MAX_LEN_RAW_PMC_STRING - 1) s = s" using assms(2) by (simp add: MAX_CONFIG_STRING_SIZE_def PMCTRACK_MAX_LEN_RAW_PMC_STRING_def)
  then have p: "parse_flags True (split_on (CHR '','') s) 0 empty_config = Inr c" using assms(1) by (simp add: parse_pmcs_strconfig_def)
  have "\<forall>t\<in>set (split_on (CHR '','') s). length t \<le> 18" using assms(3) by (simp add: list_all_iff)
  then obtain m where "foldM check_flag (split_on (CHR '','') s) ((cs_used_pmcs empty_config, 0), cs_ebs_index empty_config \<noteq> -1) =
      Some ((cs_used_pmcs c, m), cs_ebs_index c \<noteq> -1)"
    using check_flags_agree [OF p _ empty_config_typed, of 0] by blast
  then have "foldM check_flag (split_on (CHR '','') s) ((0, 0), False) = Some ((cs_used_pmcs c, m), cs_ebs_index c \<noteq> -1)"
    by (simp add: empty_config_def)
  then show ?thesis using assms(2) by (simp add: pmct_check_counter_config_def check_string_def fits_def)
qed

theorem library_agrees_with_kernel_witness:
  "\<exists>c counters. parse_pmcs_strconfig ''pmc3=0xc0,usr3=1,pmc4=0x2e,umask4=0x41,ebs4=1000'' True = Inr c \<and>
     pmct_check_counter_config [''pmc3=0xc0,usr3=1,pmc4=0x2e,umask4=0x41,ebs4=1000''] = Some (0x18, counters, True, 1) \<and>
     cs_used_pmcs c = 0x18 \<and> cs_ebs_index c = 4"
proof -
  let ?s = "''pmc3=0xc0,usr3=1,pmc4=0x2e,umask4=0x41,ebs4=1000''"
  have a: "case parse_pmcs_strconfig ?s True of Inl _ \<Rightarrow> False | Inr c \<Rightarrow> cs_used_pmcs c = 0x18 \<and> cs_ebs_index c = 4" by code_simp
  have b: "length ?s \<le> MAX_CONFIG_STRING_SIZE" "list_all (\<lambda>t. length t \<le> 18) (split_on (CHR '','') ?s)" by code_simp+
  obtain c where c: "parse_pmcs_strconfig ?s True = Inr c" "cs_used_pmcs c = 0x18" "cs_ebs_index c = 4"
    using a by (cases "parse_pmcs_strconfig ?s True") auto
  then show ?thesis using library_agrees_with_kernel [OF c(1) b] by auto
qed

text \<open>A number of 20 digits: the kernel module takes it for counter 3; for the library it is $-1$, by which it shifts 1.\<close>

lemma long_number_scans:
  "sscanf False ''pmc18446744073709551619=0xc0'' ''pmc%i=%x'' = [3, 0xc0]"
  "sscanf True ''pmc18446744073709551619=0xc0'' ''pmc%i=%x'' = [-1, 0xc0]"
  by (simp_all add: sscanf_def scan_number_def radix_def digit_value_def is_digit_def is_space_def Let_def)

lemma long_number_disagrees:
  "(\<exists>c. parse_pmcs_strconfig ''pmc18446744073709551619=0xc0'' True = Inr c \<and> cs_used_pmcs c = 8) \<and>
   pmct_check_counter_config [''pmc18446744073709551619=0xc0''] = None"
  by (simp add: long_number_scans parse_pmcs_strconfig_def PMCTRACK_MAX_LEN_RAW_PMC_STRING_def parse_flag_def pmc_flag_def
      orelse_def counter_id_def MAX_LL_EXPS_def upd_cfg_def empty_config_def pmct_check_counter_config_def check_string_def
      fits_def MAX_CONFIG_STRING_SIZE_def check_flag_def mark_counter_def flag_bit_def Let_def)

section \<open>Strings of virtual counters\<close>

definition nr_bits :: "u32 \<Rightarrow> nat" where "nr_bits w = length (filter (bit w) [0..<32])"

lemma nr_bits_set:
  assumes "m < 32" and "\<not> bit w m"
  shows "nr_bits (w OR push_bit m 1) = nr_bits w + 1"
proof -
  have u: "[0..<32] = [0..<m] @ m # [Suc m..<32]" using assms(1) by (metis le_add_diff_inverse less_imp_le upt_add_eq_append upt_conv_Cons zero_le)
  have b: "bit (w OR push_bit m 1) i \<longleftrightarrow> bit w i \<or> i = m" if "i < 32" for i
    using that by (auto simp: bit_or_iff bit_push_bit_iff bit_1_iff simp del: push_bit_of_1)
  have "filter (bit (w OR push_bit m 1)) [0..<m] = filter (bit w) [0..<m]" "filter (bit (w OR push_bit m 1)) [Suc m..<32] = filter (bit w) [Suc m..<32]"
    using b assms(1) by (intro filter_cong; auto)+
  then show ?thesis using b [OF assms(1)] assms(2) by (simp add: nr_bits_def u del: push_bit_of_1)
qed

lemma flag_bit_new:
  assumes "flag_bit k = Some b" and "\<not> w AND b \<noteq> 0"
  shows "nr_bits (w OR b) = nr_bits w + 1"
proof -
  have b: "nat k < 32" "b = push_bit (nat k) 1" using assms(1) by (auto simp: flag_bit_def simp del: push_bit_of_1 split: if_splits)
  have "\<not> bit w (nat k)"
  proof
    assume "bit w (nat k)"
    then have "bit (w AND b) (nat k)" using b by (simp add: bit_and_iff bit_push_bit_iff bit_1_iff del: push_bit_of_1)
    then show False using assms(2) by simp
  qed
  then show ?thesis using nr_bits_set b by simp
qed

lemma vcounter_token_bits:
  assumes "vcounter_token vci t (w, n, mn) = Some (Inr (w', n', mn'))"
  shows "n' = n + 1 \<and> nr_bits w' = nr_bits w + 1"
proof -
  have "\<exists>k b. flag_bit k = Some b \<and> w AND b = 0 \<and> w' = w OR b \<and> n' = n + 1" using assms
    by (auto simp: vcounter_token_def Let_def split: list.splits option.splits Option.bind_splits if_splits)
  then show ?thesis using flag_bit_new by auto
qed

lemma parse_vcounters_bits:
  assumes "parse_vcounters vci cfg = Some (Inr (w, n, mn))"
  shows "n = nr_bits w" and "0 < n"
proof -
  have a: "each_result (vcounter_token vci) ts r = Some (Inr (w, n, mn)) \<Longrightarrow> n = fst (snd r) + length ts \<and> nr_bits w = nr_bits (fst r) + length ts" for ts r
  proof (induction ts arbitrary: r)
    case (Cons t ts)
    obtain r1 where r1: "vcounter_token vci t r = Some (Inr r1)" "each_result (vcounter_token vci) ts r1 = Some (Inr (w, n, mn))"
      using Cons.prems by (auto simp: result_bind_def split: option.splits sum.splits)
    have "fst (snd r1) = fst (snd r) + 1 \<and> nr_bits (fst r1) = nr_bits (fst r) + 1"
      by (cases r; cases r1) (use vcounter_token_bits r1(1) in force)
    then show ?case using Cons.IH [OF r1(2)] by simp
  qed simp
  have "each_result (vcounter_token vci) (split_on (CHR '','') cfg) (0, 0, False) = Some (Inr (w, n, mn))"
    using assms by (auto simp: parse_vcounters_def fits_def split: Option.bind_splits if_splits)
  from a [OF this] show "n = nr_bits w" "0 < n" by (simp_all add: nr_bits_def)
qed

lemma small_virt_strings:
  "list_all (\<lambda>w. fits (virt_length (nr_bits w)) (virt_string w) = (if w = 7 then Some ''virt0,virt1,virt2'' else None)) [1, 2, 3, 4, 5, 6, 7]"
  by code_simp

text \<open>C9. The buffer for the string of virtual counters is too small for one and for two of them: the length is right only when all
  the virtual counters are chosen.\<close>

theorem virtual_string_overflows:
  assumes "parse_vcounters vci cfg = Some (Inr (w, n, mn))" and "w < 8"
  shows "pmct_parse_vcounter_config vci cfg = (if w = 7 then Some (Inr (w, n, mn, ''virt0,virt1,virt2'')) else None)"
proof -
  note n = parse_vcounters_bits [OF assms(1)]
  have "w \<noteq> 0" using n by (auto simp: nr_bits_def)
  then have "unat w \<noteq> 0" by (simp only: unat_eq_0 not_False_eq_True)
  moreover have "unat w < 8" using assms(2) by (simp add: word_less_nat_alt)
  moreover have "k \<noteq> 0 \<Longrightarrow> k < 8 \<Longrightarrow> k \<in> {1, 2, 3, 4, 5, 6, 7}" for k :: nat by auto
  ultimately have "unat w \<in> {1, 2, 3, 4, 5, 6, 7}" by blast
  then have "of_nat (unat w) \<in> (of_nat ` {1, 2, 3, 4, 5, 6, 7} :: u32 set)" by (rule imageI)
  then have "w \<in> set [1, 2, 3, 4, 5, 6, 7]" by simp
  then have f: "fits (virt_length n) (virt_string w) = (if w = 7 then Some ''virt0,virt1,virt2'' else None)"
    using small_virt_strings unfolding n(1) list_all_iff by blast
  show ?thesis unfolding pmct_parse_vcounter_config_def result_bind_def assms(1) by (simp add: f)
qed

theorem virtual_string_overflows_witness:
  "parse_vcounters None ''virt0,virt2'' = Some (Inr (5, 2, False)) \<and> pmct_parse_vcounter_config None ''virt0,virt2'' = None"
proof -
  have p: "parse_vcounters None ''virt0,virt2'' = Some (Inr (5, 2, False))" by code_simp
  show ?thesis using virtual_string_overflows [OF p] p by simp
qed

end
