(* ===== verification/Configure.thy ===== *)
theory Configure
  imports Monitor RawConfig
begin

text \<open>
  The configuration of the counters of a thread from a string, and of a set for a monitoring module (\<^verbatim>\<open>mchw_core.c\<close>, the build that
  programs the counters itself). \<open>alloc\<close> gives the buffer for samples of a size, if there is memory; an event configuration is
  entered in the memory when it is initialised. A negative result is an error number: \<open>ENOMEM\<close> is 12, \<open>EINVAL\<close> 22.
\<close>

type_synonym alloc = "nat \<Rightarrow> pmc_samples_buffer_t option"

section \<open>The buffer for samples\<close>

text \<open>A thread without a buffer gets one; the address is kept in a local variable, which is NULL when the thread has one already. The
  second component says that there is memory.\<close>

definition new_buffer :: "alloc \<Rightarrow> nat \<Rightarrow> 'm kernel \<Rightarrow> pmon_prof_t \<Rightarrow> bool \<Rightarrow> 'm kernel \<times> pmon_prof_t \<times> bool \<times> nat option" where
  "new_buffer alloc nr_cpu_ids k prof system_wide =
     (if pf_samples_buffer prof \<noteq> None then (k, prof, True, None)
      else (let prof = (if system_wide then prof\<lparr>pf_kernel_buffer_size := of_nat (SIZEOF_PMC_SAMPLE * nr_cpu_ids)\<rparr> else prof)
        in case alloc (unat (pf_kernel_buffer_size prof)) of
             None \<Rightarrow> (k, prof, False, None)
           | Some b \<Rightarrow> (k\<lparr>kn_bufs := (kn_bufs k)(kn_fresh k := Some b), kn_fresh := kn_fresh k + 1\<rparr>, prof, True, Some (kn_fresh k))))"

definition take_buffer :: "pmon_prof_t \<Rightarrow> nat option \<Rightarrow> pmon_prof_t" where
  "take_buffer prof pmc_buf = (if pf_samples_buffer prof = None then prof\<lparr>pf_samples_buffer := pmc_buf\<rparr> else prof)"

text \<open>\<open>put_pmc_samples_buffer\<close> through a pointer.\<close>

definition put_buffer :: "'m kernel \<Rightarrow> nat option \<Rightarrow> 'm kernel option" where
  "put_buffer k p = (case p of
     None \<Rightarrow> None
   | Some a \<Rightarrow> do { b \<leftarrow> kn_bufs k a; Some (k\<lparr>kn_bufs := (kn_bufs k)(a := put_pmc_samples_buffer b)\<rparr>) })"

section \<open>Virtual counters\<close>

definition configure_virtual_counters_thread ::
  "'m mm_manager_t \<Rightarrow> alloc \<Rightarrow> nat \<Rightarrow> 'm kernel \<Rightarrow> string \<Rightarrow> pmon_prof_t \<Rightarrow> bool \<Rightarrow> 'm kernel \<times> pmon_prof_t \<times> int" where
  "configure_virtual_counters_thread mgr alloc nr_cpu_ids k buf prof system_wide = (case parse_virtual_strconfig buf of
     Inl error \<Rightarrow> (k, prof, int error)
   | Inr (used_virt, _, highest_virt_pmc) \<Rightarrow>
       (let usage = mm_module_counter_usage mgr k
        in if highest_virt_pmc \<ge> uint (cu_nr_virtual_counters usage) then (k, prof, - 1)
           else (let (k, prof, ok, pmc_buf) = new_buffer alloc nr_cpu_ids k prof system_wide
             in if \<not> ok then (k, prof, - 1)
                else (let prof = (if pf_mode prof = TBS_SCHED_MODE \<and> cu_hwpmc_mask usage = 0 then prof\<lparr>pf_mode := TBS_USER_MODE\<rparr> else prof)
                  in (k, (take_buffer prof pmc_buf)\<lparr>pf_virt_counter_mask := used_virt\<rparr>, 0)))))"

section \<open>Event configurations\<close>

text \<open>The memory for event configurations, and their first contents: that of the first, copied to the others.\<close>

fun alloc_exps :: "nat \<Rightarrow> 'm kernel \<Rightarrow> nat list \<Rightarrow> 'm kernel \<times> nat list option" where
  "alloc_exps 0 k exps = (k, Some exps)"
| "alloc_exps (Suc n) k exps = (case kmalloc k of
     (None, k) \<Rightarrow> (k, None)
   | (Some a, k) \<Rightarrow> alloc_exps n k (exps @ [a]))"

definition fill_exps :: "'m kernel \<Rightarrow> nat list \<Rightarrow> core_experiment_t \<Rightarrow> 'm kernel" where
  "fill_exps k exps ce = fold (\<lambda>a k. set_exp k a ce) exps k"

text \<open>A set of a thread, changed.\<close>

definition upd_mux ::
  "nat \<Rightarrow> ('m kernel \<Rightarrow> core_experiment_set_t \<Rightarrow> ('m kernel \<times> core_experiment_set_t) option) \<Rightarrow> 'm kernel \<times> core_experiment_set_t list \<Rightarrow>
   ('m kernel \<times> core_experiment_set_t list) option" where
  "upd_mux i f = (\<lambda>(k, sets). do {
     cset \<leftarrow> rd sets i;
     (k, cset) \<leftarrow> f k cset;
     sets \<leftarrow> wr sets i cset;
     Some (k, sets)
   })"

text \<open>The configuration of a monitoring module is undone.\<close>

definition undo_module_config :: "'m kernel \<Rightarrow> pmon_prof_t \<Rightarrow> ('m kernel \<times> pmon_prof_t) option" where
  "undo_module_config k prof =
     (if pf_mode prof = TBS_SCHED_MODE \<and> pf_pmcs_config prof \<noteq> None then do {
        (k, sets) \<leftarrow> foldM (\<lambda>i. upd_mux i free_experiment_set) [0..<AMP_MAX_CORETYPES] (k, pf_multiplex_cfg prof);
        Some (k, prof\<lparr>pf_multiplex_cfg := sets, pf_pmcs_config := None\<rparr>)
      } else Some (k, prof))"

text \<open>The configurations get into the sets of the thread; those of all core types or that of one.\<close>

definition commit_config ::
  "'m kernel \<Rightarrow> pmon_prof_t \<Rightarrow> pmc_config_set_t \<Rightarrow> nat list \<Rightarrow> nat option \<Rightarrow> ('m kernel \<times> pmon_prof_t) option" where
  "commit_config k prof cfg_set exps pmc_buf = do {
     (k, prof) \<leftarrow> undo_module_config k prof;
     let prof = prof\<lparr>pf_mode := (if cs_ebs_index cfg_set = -1 then TBS_USER_MODE else EBS_MODE)\<rparr>;
     (k, sets) \<leftarrow> (if cs_coretype cfg_set = -1
       then foldM (\<lambda>i. upd_mux i (\<lambda>k cset. add_experiment_to_set k cset (Some (exps ! i)))) [0..<AMP_MAX_CORETYPES] (k, pf_multiplex_cfg prof)
       else upd_mux (nat (cs_coretype cfg_set)) (\<lambda>k cset. add_experiment_to_set k cset (Some (exps ! 0))) (k, pf_multiplex_cfg prof));
     let prof = take_buffer (prof\<lparr>pf_multiplex_cfg := sets\<rparr>) pmc_buf;
     Some (k, if pf_pmcs_config prof = None then prof\<lparr>pf_pmcs_config := Some (exps ! 0)\<rparr> else prof)
   }"

text \<open>The first parameter \<open>here\<close> is the CPU the thread runs on. When memory runs out the new buffer is given back, and a pointer that is
  NULL is dereferenced if there is no new one.\<close>

definition configure_performance_counters_thread ::
  "'m mm_manager_t \<Rightarrow> alloc \<Rightarrow> nat \<Rightarrow> nat \<Rightarrow> 'm kernel \<Rightarrow> string \<Rightarrow> pmon_prof_t \<Rightarrow> bool \<Rightarrow> ('m kernel \<times> pmon_prof_t \<times> int) option" where
  "configure_performance_counters_thread mgr alloc nr_cpu_ids here k buf prof system_wide =
     (if cu_hwpmc_mask (mm_module_counter_usage mgr k) \<noteq> 0 then Some (k, prof, - 1)
      else case parse_pmcs_strconfig buf True of
        Inl error \<Rightarrow> Some (k, prof, int error)
      | Inr cfg_set \<Rightarrow>
          if system_wide \<and> cs_ebs_index cfg_set \<noteq> -1 then Some (k, prof, - 22)
          else if pf_mode prof = EBS_MODE \<and> cs_ebs_index cfg_set = -1 then Some (k, prof, - 22)
          else if pf_mode prof = TBS_USER_MODE \<and> cs_ebs_index cfg_set \<noteq> -1 then Some (k, prof, - 22)
          else (let (k, prof, ok, pmc_buf) = new_buffer alloc nr_cpu_ids k prof system_wide
            in if \<not> ok then Some (k, prof, - 12)
               else (let (k, exps) = alloc_exps (if cs_coretype cfg_set = -1 then AMP_MAX_CORETYPES else 1) k []
                 in case exps of
                      None \<Rightarrow> do { k \<leftarrow> put_buffer k pmc_buf; Some (k, prof, - 12) }
                    | Some exps \<Rightarrow> do {
                        props \<leftarrow> get_pmu_props_cpu k here;
                        (ce, cfg_set) \<leftarrow> do_setup_pmcs props cfg_set (cs_used_pmcs cfg_set) 0;
                        (k, prof) \<leftarrow> commit_config (fill_exps k exps ce) prof cfg_set exps pmc_buf;
                        Some (k, prof, 0)
                      })))"

section \<open>A set for a monitoring module\<close>

text \<open>The strings beyond \<open>AMP_MAX_EXP_CORETYPE\<close> are not looked at.\<close>

fun parse_strings :: "string list \<Rightarrow> nat + pmc_config_set_t list" where
  "parse_strings [] = Inr []"
| "parse_strings (s # ss) = (case parse_pmcs_strconfig s True of
     Inl error \<Rightarrow> Inl error
   | Inr c \<Rightarrow> (case parse_strings ss of Inl error \<Rightarrow> Inl error | Inr cs \<Rightarrow> Inr (c # cs)))"

definition free_sets :: "'m kernel \<Rightarrow> core_experiment_set_t list \<Rightarrow> ('m kernel \<times> core_experiment_set_t list) option" where
  "free_sets k sets = foldM (\<lambda>i. upd_mux i free_experiment_set) [0..<length sets] (k, sets)"

text \<open>One configuration: for its core type, or for all, set up for the CPU of the first of them. The core type is used as an index
  before anything says that it is one of the sets.\<close>

definition add_config ::
  "nat \<Rightarrow> nat \<Rightarrow> pmc_config_set_t \<Rightarrow> 'm kernel \<times> core_experiment_set_t list \<Rightarrow> ('m kernel \<times> core_experiment_set_t list \<times> int) option" where
  "add_config num_present nr_cpu_ids cfg_set = (\<lambda>(k, sets).
     let all = (cs_coretype cfg_set = -1); targets = (if all then [0..<length sets] else [nat (cs_coretype cfg_set)])
     in if \<exists>j\<in>set targets. AMP_MAX_CORETYPES \<le> j then None
        else (let (k, exps) = alloc_exps (length targets) k []
          in case exps of
               None \<Rightarrow> do { (k, sets) \<leftarrow> free_sets k sets; Some (k, sets, - 12) }
             | Some exps \<Rightarrow> do {
                 let cpu = get_any_cpu_coretype (kn_coretype_cpu k) num_present nr_cpu_ids (if all then 0 else cs_coretype cfg_set);
                 props \<leftarrow> (if cpu < 0 then None else get_pmu_props_cpu k (nat cpu));
                 (ce, _) \<leftarrow> do_setup_pmcs props cfg_set (cs_used_pmcs cfg_set) 0;
                 (k, sets) \<leftarrow> foldM (\<lambda>(j, a). upd_mux j (\<lambda>k cset. add_experiment_to_set k cset (Some a))) (zip targets exps) (fill_exps k exps ce, sets);
                 Some (k, sets, 0)
               }))"

fun add_configs ::
  "nat \<Rightarrow> nat \<Rightarrow> pmc_config_set_t list \<Rightarrow> 'm kernel \<times> core_experiment_set_t list \<Rightarrow> ('m kernel \<times> core_experiment_set_t list \<times> int) option" where
  "add_configs num_present nr_cpu_ids [] s = Some (fst s, snd s, 0)"
| "add_configs num_present nr_cpu_ids (c # cs) s = do {
     (k, sets, error) \<leftarrow> add_config num_present nr_cpu_ids c s;
     if error \<noteq> 0 then Some (k, sets, error) else add_configs num_present nr_cpu_ids cs (k, sets)
   }"

definition configure_performance_counters_set ::
  "nat \<Rightarrow> nat \<Rightarrow> 'm kernel \<Rightarrow> string list \<Rightarrow> nat \<Rightarrow> ('m kernel \<times> core_experiment_set_t list \<times> int) option" where
  "configure_performance_counters_set num_present nr_cpu_ids k strconfig nr_coretypes =
     (let sets = replicate nr_coretypes init_core_experiment_set_t
      in case parse_strings (take AMP_MAX_EXP_CORETYPE strconfig) of
           Inl error \<Rightarrow> Some (k, sets, int error)
         | Inr cfgs \<Rightarrow>
             let nr_ebs = length (filter (\<lambda>c. cs_ebs_index c \<noteq> -1) cfgs)
             in if nr_ebs > 0 \<and> nr_ebs \<noteq> length cfgs then Some (k, sets, - 22)
                else add_configs num_present nr_cpu_ids cfgs (k, sets))"

end
