(* ===== verification/Control.thy ===== *)
theory Control
  imports Configure
begin

text \<open>
  The control files of the kernel module (\<^verbatim>\<open>mchw_core.c\<close>, the build that programs the counters itself): what a write to
  \<^verbatim>\<open>/proc/pmc/config\<close>, \<^verbatim>\<open>/proc/pmc/monitor\<close> and \<^verbatim>\<open>/proc/pmc/enable\<close> does, with the attachment of a monitor to another thread. The threads are
  a map from identifiers: no entry is no thread, an entry without data a thread the module knows nothing of. What the kernel gives a
  handler is the record \<open>env\<close>: the monitoring modules, the instruction that reads a counter, memory for buffers, the CPU and the
  thread that writes, the conversion of milliseconds, the callback of the module for its own settings, and if copies from and to the
  program succeed and there is memory for one. A result is what the system call returns; the errors are those of Linux
  (\<open>EPERM\<close> 1, \<open>ESRCH\<close> 3, \<open>EAGAIN\<close> 11, \<open>ENOMEM\<close> 12, \<open>EFAULT\<close> 14, \<open>EINVAL\<close> 22, \<open>ENOSPC\<close> 28).
\<close>

type_synonym procs = "int \<Rightarrow> pmon_prof_t option option"

record 'm env =
  ev_mgr :: "'m mm_manager_t"
  ev_rdpmc :: rdpmc
  ev_hz :: u64
  ev_alloc :: alloc
  ev_nr_cpu_ids :: nat
  ev_here :: nat
  ev_cur :: int
  ev_jiffies :: "int \<Rightarrow> u64"
  ev_write_config :: "(string \<Rightarrow> nat \<Rightarrow> 'm kernel \<Rightarrow> 'm kernel \<times> int) option"
  ev_copied :: bool
  ev_mem :: bool

definition task_prof :: "procs \<Rightarrow> int \<Rightarrow> pmon_prof_t option" where
  "task_prof procs pid = (case procs pid of Some (Some prof) \<Rightarrow> Some prof | _ \<Rightarrow> None)"

definition upd_task :: "procs \<Rightarrow> int \<Rightarrow> pmon_prof_t \<Rightarrow> procs" where
  "upd_task procs pid prof = procs(pid := Some (Some prof))"

section \<open>A function on the CPU of a thread\<close>

text \<open>A look at a thread: its CPU (\<open>-1\<close> if not known), if it is running, and if it is the current one where the function runs. The function
  gets the CPU that runs it and if the thread is the current one there.\<close>

type_synonym look = "int \<times> bool \<times> bool"

fun function_call :: "(nat \<Rightarrow> bool \<Rightarrow> 's \<Rightarrow> 's option) \<Rightarrow> nat \<Rightarrow> look list \<Rightarrow> 's \<Rightarrow> ('s \<times> int) option" where
  "function_call f cpu [] s = Some (s, - 11)"
| "function_call f cpu ((cpu_task, running, is_cur) # looks) s =
     (if cpu_task = -1 \<or> \<not> running \<or> is_cur \<or> cpu_task = int cpu then do { s \<leftarrow> f cpu is_cur s; Some (s, 0) }
      else function_call f cpu looks s)"

text \<open>The first look says if the function is called at once; otherwise there are three tries. The results are the value to return and that
  of the last call, which is \<open>EAGAIN\<close> when there was none.\<close>

definition run_on_task :: "(nat \<Rightarrow> bool \<Rightarrow> 's \<Rightarrow> 's option) \<Rightarrow> nat \<Rightarrow> look \<Rightarrow> look list \<Rightarrow> 's \<Rightarrow> ('s \<times> int \<times> int) option" where
  "run_on_task f here where_is looks s = (case where_is of (cpu_task, running, is_cur) \<Rightarrow>
     if cpu_task = -1 \<or> \<not> running then do { s \<leftarrow> f here is_cur s; Some (s, 0, - 11) }
     else if cpu_task < 0 then None
     else do { (s, ret) \<leftarrow> function_call f (nat cpu_task) (take 3 looks) s; Some (s, ret, ret) })"

section \<open>Attaching a monitor\<close>

fun clone_sets ::
  "'m kernel \<Rightarrow> core_experiment_set_t list \<Rightarrow> core_experiment_set_t list \<Rightarrow> ('m kernel \<times> core_experiment_set_t list \<times> int) option" where
  "clone_sets k [] cloned = Some (k, cloned, 0)"
| "clone_sets k (src # srcs) cloned = do {
     (k, dst, retval) \<leftarrow> clone_core_experiment_set_t k src;
     if retval \<noteq> 0 then do { (k, _) \<leftarrow> free_sets k cloned; Some (k, [], retval) }
     else clone_sets k srcs (cloned @ [dst])
   }"

definition install_set ::
  "core_experiment_set_t list \<Rightarrow> nat \<Rightarrow> 'm kernel \<times> core_experiment_set_t list \<Rightarrow> ('m kernel \<times> core_experiment_set_t list) option" where
  "install_set sets i = upd_mux i (\<lambda>k cset. do {
     (k, cset) \<leftarrow> free_experiment_set k cset;
     src \<leftarrow> rd sets i;
     clone_core_experiment_set_t_noalloc k cset src
   })"

definition set_up_monitoring_task ::
  "'m env \<Rightarrow> pmon_prof_t \<Rightarrow> core_experiment_set_t list \<Rightarrow> nat \<Rightarrow> bool \<Rightarrow> 'm kernel \<times> pmon_prof_t \<Rightarrow> ('m kernel \<times> pmon_prof_t) option" where
  "set_up_monitoring_task ev monitor sets cpu is_cur = (\<lambda>(k, target). do {
     let target = target\<lparr>pf_mode := pf_mode monitor\<rparr>;
     k \<leftarrow> upd_buffer k (pf_samples_buffer monitor) (\<lambda>b. Some (Some (get_pmc_samples_buffer b)));
     let target = (if pf_samples_buffer monitor \<noteq> None then target\<lparr>pf_samples_buffer := pf_samples_buffer monitor\<rparr> else target);
     (k, csets) \<leftarrow> foldM (install_set sets) [0..<AMP_MAX_CORETYPES] (k, pf_multiplex_cfg target);
     cset \<leftarrow> rd csets 0;
     e \<leftarrow> get_cur_experiment_in_set cset;
     let target = target\<lparr>pf_multiplex_cfg := csets, pf_pmcs_config := e, pf_virt_counter_mask := pf_virt_counter_mask monitor,
       pf_jiffies_interval := pf_jiffies_interval monitor, pf_nticks_sampling_period := pf_nticks_sampling_period monitor,
       pf_jiffies_timeout := kn_jiffies k + scast (pf_jiffies_interval monitor)\<rparr>;
     let target = (if pf_mode target = TBS_USER_MODE then target\<lparr>pf_timer := Some (pf_jiffies_timeout target)\<rparr> else target);
     let target = target\<lparr>pf_enabled := True, pf_pid_monitor := sint (pf_pid monitor)\<rparr>;
     (if is_cur then mod_restore_callback_gen (ev_mgr ev) (ev_rdpmc ev) k target cpu else Some (k, target))
   })"

definition disable_monitoring_task :: "'m env \<Rightarrow> nat \<Rightarrow> bool \<Rightarrow> 'm kernel \<times> pmon_prof_t \<Rightarrow> ('m kernel \<times> pmon_prof_t) option" where
  "disable_monitoring_task ev cpu is_cur = (\<lambda>(k, target). do {
     (k, target) \<leftarrow> (if is_cur then mod_save_callback_gen (ev_mgr ev) (ev_rdpmc ev) k target cpu else Some (k, target));
     k \<leftarrow> upd_buffer k (pf_samples_buffer target) (\<lambda>b. Some (put_pmc_samples_buffer b));
     let target = target\<lparr>pf_samples_buffer := None, pf_pid_monitor := -1, pf_enabled := False\<rparr>;
     if pf_pmcs_config target \<noteq> None then do {
       (k, csets) \<leftarrow> foldM (\<lambda>i. upd_mux i (\<lambda>k cset. do {
           (k, _) \<leftarrow> free_experiment_set k cset;
           Some (k, init_core_experiment_set_t)
         })) [0..<AMP_MAX_CORETYPES] (k, pf_multiplex_cfg target);
       Some (k, target\<lparr>pf_multiplex_cfg := csets, pf_pmcs_config := None\<rparr>)
     } else Some (k, target)
   })"

text \<open>\<open>where_is\<close> and \<open>looks\<close> are the looks at the thread.\<close>

definition pmctrack_task_detach_force ::
  "'m env \<Rightarrow> look \<Rightarrow> look list \<Rightarrow> 'm kernel \<Rightarrow> procs \<Rightarrow> int \<Rightarrow> int \<Rightarrow> ('m kernel \<times> procs \<times> int) option" where
  "pmctrack_task_detach_force ev where_is looks k procs target monitor_pid =
     (if monitor_pid < 0 then Some (k, procs, 0)
      else if procs monitor_pid \<noteq> None then Some (k, procs, - 1)
      else do {
        monitored \<leftarrow> task_prof procs target;
        ((k, monitored), retval, _) \<leftarrow> run_on_task (disable_monitoring_task ev) (ev_here ev) where_is looks (k, monitored);
        Some (k, upd_task procs target monitored, retval)
      })"

definition in_use :: "pmon_prof_t \<Rightarrow> bool" where
  "in_use p \<longleftrightarrow> pf_enabled p \<or> pf_pid_monitor p \<noteq> -1 \<or> pf_samples_buffer p \<noteq> None"

definition has_monitor :: "pmon_prof_t \<Rightarrow> bool" where
  "has_monitor p \<longleftrightarrow> pf_enabled p \<and> pf_pid_monitor p \<noteq> -1 \<and> pf_samples_buffer p \<noteq> None"

definition attach_to ::
  "'m env \<Rightarrow> look \<Rightarrow> look list \<Rightarrow> 'm kernel \<Rightarrow> procs \<Rightarrow> int \<Rightarrow> ('m kernel \<times> procs \<times> int) option" where
  "attach_to ev where_is looks k procs pid = do {
     monitor \<leftarrow> task_prof procs (ev_cur ev);
     monitored \<leftarrow> task_prof procs pid;
     (k, sets, retval) \<leftarrow> clone_sets k (pf_multiplex_cfg monitor) [];
     if retval \<noteq> 0 then Some (k, procs, retval)
     else do {
       ((k, monitored), retval, _) \<leftarrow> run_on_task (set_up_monitoring_task ev monitor sets) (ev_here ev) where_is looks (k, monitored);
       (k, _) \<leftarrow> (if retval \<noteq> 0 then free_sets k sets else Some (k, sets));
       Some (k, upd_task procs pid monitored, retval)
     }
   }"

text \<open>The first looks are for taking the thread from a monitor that is gone, the second for attaching to it.\<close>

definition pmctrack_pid_attach ::
  "'m env \<Rightarrow> look \<times> look list \<Rightarrow> look \<times> look list \<Rightarrow> 'm kernel \<Rightarrow> procs \<Rightarrow> int \<Rightarrow> ('m kernel \<times> procs \<times> int) option" where
  "pmctrack_pid_attach ev see1 see2 k procs pid =
     (if pid < 0 \<or> task_prof procs (ev_cur ev) = None then Some (k, procs, - 22)
      else case task_prof procs pid of
        None \<Rightarrow> Some (k, procs, - 3)
      | Some monitored \<Rightarrow>
          if \<not> in_use monitored then attach_to ev (fst see2) (snd see2) k procs pid
          else if \<not> has_monitor monitored then Some (k, procs, - 22)
          else do {
            (k, procs, retval) \<leftarrow> pmctrack_task_detach_force ev (fst see1) (snd see1) k procs pid (pf_pid_monitor monitored);
            if retval \<noteq> 0 then Some (k, procs, retval) else attach_to ev (fst see2) (snd see2) k procs pid
          })"

text \<open>The timer is cancelled when the last call gave zero, and there is no call for a thread that does not run.\<close>

definition pmctrack_pid_detach ::
  "'m env \<Rightarrow> look \<times> look list \<Rightarrow> 'm kernel \<Rightarrow> procs \<Rightarrow> int \<Rightarrow> ('m kernel \<times> procs \<times> int) option" where
  "pmctrack_pid_detach ev see k procs pid =
     (if pid < 0 then Some (k, procs, - 22)
      else case task_prof procs pid of
        None \<Rightarrow> Some (k, procs, - 3)
      | Some monitored \<Rightarrow>
          if \<not> pf_enabled monitored \<or> pf_pid_monitor monitored \<noteq> ev_cur ev then Some (k, procs, - 22)
          else do {
            ((k, monitored), retval, ret) \<leftarrow>
              run_on_task (disable_monitoring_task ev) (ev_here ev) (fst see) (snd see) (k, monitored);
            let monitored = (if ret = 0 \<and> prof_uses_timer monitored then monitored\<lparr>pf_timer := None\<rparr> else monitored);
            Some (k, upd_task procs pid monitored, retval)
          })"

section \<open>\<^verbatim>\<open>/proc/pmc/monitor\<close>\<close>

definition MAX_STR_CONFIG_LEN :: nat where "MAX_STR_CONFIG_LEN = 100"

definition c_string :: "string \<Rightarrow> string" where
  "c_string s = takeWhile (\<lambda>c. c \<noteq> CHR 0x00) s"

definition prefix_of :: "string \<Rightarrow> string \<Rightarrow> bool" where
  "prefix_of p s \<longleftrightarrow> take (List.length p) s = p"

text \<open>A command with a positive number.\<close>

definition command :: "string \<Rightarrow> string \<Rightarrow> int option" where
  "command kbuf format = (case sscanf False kbuf format of [v] \<Rightarrow> if sint v > 0 then Some (sint v) else None | _ \<Rightarrow> None)"

text \<open>The buffer the monitor had is not given back.\<close>

definition monitor_task :: "'m env \<Rightarrow> 'm kernel \<Rightarrow> procs \<Rightarrow> int \<Rightarrow> ('m kernel \<times> procs \<times> int) option" where
  "monitor_task ev k procs pid = (case (procs pid, task_prof procs (ev_cur ev), task_prof procs pid) of
     (Some _, Some monitor, Some monitored) \<Rightarrow>
       (case pf_samples_buffer monitored of
          None \<Rightarrow> Some (k, procs, - 3)
        | Some a \<Rightarrow> do {
            k \<leftarrow> upd_buffer k (Some a) (\<lambda>b. Some (Some (get_pmc_samples_buffer b)));
            let procs = upd_task procs (ev_cur ev) (monitor\<lparr>pf_samples_buffer := Some a\<rparr>);
            monitored \<leftarrow> task_prof procs pid;
            Some (k, upd_task procs pid (monitored\<lparr>pf_pid_monitor := ev_cur ev\<rparr>), 0)
          })
   | _ \<Rightarrow> Some (k, procs, - 3))"

definition self_on :: "'m env \<Rightarrow> 'm kernel \<Rightarrow> pmon_prof_t \<Rightarrow> ('m kernel \<times> pmon_prof_t \<times> int) option" where
  "self_on ev k prof =
     (if pf_samples_buffer prof = None \<and> ev_alloc ev (unat (pf_kernel_buffer_size prof)) = None then Some (k, prof, - 1)
      else monitoring_on (ev_mgr ev) (ev_rdpmc ev) (ev_hz ev) (ev_alloc ev) k
        (prof\<lparr>pf_flags := pf_flags prof OR PMC_READ_SELF_MONITORING\<rparr>) (ev_here ev))"

definition self_off :: "'m env \<Rightarrow> 'm kernel \<Rightarrow> pmon_prof_t \<Rightarrow> ('m kernel \<times> pmon_prof_t) option" where
  "self_off ev k prof = do {
     let prof = (if prof_uses_timer prof \<and> pf_enabled prof then prof\<lparr>pf_timer := None\<rparr> else prof)\<lparr>pf_enabled := False\<rparr>;
     a \<leftarrow> pf_pmcs_config prof;
     sample_counters_user_tbs (ev_mgr ev) (ev_rdpmc ev) (ev_here ev) True k prof a PMC_SELF_EVT (ev_here ev)
   }"

text \<open>The result of an operation on the thread that writes, and of one on the system; \<open>len\<close> is returned when it is zero.\<close>

definition on_current ::
  "'m env \<Rightarrow> 'm kernel \<Rightarrow> procs \<Rightarrow> int \<Rightarrow> ('m kernel \<Rightarrow> pmon_prof_t \<Rightarrow> ('m kernel \<times> pmon_prof_t \<times> int) option) \<Rightarrow>
   ('m kernel \<times> procs \<times> int) option" where
  "on_current ev k procs none f = (case task_prof procs (ev_cur ev) of
     None \<Rightarrow> Some (k, procs, none)
   | Some prof \<Rightarrow> do { (k, prof, r) \<leftarrow> f k prof; Some (k, upd_task procs (ev_cur ev) prof, r) })"

definition on_system :: "procs \<Rightarrow> ('m kernel \<times> int) option \<Rightarrow> ('m kernel \<times> procs \<times> int) option" where
  "on_system procs r = do { (k, val) \<leftarrow> r; Some (k, procs, val) }"

definition or_len :: "nat \<Rightarrow> ('m kernel \<times> procs \<times> int) option \<Rightarrow> ('m kernel \<times> procs \<times> int) option" where
  "or_len len r = do { (k, procs, val) \<leftarrow> r; Some (k, procs, if val \<noteq> 0 then val else int len) }"

definition proc_monitor_pmcs_write ::
  "'m env \<Rightarrow> look \<times> look list \<Rightarrow> look \<times> look list \<Rightarrow> 'm kernel \<Rightarrow> procs \<Rightarrow> string \<Rightarrow> ('m kernel \<times> procs \<times> int) option" where
  "proc_monitor_pmcs_write ev see1 see2 k procs buf =
     (let len = List.length buf; kbuf = c_string buf
      in if len \<ge> MAX_STR_CONFIG_LEN then Some (k, procs, - 28)
         else if \<not> ev_copied ev then Some (k, procs, - 14)
         else case command kbuf ''pid_monitor %i'' of
           Some pid \<Rightarrow> or_len len (monitor_task ev k procs pid)
         | None \<Rightarrow> (case command kbuf ''pid_attach %i'' of
             Some pid \<Rightarrow> pmctrack_pid_attach ev see1 see2 k procs pid
           | None \<Rightarrow> (case command kbuf ''pid_detach %i'' of
               Some pid \<Rightarrow> pmctrack_pid_detach ev see1 k procs pid
             | None \<Rightarrow>
                 if prefix_of ''ON'' kbuf then or_len len (on_current ev k procs (- 22) (self_on ev))
                 else if prefix_of ''OFF'' kbuf
                 then or_len len (on_current ev k procs (- 22) (\<lambda>k prof. do { (k, prof) \<leftarrow> self_off ev k prof; Some (k, prof, 0) }))
                 else if kbuf = ''syswide on''
                 then or_len len (on_system procs (syswide_monitoring_start (ev_mgr ev) k (task_prof procs (ev_cur ev)) (ev_cur ev)))
                 else if kbuf = ''syswide off''
                 then or_len len (on_system procs (syswide_monitoring_stop (ev_mgr ev) (ev_hz ev) k (ev_cur ev)))
                 else Some (k, procs, - 22))))"

section \<open>\<^verbatim>\<open>/proc/pmc/enable\<close>\<close>

text \<open>Anything else is taken and ignored.\<close>

definition proc_pmc_enable_write ::
  "'m env \<Rightarrow> 'm kernel \<Rightarrow> procs \<Rightarrow> string \<Rightarrow> ('m kernel \<times> procs \<times> int) option" where
  "proc_pmc_enable_write ev k procs buf =
     (let len = List.length buf; kbuf = c_string buf
      in if len \<ge> MAX_STR_CONFIG_LEN \<or> \<not> ev_copied ev then Some (k, procs, - 14)
         else or_len len
           (if kbuf = ''ON'' then on_current ev k procs (- 22)
              (\<lambda>k prof. monitoring_on (ev_mgr ev) (ev_rdpmc ev) (ev_hz ev) (ev_alloc ev) k prof (ev_here ev))
            else if kbuf = ''OFF'' then on_current ev k procs (- 22)
              (\<lambda>k prof. do { (k, prof) \<leftarrow> monitoring_off (ev_mgr ev) (ev_rdpmc ev) k prof (ev_here ev); Some (k, prof, 0) })
            else if kbuf = ''syswide on''
            then on_system procs (syswide_monitoring_start (ev_mgr ev) k (task_prof procs (ev_cur ev)) (ev_cur ev))
            else if kbuf = ''syswide off''
            then on_system procs (syswide_monitoring_stop (ev_mgr ev) (ev_hz ev) k (ev_cur ev))
            else if kbuf = ''syswide pause'' then on_system procs (syswide_monitoring_pause k)
            else if kbuf = ''syswide resume'' then on_system procs (syswide_monitoring_resume k)
            else Some (k, procs, 0)))"

text \<open>A read says if the thread is monitored; one at another position than the first gives nothing. The data of the thread are not tested for
  NULL.\<close>

definition enable_text :: "bool \<Rightarrow> string" where
  "enable_text on = (if on then ''profiling is ON'' else ''profiling is OFF'') @ [CHR 0x0A]"

definition proc_pmc_enable_read :: "'m env \<Rightarrow> procs \<Rightarrow> nat \<Rightarrow> nat \<Rightarrow> (nat \<times> (int + string)) option" where
  "proc_pmc_enable_read ev procs len off =
     (if off > 0 then Some (off, Inr []) else do {
        prof \<leftarrow> task_prof procs (ev_cur ev);
        let t = enable_text (pf_enabled prof);
        Some (if len < List.length t then (off, Inl (- 12))
          else if \<not> ev_copied ev then (off, Inl (- 14)) else (off + List.length t, Inr t))
      })"

section \<open>\<^verbatim>\<open>/proc/pmc/config\<close>\<close>

definition mm_on_write_config :: "'m env \<Rightarrow> 'm kernel \<Rightarrow> string \<Rightarrow> nat \<Rightarrow> 'm kernel \<times> int" where
  "mm_on_write_config ev k str len = (case (cur_module (ev_mgr ev), ev_write_config ev) of
     (Some _, Some cb) \<Rightarrow> cb str len k | _ \<Rightarrow> (k, 0))"

text \<open>A size in bytes, cut to whole samples.\<close>

definition whole_samples :: "int \<Rightarrow> u32" where
  "whole_samples val = word_of_int (val div int SIZEOF_PMC_SAMPLE * int SIZEOF_PMC_SAMPLE)"

definition upd_prof :: "(pmon_prof_t \<Rightarrow> pmon_prof_t) \<Rightarrow> 'm kernel \<Rightarrow> pmon_prof_t \<Rightarrow> ('m kernel \<times> pmon_prof_t \<times> int) option" where
  "upd_prof f k prof = Some (k, f prof, 0)"

definition set_period :: "u64 \<Rightarrow> pmon_prof_t \<Rightarrow> pmon_prof_t" where
  "set_period j prof = prof\<lparr>pf_nticks_sampling_period := ucast j, pf_jiffies_interval := ucast j\<rparr>"

definition configure_pmcs :: "'m env \<Rightarrow> string \<Rightarrow> bool \<Rightarrow> 'm kernel \<Rightarrow> pmon_prof_t \<Rightarrow> ('m kernel \<times> pmon_prof_t \<times> int) option" where
  "configure_pmcs ev buf system_wide k prof =
     configure_performance_counters_thread (ev_mgr ev) (ev_alloc ev) (ev_nr_cpu_ids ev) (ev_here ev) k buf prof system_wide"

definition configure_virt :: "'m env \<Rightarrow> string \<Rightarrow> bool \<Rightarrow> 'm kernel \<Rightarrow> pmon_prof_t \<Rightarrow> ('m kernel \<times> pmon_prof_t \<times> int) option" where
  "configure_virt ev buf system_wide k prof =
     Some (configure_virtual_counters_thread (ev_mgr ev) (ev_alloc ev) (ev_nr_cpu_ids ev) k buf prof system_wide)"

text \<open>The first tests, for the configuration of all threads.\<close>

definition config_defaults :: "'m env \<Rightarrow> string \<Rightarrow> pmon_config_t \<Rightarrow> (pmon_config_t \<times> int) option" where
  "config_defaults ev kbuf cfg = (case command kbuf ''sched_sampling_period %i'' of
     Some val \<Rightarrow> Some (cfg\<lparr>pc_nticks := ucast (ev_jiffies ev val)\<rparr>, 0)
   | None \<Rightarrow> (case command kbuf ''kernel_buffer_size %i'' of
       Some val \<Rightarrow> Some (if whole_samples val = 0 then (cfg, - 22) else (cfg\<lparr>pc_kernel_buffer_size := whole_samples val\<rparr>, 0))
     | None \<Rightarrow> None))"

definition config_command :: "'m env \<Rightarrow> 'm kernel \<Rightarrow> procs \<Rightarrow> string \<Rightarrow> nat \<Rightarrow> ('m kernel \<times> procs \<times> int) option" where
  "config_command ev k procs kbuf len =
     (if prefix_of ''selfcfg pmc'' kbuf then on_current ev k procs (- 1) (configure_pmcs ev (drop 8 kbuf) False)
      else if prefix_of ''selfcfg virt'' kbuf then on_current ev k procs (- 1) (configure_virt ev (drop 8 kbuf) False)
      else if prefix_of ''selfmon'' kbuf
      then on_current ev k procs (- 22) (upd_prof (\<lambda>prof. prof\<lparr>pf_flags := pf_flags prof OR PMC_SELF_MONITORING\<rparr>))
      else if prefix_of ''selfmoff'' kbuf
      then on_current ev k procs (- 22) (upd_prof (\<lambda>prof. prof\<lparr>pf_flags := pf_flags prof AND NOT PMC_SELF_MONITORING\<rparr>))
      else if prefix_of ''pmc'' kbuf then on_current ev k procs (- 1) (configure_pmcs ev kbuf True)
      else if prefix_of ''virt'' kbuf then on_current ev k procs (- 1) (configure_virt ev kbuf True)
      else case command kbuf ''sched_sampling_period_t %i'' of
        Some val \<Rightarrow> on_current ev k procs 0 (upd_prof (set_period (ev_jiffies ev val)))
      | None \<Rightarrow> (case command kbuf ''timeout %i'' of
          Some val \<Rightarrow> on_current ev k procs 0 (upd_prof (set_period (ev_jiffies ev val)))
        | None \<Rightarrow> (case command kbuf ''kernel_buffer_size_t %i'' of
            Some val \<Rightarrow> on_current ev k procs 0 (\<lambda>k prof. if whole_samples val = 0 then Some (k, prof, - 22)
              else upd_prof (\<lambda>prof. prof\<lparr>pf_kernel_buffer_size := whole_samples val\<rparr>) k prof)
          | None \<Rightarrow> (case command kbuf ''max_ebs_samples %i'' of
              Some val \<Rightarrow> on_current ev k procs 0 (upd_prof (\<lambda>prof. prof\<lparr>pf_max_ebs_samples := word_of_int val\<rparr>))
            | None \<Rightarrow> (let (k, val) = mm_on_write_config ev k kbuf len in Some (k, procs, if val \<noteq> 0 then val else - 22))))))"

text \<open>The result with the new position in the file.\<close>

definition proc_pmc_config_write ::
  "'m env \<Rightarrow> 'm kernel \<Rightarrow> procs \<Rightarrow> pmon_config_t \<Rightarrow> string \<Rightarrow> nat \<Rightarrow>
   ('m kernel \<times> procs \<times> pmon_config_t \<times> nat \<times> int) option" where
  "proc_pmc_config_write ev k procs cfg buff off =
     (let len = List.length buff; kbuf = c_string buff
      in if off > 0 then Some (k, procs, cfg, off, 0)
         else if \<not> ev_mem ev then Some (k, procs, cfg, off, - 12)
         else if \<not> ev_copied ev then Some (k, procs, cfg, off, - 14)
         else do {
           (k, procs, cfg, val) \<leftarrow> (case config_defaults ev kbuf cfg of
               Some (cfg, val) \<Rightarrow> Some (k, procs, cfg, val)
             | None \<Rightarrow> do { (k, procs, val) \<leftarrow> config_command ev k procs kbuf len; Some (k, procs, cfg, val) });
           let ret = (if val \<noteq> 0 then val else int len);
           Some (k, procs, cfg, if ret > 0 then off + nat ret else off, ret)
         })"

end
