(* ===== verification/LibCore.thy ===== *)
theory LibCore
  imports Control
begin

text \<open>
  The library's operations (\<^verbatim>\<open>libpmctrack/src/core.c\<close>): what they write to the control files, on top of the handlers of the kernel
  module, and the table of samples. The state is that of the kernel, of the threads and of the defaults; \<open>opened\<close> says that the
  files of the module can be opened. \<open>None\<close> is a string longer than its array, or what the handler does wrong.
\<close>

type_synonym 'm sys = "'m kernel \<times> procs \<times> pmon_config_t"

definition NL :: char where "NL = CHR 0x0A"

section \<open>Writes to the control files\<close>

text \<open>At the start of the file, as after \<^verbatim>\<open>open\<close> and \<^verbatim>\<open>lseek\<close>.\<close>

definition write_config :: "'m env \<Rightarrow> 'm sys \<Rightarrow> string \<Rightarrow> ('m sys \<times> int) option" where
  "write_config ev s str = (case s of (k, procs, cfg) \<Rightarrow> do {
     (k, procs, cfg, _, r) \<leftarrow> proc_pmc_config_write ev k procs cfg str 0;
     Some ((k, procs, cfg), r)
   })"

definition write_enable :: "'m env \<Rightarrow> 'm sys \<Rightarrow> string \<Rightarrow> ('m sys \<times> int) option" where
  "write_enable ev s str = (case s of (k, procs, cfg) \<Rightarrow> do {
     (k, procs, r) \<leftarrow> proc_pmc_enable_write ev k procs str;
     Some ((k, procs, cfg), r)
   })"

definition write_monitor :: "'m env \<Rightarrow> look \<times> look list \<Rightarrow> look \<times> look list \<Rightarrow> 'm sys \<Rightarrow> string \<Rightarrow> ('m sys \<times> int) option" where
  "write_monitor ev see1 see2 s str = (case s of (k, procs, cfg) \<Rightarrow> do {
     (k, procs, r) \<leftarrow> proc_monitor_pmcs_write ev see1 see2 k procs str;
     Some ((k, procs, cfg), r)
   })"

definition int_string :: "int \<Rightarrow> string" where
  "int_string i = (if i < 0 then CHR ''-'' # dec_string (nat (- i)) else dec_string (nat i))"

text \<open>A line written to a file that takes a write of no characters for an error.\<close>

definition config_line :: "'m env \<Rightarrow> bool \<Rightarrow> nat \<Rightarrow> 'm sys \<Rightarrow> string \<Rightarrow> ('m sys \<times> int) option" where
  "config_line ev opened siz s line =
     (if \<not> opened then Some (s, - 1)
      else do {
        buf \<leftarrow> fits siz (line @ [NL]);
        (s, len) \<leftarrow> write_config ev s buf;
        Some (s, if len \<le> 0 then - 1 else 0)
      })"

section \<open>Configuration\<close>

definition PMCT_FLAG_SHARED_REGION :: u64 where "PMCT_FLAG_SHARED_REGION = 0x1"
definition PMCT_FLAG_SYSWIDE :: u64 where "PMCT_FLAG_SYSWIDE = 0x2"
definition PMCT_FLAG_RAW_PMC_CONFIG :: u64 where "PMCT_FLAG_RAW_PMC_CONFIG = 0x4"
definition PMCT_FLAG_SELF_MONITORING :: u64 where "PMCT_FLAG_SELF_MONITORING = 0x10"
definition PMCT_CONFIG_SYSWIDE :: u64 where "PMCT_CONFIG_SYSWIDE = 0x1"

definition config_text :: "u64 \<Rightarrow> string \<Rightarrow> string" where
  "config_text flags cfg = (if flags AND PMCT_CONFIG_SYSWIDE \<noteq> 0 then cfg else ''selfcfg '' @ cfg)"

definition self_monitoring :: "'m env \<Rightarrow> u64 \<Rightarrow> 'm sys \<Rightarrow> 'm sys option" where
  "self_monitoring ev flags s =
     (if flags AND PMCT_FLAG_SELF_MONITORING \<noteq> 0 then map_option fst (write_config ev s ''selfmon'') else Some s)"

definition pmct_config_virtual_counters :: "'m env \<Rightarrow> bool \<Rightarrow> 'm sys \<Rightarrow> string \<Rightarrow> u64 \<Rightarrow> ('m sys \<times> int) option" where
  "pmct_config_virtual_counters ev opened s virtcfg flags = do {
     (s, r) \<leftarrow> config_line ev opened (MAX_CONFIG_STRING_SIZE + 10) s (config_text flags virtcfg);
     if r \<noteq> 0 then Some (s, r) else do { s \<leftarrow> self_monitoring ev flags s; Some (s, 0) }
   }"

definition pmct_config_timeout :: "'m env \<Rightarrow> bool \<Rightarrow> 'm sys \<Rightarrow> int \<Rightarrow> bool \<Rightarrow> ('m sys \<times> int) option" where
  "pmct_config_timeout ev opened s msecs kernel_control =
     config_line ev opened MAX_CONFIG_STRING_SIZE s
       ((if kernel_control then ''sched_sampling_period_t '' else ''timeout '') @ int_string msecs)"

definition pmct_config_max_ebs_samples :: "'m env \<Rightarrow> bool \<Rightarrow> 'm sys \<Rightarrow> u32 \<Rightarrow> ('m sys \<times> int) option" where
  "pmct_config_max_ebs_samples ev opened s max_ebs_samples =
     config_line ev opened MAX_CONFIG_STRING_SIZE s (''max_ebs_samples '' @ dec_string (unat max_ebs_samples))"

definition pmct_set_kernel_buffer_size :: "'m env \<Rightarrow> bool \<Rightarrow> 'm sys \<Rightarrow> u32 \<Rightarrow> ('m sys \<times> int) option" where
  "pmct_set_kernel_buffer_size ev opened s nr_bytes =
     config_line ev opened 128 s (''kernel_buffer_size_t '' @ dec_string (unat nr_bytes))"

fun config_strings :: "'m env \<Rightarrow> u64 \<Rightarrow> string list \<Rightarrow> 'm sys \<Rightarrow> ('m sys \<times> int) option" where
  "config_strings ev flags [] s = Some (s, 0)"
| "config_strings ev flags (cfg # cfgs) s = do {
     (s, r) \<leftarrow> config_line ev True (MAX_CONFIG_STRING_SIZE + 10) s (config_text flags cfg);
     if r \<noteq> 0 then Some (s, r) else config_strings ev flags cfgs s
   }"

definition pmct_config_counters :: "'m env \<Rightarrow> bool \<Rightarrow> 'm sys \<Rightarrow> string list \<Rightarrow> u64 \<Rightarrow> ('m sys \<times> int) option" where
  "pmct_config_counters ev opened s strcfg flags =
     (if \<not> opened then Some (s, - 1)
      else do {
        (s, r) \<leftarrow> config_strings ev flags strcfg s;
        if r \<noteq> 0 then Some (s, r) else do { s \<leftarrow> self_monitoring ev flags s; Some (s, 0) }
      })"

section \<open>Sessions\<close>

record pmctrack_desc_t =
  de_pmcmask :: u32
  de_kern_pmcmask :: u32
  de_nr_pmcs :: nat
  de_nr_virtual_counters :: nat
  de_virtual_mask :: u32
  de_nr_experiments :: nat
  de_ebs_on :: bool
  de_samples :: "pmc_sample_t list"
  de_max_nr_samples :: nat
  de_flags :: u64

text \<open>The results of the checks are not looked at; \<open>None\<close> for a string is NULL. The steps after the time between samples.\<close>

definition config_events ::
  "'m env \<Rightarrow> bool \<Rightarrow> string list \<Rightarrow> u64 \<Rightarrow> 'm sys \<times> pmctrack_desc_t \<Rightarrow> ('m sys \<times> pmctrack_desc_t \<times> u64 \<times> int) option" where
  "config_events ev opened strcfg flags = (\<lambda>(s, desc).
     if strcfg = [] then Some (s, desc, flags, 0)
     else do {
       (msk, n, ebs, nr) \<leftarrow> pmct_check_counter_config strcfg;
       let desc = desc\<lparr>de_nr_pmcs := n, de_pmcmask := msk, de_ebs_on := ebs, de_nr_experiments := nr\<rparr>;
       (s, r) \<leftarrow> pmct_config_counters ev opened s strcfg flags;
       Some (s, desc, if r = 0 then 0 else flags, r)
     })"

definition config_virtual ::
  "'m env \<Rightarrow> bool \<Rightarrow> string option \<Rightarrow> u64 \<Rightarrow> 'm sys \<times> pmctrack_desc_t \<Rightarrow> ('m sys \<times> pmctrack_desc_t \<times> int) option" where
  "config_virtual ev opened virtcfg flags = (\<lambda>(s, desc). case virtcfg of
     None \<Rightarrow> Some (s, desc, 0)
   | Some virtcfg \<Rightarrow> do {
       (msk, n) \<leftarrow> pmct_check_vcounter_config virtcfg;
       (s, r) \<leftarrow> pmct_config_virtual_counters ev opened s virtcfg flags;
       Some (s, desc\<lparr>de_nr_virtual_counters := n, de_virtual_mask := msk\<rparr>, r)
     })"

definition config_session ::
  "'m env \<Rightarrow> bool \<Rightarrow> 'm sys \<Rightarrow> pmctrack_desc_t \<Rightarrow> string list \<Rightarrow> string option \<Rightarrow> int \<Rightarrow> ('m sys \<times> pmctrack_desc_t \<times> int) option" where
  "config_session ev opened s desc strcfg virtcfg mux_timeout_ms = do {
     (s, r) \<leftarrow> pmct_config_timeout ev opened s (if mux_timeout_ms = 0 then 300000 else mux_timeout_ms) (de_kern_pmcmask desc \<noteq> 0);
     if r \<noteq> 0 then Some (s, desc, - 1)
     else do {
       let self = (de_flags desc AND PMCT_FLAG_SELF_MONITORING \<noteq> 0);
       let desc = desc\<lparr>de_flags := de_flags desc OR PMCT_FLAG_SELF_MONITORING\<rparr>;
       (s, desc, flags, r) \<leftarrow> config_events ev opened strcfg (if self then 0 else PMCT_FLAG_SELF_MONITORING) (s, desc);
       if r \<noteq> 0 then Some (s, desc, - 1)
       else do {
         (s, desc, r) \<leftarrow> config_virtual ev opened virtcfg flags (s, desc);
         Some (s, desc, if r \<noteq> 0 then - 1 else 0)
       }
     }
   }"

definition pmctrack_config_counters ::
  "'m env \<Rightarrow> bool \<Rightarrow> 'm sys \<Rightarrow> pmctrack_desc_t \<Rightarrow> string list \<Rightarrow> string option \<Rightarrow> int \<Rightarrow> ('m sys \<times> pmctrack_desc_t \<times> int) option" where
  "pmctrack_config_counters ev opened s desc strcfg virtcfg mux_timeout_ms = do {
     (s, desc, ret) \<leftarrow> config_session ev opened s desc strcfg virtcfg mux_timeout_ms;
     Some (s, if ret = 0 then desc\<lparr>de_flags := de_flags desc OR PMCT_FLAG_RAW_PMC_CONFIG\<rparr> else desc, ret)
   }"

definition pmct_start_counting :: "'m env \<Rightarrow> bool \<Rightarrow> 'm sys \<Rightarrow> ('m sys \<times> int) option" where
  "pmct_start_counting ev opened s =
     (if \<not> opened then Some (s, - 1) else do { (s, r) \<leftarrow> write_enable ev s ''ON''; Some (s, if r < 0 then - 1 else 0) })"

definition pmct_syswide_start_counting :: "'m env \<Rightarrow> bool \<Rightarrow> 'm sys \<Rightarrow> ('m sys \<times> int) option" where
  "pmct_syswide_start_counting ev opened s =
     (if \<not> opened then Some (s, - 1) else do { (s, r) \<leftarrow> write_enable ev s ''syswide on''; Some (s, if r < 0 then - 1 else 0) })"

text \<open>The string is written with its terminator.\<close>

definition monitor_command ::
  "'m env \<Rightarrow> look \<times> look list \<Rightarrow> look \<times> look list \<Rightarrow> 'm sys \<Rightarrow> string \<Rightarrow> ('m sys \<times> int) option" where
  "monitor_command ev see1 see2 s str = do {
     (s, r) \<leftarrow> write_monitor ev see1 see2 s (str @ [CHR 0x00]);
     Some (s, if r < 0 then - 1 else 0)
   }"

definition pmct_attach_process ::
  "'m env \<Rightarrow> bool \<Rightarrow> look \<times> look list \<Rightarrow> look \<times> look list \<Rightarrow> 'm sys \<Rightarrow> int \<Rightarrow> bool \<Rightarrow> ('m sys \<times> int) option" where
  "pmct_attach_process ev opened see1 see2 s pid config_pmcs =
     (if \<not> opened then Some (s, - 1)
      else do {
        str \<leftarrow> fits 30 ((if config_pmcs then ''pid_attach '' else ''pid_monitor '') @ int_string pid);
        monitor_command ev see1 see2 s str
      })"

definition pmct_detach_process :: "'m env \<Rightarrow> bool \<Rightarrow> look \<times> look list \<Rightarrow> 'm sys \<Rightarrow> int \<Rightarrow> ('m sys \<times> int) option" where
  "pmct_detach_process ev opened see s pid =
     (if \<not> opened then Some (s, - 1)
      else do { str \<leftarrow> fits 30 (''pid_detach '' @ int_string pid); monitor_command ev see see s str })"

text \<open>\<open>see\<close> is not used: the commands are about the thread that writes.\<close>

definition nobody :: "look \<times> look list" where "nobody = ((- 1, False, False), [])"

definition pmct_start_counters_gen :: "'m env \<Rightarrow> 'm sys \<Rightarrow> pmctrack_desc_t \<Rightarrow> bool \<Rightarrow> ('m sys \<times> pmctrack_desc_t \<times> int) option" where
  "pmct_start_counters_gen ev s desc syswide = do {
     (s, r) \<leftarrow> monitor_command ev nobody nobody s (if syswide then ''syswide on'' else ''ON'');
     Some (s, if r < 0 then desc
       else if syswide then desc\<lparr>de_flags := de_flags desc OR PMCT_FLAG_SYSWIDE\<rparr>
       else desc\<lparr>de_flags := de_flags desc AND NOT PMCT_FLAG_SYSWIDE\<rparr>, r)
   }"

text \<open>A read may not return: then there is no result.\<close>

definition read_monitor :: "'m env \<Rightarrow> bool \<Rightarrow> 'm sys \<Rightarrow> nat \<Rightarrow> ('m sys \<times> (int + u8 list) option) option" where
  "read_monitor ev shared s len = (case s of (k, procs, cfg) \<Rightarrow> (case task_prof procs (ev_cur ev) of
     None \<Rightarrow> Some ((k, procs, cfg), Some (Inr []))
   | Some prof \<Rightarrow> do {
       (k, prof, r) \<leftarrow> proc_monitor_pmcs_read k prof shared len;
       let procs = upd_task procs (ev_cur ev) prof;
       Some ((k, procs, cfg), case r of Inl e \<Rightarrow> Some (Inl e) | Inr Eof \<Rightarrow> Some (Inr []) | Inr Asleep \<Rightarrow> None
         | Inr (Read bs) \<Rightarrow> Some (if ev_copied ev \<or> shared then Inr bs else Inl (- 14)))
     }))"

definition pmct_stop_counters_gen ::
  "'m env \<Rightarrow> 'm sys \<Rightarrow> pmctrack_desc_t \<Rightarrow> bool \<Rightarrow> ('m sys \<times> pmctrack_desc_t \<times> int option) option" where
  "pmct_stop_counters_gen ev s desc syswide = do {
     (s, r) \<leftarrow> monitor_command ev nobody nobody s (if syswide then ''syswide off'' else ''OFF'');
     if r < 0 then Some (s, desc, Some (- 1))
     else do {
       (s, r) \<leftarrow> read_monitor ev (de_flags desc AND PMCT_FLAG_SHARED_REGION \<noteq> 0) s (SIZEOF_PMC_SAMPLE * de_max_nr_samples desc);
       Some (case r of None \<Rightarrow> (s, desc, None) | Some (Inl _) \<Rightarrow> (s, desc, Some (- 1))
         | Some (Inr bs) \<Rightarrow> (s, desc\<lparr>de_samples := samples_of bs\<rparr>, Some 0))
     }
   }"

definition pmct_read_samples :: "'m env \<Rightarrow> bool \<Rightarrow> 'm sys \<Rightarrow> nat \<Rightarrow> ('m sys \<times> (int + pmc_sample_t list) option) option" where
  "pmct_read_samples ev shared s max_samples = do {
     (s, r) \<leftarrow> read_monitor ev shared s (SIZEOF_PMC_SAMPLE * max_samples);
     Some (s, case r of None \<Rightarrow> None | Some (Inl _) \<Rightarrow> Some (Inl (- 1)) | Some (Inr bs) \<Rightarrow> Some (Inr (samples_of bs)))
   }"

end
