(* ===== verification/SampleTable.thy ===== *)
theory SampleTable
  imports EventStrings SampleBuffer
begin

text \<open>
  The table of samples that the library prints (\<^verbatim>\<open>pmct_print_header\<close>, \<^verbatim>\<open>pmct_print_sample\<close>, \<^verbatim>\<open>pmct_accumulate_sample\<close> of
  \<^verbatim>\<open>libpmctrack/src/core.c\<close>) and the sums that the command \<^verbatim>\<open>pmctrack -A\<close> keeps of them (\<^verbatim>\<open>process_pmc_counts\<close> of
  \<^verbatim>\<open>cmdtools/pmctrack/pmctrack.c\<close>). A row is a string; one longer than its array is \<open>None\<close>.
\<close>

section \<open>Cells\<close>

text \<open>Right-justified to a width.\<close>

definition pad :: "nat \<Rightarrow> string \<Rightarrow> string" where
  "pad n s = replicate (n - List.length s) CHR '' '' @ s"

definition mask_bit :: "nat \<Rightarrow> u32" where "mask_bit j = push_bit j 1"

definition num_cell :: "u64 \<Rightarrow> string" where "num_cell v = pad 13 (dec_string (unat v)) @ '' ''"
definition no_cell :: string where "no_cell = pad 13 ''-'' @ '' ''"

text \<open>The values of the counters of \<open>msk\<close>, \<open>rem\<close> being the counters of the table that had none yet.\<close>

fun cells :: "u32 \<Rightarrow> u64 list \<Rightarrow> nat list \<Rightarrow> nat \<Rightarrow> u32 \<Rightarrow> string list option" where
  "cells msk counts [] cnt rem = Some []"
| "cells msk counts (j # js) cnt rem =
     (if rem = 0 then Some []
      else if bit msk j then do {
        v \<leftarrow> rd counts cnt;
        cs \<leftarrow> cells msk counts js (cnt + 1) (rem AND NOT (mask_bit j));
        Some (num_cell v # cs)
      }
      else if bit rem j then map_option (\<lambda>cs. no_cell # cs) (cells msk counts js cnt rem)
      else cells msk counts js cnt rem)"

section \<open>Header and rows\<close>

definition columns :: "nat \<Rightarrow> u32 \<Rightarrow> nat list" where
  "columns n msk = filter (\<lambda>j. bit msk j) [0..<n]"

definition pmct_print_header :: "nat \<Rightarrow> u32 \<Rightarrow> u32 \<Rightarrow> bool \<Rightarrow> bool \<Rightarrow> bool \<Rightarrow> string" where
  "pmct_print_header nr_experiments pmcmask virtual_mask extended_output syswide show_elapsed_time =
     (let index = (if syswide then ''cpu'' else ''pid'')
      in (if \<not> extended_output \<and> nr_experiments < 2
          then pad 7 ''nsample'' @ '' '' @ pad 6 index @ '' '' @ pad 10 ''event''
          else pad 7 ''nsample'' @ '' '' @ pad 6 index @ '' '' @ pad 8 ''coretype'' @ '' '' @ pad 5 ''expid'' @ '' '' @ pad 10 ''event'')
         @ concat (map (\<lambda>i. '' '' @ pad 12 ''pmc'' @ dec_string i) (columns MAX_PERFORMANCE_COUNTERS pmcmask))
         @ (if show_elapsed_time then '' '' @ pad 12 ''etime_us'' else [])
         @ concat (map (\<lambda>i. '' '' @ pad 12 ''virt'' @ dec_string i) (columns MAX_VIRTUAL_COUNTERS virtual_mask))
         @ [CHR 0x0A])"

fun sample_type_to_str :: "sample_type_t \<Rightarrow> string" where
  "sample_type_to_str PMC_TICK_SAMPLE = ''tick''"
| "sample_type_to_str PMC_EBS_SAMPLE = ''ebs''"
| "sample_type_to_str PMC_EXIT_SAMPLE = ''exit''"
| "sample_type_to_str PMC_MIGRATION_SAMPLE = ''migration''"
| "sample_type_to_str PMC_SELF_SAMPLE = ''self''"

definition signed_string :: "u32 \<Rightarrow> string" where
  "signed_string w = (if sint w < 0 then CHR ''-'' # dec_string (nat (- sint w)) else dec_string (nat (sint w)))"

definition pmct_print_sample :: "nat \<Rightarrow> u32 \<Rightarrow> u32 \<Rightarrow> bool \<Rightarrow> bool \<Rightarrow> nat \<Rightarrow> pmc_sample_t \<Rightarrow> string option" where
  "pmct_print_sample nr_experiments pmcmask virtual_mask extended_output show_elapsed_time nsample sample = do {
     pmcs \<leftarrow> cells (ps_pmc_mask sample) (ps_pmc_counts sample) [0..<MAX_PERFORMANCE_COUNTERS] 0 pmcmask;
     virts \<leftarrow> cells (ps_virt_mask sample) (ps_virtual_counts sample) [0..<MAX_VIRTUAL_COUNTERS] 0 virtual_mask;
     line \<leftarrow> fits 256 (concat pmcs @
       (if show_elapsed_time then pad 12 (dec_string (unat (ps_elapsed_time sample div 1000))) @ '' '' else []) @ concat virts);
     let n = pad 7 (dec_string nsample);
     let pid = pad 6 (signed_string (ps_pid sample));
     let event = pad 10 (sample_type_to_str (ps_type sample));
     Some ((if \<not> extended_output \<and> nr_experiments < 2 then n @ '' '' @ pid @ '' '' @ event
       else n @ '' '' @ pid @ '' '' @ pad 8 (signed_string (ps_coretype sample)) @ '' '' @ pad 5 (signed_string (ps_exp_idx sample)) @ '' '' @ event)
       @ '' '' @ line @ [CHR 0x0A])
   }"

section \<open>Sums\<close>

text \<open>The values of the counters of \<open>msk\<close> added to those of the sum, position by position.\<close>

fun accumulate_counts :: "(u64 \<Rightarrow> u64) \<Rightarrow> u32 \<Rightarrow> u64 list \<Rightarrow> nat list \<Rightarrow> nat \<Rightarrow> u32 \<Rightarrow> u64 list \<Rightarrow> u64 list option" where
  "accumulate_counts f msk counts [] cnt rem acc = Some acc"
| "accumulate_counts f msk counts (j # js) cnt rem acc =
     (if rem = 0 then Some acc
      else if bit msk j then do {
        v \<leftarrow> rd counts cnt;
        a \<leftarrow> rd acc cnt;
        acc \<leftarrow> wr acc cnt (a + f v);
        accumulate_counts f msk counts js (cnt + 1) (rem AND NOT (mask_bit j)) acc
      }
      else accumulate_counts f msk counts js cnt rem acc)"

definition pmct_accumulate_sample :: "u32 \<Rightarrow> u32 \<Rightarrow> u32 \<Rightarrow> bool \<Rightarrow> pmc_sample_t \<Rightarrow> pmc_sample_t \<Rightarrow> pmc_sample_t option" where
  "pmct_accumulate_sample nr_experiments pmcmask virtual_mask copy_metainfo sample accum = do {
     let accum = (if copy_metainfo then accum\<lparr>ps_type := ps_type sample, ps_coretype := ps_coretype sample, ps_exp_idx := ps_exp_idx sample,
       ps_pid := ps_pid sample, ps_pmc_mask := ps_pmc_mask sample, ps_nr_counts := ps_nr_counts sample,
       ps_virt_mask := ps_virt_mask sample, ps_nr_virt_counts := ps_nr_virt_counts sample\<rparr> else accum);
     pmcs \<leftarrow> accumulate_counts (\<lambda>v. v * ucast nr_experiments) (ps_pmc_mask sample) (ps_pmc_counts sample) [0..<MAX_PERFORMANCE_COUNTERS] 0 pmcmask
       (ps_pmc_counts accum);
     virts \<leftarrow> accumulate_counts (\<lambda>v. v) (ps_virt_mask sample) (ps_virtual_counts sample) [0..<MAX_VIRTUAL_COUNTERS] 0 virtual_mask
       (ps_virtual_counts accum);
     Some (accum\<lparr>ps_pmc_counts := pmcs, ps_virtual_counts := virts\<rparr>)
   }"

section \<open>The table of threads\<close>

definition MAX_THREADS_APP :: nat where "MAX_THREADS_APP = 256"

text \<open>An entry of \<^verbatim>\<open>pid_ctrl_vector\<close> with its \<^verbatim>\<open>acum_samples\<close>.\<close>

record pid_ctrl =
  pc_pid :: u32
  pc_exp_mask :: u32
  pc_nr_samples_accum :: "nat list"
  pc_acum :: "pmc_sample_t list"

text \<open>The place of a thread in the table: it is added when there is none. Its entry of \<^verbatim>\<open>pid_ctrl_vector\<close> and the memory that
  \<^verbatim>\<open>malloc\<close> gives for its sums are not cleared, but for the mask of experiments: \<open>mem j\<close> is what they hold for the place \<open>j\<close>.
  There is room for \<open>MAX_THREADS_APP\<close>.\<close>

type_synonym table_memory = "nat \<Rightarrow> nat list \<times> pmc_sample_t list"

definition new_entry :: "nat list \<times> pmc_sample_t list \<Rightarrow> u32 \<Rightarrow> pid_ctrl" where
  "new_entry m pid = \<lparr>pc_pid = pid, pc_exp_mask = 0, pc_nr_samples_accum = fst m, pc_acum = snd m\<rparr>"

definition find_pid :: "pid_ctrl list \<Rightarrow> u32 \<Rightarrow> nat" where
  "find_pid tbl pid = List.length (takeWhile (\<lambda>e. pc_pid e \<noteq> pid) tbl)"

definition add_sample :: "nat \<Rightarrow> u32 \<Rightarrow> u32 \<Rightarrow> pmc_sample_t \<Rightarrow> pid_ctrl \<Rightarrow> pid_ctrl option" where
  "add_sample nr_experiments pmcmask virtual_mask cur e = (let i = unat (ps_exp_idx cur); seen = bit (pc_exp_mask e) i in do {
     n \<leftarrow> rd (pc_nr_samples_accum e) i;
     ns \<leftarrow> wr (pc_nr_samples_accum e) i (if seen then n + 1 else 1);
     a \<leftarrow> rd (pc_acum e) i;
     a \<leftarrow> pmct_accumulate_sample (of_nat nr_experiments) pmcmask virtual_mask (\<not> seen) cur a;
     acum \<leftarrow> wr (pc_acum e) i a;
     Some (e\<lparr>pc_exp_mask := pc_exp_mask e OR mask_bit i, pc_nr_samples_accum := ns, pc_acum := acum\<rparr>)
   })"

definition accumulate :: "table_memory \<Rightarrow> nat \<Rightarrow> u32 \<Rightarrow> u32 \<Rightarrow> pmc_sample_t \<Rightarrow> pid_ctrl list \<Rightarrow> pid_ctrl list option" where
  "accumulate mem nr_experiments pmcmask virtual_mask cur tbl =
     (let j = find_pid tbl (ps_pid cur) in do {
        tbl \<leftarrow> (if j < List.length tbl then Some tbl
          else if j < MAX_THREADS_APP then Some (tbl @ [new_entry (mem j) (ps_pid cur)]) else None);
        e \<leftarrow> rd tbl j;
        e \<leftarrow> add_sample nr_experiments pmcmask virtual_mask cur e;
        wr tbl j e
      })"

text \<open>The rows at the end: those of the experiments that had a sample, thread by thread.\<close>

definition accumulated_rows :: "nat \<Rightarrow> pid_ctrl list \<Rightarrow> (nat \<times> pmc_sample_t) list" where
  "accumulated_rows nr_experiments tbl =
     concat (map (\<lambda>e. map (\<lambda>j. (pc_nr_samples_accum e ! j, pc_acum e ! j)) (filter (\<lambda>j. bit (pc_exp_mask e) j) [0..<nr_experiments])) tbl)"

section \<open>Reading the samples\<close>

datatype monitoring_mode_t = PMCTRACK_MODE_PROCESS | PMCTRACK_MODE_SYSWIDE | PMCTRACK_MODE_ATTACH

text \<open>What became of the samples of a read: \<open>show\<close> prints or adds a sample, \<open>late\<close> says if the time is over when it is handled.
  The third component is set when the limits ask for the end of the monitored program, if it is \<open>alive\<close>, or of the attachment.\<close>

definition limit :: "int \<Rightarrow> int \<Rightarrow> int \<Rightarrow> int" where
  "limit max_samples cont nr_samples =
     (if max_samples \<noteq> -1 \<and> cont + nr_samples > max_samples then max_samples - (cont - 1) else nr_samples)"

fun handle_samples ::
  "(pmc_sample_t \<Rightarrow> 't \<Rightarrow> 't option) \<Rightarrow> int \<Rightarrow> bool \<Rightarrow> bool \<Rightarrow> (pmc_sample_t \<times> bool) list \<Rightarrow> int \<times> 't \<times> bool \<Rightarrow> (int \<times> 't \<times> bool) option" where
  "handle_samples show max_samples timeout alive [] s = Some s"
| "handle_samples show max_samples timeout alive ((cur, late) # r) (cont, tbl, over) = do {
     tbl \<leftarrow> show cur tbl;
     let cont = cont + 1;
     handle_samples show max_samples timeout alive r
       (cont, tbl, over \<or> alive \<and> (max_samples \<noteq> -1 \<and> cont > max_samples \<or> timeout \<and> late))
   }"

text \<open>The reads of the main loop, each with what was read, or an error, if the program was stopped by the user before it and if the
  child has ended. The loop ends with the list, at the latest.\<close>

fun read_loop ::
  "(pmc_sample_t \<Rightarrow> 't \<Rightarrow> 't option) \<Rightarrow> int \<Rightarrow> bool \<Rightarrow> bool \<Rightarrow> (bool \<times> bool \<times> (pmc_sample_t \<times> bool) list option) list \<Rightarrow>
   int \<times> 't \<times> bool \<Rightarrow> (int \<times> 't \<times> bool) option" where
  "read_loop show max_samples timeout attach [] s = Some s"
| "read_loop show max_samples timeout attach ((stop, finished, None) # r) s = Some s"
| "read_loop show max_samples timeout attach ((stop, finished, Some samples) # r) s =
     (if stop then Some s
      else if samples = [] \<and> (attach \<or> finished) then Some s
      else do {
        s \<leftarrow> handle_samples show max_samples timeout (attach \<or> \<not> finished) (take (nat (limit max_samples (fst s) (int (List.length samples)))) samples) s;
        read_loop show max_samples timeout attach r s
      })"

end
