(* ===== verification/CmdTool.thy ===== *)
theory CmdTool
  imports LibCore SampleTable
begin

text \<open>
  The command \<^verbatim>\<open>pmctrack\<close> (\<^verbatim>\<open>cmdtools/pmctrack/pmctrack.c\<close>): its options, the threads of the process it attaches to, and what it does to
  the counters before it reads samples in each of its modes. Processes, signals, files and the clock are not in the model.
\<close>

section \<open>Options\<close>

definition CMD_FLAG_ACUM_SAMPLES :: u64 where "CMD_FLAG_ACUM_SAMPLES = 0x1"
definition CMD_FLAG_EXTENDED_OUTPUT :: u64 where "CMD_FLAG_EXTENDED_OUTPUT = 0x2"
definition CMD_FLAG_RAW_PMC_FORMAT :: u64 where "CMD_FLAG_RAW_PMC_FORMAT = 0x4"
definition CMD_FLAG_LEGACY_OUTPUT :: u64 where "CMD_FLAG_LEGACY_OUTPUT = 0x8"
definition CMD_FLAG_SHOW_CHILD_TIMES :: u64 where "CMD_FLAG_SHOW_CHILD_TIMES = 0x10"
definition CMD_FLAG_VIRT_COUNTER_MNEMONICS :: u64 where "CMD_FLAG_VIRT_COUNTER_MNEMONICS = 0x20"
definition CMD_FLAG_KERNEL_DRIVES_PMCS :: u64 where "CMD_FLAG_KERNEL_DRIVES_PMCS = 0x40"
definition CMD_FLAG_SYSTEM_WIDE_MODE :: u64 where "CMD_FLAG_SYSTEM_WIDE_MODE = 0x80"
definition CMD_FLAG_SHOW_TIME_SECS :: u64 where "CMD_FLAG_SHOW_TIME_SECS = 0x100"
definition CMD_FLAG_SHOW_ELAPSED_TIME :: u64 where "CMD_FLAG_SHOW_ELAPSED_TIME = 0x200"

record options =
  op_timeout_secs :: int
  op_msecs :: int
  op_max_samples :: int
  op_max_ebs_samples :: int
  op_kernel_buffer_size :: int
  op_cpumask :: "nat list"
  op_flags :: u64
  op_target_pid :: int
  op_user_cfg_str :: "string list"
  op_strcfg :: "string list"
  op_pmu_id :: int
  op_event_mapping :: "counter_mapping_t list"
  op_global_pmcmask :: u32
  op_virtcfg :: "string option"
  op_nr_virtual_counters :: nat
  op_virtual_mask :: u32

definition init_options :: options where
  "init_options = \<lparr>op_timeout_secs = -1, op_msecs = 1000, op_max_samples = -1, op_max_ebs_samples = -1, op_kernel_buffer_size = -1,
     op_cpumask = [], op_flags = 0, op_target_pid = -1, op_user_cfg_str = [], op_strcfg = [], op_pmu_id = 0,
     op_event_mapping = no_mapping, op_global_pmcmask = 0, op_virtcfg = None, op_nr_virtual_counters = 0, op_virtual_mask = 0\<rparr>"

definition set_flag :: "u64 \<Rightarrow> options \<Rightarrow> options" where
  "set_flag f opts = opts\<lparr>op_flags := op_flags opts OR f\<rparr>"

definition has_flag :: "options \<Rightarrow> u64 \<Rightarrow> bool" where
  "has_flag opts f \<longleftrightarrow> op_flags opts AND f \<noteq> 0"

definition add_cfg_string_to_options :: "string \<Rightarrow> options \<Rightarrow> options \<times> int" where
  "add_cfg_string_to_options usercfg opts =
     (if List.length (op_user_cfg_str opts) \<ge> MAX_COUNTER_CONFIGS then (opts, 1)
      else (opts\<lparr>op_user_cfg_str := op_user_cfg_str opts @ [usercfg]\<rparr>, 0))"

text \<open>\<open>vci\<close> are the names of the virtual counters, if they can be read.\<close>

definition set_vcount_string_in_options :: "string list option \<Rightarrow> string \<Rightarrow> options \<Rightarrow> (options \<times> int) option" where
  "set_vcount_string_in_options vci s opts = (case pmct_parse_vcounter_config vci s of
     None \<Rightarrow> None
   | Some (Inl _) \<Rightarrow> Some (opts, 1)
   | Some (Inr (virtmask, n, mnemonics, cfg)) \<Rightarrow>
       (let opts = opts\<lparr>op_virtual_mask := virtmask, op_nr_virtual_counters := n, op_virtcfg := Some cfg\<rparr>
        in Some (if mnemonics then set_flag CMD_FLAG_VIRT_COUNTER_MNEMONICS opts else opts, 0)))"

definition check_options :: "options \<Rightarrow> bool \<Rightarrow> int" where
  "check_options opts has_command =
     (if op_target_pid opts \<noteq> -1 \<and> has_command then 1
      else if op_target_pid opts = -1 \<and> \<not> has_command then 2
      else if has_flag opts CMD_FLAG_SYSTEM_WIDE_MODE \<and> op_target_pid opts \<noteq> -1 then 3
      else if has_flag opts CMD_FLAG_SHOW_CHILD_TIMES \<and> op_target_pid opts \<noteq> -1 then 4 else 0)"

definition parse_pmc_configuration :: "pmu_info_t option \<Rightarrow> int \<Rightarrow> options \<Rightarrow> (options \<times> int) option" where
  "parse_pmc_configuration pmu nr_pmus opts =
     (case pmct_parse_pmc_configuration pmu nr_pmus (op_user_cfg_str opts) (has_flag opts CMD_FLAG_RAW_PMC_FORMAT) (op_pmu_id opts) of
        None \<Rightarrow> None
      | Some (Inl e) \<Rightarrow> Some (opts, e)
      | Some (Inr (raws, None)) \<Rightarrow> Some (opts\<lparr>op_strcfg := raws\<rparr>, 0)
      | Some (Inr (raws, Some (_, pmcmask, m))) \<Rightarrow>
          Some (opts\<lparr>op_strcfg := raws, op_global_pmcmask := pmcmask, op_event_mapping := m\<rparr>, 0))"

section \<open>CPUs\<close>

text \<open>\<^verbatim>\<open>strtol\<close>, which gives the nearest value when the number is out of range.\<close>

definition strtol :: "nat \<Rightarrow> string \<Rightarrow> int" where
  "strtol base s =
     (let s = dropWhile is_space s;
          neg = (s \<noteq> [] \<and> hd s = CHR ''-'');
          s = (if neg \<or> s \<noteq> [] \<and> hd s = CHR ''+'' then tl s else s);
          (b, ds) = radix base s;
          v = int (fst (scan_digits b 0 ds))
      in max (- (2 ^ 63)) (min (2 ^ 63 - 1) (if neg then - v else v)))"

text \<open>The bits of a mask, tested with \<open>1<<i\<close>, a shift of an \<open>int\<close>: it is not defined from the sign on.\<close>

fun mask_cpus :: "nat list \<Rightarrow> u64 \<Rightarrow> nat list \<Rightarrow> nat list option" where
  "mask_cpus [] uval found = Some found"
| "mask_cpus (i # is) uval found =
     (if uval = 0 then Some found
      else if i > 30 then None
      else if bit uval i then mask_cpus is (uval AND NOT (push_bit i 1)) (found @ [i])
      else mask_cpus is uval found)"

definition CPU_SETSIZE :: nat where "CPU_SETSIZE = 1024"

definition str_to_cpuset :: "string \<Rightarrow> nat list option" where
  "str_to_cpuset str =
     (if prefix_of ''0x'' str then mask_cpus [0..<64] (word_of_int (strtol 16 (drop 2 str))) []
      else (let i = sint (word_of_int (strtol 10 str) :: u32) in Some (if 0 \<le> i \<and> i < int CPU_SETSIZE then [nat i] else [])))"

section \<open>The command line\<close>

text \<open>One option; \<open>secs\<close> is the time in milliseconds of a number of seconds, \<open>writable\<close> if the output file can be opened. The result is
  the status of an exit, or the new options. The result of \<open>add_cfg_string_to_options\<close> is compared with a negative number.\<close>

definition one_option ::
  "(string \<Rightarrow> int) \<Rightarrow> string list option \<Rightarrow> bool \<Rightarrow> char \<times> string \<Rightarrow> options \<Rightarrow> options result" where
  "one_option secs vci writable = (\<lambda>(c, optarg) opts.
     let ok = (\<lambda>opts. Some (Inr opts) :: options result)
     in if c = CHR ''o'' then if writable then ok opts else Some (Inl (- 4))
        else if c = CHR ''h'' then Some (Inl 0)
        else if c = CHR ''c'' then (let (opts, r) = add_cfg_string_to_options optarg opts in if r < 0 then Some (Inl 1) else ok opts)
        else if c = CHR ''V'' then do { (opts, r) \<leftarrow> set_vcount_string_in_options vci optarg opts; if r \<noteq> 0 then Some (Inl 1) else ok opts }
        else if c = CHR ''T'' then ok (opts\<lparr>op_msecs := secs optarg\<rparr>)
        else if c = CHR ''b'' \<or> c = CHR ''B'' then do { found \<leftarrow> str_to_cpuset optarg; ok (opts\<lparr>op_cpumask := found\<rparr>) }
        else if c = CHR ''n'' then ok (opts\<lparr>op_max_samples := atoi optarg\<rparr>)
        else if c = CHR ''e'' then ok (set_flag CMD_FLAG_EXTENDED_OUTPUT opts)
        else if c = CHR ''A'' then ok (set_flag CMD_FLAG_ACUM_SAMPLES opts)
        else if c = CHR ''k'' then ok (opts\<lparr>op_kernel_buffer_size := atoi optarg\<rparr>)
        else if c = CHR ''S'' then ok (set_flag CMD_FLAG_SYSTEM_WIDE_MODE opts)
        else if c = CHR ''r'' then ok (set_flag CMD_FLAG_RAW_PMC_FORMAT opts)
        else if c = CHR ''P'' then ok (opts\<lparr>op_pmu_id := atoi optarg\<rparr>)
        else if c = CHR ''L'' then ok (set_flag CMD_FLAG_LEGACY_OUTPUT opts)
        else if c = CHR ''t'' then ok (set_flag CMD_FLAG_SHOW_CHILD_TIMES opts)
        else if c = CHR ''N'' then ok (opts\<lparr>op_timeout_secs := atoi optarg\<rparr>)
        else if c = CHR ''p'' then ok (opts\<lparr>op_target_pid := atoi optarg\<rparr>)
        else if c = CHR ''s'' then ok (set_flag CMD_FLAG_SHOW_TIME_SECS opts)
        else if c = CHR ''E'' then ok (set_flag CMD_FLAG_SHOW_ELAPSED_TIME opts)
        else if c = CHR ''K'' then ok (opts\<lparr>op_max_ebs_samples := atoi optarg\<rparr>)
        else Some (Inl 1))"

text \<open>The options that \<^verbatim>\<open>main\<close> starts with, from what \<^verbatim>\<open>getopt\<close> gives and if there is a command.\<close>

definition command_line ::
  "(string \<Rightarrow> int) \<Rightarrow> string list option \<Rightarrow> bool \<Rightarrow> pmu_info_t option \<Rightarrow> int \<Rightarrow> (char \<times> string) list \<Rightarrow> bool \<Rightarrow> options result" where
  "command_line secs vci writable pmu nr_pmus args has_command =
     result_bind (each_result (one_option secs vci writable) args init_options) (\<lambda>opts.
       if check_options opts has_command \<noteq> 0 then Some (Inl 1)
       else do { (opts, r) \<leftarrow> parse_pmc_configuration pmu nr_pmus opts; if r \<noteq> 0 then Some (Inl 1) else Some (Inr opts) })"

section \<open>Threads of a process\<close>

record pid_status_t =
  st_pid :: int
  st_attached :: bool

text \<open>\<open>tasks\<close> are the names of the entries of \<^verbatim>\<open>/proc/<pid>/task\<close>, \<open>sights\<close> what the kernel sees of a thread; \<open>mem\<close>: there is memory for the set.\<close>

definition filter_entry :: "string \<Rightarrow> bool" where
  "filter_entry name \<longleftrightarrow> \<not> (name \<noteq> [] \<and> hd name = CHR ''.'')"

definition populate_pid_set :: "bool \<Rightarrow> string list \<Rightarrow> int + pid_status_t list" where
  "populate_pid_set mem tasks =
     (let names = filter filter_entry tasks
      in if names = [] then Inl 1
         else if \<not> mem then Inl 2
         else Inr (map (\<lambda>name. \<lparr>st_pid = atoi name, st_attached = False\<rparr>) names))"

type_synonym sights = "int \<Rightarrow> (look \<times> look list) \<times> look \<times> look list"

text \<open>The threads but the one attached first; the number of those attached.\<close>

fun attach_others ::
  "'m env \<Rightarrow> bool \<Rightarrow> sights \<Rightarrow> int \<Rightarrow> pid_status_t list \<Rightarrow> 'm sys \<times> nat \<Rightarrow> ('m sys \<times> pid_status_t list \<times> nat) option" where
  "attach_others ev opened sights pid [] (s, n) = Some (s, [], n)"
| "attach_others ev opened sights pid (p # ps) (s, n) =
     (if st_pid p = pid then do {
        (s, ps, n) \<leftarrow> attach_others ev opened sights pid ps (s, n);
        Some (s, p\<lparr>st_attached := True\<rparr> # ps, n)
      }
      else do {
        (s, r) \<leftarrow> pmct_attach_process ev opened (fst (sights (st_pid p))) (snd (sights (st_pid p))) s (st_pid p) True;
        (s, ps, n) \<leftarrow> attach_others ev opened sights pid ps (s, if r < 0 then n else n + 1);
        Some (s, (if r < 0 then p else p\<lparr>st_attached := True\<rparr>) # ps, n)
      })"

definition attach_pid_set ::
  "'m env \<Rightarrow> bool \<Rightarrow> sights \<Rightarrow> pid_status_t list \<Rightarrow> int \<Rightarrow> 'm sys \<Rightarrow> ('m sys \<times> pid_status_t list \<times> int) option" where
  "attach_pid_set ev opened sights ps pid s = do {
     (s, r) \<leftarrow> pmct_attach_process ev opened (fst (sights pid)) (snd (sights pid)) s pid True;
     if r < 0 then Some (s, ps, - 1)
     else do { (s, ps, n) \<leftarrow> attach_others ev opened sights pid ps (s, 1); Some (s, ps, int n) }
   }"

fun detach_pid_set :: "'m env \<Rightarrow> bool \<Rightarrow> sights \<Rightarrow> pid_status_t list \<Rightarrow> 'm sys \<Rightarrow> ('m sys \<times> pid_status_t list) option" where
  "detach_pid_set ev opened sights [] s = Some (s, [])"
| "detach_pid_set ev opened sights (p # ps) s = do {
     s \<leftarrow> (if st_attached p then map_option fst (pmct_detach_process ev opened (fst (sights (st_pid p))) s (st_pid p)) else Some s);
     (s, ps) \<leftarrow> detach_pid_set ev opened sights ps s;
     Some (s, p\<lparr>st_attached := False\<rparr> # ps)
   }"

section \<open>Modes\<close>

text \<open>The counters of a table: those of the strings, or those the kernel has (\<open>in_kernel\<close>: mask, number and number of experiments).\<close>

definition gather_info :: "options \<Rightarrow> (u32 \<times> nat \<times> nat) option \<Rightarrow> (options \<times> u32 \<times> nat \<times> bool \<times> nat) result" where
  "gather_info opts in_kernel =
     (if op_strcfg opts \<noteq> [] then do {
        (msk, n, ebs, nr) \<leftarrow> pmct_check_counter_config (op_strcfg opts);
        Some (if op_nr_virtual_counters opts = 0 \<and> n = 0 then Inl 1 else Inr (opts, msk, n, ebs, nr))
      }
      else Some (case in_kernel of
          None \<Rightarrow> Inl 1
        | Some (msk, n, nr) \<Rightarrow>
            if op_nr_virtual_counters opts = 0 \<and> n = 0 then Inl 1
            else Inr (if n \<noteq> 0 then set_flag CMD_FLAG_KERNEL_DRIVES_PMCS opts else opts, msk, n, False, nr)))"

fun steps :: "('m sys \<Rightarrow> ('m sys \<times> int) option) list \<Rightarrow> 'm sys \<Rightarrow> ('m sys \<times> int) option" where
  "steps [] s = Some (s, 0)"
| "steps (f # fs) s = do { (s, r) \<leftarrow> f s; if r \<noteq> 0 then Some (s, r) else steps fs s }"

definition when_set :: "bool \<Rightarrow> ('m sys \<Rightarrow> ('m sys \<times> int) option) \<Rightarrow> 'm sys \<Rightarrow> ('m sys \<times> int) option" where
  "when_set b f s = (if b then f s else Some (s, 0))"

definition buffer_size :: "'m env \<Rightarrow> bool \<Rightarrow> options \<Rightarrow> 'm sys \<Rightarrow> ('m sys \<times> int) option" where
  "buffer_size ev opened opts = when_set (op_kernel_buffer_size opts \<noteq> -1)
     (\<lambda>s. pmct_set_kernel_buffer_size ev opened s (word_of_int (op_kernel_buffer_size opts)))"

definition counters_and_period :: "'m env \<Rightarrow> bool \<Rightarrow> options \<Rightarrow> nat \<Rightarrow> u64 \<Rightarrow> ('m sys \<Rightarrow> ('m sys \<times> int) option) list" where
  "counters_and_period ev opened opts npmcs flags =
     [when_set (op_strcfg opts \<noteq> []) (\<lambda>s. pmct_config_counters ev opened s (op_strcfg opts) flags),
      \<lambda>s. pmct_config_timeout ev opened s (op_msecs opts) (op_strcfg opts = [] \<and> npmcs \<noteq> 0),
      case op_virtcfg opts of None \<Rightarrow> (\<lambda>s. Some (s, 0)) | Some cfg \<Rightarrow> (\<lambda>s. pmct_config_virtual_counters ev opened s cfg flags)]"

text \<open>What the child does before it becomes the command, what is done before the child in system-wide mode, and before the threads of a
  process are attached.\<close>

definition child_setup :: "'m env \<Rightarrow> bool \<Rightarrow> options \<Rightarrow> nat \<Rightarrow> 'm sys \<Rightarrow> ('m sys \<times> int) option" where
  "child_setup ev opened opts npmcs = steps
     ([buffer_size ev opened opts,
       \<lambda>s. if op_max_ebs_samples opts > 0
         then map_option (\<lambda>r. (fst r, 0)) (pmct_config_max_ebs_samples ev opened s (word_of_int (op_max_ebs_samples opts))) else Some (s, 0)]
      @ counters_and_period ev opened opts npmcs 0 @ [pmct_start_counting ev opened])"

definition syswide_setup :: "'m env \<Rightarrow> bool \<Rightarrow> options \<Rightarrow> nat \<Rightarrow> 'm sys \<Rightarrow> ('m sys \<times> int) option" where
  "syswide_setup ev opened opts npmcs = steps
     ([buffer_size ev opened opts] @ counters_and_period ev opened opts npmcs PMCT_CONFIG_SYSWIDE @ [pmct_syswide_start_counting ev opened])"

definition attach_setup :: "'m env \<Rightarrow> bool \<Rightarrow> options \<Rightarrow> nat \<Rightarrow> 'm sys \<Rightarrow> ('m sys \<times> int) option" where
  "attach_setup ev opened opts npmcs = steps ([buffer_size ev opened opts] @ counters_and_period ev opened opts npmcs 0)"

end
