(* ===== verification/ControlProps.thy ===== *)
theory ControlProps
  imports LibCore ParserProps PmuSetup
begin

text \<open>
  Properties of the control of a thread's counters, from the library's calls down to the sets of event configurations.
\<close>

section \<open>The line end\<close>

text \<open>The library ends its lines with a newline, which no format has.\<close>

lemma is_space_newline [simp]: "is_space NL" by (simp add: is_space_def NL_def Let_def)

lemma dropWhile_newline:
  "dropWhile is_space (t @ [NL]) = (if dropWhile is_space t = [] then [] else dropWhile is_space t @ [NL])"
  by (induction t) simp_all

lemma scan_digits_newline: "scan_digits b v (t @ [NL]) = (fst (scan_digits b v t), snd (scan_digits b v t) @ [NL])"
proof (induction t arbitrary: v)
  case Nil
  then show ?case by (simp add: digit_value_def NL_def Let_def)
qed (auto split: option.splits)

lemma is_digit_newline [simp]: "\<not> is_digit b NL" by (simp add: is_digit_def digit_value_def NL_def Let_def)

lemma radix_newline:
  assumes "t \<noteq> []"
  shows "radix b (t @ [NL]) = (fst (radix b t), snd (radix b t) @ [NL])"
proof -
  obtain x r where t: "t = x # r" using assms by (cases t) auto
  show ?thesis
  proof (cases r)
    case Nil
    then show ?thesis by (auto simp: radix_def t)
  next
    case (Cons y s)
    then show ?thesis by (cases s) (auto simp: radix_def t)
  qed
qed

text \<open>A number after the blanks and the sign.\<close>

definition number_at :: "bool \<Rightarrow> nat \<Rightarrow> bool \<Rightarrow> bool \<Rightarrow> string \<Rightarrow> (u32 \<times> string) option" where
  "number_at libc b sg neg s = (if s = [] \<or> \<not> is_digit (if b = 16 then 16 else 10) (hd s) then None
     else (let (c, ds) = radix b s; (v, r) = scan_digits c 0 ds; n = (if neg then - int v else int v);
             n = (if \<not> libc then n else if sg then max (- (2 ^ 63)) (min (2 ^ 63 - 1) n)
               else if int v > 2 ^ 64 - 1 then 2 ^ 64 - 1 else n) in Some (word_of_int n, r)))"

lemma scan_number_at:
  assumes "dropWhile is_space s = u" and "u \<noteq> []" and "neg \<longleftrightarrow> (libc \<or> sg) \<and> hd u = CHR ''-''"
  shows "scan_number libc b sg s = number_at libc b sg neg (if neg \<or> (libc \<and> hd u = CHR ''+'') then tl u else u)"
proof -
  have u: "(u \<noteq> []) = True" using assms(2) by simp
  show ?thesis unfolding scan_number_def Let_def assms(1,3) number_at_def u simp_thms by (rule TrueI)
qed

lemma number_at_newline: "number_at libc b sg neg (s @ [NL]) = map_option (\<lambda>(v, r). (v, r @ [NL])) (number_at libc b sg neg s)"
  by (cases "s = []") (simp_all add: number_at_def radix_newline scan_digits_newline Let_def split: prod.split)

lemma scan_number_newline: "scan_number libc b sg (t @ [NL]) = map_option (\<lambda>(v, r). (v, r @ [NL])) (scan_number libc b sg t)"
proof (cases "dropWhile is_space t = []")
  case True
  then show ?thesis by (simp only: scan_number_def dropWhile_newline if_True Let_def) simp
next
  case False
  then have w: "dropWhile is_space (t @ [NL]) = dropWhile is_space t @ [NL]" by (simp only: dropWhile_newline if_False)
  define u where "u = dropWhile is_space t"
  define neg where "neg = ((libc \<or> sg) \<and> hd u = CHR ''-'')"
  have u: "u \<noteq> []" using False unfolding u_def .
  then have h: "hd (u @ [NL]) = hd u" "tl (u @ [NL]) = tl u @ [NL]" by simp_all
  have "scan_number libc b sg t = number_at libc b sg neg (if neg \<or> (libc \<and> hd u = CHR ''+'') then tl u else u)"
    using u by (intro scan_number_at) (simp_all only: u_def neg_def not_False_eq_True)
  moreover have "scan_number libc b sg (t @ [NL]) =
      number_at libc b sg neg (if neg \<or> (libc \<and> hd (u @ [NL]) = CHR ''+'') then tl (u @ [NL]) else u @ [NL])"
    using w h(1) by (intro scan_number_at) (simp_all only: u_def neg_def, simp)
  ultimately show ?thesis by (simp add: h number_at_newline)
qed

lemma scan_newline: "Lit NL \<notin> set ds \<Longrightarrow> scan libc ds (t @ [NL]) = scan libc ds t"
proof (induction libc ds t rule: scan.induct)
  case (2 libc c ds s)
  then show ?case by (cases s) auto
next
  case (3 libc ds s)
  then show ?case by (cases "dropWhile is_space s = []") (simp_all add: dropWhile_newline del: dropWhile_eq_Nil_conv)
next
  case (4 libc base sg ds s)
  then show ?case by (auto simp: scan_number_newline split: option.splits)
qed simp

lemma sscanf_newline: "Lit NL \<notin> set (directives f) \<Longrightarrow> sscanf libc (t @ [NL]) f = sscanf libc t f"
  by (simp add: sscanf_def scan_newline)

lemma value_flag_newline:
  assumes "Lit NL \<notin> set (directives f1)" and "Lit NL \<notin> set (directives f2)"
  shows "value_flag f1 f2 g (t @ [NL]) s = value_flag f1 f2 g t s"
  unfolding value_flag_def sscanf_newline [OF assms(1)] sscanf_newline [OF assms(2)] by (rule refl)

lemma bit_flag_newline:
  assumes "Lit NL \<notin> set (directives f)"
  shows "bit_flag f g (t @ [NL]) s = bit_flag f g t s"
  unfolding bit_flag_def sscanf_newline [OF assms] by (rule refl)

lemma no_newline:
  "Lit NL \<notin> set (directives ''pmc%i=%x'')" "Lit NL \<notin> set (directives ''umask%i=%x'')" "Lit NL \<notin> set (directives ''um%i=%x'')"
  "Lit NL \<notin> set (directives ''cmask%i=%x'')" "Lit NL \<notin> set (directives ''cm%i=%x'')" "Lit NL \<notin> set (directives ''usr%i=%d'')"
  "Lit NL \<notin> set (directives ''os%i=%d'')" "Lit NL \<notin> set (directives ''edge%i=%d'')" "Lit NL \<notin> set (directives ''inv%i=%d'')"
  "Lit NL \<notin> set (directives ''any%i=%d'')" "Lit NL \<notin> set (directives ''ebs%i=%d'')" "Lit NL \<notin> set (directives ''coretype=%d'')"
  "Lit NL \<notin> set (directives ''virt%i'')"
  by (simp_all add: NL_def)

lemma flag_newline:
  "pmc_flag (t @ [NL]) s = pmc_flag t s"
  "ebs_flag e (t @ [NL]) s = ebs_flag e t s"
  "coretype_flag (t @ [NL]) s = coretype_flag t s"
  by (simp_all only: pmc_flag_def ebs_flag_def coretype_flag_def sscanf_newline no_newline not_False_eq_True)

lemma parse_flag_newline: "parse_flag e (t @ [NL]) s = parse_flag e t s"
  by (simp only: parse_flag_def flag_newline value_flag_newline bit_flag_newline no_newline not_False_eq_True)

lemma parse_flags_snoc_newline: "parse_flags e (ts @ [t @ [NL]]) n s = parse_flags e (ts @ [t]) n s"
  by (induction ts arbitrary: n s) (auto simp: parse_flag_newline split: option.splits)

lemma split_on_snoc: "x \<noteq> c \<Longrightarrow> split_on c (s @ [x]) = butlast (split_on c s) @ [last (split_on c s) @ [x]]"
proof (induction s)
  case (Cons y s)
  then show ?case by (cases "split_on c s") auto
qed simp

lemma parse_newline:
  assumes "length s < PMCTRACK_MAX_LEN_RAW_PMC_STRING - 1"
  shows "parse_pmcs_strconfig (s @ [NL]) e = parse_pmcs_strconfig s e"
proof -
  let ?ts = "split_on (CHR '','') s"
  have "parse_pmcs_strconfig (s @ [NL]) e = parse_flags e (butlast ?ts @ [last ?ts @ [NL]]) 0 empty_config"
    using assms by (simp add: parse_pmcs_strconfig_def split_on_snoc NL_def)
  also have "\<dots> = parse_flags e ?ts 0 empty_config" by (simp add: parse_flags_snoc_newline)
  finally show ?thesis using assms by (simp add: parse_pmcs_strconfig_def)
qed

section \<open>Sets by their addresses\<close>

definition cset_of :: "nat list \<Rightarrow> core_experiment_set_t" where
  "cset_of as = \<lparr>es_exps = map Some as @ replicate (2 - List.length as) None, es_nr_exps = int (List.length as), es_cur_exp = 0\<rparr>"

lemma cset_of_Nil [simp]: "cset_of [] = init_core_experiment_set_t"
  by (simp add: cset_of_def init_core_experiment_set_t_def AMP_MAX_EXP_CORETYPE_def numeral_2_eq_2)

lemma two_cases [consumes 1, case_names zero one two]:
  assumes "n \<le> 2"
  obtains "n = 0" | "n = Suc 0" | "n = Suc (Suc 0)"
  using assms by linarith

lemmas set_ops = rd_def wr_def upt_rec set_exp_def kfree_exp_def numeral_2_eq_2 init_core_experiment_set_t_def AMP_MAX_EXP_CORETYPE_def

text \<open>Cloning with enough memory: new addresses in a row.\<close>

lemma clone_addresses:
  assumes "set_valid k src" and "fresh_ok k" and "kn_oom k = []" and "n = nat (es_nr_exps src)"
  shows "\<exists>E. clone_core_experiment_set_t k src =
      Some (k\<lparr>kn_exps := E, kn_fresh := kn_fresh k + n\<rparr>, cset_of [kn_fresh k..<kn_fresh k + n], 0) \<and>
    (\<forall>a. if kn_fresh k \<le> a \<and> a < kn_fresh k + n then E a \<noteq> None else E a = kn_exps k a)"
proof -
  let ?F = "kn_fresh k"
  have l: "List.length (es_exps src) = 2" and n: "n \<le> 2" and nn: "0 \<le> es_nr_exps src"
    and v: "\<And>i. i < n \<Longrightarrow> \<exists>a ce. es_exps src ! i = Some a \<and> kn_exps k a = Some ce"
    using assms(1,4) by (auto simp: set_valid_def AMP_MAX_EXP_CORETYPE_def)
  have o: "k\<lparr>kn_oom := []\<rparr> = k" "\<And>E f. k\<lparr>kn_exps := E, kn_fresh := f, kn_oom := []\<rparr> = k\<lparr>kn_exps := E, kn_fresh := f\<rparr>"
    "\<And>f. k\<lparr>kn_fresh := f, kn_oom := []\<rparr> = k\<lparr>kn_fresh := f\<rparr>" "\<And>E f. k\<lparr>kn_fresh := f, kn_exps := E\<rparr> = k\<lparr>kn_exps := E, kn_fresh := f\<rparr>"
    using assms(3) by (cases k; simp)+
  have fr: "kn_exps k ?F = None" using assms(2) by (simp add: fresh_ok_def)
  note ev = clone_core_experiment_set_t_def kmalloc_def set_ops cset_of_def assms(3,4) o
  from n show ?thesis
  proof (cases rule: two_cases)
    case zero
    then show ?thesis using nn assms(4) by (intro exI [of _ "kn_exps k"]) (auto simp: ev)
  next
    case one
    then obtain a ce where "es_exps src ! 0 = Some a" "kn_exps k a = Some ce" "nat (es_nr_exps src) = 1"
      using v [of 0] assms(4) by auto
    then show ?thesis using l
      by (intro exI [of _ "(kn_exps k)(?F \<mapsto> ce\<lparr>ce_nr_overflows := replicate MAX_LL_EXPS 0\<rparr>)"]) (simp add: ev)
  next
    case two
    obtain a ce where a: "es_exps src ! 0 = Some a" "kn_exps k a = Some ce" using v [of 0] two by auto
    obtain b cf where b: "es_exps src ! Suc 0 = Some b" "kn_exps k b = Some cf" using v [of "Suc 0"] two by auto
    have "b \<noteq> ?F" using fr b(2) by auto
    then show ?thesis using a b l two assms(4)
      by (intro exI [of _ "(kn_exps k)(?F \<mapsto> ce\<lparr>ce_nr_overflows := replicate MAX_LL_EXPS 0\<rparr>,
        Suc ?F \<mapsto> cf\<lparr>ce_nr_overflows := replicate MAX_LL_EXPS 0\<rparr>)"]) (simp add: ev)
  qed
qed

text \<open>The copies put into a set that was freed, and a set freed.\<close>

lemma install_addresses:
  assumes "List.length as \<le> 2" and "distinct as" and "\<forall>a\<in>set as. kn_exps k a \<noteq> None"
  shows "\<exists>E. clone_core_experiment_set_t_noalloc k init_core_experiment_set_t (cset_of as) = Some (k\<lparr>kn_exps := E\<rparr>, cset_of as) \<and>
    (\<forall>a. if a \<in> set as then E a \<noteq> None else E a = kn_exps k a)"
proof -
  note ev = clone_core_experiment_set_t_noalloc_def cset_of_def set_ops
  from assms(1) show ?thesis
  proof (cases rule: two_cases)
    case zero
    then show ?thesis by (intro exI [of _ "kn_exps k"]) (simp add: ev)
  next
    case one
    then obtain a where "as = [a]" by (auto simp: length_Suc_conv)
    then show ?thesis using assms(3) by (auto simp: ev)
  next
    case two
    then obtain a b where ab: "as = [a, b]" by (auto simp: length_Suc_conv)
    then obtain x y where "kn_exps k a = Some x" "kn_exps k b = Some y" using assms(3) by auto
    then show ?thesis using ab assms(2)
      by (intro exI [of _ "(kn_exps k)(a \<mapsto> x\<lparr>ce_nr_overflows := replicate MAX_LL_EXPS 0\<rparr>,
        b \<mapsto> y\<lparr>ce_nr_overflows := replicate MAX_LL_EXPS 0\<rparr>)"]) (simp add: ev)
  qed
qed

lemma free_addresses:
  assumes "List.length as \<le> 2" and "distinct as" and "\<forall>a\<in>set as. kn_exps k a \<noteq> None"
  shows "free_experiment_set k (cset_of as) =
    Some (k\<lparr>kn_exps := \<lambda>a. if a \<in> set as then None else kn_exps k a\<rparr>, init_core_experiment_set_t)"
proof -
  note ev = free_experiment_set_def free_entry_def cset_of_def set_ops
  from assms(1) show ?thesis
  proof (cases rule: two_cases)
    case zero
    then show ?thesis by (simp add: ev)
  next
    case one
    then obtain a where "as = [a]" by (auto simp: length_Suc_conv)
    then show ?thesis using assms(3) by (auto simp: ev fun_eq_iff)
  next
    case two
    then obtain a b where "as = [a, b]" by (auto simp: length_Suc_conv)
    then show ?thesis using assms(2,3) by (auto simp: ev fun_eq_iff)
  qed
qed

section \<open>A configuration string on its way to the kernel\<close>

lemma c_string_id: "CHR 0x00 \<notin> set s \<Longrightarrow> c_string s = s"
  unfolding c_string_def by (rule takeWhile_eq_all_conv [THEN iffD2]) auto

definition selfcfg :: "string \<Rightarrow> string" where "selfcfg s = ''selfcfg '' @ s @ [NL]"

text \<open>What a program can ask for in its own threads.\<close>

definition sendable :: "string \<Rightarrow> bool" where
  "sendable s \<longleftrightarrow> take 3 s = ''pmc'' \<and> CHR 0x00 \<notin> set s \<and> List.length s \<le> MAX_CONFIG_STRING_SIZE"

lemma selfcfg_not_default: "config_defaults ev (selfcfg s) cfg = None"
  by (simp add: config_defaults_def command_def selfcfg_def sscanf_def)

lemma selfcfg_command:
  assumes "sendable s"
  shows "config_command ev k procs (selfcfg s) len = on_current ev k procs (- 1) (configure_pmcs ev (s @ [NL]) False)"
proof -
  obtain r where "s = ''pmc'' @ r" using assms by (metis sendable_def append_take_drop_id)
  then show ?thesis by (simp add: config_command_def selfcfg_def prefix_of_def)
qed

lemma line_selfcfg:
  assumes "sendable s" and "ev_mem ev" and "ev_copied ev"
  shows "config_line ev True (MAX_CONFIG_STRING_SIZE + 10) (k, procs, cfg) (config_text 0 s) = do {
      (k, procs, val) \<leftarrow> on_current ev k procs (- 1) (configure_pmcs ev (s @ [NL]) False);
      Some ((k, procs, cfg), if val < 0 then - 1 else 0)
    }"
proof -
  have l: "config_text 0 s @ [NL] = selfcfg s" by (simp add: config_text_def selfcfg_def)
  have c: "c_string (selfcfg s) = selfcfg s"
    using assms(1) by (intro c_string_id) (auto simp: selfcfg_def sendable_def NL_def)
  have f: "fits (MAX_CONFIG_STRING_SIZE + 10) (selfcfg s) = Some (selfcfg s)"
    using assms(1) by (simp add: fits_def selfcfg_def sendable_def)
  have n: "List.length (selfcfg s) > 0" by (simp add: selfcfg_def)
  show ?thesis
    using n unfolding config_line_def l f
    by (auto simp: write_config_def proc_pmc_config_write_def Let_def c assms selfcfg_not_default selfcfg_command [OF assms(1)]
      split: Option.bind_splits)
qed

lemma config_one_string:
  assumes "sendable s" and "ev_mem ev" and "ev_copied ev"
  shows "pmct_config_counters ev True (k, procs, cfg) [s] 0 = do {
      (k, procs, val) \<leftarrow> on_current ev k procs (- 1) (configure_pmcs ev (s @ [NL]) False);
      Some ((k, procs, cfg), if val < 0 then - 1 else 0)
    }"
  by (auto simp: pmct_config_counters_def line_selfcfg [OF assms] self_monitoring_def split: Option.bind_splits)

lemma upd_task_same: "task_prof procs pid = Some prof \<Longrightarrow> upd_task procs pid prof = procs"
  by (auto simp: task_prof_def upd_task_def fun_upd_idem split: option.splits)

section \<open>An example\<close>

text \<open>Thread 77 has a configuration for each core type and a buffer, thread 88 is not monitored.\<close>

definition a_buf :: pmc_samples_buffer_t where
  "a_buf = \<lparr>sb_samples = \<lparr>cb_data = [], cb_head = 0, cb_size = 0, cb_max_size = 0\<rparr>, sb_sem = 0, sb_waiting = False, sb_refs = 1\<rparr>"

definition an_env :: "nat env" where
  "an_env = \<lparr>ev_mgr = two_modules, ev_rdpmc = (\<lambda>m i. m (PMC_MSR_INITIAL_ADDRESS + i)), ev_hz = 250, ev_alloc = (\<lambda>_. Some a_buf),
     ev_nr_cpu_ids = 1, ev_here = 0, ev_cur = 77, ev_jiffies = of_int, ev_write_config = None, ev_copied = True, ev_mem = True\<rparr>"

definition kernel1 :: "nat kernel" where
  "kernel1 = (kernel_with 0)\<lparr>kn_pmu_props_cputype := [sample_props], kn_bufs := (\<lambda>_. None)(5 := Some a_buf)\<rparr>"

definition idle_prof :: pmon_prof_t where
  "idle_prof = a_prof\<lparr>pf_enabled := False, pf_pid := 88, pf_pmcs_config := None, pf_pid_monitor := -1,
     pf_multiplex_cfg := [init_core_experiment_set_t, init_core_experiment_set_t]\<rparr>"

definition procs1 :: procs where
  "procs1 = (\<lambda>_. None)(77 := Some (Some (a_prof\<lparr>pf_samples_buffer := Some 5\<rparr>)), 88 := Some (Some idle_prof))"

definition cfg1 :: pmon_config_t where "cfg1 = \<lparr>pc_nticks = 2, pc_kernel_buffer_size = 304\<rparr>"

lemma example_simps [simp]:
  "task_prof procs1 77 = Some (a_prof\<lparr>pf_samples_buffer := Some 5\<rparr>)" "task_prof procs1 88 = Some idle_prof"
  "ev_cur an_env = 77" "ev_mem an_env" "ev_copied an_env" "ev_here an_env = 0" "ev_mgr an_env = two_modules"
  "kn_oom kernel1 = []" "kn_bufs kernel1 5 = Some a_buf" "get_pmu_props_cpu kernel1 0 = Some sample_props"
  by (simp_all add: procs1_def task_prof_def an_env_def kernel1_def kernel_with_def get_pmu_props_cpu_def get_pmu_props_coretype_def
    get_coretype_cpu_def rd_def)

lemma example_memory: "fresh_ok kernel1" "set_valid kernel1 a_set" "cu_hwpmc_mask (mm_module_counter_usage two_modules kernel1) = 0"
  by (auto simp: set_valid_def fresh_ok_def kernel1_def kernel_with_def a_set_def AMP_MAX_EXP_CORETYPE_def nth_Cons less_Suc_eq
    numeral_2_eq_2 mm_module_counter_usage_def cur_module_def two_modules_def counting_module_def)

section \<open>Rejected strings\<close>

text \<open>C12. A string that the kernel module rejects is reported as configured: the parser's error is the number of the wrong flag, the
  write returns it as if it were the number of characters taken, and the library's call succeeds while the counters of the
  thread, and everything else, are as they were.\<close>

theorem rejected_configuration_reported_as_done:
  assumes "sendable s" and "ev_mem ev" and "ev_copied ev" and "task_prof procs (ev_cur ev) = Some prof"
    and "cu_hwpmc_mask (mm_module_counter_usage (ev_mgr ev) k) = 0" and "parse_pmcs_strconfig s True = Inl flag"
  shows "pmct_config_counters ev True (k, procs, cfg) [s] 0 = Some ((k, procs, cfg), 0)"
proof -
  have "0 < flag" using assms(6) parse_flags_wrong by (fastforce simp: parse_pmcs_strconfig_def)
  moreover have "parse_pmcs_strconfig (s @ [NL]) True = Inl flag"
    using assms(1,6) by (simp add: parse_newline sendable_def MAX_CONFIG_STRING_SIZE_def PMCTRACK_MAX_LEN_RAW_PMC_STRING_def)
  ultimately show ?thesis using assms(4,5)
    by (simp add: config_one_string [OF assms(1-3)] on_current_def configure_pmcs_def configure_performance_counters_thread_def
      upd_task_same)
qed

lemma bogus_rejected: "parse_pmcs_strconfig ''pmc0=0x3c,bogus'' True = Inl 2" by code_simp

theorem rejected_configuration_reported_as_done_witness:
  "pmct_config_counters an_env True (kernel1, procs1, cfg1) [''pmc0=0x3c,bogus''] 0 = Some ((kernel1, procs1, cfg1), 0)"
  using rejected_configuration_reported_as_done [OF _ _ _ _ _ bogus_rejected, of an_env procs1] example_memory(3)
  by (simp add: sendable_def MAX_CONFIG_STRING_SIZE_def)

section \<open>A configuration in the sets of a thread\<close>





















section \<open>Attaching and detaching\<close>

lemma copy_set:
  assumes "set_valid k src" and "fresh_ok k" and "kn_oom k = []"
  obtains E as where "clone_core_experiment_set_t k src = Some (k\<lparr>kn_exps := E, kn_fresh := kn_fresh k + List.length as\<rparr>, cset_of as, 0)"
    "List.length as = nat (es_nr_exps src)" "List.length as \<le> 2" "as = [kn_fresh k..<kn_fresh k + List.length as]"
    "\<forall>a. if a \<in> set as then E a \<noteq> None else E a = kn_exps k a"
proof -
  have "nat (es_nr_exps src) \<le> 2" using assms(1) by (auto simp: set_valid_def AMP_MAX_EXP_CORETYPE_def)
  then show thesis
    using clone_addresses [OF assms refl] that [of "[kn_fresh k..<kn_fresh k + nat (es_nr_exps src)]"]
    by (fastforce simp: atLeastLessThan_iff)
qed

text \<open>Both sets of a thread, copied.\<close>

lemma copy_sets:
  assumes "set_valid k s0" and "set_valid k s1" and "fresh_ok k" and "kn_oom k = []"
  obtains E as bs where "clone_sets k [s0, s1] [] =
      Some (k\<lparr>kn_exps := E, kn_fresh := kn_fresh k + List.length as + List.length bs\<rparr>, [cset_of as, cset_of bs], 0)"
    "List.length as = nat (es_nr_exps s0)" "List.length as \<le> 2" "List.length bs \<le> 2" "distinct (as @ bs)"
    "\<forall>a. if a \<in> set (as @ bs) then E a \<noteq> None \<and> kn_exps k a = None else E a = kn_exps k a"
proof -
  obtain E as where e: "clone_core_experiment_set_t k s0 = Some (k\<lparr>kn_exps := E, kn_fresh := kn_fresh k + List.length as\<rparr>, cset_of as, 0)"
    "List.length as = nat (es_nr_exps s0)" "List.length as \<le> 2" "as = [kn_fresh k..<kn_fresh k + List.length as]"
    "\<forall>a. if a \<in> set as then E a \<noteq> None else E a = kn_exps k a"
    by (rule copy_set [OF assms(1,3,4)])
  let ?k = "k\<lparr>kn_exps := E, kn_fresh := kn_fresh k + List.length as\<rparr>"
  have as: "a \<in> set as \<longleftrightarrow> kn_fresh k \<le> a \<and> a < kn_fresh k + List.length as" for a by (subst e(4)) auto
  have n: "kn_exps k a = None" if "kn_fresh k \<le> a" for a using assms(3) that by (simp add: fresh_ok_def)
  have "E a \<noteq> None" if "kn_exps k a \<noteq> None" for a using e(5) that by metis
  then have v: "set_valid ?k s1" using assms(2) unfolding set_valid_def by fastforce
  have f: "fresh_ok ?k" using e(5) n by (auto simp: fresh_ok_def as)
  obtain E' bs where d: "clone_core_experiment_set_t ?k s1 =
      Some (?k\<lparr>kn_exps := E', kn_fresh := kn_fresh ?k + List.length bs\<rparr>, cset_of bs, 0)"
    "List.length bs \<le> 2" "bs = [kn_fresh ?k..<kn_fresh ?k + List.length bs]" "\<forall>a. if a \<in> set bs then E' a \<noteq> None else E' a = kn_exps ?k a"
    using assms(4) by (rule_tac copy_set [OF v f]) simp
  have bs: "b \<in> set bs \<longleftrightarrow> kn_fresh k + List.length as \<le> b \<and> b < kn_fresh k + List.length as + List.length bs" for b
    by (subst d(3)) auto
  have dist: "distinct as" "distinct bs" by (subst e(4), simp, subst d(3), simp)
  show thesis
  proof (rule that [of as bs E'])
    show "clone_sets k [s0, s1] [] =
        Some (k\<lparr>kn_exps := E', kn_fresh := kn_fresh k + List.length as + List.length bs\<rparr>, [cset_of as, cset_of bs], 0)"
      using d(1) by (simp add: e(1))
    show "distinct (as @ bs)" using dist by (auto simp: as bs)
    show "\<forall>a. if a \<in> set (as @ bs) then E' a \<noteq> None \<and> kn_exps k a = None else E' a = kn_exps k a"
    proof
      fix a
      show "if a \<in> set (as @ bs) then E' a \<noteq> None \<and> kn_exps k a = None else E' a = kn_exps k a"
        using spec [OF d(4), of a] spec [OF e(5), of a] n [of a] by (auto simp: as bs split: if_splits)
    qed
  qed (use e d in auto)
qed

lemma install_eq:
  assumes "List.length as \<le> 2" and "List.length bs \<le> 2" and "distinct (as @ bs)" and "\<forall>a\<in>set (as @ bs). kn_exps k a \<noteq> None"
  shows "\<exists>E. foldM (install_set [cset_of as, cset_of bs]) [0..<AMP_MAX_CORETYPES]
      (k, [init_core_experiment_set_t, init_core_experiment_set_t]) = Some (k\<lparr>kn_exps := E\<rparr>, [cset_of as, cset_of bs]) \<and>
    (\<forall>a. if a \<in> set (as @ bs) then E a \<noteq> None else E a = kn_exps k a)"
proof -
  have free: "free_experiment_set q init_core_experiment_set_t = Some (q, init_core_experiment_set_t)" for q :: "'a kernel"
    using free_addresses [of "[]" q] by (simp add: fun_eq_iff)
  obtain E where e: "clone_core_experiment_set_t_noalloc k init_core_experiment_set_t (cset_of as) = Some (k\<lparr>kn_exps := E\<rparr>, cset_of as)"
    "\<forall>a. if a \<in> set as then E a \<noteq> None else E a = kn_exps k a"
    using install_addresses [OF assms(1), of k] assms(3,4) by auto
  have "\<forall>a\<in>set bs. kn_exps (k\<lparr>kn_exps := E\<rparr>) a \<noteq> None"
  proof
    fix a assume a: "a \<in> set bs"
    then have "a \<notin> set as" using assms(3) by auto
    then show "kn_exps (k\<lparr>kn_exps := E\<rparr>) a \<noteq> None" using a assms(4) spec [OF e(2), of a] by auto
  qed
  then obtain E' where d: "clone_core_experiment_set_t_noalloc (k\<lparr>kn_exps := E\<rparr>) init_core_experiment_set_t (cset_of bs) =
      Some (k\<lparr>kn_exps := E'\<rparr>, cset_of bs)" "\<forall>a. if a \<in> set bs then E' a \<noteq> None else E' a = E a"
    using install_addresses [OF assms(2), of "k\<lparr>kn_exps := E\<rparr>"] assms(3) by auto
  have "if a \<in> set (as @ bs) then E' a \<noteq> None else E' a = kn_exps k a" for a
    using spec [OF d(2), of a] spec [OF e(2), of a] by (auto split: if_splits)
  then show ?thesis
    by (intro exI [of _ E'])
      (simp add: install_set_def upd_mux_def AMP_MAX_CORETYPES_def numeral_2_eq_2 upt_rec rd_def wr_def free e(1) d(1))
qed

lemma release_eq:
  assumes "List.length as \<le> 2" and "List.length bs \<le> 2" and "distinct (as @ bs)" and "\<forall>a\<in>set (as @ bs). kn_exps k a \<noteq> None"
  shows "foldM (\<lambda>i. upd_mux i (\<lambda>k cset. do {
       (k, _) \<leftarrow> free_experiment_set k cset;
       Some (k, init_core_experiment_set_t)
     })) [0..<AMP_MAX_CORETYPES] (k, [cset_of as, cset_of bs]) =
     Some (k\<lparr>kn_exps := \<lambda>a. if a \<in> set (as @ bs) then None else kn_exps k a\<rparr>, [init_core_experiment_set_t, init_core_experiment_set_t])"
proof -
  let ?k = "k\<lparr>kn_exps := \<lambda>a. if a \<in> set as then None else kn_exps k a\<rparr>"
  have a: "free_experiment_set k (cset_of as) = Some (?k, init_core_experiment_set_t)"
    using assms by (intro free_addresses) auto
  have b: "free_experiment_set ?k (cset_of bs) =
      Some (?k\<lparr>kn_exps := \<lambda>a. if a \<in> set bs then None else kn_exps ?k a\<rparr>, init_core_experiment_set_t)"
    using assms by (intro free_addresses) auto
  have "(\<lambda>a. if a \<in> set bs then None else kn_exps ?k a) = (\<lambda>a. if a \<in> set (as @ bs) then None else kn_exps k a)" by auto
  then show ?thesis using b
    by (simp add: upd_mux_def AMP_MAX_CORETYPES_def numeral_2_eq_2 upt_rec rd_def wr_def a)
qed

text \<open>What is left to the thread: the mode and the periods of the monitor.\<close>

definition left_by :: "pmon_prof_t \<Rightarrow> u64 \<Rightarrow> pmon_prof_t \<Rightarrow> pmon_prof_t" where
  "left_by monitor now target = (let t = now + scast (pf_jiffies_interval monitor) in
     target\<lparr>pf_mode := pf_mode monitor, pf_virt_counter_mask := pf_virt_counter_mask monitor,
       pf_jiffies_interval := pf_jiffies_interval monitor, pf_nticks_sampling_period := pf_nticks_sampling_period monitor,
       pf_jiffies_timeout := t, pf_timer := (if pf_mode monitor = TBS_USER_MODE then Some t else pf_timer target)\<rparr>)"

lemma attach_asleep:
  assumes t: "pf_multiplex_cfg target = [init_core_experiment_set_t, init_core_experiment_set_t]"
    and ab: "List.length as \<le> 2" "List.length bs \<le> 2" "distinct (as @ bs)" "\<forall>a\<in>set (as @ bs). kn_exps k a \<noteq> None"
    and m: "pf_samples_buffer monitor = Some p" "kn_bufs k p = Some b" "as \<noteq> []"
  shows "\<exists>E. set_up_monitoring_task ev monitor [cset_of as, cset_of bs] cpu False (k, target) =
      Some (k\<lparr>kn_bufs := (kn_bufs k)(p \<mapsto> get_pmc_samples_buffer b), kn_exps := E\<rparr>,
        (left_by monitor (kn_jiffies k) target)\<lparr>pf_samples_buffer := Some p, pf_multiplex_cfg := [cset_of as, cset_of bs],
          pf_pmcs_config := Some (hd as), pf_enabled := True, pf_pid_monitor := sint (pf_pid monitor)\<rparr>) \<and>
    (\<forall>a. if a \<in> set (as @ bs) then E a \<noteq> None else E a = kn_exps k a)"
proof -
  let ?k = "k\<lparr>kn_bufs := (kn_bufs k)(p \<mapsto> get_pmc_samples_buffer b)\<rparr>"
  have u: "upd_buffer k (Some p) (\<lambda>b. Some (Some (get_pmc_samples_buffer b))) = Some ?k" using m(2) by (simp add: upd_buffer_def)
  obtain E where E: "foldM (install_set [cset_of as, cset_of bs]) [0..<AMP_MAX_CORETYPES]
      (?k, [init_core_experiment_set_t, init_core_experiment_set_t]) = Some (?k\<lparr>kn_exps := E\<rparr>, [cset_of as, cset_of bs])"
    "\<forall>a. if a \<in> set (as @ bs) then E a \<noteq> None else E a = kn_exps ?k a"
    using install_eq [OF ab(1-3), of ?k] ab(4) by auto
  have c: "get_cur_experiment_in_set (cset_of as) = Some (Some (hd as))"
    using m(3) ab(1) by (cases as) (simp_all add: get_cur_experiment_in_set_def cset_of_def rd_int_def rd_def)
  show ?thesis using E(2) m(1)
    by (intro exI [of _ E] conjI)
      (simp_all add: set_up_monitoring_task_def u t E(1) c rd_def left_by_def Let_def)
qed

lemma detach_asleep:
  assumes ab: "List.length as \<le> 2" "List.length bs \<le> 2" "distinct (as @ bs)" "\<forall>a\<in>set (as @ bs). kn_exps k a \<noteq> None"
    and t: "pf_multiplex_cfg target = [cset_of as, cset_of bs]" "pf_pmcs_config target \<noteq> None" "pf_samples_buffer target = Some p"
    and b: "kn_bufs k p = Some (get_pmc_samples_buffer b)" "0 < sb_refs b"
  shows "disable_monitoring_task ev cpu False (k, target) =
    Some (k\<lparr>kn_bufs := (kn_bufs k)(p \<mapsto> b), kn_exps := \<lambda>a. if a \<in> set (as @ bs) then None else kn_exps k a\<rparr>,
      target\<lparr>pf_samples_buffer := None, pf_pid_monitor := -1, pf_enabled := False,
        pf_multiplex_cfg := [init_core_experiment_set_t, init_core_experiment_set_t], pf_pmcs_config := None\<rparr>)"
proof -
  have "put_pmc_samples_buffer (get_pmc_samples_buffer b) = Some b" using b(2)
    by (simp add: put_pmc_samples_buffer_def get_pmc_samples_buffer_def)
  then have u: "upd_buffer k (Some p) (\<lambda>b. Some (put_pmc_samples_buffer b)) = Some (k\<lparr>kn_bufs := (kn_bufs k)(p \<mapsto> b)\<rparr>)"
    using b(1) by (simp add: upd_buffer_def)
  show ?thesis using t release_eq [OF ab(1-3), of "k\<lparr>kn_bufs := (kn_bufs k)(p \<mapsto> b)\<rparr>"] ab(4)
    by (simp add: disable_monitoring_task_def u cong: if_cong)
qed

text \<open>C11. Detaching a monitor undoes what attaching it did, for a thread that sleeps at both. When a program with a buffer of samples and
  with counters configured for the first core type attaches to a thread that sleeps and that was never monitored (its sets are empty),
  and the kernel has memory for the copies, the thread is monitored with copies of the program's configurations and shares its buffer;
  when the program detaches it, and it sleeps again, the copies are freed, the reference to the buffer is given back, and the kernel's
  memory and the other threads are as before. To the thread is left the mode and the periods of the monitor, with the timer that
  was set for it.\<close>

theorem detach_undoes_attach:
  assumes "task_prof procs (ev_cur ev) = Some monitor" and "task_prof procs pid = Some target" and "0 \<le> pid"
    and "\<not> in_use target" and "pf_multiplex_cfg target = [init_core_experiment_set_t, init_core_experiment_set_t]"
    and "pf_pmcs_config target = None" and "pf_multiplex_cfg monitor = [s0, s1]" and "set_valid k s0" and "set_valid k s1"
    and "0 < es_nr_exps s0" and "fresh_ok k" and "kn_oom k = []" and "pf_samples_buffer monitor = Some p" and "kn_bufs k p = Some b"
    and "0 < sb_refs b" and "sint (pf_pid monitor) = ev_cur ev"
  shows "\<exists>k' target' k''. pmctrack_pid_attach ev see ((cpu, False, False), looks) k procs pid = Some (k', upd_task procs pid target', 0) \<and>
    pf_enabled target' \<and> pf_pid_monitor target' = ev_cur ev \<and> pf_samples_buffer target' = Some p \<and> pf_pmcs_config target' \<noteq> None \<and>
    kn_bufs k' p = Some (b\<lparr>sb_refs := sb_refs b + 1\<rparr>) \<and>
    pmctrack_pid_detach ev ((cpu', False, False), looks') k' (upd_task procs pid target') pid =
      Some (k'', upd_task procs pid (left_by monitor (kn_jiffies k) target), 0) \<and>
    kn_exps k'' = kn_exps k \<and> kn_bufs k'' = kn_bufs k"
proof -
  obtain E as bs where c: "clone_sets k [s0, s1] [] =
      Some (k\<lparr>kn_exps := E, kn_fresh := kn_fresh k + List.length as + List.length bs\<rparr>, [cset_of as, cset_of bs], 0)"
    "List.length as = nat (es_nr_exps s0)" and l: "List.length as \<le> 2" "List.length bs \<le> 2" "distinct (as @ bs)"
    and E: "\<forall>a. if a \<in> set (as @ bs) then E a \<noteq> None \<and> kn_exps k a = None else E a = kn_exps k a"
    by (rule copy_sets [OF assms(8,9,11,12)])
  let ?k = "k\<lparr>kn_exps := E, kn_fresh := kn_fresh k + List.length as + List.length bs\<rparr>"
  let ?t = "(left_by monitor (kn_jiffies k) target)\<lparr>pf_samples_buffer := Some p, pf_multiplex_cfg := [cset_of as, cset_of bs],
      pf_pmcs_config := Some (hd as), pf_enabled := True, pf_pid_monitor := ev_cur ev\<rparr>"
  have ne: "as \<noteq> []" using c(2) assms(10) by auto
  have s: "\<forall>a\<in>set (as @ bs). kn_exps ?k a \<noteq> None" using E by (auto split: if_splits)
  obtain E' where E': "set_up_monitoring_task ev monitor [cset_of as, cset_of bs] (ev_here ev) False (?k, target) =
      Some (?k\<lparr>kn_bufs := (kn_bufs k)(p \<mapsto> get_pmc_samples_buffer b), kn_exps := E'\<rparr>, ?t)"
    "\<forall>a. if a \<in> set (as @ bs) then E' a \<noteq> None else E' a = E a"
    using attach_asleep [OF assms(5) l s assms(13) _ ne, of b ev "ev_here ev"] assms(14,16) by auto
  let ?k' = "?k\<lparr>kn_bufs := (kn_bufs k)(p \<mapsto> get_pmc_samples_buffer b), kn_exps := E'\<rparr>"
  have att: "pmctrack_pid_attach ev see ((cpu, False, False), looks) k procs pid = Some (?k', upd_task procs pid ?t, 0)"
    using assms(1-4,7) E'(1) c(1) by (simp add: pmctrack_pid_attach_def attach_to_def run_on_task_def)
  let ?k'' = "?k'\<lparr>kn_bufs := kn_bufs k, kn_exps := \<lambda>a. if a \<in> set (as @ bs) then None else E' a\<rparr>"
  have "\<forall>a\<in>set (as @ bs). kn_exps ?k' a \<noteq> None" using E'(2) by (auto split: if_splits)
  from detach_asleep [OF l this, of ?t p b ev "ev_here ev"] have det: "disable_monitoring_task ev (ev_here ev) False (?k', ?t) =
      Some (?k'', left_by monitor (kn_jiffies k) target)"
    using assms(4,6,5,14,15) by (simp add: fun_upd_idem left_by_def Let_def in_use_def cong: if_cong)
  have x: "task_prof (upd_task procs pid ?t) pid = Some ?t" by (simp add: task_prof_def upd_task_def)
  have "pmctrack_pid_detach ev ((cpu', False, False), looks') ?k' (upd_task procs pid ?t) pid =
      Some (?k'', upd_task procs pid (left_by monitor (kn_jiffies k) target), 0)"
    unfolding pmctrack_pid_detach_def x using assms(3) det by (simp add: run_on_task_def upd_task_def cong: if_cong)
  moreover have "kn_exps ?k'' = kn_exps k"
  proof
    fix a
    show "kn_exps ?k'' a = kn_exps k a" using spec [OF E, of a] spec [OF E'(2), of a] by (auto split: if_splits)
  qed
  ultimately show ?thesis using att by (intro exI [of _ ?k'] exI [of _ ?t] exI [of _ ?k'']) (simp add: get_pmc_samples_buffer_def)
qed

theorem detach_undoes_attach_witness:
  "\<exists>k' target' k''. pmctrack_pid_attach an_env ((-1, False, False), []) ((0, False, False), []) kernel1 procs1 88 =
      Some (k', upd_task procs1 88 target', 0) \<and> pf_enabled target' \<and> kn_bufs k' 5 = Some (a_buf\<lparr>sb_refs := 2\<rparr>) \<and>
    pmctrack_pid_detach an_env ((0, False, False), []) k' (upd_task procs1 88 target') 88 =
      Some (k'', upd_task procs1 88 (left_by (a_prof\<lparr>pf_samples_buffer := Some 5\<rparr>) 0 idle_prof), 0) \<and>
    kn_exps k'' = kn_exps kernel1 \<and> kn_bufs k'' = kn_bufs kernel1"
proof -
  let ?m = "a_prof\<lparr>pf_samples_buffer := Some 5\<rparr>"
  have m: "pf_multiplex_cfg ?m = [a_set, a_set]" "pf_samples_buffer ?m = Some 5" "sint (pf_pid ?m) = 77" "0 < es_nr_exps a_set" "0 < sb_refs a_buf"
    by (simp_all add: a_prof_def a_set_def a_buf_def)
  have t: "\<not> in_use idle_prof" "pf_multiplex_cfg idle_prof = [init_core_experiment_set_t, init_core_experiment_set_t]"
    "pf_pmcs_config idle_prof = None"
    by (simp_all add: in_use_def idle_prof_def a_prof_def)
  have j: "kn_jiffies kernel1 = 0" by (simp add: kernel1_def kernel_with_def)
  have "a_buf\<lparr>sb_refs := 2\<rparr> = a_buf\<lparr>sb_refs := sb_refs a_buf + 1\<rparr>" by (simp add: a_buf_def)
  then show ?thesis
    using detach_undoes_attach [of procs1 an_env ?m 88 idle_prof a_set a_set kernel1 5 a_buf "((-1, False, False), [])" 0 "[]" 0 "[]"]
      m t example_memory(1,2) by (simp add: j) blast
qed

end
