(* ===== verification/SampleProps.thy ===== *)
theory SampleProps
  imports CmdTool
begin

text \<open>
  The table of samples: every number stands under its counter, and the sums are those of the samples.
\<close>

section \<open>Positions of counters\<close>

text \<open>The position of a counter among those of a mask.\<close>

definition position :: "u32 \<Rightarrow> nat \<Rightarrow> nat" where "position m j = List.length (columns j m)"

lemma bit_mask_bit [simp]: "bit (mask_bit j) i \<longleftrightarrow> i = j \<and> i < 32"
  by (auto simp: mask_bit_def bit_push_bit_iff bit_1_iff simp del: push_bit_of_1)

lemma columns_Suc: "columns (Suc n) m = columns n m @ (if bit m n then [n] else [])"
  by (simp add: columns_def)

lemma position_Suc: "position m (Suc j) = position m j + (if bit m j then 1 else 0)"
  by (simp add: position_def columns_Suc)

lemma position_mono: "i \<le> j \<Longrightarrow> position m i \<le> position m j"
  by (induction rule: dec_induct) (auto simp: position_Suc)

definition counter_cell :: "u32 \<Rightarrow> u64 list \<Rightarrow> nat \<Rightarrow> string" where
  "counter_cell m counts j = (if bit m j then num_cell (counts ! position m j) else no_cell)"

text \<open>\<open>rem\<close> has the counters of the table that are to come, at least.\<close>

definition pending :: "u32 \<Rightarrow> u32 \<Rightarrow> u32 \<Rightarrow> nat \<Rightarrow> bool" where
  "pending m tbl rem i \<longleftrightarrow> (\<forall>j\<ge>i. bit rem j \<longleftrightarrow> bit tbl j) \<and> (\<forall>j. bit m j \<longrightarrow> bit tbl j)"

lemma pending_empty:
  assumes "pending m tbl 0 i" and "i \<le> j"
  shows "\<not> bit tbl j" and "\<not> bit m j"
proof -
  show "\<not> bit tbl j" using assms by (simp add: pending_def)
  then show "\<not> bit m j" using assms(1) unfolding pending_def by blast
qed

lemma pending_Suc: "pending m tbl rem i \<Longrightarrow> pending m tbl (rem AND NOT (mask_bit i)) (Suc i)"
  by (auto simp: pending_def bit_and_iff bit_not_iff dest: bit_imp_le_length)

lemma pending_skip: "pending m tbl rem i \<Longrightarrow> pending m tbl rem (Suc i)"
  by (simp add: pending_def)

lemma cells_eq:
  assumes "pending m tbl rem i" and "i \<le> n" and "\<forall>j<n. bit m j \<longrightarrow> position m j < List.length counts"
  shows "cells m counts [i..<n] (position m i) rem = Some (map (counter_cell m counts) (filter (bit tbl) [i..<n]))"
  using assms(1,2)
proof (induction "n - i" arbitrary: i rem)
  case 0
  then show ?case by simp
next
  case (Suc k)
  then have i: "i < n" "k = n - Suc i" "Suc i \<le> n" by auto
  then have u: "[i..<n] = i # [Suc i..<n]" by (simp add: upt_conv_Cons)
  show ?case
  proof (cases "rem = 0")
    case True
    have "\<not> bit tbl j" if "i \<le> j" for j by (rule pending_empty(1) [OF Suc.prems(1) [unfolded True] that])
    then have "filter (bit tbl) [i..<n] = []" by (auto simp: filter_empty_conv)
    then show ?thesis using True by (simp add: u)
  next
    case False
    show ?thesis
    proof (cases "bit m i")
      case True
      then have t: "bit tbl i" "position m i < List.length counts" using Suc.prems(1) assms(3) i(1) by (auto simp: pending_def)
      show ?thesis using False True t Suc.hyps(1) [OF i(2) pending_Suc [OF Suc.prems(1)] i(3)]
        by (simp add: u rd_Some position_Suc counter_cell_def)
    next
      case m: False
      have "bit rem i \<longleftrightarrow> bit tbl i" using Suc.prems(1) by (simp add: pending_def)
      then show ?thesis using False m Suc.hyps(1) [OF i(2) pending_skip [OF Suc.prems(1)] i(3)]
        by (simp add: u position_Suc counter_cell_def)
    qed
  qed
qed

lemma cells_row:
  assumes "\<And>j. bit m j \<Longrightarrow> bit tbl j" and "\<forall>j<n. bit m j \<longrightarrow> position m j < List.length counts"
  shows "cells m counts [0..<n] 0 tbl = Some (map (counter_cell m counts) (columns n tbl))"
proof -
  have "pending m tbl tbl 0" using assms(1) by (simp add: pending_def)
  from cells_eq [OF this _ assms(2)] show ?thesis by (simp add: position_def columns_def)
qed

text \<open>Adding the counts of a sample.\<close>

lemma accumulate_counts_eq:
  assumes "pending m tbl rem i" and "i \<le> n" and "position m n \<le> List.length counts" and "position m n \<le> List.length acc"
  shows "\<exists>acc'. accumulate_counts f m counts [i..<n] (position m i) rem acc = Some acc' \<and> List.length acc' = List.length acc \<and>
    (\<forall>r. acc' ! r = (if position m i \<le> r \<and> r < position m n then acc ! r + f (counts ! r) else acc ! r))"
  using assms(1,2,4)
proof (induction "n - i" arbitrary: i rem acc)
  case 0
  then show ?case by auto
next
  case (Suc k)
  then have i: "i < n" "k = n - Suc i" "Suc i \<le> n" by auto
  then have u: "[i..<n] = i # [Suc i..<n]" by (simp add: upt_conv_Cons)
  show ?case
  proof (cases "rem = 0")
    case True
    note z = pending_empty(2) [OF Suc.prems(1) [unfolded True]]
    have "position m j = position m i" if "i \<le> j" for j using that by (induction rule: dec_induct) (simp_all add: position_Suc z)
    from this [OF Suc.prems(2)] have p: "position m n = position m i" .
    have "accumulate_counts f m counts [i..<n] (position m i) rem acc = Some acc" using True by (simp add: u)
    then show ?thesis unfolding p by auto
  next
    case False
    show ?thesis
    proof (cases "bit m i")
      case True
      let ?p = "position m i"
      have p: "?p < position m n" using position_mono [OF i(3), of m] True by (simp add: position_Suc)
      let ?acc = "acc[?p := acc ! ?p + f (counts ! ?p)]"
      obtain acc' where a: "accumulate_counts f m counts [Suc i..<n] (position m (Suc i)) (rem AND NOT (mask_bit i)) ?acc = Some acc'"
        "List.length acc' = List.length ?acc"
        "\<forall>r. acc' ! r = (if position m (Suc i) \<le> r \<and> r < position m n then ?acc ! r + f (counts ! r) else ?acc ! r)"
        using Suc.hyps(1) [OF i(2) pending_Suc [OF Suc.prems(1)] i(3), of ?acc] Suc.prems(3) by auto
      have "accumulate_counts f m counts [i..<n] ?p rem acc = Some acc'"
        using False True p a(1) assms(3) Suc.prems(3) by (simp add: u rd_Some wr_Some position_Suc)
      moreover have "acc' ! r = (if ?p \<le> r \<and> r < position m n then acc ! r + f (counts ! r) else acc ! r)" for r
        using spec [OF a(3), of r] True p Suc.prems(3) by (cases "r = ?p") (simp_all add: position_Suc)
      ultimately show ?thesis using a(2) by simp
    next
      case m: False
      then show ?thesis using False Suc.hyps(1) [OF i(2) pending_skip [OF Suc.prems(1)] i(3) Suc.prems(3)]
        by (simp add: u position_Suc)
    qed
  qed
qed

lemma position_le: "position m n \<le> n"
  using length_filter_le [of "bit m" "[0..<n]"] by (simp add: position_def columns_def)

lemma accumulate_counts_all:
  assumes "\<And>j. bit m j \<Longrightarrow> bit tbl j" and "List.length counts = n" and "List.length acc = n"
  shows "\<exists>acc'. accumulate_counts f m counts [0..<n] 0 tbl acc = Some acc' \<and> List.length acc' = n \<and>
    (\<forall>r. acc' ! r = (if r < position m n then acc ! r + f (counts ! r) else acc ! r))"
proof -
  have "pending m tbl tbl 0" using assms(1) by (simp add: pending_def)
  from accumulate_counts_eq [OF this, of n counts acc f] show ?thesis
    using assms position_le [of m n] by (simp add: position_def columns_def)
qed

section \<open>The sums of a thread\<close>

text \<open>A sample for a table of the counters \<open>pmcs\<close> and \<open>virts\<close>; the counters of thread \<open>p\<close> in experiment \<open>i\<close> are \<open>M p i\<close>.\<close>

definition table_sample :: "(u32 \<Rightarrow> nat \<Rightarrow> u32) \<Rightarrow> nat \<Rightarrow> u32 \<Rightarrow> u32 \<Rightarrow> pmc_sample_t \<Rightarrow> bool" where
  "table_sample M n pmcs virts s \<longleftrightarrow> unat (ps_exp_idx s) < n \<and> ps_pmc_mask s = M (ps_pid s) (unat (ps_exp_idx s)) \<and>
     ps_pmc_mask s AND NOT pmcs = 0 \<and> ps_virt_mask s AND NOT virts = 0 \<and>
     List.length (ps_pmc_counts s) = MAX_PERFORMANCE_COUNTERS \<and> List.length (ps_virtual_counts s) = MAX_VIRTUAL_COUNTERS"

lemma sub_mask: "a AND NOT b = 0 \<Longrightarrow> bit a j \<Longrightarrow> bit b j" for a b :: u32
  by (metis bit_and_iff bit_imp_possible_bit bit_not_iff bit_0_eq bot_apply bot_bool_def)

definition sum_ok :: "pmc_sample_t \<Rightarrow> bool" where
  "sum_ok a \<longleftrightarrow> List.length (ps_pmc_counts a) = MAX_PERFORMANCE_COUNTERS \<and> List.length (ps_virtual_counts a) = MAX_VIRTUAL_COUNTERS"

lemma accumulate_sample:
  assumes "table_sample M n pmcs virts s" and "sum_ok a"
  shows "\<exists>a'. pmct_accumulate_sample (of_nat n) pmcs virts new s a = Some a' \<and> sum_ok a' \<and>
    (\<forall>r. ps_pmc_counts a' ! r = (if r < position (ps_pmc_mask s) MAX_PERFORMANCE_COUNTERS
       then ps_pmc_counts a ! r + ps_pmc_counts s ! r * ucast (of_nat n :: u32) else ps_pmc_counts a ! r)) \<and>
    (if new then ps_pid a' = ps_pid s \<and> ps_exp_idx a' = ps_exp_idx s \<and> ps_pmc_mask a' = ps_pmc_mask s
     else ps_pid a' = ps_pid a \<and> ps_exp_idx a' = ps_exp_idx a \<and> ps_pmc_mask a' = ps_pmc_mask a)"
proof -
  have m: "\<And>j. bit (ps_pmc_mask s) j \<Longrightarrow> bit pmcs j" "\<And>j. bit (ps_virt_mask s) j \<Longrightarrow> bit virts j"
    using assms(1) sub_mask unfolding table_sample_def by blast+
  have l: "List.length (ps_pmc_counts s) = MAX_PERFORMANCE_COUNTERS" "List.length (ps_virtual_counts s) = MAX_VIRTUAL_COUNTERS"
    "List.length (ps_pmc_counts a) = MAX_PERFORMANCE_COUNTERS" "List.length (ps_virtual_counts a) = MAX_VIRTUAL_COUNTERS"
    using assms by (simp_all add: table_sample_def sum_ok_def)
  have "\<exists>c. accumulate_counts (\<lambda>v. v * ucast (of_nat n :: u32)) (ps_pmc_mask s) (ps_pmc_counts s) [0..<MAX_PERFORMANCE_COUNTERS] 0 pmcs
      (ps_pmc_counts a) = Some c \<and> List.length c = MAX_PERFORMANCE_COUNTERS \<and>
    (\<forall>r. c ! r = (if r < position (ps_pmc_mask s) MAX_PERFORMANCE_COUNTERS
       then ps_pmc_counts a ! r + ps_pmc_counts s ! r * ucast (of_nat n :: u32) else ps_pmc_counts a ! r))"
    by (rule accumulate_counts_all) (use m l in auto)
  moreover have "\<exists>v. accumulate_counts (\<lambda>v. v) (ps_virt_mask s) (ps_virtual_counts s) [0..<MAX_VIRTUAL_COUNTERS] 0 virts (ps_virtual_counts a) =
      Some v \<and> List.length v = MAX_VIRTUAL_COUNTERS \<and> (\<forall>r. v ! r = (if r < position (ps_virt_mask s) MAX_VIRTUAL_COUNTERS
        then ps_virtual_counts a ! r + ps_virtual_counts s ! r else ps_virtual_counts a ! r))"
    by (rule accumulate_counts_all) (use m l in auto)
  ultimately obtain c v where c: "accumulate_counts (\<lambda>v. v * ucast (of_nat n :: u32)) (ps_pmc_mask s) (ps_pmc_counts s)
      [0..<MAX_PERFORMANCE_COUNTERS] 0 pmcs (ps_pmc_counts a) = Some c" "List.length c = MAX_PERFORMANCE_COUNTERS"
    "\<forall>r. c ! r = (if r < position (ps_pmc_mask s) MAX_PERFORMANCE_COUNTERS
       then ps_pmc_counts a ! r + ps_pmc_counts s ! r * ucast (of_nat n :: u32) else ps_pmc_counts a ! r)"
    and v: "accumulate_counts (\<lambda>v. v) (ps_virt_mask s) (ps_virtual_counts s) [0..<MAX_VIRTUAL_COUNTERS] 0 virts (ps_virtual_counts a) = Some v"
      "List.length v = MAX_VIRTUAL_COUNTERS"
    by blast
  show ?thesis
    by (cases new) (simp_all add: pmct_accumulate_sample_def c v sum_ok_def)
qed

text \<open>The samples of a thread in an experiment, and what they add up to.\<close>

definition own :: "u32 \<Rightarrow> nat \<Rightarrow> pmc_sample_t list \<Rightarrow> pmc_sample_t list" where
  "own p i ss = filter (\<lambda>s. ps_pid s = p \<and> unat (ps_exp_idx s) = i) ss"

definition sum_of :: "pmc_sample_t list \<Rightarrow> nat \<Rightarrow> u64" where
  "sum_of ss r = sum_list (map (\<lambda>s. ps_pmc_counts s ! r) ss)"

text \<open>A place of the table that has the samples \<open>os\<close>: the sums are on top of what the memory of the place held, \<open>a0\<close>.\<close>

definition slot_ok :: "pmc_sample_t \<Rightarrow> u32 \<Rightarrow> nat \<Rightarrow> u32 \<Rightarrow> nat \<Rightarrow> pmc_sample_t list \<Rightarrow> bool \<Rightarrow> nat \<Rightarrow> pmc_sample_t \<Rightarrow> bool" where
  "slot_ok a0 msk n p i os seen cnt a \<longleftrightarrow> sum_ok a \<and> (seen \<longleftrightarrow> os \<noteq> []) \<and>
     (\<forall>r < position msk MAX_PERFORMANCE_COUNTERS.
        ps_pmc_counts a ! r = ps_pmc_counts a0 ! r + sum_of os r * ucast (of_nat n :: u32)) \<and>
     (os \<noteq> [] \<longrightarrow> cnt = List.length os \<and> ps_pid a = p \<and> unat (ps_exp_idx a) = i \<and> ps_pmc_mask a = msk)"

definition entry_ok :: "nat list \<times> pmc_sample_t list \<Rightarrow> (u32 \<Rightarrow> nat \<Rightarrow> u32) \<Rightarrow> nat \<Rightarrow> pmc_sample_t list \<Rightarrow> pid_ctrl \<Rightarrow> bool" where
  "entry_ok m M n ss e \<longleftrightarrow> List.length (pc_nr_samples_accum e) = MAX_COUNTER_CONFIGS \<and> List.length (pc_acum e) = n \<and>
     (\<forall>i<n. slot_ok (snd m ! i) (M (pc_pid e) i) n (pc_pid e) i (own (pc_pid e) i ss) (bit (pc_exp_mask e) i)
        (pc_nr_samples_accum e ! i) (pc_acum e ! i))"

text \<open>The sizes of the arrays in the memory of a place; nothing is known of what they hold.\<close>

definition memory_sized :: "nat \<Rightarrow> nat list \<times> pmc_sample_t list \<Rightarrow> bool" where
  "memory_sized n m \<longleftrightarrow> List.length (fst m) = MAX_COUNTER_CONFIGS \<and> List.length (snd m) = n \<and> list_all sum_ok (snd m)"

lemma own_snoc: "own p i (ss @ [s]) = own p i ss @ (if ps_pid s = p \<and> unat (ps_exp_idx s) = i then [s] else [])"
  by (simp add: own_def)

lemma position_max: "r < position m MAX_PERFORMANCE_COUNTERS \<Longrightarrow> r < MAX_PERFORMANCE_COUNTERS"
  using position_le [of m MAX_PERFORMANCE_COUNTERS] by simp

lemma new_entry_ok:
  assumes "memory_sized n m" and "p \<notin> ps_pid ` set ss"
  shows "entry_ok m M n ss (new_entry m p)"
proof -
  have "own p i ss = []" for i using assms(2) by (auto simp: own_def filter_empty_conv)
  then show ?thesis using assms(1)
    by (auto simp: entry_ok_def new_entry_def slot_ok_def memory_sized_def sum_of_def list_all_length)
qed

lemma table_add_ok:
  assumes e: "entry_ok m0 M n ss e" and s: "table_sample M n pmcs virts s" and n: "n \<le> MAX_COUNTER_CONFIGS" and p: "pc_pid e = ps_pid s"
  shows "\<exists>e'. add_sample n pmcs virts s e = Some e' \<and> entry_ok m0 M n (ss @ [s]) e' \<and> pc_pid e' = pc_pid e"
proof -
  let ?i = "unat (ps_exp_idx s)" and ?seen = "bit (pc_exp_mask e) (unat (ps_exp_idx s))" and ?a = "pc_acum e ! unat (ps_exp_idx s)"
  have i: "?i < n" "?i < List.length (pc_acum e)" "?i < List.length (pc_nr_samples_accum e)" "?i < 32"
    using s e n by (auto simp: table_sample_def entry_ok_def MAX_COUNTER_CONFIGS_def)
  have slot: "slot_ok (snd m0 ! i) (M (pc_pid e) i) n (pc_pid e) i (own (pc_pid e) i ss) (bit (pc_exp_mask e) i) (pc_nr_samples_accum e ! i)
      (pc_acum e ! i)" if "i < n" for i
    using e that by (simp add: entry_ok_def)
  have m: "ps_pmc_mask s = M (pc_pid e) ?i" using s p by (simp add: table_sample_def)
  have "sum_ok ?a" using slot [OF i(1)] by (simp add: slot_ok_def)
  from accumulate_sample [OF s this, of "\<not> ?seen"] obtain a' where
    a': "pmct_accumulate_sample (of_nat n) pmcs virts (\<not> ?seen) s ?a = Some a'" "sum_ok a'"
    "\<forall>r. ps_pmc_counts a' ! r = (if r < position (ps_pmc_mask s) MAX_PERFORMANCE_COUNTERS
       then ps_pmc_counts ?a ! r + ps_pmc_counts s ! r * ucast (of_nat n :: u32) else ps_pmc_counts ?a ! r)"
    "if \<not> ?seen then ps_pid a' = ps_pid s \<and> ps_exp_idx a' = ps_exp_idx s \<and> ps_pmc_mask a' = ps_pmc_mask s
     else ps_pid a' = ps_pid ?a \<and> ps_exp_idx a' = ps_exp_idx ?a \<and> ps_pmc_mask a' = ps_pmc_mask ?a"
    by blast
  let ?c = "if ?seen then pc_nr_samples_accum e ! ?i + 1 else 1"
  let ?e = "e\<lparr>pc_exp_mask := pc_exp_mask e OR mask_bit ?i, pc_nr_samples_accum := (pc_nr_samples_accum e)[?i := ?c],
      pc_acum := (pc_acum e)[?i := a']\<rparr>"
  have "add_sample n pmcs virts s e = Some ?e" using i a'(1) by (simp add: add_sample_def rd_Some wr_Some Let_def)
  moreover have "slot_ok (snd m0 ! i) (M (pc_pid e) i) n (pc_pid e) i (own (pc_pid e) i (ss @ [s])) (bit (pc_exp_mask ?e) i)
      (pc_nr_samples_accum ?e ! i) (pc_acum ?e ! i)" if "i < n" for i
  proof (cases "i = ?i")
    case False
    then show ?thesis using slot [OF that] by (simp add: own_snoc bit_or_iff)
  next
    case True
    have "ps_pmc_counts a' ! r = ps_pmc_counts (snd m0 ! ?i) ! r + sum_of (own (pc_pid e) ?i ss @ [s]) r * ucast (of_nat n :: u32)"
      if "r < position (M (pc_pid e) ?i) MAX_PERFORMANCE_COUNTERS" for r
      using spec [OF a'(3), of r] slot [OF i(1)] that m by (simp add: slot_ok_def sum_of_def distrib_right add_ac)
    then show ?thesis using True slot [OF i(1)] a'(2,4) m p i
      by (auto simp: own_snoc bit_or_iff slot_ok_def)
  qed
  moreover have "List.length (pc_nr_samples_accum ?e) = MAX_COUNTER_CONFIGS" "List.length (pc_acum ?e) = n"
    using e by (simp_all add: entry_ok_def)
  ultimately show ?thesis by (simp add: entry_ok_def)
qed

definition table_ok :: "table_memory \<Rightarrow> (u32 \<Rightarrow> nat \<Rightarrow> u32) \<Rightarrow> nat \<Rightarrow> pmc_sample_t list \<Rightarrow> pid_ctrl list \<Rightarrow> bool" where
  "table_ok mem M n ss tbl \<longleftrightarrow> (\<forall>j < List.length tbl. entry_ok (mem j) M n ss (tbl ! j)) \<and> distinct (map pc_pid tbl) \<and> pc_pid ` set tbl = ps_pid ` set ss"

lemma find_pid_cases:
  obtains (old) us e vs where "tbl = us @ e # vs" "pc_pid e = p" "find_pid tbl p = List.length us"
  | (new) "p \<notin> pc_pid ` set tbl" "find_pid tbl p = List.length tbl"
proof (cases "p \<in> pc_pid ` set tbl")
  case True
  then obtain us e vs where "tbl = us @ e # vs" "pc_pid e = p" "\<forall>u\<in>set us. pc_pid u \<noteq> p"
    using split_list_first_prop [of tbl "\<lambda>e. pc_pid e = p"] by auto
  then show thesis by (intro old) (simp_all add: find_pid_def)
next
  case False
  then have "takeWhile (\<lambda>e. pc_pid e \<noteq> p) tbl = tbl" by (auto simp: takeWhile_eq_all_conv)
  then have "find_pid tbl p = List.length tbl" unfolding find_pid_def by (rule arg_cong)
  then show thesis by (rule new [OF False])
qed

lemma other_entry: "entry_ok m M n ss e \<Longrightarrow> pc_pid e \<noteq> ps_pid s \<Longrightarrow> entry_ok m M n (ss @ [s]) e"
  by (simp add: entry_ok_def own_snoc)

lemma table_step:
  assumes t: "table_ok mem M n ss tbl" and j: "j < List.length tbl"
    and e': "entry_ok (mem j) M n (ss @ [s]) e'" "pc_pid e' = pc_pid (tbl ! j)" "pc_pid (tbl ! j) = ps_pid s"
  shows "table_ok mem M n (ss @ [s]) (tbl[j := e'])"
proof -
  have d: "distinct (map pc_pid tbl)" and p: "pc_pid ` set tbl = ps_pid ` set ss" using t by (simp_all add: table_ok_def)
  have m: "map pc_pid (tbl[j := e']) = map pc_pid tbl" using e'(2) j by (simp add: map_update list_update_same_conv)
  have "entry_ok (mem i) M n (ss @ [s]) (tbl[j := e'] ! i)" if i: "i < List.length tbl" for i
  proof (cases "i = j")
    case True
    then show ?thesis using e'(1) j by simp
  next
    case False
    then have "pc_pid (tbl ! i) \<noteq> ps_pid s" using nth_eq_iff_index_eq [OF d, of i j] i j e'(3) by simp
    then show ?thesis using t i False by (simp add: table_ok_def other_entry)
  qed
  moreover have "pc_pid ` set (tbl[j := e']) = ps_pid ` set (ss @ [s])"
    using arg_cong [OF m, of set] p imageI [OF nth_mem [OF j], of pc_pid] e'(3) by auto
  ultimately show ?thesis using d m by (simp add: table_ok_def)
qed

lemma accumulate_ok:
  assumes t: "table_ok mem M n ss tbl" and s: "table_sample M n pmcs virts s" and n: "n \<le> MAX_COUNTER_CONFIGS"
    and f: "memory_sized n (mem (List.length tbl))" and room: "card (ps_pid ` set (ss @ [s])) \<le> MAX_THREADS_APP"
  shows "\<exists>tbl'. accumulate mem n pmcs virts s tbl = Some tbl' \<and> table_ok mem M n (ss @ [s]) tbl'"
proof (cases tbl "ps_pid s" rule: find_pid_cases)
  case (old us e vs)
  have j: "List.length us < List.length tbl" "tbl ! List.length us = e" using old(1) by simp_all
  have "entry_ok (mem (List.length us)) M n ss e" using t j by (auto simp: table_ok_def)
  from table_add_ok [OF this s n old(2)] obtain e' where e': "add_sample n pmcs virts s e = Some e'"
    "entry_ok (mem (List.length us)) M n (ss @ [s]) e'" "pc_pid e' = pc_pid e" by blast
  have "accumulate mem n pmcs virts s tbl = Some (tbl[List.length us := e'])"
    using old(3) j e'(1) by (simp add: accumulate_def rd_Some wr_Some)
  then show ?thesis using table_step [OF t j(1) e'(2)] e'(3) j(2) old(2) by auto
next
  case new
  have d: "distinct (map pc_pid tbl)" and p: "pc_pid ` set tbl = ps_pid ` set ss" using t by (simp_all add: table_ok_def)
  then have "List.length tbl = card (ps_pid ` set ss)" by (metis distinct_card length_map set_map)
  moreover have "card (ps_pid ` set (ss @ [s])) = Suc (card (ps_pid ` set ss))" using new(1) p by (simp add: card_insert_if)
  ultimately have l: "List.length tbl < MAX_THREADS_APP" using room by simp
  let ?m = "mem (List.length tbl)" let ?e = "new_entry ?m (ps_pid s)"
  have ne: "pc_pid ?e = ps_pid s" by (simp add: new_entry_def)
  have ok: "entry_ok ?m M n ss ?e" using new(1) p by (intro new_entry_ok [OF f]) simp
  from table_add_ok [OF this s n ne] obtain e' where e': "add_sample n pmcs virts s ?e = Some e'" "entry_ok ?m M n (ss @ [s]) e'"
    "pc_pid e' = pc_pid ?e" by blast
  have "accumulate mem n pmcs virts s tbl = Some (tbl @ [e'])"
    using new l e'(1) by (simp add: accumulate_def rd_Some wr_Some)
  moreover have "entry_ok (mem j) M n (ss @ [s]) (tbl ! j)" if "j < List.length tbl" for j
  proof (rule other_entry)
    show "entry_ok (mem j) M n ss (tbl ! j)" using t that by (simp add: table_ok_def)
    show "pc_pid (tbl ! j) \<noteq> ps_pid s" using new(1) imageI [OF nth_mem [OF that], of pc_pid] by metis
  qed
  then have "table_ok mem M n (ss @ [s]) (tbl @ [e'])" using t e' ne new(1) by (auto simp: table_ok_def nth_append less_Suc_eq)
  ultimately show ?thesis by blast
qed

text \<open>C13. The table of \<^verbatim>\<open>pmctrack -A\<close> adds up the samples. When the samples come from at most 256 threads, and those of a thread
  in an experiment have the same counters, all of them columns of the table, every sample is taken, and each thread and experiment
  with a sample has a row: the number of its samples, and under each counter of the experiment the sum of that counter's values,
  scaled by the number of experiments, on top of what the memory of the row held before, with a dash under the others. The program does not
  clear that memory: the row shows the sum itself only when \<^verbatim>\<open>malloc\<close> happened to give zeros.\<close>

theorem table_shows_the_sums:
  assumes "n \<le> MAX_COUNTER_CONFIGS" and "\<And>j. memory_sized n (mem j)" and "list_all (table_sample M n pmcs virts) ss"
    and "card (ps_pid ` set ss) \<le> MAX_THREADS_APP" and "own p i ss \<noteq> []"
  shows "\<exists>tbl a x. foldM (accumulate mem n pmcs virts) ss [] = Some tbl \<and> x < List.length tbl \<and> pc_pid (tbl ! x) = p \<and>
    a = pc_acum (tbl ! x) ! i \<and> (List.length (own p i ss), a) \<in> set (accumulated_rows n tbl) \<and> ps_pid a = p \<and> unat (ps_exp_idx a) = i \<and>
    cells (ps_pmc_mask a) (ps_pmc_counts a) [0..<MAX_PERFORMANCE_COUNTERS] 0 pmcs =
      Some (map (\<lambda>j. if bit (M p i) j
          then num_cell (ps_pmc_counts (snd (mem x) ! i) ! position (M p i) j + sum_of (own p i ss) (position (M p i) j) * of_nat n)
          else no_cell)
        (columns MAX_PERFORMANCE_COUNTERS pmcs))"
proof -
  have "\<exists>tbl. foldM (accumulate mem n pmcs virts) ss [] = Some tbl \<and> table_ok mem M n ss tbl" using assms(3,4)
  proof (induction ss rule: rev_induct)
    case Nil
    then show ?case by (simp add: table_ok_def)
  next
    case (snoc s ss)
    have "card (ps_pid ` set ss) \<le> card (ps_pid ` set (ss @ [s]))" by (intro card_mono) auto
    with snoc obtain tbl where tbl: "foldM (accumulate mem n pmcs virts) ss [] = Some tbl" "table_ok mem M n ss tbl" by auto
    have "table_sample M n pmcs virts s" using snoc.prems(1) by simp
    then obtain tbl' where "accumulate mem n pmcs virts s tbl = Some tbl'" "table_ok mem M n (ss @ [s]) tbl'"
      using accumulate_ok [OF tbl(2) _ assms(1) assms(2) snoc.prems(2)] by blast
    then show ?case using tbl(1) by (simp add: foldM_append)
  qed
  then obtain tbl where tbl: "foldM (accumulate mem n pmcs virts) ss [] = Some tbl" "table_ok mem M n ss tbl" by blast
  obtain s where s: "s \<in> set ss" "ps_pid s = p" "unat (ps_exp_idx s) = i" "table_sample M n pmcs virts s"
    using assms(3,5) by (auto simp: own_def filter_empty_conv list_all_iff)
  then have i: "i < n" by (simp add: table_sample_def)
  have "p \<in> pc_pid ` set tbl" using tbl(2) imageI [OF s(1), of ps_pid] s(2) by (simp add: table_ok_def)
  then obtain x where x: "x < List.length tbl" "pc_pid (tbl ! x) = p" by (auto simp: in_set_conv_nth)
  let ?e = "tbl ! x" let ?a = "pc_acum ?e ! i"
  have ok: "slot_ok (snd (mem x) ! i) (M p i) n p i (own p i ss) (bit (pc_exp_mask ?e) i) (pc_nr_samples_accum ?e ! i) ?a"
    using tbl(2) x i by (auto simp: table_ok_def entry_ok_def)
  have row: "(List.length (own p i ss), ?a) \<in> set (accumulated_rows n tbl)"
    using nth_mem [OF x(1)] i ok assms(5) by (force simp: accumulated_rows_def slot_ok_def)
  have m: "ps_pmc_mask ?a = M p i" "List.length (ps_pmc_counts ?a) = MAX_PERFORMANCE_COUNTERS"
    using ok assms(5) by (simp_all add: slot_ok_def sum_ok_def)
  have sub: "bit pmcs j" if "bit (M p i) j" for j using s that sub_mask [of "M p i" pmcs] by (auto simp: table_sample_def)
  have pos: "position (M p i) j < position (M p i) MAX_PERFORMANCE_COUNTERS" if "j < MAX_PERFORMANCE_COUNTERS" "bit (M p i) j" for j
    using position_mono [of "Suc j" MAX_PERFORMANCE_COUNTERS "M p i"] that by (simp add: position_Suc)
  have "cells (M p i) (ps_pmc_counts ?a) [0..<MAX_PERFORMANCE_COUNTERS] 0 pmcs =
      Some (map (counter_cell (M p i) (ps_pmc_counts ?a)) (columns MAX_PERFORMANCE_COUNTERS pmcs))"
    using sub pos m(2) by (intro cells_row) (auto dest: position_max)
  also have "\<dots> = Some (map (\<lambda>j. if bit (M p i) j
        then num_cell (ps_pmc_counts (snd (mem x) ! i) ! position (M p i) j + sum_of (own p i ss) (position (M p i) j) * of_nat n)
        else no_cell) (columns MAX_PERFORMANCE_COUNTERS pmcs))"
  proof -
    have "ucast (of_nat n :: u32) = (of_nat n :: u64)" using assms(1) by (simp add: MAX_COUNTER_CONFIGS_def unsigned_of_nat take_bit_nat_eq_self)
    then have "ps_pmc_counts ?a ! position (M p i) j =
        ps_pmc_counts (snd (mem x) ! i) ! position (M p i) j + sum_of (own p i ss) (position (M p i) j) * of_nat n"
      if "j < MAX_PERFORMANCE_COUNTERS" "bit (M p i) j" for j
      using ok pos [OF that] by (simp add: slot_ok_def)
    then show ?thesis by (simp add: counter_cell_def columns_def)
  qed
  finally have c: "cells (ps_pmc_mask ?a) (ps_pmc_counts ?a) [0..<MAX_PERFORMANCE_COUNTERS] 0 pmcs =
      Some (map (\<lambda>j. if bit (M p i) j
        then num_cell (ps_pmc_counts (snd (mem x) ! i) ! position (M p i) j + sum_of (own p i ss) (position (M p i) j) * of_nat n)
        else no_cell) (columns MAX_PERFORMANCE_COUNTERS pmcs))" by (simp only: m(1))
  show ?thesis using tbl(1) x row ok assms(5) c by (intro exI [of _ tbl] exI [of _ ?a] exI [of _ x]) (simp add: slot_ok_def)
qed

definition two_counts :: "u64 \<Rightarrow> u64 \<Rightarrow> pmc_sample_t" where
  "two_counts v w = zero_sample\<lparr>ps_pid := 7, ps_pmc_mask := 5, ps_pmc_counts := [v, w] @ replicate 9 0\<rparr>"

text \<open>Memory that holds the numbers of an earlier use.\<close>

definition used_memory :: table_memory where
  "used_memory j = (replicate MAX_COUNTER_CONFIGS 9, replicate 2 (two_counts 1000 0))"

theorem table_shows_the_sums_witness:
  "\<exists>tbl a x. foldM (accumulate used_memory 2 7 0) [two_counts 10 1, two_counts 20 2] [] = Some tbl \<and> (2, a) \<in> set (accumulated_rows 2 tbl) \<and>
    a = pc_acum (tbl ! x) ! 0 \<and>
    cells (ps_pmc_mask a) (ps_pmc_counts a) [0..<MAX_PERFORMANCE_COUNTERS] 0 7 = Some [num_cell 1060, no_cell, num_cell 6]"
proof -
  have s: "list_all (table_sample (\<lambda>_ _. 5) 2 7 0) [two_counts 10 1, two_counts 20 2]" "2 \<le> MAX_COUNTER_CONFIGS"
    "card (ps_pid ` set [two_counts 10 1, two_counts 20 2]) \<le> MAX_THREADS_APP" "own 7 0 [two_counts 10 1, two_counts 20 2] \<noteq> []"
    by (simp_all add: table_sample_def own_def two_counts_def zero_sample_def MAX_PERFORMANCE_COUNTERS_def MAX_VIRTUAL_COUNTERS_def
      MAX_COUNTER_CONFIGS_def MAX_THREADS_APP_def)
  have u: "memory_sized 2 (used_memory j)" for j
    by (simp add: memory_sized_def used_memory_def sum_ok_def two_counts_def zero_sample_def MAX_PERFORMANCE_COUNTERS_def
      MAX_VIRTUAL_COUNTERS_def list_all_length)
  have c: "columns MAX_PERFORMANCE_COUNTERS 7 = [0, 1, 2]" "position 5 0 = 0" "position 5 2 = 1" "length (own 7 0 [two_counts 10 1, two_counts 20 2]) = 2"
    "sum_of (own 7 0 [two_counts 10 1, two_counts 20 2]) 0 = 30" "sum_of (own 7 0 [two_counts 10 1, two_counts 20 2]) 1 = 3"
    "bit (5 :: u32) 0" "\<not> bit (5 :: u32) 1" "bit (5 :: u32) 2"
    by code_simp+
  have h: "ps_pmc_counts (snd (used_memory x) ! 0) ! 0 = 1000" "ps_pmc_counts (snd (used_memory x) ! 0) ! 1 = 0" for x
    by (simp_all add: used_memory_def two_counts_def)
  show ?thesis using table_shows_the_sums [where mem = used_memory, OF s(2) u s(1,3,4)] c(2-) h unfolding c(1) by (auto simp: c)
qed

end
