(* ===== verification/Spec2Isabelle.thy ===== *)
theory Spec2Isabelle
  imports Prelude CBuffer BitField HwEvents PmuX86 PmuSetup SizedList Allocator PhaseTable CachePartSet CachePartTiling ThreadStats RdtCore RdtPool Metrics MetricProps
    SampleBuffer ExperimentSet MonitoringMod SysWide Monitor MonitorProps SchedMonitor SchedProps
    UcpLookahead Clusters PairClustering Lfoc ClusterProps LfocProps ClusterEnforce PmcSched SchedPlugins PluginProps CStrings RawConfig EventStrings
    ConfigItems CounterPlacement ConfigProps ParserProps
    Configure Control LibCore SampleTable CmdTool ControlProps SampleProps
begin

text \<open>PMCTrack\<close>

end
